(* ===== verification/Prelude.thy ===== *)
theory Prelude
  imports Complex_Main "HOL-Library.AList" "HOL-Library.Word"
begin

unbundle bit_operations_syntax

text \<open>
  Shared vocabulary of the development: the errors of the Python code as values, its
  insertion-ordered dictionaries as association lists, and the few tensor operations
  (indexed store, indexed read, first maximum, slices) that every component uses.

  A tensor is a list of its rows and an index tensor a list of numbers. Floating-point
  numbers are exact rationals: rounding is not modelled, and every function of the numerical
  library that is not plain data movement is an argument of the definitions that call it.
\<close>

named_theorems dict_simps \<open>reading an association list after a store or a removal\<close>
named_theorems tensor_simps \<open>reading a tensor after an indexed store\<close>

section \<open>Errors\<close>

datatype py_error = RuntimeError | ValueError | KeyError | IndexError | TypeError
  | AssertionError | NotImplementedError | OSError | UnboundLocalError | AttributeError | ZeroDivisionError

type_synonym 'a result = "py_error + 'a"

definition res_bind :: "'a result \<Rightarrow> ('a \<Rightarrow> 'b result) \<Rightarrow> 'b result" where
  "res_bind m f = (case m of Inl e \<Rightarrow> Inl e | Inr x \<Rightarrow> f x)"

lemma res_bind_simps [simp]: "res_bind (Inl e) f = Inl e" "res_bind (Inr x) f = f x"
  by (simp_all add: res_bind_def)

lemma res_bind_Inr_iff: "res_bind m f = Inr y \<longleftrightarrow> (\<exists>x. m = Inr x \<and> f x = Inr y)"
  by (cases m) auto

lemma map_sum_Inr_iff: "map_sum id f r = Inr y \<longleftrightarrow> (\<exists>x. r = Inr x \<and> y = f x)"
  by (cases r) auto

fun res_fold :: "('s \<Rightarrow> 'a \<Rightarrow> 's result) \<Rightarrow> 's \<Rightarrow> 'a list \<Rightarrow> 's result" where
  "res_fold f s [] = Inr s"
| "res_fold f s (x # xs) = res_bind (f s x) (\<lambda>s'. res_fold f s' xs)"

lemma res_fold_invariant:
  assumes "\<And>s x s'. x \<in> set xs \<Longrightarrow> P s \<Longrightarrow> f s x = Inr s' \<Longrightarrow> P s'"
  shows "res_fold f s xs = Inr t \<Longrightarrow> P s \<Longrightarrow> P t"
  using assms
proof (induction xs arbitrary: s)
  case Nil
  then show ?case by simp
next
  case (Cons x xs)
  from Cons.prems(1) obtain s' where s': "f s x = Inr s'" "res_fold f s' xs = Inr t"
    by (auto simp: res_bind_Inr_iff)
  have "P s'" using Cons.prems(2,3) s'(1) by auto
  then show ?case using Cons.IH[OF s'(2)] Cons.prems(3) by auto
qed

lemma res_fold_total:
  assumes "\<And>s x. x \<in> set xs \<Longrightarrow> P s \<Longrightarrow> \<exists>s'. f s x = Inr s' \<and> P s'"
  shows "P s \<Longrightarrow> \<exists>t. res_fold f s xs = Inr t \<and> P t"
  using assms
proof (induction xs arbitrary: s)
  case Nil
  then show ?case by simp
next
  case (Cons x xs)
  obtain s' where s': "f s x = Inr s'" "P s'" using Cons.prems by force
  then have "\<exists>t. res_fold f s' xs = Inr t \<and> P t" using Cons.IH Cons.prems(2) by simp
  then show ?case using s'(1) by simp
qed

definition is_ok :: "'a result \<Rightarrow> bool" where
  "is_ok r = (case r of Inl _ \<Rightarrow> False | Inr _ \<Rightarrow> True)"

definition ok_or :: "'a \<Rightarrow> 'a result \<Rightarrow> 'a" where
  "ok_or d r = (case r of Inl _ \<Rightarrow> d | Inr x \<Rightarrow> x)"

lemma is_ok_simps [simp]: "is_ok (Inl e) = False" "is_ok (Inr x) = True"
  by (simp_all add: is_ok_def)

lemma ok_or_simps [simp]: "ok_or d (Inl e) = d" "ok_or d (Inr x) = x"
  by (simp_all add: ok_or_def)

lemma ok_or_eq: "is_ok r \<Longrightarrow> r = Inr (ok_or d r)"
  by (cases r) simp_all

section \<open>Dictionaries\<close>

text \<open>
  A Python dictionary keeps its keys in insertion order: a store to a present key keeps the
  key's place and a store to a new key appends it. \<open>AList.update\<close> does exactly this.
\<close>

type_synonym ('k, 'v) dict = "('k \<times> 'v) list"

abbreviation dget :: "('k, 'v) dict \<Rightarrow> 'k \<Rightarrow> 'v option" where
  "dget d k \<equiv> map_of d k"

abbreviation dset :: "('k, 'v) dict \<Rightarrow> 'k \<Rightarrow> 'v \<Rightarrow> ('k, 'v) dict" where
  "dset d k v \<equiv> AList.update k v d"

abbreviation dpop :: "('k, 'v) dict \<Rightarrow> 'k \<Rightarrow> ('k, 'v) dict" where
  "dpop d k \<equiv> AList.delete k d"

abbreviation dkeys :: "('k, 'v) dict \<Rightarrow> 'k set" where
  "dkeys d \<equiv> fst ` set d"

lemma dget_dset [dict_simps]: "dget (dset d k v) k' = (if k' = k then Some v else dget d k')"
  by (simp add: update_conv')

lemma dget_dpop [dict_simps]: "dget (dpop d k) k' = (if k' = k then None else dget d k')"
  by (simp add: delete_conv')

lemma dkeys_dset [dict_simps]: "dkeys (dset d k v) = insert k (dkeys d)"
  by (simp add: dom_update)

lemma dkeys_dpop [dict_simps]: "dkeys (dpop d k) = dkeys d - {k}"
  by (metis delete_keys image_set set_removeAll)

lemma dget_None_iff: "dget d k = None \<longleftrightarrow> k \<notin> dkeys d"
  by (simp add: map_of_eq_None_iff)

lemma dget_Some_key: "dget d k = Some v \<Longrightarrow> k \<in> dkeys d"
  by (metis dget_None_iff option.distinct(1))

lemma dkeys_dget: "k \<in> dkeys d \<longleftrightarrow> (\<exists>v. dget d k = Some v)"
  by (metis dget_None_iff not_None_eq)

lemma dkeysI: "(k, v) \<in> set d \<Longrightarrow> k \<in> dkeys d"
  by force

lemma dget_map_vals: "dget (map (\<lambda>(k, v). (k, f k v)) d) k = map_option (f k) (dget d k)"
  by (induction d) auto

section \<open>Tensor operations\<close>

text \<open>\<open>t[idx] = v\<close> and \<open>t[idx] = vs\<close>: indexed stores, the last store to a cell wins.\<close>

definition fill_at :: "'a list \<Rightarrow> nat list \<Rightarrow> 'a \<Rightarrow> 'a list" where
  "fill_at xs is v = fold (\<lambda>i ys. ys[i := v]) is xs"

definition scatter :: "'a list \<Rightarrow> (nat \<times> 'a) list \<Rightarrow> 'a list" where
  "scatter xs ivs = fold (\<lambda>(i, v) ys. ys[i := v]) ivs xs"

definition index_select :: "'a list \<Rightarrow> nat list \<Rightarrow> 'a list" where
  "index_select xs is = map (\<lambda>i. xs ! i) is"

lemma length_fill_at [tensor_simps, simp]: "length (fill_at xs is v) = length xs"
  unfolding fill_at_def by (induction "is" arbitrary: xs) auto

lemma nth_fill_at [tensor_simps]:
  "j < length xs \<Longrightarrow> fill_at xs is v ! j = (if j \<in> set is then v else xs ! j)"
  unfolding fill_at_def by (induction "is" arbitrary: xs) (auto simp: nth_list_update)

lemma length_scatter [tensor_simps, simp]: "length (scatter xs ivs) = length xs"
  unfolding scatter_def by (induction ivs arbitrary: xs) auto

lemma scatter_simps [simp]:
  "scatter xs [] = xs" "scatter xs ((i, v) # ivs) = scatter (xs[i := v]) ivs"
  by (simp_all add: scatter_def)

lemma nth_scatter_notin [tensor_simps]:
  "j \<notin> fst ` set ivs \<Longrightarrow> scatter xs ivs ! j = xs ! j"
proof (induction ivs arbitrary: xs)
  case Nil
  then show ?case by simp
next
  case (Cons p ivs)
  then show ?case by (cases p) auto
qed

lemma nth_scatter_distinct:
  "distinct (map fst ivs) \<Longrightarrow> (j, v) \<in> set ivs \<Longrightarrow> j < length xs \<Longrightarrow> scatter xs ivs ! j = v"
proof (induction ivs arbitrary: xs)
  case Nil
  then show ?case by simp
next
  case (Cons p ivs)
  obtain i w where p: "p = (i, w)" by (cases p)
  show ?case
  proof (cases "(j, v) = (i, w)")
    case True
    have "j \<notin> fst ` set ivs" using Cons.prems(1) True p by auto
    then show ?thesis using True p Cons.prems(3) by (simp add: nth_scatter_notin)
  next
    case False
    then have "(j, v) \<in> set ivs" using Cons.prems(2) p by auto
    then show ?thesis using Cons p by simp
  qed
qed

lemma length_index_select [tensor_simps, simp]: "length (index_select xs is) = length is"
  by (simp add: index_select_def)

lemma nth_index_select [tensor_simps, simp]:
  "i < length is \<Longrightarrow> index_select xs is ! i = xs ! (is ! i)"
  by (simp add: index_select_def)

text \<open>\<open>xs[:n]\<close> with Python's reading of a negative bound.\<close>

definition py_prefix :: "'a list \<Rightarrow> int \<Rightarrow> 'a list" where
  "py_prefix xs n = (if 0 \<le> n then take (nat n) xs else take (length xs - nat (- n)) xs)"

lemma set_py_prefix: "set (py_prefix xs n) \<subseteq> set xs"
  by (auto simp: py_prefix_def dest: in_set_takeD)

lemma length_py_prefix: "0 \<le> n \<Longrightarrow> length (py_prefix xs n) \<le> nat n"
  by (simp add: py_prefix_def)

text \<open>\<open>x.reshape(-1, k)\<close> on a list whose length is a multiple of \<open>k\<close>.\<close>

fun chunks :: "nat \<Rightarrow> nat \<Rightarrow> 'a list \<Rightarrow> 'a list list" where
  "chunks k 0 xs = []"
| "chunks k (Suc n) xs = take k xs # chunks k n (drop k xs)"

lemma length_chunks [simp]: "length (chunks k n xs) = n"
  by (induction n arbitrary: xs) auto

lemma nth_chunks: "i < n \<Longrightarrow> chunks k n xs ! i = take k (drop (i * k) xs)"
proof (induction n arbitrary: i xs)
  case 0
  then show ?case by simp
next
  case (Suc n)
  then show ?case by (cases i) (auto simp: add.commute)
qed

lemma set_chunks: "ys \<in> set (chunks k n xs) \<Longrightarrow> set ys \<subseteq> set xs"
proof (induction n arbitrary: xs)
  case 0
  then show ?case by simp
next
  case (Suc n)
  then show ?case using set_drop_subset[of k xs] by (auto dest: in_set_takeD)
qed

text \<open>\<open>(values, index) = row.max(dim=-1)\<close>: the first index that holds the maximum.\<close>

fun max_first :: "'a::linorder list \<Rightarrow> 'a \<times> nat" where
  "max_first [] = undefined"
| "max_first [x] = (x, 0)"
| "max_first (x # y # ys) =
     (let (m, i) = max_first (y # ys) in if m \<le> x then (x, 0) else (m, Suc i))"

lemma max_first_index: "xs \<noteq> [] \<Longrightarrow> snd (max_first xs) < length xs \<and>
    xs ! snd (max_first xs) = fst (max_first xs) \<and> (\<forall>x\<in>set xs. x \<le> fst (max_first xs))"
proof (induction xs rule: max_first.induct)
  case 1
  then show ?case by simp
next
  case (2 x)
  then show ?case by simp
next
  case (3 x y ys)
  then have IH: "snd (max_first (y # ys)) < length (y # ys) \<and>
    (y # ys) ! snd (max_first (y # ys)) = fst (max_first (y # ys)) \<and>
    (\<forall>x\<in>set (y # ys). x \<le> fst (max_first (y # ys)))" by simp
  obtain m i where mi: "max_first (y # ys) = (m, i)" by (cases "max_first (y # ys)")
  show ?case
  proof (cases "m \<le> x")
    case True
    then have r: "max_first (x # y # ys) = (x, 0)" using mi by simp
    have "\<forall>z\<in>set (y # ys). z \<le> x" using IH mi True by auto
    then show ?thesis unfolding r by simp
  next
    case False
    then have r: "max_first (x # y # ys) = (m, Suc i)" using mi by simp
    have "x \<le> m" using False by simp
    then show ?thesis unfolding r using IH mi by simp
  qed
qed

lemma filter_less_upt: "f \<le> n \<Longrightarrow> filter (\<lambda>c. c < f) [0..<n] = [0..<f]"
proof -
  assume "f \<le> n"
  then have "[0..<n] = [0..<f] @ [f..<n]" using upt_add_eq_append[of 0 f "n - f"] by simp
  then show ?thesis by simp
qed

end
