(* ===== verification/Cold_Tables.thy ===== *)
theory Cold_Tables
  imports Prelude
begin

text \<open>
  The tables of the expert cold pool (\<^verbatim>\<open>patches/expert_cold_pool.py\<close>): the environment knobs,
  the keep mask, the router bias columns and id remap tables, their updates, the identity gate,
  and the two remap lanes that the router calls after its top-k.

  The module globals are one record, \<open>cp_state\<close>. Experts (gids) and physical rows are naturals,
  routed ids are integers since \<open>-1\<close> marks padding; packed ids are \<open>32 word\<close>.
\<close>

section \<open>Environment knobs\<close>

record environment =
  env_get :: "string \<Rightarrow> string option"
  parse_int :: "string \<Rightarrow> int option"
  parse_float :: "string \<Rightarrow> rat option"

definition env_int :: "environment \<Rightarrow> string \<Rightarrow> int \<Rightarrow> int" where
  "env_int env name dflt =
     (case env_get env name of None \<Rightarrow> dflt
      | Some s \<Rightarrow> (if s = '''' then dflt
                  else case parse_int env s of None \<Rightarrow> dflt | Some v \<Rightarrow> v))"

definition env_float :: "environment \<Rightarrow> string \<Rightarrow> rat \<Rightarrow> rat" where
  "env_float env name dflt =
     (case env_get env name of None \<Rightarrow> dflt
      | Some s \<Rightarrow> (if s = '''' then dflt
                  else case parse_float env s of None \<Rightarrow> dflt | Some v \<Rightarrow> v))"

definition keep_mask_path :: "environment \<Rightarrow> string" where
  "keep_mask_path env =
     (case env_get env ''SGLANG_EXPERT_KEEP_MASK'' of None \<Rightarrow> '''' | Some s \<Rightarrow> s)"

definition offload_requested :: "environment \<Rightarrow> bool" where
  "offload_requested env \<longleftrightarrow>
     env_get env ''SGLANG_EXPERT_KEEP_OFFLOAD'' = Some ''1'' \<and> keep_mask_path env \<noteq> ''''"

definition cold_slots :: "environment \<Rightarrow> int" where
  "cold_slots env = env_int env ''SGLANG_EXPERT_COLD_POOL_SLOTS'' 16"

definition dynamic_mode :: "environment \<Rightarrow> bool" where
  "dynamic_mode env \<longleftrightarrow> cold_slots env > 0"

definition strong_alpha :: "environment \<Rightarrow> rat" where
  "strong_alpha env = env_float env ''SGLANG_COLD_STRONG_ALPHA'' (8 / 10)"

definition need_hits :: "environment \<Rightarrow> int" where
  "need_hits env = env_int env ''SGLANG_COLD_NEED_HITS'' 2"

definition max_stage_per_tick :: "environment \<Rightarrow> int" where
  "max_stage_per_tick env = env_int env ''SGLANG_COLD_MAX_STAGE'' 4"

definition ema_decay :: "environment \<Rightarrow> rat" where
  "ema_decay env = env_float env ''SGLANG_COLD_EMA_DECAY'' (75 / 100)"

definition degrade_window :: "environment \<Rightarrow> int" where
  "degrade_window env = env_int env ''SGLANG_COLD_DEGRADE_WINDOW'' 2048"

definition debug_on :: "environment \<Rightarrow> bool" where
  "debug_on env \<longleftrightarrow> env_get env ''SGLANG_COLD_DEBUG'' = Some ''1''"

section \<open>State\<close>

datatype dtype = BF16 | F32 | F16 | F64

definition finfo_min :: "dtype \<Rightarrow> rat" where
  "finfo_min dt = (case dt of
       BF16 \<Rightarrow> - (2 - 1 / 2 ^ 7) * 2 ^ 127
     | F32 \<Rightarrow> - (2 - 1 / 2 ^ 23) * 2 ^ 127
     | F16 \<Rightarrow> - 65504
     | F64 \<Rightarrow> - (2 - 1 / 2 ^ 52) * 2 ^ 1023)"

lemma finfo_min_neg: "finfo_min dt < 0"
  by (cases dt) (simp_all add: finfo_min_def)

record stash_buf =
  sb_ids :: "int list"
  sb_scores :: "rat list"
  sb_logits :: "rat list list option"
  sb_logits_n :: nat

record cp_stats =
  calls :: nat
  strong :: nat
  staged :: nat
  evicted :: nat
  h2d_bytes :: nat
  demoted :: nat
  promoted :: nat
  stage_fail :: nat

definition zero_stats :: cp_stats where
  "zero_stats = \<lparr>calls = 0, strong = 0, staged = 0, evicted = 0, h2d_bytes = 0,
                demoted = 0, promoted = 0, stage_fail = 0\<rparr>"

text \<open>
  \<open>bias_cache\<close> is \<^verbatim>\<open>_BIAS_CACHE\<close>, \<open>remap_cache\<close> is \<^verbatim>\<open>_REMAP_CACHE\<close>, \<open>cfg_lids\<close> is
  \<^verbatim>\<open>_CFG_LIDS\<close> (object identities are naturals; \<^verbatim>\<open>_CFG_REFS\<close> only keeps them from being
  reused), \<open>shrunk\<close>, \<open>dynamic\<close> and \<open>stats\<close> are the entries of \<^verbatim>\<open>_STATE\<close>; the layer pools of
  \<^verbatim>\<open>_STATE["layers"]\<close> are added in \<open>Cold_Pool\<close>. A missing \<open>keep_map\<close> is a keep mask
  that was not given.
\<close>

record cp_state =
  keep_map :: "(nat, nat list) dict option"
  bias_cache :: "(nat \<times> dtype, rat list) dict"
  remap_cache :: "(nat, nat list) dict"
  dirty :: bool
  stash :: "(nat, stash_buf) dict"
  cfg_lids :: "(nat, nat) dict"
  shrunk :: bool
  dynamic :: bool
  stats :: cp_stats

definition init_state :: "(nat, nat list) dict option \<Rightarrow> cp_state" where
  "init_state km = \<lparr>keep_map = km, bias_cache = [], remap_cache = [], dirty = False,
     stash = [], cfg_lids = [], shrunk = False, dynamic = False, stats = zero_stats\<rparr>"

text \<open>
  \<^verbatim>\<open>_keep_mask\<close>: the JSON object \<open>raw\<close> (its keys already numbers) with every list of
  experts sorted.
\<close>

definition keep_mask_of :: "(nat, nat list) dict \<Rightarrow> (nat, nat list) dict" where
  "keep_mask_of raw = map (\<lambda>(k, v). (k, sort v)) raw"

definition offload_active :: "('a) cp_state_scheme \<Rightarrow> bool" where
  "offload_active st \<longleftrightarrow> shrunk st"

definition degrade_enabled :: "environment \<Rightarrow> ('a) cp_state_scheme \<Rightarrow> bool" where
  "degrade_enabled env st \<longleftrightarrow>
     shrunk st \<and> dynamic_mode env \<and> env_get env ''SGLANG_COLD_DEGRADE'' = Some ''1''"

section \<open>Bias columns and remap tables\<close>

definition bias_col :: "nat list \<Rightarrow> nat \<Rightarrow> dtype \<Rightarrow> rat list result" where
  "bias_col keep width dt =
     (if \<exists>g\<in>set keep. width \<le> g then Inl IndexError
      else Inr (fill_at (replicate width (finfo_min dt)) keep 0))"

text \<open>
  \<^verbatim>\<open>_bias_col_or_none\<close>: the cached column, or a new one that is stored; nothing while a
  CUDA graph is being captured.
\<close>

definition bias_col_or_none ::
  "bool \<Rightarrow> ('a) cp_state_scheme \<Rightarrow> nat \<Rightarrow> nat \<Rightarrow> dtype \<Rightarrow> (('a) cp_state_scheme \<times> rat list option) result"
where
  "bias_col_or_none capturing st lid width dt =
     (case keep_map st of None \<Rightarrow> Inr (st, None)
      | Some km \<Rightarrow>
        (case dget km lid of None \<Rightarrow> Inr (st, None)
         | Some keep \<Rightarrow>
           if keep = [] then Inr (st, None)
           else case dget (bias_cache st) (lid, dt) of
             Some col \<Rightarrow> Inr (st, Some col)
           | None \<Rightarrow>
               if capturing then Inr (st, None)
               else res_bind (bias_col keep width dt) (\<lambda>col.
                 Inr (st\<lparr>bias_cache := dset (bias_cache st) (lid, dt) col\<rparr>, Some col))))"

definition remap_or_none :: "('a) cp_state_scheme \<Rightarrow> nat \<Rightarrow> nat list option" where
  "remap_or_none st lid = (if shrunk st then dget (remap_cache st) lid else None)"

text \<open>
  \<^verbatim>\<open>build_tables\<close>: one bias column per routed dtype and the remap table, both over all
  \<open>width\<close> experts. Returns the number of physical rows.
\<close>

definition remap_table :: "nat list \<Rightarrow> nat \<Rightarrow> nat list" where
  "remap_table keep width = scatter (replicate width 0) (map (\<lambda>(r, g). (g, r)) (enumerate 0 keep))"

definition build_tables ::
  "('a) cp_state_scheme \<Rightarrow> nat \<Rightarrow> nat list \<Rightarrow> nat \<Rightarrow> nat \<Rightarrow> (('a) cp_state_scheme \<times> nat) result"
where
  "build_tables st lid keep slots width =
     res_bind (bias_col keep width BF16) (\<lambda>c1.
     res_bind (bias_col keep width F32) (\<lambda>c2.
     res_bind (bias_col keep width F16) (\<lambda>c3.
       Inr (st\<lparr>bias_cache :=
                 dset (dset (dset (bias_cache st) (lid, BF16) c1) (lid, F32) c2) (lid, F16) c3,
               remap_cache := dset (remap_cache st) lid (remap_table keep width)\<rparr>,
            length keep + slots))))"

definition mark_dirty :: "('a) cp_state_scheme \<Rightarrow> ('a) cp_state_scheme" where
  "mark_dirty st = st\<lparr>dirty := True\<rparr>"

definition consume_dirty :: "('a) cp_state_scheme \<Rightarrow> bool \<times> ('a) cp_state_scheme" where
  "consume_dirty st = (dirty st, st\<lparr>dirty := False\<rparr>)"

text \<open>
  \<^verbatim>\<open>_unmask\<close> and \<^verbatim>\<open>_mask\<close>. The callers pass experts of the layer's pool, which are inside
  every table of the layer (\<open>tables_ok\<close> below), so the store never leaves the table.
\<close>

definition unmask_gid :: "('a) cp_state_scheme \<Rightarrow> nat \<Rightarrow> nat \<Rightarrow> nat \<Rightarrow> ('a) cp_state_scheme" where
  "unmask_gid st lid gid row = st\<lparr>
     remap_cache := map (\<lambda>(l, t). (l, if l = lid then t[gid := row] else t)) (remap_cache st),
     bias_cache := map (\<lambda>((l, dt), c). ((l, dt), if l = lid then c[gid := 0] else c))
                       (bias_cache st)\<rparr>"

definition mask_gid :: "('a) cp_state_scheme \<Rightarrow> nat \<Rightarrow> nat \<Rightarrow> ('a) cp_state_scheme" where
  "mask_gid st lid gid = st\<lparr>
     remap_cache := map (\<lambda>(l, t). (l, if l = lid then t[gid := 0] else t)) (remap_cache st),
     bias_cache := map (\<lambda>((l, dt), c). ((l, dt), if l = lid then c[gid := finfo_min dt] else c))
                       (bias_cache st)\<rparr>"

lemma dget_bias_map:
  "dget (map (\<lambda>((l, dt), c). ((l, dt), f l dt c)) d) (l, dt) = map_option (f l dt) (dget d (l, dt))"
  by (induction d) auto

lemma unmask_remap: "dget (remap_cache (unmask_gid st lid gid row)) l =
    map_option (\<lambda>t. if l = lid then t[gid := row] else t) (dget (remap_cache st) l)"
  by (simp add: unmask_gid_def dget_map_vals)

lemma mask_remap: "dget (remap_cache (mask_gid st lid gid)) l =
    map_option (\<lambda>t. if l = lid then t[gid := 0] else t) (dget (remap_cache st) l)"
  by (simp add: mask_gid_def dget_map_vals)

lemma unmask_bias: "dget (bias_cache (unmask_gid st lid gid row)) (l, dt) =
    map_option (\<lambda>c. if l = lid then c[gid := 0] else c) (dget (bias_cache st) (l, dt))"
  by (simp add: unmask_gid_def dget_bias_map)

lemma mask_bias: "dget (bias_cache (mask_gid st lid gid)) (l, dt) =
    map_option (\<lambda>c. if l = lid then c[gid := finfo_min dt] else c) (dget (bias_cache st) (l, dt))"
  by (simp add: mask_gid_def dget_bias_map)

lemma mask_frame [simp]:
  "keep_map (mask_gid st lid gid) = keep_map st" "stash (mask_gid st lid gid) = stash st"
  "cfg_lids (mask_gid st lid gid) = cfg_lids st" "shrunk (mask_gid st lid gid) = shrunk st"
  "dynamic (mask_gid st lid gid) = dynamic st" "stats (mask_gid st lid gid) = stats st"
  "dirty (mask_gid st lid gid) = dirty st"
  by (simp_all add: mask_gid_def)

lemma unmask_frame [simp]:
  "keep_map (unmask_gid st lid gid row) = keep_map st" "stash (unmask_gid st lid gid row) = stash st"
  "cfg_lids (unmask_gid st lid gid row) = cfg_lids st" "shrunk (unmask_gid st lid gid row) = shrunk st"
  "dynamic (unmask_gid st lid gid row) = dynamic st" "stats (unmask_gid st lid gid row) = stats st"
  "dirty (unmask_gid st lid gid row) = dirty st"
  by (simp_all add: unmask_gid_def)

section \<open>Identity gate\<close>

text \<open>
  \<^verbatim>\<open>register_managed\<close>: \<open>own\<close> is the module's own top-k object, \<open>owner\<close> the one of its
  parent block; a top-k object without configuration is \<open>Some None\<close>.
\<close>

definition register_managed ::
  "('a) cp_state_scheme \<Rightarrow> nat option option \<Rightarrow> nat \<Rightarrow> nat option option \<Rightarrow> ('a) cp_state_scheme result"
where
  "register_managed st own lid owner =
     (let tk = (if own \<noteq> None then own else owner);
          cfg = (case tk of None \<Rightarrow> None | Some c \<Rightarrow> c)
      in case cfg of None \<Rightarrow> Inl RuntimeError
         | Some c \<Rightarrow> Inr (st\<lparr>cfg_lids := dset (cfg_lids st) c lid\<rparr>))"

definition is_managed_config :: "('a) cp_state_scheme \<Rightarrow> nat option \<Rightarrow> nat option" where
  "is_managed_config st cfg =
     (if \<not> shrunk st then None
      else case cfg of None \<Rightarrow> None | Some c \<Rightarrow> dget (cfg_lids st) c)"

section \<open>Router hooks\<close>

text \<open>
  \<^verbatim>\<open>apply_keep_mask\<close>: the logits with the bias column added to every row, and the logits
  before it. A column whose width differs from the rows' does not broadcast.
\<close>

definition add_col :: "rat list list \<Rightarrow> rat list \<Rightarrow> rat list list" where
  "add_col logits col = map (\<lambda>row. map2 (+) row col) logits"

definition apply_keep_mask ::
  "bool \<Rightarrow> ('a) cp_state_scheme \<Rightarrow> nat option \<Rightarrow> nat \<Rightarrow> dtype \<Rightarrow> rat list list \<Rightarrow>
   (('a) cp_state_scheme \<times> rat list list \<times> rat list list option) result"
where
  "apply_keep_mask capturing st lid width dt logits =
     (case lid of
        None \<Rightarrow> Inr (st, logits, None)
      | Some l \<Rightarrow>
          if \<not> shrunk st then Inr (st, logits, None)
          else res_bind (bias_col_or_none capturing st l width dt) (\<lambda>(st', col).
            case col of
              None \<Rightarrow> Inr (st', logits, None)
            | Some c \<Rightarrow>
                if length c = width \<or> length c = 1 \<or> width = 1
                then Inr (st', add_col logits (if length c = 1 then replicate width (c ! 0) else c),
                          Some logits)
                else Inl RuntimeError))"

text \<open>
  \<^verbatim>\<open>remap_topk_ids\<close>: ids inside the table are looked up, negative ids and ids past its end
  pass through.
\<close>

definition remap_id :: "nat list \<Rightarrow> int \<Rightarrow> int" where
  "remap_id tbl i =
     (let safe = max i 0;
          ok = (safe < int (length tbl) \<and> 0 \<le> i);
          mapped = int (tbl ! nat (min safe (int (length tbl) - 1)))
      in if ok then mapped else i)"

definition remap_topk_ids :: "('a) cp_state_scheme \<Rightarrow> nat option \<Rightarrow> int list list \<Rightarrow> int list list" where
  "remap_topk_ids st lid ids =
     (case lid of None \<Rightarrow> ids
      | Some l \<Rightarrow> (case remap_or_none st l of None \<Rightarrow> ids | Some tbl \<Rightarrow> map (map (remap_id tbl)) ids))"

text \<open>
  \<^verbatim>\<open>remap_packed_ids\<close>: the id is in the high 16 bits of an \<^verbatim>\<open>int32\<close>; the shift right is
  arithmetic and a negative word passes through.
\<close>

definition remap_packed :: "nat list \<Rightarrow> 32 word \<Rightarrow> 32 word" where
  "remap_packed tbl p =
     (let ids = signed_drop_bit 16 p AND 0xFFFF;
          low = p AND 0xFFFF;
          new_ids = (word_of_nat (tbl ! min (unat ids) (length tbl - 1)) :: 32 word)
      in if 0 \<le> sint p then push_bit 16 new_ids OR low else p)"

definition remap_packed_ids ::
  "('a) cp_state_scheme \<Rightarrow> nat option \<Rightarrow> 32 word list list \<Rightarrow> 32 word list list" where
  "remap_packed_ids st lid packed =
     (case lid of None \<Rightarrow> packed
      | Some l \<Rightarrow> (case remap_or_none st l of None \<Rightarrow> packed
                  | Some tbl \<Rightarrow> map (map (remap_packed tbl)) packed))"

section \<open>Facts about the tables\<close>

lemma bias_col_Inr:
  "bias_col keep width dt = Inr c \<Longrightarrow>
     length c = width \<and> (\<forall>g\<in>set keep. g < width) \<and>
     (\<forall>g<width. c ! g = (if g \<in> set keep then 0 else finfo_min dt))"
  by (auto simp: bias_col_def nth_fill_at split: if_splits)

lemma length_remap_table [simp]: "length (remap_table keep width) = width"
  by (simp add: remap_table_def)

lemma remap_table_snoc:
  "remap_table (keep @ [g]) width = (remap_table keep width)[g := length keep]"
  by (simp add: remap_table_def scatter_def enumerate_append_eq)

lemma remap_table_keep:
  "g \<in> set keep \<Longrightarrow> g < width \<Longrightarrow>
     remap_table keep width ! g < length keep \<and> keep ! (remap_table keep width ! g) = g"
proof (induction keep rule: rev_induct)
  case Nil
  then show ?case by simp
next
  case (snoc x keep)
  show ?case
  proof (cases "g = x")
    case True
    then show ?thesis using snoc.prems by (simp add: remap_table_snoc)
  next
    case False
    then have "g \<in> set keep" using snoc.prems(1) by simp
    with snoc.IH snoc.prems(2) have IH: "remap_table keep width ! g < length keep"
      "keep ! (remap_table keep width ! g) = g" by auto
    have "remap_table (keep @ [x]) width ! g = remap_table keep width ! g"
      using False by (simp add: remap_table_snoc)
    then show ?thesis using IH by (simp add: nth_append)
  qed
qed

lemma remap_table_cold: "g \<notin> set keep \<Longrightarrow> g < width \<Longrightarrow> remap_table keep width ! g = 0"
proof (induction keep rule: rev_induct)
  case Nil
  then show ?case by (simp add: remap_table_def)
next
  case (snoc x keep)
  then show ?case by (simp add: remap_table_snoc)
qed

lemma remap_id_in: "0 \<le> i \<Longrightarrow> i < int (length tbl) \<Longrightarrow> remap_id tbl i = int (tbl ! nat i)"
  by (simp add: remap_id_def Let_def)

lemma remap_id_out: "i < 0 \<or> int (length tbl) \<le> i \<Longrightarrow> remap_id tbl i = i"
  by (auto simp: remap_id_def Let_def)

end
