(* ===== verification/Cold_Pool.thy ===== *)
theory Cold_Pool
  imports Cold_Tables
begin

text \<open>
  The layer pools of the expert cold pool (\<^verbatim>\<open>patches/expert_cold_pool.py\<close>): the MoE module as
  the shrink sees it, the inventory gate, the physical shrink, and the staging of a cold expert
  into a row. A tensor is a 0-d value or a list of rows, a row is the list of its bytes, and an
  attribute names an object, so that two names of one object see the same data.
\<close>

section \<open>Modules and their tensors\<close>

type_synonym byte = "8 word"

datatype tensor = Scalar "byte list" | Rows "byte list list"

text \<open>
  \<open>m_attrs\<close> lists the tensor attributes in registration order, with the object each is bound
  to and whether it is a registered parameter; \<open>m_objs\<close> holds the objects' storage (the
  \<^verbatim>\<open>.data\<close> of each). \<open>m_own_topk\<close> is the module's own top-k object, if it has one: the
  identity of its configuration, or none.
\<close>

record moe_module =
  m_id :: nat
  m_is_fused :: bool
  m_layer_id :: "nat option"
  m_attrs :: "(string, nat \<times> bool) dict"
  m_objs :: "(nat, tensor) dict"
  m_num_local :: nat
  m_own_topk :: "nat option option"

definition getattr_obj :: "moe_module \<Rightarrow> string \<Rightarrow> nat option" where
  "getattr_obj m name = map_option fst (dget (m_attrs m) name)"

definition getattr :: "moe_module \<Rightarrow> string \<Rightarrow> (nat \<times> tensor) option" where
  "getattr m name =
     (case getattr_obj m name of None \<Rightarrow> None
      | Some oid \<Rightarrow> map_option (\<lambda>t. (oid, t)) (dget (m_objs m) oid))"

definition set_data :: "moe_module \<Rightarrow> nat \<Rightarrow> tensor \<Rightarrow> moe_module" where
  "set_data m oid t = m\<lparr>m_objs := dset (m_objs m) oid t\<rparr>"

definition ROW_PARAMS :: "string list" where
  "ROW_PARAMS = [''w13_weight'', ''w2_weight'', ''w13_weight_scale'', ''w2_weight_scale'',
     ''w13_weight_scale_2'', ''w2_weight_scale_2'', ''w13_input_scale'', ''w2_input_scale'']"

definition DERIVED_PARAMS :: "string list" where
  "DERIVED_PARAMS = [''g1_alphas'', ''g1_alphas_up'', ''g2_alphas'']"

definition ALL_PARAMS :: "string list" where
  "ALL_PARAMS = ROW_PARAMS @ DERIVED_PARAMS"

text \<open>
  \<^verbatim>\<open>named_parameters(recurse=False)\<close> lists each parameter object once, under its first name.
\<close>

fun named_parameters :: "nat list \<Rightarrow> (string, nat \<times> bool) dict \<Rightarrow> (string \<times> nat) list" where
  "named_parameters seen [] = []"
| "named_parameters seen ((name, oid, is_param) # xs) =
     (if is_param \<and> oid \<notin> set seen then (name, oid) # named_parameters (oid # seen) xs
      else named_parameters seen xs)"

definition swizzle_source :: "string \<Rightarrow> string option" where
  "swizzle_source name =
     (if name = ''w13_blockscale_swizzled'' then Some ''w13_weight_scale''
      else if name = ''w2_blockscale_swizzled'' then Some ''w2_weight_scale'' else None)"

definition gate_bad :: "moe_module \<Rightarrow> nat \<Rightarrow> string \<times> nat \<Rightarrow> bool" where
  "gate_bad m E p =
     (case p of (name, oid) \<Rightarrow>
       (case dget (m_objs m) oid of
          Some (Rows rs) \<Rightarrow>
            length rs = E \<and> name \<notin> set ALL_PARAMS \<and>
            (case swizzle_source name of
               Some src \<Rightarrow> getattr_obj m src \<noteq> Some oid
             | None \<Rightarrow> True)
        | _ \<Rightarrow> False))"

definition inventory_gate :: "moe_module \<Rightarrow> nat \<Rightarrow> string list" where
  "inventory_gate m E = map fst (filter (gate_bad m E) (named_parameters [] (m_attrs m)))"

definition alias_names :: "moe_module \<Rightarrow> nat \<Rightarrow> string option list" where
  "alias_names m oid =
     (let names = [nm. (nm, o', is_param) \<leftarrow> m_attrs m, is_param \<and> o' = oid]
      in if names = [] then [None] else map Some names)"

section \<open>Layer pools\<close>

text \<open>
  \<open>row_tick\<close> keeps Python's insertion order, which decides between rows of equal age.
  \<open>demote_tick\<close> is the \<^verbatim>\<open>-1e9\<close> of the demotion.
\<close>

record layer_pool =
  layer_id :: nat
  keep :: "nat list"
  keep_len :: nat
  cold :: "nat list"
  slots :: nat
  module_of :: moe_module
  num_E :: nat
  phys :: nat
  host :: "(nat, (string, byte list) dict) dict"
  gid_row :: "(nat, nat) dict"
  row_gid :: "(nat, nat) dict"
  row_tick :: "(nat, int) dict"
  protected :: "nat set"
  free_rows :: "nat list"
  tick :: int
  cold_ids :: "nat list"
  cold_mask :: "bool list"
  keep_ids :: "nat list"
  need_counts :: "rat list option"
  seen_tick :: "int list option"

definition demote_tick :: int where
  "demote_tick = -1000000000"

definition new_pool :: "nat \<Rightarrow> nat list \<Rightarrow> nat list \<Rightarrow> nat \<Rightarrow> moe_module \<Rightarrow> nat \<Rightarrow> layer_pool" where
  "new_pool lid kp cd sl m E =
     \<lparr>layer_id = lid, keep = kp, keep_len = length kp, cold = cd, slots = sl, module_of = m,
      num_E = E, phys = length kp + sl, host = [], gid_row = [], row_gid = [], row_tick = [],
      protected = {}, free_rows = [length kp ..< length kp + sl], tick = 0,
      cold_ids = cd, cold_mask = fill_at (replicate E False) cd True, keep_ids = kp,
      need_counts = None, seen_tick = None\<rparr>"

definition host_bytes :: "layer_pool \<Rightarrow> nat" where
  "host_bytes p = sum_list (map (\<lambda>(g, d). sum_list (map (\<lambda>(n, v). length v) d)) (host p))"

record pool_state = cp_state +
  layers :: "(nat, layer_pool) dict"

section \<open>Shrink\<close>

text \<open>
  The tensors that move: every name of the inventory that is bound to a tensor with one row per
  expert, each object once.
\<close>

fun collect_params ::
  "moe_module \<Rightarrow> nat \<Rightarrow> string list \<Rightarrow> nat list \<Rightarrow> (string \<times> nat \<times> byte list list) list" where
  "collect_params m E [] seen = []"
| "collect_params m E (name # names) seen =
     (case getattr m name of
        Some (oid, Rows rs) \<Rightarrow>
          if length rs \<noteq> E \<or> oid \<in> set seen then collect_params m E names seen
          else (name, oid, rs) # collect_params m E names (oid # seen)
      | _ \<Rightarrow> collect_params m E names seen)"

text \<open>
  The flat pinned buffer of one layer: the cold rows of every tensor one after the other, and for
  every tensor its offset, its size and the size of one row. The row views are cut out of it.
\<close>

definition flat_buffer :: "(string \<times> nat \<times> byte list list) list \<Rightarrow> nat list \<Rightarrow> byte list" where
  "flat_buffer ents cd = concat (map (\<lambda>(name, oid, rs). concat (index_select rs cd)) ents)"

fun cold_slices ::
  "(string \<times> nat \<times> byte list list) list \<Rightarrow> nat list \<Rightarrow> nat \<Rightarrow> (string \<times> nat \<times> nat \<times> nat) list" where
  "cold_slices [] cd off = []"
| "cold_slices ((name, oid, rs) # ents) cd off =
     (let nb = length (concat (index_select rs cd))
      in (name, off, nb, length (rs ! 0)) # cold_slices ents cd (off + nb))"

definition row_view :: "byte list \<Rightarrow> nat \<Rightarrow> nat \<Rightarrow> nat \<Rightarrow> nat \<Rightarrow> byte list" where
  "row_view pbuf off nb rl i = take rl (drop (i * rl) (take nb (drop off pbuf)))"

definition host_put ::
  "(nat, (string, byte list) dict) dict \<Rightarrow> nat \<Rightarrow> string \<Rightarrow> byte list \<Rightarrow>
   (nat, (string, byte list) dict) dict" where
  "host_put h gid name v =
     dset h gid (dset (case dget h gid of None \<Rightarrow> [] | Some d \<Rightarrow> d) name v)"

definition fill_host ::
  "byte list \<Rightarrow> (string \<times> nat \<times> nat \<times> nat) list \<Rightarrow> nat list \<Rightarrow> (nat, (string, byte list) dict) dict"
where
  "fill_host pbuf slices cd =
     fold (\<lambda>(gid, name, v) h. host_put h gid name v)
       [(gid, name, row_view pbuf off nb rl i). (name, off, nb, rl) \<leftarrow> slices, (i, gid) \<leftarrow> enumerate 0 cd]
       []"

text \<open>
  The GPU swap of one tensor: the kept rows first, then \<open>slots\<close> rows that the allocator left
  uninitialised (\<open>junk\<close> gives the bytes it happened to hold).
\<close>

definition swap_param ::
  "(nat \<Rightarrow> byte list) \<Rightarrow> nat list \<Rightarrow> nat \<Rightarrow> moe_module \<Rightarrow> string \<times> nat \<times> byte list list \<Rightarrow> moe_module"
where
  "swap_param junk kp ph m ent =
     (case ent of (name, oid, rs) \<Rightarrow>
        set_data m oid (Rows (index_select rs kp @ map junk [length kp ..< ph])))"

text \<open>
  \<^verbatim>\<open>_owner_topk\<close>: the parents of the model, each as the objects bound to its attributes and its
  own top-k object; the first parent that holds the module and has a configured top-k wins.
\<close>

definition owner_topk :: "(nat list \<times> nat option option) list \<Rightarrow> nat \<Rightarrow> nat option option" where
  "owner_topk parents mid =
     (case find (\<lambda>(attrs, tk). mid \<in> set attrs \<and> (case tk of Some (Some c) \<Rightarrow> True | _ \<Rightarrow> False)) parents of
        None \<Rightarrow> None | Some (attrs, tk) \<Rightarrow> tk)"

definition shrink_layer ::
  "(nat \<Rightarrow> byte list) \<Rightarrow> nat \<Rightarrow> moe_module \<Rightarrow> nat \<Rightarrow> nat list \<Rightarrow> nat list \<Rightarrow> nat \<Rightarrow> layer_pool" where
  "shrink_layer junk lid m E kp cd sl =
     (let ents = collect_params m E ALL_PARAMS [];
          pbuf = flat_buffer ents cd;
          h = fill_host pbuf (cold_slices ents cd 0) cd;
          ph = length kp + sl;
          m' = foldl (swap_param junk kp ph) m ents
      in (new_pool lid kp cd sl (m'\<lparr>m_num_local := ph\<rparr>) E)\<lparr>host := h\<rparr>)"

text \<open>
  One step of the shrink loop. The result tells whether the module was shrunk. A keep id outside
  the tensor makes \<^verbatim>\<open>index_select\<close> raise, and a negative slot count makes the copy of the kept
  rows raise.
\<close>

definition shrink_step ::
  "int \<Rightarrow> (nat \<Rightarrow> byte list) \<Rightarrow> (nat list \<times> nat option option) list \<Rightarrow> (nat, nat list) dict \<Rightarrow>
   pool_state \<Rightarrow> moe_module \<Rightarrow> (pool_state \<times> moe_module \<times> bool) result" where
  "shrink_step sl junk parents km st m =
     (if \<not> m_is_fused m then Inr (st, m, False)
      else case m_layer_id m of None \<Rightarrow> Inr (st, m, False)
      | Some lid \<Rightarrow>
        (case dget km lid of None \<Rightarrow> Inr (st, m, False)
         | Some kp \<Rightarrow>
           (case (getattr m ''w13_weight'', getattr m ''w13_weight_scale'') of
              (Some (_, Rows ref), Some _) \<Rightarrow>
                let E = length ref; cd = filter (\<lambda>g. g \<notin> set kp) [0..<E]
                in if E \<le> 1 \<or> cd = [] then Inr (st, m, False)
                   else if inventory_gate m E \<noteq> [] then Inl RuntimeError
                   else if \<exists>g\<in>set kp. E \<le> g then Inl IndexError
                   else if sl < 0 then Inl RuntimeError
                   else
                     let p = shrink_layer junk lid m E kp cd (nat sl)
                     in res_bind (build_tables st lid kp (nat sl) E) (\<lambda>(st1, _).
                        res_bind (register_managed st1 (m_own_topk m) lid
                                    (owner_topk parents (m_id m))) (\<lambda>st2.
                          Inr (st2\<lparr>layers := dset (layers st2) lid p\<rparr>, module_of p, True)))
            | _ \<Rightarrow> Inr (st, m, False))))"

fun shrink_modules ::
  "int \<Rightarrow> (nat \<Rightarrow> byte list) \<Rightarrow> (nat list \<times> nat option option) list \<Rightarrow> (nat, nat list) dict \<Rightarrow>
   pool_state \<Rightarrow> moe_module list \<Rightarrow> (pool_state \<times> moe_module list \<times> nat) result" where
  "shrink_modules sl junk parents km st [] = Inr (st, [], 0)"
| "shrink_modules sl junk parents km st (m # ms) =
     res_bind (shrink_step sl junk parents km st m) (\<lambda>(st', m', b).
     res_bind (shrink_modules sl junk parents km st' ms) (\<lambda>(st'', ms', n).
       Inr (st'', m' # ms', (if b then Suc n else n))))"

definition maybe_shrink_after_process ::
  "environment \<Rightarrow> (nat \<Rightarrow> byte list) \<Rightarrow> (nat list \<times> nat option option) list \<Rightarrow> pool_state \<Rightarrow>
   moe_module list \<Rightarrow> (pool_state \<times> moe_module list) result" where
  "maybe_shrink_after_process env junk parents st ms =
     (if shrunk st \<or> \<not> offload_requested env then Inr (st, ms)
      else case keep_map st of None \<Rightarrow> Inr (st, ms)
      | Some km \<Rightarrow>
        res_bind (shrink_modules (cold_slots env) junk parents km st ms) (\<lambda>(st', ms', n).
          Inr (if n > 0 then st'\<lparr>shrunk := True, dynamic := cold_slots env > 0,
                                 stats := zero_stats\<rparr> else st', ms')))"

section \<open>Staging\<close>

fun copy_rows ::
  "moe_module \<Rightarrow> (string, byte list) dict \<Rightarrow> nat \<Rightarrow> nat \<Rightarrow> moe_module \<times> nat option" where
  "copy_rows m [] row nb = (m, Some nb)"
| "copy_rows m ((name, v) # rs) row nb =
     (case getattr m name of
        Some (oid, Rows ts) \<Rightarrow>
          if row < length ts
          then copy_rows (set_data m oid (Rows (ts[row := v]))) rs row (nb + length v)
          else (m, None)
      | _ \<Rightarrow> (m, None))"

definition row_from_host :: "pool_state \<Rightarrow> layer_pool \<Rightarrow> nat \<Rightarrow> nat \<Rightarrow> pool_state \<times> layer_pool \<times> bool" where
  "row_from_host st p gid row =
     (case dget (host p) gid of
        None \<Rightarrow> (st, p, False)
      | Some [] \<Rightarrow> (st, p, False)
      | Some rows \<Rightarrow>
          (case copy_rows (module_of p) rows row 0 of
             (m', None) \<Rightarrow> (st\<lparr>stats := (stats st)\<lparr>stage_fail := Suc (stage_fail (stats st))\<rparr>\<rparr>,
                            p\<lparr>module_of := m'\<rparr>, False)
           | (m', Some nb) \<Rightarrow>
               (unmask_gid (st\<lparr>stats := (stats st)\<lparr>h2d_bytes := h2d_bytes (stats st) + nb\<rparr>\<rparr>)
                  (layer_id p) gid row,
                p\<lparr>module_of := m', gid_row := dset (gid_row p) gid row,
                  row_gid := dset (row_gid p) row gid,
                  row_tick := dset (row_tick p) row (tick p)\<rparr>, True)))"

definition evict_row :: "pool_state \<Rightarrow> layer_pool \<Rightarrow> nat \<Rightarrow> pool_state \<times> layer_pool" where
  "evict_row st p row =
     (case dget (row_gid p) row of
        None \<Rightarrow> (st, p)
      | Some old \<Rightarrow>
          (let st1 = mask_gid st (layer_id p) old
           in (st1\<lparr>stats := (stats st1)\<lparr>evicted := Suc (evicted (stats st1))\<rparr>\<rparr>,
               p\<lparr>row_gid := dpop (row_gid p) row, gid_row := dpop (gid_row p) old\<rparr>)))"

definition lru_candidates :: "layer_pool \<Rightarrow> (nat, int) dict" where
  "lru_candidates p = filter (\<lambda>(r, t). r \<notin> protected p) (row_tick p)"

text \<open>The first entry with the least age, as \<^verbatim>\<open>min(cands, key=...)\<close> picks it.\<close>

fun first_min :: "(nat \<times> int) list \<Rightarrow> (nat \<times> int) option" where
  "first_min [] = None"
| "first_min (x # xs) =
     (case first_min xs of None \<Rightarrow> Some x
      | Some y \<Rightarrow> (if snd y < snd x then Some y else Some x))"

definition pick_row :: "pool_state \<Rightarrow> layer_pool \<Rightarrow> pool_state \<times> layer_pool \<times> nat option" where
  "pick_row st p =
     (case free_rows p of
        r # rs \<Rightarrow> (st, p\<lparr>free_rows := rs\<rparr>, Some r)
      | [] \<Rightarrow>
          (case first_min (lru_candidates p) of
             None \<Rightarrow> (st, p, None)
           | Some (victim, _) \<Rightarrow>
               (let (st', p') = evict_row st p victim in (st', p', Some victim))))"

definition return_row :: "layer_pool \<Rightarrow> nat option \<Rightarrow> layer_pool" where
  "return_row p row =
     (case row of None \<Rightarrow> p
      | Some r \<Rightarrow> (if r \<notin> dkeys (row_gid p) \<and> r \<notin> set (free_rows p)
                  then p\<lparr>free_rows := free_rows p @ [r]\<rparr> else p))"

text \<open>
  \<^verbatim>\<open>_checksum_selfcheck\<close>: how many rows were compared and how many differ. A staged expert
  without host rows and a row outside its tensor raise.
\<close>

definition row_differs :: "moe_module \<Rightarrow> nat \<Rightarrow> string \<Rightarrow> byte list \<Rightarrow> bool result" where
  "row_differs m row name pinned =
     (case getattr m name of
        None \<Rightarrow> Inr True
      | Some (oid, Scalar v) \<Rightarrow> Inl IndexError
      | Some (oid, Rows ts) \<Rightarrow> (if row < length ts then Inr (ts ! row \<noteq> pinned) else Inl IndexError))"

definition checksum_expert :: "layer_pool \<Rightarrow> nat \<times> nat \<Rightarrow> nat \<times> nat \<Rightarrow> (nat \<times> nat) result" where
  "checksum_expert p acc gr =
     (case dget (host p) (fst gr) of
        None \<Rightarrow> Inl KeyError
      | Some d \<Rightarrow>
          res_fold (\<lambda>(checked, bad) (name, pinned).
              res_bind (row_differs (module_of p) (snd gr) name pinned) (\<lambda>b.
                Inr (Suc checked, if b then Suc bad else bad))) acc d)"

definition checksum_selfcheck :: "pool_state \<Rightarrow> (nat \<times> nat) result" where
  "checksum_selfcheck st =
     res_fold (\<lambda>acc (lid, p). res_fold (checksum_expert p) acc (gid_row p)) (0, 0) (layers st)"

end
