(* ===== verification/Cold_Inv.thy ===== *)
theory Cold_Inv
  imports Cold_Pool
begin

text \<open>
  The invariant of a shrunk layer and its preservation by the staging operations of
  \<open>Cold_Pool\<close>. \<open>names\<close> are the tensors that moved and \<open>orig n g\<close> the row of expert \<open>g\<close> in
  tensor \<open>n\<close> before the shrink.
\<close>

section \<open>Reading a module\<close>

definition rows_at :: "moe_module \<Rightarrow> string \<Rightarrow> byte list list option" where
  "rows_at m n = (case getattr m n of Some (oid, Rows ts) \<Rightarrow> Some ts | _ \<Rightarrow> None)"

definition row_holds :: "moe_module \<Rightarrow> string set \<Rightarrow> (string \<Rightarrow> nat \<Rightarrow> byte list) \<Rightarrow> nat \<Rightarrow> nat \<Rightarrow> bool" where
  "row_holds m names orig r g \<longleftrightarrow>
     (\<forall>n\<in>names. \<exists>ts. rows_at m n = Some ts \<and> r < length ts \<and> ts ! r = orig n g)"

definition module_ok :: "moe_module \<Rightarrow> string set \<Rightarrow> nat \<Rightarrow> bool" where
  "module_ok m names ph \<longleftrightarrow>
     (\<forall>n\<in>names. \<exists>ts. rows_at m n = Some ts \<and> length ts = ph) \<and>
     (\<forall>n\<in>names. \<forall>n'\<in>names. getattr_obj m n = getattr_obj m n' \<longrightarrow> n = n')"

lemma getattr_obj_set_data [simp]: "getattr_obj (set_data m oid t) n = getattr_obj m n"
  by (simp add: getattr_obj_def set_data_def)

lemma getattr_set_data:
  "getattr (set_data m oid t) n =
     (if getattr_obj m n = Some oid then Some (oid, t) else getattr m n)"
  by (auto simp: getattr_def set_data_def getattr_obj_def dict_simps split: option.splits)

lemma getattr_SomeD: "getattr m n = Some (oid, t) \<Longrightarrow> getattr_obj m n = Some oid"
  by (auto simp: getattr_def split: option.splits)

lemma rows_at_set_data:
  "rows_at (set_data m oid (Rows ts)) n =
     (if getattr_obj m n = Some oid then Some ts else rows_at m n)"
  by (simp add: rows_at_def getattr_set_data)

lemma rows_at_SomeE:
  assumes "rows_at m n = Some ts"
  obtains oid where "getattr m n = Some (oid, Rows ts)" "getattr_obj m n = Some oid"
  using assms
  by (auto simp: rows_at_def split: option.splits tensor.splits dest: getattr_SomeD)

lemma rows_at_getattr: "getattr m n = Some (oid, Rows ts) \<Longrightarrow> rows_at m n = Some ts"
  by (simp add: rows_at_def)

lemma rows_at_obj_eq:
  "getattr_obj m n = getattr_obj m n' \<Longrightarrow> rows_at m n = rows_at m n'"
  by (simp add: rows_at_def getattr_def)

section \<open>Copying a host row into a row\<close>

lemma copy_rows_frame:
  assumes "copy_rows m rs row nb = (m', res)"
  shows "getattr_obj m' = getattr_obj m \<and>
    (\<forall>n ts. rows_at m n = Some ts \<longrightarrow> (\<exists>ts'. rows_at m' n = Some ts' \<and> length ts' = length ts \<and>
       (\<forall>i. i \<noteq> row \<longrightarrow> ts' ! i = ts ! i)))"
  using assms
proof (induction rs arbitrary: m nb)
  case Nil
  then show ?case by simp
next
  case (Cons nv rs)
  obtain name v where nv: "nv = (name, v)" by (cases nv)
  show ?case
  proof (cases "\<exists>oid ts. getattr m name = Some (oid, Rows ts) \<and> row < length ts")
    case False
    then have "m' = m" using Cons.prems
      by (auto simp: nv split: option.splits tensor.splits if_splits)
    then show ?thesis by simp
  next
    case True
    then obtain oid ts where g: "getattr m name = Some (oid, Rows ts)" "row < length ts" by blast
    let ?m1 = "set_data m oid (Rows (ts[row := v]))"
    from Cons.prems g have "copy_rows ?m1 rs row (nb + length v) = (m', res)" by (simp add: nv)
    note IH = Cons.IH[OF this]
    have step: "\<exists>ts1. rows_at ?m1 n = Some ts1 \<and> length ts1 = length us \<and>
        (\<forall>i. i \<noteq> row \<longrightarrow> ts1 ! i = us ! i)" if "rows_at m n = Some us" for n us
    proof (cases "getattr_obj m n = Some oid")
      case True
      then have "rows_at m n = rows_at m name"
        using rows_at_obj_eq getattr_SomeD[OF g(1)] by simp
      then have "us = ts" using that rows_at_getattr[OF g(1)] by simp
      then show ?thesis using True by (simp add: rows_at_set_data)
    next
      case False
      then show ?thesis using that by (simp add: rows_at_set_data)
    qed
    show ?thesis
    proof (intro conjI allI impI)
      show "getattr_obj m' = getattr_obj m" using IH by auto
      fix n us assume "rows_at m n = Some us"
      from step[OF this] obtain ts1 where t1: "rows_at ?m1 n = Some ts1" "length ts1 = length us"
        "\<forall>i. i \<noteq> row \<longrightarrow> ts1 ! i = us ! i" by blast
      from IH t1(1) obtain ts2 where "rows_at m' n = Some ts2" "length ts2 = length ts1"
        "\<forall>i. i \<noteq> row \<longrightarrow> ts2 ! i = ts1 ! i" by blast
      then show "\<exists>ts'. rows_at m' n = Some ts' \<and> length ts' = length us \<and>
          (\<forall>i. i \<noteq> row \<longrightarrow> ts' ! i = us ! i)" using t1 by auto
    qed
  qed
qed

lemma copy_rows_module_ok:
  assumes "copy_rows m rs row nb = (m', res)" and "module_ok m names ph"
  shows "module_ok m' names ph"
  using copy_rows_frame[OF assms(1)] assms(2) unfolding module_ok_def by fastforce

lemma copy_rows_row_holds:
  assumes "copy_rows m rs row nb = (m', res)" and "row_holds m names orig r g" and "r \<noteq> row"
  shows "row_holds m' names orig r g"
  using copy_rows_frame[OF assms(1)] assms(2,3) unfolding row_holds_def by fastforce

lemma copy_rows_success:
  "module_ok m names ph \<Longrightarrow> fst ` set rs \<subseteq> names \<Longrightarrow> row < ph \<Longrightarrow>
     \<exists>m' nb'. copy_rows m rs row nb = (m', Some nb')"
proof (induction rs arbitrary: m nb)
  case Nil
  then show ?case by simp
next
  case (Cons nv rs)
  obtain name v where nv: "nv = (name, v)" by (cases nv)
  have "name \<in> names" using Cons.prems(2) nv by simp
  then obtain ts where ts: "rows_at m name = Some ts" "length ts = ph"
    using Cons.prems(1) by (auto simp: module_ok_def)
  obtain oid where g: "getattr m name = Some (oid, Rows ts)" using rows_at_SomeE[OF ts(1)] by blast
  let ?m1 = "set_data m oid (Rows (ts[row := v]))"
  have "copy_rows m [nv] row nb = (?m1, Some (nb + length v))"
    using g ts(2) Cons.prems(3) by (simp add: nv)
  then have "module_ok ?m1 names ph" using copy_rows_module_ok Cons.prems(1) by blast
  moreover have "fst ` set rs \<subseteq> names" using Cons.prems(2) by auto
  ultimately show ?case using Cons.IH[of ?m1] Cons.prems(3) g ts(2) by (simp add: nv)
qed

lemma copy_rows_keeps_name:
  "copy_rows m rs row nb = (m', res) \<Longrightarrow> module_ok m names ph \<Longrightarrow> fst ` set rs \<subseteq> names \<Longrightarrow>
     n \<in> names \<Longrightarrow> n \<notin> fst ` set rs \<Longrightarrow> rows_at m' n = rows_at m n"
proof (induction rs arbitrary: m nb)
  case Nil
  then show ?case by simp
next
  case (Cons nv rs)
  obtain name v where nv: "nv = (name, v)" by (cases nv)
  show ?case
  proof (cases "\<exists>oid ts. getattr m name = Some (oid, Rows ts) \<and> row < length ts")
    case False
    then have "m' = m" using Cons.prems(1)
      by (auto simp: nv split: option.splits tensor.splits if_splits)
    then show ?thesis by simp
  next
    case True
    then obtain oid ts where g: "getattr m name = Some (oid, Rows ts)" "row < length ts" by blast
    let ?m1 = "set_data m oid (Rows (ts[row := v]))"
    have one: "copy_rows m [nv] row nb = (?m1, Some (nb + length v))" using g by (simp add: nv)
    have rest: "copy_rows ?m1 rs row (nb + length v) = (m', res)" using Cons.prems(1) g by (simp add: nv)
    have nn: "n \<noteq> name" "name \<in> names" using Cons.prems(3,5) nv by auto
    then have "getattr_obj m n \<noteq> getattr_obj m name"
      using Cons.prems(2,4) unfolding module_ok_def by blast
    then have "rows_at ?m1 n = rows_at m n"
      using getattr_SomeD[OF g(1)] by (simp add: rows_at_set_data)
    moreover have "rows_at m' n = rows_at ?m1 n"
      using Cons.IH[OF rest copy_rows_module_ok[OF one Cons.prems(2)]] Cons.prems(3,4,5) by auto
    ultimately show ?thesis by simp
  qed
qed

lemma copy_rows_written:
  "copy_rows m rs row nb = (m', Some nb') \<Longrightarrow> module_ok m names ph \<Longrightarrow> fst ` set rs \<subseteq> names \<Longrightarrow>
     distinct (map fst rs) \<Longrightarrow> (n, v) \<in> set rs \<Longrightarrow>
     \<exists>ts. rows_at m' n = Some ts \<and> row < length ts \<and> ts ! row = v"
proof (induction rs arbitrary: m nb)
  case Nil
  then show ?case by simp
next
  case (Cons nv rs)
  obtain name w where nv: "nv = (name, w)" by (cases nv)
  from Cons.prems(1) obtain oid ts where g: "getattr m name = Some (oid, Rows ts)" "row < length ts"
    by (auto simp: nv split: option.splits tensor.splits if_splits)
  let ?m1 = "set_data m oid (Rows (ts[row := w]))"
  have one: "copy_rows m [nv] row nb = (?m1, Some (nb + length w))" using g by (simp add: nv)
  have rest: "copy_rows ?m1 rs row (nb + length w) = (m', Some nb')"
    using Cons.prems(1) g by (simp add: nv)
  have ok1: "module_ok ?m1 names ph" by (rule copy_rows_module_ok[OF one Cons.prems(2)])
  have sub: "fst ` set rs \<subseteq> names" "name \<in> names" using Cons.prems(3) nv by auto
  show ?case
  proof (cases "(n, v) \<in> set rs")
    case True
    then show ?thesis using Cons.IH[OF rest ok1 sub(1)] Cons.prems(4) by simp
  next
    case False
    then have nw: "n = name" "v = w" using Cons.prems(5) nv by auto
    then have "n \<notin> fst ` set rs" using Cons.prems(4) nv by auto
    then have "rows_at m' n = rows_at ?m1 n"
      using copy_rows_keeps_name[OF rest ok1 sub(1)] sub(2) nw by blast
    moreover have "rows_at ?m1 n = Some (ts[row := w])"
      using getattr_SomeD[OF g(1)] nw by (simp add: rows_at_set_data)
    ultimately show ?thesis using g(2) nw by simp
  qed
qed

section \<open>The invariant of a layer\<close>

definition shape_ok :: "layer_pool \<Rightarrow> bool" where
  "shape_ok p \<longleftrightarrow> keep_len p = length (keep p) \<and> keep p \<noteq> [] \<and> keep_len p \<le> phys p \<and>
     (\<forall>g\<in>set (keep p). g < num_E p) \<and> (\<forall>g\<in>set (cold p). g < num_E p \<and> g \<notin> set (keep p)) \<and>
     (\<forall>g<num_E p. g \<in> set (keep p) \<or> g \<in> set (cold p)) \<and>
     cold_ids p = cold p \<and> keep_ids p = keep p"

definition slots_ok :: "layer_pool \<Rightarrow> bool" where
  "slots_ok p \<longleftrightarrow>
     (\<forall>g r. dget (gid_row p) g = Some r \<longleftrightarrow> dget (row_gid p) r = Some g) \<and>
     (\<forall>g r. dget (gid_row p) g = Some r \<longrightarrow> g \<in> set (cold p) \<and> keep_len p \<le> r \<and> r < phys p) \<and>
     distinct (free_rows p) \<and>
     (\<forall>r\<in>set (free_rows p). keep_len p \<le> r \<and> r < phys p \<and> dget (row_gid p) r = None) \<and>
     (\<forall>r\<in>dkeys (row_tick p). keep_len p \<le> r \<and> r < phys p) \<and>
     distinct (map fst (gid_row p))"

text \<open>Every slot row is free, owned by a staged expert, or in \<open>H\<close>, the rows in hand.\<close>

definition covers :: "layer_pool \<Rightarrow> nat set \<Rightarrow> bool" where
  "covers p H \<longleftrightarrow> {keep_len p ..< phys p} \<subseteq> set (free_rows p) \<union> dkeys (row_gid p) \<union> H"

definition unmasked_in :: "layer_pool \<Rightarrow> nat \<Rightarrow> bool" where
  "unmasked_in p g \<longleftrightarrow> g \<in> set (keep p) \<or> g \<in> dkeys (gid_row p)"

definition tables_ok :: "('a) cp_state_scheme \<Rightarrow> layer_pool \<Rightarrow> bool" where
  "tables_ok st p \<longleftrightarrow>
     (\<forall>dt c. dget (bias_cache st) (layer_id p, dt) = Some c \<longrightarrow> length c = num_E p \<and>
        (\<forall>g<num_E p. c ! g = (if unmasked_in p g then 0 else finfo_min dt))) \<and>
     (\<exists>t. dget (remap_cache st) (layer_id p) = Some t \<and> length t = num_E p \<and>
        (\<forall>g\<in>set (keep p). t ! g < keep_len p \<and> keep p ! (t ! g) = g) \<and>
        (\<forall>g<num_E p. g \<notin> set (keep p) \<longrightarrow>
           t ! g = (case dget (gid_row p) g of Some r \<Rightarrow> r | None \<Rightarrow> 0)))"

definition host_ok :: "string set \<Rightarrow> (string \<Rightarrow> nat \<Rightarrow> byte list) \<Rightarrow> layer_pool \<Rightarrow> bool" where
  "host_ok names orig p \<longleftrightarrow>
     (\<forall>g\<in>set (cold p). \<exists>d. dget (host p) g = Some d \<and> d \<noteq> [] \<and> distinct (map fst d) \<and>
        fst ` set d = names \<and> (\<forall>n v. (n, v) \<in> set d \<longrightarrow> v = orig n g))"

definition content_ok :: "string set \<Rightarrow> (string \<Rightarrow> nat \<Rightarrow> byte list) \<Rightarrow> layer_pool \<Rightarrow> bool" where
  "content_ok names orig p \<longleftrightarrow>
     module_ok (module_of p) names (phys p) \<and>
     (\<forall>i<keep_len p. row_holds (module_of p) names orig i (keep p ! i)) \<and>
     (\<forall>g r. dget (gid_row p) g = Some r \<longrightarrow> row_holds (module_of p) names orig r g) \<and>
     host_ok names orig p"

definition layer_ok ::
  "string set \<Rightarrow> (string \<Rightarrow> nat \<Rightarrow> byte list) \<Rightarrow> ('a) cp_state_scheme \<Rightarrow> layer_pool \<Rightarrow> bool" where
  "layer_ok names orig st p \<longleftrightarrow>
     shape_ok p \<and> slots_ok p \<and> tables_ok st p \<and> content_ok names orig p"

text \<open>
  What the invariant is for: an expert whose bias is zero, so that the router may pick it, is
  remapped to a physical row that holds exactly its own weights.
\<close>

lemma layer_ok_routable:
  assumes ok: "layer_ok names orig st p"
    and bias: "dget (bias_cache st) (layer_id p, dt) = Some c" and g: "g < num_E p"
    and zero: "c ! g = 0"
    and tbl: "dget (remap_cache st) (layer_id p) = Some t"
  shows "t ! g < phys p \<and> row_holds (module_of p) names orig (t ! g) g"
proof -
  have un: "unmasked_in p g"
    using ok bias g zero finfo_min_neg[of dt] unfolding layer_ok_def tables_ok_def
    by (metis less_irrefl)
  show ?thesis
  proof (cases "g \<in> set (keep p)")
    case True
    then have "t ! g < keep_len p" "keep p ! (t ! g) = g"
      using ok tbl unfolding layer_ok_def tables_ok_def by auto
    then show ?thesis using ok unfolding layer_ok_def content_ok_def shape_ok_def by fastforce
  next
    case False
    then obtain r where r: "dget (gid_row p) g = Some r"
      using un unfolding unmasked_in_def by (auto simp: dkeys_dget)
    then have "t ! g = r"
      using ok tbl g False unfolding layer_ok_def tables_ok_def by auto
    then show ?thesis using ok r unfolding layer_ok_def content_ok_def slots_ok_def by auto
  qed
qed

section \<open>Preservation\<close>

lemma tables_ok_cong:
  "bias_cache st' = bias_cache st \<Longrightarrow> remap_cache st' = remap_cache st \<Longrightarrow>
     layer_id p' = layer_id p \<Longrightarrow> num_E p' = num_E p \<Longrightarrow> keep p' = keep p \<Longrightarrow>
     keep_len p' = keep_len p \<Longrightarrow> gid_row p' = gid_row p \<Longrightarrow>
     tables_ok st' p' = tables_ok st p"
  by (simp add: tables_ok_def unmasked_in_def)

lemma tables_ok_biasD:
  assumes "tables_ok st p" and "dget (bias_cache st) (layer_id p, dt) = Some c"
  shows "length c = num_E p"
    and "g < num_E p \<Longrightarrow> c ! g = (if unmasked_in p g then 0 else finfo_min dt)"
  using assms unfolding tables_ok_def by blast+

lemma tables_okE:
  assumes "tables_ok st p"
  obtains t where "dget (remap_cache st) (layer_id p) = Some t" "length t = num_E p"
    "\<forall>g\<in>set (keep p). t ! g < keep_len p \<and> keep p ! (t ! g) = g"
    "\<forall>g<num_E p. g \<notin> set (keep p) \<longrightarrow>
       t ! g = (case dget (gid_row p) g of Some r \<Rightarrow> r | None \<Rightarrow> 0)"
  using assms unfolding tables_ok_def by blast

lemma tables_ok_upd:
  assumes t: "tables_ok st p" and sh: "shape_ok p" and g: "g \<in> set (cold p)"
    and pe: "layer_id p' = layer_id p" "num_E p' = num_E p" "keep p' = keep p"
      "keep_len p' = keep_len p"
    and gr: "\<And>h. dget (gid_row p') h = (if h = g then ro else dget (gid_row p) h)"
    and bias: "\<And>dt. dget (bias_cache st') (layer_id p, dt) =
        map_option (\<lambda>c. c[g := (if ro = None then finfo_min dt else 0)])
          (dget (bias_cache st) (layer_id p, dt))"
    and remap: "dget (remap_cache st') (layer_id p) =
        map_option (\<lambda>t. t[g := (case ro of Some r \<Rightarrow> r | None \<Rightarrow> 0)])
          (dget (remap_cache st) (layer_id p))"
  shows "tables_ok st' p'"
proof -
  have gE: "g < num_E p" "g \<notin> set (keep p)" using sh g by (auto simp: shape_ok_def)
  have un: "unmasked_in p' h \<longleftrightarrow> (if h = g then ro \<noteq> None else unmasked_in p h)" for h
    using gE(2) by (auto simp: unmasked_in_def dkeys_dget gr pe)
  obtain t0 where t0: "dget (remap_cache st) (layer_id p) = Some t0" "length t0 = num_E p"
    "\<forall>g\<in>set (keep p). t0 ! g < keep_len p \<and> keep p ! (t0 ! g) = g"
    "\<forall>g<num_E p. g \<notin> set (keep p) \<longrightarrow>
       t0 ! g = (case dget (gid_row p) g of Some r \<Rightarrow> r | None \<Rightarrow> 0)"
    using t by (rule tables_okE)
  let ?t = "t0[g := (case ro of Some r \<Rightarrow> r | None \<Rightarrow> 0)]"
  have b: "length c = num_E p \<and>
      (\<forall>h<num_E p. c ! h = (if unmasked_in p' h then 0 else finfo_min dt))"
    if "dget (bias_cache st') (layer_id p, dt) = Some c" for dt c
  proof -
    from that obtain c0 where c0: "dget (bias_cache st) (layer_id p, dt) = Some c0"
      "c = c0[g := (if ro = None then finfo_min dt else 0)]" by (auto simp: bias)
    note B = tables_ok_biasD[OF t c0(1)]
    show ?thesis using B by (simp add: c0(2) nth_list_update un)
  qed
  have r: "dget (remap_cache st') (layer_id p) = Some ?t" using t0(1) by (simp add: remap)
  have k: "\<forall>h\<in>set (keep p). ?t ! h < keep_len p \<and> keep p ! (?t ! h) = h"
    using t0(3) gE(2) by (metis nth_list_update_neq)
  have c: "\<forall>h<num_E p. h \<notin> set (keep p) \<longrightarrow>
      ?t ! h = (case dget (gid_row p') h of Some r \<Rightarrow> r | None \<Rightarrow> 0)"
    using t0(2,4) by (simp add: gr nth_list_update)
  show ?thesis unfolding tables_ok_def pe using b r k c t0(2) by auto
qed

lemma tables_ok_mask:
  assumes "tables_ok st p" and "shape_ok p" and "g \<in> set (cold p)"
  shows "tables_ok (mask_gid st (layer_id p) g) (p\<lparr>row_gid := rg, gid_row := dpop (gid_row p) g\<rparr>)"
  by (rule tables_ok_upd[OF assms, where ro = None])
    (simp_all add: mask_bias mask_remap dict_simps)

lemma tables_ok_unmask:
  assumes "tables_ok st p" and "shape_ok p" and "g \<in> set (cold p)"
    and "layer_id p' = layer_id p" "num_E p' = num_E p" "keep p' = keep p"
      "keep_len p' = keep_len p" "gid_row p' = dset (gid_row p) g r"
  shows "tables_ok (unmask_gid st (layer_id p) g r) p'"
  by (rule tables_ok_upd[OF assms(1-7), where ro = "Some r"])
    (simp_all add: assms(8) unmask_bias unmask_remap dict_simps)

lemma tables_ok_other:
  assumes "tables_ok st q" and "layer_id q \<noteq> lid"
  shows "tables_ok (mask_gid st lid g) q" and "tables_ok (unmask_gid st lid g r) q"
  using assms by (auto simp: tables_ok_def mask_bias unmask_bias mask_remap unmask_remap)

section \<open>Staging keeps the invariant\<close>

text \<open>What never changes about a pool while the hook runs.\<close>

definition same_shape :: "layer_pool \<Rightarrow> layer_pool \<Rightarrow> bool" where
  "same_shape p p' \<longleftrightarrow> layer_id p' = layer_id p \<and> num_E p' = num_E p \<and> keep p' = keep p \<and>
     keep_len p' = keep_len p \<and> cold p' = cold p \<and> cold_ids p' = cold_ids p \<and>
     keep_ids p' = keep_ids p \<and> phys p' = phys p \<and> host p' = host p \<and>
     cold_mask p' = cold_mask p \<and> need_counts p' = need_counts p \<and> tick p' = tick p \<and>
     protected p' = protected p"

lemma same_shape_refl [simp]: "same_shape p p"
  by (simp add: same_shape_def)

lemma same_shape_trans: "same_shape p q \<Longrightarrow> same_shape q r \<Longrightarrow> same_shape p r"
  by (simp add: same_shape_def)

lemma same_shape_shape_ok: "same_shape p p' \<Longrightarrow> shape_ok p \<Longrightarrow> shape_ok p'"
  by (simp add: same_shape_def shape_ok_def)

lemma slots_okD:
  assumes "slots_ok p"
  shows "dget (gid_row p) g = Some r \<longleftrightarrow> dget (row_gid p) r = Some g"
    and "dget (gid_row p) g = Some r \<Longrightarrow> g \<in> set (cold p) \<and> keep_len p \<le> r \<and> r < phys p"
    and "distinct (free_rows p)"
    and "r \<in> set (free_rows p) \<Longrightarrow> keep_len p \<le> r \<and> r < phys p \<and> dget (row_gid p) r = None"
    and "r \<in> dkeys (row_tick p) \<Longrightarrow> keep_len p \<le> r \<and> r < phys p"
    and "distinct (map fst (gid_row p))"
  using assms unfolding slots_ok_def by blast+

lemma slots_okI:
  assumes "\<And>g r. dget (gid_row p) g = Some r \<longleftrightarrow> dget (row_gid p) r = Some g"
    and "\<And>g r. dget (gid_row p) g = Some r \<Longrightarrow> g \<in> set (cold p) \<and> keep_len p \<le> r \<and> r < phys p"
    and "distinct (free_rows p)"
    and "\<And>r. r \<in> set (free_rows p) \<Longrightarrow> keep_len p \<le> r \<and> r < phys p \<and> dget (row_gid p) r = None"
    and "\<And>r. r \<in> dkeys (row_tick p) \<Longrightarrow> keep_len p \<le> r \<and> r < phys p"
    and "distinct (map fst (gid_row p))"
  shows "slots_ok p"
  using assms unfolding slots_ok_def by blast

lemma evict_row_ok:
  assumes ok: "layer_ok names orig st p" and ev: "evict_row st p row = (st', p')"
  shows "layer_ok names orig st' p'" and "same_shape p p'" and "dget (row_gid p') row = None"
    and "free_rows p' = free_rows p" and "row_tick p' = row_tick p"
    and "dkeys (row_gid p') = dkeys (row_gid p) - {row}"
proof -
  have parts: "shape_ok p" "slots_ok p" "tables_ok st p" "content_ok names orig p"
    using ok by (auto simp: layer_ok_def)
  note sl = slots_okD[OF parts(2)]
  show "same_shape p p'" "dget (row_gid p') row = None" "free_rows p' = free_rows p"
      "row_tick p' = row_tick p"
    using ev by (auto simp: evict_row_def same_shape_def Let_def dget_dpop split: option.splits)
  show "dkeys (row_gid p') = dkeys (row_gid p) - {row}"
  proof (cases "dget (row_gid p) row")
    case None
    then have "p' = p" using ev by (simp add: evict_row_def)
    moreover have "row \<notin> dkeys (row_gid p)" using None by (simp only: dget_None_iff not_False_eq_True)
    ultimately show ?thesis by simp
  next
    case (Some old)
    then have "row_gid p' = dpop (row_gid p) row" using ev by (auto simp: evict_row_def Let_def)
    then show ?thesis by (simp add: dkeys_dpop)
  qed
  show "layer_ok names orig st' p'"
  proof (cases "dget (row_gid p) row")
    case None
    then show ?thesis using ev ok by (simp add: evict_row_def)
  next
    case (Some old)
    let ?p' = "p\<lparr>row_gid := dpop (row_gid p) row, gid_row := dpop (gid_row p) old\<rparr>"
    have p': "p' = ?p'" and st': "st' = mask_gid st (layer_id p) old
        \<lparr>stats := (stats (mask_gid st (layer_id p) old))
          \<lparr>evicted := Suc (evicted (stats (mask_gid st (layer_id p) old)))\<rparr>\<rparr>"
      using ev Some by (auto simp: evict_row_def Let_def)
    have gr: "dget (gid_row p) old = Some row" using sl(1) Some by blast
    then have cold: "old \<in> set (cold p)" using sl(2) by blast
    have "tables_ok (mask_gid st (layer_id p) old) ?p'"
      by (rule tables_ok_mask[OF parts(3,1) cold])
    then have t: "tables_ok st' p'"
      unfolding p' by (subst tables_ok_cong) (auto simp: st')
    have bij: "dget (gid_row ?p') g = Some r \<longleftrightarrow> dget (row_gid ?p') r = Some g" for g r
      using sl(1)[of g r] sl(1)[of old r] sl(1)[of g row] gr Some by (auto simp: dict_simps)
    have "slots_ok ?p'"
      by (rule slots_okI[OF bij]) (use sl(2-6) distinct_delete[OF sl(6), of old] in \<open>auto simp: dict_simps split: if_splits\<close>)
    moreover have "content_ok names orig ?p'"
      using parts(4) by (auto simp: content_ok_def host_ok_def dict_simps)
    moreover have "shape_ok ?p'" using parts(1) by (simp add: shape_ok_def)
    ultimately show ?thesis using t by (simp add: layer_ok_def p')
  qed
qed

lemma first_min_in: "first_min xs = Some x \<Longrightarrow> x \<in> set xs"
  by (induction xs arbitrary: x) (auto split: option.splits if_splits)

lemma first_min_le: "first_min xs = Some x \<Longrightarrow> y \<in> set xs \<Longrightarrow> snd x \<le> snd y"
proof (induction xs arbitrary: x)
  case Nil
  then show ?case by simp
next
  case (Cons a xs)
  show ?case
  proof (cases "first_min xs")
    case None
    then have "xs = []" by (cases xs) (auto split: option.splits if_splits)
    then show ?thesis using Cons.prems by simp
  next
    case (Some z)
    then show ?thesis using Cons.prems Cons.IH[OF Some] by (auto split: if_splits)
  qed
qed

lemma first_min_None_iff: "first_min xs = None \<longleftrightarrow> xs = []"
  by (cases xs) (auto split: option.splits if_splits)

lemma covers_mono: "covers p H \<Longrightarrow> H \<subseteq> H' \<Longrightarrow> covers p H'"
  by (auto simp: covers_def)

lemma pick_row_ok:
  assumes ok: "layer_ok names orig st p" and pk: "pick_row st p = (st', p', ro)"
  shows "layer_ok names orig st' p'" and "same_shape p p'"
    and "ro = Some r \<Longrightarrow> keep_len p \<le> r \<and> r < phys p \<and> r \<notin> set (free_rows p') \<and>
           dget (row_gid p') r = None"
    and "ro = Some r \<Longrightarrow> covers p {} \<Longrightarrow> covers p' {r}"
    and "ro = None \<Longrightarrow> p' = p \<and> st' = st"
proof -
  have parts: "shape_ok p" "slots_ok p" "tables_ok st p" "content_ok names orig p"
    using ok by (auto simp: layer_ok_def)
  note sl = slots_okD[OF parts(2)]
  show None': "ro = None \<Longrightarrow> p' = p \<and> st' = st"
    using pk by (auto simp: pick_row_def Let_def split: list.splits option.splits prod.splits)
  have all: "layer_ok names orig st' p' \<and> same_shape p p' \<and>
        (ro = Some r \<longrightarrow> keep_len p \<le> r \<and> r < phys p \<and> r \<notin> set (free_rows p') \<and>
           dget (row_gid p') r = None) \<and> (ro = Some r \<longrightarrow> covers p {} \<longrightarrow> covers p' {r})" for r
  proof (cases "free_rows p")
    case (Cons f fs)
    have e: "st' = st" "p' = p\<lparr>free_rows := fs\<rparr>" "ro = Some f"
      using pk Cons by (auto simp: pick_row_def)
    have "slots_ok p'" unfolding slots_ok_def e using parts(2) Cons by (auto simp: slots_ok_def)
    moreover have "tables_ok st' p'" unfolding e using parts(3)
      by (subst tables_ok_cong) auto
    moreover have "content_ok names orig p'" using parts(4)
      unfolding e by (simp add: content_ok_def host_ok_def)
    moreover have "shape_ok p'" using parts(1) by (simp add: shape_ok_def e)
    ultimately have "layer_ok names orig st' p'" by (simp add: layer_ok_def)
    moreover have "same_shape p p'" by (simp add: same_shape_def e)
    moreover have "keep_len p \<le> f \<and> f < phys p \<and> f \<notin> set (free_rows p') \<and>
        dget (row_gid p') f = None"
      using sl(3) sl(4)[of f] Cons by (auto simp: e)
    moreover have "covers p {} \<longrightarrow> covers p' {f}" using Cons by (auto simp: covers_def e)
    ultimately show ?thesis using e(3) by auto
  next
    case Nil
    show ?thesis
    proof (cases "first_min (lru_candidates p)")
      case None
      then show ?thesis using pk Nil ok by (auto simp: pick_row_def)
    next
      case (Some v)
      obtain w t where v: "v = (w, t)" by (cases v)
      have ev: "evict_row st p w = (st', p')" and ro: "ro = Some w"
        using pk Nil Some v by (auto simp: pick_row_def Let_def split: prod.splits)
      note E = evict_row_ok[OF ok ev]
      have "w \<in> dkeys (row_tick p)" using first_min_in[OF Some] v
        by (force simp: lru_candidates_def)
      then have "keep_len p \<le> w \<and> w < phys p" using sl(5) by blast
      moreover have "covers p {} \<longrightarrow> covers p' {w}"
        using E(2,4,6) by (auto simp: covers_def same_shape_def)
      ultimately show ?thesis using E ro Nil by auto
    qed
  qed
  show "layer_ok names orig st' p'" "same_shape p p'" using all by auto
  show "ro = Some r \<Longrightarrow> keep_len p \<le> r \<and> r < phys p \<and> r \<notin> set (free_rows p') \<and>
           dget (row_gid p') r = None" using all by blast
  show "ro = Some r \<Longrightarrow> covers p {} \<Longrightarrow> covers p' {r}" using all by blast
qed

lemma row_from_host_ok:
  assumes ok: "layer_ok names orig st p" and cold: "g \<in> set (cold p)"
    and fresh: "dget (gid_row p) g = None" "r \<notin> set (free_rows p)" "dget (row_gid p) r = None"
    and slot: "keep_len p \<le> r" "r < phys p"
    and rf: "row_from_host st p g r = (st', p', b)"
  shows "layer_ok names orig st' p'" and "same_shape p p'" and "free_rows p' = free_rows p"
    and "b \<longleftrightarrow> dget (row_gid p') r = Some g" and "\<not> b \<Longrightarrow> row_gid p' = row_gid p"
    and "b"
    and "covers p {r} \<Longrightarrow> covers p' {}"
proof -
  have parts: "shape_ok p" "slots_ok p" "tables_ok st p" "content_ok names orig p"
    using ok by (auto simp: layer_ok_def)
  note sl = slots_okD[OF parts(2)]
  obtain d where d: "dget (host p) g = Some d" "d \<noteq> []" "distinct (map fst d)" "fst ` set d = names"
    "\<And>n v. (n, v) \<in> set d \<Longrightarrow> v = orig n g"
    using parts(4) cold by (auto simp: content_ok_def host_ok_def)
  have mok: "module_ok (module_of p) names (phys p)" using parts(4) by (simp add: content_ok_def)
  obtain m' nb where cp: "copy_rows (module_of p) d r 0 = (m', Some nb)"
    using copy_rows_success[OF mok _ slot(2)] d(4) by blast
  let ?p' = "p\<lparr>module_of := m', gid_row := dset (gid_row p) g r,
               row_gid := dset (row_gid p) r g, row_tick := dset (row_tick p) r (tick p)\<rparr>"
  let ?st = "st\<lparr>stats := (stats st)\<lparr>h2d_bytes := h2d_bytes (stats st) + nb\<rparr>\<rparr>"
  have e: "st' = unmask_gid ?st (layer_id p) g r" "p' = ?p'" "b"
    using rf d(1,2) cp by (auto simp: row_from_host_def split: list.splits)
  show "same_shape p p'" "free_rows p' = free_rows p" "b \<longleftrightarrow> dget (row_gid p') r = Some g" "b"
    "\<not> b \<Longrightarrow> row_gid p' = row_gid p"
    using e by (auto simp: same_shape_def dict_simps)
  show "covers p {r} \<Longrightarrow> covers p' {}" unfolding covers_def e by (auto simp: dict_simps)
  have "tables_ok ?st p" using parts(3) by (subst tables_ok_cong) auto
  then have t: "tables_ok st' p'" unfolding e(1)
    by (rule tables_ok_unmask) (use parts(1) cold e in auto)
  have bij: "dget (gid_row ?p') h = Some s \<longleftrightarrow> dget (row_gid ?p') s = Some h" for h s
    using sl(1)[of h s] fresh(1,3) sl(1)[of g s] sl(1)[of h r] by (auto simp: dict_simps)
  have "slots_ok ?p'"
    by (rule slots_okI[OF bij])
      (use sl(2-4) cold slot fresh(2) distinct_update[OF sl(6)] in \<open>auto simp: dict_simps split: if_splits dest: sl(5)[OF dkeysI]\<close>)
  moreover have "content_ok names orig ?p'"
    unfolding content_ok_def
  proof (intro conjI allI impI)
    show "module_ok (module_of ?p') names (phys ?p')"
      using copy_rows_module_ok[OF cp mok] by simp
    show "host_ok names orig ?p'" using parts(4) by (simp add: content_ok_def host_ok_def)
    show "row_holds (module_of ?p') names orig i (keep ?p' ! i)" if "i < keep_len ?p'" for i
      using copy_rows_row_holds[OF cp] parts(4) that slot(1) by (auto simp: content_ok_def)
    fix h s assume hs: "dget (gid_row ?p') h = Some s"
    show "row_holds (module_of ?p') names orig s h"
    proof (cases "h = g")
      case True
      have "\<exists>ts. rows_at m' n = Some ts \<and> r < length ts \<and> ts ! r = orig n g" if n: "n \<in> names" for n
      proof -
        obtain v where nv: "(n, v) \<in> set d" using n d(4) by force
        show ?thesis using copy_rows_written[OF cp mok _ d(3) nv] d(4,5) nv by auto
      qed
      then show ?thesis using True hs by (auto simp: row_holds_def dict_simps)
    next
      case False
      then have hs': "dget (gid_row p) h = Some s" using hs by (auto simp: dict_simps)
      then have "s \<noteq> r" using sl(1) fresh(3) by force
      then show ?thesis using copy_rows_row_holds[OF cp] parts(4) hs' by (auto simp: content_ok_def)
    qed
  qed
  moreover have "shape_ok ?p'" using parts(1) by (simp add: shape_ok_def)
  ultimately show "layer_ok names orig st' p'" using t by (simp add: layer_ok_def e(2))
qed

end
