(* ===== verification/Cold_Demand.thy ===== *)
theory Cold_Demand
  imports Cold_Inv
begin

text \<open>
  Demand and staging of the expert cold pool (\<^verbatim>\<open>patches/expert_cold_pool.py\<close>): the stash that
  \<^verbatim>\<open>select_experts\<close> fills, and the hook at the tail of the forward pass that turns it into
  staged experts, with the optional demotion phase. The sigmoid and the descending argsort (whose
  order of equal values is not specified) are arguments.
\<close>

section \<open>Stash\<close>

record hook_ops =
  op_sigmoid :: "rat \<Rightarrow> rat"
  op_argsort_desc :: "rat list \<Rightarrow> nat list"

definition STASH_ROWS :: nat where
  "STASH_ROWS = 819"

text \<open>\<open>xs[::s]\<close>\<close>

definition stride_rows :: "nat \<Rightarrow> 'a list \<Rightarrow> 'a list" where
  "stride_rows s xs = map (\<lambda>i. xs ! i) (filter (\<lambda>i. i mod s = 0) [0..<length xs])"

definition demand_ids :: "nat \<Rightarrow> int list \<Rightarrow> int list" where
  "demand_ids width row = map (\<lambda>i. if i < 0 \<or> int width \<le> i then -1 else i) row"

definition demand_scores :: "(rat \<Rightarrow> rat) \<Rightarrow> nat \<Rightarrow> int list \<Rightarrow> rat list \<Rightarrow> rat list" where
  "demand_scores sg width row lg =
     map (\<lambda>i. if i < 0 \<or> int width \<le> i then -1 else sg (lg ! nat i)) row"

text \<open>
  \<^verbatim>\<open>stash_demand\<close>. A batch without rows cannot be reshaped, and a buffer that was created for
  a smaller \<open>k\<close> cannot take more entries than it has.
\<close>

definition new_buf :: "nat \<Rightarrow> stash_buf" where
  "new_buf cap = \<lparr>sb_ids = replicate cap (-1), sb_scores = replicate cap (-1),
                 sb_logits = None, sb_logits_n = 0\<rparr>"

definition stash_demand ::
  "bool \<Rightarrow> hook_ops \<Rightarrow> ('a) cp_state_scheme \<Rightarrow> nat option \<Rightarrow> rat list list \<Rightarrow> int list list \<Rightarrow> nat \<Rightarrow>
   (('a) cp_state_scheme) result" where
  "stash_demand capturing ops st lid pre_mask ids k =
     (case lid of None \<Rightarrow> Inr st
      | Some lay \<Rightarrow>
        if \<not> dynamic st \<or> capturing then Inr st
        else if ids = [] \<or> length pre_mask \<noteq> length ids then Inl RuntimeError
        else
          let width = length (pre_mask ! 0);
              idx0 = map (demand_ids width) ids;
              sc0 = map2 (demand_scores (op_sigmoid ops) width) ids pre_mask;
              rows = length ids;
              s = (rows + STASH_ROWS - 1) div STASH_ROWS;
              idx = (if STASH_ROWS < rows then stride_rows s idx0 else idx0);
              sc = (if STASH_ROWS < rows then stride_rows s sc0 else sc0);
              lg0 = (if STASH_ROWS < rows then stride_rows s pre_mask else pre_mask);
              lg = map snd (filter (\<lambda>(row, l). \<exists>i\<in>set row. 0 \<le> i) (zip idx lg0));
              iff = concat idx;
              sflat = concat sc;
              cap = STASH_ROWS * k;
              buf = (case dget (stash st) lay of None \<Rightarrow> new_buf cap | Some b \<Rightarrow> b);
              m = min (length iff) cap;
              n = length (sb_ids buf)
          in if n < m then Inl RuntimeError
             else Inr (mark_dirty (st\<lparr>stash := dset (stash st) lay
                    \<lparr>sb_ids = take m iff @ replicate (n - m) (-1),
                     sb_scores = take m sflat @ replicate (n - m) (-1),
                     sb_logits = Some lg, sb_logits_n = length lg\<rparr>\<rparr>)))"

section \<open>Demand of one layer\<close>

text \<open>\<open>s >= alpha * hot_min\<close>, where a missing minimum is plus infinity (\<open>0 * inf\<close> is not a number).\<close>

definition band_ge :: "rat \<Rightarrow> rat \<Rightarrow> rat option \<Rightarrow> bool" where
  "band_ge alpha s hm = (case hm of None \<Rightarrow> alpha < 0 | Some h \<Rightarrow> alpha * h \<le> s)"

definition hot_min :: "bool list \<Rightarrow> nat list \<Rightarrow> rat list \<Rightarrow> rat option" where
  "hot_min cm gs scs =
     (let hot = [s. (g, s) \<leftarrow> zip gs scs, \<not> cm ! g]
      in if hot = [] then None else Some (Min (set hot)))"

definition strong_ids :: "bool list \<Rightarrow> rat \<Rightarrow> nat list \<times> rat list \<Rightarrow> nat list" where
  "strong_ids cm alpha row =
     (case row of (gs, scs) \<Rightarrow>
        [g. (g, s) \<leftarrow> zip gs scs, cm ! g \<and> band_ge alpha s (hot_min cm gs scs)])"

text \<open>
  The probe on the raw logits of one row: the cold expert, not staged, with the highest score in
  the alpha band, if any score of the band is positive.
\<close>

definition coldband :: "bool list \<Rightarrow> (nat, nat) dict \<Rightarrow> rat \<Rightarrow> rat list \<Rightarrow> rat option \<Rightarrow> bool list" where
  "coldband cm gr alpha scf hm =
     map (\<lambda>(g, s). band_ge alpha s hm \<and> cm ! g \<and> g \<notin> dkeys gr) (enumerate 0 scf)"

definition probe_row :: "bool list \<Rightarrow> rat list \<Rightarrow> nat list" where
  "probe_row cb scf =
     (let (v, g) = max_first (map2 (\<lambda>b s. if b then s else 0) cb scf) in if 0 < v then [g] else [])"

definition add_at :: "rat list \<Rightarrow> nat list \<Rightarrow> rat list" where
  "add_at nc gs = fold (\<lambda>g xs. xs[g := xs ! g + 1]) gs nc"

definition counts_or_zero :: "layer_pool \<Rightarrow> rat list" where
  "counts_or_zero p = (case need_counts p of None \<Rightarrow> replicate (num_E p) 0 | Some nc \<Rightarrow> nc)"

definition probe_demand ::
  "hook_ops \<Rightarrow> rat \<Rightarrow> layer_pool \<Rightarrow> stash_buf \<Rightarrow> rat option list \<Rightarrow> nat list result" where
  "probe_demand ops alpha p buf hms =
     (case sb_logits buf of None \<Rightarrow> Inr []
      | Some lg \<Rightarrow>
         (let n = min (sb_logits_n buf) (length hms);
              scf = map (map (op_sigmoid ops)) (take n lg)
          in if n = 0 then Inr []
             else if \<exists>row\<in>set scf. length row \<noteq> length (cold_mask p) then Inl RuntimeError
             else
               let cbs = map2 (coldband (cold_mask p) (gid_row p) alpha) scf hms
               in if \<not> (\<exists>cb\<in>set cbs. True \<in> set cb) then Inr []
                  else Inr (concat (map2 probe_row cbs scf))))"

section \<open>Staging the candidates\<close>

definition bump :: "(cp_stats \<Rightarrow> cp_stats) \<Rightarrow> ('a) cp_state_scheme \<Rightarrow> ('a) cp_state_scheme" where
  "bump f st = st\<lparr>stats := f (stats st)\<rparr>"

fun stage_gids :: "pool_state \<Rightarrow> layer_pool \<Rightarrow> nat list \<Rightarrow> pool_state \<times> layer_pool" where
  "stage_gids st p [] = (st, p)"
| "stage_gids st p (g # gs) =
     (let p1 = p\<lparr>need_counts := map_option (\<lambda>nc. nc[g := 0]) (need_counts p)\<rparr>
      in if g \<in> dkeys (gid_row p1) then stage_gids st p1 gs
         else case pick_row st p1 of
             (st2, p2, None) \<Rightarrow> (st2, p2)
           | (st2, p2, Some row) \<Rightarrow>
               (case row_from_host st2 p2 g row of
                  (st3, p3, True) \<Rightarrow>
                    stage_gids (bump (\<lambda>s. s\<lparr>staged := Suc (staged s)\<rparr>) st3) p3 gs
                | (st3, p3, False) \<Rightarrow> stage_gids st3 (return_row p3 (Some row)) gs))"

definition candidates :: "hook_ops \<Rightarrow> rat \<Rightarrow> int \<Rightarrow> layer_pool \<Rightarrow> rat list \<Rightarrow> nat list" where
  "candidates ops need cap p nc =
     (let cands = filter (\<lambda>g. need \<le> nc ! g) (cold_ids p);
          order = op_argsort_desc ops (map (\<lambda>g. nc ! g) cands)
      in if cands = [] then [] else map (\<lambda>i. cands ! i) (py_prefix order cap))"

section \<open>Demotion and promotion (L4)\<close>

definition device_rows :: "moe_module \<Rightarrow> nat \<Rightarrow> (string, byte list) dict" where
  "device_rows m row = concat (map (\<lambda>name.
     case getattr m name of
       Some (oid, Rows ts) \<Rightarrow> if row < length ts then [(name, ts ! row)] else []
     | _ \<Rightarrow> []) ALL_PARAMS)"

definition demote_one :: "pool_state \<times> layer_pool \<Rightarrow> nat \<Rightarrow> pool_state \<times> layer_pool" where
  "demote_one sp g =
     (case sp of (st, p) \<Rightarrow>
        (let row = (case dget (remap_cache st) (layer_id p) of Some t \<Rightarrow> t ! g | None \<Rightarrow> 0)
         in if keep_len p \<le> row then (st, p)
            else
              let rows = device_rows (module_of p) row
              in (bump (\<lambda>s. s\<lparr>demoted := Suc (demoted s)\<rparr>) (mask_gid st (layer_id p) g),
                  p\<lparr>host := dset (host p) g rows, row_gid := dpop (row_gid p) row,
                    row_tick := dset (row_tick p) row demote_tick\<rparr>)))"

definition promote_one :: "pool_state \<times> layer_pool \<Rightarrow> nat \<times> nat \<Rightarrow> pool_state \<times> layer_pool" where
  "promote_one sp gr =
     (case sp of (st, p) \<Rightarrow>
        (if snd gr \<in> protected p then (st, p)
         else case need_counts p of None \<Rightarrow> (st, p)
         | Some nc \<Rightarrow>
             (if 2 \<le> nc ! fst gr
              then (bump (\<lambda>s. s\<lparr>promoted := Suc (promoted s)\<rparr>) st,
                    p\<lparr>protected := insert (snd gr) (protected p)\<rparr>)
              else (st, p))))"

definition starved :: "environment \<Rightarrow> layer_pool \<Rightarrow> int list \<Rightarrow> nat list" where
  "starved env p seen = filter (\<lambda>g. degrade_window env < tick p - seen ! g) (keep_ids p)"

definition phase_b :: "environment \<Rightarrow> pool_state \<Rightarrow> layer_pool \<Rightarrow> nat list list \<Rightarrow> pool_state \<times> layer_pool"
where
  "phase_b env st p flat =
     (let seen0 = (case seen_tick p of None \<Rightarrow> replicate (num_E p) demote_tick | Some s \<Rightarrow> s);
          seen = fill_at seen0 (concat flat) (tick p);
          p1 = p\<lparr>seen_tick := Some seen\<rparr>;
          (st2, p2) = foldl demote_one (st, p1) (take 2 (starved env p1 seen))
      in foldl promote_one (st2, p2) (gid_row p2))"

section \<open>The hook\<close>

definition hook_layer ::
  "environment \<Rightarrow> hook_ops \<Rightarrow> int \<Rightarrow> pool_state \<Rightarrow> nat \<Rightarrow> layer_pool \<Rightarrow> (pool_state \<times> layer_pool) result"
where
  "hook_layer env ops k st lid p =
     (case dget (stash st) lid of None \<Rightarrow> Inr (st, p)
      | Some buf \<Rightarrow>
        (let flat0 = map nat (filter (\<lambda>i. 0 \<le> i) (sb_ids buf));
             p1 = p\<lparr>tick := tick p + 1\<rparr>
         in if int (length flat0) < k then Inr (st, p1)
            else if k \<le> 0 then Inl RuntimeError
            else
              let kn = nat k; rows = length flat0 div kn;
                  flat = chunks kn rows (take (rows * kn) flat0);
                  sc = chunks kn rows (take (rows * kn) (sb_scores buf));
                  alpha = strong_alpha env;
                  st1 = st\<lparr>stash := dset (stash st) lid (buf\<lparr>
                      sb_ids := replicate (length (sb_ids buf)) (-1),
                      sb_scores := replicate (length (sb_scores buf)) (-1)\<rparr>)\<rparr>
              in if \<exists>row\<in>set flat. \<exists>g\<in>set row. length (cold_mask p1) \<le> g then Inl IndexError
                 else
                   let hms = map2 (hot_min (cold_mask p1)) flat sc;
                       sel = concat (map (strong_ids (cold_mask p1) alpha) (zip flat sc))
                   in res_bind (probe_demand ops alpha p1 buf hms) (\<lambda>probed.
                      let nc1 = add_at (counts_or_zero p1) probed;
                          nc2 = add_at (map (\<lambda>x. x * ema_decay env) nc1) sel;
                          st2 = bump (\<lambda>s. s\<lparr>strong := strong s + length probed + length sel\<rparr>) st1;
                          p2 = p1\<lparr>need_counts := Some nc2\<rparr>;
                          cs = candidates ops (of_int (need_hits env)) (max_stage_per_tick env) p2 nc2;
                          (st3, p3) = stage_gids st2 p2 cs
                      in Inr (if degrade_enabled env st3 then phase_b env st3 p3 flat
                              else (st3, p3)))))"

fun hook_layers ::
  "environment \<Rightarrow> hook_ops \<Rightarrow> int \<Rightarrow> pool_state \<Rightarrow> nat list \<Rightarrow> pool_state result" where
  "hook_layers env ops k st [] = Inr st"
| "hook_layers env ops k st (lid # lids) =
     (case dget (layers st) lid of None \<Rightarrow> hook_layers env ops k st lids
      | Some p \<Rightarrow>
          res_bind (hook_layer env ops k st lid p) (\<lambda>(st', p').
            hook_layers env ops k (st'\<lparr>layers := dset (layers st') lid p'\<rparr>) lids))"

definition hook_topk :: "environment \<Rightarrow> int" where
  "hook_topk env = (let k = env_int env ''SGLANG_COLD_TOPK'' 10 in if k = 0 then 10 else k)"

definition after_forward_hook ::
  "environment \<Rightarrow> hook_ops \<Rightarrow> bool \<Rightarrow> pool_state \<Rightarrow> pool_state result" where
  "after_forward_hook env ops capturing st =
     (if \<not> dynamic st \<or> capturing then Inr st
      else
        let st1 = bump (\<lambda>s. s\<lparr>calls := Suc (calls s)\<rparr>) st
        in if calls (stats st1) mod 8 \<noteq> 0 then Inr st1
           else
             let (d, st2) = consume_dirty st1
             in if \<not> d then Inr st2
                else res_bind (hook_layers env ops (hook_topk env) st2 (map fst (layers st2))) (\<lambda>st3.
                  if debug_on env \<and> calls (stats st3) mod 256 = 0
                  then res_bind (checksum_selfcheck st3) (\<lambda>_. Inr st3)
                  else Inr st3))"

section \<open>The stash holds demand only\<close>

lemma demand_ids_range: "i \<in> set (demand_ids width row) \<Longrightarrow> -1 \<le> i \<and> i < int width \<or> i = -1"
  by (auto simp: demand_ids_def)

lemma set_stride_rows: "set (stride_rows s xs) \<subseteq> set xs"
  by (auto simp: stride_rows_def)

lemma length_stride_rows_bound:
  assumes "0 < s"
  shows "length (stride_rows s xs) = (length xs + s - 1) div s"
proof -
  have "length (filter (\<lambda>i. i mod s = 0) [0..<n]) = (n + s - 1) div s" for n
  proof (induction n)
    case 0
    then show ?case using assms by simp
  next
    case (Suc n)
    show ?case
    proof (cases "n mod s = 0")
      case True
      then obtain q where "n = q * s" by (metis mod_0_imp_dvd dvd_def mult.commute)
      moreover have "(q * s + s - 1) div s = q" using assms
        by (metis Suc_diff_1 add_diff_eq diff_Suc_less div_mult_self3 less_eq_Suc_le
            div_less add_0_right not_less_zero One_nat_def Nat.add_diff_assoc)
      ultimately show ?thesis using Suc True assms by simp
    next
      case False
      then have "(Suc n + s - 1) div s = (n + s - 1) div s"
        using assms div_Suc[of "n + s - 1" s] by (auto simp: mod_simps)
      then show ?thesis using Suc False by simp
    qed
  qed
  then show ?thesis by (simp add: stride_rows_def)
qed

end
