(* ===== verification/Cold_Shrink.thy ===== *)
theory Cold_Shrink
  imports Cold_Inv
begin

text \<open>
  What the physical shrink establishes: the flat pinned buffer gives every cold expert its own
  rows back, the kept rows are in place on the device, and the tables agree with both, that is,
  the layer invariant of \<open>Cold_Inv\<close> holds of the new pool.
\<close>

section \<open>The tensors that move\<close>

lemma collect_params_Cons:
  "collect_params m E (a # names) seen =
     (if \<exists>oid rs. getattr m a = Some (oid, Rows rs) \<and> length rs = E \<and> oid \<notin> set seen
      then (a, fst (the (getattr m a)), the (rows_at m a))
             # collect_params m E names (fst (the (getattr m a)) # seen)
      else collect_params m E names seen)"
proof (cases "getattr m a")
  case None
  then show ?thesis by simp
next
  case (Some ot)
  obtain oid t where "ot = (oid, t)" by (cases ot)
  then show ?thesis using Some by (cases t) (auto simp: rows_at_def)
qed

lemma collect_params_spec:
  "(n, oid, rs) \<in> set (collect_params m E names seen) \<Longrightarrow>
     n \<in> set names \<and> getattr m n = Some (oid, Rows rs) \<and> length rs = E \<and> oid \<notin> set seen"
proof (induction names arbitrary: seen)
  case Nil
  then show ?case by simp
next
  case (Cons a names)
  show ?case
  proof (cases "\<exists>oid rs. getattr m a = Some (oid, Rows rs) \<and> length rs = E \<and> oid \<notin> set seen")
    case True
    then obtain oid' rs' where g: "getattr m a = Some (oid', Rows rs')" "length rs' = E"
      "oid' \<notin> set seen" by blast
    then have "(n, oid, rs) = (a, oid', rs') \<or>
        (n, oid, rs) \<in> set (collect_params m E names (oid' # seen))"
      using Cons.prems by simp
    then show ?thesis using Cons.IH[of "oid' # seen"] g by auto
  next
    case False
    then have "collect_params m E (a # names) seen = collect_params m E names seen"
      by (simp only: collect_params_Cons False if_False)
    then show ?thesis using Cons.IH[of seen] Cons.prems by simp
  qed
qed

lemma collect_params_distinct:
  "distinct names \<Longrightarrow> distinct (map fst (collect_params m E names seen)) \<and>
     distinct (map (fst \<circ> snd) (collect_params m E names seen))"
proof (induction names arbitrary: seen)
  case Nil
  then show ?case by simp
next
  case (Cons a names)
  show ?case
  proof (cases "\<exists>oid rs. getattr m a = Some (oid, Rows rs) \<and> length rs = E \<and> oid \<notin> set seen")
    case False
    then have "collect_params m E (a # names) seen = collect_params m E names seen"
      by (simp only: collect_params_Cons False if_False)
    then show ?thesis using Cons by simp
  next
    case True
    then obtain oid rs where g: "getattr m a = Some (oid, Rows rs)" "length rs = E" "oid \<notin> set seen"
      by blast
    then have e: "collect_params m E (a # names) seen =
        (a, oid, rs) # collect_params m E names (oid # seen)" by simp
    have "a \<notin> fst ` set (collect_params m E names (oid # seen))"
      using Cons.prems collect_params_spec by fastforce
    moreover have "oid \<notin> (fst \<circ> snd) ` set (collect_params m E names (oid # seen))"
      using collect_params_spec[of _ _ _ m E names "oid # seen"] by fastforce
    ultimately show ?thesis using Cons.IH[of "oid # seen"] Cons.prems e by simp
  qed
qed

lemma distinct_ALL_PARAMS: "distinct ALL_PARAMS"
  by (simp add: ALL_PARAMS_def ROW_PARAMS_def DERIVED_PARAMS_def)

section \<open>The flat pinned buffer\<close>

lemma concat_row:
  "\<forall>r\<in>set xss. length r = rl \<Longrightarrow> i < length xss \<Longrightarrow> take rl (drop (i * rl) (concat xss)) = xss ! i"
proof (induction xss arbitrary: i)
  case Nil
  then show ?case by simp
next
  case (Cons x xss)
  show ?case
  proof (cases i)
    case 0
    then show ?thesis using Cons.prems by simp
  next
    case (Suc j)
    then have "drop (i * rl) (concat (x # xss)) = drop (j * rl) (concat xss)"
      using Cons.prems(1) by simp
    then show ?thesis using Cons Suc by simp
  qed
qed

lemma cold_slices_spec:
  "(n, off, nb, rl) \<in> set (cold_slices ents cd (length pre)) \<Longrightarrow>
     \<exists>oid rs. (n, oid, rs) \<in> set ents \<and> rl = length (rs ! 0) \<and>
       take nb (drop off (pre @ flat_buffer ents cd)) = concat (index_select rs cd)"
proof (induction ents arbitrary: pre)
  case Nil
  then show ?case by simp
next
  case (Cons ent ents)
  obtain name oid rs where ent: "ent = (name, oid, rs)" by (cases ent)
  let ?c = "concat (index_select rs cd)"
  have fb: "flat_buffer (ent # ents) cd = ?c @ flat_buffer ents cd"
    by (simp add: flat_buffer_def ent)
  show ?case
  proof (cases "(n, off, nb, rl) = (name, length pre, length ?c, length (rs ! 0))")
    case True
    then show ?thesis using fb ent by auto
  next
    case False
    then have "(n, off, nb, rl) \<in> set (cold_slices ents cd (length (pre @ ?c)))"
      using Cons.prems by (auto simp: ent Let_def)
    from Cons.IH[OF this] show ?thesis using fb by (metis append_assoc list.set_intros(2))
  qed
qed

lemma cold_slices_names: "map fst (cold_slices ents cd off) = map fst ents"
  by (induction ents arbitrary: off) (auto simp: Let_def)

definition lookup2 :: "(nat, (string, byte list) dict) dict \<Rightarrow> nat \<Rightarrow> string \<Rightarrow> byte list option" where
  "lookup2 h g n = (case dget h g of None \<Rightarrow> None | Some d \<Rightarrow> dget d n)"

lemma lookup2_host_put:
  "lookup2 (host_put h g n v) g' n' = (if g' = g \<and> n' = n then Some v else lookup2 h g' n')"
  by (auto simp: lookup2_def host_put_def dict_simps split: option.splits)

definition host_wf :: "(nat, (string, byte list) dict) dict \<Rightarrow> bool" where
  "host_wf h \<longleftrightarrow> (\<forall>g d. dget h g = Some d \<longrightarrow> distinct (map fst d))"

lemma host_put_wf: "host_wf h \<Longrightarrow> host_wf (host_put h g n v)"
  by (auto simp: host_wf_def host_put_def dict_simps intro: distinct_update split: option.splits if_splits)

lemma fold_host_put:
  assumes "host_wf h"
  shows "host_wf (fold (\<lambda>(g, n, v) h. host_put h g n v) ts h)"
    and "lookup2 (fold (\<lambda>(g, n, v) h. host_put h g n v) ts h) g n =
          (case map_of (rev (map (\<lambda>(g, n, v). ((g, n), v)) ts)) (g, n) of
             Some v \<Rightarrow> Some v | None \<Rightarrow> lookup2 h g n)"
  using assms
proof (induction ts arbitrary: h)
  case Nil
  { case 1 then show ?case by simp next case 2 then show ?case by simp }
next
  case (Cons t ts)
  obtain g' n' v' where t: "t = (g', n', v')" by (cases t)
  {
    case 1
    then show ?case using Cons.IH(1)[OF host_put_wf] by (simp add: t)
  next
    case 2
    show ?case using Cons.IH(2)[OF host_put_wf[OF 2]]
      by (auto simp: t lookup2_host_put map_add_def split: option.splits)
  }
qed

lemma fill_host_wf: "host_wf (fill_host pbuf slices cd)"
  unfolding fill_host_def by (rule fold_host_put) (simp add: host_wf_def)

lemma fill_host_lookup:
  assumes vals: "\<And>name off nb rl i. (name, off, nb, rl) \<in> set slices \<Longrightarrow> i < length cd \<Longrightarrow>
      row_view pbuf off nb rl i = orig name (cd ! i)"
  shows "lookup2 (fill_host pbuf slices cd) g n =
     (if g \<in> set cd \<and> n \<in> fst ` set slices then Some (orig n g) else None)"
proof -
  let ?ts = "[(gid, name, row_view pbuf off nb rl i). (name, off, nb, rl) \<leftarrow> slices, (i, gid) \<leftarrow> enumerate 0 cd]"
  let ?al = "rev (map (\<lambda>(g, n, v). ((g, n), v)) ?ts)"
  have val: "v = orig n' g' \<and> g' \<in> set cd \<and> n' \<in> fst ` set slices" if "((g', n'), v) \<in> set ?al" for g' n' v
  proof -
    from that obtain off nb rl i where s: "(n', off, nb, rl) \<in> set slices" "(i, g') \<in> set (enumerate 0 cd)"
      "v = row_view pbuf off nb rl i" by auto
    then have "i < length cd" "cd ! i = g'" by (auto simp: in_set_enumerate_eq)
    then show ?thesis using vals[OF s(1)] s by force
  qed
  have ex: "(g, n) \<in> fst ` set ?al" if gn: "g \<in> set cd" "n \<in> fst ` set slices"
  proof -
    obtain i where i: "i < length cd" "cd ! i = g" using gn(1) by (auto simp: in_set_conv_nth)
    then have "(i, g) \<in> set (enumerate 0 cd)" by (simp add: in_set_enumerate_eq)
    moreover obtain off nb rl where "(n, off, nb, rl) \<in> set slices" using gn(2) by auto
    ultimately show ?thesis by force
  qed
  have "lookup2 (fill_host pbuf slices cd) g n = map_of ?al (g, n)"
    unfolding fill_host_def
    by (subst fold_host_put(2)) (auto simp: host_wf_def lookup2_def split: option.splits)
  also have "\<dots> = (if g \<in> set cd \<and> n \<in> fst ` set slices then Some (orig n g) else None)"
  proof (cases "map_of ?al (g, n)")
    case None
    then have "(g, n) \<notin> fst ` set ?al" by (simp only: map_of_eq_None_iff not_False_eq_True)
    then show ?thesis using ex None by (simp only:) auto
  next
    case (Some v)
    then show ?thesis using val[OF map_of_SomeD[OF Some]] by auto
  qed
  finally show ?thesis .
qed

section \<open>The swapped module\<close>

lemma swap_params_rows:
  assumes "\<forall>(n, oid, rs)\<in>set ents. getattr_obj m n = Some oid" and "distinct (map (fst \<circ> snd) ents)"
    and "(n, oid, rs) \<in> set ents"
  shows "rows_at (foldl (swap_param junk kp ph) m ents) n =
     Some (index_select rs kp @ map junk [length kp ..< ph])"
  using assms
proof (induction ents arbitrary: m rule: rev_induct)
  case Nil
  then show ?case by simp
next
  case (snoc ent ents)
  obtain n' oid' rs' where ent: "ent = (n', oid', rs')" by (cases ent)
  have sp: "swap_param junk kp ph m' ent =
      set_data m' oid' (Rows (index_select rs' kp @ map junk [length kp ..< ph]))" for m'
    by (simp add: swap_param_def ent)
  have obj: "getattr_obj (foldl (swap_param junk kp ph) m' es) x = getattr_obj m' x" for m' es x
    by (induction es arbitrary: m') (auto simp: swap_param_def)
  show ?case
  proof (cases "(n, oid, rs) = ent")
    case True
    then show ?thesis using snoc.prems(1) ent
      by (auto simp: sp[unfolded ent] rows_at_set_data obj)
  next
    case False
    then have "(n, oid, rs) \<in> set ents" using snoc.prems(3) by auto
    moreover from this have "oid \<noteq> oid'" using snoc.prems(2) ent by force
    moreover from \<open>(n, oid, rs) \<in> set ents\<close> have "getattr_obj m n = Some oid"
      using snoc.prems(1) by fastforce
    ultimately show ?thesis using snoc.prems(1,2) snoc.IH[of m] 
      by (simp add: sp rows_at_set_data obj)
  qed
qed

lemma swap_params_obj:
  "getattr_obj (foldl (swap_param junk kp ph) m ents) n = getattr_obj m n"
  by (induction ents arbitrary: m) (auto simp: swap_param_def)

section \<open>The shrunk layer satisfies the invariant\<close>

definition rect :: "moe_module \<Rightarrow> bool" where
  "rect m \<longleftrightarrow> (\<forall>n oid rs. getattr m n = Some (oid, Rows rs) \<longrightarrow> (\<forall>r\<in>set rs. length r = length (rs ! 0)))"

definition orig_rows :: "moe_module \<Rightarrow> string \<Rightarrow> nat \<Rightarrow> byte list" where
  "orig_rows m n g = (case rows_at m n of Some rs \<Rightarrow> rs ! g | None \<Rightarrow> [])"

definition moved_names :: "moe_module \<Rightarrow> nat \<Rightarrow> string set" where
  "moved_names m E = fst ` set (collect_params m E ALL_PARAMS [])"

lemma shrink_host_ok:
  assumes rc: "rect m" and cdE: "\<forall>g\<in>set cd. g < E" and ne: "moved_names m E \<noteq> {}"
    and p: "p = shrink_layer junk lid m E kp cd sl"
  shows "host_ok (moved_names m E) (orig_rows m) p"
proof -
  let ?ents = "collect_params m E ALL_PARAMS []"
  let ?pbuf = "flat_buffer ?ents cd"
  let ?sl = "cold_slices ?ents cd 0"
  have vals: "row_view ?pbuf off nb rl i = orig_rows m name (cd ! i)"
    if s: "(name, off, nb, rl) \<in> set ?sl" and i: "i < length cd" for name off nb rl i
  proof -
    obtain oid rs where e: "(name, oid, rs) \<in> set ?ents" "rl = length (rs ! 0)"
      "take nb (drop off ?pbuf) = concat (index_select rs cd)"
      using cold_slices_spec[of name off nb rl ?ents cd "[]"] s by auto
    have c: "getattr m name = Some (oid, Rows rs)" "length rs = E"
      using collect_params_spec[OF e(1)] by auto
    have "\<forall>r\<in>set (index_select rs cd). length r = rl"
      using rc c cdE e(2) by (auto simp: rect_def index_select_def)
    then have "row_view ?pbuf off nb rl i = index_select rs cd ! i"
      unfolding row_view_def e(3) by (rule concat_row) (simp add: i)
    then show ?thesis using i c by (simp add: orig_rows_def rows_at_getattr)
  qed
  have h: "host p = fill_host ?pbuf ?sl cd" by (simp add: p shrink_layer_def Let_def)
  have names: "fst ` set ?sl = moved_names m E"
    unfolding moved_names_def by (metis cold_slices_names list.set_map)
  have c: "cold p = cd" by (simp add: p shrink_layer_def Let_def new_pool_def)
  have L: "lookup2 (fill_host ?pbuf ?sl cd) g n =
      (if g \<in> set cd \<and> n \<in> moved_names m E then Some (orig_rows m n g) else None)" for g n
    unfolding names[symmetric] by (rule fill_host_lookup) (rule vals)
  show ?thesis unfolding host_ok_def h c
  proof
    fix g assume g: "g \<in> set cd"
    obtain n0 where "n0 \<in> moved_names m E" using ne by blast
    then have "lookup2 (fill_host ?pbuf ?sl cd) g n0 = Some (orig_rows m n0 g)" using L g by simp
    then obtain d where d1: "dget (fill_host ?pbuf ?sl cd) g = Some d" "dget d n0 \<noteq> None"
      by (auto simp: lookup2_def split: option.splits)
    have d: "dget (fill_host ?pbuf ?sl cd) g = Some d" "d \<noteq> []" using d1 by auto
    have dist: "distinct (map fst d)" using fill_host_wf d(1) by (auto simp: host_wf_def)
    have look: "dget d n = (if n \<in> moved_names m E then Some (orig_rows m n g) else None)" for n
      using L[of g n] g d(1) by (simp add: lookup2_def)
    have "k \<in> dkeys d \<longleftrightarrow> k \<in> moved_names m E" for k
      unfolding dkeys_dget by (simp add: look)
    then have "fst ` set d = moved_names m E" by blast
    moreover have "v = orig_rows m n g" if "(n, v) \<in> set d" for n v
      using map_of_is_SomeI[OF dist that] look[of n] by (simp split: if_splits)
    ultimately show "\<exists>d. dget (fill_host ?pbuf ?sl cd) g = Some d \<and> d \<noteq> [] \<and>
        distinct (map fst d) \<and> fst ` set d = moved_names m E \<and>
        (\<forall>n v. (n, v) \<in> set d \<longrightarrow> v = orig_rows m n g)"
      using d dist by blast
  qed
qed

lemma rows_at_num_local: "rows_at (m\<lparr>m_num_local := x\<rparr>) n = rows_at m n"
proof -
  have "getattr (m\<lparr>m_num_local := x\<rparr>) n = getattr m n" 
    unfolding getattr_def getattr_obj_def by (simp split: option.split)
  then show ?thesis by (simp add: rows_at_def)
qed

lemma shrink_step_TrueE:
  assumes run: "shrink_step sl junk parents km st m = Inr (st', m', True)"
    and lid: "m_layer_id m = Some lid" and kp: "dget km lid = Some kp"
  obtains oid ref oid2 t2 where "m_is_fused m" "getattr m ''w13_weight'' = Some (oid, Rows ref)"
      "getattr m ''w13_weight_scale'' = Some (oid2, t2)"
proof -
  have f: "m_is_fused m"
    by (rule ccontr) (use run in \<open>simp add: shrink_step_def\<close>)
  have "\<exists>oid ref. getattr m ''w13_weight'' = Some (oid, Rows ref)"
  proof (cases "getattr m ''w13_weight''")
    case None
    then show ?thesis using run lid kp f by (simp add: shrink_step_def)
  next
    case (Some x)
    obtain oid t where x: "x = (oid, t)" by (cases x)
    show ?thesis using run lid kp f Some x by (cases t) (simp_all add: shrink_step_def)
  qed
  then obtain oid ref where g: "getattr m ''w13_weight'' = Some (oid, Rows ref)" by blast
  have "getattr m ''w13_weight_scale'' \<noteq> None"
    by (rule notI) (use run lid kp f g in \<open>simp add: shrink_step_def\<close>)
  then obtain oid2 t2 where "getattr m ''w13_weight_scale'' = Some (oid2, t2)" by auto
  with f g show thesis by (rule that)
qed

lemma shrink_layer_content:
  assumes rc: "rect m" and kpE: "\<forall>g\<in>set kp. g < E" and cdE: "\<forall>g\<in>set cd. g < E"
    and ne: "moved_names m E \<noteq> {}" and p: "p = shrink_layer junk lid m E kp cd sl"
  shows "content_ok (moved_names m E) (orig_rows m) p"
proof -
  let ?ents = "collect_params m E ALL_PARAMS []"
  let ?ph = "length kp + sl"
  let ?m1 = "foldl (swap_param junk kp ?ph) m ?ents"
  have mo: "module_of p = ?m1\<lparr>m_num_local := ?ph\<rparr>" and ph: "phys p = ?ph"
    and kl: "keep_len p = length kp" and kp: "keep p = kp" and gr: "gid_row p = []"
    by (simp_all add: p shrink_layer_def Let_def new_pool_def)
  have ra: "rows_at (module_of p) n = rows_at ?m1 n" for n
    by (simp add: mo rows_at_num_local)
  have ob: "getattr_obj (module_of p) n = getattr_obj m n" for n
    using swap_params_obj by (simp add: mo getattr_obj_def)
  have spec: "\<forall>(n, oid, rs)\<in>set ?ents. getattr_obj m n = Some oid"
    using collect_params_spec getattr_SomeD by fastforce
  have dist: "distinct (map fst ?ents)" "distinct (map (fst \<circ> snd) ?ents)"
    using collect_params_distinct[OF distinct_ALL_PARAMS] by auto
  have rows: "\<exists>rs. rows_at (module_of p) n = Some (index_select rs kp @ map junk [length kp ..< ?ph]) \<and>
      length rs = E \<and> rows_at m n = Some rs \<and> (\<exists>oid. (n, oid, rs) \<in> set ?ents)"
    if nm: "n \<in> moved_names m E" for n
  proof -
    obtain oid rs where e: "(n, oid, rs) \<in> set ?ents" using nm by (force simp: moved_names_def)
    then show ?thesis
      using swap_params_rows[OF spec dist(2) e] collect_params_spec[OF e] rows_at_getattr ra by auto
  qed
  have "module_ok (module_of p) (moved_names m E) (phys p)"
    unfolding module_ok_def
  proof (intro conjI ballI impI)
    fix n assume "n \<in> moved_names m E"
    from rows[OF this] show "\<exists>ts. rows_at (module_of p) n = Some ts \<and> length ts = phys p"
      using ph by auto
  next
    fix n n' assume "n \<in> moved_names m E" "n' \<in> moved_names m E"
      "getattr_obj (module_of p) n = getattr_obj (module_of p) n'"
    then obtain oid oid' rs rs' where e: "(n, oid, rs) \<in> set ?ents" "(n', oid', rs') \<in> set ?ents"
      and o: "getattr_obj m n = getattr_obj m n'" using rows ob by metis
    have "oid = oid'" using bspec[OF spec e(1)] bspec[OF spec e(2)] o by simp
    with inj_onD[of "fst \<circ> snd" "set ?ents" "(n, oid, rs)" "(n', oid', rs')"] dist(2) e
    show "n = n'" by (simp add: distinct_map)
  qed
  moreover have "row_holds (module_of p) (moved_names m E) (orig_rows m) i (keep p ! i)"
    if i: "i < keep_len p" for i
    unfolding row_holds_def
  proof
    fix n assume "n \<in> moved_names m E"
    from rows[OF this] obtain rs where "rows_at (module_of p) n =
        Some (index_select rs kp @ map junk [length kp ..< ?ph])" "rows_at m n = Some rs" by blast
    then show "\<exists>ts. rows_at (module_of p) n = Some ts \<and> i < length ts \<and> ts ! i = orig_rows m n (keep p ! i)"
      using i by (simp add: kl kp nth_append orig_rows_def)
  qed
  ultimately show ?thesis
    using shrink_host_ok[OF rc cdE ne p] by (simp add: content_ok_def gr)
qed

lemma build_tables_ok:
  assumes "build_tables st lid kp sl E = Inr (st', ph)"
    and "dget (bias_cache st) (lid, F64) = None"
    and "layer_id p = lid" "num_E p = E" "keep p = kp" "keep_len p = length kp" "gid_row p = []"
  shows "tables_ok st' p"
proof -
  obtain c1 c2 c3 where c: "bias_col kp E BF16 = Inr c1" "bias_col kp E F32 = Inr c2"
      "bias_col kp E F16 = Inr c3"
    and st': "st' = st\<lparr>bias_cache :=
                 dset (dset (dset (bias_cache st) (lid, BF16) c1) (lid, F32) c2) (lid, F16) c3,
               remap_cache := dset (remap_cache st) lid (remap_table kp E)\<rparr>"
    using assms(1) by (auto simp: build_tables_def res_bind_Inr_iff)
  have kE: "\<forall>g\<in>set kp. g < E" using bias_col_Inr[OF c(1)] by blast
  have un: "unmasked_in p g \<longleftrightarrow> g \<in> set kp" for g using assms(5,7) by (simp add: unmasked_in_def)
  have bias: "length c = E \<and> (\<forall>g<E. c ! g = (if g \<in> set kp then 0 else finfo_min dt))"
    if "dget (bias_cache st') (lid, dt) = Some c" for dt c
    using that assms(2) bias_col_Inr[OF c(1)] bias_col_Inr[OF c(2)] bias_col_Inr[OF c(3)]
    by (cases dt) (auto simp: st' dict_simps)
  show ?thesis
    unfolding tables_ok_def un assms(3-7)
    using bias kE remap_table_keep[of _ kp E] remap_table_cold[of _ kp E]
    by (auto simp: st' dict_simps)
qed

lemma moved_names_nonempty:
  assumes "getattr m ''w13_weight'' = Some (oid, Rows rs)"
  shows "''w13_weight'' \<in> moved_names m (length rs)"
proof -
  have all: "''w13_weight'' # tl ALL_PARAMS = ALL_PARAMS"
    by (simp add: ALL_PARAMS_def ROW_PARAMS_def)
  have "collect_params m (length rs) (''w13_weight'' # tl ALL_PARAMS) [] =
      (''w13_weight'', oid, rs) # collect_params m (length rs) (tl ALL_PARAMS) [oid]"
    using assms by simp
  then show ?thesis unfolding all by (simp add: moved_names_def)
qed

definition num_rows :: "moe_module \<Rightarrow> nat" where
  "num_rows m = (case rows_at m ''w13_weight'' of Some rs \<Rightarrow> length rs | None \<Rightarrow> 0)"

lemma shrink_step_layer_ok:
  assumes run: "shrink_step sl junk parents km st m = Inr (st', m', True)"
    and rc: "rect m" and lid: "m_layer_id m = Some lid" and kp: "dget km lid = Some kp" "kp \<noteq> []"
    and f64: "dget (bias_cache st) (lid, F64) = None"
  shows "\<exists>p. dget (layers st') lid = Some p \<and> module_of p = m' \<and> layer_id p = lid \<and> keep p = kp \<and>
     layer_ok (moved_names m (num_rows m)) (orig_rows m) st' p \<and> covers p {} \<and>
     num_E p = num_rows m \<and> moved_names m (num_rows m) \<noteq> {} \<and> int (phys p) = int (length kp) + sl \<and>
     (\<forall>dt. dt \<noteq> F64 \<longrightarrow> dget (bias_cache st') (lid, dt) \<noteq> None)"
proof -
  obtain oid ref oid2 t2 where g: "m_is_fused m" "getattr m ''w13_weight'' = Some (oid, Rows ref)"
      "getattr m ''w13_weight_scale'' = Some (oid2, t2)"
    using shrink_step_TrueE[OF run lid kp(1)] by blast
  define E where "E = length ref"
  have En: "num_rows m = E" using rows_at_getattr[OF g(2)] by (simp add: num_rows_def E_def)
  define cd where "cd = filter (\<lambda>g. g \<notin> set kp) [0..<E]"
  define p where "p = shrink_layer junk lid m E kp cd (nat sl)"
  have step: "shrink_step sl junk parents km st m =
      (if E \<le> 1 \<or> cd = [] then Inr (st, m, False)
       else if inventory_gate m E \<noteq> [] then Inl RuntimeError
       else if \<exists>g\<in>set kp. E \<le> g then Inl IndexError
       else if sl < 0 then Inl RuntimeError
       else res_bind (build_tables st lid kp (nat sl) E) (\<lambda>(st1, _).
            res_bind (register_managed st1 (m_own_topk m) lid (owner_topk parents (m_id m))) (\<lambda>st2.
              Inr (st2\<lparr>layers := dset (layers st2) lid p\<rparr>, module_of p, True))))"
    using g lid kp(1) by (simp add: shrink_step_def Let_def E_def cd_def p_def)
  have conds: "\<not> (E \<le> 1 \<or> cd = [])" "inventory_gate m E = []" "\<not> (\<exists>g\<in>set kp. E \<le> g)" "\<not> sl < 0"
    using run unfolding step by (auto simp del: not_less not_le split: if_splits)
  have run': "res_bind (build_tables st lid kp (nat sl) E) (\<lambda>(st1, _).
            res_bind (register_managed st1 (m_own_topk m) lid (owner_topk parents (m_id m))) (\<lambda>st2.
              Inr (st2\<lparr>layers := dset (layers st2) lid p\<rparr>, module_of p, True))) = Inr (st', m', True)"
    using run unfolding step by (simp only: conds not_True_eq_False not_False_eq_True if_False simp_thms)
  obtain st1 ph st2 where
      bt: "build_tables st lid kp (nat sl) E = Inr (st1, ph)"
    and rm: "register_managed st1 (m_own_topk m) lid (owner_topk parents (m_id m)) = Inr st2"
    and e: "st' = st2\<lparr>layers := dset (layers st2) lid p\<rparr>" "m' = module_of p"
    using run' by (auto simp: res_bind_Inr_iff)
  have kpE: "\<forall>g\<in>set kp. g < E" using conds(3) by (auto simp: not_le)
  have shape: "layer_id p = lid" "num_E p = E" "keep p = kp" "keep_len p = length kp"
      "gid_row p = []" "row_gid p = []" "row_tick p = []" "cold p = cd" "cold_ids p = cd"
      "keep_ids p = kp" "phys p = length kp + nat sl" "free_rows p = [length kp ..< length kp + nat sl]"
    by (simp_all add: p_def shrink_layer_def new_pool_def Let_def)
  have ne: "moved_names m E \<noteq> {}" using moved_names_nonempty[OF g(2)] E_def by blast
  have cdE: "\<forall>g\<in>set cd. g < E" by (simp add: cd_def)
  have "content_ok (moved_names m E) (orig_rows m) p"
    by (rule shrink_layer_content[OF rc kpE cdE ne p_def])
  moreover have "tables_ok st1 p" by (rule build_tables_ok[OF bt f64]) (simp_all add: shape)
  then have "tables_ok st' p"
    by (subst tables_ok_cong[where st = st1 and p = p])
      (use rm in \<open>auto simp: e register_managed_def Let_def split: option.splits if_splits\<close>)
  moreover have "shape_ok p" using kpE kp(2)
    by (auto simp: shape_ok_def shape cd_def)
  moreover have "slots_ok p" by (simp add: slots_ok_def shape)
  moreover have "covers p {}" by (auto simp: covers_def shape)
  moreover have "dget (bias_cache st1) (lid, dt) \<noteq> None" if "dt \<noteq> F64" for dt
    using bt that by (cases dt) (auto simp: build_tables_def res_bind_Inr_iff dict_simps)
  moreover have "bias_cache st' = bias_cache st1"
    using rm by (auto simp: e register_managed_def Let_def split: option.splits if_splits)
  ultimately show ?thesis using ne conds(4) shape unfolding En
    by (intro exI[of _ p]) (simp add: layer_ok_def e dict_simps)
qed

end
