(* ===== verification/Cold_Safety.thy ===== *)
theory Cold_Safety
  imports Cold_Demand Cold_Shrink
begin

text \<open>
  Safety of the cold pool at run time: the hook keeps the invariant of every layer while
  demotion is off, so that a routable expert always reads its own weights, no slot row is lost,
  and what one layer stages leaves the other layers' tables alone. With demotion on, the invariant
  breaks; the last section shows how.
\<close>

section \<open>Frames\<close>

definition static_eq :: "layer_pool \<Rightarrow> layer_pool \<Rightarrow> bool" where
  "static_eq p p' \<longleftrightarrow> layer_id p' = layer_id p \<and> num_E p' = num_E p \<and> keep p' = keep p \<and>
     keep_len p' = keep_len p \<and> cold p' = cold p \<and> cold_ids p' = cold_ids p \<and>
     keep_ids p' = keep_ids p \<and> phys p' = phys p \<and> cold_mask p' = cold_mask p"

lemma static_eq_refl [simp]: "static_eq p p"
  by (simp add: static_eq_def)

lemma static_eq_trans: "static_eq p q \<Longrightarrow> static_eq q r \<Longrightarrow> static_eq p r"
  by (simp add: static_eq_def)

lemma same_shape_static: "same_shape p q \<Longrightarrow> static_eq p q"
  by (simp add: same_shape_def static_eq_def)

definition st_frame :: "nat \<Rightarrow> pool_state \<Rightarrow> pool_state \<Rightarrow> bool" where
  "st_frame lid st st' \<longleftrightarrow> layers st' = layers st \<and> stash st' = stash st \<and>
     shrunk st' = shrunk st \<and> dynamic st' = dynamic st \<and> keep_map st' = keep_map st \<and>
     cfg_lids st' = cfg_lids st \<and>
     map fst (bias_cache st') = map fst (bias_cache st) \<and>
     (\<forall>l. l \<noteq> lid \<longrightarrow> dget (remap_cache st') l = dget (remap_cache st) l \<and>
        (\<forall>dt. dget (bias_cache st') (l, dt) = dget (bias_cache st) (l, dt)))"

lemma st_frame_refl [simp]: "st_frame lid st st"
  by (simp add: st_frame_def)

lemma st_frame_trans: "st_frame lid a b \<Longrightarrow> st_frame lid b c \<Longrightarrow> st_frame lid a c"
  by (simp add: st_frame_def)

lemma layers_mask [simp]: "layers (mask_gid st l g) = layers st" "layers (unmask_gid st l g r) = layers st"
  by (simp_all add: mask_gid_def unmask_gid_def)

lemma bias_keys [simp]:
  "map fst (bias_cache (mask_gid st l g)) = map fst (bias_cache st)"
  "map fst (bias_cache (unmask_gid st l g r)) = map fst (bias_cache st)"
  by (simp_all add: mask_gid_def unmask_gid_def comp_def split_def)

lemma evict_row_frame: "evict_row st p row = (st', p') \<Longrightarrow> st_frame (layer_id p) st st'"
  by (auto simp: evict_row_def st_frame_def Let_def mask_remap mask_bias option.map_ident
      split: option.splits)

lemma pick_row_frame: "pick_row st p = (st', p', ro) \<Longrightarrow> st_frame (layer_id p) st st'"
  by (auto simp: pick_row_def Let_def split: list.splits option.splits prod.splits
      dest: evict_row_frame)

lemma row_from_host_frame:
  "row_from_host st p g r = (st', p', b) \<Longrightarrow> st_frame (layer_id p) st st'"
  by (auto simp: row_from_host_def st_frame_def unmask_remap unmask_bias option.map_ident
      split: option.splits list.splits prod.splits)

lemma staged_evict: "evict_row st p row = (st', p') \<Longrightarrow> staged (stats st') = staged (stats st)"
  by (auto simp: evict_row_def Let_def split: option.splits)

lemma staged_pick: "pick_row st p = (st', p', ro) \<Longrightarrow> staged (stats st') = staged (stats st)"
  by (auto simp: pick_row_def Let_def split: list.splits option.splits prod.splits dest: staged_evict)

lemma staged_from_host:
  "row_from_host st p g r = (st', p', b) \<Longrightarrow> staged (stats st') = staged (stats st)"
  by (auto simp: row_from_host_def split: option.splits list.splits prod.splits)

lemma evict_row_gid_row:
  "evict_row st p row = (st', p') \<Longrightarrow> dget (gid_row p') g = Some r \<Longrightarrow> dget (gid_row p) g = Some r"
  by (auto simp: evict_row_def Let_def dict_simps split: option.splits if_splits)

lemma pick_row_gid_row:
  "pick_row st p = (st', p', ro) \<Longrightarrow> dget (gid_row p') g = Some r \<Longrightarrow> dget (gid_row p) g = Some r"
  by (auto simp: pick_row_def Let_def split: list.splits option.splits prod.splits
      dest: evict_row_gid_row)

lemma bump_frame: "st_frame lid st (bump f st)"
  by (simp add: st_frame_def bump_def)

lemma layer_ok_bump: "layer_ok names orig st p \<Longrightarrow> layer_ok names orig (bump f st) p"
  by (simp add: layer_ok_def tables_ok_def bump_def)

lemma layer_ok_tables:
  assumes "layer_ok names orig st p" and "layer_id p \<noteq> lid"
    and "st_frame lid st st'"
  shows "layer_ok names orig st' p"
  using assms by (simp add: layer_ok_def tables_ok_def st_frame_def)

lemma layer_ok_need [simp]:
  "layer_ok names orig st (p\<lparr>need_counts := x\<rparr>) = layer_ok names orig st p"
  "layer_ok names orig st (p\<lparr>tick := t\<rparr>) = layer_ok names orig st p"
  by (simp_all add: layer_ok_def shape_ok_def slots_ok_def tables_ok_def content_ok_def host_ok_def
      unmasked_in_def)

lemma covers_need [simp]: "covers (p\<lparr>need_counts := x\<rparr>) H = covers p H" "covers (p\<lparr>tick := t\<rparr>) H = covers p H"
  by (simp_all add: covers_def)

section \<open>Staging a list of candidates\<close>

lemma stage_gids_ok:
  "layer_ok names orig st p \<Longrightarrow> covers p {} \<Longrightarrow> set gs \<subseteq> set (cold p) \<Longrightarrow>
     stage_gids st p gs = (st', p') \<Longrightarrow>
     layer_ok names orig st' p' \<and> covers p' {} \<and> static_eq p p' \<and> st_frame (layer_id p) st st' \<and>
     staged (stats st') \<le> staged (stats st) + length gs"
proof (induction gs arbitrary: st p)
  case Nil
  then show ?case by simp
next
  case (Cons g gs)
  let ?p1 = "p\<lparr>need_counts := map_option (\<lambda>nc. nc[g := 0]) (need_counts p)\<rparr>"
  have ok1: "layer_ok names orig st ?p1" "covers ?p1 {}" "set gs \<subseteq> set (cold ?p1)" "g \<in> set (cold ?p1)"
    using Cons.prems by auto
  have s1: "static_eq p ?p1" by (simp add: static_eq_def)
  show ?case
  proof (cases "g \<in> dkeys (gid_row ?p1)")
    case True
    then have "stage_gids st ?p1 gs = (st', p')" using Cons.prems(4) by simp
    from Cons.IH[OF ok1(1-3) this] show ?thesis using s1 static_eq_trans by auto
  next
    case False
    obtain st2 p2 ro where pk: "pick_row st ?p1 = (st2, p2, ro)" by (cases "pick_row st ?p1") auto
    note P = pick_row_ok[OF ok1(1) pk]
    have fr2: "st_frame (layer_id p) st st2" using pick_row_frame[OF pk] by simp
    note st2s = staged_pick[OF pk]
    show ?thesis
    proof (cases ro)
      case None
      then have "st' = st2" "p' = p2" using Cons.prems(4) False pk by simp_all
      then show ?thesis using P(5) None Cons.prems ok1 s1 by auto
    next
      case (Some row)
      obtain st3 p3 b where rf: "row_from_host st2 p2 g row = (st3, p3, b)"
        by (cases "row_from_host st2 p2 g row") auto
      have gc: "g \<in> set (cold p2)" using P(2) ok1(4) by (simp add: same_shape_def)
      have g2: "dget (gid_row p2) g = None"
      proof (cases "dget (gid_row p2) g")
        case (Some r)
        from dget_Some_key[OF pick_row_gid_row[OF pk this]] False show ?thesis by contradiction
      qed
      have slot: "row \<notin> set (free_rows p2)" "dget (row_gid p2) row = None" "keep_len p2 \<le> row"
          "row < phys p2" using P(2,3) Some by (auto simp: same_shape_def)
      note R = row_from_host_ok[OF P(1) gc g2 slot rf]
      have cov: "covers p3 {}" using R(7) P(4)[OF Some] ok1(2) by blast
      have fr3: "st_frame (layer_id p) st2 st3"
        using row_from_host_frame[OF rf] P(2) by (simp add: same_shape_def)
      note st3s = staged_from_host[OF rf]
      let ?st4 = "bump (\<lambda>s. s\<lparr>staged := Suc (staged s)\<rparr>) st3"
      have run: "stage_gids ?st4 p3 gs = (st', p')"
        using Cons.prems(4) False pk Some rf R(6) by simp
      have c3: "set gs \<subseteq> set (cold p3)" using ok1(3) P(2) R(2) by (simp add: same_shape_def)
      note I = Cons.IH[OF layer_ok_bump[OF R(1)] cov c3 run]
      have lid: "layer_id p3 = layer_id p" using P(2) R(2) by (simp add: same_shape_def)
      have "static_eq p p3" using s1 same_shape_static[OF P(2)] same_shape_static[OF R(2)]
          static_eq_trans by blast
      moreover have "st_frame (layer_id p) st st'"
        using fr2 fr3 I bump_frame[of "layer_id p" st3] lid st_frame_trans by metis
      moreover have "staged (stats ?st4) = Suc (staged (stats st))"
        using st2s st3s by (simp add: bump_def)
      ultimately show ?thesis using I static_eq_trans by auto
    qed
  qed
qed

lemma candidates_cold:
  assumes "\<And>xs. set (op_argsort_desc ops xs) \<subseteq> {..<length xs}"
  shows "set (candidates ops need cap p nc) \<subseteq> set (cold_ids p)"
proof -
  let ?cs = "filter (\<lambda>g. need \<le> nc ! g) (cold_ids p)"
  let ?order = "op_argsort_desc ops (map (\<lambda>g. nc ! g) ?cs)"
  have "i < length ?cs" if "i \<in> set (py_prefix ?order cap)" for i
    using that set_py_prefix[of ?order cap] assms[of "map (\<lambda>g. nc ! g) ?cs"] by auto
  then have "?cs ! i \<in> set (cold_ids p)" if "i \<in> set (py_prefix ?order cap)" for i
    using that nth_mem[of i ?cs] by auto
  then show ?thesis by (auto simp: candidates_def Let_def)
qed

lemma length_candidates: "0 \<le> cap \<Longrightarrow> length (candidates ops need cap p nc) \<le> nat cap"
  by (simp add: candidates_def Let_def length_py_prefix)

section \<open>One layer of the hook\<close>

lemma hook_layer_ok:
  assumes ok: "layer_ok names orig st p" and cov: "covers p {}" and lid: "layer_id p = lid"
    and args: "\<And>xs. set (op_argsort_desc ops xs) \<subseteq> {..<length xs}"
    and off: "\<not> degrade_enabled env st"
    and run: "hook_layer env ops k st lid p = Inr (st', p')"
  shows "layer_ok names orig st' p' \<and> covers p' {} \<and> static_eq p p' \<and>
     layers st' = layers st \<and> shrunk st' = shrunk st \<and> dynamic st' = dynamic st \<and>
     keep_map st' = keep_map st \<and> cfg_lids st' = cfg_lids st \<and> map fst (bias_cache st') = map fst (bias_cache st) \<and>
     (\<forall>q nm og. layer_ok nm og st q \<longrightarrow> layer_id q \<noteq> lid \<longrightarrow> layer_ok nm og st' q) \<and>
     (0 \<le> max_stage_per_tick env \<longrightarrow>
        staged (stats st') \<le> staged (stats st) + nat (max_stage_per_tick env))"
proof (cases "dget (stash st) lid")
  case None
  then show ?thesis using run ok cov by (simp add: hook_layer_def)
next
  case (Some buf)
  let ?p1 = "p\<lparr>tick := tick p + 1\<rparr>"
  let ?flat0 = "map nat (filter (\<lambda>i. 0 \<le> i) (sb_ids buf))"
  have s1: "static_eq p ?p1" by (simp add: static_eq_def)
  show ?thesis
  proof (cases "int (length ?flat0) < k")
    case True
    then have "st' = st" "p' = ?p1" using run Some by (simp_all add: hook_layer_def Let_def)
    then show ?thesis using ok cov s1 by simp
  next
    case False
    define kn where "kn = nat k"
    define rows where "rows = length ?flat0 div kn"
    define flat where "flat = chunks kn rows (take (rows * kn) ?flat0)"
    define sc where "sc = chunks kn rows (take (rows * kn) (sb_scores buf))"
    define st1 where "st1 = st\<lparr>stash := dset (stash st) lid (buf\<lparr>
                      sb_ids := replicate (length (sb_ids buf)) (-1),
                      sb_scores := replicate (length (sb_scores buf)) (-1)\<rparr>)\<rparr>"
    define hms where "hms = map2 (hot_min (cold_mask ?p1)) flat sc"
    define sel where "sel = concat (map (strong_ids (cold_mask ?p1) (strong_alpha env)) (zip flat sc))"
    have "hook_layer env ops k st lid p =
        (if k \<le> 0 then Inl RuntimeError
         else if \<exists>row\<in>set flat. \<exists>g\<in>set row. length (cold_mask ?p1) \<le> g then Inl IndexError
         else res_bind (probe_demand ops (strong_alpha env) ?p1 buf hms) (\<lambda>probed.
              let nc1 = add_at (counts_or_zero ?p1) probed;
                  nc2 = add_at (map (\<lambda>x. x * ema_decay env) nc1) sel;
                  st2 = bump (\<lambda>s. s\<lparr>strong := strong s + length probed + length sel\<rparr>) st1;
                  p2 = ?p1\<lparr>need_counts := Some nc2\<rparr>;
                  cs = candidates ops (of_int (need_hits env)) (max_stage_per_tick env) p2 nc2;
                  (st3, p3) = stage_gids st2 p2 cs
              in Inr (if degrade_enabled env st3 then phase_b env st3 p3 flat else (st3, p3))))"
      using False Some unfolding hook_layer_def kn_def rows_def flat_def sc_def st1_def hms_def sel_def
      by (simp only: option.case Let_def if_False)
    with run obtain probed where pr: "probe_demand ops (strong_alpha env) ?p1 buf hms = Inr probed"
      and body: "(let nc1 = add_at (counts_or_zero ?p1) probed;
                  nc2 = add_at (map (\<lambda>x. x * ema_decay env) nc1) sel;
                  st2 = bump (\<lambda>s. s\<lparr>strong := strong s + length probed + length sel\<rparr>) st1;
                  p2 = ?p1\<lparr>need_counts := Some nc2\<rparr>;
                  cs = candidates ops (of_int (need_hits env)) (max_stage_per_tick env) p2 nc2;
                  (st3, p3) = stage_gids st2 p2 cs
              in Inr (if degrade_enabled env st3 then phase_b env st3 p3 flat else (st3, p3)) ::
                (pool_state \<times> layer_pool) result) = Inr (st', p')"
      by (auto simp: res_bind_Inr_iff split: if_splits)
    define nc2 where "nc2 = add_at (map (\<lambda>x. x * ema_decay env) (add_at (counts_or_zero ?p1) probed)) sel"
    define st2 where "st2 = bump (\<lambda>s. s\<lparr>strong := strong s + length probed + length sel\<rparr>) st1"
    define p2 where "p2 = ?p1\<lparr>need_counts := Some nc2\<rparr>"
    define cs where "cs = candidates ops (of_int (need_hits env)) (max_stage_per_tick env) p2 nc2"
    obtain st3 p3 where sg: "stage_gids st2 p2 cs = (st3, p3)" by (cases "stage_gids st2 p2 cs")
    have t1: "layer_ok nm og st2 q" if "layer_ok nm og st q" for nm og q
      using that by (simp add: layer_ok_def tables_ok_def st2_def st1_def bump_def)
    have s2: "static_eq p p2" "layer_id p2 = lid" "cold_ids p2 = cold_ids p" "cold p2 = cold p"
      using lid by (simp_all add: static_eq_def p2_def)
    have cc: "cold_ids p = cold p" using ok by (simp add: layer_ok_def shape_ok_def)
    have "set cs \<subseteq> set (cold p2)"
      unfolding cs_def using candidates_cold[OF args, of _ _ p2] s2 cc by auto
    from stage_gids_ok[OF _ _ this sg, of names orig]
    have S: "layer_ok names orig st3 p3" "covers p3 {}" "static_eq p2 p3" "st_frame lid st2 st3"
        "staged (stats st3) \<le> staged (stats st2) + length cs"
      using ok cov t1 s2 by (auto simp: p2_def)
    have deg: "\<not> degrade_enabled env st3"
      using off S(4) by (simp add: degrade_enabled_def st_frame_def st2_def st1_def bump_def)
    have e: "st' = st3" "p' = p3"
      using body sg deg by (simp_all add: Let_def nc2_def st2_def p2_def cs_def)
    have f: "layers st3 = layers st" "shrunk st3 = shrunk st" "dynamic st3 = dynamic st"
        "keep_map st3 = keep_map st" "cfg_lids st3 = cfg_lids st" "map fst (bias_cache st3) = map fst (bias_cache st)"
      using S(4) by (simp_all add: st_frame_def st2_def st1_def bump_def)
    have "staged (stats st2) = staged (stats st)" by (simp add: st2_def st1_def bump_def)
    then have "0 \<le> max_stage_per_tick env \<longrightarrow>
        staged (stats st3) \<le> staged (stats st) + nat (max_stage_per_tick env)"
      using S(5) length_candidates[of "max_stage_per_tick env" ops _ p2 nc2]
      unfolding cs_def by (metis add_le_mono1 add_left_mono le_trans)
    moreover have "\<forall>q nm og. layer_ok nm og st q \<longrightarrow> layer_id q \<noteq> lid \<longrightarrow> layer_ok nm og st3 q"
      using t1 layer_ok_tables[OF _ _ S(4)] by blast
    ultimately show ?thesis using S(1-3) s2(1) static_eq_trans e f by auto
  qed
qed

end
