(* ===== verification/Cold_State.thy ===== *)
theory Cold_State
  imports Cold_Safety
begin

text \<open>
  The cold pool as one state machine: what a shrink establishes for all layers, and the steps
  that the serving loop takes afterwards (the router hook, the stash and the forward hook).
\<close>

section \<open>The invariant of the whole pool\<close>

definition state_ok ::
  "(nat \<Rightarrow> string set) \<Rightarrow> (nat \<Rightarrow> string \<Rightarrow> nat \<Rightarrow> byte list) \<Rightarrow> pool_state \<Rightarrow> bool" where
  "state_ok names orig st \<longleftrightarrow> distinct (map fst (layers st)) \<and>
     (\<forall>lid p. dget (layers st) lid = Some p \<longrightarrow> layer_id p = lid \<and> covers p {} \<and>
        layer_ok (names lid) (orig lid) st p \<and>
        (\<forall>dt. dt \<noteq> F64 \<longrightarrow> (lid, dt) \<in> set (map fst (bias_cache st))))"

lemma state_okD:
  assumes "state_ok names orig st" and "dget (layers st) lid = Some p"
  shows "layer_id p = lid" and "covers p {}" and "layer_ok (names lid) (orig lid) st p"
    and "dt \<noteq> F64 \<Longrightarrow> (lid, dt) \<in> set (map fst (bias_cache st))"
  using assms unfolding state_ok_def by blast+

lemma layer_ok_cong:
  "bias_cache st' = bias_cache st \<Longrightarrow> remap_cache st' = remap_cache st \<Longrightarrow>
     layer_ok names orig st' p = layer_ok names orig st p"
  by (simp add: layer_ok_def tables_ok_def)

lemma state_ok_cong:
  "bias_cache st' = bias_cache st \<Longrightarrow> remap_cache st' = remap_cache st \<Longrightarrow>
     layers st' = layers st \<Longrightarrow> state_ok names orig st' = state_ok names orig st"
  by (simp add: state_ok_def layer_ok_cong[of st' st])

lemma distinct_dset: "distinct (map fst d) \<Longrightarrow> distinct (map fst (dset d k v))"
  by (rule distinct_update)

lemma hook_layers_ok:
  assumes args: "\<And>xs. set (op_argsort_desc ops xs) \<subseteq> {..<length xs}"
  shows "state_ok names orig st \<Longrightarrow> \<not> degrade_enabled env st \<Longrightarrow>
     hook_layers env ops k st lids = Inr st' \<Longrightarrow>
     state_ok names orig st' \<and> shrunk st' = shrunk st \<and> dynamic st' = dynamic st \<and>
     keep_map st' = keep_map st \<and> cfg_lids st' = cfg_lids st \<and>
     (0 \<le> max_stage_per_tick env \<longrightarrow>
        staged (stats st') \<le> staged (stats st) + length lids * nat (max_stage_per_tick env))"
proof (induction lids arbitrary: st)
  case Nil
  then show ?case by simp
next
  case (Cons lid lids)
  show ?case
  proof (cases "dget (layers st) lid")
    case None
    then show ?thesis using Cons.IH[OF Cons.prems(1,2)] Cons.prems(3) by auto
  next
    case (Some p)
    note ok = state_okD[OF Cons.prems(1) Some]
    obtain st1 p1 where h: "hook_layer env ops k st lid p = Inr (st1, p1)"
      and run: "hook_layers env ops k (st1\<lparr>layers := dset (layers st1) lid p1\<rparr>) lids = Inr st'"
      using Cons.prems(3) Some by (auto simp: res_bind_Inr_iff)
    note H = hook_layer_ok[OF ok(3,2,1) args Cons.prems(2) h]
    let ?st = "st1\<lparr>layers := dset (layers st1) lid p1\<rparr>"
    have "state_ok names orig ?st"
      unfolding state_ok_def
    proof (intro conjI allI impI)
      show "distinct (map fst (layers ?st))"
        using H Cons.prems(1) by (simp add: state_ok_def distinct_dset)
      fix l q assume q: "dget (layers ?st) l = Some q"
      have cong: "layer_ok (names l) (orig l) ?st q = layer_ok (names l) (orig l) st1 q"
        by (rule layer_ok_cong) simp_all
      have "layer_id q = l \<and> covers q {} \<and> layer_ok (names l) (orig l) st1 q"
      proof (cases "l = lid")
        case True
        then show ?thesis using q H ok(1) by (simp add: dict_simps static_eq_def)
      next
        case False
        then have q': "dget (layers st) l = Some q" using q H by (simp add: dict_simps)
        show ?thesis using H False state_okD(1-3)[OF Cons.prems(1) q'] by blast
      qed
      then show "layer_id q = l" "covers q {}" "layer_ok (names l) (orig l) ?st q"
        unfolding cong by blast+
      fix dt :: dtype assume "dt \<noteq> F64"
      then show "(l, dt) \<in> set (map fst (bias_cache ?st))"
        using q H ok(4) state_okD(4)[OF Cons.prems(1), of l q]
        by (auto simp: dict_simps simp del: set_map split: if_splits)
    qed
    moreover have "\<not> degrade_enabled env ?st" using H Cons.prems(2) by (simp add: degrade_enabled_def)
    ultimately have I: "state_ok names orig st' \<and> shrunk st' = shrunk ?st \<and> dynamic st' = dynamic ?st \<and>
       keep_map st' = keep_map ?st \<and> cfg_lids st' = cfg_lids ?st \<and>
       (0 \<le> max_stage_per_tick env \<longrightarrow>
          staged (stats st') \<le> staged (stats ?st) + length lids * nat (max_stage_per_tick env))"
      using Cons.IH run by blast
    then show ?thesis using H by auto
  qed
qed

lemma stats_dirty_id:
  fixes st :: "('a) cp_state_scheme"
  shows "st = st\<lparr>stats := stats st, dirty := dirty st\<rparr>"
    and "st\<lparr>stats := x\<rparr> = st\<lparr>stats := x, dirty := dirty st\<rparr>"
  by simp_all

lemma after_forward_hook_ok:
  assumes args: "\<And>xs. set (op_argsort_desc ops xs) \<subseteq> {..<length xs}"
    and ok: "state_ok names orig st" and off: "\<not> degrade_enabled env st"
    and run: "after_forward_hook env ops capturing st = Inr st'"
  shows "state_ok names orig st' \<and> shrunk st' = shrunk st \<and> dynamic st' = dynamic st \<and>
     keep_map st' = keep_map st \<and> cfg_lids st' = cfg_lids st"
proof (cases "\<not> dynamic st \<or> capturing \<or> Suc (calls (stats st)) mod 8 \<noteq> 0 \<or> \<not> dirty st")
  case True
  then have "st' = st \<or> (\<exists>s. st' = st\<lparr>stats := s\<rparr>) \<or> (\<exists>s d. st' = st\<lparr>stats := s, dirty := d\<rparr>)"
    using run by (auto simp: after_forward_hook_def bump_def consume_dirty_def Let_def split: if_splits)
  then obtain s d where "st' = st\<lparr>stats := s, dirty := d\<rparr>"
    using stats_dirty_id[where st = st] by (elim disjE exE) metis+
  then show ?thesis using ok state_ok_cong[of st' st] by simp
next
  case False
  define st2 where "st2 = snd (consume_dirty (bump (\<lambda>s. s\<lparr>calls := Suc (calls s)\<rparr>) st))"
  have run': "res_bind (hook_layers env ops (hook_topk env) st2 (map fst (layers st2))) (\<lambda>st3.
                  if debug_on env \<and> calls (stats st3) mod 256 = 0
                  then res_bind (checksum_selfcheck st3) (\<lambda>_. Inr st3)
                  else Inr st3) = Inr st'"
    using run False by (simp add: after_forward_hook_def bump_def consume_dirty_def Let_def st2_def)
  have h: "hook_layers env ops (hook_topk env) st2 (map fst (layers st2)) = Inr st'"
    using run' by (auto simp: res_bind_Inr_iff split: if_splits)
  have "state_ok names orig st2" "\<not> degrade_enabled env st2"
    using ok off state_ok_cong[of st2 st] 
    by (simp_all add: st2_def bump_def consume_dirty_def degrade_enabled_def)
  from hook_layers_ok[OF args this h] show ?thesis
    by (simp add: st2_def bump_def consume_dirty_def)
qed

lemma stash_demand_frame:
  "stash_demand capturing ops st lid pm ids k = Inr st' \<Longrightarrow>
     (\<exists>x y. st' = st\<lparr>stash := x, dirty := y\<rparr>)"
proof -
  have e: "\<exists>x y. st = st\<lparr>stash := x, dirty := y\<rparr>" by (metis cp_state.surjective cp_state.update_convs(4,5))
  assume "stash_demand capturing ops st lid pm ids k = Inr st'"
  then show ?thesis using e
    by (auto simp: stash_demand_def Let_def mark_dirty_def split: option.splits if_splits)
qed

lemma bias_col_or_none_ok:
  assumes ok: "state_ok names orig st" and dt: "dt \<noteq> F64"
    and run: "bias_col_or_none capturing st lid width dt = Inr (st', col)"
  shows "state_ok names orig st' \<and> shrunk st' = shrunk st \<and> dynamic st' = dynamic st \<and>
     keep_map st' = keep_map st \<and> cfg_lids st' = cfg_lids st"
proof (cases "st' = st")
  case True
  then show ?thesis using ok by simp
next
  case False
  then obtain c where st': "st' = st\<lparr>bias_cache := dset (bias_cache st) (lid, dt) c\<rparr>"
    and new: "dget (bias_cache st) (lid, dt) = None"
    using run by (auto simp: bias_col_or_none_def res_bind_Inr_iff split: option.splits if_splits)
  have nl: "dget (layers st) lid = None"
  proof (rule ccontr)
    assume "dget (layers st) lid \<noteq> None"
    then obtain p where "dget (layers st) lid = Some p" by blast
    from state_okD(4)[OF ok this dt] new show False by (simp add: dget_None_iff)
  qed
  have "state_ok names orig st'"
    unfolding state_ok_def
  proof (intro conjI allI impI)
    show "distinct (map fst (layers st'))" using ok by (simp add: st' state_ok_def)
    fix l q assume q: "dget (layers st') l = Some q"
    then have q': "dget (layers st) l = Some q" "l \<noteq> lid" using nl by (auto simp: st')
    note Q = state_okD[OF ok q'(1)]
    show "layer_id q = l" "covers q {}" using Q by auto
    show "layer_ok (names l) (orig l) st' q" using Q(1,3) q'(2)
      by (auto simp: layer_ok_def tables_ok_def st' dict_simps)
    show "(l, d) \<in> set (map fst (bias_cache st'))" if "d \<noteq> F64" for d
      using Q(4)[OF that] by (simp add: st' dkeys_dset)
  qed
  then show ?thesis by (simp add: st')
qed

section \<open>The serving loop\<close>

text \<open>
  One step of the loop. The logits are not double precision: the shrink builds the columns for the
  three other types, and a column that is missing is built for the kept experts only.
\<close>

inductive pool_step :: "environment \<Rightarrow> hook_ops \<Rightarrow> pool_state \<Rightarrow> pool_state \<Rightarrow> bool"
  for env :: environment and ops :: hook_ops where
  step_mask: "apply_keep_mask capturing st lid width dt logits = Inr (st', out, pre) \<Longrightarrow> dt \<noteq> F64 \<Longrightarrow>
     pool_step env ops st st'"
| step_stash: "stash_demand capturing ops st lid pm ids k = Inr st' \<Longrightarrow> pool_step env ops st st'"
| step_hook: "after_forward_hook env ops capturing st = Inr st' \<Longrightarrow> pool_step env ops st st'"

inductive pool_reach :: "environment \<Rightarrow> hook_ops \<Rightarrow> pool_state \<Rightarrow> pool_state \<Rightarrow> bool"
  for env :: environment and ops :: hook_ops and st :: pool_state where
  reach_refl: "pool_reach env ops st st"
| reach_step: "pool_reach env ops st st1 \<Longrightarrow> pool_step env ops st1 st2 \<Longrightarrow> pool_reach env ops st st2"

lemma pool_step_ok:
  assumes args: "\<And>xs. set (op_argsort_desc ops xs) \<subseteq> {..<length xs}"
    and step: "pool_step env ops st st'" and ok: "state_ok names orig st"
    and off: "\<not> degrade_enabled env st"
  shows "state_ok names orig st' \<and> shrunk st' = shrunk st \<and> dynamic st' = dynamic st \<and>
     keep_map st' = keep_map st \<and> cfg_lids st' = cfg_lids st"
  using step
proof (cases rule: pool_step.cases)
  case (step_mask capturing lid width dt logits out pre)
  show ?thesis
  proof (cases "lid = None \<or> \<not> shrunk st")
    case True
    then have "st' = st" using step_mask(1) by (auto simp: apply_keep_mask_def split: option.splits)
    then show ?thesis using ok by simp
  next
    case False
    then obtain l where l: "lid = Some l" "shrunk st" by (cases lid) auto
    then obtain col where "bias_col_or_none capturing st l width dt = Inr (st', col)"
      using step_mask(1)
      by (auto simp: apply_keep_mask_def res_bind_Inr_iff split: option.splits if_splits)
    from bias_col_or_none_ok[OF ok step_mask(2) this] show ?thesis .
  qed
next
  case (step_stash capturing lid pm ids k)
  from stash_demand_frame[OF this] show ?thesis using ok state_ok_cong[of st' st] by auto
next
  case (step_hook capturing)
  from after_forward_hook_ok[OF args ok off this] show ?thesis .
qed

lemma pool_reach_ok:
  assumes args: "\<And>xs. set (op_argsort_desc ops xs) \<subseteq> {..<length xs}"
    and reach: "pool_reach env ops st st'" and ok: "state_ok names orig st"
    and off: "\<not> degrade_enabled env st"
  shows "state_ok names orig st' \<and> shrunk st' = shrunk st \<and> dynamic st' = dynamic st \<and>
     keep_map st' = keep_map st \<and> cfg_lids st' = cfg_lids st"
  using reach
proof induction
  case reach_refl
  then show ?case using ok by simp
next
  case (reach_step st1 st2)
  then have "\<not> degrade_enabled env st1" using off by (simp add: degrade_enabled_def)
  from pool_step_ok[OF args reach_step(2) _ this] reach_step(3) show ?case by auto
qed

section \<open>What a shrink establishes\<close>

definition fused_lid :: "moe_module \<Rightarrow> nat option" where
  "fused_lid m = (if m_is_fused m then m_layer_id m else None)"

definition fused_lids :: "moe_module list \<Rightarrow> nat list" where
  "fused_lids ms = map the (filter (\<lambda>x. x \<noteq> None) (map fused_lid ms))"

lemma fused_lids_simps [simp]:
  "fused_lids [] = []"
  "fused_lids (m # ms) = (if fused_lid m = None then fused_lids ms else the (fused_lid m) # fused_lids ms)"
  by (simp_all add: fused_lids_def)

lemma fused_lid_Some: "m_is_fused m \<Longrightarrow> m_layer_id m = Some l \<Longrightarrow> fused_lid m = Some l"
  by (simp add: fused_lid_def)

lemma distinct_fused: "distinct (fused_lids (m # ms)) \<Longrightarrow> distinct (fused_lids ms)"
  by (simp split: if_splits)

lemma fused_lids_in: "m \<in> set ms \<Longrightarrow> fused_lid m = Some l \<Longrightarrow> l \<in> set (fused_lids ms)"
  by (induction ms) auto

lemma shrink_step_False: "shrink_step sl junk parents km st m = Inr (st', m', False) \<Longrightarrow> st' = st"
  by (auto simp: shrink_step_def Let_def res_bind_Inr_iff split: option.splits tensor.splits if_splits)

lemma shrink_step_frame:
  assumes run: "shrink_step sl junk parents km st m = Inr (st', m', True)"
  obtains lid kp p where "m_is_fused m" "m_layer_id m = Some lid" "dget km lid = Some kp"
    "layers st' = dset (layers st) lid p"
    "\<forall>l. l \<noteq> lid \<longrightarrow> dget (remap_cache st') l = dget (remap_cache st) l"
    "\<forall>l dt. l \<noteq> lid \<or> dt = F64 \<longrightarrow> dget (bias_cache st') (l, dt) = dget (bias_cache st) (l, dt)"
    "keep_map st' = keep_map st"
proof -
  obtain lid kp where lk: "m_layer_id m = Some lid" "dget km lid = Some kp"
    using run by (auto simp: shrink_step_def split: option.splits if_splits)
  obtain oid ref oid2 t2 where g: "m_is_fused m" "getattr m ''w13_weight'' = Some (oid, Rows ref)"
      "getattr m ''w13_weight_scale'' = Some (oid2, t2)"
    using shrink_step_TrueE[OF run lk] by blast
  obtain st1 ph st2 p where
      bt: "build_tables st lid kp (nat sl) (length ref) = Inr (st1, ph)"
    and rm: "register_managed st1 (m_own_topk m) lid (owner_topk parents (m_id m)) = Inr st2"
    and e: "st' = st2\<lparr>layers := dset (layers st2) lid p\<rparr>"
    using run g lk
    by (auto simp: shrink_step_def Let_def res_bind_Inr_iff split: if_splits)
  have 1: "layers st1 = layers st" "keep_map st1 = keep_map st"
    "\<And>l. l \<noteq> lid \<Longrightarrow> dget (remap_cache st1) l = dget (remap_cache st) l"
    "\<And>l dt. l \<noteq> lid \<or> dt = F64 \<Longrightarrow> dget (bias_cache st1) (l, dt) = dget (bias_cache st) (l, dt)"
    using bt by (auto simp: build_tables_def res_bind_Inr_iff dict_simps)
  have 2: "layers st2 = layers st1" "keep_map st2 = keep_map st1"
    "remap_cache st2 = remap_cache st1" "bias_cache st2 = bias_cache st1"
    using rm by (auto simp: register_managed_def Let_def split: option.splits if_splits)
  show thesis
  proof (rule that[of lid kp p])
    show "layers st' = dset (layers st) lid p" using 1 2 by (simp add: e)
    show "keep_map st' = keep_map st" using 1 2 by (simp add: e)
    show "\<forall>l. l \<noteq> lid \<longrightarrow> dget (remap_cache st') l = dget (remap_cache st) l"
      using 1(3) 2 by (simp add: e)
    show "\<forall>l dt. l \<noteq> lid \<or> dt = F64 \<longrightarrow> dget (bias_cache st') (l, dt) = dget (bias_cache st) (l, dt)"
      using 1(4) 2 by (simp add: e)
  qed (use g lk in auto)
qed

definition kept_ok :: "moe_module list \<Rightarrow> (nat, nat list) dict \<Rightarrow> bool" where
  "kept_ok ms km \<longleftrightarrow> distinct (fused_lids ms) \<and> (\<forall>m\<in>set ms. rect m) \<and>
     (\<forall>lid kp. dget km lid = Some kp \<longrightarrow> kp \<noteq> [])"

definition origins :: "moe_module list \<Rightarrow> (nat \<Rightarrow> string set) \<Rightarrow> (nat \<Rightarrow> string \<Rightarrow> nat \<Rightarrow> byte list) \<Rightarrow> bool" where
  "origins ms names orig \<longleftrightarrow> (\<forall>m\<in>set ms. \<forall>lid. fused_lid m = Some lid \<longrightarrow>
     names lid = moved_names m (num_rows m) \<and> orig lid = orig_rows m)"

lemma shrink_step_state_ok:
  assumes run: "shrink_step sl junk parents km st m = Inr (st', m', True)"
    and rc: "rect m" and km: "\<forall>lid kp. dget km lid = Some kp \<longrightarrow> kp \<noteq> []"
    and ok: "state_ok names orig st"
    and org: "\<forall>lid. m_layer_id m = Some lid \<longrightarrow>
      names lid = moved_names m (num_rows m) \<and> orig lid = orig_rows m"
    and f64: "\<forall>l. dget (bias_cache st) (l, F64) = None"
    and new: "\<forall>lid. m_layer_id m = Some lid \<longrightarrow> dget (layers st) lid = None"
  shows "state_ok names orig st' \<and> (\<forall>l. dget (bias_cache st') (l, F64) = None) \<and>
     keep_map st' = keep_map st"
proof -
  obtain lid kp p where F: "m_is_fused m" "m_layer_id m = Some lid" "dget km lid = Some kp"
    "layers st' = dset (layers st) lid p"
    "\<forall>l. l \<noteq> lid \<longrightarrow> dget (remap_cache st') l = dget (remap_cache st) l"
    "\<forall>l dt. l \<noteq> lid \<or> dt = F64 \<longrightarrow> dget (bias_cache st') (l, dt) = dget (bias_cache st) (l, dt)"
    "keep_map st' = keep_map st"
    by (rule shrink_step_frame[OF run])
  have kp: "kp \<noteq> []" using km F(3) by blast
  obtain q where Q: "dget (layers st') lid = Some q" "layer_id q = lid"
      "layer_ok (moved_names m (num_rows m)) (orig_rows m) st' q" "covers q {}"
      "\<forall>dt. dt \<noteq> F64 \<longrightarrow> dget (bias_cache st') (lid, dt) \<noteq> None"
    using shrink_step_layer_ok[OF run rc F(2,3) kp] f64 by auto
  have "state_ok names orig st'"
    unfolding state_ok_def
  proof (intro conjI allI impI)
    show "distinct (map fst (layers st'))" using ok F(4) by (simp add: state_ok_def distinct_dset)
    fix l r assume r: "dget (layers st') l = Some r"
    have "layer_id r = l \<and> covers r {} \<and> layer_ok (names l) (orig l) st' r \<and>
        (\<forall>dt. dt \<noteq> F64 \<longrightarrow> dget (bias_cache st') (l, dt) \<noteq> None)"
    proof (cases "l = lid")
      case True
      then have "r = q" using Q(1) r by simp
      then show ?thesis using True Q org F(2) by simp
    next
      case False
      then have r': "dget (layers st) l = Some r" using r F(4) by (simp add: dict_simps)
      note R = state_okD[OF ok r']
      have "layer_ok (names l) (orig l) st' r"
        using R(1,3) F(5,6) False by (simp add: layer_ok_def tables_ok_def)
      moreover have "dget (bias_cache st') (l, dt) \<noteq> None" if "dt \<noteq> F64" for dt
        using R(4)[OF that] F(6) False by (simp add: dget_None_iff)
      ultimately show ?thesis using R by blast
    qed
    then show "layer_id r = l" "covers r {}" "layer_ok (names l) (orig l) st' r"
      "\<And>dt. dt \<noteq> F64 \<Longrightarrow> (l, dt) \<in> set (map fst (bias_cache st'))"
      by (auto simp: dget_None_iff)
  qed
  then show ?thesis using f64 F(6,7) by simp
qed

lemma shrink_modules_state_ok:
  "shrink_modules sl junk parents km st ms = Inr (st', ms', n) \<Longrightarrow> kept_ok ms km \<Longrightarrow>
     origins ms names orig \<Longrightarrow> state_ok names orig st \<Longrightarrow>
     \<forall>l. dget (bias_cache st) (l, F64) = None \<Longrightarrow>
     \<forall>l\<in>set (fused_lids ms). dget (layers st) l = None \<Longrightarrow>
     state_ok names orig st' \<and> keep_map st' = keep_map st"
proof (induction ms arbitrary: st ms' n)
  case Nil
  then show ?case by simp
next
  case (Cons m ms)
  obtain st1 m1 b ms1 n1 where
      s: "shrink_step sl junk parents km st m = Inr (st1, m1, b)"
    and r: "shrink_modules sl junk parents km st1 ms = Inr (st', ms1, n1)"
    using Cons.prems(1) by (auto simp: res_bind_Inr_iff)
  have prem: "kept_ok ms km" "origins ms names orig"
    using Cons.prems(2,3) distinct_fused[of m ms]
    by (auto simp: kept_ok_def origins_def simp del: fused_lids_simps)
  show ?case
  proof (cases b)
    case False
    then have "shrink_step sl junk parents km st m = Inr (st1, m1, False)" using s by simp
    then have e: "st1 = st" by (rule shrink_step_False)
    have "\<forall>l\<in>set (fused_lids ms). dget (layers st) l = None"
      using Cons.prems(6) by (auto split: if_splits)
    then show ?thesis using Cons.IH[OF r prem] Cons.prems(4,5) unfolding e by blast
  next
    case True
    then have s': "shrink_step sl junk parents km st m = Inr (st1, m1, True)" using s by simp
    obtain lid kp p where F: "m_is_fused m" "m_layer_id m = Some lid" "dget km lid = Some kp"
        "layers st1 = dset (layers st) lid p"
      by (rule shrink_step_frame[OF s'])
    have "state_ok names orig st1 \<and> (\<forall>l. dget (bias_cache st1) (l, F64) = None) \<and>
        keep_map st1 = keep_map st"
      by (rule shrink_step_state_ok[OF s'])
        (use Cons.prems F fused_lid_Some[OF F(1,2)] in \<open>auto simp: kept_ok_def origins_def\<close>)
    moreover have "\<forall>l\<in>set (fused_lids ms). dget (layers st1) l = None"
      using Cons.prems(2,6) F fused_lid_Some[OF F(1,2)] by (auto simp: kept_ok_def dict_simps)
    ultimately show ?thesis using Cons.IH[OF r prem] by auto
  qed
qed

lemma fused_lids_uniq:
  "distinct (fused_lids ms) \<Longrightarrow> m \<in> set ms \<Longrightarrow> m' \<in> set ms \<Longrightarrow> fused_lid m = Some l \<Longrightarrow>
     fused_lid m' = Some l \<Longrightarrow> m = m'"
proof (induction ms)
  case Nil
  then show ?case by simp
next
  case (Cons a ms)
  have new: "l \<notin> set (fused_lids ms)" if "fused_lid a = Some l"
    using Cons.prems(1) that by simp
  note d = distinct_fused[OF Cons.prems(1)]
  have "m = a \<longleftrightarrow> m' = a"
    using new fused_lids_in[of m ms l] fused_lids_in[of m' ms l] Cons.prems by auto
  then show ?case using Cons.IH[OF d] Cons.prems by (cases "m = a") auto
qed

lemma origins_exist:
  assumes "distinct (fused_lids ms)"
  shows "\<exists>names orig. origins ms names orig"
proof -
  note uniq = fused_lids_uniq[OF assms]
  let ?M = "\<lambda>l. SOME m. m \<in> set ms \<and> fused_lid m = Some l"
  have "?M l = m" if "m \<in> set ms" "fused_lid m = Some l" for m l
    by (rule some_equality) (use that uniq in auto)
  then have "origins ms (\<lambda>l. moved_names (?M l) (num_rows (?M l))) (\<lambda>l. orig_rows (?M l))"
    by (simp add: origins_def)
  then show ?thesis by blast
qed

definition fresh_pool :: "(nat, nat list) dict option \<Rightarrow> pool_state" where
  "fresh_pool km = cp_state.extend (init_state km) \<lparr>layers = []\<rparr>"

end
