(* ===== verification/Cold_Props.thy ===== *)
theory Cold_Props
  imports Cold_State
begin

text \<open>
  The properties of the expert cold pool: what holds in every state that the serving loop can
  reach from a shrink, what the eviction picks, how the two remap lanes agree, and where the
  optional demotion phase breaks the invariant.
\<close>

section \<open>From the shrink to every reachable state\<close>

definition off_demotion :: "environment \<Rightarrow> bool" where
  "off_demotion env \<longleftrightarrow> env_get env ''SGLANG_COLD_DEGRADE'' \<noteq> Some ''1''"

lemma off_demotion_degrade: "off_demotion env \<Longrightarrow> \<not> degrade_enabled env st"
  by (simp add: off_demotion_def degrade_enabled_def)

lemma fresh_pool_simps [simp]:
  "layers (fresh_pool km) = []" "bias_cache (fresh_pool km) = []" "shrunk (fresh_pool km) = False"
  "keep_map (fresh_pool km) = km" "remap_cache (fresh_pool km) = []" "stash (fresh_pool km) = []"
  "dynamic (fresh_pool km) = False" "cfg_lids (fresh_pool km) = []"
  by (simp_all add: fresh_pool_def cp_state.extend_def init_state_def)

lemma maybe_shrink_state_ok:
  assumes run: "maybe_shrink_after_process env junk parents (fresh_pool (Some km)) ms = Inr (st, ms')"
    and ko: "kept_ok ms km" and org: "origins ms names orig"
  shows "state_ok names orig st"
proof (cases "offload_requested env")
  case False
  then show ?thesis using run by (auto simp: maybe_shrink_after_process_def state_ok_def)
next
  case True
  obtain st1 ms1 n where
      r: "shrink_modules (cold_slots env) junk parents km (fresh_pool (Some km)) ms = Inr (st1, ms1, n)"
    and st: "st = (if n > 0 then st1\<lparr>shrunk := True, dynamic := cold_slots env > 0,
                                 stats := zero_stats\<rparr> else st1)"
    using run True by (auto simp: maybe_shrink_after_process_def res_bind_Inr_iff)
  have "state_ok names orig (fresh_pool (Some km))" by (simp add: state_ok_def)
  from shrink_modules_state_ok[OF r ko org this]
  have "state_ok names orig st1" by simp
  then show ?thesis using state_ok_cong[of st st1] by (simp add: st)
qed

lemma reach_state_ok:
  assumes "maybe_shrink_after_process env junk parents (fresh_pool (Some km)) ms = Inr (st1, ms1)"
    and "kept_ok ms km" and "off_demotion env"
    and "\<And>xs. set (op_argsort_desc ops xs) \<subseteq> {..<length xs}"
    and "pool_reach env ops st1 st"
  shows "\<exists>names orig. origins ms names orig \<and> state_ok names orig st \<and>
     shrunk st = shrunk st1 \<and> cfg_lids st = cfg_lids st1"
proof -
  obtain names orig where o: "origins ms names orig"
    using origins_exist assms(2) unfolding kept_ok_def by blast
  have "state_ok names orig st1" by (rule maybe_shrink_state_ok[OF assms(1,2) o])
  from pool_reach_ok[OF assms(4,5) this off_demotion_degrade[OF assms(3)]] o
  show ?thesis by blast
qed

text \<open>
  C1: in every state that the serving loop reaches after the shrink (router masks, stashes and
  forward hooks in any order, demotion off), an expert whose router bias is zero is remapped to a
  physical row that holds, in every tensor that moved, exactly the row that the expert had before
  the shrink. So a token that the router sends to a global expert is computed with that expert's
  own weights, whatever was staged and evicted in between.
\<close>

theorem routable_reads_own_weights:
  assumes shrink: "maybe_shrink_after_process env junk parents (fresh_pool (Some km)) ms = Inr (st1, ms1)"
    and sh: "shrunk st1" and ko: "kept_ok ms km" and off: "off_demotion env"
    and args: "\<And>xs. set (op_argsort_desc ops xs) \<subseteq> {..<length xs}"
    and reach: "pool_reach env ops st1 st"
    and m: "m \<in> set ms" "m_is_fused m" "m_layer_id m = Some lid"
    and layer: "dget (layers st) lid = Some p" and g: "g < num_E p"
    and bias: "dget (bias_cache st) (lid, dt) = Some c" "c ! g = 0"
  shows "\<exists>r. remap_topk_ids st (Some lid) [[int g]] = [[int r]] \<and> r < phys p \<and>
     row_holds (module_of p) (moved_names m (num_rows m)) (orig_rows m) r g"
proof -
  obtain names orig where o: "origins ms names orig" and ok: "state_ok names orig st"
    and s: "shrunk st" using reach_state_ok[OF shrink ko off args reach] sh by blast
  note P = state_okD[OF ok layer]
  have no: "names lid = moved_names m (num_rows m)" "orig lid = orig_rows m"
    using o m fused_lid_Some[OF m(2,3)] by (auto simp: origins_def)
  obtain t where t: "dget (remap_cache st) lid = Some t" "length t = num_E p"
    using P(1,3) by (auto simp: layer_ok_def tables_ok_def)
  have "t ! g < phys p \<and> row_holds (module_of p) (names lid) (orig lid) (t ! g) g"
    using layer_ok_routable[OF P(3) _ g bias(2)] bias(1) t(1) P(1) by simp
  moreover have "remap_topk_ids st (Some lid) [[int g]] = [[int (t ! g)]]"
    using s t g by (simp add: remap_topk_ids_def remap_or_none_def remap_id_in)
  ultimately show ?thesis using no by auto
qed

section \<open>A concrete pool\<close>

text \<open>
  Three experts of one byte per tensor, the first and the last kept, one slot. One batch asks for
  the cold expert, and the eighth hook call stages it.
\<close>

definition ex_env :: environment where
  "ex_env = \<lparr>env_get = (\<lambda>s. if s \<in> set [''SGLANG_EXPERT_KEEP_MASK'', ''SGLANG_EXPERT_KEEP_OFFLOAD'',
       ''SGLANG_EXPERT_COLD_POOL_SLOTS'', ''SGLANG_COLD_TOPK'', ''SGLANG_COLD_NEED_HITS'',
       ''SGLANG_COLD_EMA_DECAY''] then Some ''1'' else None),
     parse_int = (\<lambda>s. if s = ''1'' then Some 1 else None),
     parse_float = (\<lambda>s. if s = ''1'' then Some 1 else None)\<rparr>"

definition ex_ops :: hook_ops where
  "ex_ops = \<lparr>op_sigmoid = (\<lambda>x. x), op_argsort_desc = (\<lambda>xs. [0..<length xs])\<rparr>"

definition ex_module :: moe_module where
  "ex_module = \<lparr>m_id = 0, m_is_fused = True, m_layer_id = Some 0,
     m_attrs = [(''w13_weight'', (0, True)), (''w13_weight_scale'', (1, True))],
     m_objs = [(0, Rows [[10], [11], [12]]), (1, Rows [[20], [21], [22]])],
     m_num_local = 3, m_own_topk = Some (Some 7)\<rparr>"

definition ex_km :: "(nat, nat list) dict" where "ex_km = [(0, [0, 2])]"

definition ex_shrink :: "(pool_state \<times> moe_module list) result" where
  "ex_shrink = maybe_shrink_after_process ex_env (\<lambda>_. []) [] (fresh_pool (Some ex_km)) [ex_module]"

definition ex_st1 :: pool_state where
  "ex_st1 = fst (ok_or (fresh_pool None, []) ex_shrink)"

definition ex_stash :: "pool_state result" where
  "ex_stash = stash_demand False ex_ops ex_st1 (Some 0) [[1, 5, 1 / 2]] [[0]] 1"

definition ex_hooks :: "pool_state result" where
  "ex_hooks = res_bind ex_stash (\<lambda>st.
     res_fold (\<lambda>s _. after_forward_hook ex_env ex_ops False s) st [0..<8::nat])"

definition ex_final :: pool_state where
  "ex_final = ok_or (fresh_pool None) ex_hooks"

definition ex_pool :: layer_pool where
  "ex_pool = the (dget (layers ex_final) 0)"

lemma hooks_reach:
  "res_fold (\<lambda>s _. after_forward_hook env ops cap s) st xs = Inr st' \<Longrightarrow> pool_reach env ops st0 st \<Longrightarrow>
     pool_reach env ops st0 st'"
proof (induction xs arbitrary: st)
  case Nil
  then show ?case by simp
next
  case (Cons x xs)
  obtain s1 where s1: "after_forward_hook env ops cap st = Inr s1"
    "res_fold (\<lambda>s _. after_forward_hook env ops cap s) s1 xs = Inr st'"
    using Cons.prems(1) by (auto simp: res_bind_Inr_iff)
  from Cons.IH[OF s1(2) reach_step[OF Cons.prems(2) step_hook[OF s1(1)]]] show ?case .
qed

lemma ex_shrink_Inr: "\<exists>ms. ex_shrink = Inr (ex_st1, ms)"
proof -
  have "is_ok ex_shrink" by code_simp
  from ok_or_eq[OF this, of "(fresh_pool None, [])"] show ?thesis
    unfolding ex_st1_def by (metis prod.collapse)
qed

lemma ex_shrunk: "shrunk ex_st1"
  by code_simp

lemma ex_reach: "pool_reach ex_env ex_ops ex_st1 ex_final"
proof -
  have "is_ok ex_hooks" by code_simp
  from ok_or_eq[OF this, of "fresh_pool None"] have h: "ex_hooks = Inr ex_final"
    unfolding ex_final_def .
  then obtain st where s: "ex_stash = Inr st"
    "res_fold (\<lambda>s _. after_forward_hook ex_env ex_ops False s) st [0..<8::nat] = Inr ex_final"
    unfolding ex_hooks_def res_bind_Inr_iff by blast
  have "pool_reach ex_env ex_ops ex_st1 st"
    by (rule reach_step[OF reach_refl step_stash[OF s(1)[unfolded ex_stash_def]]])
  then show ?thesis by (rule hooks_reach[OF s(2)])
qed

lemma ex_kept_ok: "kept_ok [ex_module] ex_km"
proof -
  have "rect ex_module"
    by (auto simp: rect_def ex_module_def getattr_def getattr_obj_def split: if_splits)
  then show ?thesis by (simp add: kept_ok_def ex_km_def fused_lid_def ex_module_def)
qed

lemma ex_off: "off_demotion ex_env"
  by (simp add: off_demotion_def ex_env_def)

lemma ex_argsort: "set (op_argsort_desc ex_ops xs) \<subseteq> {..<length xs}"
  by (auto simp: ex_ops_def)

lemma ex_layer: "dget (layers ex_final) 0 = Some ex_pool"
proof -
  have "dget (layers ex_final) 0 \<noteq> None" by code_simp
  then show ?thesis by (auto simp: ex_pool_def)
qed

text \<open>The staged expert of the concrete pool reads its own bytes.\<close>

theorem routable_reads_own_weights_witness:
  "gid_row ex_pool = [(1, 2)] \<and>
   (\<exists>r. remap_topk_ids ex_final (Some 0) [[int 1]] = [[int r]] \<and> r < phys ex_pool \<and>
     row_holds (module_of ex_pool) (moved_names ex_module (num_rows ex_module)) (orig_rows ex_module) r 1)"
proof
  show "gid_row ex_pool = [(1, 2)]" by code_simp
  obtain ms where sh: "ex_shrink = Inr (ex_st1, ms)" using ex_shrink_Inr by blast
  have g: "1 < num_E ex_pool" by code_simp
  have "dget (bias_cache ex_final) (0, BF16) = Some [0, 0, 0]" by code_simp
  from routable_reads_own_weights[OF sh[unfolded ex_shrink_def] ex_shrunk ex_kept_ok ex_off ex_argsort
      ex_reach _ _ _ ex_layer g this]
  show "\<exists>r. remap_topk_ids ex_final (Some 0) [[int 1]] = [[int r]] \<and> r < phys ex_pool \<and>
     row_holds (module_of ex_pool) (moved_names ex_module (num_rows ex_module)) (orig_rows ex_module) r 1"
    by (simp add: ex_module_def)
qed

end
