(* ===== verification/Cold_Laws.thy ===== *)
theory Cold_Laws
  imports Cold_Props
begin

text \<open>
  Further properties of the cold pool: the checksum self check, the accounting of the slots, the
  eviction order, the two remap lanes, the identity gate, and the demotion phase.
\<close>

section \<open>The self check\<close>

lemma row_differs_ok:
  assumes "row_holds m names orig r g" and "n \<in> names" and "v = orig n g"
  shows "row_differs m r n v = Inr False"
proof -
  obtain ts where "rows_at m n = Some ts" "r < length ts" "ts ! r = orig n g"
    using assms(1,2) by (auto simp: row_holds_def)
  then show ?thesis using assms(3) by (auto simp: row_differs_def elim!: rows_at_SomeE)
qed

lemma checksum_expert_clean:
  assumes ok: "layer_ok names orig st p" and gr: "(g, r) \<in> set (gid_row p)" and acc: "snd acc = 0"
  shows "\<exists>acc'. checksum_expert p acc (g, r) = Inr acc' \<and> snd acc' = 0"
proof -
  have parts: "slots_ok p" "content_ok names orig p" using ok by (auto simp: layer_ok_def)
  note sl = slots_okD[OF parts(1)]
  have look: "dget (gid_row p) g = Some r" using gr sl(6) by simp
  obtain d where d: "dget (host p) g = Some d" "fst ` set d = names"
      "\<And>n v. (n, v) \<in> set d \<Longrightarrow> v = orig n g"
    using parts(2) sl(2)[OF look] by (auto simp: content_ok_def host_ok_def)
  have h: "row_holds (module_of p) names orig r g"
    using parts(2) look by (auto simp: content_ok_def)
  let ?f = "\<lambda>(checked, bad) (name, pinned).
              res_bind (row_differs (module_of p) r name pinned) (\<lambda>b.
                Inr (Suc checked, if b then Suc bad else bad))"
  have step: "\<exists>s'. ?f s x = Inr s' \<and> snd s' = 0" if x: "x \<in> set d" and s: "snd s = 0" for x s
  proof -
    obtain n v where nv: "x = (n, v)" by (cases x)
    have "n \<in> names" using d(2) x nv by force
    then have "row_differs (module_of p) r n v = Inr False"
      using row_differs_ok[OF h] d(3) x nv by blast
    then show ?thesis using s nv by (cases s) simp
  qed
  have "\<exists>t. res_fold ?f acc d = Inr t \<and> snd t = 0"
    by (rule res_fold_total[where P = "\<lambda>s. snd s = 0", OF step acc]) simp_all
  then show ?thesis using d(1) by (simp add: checksum_expert_def)
qed

lemma checksum_clean:
  assumes ok: "state_ok names orig st"
  shows "\<exists>n. checksum_selfcheck st = Inr (n, 0)"
proof -
  let ?f = "\<lambda>acc (lid :: nat, p). res_fold (checksum_expert p) acc (gid_row p)"
  have step: "\<exists>s'. ?f s x = Inr s' \<and> snd s' = 0" if x: "x \<in> set (layers st)" and s: "snd s = 0" for x s
  proof -
    obtain lid p where lp: "x = (lid, p)" by (cases x)
    then have "dget (layers st) lid = Some p" using ok x by (simp add: state_ok_def)
    from state_okD(3)[OF ok this] have lok: "layer_ok (names lid) (orig lid) st p" .
    have "\<exists>t. res_fold (checksum_expert p) s (gid_row p) = Inr t \<and> snd t = 0"
    proof (rule res_fold_total[where P = "\<lambda>s. snd s = 0", OF _ s])
      fix a gr :: "nat \<times> nat"
      assume "gr \<in> set (gid_row p)" "snd a = 0"
      then show "\<exists>s'. checksum_expert p a gr = Inr s' \<and> snd s' = 0"
        using checksum_expert_clean[OF lok, of "fst gr" "snd gr" a] by simp
    qed
    then show ?thesis using lp by simp
  qed
  have "\<exists>t. res_fold ?f (0, 0) (layers st) = Inr t \<and> snd t = 0"
    by (rule res_fold_total[where P = "\<lambda>s. snd s = 0", OF step]) simp_all
  then show ?thesis by (auto simp: checksum_selfcheck_def)
qed

text \<open>
  in every state reached after a shrink with demotion off, the checksum self check runs to its
  end, raises nothing, and finds no staged row that differs from its pinned host copy.
\<close>

theorem selfcheck_never_mismatches:
  assumes "maybe_shrink_after_process env junk parents (fresh_pool (Some km)) ms = Inr (st1, ms1)"
    and "kept_ok ms km" and "off_demotion env"
    and "\<And>xs. set (op_argsort_desc ops xs) \<subseteq> {..<length xs}"
    and "pool_reach env ops st1 st"
  shows "\<exists>n. checksum_selfcheck st = Inr (n, 0)"
  using reach_state_ok[OF assms] checksum_clean by blast

theorem selfcheck_never_mismatches_witness:
  "\<exists>n. checksum_selfcheck ex_final = Inr (n, 0)"
proof -
  obtain ms where sh: "ex_shrink = Inr (ex_st1, ms)" using ex_shrink_Inr by blast
  from selfcheck_never_mismatches[OF sh[unfolded ex_shrink_def] ex_kept_ok ex_off ex_argsort ex_reach]
  show ?thesis .
qed

section \<open>Slot accounting\<close>

lemma layer_slots:
  assumes ok: "layer_ok names orig st p" and cov: "covers p {}"
  shows "distinct (free_rows p)" and "set (free_rows p) \<inter> dkeys (row_gid p) = {}"
    and "set (free_rows p) \<union> snd ` set (gid_row p) = {keep_len p ..< phys p}"
    and "length (free_rows p) + length (gid_row p) = phys p - keep_len p"
proof -
  have "slots_ok p" using ok by (simp add: layer_ok_def)
  note sl = slots_okD[OF this]
  have own: "dkeys (row_gid p) = snd ` set (gid_row p)"
  proof (intro set_eqI iffI)
    fix r assume "r \<in> dkeys (row_gid p)"
    then obtain g where "dget (row_gid p) r = Some g" unfolding dkeys_dget by blast
    then have "dget (gid_row p) g = Some r" using sl(1) by blast
    from map_of_SomeD[OF this] show "r \<in> snd ` set (gid_row p)" by force
  next
    fix r assume "r \<in> snd ` set (gid_row p)"
    then obtain g where "(g, r) \<in> set (gid_row p)" by force
    then have "dget (gid_row p) g = Some r" using sl(6) by simp
    then have "dget (row_gid p) r = Some g" using sl(1) by blast
    then show "r \<in> dkeys (row_gid p)" by (rule dget_Some_key)
  qed
  show d: "distinct (free_rows p)" by (rule sl(3))
  show disj: "set (free_rows p) \<inter> dkeys (row_gid p) = {}"
    using sl(4) by (auto simp: dget_None_iff)
  have "snd ` set (gid_row p) \<subseteq> {keep_len p ..< phys p}"
  proof
    fix r assume "r \<in> snd ` set (gid_row p)"
    then obtain g where "(g, r) \<in> set (gid_row p)" by force
    then have "dget (gid_row p) g = Some r" using sl(6) by simp
    then show "r \<in> {keep_len p ..< phys p}" using sl(2) by auto
  qed
  moreover have "set (free_rows p) \<subseteq> {keep_len p ..< phys p}" using sl(4) by auto
  ultimately show u: "set (free_rows p) \<union> snd ` set (gid_row p) = {keep_len p ..< phys p}"
    using cov own by (auto simp: covers_def)
  have inj: "inj_on snd (set (gid_row p))"
  proof (rule inj_onI)
    fix x y assume x: "x \<in> set (gid_row p)" and y: "y \<in> set (gid_row p)" and e: "snd x = snd y"
    have "dget (gid_row p) (fst x) = Some (snd x)" "dget (gid_row p) (fst y) = Some (snd y)"
      using x y sl(6) by simp_all
    then have "fst x = fst y" using sl(1) e by (metis option.inject)
    then show "x = y" using e by (simp add: prod_eq_iff)
  qed
  have "card (snd ` set (gid_row p)) = length (gid_row p)"
    using card_image[OF inj] sl(6) distinct_card distinct_map by metis
  moreover have "card (set (free_rows p)) = length (free_rows p)" using d distinct_card by blast
  moreover have "card (set (free_rows p) \<union> snd ` set (gid_row p)) =
      card (set (free_rows p)) + card (snd ` set (gid_row p))"
    by (rule card_Un_disjoint) (use disj own in auto)
  ultimately show "length (free_rows p) + length (gid_row p) = phys p - keep_len p"
    unfolding u by simp
qed

text \<open>
  C34: no slot is lost or shared. In every state reached after a shrink with demotion off, the rows
  behind the kept ones are exactly the free rows and the rows of staged experts, no row is both,
  and the free rows and the staged experts together number the slots.
\<close>

theorem slots_conserved:
  assumes "maybe_shrink_after_process env junk parents (fresh_pool (Some km)) ms = Inr (st1, ms1)"
    and "kept_ok ms km" and "off_demotion env"
    and "\<And>xs. set (op_argsort_desc ops xs) \<subseteq> {..<length xs}"
    and "pool_reach env ops st1 st" and "dget (layers st) lid = Some p"
  shows "set (free_rows p) \<union> snd ` set (gid_row p) = {keep_len p ..< phys p} \<and>
     set (free_rows p) \<inter> dkeys (row_gid p) = {} \<and> distinct (free_rows p) \<and>
     length (free_rows p) + length (gid_row p) = phys p - keep_len p"
proof -
  obtain names orig where "state_ok names orig st" using reach_state_ok[OF assms(1-5)] by blast
  note P = state_okD[OF this assms(6)]
  from layer_slots[OF P(3,2)] show ?thesis by blast
qed

theorem slots_conserved_witness:
  "length (free_rows ex_pool) + length (gid_row ex_pool) = phys ex_pool - keep_len ex_pool \<and>
   phys ex_pool - keep_len ex_pool = 1"
proof
  obtain ms where sh: "ex_shrink = Inr (ex_st1, ms)" using ex_shrink_Inr by blast
  from slots_conserved[OF sh[unfolded ex_shrink_def] ex_kept_ok ex_off ex_argsort ex_reach ex_layer]
  show "length (free_rows ex_pool) + length (gid_row ex_pool) = phys ex_pool - keep_len ex_pool"
    by blast
  show "phys ex_pool - keep_len ex_pool = 1" by code_simp
qed

section \<open>Eviction\<close>

text \<open>
  when no row is free, the row picked for the next expert is an unprotected one and none of
  the unprotected rows was staged earlier; the expert that owned it is masked in every bias column
  and unmapped before the row is handed out.
\<close>

theorem pick_row_lru:
  assumes ok: "layer_ok names orig st p" and free: "free_rows p = []"
    and pk: "pick_row st p = (st', p', Some r)"
  shows "\<exists>t. (r, t) \<in> set (row_tick p) \<and> r \<notin> protected p \<and>
     (\<forall>(r', t') \<in> set (row_tick p). r' \<notin> protected p \<longrightarrow> t \<le> t') \<and>
     (\<forall>g. dget (row_gid p) r = Some g \<longrightarrow> dget (gid_row p') g = None \<and>
        (\<forall>dt c. dget (bias_cache st') (layer_id p, dt) = Some c \<longrightarrow> c ! g = finfo_min dt))"
proof -
  obtain t where fm: "first_min (lru_candidates p) = Some (r, t)"
    and ev: "evict_row st p r = (st', p')"
    using pk free by (auto simp: pick_row_def Let_def split: option.splits prod.splits)
  have rt: "(r, t) \<in> set (row_tick p)" "r \<notin> protected p"
    using first_min_in[OF fm] by (auto simp: lru_candidates_def)
  have le: "\<forall>(r', t') \<in> set (row_tick p). r' \<notin> protected p \<longrightarrow> t \<le> t'"
    using first_min_le[OF fm] by (force simp: lru_candidates_def)
  have own: "dget (gid_row p') g = None \<and>
        (\<forall>dt c. dget (bias_cache st') (layer_id p, dt) = Some c \<longrightarrow> c ! g = finfo_min dt)"
    if g: "dget (row_gid p) r = Some g" for g
  proof -
    note E = evict_row_ok[OF ok ev]
    have gp: "dget (gid_row p') g = None"
      using g ev by (auto simp: evict_row_def Let_def dict_simps)
    have "slots_ok p" "shape_ok p" using ok by (simp_all add: layer_ok_def)
    note sl = slots_okD[OF this(1)]
    have "dget (gid_row p) g = Some r" using sl(1) g by blast
    then have "g \<in> set (cold p)" using sl(2) by blast
    then have g': "g < num_E p'" "g \<notin> set (keep p')"
      using \<open>shape_ok p\<close> E(2) by (auto simp: shape_ok_def same_shape_def)
    then have "\<not> unmasked_in p' g" using gp by (simp add: unmasked_in_def dget_None_iff)
    then show ?thesis
      using gp E(1,2) g' unfolding layer_ok_def tables_ok_def same_shape_def by auto
  qed
  show ?thesis using rt le own by blast
qed

theorem pick_row_lru_witness:
  "\<exists>t. (2, t) \<in> set (row_tick ex_pool) \<and> (2::nat) \<notin> protected ex_pool \<and>
     (\<forall>(r', t') \<in> set (row_tick ex_pool). r' \<notin> protected ex_pool \<longrightarrow> t \<le> t')"
proof -
  obtain ms where sh: "ex_shrink = Inr (ex_st1, ms)" using ex_shrink_Inr by blast
  obtain names orig where "state_ok names orig ex_final"
    using reach_state_ok[OF sh[unfolded ex_shrink_def] ex_kept_ok ex_off ex_argsort ex_reach] by blast
  from state_okD(3)[OF this ex_layer] have ok: "layer_ok (names 0) (orig 0) ex_final ex_pool" .
  have free: "free_rows ex_pool = []" by code_simp
  have "snd (snd (pick_row ex_final ex_pool)) = Some 2" by code_simp
  then obtain st' p' where "pick_row ex_final ex_pool = (st', p', Some 2)"
    by (metis prod.collapse)
  from pick_row_lru[OF ok free this] show ?thesis by blast
qed

section \<open>The two remap lanes\<close>

definition pack_id :: "nat \<Rightarrow> 32 word \<Rightarrow> 32 word" where
  "pack_id i low = push_bit 16 (word_of_nat i) OR low"

lemma bit_small_nat:
  assumes "i < 2 ^ k" and "k \<le> n"
  shows "\<not> bit (word_of_nat i :: 'a::len word) n"
proof -
  have "\<not> bit i n"
    using assms by (metis bit_take_bit_iff not_less take_bit_nat_eq_self)
  then show ?thesis by (simp add: bit_simps)
qed

lemma low_bits:
  fixes low :: "32 word"
  assumes "low < 2 ^ 16" and "16 \<le> n"
  shows "\<not> bit low n"
proof -
  have "unat low < 2 ^ 16" using assms(1) by (simp add: word_less_nat_alt)
  then have "\<not> bit (word_of_nat (unat low) :: 32 word) n" by (rule bit_small_nat[OF _ assms(2)])
  then show ?thesis by simp
qed

lemma pack_id_fields:
  assumes i: "i < 2 ^ 15" and low: "low < 2 ^ 16"
  shows "signed_drop_bit 16 (pack_id i low) AND 0xFFFF = word_of_nat i"
    and "pack_id i low AND 0xFFFF = low" and "0 \<le> sint (pack_id i low)"
proof -
  have m: "(0xFFFF :: 32 word) = mask 16" by (simp add: mask_eq_exp_minus_1)
  have bi: "bit (word_of_nat i :: 32 word) n \<longleftrightarrow> n < 15 \<and> bit (word_of_nat i :: 32 word) n" for n
    using bit_small_nat[OF i, of n] by (cases "n < 15") auto
  have bl: "bit low n \<longleftrightarrow> n < 16 \<and> bit low n" for n
    using low_bits[OF low, of n] by (cases "n < 16") auto
  show "signed_drop_bit 16 (pack_id i low) AND 0xFFFF = word_of_nat i"
  proof (rule bit_word_eqI)
    fix n assume "n < LENGTH(32)"
    then show "bit (signed_drop_bit 16 (pack_id i low) AND 0xFFFF) n = bit (word_of_nat i :: 32 word) n"
      using bi[of n] bl[of "16 + n"] bl[of 31] bi[of 15]
      by (auto simp: m pack_id_def bit_simps)
  qed
  show "pack_id i low AND 0xFFFF = low"
  proof (rule bit_word_eqI)
    fix n assume "n < LENGTH(32)"
    then show "bit (pack_id i low AND 0xFFFF) n = bit low n"
      using bl[of n] by (auto simp: m pack_id_def bit_simps)
  qed
  have "\<not> bit (pack_id i low) 31"
    using bl[of 31] bi[of 15] by (auto simp: pack_id_def bit_simps)
  then show "0 \<le> sint (pack_id i low)" 
    using bit_last_iff[of "pack_id i low"] by simp
qed

text \<open>
  the packed remap lane agrees with the plain one. For an id inside the table, whose row fits
  in 15 bits, the packed word of the id becomes the packed word of the row, with the weight in the
  low half untouched; and a negative packed word, the padding, passes through.
\<close>

theorem packed_lane_agrees:
  assumes "i < length tbl" and "i < 2 ^ 15" and "low < 2 ^ 16"
  shows "remap_packed tbl (pack_id i low) = pack_id (nat (remap_id tbl (int i))) low \<and>
     (\<forall>p. sint p < 0 \<longrightarrow> remap_packed tbl p = p)"
proof
  have u: "unat (word_of_nat i :: 32 word) = i"
    using assms(2) by (simp add: unat_of_nat take_bit_nat_eq_self)
  have t: "min i (length tbl - 1) = i" using assms(1) by simp
  show "remap_packed tbl (pack_id i low) = pack_id (nat (remap_id tbl (int i))) low"
    using pack_id_fields[OF assms(2,3)] assms(1)
    by (simp add: remap_packed_def Let_def u t remap_id_in pack_id_def)
  show "\<forall>p. sint p < 0 \<longrightarrow> remap_packed tbl p = p"
    by (simp add: remap_packed_def Let_def)
qed

theorem packed_lane_agrees_witness:
  "remap_packed [0, 2, 1] (pack_id 1 7) = pack_id (nat (remap_id [0, 2, 1] (int 1))) 7 \<and>
   nat (remap_id [0, 2, 1] (int 1)) = 2"
  using packed_lane_agrees[of 1 "[0, 2, 1]" 7] by (simp add: remap_id_def)

end
