(* ===== verification/Cold_Gate.thy ===== *)
theory Cold_Gate
  imports Cold_Laws
begin

text \<open>
  The cold pool at its interfaces: which routers it touches (the identity gate and the bias
  columns), what the stash records as demand, and a place where the code departs from its intention
  (the demotion of an expert that was already demoted).
\<close>

section \<open>The identity gate\<close>

definition module_config :: "(nat list \<times> nat option option) list \<Rightarrow> moe_module \<Rightarrow> nat option" where
  "module_config parents m =
     (case (if m_own_topk m \<noteq> None then m_own_topk m else owner_topk parents (m_id m)) of
        None \<Rightarrow> None | Some c \<Rightarrow> c)"

lemma register_managed_cfg:
  "register_managed st own lid owner = Inr st' \<Longrightarrow>
     \<exists>c. (case (if own \<noteq> None then own else owner) of None \<Rightarrow> None | Some c \<Rightarrow> c) = Some c \<and>
         cfg_lids st' = dset (cfg_lids st) c lid"
  by (auto simp: register_managed_def Let_def split: option.splits if_splits)

lemma shrink_step_cfg:
  assumes run: "shrink_step sl junk parents km st m = Inr (st', m', True)"
  shows "\<exists>lid c. m_is_fused m \<and> m_layer_id m = Some lid \<and> module_config parents m = Some c \<and>
     cfg_lids st' = dset (cfg_lids st) c lid \<and> dget (layers st') lid \<noteq> None"
proof -
  obtain lid kp where lk: "m_layer_id m = Some lid" "dget km lid = Some kp"
    using run by (auto simp: shrink_step_def split: option.splits if_splits)
  obtain oid ref oid2 t2 where g: "m_is_fused m" "getattr m ''w13_weight'' = Some (oid, Rows ref)"
      "getattr m ''w13_weight_scale'' = Some (oid2, t2)"
    using shrink_step_TrueE[OF run lk] by blast
  obtain st1 ph st2 p where
      bt: "build_tables st lid kp (nat sl) (length ref) = Inr (st1, ph)"
    and rm: "register_managed st1 (m_own_topk m) lid (owner_topk parents (m_id m)) = Inr st2"
    and e: "st' = st2\<lparr>layers := dset (layers st2) lid p\<rparr>"
    using run g lk by (auto simp: shrink_step_def Let_def res_bind_Inr_iff split: if_splits)
  have "cfg_lids st1 = cfg_lids st" using bt by (auto simp: build_tables_def res_bind_Inr_iff)
  then show ?thesis using register_managed_cfg[OF rm] g lk
    by (auto simp: e module_config_def dict_simps)
qed

lemma shrink_step_layers_mono:
  "shrink_step sl junk parents km st m = Inr (st', m', b) \<Longrightarrow> dget (layers st) l \<noteq> None \<Longrightarrow>
     dget (layers st') l \<noteq> None"
proof (cases b)
  case False
  moreover assume "shrink_step sl junk parents km st m = Inr (st', m', b)" "dget (layers st) l \<noteq> None"
  ultimately show ?thesis using shrink_step_False by fastforce
next
  case True
  moreover assume a: "shrink_step sl junk parents km st m = Inr (st', m', b)" "dget (layers st) l \<noteq> None"
  ultimately have "shrink_step sl junk parents km st m = Inr (st', m', True)" by simp
  then obtain lid p where "layers st' = dset (layers st) lid p" by (rule shrink_step_frame)
  then show ?thesis using a(2) by (simp add: dict_simps)
qed

lemma shrink_modules_cfg:
  "shrink_modules sl junk parents km st ms = Inr (st', ms', n) \<Longrightarrow>
     (\<forall>l. dget (layers st) l \<noteq> None \<longrightarrow> dget (layers st') l \<noteq> None) \<and>
     (\<forall>c lid. dget (cfg_lids st') c = Some lid \<longrightarrow> dget (cfg_lids st) c = Some lid \<or>
       (\<exists>m\<in>set ms. m_is_fused m \<and> m_layer_id m = Some lid \<and> module_config parents m = Some c \<and>
          dget (layers st') lid \<noteq> None))"
proof (induction ms arbitrary: st ms' n)
  case Nil
  then show ?case by simp
next
  case (Cons m ms)
  obtain st1 m1 b ms1 n1 where
      s: "shrink_step sl junk parents km st m = Inr (st1, m1, b)"
    and r: "shrink_modules sl junk parents km st1 ms = Inr (st', ms1, n1)"
    using Cons.prems(1) by (auto simp: res_bind_Inr_iff)
  note IH = Cons.IH[OF r]
  have mono: "\<forall>l. dget (layers st) l \<noteq> None \<longrightarrow> dget (layers st') l \<noteq> None"
    using shrink_step_layers_mono[OF s] IH by blast
  have "\<exists>m\<in>set (m # ms). m_is_fused m \<and> m_layer_id m = Some lid \<and> module_config parents m = Some c \<and>
          dget (layers st') lid \<noteq> None"
    if c: "dget (cfg_lids st') c = Some lid" and new: "dget (cfg_lids st) c \<noteq> Some lid" for c lid
  proof (cases "dget (cfg_lids st1) c = Some lid")
    case False
    then show ?thesis using IH c by auto
  next
    case True
    have b: "b"
    proof (rule ccontr)
      assume "\<not> b"
      then have "shrink_step sl junk parents km st m = Inr (st1, m1, False)" using s by simp
      from shrink_step_False[OF this] show False using True new by simp
    qed
    then have s': "shrink_step sl junk parents km st m = Inr (st1, m1, True)" using s by simp
    obtain l c' where C: "m_is_fused m" "m_layer_id m = Some l" "module_config parents m = Some c'"
        "cfg_lids st1 = dset (cfg_lids st) c' l" "dget (layers st1) l \<noteq> None"
      using shrink_step_cfg[OF s'] by blast
    have "c = c' \<and> lid = l" using True new C(4) by (simp add: dict_simps split: if_splits)
    then show ?thesis using C IH by auto
  qed
  then show ?case using mono by blast
qed

text \<open>
  the pool touches only the routers of the modules it shrank. In every reached state a router
  configuration is managed only when it is the configuration of a fused module of the model (its
  own, or that of its parent block) whose layer has a pool, and it is managed under that module's
  layer; the configuration of a draft model that reuses the same layer numbers is never managed.
\<close>

theorem managed_only_if_shrunk:
  assumes shrink: "maybe_shrink_after_process env junk parents (fresh_pool (Some km)) ms = Inr (st1, ms1)"
    and ko: "kept_ok ms km" and off: "off_demotion env"
    and args: "\<And>xs. set (op_argsort_desc ops xs) \<subseteq> {..<length xs}"
    and reach: "pool_reach env ops st1 st"
    and man: "is_managed_config st cfg = Some lid"
  shows "\<exists>m\<in>set ms. m_is_fused m \<and> m_layer_id m = Some lid \<and> module_config parents m = cfg \<and>
     cfg \<noteq> None \<and> dget (layers st1) lid \<noteq> None"
proof -
  have c: "cfg_lids st = cfg_lids st1" using reach_state_ok[OF shrink ko off args reach] by blast
  then obtain k where k: "cfg = Some k" "dget (cfg_lids st1) k = Some lid"
    using man by (auto simp: is_managed_config_def split: if_splits option.splits)
  have "offload_requested env"
  proof (rule ccontr)
    assume "\<not> offload_requested env"
    then have "st1 = fresh_pool (Some km)" using shrink by (simp add: maybe_shrink_after_process_def)
    then show False using k(2) by simp
  qed
  then obtain st2 ms2 n where
      r: "shrink_modules (cold_slots env) junk parents km (fresh_pool (Some km)) ms = Inr (st2, ms2, n)"
    and e: "layers st1 = layers st2" "cfg_lids st1 = cfg_lids st2"
    using shrink by (auto simp: maybe_shrink_after_process_def res_bind_Inr_iff split: if_splits)
  show ?thesis using shrink_modules_cfg[OF r] k e by auto
qed

theorem managed_only_if_shrunk_witness:
  "is_managed_config ex_final (Some 7) = Some 0 \<and> is_managed_config ex_final (Some 8) = None \<and>
   (\<exists>m\<in>set [ex_module]. m_is_fused m \<and> m_layer_id m = Some 0 \<and> module_config [] m = Some 7 \<and>
      Some 7 \<noteq> (None :: nat option) \<and> dget (layers ex_st1) 0 \<noteq> None)"
proof (intro conjI)
  show m: "is_managed_config ex_final (Some 7) = Some 0" by code_simp
  show "is_managed_config ex_final (Some 8) = None" by code_simp
  obtain ms where sh: "ex_shrink = Inr (ex_st1, ms)" using ex_shrink_Inr by blast
  from managed_only_if_shrunk[OF sh[unfolded ex_shrink_def] ex_kept_ok ex_off ex_argsort ex_reach m]
  show "\<exists>m\<in>set [ex_module]. m_is_fused m \<and> m_layer_id m = Some 0 \<and> module_config [] m = Some 7 \<and>
      Some 7 \<noteq> (None :: nat option) \<and> dget (layers ex_st1) 0 \<noteq> None" .
qed

section \<open>The router mask\<close>

lemma nth_add_col: "j < length logits \<Longrightarrow> length (logits ! j) = length c \<Longrightarrow> i < length c \<Longrightarrow>
    add_col logits c ! j ! i = logits ! j ! i + c ! i"
  by (simp add: add_col_def)

lemma apply_keep_mask_ok:
  assumes ok: "state_ok names orig st" and s: "shrunk st"
    and layer: "dget (layers st) lid = Some p" and dt: "dt \<noteq> F64"
    and kpm: "keep_map st = Some km" "dget km lid = Some (keep p)"
    and w: "\<forall>row\<in>set logits. length row = num_E p"
  shows "\<exists>out. apply_keep_mask capturing st (Some lid) (num_E p) dt logits = Inr (st, out, Some logits) \<and>
     length out = length logits \<and>
     (\<forall>j<length logits. length (out ! j) = num_E p \<and> (\<forall>g<num_E p. out ! j ! g =
        (if g \<in> set (keep p) \<or> g \<in> dkeys (gid_row p) then logits ! j ! g
         else logits ! j ! g + finfo_min dt)))"
proof -
  note P = state_okD[OF ok layer]
  obtain c where c: "dget (bias_cache st) (lid, dt) = Some c"
    using P(4)[OF dt] unfolding set_map dkeys_dget by blast
  have "shape_ok p" "tables_ok st p" using P(3) by (simp_all add: layer_ok_def)
  then have B: "length c = num_E p"
      "\<And>g. g < num_E p \<Longrightarrow> c ! g = (if unmasked_in p g then 0 else finfo_min dt)"
    and ne: "keep p \<noteq> []"
    using c P(1) tables_ok_biasD[of st p dt c] by (auto simp: shape_ok_def)
  have col: "bias_col_or_none capturing st lid (num_E p) dt = Inr (st, Some c)"
    using kpm ne c by (simp add: bias_col_or_none_def)
  have one: "(if length c = 1 then replicate (num_E p) (c ! 0) else c) = c"
    using B(1) by (cases c) auto
  have "apply_keep_mask capturing st (Some lid) (num_E p) dt logits = Inr (st, add_col logits c, Some logits)"
    unfolding apply_keep_mask_def using s B(1) one by (simp add: col)
  moreover have "add_col logits c ! j ! g =
        (if g \<in> set (keep p) \<or> g \<in> dkeys (gid_row p) then logits ! j ! g
         else logits ! j ! g + finfo_min dt)" if "j < length logits" "g < num_E p" for j g
    using that w B by (simp add: nth_add_col unmasked_in_def)
  moreover have "length (add_col logits c ! j) = num_E p" if "j < length logits" for j
    using that w B(1) by (simp add: add_col_def)
  ultimately show ?thesis by (intro exI[of _ "add_col logits c"]) (simp add: add_col_def)
qed

text \<open>
  the router mask hides exactly the experts that are not resident. In every reached state,
  for a layer of the pool and logits of one of the three routed types whose rows are as wide as
  the layer has experts, \<open>apply_keep_mask\<close> succeeds without touching the state, returns the
  logits it was given as the context for the stash, leaves the logit of every kept and every staged
  expert as it is, and adds the least finite value of the type to the logit of every other.
\<close>

theorem mask_hides_nonresident:
  assumes shrink: "maybe_shrink_after_process env junk parents (fresh_pool (Some km)) ms = Inr (st1, ms1)"
    and sh: "shrunk st1" and ko: "kept_ok ms km" and off: "off_demotion env"
    and args: "\<And>xs. set (op_argsort_desc ops xs) \<subseteq> {..<length xs}"
    and reach: "pool_reach env ops st1 st"
    and layer: "dget (layers st) lid = Some p" and dt: "dt \<noteq> F64"
    and kpm: "keep_map st = Some km" "dget km lid = Some (keep p)"
    and w: "\<forall>row\<in>set logits. length row = num_E p"
  shows "\<exists>out. apply_keep_mask capturing st (Some lid) (num_E p) dt logits = Inr (st, out, Some logits) \<and>
     length out = length logits \<and>
     (\<forall>j<length logits. \<forall>g<num_E p. out ! j ! g =
        (if g \<in> set (keep p) \<or> g \<in> dkeys (gid_row p) then logits ! j ! g
         else logits ! j ! g + finfo_min dt))"
proof -
  obtain names orig where ok: "state_ok names orig st" and s: "shrunk st"
    using reach_state_ok[OF shrink ko off args reach] sh by blast
  show ?thesis using apply_keep_mask_ok[OF ok s layer dt kpm w] by blast
qed

theorem mask_hides_nonresident_witness:
  "\<exists>out. apply_keep_mask False ex_st1 (Some 0) 3 BF16 [[1, 5, 2]] = Inr (ex_st1, out, Some [[1, 5, 2]]) \<and>
     out ! 0 ! 0 = 1 \<and> out ! 0 ! 1 = 5 + finfo_min BF16"
proof -
  obtain ms where sh: "ex_shrink = Inr (ex_st1, ms)" using ex_shrink_Inr by blast
  have "dget (layers ex_st1) 0 \<noteq> None" by code_simp
  then obtain p where p: "dget (layers ex_st1) 0 = Some p" by blast
  have f: "map_option num_E (dget (layers ex_st1) 0) = Some 3"
    "map_option keep (dget (layers ex_st1) 0) = Some [0, 2]"
    "map_option gid_row (dget (layers ex_st1) 0) = Some []"
    "keep_map ex_st1 = Some ex_km" by code_simp+
  have k: "dget ex_km 0 = Some (keep p)" using f(2) p by (simp add: ex_km_def)
  from mask_hides_nonresident[OF sh[unfolded ex_shrink_def] ex_shrunk ex_kept_ok ex_off ex_argsort
      reach_refl p, of BF16 "[[1, 5, 2]]" False] f k p
  show ?thesis by auto
qed

section \<open>The stash\<close>

definition true_demand :: "(rat \<Rightarrow> rat) \<Rightarrow> (int list \<times> rat list) set \<Rightarrow> nat \<Rightarrow> int \<Rightarrow> rat \<Rightarrow> bool" where
  "true_demand sg batch w i s \<longleftrightarrow> (if i = -1 then s = -1
     else 0 \<le> i \<and> i < int w \<and> (\<exists>(ids, lg)\<in>batch. i \<in> set ids \<and> s = sg (lg ! nat i)))"

lemma list_all2_stride:
  "list_all2 R xs ys \<Longrightarrow> list_all2 R (stride_rows s xs) (stride_rows s ys)"
  by (simp add: stride_rows_def list.rel_map list_all2_lengthD list_all2_same list_all2_nthD)

lemma list_all2_concat2: "list_all2 (list_all2 R) xss yss \<Longrightarrow> list_all2 R (concat xss) (concat yss)"
  by (induction xss yss rule: list_all2_induct) (auto intro: list_all2_appendI)

lemma list_all2_take: "list_all2 R xs ys \<Longrightarrow> list_all2 R (take n xs) (take n ys)"
  by (simp add: list_all2_conv_all_nth)

lemma demand_row_true:
  assumes "(row, lg) \<in> batch"
  shows "list_all2 (true_demand sg batch w) (demand_ids w row) (demand_scores sg w row lg)"
  using assms
  by (auto simp: demand_ids_def demand_scores_def list_all2_conv_all_nth true_demand_def
      intro!: bexI[of _ "(row, lg)"])

text \<open>
  the stash records demand only. A successful stash outside a capture leaves for the layer two
  aligned buffers in which every entry is either the pad (\<open>-1\<close>, \<open>-1\<close>) or an id below the width of
  the logits that some row of the batch selected, with the sigmoid of that row's own unmasked logit
  of the id; ids of padding and of fused shared experts never appear. Everything else of the state
  but the dirty flag, which is set, is unchanged.
\<close>

theorem stash_is_true_demand:
  assumes run: "stash_demand False ops st (Some lay) pre_mask ids k = Inr st'" and dyn: "dynamic st"
    and same: "\<forall>b. dget (stash st) lay = Some b \<longrightarrow> length (sb_ids b) = STASH_ROWS * k"
  shows "\<exists>b. dget (stash st') lay = Some b \<and> length (sb_ids b) = STASH_ROWS * k \<and>
     list_all2 (true_demand (op_sigmoid ops) (set (zip ids pre_mask)) (length (pre_mask ! 0)))
       (sb_ids b) (sb_scores b) \<and>
     dirty st' \<and> st'\<lparr>stash := stash st, dirty := dirty st\<rparr> = st"
proof -
  have len: "length pre_mask = length ids" using run dyn by (auto simp: stash_demand_def split: if_splits)
  let ?w = "length (pre_mask ! 0)" and ?B = "set (zip ids pre_mask)"
  let ?R = "true_demand (op_sigmoid ops) ?B ?w"
  let ?s = "(length ids + STASH_ROWS - 1) div STASH_ROWS"
  define idx where "idx = (if STASH_ROWS < length ids then stride_rows ?s (map (demand_ids ?w) ids)
      else map (demand_ids ?w) ids)"
  define sc where "sc = (if STASH_ROWS < length ids
      then stride_rows ?s (map2 (demand_scores (op_sigmoid ops) ?w) ids pre_mask)
      else map2 (demand_scores (op_sigmoid ops) ?w) ids pre_mask)"
  define m where "m = min (length (concat idx)) (STASH_ROWS * k)"
  define n where "n = length (sb_ids (case dget (stash st) lay of None \<Rightarrow> new_buf (STASH_ROWS * k) | Some b \<Rightarrow> b))"
  have n: "n = STASH_ROWS * k" using same by (auto simp: n_def new_buf_def split: option.splits)
  have "list_all2 (list_all2 ?R) (map (demand_ids ?w) ids)
      (map2 (demand_scores (op_sigmoid ops) ?w) ids pre_mask)"
    using len demand_row_true[of _ _ ?B "op_sigmoid ops" ?w]
    by (auto simp: list_all2_conv_all_nth set_zip intro!: exI)
  then have "list_all2 (list_all2 ?R) idx sc"
    unfolding idx_def sc_def by (cases "STASH_ROWS < length ids") (simp_all only: if_True if_False list_all2_stride)
  then have al: "list_all2 ?R (take m (concat idx)) (take m (concat sc))"
    by (rule list_all2_take[OF list_all2_concat2])
  have pad: "list_all2 ?R (replicate (n - m) (-1)) (replicate (n - m) (-1))"
    by (simp add: list_all2_conv_all_nth true_demand_def)
  define lg where "lg = map snd (filter (\<lambda>(row, l). \<exists>i\<in>set row. 0 \<le> i) (zip idx
      (if STASH_ROWS < length ids then stride_rows ?s pre_mask else pre_mask)))"
  have ne: "\<not> (ids = [] \<or> length pre_mask \<noteq> length ids)" "\<not> (\<not> dynamic st \<or> False)"
    using run dyn by (auto simp: stash_demand_def split: if_splits)
  have step: "stash_demand False ops st (Some lay) pre_mask ids k =
      (if n < m then Inl RuntimeError
       else Inr (mark_dirty (st\<lparr>stash := dset (stash st) lay
        \<lparr>sb_ids = take m (concat idx) @ replicate (n - m) (-1),
         sb_scores = take m (concat sc) @ replicate (n - m) (-1),
         sb_logits = Some lg, sb_logits_n = length lg\<rparr>\<rparr>)))"
    unfolding stash_demand_def idx_def sc_def m_def n_def lg_def
    by (simp only: option.case Let_def ne if_False)
  have st': "st' = mark_dirty (st\<lparr>stash := dset (stash st) lay
        \<lparr>sb_ids = take m (concat idx) @ replicate (n - m) (-1),
         sb_scores = take m (concat sc) @ replicate (n - m) (-1),
         sb_logits = Some lg, sb_logits_n = length lg\<rparr>\<rparr>)"
    using run unfolding step
    by (cases "n < m") simp_all
  have "m \<le> length (concat idx)" "m \<le> n" by (auto simp: m_def n)
  then show ?thesis using list_all2_appendI[OF al pad]
    by (auto simp: st' mark_dirty_def dict_simps n)
qed

theorem stash_is_true_demand_witness:
  "\<exists>st' b. stash_demand False ex_ops ex_st1 (Some 0) [[1, 5, 1 / 2]] [[0]] 1 = Inr st' \<and>
     dget (stash st') 0 = Some b \<and>
     list_all2 (true_demand (op_sigmoid ex_ops) (set (zip [[0]] [[1, 5, 1 / 2]])) 3) (sb_ids b) (sb_scores b)"
proof -
  have "is_ok ex_stash" by code_simp
  from ok_or_eq[OF this] obtain st' where st': "ex_stash = Inr st'" by metis
  have "dynamic ex_st1" "stash ex_st1 = []" by code_simp+
  then obtain b where "dget (stash st') 0 = Some b"
     "list_all2 (true_demand (op_sigmoid ex_ops) (set (zip [[0]] [[1, 5, 1 / 2]])) 3) (sb_ids b) (sb_scores b)"
    using stash_is_true_demand[OF st'[unfolded ex_stash_def]] by (auto simp: numeral_3_eq_3)
  with st' show ?thesis by (auto simp: ex_stash_def)
qed

section \<open>Demotion\<close>

lemma device_rows_mem:
  assumes "rows_at m n = Some ts" and "row < length ts" and "n \<in> set ALL_PARAMS"
  shows "(n, ts ! row) \<in> set (device_rows m row)"
  using assms by (auto simp: device_rows_def elim!: rows_at_SomeE intro!: bexI[of _ n])

lemma device_rows_val:
  assumes "(n, v) \<in> set (device_rows m row)"
  shows "\<exists>ts. rows_at m n = Some ts \<and> row < length ts \<and> v = ts ! row"
proof -
  obtain oid ts where "getattr m n = Some (oid, Rows ts)" "row < length ts" "v = ts ! row"
    using assms by (auto simp: device_rows_def split: option.splits tensor.splits if_splits
        dest: sym[where t = "getattr m n"])
  then show ?thesis by (auto simp: rows_at_def)
qed

text \<open>
  What \<open>demote_one\<close> leaves for expert \<open>g\<close> when the table sends it to the kept row \<open>r\<close>: a host copy
  of row \<open>r\<close>, whoever it belongs to, and row \<open>r\<close> among the rows that can be overwritten, with the
  oldest tick.
\<close>

lemma demote_one_host:
  assumes t: "dget (remap_cache st) (layer_id p) = Some t" and r: "t ! g < keep_len p"
    and h: "row_holds (module_of p) names orig (t ! g) x" and sub: "names \<subseteq> set ALL_PARAMS"
    and run: "demote_one (st, p) g = (st', p')"
  shows "\<exists>d. dget (host p') g = Some d \<and> (\<forall>n\<in>names. (n, orig n x) \<in> set d) \<and>
     (\<forall>n v. n \<in> names \<longrightarrow> (n, v) \<in> set d \<longrightarrow> v = orig n x)"
    and "dget (row_tick p') (t ! g) = Some demote_tick"
    and "st' = bump (\<lambda>s. s\<lparr>demoted := Suc (demoted s)\<rparr>) (mask_gid st (layer_id p) g)"
    and "module_of p' = module_of p" and "keep_len p' = keep_len p" and "layer_id p' = layer_id p"
proof -
  let ?d = "device_rows (module_of p) (t ! g)"
  have e: "st' = bump (\<lambda>s. s\<lparr>demoted := Suc (demoted s)\<rparr>) (mask_gid st (layer_id p) g)"
    "p' = p\<lparr>host := dset (host p) g ?d, row_gid := dpop (row_gid p) (t ! g),
                    row_tick := dset (row_tick p) (t ! g) demote_tick\<rparr>"
    using run t r by (simp_all add: demote_one_def Let_def)
  have "(n, orig n x) \<in> set ?d" if n: "n \<in> names" for n
  proof -
    obtain ts where ts: "rows_at (module_of p) n = Some ts" "t ! g < length ts" "ts ! (t ! g) = orig n x"
      using h n by (auto simp: row_holds_def)
    have "n \<in> set ALL_PARAMS" using sub n by blast
    from device_rows_mem[OF ts(1,2) this] show ?thesis unfolding ts(3) .
  qed
  moreover have "v = orig n x" if n: "n \<in> names" and v: "(n, v) \<in> set ?d" for n v
    using device_rows_val[OF v] h n by (auto simp: row_holds_def)
  ultimately have H: "(\<forall>n\<in>names. (n, orig n x) \<in> set ?d) \<and>
     (\<forall>n v. n \<in> names \<longrightarrow> (n, v) \<in> set ?d \<longrightarrow> v = orig n x)" by blast
  have hd: "dget (host p') g = Some ?d" by (simp add: e(2) dict_simps)
  show "\<exists>d. dget (host p') g = Some d \<and> (\<forall>n\<in>names. (n, orig n x) \<in> set d) \<and>
     (\<forall>n v. n \<in> names \<longrightarrow> (n, v) \<in> set d \<longrightarrow> v = orig n x)"
    using hd H by (intro exI[of _ ?d] conjI)  (rule hd, (use H in blast)+)
  show "dget (row_tick p') (t ! g) = Some demote_tick" by (simp add: e(2) dict_simps)
  show "st' = bump (\<lambda>s. s\<lparr>demoted := Suc (demoted s)\<rparr>) (mask_gid st (layer_id p) g)" by (rule e(1))
  show "module_of p' = module_of p" "keep_len p' = keep_len p" "layer_id p' = layer_id p"
    by (simp_all add: e(2))
qed

lemma dset_append: "k \<notin> dkeys d \<Longrightarrow> dset d k v = d @ [(k, v)]"
  by (induction d) auto

lemma dset_second: "k \<notin> dkeys d \<Longrightarrow> dset (d @ [(k, v), y]) k w = d @ [(k, w), y]"
  by (induction d) auto

lemma first_min_tie: "\<forall>x\<in>set xs. t < snd x \<Longrightarrow> first_min (xs @ [(r, t), (z, t)]) = Some (r, t)"
  by (induction xs) auto

lemma first_min_last: "\<forall>x\<in>set xs. t < snd x \<Longrightarrow> first_min (xs @ [(z, t)]) = Some (z, t)"
  by (induction xs) auto

text \<open>Staging into a victim row that the bookkeeping takes for nobody's.\<close>

lemma stage_into_victim:
  assumes full: "free_rows p = []" and vic: "first_min (lru_candidates p) = Some (r, t0)"
    and own: "dget (row_gid p) r = None" and new: "g \<notin> dkeys (gid_row p)"
    and mok: "module_ok (module_of p) names (phys p)" and r: "r < phys p"
    and d: "dget (host p) g = Some d" "d \<noteq> []" "distinct (map fst d)" "fst ` set d = names"
      "\<forall>n v. (n, v) \<in> set d \<longrightarrow> v = orig n g"
  shows "\<exists>m' nb. stage_gids st p (g # gs) =
      stage_gids (bump (\<lambda>s. s\<lparr>staged := Suc (staged s)\<rparr>)
          (unmask_gid (st\<lparr>stats := (stats st)\<lparr>h2d_bytes := h2d_bytes (stats st) + nb\<rparr>\<rparr>) (layer_id p) g r))
        (p\<lparr>need_counts := map_option (\<lambda>nc. nc[g := 0]) (need_counts p), module_of := m',
           gid_row := dset (gid_row p) g r, row_gid := dset (row_gid p) r g,
           row_tick := dset (row_tick p) r (tick p)\<rparr>) gs \<and>
      module_ok m' names (phys p) \<and> row_holds m' names orig r g"
proof -
  let ?p = "p\<lparr>need_counts := map_option (\<lambda>nc. nc[g := 0]) (need_counts p)\<rparr>"
  obtain m' nb where cp: "copy_rows (module_of p) d r 0 = (m', Some nb)"
    using copy_rows_success[OF mok _ r] d(4) by blast
  have pk: "pick_row st ?p = (st, ?p, Some r)"
    using full vic own by (simp add: pick_row_def lru_candidates_def evict_row_def)
  obtain x xs where dx: "d = x # xs" using d(2) by (cases d) auto
  have rf: "row_from_host st ?p g r =
     (unmask_gid (st\<lparr>stats := (stats st)\<lparr>h2d_bytes := h2d_bytes (stats st) + nb\<rparr>\<rparr>) (layer_id p) g r,
      ?p\<lparr>module_of := m', gid_row := dset (gid_row p) g r, row_gid := dset (row_gid p) r g,
         row_tick := dset (row_tick p) r (tick p)\<rparr>, True)"
    using d(1) cp by (simp add: row_from_host_def dx)
  have "\<exists>ts. rows_at m' n = Some ts \<and> r < length ts \<and> ts ! r = orig n g" if n: "n \<in> names" for n
  proof -
    obtain v where nv: "(n, v) \<in> set d" using n d(4) by force
    show ?thesis using copy_rows_written[OF cp mok _ d(3) nv] d(4,5) nv by auto
  qed
  then have "row_holds m' names orig r g" by (simp add: row_holds_def)
  moreover have "stage_gids st p (g # gs) =
      stage_gids (bump (\<lambda>s. s\<lparr>staged := Suc (staged s)\<rparr>)
          (unmask_gid (st\<lparr>stats := (stats st)\<lparr>h2d_bytes := h2d_bytes (stats st) + nb\<rparr>\<rparr>) (layer_id p) g r))
        (?p\<lparr>module_of := m', gid_row := dset (gid_row p) g r, row_gid := dset (row_gid p) r g,
           row_tick := dset (row_tick p) r (tick p)\<rparr>) gs"
    using new pk rf by (simp add: Let_def)
  ultimately show ?thesis using copy_rows_module_ok[OF cp mok] by blast
qed

lemma demote_one_eq:
  assumes "dget (remap_cache st) (layer_id p) = Some t" and "t ! g < keep_len p"
  shows "demote_one (st, p) g =
     (bump (\<lambda>s. s\<lparr>demoted := Suc (demoted s)\<rparr>) (mask_gid st (layer_id p) g),
      p\<lparr>host := dset (host p) g (device_rows (module_of p) (t ! g)), row_gid := dpop (row_gid p) (t ! g),
        row_tick := dset (row_tick p) (t ! g) demote_tick\<rparr>)"
  using assms by (simp add: demote_one_def Let_def)

text \<open>
  C38: demoting a kept expert a second time destroys it and another one. The first demotion saves
  the expert's own row to the host pool. The check for an expert that was already demoted looks for
  a table entry behind the kept rows, but masking has set the entry to row 0; so a second demotion
  replaces the host copy by the weights of the kept expert of row 0, and gives row 0 the oldest tick.
  When no row is free, no staged row has the oldest tick, no kept row is protected and the keep list
  has no repetition, the next cold expert that is staged takes the demoted row and the one after it is
  copied over row 0, whose own expert is not masked: its bias stays zero and its table entry stays
  row 0, which now holds the weights of the cold expert.
\<close>

theorem second_demotion_corrupts:
  assumes ok: "layer_ok names orig st p" and sub: "names \<subseteq> set ALL_PARAMS"
    and g: "g \<in> set (keep p)" "g \<noteq> keep p ! 0" and dist: "distinct (keep p)"
    and one: "demote_one (st, p) g = (st1, p1)" and two: "demote_one (st1, p1) g = (st2, p2)"
    and full: "free_rows p = []" and prot: "\<forall>r<keep_len p. r \<notin> protected p"
    and ticks: "\<forall>(r, t)\<in>set (row_tick p). demote_tick < t" "demote_tick < tick p"
    and ab: "a \<in> set (cold p)" "b \<in> set (cold p)" "a \<noteq> b" "a \<notin> dkeys (gid_row p)" "b \<notin> dkeys (gid_row p)"
    and stage: "stage_gids st2 p2 [a, b] = (st3, p3)"
  shows "(\<exists>d. dget (host p1) g = Some d \<and> (\<forall>n\<in>names. (n, orig n g) \<in> set d)) \<and>
     (\<exists>d. dget (host p2) g = Some d \<and> (\<forall>n\<in>names. (n, orig n (keep p ! 0)) \<in> set d) \<and>
        (\<forall>n v. n \<in> names \<longrightarrow> (n, v) \<in> set d \<longrightarrow> v = orig n (keep p ! 0))) \<and>
     row_holds (module_of p3) names orig 0 b \<and>
     (\<exists>t. dget (remap_cache st3) (layer_id p) = Some t \<and> t ! (keep p ! 0) = 0) \<and>
     (\<forall>dt c. dget (bias_cache st3) (layer_id p, dt) = Some c \<longrightarrow> c ! (keep p ! 0) = 0)"
proof -
  have parts: "shape_ok p" "slots_ok p" "tables_ok st p" "content_ok names orig p" using ok by (auto simp: layer_ok_def)
  note sl = slots_okD[OF parts(2)]
  let ?k0 = "keep p ! 0"
  obtain t where t: "dget (remap_cache st) (layer_id p) = Some t" "length t = num_E p"
      "\<forall>g\<in>set (keep p). t ! g < keep_len p \<and> keep p ! (t ! g) = g"
    using parts(3) by (auto simp: tables_ok_def)
  have sh: "0 < keep_len p" "keep_len p = length (keep p)" "keep_len p \<le> phys p"
      "\<forall>h\<in>set (cold p). h < num_E p \<and> h \<notin> set (keep p)" "\<forall>h\<in>set (keep p). h < num_E p"
    using parts(1) by (auto simp: shape_ok_def)
  have k0: "?k0 \<in> set (keep p)" using sh(1,2) by simp
  have r: "t ! g < keep_len p" "keep p ! (t ! g) = g" using t(3) g by auto
  have rn: "t ! g \<noteq> 0" using r(2) g(2) by metis
  have t0: "t ! ?k0 = 0"
    using t(3) k0 nth_eq_iff_index_eq[OF dist, of "t ! ?k0" 0] sh(1,2) by auto
  have h: "row_holds (module_of p) names orig (t ! g) g"
    using parts(4) r unfolding content_ok_def by metis
  note D1 = demote_one_host[OF t(1) r(1) h sub one]
  have gE: "g < length t" using sh(5) g(1) t(2) by auto
  have t1: "dget (remap_cache st1) (layer_id p1) = Some (t[g := 0])"
    using t(1) by (simp add: D1(3,6) bump_def mask_remap)
  have r1: "(t[g := 0]) ! g < keep_len p1" using gE D1(5) sh(1) by simp
  have h1: "row_holds (module_of p1) names orig ((t[g := 0]) ! g) ?k0"
    using parts(4) sh(1) gE by (simp add: D1(4) content_ok_def)
  note D2 = demote_one_host[OF t1 r1 h1 sub two]
  note E1 = demote_one_eq[OF t(1) r(1), unfolded one] and E2 = demote_one_eq[OF t1 r1, unfolded two]
  have p1: "p1 = p\<lparr>host := dset (host p) g (device_rows (module_of p) (t ! g)),
      row_gid := dpop (row_gid p) (t ! g), row_tick := dset (row_tick p) (t ! g) demote_tick\<rparr>"
    using E1 by simp
  define H where "H = dset (host p1) g (device_rows (module_of p) 0)"
  have keys: "t ! g \<notin> dkeys (row_tick p)" "0 \<notin> dkeys (row_tick p)" using sl(5) r(1) sh(1) by fastforce+
  have p2: "p2 = p\<lparr>host := H, row_gid := dpop (dpop (row_gid p) (t ! g)) 0,
      row_tick := row_tick p @ [(t ! g, demote_tick), (0, demote_tick)]\<rparr>"
    using E2 gE keys rn by (simp add: p1 H_def dset_append)
  have keepnot: "a \<notin> set (keep p)" "b \<notin> set (keep p)" using sh(4) ab by auto
  have HH: "dget H c = dget (host p) c" if "c \<notin> set (keep p)" for c
    using that g(1) by (auto simp: H_def p1 dict_simps)
  have host: "\<exists>d. dget H c = Some d \<and> d \<noteq> [] \<and> distinct (map fst d) \<and> fst ` set d = names \<and>
      (\<forall>n v. (n, v) \<in> set d \<longrightarrow> v = orig n c)" if "c \<in> set (cold p)" for c
    using parts(4) that sh(4) HH by (auto simp: content_ok_def host_ok_def)
  have mok: "module_ok (module_of p) names (phys p)" using parts(4) by (simp add: content_ok_def)
  let ?L = "filter (\<lambda>(r, t). r \<notin> protected p) (row_tick p)"
  have tk: "\<forall>x\<in>set ?L. demote_tick < snd x" using ticks(1) by auto
  have lru2: "lru_candidates p2 = ?L @ [(t ! g, demote_tick), (0, demote_tick)]"
    using prot r(1) sh(1) by (simp add: p2 lru_candidates_def)
  obtain da where da: "dget (host p2) a = Some da" "da \<noteq> []" "distinct (map fst da)" "fst ` set da = names"
      "\<forall>n v. (n, v) \<in> set da \<longrightarrow> v = orig n a"
    using host[OF ab(1)] by (auto simp: p2)
  have A: "free_rows p2 = []" "first_min (lru_candidates p2) = Some (t ! g, demote_tick)"
      "dget (row_gid p2) (t ! g) = None" "a \<notin> dkeys (gid_row p2)"
      "module_ok (module_of p2) names (phys p2)" "t ! g < phys p2"
    using full lru2 first_min_tie[OF tk] mok r(1) sh(3) ab(4) by (simp_all add: p2 dict_simps)
  obtain m1 n1 where S1: "stage_gids st2 p2 [a, b] =
      stage_gids (bump (\<lambda>s. s\<lparr>staged := Suc (staged s)\<rparr>)
          (unmask_gid (st2\<lparr>stats := (stats st2)\<lparr>h2d_bytes := h2d_bytes (stats st2) + n1\<rparr>\<rparr>) (layer_id p2) a (t ! g)))
        (p2\<lparr>need_counts := map_option (\<lambda>nc. nc[a := 0]) (need_counts p2), module_of := m1,
           gid_row := dset (gid_row p2) a (t ! g), row_gid := dset (row_gid p2) (t ! g) a,
           row_tick := dset (row_tick p2) (t ! g) (tick p2)\<rparr>) [b]"
      "module_ok m1 names (phys p2)"
    using stage_into_victim[where orig = orig, OF A da] by blast
  define q where "q = p2\<lparr>need_counts := map_option (\<lambda>nc. nc[a := 0]) (need_counts p2), module_of := m1,
           gid_row := dset (gid_row p2) a (t ! g), row_gid := dset (row_gid p2) (t ! g) a,
           row_tick := dset (row_tick p2) (t ! g) (tick p2)\<rparr>"
  define sq where "sq = bump (\<lambda>s. s\<lparr>staged := Suc (staged s)\<rparr>)
          (unmask_gid (st2\<lparr>stats := (stats st2)\<lparr>h2d_bytes := h2d_bytes (stats st2) + n1\<rparr>\<rparr>) (layer_id p2) a (t ! g))"
  have qt: "row_tick q = row_tick p @ [(t ! g, tick p), (0, demote_tick)]"
    using keys by (simp add: q_def p2 dset_second)
  have "lru_candidates q = (?L @ [(t ! g, tick p)]) @ [(0, demote_tick)]"
    unfolding lru_candidates_def qt using prot r(1) sh(1) by (simp add: q_def p2)
  then have fq: "first_min (lru_candidates q) = Some (0, demote_tick)"
    using tk ticks(2) by (simp only: first_min_last) (rule first_min_last, auto)
  obtain db where db: "dget (host q) b = Some db" "db \<noteq> []" "distinct (map fst db)" "fst ` set db = names"
      "\<forall>n v. (n, v) \<in> set db \<longrightarrow> v = orig n b"
    using host[OF ab(2)] by (auto simp: p2 q_def)
  have B: "free_rows q = []" "dget (row_gid q) 0 = None" "b \<notin> dkeys (gid_row q)"
      "module_ok (module_of q) names (phys q)" "0 < phys q"
    using full S1(2) sh(1,3) ab(3,5) rn by (auto simp: q_def p2 dict_simps)
  obtain m2 n2 where S2: "stage_gids sq q [b] =
      stage_gids (bump (\<lambda>s. s\<lparr>staged := Suc (staged s)\<rparr>)
          (unmask_gid (sq\<lparr>stats := (stats sq)\<lparr>h2d_bytes := h2d_bytes (stats sq) + n2\<rparr>\<rparr>) (layer_id q) b 0))
        (q\<lparr>need_counts := map_option (\<lambda>nc. nc[b := 0]) (need_counts q), module_of := m2,
           gid_row := dset (gid_row q) b 0, row_gid := dset (row_gid q) 0 b,
           row_tick := dset (row_tick q) 0 (tick q)\<rparr>) []"
      "row_holds m2 names orig 0 b"
    using stage_into_victim[where orig = orig, OF B(1) fq B(2,3,4,5) db] by blast
  have fin: "st3 = bump (\<lambda>s. s\<lparr>staged := Suc (staged s)\<rparr>)
          (unmask_gid (sq\<lparr>stats := (stats sq)\<lparr>h2d_bytes := h2d_bytes (stats sq) + n2\<rparr>\<rparr>) (layer_id q) b 0)"
      "module_of p3 = m2"
    using stage S1(1) S2(1) unfolding q_def[symmetric] sq_def[symmetric] by auto
  have ne: "?k0 \<noteq> a" "?k0 \<noteq> b" "?k0 \<noteq> g" using keepnot k0 g(2) by auto
  have L: "layer_id p1 = layer_id p" "layer_id p2 = layer_id p" "layer_id q = layer_id p"
    by (simp_all add: p1 p2 q_def)
  have "dget (remap_cache st3) (layer_id p) = Some (t[g := 0, g := 0, a := t ! g, b := 0])"
    using t(1) by (simp add: fin(1) sq_def D2(3) D1(3) L bump_def unmask_remap mask_remap)
  moreover have "(t[g := 0, g := 0, a := t ! g, b := 0]) ! ?k0 = 0" using ne t0 by simp
  moreover have "c ! ?k0 = 0" if cb: "dget (bias_cache st3) (layer_id p, dt) = Some c" for dt c
  proof -
    obtain c0 where c0: "dget (bias_cache st) (layer_id p, dt) = Some c0"
       "c ! ?k0 = c0 ! ?k0"
      using cb ne by (auto simp: fin(1) sq_def D2(3) D1(3) L bump_def unmask_bias mask_bias)
    have "?k0 < num_E p" using sh(5) k0 by blast
    then show ?thesis using tables_ok_biasD(2)[OF parts(3) c0(1)] c0(2) k0 by (simp add: unmasked_in_def)
  qed
  ultimately show ?thesis using D1(1) D2(1) gE S2(2) fin(2) by auto
qed

lemma moved_names_sub: "moved_names m E \<subseteq> set ALL_PARAMS"
proof -
  have "fst ` set (collect_params m E ns seen) \<subseteq> set ns" for ns seen
    by (induction ns arbitrary: seen) (auto split: option.splits tensor.splits)
  then show ?thesis by (simp add: moved_names_def)
qed

text \<open>A layer with five experts, of which 0 and 2 are kept, and one slot, taken by expert 1.\<close>

definition ex_module5 :: moe_module where
  "ex_module5 = \<lparr>m_id = 0, m_is_fused = True, m_layer_id = Some 0,
     m_attrs = [(''w13_weight'', (0, True)), (''w13_weight_scale'', (1, True))],
     m_objs = [(0, Rows [[10], [11], [12], [13], [14]]), (1, Rows [[20], [21], [22], [23], [24]])],
     m_num_local = 5, m_own_topk = Some (Some 7)\<rparr>"

definition ex_shrink5 :: "(pool_state \<times> moe_module list) result" where
  "ex_shrink5 = maybe_shrink_after_process ex_env (\<lambda>_. []) [] (fresh_pool (Some ex_km)) [ex_module5]"

definition ex_staged5 :: "pool_state \<times> layer_pool" where
  "ex_staged5 = (let st = fst (ok_or (fresh_pool None, []) ex_shrink5)
     in stage_gids st (the (dget (layers st) 0)) [1])"

lemma ex_layer5_ok:
  "layer_ok (moved_names ex_module5 (num_rows ex_module5)) (orig_rows ex_module5) (fst ex_staged5) (snd ex_staged5)"
proof -
  let ?st = "fst (ok_or (fresh_pool None, []) ex_shrink5)"
  have "is_ok ex_shrink5" by code_simp
  from ok_or_eq[OF this, of "(fresh_pool None, [])"] obtain ms where sh: "ex_shrink5 = Inr (?st, ms)"
    by (metis prod.collapse)
  have "rect ex_module5"
    by (auto simp: rect_def ex_module5_def getattr_def getattr_obj_def split: if_splits)
  then have ko: "kept_ok [ex_module5] ex_km" by (simp add: kept_ok_def ex_km_def fused_lid_def ex_module5_def)
  obtain names orig where o: "origins [ex_module5] names orig" and s: "state_ok names orig ?st"
    unfolding ex_shrink5_def using reach_state_ok[OF sh[unfolded ex_shrink5_def] ko ex_off ex_argsort reach_refl] by blast
  have no: "names 0 = moved_names ex_module5 (num_rows ex_module5)" "orig 0 = orig_rows ex_module5"
    using o by (auto simp: origins_def fused_lid_def ex_module5_def)
  have "dget (layers ?st) 0 \<noteq> None" by code_simp
  then obtain p where p: "dget (layers ?st) 0 = Some p" by blast
  note P = state_okD[OF s p]
  have "map_option cold (dget (layers ?st) 0) = Some [1, 3, 4]" by code_simp
  then have "set [1] \<subseteq> set (cold p)" using p by simp
  moreover have "stage_gids ?st p [1] = (fst ex_staged5, snd ex_staged5)"
    by (simp only: ex_staged5_def Let_def p option.sel prod.collapse)
  ultimately have "layer_ok (names 0) (orig 0) (fst ex_staged5) (snd ex_staged5)"
    using stage_gids_ok[OF P(3,2)] by blast
  then show ?thesis by (simp only: no)
qed

theorem second_demotion_corrupts_witness:
  "\<exists>st1 p1 st2 p2 st3 p3. demote_one ex_staged5 2 = (st1, p1) \<and> demote_one (st1, p1) 2 = (st2, p2) \<and>
     stage_gids st2 p2 [3, 4] = (st3, p3) \<and>
     (\<exists>d. dget (host p1) 2 = Some d \<and> (''w13_weight'', [12]) \<in> set d) \<and>
     (\<exists>d. dget (host p2) 2 = Some d \<and> (''w13_weight'', [10]) \<in> set d) \<and>
     (\<exists>ts. rows_at (module_of p3) ''w13_weight'' = Some ts \<and> ts ! 0 = [14]) \<and>
     (\<exists>t. dget (remap_cache st3) 0 = Some t \<and> t ! 0 = 0)"
proof -
  let ?N = "moved_names ex_module5 (num_rows ex_module5)"
  obtain st p where sp: "ex_staged5 = (st, p)" by (cases ex_staged5)
  obtain st1 p1 where one: "demote_one (st, p) 2 = (st1, p1)" by fastforce
  obtain st2 p2 where two: "demote_one (st1, p1) 2 = (st2, p2)" by fastforce
  obtain st3 p3 where stg: "stage_gids st2 p2 [3, 4] = (st3, p3)" by fastforce
  have "(\<lambda>p. (keep p, free_rows p, keep_len p, row_tick p, tick p, cold p, gid_row p, layer_id p)) (snd ex_staged5) =
      ([0, 2], [], 2, [(2, 0)], 0, [1, 3, 4], [(1, 2)], 0)" by code_simp
  then have f: "keep p = [0, 2]" "free_rows p = []" "keep_len p = 2" "row_tick p = [(2, 0)]" "tick p = 0"
      "cold p = [1, 3, 4]" "gid_row p = [(1, 2)]" "layer_id p = 0" by (simp_all add: sp)
  have "protected (snd ex_staged5) = {}" by code_simp
  then have pr: "protected p = {}" by (simp add: sp)
  have w: "''w13_weight'' \<in> ?N" by code_simp
  have v: "orig_rows ex_module5 ''w13_weight'' 0 = [10]" "orig_rows ex_module5 ''w13_weight'' 2 = [12]"
    "orig_rows ex_module5 ''w13_weight'' 4 = [14]" by code_simp+
  have dt: "demote_tick < 0" by code_simp
  have c: "2 \<in> set (keep p)" "2 \<noteq> keep p ! 0" "distinct (keep p)" "\<forall>r<keep_len p. r \<notin> protected p"
      "\<forall>(r, t)\<in>set (row_tick p). demote_tick < t" "demote_tick < tick p"
      "3 \<in> set (cold p)" "4 \<in> set (cold p)" "(3 :: nat) \<noteq> 4" "3 \<notin> dkeys (gid_row p)" "4 \<notin> dkeys (gid_row p)"
    using dt by (simp_all add: f pr)
  note S = second_demotion_corrupts[OF ex_layer5_ok[unfolded sp fst_conv snd_conv] moved_names_sub c(1-3) one two
      f(2) c(4-11) stg, unfolded f nth_Cons_0]
  have R: "\<exists>d. dget (host p1) 2 = Some d \<and> (''w13_weight'', [12]) \<in> set d"
      "\<exists>d. dget (host p2) 2 = Some d \<and> (''w13_weight'', [10]) \<in> set d"
      "\<exists>ts. rows_at (module_of p3) ''w13_weight'' = Some ts \<and> ts ! 0 = [14]"
      "\<exists>t. dget (remap_cache st3) 0 = Some t \<and> t ! 0 = 0"
    using S w v unfolding row_holds_def by metis+
  show ?thesis unfolding sp using R one two stg by blast
qed

end
