(* ===== verification/Flat_Memory.thy ===== *)
theory Flat_Memory
  imports Prelude
begin

text \<open>
  Row-major memory: rows of one length and their concatenation, the stores of one block of lanes, and
  the power of two a kernel rounds its block up to.
\<close>

section \<open>Rows of one length\<close>

definition uniform :: "nat \<Rightarrow> 'a list list \<Rightarrow> bool" where
  "uniform n xss \<longleftrightarrow> (\<forall>xs\<in>set xss. length xs = n)"

lemma uniform_simps [simp]: "uniform n []" "uniform n (xs # xss) \<longleftrightarrow> length xs = n \<and> uniform n xss"
  by (simp_all add: uniform_def)

lemma uniform_replicate [simp]: "uniform n (replicate k xs) \<longleftrightarrow> k = 0 \<or> length xs = n"
  by (auto simp: uniform_def)

lemma length_concat_uniform: "uniform n xss \<Longrightarrow> length (concat xss) = length xss * n"
  by (induction xss) simp_all

lemma nth_concat_uniform:
  "uniform n xss \<Longrightarrow> i < length xss \<Longrightarrow> j < n \<Longrightarrow> concat xss ! (i * n + j) = xss ! i ! j"
proof (induction xss arbitrary: i)
  case Nil
  then show ?case by simp
next
  case (Cons xs xss)
  then show ?case by (cases i) (auto simp: nth_append)
qed

lemma concat_concat_map: "concat (concat xss) = concat (map concat xss)"
  by (induction xss) simp_all

lemma chunks_concat: "uniform n xss \<Longrightarrow> chunks n (length xss) (concat xss) = xss"
  by (induction xss) simp_all

lemma uniform_update: "uniform n xss \<Longrightarrow> length xs = n \<Longrightarrow> uniform n (xss[i := xs])"
  using set_update_subset_insert[of xss i xs] by (auto simp: uniform_def)

section \<open>Blocks\<close>

lemma nth_fold_block:
  "x < length m \<Longrightarrow> fold (\<lambda>idx m. m[b + idx := h idx]) [0..<n] m ! x = (if b \<le> x \<and> x < b + n then h (x - b) else m ! x)"
proof (induction n)
  case 0
  then show ?case by auto
next
  case (Suc n)
  have len: "length (fold (\<lambda>idx m. m[b + idx := h idx]) is m) = length m" for "is"
    by (induction "is" arbitrary: m) simp_all
  show ?case using Suc len[of "[0..<n]"] by (cases "x = b + n") auto
qed

text \<open>\<^verbatim>\<open>triton.next_power_of_2\<close>\<close>

fun next_power_of_2 :: "nat \<Rightarrow> nat" where
  "next_power_of_2 n = (if n \<le> 1 then 1 else 2 * next_power_of_2 ((n + 1) div 2))"

declare next_power_of_2.simps [simp del]

lemma le_next_power_of_2: "n \<le> next_power_of_2 n"
proof (induction n rule: next_power_of_2.induct)
  case (1 n)
  show ?case
  proof (cases "n \<le> 1")
    case False
    then have "(n + 1) div 2 \<le> next_power_of_2 ((n + 1) div 2)" using 1 by simp
    then have "n \<le> 2 * next_power_of_2 ((n + 1) div 2)" by linarith
    then show ?thesis using False by (subst next_power_of_2.simps) simp
  qed (simp add: next_power_of_2.simps)
qed

end
