(* ===== verification/Cold_Padding.thy ===== *)
theory Cold_Padding
  imports Cold_Gate Flat_Memory
begin

text \<open>
  A defect of the forward hook of the cold pool: it drops the entries of the stash that are no
  demand (padding and fused shared experts) from the ids it reads, but takes the scores from the
  start of the buffer, those entries included, so that the ids of a row meet the scores of other
  entries.
\<close>

section \<open>What a fresh stash holds\<close>

definition demand_valid :: "nat \<Rightarrow> int \<Rightarrow> bool" where
  "demand_valid E i \<longleftrightarrow> 0 \<le> i \<and> i < int E"

definition valid_logits :: "nat \<Rightarrow> int list list \<Rightarrow> rat list list \<Rightarrow> rat list list" where
  "valid_logits E ids pm = map snd (filter (\<lambda>(row, l). \<exists>i\<in>set row. demand_valid E i) (zip ids pm))"

lemma demand_ids_filter:
  "filter (\<lambda>i. 0 \<le> i) (concat (map (demand_ids E) ids)) = filter (demand_valid E) (concat ids)"
proof -
  have "filter (\<lambda>i. 0 \<le> i) (demand_ids E row) = filter (demand_valid E) row" for row
    by (induction row) (auto simp: demand_ids_def demand_valid_def)
  then show ?thesis by (simp add: filter_concat comp_def)
qed

lemma valid_logits_eq:
  "map snd (filter (\<lambda>(row, l). \<exists>i\<in>set row. 0 \<le> i) (zip (map (demand_ids E) ids) pm)) = valid_logits E ids pm"
  unfolding valid_logits_def
proof (induction ids arbitrary: pm)
  case Nil
  then show ?case by simp
next
  case (Cons row ids)
  have "(\<exists>i\<in>set (demand_ids E row). 0 \<le> i) = (\<exists>i\<in>set row. demand_valid E i)"
    by (auto simp: demand_ids_def demand_valid_def)
  then show ?case using Cons.IH[of "tl pm"] by (cases pm) auto
qed

lemma valid_logits_length:
  "length (filter (\<lambda>(row, l). \<exists>i\<in>set row. 0 \<le> i) (zip (map (demand_ids E) ids) pm)) =
     length (valid_logits E ids pm)"
  unfolding valid_logits_eq[symmetric] by simp

lemma stash_fresh:
  assumes ne: "ids \<noteq> []" and pm: "length pm = length ids" "length (pm ! 0) = E"
    and cap: "length ids \<le> STASH_ROWS" "uniform w ids"
    and fresh: "dget (stash st) lay = None" and dyn: "dynamic st"
  obtains st' buf c where "stash_demand False ops st (Some lay) pm ids w = Inr st'"
    "dget (stash st') lay = Some buf" "stats st' = stats st"
    "sb_ids buf = concat (map (demand_ids E) ids) @ replicate c (-1)"
    "sb_scores buf = concat (map2 (demand_scores (op_sigmoid ops) E) ids pm) @ replicate c (-1)"
    "sb_logits buf = Some (valid_logits E ids pm)" "sb_logits_n buf = length (valid_logits E ids pm)"
proof -
  let ?I = "map (demand_ids E) ids" and ?S = "map2 (demand_scores (op_sigmoid ops) E) ids pm"
  have uI: "uniform w ?I" using cap(2) by (auto simp: uniform_def demand_ids_def)
  have uS: "uniform w ?S" using cap(2) pm
    by (auto simp: uniform_def demand_scores_def dest: set_zip_leftD)
  have lI: "length (concat ?I) = length ids * w" "length (concat ?S) = length ids * w"
    using length_concat_uniform[OF uI] length_concat_uniform[OF uS] pm by simp_all
  have m: "min (length (concat ?I)) (STASH_ROWS * w) = length ids * w"
    unfolding lI using cap(1) by simp
  define lg where "lg = valid_logits E ids pm"
  define b where "b = \<lparr>sb_ids = concat ?I @ replicate (STASH_ROWS * w - length ids * w) (-1),
     sb_scores = concat ?S @ replicate (STASH_ROWS * w - length ids * w) (-1),
     sb_logits = Some lg, sb_logits_n = length lg\<rparr>"
  have tk: "take (length ids * w) (concat ?I) = concat ?I" "take (length ids * w) (concat ?S) = concat ?S"
    using lI by simp_all
  have "stash_demand False ops st (Some lay) pm ids w = Inr (mark_dirty (st\<lparr>stash := dset (stash st) lay b\<rparr>))"
    using ne pm cap(1) dyn
    by (simp add: stash_demand_def Let_def fresh new_buf_def m tk valid_logits_eq valid_logits_length b_def lg_def not_less)
  moreover have "dget (stash (mark_dirty (st\<lparr>stash := dset (stash st) lay b\<rparr>))) lay = Some b"
     "stats (mark_dirty (st\<lparr>stash := dset (stash st) lay b\<rparr>)) = stats st"
    by (simp_all add: mark_dirty_def dict_simps)
  ultimately show thesis using that unfolding b_def lg_def by simp
qed

section \<open>Frames of the demand counter\<close>

lemma strong_pick: "pick_row st p = (st', p', ro) \<Longrightarrow> strong (stats st') = strong (stats st)"
  by (auto simp: pick_row_def evict_row_def Let_def split: list.splits option.splits prod.splits)

lemma strong_from_host: "row_from_host st p g r = (st', p', b) \<Longrightarrow> strong (stats st') = strong (stats st)"
  by (auto simp: row_from_host_def split: option.splits list.splits prod.splits)

lemma strong_stage: "stage_gids st p gs = (st', p') \<Longrightarrow> strong (stats st') = strong (stats st)"
proof (induction gs arbitrary: st p)
  case Nil
  then show ?case by simp
next
  case (Cons g gs)
  then show ?case
    by (auto simp: Let_def bump_def split: if_splits prod.splits option.splits bool.splits
        dest!: strong_pick strong_from_host)
qed

lemma strong_foldl:
  "(\<And>s x. strong (stats (fst (f s x))) = strong (stats (fst s))) \<Longrightarrow>
     strong (stats (fst (foldl f s xs))) = strong (stats (fst s))"
  by (induction xs arbitrary: s) simp_all

lemma strong_phase_b: "strong (stats (fst (phase_b env st p flat))) = strong (stats st)"
proof -
  have "strong (stats (fst (demote_one s g))) = strong (stats (fst s))" for s g
    by (cases s) (simp add: demote_one_def Let_def bump_def)
  moreover have "strong (stats (fst (promote_one s g))) = strong (stats (fst s))" for s g
    by (cases s) (auto simp: promote_one_def bump_def split: option.splits)
  ultimately show ?thesis
    unfolding phase_b_def Let_def by (simp add: split_def strong_foldl)
qed

section \<open>One layer of the hook on kept experts\<close>

lemma hot_min_kept:
  assumes "length gs = length scs" and "\<forall>g\<in>set gs. \<not> cm ! g" and "scs \<noteq> []"
  shows "hot_min cm gs scs = Some (Min (set scs))"
proof -
  have "[s. (g, s) \<leftarrow> zip gs scs, \<not> cm ! g] = scs"
    using assms(1,2) by (induction gs scs rule: list_induct2) auto
  then show ?thesis using assms(3) by (simp add: hot_min_def Let_def)
qed

lemma strong_ids_kept: "\<forall>g\<in>set gs. \<not> cm ! g \<Longrightarrow> strong_ids cm alpha (gs, scs) = []"
  by (auto simp: strong_ids_def dest: set_zip_leftD)

lemma chunks_take_concat:
  "uniform k xss \<Longrightarrow> r \<le> length xss \<Longrightarrow> chunks k r (take (r * k) (concat xss @ zs)) = take r xss"
proof (induction xss arbitrary: r)
  case Nil
  then show ?case by simp
next
  case (Cons xs xss)
  then show ?case by (cases r) simp_all
qed

text \<open>What the hook counts when every id it reads is a kept expert: the experts the probe finds.\<close>

lemma hook_layer_kept:
  assumes buf: "dget (stash st) lid = Some buf" and k: "0 < k"
    and flat: "map nat (filter (\<lambda>i. 0 \<le> i) (sb_ids buf)) = concat flat" "uniform k flat" "flat \<noteq> []"
    and kept: "\<forall>row\<in>set flat. \<forall>g\<in>set row. g < length (cold_mask p) \<and> \<not> cold_mask p ! g"
    and sc: "chunks k (length flat) (take (length flat * k) (sb_scores buf)) = sc"
    and pr: "probe_demand ops (strong_alpha env) (p\<lparr>tick := tick p + 1\<rparr>) buf
        (map2 (hot_min (cold_mask p)) flat sc) = Inr probed"
  shows "\<exists>st' p'. hook_layer env ops (int k) st lid p = Inr (st', p') \<and>
     strong (stats st') = strong (stats st) + length probed"
proof -
  have len: "length (concat flat) = length flat * k" using length_concat_uniform[OF flat(2)] .
  have rows: "length (concat flat) div k = length flat" using len k by simp
  have "k \<le> length (concat flat)" unfolding len using flat(3) by (cases flat) simp_all
  then have big: "\<not> int (length (concat flat)) < int k" by simp
  have fl: "chunks k (length flat) (take (length flat * k) (concat flat)) = flat"
    using len chunks_concat[OF flat(2)] by simp
  have sel: "concat (map (strong_ids (cold_mask p) (strong_alpha env)) (zip flat sc)) = []"
    using kept by (auto simp: strong_ids_kept dest: set_zip_leftD)
  have rng: "\<not> (\<exists>row\<in>set flat. \<exists>g\<in>set row. length (cold_mask p) \<le> g)" using kept by force
  define st1 where "st1 = st\<lparr>stash := dset (stash st) lid (buf\<lparr>
                      sb_ids := replicate (length (sb_ids buf)) (-1),
                      sb_scores := replicate (length (sb_scores buf)) (-1)\<rparr>)\<rparr>"
  define nc where "nc = add_at (map (\<lambda>x. x * ema_decay env) (add_at (counts_or_zero (p\<lparr>tick := tick p + 1\<rparr>)) probed)) []"
  define st2 where "st2 = bump (\<lambda>s. s\<lparr>strong := strong s + length probed + length ([] :: nat list)\<rparr>) st1"
  define p2 where "p2 = p\<lparr>tick := tick p + 1, need_counts := Some nc\<rparr>"
  obtain st3 p3 where sg: "stage_gids st2 p2
      (candidates ops (of_int (need_hits env)) (max_stage_per_tick env) p2 nc) = (st3, p3)" by fastforce
  have "hook_layer env ops (int k) st lid p =
      Inr (if degrade_enabled env st3 then phase_b env st3 p3 flat else (st3, p3))"
    using k big rng sg pr
    by (simp add: hook_layer_def buf flat(1) rows fl sc sel Let_def st1_def st2_def p2_def nc_def)
  moreover have "strong (stats st3) = strong (stats st) + length probed"
    using strong_stage[OF sg] by (simp add: st2_def st1_def bump_def)
  ultimately show ?thesis
    using strong_phase_b[of env st3 p3 flat] by (cases "phase_b env st3 p3 flat") auto
qed

section \<open>The probe\<close>

text \<open>One row finds nothing when no cold expert reaches the band, and something when every positive score does.\<close>

lemma coldband_empty:
  assumes "\<And>g. g < length scf \<Longrightarrow> cm ! g \<Longrightarrow> g \<notin> dkeys gr \<Longrightarrow> scf ! g < alpha * h"
  shows "True \<notin> set (coldband cm gr alpha scf (Some h))"
  using assms by (force simp: coldband_def band_ge_def in_set_enumerate_eq)

lemma coldband_negative:
  assumes "0 < alpha" and "\<forall>x\<in>set scf. 0 < x" and "g < length scf" "cm ! g" "g \<notin> dkeys gr"
  shows "coldband cm gr alpha scf (Some (-1)) ! g"
proof -
  have "0 < scf ! g" using assms(2,3) by simp
  then have "- alpha \<le> scf ! g" using assms(1) by linarith
  then show ?thesis using assms(3-5) by (simp add: coldband_def band_ge_def nth_enumerate_eq)
qed

lemma length_coldband [simp]: "length (coldband cm gr alpha scf hm) = length scf"
  by (simp add: coldband_def)

lemma probe_row_finds:
  assumes "length cb = length scf" and "g < length scf" and "cb ! g" and "0 < scf ! g"
  shows "probe_row cb scf \<noteq> []"
proof -
  let ?xs = "map2 (\<lambda>b s. if b then s else 0) cb scf"
  have ne: "?xs \<noteq> []" using assms(1,2) by auto
  have "?xs ! g = scf ! g" using assms(1-3) by simp
  then have "scf ! g \<in> set ?xs" using assms(1,2) by (metis length_map length_zip min.idem nth_mem)
  then have "0 < fst (max_first ?xs)" using max_first_index[OF ne] assms(4) by (meson less_le_trans)
  then show ?thesis by (simp add: probe_row_def split_def)
qed

lemma probe_empty:
  assumes "sb_logits buf = Some lg" "sb_logits_n buf = length lg" "length hms = length lg"
    and "\<forall>row\<in>set lg. length row = length (cold_mask p)"
    and "\<And>i. i < length lg \<Longrightarrow>
      True \<notin> set (coldband (cold_mask p) (gid_row p) alpha (map (op_sigmoid ops) (lg ! i)) (hms ! i))"
  shows "probe_demand ops alpha p buf hms = Inr []"
proof -
  have "\<not> (\<exists>cb\<in>set (map2 (coldband (cold_mask p) (gid_row p) alpha) (map (map (op_sigmoid ops)) lg) hms). True \<in> set cb)"
    using assms(3,5) by (auto simp: set_zip)
  then show ?thesis using assms(1-4) by (simp add: probe_demand_def Let_def)
qed

lemma probe_finds:
  assumes "sb_logits buf = Some lg" "sb_logits_n buf = length lg" "length hms = length lg"
    and "\<forall>row\<in>set lg. length row = length (cold_mask p)"
    and i: "i < length lg" and g: "g < length (cold_mask p)"
    and cb: "coldband (cold_mask p) (gid_row p) alpha (map (op_sigmoid ops) (lg ! i)) (hms ! i) ! g"
    and pos: "\<And>x. 0 < op_sigmoid ops x"
  shows "\<exists>probed. probe_demand ops alpha p buf hms = Inr probed \<and> 0 < length probed"
proof -
  let ?scf = "map (map (op_sigmoid ops)) lg"
  let ?cbs = "map2 (coldband (cold_mask p) (gid_row p) alpha) ?scf hms"
  have n: "?cbs ! i = coldband (cold_mask p) (gid_row p) alpha (map (op_sigmoid ops) (lg ! i)) (hms ! i)"
    "i < length ?cbs" using i assms(3) by simp_all
  have li: "length (lg ! i) = length (cold_mask p)" using assms(4) i by simp
  have any: "\<exists>cb\<in>set ?cbs. True \<in> set cb"
  proof (rule bexI[of _ "?cbs ! i"])
    show "?cbs ! i \<in> set ?cbs" by (rule nth_mem[OF n(2)])
    show "True \<in> set (?cbs ! i)" unfolding n(1) using cb g li by (metis length_coldband length_map nth_mem)
  qed
  have "probe_row (?cbs ! i) (?scf ! i) \<noteq> []"
    by (rule probe_row_finds[of _ _ g]) (use n i g li cb pos in simp_all)
  moreover have "map2 probe_row ?cbs ?scf ! i = probe_row (?cbs ! i) (?scf ! i)" "i < length (map2 probe_row ?cbs ?scf)"
    using n(2) i by simp_all
  then have "probe_row (?cbs ! i) (?scf ! i) \<in> set (map2 probe_row ?cbs ?scf)" by (metis nth_mem)
  ultimately have "concat (map2 probe_row ?cbs ?scf) \<noteq> []" by (metis concat_eq_Nil_conv)
  then show ?thesis using assms(1-4) any i by (auto simp: probe_demand_def Let_def)
qed

section \<open>The shift\<close>

text \<open>
  Rows of \<open>k\<close> kept experts, and logits in which every cold expert that is not staged is out of the
  band of the row: its score is below \<open>alpha\<close> times the score of each selected expert.
\<close>

definition out_of_band :: "hook_ops \<Rightarrow> rat \<Rightarrow> layer_pool \<Rightarrow> int list \<Rightarrow> rat list \<Rightarrow> bool" where
  "out_of_band ops alpha p row lg \<longleftrightarrow> (\<forall>g<num_E p. cold_mask p ! g \<longrightarrow> g \<notin> dkeys (gid_row p) \<longrightarrow>
     (\<forall>i\<in>set row. op_sigmoid ops (lg ! g) < alpha * op_sigmoid ops (lg ! nat i)))"

definition kept_rows :: "layer_pool \<Rightarrow> nat \<Rightarrow> int list list \<Rightarrow> bool" where
  "kept_rows p k ids \<longleftrightarrow> ids \<noteq> [] \<and> uniform k ids \<and>
     (\<forall>row\<in>set ids. \<forall>i\<in>set row. demand_valid (num_E p) i \<and> \<not> cold_mask p ! nat i)"

lemma kept_rowsD:
  assumes "kept_rows p k ids" and "length (cold_mask p) = num_E p"
  shows "ids \<noteq> []" and "uniform k ids" and "filter (demand_valid (num_E p)) (concat ids) = concat ids"
    and "concat (map (map nat) ids) = map nat (concat ids)" and "uniform k (map (map nat) ids)"
    and "\<forall>row\<in>set (map (map nat) ids). \<forall>g\<in>set row. g < length (cold_mask p) \<and> \<not> cold_mask p ! g"
proof -
  show "ids \<noteq> []" "uniform k ids" using assms(1) by (simp_all add: kept_rows_def)
  show "filter (demand_valid (num_E p)) (concat ids) = concat ids"
    using assms(1) by (auto simp: kept_rows_def filter_id_conv)
  show "concat (map (map nat) ids) = map nat (concat ids)" by (simp add: map_concat)
  show "uniform k (map (map nat) ids)" using assms(1) by (simp add: kept_rows_def uniform_def)
  show "\<forall>row\<in>set (map (map nat) ids). \<forall>g\<in>set row. g < length (cold_mask p) \<and> \<not> cold_mask p ! g"
    using assms by (auto simp: kept_rows_def demand_valid_def nat_less_iff)
qed

lemma valid_logits_kept:
  assumes "kept_rows p k ids" and "0 < k" and "length pm = length ids"
  shows "valid_logits (num_E p) ids pm = pm"
proof -
  have "\<exists>i\<in>set row. demand_valid (num_E p) i" if "(row, l) \<in> set (zip ids pm)" for row l
  proof -
    have r: "row \<in> set ids" using set_zip_leftD[OF that] .
    then have "row \<noteq> []" using assms(1,2) by (auto simp: kept_rows_def uniform_def)
    then have "hd row \<in> set row" by simp
    then show ?thesis using assms(1) r by (auto simp: kept_rows_def)
  qed
  then have "filter (\<lambda>(row, l). \<exists>i\<in>set row. demand_valid (num_E p) i) (zip ids pm) = zip ids pm"
    by (auto simp: filter_id_conv)
  then show ?thesis using assms(3) by (simp add: valid_logits_def)
qed

text \<open>The clean batch: the hook meets each row with its own scores, and no cold expert is in the band.\<close>

lemma clean_probe:
  assumes cm: "length (cold_mask p) = num_E p" and k: "0 < k" and alpha: "0 < alpha"
    and clean: "kept_rows p k ids" "length pm = length ids" "uniform (num_E p) pm"
      "list_all2 (out_of_band ops alpha p) ids pm"
    and lg: "sb_logits buf = Some pm" "sb_logits_n buf = length pm"
  shows "probe_demand ops alpha (p\<lparr>tick := t\<rparr>) buf (map2 (hot_min (cold_mask p)) (map (map nat) ids)
     (map2 (demand_scores (op_sigmoid ops) (num_E p)) ids pm)) = Inr []"
proof (rule probe_empty[OF lg])
  let ?sc = "map2 (demand_scores (op_sigmoid ops) (num_E p)) ids pm"
  let ?hms = "map2 (hot_min (cold_mask p)) (map (map nat) ids) ?sc"
  note K = kept_rowsD[OF clean(1) cm]
  show "length ?hms = length pm" using clean(2) by simp
  show "\<forall>row\<in>set pm. length row = length (cold_mask (p\<lparr>tick := t\<rparr>))"
    using clean(3) cm by (simp add: uniform_def)
  fix i assume i: "i < length pm"
  have row: "ids ! i \<in> set ids" "length (ids ! i) = k" using i clean(2) K(2) by (auto simp: uniform_def)
  have sci: "?sc ! i = map (\<lambda>x. op_sigmoid ops (pm ! i ! nat x)) (ids ! i)"
  proof -
    have "\<forall>x\<in>set (ids ! i). 0 \<le> x \<and> x < int (num_E p)"
      using clean(1) row(1) by (simp add: kept_rows_def demand_valid_def)
    then show ?thesis using i clean(2) by (auto simp: demand_scores_def)
  qed
  have hk: "hot_min (cold_mask p) (map nat (ids ! i)) (?sc ! i) = Some (Min (set (?sc ! i)))"
    by (rule hot_min_kept) (use sci row k K(6) in auto)
  have "?hms ! i = hot_min (cold_mask p) (map nat (ids ! i)) (?sc ! i)" using i clean(2) by simp
  then have h: "?hms ! i = Some (Min (set (?sc ! i)))" using hk by (simp only:)
  have "Min (set (?sc ! i)) \<in> set (?sc ! i)" using sci row(2) k by (intro Min_in) auto
  then obtain x where x: "x \<in> set (ids ! i)" "Min (set (?sc ! i)) = op_sigmoid ops (pm ! i ! nat x)"
    unfolding sci by auto
  have ob: "out_of_band ops alpha p (ids ! i) (pm ! i)"
    using clean(4) i by (simp add: list_all2_conv_all_nth clean(2))
  have li: "length (pm ! i) = num_E p" using clean(3) i by (simp add: uniform_def)
  show "True \<notin> set (coldband (cold_mask (p\<lparr>tick := t\<rparr>)) (gid_row (p\<lparr>tick := t\<rparr>)) alpha
      (map (op_sigmoid ops) (pm ! i)) (?hms ! i))"
    unfolding h x(2) using ob x(1) li by (intro coldband_empty) (auto simp: out_of_band_def)
qed

text \<open>A padded batch: a pad among the scores of a row makes its minimum \<open>-1\<close>.\<close>

lemma padded_scores:
  assumes len: "length pm = length ids" and sg: "\<And>x. 0 < sg x"
  shows "list_all2 (\<lambda>i s. (\<not> demand_valid E i \<longrightarrow> s = -1) \<and> -1 \<le> s) (concat ids)
     (concat (map2 (demand_scores sg E) ids pm))"
proof (rule list_all2_concat2)
  have "-1 \<le> sg x" for x using sg[of x] by linarith
  then show "list_all2 (list_all2 (\<lambda>i s. (\<not> demand_valid E i \<longrightarrow> s = -1) \<and> -1 \<le> s)) ids
     (map2 (demand_scores sg E) ids pm)"
    using len by (auto simp: list_all2_conv_all_nth demand_scores_def demand_valid_def)
qed

lemma chunk_min:
  assumes al: "list_all2 (\<lambda>i s. (\<not> V i \<longrightarrow> s = (-1 :: rat)) \<and> -1 \<le> s) xs ss"
    and j: "j < r * k" "\<not> V (xs ! j)" and len: "r * k \<le> length xs"
  shows "Min (set (chunks k r (take (r * k) (ss @ zs)) ! (j div k))) = -1"
    and "length (chunks k r (take (r * k) (ss @ zs)) ! (j div k)) = k" and "j div k < r"
proof -
  have k: "0 < k" using j(1) by (cases k) auto
  show q: "j div k < r" using j(1) by (simp add: less_mult_imp_div_less)
  have ls: "length ss = length xs" using list_all2_lengthD[OF al] by simp
  let ?c = "take k (drop (j div k * k) (take (r * k) ss))"
  have c: "chunks k r (take (r * k) (ss @ zs)) ! (j div k) = ?c"
    using q ls len by (simp add: nth_chunks)
  have "Suc (j div k) * k \<le> r * k" using q by (intro mult_le_mono1) simp
  then have fit: "j div k * k + k \<le> r * k" by simp
  then have lc: "length ?c = k" using ls len by simp
  then show "length (chunks k r (take (r * k) (ss @ zs)) ! (j div k)) = k" unfolding c .
  have jm: "j mod k < k" "j div k * k + j mod k = j" using k by simp_all
  moreover have "drop (j div k * k) (take (r * k) ss) ! (j mod k) = take (r * k) ss ! (j div k * k + j mod k)"
    using ls len fit jm(1) q by (intro nth_drop) simp
  ultimately have "?c ! (j mod k) = ss ! j" using j(1) by simp
  moreover have "ss ! j = -1" using al j len ls by (auto simp: list_all2_conv_all_nth)
  ultimately have "-1 \<in> set ?c" using jm(1) lc by (metis nth_mem)
  moreover have "-1 \<le> s" if "s \<in> set ?c" for s
  proof -
    have "s \<in> set ss" using that by (auto dest!: in_set_takeD in_set_dropD)
    then show ?thesis using al by (auto simp: list_all2_conv_all_nth in_set_conv_nth)
  qed
  ultimately have "Min (set ?c) = -1" by (intro Min_eqI) auto
  then show "Min (set (chunks k r (take (r * k) (ss @ zs)) ! (j div k))) = -1" unfolding c .
qed

text \<open>
  C37: padding in the stash turns experts far outside the band into demand. Take a layer with a fresh
  stash and some cold expert that is not staged, a positive sigmoid and a positive \<open>alpha\<close>, and at most
  819 rows of \<open>k\<close> kept experts each (\<open>k\<close> being what the hook takes for the number of selected experts) in
  whose logits every such cold expert is out of the band. Stashed as they are, the next hook counts no
  demand. Stashed with entries in between that are no demand (below 0 or not below the number of experts:
  padding, fused shared experts) such that one of them lies among the first \<open>r * k\<close> entries, where \<open>r\<close> is
  the number of rows of kept experts, the hook reads the same ids and the same logits and counts demand.
\<close>

theorem padding_counts_as_demand:
  assumes cm: "length (cold_mask p) = num_E p"
    and cold: "g < num_E p" "cold_mask p ! g" "g \<notin> dkeys (gid_row p)"
    and sg: "\<And>x. 0 < op_sigmoid ops x" and alpha: "0 < strong_alpha env"
    and st: "dget (stash st) lay = None" "dynamic st" and k: "0 < k"
    and clean: "kept_rows p k ids" "length ids \<le> STASH_ROWS" "length pm = length ids" "uniform (num_E p) pm"
      "list_all2 (out_of_band ops (strong_alpha env) p) ids pm"
    and padded: "length ids' \<le> STASH_ROWS" "length pm' = length ids'" "uniform (num_E p) pm'" "uniform w ids'"
    and same: "filter (demand_valid (num_E p)) (concat ids') = concat ids"
      "valid_logits (num_E p) ids' pm' = pm"
    and pad: "j < length ids * k" "\<not> demand_valid (num_E p) (concat ids' ! j)"
  shows "\<exists>st1 st2 st1' p1' st2' p2'.
     stash_demand False ops st (Some lay) pm ids k = Inr st1 \<and>
     hook_layer env ops (int k) st1 lay p = Inr (st1', p1') \<and> strong (stats st1') = strong (stats st) \<and>
     stash_demand False ops st (Some lay) pm' ids' w = Inr st2 \<and>
     hook_layer env ops (int k) st2 lay p = Inr (st2', p2') \<and> strong (stats st2) < strong (stats st2')"
proof -
  let ?E = "num_E p" and ?sg = "op_sigmoid ops"
  note K = kept_rowsD[OF clean(1) cm]
  have pm0: "length (pm ! 0) = ?E" using clean(3,4) K(1) by (cases pm) auto
  obtain st1 buf c where S1: "stash_demand False ops st (Some lay) pm ids k = Inr st1"
    "dget (stash st1) lay = Some buf" "stats st1 = stats st"
    "sb_ids buf = concat (map (demand_ids ?E) ids) @ replicate c (-1)"
    "sb_scores buf = concat (map2 (demand_scores ?sg ?E) ids pm) @ replicate c (-1)"
    "sb_logits buf = Some pm" "sb_logits_n buf = length pm"
    using stash_fresh[OF K(1) clean(3) pm0 clean(2) K(2) st] valid_logits_kept[OF clean(1) k clean(3)] by metis
  have f1: "map nat (filter (\<lambda>i. 0 \<le> i) (sb_ids buf)) = concat (map (map nat) ids)"
    by (simp add: S1(4) demand_ids_filter K(3,4))
  have uS: "uniform k (map2 (demand_scores ?sg ?E) ids pm)"
    using K(2) by (auto simp: uniform_def demand_scores_def dest: set_zip_leftD)
  have c1: "chunks k (length (map (map nat) ids)) (take (length (map (map nat) ids) * k) (sb_scores buf)) =
      map2 (demand_scores ?sg ?E) ids pm"
    using chunks_take_concat[OF uS, of "length ids" "replicate c (-1)"] clean(3)
    by (simp add: S1(5) del: take_append)
  obtain st1' p1' where H1: "hook_layer env ops (int k) st1 lay p = Inr (st1', p1')"
      "strong (stats st1') = strong (stats st)"
    using hook_layer_kept[OF S1(2) k f1 K(5) _ K(6) c1 clean_probe[OF cm k alpha clean(1,3,4,5) S1(6,7)]] K(1) S1(3)
    by auto
  have le: "length ids * k \<le> length (concat ids')"
    using length_filter_le[of "demand_valid ?E" "concat ids'"] same(1) length_concat_uniform[OF K(2)] by simp
  have ne': "ids' \<noteq> []" using le pad(1) by auto
  have pm0': "length (pm' ! 0) = ?E" using padded(2,3) ne' by (cases pm') auto
  obtain st2 buf' c' where S2: "stash_demand False ops st (Some lay) pm' ids' w = Inr st2"
    "dget (stash st2) lay = Some buf'" "stats st2 = stats st"
    "sb_ids buf' = concat (map (demand_ids ?E) ids') @ replicate c' (-1)"
    "sb_scores buf' = concat (map2 (demand_scores ?sg ?E) ids' pm') @ replicate c' (-1)"
    "sb_logits buf' = Some pm" "sb_logits_n buf' = length pm"
    using stash_fresh[OF ne' padded(2) pm0' padded(1,4) st] same(2) by metis
  have f2: "map nat (filter (\<lambda>i. 0 \<le> i) (sb_ids buf')) = concat (map (map nat) ids)"
    by (simp add: S2(4) demand_ids_filter same(1) K(4))
  define sc where "sc = chunks k (length ids) (take (length ids * k) (sb_scores buf'))"
  let ?hms = "map2 (hot_min (cold_mask p)) (map (map nat) ids) sc"
  note al = padded_scores[where sg = ?sg, OF padded(2) sg]
  note C = chunk_min(1,2)[OF al pad le, where zs = "replicate c' (-1)", folded S2(5), folded sc_def]
    chunk_min(3)[OF al pad le]
  let ?i = "j div k"
  have row: "length (ids ! ?i) = k" using C(3) K(2) by (simp add: uniform_def)
  have "\<forall>x\<in>set (map nat (ids ! ?i)). \<not> cold_mask p ! x" using K(6) nth_mem[OF C(3)] by simp
  moreover have "sc ! ?i \<noteq> []" using C(2) k by (cases "sc ! ?i") simp_all
  ultimately have hk: "hot_min (cold_mask p) (map nat (ids ! ?i)) (sc ! ?i) = Some (-1)"
    using hot_min_kept[of "map nat (ids ! ?i)" "sc ! ?i" "cold_mask p"] C(1,2) row by simp
  have "?hms ! ?i = hot_min (cold_mask p) (map nat (ids ! ?i)) (sc ! ?i)" using C(3) by (simp add: sc_def)
  then have "?hms ! ?i = Some (-1)" using hk by (simp only:)
  then have cb: "coldband (cold_mask p) (gid_row p) (strong_alpha env) (map ?sg (pm ! ?i)) (?hms ! ?i) ! g"
    using alpha sg cold C(3) clean(3,4) cm by (simp add: coldband_negative uniform_def)
  obtain probed where P: "probe_demand ops (strong_alpha env) (p\<lparr>tick := tick p + 1\<rparr>) buf' ?hms = Inr probed"
      "0 < length probed"
    using probe_finds[OF S2(6,7), of ?hms "p\<lparr>tick := tick p + 1\<rparr>" ?i g "strong_alpha env" ops]
      cb sg C(3) clean(3,4) cm cold(1) by (auto simp: sc_def uniform_def)
  obtain st2' p2' where H2: "hook_layer env ops (int k) st2 lay p = Inr (st2', p2')"
      "strong (stats st2') = strong (stats st) + length probed"
    using hook_layer_kept[OF S2(2) k f2 K(5) _ K(6) _ P(1)] K(1) S2(3) by (auto simp: sc_def)
  show ?thesis using S1(1) H1 S2(1,3) H2 P(2)
    by (intro exI[of _ st1] exI[of _ st2] exI[of _ st1'] exI[of _ p1'] exI[of _ st2'] exI[of _ p2']) simp
qed

text \<open>
  Two tokens that picked the kept experts 0 and 2, with and without a column of a fused shared expert
  (id 3), and a rational stand-in for the sigmoid.
\<close>

definition ex_sig_ops :: hook_ops where
  "ex_sig_ops = \<lparr>op_sigmoid = (\<lambda>x. if 0 \<le> x then (1 + x) / (2 + x) else 1 / (2 - x)),
     op_argsort_desc = (\<lambda>xs. [0..<length xs])\<rparr>"

theorem padding_counts_as_demand_witness:
  "\<exists>p st1 st2 st1' p1' st2' p2'. dget (layers ex_st1) 0 = Some p \<and>
     stash_demand False ex_sig_ops ex_st1 (Some 0) [[9, -9, 0], [0, -9, 9]] [[0], [2]] 1 = Inr st1 \<and>
     hook_layer ex_env ex_sig_ops 1 st1 0 p = Inr (st1', p1') \<and> strong (stats st1') = 0 \<and>
     stash_demand False ex_sig_ops ex_st1 (Some 0) [[9, -9, 0], [0, -9, 9]] [[0, 3], [2, 3]] 2 = Inr st2 \<and>
     hook_layer ex_env ex_sig_ops 1 st2 0 p = Inr (st2', p2') \<and> 0 < strong (stats st2')"
proof -
  have "dget (layers ex_st1) 0 \<noteq> None" by code_simp
  then obtain p where p: "dget (layers ex_st1) 0 = Some p" by blast
  have "map_option (\<lambda>p. (num_E p, cold_mask p, gid_row p)) (dget (layers ex_st1) 0) =
      Some (3, [False, True, False], [])" by code_simp
  then have f: "num_E p = 3" "cold_mask p = [False, True, False]" "gid_row p = []" using p by simp_all
  have a: "strong_alpha ex_env = 8 / 10" by code_simp
  have s: "dget (stash ex_st1) 0 = None" "dynamic ex_st1" "strong (stats ex_st1) = 0" by code_simp+
  have sg: "0 < op_sigmoid ex_sig_ops x" for x by (auto simp: ex_sig_ops_def)
  have kr: "kept_rows p 1 [[0], [2]]" by (simp add: kept_rows_def demand_valid_def f)
  have ob: "list_all2 (out_of_band ex_sig_ops (strong_alpha ex_env) p) [[0], [2]] [[9, -9, 0], [0, -9, 9]]"
    by (auto simp: out_of_band_def f a ex_sig_ops_def less_Suc_eq numeral_3_eq_3)
  have P: "length (cold_mask p) = num_E p" "1 < num_E p" "cold_mask p ! 1" "1 \<notin> dkeys (gid_row p)"
    "0 < strong_alpha ex_env" "(0 :: nat) < 1" "length [[0 :: int], [2]] \<le> STASH_ROWS"
    "uniform (num_E p) [[9 :: rat, -9, 0], [0, -9, 9]]" "length [[0 :: int, 3], [2, 3]] \<le> STASH_ROWS"
    "uniform 2 [[0 :: int, 3], [2, 3]]" "length [[9 :: rat, -9, 0], [0, -9, 9]] = length [[0 :: int], [2]]"
    "length [[9 :: rat, -9, 0], [0, -9, 9]] = length [[0 :: int, 3], [2, 3]]"
    "filter (demand_valid (num_E p)) (concat [[0, 3], [2, 3]]) = concat [[0], [2]]"
    "valid_logits (num_E p) [[0, 3], [2, 3]] [[9, -9, 0], [0, -9, 9]] = [[9, -9, 0], [0, -9, 9]]"
    "1 < length [[0 :: int], [2]] * 1" "\<not> demand_valid (num_E p) (concat [[0, 3], [2, 3]] ! 1)"
    by (simp_all add: f a STASH_ROWS_def demand_valid_def valid_logits_def)
  from padding_counts_as_demand[OF P(1-4) sg P(5) s(1,2) P(6) kr P(7,11,8) ob P(9,12,8,10,13-16)]
  show ?thesis using p s(3) by auto
qed

end
