(* ===== verification/Torch_Ops.thy ===== *)
theory Torch_Ops
  imports Prelude "HOL-Library.Multiset"
begin

text \<open>
  The selection operators of the tensor library as contracts. \<^verbatim>\<open>torch.topk\<close> leaves the order of
  equal values open and \<^verbatim>\<open>torch.argsort\<close> without \<^verbatim>\<open>stable\<close> does too, so the components take
  them as arguments and rely on the laws of the locales below, which state the documented behaviour.
  The reference operators (stable sorts) satisfy them.
\<close>

section \<open>Top-k\<close>

text \<open>The indices of the selected values above a bound.\<close>

definition topk_above :: "('a::linorder list \<Rightarrow> nat \<Rightarrow> ('a \<times> nat) list) \<Rightarrow> 'a \<Rightarrow> 'a list \<Rightarrow> nat \<Rightarrow> nat list" where
  "topk_above topk c xs k = take (length (filter (\<lambda>(v, i). c < v) (topk xs k))) (map snd (topk xs k))"

text \<open>A best selection of \<open>k\<close> indices: no value left out is above a selected one.\<close>

definition best_k :: "'a::linorder list \<Rightarrow> nat \<Rightarrow> nat list \<Rightarrow> bool" where
  "best_k xs k is \<longleftrightarrow> length is = k \<and> distinct is \<and> (\<forall>i\<in>set is. i < length xs) \<and>
     (\<forall>i\<in>set is. \<forall>j<length xs. j \<notin> set is \<longrightarrow> xs ! j \<le> xs ! i)"

lemma best_kD:
  assumes "best_k xs k is"
  shows "length is = k" "distinct is" "i \<in> set is \<Longrightarrow> i < length xs"
    "i \<in> set is \<Longrightarrow> j < length xs \<Longrightarrow> j \<notin> set is \<Longrightarrow> xs ! j \<le> xs ! i"
  using assms by (auto simp: best_k_def)

text \<open>
  A selection is inside every set of at least \<open>k\<close> indices whose values are above all others, and is
  a best selection of that set.
\<close>

lemma best_k_inside:
  assumes b: "best_k xs k is" and A: "A \<subseteq> {..<length xs}" "k \<le> card A"
    and above: "\<And>i j. i \<in> A \<Longrightarrow> j < length xs \<Longrightarrow> j \<notin> A \<Longrightarrow> xs ! j < xs ! i"
  shows "set is \<subseteq> A"
proof
  fix i
  assume i: "i \<in> set is"
  show "i \<in> A"
  proof (rule ccontr)
    assume "i \<notin> A"
    have "finite A" using A(1) finite_subset by blast
    have "A \<subseteq> set is"
    proof
      fix j assume j: "j \<in> A"
      then have jl: "j < length xs" using A(1) by auto
      have "xs ! i < xs ! j" using above[OF j best_kD(3)[OF b i] \<open>i \<notin> A\<close>] .
      then show "j \<in> set is" using best_kD(4)[OF b i jl] by force
    qed
    then have "insert i A \<subseteq> set is" using i by simp
    then have "card (insert i A) \<le> card (set is)" by (simp add: card_mono)
    also have "\<dots> = k" using best_kD(1,2)[OF b] distinct_card by metis
    finally show False using A(2) \<open>i \<notin> A\<close> \<open>finite A\<close> by simp
  qed
qed

lemma sorted_above_prefix:
  assumes "sorted_wrt (\<lambda>x y. y \<le> x) vs" and "i < length (filter (\<lambda>v. c < v) vs)"
  shows "(c::'a::linorder) < vs ! i"
  using assms
proof (induction vs arbitrary: i)
  case Nil
  then show ?case by simp
next
  case (Cons v vs)
  show ?case
  proof (cases "c < v")
    case True
    then show ?thesis using Cons.IH[of "i - 1"] Cons.prems by (cases i) auto
  next
    case False
    then have "filter (\<lambda>v. c < v) (v # vs) = []" using Cons.prems(1) by (auto simp: filter_empty_conv)
    then show ?thesis using Cons.prems(2) by simp
  qed
qed

locale topk_any =
  fixes topk :: "'a::linorder list \<Rightarrow> nat \<Rightarrow> ('a \<times> nat) list"
  assumes topk_length: "k \<le> length xs \<Longrightarrow> length (topk xs k) = k"
    and topk_value: "k \<le> length xs \<Longrightarrow> (v, i) \<in> set (topk xs k) \<Longrightarrow> i < length xs \<and> v = xs ! i"
    and topk_distinct: "k \<le> length xs \<Longrightarrow> distinct (map snd (topk xs k))"
    and topk_max: "k \<le> length xs \<Longrightarrow> (v, i) \<in> set (topk xs k) \<Longrightarrow> j < length xs \<Longrightarrow>
        j \<notin> snd ` set (topk xs k) \<Longrightarrow> xs ! j \<le> v"
begin

lemma topk_index_less: "k \<le> length xs \<Longrightarrow> n < k \<Longrightarrow> snd (topk xs k ! n) < length xs"
  using topk_value[of k xs "fst (topk xs k ! n)" "snd (topk xs k ! n)"] topk_length[of k xs]
  by simp

lemma topk_fst: "k \<le> length xs \<Longrightarrow> n < k \<Longrightarrow> fst (topk xs k ! n) = xs ! snd (topk xs k ! n)"
  using topk_value[of k xs "fst (topk xs k ! n)" "snd (topk xs k ! n)"] topk_length[of k xs]
  by simp

lemma topk_full: assumes "k = length xs" shows "set (map snd (topk xs k)) = {..<length xs}"
proof (rule card_subset_eq)
  show "finite {..<length xs}" by simp
  show "set (map snd (topk xs k)) \<subseteq> {..<length xs}"
    using topk_value[of k xs] assms by force
  show "card (set (map snd (topk xs k))) = card {..<length xs}"
    using distinct_card[OF topk_distinct[of k xs]] topk_length[of k xs] assms by simp
qed

lemma topk_best: assumes k: "k \<le> length xs" shows "best_k xs k (map snd (topk xs k))"
proof -
  have "xs ! j \<le> xs ! i" if i: "i \<in> set (map snd (topk xs k))" and j: "j < length xs" "j \<notin> set (map snd (topk xs k))" for i j
  proof -
    obtain v where v: "(v, i) \<in> set (topk xs k)" using i by auto
    have "xs ! j \<le> v" using topk_max[OF k v j(1)] j(2) by auto
    then show ?thesis using topk_value[OF k v] by simp
  qed
  moreover have "\<forall>i\<in>set (map snd (topk xs k)). i < length xs" using topk_value[OF k] by auto
  ultimately show ?thesis using topk_distinct[OF k] topk_length[OF k] by (simp add: best_k_def)
qed

lemma topk_values: assumes k: "k \<le> length xs"
  shows "map fst (topk xs k) = map (\<lambda>i. xs ! i) (map snd (topk xs k))"
  using topk_value[OF k] by (auto intro!: map_cong)

end

text \<open>With \<^verbatim>\<open>sorted=True\<close>, the default, the values come in descending order.\<close>

locale topk_op = topk_any topk for topk :: "'a::linorder list \<Rightarrow> nat \<Rightarrow> ('a \<times> nat) list" +
  assumes topk_sorted: "k \<le> length xs \<Longrightarrow> sorted_wrt (\<lambda>x y. y \<le> x) (map fst (topk xs k))"
begin

lemma above_length:
  "length (topk_above topk c xs k) = length (filter (\<lambda>(v, i). c < v) (topk xs k))"
  by (simp add: topk_above_def)

lemma above_le: "k \<le> length xs \<Longrightarrow> length (topk_above topk c xs k) \<le> k"
  using topk_length[of k xs] length_filter_le[of "\<lambda>(v, i). c < v" "topk xs k"] by (simp add: topk_above_def)

lemma above_distinct: "k \<le> length xs \<Longrightarrow> distinct (topk_above topk c xs k)"
  by (simp add: topk_above_def topk_distinct)

lemma above_mem:
  assumes k: "k \<le> length xs" and g: "g \<in> set (topk_above topk c xs k)"
  shows "g < length xs \<and> c < xs ! g"
proof -
  let ?n = "length (filter (\<lambda>(v, i). c < v) (topk xs k))"
  obtain q where q0: "q < ?n" "g = map snd (topk xs k) ! q"
    using g by (auto simp: topk_above_def in_set_conv_nth)
  then have qk: "q < k" using length_filter_le[of "\<lambda>(v, i). c < v" "topk xs k"] topk_length[OF k] by linarith
  then have q: "q < ?n" "g = snd (topk xs k ! q)" using q0 topk_length[OF k] by simp_all
  have "length (filter (\<lambda>v. c < v) (map fst (topk xs k))) = ?n"
    by (simp add: filter_map comp_def split_def)
  then have "c < map fst (topk xs k) ! q" using sorted_above_prefix[OF topk_sorted[OF k]] q(1) by simp
  then have "c < fst (topk xs k ! q)" using qk topk_length[OF k] by simp
  then show ?thesis using topk_fst[OF k qk] topk_index_less[OF k qk] q(2) by simp
qed

lemma above_nonempty:
  assumes k: "k \<le> length xs" "0 < k" and g: "g < length xs" "c < xs ! g"
  shows "topk_above topk c xs k \<noteq> []"
proof -
  have "\<exists>(v, i)\<in>set (topk xs k). c < v"
  proof (cases "g \<in> snd ` set (topk xs k)")
    case True
    then obtain v where v: "(v, g) \<in> set (topk xs k)" by force
    then show ?thesis using topk_value[OF k(1) v] g(2) by auto
  next
    case False
    have "topk xs k \<noteq> []" using topk_length[OF k(1)] k(2) by auto
    then obtain v i where v: "(v, i) \<in> set (topk xs k)" by (metis list.set_intros(1) neq_Nil_conv surj_pair)
    moreover have "c < v" using topk_max[OF k(1) v g(1) False] g(2) by simp
    ultimately show ?thesis by auto
  qed
  then have "filter (\<lambda>(v, i). c < v) (topk xs k) \<noteq> []" by (auto simp: filter_empty_conv)
  then show ?thesis using topk_length[OF k(1)] k(2) by (auto simp: topk_above_def)
qed

end

text \<open>The reference: the indices sorted by value, largest first, equal values by index.\<close>

definition order_desc :: "'a::linorder list \<Rightarrow> nat list" where
  "order_desc xs = sort_key (\<lambda>i. length (filter (\<lambda>y. xs ! i < y) xs)) [0..<length xs]"

definition topk_ref :: "'a::linorder list \<Rightarrow> nat \<Rightarrow> ('a \<times> nat) list" where
  "topk_ref xs k = map (\<lambda>i. (xs ! i, i)) (take k (order_desc xs))"

lemma set_order_desc [simp]: "set (order_desc xs) = {..<length xs}"
  by (simp add: order_desc_def atLeast0LessThan)

lemma length_order_desc [simp]: "length (order_desc xs) = length xs"
  by (simp add: order_desc_def)

lemma distinct_order_desc [simp]: "distinct (order_desc xs)"
  by (simp add: order_desc_def)

lemma rank_mono:
  fixes xs :: "'a::linorder list"
  assumes "x \<in> set xs" and "y < x"
  shows "length (filter (\<lambda>z. x < z) xs) < length (filter (\<lambda>z. y < z) xs)"
  using assms
proof (induction xs)
  case Nil
  then show ?case by simp
next
  case (Cons a xs)
  have le: "length (filter (\<lambda>z. x < z) zs) \<le> length (filter (\<lambda>z. y < z) zs)" for zs
    using \<open>y < x\<close> by (induction zs) auto
  show ?case
  proof (cases "x = a")
    case True
    then show ?thesis using le[of xs] Cons.prems(2) by auto
  next
    case False
    then show ?thesis using Cons.IH Cons.prems by auto
  qed
qed

lemma order_desc_sorted:
  assumes "m < n" and "n < length xs"
  shows "xs ! (order_desc xs ! n) \<le> xs ! (order_desc xs ! m)"
proof (rule ccontr)
  let ?r = "\<lambda>i. length (filter (\<lambda>y. xs ! i < y) xs)"
  assume "\<not> xs ! (order_desc xs ! n) \<le> xs ! (order_desc xs ! m)"
  then have lt: "xs ! (order_desc xs ! m) < xs ! (order_desc xs ! n)" by simp
  have "order_desc xs ! n < length xs"
    using assms(2) nth_mem[of n "order_desc xs"] by simp
  then have "?r (order_desc xs ! n) < ?r (order_desc xs ! m)"
    using rank_mono[OF _ lt] by simp
  moreover have "sorted (map ?r (order_desc xs))" by (simp add: order_desc_def)
  then have "?r (order_desc xs ! m) \<le> ?r (order_desc xs ! n)"
    using assms sorted_nth_mono[of "map ?r (order_desc xs)" m n] by simp
  ultimately show False by simp
qed

interpretation ref_topk: topk_op topk_ref
proof
  fix k :: nat and xs :: "'a::linorder list"
  assume k: "k \<le> length xs"
  show "length (topk_ref xs k) = k" using k by (simp add: topk_ref_def)
  show "distinct (map snd (topk_ref xs k))" by (simp add: topk_ref_def comp_def)
  show "sorted_wrt (\<lambda>x y. y \<le> x) (map fst (topk_ref xs k))"
    using k by (auto simp: topk_ref_def sorted_wrt_iff_nth_less comp_def intro!: order_desc_sorted)
  fix v i
  assume vi: "(v, i) \<in> set (topk_ref xs k)"
  have sub: "set (take k (order_desc xs)) \<subseteq> {..<length xs}"
    using set_take_subset[of k "order_desc xs"] by simp
  show "i < length xs \<and> v = xs ! i" using vi sub by (auto simp: topk_ref_def)
  fix j
  assume j: "j < length xs" "j \<notin> snd ` set (topk_ref xs k)"
  obtain m where m: "m < k" "i = order_desc xs ! m" "v = xs ! i"
    using vi k by (auto simp: topk_ref_def in_set_conv_nth)
  obtain n where n: "n < length xs" "j = order_desc xs ! n"
    using j(1) set_order_desc[of xs] by (metis in_set_conv_nth lessThan_iff length_order_desc)
  have "\<not> n < k"
  proof
    assume "n < k"
    then have "j \<in> set (take k (order_desc xs))" using n by (auto simp: in_set_conv_nth)
    then show False using j(2) by (force simp: topk_ref_def)
  qed
  then show "xs ! j \<le> v" using order_desc_sorted[of m n xs] m n by simp
qed

section \<open>Descending argsort\<close>

locale argsort_op =
  fixes argsort_desc :: "'a::linorder list \<Rightarrow> nat list"
  assumes argsort_perm: "mset (argsort_desc xs) = mset [0..<length xs]"
    and argsort_sorted: "sorted_wrt (\<lambda>x y. y \<le> x) (map (\<lambda>i. xs ! i) (argsort_desc xs))"
begin

lemma argsort_set: "set (argsort_desc xs) = {..<length xs}"
  using argsort_perm[where xs = xs] by (metis mset_eq_setD set_upt atLeast0LessThan)

lemma argsort_length: "length (argsort_desc xs) = length xs"
  using argsort_perm[where xs = xs] by (metis length_upt minus_nat.diff_0 mset_eq_length)

lemma argsort_distinct: "distinct (argsort_desc xs)"
  using argsort_perm[where xs = xs] by (metis distinct_upt mset_eq_imp_distinct_iff)

end

interpretation ref_argsort: argsort_op order_desc
proof
  fix xs :: "'a::linorder list"
  show "mset (order_desc xs) = mset [0..<length xs]" by (simp add: order_desc_def)
  show "sorted_wrt (\<lambda>x y. y \<le> x) (map (\<lambda>i. xs ! i) (order_desc xs))"
    by (auto simp: sorted_wrt_iff_nth_less intro!: order_desc_sorted)
qed

section \<open>Counting and indexing\<close>

text \<open>\<open>torch.bincount(xs, minlength=n)\<close>\<close>

definition bincount :: "nat list \<Rightarrow> nat \<Rightarrow> nat list" where
  "bincount xs n = map (\<lambda>i. count_list xs i) [0..<(if xs = [] then n else max n (Suc (Max (set xs))))]"

lemma bincount_in_range:
  "\<forall>x\<in>set xs. x < n \<Longrightarrow> bincount xs n = map (count_list xs) [0..<n]"
proof -
  assume a: "\<forall>x\<in>set xs. x < n"
  have "(if xs = [] then n else max n (Suc (Max (set xs)))) = n"
  proof (cases "xs = []")
    case False
    then have "Suc (Max (set xs)) \<le> n" using a by (simp add: Suc_le_eq)
    then show ?thesis using False by (simp only: max_absorb1 if_False)
  qed simp
  then show ?thesis by (simp add: bincount_def)
qed

text \<open>Indexing with one integer: a negative index counts from the end.\<close>

definition py_index :: "'a list \<Rightarrow> int \<Rightarrow> 'a result" where
  "py_index xs i =
     (if 0 \<le> i \<and> i < int (length xs) then Inr (xs ! nat i)
      else if i < 0 \<and> - int (length xs) \<le> i then Inr (xs ! nat (int (length xs) + i))
      else Inl IndexError)"

fun res_map :: "('a \<Rightarrow> 'b result) \<Rightarrow> 'a list \<Rightarrow> 'b list result" where
  "res_map f [] = Inr []"
| "res_map f (x # xs) = res_bind (f x) (\<lambda>y. res_bind (res_map f xs) (\<lambda>ys. Inr (y # ys)))"

lemma res_map_total: "(\<And>x. x \<in> set xs \<Longrightarrow> f x = Inr (g x)) \<Longrightarrow> res_map f xs = Inr (map g xs)"
  by (induction xs) auto

lemma res_map_Inr: "res_map f xs = Inr ys \<Longrightarrow> length ys = length xs \<and> (\<forall>i<length xs. f (xs ! i) = Inr (ys ! i))"
proof (induction xs arbitrary: ys)
  case Nil
  then show ?case by simp
next
  case (Cons x xs)
  then obtain y zs where "f x = Inr y" "res_map f xs = Inr zs" "ys = y # zs"
    by (auto simp: res_bind_Inr_iff)
  then show ?case using Cons.IH[of zs] by (auto simp: nth_Cons split: nat.splits)
qed

end
