(* ===== verification/Expert_Tier.thy ===== *)
theory Expert_Tier
  imports Torch_Ops
begin

text \<open>
  Expert tiering with ring slots (\<^verbatim>\<open>patches/expert_tier.py\<close>): the construction of a layer's tier
  and its two remap paths, the captured one and the eager one. A row of a tensor is a value of the
  type \<open>'r\<close>; the zero row and the argsort of the seed counts and the top-k of the hit counts are
  arguments.
\<close>

section \<open>State\<close>

definition RING :: nat where
  "RING = 16"

text \<open>
  \<open>t_pairs\<close> lists for every tensor the rows on the GPU and the pinned pool, \<open>t_keep_mask\<close> is true
  for the experts that are not kept, as the code has it.
\<close>

record 'r tier =
  t_pairs :: "('r list \<times> 'r list) list"
  t_lookup :: "int list"
  t_cold_rank :: "nat list"
  t_keep_mask :: "bool list"
  t_n_keep :: nat
  t_n_cold :: nat
  t_num_experts :: nat
  t_warned :: bool
  t_ring_k :: nat
  t_ring_dsts :: "nat list"

definition tiering_enabled :: "(string \<Rightarrow> string option) \<Rightarrow> bool" where
  "tiering_enabled env \<longleftrightarrow>
     (case env ''SGLANG_EXPERT_KEEP_MASK'' of None \<Rightarrow> False | Some s \<Rightarrow> s \<noteq> '''') \<and>
     env ''SGLANG_EXPERT_KEEP_OFFLOAD'' = Some ''1''"

definition load_keep_sets :: "(nat, nat list) dict \<Rightarrow> (nat, nat list) dict" where
  "load_keep_sets raw = map (\<lambda>(k, v). (k, sort v)) raw"

definition cold_list :: "nat list \<Rightarrow> nat \<Rightarrow> nat list" where
  "cold_list kp E = filter (\<lambda>g. g \<notin> set kp) [0..<E]"

text \<open>
  The cold ranks that fill the ring at the start: the most frequent ones of the layer's counts, if
  the counts have a row for the layer and the row one entry per expert.
\<close>

definition seed_ranks ::
  "(rat list \<Rightarrow> nat list) \<Rightarrow> rat list list option \<Rightarrow> int \<Rightarrow> nat list \<Rightarrow> nat \<Rightarrow> nat list option result" where
  "seed_ranks argsort counts lid kp E =
     (case counts of None \<Rightarrow> Inr None
      | Some c \<Rightarrow>
         if lid < int (length c)
         then res_bind (py_index c lid) (\<lambda>row.
           Inr (if length row = E
                then Some (take RING (argsort (index_select row (cold_list kp E)))) else None))
         else Inr None)"

definition tier_tensor ::
  "'r \<Rightarrow> nat list option \<Rightarrow> nat list \<Rightarrow> nat \<Rightarrow> 'r list \<Rightarrow> ('r list \<times> 'r list) result" where
  "tier_tensor z seed kp E t =
     (if length t \<noteq> E then Inl AssertionError
      else if \<exists>g\<in>set kp. E \<le> g then Inl IndexError
      else
        let cold_part = index_select t (cold_list kp E);
            head = (case seed of None \<Rightarrow> [] | Some s \<Rightarrow> index_select cold_part s);
            ring = head @ replicate (RING - length head) z
        in Inr (index_select t kp @ ring, cold_part))"

text \<open>
  The tensors are replaced one after the other, so an assertion that fails leaves the ones before it
  replaced.
\<close>

fun tier_tensors ::
  "'r \<Rightarrow> nat list option \<Rightarrow> nat list \<Rightarrow> nat \<Rightarrow> 'r list list \<Rightarrow> ('r list \<times> 'r list) list \<times> py_error option" where
  "tier_tensors z seed kp E [] = ([], None)"
| "tier_tensors z seed kp E (t # ts) =
     (case tier_tensor z seed kp E t of
        Inl e \<Rightarrow> ([], Some e)
      | Inr p \<Rightarrow> (let (ps, e) = tier_tensors z seed kp E ts in (p # ps, e)))"

definition tier_init ::
  "(rat list \<Rightarrow> nat list) \<Rightarrow> 'r \<Rightarrow> rat list list option \<Rightarrow> int \<Rightarrow> nat \<Rightarrow> 'r list list \<Rightarrow> nat list \<Rightarrow> 'r tier result"
where
  "tier_init argsort z counts lid E tensors kp =
     res_bind (seed_ranks argsort counts lid kp E) (\<lambda>seed.
     case tier_tensors z seed kp E tensors of (pairs, Some e) \<Rightarrow> Inl e | (pairs, None) \<Rightarrow>
       let cold = cold_list kp E; nk = length kp; rk = min RING (length cold)
       in Inr \<lparr>t_pairs = pairs,
            t_lookup = scatter (replicate E (-1)) (zip kp (map int [0..<nk])),
            t_cold_rank = scatter (replicate E 0) (zip cold [0..<length cold]),
            t_keep_mask = fill_at (replicate E True) kp False,
            t_n_keep = nk, t_n_cold = length cold, t_num_experts = E, t_warned = False,
            t_ring_k = rk, t_ring_dsts = [nk..<nk + rk]\<rparr>)"

section \<open>Remap\<close>

text \<open>
  The captured path looks every id up in the static table and drops the rest. A layer without cold
  experts has no ring slot: \<^verbatim>\<open>ring_dsts[:1]\<close> is empty and does not broadcast against the ids.
\<close>

definition miss_weight :: "int \<Rightarrow> rat \<Rightarrow> rat" where
  "miss_weight mapped w = (if mapped < 0 then 0 else w)"

definition remap_captured ::
  "'r tier \<Rightarrow> int list list \<Rightarrow> rat list list \<Rightarrow> (int list list \<times> rat list list) result" where
  "remap_captured T ids ws =
     res_bind (res_map (res_map (py_index (t_lookup T))) ids) (\<lambda>mapped.
       case t_ring_dsts T of [] \<Rightarrow> Inl RuntimeError
       | d # _ \<Rightarrow> Inr (map (map (\<lambda>i. if i < 0 then int d else i)) mapped,
                      map2 (map2 miss_weight) mapped ws))"

text \<open>
  The eager path: the counts that select the experts to copy in, the copy into the ring rows of
  every tensor, and the lookup.
\<close>

definition cold_counts :: "'r tier \<Rightarrow> int list list \<Rightarrow> nat list result" where
  "cold_counts T ids =
     (if \<exists>row\<in>set ids. \<exists>i\<in>set row. i < 0 then Inl RuntimeError
      else
        let cnt = bincount (map nat (concat ids)) (t_num_experts T)
        in if length cnt \<noteq> length (t_keep_mask T) then Inl RuntimeError
           else Inr (map2 (\<lambda>c m. if m then 0 else c) cnt (t_keep_mask T)))"

definition ring_write :: "nat list \<Rightarrow> nat list \<Rightarrow> 'r list \<times> 'r list \<Rightarrow> 'r list \<times> 'r list" where
  "ring_write dsts ords p = (scatter (fst p) (zip dsts (index_select (snd p) ords)), snd p)"

definition remap_eager ::
  "(nat list \<Rightarrow> nat \<Rightarrow> (nat \<times> nat) list) \<Rightarrow> 'r tier \<Rightarrow> int list list \<Rightarrow> rat list list \<Rightarrow>
   ('r tier \<times> int list list \<times> rat list list) result" where
  "remap_eager topk T ids ws =
     res_bind (cold_counts T ids) (\<lambda>cc.
       let top = topk cc (t_ring_k T);
           n = length (filter (\<lambda>(v, i). 0 < v) top);
           sel = take n (map snd top);
           dsts = take n (t_ring_dsts T);
           lookup = scatter (t_lookup T) (zip sel (map int dsts));
           ords = index_select (t_cold_rank T) sel;
           T1 = T\<lparr>t_pairs := (if n = 0 then t_pairs T else map (ring_write dsts ords) (t_pairs T))\<rparr>
       in res_bind (res_map (res_map (py_index lookup)) ids) (\<lambda>mapped.
            case t_ring_dsts T of [] \<Rightarrow> Inl IndexError
            | d # _ \<Rightarrow>
                Inr (T1\<lparr>t_warned := (t_warned T \<or> t_ring_k T \<le> n)\<rparr>,
                     map (map (\<lambda>i. if i < 0 then int d else i)) mapped,
                     map2 (map2 miss_weight) mapped ws)))"

definition tier_remap ::
  "bool \<Rightarrow> (nat list \<Rightarrow> nat \<Rightarrow> (nat \<times> nat) list) \<Rightarrow> 'r tier \<Rightarrow> int list list \<Rightarrow> rat list list \<Rightarrow>
   ('r tier \<times> int list list \<times> rat list list) result" where
  "tier_remap capturing topk T ids ws =
     (if capturing then res_bind (remap_captured T ids ws) (\<lambda>(i, w). Inr (T, i, w))
      else remap_eager topk T ids ws)"

section \<open>The hook of the fused layer\<close>

text \<open>
  \<open>o_packed\<close> holds the packed words, the weight in the low half; the hook widens them to 64 bits.
  Every exception of the remap is caught and the output passes through. \<open>to_std\<close> is the conversion
  of a bypassed output.
\<close>

record topk_out =
  o_bypassed :: bool
  o_ids :: "int list list option"
  o_weights :: "rat list list option"
  o_packed :: "64 word list list option"

definition repack :: "int \<Rightarrow> 64 word \<Rightarrow> 64 word" where
  "repack i p = push_bit 16 (word_of_int i) OR (p AND 0xFFFF)"

definition apply_to_topk_output ::
  "(string \<Rightarrow> string option) \<Rightarrow> bool \<Rightarrow> (nat list \<Rightarrow> nat \<Rightarrow> (nat \<times> nat) list) \<Rightarrow>
   (topk_out \<Rightarrow> topk_out result) \<Rightarrow> 'r tier option \<Rightarrow> topk_out \<Rightarrow> 'r tier option \<times> topk_out" where
  "apply_to_topk_output env capturing topk to_std tier out0 =
     (if \<not> tiering_enabled env then (tier, out0)
      else case tier of None \<Rightarrow> (None, out0)
      | Some T \<Rightarrow>
        (case (if o_bypassed out0 then to_std out0 else Inr out0) of
           Inl e \<Rightarrow> (Some T, out0)
         | Inr out \<Rightarrow>
            (case (o_ids out, o_weights out) of
               (Some ids, Some ws) \<Rightarrow>
                 (case tier_remap capturing topk T ids ws of
                    Inl e \<Rightarrow> (Some T, out)
                  | Inr (T', ids', ws') \<Rightarrow>
                      (Some T', out\<lparr>o_ids := Some ids', o_weights := Some ws',
                         o_packed := map_option (map2 (map2 repack) ids') (o_packed out)\<rparr>))
             | _ \<Rightarrow> (Some T, out))))"

text \<open>
  \<^verbatim>\<open>setup_expert_tiers\<close>: every fused module whose layer has a keep set gets a tier; the first
  exception stops the loop and is logged, the tiers built before it stay.
\<close>

record 'r fused_layer =
  fl_is_fused :: bool
  fl_id :: "nat option"
  fl_experts :: nat
  fl_tensors :: "'r list list"
  fl_tier :: "'r tier option"

definition attach_tier ::
  "(rat list \<Rightarrow> nat list) \<Rightarrow> 'r \<Rightarrow> rat list list option \<Rightarrow> (nat, nat list) dict \<Rightarrow> 'r fused_layer \<Rightarrow>
   'r fused_layer \<times> bool" where
  "attach_tier argsort z counts keeps l =
     (if \<not> fl_is_fused l then (l, True)
      else case fl_id l of None \<Rightarrow> (l, True)
      | Some lid \<Rightarrow>
        (case dget keeps lid of None \<Rightarrow> (l, True)
         | Some kp \<Rightarrow>
            (case seed_ranks argsort counts (int lid) kp (fl_experts l) of
               Inl e \<Rightarrow> (l, False)
             | Inr seed \<Rightarrow>
                (let done = map fst (fst (tier_tensors z seed kp (fl_experts l) (fl_tensors l)));
                     l1 = l\<lparr>fl_tensors := done @ drop (length done) (fl_tensors l)\<rparr>
                 in case tier_init argsort z counts (int lid) (fl_experts l) (fl_tensors l) kp of
                      Inl e \<Rightarrow> (l1, False)
                    | Inr T \<Rightarrow> (l1\<lparr>fl_tier := Some T, fl_experts := length kp + RING\<rparr>, True)))))"

fun setup_expert_tiers ::
  "(rat list \<Rightarrow> nat list) \<Rightarrow> 'r \<Rightarrow> rat list list option \<Rightarrow> (nat, nat list) dict \<Rightarrow> 'r fused_layer list \<Rightarrow>
   'r fused_layer list" where
  "setup_expert_tiers argsort z counts keeps [] = []"
| "setup_expert_tiers argsort z counts keeps (l # ls) =
     (case attach_tier argsort z counts keeps l of
        (l', False) \<Rightarrow> l' # ls
      | (l', True) \<Rightarrow> l' # setup_expert_tiers argsort z counts keeps ls)"

section \<open>The tables of a tier\<close>

lemma tier_tensors_ok:
  "tier_tensors z seed kp E ts = (ps, None) \<Longrightarrow> length ps = length ts \<and>
     (\<forall>n<length ts. tier_tensor z seed kp E (ts ! n) = Inr (ps ! n))"
proof (induction ts arbitrary: ps)
  case Nil
  then show ?case by simp
next
  case (Cons t ts)
  then obtain p qs where "tier_tensor z seed kp E t = Inr p" "tier_tensors z seed kp E ts = (qs, None)"
    "ps = p # qs" by (auto split: sum.splits prod.splits)
  then show ?case using Cons.IH[of qs] by (auto simp: nth_Cons split: nat.splits)
qed

definition tier_wf :: "nat list \<Rightarrow> nat \<Rightarrow> 'r list list \<Rightarrow> 'r tier \<Rightarrow> bool" where
  "tier_wf kp E ts T \<longleftrightarrow> (\<forall>g\<in>set kp. g < E) \<and>
     t_n_keep T = length kp \<and> t_num_experts T = E \<and> length (t_lookup T) = E \<and>
     (\<forall>g<E. g \<notin> set kp \<longrightarrow> t_lookup T ! g = -1) \<and>
     (\<forall>i<length kp. t_lookup T ! (kp ! i) = int i) \<and>
     length (t_cold_rank T) = E \<and> (\<forall>g\<in>set kp. t_cold_rank T ! g = 0) \<and>
     t_keep_mask T = map (\<lambda>g. g \<notin> set kp) [0..<E] \<and>
     t_ring_k T = min RING (length (cold_list kp E)) \<and>
     t_ring_dsts T = [length kp..<length kp + t_ring_k T] \<and>
     length (t_pairs T) = length ts \<and>
     (\<forall>n<length ts. length (ts ! n) = E \<and> length (fst (t_pairs T ! n)) = length kp + RING \<and>
        (\<forall>i<length kp. fst (t_pairs T ! n) ! i = ts ! n ! (kp ! i)) \<and>
        snd (t_pairs T ! n) = index_select (ts ! n) (cold_list kp E))"

lemma nth_scatter_zip:
  assumes "distinct ks" and "length vs = length ks" and "i < length ks" and "ks ! i < length xs"
  shows "scatter xs (zip ks vs) ! (ks ! i) = vs ! i"
  by (rule nth_scatter_distinct) (use assms in \<open>auto simp: set_zip\<close>)

lemma tier_tensor_rows:
  assumes "tier_tensor z seed kp E t = Inr (new, pool)" and "\<forall>s. seed = Some s \<longrightarrow> length s \<le> RING"
  shows "length t = E \<and> (\<forall>g\<in>set kp. g < E) \<and> length new = length kp + RING \<and>
     (\<forall>i<length kp. new ! i = t ! (kp ! i)) \<and> pool = index_select t (cold_list kp E)"
  using assms by (auto simp: tier_tensor_def Let_def nth_append not_le split: if_splits option.splits)

lemma seed_ranks_len: "seed_ranks argsort counts lid kp E = Inr (Some s) \<Longrightarrow> length s \<le> RING"
  by (auto simp: seed_ranks_def res_bind_Inr_iff split: option.splits if_splits)

lemma tier_init_wf:
  assumes run: "tier_init argsort z counts lid E ts kp = Inr T" and d: "distinct kp" and ne: "ts \<noteq> []"
  shows "tier_wf kp E ts T"
proof -
  obtain seed pairs where sd: "seed_ranks argsort counts lid kp E = Inr seed"
    and tt: "tier_tensors z seed kp E ts = (pairs, None)"
    and T: "T = \<lparr>t_pairs = pairs,
            t_lookup = scatter (replicate E (-1)) (zip kp (map int [0..<length kp])),
            t_cold_rank = scatter (replicate E 0) (zip (cold_list kp E) [0..<length (cold_list kp E)]),
            t_keep_mask = fill_at (replicate E True) kp False,
            t_n_keep = length kp, t_n_cold = length (cold_list kp E), t_num_experts = E, t_warned = False,
            t_ring_k = min RING (length (cold_list kp E)),
            t_ring_dsts = [length kp..<length kp + min RING (length (cold_list kp E))]\<rparr>"
  proof -
    obtain seed where sd: "seed_ranks argsort counts lid kp E = Inr seed"
      using run by (auto simp: tier_init_def res_bind_Inr_iff)
    obtain pairs e where tt: "tier_tensors z seed kp E ts = (pairs, e)" by fastforce
    show thesis
    proof (cases e)
      case None
      show thesis by (rule that[of seed pairs]) (use run sd tt None in \<open>simp_all add: tier_init_def Let_def\<close>)
    next
      case (Some x)
      then show thesis using run sd tt by (simp add: tier_init_def)
    qed
  qed
  note P = tier_tensors_ok[OF tt]
  have sl: "\<forall>s. seed = Some s \<longrightarrow> length s \<le> RING" using sd seed_ranks_len by blast
  have R: "length (ts ! n) = E \<and> (\<forall>g\<in>set kp. g < E) \<and> length (fst (pairs ! n)) = length kp + RING \<and>
     (\<forall>i<length kp. fst (pairs ! n) ! i = ts ! n ! (kp ! i)) \<and>
     snd (pairs ! n) = index_select (ts ! n) (cold_list kp E)" if "n < length ts" for n
    using tier_tensor_rows[OF _ sl, of z kp E "ts ! n" "fst (pairs ! n)" "snd (pairs ! n)"] P that by simp
  have kE: "\<forall>g\<in>set kp. g < E" using R[of 0] ne by simp
  have zk: "fst ` set (zip kp ys) \<subseteq> set kp" for ys :: "'z list" by (auto dest: set_zip_leftD)
  have "scatter (replicate E (-1)) (zip kp (map int [0..<length kp])) ! g = -1"
    if "g < E" "g \<notin> set kp" for g
    using that by (subst nth_scatter_notin) (auto dest: set_zip_leftD)
  moreover have "scatter (replicate E (-1)) (zip kp (map int [0..<length kp])) ! (kp ! i) = int i"
    if "i < length kp" for i
    by (subst nth_scatter_zip) (use that d kE in auto)
  moreover have "scatter (replicate E 0) (zip (cold_list kp E) [0..<length (cold_list kp E)]) ! g = 0"
    if "g \<in> set kp" for g
    using that kE by (subst nth_scatter_notin) (auto simp: cold_list_def dest: set_zip_leftD)
  moreover have "fill_at (replicate E True) kp False = map (\<lambda>g. g \<notin> set kp) [0..<E]"
    by (rule nth_equalityI) (auto simp: nth_fill_at)
  ultimately show ?thesis using R P kE by (simp add: tier_wf_def T)
qed

lemma lookup_map:
  assumes "\<forall>row\<in>set ids. \<forall>i\<in>set row. 0 \<le> i \<and> i < int (length lk)"
  shows "res_map (res_map (py_index lk)) ids = Inr (map (map (\<lambda>i. lk ! nat i)) ids)"
proof (rule res_map_total)
  fix row assume r: "row \<in> set ids"
  show "res_map (py_index lk) row = Inr (map (\<lambda>i. lk ! nat i) row)"
    by (rule res_map_total) (use assms r in \<open>auto simp: py_index_def\<close>)
qed

lemma ring_dsts_Cons:
  assumes "tier_wf kp E ts T" and "cold_list kp E \<noteq> []"
  shows "0 < t_ring_k T \<and> (\<exists>xs. t_ring_dsts T = length kp # xs)"
proof -
  have k: "0 < t_ring_k T" and d: "t_ring_dsts T = [length kp..<length kp + t_ring_k T]"
    using assms by (simp_all add: tier_wf_def RING_def)
  then show ?thesis by (simp add: upt_conv_Cons)
qed

section \<open>The captured path\<close>

text \<open>\<open>in_range E ids ws\<close>: a batch of ids of experts, with a weight for each.\<close>

definition in_range :: "nat \<Rightarrow> int list list \<Rightarrow> rat list list \<Rightarrow> bool" where
  "in_range E ids ws \<longleftrightarrow> (\<forall>row\<in>set ids. \<forall>i\<in>set row. 0 \<le> i \<and> i < int E) \<and>
     length ws = length ids \<and> (\<forall>i<length ids. length (ws ! i) = length (ids ! i))"

lemma in_rangeD:
  assumes "in_range E ids ws" and "i < length ids" and "j < length (ids ! i)"
  shows "0 \<le> ids ! i ! j" "nat (ids ! i ! j) < E" "i < length ws" "j < length (ws ! i)"
proof -
  have "ids ! i \<in> set ids" "ids ! i ! j \<in> set (ids ! i)" using assms by auto
  then have "0 \<le> ids ! i ! j \<and> ids ! i ! j < int E" using assms(1) unfolding in_range_def by blast
  then show "0 \<le> ids ! i ! j" "nat (ids ! i ! j) < E" by auto
  show "i < length ws" "j < length (ws ! i)" using assms by (auto simp: in_range_def)
qed

lemma miss_weights_nth:
  "i < length mapped \<Longrightarrow> i < length ws \<Longrightarrow> j < length (mapped ! i) \<Longrightarrow> j < length (ws ! i) \<Longrightarrow>
     map2 (map2 miss_weight) mapped ws ! i ! j = miss_weight (mapped ! i ! j) (ws ! i ! j)"
  by simp

text \<open>
  C36: the captured path of the tiering is exact masking by the keep list. For a layer with at least one
  cold expert (without one there is no ring row and the path raises), a keep list without repetitions
  and ids of experts, it succeeds, sends every kept expert to the row that holds its weights in every
  tensor, with its routing weight, and gives every cold expert the weight 0. That includes the cold
  experts whose weights the construction seeded into ring rows, which the docstring of
  \<^verbatim>\<open>LayerTier.remap\<close> counts among the experts that the captured path serves.
\<close>

theorem captured_is_masking:
  assumes run: "tier_init argsort z counts lid E ts kp = Inr T" and d: "distinct kp" and ne: "ts \<noteq> []"
    and cold: "cold_list kp E \<noteq> []" and r: "in_range E ids ws"
  shows "\<exists>ids' ws'. remap_captured T ids ws = Inr (ids', ws') \<and>
     (\<forall>i<length ids. \<forall>j<length (ids ! i). let g = nat (ids ! i ! j) in
        (if g \<in> set kp
         then ws' ! i ! j = ws ! i ! j \<and> (\<exists>p<length kp. ids' ! i ! j = int p \<and>
                (\<forall>n<length ts. fst (t_pairs T ! n) ! p = ts ! n ! g))
         else ws' ! i ! j = 0))"
proof -
  have wf: "tier_wf kp E ts T" by (rule tier_init_wf[OF run d ne])
  let ?m = "map (map (\<lambda>i. t_lookup T ! nat i)) ids"
  have "length (t_lookup T) = E" using wf by (simp add: tier_wf_def)
  then have m: "res_map (res_map (py_index (t_lookup T))) ids = Inr ?m"
    using r by (intro lookup_map) (simp add: in_range_def)
  obtain xs where dst: "t_ring_dsts T = length kp # xs" using ring_dsts_Cons[OF wf cold] by blast
  let ?x = "length kp"
  define ids' where "ids' = map (map (\<lambda>i. if i < 0 then int ?x else i)) ?m"
  define ws' where "ws' = map2 (map2 miss_weight) ?m ws"
  have "let g = nat (ids ! i ! j) in
        (if g \<in> set kp
         then ws' ! i ! j = ws ! i ! j \<and> (\<exists>p<length kp. ids' ! i ! j = int p \<and>
                (\<forall>n<length ts. fst (t_pairs T ! n) ! p = ts ! n ! g))
         else ws' ! i ! j = 0)" if ij: "i < length ids" "j < length (ids ! i)" for i j
  proof -
    note B = in_rangeD[OF r ij]
    let ?g = "nat (ids ! i ! j)"
    have w: "ws' ! i ! j = miss_weight (t_lookup T ! ?g) (ws ! i ! j)"
      using miss_weights_nth[of i ?m ws j] ij B by (simp add: ws'_def)
    have id: "ids' ! i ! j = (if t_lookup T ! ?g < 0 then int ?x else t_lookup T ! ?g)"
      using ij by (simp add: ids'_def)
    show ?thesis
    proof (cases "?g \<in> set kp")
      case True
      then obtain p where p: "p < length kp" "kp ! p = ?g" by (auto simp: in_set_conv_nth)
      then have "t_lookup T ! ?g = int p" using wf unfolding tier_wf_def by metis
      then have "ws' ! i ! j = ws ! i ! j" "ids' ! i ! j = int p" using w id by (simp_all add: miss_weight_def)
      then show ?thesis using True p wf by (auto simp: tier_wf_def)
    next
      case False
      then have "t_lookup T ! ?g = -1" using wf B(2) by (simp add: tier_wf_def)
      then show ?thesis using False w by (simp add: miss_weight_def)
    qed
  qed
  moreover have "remap_captured T ids ws = Inr (ids', ws')"
    by (simp add: remap_captured_def m dst ids'_def ws'_def)
  ultimately show ?thesis by blast
qed

section \<open>The eager path\<close>

text \<open>What the eager path selects: kept experts only, since the mask it counts with is inverted.\<close>

definition hits :: "int list list \<Rightarrow> nat \<Rightarrow> nat" where
  "hits ids g = count_list (map nat (concat ids)) g"

lemma cold_counts_wf:
  assumes wf: "tier_wf kp E ts T" and r: "in_range E ids ws"
  shows "cold_counts T ids = Inr (map (\<lambda>g. if g \<in> set kp then hits ids g else 0) [0..<E])"
proof -
  have ids: "\<forall>row\<in>set ids. \<forall>i\<in>set row. 0 \<le> i \<and> i < int E" using r by (simp add: in_range_def)
  then have nn: "\<not> (\<exists>row\<in>set ids. \<exists>i\<in>set row. i < 0)" by (meson not_less)
  have "\<forall>x\<in>set (map nat (concat ids)). x < E" using ids by fastforce
  then have b: "bincount (map nat (concat ids)) E = map (count_list (map nat (concat ids))) [0..<E]"
    by (rule bincount_in_range)
  have "map2 (\<lambda>c m. if m then 0 else c) (map (count_list (map nat (concat ids))) [0..<E]) (t_keep_mask T) =
      map (\<lambda>g. if g \<in> set kp then hits ids g else 0) [0..<E]"
    using wf by (intro nth_equalityI) (auto simp: tier_wf_def hits_def)
  then show ?thesis using nn wf
    by (simp add: cold_counts_def Let_def b tier_wf_def del: map_map set_concat)
qed

lemma hits_pos: "0 < hits ids g \<Longrightarrow> \<forall>row\<in>set ids. \<forall>i\<in>set row. 0 \<le> i \<Longrightarrow>
    \<exists>i<length ids. \<exists>j<length (ids ! i). ids ! i ! j = int g"
proof -
  assume h: "0 < hits ids g" and nn: "\<forall>row\<in>set ids. \<forall>i\<in>set row. 0 \<le> i"
  then have "g \<in> set (map nat (concat ids))" by (metis hits_def count_notin less_irrefl)
  then obtain row i where "row \<in> set ids" "i \<in> set row" "nat i = g" by auto
  then show ?thesis using nn by (metis in_set_conv_nth int_nat_eq)
qed

lemma hits_mem: "int g \<in> set (ids ! i) \<Longrightarrow> i < length ids \<Longrightarrow> 0 < hits ids g"
proof -
  assume "int g \<in> set (ids ! i)" "i < length ids"
  then have "int g \<in> set (concat ids)" by auto
  then have "g \<in> set (map nat (concat ids))" by (metis image_eqI nat_int set_map)
  then show ?thesis by (metis hits_def count_list_0_iff gr0I)
qed

lemma ring_write_rows:
  assumes len: "length new = length kp + RING" and q: "length ords \<le> RING" "\<forall>x\<in>set ords. x = (0::nat)"
  shows "r < length kp \<Longrightarrow>
      fst (ring_write [length kp..<length kp + length ords] ords (new, pool)) ! r = new ! r"
    and "x < length ords \<Longrightarrow>
      fst (ring_write [length kp..<length kp + length ords] ords (new, pool)) ! (length kp + x) = pool ! 0"
proof -
  let ?d = "[length kp..<length kp + length ords]"
  show "fst (ring_write ?d ords (new, pool)) ! r = new ! r" if "r < length kp"
    using that by (simp add: ring_write_def) (subst nth_scatter_notin; auto dest: set_zip_leftD)
  show "fst (ring_write ?d ords (new, pool)) ! (length kp + x) = pool ! 0" if x: "x < length ords"
  proof -
    have "scatter new (zip ?d (index_select pool ords)) ! (?d ! x) = index_select pool ords ! x"
      by (rule nth_scatter_zip) (use x len q(1) in auto)
    moreover have "ords ! x = 0" using x q(2) nth_mem by blast
    ultimately show ?thesis using x by (simp add: ring_write_def)
  qed
qed

text \<open>
  the eager path of the tiering serves no cold expert. Its mask is true for the experts that
  are not kept and is negated before the counts, so it selects kept experts: every cold expert gets
  the weight 0 although it is in the batch, and the kept experts that are selected are redirected,
  with their full weight, to ring rows that were just overwritten with the weights of one cold
  expert, the first; and whenever the batch uses a kept expert, some kept expert is redirected.
\<close>

theorem eager_redirects_kept:
  assumes run: "tier_init argsort z counts lid E ts kp = Inr T" and d: "distinct kp" and ne: "ts \<noteq> []"
    and cold: "cold_list kp E \<noteq> []" and r: "in_range E ids ws" and op: "topk_op topk"
  shows "\<exists>T' ids' ws'. remap_eager topk T ids ws = Inr (T', ids', ws') \<and>
     (\<forall>i<length ids. \<forall>j<length (ids ! i). let g = nat (ids ! i ! j) in
        (if g \<in> set kp
         then ws' ! i ! j = ws ! i ! j \<and> (\<exists>p. ids' ! i ! j = int p \<and>
                (\<forall>n<length ts. fst (t_pairs T' ! n) ! p =
                   ts ! n ! (if p < length kp then g else cold_list kp E ! 0)))
         else ws' ! i ! j = 0)) \<and>
     ((\<exists>i<length ids. \<exists>j<length (ids ! i). nat (ids ! i ! j) \<in> set kp) \<longrightarrow>
      (\<exists>i<length ids. \<exists>j<length (ids ! i). nat (ids ! i ! j) \<in> set kp \<and> int (length kp) \<le> ids' ! i ! j))"
proof -
  have wf: "tier_wf kp E ts T" by (rule tier_init_wf[OF run d ne])
  define cc where "cc = map (\<lambda>g. if g \<in> set kp then hits ids g else 0) [0..<E]"
  have ccs: "cold_counts T ids = Inr cc" unfolding cc_def by (rule cold_counts_wf[OF wf r])
  define k where "k = t_ring_k T"
  have kle: "k \<le> length cc" using wf length_filter_le[of "\<lambda>g. g \<notin> set kp" "[0..<E]"]
    by (auto simp: k_def cc_def tier_wf_def cold_list_def simp del: length_filter_le)
  obtain dxs where kpos: "0 < k" and dst: "t_ring_dsts T = length kp # dxs"
    using ring_dsts_Cons[OF wf cold] by (auto simp: k_def)
  define sel where "sel = topk_above topk 0 cc k"
  note S = topk_op.above_length[OF op, of 0 cc k] topk_op.above_le[OF op kle, of 0]
    topk_op.above_distinct[OF op kle, of 0] topk_op.above_mem[OF op kle, of _ 0]
    topk_op.above_nonempty[OF op kle kpos, of _ 0]
  have sn: "length sel = length (filter (\<lambda>(v, i). 0 < v) (topk cc k))" using S(1) by (simp add: sel_def)
  have sel1: "take (length sel) (map snd (topk cc k)) = sel"
    using sn by (simp add: sel_def topk_above_def)
  have selm: "g < E \<and> g \<in> set kp \<and> 0 < hits ids g" if "g \<in> set sel" for g
    using S(4)[of g] that by (auto simp: sel_def cc_def split: if_splits)
  have dd: "take (length sel) (t_ring_dsts T) = [length kp..<length kp + length sel]"
    using wf S(2) by (simp add: tier_wf_def k_def sel_def)
  define ords where "ords = index_select (t_cold_rank T) sel"
  have o0: "\<forall>x\<in>set ords. x = 0" using selm wf by (auto simp: ords_def index_select_def tier_wf_def)
  define lk where "lk = scatter (t_lookup T) (zip sel (map int [length kp..<length kp + length sel]))"
  have lkl: "length lk = E" using wf by (simp add: lk_def tier_wf_def)
  have lk_sel: "lk ! (sel ! q) = int (length kp + q)" if "q < length sel" for q
  proof -
    have "sel ! q < E" using selm nth_mem[OF that] by blast
    then have "lk ! (sel ! q) = map int [length kp..<length kp + length sel] ! q"
      unfolding lk_def using that S(3) wf by (intro nth_scatter_zip) (auto simp: sel_def tier_wf_def)
    then show ?thesis using that by simp
  qed
  have lk_not: "lk ! g = t_lookup T ! g" if "g \<notin> set sel" for g
    unfolding lk_def using that by (subst nth_scatter_notin) (auto dest: set_zip_leftD)
  define ps where "ps = (if length sel = 0 then t_pairs T
      else map (ring_write [length kp..<length kp + length sel] ords) (t_pairs T))"
  have rl: "length sel \<le> RING" using S(2) wf by (simp add: sel_def k_def tier_wf_def)
  have olen: "length ords = length sel" by (simp add: ords_def)
  have rows: "(p < length kp \<longrightarrow> fst (ps ! n) ! p = ts ! n ! (kp ! p)) \<and>
      (length kp \<le> p \<longrightarrow> p < length kp + length sel \<longrightarrow> fst (ps ! n) ! p = ts ! n ! (cold_list kp E ! 0))"
    if n: "n < length ts" for n p
  proof (cases "length sel = 0")
    case True
    then show ?thesis using n wf by (simp add: ps_def tier_wf_def)
  next
    case False
    obtain new pool where np: "t_pairs T ! n = (new, pool)" by (cases "t_pairs T ! n")
    have W: "length new = length kp + RING" "\<forall>i<length kp. new ! i = ts ! n ! (kp ! i)"
        "pool = index_select (ts ! n) (cold_list kp E)" "n < length (t_pairs T)"
      using wf n np by (auto simp: tier_wf_def)
    have e: "ps ! n = ring_write [length kp..<length kp + length ords] ords (new, pool)"
      using False W(4) np by (simp add: ps_def olen)
    note RW = ring_write_rows[OF W(1) _ o0, where pool = pool]
    have ol: "length ords \<le> RING" using rl olen by simp
    have "pool ! 0 = ts ! n ! (cold_list kp E ! 0)" using W(3) cold by simp
    then show ?thesis using RW(1)[OF ol, where r = p] RW(2)[OF ol, where x = "p - length kp"] W(2)
      by (auto simp: e olen)
  qed
  let ?m = "map (map (\<lambda>i. lk ! nat i)) ids"
  have m: "res_map (res_map (py_index lk)) ids = Inr ?m"
    using r lkl by (intro lookup_map) (simp add: in_range_def)
  define ids' where "ids' = map (map (\<lambda>i. if i < 0 then int (length kp) else i)) ?m"
  define ws' where "ws' = map2 (map2 miss_weight) ?m ws"
  define T' where "T' = T\<lparr>t_pairs := ps, t_warned := (t_warned T \<or> k \<le> length sel)\<rparr>"
  have main: "remap_eager topk T ids ws = Inr (T', ids', ws')"
    unfolding remap_eager_def ccs res_bind_simps Let_def k_def[symmetric] sn[symmetric] sel1 dd
    unfolding lk_def[symmetric] ords_def[symmetric] m dst list.case res_bind_simps
      ps_def T'_def ids'_def ws'_def
    by (rule refl)
  have pos: "ids' ! i ! j = (if lk ! nat (ids ! i ! j) < 0 then int (length kp) else lk ! nat (ids ! i ! j)) \<and>
      ws' ! i ! j = miss_weight (lk ! nat (ids ! i ! j)) (ws ! i ! j)"
    if ij: "i < length ids" "j < length (ids ! i)" for i j
    using miss_weights_nth[of i ?m ws j] ij in_rangeD[OF r ij] by (simp add: ids'_def ws'_def)
  have tp: "t_pairs T' = ps" by (simp add: T'_def)
  have cell: "let g = nat (ids ! i ! j) in
        (if g \<in> set kp
         then ws' ! i ! j = ws ! i ! j \<and> (\<exists>p. ids' ! i ! j = int p \<and>
                (\<forall>n<length ts. fst (t_pairs T' ! n) ! p =
                   ts ! n ! (if p < length kp then g else cold_list kp E ! 0)))
         else ws' ! i ! j = 0)" if ij: "i < length ids" "j < length (ids ! i)" for i j
  proof -
    note B = in_rangeD[OF r ij] and P = pos[OF ij]
    let ?g = "nat (ids ! i ! j)"
    consider (s) "?g \<in> set sel" | (k) "?g \<in> set kp" "?g \<notin> set sel" | (c) "?g \<notin> set kp" by blast
    then show ?thesis
    proof cases
      case s
      then obtain q where q: "q < length sel" "sel ! q = ?g" by (auto simp: in_set_conv_nth)
      then have l: "lk ! ?g = int (length kp + q)" using lk_sel by metis
      have "ws' ! i ! j = ws ! i ! j" "ids' ! i ! j = int (length kp + q)"
        using P l by (simp_all add: miss_weight_def)
      then show ?thesis using selm[OF s] rows[of _ "length kp + q"] q(1) by (auto simp: tp)
    next
      case k
      then obtain p where p: "p < length kp" "kp ! p = ?g" by (auto simp: in_set_conv_nth)
      then have "t_lookup T ! ?g = int p" using wf unfolding tier_wf_def by metis
      then have l: "lk ! ?g = int p" using lk_not[OF k(2)] by simp
      have "ws' ! i ! j = ws ! i ! j" "ids' ! i ! j = int p" using P l by (simp_all add: miss_weight_def)
      then show ?thesis using k(1) rows[of _ p] p by (auto simp: tp)
    next
      case c
      then have "?g \<notin> set sel" using selm by blast
      then have "lk ! ?g = -1" using lk_not wf B(2) c by (simp add: tier_wf_def)
      then show ?thesis using c P by (simp add: miss_weight_def)
    qed
  qed
  have redirected: "\<exists>i<length ids. \<exists>j<length (ids ! i). nat (ids ! i ! j) \<in> set kp \<and>
      int (length kp) \<le> ids' ! i ! j"
    if ij: "i < length ids" "j < length (ids ! i)" "nat (ids ! i ! j) \<in> set kp" for i j
  proof -
    note B = in_rangeD[OF r ij(1,2)]
    let ?g = "nat (ids ! i ! j)"
    have "int ?g \<in> set (ids ! i)" using ij B(1) by simp
    then have "0 < cc ! ?g" using hits_mem[of ?g ids i] ij B(2) by (simp add: cc_def)
    then have "sel \<noteq> []" using S(5)[of ?g] B(2) by (simp add: sel_def cc_def)
    then obtain s ss where s: "sel = s # ss" by (cases sel) auto
    have sk: "s \<in> set kp" "0 < hits ids s" using selm[of s] s by auto
    have "\<forall>row\<in>set ids. \<forall>i\<in>set row. 0 \<le> i" using r by (auto simp: in_range_def)
    then obtain i' j' where q: "i' < length ids" "j' < length (ids ! i')" "ids ! i' ! j' = int s"
      using hits_pos[OF sk(2)] by blast
    have "lk ! s = int (length kp)" using lk_sel[of 0] s by simp
    then have "ids' ! i' ! j' = int (length kp)" using pos[OF q(1,2)] q(3) by simp
    then show ?thesis using q sk(1) by (metis nat_int order_refl)
  qed
  show ?thesis using main cell redirected by blast
qed

section \<open>A concrete tier\<close>

definition ex_tier_run :: "nat tier result" where
  "ex_tier_run = tier_init order_desc 0 None 0 3 [[10, 11, 12]] [0, 2]"

definition no_tier :: "nat tier" where
  "no_tier = \<lparr>t_pairs = [], t_lookup = [], t_cold_rank = [], t_keep_mask = [], t_n_keep = 0,
     t_n_cold = 0, t_num_experts = 0, t_warned = False, t_ring_k = 0, t_ring_dsts = []\<rparr>"

definition ex_tier :: "nat tier" where
  "ex_tier = ok_or no_tier ex_tier_run"

lemma ex_tier_Inr: "tier_init order_desc 0 None 0 3 [[10, 11, 12]] [0, 2] = Inr ex_tier"
proof -
  have "is_ok ex_tier_run" by code_simp
  from ok_or_eq[OF this, of no_tier] show ?thesis unfolding ex_tier_run_def ex_tier_def .
qed

lemma ex_in_range: "in_range 3 [[0, 1, 2]] [[1 / 2, 1 / 4, 1 / 4]]"
  by (simp add: in_range_def)

lemma ex_cold: "cold_list [0, 2] 3 = [1]"
  by code_simp

text \<open>The same layer with counts, so that the cold expert 1 is seeded into the first ring row.\<close>

definition ex_seeded_run :: "nat tier result" where
  "ex_seeded_run = tier_init order_desc 0 (Some [[1, 5, 2]]) 0 3 [[10, 11, 12]] [0, 2]"

definition ex_seeded :: "nat tier" where
  "ex_seeded = ok_or no_tier ex_seeded_run"

lemma ex_seeded_Inr: "tier_init order_desc 0 (Some [[1, 5, 2]]) 0 3 [[10, 11, 12]] [0, 2] = Inr ex_seeded"
proof -
  have "is_ok ex_seeded_run" by code_simp
  from ok_or_eq[OF this, of no_tier] show ?thesis unfolding ex_seeded_run_def ex_seeded_def .
qed

theorem captured_is_masking_witness:
  "\<exists>ids' ws'. remap_captured ex_seeded [[0, 1, 2]] [[1 / 2, 1 / 4, 1 / 4]] = Inr (ids', ws') \<and>
     fst (t_pairs ex_seeded ! 0) ! 2 = 11 \<and> ws' ! 0 ! 1 = 0 \<and> ws' ! 0 ! 2 = 1 / 4"
proof -
  have seed: "fst (t_pairs ex_seeded ! 0) ! 2 = 11" by code_simp
  from captured_is_masking[OF ex_seeded_Inr _ _ _ ex_in_range] ex_cold
  obtain ids' ws' where R: "remap_captured ex_seeded [[0, 1, 2]] [[1 / 2, 1 / 4, 1 / 4]] = Inr (ids', ws')"
    "\<forall>i<length [[0::int, 1, 2]]. \<forall>j<length ([[0::int, 1, 2]] ! i). let g = nat ([[0, 1, 2]] ! i ! j) in
        (if g \<in> set [0, 2]
         then ws' ! i ! j = [[1 / 2, 1 / 4, 1 / 4]] ! i ! j \<and> (\<exists>p<length [0::nat, 2]. ids' ! i ! j = int p \<and>
                (\<forall>n<length [[10::nat, 11, 12]]. fst (t_pairs ex_seeded ! n) ! p = [[10, 11, 12]] ! n ! g))
         else ws' ! i ! j = 0)" by fastforce
  from R(2)[rule_format, of 0 1] R(2)[rule_format, of 0 2] R(1) seed show ?thesis by simp
qed

theorem eager_redirects_kept_witness:
  "\<exists>T' ids' ws'. remap_eager topk_ref ex_tier [[0, 1, 2]] [[1 / 2, 1 / 4, 1 / 4]] = Inr (T', ids', ws') \<and>
     ws' ! 0 ! 1 = 0 \<and> (\<exists>i<1. \<exists>j<3. 2 \<le> ids' ! i ! j)"
proof -
  have op: "topk_op (topk_ref :: nat list \<Rightarrow> nat \<Rightarrow> (nat \<times> nat) list)" by (rule ref_topk.topk_op_axioms)
  from eager_redirects_kept[OF ex_tier_Inr _ _ _ ex_in_range op] ex_cold
  obtain T' ids' ws' where R: "remap_eager topk_ref ex_tier [[0, 1, 2]] [[1 / 2, 1 / 4, 1 / 4]] = Inr (T', ids', ws')"
    "\<forall>i<length [[0::int, 1, 2]]. \<forall>j<length ([[0::int, 1, 2]] ! i). let g = nat ([[0, 1, 2]] ! i ! j) in
        (if g \<in> set [0, 2]
         then ws' ! i ! j = [[1 / 2, 1 / 4, 1 / 4]] ! i ! j \<and> (\<exists>p. ids' ! i ! j = int p \<and>
                (\<forall>n<length [[10::nat, 11, 12]]. fst (t_pairs T' ! n) ! p =
                   [[10, 11, 12]] ! n ! (if p < length [0::nat, 2] then g else cold_list [0, 2] 3 ! 0)))
         else ws' ! i ! j = 0)"
    "(\<exists>i<length [[0::int, 1, 2]]. \<exists>j<length ([[0::int, 1, 2]] ! i). nat ([[0::int, 1, 2]] ! i ! j) \<in> set [0, 2]) \<longrightarrow>
      (\<exists>i<length [[0::int, 1, 2]]. \<exists>j<length ([[0::int, 1, 2]] ! i). nat ([[0::int, 1, 2]] ! i ! j) \<in> set [0, 2] \<and>
         int (length [0::nat, 2]) \<le> ids' ! i ! j)" by fastforce
  have "\<exists>i<length [[0::int, 1, 2]]. \<exists>j<length ([[0::int, 1, 2]] ! i). nat ([[0::int, 1, 2]] ! i ! j) \<in> set [0, 2]"
    by (intro exI[of _ 0] conjI) simp_all
  with R(3) have "\<exists>i<1. \<exists>j<3. 2 \<le> ids' ! i ! j" by (auto simp: numeral_3_eq_3)
  moreover have "ws' ! 0 ! 1 = 0" using R(2)[rule_format, of 0 1] by simp
  ultimately show ?thesis using R(1) by blast
qed

section \<open>Packed outputs\<close>

lemma repack_low: "repack i p AND 0xFFFF = p AND 0xFFFF"
proof (rule bit_word_eqI)
  have m: "(0xFFFF :: 64 word) = mask 16" by (simp add: mask_eq_exp_minus_1)
  fix n assume "n < LENGTH(64)"
  show "bit (repack i p AND 0xFFFF) n = bit (p AND 0xFFFF) n"
    by (auto simp: repack_def m bit_simps)
qed

text \<open>
  in a packed output a dropped expert keeps its weight. On the captured path the hook gives a
  cold expert the weight 0 in the weight tensor, but the packed word, whose low half is the weight,
  is rebuilt with the old low half; a kernel that reads the packed words adds the row it was sent to.
\<close>

theorem packed_keeps_dropped_weight:
  assumes en: "tiering_enabled env" and run: "tier_init argsort z counts lid E ts kp = Inr T"
    and d: "distinct kp" and ne: "ts \<noteq> []" and cold: "cold_list kp E \<noteq> []" and r: "in_range E ids ws"
    and out: "\<not> o_bypassed out" "o_ids out = Some ids" "o_weights out = Some ws" "o_packed out = Some pk"
    and pk: "length pk = length ids" "\<forall>i<length ids. length (pk ! i) = length (ids ! i)"
  shows "\<exists>out' ws' pk'. apply_to_topk_output env True topk to_std (Some T) out = (Some T, out') \<and>
     o_weights out' = Some ws' \<and> o_packed out' = Some pk' \<and>
     (\<forall>i<length ids. \<forall>j<length (ids ! i). nat (ids ! i ! j) \<notin> set kp \<longrightarrow>
        ws' ! i ! j = 0 \<and> pk' ! i ! j AND 0xFFFF = pk ! i ! j AND 0xFFFF)"
proof -
  have wf: "tier_wf kp E ts T" by (rule tier_init_wf[OF run d ne])
  let ?m = "map (map (\<lambda>i. t_lookup T ! nat i)) ids"
  have "length (t_lookup T) = E" using wf by (simp add: tier_wf_def)
  then have m: "res_map (res_map (py_index (t_lookup T))) ids = Inr ?m"
    using r by (intro lookup_map) (simp add: in_range_def)
  obtain xs where dst: "t_ring_dsts T = length kp # xs" using ring_dsts_Cons[OF wf cold] by blast
  define ids' where "ids' = map (map (\<lambda>i. if i < 0 then int (length kp) else i)) ?m"
  define ws' where "ws' = map2 (map2 miss_weight) ?m ws"
  have cap: "tier_remap True topk T ids ws = Inr (T, ids', ws')"
    by (simp add: tier_remap_def remap_captured_def m dst ids'_def ws'_def)
  define pk' where "pk' = map2 (map2 repack) ids' pk"
  have "ws' ! i ! j = 0 \<and> pk' ! i ! j AND 0xFFFF = pk ! i ! j AND 0xFFFF"
    if ij: "i < length ids" "j < length (ids ! i)" and c: "nat (ids ! i ! j) \<notin> set kp" for i j
  proof -
    note B = in_rangeD[OF r ij]
    have "t_lookup T ! nat (ids ! i ! j) = -1" using wf B(2) c by (simp add: tier_wf_def)
    then have "ws' ! i ! j = 0"
      using miss_weights_nth[of i ?m ws j] ij B by (simp add: ws'_def miss_weight_def)
    moreover have "pk' ! i ! j = repack (ids' ! i ! j) (pk ! i ! j)"
      using ij pk by (simp add: pk'_def ids'_def)
    ultimately show ?thesis by (simp add: repack_low)
  qed
  moreover have "apply_to_topk_output env True topk to_std (Some T) out =
      (Some T, out\<lparr>o_ids := Some ids', o_weights := Some ws', o_packed := Some pk'\<rparr>)"
    using en out cap by (simp add: apply_to_topk_output_def pk'_def)
  ultimately show ?thesis by (intro exI[of _ ws'] exI[of _ pk'] exI conjI) (assumption | simp)+
qed

definition ex_tier_env :: "string \<Rightarrow> string option" where
  "ex_tier_env s = (if s = ''SGLANG_EXPERT_KEEP_MASK'' then Some ''k''
     else if s = ''SGLANG_EXPERT_KEEP_OFFLOAD'' then Some ''1'' else None)"

definition ex_topk_out :: topk_out where
  "ex_topk_out = \<lparr>o_bypassed = False, o_ids = Some [[0, 1, 2]], o_weights = Some [[1 / 2, 1 / 4, 1 / 4]],
     o_packed = Some [[7, 0x10009, 0x20003]]\<rparr>"

theorem packed_keeps_dropped_weight_witness:
  "\<exists>out' ws' pk'. apply_to_topk_output ex_tier_env True topk_ref Inr (Some ex_tier) ex_topk_out = (Some ex_tier, out') \<and>
     o_weights out' = Some ws' \<and> o_packed out' = Some pk' \<and> ws' ! 0 ! 1 = 0 \<and> pk' ! 0 ! 1 AND 0xFFFF = 9"
proof -
  have en: "tiering_enabled ex_tier_env" by code_simp
  have ne: "cold_list [0, 2] 3 \<noteq> []" by (simp add: ex_cold)
  from packed_keeps_dropped_weight[OF en ex_tier_Inr _ _ ne ex_in_range,
      of ex_topk_out "[[7, 0x10009, 0x20003]]" topk_ref Inr]
  obtain out' ws' pk' where R: "apply_to_topk_output ex_tier_env True topk_ref Inr (Some ex_tier) ex_topk_out = (Some ex_tier, out')"
     "o_weights out' = Some ws'" "o_packed out' = Some pk'"
     "\<forall>i<length [[0::int, 1, 2]]. \<forall>j<length ([[0::int, 1, 2]] ! i). nat ([[0, 1, 2]] ! i ! j) \<notin> set [0, 2] \<longrightarrow>
        ws' ! i ! j = 0 \<and> pk' ! i ! j AND 0xFFFF = [[7, 0x10009, 0x20003]] ! i ! j AND 0xFFFF"
    by (auto simp: ex_topk_out_def)
  from R(4)[rule_format, of 0 1] R(1-3) show ?thesis by auto
qed

end
