(* ===== verification/Slot_Alloc.thy ===== *)
theory Slot_Alloc
  imports Torch_Ops
begin

text \<open>
  Slot allocators. \<open>alloc_ops\<close> are the operations that the pools call on an allocator that is not
  part of the repository (\<^verbatim>\<open>MambaSlotAllocator\<close>), and \<open>slot_alloc\<close> the contract they rely on:
  which slots are free, what an allocation takes and what a release gives back. The free list of the
  request pool (\<open>Req_Pool\<close>) satisfies the contract.
\<close>

record 'a alloc_ops =
  al_alloc :: "'a \<Rightarrow> nat \<Rightarrow> 'a \<times> nat list option"
  al_free :: "'a \<Rightarrow> nat list \<Rightarrow> 'a"
  al_available :: "'a \<Rightarrow> nat"
  al_clear :: "'a \<Rightarrow> 'a"

locale slot_alloc =
  fixes ops :: "'a alloc_ops" and ok :: "'a \<Rightarrow> bool"
    and avail :: "'a \<Rightarrow> nat set" and slots :: "'a \<Rightarrow> nat set"
  assumes avail_sub: "ok a \<Longrightarrow> avail a \<subseteq> slots a \<and> finite (slots a)"
    and alloc_some: "ok a \<Longrightarrow> al_alloc ops a n = (a', Some ss) \<Longrightarrow>
        ok a' \<and> slots a' = slots a \<and> length ss = n \<and> distinct ss \<and> set ss \<subseteq> avail a \<and>
        avail a' = avail a - set ss"
    and alloc_none: "ok a \<Longrightarrow> al_alloc ops a n = (a', None) \<Longrightarrow> a' = a \<and> card (avail a) < n"
    and free_ok: "ok a \<Longrightarrow> distinct ss \<Longrightarrow> set ss \<subseteq> slots a - avail a \<Longrightarrow>
        ok (al_free ops a ss) \<and> slots (al_free ops a ss) = slots a \<and>
        avail (al_free ops a ss) = avail a \<union> set ss"
    and available: "ok a \<Longrightarrow> al_available ops a = card (avail a)"
    and clear_ok: "ok a \<Longrightarrow> ok (al_clear ops a) \<and> slots (al_clear ops a) = slots a \<and>
        avail (al_clear ops a) = slots a"
begin

lemma alloc_total:
  assumes "ok a" and "n \<le> card (avail a)"
  shows "\<exists>a' ss. al_alloc ops a n = (a', Some ss)"
  using alloc_none[OF assms(1), of n] assms(2) by (cases "al_alloc ops a n"; cases "snd (al_alloc ops a n)") auto

text \<open>An allocation followed by the release of what it returned gives back the same free slots.\<close>

lemma alloc_free:
  assumes a: "ok a" and r: "al_alloc ops a n = (a', Some ss)"
  shows "ok (al_free ops a' ss) \<and> avail (al_free ops a' ss) = avail a"
proof -
  note A = alloc_some[OF a r]
  have "set ss \<subseteq> slots a' - avail a'" using A avail_sub[OF a] by auto
  from free_ok[OF _ _ this] A show ?thesis by auto
qed

end

end
