(* ===== verification/Mamba_Ckpt.thy ===== *)
theory Mamba_Ckpt
  imports Slot_Alloc
begin

text \<open>
  The int8 checkpoint pool of the linear-attention states
  (\<^verbatim>\<open>runtime-src/mamba_checkpoint_pool.py\<close>): symmetric quantisation per head and key channel,
  the store and load of slots, the transfer between the active pool and the checkpoints with the
  convolution windows and the side states, the size estimate and the construction check.

  The rounding of a value to the storage type of the state is an argument \<open>rnd\<close>; the arithmetic in
  between is exact. A quantised value is an \<open>8 word\<close> read as a signed number.
\<close>

section \<open>Quantisation\<close>

definition QMAX :: int where
  "QMAX = 127"

definition round_half_even :: "rat \<Rightarrow> int" where
  "round_half_even x =
     (let f = \<lfloor>x\<rfloor>; d = x - of_int f
      in if d < 1 / 2 then f else if 1 / 2 < d then f + 1 else if even f then f else f + 1)"

definition clamp_q :: "int \<Rightarrow> int" where
  "clamp_q i = max (- QMAX) (min QMAX i)"

definition amax :: "rat list \<Rightarrow> rat" where
  "amax xs = max (Max (set (0 # map abs xs))) (1 / 100000000)"

definition col_scale :: "(rat \<Rightarrow> rat) \<Rightarrow> rat list \<Rightarrow> rat" where
  "col_scale rnd xs = rnd (amax xs / of_int QMAX)"

definition quant1 :: "rat \<Rightarrow> rat \<Rightarrow> 8 word" where
  "quant1 s x = word_of_int (clamp_q (round_half_even (x / s)))"

definition dequant1 :: "(rat \<Rightarrow> rat) \<Rightarrow> rat \<Rightarrow> 8 word \<Rightarrow> rat" where
  "dequant1 rnd s q = rnd (of_int (sint q) * s)"

text \<open>
  A head is the list of its key channels, and a channel the list of its \<open>d_v\<close> values, so that the
  reduction runs over one inner list. \<open>quantize\<close> and \<open>dequantize\<close> work on one head.
\<close>

type_synonym head = "rat list list"
type_synonym qhead = "(rat \<times> 8 word list) list"

definition quantize :: "(rat \<Rightarrow> rat) \<Rightarrow> head \<Rightarrow> qhead" where
  "quantize rnd h = map (\<lambda>xs. let s = col_scale rnd xs in (s, map (quant1 s) xs)) h"

definition dequantize :: "(rat \<Rightarrow> rat) \<Rightarrow> qhead \<Rightarrow> head" where
  "dequantize rnd q = map (\<lambda>(s, qs). map (dequant1 rnd s) qs) q"

section \<open>The int8 store\<close>

text \<open>
  A tensor is the list of its layers and a layer the list of its slots; \<open>store\<close> takes one state per
  layer and slot index, \<open>put_slots\<close> is the indexed store \<^verbatim>\<open>t[:, slots] = vs\<close>.
\<close>

definition put_slots :: "'a list list \<Rightarrow> nat list \<Rightarrow> 'a list list \<Rightarrow> 'a list list" where
  "put_slots t slots vs = map2 (\<lambda>row v. scatter row (zip slots v)) t vs"

definition get_slots :: "'a list list \<Rightarrow> nat list \<Rightarrow> 'a list list" where
  "get_slots t slots = map (\<lambda>row. index_select row slots) t"

definition store ::
  "(rat \<Rightarrow> rat) \<Rightarrow> qhead list list list \<Rightarrow> nat list \<Rightarrow> head list list list \<Rightarrow> qhead list list list" where
  "store rnd qs slots state = put_slots qs slots (map (map (map (quantize rnd))) state)"

definition load :: "(rat \<Rightarrow> rat) \<Rightarrow> qhead list list list \<Rightarrow> nat list \<Rightarrow> head list list list" where
  "load rnd qs slots = map (map (map (dequantize rnd))) (get_slots qs slots)"

definition copy_to_pool ::
  "(rat \<Rightarrow> rat) \<Rightarrow> qhead list list list \<Rightarrow> head list list list \<Rightarrow> nat list \<Rightarrow> nat list \<Rightarrow> head list list list"
where
  "copy_to_pool rnd qs temporal src dst = put_slots temporal dst (load rnd qs src)"

definition store_from_pool ::
  "(rat \<Rightarrow> rat) \<Rightarrow> qhead list list list \<Rightarrow> head list list list \<Rightarrow> nat list \<Rightarrow> nat list \<Rightarrow> qhead list list list"
where
  "store_from_pool rnd qs temporal src dst = store rnd qs dst (get_slots temporal src)"

section \<open>The checkpoint pool\<close>

text \<open>
  A side state is layer-major (the short convolution), slot-major (the n-gram context), or has no
  slot tensor. The pool mirrors those that have one; each mirror keeps the position of its source.
\<close>

datatype 'p side = ConvState "'p list list" | Context "'p list" | NoSource

record 'c active_pool =
  a_temporal :: "head list list list"
  a_conv :: "'c list list list"

record ('c, 'p, 'a) ckpt_pool =
  c_num_slots :: nat
  c_q :: "qhead list list list"
  c_conv :: "'c list list list"
  c_mirrors :: "(nat \<times> 'p side) list"
  c_alloc :: 'a

definition ple_source :: "'p side \<Rightarrow> 'p side option" where
  "ple_source s = (case s of NoSource \<Rightarrow> None | _ \<Rightarrow> Some s)"

text \<open>
  The tensors of a new pool are uninitialised: \<open>jq\<close>, \<open>jc\<close> and \<open>jp\<close> are what they happen to hold.
\<close>

definition blank_mirror :: "'p \<Rightarrow> nat \<Rightarrow> 'p side \<Rightarrow> 'p side option" where
  "blank_mirror jp n s =
     (case ple_source s of
        Some (ConvState t) \<Rightarrow> Some (ConvState (map (\<lambda>_. replicate (n + 1) jp) t))
      | Some (Context t) \<Rightarrow> Some (Context (replicate (n + 1) jp))
      | _ \<Rightarrow> None)"

definition init_ckpt_pool ::
  "qhead list \<Rightarrow> 'c \<Rightarrow> 'p \<Rightarrow> nat \<Rightarrow> nat \<Rightarrow> nat \<Rightarrow> 'p side list \<Rightarrow> 'a \<Rightarrow> ('c, 'p, 'a) ckpt_pool" where
  "init_ckpt_pool jq jc jp num_layers num_slots num_conv sides alloc =
     \<lparr>c_num_slots = num_slots, c_q = replicate num_layers (replicate (num_slots + 1) jq),
      c_conv = replicate num_conv (replicate num_layers (replicate (num_slots + 1) jc)),
      c_mirrors = [(k, the (blank_mirror jp num_slots s)).
                     (k, s) \<leftarrow> enumerate 0 sides, blank_mirror jp num_slots s \<noteq> None],
      c_alloc = alloc\<rparr>"

definition side_copy :: "'p side \<Rightarrow> nat list \<Rightarrow> 'p side \<Rightarrow> nat list \<Rightarrow> 'p side" where
  "side_copy dst dslots src sslots =
     (case (dst, src) of
        (ConvState d, ConvState s) \<Rightarrow> ConvState (put_slots d dslots (get_slots s sslots))
      | (Context d, Context s) \<Rightarrow> Context (scatter d (zip dslots (index_select s sslots)))
      | _ \<Rightarrow> dst)"

definition store_from_active ::
  "(rat \<Rightarrow> rat) \<Rightarrow> ('c, 'p, 'a) ckpt_pool \<Rightarrow> 'c active_pool \<Rightarrow> 'p side list \<Rightarrow> nat list \<Rightarrow> nat list \<Rightarrow>
   ('c, 'p, 'a) ckpt_pool" where
  "store_from_active rnd ck act sides active_slots ckpt_slots = ck\<lparr>
     c_q := store_from_pool rnd (c_q ck) (a_temporal act) active_slots ckpt_slots,
     c_conv := map2 (\<lambda>c a. put_slots c ckpt_slots (get_slots a active_slots)) (c_conv ck) (a_conv act),
     c_mirrors := map (\<lambda>(k, mir). (k, side_copy mir ckpt_slots (sides ! k) active_slots)) (c_mirrors ck)\<rparr>"

definition load_to_active ::
  "(rat \<Rightarrow> rat) \<Rightarrow> ('c, 'p, 'a) ckpt_pool \<Rightarrow> 'c active_pool \<Rightarrow> 'p side list \<Rightarrow> nat list \<Rightarrow> nat list \<Rightarrow>
   'c active_pool \<times> 'p side list" where
  "load_to_active rnd ck act sides ckpt_slots active_slots =
     (act\<lparr>a_temporal := copy_to_pool rnd (c_q ck) (a_temporal act) ckpt_slots active_slots,
          a_conv := map2 (\<lambda>a c. put_slots a active_slots (get_slots c ckpt_slots)) (a_conv act) (c_conv ck)\<rparr>,
      fold (\<lambda>(k, mir) ss. ss[k := side_copy (ss ! k) active_slots mir ckpt_slots]) (c_mirrors ck) sides)"

text \<open>The slot lifecycle is the embedded allocator's, whose operations are arguments.\<close>

definition ck_alloc :: "'a alloc_ops \<Rightarrow> ('c, 'p, 'a) ckpt_pool \<Rightarrow> nat \<Rightarrow> ('c, 'p, 'a) ckpt_pool \<times> nat list option" where
  "ck_alloc ops ck n = (let (a, r) = al_alloc ops (c_alloc ck) n in (ck\<lparr>c_alloc := a\<rparr>, r))"

definition ck_free :: "'a alloc_ops \<Rightarrow> ('c, 'p, 'a) ckpt_pool \<Rightarrow> nat list \<Rightarrow> ('c, 'p, 'a) ckpt_pool" where
  "ck_free ops ck slots = ck\<lparr>c_alloc := al_free ops (c_alloc ck) slots\<rparr>"

definition ck_available_size :: "'a alloc_ops \<Rightarrow> ('c, 'p, 'a) ckpt_pool \<Rightarrow> nat" where
  "ck_available_size ops ck = al_available ops (c_alloc ck)"

definition ck_clear :: "'a alloc_ops \<Rightarrow> ('c, 'p, 'a) ckpt_pool \<Rightarrow> ('c, 'p, 'a) ckpt_pool" where
  "ck_clear ops ck = ck\<lparr>c_alloc := al_clear ops (c_alloc ck)\<rparr>"

section \<open>Sizes\<close>

text \<open>
  The layout of a pool: the shapes of its tensors. \<open>ple\<close> lists the side states with a slot tensor:
  its shape, its slot axis and the size of one element.
\<close>

record layout =
  l_layers :: nat
  l_slots :: nat
  l_heads :: nat
  l_dv :: nat
  l_dk :: nat
  l_conv :: "nat list list"
  l_conv_isz :: nat
  l_scale_isz :: nat

definition tensor_bytes :: "nat list \<Rightarrow> nat \<Rightarrow> nat" where
  "tensor_bytes shape isz = prod_list shape * isz"

definition store_bytes :: "layout \<Rightarrow> nat" where
  "store_bytes l =
     tensor_bytes [l_layers l, l_slots l + 1, l_heads l, l_dv l, l_dk l] 1 +
     tensor_bytes [l_layers l, l_slots l + 1, l_heads l, 1, l_dk l] (l_scale_isz l)"

definition bytes_per_slot :: "layout \<Rightarrow> nat" where
  "bytes_per_slot l = store_bytes l div max 1 (l_slots l + 1)"

definition mirror_shape :: "nat \<Rightarrow> nat list \<times> nat \<times> nat \<Rightarrow> nat list" where
  "mirror_shape slots p = (case p of (shape, axis, isz) \<Rightarrow> shape[axis := slots + 1])"

definition mem_usage_bytes :: "layout \<Rightarrow> (nat list \<times> nat \<times> nat) list \<Rightarrow> nat" where
  "mem_usage_bytes l ple =
     store_bytes l +
     sum_list (map (\<lambda>s. tensor_bytes ([l_layers l, l_slots l + 1] @ s) (l_conv_isz l)) (l_conv l)) +
     sum_list (map (\<lambda>p. tensor_bytes (mirror_shape (l_slots l) p) (snd (snd p))) ple)"

definition estimate_mem_usage_bytes :: "layout \<Rightarrow> nat \<Rightarrow> nat" where
  "estimate_mem_usage_bytes l ple_extra =
     (let slots = l_slots l + 1;
          qdata = l_layers l * slots * l_heads l * l_dv l * l_dk l;
          scale = l_layers l * slots * l_heads l * l_dk l * l_scale_isz l;
          conv = sum_list (map (\<lambda>s. l_layers l * slots * prod_list s * l_conv_isz l) (l_conv l))
      in qdata + scale + conv + ple_extra)"

definition ple_extra_bytes :: "nat \<Rightarrow> (nat list \<times> nat \<times> nat) list \<Rightarrow> nat" where
  "ple_extra_bytes ckpt_size ple =
     sum_list (map (\<lambda>(shape, axis, isz).
       (ckpt_size + 1) * prod_list (map (\<lambda>i. if i = axis then 1 else shape ! i) [0..<length shape]) * isz) ple)"

text \<open>
  \<^verbatim>\<open>maybe_init_int8_mamba_checkpoint_pool\<close>: the layout to build, nothing when the option is off,
  an error when the estimate does not fit in the free memory. \<open>exec\<close> is the option and its size, or
  nothing without a server context.
\<close>

definition maybe_init ::
  "(bool \<times> nat) option \<Rightarrow> nat \<Rightarrow> layout \<Rightarrow> (nat list \<times> nat \<times> nat) list \<Rightarrow> nat option \<Rightarrow> layout option result"
where
  "maybe_init exec mamba_size l ple free_bytes =
     (case exec of None \<Rightarrow> Inr None
      | Some (enabled, sz) \<Rightarrow>
         if \<not> enabled then Inr None
         else
           let ckpt = (if sz \<noteq> 0 then sz else 2 * mamba_size);
               l' = l\<lparr>l_slots := ckpt\<rparr>;
               total = estimate_mem_usage_bytes l' (ple_extra_bytes ckpt ple)
           in case free_bytes of
                Some f \<Rightarrow> if f \<le> total then Inl RuntimeError else Inr (Some l')
              | None \<Rightarrow> Inr (Some l'))"

section \<open>Rounding\<close>

lemma round_half_even_error: "\<bar>of_int (round_half_even x) - x\<bar> \<le> 1 / 2"
proof -
  let ?f = "\<lfloor>x\<rfloor>"
  have "of_int ?f \<le> x" "x < of_int ?f + 1" using floor_correct[of x] by auto
  then show ?thesis by (auto simp: round_half_even_def Let_def abs_le_iff)
qed

lemma round_half_even_le: "x < of_int n + 1 / 2 \<Longrightarrow> round_half_even x \<le> n"
proof -
  assume x: "x < of_int n + 1 / 2"
  have "of_int (round_half_even x) \<le> x + 1 / 2" using round_half_even_error[of x] by linarith
  then have "(of_int (round_half_even x) :: rat) < of_int (n + 1)" using x by simp
  then have "round_half_even x < n + 1" by (simp only: of_int_less_iff)
  then show ?thesis by simp
qed

lemma round_half_even_ge: "- of_int n - 1 / 2 < x \<Longrightarrow> - n \<le> round_half_even x"
proof -
  assume x: "- of_int n - 1 / 2 < x"
  have "x - 1 / 2 \<le> of_int (round_half_even x)" using round_half_even_error[of x] by linarith
  then have "(of_int (- n - 1) :: rat) < of_int (round_half_even x)" using x by simp
  then have "- n - 1 < round_half_even x" by (simp only: of_int_less_iff)
  then show ?thesis by simp
qed

lemma sint_quant1: "sint (quant1 s x) = clamp_q (round_half_even (x / s))"
proof -
  let ?c = "clamp_q (round_half_even (x / s))"
  have "- 127 \<le> ?c" "?c \<le> 127" by (auto simp: clamp_q_def QMAX_def)
  then show ?thesis unfolding quant1_def
    by (simp add: signed_of_int signed_take_bit_int_eq_self)
qed

text \<open>
  The storage type as the code uses it: the scale keeps its sign and moves by at most one part in
  256, which holds of all floating-point types of 8 or more bits of precision in their normal range.
\<close>

definition storage_rounding :: "(rat \<Rightarrow> rat) \<Rightarrow> bool" where
  "storage_rounding rnd \<longleftrightarrow> (\<forall>s>0. \<bar>rnd s - s\<bar> \<le> s / 256)"

lemma amax_bounds: "x \<in> set xs \<Longrightarrow> \<bar>x\<bar> \<le> amax xs" "0 < amax xs"
proof -
  show "0 < amax xs" by (simp add: amax_def max_def not_le)
  assume "x \<in> set xs"
  then have "\<bar>x\<bar> \<le> Max (set (0 # map abs xs))" by (intro Max_ge) auto
  then show "\<bar>x\<bar> \<le> amax xs" by (simp add: amax_def)
qed

lemma col_scale_bounds:
  assumes "storage_rounding rnd"
  shows "0 < col_scale rnd xs" and "amax xs * 255 / 256 \<le> 127 * col_scale rnd xs"
    and "127 * col_scale rnd xs \<le> amax xs * 257 / 256"
proof -
  have a: "0 < amax xs / 127" using amax_bounds(2)[of xs] by simp
  then have "\<bar>rnd (amax xs / 127) - amax xs / 127\<bar> \<le> amax xs / 127 / 256"
    using assms a unfolding storage_rounding_def by blast
  then have b: "amax xs / 127 - amax xs / 127 / 256 \<le> rnd (amax xs / 127)"
    "rnd (amax xs / 127) \<le> amax xs / 127 + amax xs / 127 / 256" by linarith+
  then show "amax xs * 255 / 256 \<le> 127 * col_scale rnd xs"
    "127 * col_scale rnd xs \<le> amax xs * 257 / 256" by (auto simp: col_scale_def QMAX_def)
  then show "0 < col_scale rnd xs" using amax_bounds(2)[of xs] by linarith
qed

lemma quant_error:
  assumes r: "storage_rounding rnd" and x: "x \<in> set xs"
  shows "\<bar>of_int (sint (quant1 (col_scale rnd xs) x)) * col_scale rnd xs - x\<bar> \<le> col_scale rnd xs / 2"
proof -
  let ?s = "col_scale rnd xs"
  note C = col_scale_bounds[OF r, of xs]
  have pos: "0 < ?s" by (rule C(1))
  have ax: "\<bar>x\<bar> \<le> amax xs" "0 < amax xs" using amax_bounds x by auto
  have "\<bar>x\<bar> < (127 + 1 / 2) * ?s" using C(2) ax by (simp add: algebra_simps)
  then have "\<bar>x / ?s\<bar> < 127 + 1 / 2" using pos by (simp add: abs_divide pos_divide_less_eq)
  then have "x / ?s < of_int 127 + 1 / 2" "- of_int 127 - 1 / 2 < x / ?s" by linarith+
  then have "round_half_even (x / ?s) \<le> 127" "- 127 \<le> round_half_even (x / ?s)"
    using round_half_even_le round_half_even_ge by blast+
  then have "clamp_q (round_half_even (x / ?s)) = round_half_even (x / ?s)"
    by (simp add: clamp_q_def QMAX_def)
  then have q: "sint (quant1 ?s x) = round_half_even (x / ?s)" by (simp add: sint_quant1)
  have "\<bar>of_int (round_half_even (x / ?s)) - x / ?s\<bar> * ?s \<le> 1 / 2 * ?s"
    by (rule mult_right_mono[OF round_half_even_error]) (use pos in simp)
  moreover have "\<bar>of_int (round_half_even (x / ?s)) - x / ?s\<bar> * ?s =
      \<bar>of_int (round_half_even (x / ?s)) * ?s - x\<bar>"
  proof -
    have "\<bar>of_int (round_half_even (x / ?s)) - x / ?s\<bar> * ?s =
        \<bar>(of_int (round_half_even (x / ?s)) - x / ?s) * ?s\<bar>" using pos by (simp add: abs_mult)
    then show ?thesis using pos by (simp add: left_diff_distrib)
  qed
  ultimately show ?thesis by (simp add: q)
qed

text \<open>
  one round trip through the int8 store moves a value by at most half a step. For every value
  of a channel, the loaded value is the storage rounding of a number that differs from it by at most
  half the channel's scale, and the scale is at most one part in 127 of the largest magnitude of the
  channel (up to the rounding of the scale itself); the clamp never cuts a value off.
\<close>

theorem int8_roundtrip_error:
  assumes "storage_rounding rnd" and "c < length h" and "i < length (h ! c)"
  shows "\<exists>y. dequantize rnd (quantize rnd h) ! c ! i = rnd y \<and>
     \<bar>y - h ! c ! i\<bar> \<le> col_scale rnd (h ! c) / 2 \<and>
     127 * col_scale rnd (h ! c) \<le> amax (h ! c) * 257 / 256"
proof -
  let ?s = "col_scale rnd (h ! c)" and ?x = "h ! c ! i"
  have "dequantize rnd (quantize rnd h) ! c ! i = rnd (of_int (sint (quant1 ?s ?x)) * ?s)"
    using assms(2,3) by (simp add: dequantize_def quantize_def dequant1_def Let_def)
  moreover have "?x \<in> set (h ! c)" using assms(3) by simp
  then have "\<bar>of_int (sint (quant1 ?s ?x)) * ?s - ?x\<bar> \<le> ?s / 2" by (rule quant_error[OF assms(1)])
  ultimately show ?thesis using col_scale_bounds(3)[OF assms(1)] by blast
qed

theorem int8_roundtrip_error_witness:
  "\<exists>y. dequantize (\<lambda>x. x) (quantize (\<lambda>x. x) [[1, - 1 / 3, 2]]) ! 0 ! 1 = y \<and>
     \<bar>y - (- 1 / 3)\<bar> \<le> col_scale (\<lambda>x. x) [1, - 1 / 3, 2] / 2"
proof -
  have "storage_rounding (\<lambda>x. x)" by (simp add: storage_rounding_def)
  from int8_roundtrip_error[OF this, of 0 "[[1, - 1 / 3, 2]]" 1] show ?thesis by simp
qed

section \<open>Transfer of slots\<close>

definition tensor_ok :: "nat \<Rightarrow> nat \<Rightarrow> 'a list list \<Rightarrow> bool" where
  "tensor_ok L n t \<longleftrightarrow> length t = L \<and> (\<forall>row\<in>set t. length row = n)"

lemma length_put_get [simp]:
  "length (get_slots t slots) = length t" "length (put_slots t slots vs) = min (length t) (length vs)"
  by (simp_all add: get_slots_def put_slots_def)

lemma nth_get_slots [simp]:
  "l < length t \<Longrightarrow> i < length slots \<Longrightarrow> get_slots t slots ! l ! i = t ! l ! (slots ! i)"
  "l < length t \<Longrightarrow> length (get_slots t slots ! l) = length slots"
  by (simp_all add: get_slots_def)

lemma nth_put_slots:
  assumes t: "tensor_ok L n t" and l: "l < L" "length vs = L" and i: "i < length slots"
    and v: "length (vs ! l) = length slots" and d: "distinct slots" and r: "slots ! i < n"
  shows "put_slots t slots vs ! l ! (slots ! i) = vs ! l ! i"
proof -
  have "length t = L" "length (t ! l) = n" using t l by (auto simp: tensor_ok_def)
  then have "put_slots t slots vs ! l = scatter (t ! l) (zip slots (vs ! l))" using l by (simp add: put_slots_def)
  moreover have "scatter (t ! l) (zip slots (vs ! l)) ! (slots ! i) = vs ! l ! i"
    by (rule nth_scatter_distinct) (use d v i r \<open>length (t ! l) = n\<close> in \<open>auto simp: set_zip\<close>)
  ultimately show ?thesis by simp
qed

lemma nth_put_other:
  assumes "length t = L" and "l < L" "length vs = L" and "s \<notin> set slots"
  shows "put_slots t slots vs ! l ! s = t ! l ! s"
proof -
  have "put_slots t slots vs ! l = scatter (t ! l) (zip slots (vs ! l))"
    using assms by (simp add: put_slots_def)
  moreover have "scatter (t ! l) (zip slots (vs ! l)) ! s = t ! l ! s"
    by (rule nth_scatter_notin) (use assms(4) in \<open>auto dest: set_zip_leftD\<close>)
  ultimately show ?thesis by simp
qed

lemma tensor_ok_put: "tensor_ok L n t \<Longrightarrow> length vs = L \<Longrightarrow> tensor_ok L n (put_slots t slots vs)"
  by (auto simp: tensor_ok_def put_slots_def set_zip)

text \<open>\<open>slots_in\<close>: distinct slots of a tensor with \<open>n\<close> of them.\<close>

definition slots_in :: "nat \<Rightarrow> nat list \<Rightarrow> bool" where
  "slots_in n slots \<longleftrightarrow> distinct slots \<and> (\<forall>s\<in>set slots. s < n)"

lemma slots_in_nth: "slots_in n slots \<Longrightarrow> i < length slots \<Longrightarrow> slots ! i < n"
  by (simp add: slots_in_def)

lemma put_get_nth:
  assumes "tensor_ok L n d" and "length t = L" and "slots_in n dst" and "length src = length dst"
    and "l < L" and "i < length dst"
  shows "put_slots d dst (get_slots t src) ! l ! (dst ! i) = t ! l ! (src ! i)"
  using nth_put_slots[OF assms(1,5), of "get_slots t src" i dst] assms slots_in_nth[OF assms(3,6)]
  by (simp add: slots_in_def)

text \<open>
  C23: a donated state comes back. Storing the active slots \<open>src\<close> into the checkpoint slots \<open>cs\<close> and
  later loading these into the active slots \<open>dst\<close> of a pool gives every destination the temporal
  state of its source, quantised and dequantised once, and its convolution windows exactly, and
  leaves every other slot of the pool as it was.
\<close>

theorem checkpoint_roundtrip:
  assumes shape: "tensor_ok L (n + 1) (c_q ck)" "length (a_temporal act) = L" "tensor_ok L m (a_temporal act2)"
    and conv: "length (c_conv ck) = length (a_conv act)" "length (a_conv act2) = length (a_conv act)"
      "\<forall>c<length (a_conv act). tensor_ok L (n + 1) (c_conv ck ! c) \<and> length (a_conv act ! c) = L \<and>
         tensor_ok L m (a_conv act2 ! c)"
    and slots: "slots_in (n + 1) cs" "slots_in m dst" "length src = length cs" "length cs = length dst"
    and ck': "ck' = store_from_active rnd ck act sides src cs"
    and act': "(act', sides') = load_to_active rnd ck' act2 sides2 cs dst"
  shows "(\<forall>l<L. \<forall>i<length dst. a_temporal act' ! l ! (dst ! i) =
        map (dequantize rnd \<circ> quantize rnd) (a_temporal act ! l ! (src ! i))) \<and>
     (\<forall>c<length (a_conv act). \<forall>l<L. \<forall>i<length dst.
        a_conv act' ! c ! l ! (dst ! i) = a_conv act ! c ! l ! (src ! i)) \<and>
     (\<forall>l<L. \<forall>s. s \<notin> set dst \<longrightarrow> a_temporal act' ! l ! s = a_temporal act2 ! l ! s \<and>
        (\<forall>c<length (a_conv act). a_conv act' ! c ! l ! s = a_conv act2 ! c ! l ! s))"
proof -
  have q: "c_q ck' = put_slots (c_q ck) cs (map (map (map (quantize rnd))) (get_slots (a_temporal act) src))"
    and cc: "c_conv ck' = map2 (\<lambda>c a. put_slots c cs (get_slots a src)) (c_conv ck) (a_conv act)"
    by (simp_all add: ck' store_from_active_def store_from_pool_def store_def)
  have at: "a_temporal act' = put_slots (a_temporal act2) dst (load rnd (c_q ck') cs)"
    and ac: "a_conv act' = map2 (\<lambda>a c. put_slots a dst (get_slots c cs)) (a_conv act2) (c_conv ck')"
    using act' by (simp_all add: load_to_active_def copy_to_pool_def)
  have lq: "length (c_q ck') = L" using shape by (simp add: q tensor_ok_def)
  have ql: "c_q ck' ! l ! (cs ! i) = map (quantize rnd) (a_temporal act ! l ! (src ! i))"
    if "l < L" "i < length dst" for l i
    using nth_put_slots[OF shape(1) that(1), of "map (map (map (quantize rnd))) (get_slots (a_temporal act) src)" i cs]
      that shape slots slots_in_nth[OF slots(1), of i]
    by (simp add: q slots_in_def)
  have T: "a_temporal act' ! l ! (dst ! i) =
        map (dequantize rnd \<circ> quantize rnd) (a_temporal act ! l ! (src ! i))"
    if "l < L" "i < length dst" for l i
    using nth_put_slots[OF shape(3) that(1), of "load rnd (c_q ck') cs" i dst]
      that slots slots_in_nth[OF slots(2) that(2)] lq ql[OF that]
    by (simp add: at load_def slots_in_def)
  have cl: "length (c_conv ck') = length (a_conv act)" using conv by (simp add: cc)
  have C: "a_conv act' ! c ! l ! (dst ! i) = a_conv act ! c ! l ! (src ! i)"
    if "c < length (a_conv act)" "l < L" "i < length dst" for c l i
  proof -
    have K: "tensor_ok L (n + 1) (c_conv ck ! c)" "length (a_conv act ! c) = L" "tensor_ok L m (a_conv act2 ! c)"
      using conv(3) that(1) by auto
    have e: "c_conv ck' ! c = put_slots (c_conv ck ! c) cs (get_slots (a_conv act ! c) src)"
      using that(1) conv(1) by (simp add: cc)
    have "c_conv ck' ! c ! l ! (cs ! i) = a_conv act ! c ! l ! (src ! i)"
      unfolding e by (rule put_get_nth[OF K(1,2) slots(1,3) that(2)]) (use that slots in simp)
    moreover have "length (c_conv ck' ! c) = L" using K by (simp add: e tensor_ok_def)
    then have "put_slots (a_conv act2 ! c) dst (get_slots (c_conv ck' ! c) cs) ! l ! (dst ! i) =
        c_conv ck' ! c ! l ! (cs ! i)"
      by (rule put_get_nth[OF K(3) _ slots(2,4) that(2,3)])
    ultimately show ?thesis using that(1) conv(2) cl by (simp add: ac)
  qed
  have O: "a_temporal act' ! l ! s = a_temporal act2 ! l ! s"
    "c < length (a_conv act) \<Longrightarrow> a_conv act' ! c ! l ! s = a_conv act2 ! c ! l ! s"
    if "l < L" "s \<notin> set dst" for l s c
  proof -
    show "a_temporal act' ! l ! s = a_temporal act2 ! l ! s"
      unfolding at by (rule nth_put_other) (use that shape lq in \<open>auto simp: load_def tensor_ok_def\<close>)
    assume c: "c < length (a_conv act)"
    have K: "length (c_conv ck' ! c) = L" "length (a_conv act2 ! c) = L"
      using conv c by (auto simp: cc tensor_ok_def)
    have "put_slots (a_conv act2 ! c) dst (get_slots (c_conv ck' ! c) cs) ! l ! s = a_conv act2 ! c ! l ! s"
      by (rule nth_put_other[OF K(2) that(1) _ that(2)]) (simp add: K(1))
    then show "a_conv act' ! c ! l ! s = a_conv act2 ! c ! l ! s" using c conv(2) cl by (simp add: ac)
  qed
  show ?thesis using T C O by blast
qed

definition ex_ckpt :: "(nat, nat, nat) ckpt_pool" where
  "ex_ckpt = \<lparr>c_num_slots = 1, c_q = [[[[(0, [0, 0])]], [[(0, [0, 0])]]]], c_conv = [[[0, 0]]],
     c_mirrors = [], c_alloc = 0\<rparr>"

definition ex_active :: "nat active_pool" where
  "ex_active = \<lparr>a_temporal = [[[[[1, - 1 / 3]]], [[[2, 5]]]]], a_conv = [[[8, 9]]]\<rparr>"

theorem checkpoint_roundtrip_witness:
  "\<exists>act' sides'. (act', sides') =
       load_to_active (\<lambda>x. x) (store_from_active (\<lambda>x. x) ex_ckpt ex_active [] [0] [1]) ex_active [] [1] [1] \<and>
     a_conv act' ! 0 ! 0 ! 1 = 8 \<and>
     a_temporal act' ! 0 ! 1 = [dequantize (\<lambda>x. x) (quantize (\<lambda>x. x) [[1, - 1 / 3]])]"
proof -
  obtain act' sides' where r: "(act', sides') =
       load_to_active (\<lambda>x. x) (store_from_active (\<lambda>x. x) ex_ckpt ex_active [] [0] [1]) ex_active [] [1] [1]"
    by (metis surj_pair)
  have "tensor_ok 1 (1 + 1) (c_q ex_ckpt)" "length (a_temporal ex_active) = 1"
    "tensor_ok 1 2 (a_temporal ex_active)" "length (c_conv ex_ckpt) = length (a_conv ex_active)"
    "\<forall>c<length (a_conv ex_active). tensor_ok 1 (1 + 1) (c_conv ex_ckpt ! c) \<and>
       length (a_conv ex_active ! c) = 1 \<and> tensor_ok 1 2 (a_conv ex_active ! c)"
    by (simp_all add: tensor_ok_def ex_ckpt_def ex_active_def)
  from checkpoint_roundtrip[OF this(1-4) refl this(5) _ _ _ _ refl r]
  have R: "(\<forall>l<1. \<forall>i<length [1::nat]. a_temporal act' ! l ! ([1] ! i) =
        map (dequantize (\<lambda>x. x) \<circ> quantize (\<lambda>x. x)) (a_temporal ex_active ! l ! ([0] ! i))) \<and>
     (\<forall>c<length (a_conv ex_active). \<forall>l<1. \<forall>i<length [1::nat].
        a_conv act' ! c ! l ! ([1] ! i) = a_conv ex_active ! c ! l ! ([0] ! i))"
    by (simp add: slots_in_def)
  then have "a_conv act' ! 0 ! 0 ! 1 = 8" "a_temporal act' ! 0 ! 1 = [dequantize (\<lambda>x. x) (quantize (\<lambda>x. x) [[1, - 1 / 3]])]"
    by (auto simp: ex_active_def)
  with r show ?thesis by blast
qed

section \<open>Sizes\<close>

lemma prod_list_update:
  fixes shape :: "nat list"
  shows "axis < length shape \<Longrightarrow> prod_list (shape[axis := n]) =
     n * prod_list (map (\<lambda>i. if i = axis then 1 else shape ! i) [0..<length shape])"
proof (induction shape arbitrary: axis)
  case Nil
  then show ?case by simp
next
  case (Cons x xs)
  have up: "[0..<length (x # xs)] = 0 # map Suc [0..<length xs]"
    by (simp add: upt_conv_Cons map_Suc_upt del: upt_Suc)
  show ?case
  proof (cases axis)
    case 0
    have "map (\<lambda>i. if i = 0 then 1 else (x # xs) ! i) (map Suc [0..<length xs]) = xs"
      by (simp add: comp_def map_nth)
    then show ?thesis unfolding up 0 by simp
  next
    case (Suc a)
    then have a: "a < length xs" using Cons.prems by simp
    have "map (\<lambda>i. if i = Suc a then 1 else (x # xs) ! i) (map Suc [0..<length xs]) =
        map (\<lambda>i. if i = a then 1 else xs ! i) [0..<length xs]" by (simp add: comp_def)
    then have "(\<Prod>i\<leftarrow>[0..<length (x # xs)]. if i = Suc a then 1 else (x # xs) ! i) =
        x * (\<Prod>i\<leftarrow>[0..<length xs]. if i = a then 1 else xs ! i)"
      unfolding up by (simp del: map_map)
    then show ?thesis unfolding Suc
      using Cons.IH[OF a] by (simp add: mult.left_commute del: upt_Suc list.size)
  qed
qed

lemma estimate_exact:
  assumes "\<forall>(shape, axis, isz) \<in> set ple. axis < length shape"
  shows "estimate_mem_usage_bytes l (ple_extra_bytes (l_slots l) ple) = mem_usage_bytes l ple"
proof -
  have p: "ple_extra_bytes (l_slots l) ple =
      sum_list (map (\<lambda>p. tensor_bytes (mirror_shape (l_slots l) p) (snd (snd p))) ple)"
    unfolding ple_extra_bytes_def
    by (intro arg_cong[where f = sum_list] map_cong)
      (use assms in \<open>auto simp: mirror_shape_def tensor_bytes_def prod_list_update\<close>)
  have c: "map (\<lambda>s. l_layers l * (l_slots l + 1) * prod_list s * l_conv_isz l) (l_conv l) =
      map (\<lambda>s. tensor_bytes ([l_layers l, l_slots l + 1] @ s) (l_conv_isz l)) (l_conv l)"
    by (auto simp: tensor_bytes_def algebra_simps)
  show ?thesis
    unfolding estimate_mem_usage_bytes_def mem_usage_bytes_def p Let_def c store_bytes_def
    by (simp add: tensor_bytes_def mult.assoc add_mult_distrib algebra_simps)
qed

text \<open>
  the construction check is exact. When the pool is built with a known amount of free memory,
  the tensors it allocates (states, scales, convolution windows and side-state mirrors, the reserved
  slot included) take strictly less than that; when it refuses, they would take at least that much;
  and the number of slots is the configured one or twice the active pool.
\<close>

theorem init_fits_exactly:
  assumes axes: "\<forall>(shape, axis, isz) \<in> set ple. axis < length shape"
    and l': "l' = l\<lparr>l_slots := (if sz \<noteq> 0 then sz else 2 * mamba_size)\<rparr>"
  shows "maybe_init (Some (True, sz)) mamba_size l ple (Some free) =
     (if mem_usage_bytes l' ple < free then Inr (Some l') else Inl RuntimeError)"
proof -
  have "estimate_mem_usage_bytes l' (ple_extra_bytes (l_slots l') ple) = mem_usage_bytes l' ple"
    by (rule estimate_exact[OF axes])
  then show ?thesis by (auto simp: maybe_init_def Let_def l')
qed

definition ex_layout :: layout where
  "ex_layout = \<lparr>l_layers = 2, l_slots = 0, l_heads = 1, l_dv = 2, l_dk = 2, l_conv = [[3]],
     l_conv_isz = 2, l_scale_isz = 2\<rparr>"

theorem init_fits_exactly_witness:
  "maybe_init (Some (True, 0)) 1 ex_layout [([2, 4, 5], 1, 2)] (Some 200) =
     Inr (Some (ex_layout\<lparr>l_slots := 2\<rparr>)) \<and>
   maybe_init (Some (True, 0)) 1 ex_layout [([2, 4, 5], 1, 2)] (Some 144) = Inl RuntimeError"
proof -
  have m: "mem_usage_bytes (ex_layout\<lparr>l_slots := 2\<rparr>) [([2, 4, 5], 1, 2)] = 144" by code_simp
  have a: "\<forall>(shape, axis, isz) \<in> set [([2, 4, 5], 1, 2)]. axis < length shape" by simp
  note W = init_fits_exactly[OF a refl, of 0 1 ex_layout]
  show ?thesis using W[of 200] W[of 144] m by simp
qed

end
