(* ===== verification/Mamba_Pool.thy ===== *)
theory Mamba_Pool
  imports Mamba_Ckpt
begin

text \<open>
  The slots of the linear-attention state pool, \<^verbatim>\<open>MambaPool\<close> of \<^verbatim>\<open>runtime-src/memory_pool.py\<close>:
  clearing, cloning, and the copy to and from the host, with the states that ride along
  (\<open>_slot_siblings\<close>) and the cursors of the replay ring.

  A tensor is the list of its layers and a layer the list of its slots, as in \<open>Mamba_Ckpt\<close>. The fused
  kernels and the operations of the siblings are not in the repository; they are arguments, with
  contracts.
\<close>

record ('p, 'h) sibling_ops =
  sb_reset :: "'p \<Rightarrow> nat list \<Rightarrow> 'p"
  sb_copy :: "'p \<Rightarrow> nat list \<Rightarrow> nat list \<Rightarrow> 'p"
  sb_get :: "'p \<Rightarrow> nat list \<Rightarrow> 'h"
  sb_load :: "'p \<Rightarrow> 'h \<Rightarrow> nat list \<Rightarrow> 'p"

record 'c slot_kernels =
  fk_clear :: "'c list list list \<Rightarrow> nat list \<Rightarrow> 'c list list list"
  fk_copy :: "'c list list list \<Rightarrow> nat list \<Rightarrow> nat list \<Rightarrow> 'c list list list"

record ('c, 't, 'p) mamba_pool =
  mp_conv :: "'c list list list"
  mp_temporal :: "'t list list"
  mp_numel :: nat
  mp_write_pos :: "int list option"
  mp_cache_base :: "int list option"
  mp_is_flush :: "int list option"
  mp_siblings :: "'p list"
  mp_debug :: bool
  mp_fuse :: bool

definition const_slots :: "'a list list \<Rightarrow> nat list \<Rightarrow> 'a \<Rightarrow> 'a list list" where
  "const_slots t slots z = put_slots t slots (map (\<lambda>_. replicate (length slots) z) t)"

definition clear_slots ::
  "('p, 'h) sibling_ops \<Rightarrow> 'c slot_kernels \<Rightarrow> (nat \<Rightarrow> 'c) \<Rightarrow> 't \<Rightarrow> ('c, 't, 'p) mamba_pool \<Rightarrow> nat list \<Rightarrow> ('c, 't, 'p) mamba_pool"
where
  "clear_slots sb fk zc zt p slots =
     (let p1 = p\<lparr>mp_siblings := map (\<lambda>s. sb_reset sb s slots) (mp_siblings p)\<rparr> in
      if mp_fuse p
      then p1\<lparr>mp_conv := fk_clear fk (mp_conv p) slots,
              mp_temporal := (if 0 < mp_numel p then const_slots (mp_temporal p) slots zt else mp_temporal p)\<rparr>
      else p1\<lparr>mp_conv := map (\<lambda>i. const_slots (mp_conv p ! i) slots (zc i)) [0..<length (mp_conv p)],
              mp_temporal := const_slots (mp_temporal p) slots zt\<rparr>)"

definition reset_cursor :: "int list option \<Rightarrow> nat list \<Rightarrow> int list option" where
  "reset_cursor c slots = map_option (\<lambda>xs. fill_at xs slots 0) c"

definition copy_from ::
  "('p, 'h) sibling_ops \<Rightarrow> 'c slot_kernels \<Rightarrow> ('c, 't, 'p) mamba_pool \<Rightarrow> nat list \<Rightarrow> nat list \<Rightarrow> ('c, 't, 'p) mamba_pool result"
where
  "copy_from sb fk p src dst =
     (if (case mp_write_pos p of Some wp \<Rightarrow> mp_debug p \<and> (\<exists>s\<in>set src. wp ! s \<noteq> 0) | None \<Rightarrow> False) then Inl AssertionError
      else if mp_fuse p \<and> mp_debug p \<and> set src \<inter> set dst \<noteq> {} then Inl AssertionError
      else Inr (p\<lparr>mp_conv := (if mp_fuse p then fk_copy fk (mp_conv p) src dst
                              else map (\<lambda>t. put_slots t dst (get_slots t src)) (mp_conv p)),
                  mp_temporal := (if mp_fuse p \<and> mp_numel p = 0 then mp_temporal p
                                  else put_slots (mp_temporal p) dst (get_slots (mp_temporal p) src)),
                  mp_write_pos := reset_cursor (mp_write_pos p) dst,
                  mp_cache_base := reset_cursor (mp_cache_base p) dst,
                  mp_is_flush := reset_cursor (mp_is_flush p) dst,
                  mp_siblings := map (\<lambda>s. sb_copy sb s src dst) (mp_siblings p)\<rparr>))"

text \<open>The tuple saved on the host: the last two elements are present or absent.\<close>

record ('c, 't, 'h) mamba_host =
  h_conv :: "'c list list list"
  h_temporal :: "'t list list"
  h_cursors :: "(int list \<times> int list \<times> int list) option"
  h_siblings :: "'h list option"

definition mamba_get_cpu_copy :: "('p, 'h) sibling_ops \<Rightarrow> ('c, 't, 'p) mamba_pool \<Rightarrow> nat list \<Rightarrow> ('c, 't, 'h) mamba_host result" where
  "mamba_get_cpu_copy sb p idx =
     (let h = (\<lambda>cur. \<lparr>h_conv = map (\<lambda>t. get_slots t idx) (mp_conv p), h_temporal = get_slots (mp_temporal p) idx, h_cursors = cur,
                h_siblings = (if mp_siblings p = [] then None else Some (map (\<lambda>s. sb_get sb s idx) (mp_siblings p)))\<rparr>) in
      case mp_cache_base p of
        None \<Rightarrow> Inr (h None)
      | Some cb \<Rightarrow> (case (mp_write_pos p, mp_is_flush p) of
            (Some wp, Some fl) \<Rightarrow> Inr (h (Some (index_select wp idx, index_select cb idx, index_select fl idx)))
          | _ \<Rightarrow> Inl TypeError))"

definition put_cursor :: "int list option \<Rightarrow> nat list \<Rightarrow> int list \<Rightarrow> int list option" where
  "put_cursor c idx vs = map_option (\<lambda>xs. scatter xs (zip idx vs)) c"

text \<open>
  The tuple carries the siblings' part exactly when the pool that saved it had siblings; a tuple of the
  other kind is unpacked into the wrong names, which the model reports as the error of the unpacking.
\<close>

definition mamba_load_cpu_copy ::
  "('p, 'h) sibling_ops \<Rightarrow> ('c, 't, 'p) mamba_pool \<Rightarrow> ('c, 't, 'h) mamba_host \<Rightarrow> nat list \<Rightarrow> ('c, 't, 'p) mamba_pool result"
where
  "mamba_load_cpu_copy sb p h idx =
     (if mp_siblings p \<noteq> [] \<and> h_siblings h = None then Inl (if h_cursors h = None then ValueError else TypeError)
      else if mp_siblings p = [] \<and> h_siblings h \<noteq> None \<and> (h_cursors h \<noteq> None \<or> mp_cache_base p \<noteq> None) then Inl ValueError
      else if length (h_conv h) < length (mp_conv p) then Inl IndexError
      else
        let p1 = p\<lparr>mp_conv := map2 (\<lambda>t v. put_slots t idx v) (mp_conv p) (h_conv h),
                   mp_temporal := put_slots (mp_temporal p) idx (h_temporal h)\<rparr>;
            p2 = (case (h_cursors h, mp_cache_base p) of
                    (Some (w, c, f), Some _) \<Rightarrow>
                      p1\<lparr>mp_write_pos := put_cursor (mp_write_pos p) idx w, mp_cache_base := put_cursor (mp_cache_base p) idx c,
                         mp_is_flush := put_cursor (mp_is_flush p) idx f\<rparr>
                  | _ \<Rightarrow> p1)
        in Inr (case h_siblings h of
             Some hs \<Rightarrow> if mp_siblings p = [] then p2
                        else p2\<lparr>mp_siblings := map2 (\<lambda>s x. sb_load sb s x idx) (mp_siblings p) hs @ drop (length hs) (mp_siblings p)\<rparr>
           | None \<Rightarrow> p2))"

section \<open>Contracts\<close>

text \<open>A state with one row per slot: what the pool expects of its siblings.\<close>

locale slot_state =
  fixes sb :: "('p, 'h) sibling_ops" and row :: "'p \<Rightarrow> nat \<Rightarrow> 'r" and cap :: "'p \<Rightarrow> nat" and blank :: 'r
  assumes reset: "\<forall>s\<in>set idx. s < cap p \<Longrightarrow> cap (sb_reset sb p idx) = cap p \<and>
      (\<forall>s<cap p. row (sb_reset sb p idx) s = (if s \<in> set idx then blank else row p s))"
    and copy: "length src = length dst \<Longrightarrow> distinct dst \<Longrightarrow> \<forall>s\<in>set src \<union> set dst. s < cap p \<Longrightarrow>
      cap (sb_copy sb p src dst) = cap p \<and> (\<forall>i<length dst. row (sb_copy sb p src dst) (dst ! i) = row p (src ! i)) \<and>
      (\<forall>s<cap p. s \<notin> set dst \<longrightarrow> row (sb_copy sb p src dst) s = row p s)"
    and load: "length src = length dst \<Longrightarrow> distinct dst \<Longrightarrow> \<forall>s\<in>set src. s < cap p \<Longrightarrow> \<forall>s\<in>set dst. s < cap q \<Longrightarrow>
      cap (sb_load sb q (sb_get sb p src) dst) = cap q \<and>
      (\<forall>i<length dst. row (sb_load sb q (sb_get sb p src) dst) (dst ! i) = row p (src ! i)) \<and>
      (\<forall>s<cap q. s \<notin> set dst \<longrightarrow> row (sb_load sb q (sb_get sb p src) dst) s = row q s)"
begin

lemma load_row:
  assumes "length src = length dst" "distinct dst" "\<forall>s\<in>set src. s < cap p" "\<forall>s\<in>set dst. s < cap q" "i < length dst"
  shows "row (sb_load sb q (sb_get sb p src) dst) (dst ! i) = row p (src ! i)"
  using load[OF assms(1-4)] assms(5) by blast

lemma load_frame:
  assumes "length src = length dst" "distinct dst" "\<forall>s\<in>set src. s < cap p" "\<forall>s\<in>set dst. s < cap q" "s < cap q" "s \<notin> set dst"
  shows "row (sb_load sb q (sb_get sb p src) dst) s = row q s"
  using load[OF assms(1-4)] assms(5,6) by blast

end

text \<open>A plain tensor of rows is such a state.\<close>

definition row_sibling :: "'r \<Rightarrow> ('r list, 'r list) sibling_ops" where
  "row_sibling z = \<lparr>sb_reset = (\<lambda>p idx. fill_at p idx z), sb_copy = (\<lambda>p src dst. scatter p (zip dst (index_select p src))),
     sb_get = index_select, sb_load = (\<lambda>p h dst. scatter p (zip dst h))\<rparr>"

lemma scatter_select:
  assumes "length src = length dst" "distinct dst" "\<forall>s\<in>set dst. s < length q"
  shows "(\<forall>i<length dst. scatter q (zip dst (index_select p src)) ! (dst ! i) = p ! (src ! i)) \<and>
    (\<forall>s. s \<notin> set dst \<longrightarrow> scatter q (zip dst (index_select p src)) ! s = q ! s)"
proof (intro conjI allI impI)
  fix i assume i: "i < length dst"
  have "(dst ! i, p ! (src ! i)) \<in> set (zip dst (index_select p src))" using i assms(1) by (auto simp: set_zip)
  then show "scatter q (zip dst (index_select p src)) ! (dst ! i) = p ! (src ! i)"
    using nth_scatter_distinct[of "zip dst (index_select p src)"] assms i by simp
next
  fix s assume "s \<notin> set dst"
  then show "scatter q (zip dst (index_select p src)) ! s = q ! s" by (intro nth_scatter_notin) (auto dest: set_zip_leftD)
qed

interpretation row_state: slot_state "row_sibling z" "\<lambda>p s. p ! s" length z for z
  by unfold_locales (auto simp: row_sibling_def nth_fill_at scatter_select)

text \<open>The fused kernels do what the loops over the tensors do, on disjoint slots.\<close>

definition slot_kernels_ok :: "(nat \<Rightarrow> 'c) \<Rightarrow> 'c slot_kernels \<Rightarrow> bool" where
  "slot_kernels_ok zc fk \<longleftrightarrow>
     (\<forall>ts slots. fk_clear fk ts slots = map (\<lambda>i. const_slots (ts ! i) slots (zc i)) [0..<length ts]) \<and>
     (\<forall>ts src dst. set src \<inter> set dst = {} \<longrightarrow> fk_copy fk ts src dst = map (\<lambda>t. put_slots t dst (get_slots t src)) ts)"

definition loop_kernels :: "(nat \<Rightarrow> 'c) \<Rightarrow> 'c slot_kernels" where
  "loop_kernels zc = \<lparr>fk_clear = (\<lambda>ts slots. map (\<lambda>i. const_slots (ts ! i) slots (zc i)) [0..<length ts]),
     fk_copy = (\<lambda>ts src dst. map (\<lambda>t. put_slots t dst (get_slots t src)) ts)\<rparr>"

lemma loop_kernels_ok: "slot_kernels_ok zc (loop_kernels zc)"
  by (simp add: slot_kernels_ok_def loop_kernels_def)

section \<open>Shapes and states of a slot\<close>

definition mpool_ok :: "nat \<Rightarrow> nat \<Rightarrow> ('c, 't, 'p) mamba_pool \<Rightarrow> bool" where
  "mpool_ok L n p \<longleftrightarrow> (\<forall>t\<in>set (mp_conv p). tensor_ok L n t) \<and> tensor_ok L n (mp_temporal p) \<and>
     (mp_numel p = 0 \<longrightarrow> (\<forall>l<L. \<forall>s<n. \<forall>s'<n. mp_temporal p ! l ! s = mp_temporal p ! l ! s'))"

text \<open>What a request owns in a slot: windows and recurrent state of every layer.\<close>

definition slot_state_of :: "('c, 't, 'p) mamba_pool \<Rightarrow> nat \<Rightarrow> nat \<Rightarrow> 'c list list \<times> 't list" where
  "slot_state_of p L s = (map (\<lambda>t. map (\<lambda>l. t ! l ! s) [0..<L]) (mp_conv p), map (\<lambda>l. mp_temporal p ! l ! s) [0..<L])"

lemma mpool_okD:
  assumes "mpool_ok L n p"
  shows "i < length (mp_conv p) \<Longrightarrow> tensor_ok L n (mp_conv p ! i)" and "tensor_ok L n (mp_temporal p)"
  using assms by (auto simp: mpool_ok_def)

lemma slot_state_eqI:
  assumes "length (mp_conv p) = length (mp_conv q)"
    and "\<And>i l. i < length (mp_conv q) \<Longrightarrow> l < L \<Longrightarrow> mp_conv p ! i ! l ! s = mp_conv q ! i ! l ! s'"
    and "\<And>l. l < L \<Longrightarrow> mp_temporal p ! l ! s = mp_temporal q ! l ! s'"
  shows "slot_state_of p L s = slot_state_of q L s'"
proof -
  have "map (\<lambda>t. map (\<lambda>l. t ! l ! s) [0..<L]) (mp_conv p) = map (\<lambda>t. map (\<lambda>l. t ! l ! s') [0..<L]) (mp_conv q)"
    by (rule nth_equalityI) (use assms(1,2) in \<open>auto intro!: map_cong\<close>)
  then show ?thesis using assms(3) by (auto simp: slot_state_of_def intro!: map_cong)
qed

lemma put_get_frame:
  assumes "tensor_ok L n d" and "length t = L" and "l < L" and "s \<notin> set dst"
  shows "put_slots d dst (get_slots t src) ! l ! s = d ! l ! s"
  by (rule nth_put_other[of _ L]) (use assms in \<open>auto simp: tensor_ok_def\<close>)

lemma copied_fields:
  assumes "copy_from sb fk p src dst = Inr p'"
  shows "mp_conv p' = (if mp_fuse p then fk_copy fk (mp_conv p) src dst else map (\<lambda>t. put_slots t dst (get_slots t src)) (mp_conv p))"
    and "mp_temporal p' = (if mp_fuse p \<and> mp_numel p = 0 then mp_temporal p else put_slots (mp_temporal p) dst (get_slots (mp_temporal p) src))"
    and "mp_write_pos p' = reset_cursor (mp_write_pos p) dst"
    and "mp_siblings p' = map (\<lambda>s. sb_copy sb s src dst) (mp_siblings p)"
proof -
  define r where "r = p\<lparr>mp_conv := (if mp_fuse p then fk_copy fk (mp_conv p) src dst
                              else map (\<lambda>t. put_slots t dst (get_slots t src)) (mp_conv p)),
                  mp_temporal := (if mp_fuse p \<and> mp_numel p = 0 then mp_temporal p
                                  else put_slots (mp_temporal p) dst (get_slots (mp_temporal p) src)),
                  mp_write_pos := reset_cursor (mp_write_pos p) dst,
                  mp_cache_base := reset_cursor (mp_cache_base p) dst,
                  mp_is_flush := reset_cursor (mp_is_flush p) dst,
                  mp_siblings := map (\<lambda>s. sb_copy sb s src dst) (mp_siblings p)\<rparr>"
  have "p' = r" using assms unfolding copy_from_def r_def[symmetric] by (metis Inl_Inr_False sum.inject(2))
  then show "mp_conv p' = (if mp_fuse p then fk_copy fk (mp_conv p) src dst else map (\<lambda>t. put_slots t dst (get_slots t src)) (mp_conv p))"
    "mp_temporal p' = (if mp_fuse p \<and> mp_numel p = 0 then mp_temporal p else put_slots (mp_temporal p) dst (get_slots (mp_temporal p) src))"
    "mp_write_pos p' = reset_cursor (mp_write_pos p) dst"
    "mp_siblings p' = map (\<lambda>s. sb_copy sb s src dst) (mp_siblings p)"
    unfolding r_def by simp_all
qed

lemma copied_states:
  assumes k: "slot_kernels_ok zc fk" and ok: "mpool_ok L n p" and c: "copy_from sb fk p src dst = Inr p'"
    and s: "slots_in n dst" "\<forall>x\<in>set src. x < n" "length src = length dst" and d: "set src \<inter> set dst = {}"
  shows "i < length dst \<Longrightarrow> slot_state_of p' L (dst ! i) = slot_state_of p L (src ! i)"
    and "x \<notin> set dst \<Longrightarrow> slot_state_of p' L x = slot_state_of p L x"
proof -
  have fk: "fk_copy fk (mp_conv p) src dst = map (\<lambda>t. put_slots t dst (get_slots t src)) (mp_conv p)"
    using k d by (simp add: slot_kernels_ok_def)
  have p': "mp_conv p' = map (\<lambda>t. put_slots t dst (get_slots t src)) (mp_conv p)"
    "mp_temporal p' = (if mp_fuse p \<and> mp_numel p = 0 then mp_temporal p else put_slots (mp_temporal p) dst (get_slots (mp_temporal p) src))"
    using copied_fields[OF c] fk by simp_all
  note T = mpool_okD(2)[OF ok]
  have lt: "length (mp_temporal p) = L" using T by (simp add: tensor_ok_def)
  have lc: "length (mp_conv p') = length (mp_conv p)" by (simp add: p'(1))
  show "slot_state_of p' L (dst ! i) = slot_state_of p L (src ! i)" if i: "i < length dst"
  proof (rule slot_state_eqI[OF lc])
    fix j l assume "j < length (mp_conv p)" "l < L"
    then show "mp_conv p' ! j ! l ! (dst ! i) = mp_conv p ! j ! l ! (src ! i)"
      using put_get_nth[OF mpool_okD(1)[OF ok] _ s(1,3) _ i] mpool_okD(1)[OF ok] p'(1) by (simp add: tensor_ok_def)
  next
    fix l assume l: "l < L"
    show "mp_temporal p' ! l ! (dst ! i) = mp_temporal p ! l ! (src ! i)"
    proof (cases "mp_fuse p \<and> mp_numel p = 0")
      case True
      have "dst ! i < n" "src ! i < n" using s i slots_in_nth[OF s(1)] by simp_all
      then have "mp_temporal p ! l ! (dst ! i) = mp_temporal p ! l ! (src ! i)"
        using True ok l unfolding mpool_ok_def by blast
      then show ?thesis using True p'(2) by (simp only: simp_thms if_True)
    next
      case False
      then show ?thesis using put_get_nth[OF T lt s(1,3) l i] p'(2) by (simp only: if_False)
    qed
  qed
  show "slot_state_of p' L x = slot_state_of p L x" if x: "x \<notin> set dst"
  proof (rule slot_state_eqI[OF lc])
    fix j l assume "j < length (mp_conv p)" "l < L"
    then show "mp_conv p' ! j ! l ! x = mp_conv p ! j ! l ! x"
      using put_get_frame[OF mpool_okD(1)[OF ok] _ _ x] mpool_okD(1)[OF ok] p'(1) by (simp add: tensor_ok_def)
  next
    fix l assume "l < L"
    then show "mp_temporal p' ! l ! x = mp_temporal p ! l ! x" using put_get_frame[OF T lt _ x] p'(2) by simp
  qed
qed

text \<open>
  Cloning slots, by the loops or by the fused kernel, gives every destination the windows and the
  recurrent state of its source and resets its replay cursor; every other slot keeps its state.
\<close>

theorem copy_from_clones:
  assumes k: "slot_kernels_ok zc fk" and ok: "mpool_ok L n p" and c: "copy_from sb fk p src dst = Inr p'"
    and s: "slots_in n dst" "\<forall>x\<in>set src. x < n" "length src = length dst" and d: "set src \<inter> set dst = {}"
    and wp: "mp_write_pos p = Some wp" "length wp = n"
  shows "(\<forall>i<length dst. slot_state_of p' L (dst ! i) = slot_state_of p L (src ! i)) \<and>
     (\<forall>x<n. x \<notin> set dst \<longrightarrow> slot_state_of p' L x = slot_state_of p L x) \<and>
     (\<exists>wp'. mp_write_pos p' = Some wp' \<and> (\<forall>x<n. wp' ! x = (if x \<in> set dst then 0 else wp ! x)))"
  using copied_states[OF k ok c s d] copied_fields(3)[OF c] wp by (simp add: reset_cursor_def nth_fill_at)

definition ex_mpool :: "(int, int, int list) mamba_pool" where
  "ex_mpool = \<lparr>mp_conv = [[[1, 2, 3], [4, 5, 6]]], mp_temporal = [[7, 8, 9], [10, 11, 12]], mp_numel = 6, mp_write_pos = Some [0, 0, 5],
     mp_cache_base = None, mp_is_flush = None, mp_siblings = [[20, 21, 22]], mp_debug = True, mp_fuse = True\<rparr>"

theorem copy_from_clones_witness:
  "\<exists>p'. copy_from (row_sibling 0) (loop_kernels (\<lambda>_. 0)) ex_mpool [1] [2] = Inr p' \<and>
     slot_state_of p' 2 2 = ([[2, 5]], [8, 11]) \<and> slot_state_of p' 2 1 = slot_state_of ex_mpool 2 1 \<and> mp_write_pos p' \<noteq> None"
proof -
  obtain p' where p': "copy_from (row_sibling 0) (loop_kernels (\<lambda>_. 0)) ex_mpool [1] [2] = Inr p'"
    by (simp add: copy_from_def ex_mpool_def)
  have ok: "mpool_ok 2 3 ex_mpool" by (simp add: mpool_ok_def tensor_ok_def ex_mpool_def)
  have s: "slots_in 3 [2]" by (simp add: slots_in_def)
  have wp: "mp_write_pos ex_mpool = Some [0, 0, 5]" by (simp add: ex_mpool_def)
  have st: "slot_state_of ex_mpool 2 1 = ([[2, 5]], [8, 11])" by code_simp
  have d: "set [1::nat] \<inter> set [2] = {}" "\<forall>x\<in>set [1::nat]. x < 3" "length [1::nat] = length [2::nat]" "length [0, 0, 5::int] = 3" by simp_all
  note t = copy_from_clones[OF loop_kernels_ok ok p' s d(2,3,1) wp d(4)]
  from t have "slot_state_of p' 2 2 = slot_state_of ex_mpool 2 1" "slot_state_of p' 2 1 = slot_state_of ex_mpool 2 1" "mp_write_pos p' \<noteq> None"
    by auto
  then show ?thesis using p' st by auto
qed

text \<open>
  Offloading slots to the host and loading them later into other slots of a pool restores the
  windows, the recurrent state and the row of every sibling, and touches no other slot.
\<close>

theorem mamba_host_roundtrip:
  assumes sib: "slot_state sb row cap blank" and p: "mpool_ok L n p" and q: "mpool_ok L m q"
    and same: "length (mp_conv q) = length (mp_conv p)" "length (mp_siblings q) = length (mp_siblings p)"
    and cur: "mp_cache_base p = None"
    and g: "mamba_get_cpu_copy sb p src = Inr h"
    and s: "slots_in m dst" "\<forall>x\<in>set src. x < n" "length src = length dst"
    and sl: "\<forall>x\<in>set (mp_siblings p). cap x = n" "\<forall>x\<in>set (mp_siblings q). cap x = m"
  shows "\<exists>q'. mamba_load_cpu_copy sb q h dst = Inr q' \<and>
     (\<forall>i<length dst. slot_state_of q' L (dst ! i) = slot_state_of p L (src ! i)) \<and>
     (\<forall>x<m. x \<notin> set dst \<longrightarrow> slot_state_of q' L x = slot_state_of q L x) \<and>
     (\<forall>k<length (mp_siblings p). (\<forall>i<length dst. row (mp_siblings q' ! k) (dst ! i) = row (mp_siblings p ! k) (src ! i)) \<and>
        (\<forall>x<m. x \<notin> set dst \<longrightarrow> row (mp_siblings q' ! k) x = row (mp_siblings q ! k) x))"
proof -
  have h: "h_conv h = map (\<lambda>t. get_slots t src) (mp_conv p)" "h_temporal h = get_slots (mp_temporal p) src" "h_cursors h = None"
    "h_siblings h = (if mp_siblings p = [] then None else Some (map (\<lambda>x. sb_get sb x src) (mp_siblings p)))"
    using g cur by (auto simp: mamba_get_cpu_copy_def Let_def)
  let ?conv = "map2 (\<lambda>t v. put_slots t dst v) (mp_conv q) (h_conv h)" and ?temp = "put_slots (mp_temporal q) dst (h_temporal h)"
  let ?sib = "map2 (\<lambda>x y. sb_load sb x y dst) (mp_siblings q) (map (\<lambda>x. sb_get sb x src) (mp_siblings p))"
  obtain q' where ld: "mamba_load_cpu_copy sb q h dst = Inr q'" and q': "mp_conv q' = ?conv" "mp_temporal q' = ?temp"
    "mp_siblings q' = ?sib"
  proof (cases "mp_siblings p = []")
    case True
    then have "mamba_load_cpu_copy sb q h dst = Inr (q\<lparr>mp_conv := ?conv, mp_temporal := ?temp\<rparr>)"
      using same h by (simp add: mamba_load_cpu_copy_def)
    then show ?thesis by (rule that) (use True same in simp_all)
  next
    case False
    then have "mp_siblings q \<noteq> []" using same(2) by auto
    then have "mamba_load_cpu_copy sb q h dst = Inr (q\<lparr>mp_conv := ?conv, mp_temporal := ?temp, mp_siblings := ?sib\<rparr>)"
      using same h False by (simp add: mamba_load_cpu_copy_def Let_def)
    then show ?thesis by (rule that) simp_all
  qed
  note T = mpool_okD(2)[OF q]
  have lt: "length (mp_temporal p) = L" using mpool_okD(2)[OF p] by (simp add: tensor_ok_def)
  have lc: "length (mp_conv q') = length (mp_conv p)" "length (mp_conv q') = length (mp_conv q)" using same h q' by simp_all
  have qc: "mp_conv q' ! j = put_slots (mp_conv q ! j) dst (get_slots (mp_conv p ! j) src)" if "j < length (mp_conv p)" for j
    using that same h q' by simp
  have A: "slot_state_of q' L (dst ! i) = slot_state_of p L (src ! i)" if i: "i < length dst" for i
  proof (rule slot_state_eqI[OF lc(1)])
    fix j l assume j: "j < length (mp_conv p)" and l: "l < L"
    have "tensor_ok L m (mp_conv q ! j)" "length (mp_conv p ! j) = L"
      using mpool_okD(1)[OF q, of j] mpool_okD(1)[OF p j] j same by (simp_all add: tensor_ok_def)
    from put_get_nth[OF this s(1,3) l i] show "mp_conv q' ! j ! l ! (dst ! i) = mp_conv p ! j ! l ! (src ! i)" using qc[OF j] by simp
  next
    fix l assume "l < L"
    from put_get_nth[OF T lt s(1,3) this i] show "mp_temporal q' ! l ! (dst ! i) = mp_temporal p ! l ! (src ! i)" using q' h by simp
  qed
  have B: "slot_state_of q' L x = slot_state_of q L x" if x: "x \<notin> set dst" for x
  proof (rule slot_state_eqI[OF lc(2)])
    fix j l assume "j < length (mp_conv q)" and l: "l < L"
    then have j: "j < length (mp_conv p)" using same by simp
    have "tensor_ok L m (mp_conv q ! j)" "length (mp_conv p ! j) = L"
      using mpool_okD(1)[OF q, of j] mpool_okD(1)[OF p j] j same by (simp_all add: tensor_ok_def)
    from put_get_frame[OF this l x] show "mp_conv q' ! j ! l ! x = mp_conv q ! j ! l ! x" using qc[OF j] by simp
  next
    fix l assume "l < L"
    from put_get_frame[OF T lt this x] show "mp_temporal q' ! l ! x = mp_temporal q ! l ! x" using q' h by simp
  qed
  have qs: "mp_siblings q' ! k = sb_load sb (mp_siblings q ! k) (sb_get sb (mp_siblings p ! k) src) dst"
    if "k < length (mp_siblings p)" for k
    using that same q' by simp
  have sr: "\<forall>x\<in>set src. x < cap (mp_siblings p ! k)" "\<forall>x\<in>set dst. x < cap (mp_siblings q ! k)" "cap (mp_siblings q ! k) = m"
    if "k < length (mp_siblings p)" for k
    using sl s that same by (auto simp: slots_in_def)
  have d: "distinct dst" using s(1) by (simp add: slots_in_def)
  have F: "row (mp_siblings q' ! k) x = row (mp_siblings q ! k) x" if k: "k < length (mp_siblings p)" and x: "x < m" "x \<notin> set dst" for k x
  proof -
    note e = qs[OF k] and r = sr[OF k]
    show ?thesis unfolding e by (rule slot_state.load_frame[OF sib s(3) d r(1,2)]) (use x r(3) in simp_all)
  qed
  have S: "row (mp_siblings q' ! k) (dst ! i) = row (mp_siblings p ! k) (src ! i)"
    if k: "k < length (mp_siblings p)" and i: "i < length dst" for k i
  proof -
    note e = qs[OF k] and r = sr[OF k]
    show ?thesis unfolding e by (rule slot_state.load_row[OF sib s(3) d r(1,2) i])
  qed
  show ?thesis using ld A B S F by blast
qed

theorem mamba_host_roundtrip_witness:
  "\<exists>h q'. mamba_get_cpu_copy (row_sibling 0) ex_mpool [1, 2] = Inr h \<and> mamba_load_cpu_copy (row_sibling 0) ex_mpool h [2, 0] = Inr q' \<and>
     slot_state_of q' 2 2 = ([[2, 5]], [8, 11]) \<and> slot_state_of q' 2 1 = slot_state_of ex_mpool 2 1 \<and> mp_siblings q' ! 0 ! 0 = 22"
proof -
  obtain h where h: "mamba_get_cpu_copy (row_sibling 0) ex_mpool [1, 2] = Inr h" by (simp add: mamba_get_cpu_copy_def ex_mpool_def Let_def)
  have ok: "mpool_ok 2 3 ex_mpool" by (simp add: mpool_ok_def tensor_ok_def ex_mpool_def)
  have s: "slots_in 3 [2, 0]" by (simp add: slots_in_def)
  have f: "mp_cache_base ex_mpool = None" "mp_siblings ex_mpool = [[20, 21, 22]]" by (simp_all add: ex_mpool_def)
  have st: "slot_state_of ex_mpool 2 1 = ([[2, 5]], [8, 11])" by code_simp
  have d: "\<forall>x\<in>set [1, 2::nat]. x < 3" "length [1, 2::nat] = length [2, 0::nat]" "\<forall>x\<in>set (mp_siblings ex_mpool). length x = 3"
    by (simp_all add: f(2))
  note t = mamba_host_roundtrip[OF row_state.slot_state_axioms ok ok refl refl f(1) h s d(1,2) d(3) d(3)]
  from t obtain q' where q': "mamba_load_cpu_copy (row_sibling 0) ex_mpool h [2, 0] = Inr q'"
    "\<forall>i<2. slot_state_of q' 2 ([2, 0] ! i) = slot_state_of ex_mpool 2 ([1, 2] ! i)"
    "slot_state_of q' 2 1 = slot_state_of ex_mpool 2 1"
    "\<forall>i<2. mp_siblings q' ! 0 ! ([2, 0] ! i) = [20, 21, 22] ! ([1, 2] ! i)"
    unfolding f(2) by (auto simp: numeral_2_eq_2)
  have "slot_state_of q' 2 2 = slot_state_of ex_mpool 2 1" using q'(2)[rule_format, of 0] by simp
  moreover have "mp_siblings q' ! 0 ! 0 = 22" using q'(4)[rule_format, of 1] by simp
  ultimately show ?thesis using h q'(1,3) st by auto
qed

end
