(* ===== verification/Mamba_Deferred.thy ===== *)
theory Mamba_Deferred
  imports Mamba_Pool
begin

text \<open>
  The clearing and cloning of linear-attention slots that an extend forward runs before its layers
  (\<^verbatim>\<open>ModelRunner._maybe_execute_deferred_mamba_cow_and_clear\<close> of \<^verbatim>\<open>runtime-src/model_runner.py\<close>): slots
  of new requests are zeroed, and the states of matched prefixes are cloned from active slots or
  dequantised from the int8 checkpoints.
\<close>

section \<open>The deferred operations\<close>

text \<open>The fields of the batch; the sources and the destinations of the clones are set together.\<close>

record cow_batch =
  cw_extend :: bool
  cw_verify :: bool
  cw_draft_extend :: bool
  cw_clear :: "nat list option"
  cw_cow :: "(nat list \<times> nat list) option"

text \<open>A static pool has physical slots.\<close>

definition translate_mamba_indices :: "nat list \<Rightarrow> nat list" where
  "translate_mamba_indices mamba_indices = mamba_indices"

definition load_checkpoints ::
  "(rat \<Rightarrow> rat) \<Rightarrow> ('c, 'q, 'a) ckpt_pool \<Rightarrow> ('c, head list, 'q side) mamba_pool \<Rightarrow> nat list \<Rightarrow> nat list \<Rightarrow>
   ('c, head list, 'q side) mamba_pool" where
  "load_checkpoints rnd ck p src dst =
     (let (act, sides) = load_to_active rnd ck \<lparr>a_temporal = mp_temporal p, a_conv = mp_conv p\<rparr> (mp_siblings p) src dst
      in p\<lparr>mp_temporal := a_temporal act, mp_conv := a_conv act, mp_siblings := sides\<rparr>)"

definition deferred_cow_and_clear ::
  "('q side, 'h) sibling_ops \<Rightarrow> 'c slot_kernels \<Rightarrow> (nat \<Rightarrow> 'c) \<Rightarrow> head list \<Rightarrow> (rat \<Rightarrow> rat) \<Rightarrow> bool \<Rightarrow> bool \<Rightarrow>
   ('c, 'q, 'a) ckpt_pool option \<Rightarrow> ('c, head list, 'q side) mamba_pool \<Rightarrow> cow_batch \<Rightarrow>
   (('c, head list, 'q side) mamba_pool \<times> cow_batch) result" where
  "deferred_cow_and_clear sb fk zc zt rnd hybrid draft_worker ckpt p b =
     (if \<not> hybrid \<or> draft_worker \<or> \<not> cw_extend b \<or> cw_verify b \<or> cw_draft_extend b then Inr (p, b)
      else let p1 = (case cw_clear b of
                 Some (s # ss) \<Rightarrow> clear_slots sb fk zc zt p (translate_mamba_indices (s # ss))
               | _ \<Rightarrow> p)
           in map_sum id (\<lambda>p2. (p2, b\<lparr>cw_clear := None, cw_cow := None\<rparr>))
                (case cw_cow b of
                   Some (s # ss, dst) \<Rightarrow>
                     (case ckpt of
                        Some ck \<Rightarrow> Inr (load_checkpoints rnd ck p1 (s # ss) dst)
                      | None \<Rightarrow> copy_from sb fk p1 (translate_mamba_indices (s # ss)) (translate_mamba_indices dst))
                 | _ \<Rightarrow> Inr p1))"

section \<open>The states it leaves\<close>

definition blank_state :: "(nat \<Rightarrow> 'c) \<Rightarrow> 't \<Rightarrow> nat \<Rightarrow> nat \<Rightarrow> 'c list list \<times> 't list" where
  "blank_state zc zt m L = (map (\<lambda>i. replicate L (zc i)) [0..<m], replicate L zt)"

definition ckpt_state :: "(rat \<Rightarrow> rat) \<Rightarrow> ('c, 'q, 'a) ckpt_pool \<Rightarrow> nat \<Rightarrow> nat \<Rightarrow> 'c list list \<times> head list list" where
  "ckpt_state rnd ck L s =
     (map (\<lambda>t. map (\<lambda>l. t ! l ! s) [0..<L]) (c_conv ck), map (\<lambda>l. map (dequantize rnd) (c_q ck ! l ! s)) [0..<L])"

lemma const_slots_nth:
  assumes "tensor_ok L n t" "l < L" "s < n"
  shows "const_slots t slots z ! l ! s = (if s \<in> set slots then z else t ! l ! s)"
proof -
  have t: "length t = L" "length (t ! l) = n" using assms by (auto simp: tensor_ok_def)
  have "const_slots t slots z ! l = scatter (t ! l) (zip slots (replicate (length slots) z))"
    using t(1) assms(2) by (simp add: const_slots_def put_slots_def)
  also have "\<dots> = fill_at (t ! l) slots z"
    by (simp add: fill_at_def scatter_def zip_replicate2 fold_map comp_def)
  finally show ?thesis using t(2) assms(3) by (simp add: nth_fill_at)
qed

lemma const_slots_ok: "tensor_ok L n t \<Longrightarrow> tensor_ok L n (const_slots t slots z)"
  by (auto simp: tensor_ok_def const_slots_def put_slots_def zip_map2 dest: set_zip_leftD)

text \<open>A slot that is cleared is blank, and no other slot changes.\<close>

lemma cleared_states:
  assumes k: "slot_kernels_ok zc fk" and ok: "mpool_ok L n p"
    and empty: "mp_numel p = 0 \<Longrightarrow> \<forall>l<L. \<forall>s<n. mp_temporal p ! l ! s = zt"
    and p': "p' = clear_slots sb fk zc zt p slots"
  shows "x < n \<Longrightarrow> slot_state_of p' L x = (if x \<in> set slots then blank_state zc zt (length (mp_conv p)) L else slot_state_of p L x)"
    and "mpool_ok L n p'" and "mp_siblings p' = map (\<lambda>s. sb_reset sb s slots) (mp_siblings p)"
    and "length (mp_conv p') = length (mp_conv p)" and "mp_write_pos p' = mp_write_pos p" "mp_debug p' = mp_debug p" "mp_fuse p' = mp_fuse p"
proof -
  have fk: "fk_clear fk (mp_conv p) slots = map (\<lambda>i. const_slots (mp_conv p ! i) slots (zc i)) [0..<length (mp_conv p)]"
    using k by (simp add: slot_kernels_ok_def)
  have conv: "mp_conv p' = map (\<lambda>i. const_slots (mp_conv p ! i) slots (zc i)) [0..<length (mp_conv p)]"
    by (simp add: p' clear_slots_def Let_def fk)
  show rest: "mp_siblings p' = map (\<lambda>s. sb_reset sb s slots) (mp_siblings p)" "length (mp_conv p') = length (mp_conv p)"
    "mp_write_pos p' = mp_write_pos p" "mp_debug p' = mp_debug p" "mp_fuse p' = mp_fuse p"
    by (simp_all add: p' clear_slots_def Let_def fk)
  note T = mpool_okD(2)[OF ok]
  have temp: "mp_temporal p' ! l ! y = (if y \<in> set slots then zt else mp_temporal p ! l ! y)" if "l < L" "y < n" for l y
    using const_slots_nth[OF T that, of slots zt] empty that by (simp add: p' clear_slots_def Let_def)
  have C: "mp_conv p' ! i ! l ! y = (if y \<in> set slots then zc i else mp_conv p ! i ! l ! y)" if "i < length (mp_conv p)" "l < L" "y < n" for i l y
    using const_slots_nth[OF mpool_okD(1)[OF ok that(1)] that(2,3), of slots "zc i"] that(1) by (simp add: conv)
  have "tensor_ok L n (mp_temporal p')" using T const_slots_ok[OF T] by (simp add: p' clear_slots_def Let_def)
  moreover have "\<forall>t\<in>set (mp_conv p'). tensor_ok L n t"
    using mpool_okD(1)[OF ok] by (auto simp: conv intro!: const_slots_ok)
  moreover have "mp_numel p' = mp_numel p" by (simp add: p' clear_slots_def Let_def)
  ultimately show "mpool_ok L n p'" using empty temp by (simp add: mpool_ok_def)
  assume x: "x < n"
  show "slot_state_of p' L x = (if x \<in> set slots then blank_state zc zt (length (mp_conv p)) L else slot_state_of p L x)"
  proof (cases "x \<in> set slots")
    case True
    have "map (\<lambda>t. map (\<lambda>l. t ! l ! x) [0..<L]) (mp_conv p') = map (\<lambda>i. replicate L (zc i)) [0..<length (mp_conv p)]"
      by (rule nth_equalityI) (use rest(2) C x True in \<open>auto intro!: nth_equalityI\<close>)
    then show ?thesis using True x temp by (auto simp: slot_state_of_def blank_state_def intro!: nth_equalityI)
  next
    case False
    then have "slot_state_of p' L x = slot_state_of p L x"
      by (intro slot_state_eqI) (use rest(2) C temp x in simp_all)
    then show ?thesis using False by simp
  qed
qed

text \<open>Loading checkpoints gives their states to the destinations, and to no other slot.\<close>

lemma loaded_states:
  assumes ok: "mpool_ok L n p" and ck: "tensor_ok L m (c_q ck)" "length (c_conv ck) = length (mp_conv p)"
      "\<forall>t\<in>set (c_conv ck). length t = L"
    and s: "slots_in n dst" "length src = length dst" and p': "p' = load_checkpoints rnd ck p src dst"
  shows "i < length dst \<Longrightarrow> slot_state_of p' L (dst ! i) = ckpt_state rnd ck L (src ! i)"
    and "x \<notin> set dst \<Longrightarrow> slot_state_of p' L x = slot_state_of p L x"
proof -
  have q: "length (c_q ck) = L" using ck(1) by (simp add: tensor_ok_def)
  have conv: "mp_conv p' = map2 (\<lambda>a c. put_slots a dst (get_slots c src)) (mp_conv p) (c_conv ck)"
    and temp: "mp_temporal p' = put_slots (mp_temporal p) dst (load rnd (c_q ck) src)"
    by (simp_all add: p' load_checkpoints_def load_to_active_def copy_to_pool_def)
  have lc: "length (mp_conv p') = length (mp_conv p)" using ck(2) by (simp add: conv)
  note T = mpool_okD(2)[OF ok]
  have C: "tensor_ok L n (mp_conv p ! j)" "length (c_conv ck ! j) = L" "mp_conv p' ! j = put_slots (mp_conv p ! j) dst (get_slots (c_conv ck ! j) src)"
    if "j < length (mp_conv p)" for j
    using that mpool_okD(1)[OF ok that] ck(2,3) by (simp_all add: conv)
  show "slot_state_of p' L x = slot_state_of p L x" if "x \<notin> set dst"
  proof (rule slot_state_eqI[OF lc])
    fix j l assume "j < length (mp_conv p)" "l < L"
    then show "mp_conv p' ! j ! l ! x = mp_conv p ! j ! l ! x"
      using put_get_frame[OF C(1,2) _ that] C(3) by simp
  next
    fix l assume "l < L"
    then show "mp_temporal p' ! l ! x = mp_temporal p ! l ! x"
      unfolding temp by (intro nth_put_other[of _ L]) (use T q that in \<open>auto simp: tensor_ok_def load_def\<close>)
  qed
  assume i: "i < length dst"
  have "mp_temporal p' ! l ! (dst ! i) = map (dequantize rnd) (c_q ck ! l ! (src ! i))" if "l < L" for l
    using nth_put_slots[OF T that, of "load rnd (c_q ck) src" i dst] that s slots_in_nth[OF s(1) i] q i
    by (simp add: temp load_def slots_in_def)
  moreover have "mp_conv p' ! j ! l ! (dst ! i) = c_conv ck ! j ! l ! (src ! i)" if "j < length (mp_conv p)" "l < L" for j l
    using put_get_nth[OF C(1,2) s that(2) i] C(3) that(1) by simp
  then have "map (\<lambda>t. map (\<lambda>l. t ! l ! (dst ! i)) [0..<L]) (mp_conv p') = map (\<lambda>t. map (\<lambda>l. t ! l ! (src ! i)) [0..<L]) (c_conv ck)"
    by (intro nth_equalityI) (use lc ck(2) in simp_all)
  ultimately show "slot_state_of p' L (dst ! i) = ckpt_state rnd ck L (src ! i)"
    by (simp add: slot_state_of_def ckpt_state_def)
qed

section \<open>The state after the deferred operations\<close>

definition cleared_slots :: "cow_batch \<Rightarrow> nat list" where
  "cleared_slots b = (case cw_clear b of None \<Rightarrow> [] | Some slots \<Rightarrow> slots)"

definition cloned_slots :: "cow_batch \<Rightarrow> nat list \<times> nat list" where
  "cloned_slots b = (case cw_cow b of None \<Rightarrow> ([], []) | Some c \<Rightarrow> c)"

definition runs_deferred :: "cow_batch \<Rightarrow> bool" where
  "runs_deferred b \<longleftrightarrow> cw_extend b \<and> \<not> cw_verify b \<and> \<not> cw_draft_extend b"

text \<open>The sources of clones between active slots: not written by the batch, with settled cursors in debug mode.\<close>

definition sources_ok :: "nat \<Rightarrow> ('c, 't, 'p) mamba_pool \<Rightarrow> nat list \<Rightarrow> nat list \<Rightarrow> nat list \<Rightarrow> bool" where
  "sources_ok n p cleared src dst \<longleftrightarrow> (\<forall>s\<in>set src. s < n \<and> s \<notin> set cleared \<and> s \<notin> set dst) \<and>
     (mp_debug p \<longrightarrow> (\<forall>wp. mp_write_pos p = Some wp \<longrightarrow> (\<forall>s\<in>set src. wp ! s = 0)))"

definition ckpt_fits :: "nat \<Rightarrow> nat \<Rightarrow> ('c, 'q, 'a) ckpt_pool \<Rightarrow> bool" where
  "ckpt_fits L m ck \<longleftrightarrow> length (c_q ck) = L \<and> (\<exists>k. tensor_ok L k (c_q ck)) \<and> length (c_conv ck) = m \<and> (\<forall>t\<in>set (c_conv ck). length t = L)"

lemma deferred_steps:
  assumes "runs_deferred b" "cloned_slots b = (src, dst)" "length src = length dst"
  shows "deferred_cow_and_clear sb fk zc zt rnd True False ckpt p b =
    (let p1 = (if cleared_slots b = [] then p else clear_slots sb fk zc zt p (cleared_slots b))
     in map_sum id (\<lambda>q. (q, b\<lparr>cw_clear := None, cw_cow := None\<rparr>))
          (if src = [] then Inr p1
           else case ckpt of Some ck \<Rightarrow> Inr (load_checkpoints rnd ck p1 src dst) | None \<Rightarrow> copy_from sb fk p1 src dst))"
  using assms unfolding deferred_cow_and_clear_def runs_deferred_def cleared_slots_def cloned_slots_def translate_mamba_indices_def Let_def
  by (auto split: option.splits list.splits)

lemma copy_from_runs: "sources_ok n p cleared src dst \<Longrightarrow> \<exists>q. copy_from sb fk p src dst = Inr q"
  by (auto simp: copy_from_def sources_ok_def split: option.splits)

text \<open>The pool after the clearing, whether or not there is something to clear.\<close>

lemma after_clear:
  assumes k: "slot_kernels_ok zc fk" and ok: "mpool_ok L n p"
    and empty: "mp_numel p = 0 \<Longrightarrow> \<forall>l<L. \<forall>s<n. mp_temporal p ! l ! s = zt"
    and p1: "p1 = (if C = [] then p else clear_slots sb fk zc zt p C)"
  shows "x < n \<Longrightarrow> slot_state_of p1 L x = (if x \<in> set C then blank_state zc zt (length (mp_conv p)) L else slot_state_of p L x)"
    and "mpool_ok L n p1" and "mp_siblings p1 = (if C = [] then mp_siblings p else map (\<lambda>s. sb_reset sb s C) (mp_siblings p))"
    and "length (mp_conv p1) = length (mp_conv p)" and "sources_ok n p1 cleared src dst = sources_ok n p cleared src dst"
  using cleared_states[OF k ok empty refl, where slots = C and sb = sb] ok by (simp_all add: p1 sources_ok_def)

context slot_state
begin

lemma cleared_rows:
  assumes "\<forall>s\<in>set C. s < n" "cap p = n" "x < n"
  shows "row (if C = [] then p else sb_reset sb p C) x = (if x \<in> set C then blank else row p x)"
    and "cap (if C = [] then p else sb_reset sb p C) = n"
  using reset[of C p] assms by auto

lemma cleared_then_cloned:
  assumes C: "\<forall>s\<in>set C. s < n" and cap: "cap p = n" and d: "distinct dst" "length src = length dst" "\<forall>s\<in>set src \<union> set dst. s < n"
    and clean: "\<forall>s\<in>set src. s \<notin> set C" and q: "q = sb_copy sb (if C = [] then p else sb_reset sb p C) src dst"
  shows "i < length dst \<Longrightarrow> row q (dst ! i) = row p (src ! i)"
    and "x < n \<Longrightarrow> x \<notin> set dst \<Longrightarrow> row q x = (if x \<in> set C then blank else row p x)"
proof -
  let ?p = "if C = [] then p else sb_reset sb p C"
  have c: "cap ?p = n" using cleared_rows(2)[OF C cap] C by (cases C) (use cap in auto)
  note copied = copy[OF d(2,1), of ?p, unfolded c, OF d(3)]
  show "row q (dst ! i) = row p (src ! i)" if i: "i < length dst"
  proof -
    have s: "src ! i \<in> set src" using i d(2) by simp
    then have "src ! i < n" "src ! i \<notin> set C" using d(3) clean by blast+
    then show ?thesis using copied i cleared_rows(1)[OF C cap, of "src ! i"] by (simp add: q)
  qed
  show "row q x = (if x \<in> set C then blank else row p x)" if "x < n" "x \<notin> set dst"
    using copied that cleared_rows(1)[OF C cap that(1)] by (simp add: q)
qed

end

text \<open>
  C24: the deferred operations of an extend forward leave every clone with the state of its source
  as it was before, taken from the active slot or dequantised from its checkpoint, every
  other cleared slot blank, and every remaining slot untouched; between active slots the states that
  ride along (short convolution, n-gram history) are cleared and cloned with it. The batch is
  consumed: running the operations again, as for a second piece of the same batch, changes nothing.
\<close>

theorem deferred_states:
  assumes k: "slot_kernels_ok zc fk" and ok: "mpool_ok L n p"
    and empty: "mp_numel p = 0 \<Longrightarrow> \<forall>l<L. \<forall>s<n. mp_temporal p ! l ! s = zt"
    and b: "runs_deferred b" "cloned_slots b = (src, dst)" and C: "\<forall>s\<in>set (cleared_slots b). s < n"
    and D: "slots_in n dst" "length src = length dst"
    and act: "ckpt = None \<Longrightarrow> sources_ok n p (cleared_slots b) src dst"
    and ck: "\<And>ck. ckpt = Some ck \<Longrightarrow> ckpt_fits L (length (mp_conv p)) ck"
    and sib: "slot_state sb row cap blank" "\<forall>s\<in>set (mp_siblings p). cap s = n"
  shows "\<exists>p'. deferred_cow_and_clear sb fk zc zt rnd True False ckpt p b = Inr (p', b\<lparr>cw_clear := None, cw_cow := None\<rparr>) \<and>
     deferred_cow_and_clear sb fk zc zt rnd True False ckpt p' (b\<lparr>cw_clear := None, cw_cow := None\<rparr>) =
       Inr (p', b\<lparr>cw_clear := None, cw_cow := None\<rparr>) \<and>
     (\<forall>i<length dst. slot_state_of p' L (dst ! i) =
       (case ckpt of None \<Rightarrow> slot_state_of p L (src ! i) | Some ck \<Rightarrow> ckpt_state rnd ck L (src ! i))) \<and>
     (\<forall>x<n. x \<notin> set dst \<longrightarrow> slot_state_of p' L x =
       (if x \<in> set (cleared_slots b) then blank_state zc zt (length (mp_conv p)) L else slot_state_of p L x)) \<and>
     (ckpt = None \<longrightarrow> (\<forall>j<length (mp_siblings p).
       (\<forall>i<length dst. row (mp_siblings p' ! j) (dst ! i) = row (mp_siblings p ! j) (src ! i)) \<and>
       (\<forall>x<n. x \<notin> set dst \<longrightarrow> row (mp_siblings p' ! j) x = (if x \<in> set (cleared_slots b) then blank else row (mp_siblings p ! j) x))))"
proof -
  let ?C = "cleared_slots b" and ?b = "b\<lparr>cw_clear := None, cw_cow := None\<rparr>"
  define p1 where "p1 = (if ?C = [] then p else clear_slots sb fk zc zt p ?C)"
  note A = after_clear[OF k ok empty p1_def]
  have run: "deferred_cow_and_clear sb fk zc zt rnd True False ckpt p b = map_sum id (\<lambda>q. (q, ?b))
      (if src = [] then Inr p1 else case ckpt of Some ck \<Rightarrow> Inr (load_checkpoints rnd ck p1 src dst) | None \<Rightarrow> copy_from sb fk p1 src dst)"
    using deferred_steps[OF b D(2)] by (simp only: p1_def Let_def)
  have again: "deferred_cow_and_clear sb fk zc zt rnd True False ckpt q ?b = Inr (q, ?b)" for q
    by (simp add: deferred_cow_and_clear_def)
  have sib1: "mp_siblings p1 ! j = (if ?C = [] then mp_siblings p ! j else sb_reset sb (mp_siblings p ! j) ?C)"
    if "j < length (mp_siblings p)" for j using that A(3) by simp
  have cap: "cap (mp_siblings p ! j) = n" if "j < length (mp_siblings p)" for j using sib(2) that by simp
  consider "src = []" | ck where "src \<noteq> []" "ckpt = Some ck" | "src \<noteq> []" "ckpt = None" by blast
  then show ?thesis
  proof cases
    case 1
    then have "dst = []" using D(2) by simp
    show ?thesis
      by (rule exI[of _ p1]) (use run again 1 A(1) slot_state.cleared_rows(1)[OF sib(1) C cap] sib1 \<open>dst = []\<close> in simp)
  next
    case (2 ck)
    let ?q = "load_checkpoints rnd ck p1 src dst"
    obtain m where m: "tensor_ok L m (c_q ck)" "length (c_conv ck) = length (mp_conv p1)" "\<forall>t\<in>set (c_conv ck). length t = L"
      using ck[OF 2(2)] A(4) by (auto simp: ckpt_fits_def)
    note Q = loaded_states[OF A(2) m D refl]
    show ?thesis by (rule exI[of _ ?q]) (use run again 2 Q A(1) in simp)
  next
    case 3
    note src = act[OF 3(2)]
    then obtain q where q: "copy_from sb fk p1 src dst = Inr q" using copy_from_runs A(5) by blast
    have s: "\<forall>x\<in>set src. x < n" "set src \<inter> set dst = {}" "\<forall>x\<in>set src. x \<notin> set ?C" using src by (auto simp: sources_ok_def)
    note Q = copied_states[OF k A(2) q D(1) s(1) D(2) s(2)]
    have from_p: "slot_state_of p1 L (src ! i) = slot_state_of p L (src ! i)" if "i < length dst" for i
      using A(1) s that D(2) by simp
    have in_n: "distinct dst" "\<forall>x\<in>set src \<union> set dst. x < n" using D(1) s(1) by (auto simp: slots_in_def)
    have rows: "mp_siblings q ! j = sb_copy sb (if ?C = [] then mp_siblings p ! j else sb_reset sb (mp_siblings p ! j) ?C) src dst"
      if "j < length (mp_siblings p)" for j using copied_fields(4)[OF q] sib1[OF that] that A(3) by simp
    note R = slot_state.cleared_then_cloned[OF sib(1) C cap in_n(1) D(2) in_n(2) s(3) rows]
    show ?thesis by (rule exI[of _ q]) (use run again 3 q Q A(1) from_p R in simp)
  qed
qed

text \<open>The n-gram history of the slots as a state that rides along.\<close>

definition context_ops :: "'q \<Rightarrow> ('q side, 'q list) sibling_ops" where
  "context_ops z = \<lparr>sb_reset = (\<lambda>p idx. case p of Context xs \<Rightarrow> Context (fill_at xs idx z) | _ \<Rightarrow> p),
     sb_copy = (\<lambda>p src dst. side_copy p dst p src),
     sb_get = (\<lambda>p idx. case p of Context xs \<Rightarrow> index_select xs idx | _ \<Rightarrow> []),
     sb_load = (\<lambda>p h dst. case p of Context xs \<Rightarrow> Context (scatter xs (zip dst h)) | _ \<Rightarrow> p)\<rparr>"

fun context_row :: "'q side \<Rightarrow> nat \<Rightarrow> 'q option" where
  "context_row (Context xs) s = Some (xs ! s)"
| "context_row _ s = None"

fun context_cap :: "'q side \<Rightarrow> nat" where
  "context_cap (Context xs) = length xs"
| "context_cap _ = 0"

interpretation context_state: slot_state "context_ops z" context_row context_cap "Some z" for z
proof (unfold_locales, goal_cases)
  case (1 idx p)
  then show ?case by (cases p) (auto simp: context_ops_def nth_fill_at)
next
  case (2 src dst p)
  then show ?case by (cases p) (auto simp: context_ops_def side_copy_def scatter_select)
next
  case (3 src dst p q)
  show ?case
  proof (cases "dst = []")
    case True
    then show ?thesis by (cases q) (auto simp: context_ops_def scatter_def)
  next
    case False
    with 3 obtain xs ys where "p = Context xs" "q = Context ys" by (cases p; cases q) auto
    then show ?thesis using 3 by (auto simp: context_ops_def scatter_select)
  qed
qed

text \<open>Slot 2 clones slot 1 and slot 3 is cleared; the pool has one layer and one window.\<close>

definition cow_demo_pool :: "(int, head list, int side) mamba_pool" where
  "cow_demo_pool = \<lparr>mp_conv = [[[4, 5, 6, 7]]], mp_temporal = [[[[[1]]], [[[2]]], [[[3]]], [[[4]]]]], mp_numel = 4,
     mp_write_pos = Some [0, 0, 5, 6], mp_cache_base = None, mp_is_flush = None, mp_siblings = [Context [20, 21, 22, 23]],
     mp_debug = True, mp_fuse = True\<rparr>"

definition cow_demo :: cow_batch where
  "cow_demo = \<lparr>cw_extend = True, cw_verify = False, cw_draft_extend = False, cw_clear = Some [3], cw_cow = Some ([1], [2])\<rparr>"

theorem deferred_states_witness:
  "\<exists>p'. deferred_cow_and_clear (context_ops 9) (loop_kernels (\<lambda>_. 0)) (\<lambda>_. 0) [[[0]]] id True False
       (None :: (int, int, unit) ckpt_pool option) cow_demo_pool cow_demo = Inr (p', cow_demo\<lparr>cw_clear := None, cw_cow := None\<rparr>) \<and>
     slot_state_of p' 1 2 = ([[5]], [[[[2]]]]) \<and> slot_state_of p' 1 3 = ([[0]], [[[[0]]]]) \<and> slot_state_of p' 1 1 = ([[5]], [[[[2]]]]) \<and>
     context_row (mp_siblings p' ! 0) 2 = Some 21 \<and> context_row (mp_siblings p' ! 0) 3 = Some 9"
proof -
  have ok: "mpool_ok 1 4 cow_demo_pool" by (simp add: mpool_ok_def tensor_ok_def cow_demo_pool_def)
  have b: "runs_deferred cow_demo" "cloned_slots cow_demo = ([1], [2])" "cleared_slots cow_demo = [3]"
    by (simp_all add: cow_demo_def runs_deferred_def cloned_slots_def cleared_slots_def)
  have src: "sources_ok 4 cow_demo_pool (cleared_slots cow_demo) [1] [2]" by (simp add: b sources_ok_def cow_demo_pool_def)
  have empty: "mp_numel cow_demo_pool = 0 \<Longrightarrow> \<forall>l<1. \<forall>s<4. mp_temporal cow_demo_pool ! l ! s = [[[0]]]" by (simp add: cow_demo_pool_def)
  have C: "\<forall>s\<in>set (cleared_slots cow_demo). s < 4" "slots_in 4 [2]" "\<forall>s\<in>set (mp_siblings cow_demo_pool). context_cap s = 4"
    by (simp_all add: b slots_in_def cow_demo_pool_def)
  have st: "slot_state_of cow_demo_pool 1 1 = ([[5]], [[[[2]]]])" "blank_state (\<lambda>_. 0) [[[0]]] (length (mp_conv cow_demo_pool)) 1 = ([[0]], [[[[0::rat]]]])"
    "mp_siblings cow_demo_pool = [Context [20, 21, 22, 23]]"
    by (simp_all add: slot_state_of_def blank_state_def cow_demo_pool_def)
  note t = deferred_states[OF loop_kernels_ok ok empty b(1,2) C(1,2) _ src _ context_state.slot_state_axioms[of 9] C(3),
    where zc = "\<lambda>_. 0" and ckpt = "None :: (int, int, unit) ckpt_pool option" and rnd = id, simplified b list.size One_nat_def[symmetric], unfolded st(3)]
  show ?thesis using t st b by (auto simp del: One_nat_def)
qed

end
