(* ===== verification/Topk_Gates.thy ===== *)
theory Topk_Gates
  imports Torch_Ops "HOL-Library.Option_ord"
begin

text \<open>
  The router gates of \<^verbatim>\<open>runtime-src/topk.py\<close> that are written with tensor operations: plain,
  biased, grouped and biased grouped top-k, with the fused shared experts and the renormalisation.

  A score is a rational; the fill value minus infinity of a mask is \<open>None\<close>, which is below every
  \<open>Some x\<close>. The row-wise scoring functions, \<^verbatim>\<open>torch.topk\<close> and \<^verbatim>\<open>torch.randint\<close> are arguments. The
  width of the logits is an argument too, since a batch without tokens still has one; reshaping such
  a batch to an inferred dimension is an error, as it is in the library.
\<close>

section \<open>Operators\<close>

datatype scoring = Softmax | Sigmoid | SqrtSoftplus | OtherScoring

record gate_ops =
  g_topk :: "rat option list \<Rightarrow> nat \<Rightarrow> (rat option \<times> nat) list"
  g_score :: "scoring \<Rightarrow> rat list \<Rightarrow> rat list"
  g_randint :: "int \<Rightarrow> int \<Rightarrow> nat \<Rightarrow> int list"

type_synonym routed = "rat list list \<times> int list list"

definition RENORM_EPS :: rat where
  "RENORM_EPS = 1 / 10 ^ 20"

definition py_topk :: "gate_ops \<Rightarrow> rat option list \<Rightarrow> nat \<Rightarrow> (rat option \<times> nat) list result" where
  "py_topk ops xs k = (if length xs < k then Inl RuntimeError else Inr (g_topk ops xs k))"

definition topk_ids_of :: "gate_ops \<Rightarrow> rat option list \<Rightarrow> nat \<Rightarrow> nat list result" where
  "topk_ids_of ops xs k = res_bind (py_topk ops xs k) (\<lambda>vs. Inr (map snd vs))"

definition add_bias :: "rat list \<Rightarrow> rat list \<Rightarrow> rat list result" where
  "add_bias bias row =
     (if length bias = length row then Inr (map2 (+) row bias)
      else if length bias = 1 then Inr (map (\<lambda>x. x + bias ! 0) row)
      else Inl RuntimeError)"

definition renorm_row :: "rat list \<Rightarrow> rat list" where
  "renorm_row w = map (\<lambda>x. x / (sum_list w + RENORM_EPS)) w"

text \<open>The tail that the compiled gates share: renormalise, then the scaling factor.\<close>

definition renorm_scaled :: "bool \<Rightarrow> nat \<Rightarrow> rat option \<Rightarrow> bool \<Rightarrow> rat list \<Rightarrow> rat list result" where
  "renorm_scaled renormalize nfs rsf apply_rsf w =
     (if \<not> renormalize then Inr w
      else let s = (if nfs = 0 then sum_list w else sum_list (butlast w)) + RENORM_EPS;
               w' = map (\<lambda>x. x / s) w
           in if \<not> apply_rsf then Inr w'
              else case rsf of None \<Rightarrow> Inl TypeError | Some f \<Rightarrow> Inr (map (\<lambda>x. x * f) w'))"

text \<open>The last column of a gate with fused shared experts: a random shared id and its weight.\<close>

definition shared_column ::
  "gate_ops \<Rightarrow> nat \<Rightarrow> nat \<Rightarrow> rat option \<Rightarrow> rat list list \<Rightarrow> int list list \<Rightarrow> routed result" where
  "shared_column ops E nfs rsf ws ids =
     (if nfs = 0 then Inr (ws, ids)
      else if [] \<in> set ids then Inl IndexError
      else let r = g_randint ops (int E) (int (E + nfs)) (length ids);
               ids' = map2 (\<lambda>row x. row[length row - 1 := x]) ids r;
               ws' = (case rsf of None \<Rightarrow> ws
                 | Some f \<Rightarrow> map (\<lambda>w. w[length w - 1 := sum_list (butlast w) / f]) ws)
           in Inr (ws', ids'))"

section \<open>The plain gates\<close>

definition score_or_error :: "gate_ops \<Rightarrow> scoring \<Rightarrow> rat list list \<Rightarrow> rat list list result" where
  "score_or_error ops sc gating =
     (if sc = OtherScoring then Inl ValueError else Inr (map (g_score ops sc) gating))"

definition native_row :: "gate_ops \<Rightarrow> nat \<Rightarrow> rat list option \<Rightarrow> rat list \<Rightarrow> (rat list \<times> int list) result" where
  "native_row ops k bias scores =
     (case bias of
        Some b \<Rightarrow> res_bind (add_bias b scores) (\<lambda>ch.
          res_bind (topk_ids_of ops (map Some ch) k) (\<lambda>ids.
          Inr (map (\<lambda>i. scores ! i) ids, map int ids)))
      | None \<Rightarrow> res_bind (py_topk ops (map Some scores) k) (\<lambda>vs.
          Inr (map (the \<circ> fst) vs, map (int \<circ> snd) vs)))"

definition fused_topk_torch_native ::
  "gate_ops \<Rightarrow> nat \<Rightarrow> rat list list \<Rightarrow> nat \<Rightarrow> bool \<Rightarrow> rat list option \<Rightarrow> scoring \<Rightarrow> routed result" where
  "fused_topk_torch_native ops n_hidden gating k renormalize bias sc =
     (if bias = None \<and> n_hidden \<noteq> length gating then Inl AssertionError
      else res_bind (score_or_error ops sc gating) (\<lambda>scores.
        res_bind (res_map (native_row ops k bias) scores) (\<lambda>rows.
        Inr (map (\<lambda>(w, _). if renormalize then renorm_row w else w) rows, map snd rows))))"

definition fused_topk_softmax_torch_raw_logits ::
  "gate_ops \<Rightarrow> nat \<Rightarrow> rat list list \<Rightarrow> nat \<Rightarrow> bool \<Rightarrow> routed result" where
  "fused_topk_softmax_torch_raw_logits ops n_hidden gating k renormalize =
     (if n_hidden \<noteq> length gating then Inl AssertionError
      else res_bind (res_map (\<lambda>row. topk_ids_of ops (map Some row) k) gating) (\<lambda>ids.
        let ws = map2 (\<lambda>row is. map (\<lambda>i. row ! i) is) gating ids
        in Inr (if renormalize then map (g_score ops Softmax) ws else ws, map (map int) ids)))"

definition apply_topk_weights_cpu ::
  "bool \<Rightarrow> rat list \<Rightarrow> rat list list \<Rightarrow> rat list list \<times> rat list" where
  "apply_topk_weights_cpu need ws inputs =
     (if \<not> need then (inputs, ws)
      else (map2 (\<lambda>w row. map (\<lambda>x. x * w) row) ws inputs, map (\<lambda>_. 1) ws))"

text \<open>The gate for one expert group, and the biased gate without groups.\<close>

definition biased_row :: "gate_ops \<Rightarrow> nat \<Rightarrow> rat list \<Rightarrow> rat list \<Rightarrow> (rat list \<times> int list) result" where
  "biased_row ops k bias scores =
     res_bind (add_bias bias scores) (\<lambda>ch.
     res_bind (topk_ids_of ops (map Some ch) k) (\<lambda>ids.
     Inr (map (\<lambda>i. scores ! i) ids, map int ids)))"

definition kimi_k2_biased_topk_impl ::
  "gate_ops \<Rightarrow> nat \<Rightarrow> rat list list \<Rightarrow> rat list \<Rightarrow> nat \<Rightarrow> bool \<Rightarrow> rat option \<Rightarrow> bool \<Rightarrow> routed result" where
  "kimi_k2_biased_topk_impl ops n_hidden gating bias k renormalize rsf apply_rsf =
     (if n_hidden \<noteq> length gating then Inl AssertionError
      else if gating = [] then Inl RuntimeError
      else res_bind (res_map (biased_row ops k bias) (map (g_score ops Sigmoid) gating)) (\<lambda>rows.
        res_bind (res_map (renorm_scaled renormalize 0 rsf apply_rsf) (map fst rows)) (\<lambda>ws.
        Inr (ws, map snd rows))))"

definition biased_topk_impl ::
  "gate_ops \<Rightarrow> nat \<Rightarrow> nat \<Rightarrow> rat list list \<Rightarrow> rat list option \<Rightarrow> nat \<Rightarrow> bool \<Rightarrow> scoring \<Rightarrow> nat \<Rightarrow>
   rat option \<Rightarrow> bool \<Rightarrow> routed result" where
  "biased_topk_impl ops E n_hidden gating bias k renormalize sc nfs rsf apply_rsf =
     (if n_hidden \<noteq> length gating then Inl AssertionError
      else if sc \<noteq> Sigmoid \<and> sc \<noteq> SqrtSoftplus then Inl UnboundLocalError
      else if gating = [] then Inl RuntimeError
      else case bias of None \<Rightarrow> Inl AttributeError
      | Some b \<Rightarrow>
          res_bind (res_map (biased_row ops k b) (map (g_score ops sc) gating)) (\<lambda>rows.
          res_bind (shared_column ops E nfs rsf (map fst rows) (map snd rows)) (\<lambda>(ws, ids).
          res_bind (res_map (renorm_scaled renormalize nfs rsf apply_rsf) ws) (\<lambda>ws'.
          Inr (ws', ids)))))"

section \<open>The grouped gates\<close>

text \<open>
  A row as \<open>G\<close> groups of equal size; the mask of the experts of the selected groups. The group
  scores need a non-empty group for the maximum and two experts for the sum of the best two.
\<close>

definition group_size :: "nat \<Rightarrow> nat \<Rightarrow> nat result" where
  "group_size E G = (if G = 0 \<or> E mod G \<noteq> 0 then Inl RuntimeError else Inr (E div G))"

definition score_mask :: "nat \<Rightarrow> nat \<Rightarrow> nat list \<Rightarrow> bool list" where
  "score_mask G m chosen = concat (map (\<lambda>g. replicate m (g \<in> set chosen)) [0..<G])"

definition grouped_row ::
  "gate_ops \<Rightarrow> nat \<Rightarrow> nat \<Rightarrow> nat \<Rightarrow> nat \<Rightarrow> rat list \<Rightarrow> (rat list \<times> int list) result" where
  "grouped_row ops k G m topk_group scores =
     (if m = 0 then Inl IndexError
      else res_bind (topk_ids_of ops (map (\<lambda>g. Some (Max (set g))) (chunks m G scores)) topk_group) (\<lambda>chosen.
        res_bind (py_topk ops (map2 (\<lambda>b s. Some (if b then s else 0)) (score_mask G m chosen) scores) k) (\<lambda>vs.
        Inr (map (the \<circ> fst) vs, map (int \<circ> snd) vs))))"

definition grouped_topk_gpu ::
  "gate_ops \<Rightarrow> nat \<Rightarrow> nat \<Rightarrow> rat list list \<Rightarrow> nat \<Rightarrow> bool \<Rightarrow> nat \<Rightarrow> nat \<Rightarrow> nat \<Rightarrow> rat option \<Rightarrow> bool \<Rightarrow>
   scoring \<Rightarrow> routed result" where
  "grouped_topk_gpu ops E n_hidden gating k renormalize G topk_group nfs rsf apply_rsf sc =
     (if n_hidden \<noteq> length gating then Inl AssertionError
      else if sc \<noteq> Softmax \<and> sc \<noteq> Sigmoid then Inl ValueError
      else if gating = [] then Inl RuntimeError
      else res_bind (group_size E G) (\<lambda>m.
        res_bind (res_map (grouped_row ops k G m topk_group) (map (g_score ops sc) gating)) (\<lambda>rows.
        res_bind (shared_column ops E nfs rsf (map fst rows) (map snd rows)) (\<lambda>(ws, ids).
        res_bind (res_map (renorm_scaled renormalize nfs rsf apply_rsf) ws) (\<lambda>ws'.
        Inr (ws', ids))))))"

definition top2_sum :: "gate_ops \<Rightarrow> rat list \<Rightarrow> rat option result" where
  "top2_sum ops g = res_bind (py_topk ops (map Some g) 2) (\<lambda>vs. Inr (Some (sum_list (map (the \<circ> fst) vs))))"

definition biased_grouped_row ::
  "gate_ops \<Rightarrow> nat \<Rightarrow> nat \<Rightarrow> nat \<Rightarrow> nat \<Rightarrow> rat list \<Rightarrow> rat list \<Rightarrow> (rat list \<times> int list) result" where
  "biased_grouped_row ops k G m topk_group bias scores =
     res_bind (add_bias bias scores) (\<lambda>ch.
     res_bind (res_map (top2_sum ops) (chunks m G ch)) (\<lambda>gs.
     res_bind (topk_ids_of ops gs topk_group) (\<lambda>chosen.
     res_bind (topk_ids_of ops (map2 (\<lambda>b s. if b then Some s else None) (score_mask G m chosen) ch) k) (\<lambda>ids.
     Inr (map (\<lambda>i. scores ! i) ids, map int ids)))))"

definition biased_grouped_topk_impl ::
  "gate_ops \<Rightarrow> nat \<Rightarrow> nat \<Rightarrow> rat list list \<Rightarrow> rat list \<Rightarrow> nat \<Rightarrow> bool \<Rightarrow> nat \<Rightarrow> nat \<Rightarrow> nat \<Rightarrow> rat option \<Rightarrow>
   bool \<Rightarrow> routed result" where
  "biased_grouped_topk_impl ops E n_hidden gating bias k renormalize G topk_group nfs rsf apply_rsf =
     (if n_hidden \<noteq> length gating then Inl AssertionError
      else if gating = [] then Inl RuntimeError
      else res_bind (group_size E G) (\<lambda>m.
        res_bind (res_map (biased_grouped_row ops k G m topk_group bias) (map (g_score ops Sigmoid) gating)) (\<lambda>rows.
        res_bind (shared_column ops E nfs rsf (map fst rows) (map snd rows)) (\<lambda>(ws, ids).
        res_bind (res_map (renorm_scaled renormalize nfs rsf apply_rsf) ws) (\<lambda>ws'.
        Inr (ws', ids))))))"

text \<open>\<^verbatim>\<open>_make_round_robin_expert_ids\<close>\<close>

definition make_round_robin_expert_ids :: "nat \<Rightarrow> nat \<Rightarrow> nat \<Rightarrow> nat option \<Rightarrow> int list list result" where
  "make_round_robin_expert_ids num_tokens k E lid =
     (if k = 0 then Inr (replicate num_tokens [])
      else if E = 0 \<and> num_tokens \<noteq> 0 then Inl RuntimeError
      else let step = max (E div k) 1; off = (case lid of None \<Rightarrow> 0 | Some l \<Rightarrow> l)
           in Inr (map (\<lambda>t. map (\<lambda>j. int ((t + off + j * step) mod E)) [0..<k]) [0..<num_tokens]))"

end
