(* ===== verification/Topk_Laws.thy ===== *)
theory Topk_Laws
  imports Topk_Gates
begin

text \<open>
  What the tensor gates of \<^verbatim>\<open>runtime-src/topk.py\<close> select: the best experts by score plus bias, the
  best groups, and the weight of the fused shared expert; and that the gate written for one group
  computes what the grouped gate computes.
\<close>

section \<open>One row\<close>

lemma res_map_map: "res_map f (map g xs) = res_map (f \<circ> g) xs"
  by (induction xs) auto

lemma res_map_cong: "(\<And>x. x \<in> set xs \<Longrightarrow> f x = g x) \<Longrightarrow> res_map f xs = res_map g xs"
  by (induction xs) auto

lemma res_map_ok: "(\<And>x. x \<in> set xs \<Longrightarrow> \<exists>y. f x = Inr y \<and> P x y) \<Longrightarrow>
    \<exists>ys. res_map f xs = Inr ys \<and> length ys = length xs \<and> (\<forall>i<length xs. P (xs ! i) (ys ! i))"
proof (induction xs)
  case Nil
  then show ?case by simp
next
  case (Cons x xs)
  obtain y where y: "f x = Inr y" "P x y" using Cons.prems by force
  obtain ys where ys: "res_map f xs = Inr ys" "length ys = length xs" "\<forall>i<length xs. P (xs ! i) (ys ! i)"
    using Cons by force
  then show ?case using y by (auto simp: nth_Cons split: nat.splits)
qed

lemma renorm_scaled_0:
  "renorm_scaled rn 0 rsf False w = Inr (if rn then renorm_row w else w)"
  by (simp add: renorm_scaled_def renorm_row_def)

lemma sum_list_div: "sum_list (map (\<lambda>x. x / c) w) = sum_list w / (c :: rat)"
  by (induction w) (auto simp: add_divide_distrib)

lemma sum_list_posI: "xs \<noteq> [] \<Longrightarrow> \<forall>x\<in>set xs. 0 < x \<Longrightarrow> 0 < sum_list (xs :: rat list)"
proof (induction xs)
  case Nil
  then show ?case by simp
next
  case (Cons a xs)
  then show ?case by (cases xs) (auto intro: add_pos_pos)
qed

text \<open>The values that the choice is made on.\<close>

definition choice_scores :: "rat list option \<Rightarrow> rat list \<Rightarrow> rat list" where
  "choice_scores bias s = (case bias of None \<Rightarrow> s | Some b \<Rightarrow> map2 (+) s b)"

definition best_ids :: "'a::linorder list \<Rightarrow> nat \<Rightarrow> int list \<Rightarrow> bool" where
  "best_ids xs k ids \<longleftrightarrow> (\<forall>i\<in>set ids. 0 \<le> i) \<and> best_k xs k (map nat ids)"

lemma best_ids_int: "best_ids xs k (map int is) = best_k xs k is"
  by (auto simp: best_ids_def comp_def)

lemma best_k_Some: "best_k (map Some xs) k is = best_k xs k is"
  by (auto simp: best_k_def)

lemma topk_ids_of_ok: "k \<le> length xs \<Longrightarrow> topk_ids_of ops xs k = Inr (map snd (g_topk ops xs k))"
  by (simp add: topk_ids_of_def py_topk_def)

lemma map_int_comp: "map (int \<circ> snd) vs = map int (map snd vs)"
  by simp

context topk_any
begin

lemma best_of: assumes "k \<le> length xs" shows "best_ids xs k (map int (map snd (topk xs k)))"
  by (simp only: best_ids_int topk_best[OF assms])

end

lemma native_row_best:
  assumes op: "topk_any (g_topk ops)" and k: "k \<le> length s"
    and b: "\<forall>b. bias = Some b \<longrightarrow> length b = length s"
  shows "\<exists>w ids. native_row ops k bias s = Inr (w, ids) \<and> best_ids (choice_scores bias s) k ids \<and>
     w = map (\<lambda>i. s ! nat i) ids"
proof (cases bias)
  case None
  have k': "k \<le> length (map Some s)" using k by simp
  let ?vs = "g_topk ops (map Some s) k"
  have "map (the \<circ> fst) ?vs = map the (map fst ?vs)" by simp
  also have "\<dots> = map (\<lambda>i. s ! i) (map snd ?vs)"
    using topk_any.topk_values[OF op k'] topk_any.topk_value[OF op k'] by fastforce
  finally have "map (the \<circ> fst) ?vs = map (\<lambda>i. s ! nat i) (map (int \<circ> snd) ?vs)" by simp
  moreover have "best_ids s k (map (int \<circ> snd) ?vs)"
    using topk_any.topk_best[OF op k'] unfolding map_int_comp best_ids_int best_k_Some .
  ultimately show ?thesis
    using None k by (simp add: native_row_def py_topk_def choice_scores_def)
next
  case (Some b)
  let ?ch = "map2 (+) s b"
  have l: "length ?ch = length s" using b Some by simp
  have k': "k \<le> length (map Some ?ch)" using k l by simp
  have "best_k ?ch k (map snd (g_topk ops (map Some ?ch) k))"
    using topk_any.topk_best[OF op k'] by (simp only: best_k_Some)
  then have "best_ids ?ch k (map int (map snd (g_topk ops (map Some ?ch) k)))" by (simp only: best_ids_int)
  moreover have "add_bias b s = Inr ?ch" using b Some by (simp add: add_bias_def)
  ultimately show ?thesis
    using Some k' l by (simp add: native_row_def topk_ids_of_def py_topk_def choice_scores_def comp_def split_def)
qed

text \<open>The scoring functions of the gates work row by row and keep the width.\<close>

definition keeps_width :: "gate_ops \<Rightarrow> bool" where
  "keeps_width ops \<longleftrightarrow> (\<forall>sc row. length (g_score ops sc row) = length row)"

definition logits_ok :: "nat \<Rightarrow> rat list list \<Rightarrow> bool" where
  "logits_ok E gating \<longleftrightarrow> (\<forall>row\<in>set gating. length row = E)"

text \<open>
  the torch-native gate routes every token to \<open>k\<close> distinct experts of highest score (plus the
  selection bias, if there is one), and its weights are the scores of these experts without the
  bias, divided by their sum plus epsilon when it renormalises. With positive scores the
  renormalised weights of a token then sum to \<open>s / (s + epsilon)\<close>, which is below one.
\<close>

theorem native_gate_selects_best:
  assumes op: "topk_any (g_topk ops)" and kw: "keeps_width ops" and g: "logits_ok E gating"
    and k: "k \<le> E" and sc: "sc \<noteq> OtherScoring" and n: "n_hidden = length gating"
    and b: "\<forall>b. bias = Some b \<longrightarrow> length b = E"
  shows "\<exists>ws ids. fused_topk_torch_native ops n_hidden gating k renormalize bias sc = Inr (ws, ids) \<and>
     length ws = length gating \<and> length ids = length gating \<and>
     (\<forall>t<length gating. let s = g_score ops sc (gating ! t); w = map (\<lambda>i. s ! nat i) (ids ! t)
        in best_ids (choice_scores bias s) k (ids ! t) \<and>
           ws ! t = (if renormalize then renorm_row w else w) \<and>
           (0 < k \<longrightarrow> (\<forall>x\<in>set s. 0 < x) \<longrightarrow> renormalize \<longrightarrow>
              sum_list (ws ! t) = sum_list w / (sum_list w + RENORM_EPS) \<and> sum_list (ws ! t) < 1))"
proof -
  let ?P = "\<lambda>x y. best_ids (choice_scores bias x) k (snd y) \<and> fst y = map (\<lambda>i. x ! nat i) (snd y)"
  let ?S = "map (g_score ops sc) gating"
  have row: "\<exists>y. native_row ops k bias x = Inr y \<and> ?P x y" if x: "x \<in> set ?S" for x
  proof -
    have l: "length x = E" using x kw g by (auto simp: keeps_width_def logits_ok_def)
    have "\<exists>w ids. native_row ops k bias x = Inr (w, ids) \<and> best_ids (choice_scores bias x) k ids \<and>
       w = map (\<lambda>i. x ! nat i) ids"
      by (rule native_row_best[OF op]) (use k b l in auto)
    then show ?thesis by auto
  qed
  have "\<exists>ys. res_map (native_row ops k bias) ?S = Inr ys \<and> length ys = length ?S \<and>
      (\<forall>i<length ?S. ?P (?S ! i) (ys ! i))"
    by (rule res_map_ok[where P = ?P, OF row])
  then obtain rows where
    rows: "res_map (native_row ops k bias) ?S = Inr rows" "length rows = length gating"
      "\<And>t. t < length gating \<Longrightarrow> best_ids (choice_scores bias (g_score ops sc (gating ! t))) k (snd (rows ! t)) \<and>
         fst (rows ! t) = map (\<lambda>i. g_score ops sc (gating ! t) ! nat i) (snd (rows ! t))"
    by auto
  have sum: "sum_list (renorm_row w) = sum_list w / (sum_list w + RENORM_EPS)" for w
    by (simp add: renorm_row_def sum_list_div)
  have lt: "sum_list w / (sum_list w + RENORM_EPS) < 1" if "0 < sum_list w" for w
    using that by (simp add: RENORM_EPS_def)
  have pos: "0 < sum_list (map (\<lambda>i. s ! nat i) is)"
    if "best_ids ch k is" "0 < k" "\<forall>x\<in>set s. 0 < x" "length ch = length s" for ch :: "rat list" and s :: "rat list" and "is"
    using that by (intro sum_list_posI) (auto simp: best_ids_def best_k_def)
  have lch: "length (choice_scores bias (g_score ops sc (gating ! t))) = length (g_score ops sc (gating ! t))"
    if "t < length gating" for t
    using that b g kw by (cases bias) (auto simp: choice_scores_def keeps_width_def logits_ok_def)
  have run: "fused_topk_torch_native ops n_hidden gating k renormalize bias sc =
      Inr (map (\<lambda>(w, _). if renormalize then renorm_row w else w) rows, map snd rows)"
    using n sc rows(1) by (simp add: fused_topk_torch_native_def score_or_error_def)
  have tok: "let s = g_score ops sc (gating ! t); w = map (\<lambda>i. s ! nat i) (map snd rows ! t)
        in best_ids (choice_scores bias s) k (map snd rows ! t) \<and>
           map (\<lambda>(w, _). if renormalize then renorm_row w else w) rows ! t = (if renormalize then renorm_row w else w) \<and>
           (0 < k \<longrightarrow> (\<forall>x\<in>set s. 0 < x) \<longrightarrow> renormalize \<longrightarrow>
              sum_list (map (\<lambda>(w, _). if renormalize then renorm_row w else w) rows ! t) = sum_list w / (sum_list w + RENORM_EPS) \<and>
              sum_list (map (\<lambda>(w, _). if renormalize then renorm_row w else w) rows ! t) < 1)"
    if t: "t < length gating" for t
    using rows(2) rows(3)[OF t] t pos[OF _ _ _ lch[OF t]] lt by (simp add: Let_def split_def sum)
  show ?thesis
    by (rule exI[of _ "map (\<lambda>(w, _). if renormalize then renorm_row w else w) rows"], rule exI[of _ "map snd rows"])
      (use run rows(2) tok in simp)
qed

section \<open>Groups\<close>

lemma score_mask_map: "score_mask G m chosen = map (\<lambda>i. i div m \<in> set chosen) [0..<G * m]"
proof (induction G)
  case 0
  then show ?case by (simp add: score_mask_def)
next
  case (Suc G)
  have u: "[0..<Suc G * m] = [0..<G * m] @ [G * m..<G * m + m]"
    by (subst upt_add_eq_append[symmetric]) (simp_all add: add.commute)
  have "map (\<lambda>i. i div m \<in> set chosen) [G * m..<G * m + m] = replicate m (G \<in> set chosen)"
    by (rule nth_equalityI) (auto simp: div_mult_self3)
  then show ?case using Suc u by (simp add: score_mask_def)
qed

definition group_of :: "nat \<Rightarrow> nat \<Rightarrow> nat \<Rightarrow> nat set \<Rightarrow> nat set" where
  "group_of G m E S = {i. i < E \<and> i div m \<in> S}"

lemma group_members_card:
  assumes S: "S \<subseteq> {..<G}" and E: "E = G * m"
  shows "card (group_of G m E S) = card S * m"
proof -
  have "group_of G m E S = (\<lambda>(g, j). g * m + j) ` (S \<times> {..<m})"
  proof (intro equalityI subsetI)
    fix i assume i: "i \<in> group_of G m E S"
    then have "m \<noteq> 0" by (cases m) (auto simp: group_of_def E)
    then have "i = (i div m) * m + i mod m \<and> i mod m < m" by simp
    then show "i \<in> (\<lambda>(g, j). g * m + j) ` (S \<times> {..<m})" using i by (force simp: group_of_def)
  next
    fix i assume "i \<in> (\<lambda>(g, j). g * m + j) ` (S \<times> {..<m})"
    then obtain g j where gj: "i = g * m + j" "g \<in> S" "j < m" by auto
    then have "g < G" using S by auto
    then have "Suc g * m \<le> G * m" by (intro mult_le_mono1) simp
    then have "i < E" using gj E by simp
    then show "i \<in> group_of G m E S" using gj by (simp add: group_of_def div_mult_self3)
  qed
  moreover have "inj_on (\<lambda>(g, j). g * m + j) (S \<times> {..<m})"
  proof (rule inj_onI, clarify)
    fix g j g' j'
    assume j: "j < m" "j' < m" and e: "g * m + j = g' * m + j'"
    have "(g * m + j) div m = g" "(g' * m + j') div m = g'" using j by simp_all
    then have "g = g'" using e by metis
    then show "g = g' \<and> j = j'" using e by simp
  qed
  ultimately show ?thesis by (simp add: card_image card_cartesian_product)
qed

text \<open>A best selection of the masked scores is inside the selected groups, and best among them.\<close>

lemma masked_best:
  fixes f :: "rat \<Rightarrow> rat option"
  assumes b: "best_k (map2 (\<lambda>b s. if b then f s else d) (score_mask G m chosen) ch) k is"
    and len: "length ch = G * m" and S: "set chosen \<subseteq> {..<G}" and k: "k \<le> card (set chosen) * m"
    and above: "\<And>s. s \<in> set ch \<Longrightarrow> d < f s" and mono: "\<And>s t. f s \<le> f t \<Longrightarrow> s \<le> t"
  shows "length is = k \<and> distinct is \<and> set is \<subseteq> group_of G m (G * m) (set chosen) \<and>
    (\<forall>i\<in>set is. \<forall>j\<in>group_of G m (G * m) (set chosen). j \<notin> set is \<longrightarrow> ch ! j \<le> ch ! i)"
proof -
  let ?xs = "map2 (\<lambda>b s. if b then f s else d) (score_mask G m chosen) ch"
  let ?A = "group_of G m (G * m) (set chosen)"
  have nth: "?xs ! i = (if i \<in> ?A then f (ch ! i) else d)" if "i < G * m" for i
    using that len by (simp add: score_mask_map group_of_def)
  have l: "length ?xs = G * m" using len by (simp add: score_mask_map)
  have "set is \<subseteq> ?A"
  proof (rule best_k_inside[OF b])
    show "?A \<subseteq> {..<length ?xs}" unfolding l by (auto simp: group_of_def)
    show "k \<le> card ?A" using k group_members_card[OF S refl, of m] by simp
    fix i j assume ij: "i \<in> ?A" "j < length ?xs" "j \<notin> ?A"
    then show "?xs ! j < ?xs ! i" using above[of "ch ! i"] len nth[of i] nth[of j] l
      by (simp add: group_of_def)
  qed
  moreover have "ch ! j \<le> ch ! i" if i: "i \<in> set is" and j: "j \<in> ?A" "j \<notin> set is" for i j
  proof -
    have "j < length ?xs" unfolding l using j(1) by (simp add: group_of_def)
    from best_kD(4)[OF b i this j(2)] have "?xs ! j \<le> ?xs ! i" .
    moreover have "i \<in> ?A" using calculation i \<open>set is \<subseteq> ?A\<close> by blast
    ultimately show ?thesis using mono nth[of i] nth[of j] j(1) by (simp add: group_of_def)
  qed
  ultimately show ?thesis using best_kD(1,2)[OF b] by blast
qed

definition best_groups :: "nat \<Rightarrow> nat \<Rightarrow> (nat \<Rightarrow> rat) \<Rightarrow> nat set \<Rightarrow> bool" where
  "best_groups G T sc S \<longleftrightarrow> S \<subseteq> {..<G} \<and> card S = T \<and> (\<forall>g\<in>S. \<forall>h<G. h \<notin> S \<longrightarrow> sc h \<le> sc g)"

definition best_among :: "rat list \<Rightarrow> nat \<Rightarrow> nat set \<Rightarrow> int list \<Rightarrow> bool" where
  "best_among ch k A ids \<longleftrightarrow> length ids = k \<and> distinct ids \<and> (\<forall>i\<in>set ids. 0 \<le> i \<and> nat i \<in> A) \<and>
     (\<forall>i\<in>set ids. \<forall>j\<in>A. int j \<notin> set ids \<longrightarrow> ch ! j \<le> ch ! nat i)"

definition group_slice :: "nat \<Rightarrow> 'a list \<Rightarrow> nat \<Rightarrow> 'a list" where
  "group_slice m xs h = take m (drop (h * m) xs)"

text \<open>The sum of the two best values of a group.\<close>

definition two_best :: "rat list \<Rightarrow> rat \<Rightarrow> bool" where
  "two_best g v \<longleftrightarrow> (\<exists>is. best_k g 2 is \<and> v = sum_list (map (\<lambda>i. g ! i) is))"

lemma best_among_int:
  assumes "length is = k \<and> distinct is \<and> set is \<subseteq> A \<and> (\<forall>i\<in>set is. \<forall>j\<in>A. j \<notin> set is \<longrightarrow> ch ! j \<le> ch ! i)"
  shows "best_among ch k A (map int is)"
  using assms by (auto simp: best_among_def distinct_map)

lemma chosen_groups:
  assumes b: "best_k (map (\<lambda>h. Some (sc h)) [0..<G]) T chosen"
  shows "best_groups G T sc (set chosen)"
proof -
  note D = best_kD[OF b]
  have S: "set chosen \<subseteq> {..<G}" using D(3) by auto
  have "sc h \<le> sc g" if g: "g \<in> set chosen" and h: "h < G" "h \<notin> set chosen" for g h
  proof -
    have "map (\<lambda>h. Some (sc h)) [0..<G] ! h \<le> map (\<lambda>h. Some (sc h)) [0..<G] ! g"
      by (rule D(4)[OF g _ h(2)]) (use h in simp)
    moreover have "g < G" using S g by auto
    ultimately show ?thesis using h by simp
  qed
  then show ?thesis using S D(1,2) distinct_card[of chosen] by (auto simp: best_groups_def)
qed

lemma top2_sum_ok:
  assumes op: "topk_any (g_topk ops)" and l: "2 \<le> length g"
  shows "\<exists>v. top2_sum ops g = Inr (Some v) \<and> two_best g v"
proof -
  have l': "2 \<le> length (map Some g)" using l by simp
  let ?vs = "g_topk ops (map Some g) 2"
  have b: "best_k g 2 (map snd ?vs)" using topk_any.topk_best[OF op l'] by (simp only: best_k_Some)
  have "map (the \<circ> fst) ?vs = map the (map fst ?vs)" by simp
  also have "\<dots> = map (\<lambda>i. g ! i) (map snd ?vs)"
    using topk_any.topk_values[OF op l'] topk_any.topk_value[OF op l'] by fastforce
  finally have e: "map (the \<circ> fst) ?vs = map (\<lambda>i. g ! i) (map snd ?vs)" .
  have "top2_sum ops g = Inr (Some (sum_list (map (\<lambda>i. g ! i) (map snd ?vs))))"
    unfolding e[symmetric] using l by (simp add: top2_sum_def py_topk_def)
  then show ?thesis using b unfolding two_best_def by blast
qed

lemma chunks_slices: "chunks m G xs = map (group_slice m xs) [0..<G]"
  by (rule nth_equalityI) (simp_all add: nth_chunks group_slice_def)

lemma length_group_slice: "h < G \<Longrightarrow> length xs = G * m \<Longrightarrow> length (group_slice m xs h) = m"
proof -
  assume h: "h < G" "length xs = G * m"
  then have "Suc h * m \<le> G * m" by (intro mult_le_mono1) simp
  then show ?thesis using h by (simp add: group_slice_def)
qed

lemma biased_grouped_row_best:
  assumes op: "topk_any (g_topk ops)" and len: "length s = G * m" "length bias = G * m" and m: "2 \<le> m"
    and T: "T \<le> G" and k: "k \<le> T * m"
  shows "\<exists>w ids S sc. biased_grouped_row ops k G m T bias s = Inr (w, ids) \<and> w = map (\<lambda>i. s ! nat i) ids \<and>
     (\<forall>h<G. two_best (group_slice m (map2 (+) s bias) h) (sc h)) \<and> best_groups G T sc S \<and>
     best_among (map2 (+) s bias) k (group_of G m (G * m) S) ids"
proof -
  let ?ch = "map2 (+) s bias"
  have lch: "length ?ch = G * m" using len by simp
  define sc where "sc = (\<lambda>h. the (case top2_sum ops (group_slice m ?ch h) of Inr x \<Rightarrow> x | Inl _ \<Rightarrow> None))"
  have t2: "top2_sum ops (group_slice m ?ch h) = Inr (Some (sc h)) \<and> two_best (group_slice m ?ch h) (sc h)"
    if h: "h < G" for h
    using top2_sum_ok[OF op, of "group_slice m ?ch h"] length_group_slice[OF h lch] m by (auto simp: sc_def)
  have gs: "res_map (top2_sum ops) (chunks m G ?ch) = Inr (map (\<lambda>h. Some (sc h)) [0..<G])"
    unfolding chunks_slices res_map_map
    by (subst res_map_total[where g = "\<lambda>h. Some (sc h)"]) (use t2 in auto)
  let ?gs = "map (\<lambda>h. Some (sc h)) [0..<G]"
  define chosen where "chosen = map snd (g_topk ops ?gs T)"
  have "T \<le> length ?gs" using T by simp
  from topk_any.topk_best[OF op this] have "best_k ?gs T chosen" by (simp only: chosen_def)
  from chosen_groups[OF this] have bg: "best_groups G T sc (set chosen)" .
  let ?xs = "map2 (\<lambda>b s. if b then Some s else None) (score_mask G m chosen) ?ch"
  have lx: "length ?xs = G * m" using lch by (simp add: score_mask_map)
  have "T * m \<le> G * m" using T by simp
  then have kx: "k \<le> length ?xs" unfolding lx using k by (rule order_trans[rotated])
  define ids where "ids = map snd (g_topk ops ?xs k)"
  have "best_k ?xs k ids" using topk_any.topk_best[OF op kx] by (simp only: ids_def)
  note M = masked_best[OF this lch]
  have "best_among ?ch k (group_of G m (G * m) (set chosen)) (map int ids)"
    by (rule best_among_int[OF M]) (use bg k in \<open>auto simp: best_groups_def\<close>)
  moreover have "topk_ids_of ops ?gs T = Inr chosen"
    unfolding chosen_def by (rule topk_ids_of_ok) (use T in simp)
  moreover have "topk_ids_of ops ?xs k = Inr ids" unfolding ids_def by (rule topk_ids_of_ok[OF kx])
  moreover have "add_bias bias s = Inr ?ch" using len by (simp add: add_bias_def)
  ultimately have R: "biased_grouped_row ops k G m T bias s = Inr (map (\<lambda>i. s ! i) ids, map int ids)"
    and BA: "best_among ?ch k (group_of G m (G * m) (set chosen)) (map int ids)"
    by (simp_all only: biased_grouped_row_def gs res_bind_simps)
  have "map (\<lambda>i. s ! i) ids = map (\<lambda>i. s ! nat i) (map int ids)" by simp
  then show ?thesis using R BA bg t2 by blast
qed

lemma grouped_row_best:
  assumes op: "topk_any (g_topk ops)" and len: "length s = G * m" and m: "0 < m"
    and T: "T \<le> G" and k: "k \<le> T * m" and pos: "\<forall>x\<in>set s. 0 < x"
  shows "\<exists>w ids S. grouped_row ops k G m T s = Inr (w, ids) \<and> w = map (\<lambda>i. s ! nat i) ids \<and>
     best_groups G T (\<lambda>h. Max (set (group_slice m s h))) S \<and>
     best_among s k (group_of G m (G * m) S) ids"
proof -
  let ?sc = "\<lambda>h. Max (set (group_slice m s h))"
  have gs: "map (\<lambda>g. Some (Max (set g))) (chunks m G s) = map (\<lambda>h. Some (?sc h)) [0..<G]"
    by (simp add: chunks_slices)
  let ?gs = "map (\<lambda>h. Some (?sc h)) [0..<G]"
  define chosen where "chosen = map snd (g_topk ops ?gs T)"
  have Tl: "T \<le> length ?gs" using T by simp
  from topk_any.topk_best[OF op this] have "best_k ?gs T chosen" by (simp only: chosen_def)
  from chosen_groups[OF this] have bg: "best_groups G T ?sc (set chosen)" .
  let ?xs = "map2 (\<lambda>b s. Some (if b then s else 0)) (score_mask G m chosen) s"
  have xs: "?xs = map2 (\<lambda>b s. if b then Some s else Some 0) (score_mask G m chosen) s"
    by (intro map_cong refl) auto
  have lx: "length ?xs = G * m" using len by (simp add: score_mask_map)
  have "T * m \<le> G * m" using T by simp
  then have kx: "k \<le> length ?xs" unfolding lx using k by (rule order_trans[rotated])
  define ids where "ids = map snd (g_topk ops ?xs k)"
  have b: "best_k ?xs k ids" using topk_any.topk_best[OF op kx] by (simp only: ids_def)
  have BA: "length ids = k \<and> distinct ids \<and> set ids \<subseteq> group_of G m (G * m) (set chosen) \<and>
    (\<forall>i\<in>set ids. \<forall>j\<in>group_of G m (G * m) (set chosen). j \<notin> set ids \<longrightarrow> s ! j \<le> s ! i)"
    by (rule masked_best[OF b[unfolded xs] len]) (use bg k pos in \<open>auto simp: best_groups_def\<close>)
  have "map (the \<circ> fst) (g_topk ops ?xs k) = map the (map fst (g_topk ops ?xs k))" by simp
  also have "\<dots> = map (\<lambda>i. the (?xs ! i)) ids"
    using topk_any.topk_values[OF op kx] by (simp add: ids_def)
  also have "\<dots> = map (\<lambda>i. s ! i) ids"
  proof (rule map_cong[OF refl])
    fix i assume "i \<in> set ids"
    then have "i < G * m" "i div m \<in> set chosen" using BA by (auto simp: group_of_def)
    then show "the (?xs ! i) = s ! i" using len by (simp add: score_mask_map)
  qed
  finally have w: "map (the \<circ> fst) (g_topk ops ?xs k) = map (\<lambda>i. s ! i) ids" .
  have t: "topk_ids_of ops ?gs T = Inr chosen" unfolding chosen_def by (rule topk_ids_of_ok[OF Tl])
  have p: "py_topk ops ?xs k = Inr (g_topk ops ?xs k)" unfolding py_topk_def using kx by (simp only: not_less if_False if_P if_not_P)
  have "map (int \<circ> snd) (g_topk ops ?xs k) = map int ids" by (simp add: ids_def)
  then have "grouped_row ops k G m T s = Inr (map (\<lambda>i. s ! i) ids, map int ids)"
    using m by (simp only: grouped_row_def gs t p w res_bind_simps) simp
  moreover have "map (\<lambda>i. s ! i) ids = map (\<lambda>i. s ! nat i) (map int ids)" by simp
  ultimately show ?thesis using bg best_among_int[OF BA] by blast
qed

section \<open>The gates\<close>

definition scaled_row :: "bool \<Rightarrow> nat \<Rightarrow> rat option \<Rightarrow> bool \<Rightarrow> rat list \<Rightarrow> rat list" where
  "scaled_row rn nfs rsf ap w = ok_or [] (renorm_scaled rn nfs rsf ap w)"

lemma renorm_scaled_ok:
  "(rn \<and> ap \<longrightarrow> rsf \<noteq> None) \<Longrightarrow> renorm_scaled rn nfs rsf ap w = Inr (scaled_row rn nfs rsf ap w)"
  by (auto simp: renorm_scaled_def scaled_row_def Let_def)

lemma res_map_scaled:
  "(rn \<and> ap \<longrightarrow> rsf \<noteq> None) \<Longrightarrow>
     res_map (renorm_scaled rn nfs rsf ap) ws = Inr (map (scaled_row rn nfs rsf ap) ws)"
  by (rule res_map_total) (rule renorm_scaled_ok)

text \<open>The gate for one group is the grouped gate with one group, also where both fail.\<close>

lemma one_group_row:
  assumes op: "topk_any (g_topk ops)" and E: "2 \<le> E" and len: "length s = E"
  shows "biased_grouped_row ops k 1 E 1 bias s = biased_row ops k bias s"
proof (cases "add_bias bias s")
  case (Inl e)
  then show ?thesis by (simp add: biased_grouped_row_def biased_row_def)
next
  case (Inr ch)
  have l: "length ch = E" using Inr len by (auto simp: add_bias_def split: if_splits)
  have ck: "chunks E 1 ch = [ch]" using l by (simp add: chunks_slices group_slice_def)
  obtain v where v: "top2_sum ops ch = Inr (Some v)" using top2_sum_ok[OF op] E l by blast
  have "best_k [Some v] 1 (map snd (g_topk ops [Some v] 1))"
    by (rule topk_any.topk_best[OF op]) simp
  then have "map snd (g_topk ops [Some v] 1) = [0]"
    by (auto simp: best_k_def length_Suc_conv)
  then have c: "topk_ids_of ops [Some v] 1 = Inr [0]" by (simp add: topk_ids_of_ok)
  have "score_mask 1 E [0] = replicate E True" by (simp add: score_mask_def)
  then have "map2 (\<lambda>b s. if b then Some s else None) (score_mask 1 E [0]) ch = map Some ch"
    using l by (auto intro!: nth_equalityI)
  then show ?thesis using Inr v c
    by (simp only: biased_grouped_row_def biased_row_def ck res_map.simps res_bind_simps)
qed

text \<open>
  the gate that was optimised for one expert group computes what the grouped gate computes with
  one group and no shared experts: the same weights and ids, and the same error where it fails. A
  group needs two experts, or its score is not defined.
\<close>

theorem one_group_gate_equals_grouped:
  assumes op: "topk_any (g_topk ops)" and kw: "keeps_width ops" and g: "logits_ok E gating" and E: "2 \<le> E"
  shows "kimi_k2_biased_topk_impl ops n_hidden gating bias k renormalize rsf apply_rsf =
    biased_grouped_topk_impl ops E n_hidden gating bias k renormalize 1 1 0 rsf apply_rsf"
proof -
  let ?S = "map (g_score ops Sigmoid) gating"
  have rows: "res_map (biased_grouped_row ops k 1 E 1 bias) ?S = res_map (biased_row ops k bias) ?S"
    by (rule res_map_cong, rule one_group_row[OF op E]) (use kw g in \<open>auto simp: keeps_width_def logits_ok_def\<close>)
  have "group_size E 1 = Inr E" by (simp add: group_size_def)
  then show ?thesis unfolding kimi_k2_biased_topk_impl_def biased_grouped_topk_impl_def
    by (simp only: rows res_bind_simps shared_column_def if_True split refl)
qed

lemma group_size_ok: "0 < G \<Longrightarrow> E = G * m \<Longrightarrow> group_size E G = Inr m"
  by (simp add: group_size_def)

text \<open>
  C32: the biased grouped gate picks, for every token, \<open>T\<close> groups whose two best biased scores sum
  to no less than those of any other group, and inside them the \<open>k\<close> experts of highest biased score;
  its weights are the scores without the bias. No expert of another group is ever selected, however
  high its score.
\<close>

theorem biased_grouped_gate_selects:
  assumes op: "topk_any (g_topk ops)" and kw: "keeps_width ops" and g: "logits_ok (G * m) gating"
    and G: "0 < G" "2 \<le> m" "T \<le> G" "k \<le> T * m" and b: "length bias = G * m"
    and n: "n_hidden = length gating" "gating \<noteq> []" and r: "renormalize \<and> apply_rsf \<longrightarrow> rsf \<noteq> None"
  shows "\<exists>ws ids. biased_grouped_topk_impl ops (G * m) n_hidden gating bias k renormalize G T 0 rsf apply_rsf
       = Inr (ws, ids) \<and> length ids = length gating \<and>
     (\<forall>t<length gating. \<exists>S sc. let s = g_score ops Sigmoid (gating ! t); ch = map2 (+) s bias in
        (\<forall>h<G. two_best (group_slice m ch h) (sc h)) \<and> best_groups G T sc S \<and>
        best_among ch k (group_of G m (G * m) S) (ids ! t) \<and>
        ws ! t = scaled_row renormalize 0 rsf apply_rsf (map (\<lambda>i. s ! nat i) (ids ! t)))"
proof -
  let ?P = "\<lambda>s y. \<exists>S sc. fst y = map (\<lambda>i. s ! nat i) (snd y) \<and>
     (\<forall>h<G. two_best (group_slice m (map2 (+) s bias) h) (sc h)) \<and> best_groups G T sc S \<and>
     best_among (map2 (+) s bias) k (group_of G m (G * m) S) (snd y)"
  let ?S = "map (g_score ops Sigmoid) gating"
  have row: "\<exists>y. biased_grouped_row ops k G m T bias x = Inr y \<and> ?P x y" if x: "x \<in> set ?S" for x
  proof -
    have l: "length x = G * m" using x kw g by (auto simp: keeps_width_def logits_ok_def)
    show ?thesis using biased_grouped_row_best[OF op l b G(2,3,4)] by fastforce
  qed
  have "\<exists>ys. res_map (biased_grouped_row ops k G m T bias) ?S = Inr ys \<and> length ys = length ?S \<and>
      (\<forall>i<length ?S. ?P (?S ! i) (ys ! i))"
    by (rule res_map_ok[where P = ?P, OF row])
  then obtain rows where rows: "res_map (biased_grouped_row ops k G m T bias) ?S = Inr rows"
      "length rows = length gating" "\<And>t. t < length gating \<Longrightarrow> ?P (g_score ops Sigmoid (gating ! t)) (rows ! t)"
    by auto
  have run: "biased_grouped_topk_impl ops (G * m) n_hidden gating bias k renormalize G T 0 rsf apply_rsf =
      Inr (map (scaled_row renormalize 0 rsf apply_rsf) (map fst rows), map snd rows)"
    unfolding biased_grouped_topk_impl_def
    using n rows(1) group_size_ok[OF G(1) refl] res_map_scaled[OF r] by (simp add: shared_column_def)
  have "\<exists>S sc. let s = g_score ops Sigmoid (gating ! t); ch = map2 (+) s bias in
        (\<forall>h<G. two_best (group_slice m ch h) (sc h)) \<and> best_groups G T sc S \<and>
        best_among ch k (group_of G m (G * m) S) (map snd rows ! t) \<and>
        map (scaled_row renormalize 0 rsf apply_rsf) (map fst rows) ! t =
          scaled_row renormalize 0 rsf apply_rsf (map (\<lambda>i. s ! nat i) (map snd rows ! t))"
    if t: "t < length gating" for t
  proof -
    obtain S sc where "fst (rows ! t) = map (\<lambda>i. g_score ops Sigmoid (gating ! t) ! nat i) (snd (rows ! t))"
      "\<forall>h<G. two_best (group_slice m (map2 (+) (g_score ops Sigmoid (gating ! t)) bias) h) (sc h)"
      "best_groups G T sc S"
      "best_among (map2 (+) (g_score ops Sigmoid (gating ! t)) bias) k (group_of G m (G * m) S) (snd (rows ! t))"
      using rows(3)[OF t] by blast
    then show ?thesis using rows(2) t by (intro exI[of _ S] exI[of _ sc]) (simp add: Let_def)
  qed
  note tok = this
  show ?thesis by (intro exI conjI, rule run) (use rows(2) tok in \<open>simp, blast\<close>)
qed

text \<open>
  with positive scores, as those of a softmax or a sigmoid are, the grouped gate without a bias
  picks \<open>T\<close> groups of highest best score, and inside them the \<open>k\<close> experts of highest score. (It masks
  the other groups with the score zero, so positivity and \<open>k \<le> T * m\<close> are needed.)
\<close>

theorem grouped_gate_selects:
  assumes op: "topk_any (g_topk ops)" and kw: "keeps_width ops" and g: "logits_ok (G * m) gating"
    and G: "0 < G" "0 < m" "T \<le> G" "k \<le> T * m" and sc: "sc = Softmax \<or> sc = Sigmoid"
    and pos: "\<forall>row\<in>set gating. \<forall>x\<in>set (g_score ops sc row). 0 < x"
    and n: "n_hidden = length gating" "gating \<noteq> []" and r: "renormalize \<and> apply_rsf \<longrightarrow> rsf \<noteq> None"
  shows "\<exists>ws ids. grouped_topk_gpu ops (G * m) n_hidden gating k renormalize G T 0 rsf apply_rsf sc
       = Inr (ws, ids) \<and> length ids = length gating \<and>
     (\<forall>t<length gating. \<exists>S. let s = g_score ops sc (gating ! t) in
        best_groups G T (\<lambda>h. Max (set (group_slice m s h))) S \<and>
        best_among s k (group_of G m (G * m) S) (ids ! t) \<and>
        ws ! t = scaled_row renormalize 0 rsf apply_rsf (map (\<lambda>i. s ! nat i) (ids ! t)))"
proof -
  let ?P = "\<lambda>s y. \<exists>S. fst y = map (\<lambda>i. s ! nat i) (snd y) \<and>
     best_groups G T (\<lambda>h. Max (set (group_slice m s h))) S \<and> best_among s k (group_of G m (G * m) S) (snd y)"
  let ?S = "map (g_score ops sc) gating"
  have row: "\<exists>y. grouped_row ops k G m T x = Inr y \<and> ?P x y" if x: "x \<in> set ?S" for x
  proof -
    have l: "length x = G * m" using x kw g by (auto simp: keeps_width_def logits_ok_def)
    have p: "\<forall>z\<in>set x. 0 < z" using x pos by auto
    show ?thesis using grouped_row_best[OF op l G(2,3,4) p] by fastforce
  qed
  have "\<exists>ys. res_map (grouped_row ops k G m T) ?S = Inr ys \<and> length ys = length ?S \<and>
      (\<forall>i<length ?S. ?P (?S ! i) (ys ! i))"
    by (rule res_map_ok[where P = ?P, OF row])
  then obtain rows where rows: "res_map (grouped_row ops k G m T) ?S = Inr rows"
      "length rows = length gating" "\<And>t. t < length gating \<Longrightarrow> ?P (g_score ops sc (gating ! t)) (rows ! t)"
    by auto
  have run: "grouped_topk_gpu ops (G * m) n_hidden gating k renormalize G T 0 rsf apply_rsf sc =
      Inr (map (scaled_row renormalize 0 rsf apply_rsf) (map fst rows), map snd rows)"
    unfolding grouped_topk_gpu_def
    using n sc rows(1) group_size_ok[OF G(1) refl] res_map_scaled[OF r] by (auto simp: shared_column_def)
  have "\<exists>S. let s = g_score ops sc (gating ! t) in
        best_groups G T (\<lambda>h. Max (set (group_slice m s h))) S \<and>
        best_among s k (group_of G m (G * m) S) (map snd rows ! t) \<and>
        map (scaled_row renormalize 0 rsf apply_rsf) (map fst rows) ! t =
          scaled_row renormalize 0 rsf apply_rsf (map (\<lambda>i. s ! nat i) (map snd rows ! t))"
    if t: "t < length gating" for t
    using rows(3)[OF t] rows(2) t by (auto simp: Let_def)
  note tok = this
  show ?thesis by (intro exI conjI, rule run) (use rows(2) tok in \<open>simp, blast\<close>)
qed

section \<open>The fused shared expert\<close>

context topk_op
begin

lemma topk_butlast:
  assumes k: "k \<le> length xs"
  shows "best_k xs (k - 1) (butlast (map snd (topk xs k)))"
proof -
  let ?is = "map snd (topk xs k)"
  note B = topk_best[OF k]
  note D = best_kD[OF B]
  have vals: "map fst (topk xs k) = map (\<lambda>i. xs ! i) ?is" by (rule topk_values[OF k])
  have "xs ! j \<le> xs ! i" if i: "i \<in> set (butlast ?is)" and j: "j < length xs" "j \<notin> set (butlast ?is)" for i j
  proof (cases "j \<in> set ?is")
    case False
    then show ?thesis using D(4)[of i j] i j(1) in_set_butlastD by metis
  next
    case True
    then have ne: "?is \<noteq> []" by auto
    then have "j = last ?is" using True j(2) by (metis append_butlast_last_id rotate1.simps(2) set_ConsD set_rotate1)
    then have jl: "j = ?is ! (length ?is - 1)" using ne by (simp add: last_conv_nth)
    obtain m where m: "m < length ?is - 1" "i = ?is ! m"
      using i by (auto simp: in_set_conv_nth nth_butlast)
    have "sorted_wrt (\<lambda>x y. y \<le> x) (map (\<lambda>i. xs ! i) ?is)" using topk_sorted[OF k] vals by simp
    then have "map (\<lambda>i. xs ! i) ?is ! (length ?is - 1) \<le> map (\<lambda>i. xs ! i) ?is ! m"
      using m(1) unfolding sorted_wrt_iff_nth_less by simp
    then show ?thesis using m jl by simp
  qed
  moreover have "distinct (butlast ?is)" "\<forall>i\<in>set (butlast ?is). i < length xs"
    using D(2,3) by (auto simp: distinct_butlast dest: in_set_butlastD)
  ultimately show ?thesis using D(1) by (simp add: best_k_def)
qed

end

lemma scaled_row_factor: "(rn \<and> ap \<longrightarrow> rsf \<noteq> None) \<Longrightarrow> \<exists>c. scaled_row rn nfs rsf ap w = map (\<lambda>x. x * c) w"
proof -
  assume r: "rn \<and> ap \<longrightarrow> rsf \<noteq> None"
  let ?s = "(if nfs = 0 then sum_list w else sum_list (butlast w)) + RENORM_EPS"
  have "scaled_row rn nfs rsf ap w = map (\<lambda>x. x * (if \<not> rn then 1 else if \<not> ap then 1 / ?s else the rsf / ?s)) w"
    using r by (auto simp: scaled_row_def renorm_scaled_def Let_def)
  then show ?thesis by blast
qed

lemma sum_list_scale: "sum_list (map (\<lambda>x. x * c) w) = sum_list w * (c :: rat)"
  by (induction w) (auto simp: distrib_right)

definition randint_ok :: "gate_ops \<Rightarrow> bool" where
  "randint_ok ops \<longleftrightarrow> (\<forall>lo hi n. lo < hi \<longrightarrow> length (g_randint ops lo hi n) = n \<and>
      (\<forall>x\<in>set (g_randint ops lo hi n). lo \<le> x \<and> x < hi))"

lemma shared_column_nth:
  assumes run: "shared_column ops E nfs (Some f) ws ids = Inr (ws', ids')" and nfs: "0 < nfs"
    and r: "randint_ok ops" and len: "length ws = length ids" and t: "t < length ids"
    and ne: "ws ! t \<noteq> []"
  shows "length ws' = length ws" "length ids' = length ids" "length (ws' ! t) = length (ws ! t)"
    "last (ws' ! t) * f = (if f = 0 then 0 else sum_list (butlast (ws' ! t)))"
    "butlast (ids' ! t) = butlast (ids ! t)" "int E \<le> last (ids' ! t) \<and> last (ids' ! t) < int (E + nfs)"
proof -
  have iv: "[] \<notin> set ids" using run nfs by (auto simp: shared_column_def split: if_splits)
  then have in0: "ids ! t \<noteq> []" using t by (metis nth_mem)
  let ?r = "g_randint ops (int E) (int (E + nfs)) (length ids)"
  have rr: "length ?r = length ids" "int E \<le> ?r ! t \<and> ?r ! t < int (E + nfs)"
  proof -
    have "int E < int (E + nfs)" using nfs by simp
    then have R: "length ?r = length ids" "\<forall>x\<in>set ?r. int E \<le> x \<and> x < int (E + nfs)"
      using r unfolding randint_ok_def by blast+
    show "length ?r = length ids" by (rule R(1))
    have "?r ! t \<in> set ?r" using t R(1) by simp
    then show "int E \<le> ?r ! t \<and> ?r ! t < int (E + nfs)" using R(2) by blast
  qed
  have e: "ws' = map (\<lambda>w. w[length w - 1 := sum_list (butlast w) / f]) ws"
    "ids' = map2 (\<lambda>row x. row[length row - 1 := x]) ids ?r"
    using run nfs iv by (auto simp: shared_column_def Let_def)
  show "length ws' = length ws" "length ids' = length ids" using rr by (simp_all add: e)
  have wt: "ws' ! t = (ws ! t)[length (ws ! t) - 1 := sum_list (butlast (ws ! t)) / f]"
    using t len by (simp add: e(1))
  have it: "ids' ! t = (ids ! t)[length (ids ! t) - 1 := ?r ! t]" using t rr by (simp add: e(2))
  show "length (ws' ! t) = length (ws ! t)" by (simp add: wt)
  show "last (ws' ! t) * f = (if f = 0 then 0 else sum_list (butlast (ws' ! t)))"
    using ne by (simp add: wt last_list_update butlast_list_update)
  show "butlast (ids' ! t) = butlast (ids ! t)" by (simp add: it butlast_list_update)
  show "int E \<le> last (ids' ! t) \<and> last (ids' ! t) < int (E + nfs)"
    using rr(2) in0 by (simp add: it last_list_update)
qed

lemma biased_row_best:
  assumes op: "topk_any (g_topk ops)" and k: "k \<le> length s" and b: "length bias = length s"
  shows "\<exists>w. biased_row ops k bias s = Inr (w, map int (map snd (g_topk ops (map Some (map2 (+) s bias)) k))) \<and>
     length w = k \<and> length (g_topk ops (map Some (map2 (+) s bias)) k) = k"
proof -
  let ?ch = "map2 (+) s bias"
  have k': "k \<le> length (map Some ?ch)" using k b by simp
  show ?thesis unfolding biased_row_def
    using b topk_ids_of_ok[OF k'] topk_any.topk_length[OF op k'] by (simp add: add_bias_def)
qed

text \<open>
  in the biased gate with a fused shared expert, a token keeps its \<open>k - 1\<close> best experts (the
  last of the sorted selection gives its column up), the last id is one of the shared experts behind
  the routed ones, and its weight times the routed scaling factor is the sum of the routed weights,
  with or without renormalisation and output scaling.
\<close>

theorem shared_expert_weight:
  assumes op: "topk_op (g_topk ops)" and kw: "keeps_width ops" and g: "logits_ok E gating"
    and rand: "randint_ok ops" and k: "0 < k" "k \<le> E" and b: "length bias = E" and nfs: "0 < nfs"
    and sc: "sc = Sigmoid \<or> sc = SqrtSoftplus" and n: "n_hidden = length gating" "gating \<noteq> []" and f: "f \<noteq> 0"
  shows "\<exists>ws ids. biased_topk_impl ops E n_hidden gating (Some bias) k renormalize sc nfs (Some f) apply_rsf
       = Inr (ws, ids) \<and>
     (\<forall>t<length gating. length (ws ! t) = k \<and> last (ws ! t) * f = sum_list (butlast (ws ! t)) \<and>
        best_ids (map2 (+) (g_score ops sc (gating ! t)) bias) (k - 1) (butlast (ids ! t)) \<and>
        int E \<le> last (ids ! t) \<and> last (ids ! t) < int (E + nfs))"
proof -
  have op': "topk_any (g_topk ops)" using op by (simp add: topk_op_def)
  let ?S = "map (g_score ops sc) gating"
  let ?P = "\<lambda>s y. length (fst y) = k \<and> length (snd y) = k \<and>
     snd y = map int (map snd (g_topk ops (map Some (map2 (+) s bias)) k))"
  have wd: "length s = E" if "s \<in> set ?S" for s using that kw g by (auto simp: keeps_width_def logits_ok_def)
  have row: "\<exists>y. biased_row ops k bias s = Inr y \<and> ?P s y" if s: "s \<in> set ?S" for s
    using biased_row_best[OF op', of k s bias] wd[OF s] b k(2) by fastforce
  have "\<exists>ys. res_map (biased_row ops k bias) ?S = Inr ys \<and> length ys = length ?S \<and>
      (\<forall>i<length ?S. ?P (?S ! i) (ys ! i))"
    by (rule res_map_ok[where P = ?P, OF row])
  then obtain rows where rows: "res_map (biased_row ops k bias) ?S = Inr rows" "length rows = length gating"
      "\<And>t. t < length gating \<Longrightarrow> ?P (g_score ops sc (gating ! t)) (rows ! t)"
    by auto
  have "[] \<notin> set (map snd rows)"
  proof
    assume "[] \<in> set (map snd rows)"
    then obtain t where t: "t < length gating" "snd (rows ! t) = []" using rows(2) by (auto simp: in_set_conv_nth)
    then have "length (snd (rows ! t)) = k" using rows(3)[OF t(1)] by blast
    then show False using t(2) k(1) by simp
  qed
  then obtain ws ids where sh: "shared_column ops E nfs (Some f) (map fst rows) (map snd rows) = Inr (ws, ids)"
    using nfs by (simp add: shared_column_def Let_def)
  have run: "biased_topk_impl ops E n_hidden gating (Some bias) k renormalize sc nfs (Some f) apply_rsf =
      Inr (map (scaled_row renormalize nfs (Some f) apply_rsf) ws, ids)"
    unfolding biased_topk_impl_def using n sc rows(1) sh
      res_map_scaled[of renormalize apply_rsf "Some f" nfs ws] by auto
  have "length (map (scaled_row renormalize nfs (Some f) apply_rsf) ws ! t) = k \<and>
      last (map (scaled_row renormalize nfs (Some f) apply_rsf) ws ! t) * f =
        sum_list (butlast (map (scaled_row renormalize nfs (Some f) apply_rsf) ws ! t)) \<and>
      best_ids (map2 (+) (g_score ops sc (gating ! t)) bias) (k - 1) (butlast (ids ! t)) \<and>
      int E \<le> last (ids ! t) \<and> last (ids ! t) < int (E + nfs)" if t: "t < length gating" for t
  proof -
    have "map fst rows ! t \<noteq> []" using rows(2) rows(3)[OF t] t k(1) by (cases "fst (rows ! t)") auto
    note C = shared_column_nth[OF sh nfs rand _ _ this]
    have lw: "length ws = length gating" "length (ws ! t) = k" using C(1,3) rows(2) rows(3)[OF t] t by auto
    then have ne: "ws ! t \<noteq> []" using k(1) by auto
    obtain c where c: "scaled_row renormalize nfs (Some f) apply_rsf (ws ! t) = map (\<lambda>x. x * c) (ws ! t)"
      using scaled_row_factor[of renormalize apply_rsf "Some f" nfs "ws ! t"] by auto
    have "last (ws ! t) * f = sum_list (butlast (ws ! t))" using C(4) f rows(2) t by simp
    then have w: "last (map (\<lambda>x. x * c) (ws ! t)) * f = sum_list (butlast (map (\<lambda>x. x * c) (ws ! t)))"
      using ne by (simp add: last_map map_butlast[symmetric] sum_list_scale)
    let ?ch = "map2 (+) (g_score ops sc (gating ! t)) bias"
    have "length ?ch = E" using wd[of "g_score ops sc (gating ! t)"] t b by simp
    then have "best_k (map Some ?ch) (k - 1) (butlast (map snd (g_topk ops (map Some ?ch) k)))"
      by (intro topk_op.topk_butlast[OF op]) (use k(2) in simp)
    then have bk: "best_k ?ch (k - 1) (butlast (map snd (g_topk ops (map Some ?ch) k)))"
      by (simp only: best_k_Some)
    have "butlast (snd (rows ! t)) = map int (butlast (map snd (g_topk ops (map Some ?ch) k)))"
      using rows(3)[OF t] by (simp only: map_butlast)
    then have "best_ids ?ch (k - 1) (butlast (snd (rows ! t)))"
      using bk by (simp only: best_ids_int)
    moreover have "butlast (ids ! t) = butlast (snd (rows ! t))" using C(5) rows(2) t by simp
    ultimately show ?thesis using w lw t c C(6) rows(2) by simp
  qed
  then show ?thesis using run by blast
qed

section \<open>Concrete runs\<close>

text \<open>A monotone positive score stands for the softmax and the sigmoid.\<close>

definition ex_score :: "rat \<Rightarrow> rat" where
  "ex_score x = 1 / 2 + x / (2 * (1 + \<bar>x\<bar>))"

definition ex_gate :: gate_ops where
  "ex_gate = \<lparr>g_topk = topk_ref, g_score = (\<lambda>sc. map ex_score), g_randint = (\<lambda>lo hi n. replicate n lo)\<rparr>"

lemma ex_gate_laws: "topk_op (g_topk ex_gate)" "topk_any (g_topk ex_gate)" "keeps_width ex_gate" "randint_ok ex_gate"
  using ref_topk.topk_op_axioms ref_topk.topk_any_axioms
  by (auto simp: ex_gate_def keeps_width_def randint_ok_def)

lemma ex_score_pos: "0 < ex_score x"
  by (simp add: ex_score_def field_simps)

theorem native_gate_selects_best_witness:
  "\<exists>ws ids. fused_topk_torch_native ex_gate 1 [[3, 1, 2]] 2 True None Softmax = Inr (ws, ids) \<and>
     best_ids (map ex_score [3, 1, 2]) 2 (ids ! 0) \<and> sum_list (ws ! 0) < 1"
proof -
  have "logits_ok 3 [[3, 1, 2]]" by (simp add: logits_ok_def)
  from native_gate_selects_best[OF ex_gate_laws(2,3) this, of 2 Softmax 1 None True]
  show ?thesis using ex_score_pos by (simp add: ex_gate_def choice_scores_def Let_def) blast
qed

theorem one_group_gate_equals_grouped_witness:
  "kimi_k2_biased_topk_impl ex_gate 1 [[3, 1, 2]] [0, 5, 0] 2 True (Some 2) True =
    biased_grouped_topk_impl ex_gate 3 1 [[3, 1, 2]] [0, 5, 0] 2 True 1 1 0 (Some 2) True"
  by (rule one_group_gate_equals_grouped[OF ex_gate_laws(2,3)]) (simp_all add: logits_ok_def)

theorem biased_grouped_gate_selects_witness:
  "\<exists>ws ids S sc. biased_grouped_topk_impl ex_gate 4 1 [[3, 1, 2, 5]] [0, 0, 0, 0] 1 True 2 1 0 None False = Inr (ws, ids) \<and>
     best_groups 2 1 sc S \<and> best_among (map2 (+) (map ex_score [3, 1, 2, 5]) [0, 0, 0, 0]) 1 (group_of 2 2 4 S) (ids ! 0)"
proof -
  have "logits_ok (2 * 2) [[3, 1, 2, 5]]" by (simp add: logits_ok_def)
  from biased_grouped_gate_selects[OF ex_gate_laws(2,3) this, of 1 1 "[0, 0, 0, 0]" 1 True False None]
  show ?thesis by (simp add: ex_gate_def Let_def) blast
qed

theorem grouped_gate_selects_witness:
  "\<exists>ws ids S. grouped_topk_gpu ex_gate 4 1 [[3, 1, 2, 5]] 1 True 2 1 0 None False Softmax = Inr (ws, ids) \<and>
     best_among (map ex_score [3, 1, 2, 5]) 1 (group_of 2 2 4 S) (ids ! 0)"
proof -
  have "logits_ok (2 * 2) [[3, 1, 2, 5]]" by (simp add: logits_ok_def)
  from grouped_gate_selects[OF ex_gate_laws(2,3) this, of 1 1 Softmax 1 True False None] ex_score_pos
  show ?thesis by (simp add: ex_gate_def Let_def) blast
qed

theorem shared_expert_weight_witness:
  "\<exists>ws ids. biased_topk_impl ex_gate 3 1 [[3, 1, 2]] (Some [0, 0, 0]) 2 True Sigmoid 1 (Some 5) False = Inr (ws, ids) \<and>
     last (ws ! 0) * 5 = sum_list (butlast (ws ! 0)) \<and> last (ids ! 0) = 3"
proof -
  have "logits_ok 3 [[3, 1, 2]]" by (simp add: logits_ok_def)
  from shared_expert_weight[OF ex_gate_laws(1,3) this ex_gate_laws(4), of 2 "[0, 0, 0]" 1 Sigmoid 1 5 True False]
  show ?thesis by simp force
qed

end
