(* ===== verification/Topk_Dispatch.thy ===== *)
theory Topk_Dispatch
  imports Topk_Laws
begin

text \<open>
  Which gate runs where: the dispatch of \<^verbatim>\<open>runtime-src/topk.py\<close> over platforms, flags and the limits
  of the fused kernels. The kernels are not in the repository: a kernel is a name, a call is a record
  of the arguments the code passes, and \<open>kern\<close> gives the weights and ids a kernel returns for a call.
  Conversions between float types are the identity on exact numbers.
\<close>

section \<open>Platforms, flags and kernels\<close>

record platform =
  is_cuda :: bool
  is_hip :: bool
  is_npu :: bool
  is_musa :: bool
  is_xpu :: bool
  is_cpu_amx :: bool
  use_aiter :: bool

record route_flags =
  f_jit_grouped :: bool
  f_jit_fused :: bool
  f_jit_bf16 :: bool
  f_deepseek :: bool
  f_trtllm_routed :: bool
  f_pack :: bool
  f_uniform :: bool
  f_round_robin :: bool

datatype kernel = FlashinferDeepseek | JitGate | JitBf16Gate | AiterFused | AiterGrouped | AiterGating
  | TopkSoftmax | SoftmaxPack | TopkSigmoid | MusaGate | XpuGate | CpuSoftmax | CpuSigmoid
  | CpuGrouped | CpuBiasedGrouped

record gate_call =
  c_gating :: "rat list list"
  c_bias :: "rat list option"
  c_k :: nat
  c_sc :: scoring
  c_groups :: "nat \<times> nat"
  c_renorm :: bool
  c_scale :: "rat option"
  c_apply :: bool
  c_nfs :: nat

type_synonym kernels = "kernel \<Rightarrow> gate_call \<Rightarrow> routed"

definition call_of :: "rat list list \<Rightarrow> rat list option \<Rightarrow> nat \<Rightarrow> scoring \<Rightarrow> bool \<Rightarrow> gate_call" where
  "call_of gating bias k sc renorm =
     \<lparr>c_gating = gating, c_bias = bias, c_k = k, c_sc = sc, c_groups = (1, 1), c_renorm = renorm,
      c_scale = None, c_apply = False, c_nfs = 0\<rparr>"

definition or_one :: "rat option \<Rightarrow> rat" where
  "or_one rsf = (case rsf of None \<Rightarrow> 1 | Some f \<Rightarrow> f)"

fun pow2_steps :: "nat \<Rightarrow> nat \<Rightarrow> bool" where
  "pow2_steps 0 n = False"
| "pow2_steps (Suc fuel) n = (n = 1 \<or> (n mod 2 = 0 \<and> pow2_steps fuel (n div 2)))"

text \<open>\<^verbatim>\<open>is_power_of_two\<close>: halving \<open>n\<close> reaches one in at most \<open>n\<close> steps.\<close>

definition is_power_of_two :: "nat \<Rightarrow> bool" where
  "is_power_of_two n \<longleftrightarrow> 0 < n \<and> pow2_steps n n"

section \<open>The softmax and sigmoid gates\<close>

definition fused_topk ::
  "platform \<Rightarrow> route_flags \<Rightarrow> kernels \<Rightarrow> nat \<Rightarrow> nat \<Rightarrow> rat list list \<Rightarrow> nat \<Rightarrow> bool \<Rightarrow> rat list option \<Rightarrow>
   scoring \<Rightarrow> rat option \<Rightarrow> bool \<Rightarrow> nat \<Rightarrow> bool \<Rightarrow> routed result" where
  "fused_topk pl fl kern E n_hidden gating k renormalize bias sc rsf apply_rsf nfs packed =
     (if n_hidden \<noteq> length gating then Inl AssertionError
      else let c = call_of gating bias k sc renormalize in
      if sc = Softmax then
        (if use_aiter pl then Inr (kern AiterFused (c\<lparr>c_bias := None\<rparr>))
         else if packed then Inr (kern SoftmaxPack (c\<lparr>c_bias := None\<rparr>))
         else if is_cuda pl \<and> f_jit_fused fl then Inr (kern JitGate (c\<lparr>c_bias := Some (replicate E 0)\<rparr>))
         else Inr (kern TopkSoftmax (c\<lparr>c_bias := None\<rparr>)))
      else if sc = Sigmoid then
        (if use_aiter pl \<and> bias \<noteq> None then
           (let (ws, ids) = kern AiterGrouped c
            in Inr (if apply_rsf then map (map (\<lambda>x. x * or_one rsf)) ws else ws, ids))
         else if is_cuda pl \<and> f_jit_fused fl then
           Inr (kern JitGate (c\<lparr>c_bias := Some (case bias of Some b \<Rightarrow> b | None \<Rightarrow> replicate E 0),
                                c_scale := rsf, c_apply := apply_rsf\<rparr>))
         else if 1 < nfs then Inl ValueError
         else Inr (kern TopkSigmoid (c\<lparr>c_scale := Some (if apply_rsf then or_one rsf else 1),
                                        c_apply := True, c_nfs := nfs\<rparr>)))
      else Inl ValueError)"

definition fused_topk_cpu ::
  "gate_ops \<Rightarrow> kernels \<Rightarrow> nat \<Rightarrow> rat list list \<Rightarrow> nat \<Rightarrow> bool \<Rightarrow> rat list option \<Rightarrow> scoring \<Rightarrow> bool \<Rightarrow> nat \<Rightarrow>
   bool \<Rightarrow> bool \<Rightarrow> routed result" where
  "fused_topk_cpu ops kern n_hidden gating k renormalize bias sc apply_rsf nfs packed padded =
     (if nfs \<noteq> 0 then Inl ValueError
      else if apply_rsf then Inl ValueError
      else if packed then Inl ValueError
      else if padded then Inl ValueError
      else if sc = Softmax then Inr (kern CpuSoftmax (call_of gating bias k sc renormalize))
      else if sc = Sigmoid then Inr (kern CpuSigmoid (call_of gating bias k sc renormalize))
      else fused_topk_torch_native ops n_hidden gating k renormalize bias sc)"

definition biased_topk_jit_kernel_impl ::
  "platform \<Rightarrow> kernels \<Rightarrow> nat \<Rightarrow> rat list list \<Rightarrow> rat list option \<Rightarrow> nat \<Rightarrow> bool \<Rightarrow> scoring \<Rightarrow> nat \<Rightarrow>
   rat option \<Rightarrow> bool \<Rightarrow> routed result" where
  "biased_topk_jit_kernel_impl pl kern n_hidden gating bias k renormalize sc nfs rsf apply_rsf =
     (if n_hidden \<noteq> length gating then Inl AssertionError
      else if use_aiter pl \<and> sc = SqrtSoftplus \<and> nfs = 0 then
        Inr (kern AiterGating ((call_of gating bias k sc renormalize)\<lparr>c_scale := rsf\<rparr>))
      else Inr (kern JitGate ((call_of gating bias k sc renormalize)
                  \<lparr>c_nfs := nfs, c_scale := rsf, c_apply := apply_rsf\<rparr>)))"

section \<open>The grouped gates\<close>

definition grouped_topk_cpu ::
  "kernels \<Rightarrow> rat list list \<Rightarrow> nat \<Rightarrow> bool \<Rightarrow> nat \<Rightarrow> nat \<Rightarrow> nat \<Rightarrow> rat option \<Rightarrow> bool \<Rightarrow> scoring \<Rightarrow> routed result" where
  "grouped_topk_cpu kern gating k renormalize G T nfs rsf apply_rsf sc =
     (if apply_rsf then Inl AssertionError
      else if sc \<noteq> Softmax then Inl ValueError
      else Inr (kern CpuGrouped ((call_of gating None k sc renormalize)
                  \<lparr>c_groups := (G, T), c_nfs := nfs, c_scale := rsf\<rparr>)))"

definition per_group :: "nat \<Rightarrow> nat \<Rightarrow> nat" where
  "per_group E G = (if G = 0 then E else E div G)"

definition grouped_topk_xpu ::
  "gate_ops \<Rightarrow> kernels \<Rightarrow> nat \<Rightarrow> nat \<Rightarrow> rat list list \<Rightarrow> nat \<Rightarrow> bool \<Rightarrow> nat \<Rightarrow> nat \<Rightarrow> nat \<Rightarrow> rat option \<Rightarrow> bool \<Rightarrow>
   scoring \<Rightarrow> routed result" where
  "grouped_topk_xpu ops kern E n_hidden gating k renormalize G T nfs rsf apply_rsf sc =
     (if per_group E G \<le> 32 \<and> is_power_of_two E
      then Inr (kern XpuGate ((call_of gating None k sc renormalize)
             \<lparr>c_groups := (G, T), c_nfs := nfs, c_scale := Some (or_one rsf), c_apply := apply_rsf\<rparr>))
      else grouped_topk_gpu ops E n_hidden gating k renormalize G T nfs rsf apply_rsf sc)"

definition biased_grouped_topk_cpu ::
  "kernels \<Rightarrow> rat list list \<Rightarrow> rat list \<Rightarrow> nat \<Rightarrow> bool \<Rightarrow> nat \<Rightarrow> nat \<Rightarrow> nat \<Rightarrow> rat option \<Rightarrow> bool \<Rightarrow> routed result" where
  "biased_grouped_topk_cpu kern gating bias k renormalize G T nfs rsf apply_rsf =
     Inr (kern CpuBiasedGrouped ((call_of gating (Some bias) k Sigmoid renormalize)
       \<lparr>c_groups := (G, T), c_nfs := nfs, c_scale := (if apply_rsf then rsf else None)\<rparr>))"

text \<open>
  \<^verbatim>\<open>biased_grouped_topk_gpu\<close>. The limits of the flashinfer kernel, its branch (with the padding by
  shared columns), the gates for one group and the whole chain. The group counts are not
  \<^verbatim>\<open>None\<close>, as its caller asserts; the number of routed experts may be negative.
\<close>

definition flashinfer_fits :: "nat \<Rightarrow> int \<Rightarrow> nat \<Rightarrow> nat \<Rightarrow> bool" where
  "flashinfer_fits E routed G T \<longleftrightarrow> is_power_of_two E \<and> routed \<le> 8 \<and> T \<le> G \<and> routed \<le> int (T * G) \<and>
     (if 1 < G then per_group E G \<le> 32 \<and> per_group E G * T \<le> 128 else E \<le> 384)"

definition pad_shared :: "nat \<Rightarrow> nat \<Rightarrow> rat option \<Rightarrow> routed \<Rightarrow> routed" where
  "pad_shared E nfs rsf r = (case r of (ws, ids) \<Rightarrow>
     if nfs = 0 then (ws, ids)
     else (map (\<lambda>w. w @ replicate nfs (case rsf of None \<Rightarrow> 0 | Some f \<Rightarrow> sum_list w / f)) ws,
           map (\<lambda>row. row @ replicate nfs (int E)) ids))"

definition deepseek_gate ::
  "kernels \<Rightarrow> nat \<Rightarrow> rat list list \<Rightarrow> rat list \<Rightarrow> int \<Rightarrow> nat \<Rightarrow> nat \<Rightarrow> nat \<Rightarrow> rat option \<Rightarrow> bool \<Rightarrow> routed result" where
  "deepseek_gate kern E gating bias routed G T nfs rsf apply_rsf =
     (if routed < 0 then Inl RuntimeError
      else Inr (pad_shared E nfs rsf
        (kern FlashinferDeepseek ((call_of gating (Some bias) (nat routed) Sigmoid True)
          \<lparr>c_groups := (G, T), c_scale := Some (if apply_rsf then or_one rsf else 1), c_apply := True\<rparr>))))"

definition jit_grouped_call ::
  "rat list list \<Rightarrow> rat list \<Rightarrow> nat \<Rightarrow> bool \<Rightarrow> nat \<Rightarrow> nat \<Rightarrow> nat \<Rightarrow> rat option \<Rightarrow> bool \<Rightarrow> gate_call" where
  "jit_grouped_call gating bias k renormalize G T nfs rsf apply_rsf =
     (call_of gating (Some bias) k Sigmoid renormalize)
       \<lparr>c_groups := (G, T), c_nfs := nfs, c_scale := Some (or_one rsf), c_apply := apply_rsf\<rparr>"

definition jit_gate_ok :: "platform \<Rightarrow> nat \<Rightarrow> nat \<Rightarrow> nat \<Rightarrow> nat \<Rightarrow> bool" where
  "jit_gate_ok pl E k G T \<longleftrightarrow> is_cuda pl \<and> G = 1 \<and> T = 1 \<and> (E = 384 \<or> (E \<le> 1024 \<and> (512 < E \<or> 8 < k)))"

text \<open>
  \<open>fused_quant\<close> is the result of the staged route-and-quantise launch when the model layer staged
  its activations, and \<open>None\<close> when it did not.
\<close>

definition ungrouped_gate ::
  "platform \<Rightarrow> route_flags \<Rightarrow> gate_ops \<Rightarrow> kernels \<Rightarrow> routed option \<Rightarrow> nat \<Rightarrow> nat \<Rightarrow> rat list list \<Rightarrow> rat list \<Rightarrow> nat \<Rightarrow>
   bool \<Rightarrow> nat \<Rightarrow> nat \<Rightarrow> nat \<Rightarrow> rat option \<Rightarrow> bool \<Rightarrow> routed result" where
  "ungrouped_gate pl fl ops kern fused_quant E n_hidden gating bias k renormalize G T nfs rsf apply_rsf =
     (if jit_gate_ok pl E k G T then
        (if f_jit_bf16 fl
         then Inr (kern JitBf16Gate ((call_of gating (Some bias) k Sigmoid renormalize)
                \<lparr>c_scale := rsf, c_apply := apply_rsf\<rparr>))
         else case fused_quant of Some r \<Rightarrow> Inr r
         | None \<Rightarrow> Inr (kern JitGate ((call_of gating (Some bias) k Sigmoid renormalize)
             \<lparr>c_nfs := nfs, c_scale := Some (or_one rsf), c_apply := apply_rsf\<rparr>)))
      else if is_cuda pl \<and> G = 1 \<and> T = 1 \<and> nfs = 0 \<and> E \<le> 512 \<and> k \<le> 32 then
        Inr (kern JitGate ((call_of gating (Some bias) k Sigmoid renormalize)
          \<lparr>c_scale := Some (or_one rsf), c_apply := apply_rsf\<rparr>))
      else if is_xpu pl \<and> G = 1 \<and> T = 1 \<and> nfs = 0 \<and> E \<le> 256 \<and> k \<le> 8 then
        (if gating = [] then Inr ([], [])
         else Inr (kern TopkSigmoid ((call_of gating (Some bias) k Sigmoid renormalize)
           \<lparr>c_scale := Some (if apply_rsf then or_one rsf else 1), c_apply := True\<rparr>)))
      else if is_xpu pl \<and> per_group E G \<le> 32 \<and> is_power_of_two E then
        Inr (kern XpuGate (jit_grouped_call gating bias k renormalize G T nfs rsf apply_rsf))
      else biased_grouped_topk_impl ops E n_hidden gating bias k renormalize G T nfs rsf apply_rsf)"

definition biased_grouped_topk_gpu ::
  "platform \<Rightarrow> route_flags \<Rightarrow> gate_ops \<Rightarrow> kernels \<Rightarrow> routed option \<Rightarrow> nat \<Rightarrow> nat \<Rightarrow> rat list list \<Rightarrow> rat list \<Rightarrow> nat \<Rightarrow>
   bool \<Rightarrow> nat \<Rightarrow> nat \<Rightarrow> nat \<Rightarrow> rat option \<Rightarrow> bool \<Rightarrow> routed result" where
  "biased_grouped_topk_gpu pl fl ops kern fused_quant E n_hidden gating bias k renormalize G T nfs rsf apply_rsf =
     (let routed = int k - int nfs in
      if is_cuda pl \<and> 1 < G \<and> f_jit_grouped fl then
        Inr (kern JitGate (jit_grouped_call gating bias k renormalize G T nfs rsf apply_rsf))
      else if is_cuda pl \<and> f_deepseek fl \<and> flashinfer_fits E routed G T then
        deepseek_gate kern E gating bias routed G T nfs rsf apply_rsf
      else if is_cuda pl \<and> 1 < G then
        Inr (kern JitGate (jit_grouped_call gating bias k renormalize G T nfs rsf apply_rsf))
      else if use_aiter pl then
        (if apply_rsf then Inl AssertionError
         else if n_hidden \<noteq> length gating then Inl AssertionError
         else Inr (kern AiterGrouped ((call_of gating (Some bias) k Sigmoid renormalize)
           \<lparr>c_groups := (G, T), c_scale := Some (or_one rsf)\<rparr>)))
      else if is_musa pl \<and> G = 0 then Inl ZeroDivisionError
      else if is_musa pl \<and> (E div G \<le> 32 \<or> (G = 1 \<and> E \<in> {160, 256, 384})) then
        Inr (kern MusaGate ((call_of gating (Some bias) k Sigmoid True)
          \<lparr>c_groups := (G, T), c_nfs := nfs, c_scale := Some (or_one rsf), c_apply := apply_rsf\<rparr>))
      else ungrouped_gate pl fl ops kern fused_quant E n_hidden gating bias k renormalize G T nfs rsf apply_rsf)"

section \<open>What the fused kernels are asked for\<close>

text \<open>
  The meaning of a call of a fused kernel: the tensor gate on the arguments of the call, each at the
  place the kernel takes it from.
\<close>

definition gate_ref :: "gate_ops \<Rightarrow> nat \<Rightarrow> gate_call \<Rightarrow> routed result" where
  "gate_ref ops E c = biased_grouped_topk_impl ops E (length (c_gating c)) (c_gating c)
     (case c_bias c of None \<Rightarrow> replicate E 0 | Some b \<Rightarrow> b) (c_k c) (c_renorm c)
     (fst (c_groups c)) (snd (c_groups c)) (c_nfs c) (c_scale c) (c_apply c)"

text \<open>A missing factor, the factor one and an unused factor are the same.\<close>

lemma renorm_scaled_unit: "renorm_scaled rn n (Some 1) True w = renorm_scaled rn n rsf False w"
  by (simp add: renorm_scaled_def)

lemma impl_scale:
  assumes "ap \<longrightarrow> rsf \<noteq> None"
  shows "biased_grouped_topk_impl ops E n g b k rn G T 0 (Some (if ap then or_one rsf else 1)) True =
      biased_grouped_topk_impl ops E n g b k rn G T 0 rsf ap"
    and "biased_grouped_topk_impl ops E n g b k rn G T 0 (Some (or_one rsf)) ap =
      biased_grouped_topk_impl ops E n g b k rn G T 0 rsf ap"
proof -
  have "renorm_scaled rn 0 (Some (if ap then or_one rsf else 1)) True = renorm_scaled rn 0 rsf ap"
    using assms by (auto simp: fun_eq_iff or_one_def renorm_scaled_unit)
  then show "biased_grouped_topk_impl ops E n g b k rn G T 0 (Some (if ap then or_one rsf else 1)) True =
      biased_grouped_topk_impl ops E n g b k rn G T 0 rsf ap"
    by (simp add: biased_grouped_topk_impl_def shared_column_def)
  have "renorm_scaled rn 0 (Some (or_one rsf)) ap = renorm_scaled rn 0 rsf ap"
    using assms by (cases rsf) (auto simp: fun_eq_iff or_one_def renorm_scaled_def Let_def)
  then show "biased_grouped_topk_impl ops E n g b k rn G T 0 (Some (or_one rsf)) ap =
      biased_grouped_topk_impl ops E n g b k rn G T 0 rsf ap"
    by (simp add: biased_grouped_topk_impl_def shared_column_def)
qed

lemma call_of_sel [simp]:
  "c_gating (call_of g b k sc rn) = g" "c_bias (call_of g b k sc rn) = b" "c_k (call_of g b k sc rn) = k"
  "c_sc (call_of g b k sc rn) = sc" "c_groups (call_of g b k sc rn) = (1, 1)"
  "c_renorm (call_of g b k sc rn) = rn" "c_nfs (call_of g b k sc rn) = 0"
  by (simp_all add: call_of_def)

text \<open>The calls of the branches.\<close>

lemma jit_grouped_asks:
  assumes "apply_rsf \<longrightarrow> rsf \<noteq> None"
  shows "gate_ref ops E (jit_grouped_call gating bias k rn G T 0 rsf apply_rsf) =
    biased_grouped_topk_impl ops E (length gating) gating bias k rn G T 0 rsf apply_rsf"
  using impl_scale(2)[OF assms] by (simp add: gate_ref_def jit_grouped_call_def)

lemma jit_gate_asks:
  assumes "apply_rsf \<longrightarrow> rsf \<noteq> None"
  shows "gate_ref ops E ((call_of gating (Some bias) k Sigmoid rn)\<lparr>c_nfs := 0, c_scale := Some (or_one rsf), c_apply := apply_rsf\<rparr>) =
      biased_grouped_topk_impl ops E (length gating) gating bias k rn 1 1 0 rsf apply_rsf"
    "gate_ref ops E ((call_of gating (Some bias) k Sigmoid rn)\<lparr>c_scale := Some (or_one rsf), c_apply := apply_rsf\<rparr>) =
      biased_grouped_topk_impl ops E (length gating) gating bias k rn 1 1 0 rsf apply_rsf"
    "gate_ref ops E ((call_of gating (Some bias) k Sigmoid rn)\<lparr>c_scale := rsf, c_apply := apply_rsf\<rparr>) =
      biased_grouped_topk_impl ops E (length gating) gating bias k rn 1 1 0 rsf apply_rsf"
  using impl_scale(2)[OF assms] by (simp_all add: gate_ref_def)

lemma deepseek_asks:
  assumes "apply_rsf \<longrightarrow> rsf \<noteq> None"
  shows "gate_ref ops E ((call_of gating (Some bias) k Sigmoid True)
        \<lparr>c_groups := (G, T), c_scale := Some (if apply_rsf then or_one rsf else 1), c_apply := True\<rparr>) =
      biased_grouped_topk_impl ops E (length gating) gating bias k True G T 0 rsf apply_rsf"
    "deepseek_gate kern E gating bias (int k) G T 0 rsf apply_rsf = Inr (kern FlashinferDeepseek ((call_of gating (Some bias) k Sigmoid True)
        \<lparr>c_groups := (G, T), c_scale := Some (if apply_rsf then or_one rsf else 1), c_apply := True\<rparr>))"
  using impl_scale(1)[OF assms] by (simp_all add: gate_ref_def deepseek_gate_def pad_shared_def split: prod.split)

text \<open>
  C11: The biased grouped gate on a plain CUDA platform (no aiter, MUSA or XPU), without shared
  experts, with one row of logits per hidden state, and with a scaling factor whenever the scaling is to
  be applied. Nothing is assumed of the kernels. For every shape, flag and renormalisation, the
  dispatch does one of three things: it returns the result, or raises the error, of the tensor gate on
  its own arguments; or it returns the staged result of the route-and-quantise launch, which it takes
  only where the single-group kernel is chosen and the bf16 kernel is off; or it calls one fused kernel
  with a call whose meaning is the tensor gate on the arguments of the dispatch, the scaling factor
  included, renormalised as asked, except that the flashinfer kernel is always asked to renormalise.
\<close>

theorem dispatch_asks_for_the_gate:
  assumes plat: "is_cuda pl" "\<not> use_aiter pl" "\<not> is_musa pl" "\<not> is_xpu pl"
    and n: "n_hidden = length gating" and f: "apply_rsf \<longrightarrow> rsf \<noteq> None"
    and run: "run = (\<lambda>kern. biased_grouped_topk_gpu pl fl ops kern fused_quant E n_hidden gating bias k rn G T 0 rsf apply_rsf)"
  shows "(\<forall>kern. run kern = biased_grouped_topk_impl ops E n_hidden gating bias k rn G T 0 rsf apply_rsf) \<or>
    (jit_gate_ok pl E k G T \<and> \<not> f_jit_bf16 fl \<and> (\<exists>x. fused_quant = Some x \<and> (\<forall>kern. run kern = Inr x))) \<or>
    (\<exists>K c. c_sc c = Sigmoid \<and> (\<forall>kern. run kern = Inr (kern K c)) \<and>
       gate_ref ops E c = biased_grouped_topk_impl ops E n_hidden gating bias k (rn \<or> K = FlashinferDeepseek) G T 0 rsf apply_rsf)"
proof -
  let ?gate = "\<lambda>K. biased_grouped_topk_impl ops E n_hidden gating bias k (rn \<or> K = FlashinferDeepseek) G T 0 rsf apply_rsf"
  let ?fits = "f_deepseek fl \<and> flashinfer_fits E (int k) G T"
  have ask: ?thesis if "c_sc c = Sigmoid" "gate_ref ops E c = ?gate K" "\<And>kern. run kern = Inr (kern K c)" for K c
    using that by blast
  consider (grouped) "1 < G" "f_jit_grouped fl \<or> \<not> ?fits" | (flash) "\<not> (1 < G \<and> f_jit_grouped fl)" "?fits"
    | (bf16) "\<not> 1 < G" "\<not> ?fits" "jit_gate_ok pl E k G T" "f_jit_bf16 fl"
    | (staged) x where "\<not> 1 < G" "\<not> ?fits" "jit_gate_ok pl E k G T" "\<not> f_jit_bf16 fl" "fused_quant = Some x"
    | (jit) "\<not> 1 < G" "\<not> ?fits" "jit_gate_ok pl E k G T" "\<not> f_jit_bf16 fl" "fused_quant = None"
    | (small) "\<not> 1 < G" "\<not> ?fits" "\<not> jit_gate_ok pl E k G T" "G = 1 \<and> T = 1 \<and> E \<le> 512 \<and> k \<le> 32"
    | (ref) "\<not> 1 < G" "\<not> ?fits" "\<not> jit_gate_ok pl E k G T" "\<not> (G = 1 \<and> T = 1 \<and> E \<le> 512 \<and> k \<le> 32)"
    by (cases fused_quant) blast+
  then show ?thesis
  proof cases
    case grouped
    have "run kern = Inr (kern JitGate (jit_grouped_call gating bias k rn G T 0 rsf apply_rsf))" for kern
      using grouped plat(1) by (auto simp: run biased_grouped_topk_gpu_def Let_def)
    moreover have "gate_ref ops E (jit_grouped_call gating bias k rn G T 0 rsf apply_rsf) = ?gate JitGate" using jit_grouped_asks[OF f] n by simp
    moreover have "c_sc (jit_grouped_call gating bias k rn G T 0 rsf apply_rsf) = Sigmoid" by (simp add: jit_grouped_call_def)
    ultimately show ?thesis by (intro ask)
  next
    case flash
    show ?thesis
      by (rule ask[OF _ _ trans[OF _ deepseek_asks(2)[OF f, where k = k]]])
        (use flash plat(1) in \<open>auto simp: deepseek_asks(1)[OF f] n run biased_grouped_topk_gpu_def Let_def\<close>)
  next
    case bf16
    have GT: "G = 1" "T = 1" using bf16(3) by (simp_all add: jit_gate_ok_def)
    show ?thesis
      by (rule ask[where K = JitBf16Gate, OF _ trans[OF jit_gate_asks(3)[OF f]]])
        (use bf16 plat in \<open>auto simp: n GT run biased_grouped_topk_gpu_def ungrouped_gate_def Let_def\<close>)
  next
    case staged
    then show ?thesis using plat by (auto simp: run biased_grouped_topk_gpu_def ungrouped_gate_def Let_def)
  next
    case jit
    have GT: "G = 1" "T = 1" using jit(3) by (simp_all add: jit_gate_ok_def)
    show ?thesis
      by (rule ask[where K = JitGate, OF _ trans[OF jit_gate_asks(1)[OF f]]])
        (use jit plat in \<open>auto simp: n GT run biased_grouped_topk_gpu_def ungrouped_gate_def Let_def\<close>)
  next
    case small
    then have GT: "G = 1" "T = 1" by simp_all
    show ?thesis
      by (rule ask[where K = JitGate, OF _ trans[OF jit_gate_asks(2)[OF f]]])
        (use small plat in \<open>auto simp: n GT run biased_grouped_topk_gpu_def ungrouped_gate_def Let_def\<close>)
  next
    case ref
    then have "run kern = biased_grouped_topk_impl ops E n_hidden gating bias k rn G T 0 rsf apply_rsf" for kern
      using plat by (auto simp: run biased_grouped_topk_gpu_def ungrouped_gate_def Let_def)
    then show ?thesis by blast
  qed
qed

text \<open>
  the branch of the flashinfer kernel renormalises whatever the caller asked for: where its
  limits hold, the gate called without renormalisation returns what it returns with it.
\<close>

theorem flashinfer_branch_always_renormalizes:
  assumes "is_cuda pl" and "\<not> (1 < G \<and> f_jit_grouped fl)" and "f_deepseek fl"
    and "flashinfer_fits E (int k - int nfs) G T"
  shows "biased_grouped_topk_gpu pl fl ops kern fused_quant E n_hidden gating bias k False G T nfs rsf apply_rsf =
    biased_grouped_topk_gpu pl fl ops kern fused_quant E n_hidden gating bias k True G T nfs rsf apply_rsf"
proof -
  have c: "(is_cuda pl \<and> 1 < G \<and> f_jit_grouped fl) = False"
      "(is_cuda pl \<and> f_deepseek fl \<and> flashinfer_fits E (int k - int nfs) G T) = True"
    using assms by simp_all
  show ?thesis by (simp only: biased_grouped_topk_gpu_def Let_def c if_True if_False)
qed

section \<open>Shapes\<close>

definition shaped :: "nat \<Rightarrow> nat \<Rightarrow> routed \<Rightarrow> bool" where
  "shaped n k r \<longleftrightarrow> (case r of (ws, ids) \<Rightarrow> length ws = n \<and> length ids = n \<and>
     (\<forall>w\<in>set ws. length w = k) \<and> (\<forall>row\<in>set ids. length row = k))"

lemma shaped_lengths:
  "shaped n k (ws, ids) \<longleftrightarrow> map length ws = replicate n k \<and> map length ids = replicate n k"
  by (auto simp: shaped_def list_eq_iff_nth_eq all_set_conv_all_nth)

definition shapes_ok :: "kernels \<Rightarrow> bool" where
  "shapes_ok kern \<longleftrightarrow> (\<forall>K c. shaped (length (c_gating c)) (c_k c) (kern K c))"

lemma shapes_okD: "shapes_ok kern \<Longrightarrow> c_gating c = g \<Longrightarrow> c_k c = k \<Longrightarrow> shaped (length g) k (kern K c)"
  by (auto simp: shapes_ok_def)

lemma res_map_all:
  assumes "res_map f xs = Inr ys" and "\<And>x y. x \<in> set xs \<Longrightarrow> f x = Inr y \<Longrightarrow> Q y"
  shows "\<forall>y\<in>set ys. Q y"
proof
  fix y assume "y \<in> set ys"
  then obtain i where "i < length xs" "ys ! i = y" "f (xs ! i) = Inr y"
    using res_map_Inr[OF assms(1)] by (auto simp: in_set_conv_nth)
  then show "Q y" using assms(2)[of "xs ! i" y] by simp
qed

lemma length_ids_of:
  assumes "topk_any (g_topk ops)" and "topk_ids_of ops xs k = Inr ids"
  shows "length ids = k"
  using assms topk_any.topk_length[OF assms(1), of k xs]
  by (auto simp: topk_ids_of_def py_topk_def split: if_splits)

lemma shared_column_shape:
  assumes "shared_column ops E nfs rsf ws ids = Inr (ws', ids')" and r: "randint_ok ops"
  shows "map length ws' = map length ws \<and> map length ids' = map length ids"
proof (cases "nfs = 0")
  case True
  then show ?thesis using assms(1) by (simp add: shared_column_def)
next
  case False
  then have "int E < int (E + nfs)" by simp
  then have "length (g_randint ops (int E) (int (E + nfs)) (length ids)) = length ids"
    using r unfolding randint_ok_def by blast
  then show ?thesis using assms(1) False
    by (auto simp: shared_column_def Let_def split: if_splits option.splits intro!: nth_equalityI)
qed

lemma renorm_scaled_length: "renorm_scaled rn nfs rsf ap w = Inr w' \<Longrightarrow> length w' = length w"
  by (auto simp: renorm_scaled_def Let_def split: if_splits option.splits)

lemma impl_shaped:
  assumes op: "topk_any (g_topk ops)" and rand: "randint_ok ops"
    and run: "biased_grouped_topk_impl ops E n gating bias k rn G T nfs rsf ap = Inr r"
  shows "shaped (length gating) k r"
proof -
  obtain m rows ws ids ws' where
      rows: "res_map (biased_grouped_row ops k G m T bias) (map (g_score ops Sigmoid) gating) = Inr rows"
    and sh: "shared_column ops E nfs rsf (map fst rows) (map snd rows) = Inr (ws, ids)"
    and sc: "res_map (renorm_scaled rn nfs rsf ap) ws = Inr ws'" and r: "r = (ws', ids)"
    using run by (auto simp: biased_grouped_topk_impl_def res_bind_Inr_iff split: if_splits)
  have n: "length rows = length gating" using res_map_Inr[OF rows] by simp
  have "\<forall>y\<in>set rows. length (fst y) = k \<and> length (snd y) = k"
    by (rule res_map_all[OF rows]) (use length_ids_of[OF op] in \<open>auto simp: biased_grouped_row_def res_bind_Inr_iff\<close>)
  then have "map length (map fst rows) = replicate (length gating) k" "map length (map snd rows) = replicate (length gating) k"
    using n by (auto simp: list_eq_iff_nth_eq)
  then have S: "map length ws = replicate (length gating) k" "map length ids = replicate (length gating) k"
    using shared_column_shape[OF sh rand] by auto
  have "length ws' = length ws \<and> (\<forall>i<length ws. length (ws' ! i) = length (ws ! i))"
    using res_map_Inr[OF sc] renorm_scaled_length by blast
  then have "map length ws' = map length ws" by (auto simp: list_eq_iff_nth_eq)
  then have "map length ws' = replicate (length gating) k" using S by simp
  then show ?thesis using S(2) by (simp add: r shaped_lengths)
qed

definition kernel_result :: "kernels \<Rightarrow> rat list list \<Rightarrow> nat \<Rightarrow> routed \<Rightarrow> bool" where
  "kernel_result kern gating k r \<longleftrightarrow> (\<exists>K c. r = kern K c \<and> c_gating c = gating \<and> c_k c = k)"

lemma kernel_resultI: "c_gating c = gating \<Longrightarrow> c_k c = k \<Longrightarrow> kernel_result kern gating k (kern K c)"
  by (auto simp: kernel_result_def)

lemma kernel_result_shaped: "shapes_ok kern \<Longrightarrow> kernel_result kern gating k r \<Longrightarrow> shaped (length gating) k r"
  using shapes_okD by (auto simp: kernel_result_def)

lemma pad_shared_shape:
  "shaped n j r \<Longrightarrow> shaped n (j + nfs) (pad_shared E nfs rsf r)"
  by (auto simp: shaped_def pad_shared_def split: if_splits)

text \<open>
  C33: on every platform, for every flag and every shape, a successful biased grouped gate returns
  one row of exactly \<open>k\<close> weights and one of exactly \<open>k\<close> ids per token, shared experts included: the
  flashinfer branch, which asks its kernel for \<open>k - nfs\<close> experts, pads the rows back.
\<close>

theorem dispatch_shape:
  assumes op: "topk_any (g_topk ops)" and rand: "randint_ok ops" and sh: "shapes_ok kern"
    and q: "\<forall>x. fused_quant = Some x \<longrightarrow> shaped (length gating) k x"
    and run: "biased_grouped_topk_gpu pl fl ops kern fused_quant E n_hidden gating bias k renormalize G T nfs rsf apply_rsf = Inr r"
  shows "shaped (length gating) k r"
proof -
  have ds: "shaped (length gating) k r"
    if d: "deepseek_gate kern E gating bias (int k - int nfs) G T nfs rsf apply_rsf = Inr r"
  proof -
    have p: "0 \<le> int k - int nfs" using d by (auto simp: deepseek_gate_def split: if_splits)
    then have "nat (int k - int nfs) + nfs = k" by linarith
    moreover obtain c where "r = pad_shared E nfs rsf (kern FlashinferDeepseek c)"
        "c_gating c = gating" "c_k c = nat (int k - int nfs)"
      using d p by (auto simp: deepseek_gate_def)
    ultimately show ?thesis using pad_shared_shape[OF shapes_okD[OF sh]] by metis
  qed
  have un: "shaped (length gating) k r"
    if u: "ungrouped_gate pl fl ops kern fused_quant E n_hidden gating bias k renormalize G T nfs rsf apply_rsf = Inr r"
  proof (cases "biased_grouped_topk_impl ops E n_hidden gating bias k renormalize G T nfs rsf apply_rsf = Inr r")
    case True
    then show ?thesis by (rule impl_shaped[OF op rand])
  next
    case False
    then have "fused_quant = Some r \<or> r = ([], []) \<and> gating = [] \<or> kernel_result kern gating k r"
      using u unfolding ungrouped_gate_def jit_grouped_call_def
      by (cases fused_quant) (auto simp: kernel_resultI split: if_split_asm)
    then show ?thesis using q kernel_result_shaped[OF sh] by (auto simp: shaped_def)
  qed
  have "deepseek_gate kern E gating bias (int k - int nfs) G T nfs rsf apply_rsf = Inr r \<or>
      ungrouped_gate pl fl ops kern fused_quant E n_hidden gating bias k renormalize G T nfs rsf apply_rsf = Inr r \<or>
      kernel_result kern gating k r"
    using run unfolding biased_grouped_topk_gpu_def jit_grouped_call_def Let_def
    by (auto simp: kernel_resultI split: if_split_asm)
  then show ?thesis using ds un kernel_result_shaped[OF sh] by blast
qed

section \<open>Concrete runs\<close>

definition ex_cuda :: platform where
  "ex_cuda = \<lparr>is_cuda = True, is_hip = False, is_npu = False, is_musa = False, is_xpu = False,
              is_cpu_amx = False, use_aiter = False\<rparr>"

definition ex_flags :: route_flags where
  "ex_flags = \<lparr>f_jit_grouped = False, f_jit_fused = False, f_jit_bf16 = False, f_deepseek = True,
     f_trtllm_routed = False, f_pack = False, f_uniform = False, f_round_robin = False\<rparr>"

definition ex_kern :: kernels where
  "ex_kern K c = (case gate_ref ex_gate 4 c of Inr (ws, ids) \<Rightarrow>
      if length ws = length (c_gating c) \<and> length ids = length (c_gating c) \<and>
         (\<forall>w\<in>set ws. length w = c_k c) \<and> (\<forall>w\<in>set ids. length w = c_k c) then (ws, ids)
      else (map (\<lambda>_. replicate (c_k c) 0) (c_gating c), map (\<lambda>_. replicate (c_k c) 0) (c_gating c))
    | Inl _ \<Rightarrow> (map (\<lambda>_. replicate (c_k c) 0) (c_gating c), map (\<lambda>_. replicate (c_k c) 0) (c_gating c)))"

lemma ex_kern_shapes: "shapes_ok ex_kern"
  by (auto simp: shapes_ok_def shaped_def ex_kern_def split: sum.splits prod.splits)

text \<open>A kernel for two groups of experts, called through the flashinfer branch without renormalisation.\<close>

theorem dispatch_asks_for_the_gate_witness:
  "\<exists>c. (\<forall>kern. biased_grouped_topk_gpu ex_cuda ex_flags ex_gate kern None 4 1 [[3, 1, 2, 5]] [0, 0, 0, 0] 2 False 2 1 0 (Some 2) True =
       Inr (kern FlashinferDeepseek c)) \<and>
     gate_ref ex_gate 4 c = biased_grouped_topk_impl ex_gate 4 1 [[3, 1, 2, 5]] [0, 0, 0, 0] 2 True 2 1 0 (Some 2) True"
proof -
  let ?run = "\<lambda>kern. biased_grouped_topk_gpu ex_cuda ex_flags ex_gate kern None 4 1 [[3, 1, 2, 5]] [0, 0, 0, 0] 2 False 2 1 0 (Some 2) True"
  let ?kern = "\<lambda>w K c. ([[w]], [[if K = FlashinferDeepseek then 1 else 0]]) :: routed"
  have own: "?run (?kern 1) = Inr ([[1]], [[1]])" "?run (?kern 2) = Inr ([[2]], [[1]])" by code_simp+
  have plat: "is_cuda ex_cuda" "\<not> use_aiter ex_cuda" "\<not> is_musa ex_cuda" "\<not> is_xpu ex_cuda" "(1::nat) = length [[3, 1, 2, 5 :: rat]]"
    by (simp_all add: ex_cuda_def)
  have "True \<longrightarrow> Some (2::rat) \<noteq> None" by simp
  from dispatch_asks_for_the_gate[OF plat this refl, of ex_flags ex_gate None 4 "[0, 0, 0, 0]" 2 False 2 1]
  obtain K c where c: "\<forall>kern. ?run kern = Inr (kern K c)"
    "gate_ref ex_gate 4 c = biased_grouped_topk_impl ex_gate 4 1 [[3, 1, 2, 5]] [0, 0, 0, 0] 2 (False \<or> K = FlashinferDeepseek) 2 1 0 (Some 2) True"
    using own by auto
  have "K = FlashinferDeepseek" using c(1)[rule_format, of "?kern 1"] own(1) by (simp split: if_splits)
  then show ?thesis using c by auto
qed

theorem flashinfer_branch_always_renormalizes_witness:
  "biased_grouped_topk_gpu ex_cuda ex_flags ex_gate ex_kern None 4 1 [[3, 1, 2, 5]] [0, 0, 0, 0] 2 False 2 1 0 None False
     = biased_grouped_topk_gpu ex_cuda ex_flags ex_gate ex_kern None 4 1 [[3, 1, 2, 5]] [0, 0, 0, 0] 2 True 2 1 0 None False \<and>
   biased_grouped_topk_gpu ex_cuda ex_flags ex_gate ex_kern None 4 1 [[3, 1, 2, 5]] [0, 0, 0, 0] 2 False 2 1 0 None False
     \<noteq> biased_grouped_topk_impl ex_gate 4 1 [[3, 1, 2, 5]] [0, 0, 0, 0] 2 False 2 1 0 None False"
proof
  have "is_cuda ex_cuda" "\<not> (1 < (2::nat) \<and> f_jit_grouped ex_flags)" "f_deepseek ex_flags"
    "flashinfer_fits 4 (int 2 - int 0) 2 1" by code_simp+
  from flashinfer_branch_always_renormalizes[OF this]
  show "biased_grouped_topk_gpu ex_cuda ex_flags ex_gate ex_kern None 4 1 [[3, 1, 2, 5]] [0, 0, 0, 0] 2 False 2 1 0 None False
     = biased_grouped_topk_gpu ex_cuda ex_flags ex_gate ex_kern None 4 1 [[3, 1, 2, 5]] [0, 0, 0, 0] 2 True 2 1 0 None False" .
  show "biased_grouped_topk_gpu ex_cuda ex_flags ex_gate ex_kern None 4 1 [[3, 1, 2, 5]] [0, 0, 0, 0] 2 False 2 1 0 None False
     \<noteq> biased_grouped_topk_impl ex_gate 4 1 [[3, 1, 2, 5]] [0, 0, 0, 0] 2 False 2 1 0 None False" by code_simp
qed

theorem dispatch_shape_witness:
  "\<exists>r. biased_grouped_topk_gpu ex_cuda ex_flags ex_gate ex_kern None 4 1 [[3, 1, 2, 5]] [0, 0, 0, 0] 2 True 2 1 1 (Some 2) False = Inr r \<and>
     shaped 1 2 r"
proof -
  have ok: "is_ok (biased_grouped_topk_gpu ex_cuda ex_flags ex_gate ex_kern None 4 1 [[3, 1, 2, 5]] [0, 0, 0, 0] 2 True 2 1 1 (Some 2) False)"
    by code_simp
  from dispatch_shape[OF ex_gate_laws(2,4) ex_kern_shapes _ ok_or_eq[OF ok]] ok_or_eq[OF ok]
  show ?thesis by fastforce
qed

end
