(* ===== verification/Topk_Select.thy ===== *)
theory Topk_Select
  imports Topk_Dispatch Cold_Gate
begin

text \<open>
  \<^verbatim>\<open>select_experts\<close> of \<^verbatim>\<open>runtime-src/topk.py\<close>: the choice of the gate, the simulated routings, the
  post-processing of the ids (logical to physical experts, padded rows, shared experts) and the three
  hooks of the expert cold pool around them. The logical-to-physical map, the solver of the load
  balancer, the masking and appending kernels and the parallel layout are arguments.
\<close>

section \<open>Configuration and outputs\<close>

datatype topk_format = STANDARD | TRITON_KERNEL | BYPASSED | PACKED

record topk_config =
  top_k :: nat
  use_grouped_topk :: bool
  topk_group :: "nat option"
  num_expert_group :: "nat option"
  tc_renormalize :: bool
  num_fused_shared_experts :: nat
  custom_routing_function :: "(rat list list \<Rightarrow> nat \<Rightarrow> bool \<Rightarrow> routed) option"
  correction_bias :: "rat list option"
  torch_native :: bool
  routed_scaling_factor :: "rat option"
  apply_rsf_on_output :: bool
  shared_scaling_factor :: "rat option"
  output_format :: "topk_format option"
  scoring_func :: scoring
  allow_capture :: bool
  cfg_id :: "nat option"

record dispatch_info =
  num_physical :: nat
  is_lp :: bool

record post_env =
  pe_per_rank :: bool
  pe_l2p :: "dispatch_info option \<Rightarrow> rat list option \<Rightarrow> int list list \<Rightarrow> int list list"
  pe_lp :: "nat option \<Rightarrow> int list list \<Rightarrow> rat list option"
  pe_int32 :: bool
  pe_mask_ids :: "int list list \<Rightarrow> nat \<Rightarrow> int list list"
  pe_fuse_ids :: bool
  pe_fill_ids :: "int list list \<Rightarrow> nat \<Rightarrow> int \<Rightarrow> int list list"
  pe_fuse_ws :: bool
  pe_fill_ws :: "rat list list \<Rightarrow> nat \<Rightarrow> rat \<Rightarrow> rat list list"
  pe_eplb :: bool
  pe_skip_hip_mask :: bool
  pe_ep_size :: nat
  pe_ep_rank :: nat
  pe_append_remap :: "int list list \<Rightarrow> rat list list \<Rightarrow> nat \<Rightarrow> rat \<Rightarrow> nat \<Rightarrow> nat \<Rightarrow> int list list \<times> rat list list"
  pe_append :: "int list list \<Rightarrow> rat list list \<Rightarrow> nat \<Rightarrow> rat \<Rightarrow> nat \<Rightarrow> int list list \<times> rat list list"

section \<open>Padded rows\<close>

text \<open>The indexed store of the fallback branch: every row from the first padded one on.\<close>

definition fill_rows :: "'a list list \<Rightarrow> nat \<Rightarrow> 'a \<Rightarrow> 'a list list" where
  "fill_rows rows n v = map (\<lambda>(i, row). if n \<le> i then map (\<lambda>_. v) row else row) (enumerate 0 rows)"

definition mask_topk_ids_padded_region ::
  "platform \<Rightarrow> post_env \<Rightarrow> int list list \<Rightarrow> nat option \<Rightarrow> int \<Rightarrow> int list list" where
  "mask_topk_ids_padded_region pl pe ids np fill =
     (case np of None \<Rightarrow> ids
      | Some n \<Rightarrow>
          if is_cuda pl \<and> pe_int32 pe \<and> fill = -1 then pe_mask_ids pe ids n
          else if is_npu pl then ids
          else if pe_fuse_ids pe then pe_fill_ids pe ids n fill
          else fill_rows ids n fill)"

definition zero_topk_weights_padded_region :: "post_env \<Rightarrow> rat list list \<Rightarrow> nat option \<Rightarrow> rat list list" where
  "zero_topk_weights_padded_region pe ws np =
     (case np of None \<Rightarrow> ws
      | Some n \<Rightarrow> if pe_fuse_ws pe then pe_fill_ws pe ws n 0 else fill_rows ws n 0)"

definition biased_grouped_topk_postprocess ::
  "platform \<Rightarrow> post_env \<Rightarrow> int list list \<Rightarrow> dispatch_info option \<Rightarrow> nat option \<Rightarrow> int list list" where
  "biased_grouped_topk_postprocess pl pe ids disp np =
     mask_topk_ids_padded_region pl pe (pe_l2p pe disp None ids) np (-1)"

section \<open>Shared slots of the ranks\<close>

text \<open>
  Python's floor division rounds down, as \<open>div\<close> on integers does. The slices need at least one
  shared expert and rows that hold them.
\<close>

definition routed_slot :: "nat \<Rightarrow> int \<Rightarrow> int" where
  "routed_slot L e = e + e div int L"

definition shared_slot :: "nat \<Rightarrow> nat \<Rightarrow> nat \<Rightarrow> nat \<Rightarrow> int" where
  "shared_slot rank L n j = int (rank * (L + n) + L + j)"

definition remap_topk_for_per_rank_shared_slots ::
  "platform \<Rightarrow> post_env \<Rightarrow> int list list \<Rightarrow> rat list list \<Rightarrow> nat \<Rightarrow> nat \<Rightarrow> rat option \<Rightarrow>
   (int list list \<times> rat list list) result" where
  "remap_topk_for_per_rank_shared_slots pl pe ids ws n nphys rsf =
     (if ids = [] then Inr (ids, ws)
      else if pe_ep_size pe = 0 then Inl ZeroDivisionError
      else if n = 0 \<or> (\<exists>row\<in>set ids. length row < n) then Inl RuntimeError
      else
        let L = nphys div pe_ep_size pe in
        if L = 0 \<and> (\<exists>row\<in>set ids. n < length row) then Inl ZeroDivisionError
        else
          let ids' = map (\<lambda>row. map (routed_slot L) (take (length row - n) row) @
                       map (shared_slot (pe_ep_rank pe) L n) [0..<n]) ids;
              w = (if use_aiter pl then Some 1
                   else case rsf of None \<Rightarrow> None | Some f \<Rightarrow> if f \<noteq> 0 then Some (1 / f) else None);
              ws' = (case w of None \<Rightarrow> ws | Some x \<Rightarrow> map (\<lambda>row. take (length row - n) row @ replicate (min n (length row)) x) ws)
          in Inr (ids', ws'))"

section \<open>Post-processing\<close>

definition cuda_ids ::
  "platform \<Rightarrow> post_env \<Rightarrow> nat \<Rightarrow> nat option \<Rightarrow> nat option \<Rightarrow> dispatch_info option \<Rightarrow> int list list \<Rightarrow>
   int list list \<times> int list list option" where
  "cuda_ids pl pe n lid np disp ids =
     (let prob = (case disp of None \<Rightarrow> None | Some d \<Rightarrow> if is_lp d then pe_lp pe lid ids else None)
      in if prob \<noteq> None then (mask_topk_ids_padded_region pl pe (pe_l2p pe disp prob ids) np (-1), None)
         else if pe_per_rank pe then
           (let routed = biased_grouped_topk_postprocess pl pe (map (\<lambda>row. take (length row - n) row) ids) disp np
            in (map2 (\<lambda>r row. r @ drop (length row - n) row) routed ids, Some routed))
         else (biased_grouped_topk_postprocess pl pe ids disp np, None))"

definition hip_ids ::
  "platform \<Rightarrow> post_env \<Rightarrow> nat option \<Rightarrow> dispatch_info option \<Rightarrow> int list list \<Rightarrow> int list list" where
  "hip_ids pl pe np disp ids =
     (let ids' = mask_topk_ids_padded_region pl pe ids np 0
      in if pe_eplb pe then pe_l2p pe disp None ids' else ids')"

definition append_shared ::
  "platform \<Rightarrow> post_env \<Rightarrow> topk_config \<Rightarrow> nat \<Rightarrow> dispatch_info option \<Rightarrow> int list list \<Rightarrow> rat list list \<Rightarrow>
   (int list list \<times> rat list list) result" where
  "append_shared pl pe cfg E disp ids ws =
     (let n = num_fused_shared_experts cfg; aiter = (0 < n \<and> use_aiter pl);
          nphys = (case disp of Some d \<Rightarrow> num_physical d | None \<Rightarrow> E)
      in if aiter \<and> pe_per_rank pe then
           (if pe_ep_size pe = 0 then Inl ZeroDivisionError
            else let L = nphys div pe_ep_size pe
                 in Inr (pe_append_remap pe ids ws n 1 (pe_ep_rank pe * (L + n) + L) L))
         else if aiter then
           Inr (pe_append pe ids ws n (or_one (shared_scaling_factor cfg)) E)
         else if pe_per_rank pe then
           remap_topk_for_per_rank_shared_slots pl pe ids ws n nphys (routed_scaling_factor cfg)
         else Inr (ids, ws))"

text \<open>The ids, the weights and the ids for the statistics; a capture is what the capturer receives.\<close>

definition capture_routed_experts_if_allowed ::
  "topk_config \<Rightarrow> nat option \<Rightarrow> int list list \<Rightarrow> (nat option \<times> int list list) option" where
  "capture_routed_experts_if_allowed cfg lid ids = (if allow_capture cfg then Some (lid, ids) else None)"

definition post_process_topk_ids ::
  "platform \<Rightarrow> post_env \<Rightarrow> topk_config \<Rightarrow> nat \<Rightarrow> nat option \<Rightarrow> nat option \<Rightarrow> dispatch_info option \<Rightarrow>
   int list list \<Rightarrow> rat list list \<Rightarrow> (int list list \<times> rat list list \<times> int list list) result" where
  "post_process_topk_ids pl pe cfg E lid np disp ids ws =
     (let (ids1, rec) =
        (if is_cuda pl then cuda_ids pl pe (num_fused_shared_experts cfg) lid np disp ids
         else if is_hip pl then (hip_ids pl pe np disp ids, None)
         else (ids, None));
        recorded = (case rec of None \<Rightarrow> ids1 | Some r \<Rightarrow> r)
      in res_bind (append_shared pl pe cfg E disp ids1 ws) (\<lambda>(ids2, ws2).
         Inr (ids2, if is_hip pl \<and> \<not> pe_skip_hip_mask pe then zero_topk_weights_padded_region pe ws2 np else ws2,
              recorded)))"

section \<open>The choice of the gate\<close>

definition routed_k :: "platform \<Rightarrow> topk_config \<Rightarrow> nat result" where
  "routed_k pl cfg =
     (if \<not> use_aiter pl then Inr (top_k cfg)
      else if top_k cfg < num_fused_shared_experts cfg then Inl RuntimeError
      else Inr (top_k cfg - num_fused_shared_experts cfg))"

definition grouped_gate ::
  "platform \<Rightarrow> route_flags \<Rightarrow> gate_ops \<Rightarrow> kernels \<Rightarrow> routed option \<Rightarrow> topk_config \<Rightarrow> nat \<Rightarrow> nat \<Rightarrow>
   rat list list \<Rightarrow> rat list option \<Rightarrow> routed result" where
  "grouped_gate pl fl ops kern fq cfg E n_hidden gating bias =
     (case (topk_group cfg, num_expert_group cfg) of
        (Some T, Some G) \<Rightarrow>
          res_bind (routed_k pl cfg) (\<lambda>k.
          let rn = tc_renormalize cfg; n = num_fused_shared_experts cfg; rsf = routed_scaling_factor cfg;
              ap = apply_rsf_on_output cfg; sc = scoring_func cfg
          in case bias of
               None \<Rightarrow>
                 if is_cpu_amx pl then grouped_topk_cpu kern gating k rn G T n rsf ap sc
                 else if is_xpu pl then grouped_topk_xpu ops kern E n_hidden gating k rn G T n rsf ap sc
                 else grouped_topk_gpu ops E n_hidden gating k rn G T n rsf ap sc
             | Some b \<Rightarrow>
                 if is_cpu_amx pl then biased_grouped_topk_cpu kern gating b k rn G T n rsf ap
                 else biased_grouped_topk_gpu pl fl ops kern fq E n_hidden gating b k rn G T n rsf ap)
      | _ \<Rightarrow> Inl AssertionError)"

definition native_gate ::
  "platform \<Rightarrow> gate_ops \<Rightarrow> kernels \<Rightarrow> topk_config \<Rightarrow> nat \<Rightarrow> rat list list \<Rightarrow> rat list option \<Rightarrow> nat option \<Rightarrow>
   dispatch_info option \<Rightarrow> routed result" where
  "native_gate pl ops kern cfg n_hidden gating bias np disp =
     (if np \<noteq> None then Inl AssertionError
      else if disp \<noteq> None then Inl AssertionError
      else if apply_rsf_on_output cfg then Inl AssertionError
      else res_bind (routed_k pl cfg) (\<lambda>k.
        if is_cpu_amx pl
        then fused_topk_cpu ops kern n_hidden gating k (tc_renormalize cfg) bias (scoring_func cfg) False 0 False False
        else fused_topk_torch_native ops n_hidden gating k (tc_renormalize cfg) bias (scoring_func cfg)))"

text \<open>Whether the fused gate also packs the ids; \<open>E AND (E - 1) = 0\<close> holds for zero too.\<close>

definition packs_ids ::
  "platform \<Rightarrow> route_flags \<Rightarrow> topk_config \<Rightarrow> nat \<Rightarrow> rat list option \<Rightarrow> dispatch_info option \<Rightarrow> bool" where
  "packs_ids pl fl cfg E bias disp \<longleftrightarrow>
     f_pack fl \<and> is_cuda pl \<and> \<not> use_aiter pl \<and> scoring_func cfg = Softmax \<and> bias = None \<and> disp = None \<and>
     num_fused_shared_experts cfg = 0 \<and> \<not> f_uniform fl \<and> \<not> f_round_robin fl \<and>
     (E = 0 \<or> is_power_of_two E) \<and> E \<le> 512"

definition plain_gate ::
  "platform \<Rightarrow> route_flags \<Rightarrow> gate_ops \<Rightarrow> kernels \<Rightarrow> topk_config \<Rightarrow> nat \<Rightarrow> nat \<Rightarrow> rat list list \<Rightarrow>
   rat list option \<Rightarrow> dispatch_info option \<Rightarrow> (routed \<times> bool) result" where
  "plain_gate pl fl ops kern cfg E n_hidden gating bias disp =
     (let sc = scoring_func cfg; rn = tc_renormalize cfg; n = num_fused_shared_experts cfg;
          rsf = routed_scaling_factor cfg; ap = apply_rsf_on_output cfg
      in if sc \<noteq> SqrtSoftplus \<and> sc \<noteq> Sigmoid \<and> ap then Inl AssertionError
         else res_bind (routed_k pl cfg) (\<lambda>k.
           if sc = SqrtSoftplus \<or> (sc = Sigmoid \<and> f_jit_fused fl) then
             res_bind (if f_jit_fused fl then biased_topk_jit_kernel_impl pl kern n_hidden gating bias k rn sc n rsf ap
                       else biased_topk_impl ops E n_hidden gating bias k rn sc n rsf ap) (\<lambda>r. Inr (r, False))
           else if f_trtllm_routed fl \<and> sc = Softmax \<and> bias = None then
             res_bind (fused_topk_softmax_torch_raw_logits ops n_hidden gating k rn) (\<lambda>r. Inr (r, False))
           else
             let p = packs_ids pl fl cfg E bias disp
             in res_bind (if is_cpu_amx pl then fused_topk_cpu ops kern n_hidden gating k rn bias sc ap n p False
                          else fused_topk pl fl kern E n_hidden gating k rn bias sc rsf ap n p) (\<lambda>r. Inr (r, p))))"

definition route_gate ::
  "platform \<Rightarrow> route_flags \<Rightarrow> gate_ops \<Rightarrow> kernels \<Rightarrow> routed option \<Rightarrow> topk_config \<Rightarrow> nat \<Rightarrow> nat \<Rightarrow>
   rat list list \<Rightarrow> rat list option \<Rightarrow> nat option \<Rightarrow> dispatch_info option \<Rightarrow> (routed \<times> bool) result" where
  "route_gate pl fl ops kern fq cfg E n_hidden gating bias np disp =
     (if use_grouped_topk cfg then
        res_bind (grouped_gate pl fl ops kern fq cfg E n_hidden gating bias) (\<lambda>r. Inr (r, False))
      else case custom_routing_function cfg of
        None \<Rightarrow>
          if torch_native cfg
          then res_bind (native_gate pl ops kern cfg n_hidden gating bias np disp) (\<lambda>r. Inr (r, False))
          else plain_gate pl fl ops kern cfg E n_hidden gating bias disp
      | Some f \<Rightarrow>
          if apply_rsf_on_output cfg then Inl AssertionError
          else res_bind (routed_k pl cfg) (\<lambda>k. Inr (f gating k (tc_renormalize cfg), False)))"

section \<open>Simulated routing\<close>

definition width_of :: "'a list list \<Rightarrow> nat" where
  "width_of rows = (case rows of [] \<Rightarrow> 0 | row # _ \<Rightarrow> length row)"

definition simulate_routing ::
  "route_flags \<Rightarrow> gate_ops \<Rightarrow> nat option \<Rightarrow> nat \<Rightarrow> routed \<Rightarrow> routed result" where
  "simulate_routing fl ops lid E r =
     (case r of (ws, ids) \<Rightarrow>
        let k = width_of ids; even_ws = map (map (\<lambda>_. 1 / of_nat k)) ws in
        if f_uniform fl \<and> f_round_robin fl then Inl ValueError
        else if f_uniform fl then
          (if k = 0 then Inr (ws, ids)
           else if E = 0 then Inl RuntimeError
           else let step = max (E div k) 1; off = g_randint ops 0 (int E) (length ids)
                in Inr (even_ws, map (\<lambda>o'. map (\<lambda>j. (o' + int (j * step)) mod int E) [0..<k]) off))
        else if f_round_robin fl then
          res_bind (make_round_robin_expert_ids (length ids) k E lid) (\<lambda>ids'.
            Inr (if 0 < k then even_ws else ws, ids'))
        else Inr (ws, ids))"

section \<open>\<open>select_experts\<close>\<close>

record topk_output =
  out_weights :: "rat list list"
  out_ids :: "int list list"
  out_logits :: "rat list list"
  out_packed :: "32 word list list option"

record route_log =
  captured :: "(nat option \<times> int list list) option"
  recorded :: "int list list"

text \<open>The hooks of the cold pool after the gate: the stash, and the ids as rows of the layer.\<close>

definition pool_after ::
  "bool \<Rightarrow> hook_ops \<Rightarrow> pool_state \<Rightarrow> nat option \<Rightarrow> rat list list option \<Rightarrow> int list list \<Rightarrow> int list list \<Rightarrow>
   (pool_state \<times> int list list) result" where
  "pool_after capturing hops st cp pre recd ids =
     (case cp of None \<Rightarrow> Inr (st, ids)
      | Some l \<Rightarrow>
          res_bind (case pre of
              Some lg \<Rightarrow> stash_demand capturing hops st (Some l) lg recd (width_of ids)
            | None \<Rightarrow> if \<not> dynamic st \<or> capturing then Inr st else Inl AttributeError) (\<lambda>st'.
          Inr (st', remap_topk_ids st' (Some l) ids)))"

definition select_experts ::
  "platform \<Rightarrow> route_flags \<Rightarrow> gate_ops \<Rightarrow> kernels \<Rightarrow> routed option \<Rightarrow> (gate_call \<Rightarrow> nat option \<Rightarrow> 32 word list list) \<Rightarrow>
   (dispatch_info option \<Rightarrow> rat list list \<times> rat list option \<Rightarrow> rat list list \<times> rat list option) \<Rightarrow> post_env \<Rightarrow>
   bool \<Rightarrow> hook_ops \<Rightarrow> dtype \<Rightarrow> topk_config \<Rightarrow> nat \<Rightarrow> nat \<Rightarrow> rat list list \<Rightarrow> nat option \<Rightarrow> nat option \<Rightarrow>
   dispatch_info option \<Rightarrow> pool_state \<Rightarrow> (pool_state \<times> topk_output \<times> route_log) result" where
  "select_experts pl fl ops kern fq kpack transform pe capturing hops dt cfg E n_hidden logits0 lid np disp st =
     (let (logits1, bias) = transform disp (logits0, correction_bias cfg);
          cp = (if lid = None then None else is_managed_config st (cfg_id cfg))
      in res_bind (case cp of None \<Rightarrow> Inr (st, logits1, None)
                   | Some l \<Rightarrow> apply_keep_mask capturing st (Some l) E dt logits1) (\<lambda>(st1, logits, pre).
         res_bind (route_gate pl fl ops kern fq cfg E n_hidden logits bias np disp) (\<lambda>(r0, packs).
         res_bind (simulate_routing fl ops lid E r0) (\<lambda>(ws, ids).
         res_bind (post_process_topk_ids pl pe cfg E lid np disp ids ws) (\<lambda>(ids1, ws1, recd).
         res_bind (pool_after capturing hops st1 cp pre recd ids1) (\<lambda>(st2, ids2).
         let packed = (if packs then Some (kpack (call_of logits None (top_k cfg) Softmax (tc_renormalize cfg)) np) else None);
             packed' = (case cp of None \<Rightarrow> packed | Some l \<Rightarrow> map_option (remap_packed_ids st2 (Some l)) packed)
         in Inr (st2, \<lparr>out_weights = ws1, out_ids = ids2, out_logits = logits, out_packed = packed'\<rparr>,
                 \<lparr>captured = capture_routed_experts_if_allowed cfg lid ids, recorded = recd\<rparr>)))))))"

text \<open>
  \<^verbatim>\<open>precomputed_topk_postprocess_is_noop\<close> and \<^verbatim>\<open>build_precomputed_topk_output\<close>: the route of a
  router that computes weights and ids itself.
\<close>

definition precomputed_is_noop ::
  "platform \<Rightarrow> route_flags \<Rightarrow> topk_config \<Rightarrow> nat option \<Rightarrow> dispatch_info option \<Rightarrow> bool" where
  "precomputed_is_noop pl fl cfg np disp \<longleftrightarrow>
     is_cuda pl \<and> num_fused_shared_experts cfg = 0 \<and> np = None \<and> disp = None \<and> \<not> f_uniform fl \<and> \<not> f_round_robin fl"

definition build_precomputed_topk_output ::
  "rat list list \<Rightarrow> int list list \<Rightarrow> topk_config \<Rightarrow> nat option \<Rightarrow> topk_output \<times> route_log" where
  "build_precomputed_topk_output ws ids cfg lid =
     (\<lparr>out_weights = ws, out_ids = ids, out_logits = [], out_packed = None\<rparr>,
      \<lparr>captured = capture_routed_experts_if_allowed cfg lid ids, recorded = ids\<rparr>)"

text \<open>The output format of \<^verbatim>\<open>TopK.forward_cuda\<close>; the backends are flags.\<close>

definition cuda_format :: "topk_config \<Rightarrow> bool \<Rightarrow> bool \<Rightarrow> bool \<Rightarrow> bool \<Rightarrow> bool \<Rightarrow> bool \<Rightarrow> topk_format" where
  "cuda_format cfg triton exp_trtllm enable_lora trtllm mxfp4 fp4_experts =
     (case output_format cfg of
        Some f \<Rightarrow> f
      | None \<Rightarrow>
          if triton then TRITON_KERNEL
          else if exp_trtllm then (if enable_lora then STANDARD else BYPASSED)
          else if trtllm \<or> (mxfp4 \<and> \<not> fp4_experts) then BYPASSED
          else STANDARD)"

text \<open>
  \<^verbatim>\<open>TopK.__init__\<close>: with the waterfill balancer the shared experts leave the routed top-k. The top-k
  counts the shared experts, so the subtraction is exact.
\<close>

definition init_config :: "bool \<Rightarrow> topk_config \<Rightarrow> topk_config result" where
  "init_config waterfill c =
     (if use_grouped_topk c \<and> (num_expert_group c = None \<or> topk_group c = None) then Inl AssertionError
      else if 0 < num_fused_shared_experts c \<and> waterfill then
        Inr (c\<lparr>top_k := top_k c - num_fused_shared_experts c, num_fused_shared_experts := 0,
               output_format := Some STANDARD\<rparr>)
      else Inr c)"

definition empty_topk_shape :: "post_env \<Rightarrow> topk_config \<Rightarrow> nat \<times> nat" where
  "empty_topk_shape pe c =
     (0, (top_k c - num_fused_shared_experts c) + (if pe_per_rank pe then num_fused_shared_experts c else 0))"

end
