(* ===== verification/Topk_Props.thy ===== *)
theory Topk_Props
  imports Topk_Select
begin

text \<open>
  What leaves \<^verbatim>\<open>select_experts\<close>: padded rows are marked, the shared slots of the ranks do not
  collide, and with the cold pool in the loop every token is routed to the best resident experts and
  computed with their own weights.
\<close>

section \<open>The shared-slot layout\<close>

lemma routed_slot_fields:
  assumes L: "0 < L" and e: "0 \<le> e"
  shows "routed_slot L e div int (L + 1) = e div int L" and "routed_slot L e mod int (L + 1) = e mod int L"
    and "0 \<le> routed_slot L e"
proof -
  let ?q = "e div int L" and ?r = "e mod int L"
  have d: "routed_slot L e = ?q * int (L + 1) + ?r"
    by (simp add: routed_slot_def algebra_simps)
  have "?r < int L" using L by simp
  then have "?r < int (L + 1)" by linarith
  moreover have "0 \<le> ?r" using L by simp
  ultimately have r: "0 \<le> ?r" "?r < int (L + 1)" by simp_all
  show "routed_slot L e div int (L + 1) = ?q" "routed_slot L e mod int (L + 1) = ?r"
    unfolding d using r by simp_all
  show "0 \<le> routed_slot L e" using e L by (simp add: routed_slot_def pos_imp_zdiv_nonneg_iff)
qed

lemma remap_shared_run:
  assumes run: "remap_topk_for_per_rank_shared_slots pl pe ids ws n nphys rsf = Inr (ids', ws')" and ne: "ids \<noteq> []"
  shows "length ids' = length ids \<and> (\<forall>t<length ids. n \<le> length (ids ! t) \<and>
    ids' ! t = map (routed_slot (nphys div pe_ep_size pe)) (take (length (ids ! t) - n) (ids ! t)) @
      map (shared_slot (pe_ep_rank pe) (nphys div pe_ep_size pe) n) [0..<n])"
proof -
  have g: "\<forall>row\<in>set ids. n \<le> length row" using run ne
    by (auto simp: remap_topk_for_per_rank_shared_slots_def not_less split: if_splits)
  have "ids' = map (\<lambda>row. map (routed_slot (nphys div pe_ep_size pe)) (take (length row - n) row) @
                       map (shared_slot (pe_ep_rank pe) (nphys div pe_ep_size pe) n) [0..<n]) ids"
    using run ne by (auto simp: remap_topk_for_per_rank_shared_slots_def Let_def split: if_splits)
  then show ?thesis using g by simp
qed

text \<open>
  with one shared expert the ids after the remap are a layout of one block of \<open>L + 1\<close> slots per
  rank: a routed expert stays on the rank that owns it, at its place in the block, the last column
  is the shared slot, the last of the block, of this rank, and no routed expert is sent to the
  shared slot of any rank.
\<close>

theorem shared_slot_layout:
  assumes run: "remap_topk_for_per_rank_shared_slots pl pe ids ws 1 nphys rsf = Inr (ids', ws')"
    and L: "L = nphys div pe_ep_size pe" "0 < L" and t: "t < length ids"
    and pos: "\<forall>e\<in>set (butlast (ids ! t)). 0 \<le> e"
  shows "length (ids' ! t) = length (ids ! t) \<and>
    (\<forall>c<length (ids ! t) - 1. ids' ! t ! c div int (L + 1) = ids ! t ! c div int L \<and>
       ids' ! t ! c mod int (L + 1) = ids ! t ! c mod int L \<and>
       (\<forall>rank. ids' ! t ! c \<noteq> shared_slot rank L 1 0)) \<and>
    last (ids' ! t) div int (L + 1) = int (pe_ep_rank pe) \<and> last (ids' ! t) mod int (L + 1) = int L"
proof -
  have ne: "ids \<noteq> []" using t by auto
  note R = remap_shared_run[OF run ne]
  let ?row = "ids ! t" and ?n = "length (ids ! t)"
  have e: "ids' ! t = map (routed_slot L) (take (?n - 1) ?row) @ [shared_slot (pe_ep_rank pe) L 1 0]"
    and n: "1 \<le> ?n" using R t L(1) by auto
  have sh: "shared_slot rank L 1 0 div int (L + 1) = int rank \<and> shared_slot rank L 1 0 mod int (L + 1) = int L" for rank
  proof -
    have "shared_slot rank L 1 0 = int rank * int (L + 1) + int L" by (simp add: shared_slot_def algebra_simps)
    then show ?thesis by simp
  qed
  have "ids' ! t ! c div int (L + 1) = ?row ! c div int L \<and> ids' ! t ! c mod int (L + 1) = ?row ! c mod int L \<and>
      (\<forall>rank. ids' ! t ! c \<noteq> shared_slot rank L 1 0)" if c: "c < ?n - 1" for c
  proof -
    have v: "ids' ! t ! c = routed_slot L (?row ! c)" using c by (simp add: e nth_append)
    have "butlast ?row ! c = ?row ! c" "c < length (butlast ?row)" using c by (simp_all add: nth_butlast)
    then have p: "0 \<le> ?row ! c" using pos by (metis nth_mem)
    note F = routed_slot_fields[OF L(2) p]
    have "?row ! c mod int L < int L" using L(2) by simp
    then show ?thesis using F(1,2) sh unfolding v by (metis less_irrefl)
  qed
  then show ?thesis using sh n by (simp add: e)
qed

text \<open>
  with two shared experts the layout collides: the gap that the remap leaves per rank is one
  slot, but a block has two shared slots. The first routed expert of rank 1 gets the id of the second
  shared expert of rank 0.
\<close>

theorem two_shared_slots_collide:
  assumes "0 < L" and "pe_ep_size pe = 2" and "pe_ep_rank pe = 0"
  shows "\<exists>ws'. remap_topk_for_per_rank_shared_slots pl pe [[int L, x, y]] ws 2 (2 * L) rsf =
    Inr ([[int L + 1, int L, int L + 1]], ws')"
proof -
  have u: "[0..<2] = [0, 1 :: nat]" by (simp add: upt_conv_Cons)
  have r: "routed_slot L (int L) = int L + 1" using assms(1) by (simp add: routed_slot_def)
  show ?thesis using assms
    by (auto simp: remap_topk_for_per_rank_shared_slots_def Let_def shared_slot_def u r)
qed

section \<open>Padded rows\<close>

text \<open>The masking kernels do what the indexed store of the fallback does.\<close>

definition mask_kernels_ok :: "post_env \<Rightarrow> bool" where
  "mask_kernels_ok pe \<longleftrightarrow> (\<forall>ids n. pe_mask_ids pe ids n = fill_rows ids n (-1)) \<and>
     (\<forall>ids n v. pe_fill_ids pe ids n v = fill_rows ids n v) \<and> (\<forall>ws n v. pe_fill_ws pe ws n v = fill_rows ws n v)"

lemma nth_fill_rows:
  "t < length rows \<Longrightarrow> fill_rows rows n v ! t = (if n \<le> t then map (\<lambda>_. v) (rows ! t) else rows ! t)"
  by (simp add: fill_rows_def nth_enumerate_eq)

lemma length_fill_rows [simp]: "length (fill_rows rows n v) = length rows"
  by (simp add: fill_rows_def)

lemma mask_ids_eq:
  "mask_kernels_ok pe \<Longrightarrow> \<not> is_npu pl \<Longrightarrow> mask_topk_ids_padded_region pl pe ids (Some n) v = fill_rows ids n v"
  by (auto simp: mask_topk_ids_padded_region_def mask_kernels_ok_def)

lemma zero_ws_eq: "mask_kernels_ok pe \<Longrightarrow> zero_topk_weights_padded_region pe ws (Some n) = fill_rows ws n 0"
  by (auto simp: zero_topk_weights_padded_region_def mask_kernels_ok_def)

text \<open>
  after the post-processing no padded token is routed. On CUDA every id of a padded row is
  \<open>-1\<close>, also after the map from logical to physical experts, and real rows keep their mapped ids; on
  HIP the ids of a padded row are a valid expert, and its weights are zero, also the ones that a
  shared expert brought in.
\<close>

theorem padded_rows_not_routed:
  assumes mk: "mask_kernels_ok pe" and npu: "\<not> is_npu pl"
    and l2p: "\<And>d p xs. length (pe_l2p pe d p xs) = length xs"
    and run: "post_process_topk_ids pl pe cfg E lid (Some n) disp ids ws = Inr (ids', ws', recd)"
  shows "(is_cuda pl \<and> \<not> pe_per_rank pe \<and> num_fused_shared_experts cfg = 0 \<longrightarrow>
       length ids' = length ids \<and> recd = ids' \<and>
       (\<forall>t<length ids. n \<le> t \<longrightarrow> (\<forall>x\<in>set (ids' ! t). x = -1)) \<and>
       (disp = None \<longrightarrow> (\<forall>t<length ids. t < n \<longrightarrow> ids' ! t = pe_l2p pe None None ids ! t))) \<and>
     (\<not> is_cuda pl \<and> is_hip pl \<longrightarrow>
       (\<not> pe_skip_hip_mask pe \<longrightarrow> (\<forall>t<length ws'. n \<le> t \<longrightarrow> (\<forall>x\<in>set (ws' ! t). x = 0))) \<and>
       (\<not> pe_eplb pe \<and> \<not> pe_per_rank pe \<and> \<not> use_aiter pl \<longrightarrow>
          (\<forall>t<length ids. n \<le> t \<longrightarrow> (\<forall>x\<in>set (ids' ! t). x = 0))))"
proof (intro conjI impI)
  assume c: "is_cuda pl \<and> \<not> pe_per_rank pe \<and> num_fused_shared_experts cfg = 0"
  define prob where "prob = (case disp of None \<Rightarrow> None | Some d \<Rightarrow> if is_lp d then pe_lp pe lid ids else None)"
  have prob: "cuda_ids pl pe 0 lid (Some n) disp ids = (fill_rows (pe_l2p pe disp prob ids) n (-1), None)"
      "disp = None \<longrightarrow> prob = None"
    using c unfolding cuda_ids_def prob_def[symmetric] Let_def biased_grouped_topk_postprocess_def mask_ids_eq[OF mk npu]
    by (cases prob) (auto simp: prob_def)
  have r: "ids' = fill_rows (pe_l2p pe disp prob ids) n (-1)" "recd = ids'"
    using run c prob(1) by (auto simp: post_process_topk_ids_def append_shared_def)
  show "length ids' = length ids" "recd = ids'" using r l2p by simp_all
  show "\<forall>t<length ids. n \<le> t \<longrightarrow> (\<forall>x\<in>set (ids' ! t). x = -1)"
    using l2p by (auto simp: r(1) nth_fill_rows)
  assume "disp = None"
  then show "\<forall>t<length ids. t < n \<longrightarrow> ids' ! t = pe_l2p pe None None ids ! t"
    using l2p prob(2) by (auto simp: r(1) nth_fill_rows)
next
  assume h: "\<not> is_cuda pl \<and> is_hip pl"
  {
    assume "\<not> pe_skip_hip_mask pe"
    then obtain ws2 where "ws' = fill_rows ws2 n 0"
      using run h zero_ws_eq[OF mk] by (auto simp: post_process_topk_ids_def res_bind_Inr_iff)
    then show "\<forall>t<length ws'. n \<le> t \<longrightarrow> (\<forall>x\<in>set (ws' ! t). x = 0)" by (auto simp: nth_fill_rows)
  next
    assume e: "\<not> pe_eplb pe \<and> \<not> pe_per_rank pe \<and> \<not> use_aiter pl"
    then have "ids' = fill_rows ids n 0"
      using run h mask_ids_eq[OF mk npu] by (auto simp: post_process_topk_ids_def append_shared_def hip_ids_def)
    then show "\<forall>t<length ids. n \<le> t \<longrightarrow> (\<forall>x\<in>set (ids' ! t). x = 0)" by (auto simp: nth_fill_rows)
  }
qed

section \<open>Routing through the cold pool\<close>

definition residents :: "layer_pool \<Rightarrow> nat set" where
  "residents p = {g. g < num_E p \<and> unmasked_in p g}"

text \<open>A gate that selects by the logits, as every gate with a strictly monotone score does.\<close>

definition selects_by_logits :: "(rat list list \<Rightarrow> (routed \<times> bool) result) \<Rightarrow> nat \<Rightarrow> bool" where
  "selects_by_logits route k \<longleftrightarrow> (\<forall>lg ws ids b. route lg = Inr ((ws, ids), b) \<longrightarrow>
     length ids = length lg \<and> (\<forall>t<length lg. best_ids (lg ! t) k (ids ! t)))"

lemma selects_by_logitsD:
  assumes "selects_by_logits route k" and "route lg = Inr ((ws, ids), b)"
  shows "length ids = length lg" and "t < length lg \<Longrightarrow> best_ids (lg ! t) k (ids ! t)"
  using assms unfolding selects_by_logits_def by blast+

text \<open>A best selection of the masked logits is a best selection of the resident experts.\<close>

lemma best_resident:
  assumes b: "best_ids out k ids" and len: "length out = E" "length lg = E"
    and A: "A \<subseteq> {..<E}" "k \<le> card A"
    and masked: "\<And>g. g < E \<Longrightarrow> out ! g = (if g \<in> A then lg ! g else lg ! g + m)"
    and bound: "\<And>x. x \<in> set lg \<Longrightarrow> 2 * \<bar>x\<bar> < - m"
  shows "best_among lg k A ids"
proof -
  have bk: "best_k out k (map nat ids)" and nn: "\<forall>i\<in>set ids. 0 \<le> i" using b by (auto simp: best_ids_def)
  have lt: "out ! h < out ! g" if gh: "g \<in> A" "h < E" "h \<notin> A" for g h
  proof -
    have "g < E" using A(1) gh(1) by auto
    then have "2 * \<bar>lg ! g\<bar> < - m" "2 * \<bar>lg ! h\<bar> < - m" using bound gh(2) len(2) by simp_all
    then show ?thesis using masked[OF \<open>g < E\<close>] masked[OF gh(2)] gh(1,3) by simp
  qed
  have sub: "set (map nat ids) \<subseteq> A"
    by (rule best_k_inside[OF bk]) (use A len(1) lt in auto)
  have "lg ! j \<le> lg ! nat i" if i: "i \<in> set ids" and j: "j \<in> A" "int j \<notin> set ids" for i j
  proof -
    have "j \<notin> set (map nat ids)" using j(2) nn by (auto simp: nat_eq_iff)
    moreover have "j < length out" using A(1) j(1) len(1) by auto
    moreover have "nat i \<in> set (map nat ids)" using i by simp
    ultimately have "out ! j \<le> out ! nat i" using best_kD(4)[OF bk] by blast
    moreover have "nat i \<in> A" using sub i by auto
    moreover have "j < E" "nat i < E" using A(1) j(1) calculation(2) by auto
    ultimately show ?thesis using masked j(1) by simp
  qed
  moreover have "distinct ids" using best_kD(2)[OF bk] by (simp add: distinct_map)
  moreover have "\<forall>i\<in>set ids. 0 \<le> i \<and> nat i \<in> A" using sub nn by auto
  ultimately show ?thesis using best_kD(1)[OF bk] by (simp add: best_among_def)
qed

lemma resident_row:
  assumes ok: "layer_ok names orig st p" and g: "g \<in> residents p"
    and bias: "(layer_id p, BF16) \<in> dkeys (bias_cache st)"
    and tbl: "dget (remap_cache st) (layer_id p) = Some t"
  shows "t ! g < phys p \<and> row_holds (module_of p) names orig (t ! g) g"
proof -
  obtain c where c: "dget (bias_cache st) (layer_id p, BF16) = Some c" using bias by (auto simp: dkeys_dget)
  have t: "tables_ok st p" using ok by (simp add: layer_ok_def)
  have "g < num_E p" "c ! g = 0" using tables_ok_biasD(2)[OF t c] g by (auto simp: residents_def)
  then show ?thesis using layer_ok_routable[OF ok c _ _ tbl] by blast
qed

text \<open>
  One managed layer on CUDA, without expert relocation, shared experts, padding and simulated
  routing: what \<^verbatim>\<open>select_experts\<close> does step by step.
\<close>

definition plain_env :: "platform \<Rightarrow> route_flags \<Rightarrow> post_env \<Rightarrow> topk_config \<Rightarrow> bool" where
  "plain_env pl fl pe cfg \<longleftrightarrow> is_cuda pl \<and> \<not> is_hip pl \<and> \<not> f_uniform fl \<and> \<not> f_round_robin fl \<and> \<not> pe_per_rank pe \<and>
     num_fused_shared_experts cfg = 0 \<and> correction_bias cfg = None \<and> (\<forall>xs. pe_l2p pe None None xs = xs)"

lemma post_process_plain:
  assumes "plain_env pl fl pe cfg"
  shows "post_process_topk_ids pl pe cfg E lid None None ids ws = Inr (ids, ws, ids)"
  using assms by (simp add: plain_env_def post_process_topk_ids_def cuda_ids_def Let_def append_shared_def
      biased_grouped_topk_postprocess_def mask_topk_ids_padded_region_def)

lemma simulate_plain: "plain_env pl fl pe cfg \<Longrightarrow> simulate_routing fl ops lid E r = Inr r"
  by (cases r) (simp add: plain_env_def simulate_routing_def Let_def)

lemma select_managed_run:
  assumes env: "plain_env pl fl pe cfg" and tr: "\<And>x. transform None x = x"
    and man: "is_managed_config st (cfg_id cfg) = Some lid" and l0: "l0 \<noteq> None"
    and mask: "apply_keep_mask capturing st (Some lid) E dt logits = Inr (st, out, Some logits)"
    and run: "select_experts pl fl ops kern fq kpack transform pe capturing hops dt cfg E n_hidden logits l0 None None st
       = Inr (st', res, lg)"
  obtains ws ids packs where "route_gate pl fl ops kern fq cfg E n_hidden out None None None = Inr ((ws, ids), packs)"
    "stash_demand capturing hops st (Some lid) logits ids (width_of ids) = Inr st'"
    "out_ids res = remap_topk_ids st' (Some lid) ids" "recorded lg = ids" "out_weights res = ws"
proof -
  have cb: "correction_bias cfg = None" using env by (simp add: plain_env_def)
  show thesis
    using run that l0
    by (auto simp: select_experts_def tr cb man mask res_bind_Inr_iff simulate_plain[OF env] post_process_plain[OF env]
        pool_after_def Let_def split: prod.splits)
qed

text \<open>
  C10: The router and the expert cold pool together, on the plain path only: a router that the pool
  manages, on CUDA and not HIP, without correction bias, fused shared experts, per-rank slots, simulated
  routing (uniform or round robin), expert relocation (no dispatch info, the identity from logical to
  physical ids) and padding; demotion of experts is off; the gate selects the \<open>k\<close> highest logits of each
  row (the torch-native gate with an order-preserving score does, \<open>native_selects_by_logits\<close>; grouped gates
  do not), at most as many as the kept experts; the logits are below half the mask in magnitude. In
  every state of the pool reached after the shrink, when \<^verbatim>\<open>select_experts\<close> succeeds, every token is routed to
  the \<open>k\<close> best experts among the resident ones by its unmasked logits, the recorder sees these global
  ids, and each id that goes to the kernels is a physical row that holds exactly the weights the expert
  had before the shrink.
\<close>

theorem routed_experts_read_own_weights:
  assumes shrink: "maybe_shrink_after_process cenv junk parents (fresh_pool (Some km)) ms = Inr (st1, ms1)"
    and sh: "shrunk st1" and ko: "kept_ok ms km" and off: "off_demotion cenv"
    and args: "\<And>xs. set (op_argsort_desc hops xs) \<subseteq> {..<length xs}"
    and reach: "pool_reach cenv hops st1 st"
    and m: "m \<in> set ms" "m_is_fused m" "m_layer_id m = Some lid"
    and layer: "dget (layers st) lid = Some p" and kpm: "keep_map st = Some km" "dget km lid = Some (keep p)"
    and env: "plain_env pl fl pe cfg" and tr: "\<And>x. transform None x = x"
    and man: "is_managed_config st (cfg_id cfg) = Some lid" and l0: "l0 \<noteq> None" and dt: "dt \<noteq> F64"
    and gate: "selects_by_logits (\<lambda>lg. route_gate pl fl ops kern fq cfg (num_E p) n_hidden lg None None None) k"
    and k: "k \<le> card (set (keep p))"
    and lg: "\<forall>row\<in>set logits. length row = num_E p \<and> (\<forall>x\<in>set row. 2 * \<bar>x\<bar> < - finfo_min dt)"
    and run: "select_experts pl fl ops kern fq kpack transform pe capturing hops dt cfg (num_E p) n_hidden logits l0 None None st
       = Inr (st', res, rlog)"
  shows "\<forall>t<length logits. best_among (logits ! t) k (residents p) (recorded rlog ! t) \<and>
    (\<forall>c<k. \<exists>r. out_ids res ! t ! c = int r \<and> r < phys p \<and>
       row_holds (module_of p) (moved_names m (num_rows m)) (orig_rows m) r (nat (recorded rlog ! t ! c)))"
proof -
  obtain names orig where o: "origins ms names orig" and ok: "state_ok names orig st"
    and s: "shrunk st" using reach_state_ok[OF shrink ko off args reach] sh by blast
  note P = state_okD[OF ok layer]
  have no: "names lid = moved_names m (num_rows m)" "orig lid = orig_rows m"
    using o m fused_lid_Some[OF m(2,3)] by (auto simp: origins_def)
  have w: "\<forall>row\<in>set logits. length row = num_E p" using lg by blast
  obtain out where out: "apply_keep_mask capturing st (Some lid) (num_E p) dt logits = Inr (st, out, Some logits)"
      "length out = length logits"
      "\<And>j g. j < length logits \<Longrightarrow> g < num_E p \<Longrightarrow> out ! j ! g = (if g \<in> residents p then logits ! j ! g else logits ! j ! g + finfo_min dt)"
      "\<And>j. j < length logits \<Longrightarrow> length (out ! j) = num_E p"
    using apply_keep_mask_ok[OF ok s layer dt kpm w, of capturing] by (auto simp: residents_def unmasked_in_def)
  obtain ws ids packs where R: "route_gate pl fl ops kern fq cfg (num_E p) n_hidden out None None None = Inr ((ws, ids), packs)"
      "stash_demand capturing hops st (Some lid) logits ids (width_of ids) = Inr st'"
      "out_ids res = remap_topk_ids st' (Some lid) ids" "recorded rlog = ids"
    by (rule select_managed_run[OF env tr man l0 out(1) run])
  note G = selects_by_logitsD[OF gate R(1)]
  have A: "residents p \<subseteq> {..<num_E p}" by (auto simp: residents_def)
  have "shape_ok p" using P(3) by (simp add: layer_ok_def)
  then have "set (keep p) \<subseteq> residents p" by (auto simp: shape_ok_def residents_def unmasked_in_def)
  then have kc: "k \<le> card (residents p)" using k card_mono[of "residents p" "set (keep p)"] A finite_subset by fastforce
  obtain tb where tb: "dget (remap_cache st) lid = Some tb" "length tb = num_E p"
    using P(1,3) by (auto simp: layer_ok_def tables_ok_def)
  have st': "remap_cache st' = remap_cache st" "shrunk st' = shrunk st" using stash_demand_frame[OF R(2)] by auto
  have remap: "out_ids res = map (map (remap_id tb)) ids"
    using R(3) st' s tb(1) by (simp add: remap_topk_ids_def remap_or_none_def)
  have best: "best_among (logits ! t) k (residents p) (ids ! t)" if t: "t < length logits" for t
  proof (rule best_resident[OF _ out(4)[OF t] _ A kc])
    show "best_ids (out ! t) k (ids ! t)" using G(2) t out(2) by simp
    show "length (logits ! t) = num_E p" using w t by simp
    show "\<And>g. g < num_E p \<Longrightarrow> out ! t ! g = (if g \<in> residents p then logits ! t ! g else logits ! t ! g + finfo_min dt)"
      by (rule out(3)[OF t])
    show "\<And>x. x \<in> set (logits ! t) \<Longrightarrow> 2 * \<bar>x\<bar> < - finfo_min dt" using lg nth_mem[OF t] by blast
  qed
  have "\<exists>r. out_ids res ! t ! c = int r \<and> r < phys p \<and>
       row_holds (module_of p) (moved_names m (num_rows m)) (orig_rows m) r (nat (ids ! t ! c))"
    if t: "t < length logits" and c: "c < k" for t c
  proof -
    note B = best[OF t, unfolded best_among_def]
    have "ids ! t ! c \<in> set (ids ! t)" using B c by simp
    then have g: "0 \<le> ids ! t ! c" "nat (ids ! t ! c) \<in> residents p" using B by blast+
    have "(layer_id p, BF16) \<in> dkeys (bias_cache st)" using P(1) P(4)[of BF16] by auto
    note W = resident_row[OF P(3) g(2) this, unfolded P(1), OF tb(1)]
    have "out_ids res ! t ! c = remap_id tb (ids ! t ! c)"
      using t c B G(1) out(2) by (simp add: remap)
    also have "\<dots> = int (tb ! nat (ids ! t ! c))"
      by (rule remap_id_in) (use g A tb(2) in \<open>auto simp: residents_def\<close>)
    finally show ?thesis using W unfolding no by blast
  qed
  then show ?thesis using best R(4) by blast
qed

section \<open>Gates that select by the logits\<close>

definition order_preserving :: "gate_ops \<Rightarrow> scoring \<Rightarrow> bool" where
  "order_preserving ops sc \<longleftrightarrow> (\<forall>row. length (g_score ops sc row) = length row \<and>
     (\<forall>i<length row. \<forall>j<length row. g_score ops sc row ! i \<le> g_score ops sc row ! j \<longrightarrow> row ! i \<le> row ! j))"

lemma order_preserving_best:
  assumes op: "order_preserving ops sc" and b: "best_ids (g_score ops sc row) k ids"
  shows "best_ids row k ids"
proof -
  have bk: "best_k (g_score ops sc row) k (map nat ids)" using b by (simp add: best_ids_def)
  have l: "length (g_score ops sc row) = length row"
    and mono: "\<And>i j. i < length row \<Longrightarrow> j < length row \<Longrightarrow> g_score ops sc row ! i \<le> g_score ops sc row ! j \<Longrightarrow> row ! i \<le> row ! j"
    using op unfolding order_preserving_def by blast+
  note D = best_kD[OF bk]
  have "row ! j \<le> row ! i" if "i \<in> set (map nat ids)" "j < length row" "j \<notin> set (map nat ids)" for i j
    using D(3)[OF that(1)] D(4)[OF that(1) _ that(3)] mono[of j i] that(2) l by simp
  then have "best_k row k (map nat ids)" using D(1,2,3) l by (auto simp: best_k_def)
  then show ?thesis using b by (simp add: best_ids_def)
qed

lemma native_selects_by_logits:
  assumes op: "topk_any (g_topk ops)" and ord: "order_preserving ops (scoring_func cfg)"
    and cfg: "torch_native cfg" "custom_routing_function cfg = None" "\<not> use_grouped_topk cfg" "top_k cfg = k"
    and pl: "\<not> is_cpu_amx pl" "\<not> use_aiter pl"
  shows "selects_by_logits (\<lambda>lg. route_gate pl fl ops kern fq cfg E n_hidden lg None None None) k"
  unfolding selects_by_logits_def
proof (intro allI impI)
  fix lg ws ids b
  let ?sc = "scoring_func cfg"
  assume "route_gate pl fl ops kern fq cfg E n_hidden lg None None None = Inr ((ws, ids), b)"
  then have run: "fused_topk_torch_native ops n_hidden lg k (tc_renormalize cfg) None ?sc = Inr (ws, ids)"
    using cfg pl by (auto simp: route_gate_def native_gate_def routed_k_def res_bind_Inr_iff split: if_splits)
  obtain rows where rows: "res_map (native_row ops k None) (map (g_score ops ?sc) lg) = Inr rows"
      "ids = map snd rows"
    using run by (auto simp: fused_topk_torch_native_def score_or_error_def res_bind_Inr_iff split: if_splits)
  note R = res_map_Inr[OF rows(1)]
  have "best_ids (lg ! t) k (ids ! t)" if t: "t < length lg" for t
  proof -
    let ?s = "g_score ops ?sc (lg ! t)"
    have r: "native_row ops k None ?s = Inr (rows ! t)" using R t by simp
    then have "k \<le> length ?s" by (auto simp: native_row_def py_topk_def split: if_splits)
    from native_row_best[OF op this, of None] r
    have "best_ids ?s k (snd (rows ! t))" by (auto simp: choice_scores_def)
    then show ?thesis using order_preserving_best[OF ord] R t rows(2) by simp
  qed
  then show "length ids = length lg \<and> (\<forall>t<length lg. best_ids (lg ! t) k (ids ! t))" using R rows(2) by simp
qed

section \<open>Concrete runs\<close>

definition ex_pe :: post_env where
  "ex_pe = \<lparr>pe_per_rank = False, pe_l2p = (\<lambda>_ _ ids. ids), pe_lp = (\<lambda>_ _. None), pe_int32 = True,
     pe_mask_ids = (\<lambda>ids n. fill_rows ids n (-1)), pe_fuse_ids = False, pe_fill_ids = fill_rows,
     pe_fuse_ws = False, pe_fill_ws = fill_rows, pe_eplb = False, pe_skip_hip_mask = False,
     pe_ep_size = 2, pe_ep_rank = 0, pe_append_remap = (\<lambda>ids ws n w b L. (ids, ws)),
     pe_append = (\<lambda>ids ws n w b. (ids, ws))\<rparr>"

definition ex_cfg :: topk_config where
  "ex_cfg = \<lparr>top_k = 1, use_grouped_topk = False, topk_group = None, num_expert_group = None,
     tc_renormalize = True, num_fused_shared_experts = 0, custom_routing_function = None,
     correction_bias = None, torch_native = True, routed_scaling_factor = None, apply_rsf_on_output = False,
     shared_scaling_factor = None, output_format = None, scoring_func = Softmax, allow_capture = True,
     cfg_id = Some 7\<rparr>"

definition ex_select :: "(pool_state \<times> topk_output \<times> route_log) result" where
  "ex_select = select_experts ex_cuda ex_flags ex_gate ex_kern None (\<lambda>_ _. []) (\<lambda>_ x. x) ex_pe False ex_ops BF16
     ex_cfg 3 1 [[1, 5, 2]] (Some 0) None None ex_st1"

lemma ex_score_strict: "x < y \<Longrightarrow> ex_score x < ex_score y"
proof -
  assume l: "x < y"
  have "x / (1 + \<bar>x\<bar>) < y / (1 + \<bar>y\<bar>)"
  proof -
    have "x * (1 + \<bar>y\<bar>) < y * (1 + \<bar>x\<bar>)"
    proof (cases "0 \<le> x")
      case True
      then show ?thesis using l by (simp add: algebra_simps)
    next
      case False
      show ?thesis
      proof (cases "0 \<le> y")
        case True
        have "x * \<bar>y\<bar> \<le> 0" using False True by (simp add: mult_nonpos_nonneg)
        moreover have "0 \<le> y * \<bar>x\<bar>" using True by simp
        ultimately show ?thesis using l by (simp add: algebra_simps)
      next
        case False
        then show ?thesis using l \<open>\<not> 0 \<le> x\<close> by (simp add: algebra_simps)
      qed
    qed
    then show ?thesis by (simp add: divide_simps add_pos_nonneg)
  qed
  then have "x / (1 + \<bar>x\<bar>) / 2 < y / (1 + \<bar>y\<bar>) / 2" by (rule divide_strict_right_mono) simp
  moreover have "ex_score z = 1 / 2 + z / (1 + \<bar>z\<bar>) / 2" for z
    by (simp add: ex_score_def mult.commute)
  ultimately show ?thesis by simp
qed

lemma ex_order: "order_preserving ex_gate sc"
  using ex_score_strict unfolding order_preserving_def ex_gate_def
  by (auto simp: not_less[symmetric])

theorem routed_experts_read_own_weights_witness:
  "\<exists>st' res rlog. ex_select = Inr (st', res, rlog) \<and> (\<exists>p. dget (layers ex_st1) 0 = Some p \<and>
     best_among [1, 5, 2] 1 (residents p) (recorded rlog ! 0) \<and>
     (\<exists>r. out_ids res ! 0 ! 0 = int r \<and> row_holds (module_of p) (moved_names ex_module (num_rows ex_module))
        (orig_rows ex_module) r (nat (recorded rlog ! 0 ! 0))))"
proof -
  obtain ms where sh: "ex_shrink = Inr (ex_st1, ms)" using ex_shrink_Inr by blast
  have "dget (layers ex_st1) 0 \<noteq> None" by code_simp
  then obtain p where p: "dget (layers ex_st1) 0 = Some p" by blast
  have f: "map_option num_E (dget (layers ex_st1) 0) = Some 3"
    "map_option keep (dget (layers ex_st1) 0) = Some [0, 2]"
    "keep_map ex_st1 = Some ex_km" "is_managed_config ex_st1 (Some 7) = Some 0" by code_simp+
  have k: "dget ex_km 0 = Some (keep p)" "num_E p = 3" using f(1,2) p by (simp_all add: ex_km_def)
  have ok: "is_ok ex_select" by code_simp
  obtain st' res rlog where run: "ex_select = Inr (st', res, rlog)" using ok_or_eq[OF ok] by (metis surj_pair)
  have env: "plain_env ex_cuda ex_flags ex_pe ex_cfg"
    by (simp add: plain_env_def ex_cuda_def ex_flags_def ex_pe_def ex_cfg_def)
  have gate: "selects_by_logits (\<lambda>lg. route_gate ex_cuda ex_flags ex_gate ex_kern None ex_cfg (num_E p) 1 lg None None None) 1"
    by (rule native_selects_by_logits[OF ex_gate_laws(2) ex_order]) (simp_all add: ex_cfg_def ex_cuda_def)
  have "is_managed_config ex_st1 (cfg_id ex_cfg) = Some 0" using f(4) by (simp add: ex_cfg_def)
  note man = this
  have fm: "10 < - finfo_min BF16" by code_simp
  have m: "ex_module \<in> set [ex_module]" "m_is_fused ex_module" "m_layer_id ex_module = Some 0"
    by (simp_all add: ex_module_def)
  have "1 \<le> card (set (keep p))" using f(2) p by simp
  from routed_experts_read_own_weights[OF sh[unfolded ex_shrink_def] ex_shrunk ex_kept_ok ex_off ex_argsort
      reach_refl m p f(3) k(1) env refl man _ _ gate this, of "Some 0" BF16 "[[1, 5, 2]]" "\<lambda>_ _. []" False]
    run[unfolded ex_select_def] fm k(2)
  have "best_among [1, 5, 2] 1 (residents p) (recorded rlog ! 0) \<and>
      (\<exists>r. out_ids res ! 0 ! 0 = int r \<and> r < phys p \<and> row_holds (module_of p) (moved_names ex_module (num_rows ex_module))
        (orig_rows ex_module) r (nat (recorded rlog ! 0 ! 0)))" by (simp add: ex_select_def)
  then show ?thesis using run p by blast
qed

theorem shared_slot_layout_witness:
  "\<exists>ids' ws'. remap_topk_for_per_rank_shared_slots ex_cuda ex_pe [[5, 8]] [[1, 1]] 1 8 (Some 2) = Inr (ids', ws') \<and>
     ids' ! 0 ! 0 div 5 = 1 \<and> ids' ! 0 ! 0 mod 5 = 1 \<and> last (ids' ! 0) = 4"
proof -
  have r: "remap_topk_for_per_rank_shared_slots ex_cuda ex_pe [[5, 8]] [[1, 1]] 1 8 (Some 2) = Inr ([[6, 4]], [[1, 1 / 2]])"
    by code_simp
  have "(4 :: nat) = 8 div pe_ep_size ex_pe" by code_simp
  from shared_slot_layout[OF r this, of 0] r show ?thesis by simp
qed

theorem two_shared_slots_collide_witness:
  "\<exists>ws'. remap_topk_for_per_rank_shared_slots ex_cuda ex_pe [[int 3, 8, 8]] [] 2 (2 * 3) None =
    Inr ([[int 3 + 1, int 3, int 3 + 1]], ws')"
  by (rule two_shared_slots_collide) (simp_all add: ex_pe_def)

theorem padded_rows_not_routed_witness:
  "\<exists>ids' ws' recd. post_process_topk_ids ex_cuda ex_pe ex_cfg 3 (Some 0) (Some 1) None [[1], [2]] [[1], [1]] = Inr (ids', ws', recd) \<and>
     (\<forall>x\<in>set (ids' ! 1). x = -1) \<and> ids' ! 0 = [1]"
proof -
  have mk: "mask_kernels_ok ex_pe" by (simp add: mask_kernels_ok_def ex_pe_def)
  have l: "length (pe_l2p ex_pe d p xs) = length xs" for d p xs by (simp add: ex_pe_def)
  have r: "post_process_topk_ids ex_cuda ex_pe ex_cfg 3 (Some 0) (Some 1) None [[1], [2]] [[1], [1]]
      = Inr ([[1], [-1]], [[1], [1]], [[1], [-1]])" by code_simp
  have c: "is_cuda ex_cuda" "\<not> is_npu ex_cuda" "\<not> pe_per_rank ex_pe" "num_fused_shared_experts ex_cfg = 0"
    by (simp_all add: ex_cuda_def ex_pe_def ex_cfg_def)
  from padded_rows_not_routed[OF mk c(2) l r] c r show ?thesis by auto
qed

end
