(* ===== verification/Ple_Table.thy ===== *)
theory Ple_Table
  imports Prelude "HOL-Library.List_Lexorder" "HOL-Library.Char_ord"
begin

text \<open>
  The host table of the PLE embedding: the sidecar that seals a table file, the pages and the
  trimming of the mapping (\<^verbatim>\<open>runtime-src/qwen4_exp_ple_table.py\<close>), and the loading of the shards
  with the seal at its end (\<^verbatim>\<open>load_weights\<close> of \<^verbatim>\<open>runtime-src/qwen4_exp.py\<close>). A file is its
  content; the JSON text is the value it encodes.
\<close>

section \<open>The sidecar\<close>

datatype json = JNull | JInt int | JStr string | JList "json list" | JDict "(string \<times> json) list"

text \<open>\<^verbatim>\<open>tuple(v)\<close> of a decoded value, and whether its elements can be put in a set.\<close>

fun py_tuple :: "json \<Rightarrow> json list result" where
  "py_tuple (JList xs) = Inr xs"
| "py_tuple (JStr s) = Inr (map (\<lambda>c. JStr [c]) s)"
| "py_tuple (JDict d) = Inr (map (JStr \<circ> fst) d)"
| "py_tuple _ = Inl TypeError"

fun hashable :: "json \<Rightarrow> bool" where
  "hashable (JList _) = False"
| "hashable (JDict _) = False"
| "hashable _ = True"

type_synonym fingerprints = "(string \<times> int list) list"

text \<open>
  \<open>files\<close> is what \<^verbatim>\<open>glob\<close> finds, a base name with its five \<^verbatim>\<open>stat\<close> fields each.
\<close>

definition ple_fingerprint :: "(string \<times> int list) list \<Rightarrow> fingerprints" where
  "ple_fingerprint files = fold (\<lambda>(n, st) d. dset d n st) (sort_key fst files) []"

record table_id =
  ti_bytes :: int
  ti_shape :: "int list"
  ti_dtype :: string
  ti_sources :: fingerprints
  ti_model :: string

definition ple_sidecar_is_valid :: "json option \<Rightarrow> int option \<Rightarrow> table_id \<Rightarrow> bool result" where
  "ple_sidecar_is_valid sidecar table_size t =
     (case sidecar of None \<Rightarrow> Inr False
      | Some (JDict sc) \<Rightarrow>
          if dget sc ''table_bytes'' \<noteq> Some (JInt (ti_bytes t)) then Inr False
          else res_bind (py_tuple (case dget sc ''table_shape'' of Some v \<Rightarrow> v | None \<Rightarrow> JList [])) (\<lambda>shape.
          if shape \<noteq> map JInt (ti_shape t) then Inr False
          else if dget sc ''table_dtype'' \<noteq> Some (JStr (ti_dtype t)) then Inr False
          else if dget sc ''model_path'' \<noteq> Some (JStr (ti_model t)) then Inr False
          else if table_size \<noteq> Some (ti_bytes t) then Inr False
          else let recorded = (case dget sc ''sources'' of Some v \<Rightarrow> v | None \<Rightarrow> JDict [])
          in res_bind (py_tuple recorded) (\<lambda>names.
             if \<exists>v\<in>set names. \<not> hashable v then Inl TypeError
             else if set names \<noteq> (JStr \<circ> fst) ` set (ti_sources t) then Inr False
             else res_fold (\<lambda>ok (name, fp).
                    if \<not> ok then Inr False
                    else (case recorded of
                        JDict d \<Rightarrow> map_sum id (\<lambda>v. v = map JInt fp)
                          (py_tuple (case dget d name of Some v \<Rightarrow> v | None \<Rightarrow> JList []))
                      | _ \<Rightarrow> Inl AttributeError))
                  True (ti_sources t)))
      | Some _ \<Rightarrow> Inr False)"

definition ple_sidecar_write :: "table_id \<Rightarrow> string \<Rightarrow> json" where
  "ple_sidecar_write t sealed_at = JDict
     [(''version'', JInt 1), (''model_path'', JStr (ti_model t)), (''table_bytes'', JInt (ti_bytes t)),
      (''table_shape'', JList (map JInt (ti_shape t))), (''table_dtype'', JStr (ti_dtype t)),
      (''sources'', JDict (map (\<lambda>(k, v). (k, JList (map JInt v))) (ti_sources t))), (''sealed_at'', JStr sealed_at)]"

section \<open>Pages and trimming\<close>

text \<open>\<^verbatim>\<open>PAGE_SHIFT\<close> is 12; a right shift of a 64-bit row offset is a division that rounds down.\<close>

definition PAGE_SIZE :: int where "PAGE_SIZE = 2 ^ 12"

definition pages_for_rows :: "int list \<Rightarrow> int \<Rightarrow> int list" where
  "pages_for_rows ids row_bytes =
     sorted_list_of_set (set (map (\<lambda>r. r * row_bytes div PAGE_SIZE) ids @
       map (\<lambda>r. (r * row_bytes + (row_bytes - 1)) div PAGE_SIZE) ids))"

definition enqueue :: "nat \<Rightarrow> int \<Rightarrow> bool \<Rightarrow> int list \<Rightarrow> int \<Rightarrow> int option \<Rightarrow> int list option" where
  "enqueue min_rows row_bytes capturing ids vocab_start vocab_end =
     (if length ids < min_rows then None
      else if capturing then None
      else let kept = (case vocab_end of None \<Rightarrow> ids | Some e \<Rightarrow> filter (\<lambda>r. vocab_start \<le> r \<and> r < e) ids);
               rows = map (\<lambda>r. r - vocab_start) kept
           in if rows = [] then None else Some (pages_for_rows rows row_bytes))"

text \<open>
  One trim: the slices handed to \<^verbatim>\<open>madvise\<close>, in order, and the result. \<open>stops\<close> says before which
  slice the stop event is seen, \<open>advise\<close> whether a slice is accepted.
\<close>

function trim_chunks :: "(nat \<Rightarrow> bool) \<Rightarrow> (nat \<Rightarrow> nat \<Rightarrow> bool) \<Rightarrow> nat \<Rightarrow> nat \<Rightarrow> nat \<Rightarrow> (nat \<times> nat) list \<times> bool" where
  "trim_chunks stops advise chunk nbytes offset =
     (if nbytes \<le> offset \<or> chunk = 0 \<or> stops offset then ([], True)
      else let len = min chunk (nbytes - offset)
           in if \<not> advise offset len then ([(offset, len)], False)
              else let (done, ok) = trim_chunks stops advise chunk nbytes (offset + chunk) in ((offset, len) # done, ok))"
  by pat_completeness auto
termination by (relation "measure (\<lambda>(_, _, _, nbytes, offset). nbytes - offset)") auto

definition trim_once ::
  "(nat \<Rightarrow> bool) \<Rightarrow> (nat \<Rightarrow> nat \<Rightarrow> bool) \<Rightarrow> nat \<Rightarrow> nat \<Rightarrow> int \<Rightarrow> int option \<Rightarrow> int option \<Rightarrow> (int \<times> (nat \<times> nat) list) result" where
  "trim_once stops advise chunk nbytes budget before after =
     (case before of None \<Rightarrow> Inr (0, [])
      | Some b \<Rightarrow>
          if b \<le> budget then Inr (0, [])
          else if chunk = 0 then Inl ValueError
          else let (done, ok) = trim_chunks stops advise chunk nbytes 0
               in if \<not> ok then Inr (0, done)
                  else Inr (max (case after of Some a \<Rightarrow> b - a | None \<Rightarrow> 0) 0, done))"

text \<open>
  \<^verbatim>\<open>_mapping_rss_bytes\<close>: the lines of \<^verbatim>\<open>smaps\<close> after the regular expressions have read them.
\<close>

datatype smaps_line = Mapping nat nat | Rss nat | OtherLine

fun rss_of :: "nat \<Rightarrow> nat \<Rightarrow> bool \<Rightarrow> smaps_line list \<Rightarrow> nat" where
  "rss_of lo hi inside [] = 0"
| "rss_of lo hi inside (Mapping a b # ls) = rss_of lo hi (a < hi \<and> lo < b) ls"
| "rss_of lo hi inside (Rss k # ls) = (if inside then k * 1024 else 0) + rss_of lo hi inside ls"
| "rss_of lo hi inside (OtherLine # ls) = rss_of lo hi inside ls"

definition mapping_rss_bytes :: "nat \<Rightarrow> nat \<Rightarrow> smaps_line list option \<Rightarrow> nat option" where
  "mapping_rss_bytes addr nbytes smaps = map_option (rss_of addr (addr + nbytes) False) smaps"

section \<open>Names\<close>

fun digits_of :: "nat \<Rightarrow> string" where
  "digits_of n = (if n < 10 then [char_of (48 + n)] else digits_of (n div 10) @ [char_of (48 + n mod 10)])"

declare digits_of.simps [simp del]

definition path_join :: "string \<Rightarrow> string \<Rightarrow> string" where
  "path_join dir name = (if dir = '''' \<or> last dir = CHR ''/'' then dir @ name else dir @ ''/'' @ name)"

fun join_with :: "string \<Rightarrow> string list \<Rightarrow> string" where
  "join_with sep [] = ''''"
| "join_with sep [s] = s"
| "join_with sep (s # t # ss) = s @ sep @ join_with sep (t # ss)"

definition ple_table_file_name :: "nat list \<Rightarrow> string \<Rightarrow> nat \<Rightarrow> string option \<Rightarrow> string" where
  "ple_table_file_name shape dtype elem tag =
     ''ple_table_'' @ join_with ''x'' (map digits_of shape) @ ''_'' @ dtype @ ''_'' @
     digits_of (prod_list shape * elem) @ ''B'' @
     (case tag of None \<Rightarrow> '''' | Some t \<Rightarrow> if t = '''' then '''' else ''_'' @ t) @ ''.bin''"

definition ple_sidecar_path :: "string \<Rightarrow> string \<Rightarrow> string" where
  "ple_sidecar_path dir tag = path_join dir (tag @ ''.ple_table_sidecar.json'')"

text \<open>
  \<^verbatim>\<open>allocate_ple_host_table\<close>: the file is kept when its size is right and is else a new sparse file
  of zeros. Returns the path and the new content; pinned memory has no file.
\<close>

datatype backend = Pinned | File | OtherBackend

definition allocate_file :: "'c list option \<Rightarrow> nat \<Rightarrow> 'c \<Rightarrow> 'c list" where
  "allocate_file old nbytes zero =
     (case old of Some c \<Rightarrow> if length c = nbytes then c else replicate nbytes zero | None \<Rightarrow> replicate nbytes zero)"

definition allocate_ple_host_table ::
  "nat list \<Rightarrow> string \<Rightarrow> nat \<Rightarrow> backend \<Rightarrow> string \<Rightarrow> string option \<Rightarrow> (string \<Rightarrow> 'c list option) \<Rightarrow> 'c \<Rightarrow>
   ((string \<times> 'c list) option) result" where
  "allocate_ple_host_table shape dtype elem backend dir tag files zero =
     (case backend of OtherBackend \<Rightarrow> Inl ValueError
      | Pinned \<Rightarrow> Inr None
      | File \<Rightarrow> let path = path_join dir (ple_table_file_name shape dtype elem tag)
                in Inr (Some (path, allocate_file (files path) (prod_list shape * elem) zero)))"

definition check_file_backend_supported :: "bool \<Rightarrow> bool option \<Rightarrow> unit result" where
  "check_file_backend_supported skip supported =
     (if skip then Inr ()
      else case supported of None \<Rightarrow> Inl RuntimeError | Some False \<Rightarrow> Inl ValueError | Some True \<Rightarrow> Inr ())"

section \<open>Loading the shards\<close>

text \<open>
  The embedding of one rank: its rows, its window of the vocabulary, and the bookkeeping of the
  sidecar. Rows are converted to the storage type by \<open>conv\<close>.
\<close>

record 'r host_embedding =
  he_rows :: "'r list"
  he_fp8 :: bool
  he_start :: nat
  he_end :: nat
  he_vocab :: nat
  he_per_partition :: nat
  he_skip :: bool
  he_written :: nat
  he_sidecar :: "table_id option"

text \<open>A shard: its number, whether it is in fp8, and its rows.\<close>

record 'r ple_shard =
  sh_idx :: nat
  sh_fp8 :: bool
  sh_rows :: "'r list"

definition copy_ple_rows_to_tp_embedding ::
  "('r \<Rightarrow> 'r) \<Rightarrow> 'r host_embedding \<Rightarrow> 'r list \<Rightarrow> nat \<Rightarrow> nat \<Rightarrow> 'r host_embedding" where
  "copy_ple_rows_to_tp_embedding conv emb loaded row_start row_end =
     (let ov_start = max row_start (he_start emb); ov_end = min row_end (he_end emb)
      in if ov_start < ov_end then
           let local_start = ov_start - he_start emb; src_start = ov_start - row_start; n = ov_end - ov_start
           in emb\<lparr>he_rows := take local_start (he_rows emb) @ map conv (take n (drop src_start loaded)) @
                drop (local_start + n) (he_rows emb)\<rparr>
         else emb)"

definition shard_size :: "nat \<Rightarrow> 'r host_embedding \<Rightarrow> nat" where
  "shard_size parts emb = (he_vocab emb + parts - 1) div parts"

definition load_ple_shard ::
  "('r \<Rightarrow> 'r) \<Rightarrow> nat \<Rightarrow> 'r host_embedding \<Rightarrow> 'r ple_shard \<Rightarrow> 'r host_embedding result" where
  "load_ple_shard conv parts emb sh =
     (if he_skip emb then Inr emb
      else if sh_fp8 sh \<and> \<not> he_fp8 emb then Inl ValueError
      else if parts = 0 then Inl ZeroDivisionError
      else let start = sh_idx sh * shard_size parts emb; n = length (sh_rows sh);
               emb1 = copy_ple_rows_to_tp_embedding conv emb (sh_rows sh) start (start + n)
           in Inr (emb1\<lparr>he_written := he_written emb1 + n\<rparr>))"

definition load_shards ::
  "('r \<Rightarrow> 'r) \<Rightarrow> nat \<Rightarrow> 'r host_embedding \<Rightarrow> 'r ple_shard list \<Rightarrow> 'r host_embedding result" where
  "load_shards conv parts emb shs = res_fold (load_ple_shard conv parts) emb shs"

text \<open>
  The check of the wrapper at construction, and the seal at the end of the load: the sidecar that is
  written, if any. An error of the check leaves neither the skip nor a pending sidecar. The check
  needs a model path (\<open>named\<close>) and some source files.
\<close>

definition check_sidecar ::
  "'r host_embedding \<Rightarrow> bool \<Rightarrow> json option \<Rightarrow> int option \<Rightarrow> table_id \<Rightarrow> 'r host_embedding" where
  "check_sidecar emb named sidecar bytes t =
     (if \<not> named then emb
      else if ti_sources t = [] then emb\<lparr>he_sidecar := Some t\<rparr>
      else case ple_sidecar_is_valid sidecar bytes t of
             Inl _ \<Rightarrow> emb
           | Inr ok \<Rightarrow> if ok then emb\<lparr>he_skip := True\<rparr> else emb\<lparr>he_sidecar := Some t\<rparr>)"

definition seal :: "'r host_embedding \<Rightarrow> bool \<Rightarrow> string \<Rightarrow> json option" where
  "seal emb msync_ok now =
     (case he_sidecar emb of None \<Rightarrow> None
      | Some t \<Rightarrow>
          if he_written emb < he_per_partition emb then None
          else if \<not> msync_ok then None
          else Some (ple_sidecar_write t now))"

text \<open>
  The lookup of the gather kernel: an id outside the window of the rank gives zeros.
\<close>

definition gather_row :: "'r \<Rightarrow> 'r host_embedding \<Rightarrow> nat \<Rightarrow> 'r" where
  "gather_row zeros emb g =
     (let inside = (he_start emb \<le> g \<and> g < he_end emb); l = (if inside then g - he_start emb else 0)
      in if inside then he_rows emb ! l else zeros)"

section \<open>Facts about the sidecar\<close>

lemma distinct_fingerprint: "distinct (map fst (ple_fingerprint files))"
proof -
  have "distinct (map fst d) \<Longrightarrow> distinct (map fst (fold (\<lambda>(n, st) d. dset d n st) xs d))" for xs :: "(string \<times> int list) list" and d
    by (induction xs arbitrary: d) (auto simp: distinct_update)
  then show ?thesis by (simp add: ple_fingerprint_def)
qed

lemma dkeys_fingerprint: "dkeys (ple_fingerprint files) = fst ` set files"
proof -
  have "dkeys (fold (\<lambda>(n, st) d. dset d n st) xs d) = dkeys d \<union> fst ` set xs" for xs :: "(string \<times> int list) list" and d
  proof (induction xs arbitrary: d)
    case Nil
    then show ?case by simp
  next
    case (Cons x xs)
    obtain n st where x: "x = (n, st)" by (cases x)
    show ?case unfolding x using Cons.IH[of "dset d n st"] by (simp add: dkeys_dset)
  qed
  then show ?thesis by (simp add: ple_fingerprint_def)
qed

lemma res_fold_all:
  "(\<And>x ok. x \<in> set xs \<Longrightarrow> f ok x = Inr (ok \<and> P x)) \<Longrightarrow> res_fold f b xs = Inr (b \<and> (\<forall>x\<in>set xs. P x))"
proof (induction xs arbitrary: b)
  case Nil
  then show ?case by simp
next
  case (Cons x xs)
  have "res_fold f (b \<and> P x) xs = Inr ((b \<and> P x) \<and> (\<forall>x\<in>set xs. P x))" by (rule Cons.IH) (use Cons.prems in simp)
  then show ?case using Cons.prems[of x b] by auto
qed

lemma map_JInt_eq [simp]: "map JInt xs = map JInt ys \<longleftrightarrow> xs = ys"
  by (simp add: inj_map_eq_map inj_on_def)

lemma same_dict:
  assumes "distinct (map fst (a :: fingerprints))" "distinct (map fst b)" "fst ` set a = fst ` set b"
  shows "(\<forall>(n, fp)\<in>set b. dget a n = Some fp) \<longleftrightarrow> set a = set b"
proof
  assume all: "\<forall>(n, fp)\<in>set b. dget a n = Some fp"
  have "set b \<subseteq> set a" using all by (auto dest: map_of_SomeD)
  moreover have "(n, v) \<in> set b" if "(n, v) \<in> set a" for n v
  proof -
    have "n \<in> fst ` set b" using that assms(3) by force
    then obtain fp where "(n, fp) \<in> set b" by auto
    then have "dget a n = Some fp" using all by auto
    moreover have "dget a n = Some v" using that assms(1) by simp
    ultimately show ?thesis using \<open>(n, fp) \<in> set b\<close> by simp
  qed
  ultimately show "set a = set b" by auto
next
  assume "set a = set b"
  then show "\<forall>(n, fp)\<in>set b. dget a n = Some fp" using assms(1) by auto
qed

lemma valid_of_written:
  assumes d: "distinct (map fst (ti_sources t))" "distinct (map fst (ti_sources t'))"
  shows "ple_sidecar_is_valid (Some (ple_sidecar_write t now)) bytes t' =
    Inr (bytes = Some (ti_bytes t') \<and> ti_bytes t = ti_bytes t' \<and> ti_shape t = ti_shape t' \<and>
      ti_dtype t = ti_dtype t' \<and> ti_model t = ti_model t' \<and> set (ti_sources t) = set (ti_sources t'))"
proof -
  let ?rec = "map (\<lambda>(k, v). (k, JList (map JInt v))) (ti_sources t)"
  have names: "map (JStr \<circ> fst) ?rec = map (JStr \<circ> fst) (ti_sources t)" by (simp add: comp_def case_prod_unfold)
  have keys: "(JStr \<circ> fst) ` set (ti_sources t) = (JStr \<circ> fst) ` set (ti_sources t') \<longleftrightarrow> fst ` set (ti_sources t) = fst ` set (ti_sources t')"
  proof -
    have "(JStr \<circ> fst) ` set d = JStr ` (fst ` set d)" for d :: fingerprints by (rule image_comp[symmetric])
    moreover have "inj JStr" by (simp add: inj_on_def)
    ultimately show ?thesis by (simp only: inj_image_eq_iff)
  qed
  have fold: "res_fold (\<lambda>ok (name, fp). if \<not> ok then Inr False
      else (case JDict ?rec of JDict d \<Rightarrow> map_sum id (\<lambda>v. v = map JInt fp) (py_tuple (case dget d name of Some v \<Rightarrow> v | None \<Rightarrow> JList []))
            | _ \<Rightarrow> Inl AttributeError)) True (ti_sources t') = Inr (set (ti_sources t) = set (ti_sources t'))"
    if k: "fst ` set (ti_sources t) = fst ` set (ti_sources t')"
  proof -
    have get: "dget ?rec n = map_option (\<lambda>v. JList (map JInt v)) (dget (ti_sources t) n)" for n
      by (simp add: dget_map_vals)
    have "(case dget ?rec n of Some v \<Rightarrow> v | None \<Rightarrow> JList []) = JList (map JInt fp') \<and> dget (ti_sources t) n = Some fp'"
      if "dget (ti_sources t) n = Some fp'" for n fp' using that get by simp
    moreover have "\<exists>fp'. dget (ti_sources t) n = Some fp'" if "(n, fp) \<in> set (ti_sources t')" for n fp
      using that k by (metis dkeysI dkeys_dget)
    ultimately have "res_fold (\<lambda>ok (name, fp). if \<not> ok then Inr False
      else (case JDict ?rec of JDict d \<Rightarrow> map_sum id (\<lambda>v. v = map JInt fp) (py_tuple (case dget d name of Some v \<Rightarrow> v | None \<Rightarrow> JList []))
            | _ \<Rightarrow> Inl AttributeError)) True (ti_sources t') = Inr (True \<and> (\<forall>x\<in>set (ti_sources t'). (\<lambda>(n, fp). dget (ti_sources t) n = Some fp) x))"
      by (intro res_fold_all) fastforce
    then show ?thesis using same_dict[OF d k] by simp
  qed
  show ?thesis
    using fold keys names by (auto simp: ple_sidecar_is_valid_def ple_sidecar_write_def)
qed

end
