(* ===== verification/Ple_Seal.thy ===== *)
theory Ple_Seal
  imports Ple_Table
begin

text \<open>
  Loading and sealing the PLE table: a sidecar is accepted exactly for the table it was written for,
  a sealed table that holds the whole vocabulary holds the checkpoint, and with a part of the
  vocabulary the seal can be written although no row of the part was loaded.
\<close>

section \<open>The sidecar\<close>

text \<open>
  C30: the round trip of the sidecar. What \<^verbatim>\<open>ple_sidecar_write\<close> wrote for one table and one set of
  source files is accepted for another exactly when the size of the file, the shape, the type, the
  model path and every recorded \<^verbatim>\<open>stat\<close> field agree.
\<close>

theorem sidecar_roundtrip:
  "ple_sidecar_is_valid (Some (ple_sidecar_write (t\<lparr>ti_sources := ple_fingerprint fs\<rparr>) now)) bytes
     (t'\<lparr>ti_sources := ple_fingerprint fs'\<rparr>) =
   Inr (bytes = Some (ti_bytes t') \<and> ti_bytes t = ti_bytes t' \<and> ti_shape t = ti_shape t' \<and>
     ti_dtype t = ti_dtype t' \<and> ti_model t = ti_model t' \<and> set (ple_fingerprint fs) = set (ple_fingerprint fs'))"
  using valid_of_written[of "t\<lparr>ti_sources := ple_fingerprint fs\<rparr>" "t'\<lparr>ti_sources := ple_fingerprint fs'\<rparr>" now bytes]
  by (simp add: distinct_fingerprint)

section \<open>Copying a shard\<close>

lemma copy_fields [simp]:
  "he_fp8 (copy_ple_rows_to_tp_embedding conv emb rows a b) = he_fp8 emb"
  "he_start (copy_ple_rows_to_tp_embedding conv emb rows a b) = he_start emb"
  "he_end (copy_ple_rows_to_tp_embedding conv emb rows a b) = he_end emb"
  "he_vocab (copy_ple_rows_to_tp_embedding conv emb rows a b) = he_vocab emb"
  "he_per_partition (copy_ple_rows_to_tp_embedding conv emb rows a b) = he_per_partition emb"
  "he_skip (copy_ple_rows_to_tp_embedding conv emb rows a b) = he_skip emb"
  "he_written (copy_ple_rows_to_tp_embedding conv emb rows a b) = he_written emb"
  "he_sidecar (copy_ple_rows_to_tp_embedding conv emb rows a b) = he_sidecar emb"
  by (simp_all add: copy_ple_rows_to_tp_embedding_def Let_def)

lemma copy_rows:
  assumes w: "he_end emb - he_start emb \<le> length (he_rows emb)" and b: "b = a + length rows"
  shows "length (he_rows (copy_ple_rows_to_tp_embedding conv emb rows a b)) = length (he_rows emb)"
    and "r < length (he_rows emb) \<Longrightarrow> he_rows (copy_ple_rows_to_tp_embedding conv emb rows a b) ! r =
      (if a \<le> he_start emb + r \<and> he_start emb + r < b \<and> he_start emb + r < he_end emb
       then conv (rows ! (he_start emb + r - a)) else he_rows emb ! r)"
proof -
  define s where "s = max a (he_start emb)"
  define e where "e = min b (he_end emb)"
  let ?R = "he_rows (copy_ple_rows_to_tp_embedding conv emb rows a b)"
  have "length ?R = length (he_rows emb) \<and> (r < length (he_rows emb) \<longrightarrow> ?R ! r =
      (if a \<le> he_start emb + r \<and> he_start emb + r < b \<and> he_start emb + r < he_end emb
       then conv (rows ! (he_start emb + r - a)) else he_rows emb ! r))"
  proof (cases "s < e")
    case True
    define l where "l = s - he_start emb"
    define n where "n = e - s"
    let ?mid = "map conv (take n (drop (s - a) rows))"
    have R: "?R = take l (he_rows emb) @ ?mid @ drop (l + n) (he_rows emb)"
      using True by (simp add: copy_ple_rows_to_tp_embedding_def Let_def s_def e_def l_def n_def)
    have ln: "l + n \<le> length (he_rows emb)" "s - a + n \<le> length rows"
      using w b True unfolding l_def n_def s_def e_def by linarith+
    have lm: "length ?mid = n" using ln by simp
    have iff: "a \<le> he_start emb + r \<and> he_start emb + r < b \<and> he_start emb + r < he_end emb \<longleftrightarrow> l \<le> r \<and> r < l + n"
      using True unfolding l_def n_def s_def e_def by linarith
    have mid: "?mid ! (r - l) = conv (rows ! (he_start emb + r - a))" if "l \<le> r" "r < l + n"
    proof -
      have "s - a + (r - l) = he_start emb + r - a" using that unfolding l_def s_def by linarith
      moreover have "r - l < n" using that by linarith
      ultimately show ?thesis using ln by simp
    qed
    show ?thesis
    proof (intro conjI impI)
      show "length ?R = length (he_rows emb)" unfolding R using ln lm by simp
      assume r: "r < length (he_rows emb)"
      show "?R ! r = (if a \<le> he_start emb + r \<and> he_start emb + r < b \<and> he_start emb + r < he_end emb
          then conv (rows ! (he_start emb + r - a)) else he_rows emb ! r)"
        unfolding iff R using mid lm ln r by (auto simp: nth_append)
    qed
  next
    case False
    then have "?R = he_rows emb"
      unfolding copy_ple_rows_to_tp_embedding_def Let_def s_def[symmetric] e_def[symmetric] by (simp only: if_False)
    moreover have "\<not> (a \<le> he_start emb + r \<and> he_start emb + r < b \<and> he_start emb + r < he_end emb)"
      using False unfolding s_def e_def by linarith
    ultimately show ?thesis by auto
  qed
  then show "length ?R = length (he_rows emb)" and "r < length (he_rows emb) \<Longrightarrow> ?R ! r =
      (if a \<le> he_start emb + r \<and> he_start emb + r < b \<and> he_start emb + r < he_end emb
       then conv (rows ! (he_start emb + r - a)) else he_rows emb ! r)" by blast+
qed

section \<open>Loading\<close>

text \<open>The vocabulary rows a shard covers.\<close>

definition shard_span :: "nat \<Rightarrow> 'r host_embedding \<Rightarrow> 'r ple_shard \<Rightarrow> nat set" where
  "shard_span parts emb sh = {sh_idx sh * shard_size parts emb..<sh_idx sh * shard_size parts emb + length (sh_rows sh)}"

text \<open>The shards carry the rows of the checkpoint \<open>ck\<close>.\<close>

definition shards_of :: "nat \<Rightarrow> 'r host_embedding \<Rightarrow> (nat \<Rightarrow> 'r) \<Rightarrow> 'r ple_shard list \<Rightarrow> bool" where
  "shards_of parts emb ck shs \<longleftrightarrow> 0 < parts \<and>
     (\<forall>sh\<in>set shs. (sh_fp8 sh \<longrightarrow> he_fp8 emb) \<and>
        (\<forall>k<length (sh_rows sh). sh_rows sh ! k = ck (sh_idx sh * shard_size parts emb + k)))"

text \<open>The part of the embedding that a load does not change.\<close>

definition same_layout :: "'r host_embedding \<Rightarrow> 'r host_embedding \<Rightarrow> bool" where
  "same_layout e e' \<longleftrightarrow> he_fp8 e' = he_fp8 e \<and> he_start e' = he_start e \<and> he_end e' = he_end e \<and> he_vocab e' = he_vocab e \<and>
     he_per_partition e' = he_per_partition e \<and> he_skip e' = he_skip e \<and> he_sidecar e' = he_sidecar e \<and>
     length (he_rows e') = length (he_rows e)"

lemma load_one:
  assumes w: "he_end emb - he_start emb \<le> length (he_rows emb)" and skip: "\<not> he_skip emb" and s: "shards_of parts emb ck [sh]"
  obtains e where "load_ple_shard conv parts emb sh = Inr e" "same_layout emb e" "he_written e = he_written emb + length (sh_rows sh)"
    "\<And>r. r < length (he_rows emb) \<Longrightarrow> he_rows e ! r =
      (if he_start emb + r \<in> shard_span parts emb sh \<and> he_start emb + r < he_end emb then conv (ck (he_start emb + r)) else he_rows emb ! r)"
proof -
  let ?start = "sh_idx sh * shard_size parts emb"
  let ?e = "copy_ple_rows_to_tp_embedding conv emb (sh_rows sh) ?start (?start + length (sh_rows sh))"
  have run: "load_ple_shard conv parts emb sh = Inr (?e\<lparr>he_written := he_written ?e + length (sh_rows sh)\<rparr>)"
    using skip s by (auto simp: load_ple_shard_def shards_of_def Let_def)
  note c = copy_rows[OF w refl, where a = ?start and rows = "sh_rows sh" and conv = conv]
  have "same_layout emb (?e\<lparr>he_written := he_written ?e + length (sh_rows sh)\<rparr>)" using c(1) by (simp add: same_layout_def)
  moreover have "he_rows ?e ! r = (if he_start emb + r \<in> shard_span parts emb sh \<and> he_start emb + r < he_end emb
      then conv (ck (he_start emb + r)) else he_rows emb ! r)" if "r < length (he_rows emb)" for r
  proof -
    have "sh_rows sh ! (he_start emb + r - ?start) = ck (he_start emb + r)" if "he_start emb + r \<in> shard_span parts emb sh"
    proof -
      have "he_start emb + r - ?start < length (sh_rows sh)" "?start + (he_start emb + r - ?start) = he_start emb + r"
        using that by (auto simp: shard_span_def)
      then show ?thesis using s by (fastforce simp: shards_of_def)
    qed
    then show ?thesis using c(2)[OF that] by (auto simp: shard_span_def)
  qed
  ultimately show thesis using that[OF run] by simp
qed

lemma load_all:
  assumes "he_end emb - he_start emb \<le> length (he_rows emb)" "\<not> he_skip emb" "shards_of parts emb ck shs"
  shows "\<exists>e. load_shards conv parts emb shs = Inr e \<and> same_layout emb e \<and>
    he_written e = he_written emb + sum_list (map (\<lambda>sh. length (sh_rows sh)) shs) \<and>
    (\<forall>r<length (he_rows emb). he_rows e ! r =
      (if (\<exists>sh\<in>set shs. he_start emb + r \<in> shard_span parts emb sh) \<and> he_start emb + r < he_end emb
       then conv (ck (he_start emb + r)) else he_rows emb ! r))"
  using assms
proof (induction shs arbitrary: emb)
  case Nil
  then show ?case by (simp add: load_shards_def same_layout_def)
next
  case (Cons sh shs)
  have s: "shards_of parts emb ck [sh]" using Cons.prems(3) by (simp add: shards_of_def)
  obtain e1 where e1: "load_ple_shard conv parts emb sh = Inr e1" "same_layout emb e1" "he_written e1 = he_written emb + length (sh_rows sh)"
    "\<And>r. r < length (he_rows emb) \<Longrightarrow> he_rows e1 ! r =
      (if he_start emb + r \<in> shard_span parts emb sh \<and> he_start emb + r < he_end emb then conv (ck (he_start emb + r)) else he_rows emb ! r)"
    using load_one[OF Cons.prems(1,2) s] by blast
  note L = e1(2)[unfolded same_layout_def]
  have sz: "shard_size parts e1 = shard_size parts emb" "shard_span parts e1 = shard_span parts emb"
    using L by (auto simp: shard_size_def shard_span_def fun_eq_iff)
  have "\<exists>e. load_shards conv parts e1 shs = Inr e \<and> same_layout e1 e \<and>
    he_written e = he_written e1 + sum_list (map (\<lambda>sh. length (sh_rows sh)) shs) \<and>
    (\<forall>r<length (he_rows e1). he_rows e ! r =
      (if (\<exists>sh\<in>set shs. he_start e1 + r \<in> shard_span parts e1 sh) \<and> he_start e1 + r < he_end e1
       then conv (ck (he_start e1 + r)) else he_rows e1 ! r))"
    by (rule Cons.IH) (use L Cons.prems sz in \<open>auto simp: shards_of_def\<close>)
  then obtain e where e: "load_shards conv parts e1 shs = Inr e" "same_layout e1 e"
    "he_written e = he_written e1 + sum_list (map (\<lambda>sh. length (sh_rows sh)) shs)"
    "\<forall>r<length (he_rows emb). he_rows e ! r =
      (if (\<exists>sh\<in>set shs. he_start emb + r \<in> shard_span parts emb sh) \<and> he_start emb + r < he_end emb
       then conv (ck (he_start emb + r)) else he_rows e1 ! r)" using L sz by auto
  have "load_shards conv parts emb (sh # shs) = Inr e" using e1(1) e(1) by (simp add: load_shards_def)
  moreover have "same_layout emb e" using e(2) L by (simp add: same_layout_def)
  moreover have "\<forall>r<length (he_rows emb). he_rows e ! r =
      (if (\<exists>s\<in>set (sh # shs). he_start emb + r \<in> shard_span parts emb s) \<and> he_start emb + r < he_end emb
       then conv (ck (he_start emb + r)) else he_rows emb ! r)" using e(4) e1(4) by auto
  ultimately show ?case using e(3) e1(3) by simp
qed

section \<open>Sealing\<close>

text \<open>Disjoint shards of the vocabulary whose sizes add up to it cover it.\<close>

lemma spans_cover:
  assumes d: "distinct (map sh_idx shs)" and sz: "\<forall>sh\<in>set shs. length (sh_rows sh) \<le> shard_size parts emb"
    and inV: "\<forall>sh\<in>set shs. shard_span parts emb sh \<subseteq> {..<V}"
    and enough: "V \<le> sum_list (map (\<lambda>sh. length (sh_rows sh)) shs)" and g: "g < V"
  shows "\<exists>sh\<in>set shs. g \<in> shard_span parts emb sh"
proof -
  have dis: "shard_span parts emb a \<inter> shard_span parts emb b = {}" if "a \<in> set shs" "b \<in> set shs" "sh_idx a < sh_idx b" for a b
  proof -
    have "Suc (sh_idx a) * shard_size parts emb \<le> sh_idx b * shard_size parts emb" using that(3) by (intro mult_right_mono) simp_all
    then have "sh_idx a * shard_size parts emb + length (sh_rows a) \<le> sh_idx b * shard_size parts emb"
      using bspec[OF sz that(1)] by simp
    then show ?thesis by (auto simp: shard_span_def)
  qed
  have "card (\<Union>sh\<in>set shs. shard_span parts emb sh) = (\<Sum>sh\<in>set shs. card (shard_span parts emb sh))"
  proof (rule card_UN_disjoint)
    show "\<forall>i\<in>set shs. \<forall>j\<in>set shs. i \<noteq> j \<longrightarrow> shard_span parts emb i \<inter> shard_span parts emb j = {}"
    proof (intro ballI impI)
      fix i j assume ij: "i \<in> set shs" "j \<in> set shs" "i \<noteq> j"
      then have "sh_idx i \<noteq> sh_idx j" using d by (auto simp: distinct_map inj_on_def)
      then show "shard_span parts emb i \<inter> shard_span parts emb j = {}"
        using dis[OF ij(1,2)] dis[OF ij(2,1)] by (auto simp: Int_commute neq_iff)
    qed
  qed (simp_all add: shard_span_def)
  also have "\<dots> = sum_list (map (\<lambda>sh. length (sh_rows sh)) shs)"
    using d by (simp add: shard_span_def sum_list_distinct_conv_sum_set distinct_map)
  finally have "V \<le> card (\<Union>sh\<in>set shs. shard_span parts emb sh)" using enough by simp
  moreover have sub: "(\<Union>sh\<in>set shs. shard_span parts emb sh) \<subseteq> {..<V}" using inV by blast
  ultimately have "(\<Union>sh\<in>set shs. shard_span parts emb sh) = {..<V}"
    using card_mono[OF _ sub] by (intro card_subset_eq) simp_all
  then show ?thesis using g by auto
qed


text \<open>
  C29: a sealed table holds the checkpoint. When the rank holds the whole vocabulary and the shards
  have distinct numbers, at most the shard size and stay inside the vocabulary, then a sidecar is
  written only if every row of the table is the converted row of the checkpoint; with shards that
  are all there and a successful sync it is written, for the table and sources of this load.
\<close>

theorem sealed_table_holds_checkpoint:
  assumes emb: "he_start emb = 0" "he_end emb = he_vocab emb" "length (he_rows emb) = he_per_partition emb"
      "he_vocab emb \<le> he_per_partition emb" "\<not> he_skip emb" "he_written emb = 0"
    and shs: "shards_of parts emb ck shs" "distinct (map sh_idx shs)"
      "\<forall>sh\<in>set shs. length (sh_rows sh) \<le> shard_size parts emb \<and> shard_span parts emb sh \<subseteq> {..<he_vocab emb}"
  shows "\<exists>e. load_shards conv parts emb shs = Inr e \<and>
    (seal e msync now \<noteq> None \<longrightarrow> (\<forall>g<he_vocab emb. gather_row zeros e g = conv (ck g))) \<and>
    (he_per_partition emb \<le> sum_list (map (\<lambda>sh. length (sh_rows sh)) shs) \<longrightarrow>
      seal e True now = map_option (\<lambda>t. ple_sidecar_write t now) (he_sidecar emb))"
proof -
  have w: "he_end emb - he_start emb \<le> length (he_rows emb)" using emb by simp
  obtain e where e: "load_shards conv parts emb shs = Inr e" "same_layout emb e"
    "he_written e = sum_list (map (\<lambda>sh. length (sh_rows sh)) shs)"
    "\<forall>r<length (he_rows emb). he_rows e ! r =
      (if (\<exists>sh\<in>set shs. r \<in> shard_span parts emb sh) \<and> r < he_vocab emb then conv (ck r) else he_rows emb ! r)"
    using load_all[OF w emb(5) shs(1), of conv] emb(1,2,6) by auto
  note L = e(2)[unfolded same_layout_def]
  have "gather_row zeros e g = conv (ck g)" if s: "seal e msync now \<noteq> None" and g: "g < he_vocab emb" for g
  proof -
    have "he_vocab emb \<le> sum_list (map (\<lambda>sh. length (sh_rows sh)) shs)"
      using s e(3) L emb(4) by (simp add: seal_def split: option.splits if_splits)
    then have "\<exists>sh\<in>set shs. g \<in> shard_span parts emb sh" using spans_cover[OF shs(2) _ _ _ g, of parts emb] shs(3) by blast
    then have "he_rows e ! g = conv (ck g)" using e(4) emb(3,4) g by simp
    then show ?thesis using L emb(1,2) g by (simp add: gather_row_def)
  qed
  moreover have "seal e True now = map_option (\<lambda>t. ple_sidecar_write t now) (he_sidecar emb)"
    if "he_per_partition emb \<le> sum_list (map (\<lambda>sh. length (sh_rows sh)) shs)"
    using that L e(3) by (simp add: seal_def split: option.split)
  ultimately show ?thesis using e(1) by blast
qed

definition demo_id :: table_id where
  "demo_id = \<lparr>ti_bytes = 5, ti_shape = [5, 1], ti_dtype = ''fp8'', ti_sources = [(''a'', [1, 2, 3, 4, 5])], ti_model = ''/m''\<rparr>"

definition demo_emb :: "nat \<Rightarrow> nat \<Rightarrow> int host_embedding" where
  "demo_emb a b = \<lparr>he_rows = replicate (b - a) 0, he_fp8 = True, he_start = a, he_end = b, he_vocab = 5, he_per_partition = b - a,
     he_skip = False, he_written = 0, he_sidecar = Some demo_id\<rparr>"

definition demo_shards :: "int ple_shard list" where
  "demo_shards = [\<lparr>sh_idx = 1, sh_fp8 = True, sh_rows = [13, 14]\<rparr>, \<lparr>sh_idx = 0, sh_fp8 = True, sh_rows = [10, 11, 12]\<rparr>]"

lemma sealed_table_holds_checkpoint_witness:
  "\<exists>e. load_shards id 2 (demo_emb 0 5) demo_shards = Inr e \<and> (\<forall>g<5. gather_row 0 e g = 10 + int g) \<and>
     seal e True ''now'' = Some (ple_sidecar_write demo_id ''now'')"
proof -
  have s: "shards_of 2 (demo_emb 0 5) (\<lambda>g. 10 + int g) demo_shards"
    by (auto simp: shards_of_def demo_shards_def demo_emb_def shard_size_def less_Suc_eq)
  have i: "distinct (map sh_idx demo_shards)" by (simp add: demo_shards_def)
  have b: "\<forall>sh\<in>set demo_shards. length (sh_rows sh) \<le> shard_size 2 (demo_emb 0 5) \<and> shard_span 2 (demo_emb 0 5) sh \<subseteq> {..<he_vocab (demo_emb 0 5)}"
    by (auto simp: demo_shards_def demo_emb_def shard_size_def shard_span_def)
  have "he_vocab (demo_emb 0 5) = 5" "he_per_partition (demo_emb 0 5) = 5" "he_sidecar (demo_emb 0 5) = Some demo_id"
    "sum_list (map (\<lambda>sh. length (sh_rows sh)) demo_shards) = 5" by (simp_all add: demo_emb_def demo_shards_def)
  then show ?thesis
    using sealed_table_holds_checkpoint[OF _ _ _ _ _ _ s i b, of id True "''now''" 0] by (fastforce simp: demo_emb_def)
qed

text \<open>
  C39: the seal counts rows outside the part of the rank. When a rank holds a part of the vocabulary
  and shards are loaded that do not touch it, with as many rows as the part has, the table is
  unchanged, yet the sidecar is written, and the next start accepts it and skips the load.
\<close>

theorem seal_without_a_row:
  assumes emb: "he_end emb - he_start emb \<le> length (he_rows emb)" "\<not> he_skip emb" "he_sidecar emb = Some t"
    and shs: "shards_of parts emb ck shs" "\<forall>sh\<in>set shs. shard_span parts emb sh \<inter> {he_start emb..<he_end emb} = {}"
      "he_per_partition emb \<le> sum_list (map (\<lambda>sh. length (sh_rows sh)) shs)"
    and t: "ti_sources t = ple_fingerprint files" "files \<noteq> []"
  shows "\<exists>e. load_shards conv parts emb shs = Inr e \<and> he_rows e = he_rows emb \<and>
    seal e True now = Some (ple_sidecar_write t now) \<and>
    he_skip (check_sidecar emb True (seal e True now) (Some (ti_bytes t)) t)"
proof -
  obtain e where e: "load_shards conv parts emb shs = Inr e" "same_layout emb e"
    "he_written e = he_written emb + sum_list (map (\<lambda>sh. length (sh_rows sh)) shs)"
    "\<forall>r<length (he_rows emb). he_rows e ! r =
      (if (\<exists>sh\<in>set shs. he_start emb + r \<in> shard_span parts emb sh) \<and> he_start emb + r < he_end emb
       then conv (ck (he_start emb + r)) else he_rows emb ! r)"
    using load_all[OF emb(1,2) shs(1), of conv] by auto
  note L = e(2)[unfolded same_layout_def]
  have "he_rows e ! r = he_rows emb ! r" if r: "r < length (he_rows emb)" for r
  proof -
    have "\<not> (he_start emb + r \<in> shard_span parts emb sh \<and> he_start emb + r < he_end emb)" if "sh \<in> set shs" for sh
      using bspec[OF shs(2) that] by (auto simp: disjoint_iff)
    then show ?thesis using e(4) r by auto
  qed
  then have "he_rows e = he_rows emb" using L by (intro nth_equalityI) simp_all
  moreover have s: "seal e True now = Some (ple_sidecar_write t now)" using L emb(3) e(3) shs(3) by (simp add: seal_def)
  moreover have "he_skip (check_sidecar emb True (seal e True now) (Some (ti_bytes t)) t)"
  proof -
    have "dkeys (ti_sources t) \<noteq> {}" using t by (simp add: dkeys_fingerprint)
    then have "ti_sources t \<noteq> []" by auto
    moreover have "ple_sidecar_is_valid (Some (ple_sidecar_write t now)) (Some (ti_bytes t)) t = Inr True"
      using valid_of_written[of t t now "Some (ti_bytes t)"] t(1) distinct_fingerprint by simp
    ultimately show ?thesis by (simp add: check_sidecar_def s)
  qed
  ultimately show ?thesis using e(1) by blast
qed

lemma seal_without_a_row_witness:
  "\<exists>e. load_shards id 2 ((demo_emb 3 5)\<lparr>he_sidecar := Some (demo_id\<lparr>ti_sources := ple_fingerprint [(''a'', [1, 2, 3, 4, 5])]\<rparr>)\<rparr>)
      [\<lparr>sh_idx = 0, sh_fp8 = True, sh_rows = [10, 11, 12]\<rparr>] = Inr e \<and> he_rows e = [0, 0] \<and> seal e True ''now'' \<noteq> None"
proof -
  let ?t = "demo_id\<lparr>ti_sources := ple_fingerprint [(''a'', [1, 2, 3, 4, 5])]\<rparr>"
  let ?emb = "(demo_emb 3 5)\<lparr>he_sidecar := Some ?t\<rparr>"
  let ?shs = "[\<lparr>sh_idx = 0, sh_fp8 = True, sh_rows = [10, 11, 12 :: int]\<rparr>]"
  have s: "shards_of 2 ?emb (\<lambda>g. 10 + int g) ?shs"
    by (auto simp: shards_of_def demo_emb_def shard_size_def less_Suc_eq)
  have d: "\<forall>sh\<in>set ?shs. shard_span 2 ?emb sh \<inter> {he_start ?emb..<he_end ?emb} = {}"
    by (auto simp: shard_span_def demo_emb_def)
  show ?thesis
    using seal_without_a_row[OF _ _ _ s d, of ?t "[(''a'', [1, 2, 3, 4, 5])]" id "''now''"] by (auto simp: demo_emb_def numeral_2_eq_2)
qed

end
