(* ===== verification/Ple_Lookup.thy ===== *)
theory Ple_Lookup
  imports Ple_Seal Flat_Memory
begin

text \<open>
  The lookup of n-gram ids in the host table (\<^verbatim>\<open>Qwen4ExpPinnedHostEmbedding.gather\<close> and \<^verbatim>\<open>reduce\<close>,
  \<^verbatim>\<open>_embed_ngram_ids\<close>, \<^verbatim>\<open>_prepare_embedding_lookup\<close> and \<^verbatim>\<open>_finish_embedding_lookup\<close> of
  \<^verbatim>\<open>runtime-src/qwen4_exp.py\<close>). Every rank of the tensor-parallel group holds a window of the table
  and gathers zeros for the ids outside of it; the sum over the group is the row. Under data-parallel
  attention the ids of all ranks are gathered first and the rows are scattered afterwards.

  The gather kernel works on row-major memory. An embedding tensor is the list of the rows of its
  tokens, each the concatenation of the rows of its heads: \<^verbatim>\<open>view\<close> and \<^verbatim>\<open>flatten\<close> change nothing.
\<close>

section \<open>The gather kernel\<close>

text \<open>
  One program per id: \<open>block\<close> lanes, of which those below the row width \<open>d\<close> load and store. The
  programs run in any order.
\<close>

definition gather_program ::
  "nat \<Rightarrow> nat \<Rightarrow> (rat \<Rightarrow> rat) \<Rightarrow> rat list \<Rightarrow> nat \<Rightarrow> nat \<Rightarrow> int list \<Rightarrow> nat \<Rightarrow> rat list \<Rightarrow> rat list" where
  "gather_program block d cvt weight vocab_start vocab_end ids row_id out =
     (let g = ids ! row_id; in_range = (int vocab_start \<le> g \<and> g < int vocab_end);
          local_idx = (if in_range then nat (g - int vocab_start) else 0)
      in fold (\<lambda>i out. if i < d then out[row_id * d + i := (if in_range then cvt (weight ! (local_idx * d + i)) else 0)] else out)
           [0..<block] out)"

definition gather_kernel ::
  "nat list \<Rightarrow> nat \<Rightarrow> nat \<Rightarrow> (rat \<Rightarrow> rat) \<Rightarrow> rat list \<Rightarrow> nat \<Rightarrow> nat \<Rightarrow> int list \<Rightarrow> rat list \<Rightarrow> rat list" where
  "gather_kernel order block d cvt weight vocab_start vocab_end ids out =
     fold (gather_program block d cvt weight vocab_start vocab_end ids) order out"

section \<open>The embedding\<close>

text \<open>
  \<open>lk_order\<close> is the order of the programs of a launch, \<open>lk_bf16\<close> the conversion of a stored value,
  \<open>lk_uninit\<close> the content of fresh memory. The collectives are those of the rank: the sum over a
  group, and the gather and scatter of the tokens of the data-parallel ranks.
\<close>

record ple_lookup =
  lk_emb :: "rat list host_embedding"
  lk_heads :: nat
  lk_dim :: nat
  lk_bf16 :: "rat \<Rightarrow> rat"
  lk_scale :: rat
  lk_order :: "nat \<Rightarrow> nat list"
  lk_uninit :: rat
  lk_tp_size :: nat
  lk_attn_group :: bool
  lk_scattered :: bool
  lk_gather_dp :: bool
  lk_attn_all_reduce :: "rat list \<Rightarrow> rat list"
  lk_tp_all_reduce :: "rat list \<Rightarrow> rat list"
  lk_dp_gather :: "nat \<Rightarrow> int list list \<Rightarrow> int list list"
  lk_dp_scatter :: "nat \<Rightarrow> rat list list \<Rightarrow> rat list list"

text \<open>A tensor that is passed as output: its shape, whether it is bf16 on the device of the ids, its memory.\<close>

type_synonym out_tensor = "nat list \<times> bool \<times> rat list"

definition allocate_output :: "ple_lookup \<Rightarrow> nat list \<Rightarrow> rat list" where
  "allocate_output lk shape = replicate (prod_list shape) (lk_uninit lk)"

definition ple_gather :: "ple_lookup \<Rightarrow> int list list \<Rightarrow> out_tensor option \<Rightarrow> rat list result" where
  "ple_gather lk ids out =
     (let emb = lk_emb lk; shape = [length ids, lk_heads lk, lk_dim lk]; flat_ids = concat ids
      in res_bind (case out of None \<Rightarrow> Inr (allocate_output lk shape)
                   | Some (sh, bf16_on_device, mem) \<Rightarrow>
                       if sh \<noteq> shape then Inl ValueError
                       else if \<not> bf16_on_device then Inl ValueError else Inr mem) (\<lambda>output.
         Inr (if flat_ids = [] then output
              else gather_kernel (lk_order lk (length flat_ids)) (next_power_of_2 (lk_dim lk)) (lk_dim lk) (lk_bf16 lk)
                     (concat (he_rows emb)) (he_start emb) (he_end emb) flat_ids output)))"

definition ple_reduce :: "ple_lookup \<Rightarrow> rat list \<Rightarrow> rat list" where
  "ple_reduce lk output =
     (if 1 < lk_tp_size lk \<and> \<not> lk_scattered lk
      then if lk_attn_group lk then lk_attn_all_reduce lk output else lk_tp_all_reduce lk output
      else output)"

text \<open>
  \<^verbatim>\<open>_pad_token_rows\<close>: more rows than the total cannot be stored, except one row into none.
\<close>

definition pad_token_rows :: "'b \<Rightarrow> 'b list \<Rightarrow> nat \<Rightarrow> 'b list result" where
  "pad_token_rows z x total_tokens =
     (if length x \<le> total_tokens then Inr (x @ replicate (total_tokens - length x) z)
      else if length x = 1 then Inr [] else Inl RuntimeError)"

definition prepare_embedding_lookup ::
  "ple_lookup \<Rightarrow> int list list \<Rightarrow> nat option \<Rightarrow> nat \<Rightarrow> (int list list \<times> nat) result" where
  "prepare_embedding_lookup lk ids global_tokens physical =
     (if \<not> lk_gather_dp lk then Inr (ids, length ids)
      else res_bind (pad_token_rows (replicate (lk_heads lk) 0) ids physical) (\<lambda>padded.
        case global_tokens of None \<Rightarrow> Inl RuntimeError | Some n \<Rightarrow> Inr (lk_dp_gather lk n padded, length ids)))"

definition finish_embedding_lookup :: "ple_lookup \<Rightarrow> rat list list \<Rightarrow> nat \<Rightarrow> nat \<Rightarrow> rat list list" where
  "finish_embedding_lookup lk embeddings semantic physical =
     (if \<not> lk_gather_dp lk then embeddings else take semantic (lk_dp_scatter lk physical embeddings))"

definition scaled_rows :: "ple_lookup \<Rightarrow> nat \<Rightarrow> rat list \<Rightarrow> rat list list" where
  "scaled_rows lk n mem = map (map (\<lambda>v. v * lk_scale lk)) (chunks (lk_heads lk * lk_dim lk) n mem)"

definition embed_ngram_ids :: "ple_lookup \<Rightarrow> int list list \<Rightarrow> nat option \<Rightarrow> nat \<Rightarrow> rat list list result" where
  "embed_ngram_ids lk ids global_tokens physical =
     res_bind (prepare_embedding_lookup lk ids global_tokens physical) (\<lambda>(lookup_ids, semantic).
     res_bind (ple_gather lk lookup_ids None) (\<lambda>mem.
       Inr (finish_embedding_lookup lk (scaled_rows lk (length lookup_ids) (ple_reduce lk mem)) semantic physical)))"

section \<open>The memory a launch leaves\<close>

definition row_value :: "ple_lookup \<Rightarrow> int \<Rightarrow> rat list" where
  "row_value lk g =
     (if int (he_start (lk_emb lk)) \<le> g \<and> g < int (he_end (lk_emb lk))
      then map (lk_bf16 lk) (he_rows (lk_emb lk) ! nat (g - int (he_start (lk_emb lk)))) else replicate (lk_dim lk) 0)"

text \<open>The rows of the window are there and have the width of the embedding; a launch runs every program once.\<close>

definition table_ready :: "ple_lookup \<Rightarrow> bool" where
  "table_ready lk \<longleftrightarrow> he_end (lk_emb lk) \<le> he_start (lk_emb lk) + length (he_rows (lk_emb lk)) \<and>
     uniform (lk_dim lk) (he_rows (lk_emb lk)) \<and> (\<forall>n. distinct (lk_order lk n) \<and> set (lk_order lk n) = {0..<n})"

lemma fold_lanes:
  "d \<le> block \<Longrightarrow> fold (\<lambda>i out. if i < d then out[b + i := h i] else out) [0..<block] out = fold (\<lambda>i out. out[b + i := h i]) [0..<d] out"
proof (induction block)
  case (Suc n)
  show ?case
  proof (cases "d = Suc n")
    case True
    then show ?thesis by (intro fold_cong) auto
  qed (use Suc in auto)
qed simp

lemma gather_program_cell:
  assumes d: "d \<le> block" and x: "x < length out"
  shows "gather_program block d cvt weight vs ve ids r out ! x =
    (if r * d \<le> x \<and> x < r * d + d
     then if int vs \<le> ids ! r \<and> ids ! r < int ve then cvt (weight ! (nat (ids ! r - int vs) * d + (x - r * d))) else 0
     else out ! x)"
  unfolding gather_program_def Let_def fold_lanes[OF d] nth_fold_block[OF x] by simp

lemma length_gather_program [simp]: "length (gather_program block d cvt weight vs ve ids r out) = length out"
proof -
  have "length (fold (\<lambda>i out. if i < d then out[b + i := h i] else out) is out) = length out" for b h "is" and out :: "rat list"
    by (induction "is" arbitrary: out) simp_all
  then show ?thesis by (simp add: gather_program_def Let_def)
qed

lemma gather_kernel_cell:
  assumes "distinct order" "d \<le> block" "\<forall>r\<in>set order. r < n" "length out = n * d" "r < n" "j < d"
  shows "gather_kernel order block d cvt weight vs ve ids out ! (r * d + j) =
    (if r \<in> set order then if int vs \<le> ids ! r \<and> ids ! r < int ve then cvt (weight ! (nat (ids ! r - int vs) * d + j)) else 0
     else out ! (r * d + j))"
  using assms
proof (induction order arbitrary: out)
  case Nil
  then show ?case by (simp add: gather_kernel_def)
next
  case (Cons p ps)
  have own: "p * d \<le> r * d + j \<and> r * d + j < p * d + d \<longleftrightarrow> p = r"
  proof
    assume "p * d \<le> r * d + j \<and> r * d + j < p * d + d"
    then have "(r * d + j) div d = p" using Cons.prems(6) by (intro div_nat_eqI) (simp_all add: algebra_simps)
    then show "p = r" using Cons.prems(6) by simp
  qed (use Cons.prems(6) in simp)
  have "(r + 1) * d \<le> n * d" using Cons.prems(5) by (intro mult_le_mono1) simp
  then have x: "r * d + j < length out" using Cons.prems(4,6) by simp
  have "gather_kernel (p # ps) block d cvt weight vs ve ids out =
      gather_kernel ps block d cvt weight vs ve ids (gather_program block d cvt weight vs ve ids p out)"
    by (simp add: gather_kernel_def)
  then show ?case using Cons.IH[of "gather_program block d cvt weight vs ve ids p out"] Cons.prems
      gather_program_cell[OF Cons.prems(2) x, of cvt weight vs ve ids p] unfolding own by auto
qed

lemma length_gather_kernel [simp]: "length (gather_kernel order block d cvt weight vs ve ids out) = length out"
  unfolding gather_kernel_def by (induction order arbitrary: out) simp_all

lemma length_row_value: "table_ready lk \<Longrightarrow> length (row_value lk g) = lk_dim lk"
  by (auto simp: table_ready_def row_value_def uniform_def)

lemma uniform_row_values: "table_ready lk \<Longrightarrow> uniform (lk_dim lk) (map (row_value lk) gs)"
  by (auto simp: uniform_def length_row_value)

lemma gather_memory:
  assumes ready: "table_ready lk" and ids: "uniform (lk_heads lk) ids"
    and out: "out = None \<or> (\<exists>mem. out = Some ([length ids, lk_heads lk, lk_dim lk], True, mem) \<and> length mem = length ids * lk_heads lk * lk_dim lk)"
  shows "ple_gather lk ids out = Inr (concat (map (row_value lk) (concat ids)))"
proof -
  let ?d = "lk_dim lk" and ?gs = "concat ids" and ?rows = "he_rows (lk_emb lk)"
  let ?vs = "he_start (lk_emb lk)" and ?ve = "he_end (lk_emb lk)"
  have lg: "length ?gs = length ids * lk_heads lk" using length_concat_uniform[OF ids] by simp
  obtain mem where mem: "(case out of None \<Rightarrow> Inr (allocate_output lk [length ids, lk_heads lk, ?d])
       | Some (sh, ok, mem) \<Rightarrow> if sh \<noteq> [length ids, lk_heads lk, ?d] then Inl ValueError else if \<not> ok then Inl ValueError else Inr mem) = Inr mem"
    "length mem = length ?gs * ?d" using out lg by (auto simp: allocate_output_def mult.assoc)
  let ?k = "gather_kernel (lk_order lk (length ?gs)) (next_power_of_2 ?d) ?d (lk_bf16 lk) (concat ?rows) ?vs ?ve ?gs mem"
  have order: "distinct (lk_order lk (length ?gs))" "set (lk_order lk (length ?gs)) = {0..<length ?gs}" using ready by (auto simp: table_ready_def)
  have cell: "?k ! (r * ?d + j) = row_value lk (?gs ! r) ! j" if r: "r < length ?gs" "j < ?d" for r j
  proof -
    have at: "concat ?rows ! (nat (?gs ! r - int ?vs) * ?d + j) = ?rows ! nat (?gs ! r - int ?vs) ! j" "length (?rows ! nat (?gs ! r - int ?vs)) = ?d"
      if "int ?vs \<le> ?gs ! r \<and> ?gs ! r < int ?ve"
    proof -
      have "nat (?gs ! r - int ?vs) < length ?rows" "uniform ?d ?rows" using that ready by (auto simp: table_ready_def)
      then show "concat ?rows ! (nat (?gs ! r - int ?vs) * ?d + j) = ?rows ! nat (?gs ! r - int ?vs) ! j"
        "length (?rows ! nat (?gs ! r - int ?vs)) = ?d" using r(2) by (auto simp: nth_concat_uniform uniform_def)
    qed
    show ?thesis
      using gather_kernel_cell[OF order(1) le_next_power_of_2 _ mem(2) r, of "lk_bf16 lk" "concat ?rows" ?vs ?ve ?gs] order(2) r at
      by (auto simp: row_value_def)
  qed
  have "?k = concat (map (row_value lk) ?gs)"
  proof (rule nth_equalityI)
    show len: "length ?k = length (concat (map (row_value lk) ?gs))"
      using length_concat_uniform[OF uniform_row_values[OF ready], of ?gs] mem(2) by simp
    fix x assume "x < length ?k"
    then have x: "x < length ?gs * ?d" using mem(2) by simp
    then have d: "0 < ?d" by (cases "?d = 0") simp_all
    have r: "x div ?d < length ?gs" "x mod ?d < ?d" "x = x div ?d * ?d + x mod ?d"
      using x d by (simp_all add: less_mult_imp_div_less)
    have "?k ! (x div ?d * ?d + x mod ?d) = concat (map (row_value lk) ?gs) ! (x div ?d * ?d + x mod ?d)"
      using cell[OF r(1,2)] nth_concat_uniform[OF uniform_row_values[OF ready], of "x div ?d" ?gs "x mod ?d"] r(1,2) by simp
    then show "?k ! x = concat (map (row_value lk) ?gs) ! x" using r(3) by simp
  qed
  moreover have "mem = []" if "?gs = []" using mem(2) unfolding that by simp
  ultimately show ?thesis unfolding ple_gather_def Let_def mem(1) by (auto simp del: concat_eq_Nil_conv)
qed

section \<open>The collectives\<close>

text \<open>
  What is relied on: every rank of a group of \<open>n\<close> gets the sum of the contributions, and of the
  tokens gathered from the data-parallel ranks, those of rank \<open>k\<close> are found at \<open>start k\<close>, where the
  scatter reads them.
\<close>

locale tensor_group =
  fixes red :: "nat \<Rightarrow> rat list list \<Rightarrow> rat list" and n :: nat
  assumes red_sum: "i < n \<Longrightarrow> length parts = n \<Longrightarrow> uniform m parts \<Longrightarrow> red i parts = map (\<lambda>x. \<Sum>p\<leftarrow>parts. p ! x) [0..<m]"
begin

lemma reduce_rows:
  assumes i: "i < n" and f: "\<And>j g. j < n \<Longrightarrow> g \<in> set gs \<Longrightarrow> length (f j g) = d"
  shows "red i (map (\<lambda>j. concat (map (f j) gs)) [0..<n]) = concat (map (\<lambda>g. map (\<lambda>x. \<Sum>j\<leftarrow>[0..<n]. f j g ! x) [0..<d]) gs)"
proof -
  let ?parts = "map (\<lambda>j. concat (map (f j) gs)) [0..<n]" and ?F = "\<lambda>g. map (\<lambda>x. \<Sum>j\<leftarrow>[0..<n]. f j g ! x) [0..<d]"
  have u: "uniform d (map (f j) gs)" if "j < n" for j using f[OF that] by (auto simp: uniform_def)
  have lp: "length (concat (map (f j) gs)) = length gs * d" if "j < n" for j using length_concat_uniform[OF u[OF that]] by simp
  have run: "red i ?parts = map (\<lambda>x. \<Sum>p\<leftarrow>?parts. p ! x) [0..<length gs * d]"
    by (rule red_sum[OF i]) (use lp in \<open>auto simp: uniform_def\<close>)
  have uF: "uniform d (map ?F gs)" by (auto simp: uniform_def)
  show ?thesis unfolding run
  proof (rule nth_equalityI)
    show "length (map (\<lambda>x. \<Sum>p\<leftarrow>?parts. p ! x) [0..<length gs * d]) = length (concat (map ?F gs))"
      using length_concat_uniform[OF uF] by simp
    fix x assume "x < length (map (\<lambda>x. \<Sum>p\<leftarrow>?parts. p ! x) [0..<length gs * d])"
    then have x: "x < length gs * d" by simp
    then have d: "0 < d" by (cases "d = 0") simp_all
    have r: "x div d < length gs" "x mod d < d" "x = x div d * d + x mod d" using x d by (simp_all add: less_mult_imp_div_less)
    have "concat (map (f j) gs) ! x = f j (gs ! (x div d)) ! (x mod d)" if "j < n" for j
      using nth_concat_uniform[OF u[OF that], of "x div d" "x mod d"] r by simp
    then have "(\<Sum>p\<leftarrow>?parts. p ! x) = (\<Sum>j\<leftarrow>[0..<n]. f j (gs ! (x div d)) ! (x mod d))"
      unfolding map_map comp_def by (intro arg_cong[of _ _ sum_list] map_cong refl) simp
    moreover have "concat (map ?F gs) ! x = (\<Sum>j\<leftarrow>[0..<n]. f j (gs ! (x div d)) ! (x mod d))"
      using nth_concat_uniform[OF uF, of "x div d" "x mod d"] r by simp
    ultimately show "map (\<lambda>x. \<Sum>p\<leftarrow>?parts. p ! x) [0..<length gs * d] ! x = concat (map ?F gs) ! x" using x by simp
  qed
qed

text \<open>The row comes from the one part whose window holds the id, zeros from the others.\<close>

lemma one_window:
  assumes k: "k < n" "length row = d" "f k = row" and z: "\<And>j. j < n \<Longrightarrow> j \<noteq> k \<Longrightarrow> f j = replicate d 0"
  shows "map (\<lambda>x. \<Sum>j\<leftarrow>[0..<n]. f j ! x) [0..<d] = (row :: rat list)"
proof (rule nth_equalityI)
  fix x assume "x < length (map (\<lambda>x. \<Sum>j\<leftarrow>[0..<n]. f j ! x) [0..<d])"
  then have x: "x < d" by simp
  have "(\<Sum>j\<leftarrow>[0..<n]. f j ! x) = (\<Sum>j\<in>{0..<n}. f j ! x)" by (simp add: interv_sum_list_conv_sum_set_nat)
  also have "\<dots> = (\<Sum>j\<in>{0..<n}. if j = k then row ! x else 0)" using z k(3) x by (intro sum.cong) auto
  also have "\<dots> = row ! x" using k(1) by simp
  finally show "map (\<lambda>x. \<Sum>j\<leftarrow>[0..<n]. f j ! x) [0..<d] ! x = row ! x" using x by simp
qed (use k(2) in simp)

end

locale dp_layout =
  fixes gat :: "nat \<Rightarrow> int list list list \<Rightarrow> int list list" and sca :: "nat \<Rightarrow> rat list list \<Rightarrow> rat list list"
    and start :: "nat \<Rightarrow> nat" and sz :: "nat list" and heads :: nat
  assumes gat_shape: "map length locals = sz \<Longrightarrow> list_all (uniform heads) locals \<Longrightarrow> start k + sz ! k \<le> total_tokens \<Longrightarrow> k < length sz \<Longrightarrow>
      length (gat total_tokens locals) = total_tokens \<and> uniform heads (gat total_tokens locals)"
    and gat_at: "map length locals = sz \<Longrightarrow> list_all (uniform heads) locals \<Longrightarrow> start k + sz ! k \<le> total_tokens \<Longrightarrow> k < length sz \<Longrightarrow>
      take (sz ! k) (drop (start k) (gat total_tokens locals)) = locals ! k"
    and sca_at: "k < length sz \<Longrightarrow> sca k rows = take (sz ! k) (drop (start k) rows)"
begin

lemma scatter_gathered:
  assumes "map length locals = sz" "list_all (uniform heads) locals" "start k + sz ! k \<le> total_tokens" "k < length sz"
  shows "sca k (map f (gat total_tokens locals)) = map f (locals ! k)"
  unfolding sca_at[OF assms(4)] gat_at[OF assms, symmetric] by (simp add: take_map drop_map)

end

text \<open>The instances: the sum in the order of the ranks, and the tokens of the ranks one after the other.\<close>

definition sum_reduce :: "nat \<Rightarrow> rat list list \<Rightarrow> rat list" where
  "sum_reduce i parts = map (\<lambda>x. \<Sum>p\<leftarrow>parts. p ! x) [0..<length (hd parts)]"

interpretation summed: tensor_group sum_reduce n for n
proof
  fix i :: nat and parts :: "rat list list" and m
  assume "i < n" "length parts = n" "uniform m parts"
  then have "length (hd parts) = m" by (cases parts) simp_all
  then show "sum_reduce i parts = map (\<lambda>x. \<Sum>p\<leftarrow>parts. p ! x) [0..<m]" by (simp add: sum_reduce_def)
qed

definition seq_gather :: "nat \<Rightarrow> nat \<Rightarrow> int list list list \<Rightarrow> int list list" where
  "seq_gather heads total_tokens locals = take total_tokens (concat locals @ replicate total_tokens (replicate heads 0))"

definition seq_scatter :: "nat list \<Rightarrow> nat \<Rightarrow> rat list list \<Rightarrow> rat list list" where
  "seq_scatter sz k rows = take (sz ! k) (drop (sum_list (take k sz)) rows)"

lemma concat_slice: "k < length xss \<Longrightarrow> take (length (xss ! k)) (drop (sum_list (map length (take k xss))) (concat xss @ ys)) = xss ! k"
proof (induction xss arbitrary: k)
  case (Cons xs xss)
  then show ?case by (cases k) simp_all
qed simp

interpretation seq: dp_layout "seq_gather heads" "seq_scatter sz" "\<lambda>k. sum_list (take k sz)" sz heads for sz heads
proof
  fix locals :: "int list list list" and total_tokens k :: nat
  assume l: "map length locals = sz" "list_all (uniform heads) locals" "sum_list (take k sz) + sz ! k \<le> total_tokens" "k < length sz"
  have k: "k < length locals" using l(1,4) by auto
  have "uniform heads (concat locals @ replicate total_tokens (replicate heads 0))"
    using l(2) by (auto simp: uniform_def list_all_iff)
  then have "uniform heads (seq_gather heads total_tokens locals)"
    unfolding seq_gather_def uniform_def by (blast dest: in_set_takeD)
  then show "length (seq_gather heads total_tokens locals) = total_tokens \<and> uniform heads (seq_gather heads total_tokens locals)"
    by (simp add: seq_gather_def)
  have s: "sum_list (map length (take k locals)) = sum_list (take k sz)" "length (locals ! k) = sz ! k"
    using l(1) k by (auto simp: take_map[symmetric])
  let ?all = "concat locals @ replicate total_tokens (replicate heads 0)"
  have "take (sz ! k) (drop (sum_list (take k sz)) (take total_tokens ?all)) = take (sz ! k) (drop (sum_list (take k sz)) ?all)"
  proof -
    have "min (sz ! k) (total_tokens - sum_list (take k sz)) = sz ! k" using l(3) by simp
    then show ?thesis unfolding drop_take take_take by simp
  qed
  also have "\<dots> = locals ! k" by (rule concat_slice[OF k, unfolded s])
  finally show "take (sz ! k) (drop (sum_list (take k sz)) (seq_gather heads total_tokens locals)) = locals ! k"
    by (simp add: seq_gather_def)
qed (simp add: seq_scatter_def)

section \<open>The lookup of a group\<close>

text \<open>
  The lookup as rank \<open>i\<close>, with the tokens of the data-parallel rank \<open>k\<close>, runs it: its collectives put
  its own contribution beside those of its peers.
\<close>

definition rank_view ::
  "(nat \<Rightarrow> rat list list \<Rightarrow> rat list) \<Rightarrow> (nat \<Rightarrow> int list list list \<Rightarrow> int list list) \<Rightarrow> (nat \<Rightarrow> rat list list \<Rightarrow> rat list list) \<Rightarrow>
   rat list list \<Rightarrow> int list list list \<Rightarrow> nat \<Rightarrow> nat \<Rightarrow> ple_lookup \<Rightarrow> ple_lookup" where
  "rank_view red gat sca parts locals i k lk =
     lk\<lparr>lk_attn_all_reduce := (\<lambda>x. red i (parts[i := x])), lk_tp_all_reduce := (\<lambda>x. red i (parts[i := x])),
        lk_dp_gather := (\<lambda>n x. gat n (locals[k := x])), lk_dp_scatter := (\<lambda>_ rows. sca k rows)\<rparr>"

text \<open>
  \<open>sharded\<close>: the ranks of a group agree on the shape of the embedding, and their windows hold the
  rows \<open>ck\<close> of a table of \<open>V\<close> rows, every row in one window.
\<close>

definition sharded :: "nat \<Rightarrow> (int \<Rightarrow> rat list) \<Rightarrow> ple_lookup list \<Rightarrow> ple_lookup \<Rightarrow> bool" where
  "sharded V ck lks lk \<longleftrightarrow> lk_tp_size lk = length lks \<and> \<not> lk_scattered lk \<and>
     (\<forall>l\<in>set lks. table_ready l \<and> lk_heads l = lk_heads lk \<and> lk_dim l = lk_dim lk \<and> lk_bf16 l = lk_bf16 lk \<and>
        lk_scale l = lk_scale lk \<and> lk_tp_size l = lk_tp_size lk \<and> lk_scattered l = lk_scattered lk \<and> lk_gather_dp l = lk_gather_dp lk \<and>
        (\<forall>g. int (he_start (lk_emb l)) \<le> g \<longrightarrow> g < int (he_end (lk_emb l)) \<longrightarrow>
           he_rows (lk_emb l) ! nat (g - int (he_start (lk_emb l))) = ck g)) \<and>
     (\<forall>g. 0 \<le> g \<longrightarrow> g < int V \<longrightarrow> (\<exists>j<length lks. \<forall>j'<length lks.
        (int (he_start (lk_emb (lks ! j'))) \<le> g \<and> g < int (he_end (lk_emb (lks ! j')))) = (j' = j)))"

lemma rank_view_fields [simp]:
  "lk_emb (rank_view red gat sca parts locals i k lk) = lk_emb lk" "lk_heads (rank_view red gat sca parts locals i k lk) = lk_heads lk"
  "lk_dim (rank_view red gat sca parts locals i k lk) = lk_dim lk" "lk_order (rank_view red gat sca parts locals i k lk) = lk_order lk"
  "lk_scale (rank_view red gat sca parts locals i k lk) = lk_scale lk"
  "table_ready (rank_view red gat sca parts locals i k lk) = table_ready lk"
  by (simp_all add: rank_view_def table_ready_def)

lemma row_value_view [simp]: "row_value (rank_view red gat sca parts locals i k lk) = row_value lk"
  by (intro ext) (simp add: row_value_def rank_view_def)

lemma sharded_row:
  assumes s: "sharded V ck lks lk" and red: "tensor_group red (length lks)" and g: "0 \<le> g" "g < int V"
  shows "map (\<lambda>x. \<Sum>j\<leftarrow>[0..<length lks]. row_value (lks ! j) g ! x) [0..<lk_dim lk] = map (lk_bf16 lk) (ck g)"
proof -
  obtain j where j: "j < length lks" "\<forall>j'<length lks.
      (int (he_start (lk_emb (lks ! j'))) \<le> g \<and> g < int (he_end (lk_emb (lks ! j')))) = (j' = j)"
    using s g unfolding sharded_def by blast
  have at: "table_ready (lks ! j')" "lk_dim (lks ! j') = lk_dim lk" "lk_bf16 (lks ! j') = lk_bf16 lk" if "j' < length lks" for j'
    using s that unfolding sharded_def by (auto dest: nth_mem)
  have "he_rows (lk_emb (lks ! j)) ! nat (g - int (he_start (lk_emb (lks ! j)))) = ck g"
  proof -
    have "\<forall>g. int (he_start (lk_emb (lks ! j))) \<le> g \<longrightarrow> g < int (he_end (lk_emb (lks ! j))) \<longrightarrow>
        he_rows (lk_emb (lks ! j)) ! nat (g - int (he_start (lk_emb (lks ! j)))) = ck g"
      using s nth_mem[OF j(1)] unfolding sharded_def by blast
    then show ?thesis using j by blast
  qed
  then have row: "row_value (lks ! j) g = map (lk_bf16 lk) (ck g)" using j at(3)[OF j(1)] by (simp add: row_value_def)
  moreover have "length (row_value (lks ! j) g) = lk_dim lk" using length_row_value[OF at(1)[OF j(1)]] at(2)[OF j(1)] by simp
  ultimately show ?thesis
    by (intro tensor_group.one_window[OF red j(1)]) (use j(2) at(2) in \<open>auto simp: row_value_def\<close>)
qed

lemma concat_map_concat: "concat (map f (concat xss)) = concat (map (\<lambda>xs. concat (map f xs)) xss)"
  by (induction xss) simp_all

text \<open>The tokens of a rank, padded to its physical size.\<close>

definition padded_locals :: "nat \<Rightarrow> int list list list \<Rightarrow> nat list \<Rightarrow> int list list list" where
  "padded_locals heads idss sz = map2 (\<lambda>ids n. ids @ replicate (n - length ids) (replicate heads 0)) idss sz"

lemma padded_locals_ok:
  assumes "length idss = length sz" "\<forall>k<length sz. uniform heads (idss ! k) \<and> length (idss ! k) \<le> sz ! k"
  shows "map length (padded_locals heads idss sz) = sz" and "list_all (uniform heads) (padded_locals heads idss sz)"
    and "k < length sz \<Longrightarrow> padded_locals heads idss sz ! k = idss ! k @ replicate (sz ! k - length (idss ! k)) (replicate heads 0)"
proof -
  show nth: "padded_locals heads idss sz ! k = idss ! k @ replicate (sz ! k - length (idss ! k)) (replicate heads 0)"
    if "k < length sz" for k using that assms(1) by (simp add: padded_locals_def)
  show "map length (padded_locals heads idss sz) = sz"
    using assms by (intro nth_equalityI) (simp_all add: padded_locals_def)
  show "list_all (uniform heads) (padded_locals heads idss sz)"
    unfolding list_all_length using assms nth by (auto simp: padded_locals_def uniform_def)
qed

lemma reduced_rows:
  assumes red: "tensor_group red (length lks)" and s: "sharded V ck lks (lks ! i)" "i < length lks"
    and G: "uniform (lk_heads (lks ! i)) G" and parts: "parts = map (\<lambda>l. ok_or [] (ple_gather l G None)) lks"
    and view_def: "view = rank_view red gat sca parts locals i k (lks ! i)"
  shows "\<exists>mem. ple_gather view G None = Inr mem \<and> scaled_rows view (length G) (ple_reduce view mem) =
    map (\<lambda>tok. concat (map (\<lambda>g. map (\<lambda>v. v * lk_scale (lks ! i))
      (map (\<lambda>x. \<Sum>j\<leftarrow>[0..<length lks]. row_value (lks ! j) g ! x) [0..<lk_dim (lks ! i)])) tok)) G"
proof -
  let ?lk = "lks ! i" and ?n = "length lks"
  let ?F = "\<lambda>g. map (\<lambda>x. \<Sum>j\<leftarrow>[0..<?n]. row_value (lks ! j) g ! x) [0..<lk_dim ?lk]"
  let ?mem = "concat (map (row_value ?lk) (concat G))"
  have at: "table_ready l" "lk_heads l = lk_heads ?lk" "lk_dim l = lk_dim ?lk" if "l \<in> set lks" for l
    using s(1) that unfolding sharded_def by auto
  have ready: "table_ready ?lk" by (rule at(1)[OF nth_mem[OF s(2)]])
  have mem: "ple_gather view G None = Inr ?mem"
    using gather_memory[of view G None] ready G unfolding view_def by simp
  have "ok_or [] (ple_gather l G None) = concat (map (row_value l) (concat G))" if "l \<in> set lks" for l
    using gather_memory[of l G None] at[OF that] G by simp
  then have p: "parts = map (\<lambda>l. concat (map (row_value l) (concat G))) lks" unfolding parts by simp
  then have p': "parts = map (\<lambda>j. concat (map (row_value (lks ! j)) (concat G))) [0..<?n]"
    by (intro nth_equalityI) simp_all
  have own: "parts[i := ?mem] = parts" using s(2) unfolding p by (simp add: list_update_same_conv)
  have reduce: "ple_reduce view ?mem = concat (map ?F (concat G))"
  proof (cases "1 < ?n")
    case True
    have "red i parts = concat (map ?F (concat G))"
      unfolding p' by (rule tensor_group.reduce_rows[OF red s(2)]) (use at length_row_value in auto)
    moreover have "lk_tp_size ?lk = ?n" "\<not> lk_scattered ?lk" using s(1) by (auto simp: sharded_def)
    ultimately show ?thesis using own True by (simp add: ple_reduce_def view_def rank_view_def)
  next
    case False
    then have n: "?n = 1" "i = 0" using s(2) by auto
    have "?F g = row_value ?lk g" for g
      using length_row_value[OF ready, of g] n by (intro nth_equalityI) simp_all
    moreover have "lk_tp_size ?lk = ?n" using s(1) by (simp add: sharded_def)
    ultimately show ?thesis using n(1) by (simp add: ple_reduce_def view_def rank_view_def)
  qed
  have u: "uniform (lk_heads ?lk * lk_dim ?lk) (map (\<lambda>tok. concat (map ?F tok)) G)"
  proof -
    have "length (concat (map ?F tok)) = length tok * lk_dim ?lk" for tok by (induction tok) simp_all
    then show ?thesis using G by (auto simp: uniform_def)
  qed
  have "scaled_rows view (length G) (ple_reduce view ?mem) = map (map (\<lambda>v. v * lk_scale ?lk)) (map (\<lambda>tok. concat (map ?F tok)) G)"
    unfolding scaled_rows_def reduce unfolding concat_map_concat using chunks_concat[OF u] by (simp add: view_def)
  then show ?thesis using mem by (simp add: map_concat comp_def)
qed

text \<open>
  C16: the sharded lookup is the lookup in the whole table. With the rows of the table spread over the
  ranks of a tensor-parallel group in any windows, and the tokens over data-parallel ranks (or not),
  the rank \<open>i\<close> that serves the tokens of the data-parallel rank \<open>k\<close> gets, for every one of its tokens
  and heads, the row of the whole table as bf16, scaled; neither the padding nor the tokens of the
  others leave a trace. The attention inputs are not scattered (the mode in which the reduction is skipped).
\<close>

theorem sharded_lookup_is_table:
  assumes red: "tensor_group red (length lks)" and dp: "dp_layout gat sca start sz (lk_heads (lks ! i))"
    and shards: "sharded V ck lks (lks ! i)" "i < length lks"
    and idss: "length idss = length sz" "\<forall>k<length sz. uniform (lk_heads (lks ! i)) (idss ! k) \<and> length (idss ! k) \<le> sz ! k"
    and k: "k < length sz" "start k + sz ! k \<le> total_tokens"
    and valid: "\<forall>tok\<in>set (idss ! k). \<forall>g\<in>set tok. 0 \<le> g \<and> g < int V"
    and locals: "locals = padded_locals (lk_heads (lks ! i)) idss sz"
    and G: "G = (if lk_gather_dp (lks ! i) then gat total_tokens locals else idss ! k)"
    and parts: "parts = map (\<lambda>l. ok_or [] (ple_gather l G None)) lks"
  shows "embed_ngram_ids (rank_view red gat sca parts locals i k (lks ! i)) (idss ! k) (Some total_tokens) (sz ! k) =
    Inr (map (\<lambda>tok. concat (map (\<lambda>g. map (\<lambda>v. lk_bf16 (lks ! i) v * lk_scale (lks ! i)) (ck g)) tok)) (idss ! k))"
proof -
  let ?lk = "lks ! i"
  let ?view = "rank_view red gat sca parts locals i k ?lk"
  let ?F = "\<lambda>g. map (\<lambda>v. v * lk_scale ?lk) (map (\<lambda>x. \<Sum>j\<leftarrow>[0..<length lks]. row_value (lks ! j) g ! x) [0..<lk_dim ?lk])"
  note pl = padded_locals_ok[OF idss, folded locals]
  have l: "length locals = length sz" using arg_cong[OF pl(1), of length] by simp
  note shape = dp_layout.gat_shape[OF dp pl(1,2) k(2,1)]
  have uG: "uniform (lk_heads ?lk) G" using shape idss(2) k(1) by (simp add: G)
  have own: "locals[k := idss ! k @ replicate (sz ! k - length (idss ! k)) (replicate (lk_heads ?lk) 0)] = locals"
    unfolding pl(3)[OF k(1), symmetric] by simp
  have prep: "prepare_embedding_lookup ?view (idss ! k) (Some total_tokens) (sz ! k) = Inr (G, length (idss ! k))"
    using own idss(2) k(1) by (simp add: prepare_embedding_lookup_def pad_token_rows_def rank_view_def G)
  obtain mem where mem: "ple_gather ?view G None = Inr mem"
    "scaled_rows ?view (length G) (ple_reduce ?view mem) = map (\<lambda>tok. concat (map ?F tok)) G"
    using reduced_rows[OF red shards uG parts refl, of gat sca locals k] by blast
  have rows: "map (\<lambda>tok. concat (map ?F tok)) (idss ! k) =
      map (\<lambda>tok. concat (map (\<lambda>g. map (\<lambda>v. lk_bf16 ?lk v * lk_scale ?lk) (ck g)) tok)) (idss ! k)"
  proof (rule map_cong[OF refl], rule arg_cong[of _ _ concat], rule map_cong[OF refl])
    fix tok g assume "tok \<in> set (idss ! k)" "g \<in> set tok"
    then have "0 \<le> g" "g < int V" using valid by blast+
    then show "?F g = map (\<lambda>v. lk_bf16 ?lk v * lk_scale ?lk) (ck g)" by (simp only: sharded_row[OF shards(1) red]) simp
  qed
  have "finish_embedding_lookup ?view (map (\<lambda>tok. concat (map ?F tok)) G) (length (idss ! k)) (sz ! k) =
      map (\<lambda>tok. concat (map ?F tok)) (idss ! k)"
  proof (cases "lk_gather_dp ?lk")
    case True
    have "sca k (map (\<lambda>tok. concat (map ?F tok)) G) = map (\<lambda>tok. concat (map ?F tok)) (locals ! k)"
      using dp_layout.scatter_gathered[OF dp pl(1,2) k(2,1)] True by (simp add: G)
    then show ?thesis using True by (simp add: finish_embedding_lookup_def rank_view_def pl(3)[OF k(1)])
  next
    case False
    then show ?thesis by (simp add: finish_embedding_lookup_def rank_view_def G)
  qed
  then show ?thesis unfolding embed_ngram_ids_def prep res_bind_simps prod.case mem rows by simp
qed

text \<open>Four rows over two ranks, tokens of two heads over two data-parallel ranks of two and one physical tokens.\<close>

definition rank_lookup :: "nat \<Rightarrow> nat \<Rightarrow> rat list list \<Rightarrow> ple_lookup" where
  "rank_lookup s e rows = \<lparr>lk_emb = \<lparr>he_rows = rows, he_fp8 = True, he_start = s, he_end = e, he_vocab = 4, he_per_partition = 2,
       he_skip = False, he_written = 0, he_sidecar = None\<rparr>,
     lk_heads = 2, lk_dim = 1, lk_bf16 = id, lk_scale = 2, lk_order = (\<lambda>n. rev [0..<n]), lk_uninit = 77, lk_tp_size = 2,
     lk_attn_group = False, lk_scattered = False, lk_gather_dp = True, lk_attn_all_reduce = id, lk_tp_all_reduce = id,
     lk_dp_gather = (\<lambda>_ ids. ids), lk_dp_scatter = (\<lambda>_ rows. rows)\<rparr>"

definition two_ranks :: "ple_lookup list" where
  "two_ranks = [rank_lookup 0 2 [[10], [11]], rank_lookup 2 4 [[12], [13]]]"

lemma two_ranks_sharded: "i < 2 \<Longrightarrow> sharded 4 (\<lambda>g. [of_int g + 10]) two_ranks (two_ranks ! i)"
proof -
  assume i: "i < 2"
  have ready: "\<forall>l\<in>set two_ranks. table_ready l" by (auto simp: two_ranks_def rank_lookup_def table_ready_def)
  have same: "\<forall>l\<in>set two_ranks. lk_heads l = 2 \<and> lk_dim l = 1 \<and> lk_bf16 l = id \<and> lk_scale l = 2 \<and> lk_tp_size l = 2 \<and>
      \<not> lk_scattered l \<and> lk_gather_dp l" by (simp add: two_ranks_def rank_lookup_def)
  have n: "length two_ranks = 2" by (simp add: two_ranks_def)
  have m: "two_ranks ! i \<in> set two_ranks" using i n by simp
  have rows: "he_rows (lk_emb l) ! nat (g - int (he_start (lk_emb l))) = [of_int g + 10]"
    if "l \<in> set two_ranks" "int (he_start (lk_emb l)) \<le> g" "g < int (he_end (lk_emb l))" for l g
  proof -
    have "g = int (he_start (lk_emb l)) \<or> g = int (he_start (lk_emb l)) + 1" using that by (auto simp: two_ranks_def rank_lookup_def)
    then show ?thesis using that(1) by (auto simp: two_ranks_def rank_lookup_def)
  qed
  have win: "\<exists>j<2. \<forall>j'<2. (int (he_start (lk_emb (two_ranks ! j'))) \<le> g \<and> g < int (he_end (lk_emb (two_ranks ! j')))) = (j' = j)"
    if "0 \<le> g" "g < 4" for g
    using that by (intro exI[of _ "if g < 2 then 0 else 1"]) (auto simp: less_2_cases_iff two_ranks_def rank_lookup_def)
  show ?thesis unfolding sharded_def n using same m ready rows win by simp
qed

lemma sharded_lookup_is_table_witness:
  "\<exists>locals. embed_ngram_ids (rank_view sum_reduce (seq_gather 2) (seq_scatter [2, 1])
      (map (\<lambda>l. ok_or [] (ple_gather l (seq_gather 2 4 locals) None)) two_ranks) locals 1 0 (two_ranks ! 1)) [[1, 3]] (Some 4) 2 = Inr [[22, 26]]"
proof -
  let ?idss = "[[[1, 3]], [[2, 0]]] :: int list list list" and ?sz = "[2, 1] :: nat list"
  have f: "lk_heads (two_ranks ! 1) = 2" "lk_gather_dp (two_ranks ! 1)" "lk_bf16 (two_ranks ! 1) = id" "lk_scale (two_ranks ! 1) = 2"
    by (simp_all add: two_ranks_def rank_lookup_def)
  have idss: "length ?idss = length ?sz" "\<forall>k<length ?sz. uniform (lk_heads (two_ranks ! 1)) (?idss ! k) \<and> length (?idss ! k) \<le> ?sz ! k"
    unfolding f by (auto simp: less_Suc_eq)
  have k: "0 < length ?sz" "sum_list (take 0 ?sz) + ?sz ! 0 \<le> 4" by simp_all
  have valid: "\<forall>tok\<in>set (?idss ! 0). \<forall>g\<in>set tok. 0 \<le> g \<and> g < int 4" by simp
  have i: "1 < length two_ranks" by (simp add: two_ranks_def)
  let ?L = "padded_locals (lk_heads (two_ranks ! 1)) ?idss ?sz"
  have "embed_ngram_ids (rank_view sum_reduce (seq_gather (lk_heads (two_ranks ! 1))) (seq_scatter ?sz)
      (map (\<lambda>l. ok_or [] (ple_gather l (seq_gather (lk_heads (two_ranks ! 1)) 4 ?L) None)) two_ranks) ?L 1 0 (two_ranks ! 1)) (?idss ! 0) (Some 4) (?sz ! 0) =
    Inr (map (\<lambda>tok. concat (map (\<lambda>g. map (\<lambda>v. lk_bf16 (two_ranks ! 1) v * lk_scale (two_ranks ! 1)) [of_int g + 10]) tok)) (?idss ! 0))"
    by (rule sharded_lookup_is_table[OF summed.tensor_group_axioms seq.dp_layout_axioms two_ranks_sharded i idss k valid refl _ refl])
      (simp_all add: f del: One_nat_def)
  then show ?thesis unfolding f by (intro exI[of _ ?L]) (simp add: f del: One_nat_def)
qed

end
