(* ===== verification/Ngram_Hash.thy ===== *)
theory Ngram_Hash
  imports Torch_Ops
begin

text \<open>
  The n-gram hash of the PLE embedding (\<^verbatim>\<open>Qwen4ExpNGramEmbedding\<close> of \<^verbatim>\<open>runtime-src/qwen4_exp.py\<close>):
  the multipliers, the vocabulary of each head, the shift that does not cross an end-of-sequence
  token, and the ids of a window. Token ids and products are 64-bit words, as the tensors are; the
  next prime is an argument (it comes from sympy).
\<close>

section \<open>Configuration\<close>

type_synonym i64 = "64 word"

record ngram_config =
  ngram_size :: nat
  heads_per_ngram :: nat
  unigram_vocab :: nat
  embed_dim :: nat
  vocab_base :: int
  divisible_by :: nat
  eos_token :: i64
  ng_seed :: int
  layer_index :: nat

definition ngram_heads :: "ngram_config \<Rightarrow> nat" where
  "ngram_heads c = (ngram_size c - 1) * heads_per_ngram c"

definition check_config :: "ngram_config \<Rightarrow> unit result" where
  "check_config c =
     (if ngram_size c < 2 then Inl ValueError
      else if heads_per_ngram c = 0 then Inl ValueError
      else if embed_dim c mod ngram_heads c \<noteq> 0 then Inl ValueError
      else if vocab_base c \<le> 0 then Inl ValueError
      else Inr ())"

section \<open>Multipliers\<close>

definition SPLITMIX_GAMMA :: int where "SPLITMIX_GAMMA = 0x9E3779B97F4A7C15"
definition SPLITMIX_M1 :: i64 where "SPLITMIX_M1 = 0xBF58476D1CE4E5B9"
definition SPLITMIX_M2 :: i64 where "SPLITMIX_M2 = 0x94D049BB133111EB"
definition PRIME_1 :: int where "PRIME_1 = 10007"

definition splitmix64 :: "i64 \<Rightarrow> i64" where
  "splitmix64 x =
     (let x1 = x + word_of_int SPLITMIX_GAMMA;
          x2 = (x1 XOR drop_bit 30 x1) * SPLITMIX_M1;
          x3 = (x2 XOR drop_bit 27 x2) * SPLITMIX_M2
      in x3 XOR drop_bit 31 x3)"

definition half_bound :: "nat \<Rightarrow> int" where
  "half_bound vocab = max 1 (((2 ^ 63 - 1) div max (int vocab) 1) div 2)"

definition multiplier :: "ngram_config \<Rightarrow> nat \<Rightarrow> int" where
  "multiplier c idx =
     (let base_seed = ng_seed c + PRIME_1 * int (layer_index c);
          x0 = word_of_int (base_seed + SPLITMIX_GAMMA * (int idx + 1))
      in 2 * (uint (splitmix64 x0) mod half_bound (unigram_vocab c)) + 1)"

definition build_layer_multipliers :: "ngram_config \<Rightarrow> nat \<Rightarrow> i64 list" where
  "build_layer_multipliers c n = map (\<lambda>idx. word_of_int (multiplier c idx)) [0..<n]"

section \<open>Vocabulary of the heads\<close>

fun find_nth_prime_after :: "(int \<Rightarrow> int) \<Rightarrow> int \<Rightarrow> nat \<Rightarrow> int" where
  "find_nth_prime_after nextprime start 0 = start"
| "find_nth_prime_after nextprime start (Suc n) =
     find_nth_prime_after nextprime (nextprime start) n"

definition head_vocab_size :: "(int \<Rightarrow> int) \<Rightarrow> ngram_config \<Rightarrow> nat \<Rightarrow> int" where
  "head_vocab_size nextprime c h =
     find_nth_prime_after nextprime (vocab_base c - 1) (layer_index c * ngram_heads c + h + 1)"

fun offsets_of :: "int \<Rightarrow> int list \<Rightarrow> int list \<times> int" where
  "offsets_of tot [] = ([], tot)"
| "offsets_of tot (s # ss) = (let (os, t) = offsets_of (tot + s) ss in (tot # os, t))"

definition build_head_vocab_and_offsets :: "(int \<Rightarrow> int) \<Rightarrow> ngram_config \<Rightarrow> int list \<times> int list \<times> int" where
  "build_head_vocab_and_offsets nextprime c =
     (let sizes = map (head_vocab_size nextprime c) [0..<ngram_heads c];
          (os, tot) = offsets_of 0 sizes
      in (sizes, os, tot))"

definition padded_vocab_size :: "ngram_config \<Rightarrow> int \<Rightarrow> int" where
  "padded_vocab_size c tot =
     ((tot + int (divisible_by c) - 1) div int (divisible_by c)) * int (divisible_by c)"

section \<open>The shift\<close>

text \<open>\<^verbatim>\<open>torch.cummax(xs).values\<close>\<close>

fun cummax :: "int \<Rightarrow> int list \<Rightarrow> int list" where
  "cummax m [] = []"
| "cummax m (x # xs) = max m x # cummax (max m x) xs"

definition shift_right_ignore_eos :: "i64 \<Rightarrow> i64 list \<Rightarrow> nat \<Rightarrow> i64 list" where
  "shift_right_ignore_eos eos row n =
     (if n = 0 then row
      else
        let eos_pos = map (\<lambda>(i, t). if t = eos then int i else -1) (enumerate 0 row);
            prev_eos = -1 # butlast (cummax (-1) eos_pos)
        in map (\<lambda>i. let pos_in_segment = int i - (prev_eos ! i + 1); src = int i - int n
                 in if int n \<le> pos_in_segment \<and> 0 \<le> src then row ! nat (max src 0) else eos)
             [0..<length row])"

section \<open>Ids of a window\<close>

text \<open>
  The products and the exclusive or wrap on 64 bits; \<^verbatim>\<open>torch.remainder\<close> has the sign of the
  divisor. Only the last column of a window is used.
\<close>

definition mix_of :: "i64 list \<Rightarrow> i64 list list \<Rightarrow> nat \<Rightarrow> nat \<Rightarrow> i64" where
  "mix_of mults shifted ngram i =
     fold (\<lambda>p m. m XOR (shifted ! p ! i * mults ! p)) [1..<ngram] (shifted ! 0 ! i * mults ! 0)"

definition block_ids :: "nat \<Rightarrow> i64 list \<Rightarrow> int list \<Rightarrow> int list \<Rightarrow> i64 list list \<Rightarrow> nat \<Rightarrow> nat \<Rightarrow> int list" where
  "block_ids hp mults sizes offs shifted i ngram =
     map (\<lambda>h. sint (mix_of mults shifted ngram i) mod (sizes ! h) + offs ! h)
       [(ngram - 2) * hp..<(ngram - 1) * hp]"

definition shifts_of :: "i64 \<Rightarrow> nat \<Rightarrow> i64 list \<Rightarrow> i64 list list" where
  "shifts_of eos n row = map (shift_right_ignore_eos eos row) [0..<n]"

definition hash_window :: "ngram_config \<Rightarrow> i64 list \<Rightarrow> int list \<Rightarrow> int list \<Rightarrow> i64 list list \<Rightarrow> nat \<Rightarrow> int list" where
  "hash_window c mults sizes offs shifted i =
     concat (map (block_ids (heads_per_ngram c) mults sizes offs shifted i) [2..<ngram_size c + 1])"

text \<open>
  \<^verbatim>\<open>_hash_contexts\<close> with the cache that the PLE layers of one forward share: the batch it belongs
  to, its windows, and their shifts once the first layer has computed them. A cache hit compares
  object identity, here the identity of the batch; the shifts are stored per window. The fused kernel is an argument (\<open>None\<close> when the
  fusion is off or cannot be used).
\<close>

type_synonym window_cache = "(nat \<times> i64 list list \<times> i64 list list list option) option"

definition hash_contexts ::
  "(i64 list list \<Rightarrow> int list list) option \<Rightarrow> ngram_config \<Rightarrow> i64 list \<Rightarrow> int list \<Rightarrow> int list \<Rightarrow> nat \<Rightarrow>
   i64 list list \<Rightarrow> bool \<Rightarrow> window_cache \<Rightarrow> (window_cache \<times> int list list) result" where
  "hash_contexts fused c mults sizes offs batch contexts decode_sized cache =
     (case (if decode_sized then fused else None) of
        Some f \<Rightarrow> Inr (cache, f contexts)
      | None \<Rightarrow>
          let fresh = map (shifts_of (eos_token c) (ngram_size c)) contexts;
              hit = (case cache of Some (b, _, _) \<Rightarrow> b = batch | None \<Rightarrow> False);
              stored = (case cache of Some (_, _, sh) \<Rightarrow> sh | None \<Rightarrow> None);
              ids = (\<lambda>shs. map2 (\<lambda>sh row. hash_window c mults sizes offs sh (length row - 1)) shs contexts)
          in if hit \<and> stored \<noteq> None then
               (if (\<exists>sh\<in>set (the stored). length sh \<noteq> ngram_size c) then Inl AssertionError
                else Inr (cache, ids (the stored)))
             else Inr (if hit then map_option (\<lambda>(b, w, _). (b, contexts, Some fresh)) cache else cache, ids fresh))"

section \<open>The shift looks back inside a sequence\<close>

text \<open>
  The reference: the token \<open>n\<close> places back, or the end-of-sequence token when the sequence, or the
  text, does not reach that far back.
\<close>

definition look_back :: "i64 \<Rightarrow> i64 list \<Rightarrow> nat \<Rightarrow> nat \<Rightarrow> i64" where
  "look_back eos toks i n = (if n \<le> i \<and> eos \<notin> set (take n (drop (i - n) toks)) then toks ! (i - n) else eos)"

lemma length_cummax [simp]: "length (cummax m xs) = length xs"
  by (induction xs arbitrary: m) auto

lemma cummax_le: "k < length xs \<Longrightarrow> cummax m xs ! k \<le> v \<longleftrightarrow> m \<le> v \<and> (\<forall>j\<le>k. xs ! j \<le> v)"
proof (induction xs arbitrary: m k)
  case Nil
  then show ?case by simp
next
  case (Cons x xs)
  show ?case
  proof (cases k)
    case 0
    then show ?thesis by simp
  next
    case (Suc k')
    have "(\<forall>j\<le>Suc k'. (x # xs) ! j \<le> v) \<longleftrightarrow> x \<le> v \<and> (\<forall>j\<le>k'. xs ! j \<le> v)"
      by (metis Suc_le_mono le0 nth_Cons_0 nth_Cons_Suc not0_implies_Suc)
    then show ?thesis using Suc Cons.IH[of k' "max m x"] Cons.prems by auto
  qed
qed

lemma set_slice: "i \<le> length xs \<Longrightarrow> n \<le> i \<Longrightarrow> x \<in> set (take n (drop (i - n) xs)) \<longleftrightarrow> (\<exists>j. i - n \<le> j \<and> j < i \<and> xs ! j = x)"
proof -
  assume a: "i \<le> length xs" "n \<le> i"
  have "x \<in> set (take n (drop (i - n) xs)) \<longleftrightarrow> (\<exists>q<n. xs ! (i - n + q) = x)"
    using a by (auto simp: in_set_conv_nth)
  also have "\<dots> \<longleftrightarrow> (\<exists>j. i - n \<le> j \<and> j < i \<and> xs ! j = x)"
  proof
    assume "\<exists>q<n. xs ! (i - n + q) = x"
    then obtain q where "q < n" "xs ! (i - n + q) = x" by blast
    then show "\<exists>j. i - n \<le> j \<and> j < i \<and> xs ! j = x" using a(2) by (intro exI[of _ "i - n + q"]) auto
  next
    assume "\<exists>j. i - n \<le> j \<and> j < i \<and> xs ! j = x"
    then obtain j where "i - n \<le> j" "j < i" "xs ! j = x" by blast
    then show "\<exists>q<n. xs ! (i - n + q) = x" using a(2) by (intro exI[of _ "j - (i - n)"]) auto
  qed
  finally show ?thesis .
qed

lemma shift_nth:
  assumes i: "i < length row"
  shows "shift_right_ignore_eos eos row n ! i = look_back eos row i n"
proof (cases "n = 0")
  case True
  then show ?thesis using i by (simp add: shift_right_ignore_eos_def look_back_def)
next
  case False
  let ?ep = "map (\<lambda>(i, t). if t = eos then int i else -1) (enumerate 0 row)"
  let ?prev = "-1 # butlast (cummax (-1) ?ep)"
  have prev: "?prev ! i \<le> v \<longleftrightarrow> (\<forall>j<i. row ! j = eos \<longrightarrow> int j \<le> v)" if v: "-1 \<le> v" for v
  proof (cases i)
    case 0
    then show ?thesis using v by simp
  next
    case (Suc k)
    have "butlast (cummax (-1) ?ep) ! k = cummax (-1) ?ep ! k" using i Suc by (simp add: nth_butlast)
    moreover have "cummax (-1) ?ep ! k \<le> v \<longleftrightarrow> -1 \<le> v \<and> (\<forall>j\<le>k. ?ep ! j \<le> v)"
      by (rule cummax_le) (use i Suc in simp)
    moreover have "?ep ! j = (if row ! j = eos then int j else -1)" if "j \<le> k" for j
      using that i Suc by (simp add: nth_enumerate_eq)
    ultimately show ?thesis using v Suc by (auto simp: less_Suc_eq_le)
  qed
  show ?thesis
  proof (cases "n \<le> i")
    case False
    then show ?thesis using i \<open>n \<noteq> 0\<close>
      by (simp add: shift_right_ignore_eos_def look_back_def Let_def)
  next
    case True
    have "(int n \<le> int i - (?prev ! i + 1)) \<longleftrightarrow> ?prev ! i \<le> int i - int n - 1" by linarith
    also have "\<dots> \<longleftrightarrow> (\<forall>j<i. row ! j = eos \<longrightarrow> int j \<le> int i - int n - 1)" by (rule prev) (use True in simp)
    also have "\<dots> \<longleftrightarrow> (\<forall>j. i - n \<le> j \<and> j < i \<longrightarrow> row ! j \<noteq> eos)"
    proof -
      have "int j \<le> int i - int n - 1 \<longleftrightarrow> j < i - n" for j using True by linarith
      then show ?thesis by (auto simp: not_less[symmetric])
    qed
    also have "\<dots> \<longleftrightarrow> eos \<notin> set (take n (drop (i - n) row))"
      using set_slice[of i row n eos] True i by auto
    finally have "(int n \<le> int i - (?prev ! i + 1)) \<longleftrightarrow> eos \<notin> set (take n (drop (i - n) row))" .
    moreover have "nat (max (int i - int n) 0) = i - n" by simp
    ultimately show ?thesis using i True \<open>n \<noteq> 0\<close>
      by (simp add: shift_right_ignore_eos_def look_back_def Let_def del: nth_Cons')
  qed
qed

text \<open>Looking back is local, and padding in front with end-of-sequence tokens changes nothing.\<close>

lemma look_back_slice:
  assumes "n \<le> i" "i < length w"
  shows "take n (drop (length pre + i - n) (pre @ w @ post)) = take n (drop (i - n) w)"
    and "(pre @ w @ post) ! (length pre + i - n) = w ! (i - n)"
proof -
  obtain q where i: "i = n + q" using assms(1) le_Suc_ex by blast
  have q: "length pre + i - n = length pre + q" "i - n = q" "n \<le> length w - q" "q < length w"
    using assms(2) unfolding i by auto
  have "drop (length pre + q) (pre @ w @ post) = drop q w @ post" using q(4) by simp
  then show "take n (drop (length pre + i - n) (pre @ w @ post)) = take n (drop (i - n) w)"
    unfolding q(1,2) using q(3) by simp
  show "(pre @ w @ post) ! (length pre + i - n) = w ! (i - n)"
    unfolding q(1,2) nth_append_length_plus using q(4) by (rule nth_append_left)
qed

lemma back_local:
  assumes "n \<le> i" "i < length w"
  shows "look_back eos (pre @ w @ post) (length pre + i) n = look_back eos w i n"
  unfolding look_back_def look_back_slice[OF assms] using assms(1) trans_le_add2[of n i "length pre"] by (simp only: if_True simp_thms)

lemma back_padded: "look_back eos (replicate k eos @ toks) (k + i) n = look_back eos toks i n"
proof (cases "n \<le> i")
  case True
  then obtain q where i: "i = n + q" using le_Suc_ex by blast
  have "drop (k + q) (replicate k eos @ toks) = drop q toks" "(replicate k eos @ toks) ! (k + q) = toks ! q"
    by (simp_all add: nth_append)
  moreover have "k + i - n = k + q" "i - n = q" unfolding i by auto
  ultimately show ?thesis using True unfolding look_back_def by (simp only: trans_le_add2 if_True simp_thms)
next
  case False
  have "eos \<in> set (take n (drop (k + i - n) (replicate k eos @ toks)))" if "n \<le> k + i"
  proof -
    let ?d = "drop (k + i - n) (replicate k eos @ toks)"
    have lt: "k + i - n < k" using False that by linarith
    have "?d ! 0 = eos" using lt by (simp add: nth_append)
    moreover have "?d \<noteq> []" using lt by simp
    moreover have "0 < n" using False by simp
    ultimately show ?thesis by (cases ?d; cases n) auto
  qed
  then show ?thesis using False unfolding look_back_def by auto
qed

text \<open>The ids of token \<open>i\<close> of a text, computed from the text itself.\<close>

definition spec_mix :: "i64 \<Rightarrow> i64 list \<Rightarrow> i64 list \<Rightarrow> nat \<Rightarrow> nat \<Rightarrow> i64" where
  "spec_mix eos mults toks i ngram =
     fold (\<lambda>p m. m XOR (look_back eos toks i p * mults ! p)) [1..<ngram] (look_back eos toks i 0 * mults ! 0)"

definition spec_ids :: "ngram_config \<Rightarrow> i64 list \<Rightarrow> int list \<Rightarrow> int list \<Rightarrow> i64 list \<Rightarrow> nat \<Rightarrow> int list" where
  "spec_ids c mults sizes offs toks i = concat (map (\<lambda>ngram.
     map (\<lambda>h. sint (spec_mix (eos_token c) mults toks i ngram) mod (sizes ! h) + offs ! h)
       [(ngram - 2) * heads_per_ngram c..<(ngram - 1) * heads_per_ngram c]) [2..<ngram_size c + 1])"

lemma hash_window_spec:
  assumes i: "i < length row"
  shows "hash_window c mults sizes offs (shifts_of (eos_token c) (ngram_size c) row) i =
    spec_ids c mults sizes offs row i"
proof -
  have "mix_of mults (shifts_of (eos_token c) (ngram_size c) row) ngram i = spec_mix (eos_token c) mults row i ngram"
    if n: "1 < ngram" "ngram \<le> ngram_size c" for ngram
  proof -
    have s: "shifts_of (eos_token c) (ngram_size c) row ! p ! i = look_back (eos_token c) row i p" if "p < ngram" for p
      using that n shift_nth[OF i] by (simp add: shifts_of_def)
    have "fold (\<lambda>p m. m XOR (shifts_of (eos_token c) (ngram_size c) row ! p ! i * mults ! p)) [1..<ngram] z =
        fold (\<lambda>p m. m XOR (look_back (eos_token c) row i p * mults ! p)) [1..<ngram] z" for z
      by (rule fold_cong) (auto simp: s)
    then show ?thesis using s[of 0] n by (simp add: mix_of_def spec_mix_def)
  qed
  then show ?thesis by (auto simp: hash_window_def spec_ids_def block_ids_def intro!: arg_cong[where f = concat])
qed

text \<open>A window of the padded text gives the ids of its last token.\<close>

lemma window_ids:
  assumes N: "1 \<le> ngram_size c" and i: "i < length toks"
    and w: "take (ngram_size c) (drop i (replicate (ngram_size c - 1) (eos_token c) @ toks @ rest)) = w"
  shows "length w = ngram_size c"
    and "spec_ids c mults sizes offs w (ngram_size c - 1) = spec_ids c mults sizes offs toks i"
proof -
  let ?N = "ngram_size c" and ?e = "eos_token c"
  let ?pad = "replicate (?N - 1) ?e @ toks @ rest"
  show l: "length w = ?N" using N i unfolding w[symmetric] by simp
  have split: "?pad = take i ?pad @ w @ drop ?N (drop i ?pad)" unfolding w[symmetric]
    by (subst append_take_drop_id, subst append_take_drop_id) (rule refl)
  have li: "length (take i ?pad) = i" using i by simp
  have b: "look_back ?e w (?N - 1) p = look_back ?e toks i p" if p: "p < ?N" for p
  proof -
    have "look_back ?e w (?N - 1) p = look_back ?e ?pad (i + (?N - 1)) p"
    proof -
      have "look_back ?e (take i ?pad @ w @ drop ?N (drop i ?pad)) (length (take i ?pad) + (?N - 1)) p =
          look_back ?e w (?N - 1) p"
        by (rule back_local) (use p l N in auto)
      then show ?thesis unfolding split[symmetric] li by (rule sym)
    qed
    also have "\<dots> = look_back ?e (toks @ rest) i p" using back_padded[of ?e "?N - 1" "toks @ rest" i p] by (simp add: add.commute)
    also have "\<dots> = look_back ?e toks i p" using i by (auto simp: look_back_def nth_append)
    finally show ?thesis .
  qed
  have "spec_mix ?e mults w (?N - 1) ngram = spec_mix ?e mults toks i ngram" if "1 < ngram" "ngram \<le> ?N" for ngram
  proof -
    have "fold (\<lambda>p m. m XOR (look_back ?e w (?N - 1) p * mults ! p)) [1..<ngram] z =
        fold (\<lambda>p m. m XOR (look_back ?e toks i p * mults ! p)) [1..<ngram] z" for z
      by (rule fold_cong) (use b that in auto)
    then show ?thesis using b[of 0] that by (simp add: spec_mix_def)
  qed
  then show "spec_ids c mults sizes offs w (?N - 1) = spec_ids c mults sizes offs toks i"
    by (auto simp: spec_ids_def intro!: arg_cong[where f = concat])
qed

section \<open>Multipliers keep products exact\<close>

lemma multiplier_range: "1 \<le> multiplier c p" "multiplier c p \<le> max 1 ((2 ^ 63 - 1) div max (int (unigram_vocab c)) 1)"
  and multiplier_odd: "odd (multiplier c p)"
proof -
  define q where "q = (2 ^ 63 - 1) div max (int (unigram_vocab c)) 1"
  define u where "u = uint (splitmix64 (word_of_int (ng_seed c + PRIME_1 * int (layer_index c) + SPLITMIX_GAMMA * (int p + 1)))) mod half_bound (unigram_vocab c)"
  have m: "multiplier c p = 2 * u + 1" by (simp add: multiplier_def u_def Let_def)
  have hb: "half_bound (unigram_vocab c) = max 1 (q div 2)" by (simp add: half_bound_def q_def)
  have u: "0 \<le> u" "u < max 1 (q div 2)" unfolding u_def hb by simp_all
  show "1 \<le> multiplier c p" "odd (multiplier c p)" using u(1) unfolding m by auto
  show "multiplier c p \<le> max 1 ((2 ^ 63 - 1) div max (int (unigram_vocab c)) 1)"
    unfolding m q_def[symmetric] using u by linarith
qed

lemma sint_i64_of_int: "0 \<le> k \<Longrightarrow> k < 2 ^ 63 \<Longrightarrow> sint (word_of_int k :: i64) = k"
  by (simp add: signed_take_bit_int_eq_self sint_sbintrunc')

lemma product_exact:
  fixes t :: i64
  assumes t: "0 \<le> sint t" "sint t < int (unigram_vocab c)" and p: "p < n"
  shows "sint (t * build_layer_multipliers c n ! p) = sint t * multiplier c p"
proof -
  define m where "m = multiplier c p"
  define V where "V = int (unigram_vocab c)"
  have V: "0 < V" using t unfolding V_def by simp
  have mr: "1 \<le> m" "m \<le> max 1 ((2 ^ 63 - 1) div V)"
  proof -
    have "max (int (unigram_vocab c)) 1 = V" using V unfolding V_def by simp
    then show "1 \<le> m" "m \<le> max 1 ((2 ^ 63 - 1) div V)" using multiplier_range[of c p] unfolding m_def by simp_all
  qed
  have s63: "sint t < 2 ^ 63" using sint_lt[of t] by simp
  have "sint t * m < 2 ^ 63"
  proof (cases "m = 1")
    case True
    then show ?thesis using s63 by simp
  next
    case False
    then have "m \<le> (2 ^ 63 - 1) div V" using mr by linarith
    then have "V * m \<le> V * ((2 ^ 63 - 1) div V)" using V by (intro mult_left_mono) simp_all
    also have "\<dots> \<le> 2 ^ 63 - 1" using V by (metis minus_mod_eq_mult_div pos_mod_sign diff_le_eq le_add_same_cancel1)
    finally have "V * m < 2 ^ 63" by linarith
    moreover have "sint t * m \<le> V * m" using t(2) mr(1) unfolding V_def by (intro mult_right_mono) linarith+
    ultimately show ?thesis by linarith
  qed
  moreover have "0 \<le> sint t * m" using t(1) mr(1) by (intro mult_nonneg_nonneg) linarith+
  ultimately have "sint (word_of_int (sint t * m) :: i64) = sint t * m" by (intro sint_i64_of_int)
  moreover have "t * build_layer_multipliers c n ! p = word_of_int (sint t * m)"
    using p by (simp add: build_layer_multipliers_def m_def)
  ultimately show ?thesis unfolding m_def by simp
qed

section \<open>The heads share the table without overlap\<close>

lemma offsets_of_eq: "offsets_of tot ss = (map (\<lambda>k. tot + sum_list (take k ss)) [0..<length ss], tot + sum_list ss)"
proof (induction ss arbitrary: tot)
  case Nil
  then show ?case by simp
next
  case (Cons s ss)
  have "map (\<lambda>k. tot + sum_list (take k (s # ss))) [0..<length (s # ss)] =
      tot # map (\<lambda>k. tot + s + sum_list (take k ss)) [0..<length ss]"
    by (subst upt_conv_Cons) (simp_all add: map_Suc_upt[symmetric] add.assoc del: upt_Suc)
  then show ?case using Cons.IH by (simp add: add.assoc del: upt_Suc)
qed

lemma find_nth_prime_after_gt:
  "\<forall>x. x < nextprime x \<Longrightarrow> start \<le> find_nth_prime_after nextprime start n \<and>
     (0 < n \<longrightarrow> start < find_nth_prime_after nextprime start n)"
proof (induction n arbitrary: start)
  case 0
  then show ?case by simp
next
  case (Suc n)
  have "nextprime start \<le> find_nth_prime_after nextprime (nextprime start) n" using Suc by blast
  then show ?case using Suc.prems by (metis find_nth_prime_after.simps(2) less_le_trans order_less_imp_le)
qed

lemma block_upt: "concat (map (\<lambda>g. map (f g) [(g - 2) * hp..<(g - 1) * hp]) [2..<N + 1]) =
    map (\<lambda>h. f (h div hp + 2) h) [0..<(N - 1) * hp]" if "1 \<le> N" for N hp :: nat
  using that
proof (induction N rule: nat_induct_at_least)
  case base
  then show ?case by simp
next
  case (Suc N)
  have "map (f (N + 1)) [(N - 1) * hp..<N * hp] = map (\<lambda>h. f (h div hp + 2) h) [(N - 1) * hp..<N * hp]"
  proof (rule map_cong)
    fix h assume "h \<in> set [(N - 1) * hp..<N * hp]"
    then have "(N - 1) * hp \<le> h" "h < Suc (N - 1) * hp" using Suc.hyps by auto
    then have "h div hp = N - 1" by (intro div_nat_eqI) (simp_all add: mult.commute)
    then show "f (N + 1) h = f (h div hp + 2) h" using Suc.hyps by simp
  qed simp
  moreover have "[0..<N * hp] = [0..<(N - 1) * hp] @ [(N - 1) * hp..<N * hp]"
    using upt_add_eq_append[of 0 "(N - 1) * hp" "N * hp - (N - 1) * hp"] by (simp add: mult_le_mono1)
  ultimately show ?case using Suc by simp
qed

lemma spec_ids_flat:
  assumes "1 \<le> ngram_size c"
  shows "spec_ids c mults sizes offs toks i = map (\<lambda>h.
    sint (spec_mix (eos_token c) mults toks i (h div heads_per_ngram c + 2)) mod (sizes ! h) + offs ! h) [0..<ngram_heads c]"
  unfolding spec_ids_def ngram_heads_def by (rule block_upt[OF assms])

lemma sum_take_mono: "\<forall>x\<in>set (xs :: int list). 0 \<le> x \<Longrightarrow> k \<le> n \<Longrightarrow> sum_list (take k xs) \<le> sum_list (take n xs)"
proof -
  assume nn: "\<forall>x\<in>set xs. 0 \<le> x" and kn: "k \<le> n"
  have "take n xs = take k xs @ take (n - k) (drop k xs)" using kn take_add[of k "n - k" xs] by simp
  moreover have "0 \<le> sum_list (take (n - k) (drop k xs))"
    by (rule sum_list_nonneg) (use nn in \<open>auto dest!: in_set_takeD in_set_dropD\<close>)
  ultimately show ?thesis by simp
qed

lemma ngram_ids_bounds:
  assumes nextprime: "\<forall>x. x < nextprime x"
    and ok: "check_config c = Inr ()" and d: "0 < divisible_by c"
    and vocab: "build_head_vocab_and_offsets nextprime c = (sizes, offs, tot)"
    and i: "i < length toks" and h: "h < ngram_heads c"
  defines "mults \<equiv> build_layer_multipliers c (ngram_size c)"
  defines "ids \<equiv> hash_window c mults sizes offs (shifts_of (eos_token c) (ngram_size c) toks) i"
  shows "length ids = ngram_heads c" and "offs ! h \<le> ids ! h" and "ids ! h < offs ! h + sizes ! h"
    and "Suc h < ngram_heads c \<Longrightarrow> offs ! Suc h = offs ! h + sizes ! h"
    and "offs ! h + sizes ! h \<le> tot" and "tot \<le> padded_vocab_size c tot"
    and "padded_vocab_size c tot < tot + int (divisible_by c)" and "int (divisible_by c) dvd padded_vocab_size c tot"
    and "p < ngram_size c \<Longrightarrow> 0 \<le> sint t \<Longrightarrow> sint t < int (unigram_vocab c) \<Longrightarrow>
      sint (t * mults ! p) = sint t * multiplier c p \<and> odd (multiplier c p)"
proof -
  have N: "2 \<le> ngram_size c" and vb: "0 < vocab_base c" using ok by (auto simp: check_config_def split: if_splits)
  have sz: "sizes = map (head_vocab_size nextprime c) [0..<ngram_heads c]"
    and os: "offs = map (\<lambda>k. sum_list (take k sizes)) [0..<length sizes]" and tt: "tot = sum_list sizes"
    using vocab by (auto simp: build_head_vocab_and_offsets_def Let_def offsets_of_eq simp del: upt_Suc)
  have pos: "0 < head_vocab_size nextprime c k" for k
    using find_nth_prime_after_gt[OF nextprime, of "vocab_base c - 1" "layer_index c * ngram_heads c + k + 1"] vb
    unfolding head_vocab_size_def by linarith
  then have nn: "\<forall>x\<in>set sizes. 0 \<le> x" unfolding sz by (auto intro: less_imp_le)
  have len: "length sizes = ngram_heads c" unfolding sz by simp
  have ids: "ids = spec_ids c mults sizes offs toks i" unfolding ids_def by (rule hash_window_spec[OF i])
  then have flat: "ids = map (\<lambda>h. sint (spec_mix (eos_token c) mults toks i (h div heads_per_ngram c + 2)) mod (sizes ! h) + offs ! h) [0..<ngram_heads c]"
    using spec_ids_flat N by simp
  show "length ids = ngram_heads c" unfolding flat by simp
  have sp: "0 < sizes ! h" using pos h unfolding sz by simp
  show "offs ! h \<le> ids ! h" "ids ! h < offs ! h + sizes ! h" using h sp unfolding flat by simp_all
  have nxt: "sum_list (take (Suc k) sizes) = sum_list (take k sizes) + sizes ! k" if "k < length sizes" for k
    using that by (simp add: take_Suc_conv_app_nth)
  show "Suc h < ngram_heads c \<Longrightarrow> offs ! Suc h = offs ! h + sizes ! h"
    using nxt[of h] h len unfolding os by simp
  have "sum_list (take (Suc h) sizes) \<le> sum_list (take (length sizes) sizes)"
    by (rule sum_take_mono[OF nn]) (use h len in simp)
  then show "offs ! h + sizes ! h \<le> tot" using nxt[of h] h len unfolding os tt by simp
  define D where "D = int (divisible_by c)"
  have D: "0 < D" using d unfolding D_def by simp
  have pv: "padded_vocab_size c tot = (tot + D - 1) - (tot + D - 1) mod D"
    unfolding padded_vocab_size_def D_def[symmetric] by (simp add: minus_mod_eq_div_mult)
  have "0 \<le> (tot + D - 1) mod D" "(tot + D - 1) mod D < D" using D by simp_all
  then show "tot \<le> padded_vocab_size c tot" "padded_vocab_size c tot < tot + int (divisible_by c)"
    unfolding pv D_def[symmetric] by linarith+
  show "int (divisible_by c) dvd padded_vocab_size c tot" by (simp add: padded_vocab_size_def)
  show "p < ngram_size c \<Longrightarrow> 0 \<le> sint t \<Longrightarrow> sint t < int (unigram_vocab c) \<Longrightarrow>
      sint (t * mults ! p) = sint t * multiplier c p \<and> odd (multiplier c p)"
    unfolding mults_def using product_exact multiplier_odd by blast
qed

text \<open>
  C25: bounds of the n-gram ids. A token of the vocabulary times a multiplier never wraps, and the
  multipliers are odd. The id that head \<open>h\<close> gives lies in the head's own range of the table, the
  ranges follow one another without overlap, and the last one ends inside the padded table, whose
  size is the next multiple of the configured divisor.
\<close>

theorem ngram_ids_in_head_ranges:
  assumes nextprime: "\<forall>x. x < nextprime x"
    and ok: "check_config c = Inr ()" and d: "0 < divisible_by c"
    and vocab: "build_head_vocab_and_offsets nextprime c = (sizes, offs, tot)"
    and i: "i < length toks" and h: "h < ngram_heads c"
  shows "let mults = build_layer_multipliers c (ngram_size c);
      ids = hash_window c mults sizes offs (shifts_of (eos_token c) (ngram_size c) toks) i
    in length ids = ngram_heads c \<and> offs ! h \<le> ids ! h \<and> ids ! h < offs ! h + sizes ! h \<and>
      (Suc h < ngram_heads c \<longrightarrow> offs ! Suc h = offs ! h + sizes ! h) \<and>
      offs ! h + sizes ! h \<le> tot \<and> tot \<le> padded_vocab_size c tot \<and>
      padded_vocab_size c tot < tot + int (divisible_by c) \<and> int (divisible_by c) dvd padded_vocab_size c tot \<and>
      (\<forall>p<ngram_size c. \<forall>t. 0 \<le> sint t \<longrightarrow> sint t < int (unigram_vocab c) \<longrightarrow>
        sint (t * mults ! p) = sint t * multiplier c p \<and> odd (multiplier c p))"
  unfolding Let_def using ngram_ids_bounds[OF assms] by blast

text \<open>Two heads per n-gram, a vocabulary of 100 tokens; the next-prime argument is a step by two.\<close>

definition demo_ngram :: ngram_config where
  "demo_ngram = \<lparr>ngram_size = 3, heads_per_ngram = 2, unigram_vocab = 100, embed_dim = 8, vocab_base = 11,
     divisible_by = 8, eos_token = 7, ng_seed = 1234, layer_index = 1\<rparr>"

lemma ngram_ids_in_head_ranges_witness:
  "hash_window demo_ngram (build_layer_multipliers demo_ngram (ngram_size demo_ngram)) [20, 22, 24, 26] [0, 20, 42, 66]
     (shifts_of (eos_token demo_ngram) (ngram_size demo_ngram) [5, 7, 9]) 2 ! 1 < [0, 20, 42, 66] ! 1 + [20, 22, 24, 26] ! 1"
proof -
  have "check_config demo_ngram = Inr ()" "0 < divisible_by demo_ngram" "1 < ngram_heads demo_ngram"
    "build_head_vocab_and_offsets (\<lambda>x. x + 2) demo_ngram = ([20, 22, 24, 26], [0, 20, 42, 66], 92)" by code_simp+
  then show ?thesis
    using ngram_ids_in_head_ranges[of "\<lambda>x. x + 2" demo_ngram "[20, 22, 24, 26]" "[0, 20, 42, 66]" 92 2 "[5, 7, 9]" 1]
    unfolding Let_def by simp
qed

end
