(* ===== verification/Req_Pool.thy ===== *)
theory Req_Pool
  imports Slot_Alloc
begin

text \<open>
  The request-to-token pool (\<^verbatim>\<open>ReqToTokenPool\<close> of \<^verbatim>\<open>runtime-src/memory_pool.py\<close>): the free list of
  request slots, with a padding slot 0 that is never handed out, and the generation counters. The
  requests of one batch are distinct objects, given and returned as a list of records.
\<close>

section \<open>Requests and the pool\<close>

record req =
  rid :: nat
  req_pool_idx :: "nat option"
  inflight_middle_chunks :: int
  kv_committed_len :: int
  mamba_pool_idx :: "nat option"
  mamba_needs_clear :: bool
  mamba_ping_pong :: "int list option"
  mamba_next_track :: "int option"
  mamba_last_track :: "int option"

record req_pool =
  rp_size :: nat
  rp_alloc_size :: nat
  rp_tokens :: "int list list"
  rp_free_slots :: "nat list"
  rp_gen :: "int list"

definition init_req_pool :: "nat \<Rightarrow> nat \<Rightarrow> req_pool" where
  "init_req_pool sz max_context_len =
     \<lparr>rp_size = sz, rp_alloc_size = sz + 1,
      rp_tokens = replicate (sz + 1) (replicate max_context_len 0),
      rp_free_slots = [1..<sz + 1], rp_gen = replicate (sz + 1) 0\<rparr>"

definition rp_available_size :: "('z) req_pool_scheme \<Rightarrow> nat" where
  "rp_available_size P = length (rp_free_slots P)"

text \<open>The slots popped from the tail of the free list, all or nothing.\<close>

definition rp_take :: "('z) req_pool_scheme \<Rightarrow> nat \<Rightarrow> ('z) req_pool_scheme \<times> nat list option" where
  "rp_take P n =
     (let k = length (rp_free_slots P)
      in if k < n then (P, None)
         else (P\<lparr>rp_free_slots := take (k - n) (rp_free_slots P)\<rparr>, Some (drop (k - n) (rp_free_slots P))))"

fun assign_slots :: "nat list \<Rightarrow> int list \<Rightarrow> req list \<Rightarrow> int list \<times> req list" where
  "assign_slots sel gen [] = (gen, [])"
| "assign_slots sel gen (r # rs) =
     (case req_pool_idx r of
        Some i \<Rightarrow> (let (g, rs') = assign_slots sel gen rs in (g, r # rs'))
      | None \<Rightarrow>
         (case sel of
            [] \<Rightarrow> (gen, r # rs)
          | s # ss \<Rightarrow>
              (let (g, rs') = assign_slots ss (gen[s := gen ! s + 1]) rs
               in (g, r\<lparr>req_pool_idx := Some s\<rparr> # rs'))))"

definition reusable :: "req \<Rightarrow> bool" where
  "reusable r \<longleftrightarrow> 0 < inflight_middle_chunks r \<or> 0 < kv_committed_len r"

definition is_reusing :: "req \<Rightarrow> bool" where
  "is_reusing r \<longleftrightarrow> req_pool_idx r \<noteq> None"

definition rp_alloc ::
  "('z) req_pool_scheme \<Rightarrow> req list \<Rightarrow> (('z) req_pool_scheme \<times> req list \<times> nat list option) result" where
  "rp_alloc P reqs =
     (let reusing = filter is_reusing reqs
      in if \<not> (\<forall>r\<in>set reusing. reusable r) then Inl AssertionError
         else case rp_take P (length reqs - length reusing) of
           (_, None) \<Rightarrow> Inr (P, reqs, None)
         | (P1, Some sel) \<Rightarrow>
             (let (g, reqs') = assign_slots sel (rp_gen P1) reqs
              in Inr (P1\<lparr>rp_gen := g\<rparr>, reqs', Some (map (\<lambda>r. the (req_pool_idx r)) reqs'))))"

definition rp_free :: "('z) req_pool_scheme \<Rightarrow> req \<Rightarrow> (('z) req_pool_scheme \<times> req) result" where
  "rp_free P r =
     (case req_pool_idx r of
        None \<Rightarrow> Inl AssertionError
      | Some i \<Rightarrow> Inr (P\<lparr>rp_free_slots := rp_free_slots P @ [i]\<rparr>, r\<lparr>req_pool_idx := None\<rparr>))"

definition rp_clear :: "('z) req_pool_scheme \<Rightarrow> ('z) req_pool_scheme" where
  "rp_clear P = P\<lparr>rp_free_slots := [1..<rp_alloc_size P],
                 rp_gen := replicate (length (rp_gen P)) 0\<rparr>"

section \<open>The free list as a slot allocator\<close>

definition rp_ops :: "(('z) req_pool_scheme) alloc_ops" where
  "rp_ops = \<lparr>al_alloc = rp_take,
     al_free = (\<lambda>P ss. P\<lparr>rp_free_slots := rp_free_slots P @ ss\<rparr>),
     al_available = rp_available_size, al_clear = rp_clear\<rparr>"

definition rp_ok :: "('z) req_pool_scheme \<Rightarrow> bool" where
  "rp_ok P \<longleftrightarrow> distinct (rp_free_slots P) \<and> set (rp_free_slots P) \<subseteq> {1..<rp_alloc_size P}"

definition rp_avail :: "('z) req_pool_scheme \<Rightarrow> nat set" where
  "rp_avail P = set (rp_free_slots P)"

definition rp_slots :: "('z) req_pool_scheme \<Rightarrow> nat set" where
  "rp_slots P = {1..<rp_alloc_size P}"

lemma rp_take_Some:
  assumes "rp_take P n = (P', Some ss)"
  shows "rp_free_slots P = rp_free_slots P' @ ss" and "length ss = n"
    and "P' = P\<lparr>rp_free_slots := rp_free_slots P'\<rparr>"
  using assms by (auto simp: rp_take_def Let_def split: if_splits)

lemma rp_take_None: "rp_take P n = (P', None) \<longleftrightarrow> P' = P \<and> length (rp_free_slots P) < n"
  by (auto simp: rp_take_def Let_def)

interpretation rp: slot_alloc rp_ops rp_ok rp_avail rp_slots
proof
  fix a a' :: "('z) req_pool_scheme" and n :: nat and ss :: "nat list"
  assume ok: "rp_ok a"
  show "rp_avail a \<subseteq> rp_slots a \<and> finite (rp_slots a)"
    using ok by (auto simp: rp_ok_def rp_avail_def rp_slots_def)
  show "al_available rp_ops a = card (rp_avail a)"
    using ok by (simp add: rp_ops_def rp_available_size_def rp_avail_def rp_ok_def distinct_card)
  show "rp_ok (al_clear rp_ops a) \<and> rp_slots (al_clear rp_ops a) = rp_slots a \<and>
      rp_avail (al_clear rp_ops a) = rp_slots a"
    by (simp add: rp_ops_def rp_clear_def rp_ok_def rp_slots_def rp_avail_def)
  {
    assume al: "al_alloc rp_ops a n = (a', Some ss)"
    have t: "rp_take a n = (a', Some ss)" using al by (simp add: rp_ops_def)
    note T = rp_take_Some[OF t]
    have sz: "rp_alloc_size a' = rp_alloc_size a" by (subst T(3)) simp
    show "rp_ok a' \<and> rp_slots a' = rp_slots a \<and> length ss = n \<and> distinct ss \<and> set ss \<subseteq> rp_avail a \<and>
        rp_avail a' = rp_avail a - set ss"
      using ok T(1,2) sz by (auto simp: rp_ok_def rp_slots_def rp_avail_def)
  next
    assume "al_alloc rp_ops a n = (a', None)"
    then show "a' = a \<and> card (rp_avail a) < n"
      using ok by (auto simp: rp_ops_def rp_take_None rp_avail_def rp_ok_def distinct_card)
  next
    assume "distinct ss" "set ss \<subseteq> rp_slots a - rp_avail a"
    then show "rp_ok (al_free rp_ops a ss) \<and> rp_slots (al_free rp_ops a ss) = rp_slots a \<and>
        rp_avail (al_free rp_ops a ss) = rp_avail a \<union> set ss"
      using ok by (auto simp: rp_ops_def rp_ok_def rp_slots_def rp_avail_def)
  }
qed

section \<open>Allocation\<close>

lemma assign_slots_spec:
  assumes "assign_slots sel gen rs = (g, rs')" and "length sel = length (filter (\<lambda>r. \<not> is_reusing r) rs)"
    and "distinct sel"
  shows "length rs' = length rs \<and> length g = length gen \<and>
     (\<forall>i<length rs. rs' ! i = (rs ! i)\<lparr>req_pool_idx := req_pool_idx (rs' ! i)\<rparr> \<and> is_reusing (rs' ! i) \<and>
        (is_reusing (rs ! i) \<longrightarrow> rs' ! i = rs ! i)) \<and>
     map (\<lambda>(r, r'). the (req_pool_idx r')) (filter (\<lambda>(r, r'). \<not> is_reusing r) (zip rs rs')) = sel \<and>
     (\<forall>s<length gen. g ! s = gen ! s + (if s \<in> set sel then 1 else 0))"
  using assms
proof (induction rs arbitrary: sel gen rs')
  case Nil
  then show ?case by simp
next
  case (Cons r rs)
  show ?case
  proof (cases "is_reusing r")
    case True
    then obtain i rs1 where "req_pool_idx r = Some i" "assign_slots sel gen rs = (g, rs1)" "rs' = r # rs1"
      using Cons.prems(1) by (auto simp: is_reusing_def split: prod.splits)
    then show ?thesis using Cons.IH[of sel gen rs1] Cons.prems True by (auto simp: nth_Cons split: nat.splits)
  next
    case False
    then obtain s ss where sel: "sel = s # ss" using Cons.prems(2) by (cases sel) auto
    have ri: "req_pool_idx r = None" using False by (simp add: is_reusing_def)
    obtain rs1 where r1: "assign_slots ss (gen[s := gen ! s + 1]) rs = (g, rs1)"
        "rs' = r\<lparr>req_pool_idx := Some s\<rparr> # rs1"
      using Cons.prems(1) ri sel by (auto split: prod.splits)
    have "length ss = length (filter (\<lambda>r. \<not> is_reusing r) rs)" "distinct ss" "s \<notin> set ss"
      using Cons.prems(2,3) sel False by auto
    note F = this
    note I = Cons.IH[OF r1(1) F(1,2)]
    have 1: "length rs' = length (r # rs)" "length g = length gen" using I r1(2) by simp_all
    have 2: "\<forall>i<length (r # rs). rs' ! i = ((r # rs) ! i)\<lparr>req_pool_idx := req_pool_idx (rs' ! i)\<rparr> \<and>
        is_reusing (rs' ! i) \<and> (is_reusing ((r # rs) ! i) \<longrightarrow> rs' ! i = (r # rs) ! i)"
      using I r1(2) False by (auto simp: nth_Cons is_reusing_def split: nat.splits)
    have 3: "map (\<lambda>(r, r'). the (req_pool_idx r')) (filter (\<lambda>(r, r'). \<not> is_reusing r) (zip (r # rs) rs')) = sel"
      using I r1(2) False sel by simp
    have "g ! x = gen ! x + (if x \<in> set sel then 1 else 0)" if x: "x < length gen" for x
    proof -
      have "g ! x = gen[s := gen ! s + 1] ! x + (if x \<in> set ss then 1 else 0)" using I x by simp
      then show ?thesis using F(3) sel x by (cases "x = s") auto
    qed
    then show ?thesis using 1 2 3 by blast
  qed
qed

lemma rp_alloc_success:
  assumes run: "rp_alloc P reqs = Inr (P', reqs', Some idxs)" and ok: "rp_ok P"
  obtains sel where "rp_take P (length (filter (\<lambda>r. \<not> is_reusing r) reqs)) = (P'\<lparr>rp_gen := rp_gen P\<rparr>, Some sel)"
    "assign_slots sel (rp_gen P) reqs = (rp_gen P', reqs')"
    "idxs = map (\<lambda>r. the (req_pool_idx r)) reqs'" "\<forall>r\<in>set reqs. is_reusing r \<longrightarrow> reusable r"
proof -
  have n: "length reqs - length (filter is_reusing reqs) = length (filter (\<lambda>r. \<not> is_reusing r) reqs)"
    using sum_length_filter_compl[of is_reusing reqs] by simp
  have re: "\<forall>r\<in>set (filter is_reusing reqs). reusable r"
    using run by (auto simp: rp_alloc_def Let_def split: if_splits)
  obtain P1 so where t: "rp_take P (length (filter (\<lambda>r. \<not> is_reusing r) reqs)) = (P1, so)" by fastforce
  obtain sel where so: "so = Some sel" using run re t n by (cases so) (auto simp: rp_alloc_def Let_def)
  obtain g rs where a: "assign_slots sel (rp_gen P1) reqs = (g, rs)" by fastforce
  have e: "P' = P1\<lparr>rp_gen := g\<rparr>" "reqs' = rs" "idxs = map (\<lambda>r. the (req_pool_idx r)) rs"
    using run re t n so a by (auto simp: rp_alloc_def Let_def)
  note T = rp_take_Some[OF t[unfolded so]]
  have g1: "rp_gen P1 = rp_gen P" by (subst T(3)) simp
  have "P'\<lparr>rp_gen := rp_gen P\<rparr> = P1" using g1 by (simp add: e)
  then show thesis using that[of sel] t so a e re g1 by simp
qed

text \<open>The slots that the requests without one received, in the order of the batch.\<close>

definition new_slots :: "req list \<Rightarrow> req list \<Rightarrow> nat list" where
  "new_slots reqs reqs' =
     map (\<lambda>(r, r'). the (req_pool_idx r')) (filter (\<lambda>(r, r'). \<not> is_reusing r) (zip reqs reqs'))"

text \<open>
  a batch gets its request slots all or nothing. On success every request has a slot, requests
  that had one keep it unchanged, and the others get pairwise distinct free slots, never the padding
  slot 0, which leave the free list and whose generation counters go up by one, with every other
  counter unchanged. On failure nothing changed and there were fewer free slots than new requests.
\<close>

theorem rp_alloc_all_or_nothing:
  assumes ok: "rp_ok P" and g: "length (rp_gen P) = rp_alloc_size P"
    and run: "rp_alloc P reqs = Inr (P', reqs', ro)"
  shows "case ro of
      None \<Rightarrow> P' = P \<and> reqs' = reqs \<and> rp_available_size P < length (filter (\<lambda>r. \<not> is_reusing r) reqs)
    | Some idxs \<Rightarrow>
        (let new = new_slots reqs reqs'
         in rp_ok P' \<and> length idxs = length reqs \<and>
            (\<forall>i<length reqs. req_pool_idx (reqs' ! i) = Some (idxs ! i) \<and>
               (is_reusing (reqs ! i) \<longrightarrow> reqs' ! i = reqs ! i)) \<and>
            distinct new \<and> set new \<subseteq> rp_avail P \<and> 0 \<notin> set new \<and> rp_avail P' = rp_avail P - set new \<and>
            (\<forall>s<rp_alloc_size P. rp_gen P' ! s = rp_gen P ! s + (if s \<in> set new then 1 else 0)))"
proof (cases ro)
  case None
  have n: "length reqs - length (filter is_reusing reqs) = length (filter (\<lambda>r. \<not> is_reusing r) reqs)"
    using sum_length_filter_compl[of is_reusing reqs] by simp
  obtain P1 so where t: "rp_take P (length (filter (\<lambda>r. \<not> is_reusing r) reqs)) = (P1, so)" by fastforce
  have "so = None" "P' = P" "reqs' = reqs"
    using run None t n by (auto simp: rp_alloc_def Let_def split: if_splits option.splits prod.splits)
  then show ?thesis using t None by (simp add: rp_take_None rp_available_size_def)
next
  case (Some idxs)
  from rp_alloc_success[OF run[unfolded Some] ok]
  obtain sel where S: "rp_take P (length (filter (\<lambda>r. \<not> is_reusing r) reqs)) = (P'\<lparr>rp_gen := rp_gen P\<rparr>, Some sel)"
    "assign_slots sel (rp_gen P) reqs = (rp_gen P', reqs')"
    "idxs = map (\<lambda>r. the (req_pool_idx r)) reqs'" by metis
  have "al_alloc rp_ops P (length (filter (\<lambda>r. \<not> is_reusing r) reqs)) = (P'\<lparr>rp_gen := rp_gen P\<rparr>, Some sel)"
    using S(1) by (simp add: rp_ops_def)
  note A = rp.alloc_some[OF ok this]
  have "rp_ok P' = rp_ok (P'\<lparr>rp_gen := rp_gen P\<rparr>)" "rp_avail P' = rp_avail (P'\<lparr>rp_gen := rp_gen P\<rparr>)"
    by (simp_all add: rp_ok_def rp_avail_def)
  then have P': "rp_ok P'" "rp_avail P' = rp_avail P - set sel" using A by auto
  have z: "0 \<notin> set sel" using A ok by (auto simp: rp_avail_def rp_ok_def)
  note B = assign_slots_spec[OF S(2)]
  have "length sel = length (filter (\<lambda>r. \<not> is_reusing r) reqs)" "distinct sel" using A by auto
  note B' = B[OF this]
  have "req_pool_idx (reqs' ! i) = Some (idxs ! i)" if "i < length reqs" for i
  proof -
    have "is_reusing (reqs' ! i)" "length reqs' = length reqs" using B' that by auto
    then show ?thesis using that by (auto simp: S(3) is_reusing_def)
  qed
  moreover have "length idxs = length reqs" using B' by (simp add: S(3))
  moreover have "new_slots reqs reqs' = sel" using B' by (simp add: new_slots_def)
  moreover have "\<forall>i<length reqs. is_reusing (reqs ! i) \<longrightarrow> reqs' ! i = reqs ! i"
    "\<forall>s<rp_alloc_size P. rp_gen P' ! s = rp_gen P ! s + (if s \<in> set sel then 1 else 0)"
    using B' g by (blast, simp)
  ultimately show ?thesis using Some A P' z by (simp add: Let_def)
qed

definition ex_req :: "nat \<Rightarrow> nat option \<Rightarrow> req" where
  "ex_req i slot = \<lparr>rid = i, req_pool_idx = slot, inflight_middle_chunks = 1, kv_committed_len = 0,
     mamba_pool_idx = None, mamba_needs_clear = False, mamba_ping_pong = None,
     mamba_next_track = None, mamba_last_track = None\<rparr>"

definition ex_rp :: req_pool where
  "ex_rp = (init_req_pool 3 4)\<lparr>rp_free_slots := [2, 3]\<rparr>"

theorem rp_alloc_all_or_nothing_witness:
  "\<exists>P' reqs'. rp_alloc ex_rp [ex_req 0 (Some 1), ex_req 1 None] = Inr (P', reqs', Some [1, 3]) \<and>
     rp_avail P' = rp_avail ex_rp - {3}"
proof -
  define r where "r = rp_alloc ex_rp [ex_req 0 (Some 1), ex_req 1 None]"
  have "case r of Inr (P, rs, x) \<Rightarrow> x = Some [1, 3] \<and> map req_pool_idx rs = [Some 1, Some 3] | Inl _ \<Rightarrow> False"
    unfolding r_def by code_simp
  then obtain P' reqs' where e: "r = Inr (P', reqs', Some [1, 3])" "map req_pool_idx reqs' = [Some 1, Some 3]"
    by (cases r) auto
  have ok: "rp_ok ex_rp" "length (rp_gen ex_rp) = rp_alloc_size ex_rp"
    by (simp_all add: ex_rp_def init_req_pool_def rp_ok_def)
  obtain q0 q1 where q: "reqs' = [q0, q1]" "req_pool_idx q1 = Some 3" using e(2) by (auto simp: map_eq_Cons_conv)
  have "new_slots [ex_req 0 (Some 1), ex_req 1 None] reqs' = [3]"
    by (simp add: new_slots_def q is_reusing_def ex_req_def)
  with rp_alloc_all_or_nothing[OF ok e(1)[unfolded r_def]]
  have "rp_avail P' = rp_avail ex_rp - {3}" by (simp add: Let_def)
  then show ?thesis using e(1) by (auto simp: r_def)
qed

end
