(* ===== verification/Hybrid_Pool.thy ===== *)
theory Hybrid_Pool
  imports Req_Pool
begin

text \<open>
  The hybrid request pool (\<^verbatim>\<open>HybridReqToTokenPool\<close> of \<^verbatim>\<open>runtime-src/memory_pool.py\<close>): the mamba
  slot of a request, its ping-pong track buffer, the donation of a tracked state to the radix cache
  and the release, with the device-side mappings. The slot allocator is an argument; the properties
  use its contract \<open>slot_alloc\<close>.
\<close>

section \<open>State and operations\<close>

text \<open>
  \<open>h_idx\<close> and \<open>h_pp\<close> are the mappings from the request slot to its mamba slot and to its ping-pong
  buffer, \<open>h_wp\<close>, \<open>h_cb\<close> and \<open>h_fl\<close> the optional cursors of the replay ring.
\<close>

record 'a hybrid_pool = req_pool +
  h_alloc :: 'a
  h_extra :: bool
  h_lazy :: bool
  h_pp_size :: nat
  h_idx :: "nat list"
  h_pp :: "int list list"
  h_wp :: "nat list option"
  h_cb :: "nat list option"
  h_fl :: "nat list option"

definition pp_other :: "('a, 'z) hybrid_pool_scheme \<Rightarrow> int \<Rightarrow> int" where
  "pp_other P i = (if h_pp_size P = 2 then 1 - i else i)"

definition alloc_ping_pong ::
  "'a alloc_ops \<Rightarrow> ('a, 'z) hybrid_pool_scheme \<Rightarrow> req \<Rightarrow> (('a, 'z) hybrid_pool_scheme \<times> req) result" where
  "alloc_ping_pong ops P r =
     (let n = (if h_lazy P then 1 else h_pp_size P)
      in case al_alloc ops (h_alloc P) n of
           (a, None) \<Rightarrow> Inl AssertionError
         | (a, Some ss) \<Rightarrow>
             Inr (P\<lparr>h_alloc := a\<rparr>,
                  r\<lparr>mamba_ping_pong := Some (map int ss @ replicate (h_pp_size P - n) (-1)),
                    mamba_next_track := Some 0,
                    mamba_last_track := Some (if h_lazy P then 0 else pp_other P 0)\<rparr>))"

definition alloc_mamba ::
  "'a alloc_ops \<Rightarrow> ('a, 'z) hybrid_pool_scheme \<Rightarrow> req \<Rightarrow> (('a, 'z) hybrid_pool_scheme \<times> req) result" where
  "alloc_mamba ops P r =
     (if mamba_pool_idx r \<noteq> None then Inr (P, r)
      else case al_alloc ops (h_alloc P) 1 of
        (a, Some (s # _)) \<Rightarrow>
          Inr (P\<lparr>h_alloc := a, h_wp := map_option (\<lambda>w. w[s := 0]) (h_wp P),
                 h_cb := map_option (\<lambda>w. w[s := 0]) (h_cb P),
                 h_fl := (if h_cb P = None then h_fl P else map_option (\<lambda>w. w[s := 0]) (h_fl P))\<rparr>,
               r\<lparr>mamba_pool_idx := Some s, mamba_needs_clear := True\<rparr>)
      | _ \<Rightarrow> Inl AssertionError)"

definition hybrid_alloc_req ::
  "'a alloc_ops \<Rightarrow> ('a, 'z) hybrid_pool_scheme \<Rightarrow> req \<Rightarrow> (('a, 'z) hybrid_pool_scheme \<times> req) result" where
  "hybrid_alloc_req ops P r =
     res_bind (alloc_mamba ops P r) (\<lambda>(P1, r1).
       if h_extra P1 \<and> mamba_ping_pong r1 = None then alloc_ping_pong ops P1 r1 else Inr (P1, r1))"

fun hybrid_alloc_reqs ::
  "'a alloc_ops \<Rightarrow> ('a, 'z) hybrid_pool_scheme \<Rightarrow> req list \<Rightarrow> (('a, 'z) hybrid_pool_scheme \<times> req list) result"
where
  "hybrid_alloc_reqs ops P [] = Inr (P, [])"
| "hybrid_alloc_reqs ops P (r # rs) =
     res_bind (hybrid_alloc_req ops P r) (\<lambda>(P1, r1).
     res_bind (hybrid_alloc_reqs ops P1 rs) (\<lambda>(P2, rs1). Inr (P2, r1 # rs1)))"

definition sync_maps ::
  "('a, 'z) hybrid_pool_scheme \<Rightarrow> nat list \<Rightarrow> req list \<Rightarrow> ('a, 'z) hybrid_pool_scheme" where
  "sync_maps P idxs reqs = P\<lparr>
     h_idx := scatter (h_idx P) (zip idxs (map (\<lambda>r. the (mamba_pool_idx r)) reqs)),
     h_pp := (if h_extra P
              then scatter (h_pp P) (zip idxs (map (\<lambda>r. the (mamba_ping_pong r)) reqs))
              else h_pp P)\<rparr>"

definition hybrid_alloc ::
  "'a alloc_ops \<Rightarrow> ('a, 'z) hybrid_pool_scheme \<Rightarrow> req list \<Rightarrow>
   (('a, 'z) hybrid_pool_scheme \<times> req list \<times> nat list option) result" where
  "hybrid_alloc ops P reqs =
     res_bind (rp_alloc P reqs) (\<lambda>(P1, reqs1, sel).
       case sel of None \<Rightarrow> Inr (P1, reqs1, None)
       | Some idxs \<Rightarrow>
           res_bind (hybrid_alloc_reqs ops P1 reqs1) (\<lambda>(P2, reqs2).
             if reqs2 = [] then Inl RuntimeError
             else Inr (sync_maps P2 idxs reqs2, reqs2, Some idxs)))"

definition get_mamba_indices :: "('a, 'z) hybrid_pool_scheme \<Rightarrow> nat list \<Rightarrow> nat list" where
  "get_mamba_indices P is = index_select (h_idx P) is"

definition get_mamba_ping_pong_keep_idx :: "req \<Rightarrow> int option" where
  "get_mamba_ping_pong_keep_idx r = mamba_last_track r"

text \<open>
  \<^verbatim>\<open>set_mamba_ping_pong_slot\<close> and the donation. A request without a buffer, a track index or a
  request slot cannot be indexed; the error is a type error.
\<close>

definition set_mamba_ping_pong_slot ::
  "('a, 'z) hybrid_pool_scheme \<Rightarrow> req \<Rightarrow> int \<Rightarrow> int \<Rightarrow> (('a, 'z) hybrid_pool_scheme \<times> req) result" where
  "set_mamba_ping_pong_slot P r idx v =
     (case (mamba_ping_pong r, req_pool_idx r) of
        (Some buf, Some i) \<Rightarrow>
          (let k = (if 0 \<le> idx then idx else int (length buf) + idx)
           in if 0 \<le> k \<and> k < int (length buf)
              then let buf' = buf[nat k := v]
                   in Inr (P\<lparr>h_pp := (h_pp P)[i := buf']\<rparr>, r\<lparr>mamba_ping_pong := Some buf'\<rparr>)
              else Inl IndexError)
      | _ \<Rightarrow> Inl TypeError)"

definition donate_mamba_ping_pong_slot ::
  "bool \<Rightarrow> ('a, 'z) hybrid_pool_scheme \<Rightarrow> req \<Rightarrow> int \<Rightarrow> (('a, 'z) hybrid_pool_scheme \<times> req \<times> int) result" where
  "donate_mamba_ping_pong_slot debug P r new_slot =
     (case (mamba_ping_pong r, get_mamba_ping_pong_keep_idx r) of
        (Some buf, Some d) \<Rightarrow>
          res_bind (py_index buf d) (\<lambda>v.
            if debug \<and> v = -1 then Inl AssertionError
            else res_bind (set_mamba_ping_pong_slot P r d new_slot) (\<lambda>(P', r'). Inr (P', r', v)))
      | _ \<Rightarrow> Inl TypeError)"

definition pp_to_free ::
  "('a, 'z) hybrid_pool_scheme \<Rightarrow> int list \<Rightarrow> int option \<Rightarrow> int list result" where
  "pp_to_free P buf keep =
     (case keep of None \<Rightarrow> Inr buf
      | Some k \<Rightarrow>
          if k \<noteq> 0 \<and> k \<noteq> 1 then Inl AssertionError
          else if h_pp_size P = 2 then Inr (take 1 (drop (nat (1 - k)) buf))
          else if h_pp_size P \<noteq> 1 then Inl AssertionError
          else if k \<noteq> 0 then Inl AssertionError
          else Inr [])"

definition free_mamba_cache ::
  "'a alloc_ops \<Rightarrow> ('a, 'z) hybrid_pool_scheme \<Rightarrow> req \<Rightarrow> int option \<Rightarrow>
   (('a, 'z) hybrid_pool_scheme \<times> req) result" where
  "free_mamba_cache ops P r keep =
     (case mamba_pool_idx r of None \<Rightarrow> Inl AssertionError
      | Some s \<Rightarrow>
          (let P1 = P\<lparr>h_alloc := al_free ops (h_alloc P) [s]\<rparr>; r1 = r\<lparr>mamba_pool_idx := None\<rparr>
           in if \<not> h_extra P then Inr (P1, r1)
              else case req_pool_idx r of None \<Rightarrow> Inl TypeError
              | Some i \<Rightarrow>
                  res_bind (pp_to_free P (h_pp P ! i) keep) (\<lambda>buf.
                    let fs = (if h_lazy P then filter (\<lambda>x. x \<noteq> -1) buf else buf)
                    in Inr (P1\<lparr>h_alloc := al_free ops (h_alloc P1) (map nat fs)\<rparr>,
                            r1\<lparr>mamba_ping_pong := None, mamba_next_track := None,
                               mamba_last_track := None\<rparr>))))"

text \<open>
  \<^verbatim>\<open>clear\<close>: the request slots, the mamba slots, the side pools (\<open>clear_sides\<close>), the checkpoint pool
  if there is one, and the mappings.
\<close>

definition hybrid_clear ::
  "'a alloc_ops \<Rightarrow> ('s \<Rightarrow> 's) \<Rightarrow> ('k \<Rightarrow> 'k) \<Rightarrow> ('a, 'z) hybrid_pool_scheme \<Rightarrow> 's \<Rightarrow> 'k option \<Rightarrow>
   ('a, 'z) hybrid_pool_scheme \<times> 's \<times> 'k option" where
  "hybrid_clear ops clear_sides clear_ckpt P sides ckpt =
     ((rp_clear P)\<lparr>h_alloc := al_clear ops (h_alloc P),
        h_idx := replicate (length (h_idx P)) 0,
        h_pp := (if h_extra P then map (\<lambda>b. replicate (length b) 0) (h_pp P) else h_pp P)\<rparr>,
      clear_sides sides, map_option clear_ckpt ckpt)"

section \<open>Ownership of the mamba slots\<close>

definition pp_slots :: "req \<Rightarrow> nat list" where
  "pp_slots r = (case mamba_ping_pong r of None \<Rightarrow> [] | Some b \<Rightarrow> map nat (filter (\<lambda>i. i \<noteq> -1) b))"

definition own :: "req \<Rightarrow> nat list" where
  "own r = (case mamba_pool_idx r of None \<Rightarrow> [] | Some s \<Rightarrow> [s]) @ pp_slots r"

text \<open>
  \<open>split_slots A S xs\<close>: the slots \<open>S\<close> are the free ones \<open>A\<close> and the owned ones \<open>xs\<close>, each owned once
  and none both.
\<close>

definition split_slots :: "nat set \<Rightarrow> nat set \<Rightarrow> nat list \<Rightarrow> bool" where
  "split_slots A S xs \<longleftrightarrow> distinct xs \<and> set xs \<inter> A = {} \<and> set xs \<union> A = S"

lemma split_slots_mset: "mset xs = mset ys \<Longrightarrow> split_slots A S xs = split_slots A S ys"
  unfolding split_slots_def by (metis mset_eq_setD mset_eq_imp_distinct_iff)

text \<open>The pool's slots are split between the free ones and the owners \<open>xs\<close>.\<close>

definition mamba_split ::
  "('a \<Rightarrow> bool) \<Rightarrow> ('a \<Rightarrow> nat set) \<Rightarrow> ('a \<Rightarrow> nat set) \<Rightarrow> ('a, 'z) hybrid_pool_scheme \<Rightarrow> nat list \<Rightarrow> bool" where
  "mamba_split ok avail slots P xs \<longleftrightarrow>
     ok (h_alloc P) \<and> split_slots (avail (h_alloc P)) (slots (h_alloc P)) xs"

lemmas h_ok_def = mamba_split_def

context slot_alloc
begin

abbreviation h_ok :: "('a, 'z) hybrid_pool_scheme \<Rightarrow> nat list \<Rightarrow> bool" where
  "h_ok \<equiv> mamba_split ok avail slots"

lemma h_ok_take:
  assumes h: "h_ok P xs" and r: "al_alloc ops (h_alloc P) n = (a, Some ss)"
  shows "ok a \<and> length ss = n \<and> split_slots (avail a) (slots a) (ss @ xs)"
  using alloc_some[OF _ r] h avail_sub[of "h_alloc P"] by (auto simp: h_ok_def split_slots_def)

lemma h_ok_give:
  assumes h: "h_ok P (ss @ xs)"
  shows "ok (al_free ops (h_alloc P) ss) \<and>
     split_slots (avail (al_free ops (h_alloc P) ss)) (slots (al_free ops (h_alloc P) ss)) xs"
proof -
  have "distinct ss" "set ss \<subseteq> slots (h_alloc P) - avail (h_alloc P)" "ok (h_alloc P)"
    using h by (auto simp: h_ok_def split_slots_def)
  from free_ok[OF this(3,1,2)] show ?thesis using h by (auto simp: h_ok_def split_slots_def)
qed

lemma alloc_ping_pong_ok:
  assumes h: "h_ok P (own r @ X)" and none: "mamba_ping_pong r = None" and pp: "1 \<le> h_pp_size P"
    and run: "alloc_ping_pong ops P r = Inr (P', r')"
  shows "h_ok P' (own r' @ X) \<and> (\<exists>b. mamba_ping_pong r' = Some b \<and> length b = h_pp_size P) \<and>
     mamba_pool_idx r' = mamba_pool_idx r \<and> req_pool_idx r' = req_pool_idx r \<and>
     h_extra P' = h_extra P \<and> h_pp_size P' = h_pp_size P \<and> h_idx P' = h_idx P \<and> h_pp P' = h_pp P"
proof -
  define n where "n = (if h_lazy P then 1 else h_pp_size P)"
  obtain a so where al: "al_alloc ops (h_alloc P) n = (a, so)" by fastforce
  then obtain ss where so: "so = Some ss" using run
    by (cases so) (auto simp: alloc_ping_pong_def n_def[symmetric] Let_def)
  have e: "h_alloc P' = a" "h_extra P' = h_extra P" "h_pp_size P' = h_pp_size P" "h_idx P' = h_idx P"
      "h_pp P' = h_pp P"
    "r' = r\<lparr>mamba_ping_pong := Some (map int ss @ replicate (h_pp_size P - n) (-1)),
            mamba_next_track := Some 0, mamba_last_track := Some (if h_lazy P then 0 else pp_other P 0)\<rparr>"
    using run al so by (auto simp: alloc_ping_pong_def n_def[symmetric] Let_def)
  note T = h_ok_take[OF h al[unfolded so]]
  have n: "n \<le> h_pp_size P" using pp by (simp add: n_def)
  have "filter (\<lambda>i. i \<noteq> -1) (map int ss) = map int ss" by (simp add: filter_map comp_def)
  then have "pp_slots r' = ss" by (simp add: pp_slots_def e comp_def)
  then have o': "own r' = own r @ ss" using none by (simp add: own_def pp_slots_def e)
  have "mset (ss @ own r @ X) = mset (own r' @ X)" by (simp add: o')
  then have "h_ok P' (own r' @ X)"
    using T split_slots_mset[of "ss @ own r @ X" "own r' @ X"] unfolding h_ok_def e(1) by blast
  moreover have "\<exists>b. mamba_ping_pong r' = Some b \<and> length b = h_pp_size P"
    using T n by (simp add: e(6))
  ultimately show ?thesis by (simp add: e)
qed

lemma alloc_mamba_ok:
  assumes h: "h_ok P (own r @ X)" and run: "alloc_mamba ops P r = Inr (P', r')"
  shows "h_ok P' (own r' @ X) \<and> mamba_pool_idx r' \<noteq> None \<and> mamba_ping_pong r' = mamba_ping_pong r \<and>
     req_pool_idx r' = req_pool_idx r \<and> h_extra P' = h_extra P \<and> h_pp_size P' = h_pp_size P \<and>
     h_idx P' = h_idx P \<and> h_pp P' = h_pp P"
proof (cases "mamba_pool_idx r")
  case (Some s)
  then show ?thesis using run h by (simp add: alloc_mamba_def)
next
  case None
  obtain a so where al: "al_alloc ops (h_alloc P) 1 = (a, so)" by fastforce
  obtain s ss where so: "so = Some (s # ss)" using run None al
    by (auto simp: alloc_mamba_def split: option.splits list.splits)
  note T = h_ok_take[OF h al[unfolded so]]
  then have ss: "ss = []" by simp
  have e: "h_alloc P' = a" "h_extra P' = h_extra P" "h_pp_size P' = h_pp_size P" "h_idx P' = h_idx P"
      "h_pp P' = h_pp P" "r' = r\<lparr>mamba_pool_idx := Some s, mamba_needs_clear := True\<rparr>"
    using run None al so by (auto simp: alloc_mamba_def)
  have "own r' = s # own r" using None by (simp add: own_def pp_slots_def e)
  then show ?thesis using T ss by (simp add: h_ok_def e)
qed

lemma hybrid_alloc_req_ok:
  assumes h: "h_ok P (own r @ X)" and pp: "1 \<le> h_pp_size P"
    and run: "hybrid_alloc_req ops P r = Inr (P', r')"
  shows "h_ok P' (own r' @ X) \<and> mamba_pool_idx r' \<noteq> None \<and> req_pool_idx r' = req_pool_idx r \<and>
     (h_extra P \<longrightarrow> mamba_ping_pong r' \<noteq> None) \<and> h_extra P' = h_extra P \<and> h_pp_size P' = h_pp_size P \<and>
     h_idx P' = h_idx P \<and> h_pp P' = h_pp P"
proof -
  obtain P1 r1 where m: "alloc_mamba ops P r = Inr (P1, r1)"
    and r: "(if h_extra P1 \<and> mamba_ping_pong r1 = None then alloc_ping_pong ops P1 r1 else Inr (P1, r1)) = Inr (P', r')"
    using run by (auto simp: hybrid_alloc_req_def res_bind_Inr_iff)
  note M = alloc_mamba_ok[OF h m]
  show ?thesis
  proof (cases "h_extra P1 \<and> mamba_ping_pong r1 = None")
    case True
    then have p: "alloc_ping_pong ops P1 r1 = Inr (P', r')" using r by simp
    have pp1: "1 \<le> h_pp_size P1" using M pp by simp
    have h1: "h_ok P1 (own r1 @ X)" using M by blast
    note A = alloc_ping_pong_ok[OF h1 _ pp1 p]
    then show ?thesis using A M True by auto
  next
    case False
    then show ?thesis using r M by (cases "mamba_ping_pong r1") auto
  qed
qed

lemma h_ok_perm: "mset xs = mset ys \<Longrightarrow> h_ok P xs = h_ok P ys"
  using split_slots_mset unfolding h_ok_def by blast

lemma hybrid_alloc_reqs_ok:
  "h_ok P (concat (map own rs) @ X) \<Longrightarrow> 1 \<le> h_pp_size P \<Longrightarrow> hybrid_alloc_reqs ops P rs = Inr (P', rs') \<Longrightarrow>
     h_ok P' (concat (map own rs') @ X) \<and> length rs' = length rs \<and> h_extra P' = h_extra P \<and>
     h_idx P' = h_idx P \<and> h_pp P' = h_pp P \<and>
     (\<forall>i<length rs. mamba_pool_idx (rs' ! i) \<noteq> None \<and> req_pool_idx (rs' ! i) = req_pool_idx (rs ! i) \<and>
        (h_extra P \<longrightarrow> mamba_ping_pong (rs' ! i) \<noteq> None))"
proof (induction rs arbitrary: P P' rs' X)
  case Nil
  then show ?case by simp
next
  case (Cons r rs)
  obtain P1 r1 rs1 where a: "hybrid_alloc_req ops P r = Inr (P1, r1)"
    and b: "hybrid_alloc_reqs ops P1 rs = Inr (P', rs1)" and rs': "rs' = r1 # rs1"
    using Cons.prems(3) by (auto simp: res_bind_Inr_iff)
  have "h_ok P (own r @ (concat (map own rs) @ X))" using Cons.prems(1) by simp
  note A = hybrid_alloc_req_ok[OF this Cons.prems(2) a]
  have "mset (own r1 @ (concat (map own rs) @ X)) = mset (concat (map own rs) @ (own r1 @ X))" by simp
  then have h1: "h_ok P1 (concat (map own rs) @ (own r1 @ X))" using A h_ok_perm by blast
  have "1 \<le> h_pp_size P1" using A Cons.prems(2) by simp
  note B = Cons.IH[OF h1 this b]
  have "mset (concat (map own rs1) @ (own r1 @ X)) = mset (concat (map own rs') @ X)" by (simp add: rs')
  then have "h_ok P' (concat (map own rs') @ X)" using B h_ok_perm by blast
  then show ?case using A B by (auto simp: rs' nth_Cons split: nat.splits)
qed

lemma free_mamba_ok:
  assumes h: "h_ok P (own r @ X)" and i: "req_pool_idx r = Some i" and s: "mamba_pool_idx r = Some s"
    and buf: "mamba_ping_pong r = Some buf" "h_pp P ! i = buf" "length buf = h_pp_size P"
    and extra: "h_extra P" and neg: "\<not> h_lazy P \<longrightarrow> -1 \<notin> set buf"
    and pf: "pp_to_free P buf keep = Inr fs"
    and run: "free_mamba_cache ops P r keep = Inr (P', r')"
    and kept: "mset (filter (\<lambda>x. x \<noteq> -1) buf) = mset (filter (\<lambda>x. x \<noteq> -1) fs) + mset ks"
  shows "h_ok P' (map nat ks @ X) \<and> own r' = []"
proof -
  let ?f = "filter (\<lambda>x. x \<noteq> -1) fs"
  have sub: "set fs \<subseteq> set buf" using pf
    by (auto simp: pp_to_free_def split: option.splits if_splits dest: in_set_takeD in_set_dropD)
  have fl: "(if h_lazy P then ?f else fs) = ?f"
  proof (cases "h_lazy P")
    case False
    then have "\<forall>x\<in>set fs. x \<noteq> -1" using neg sub by blast
    then have "?f = fs" by (simp only: filter_True)
    then show ?thesis by simp
  qed simp
  have e: "h_alloc P' = al_free ops (al_free ops (h_alloc P) [s]) (map nat ?f)"
    "r' = r\<lparr>mamba_pool_idx := None, mamba_ping_pong := None, mamba_next_track := None, mamba_last_track := None\<rparr>"
    using run s i extra pf buf(2) fl by (auto simp: free_mamba_cache_def Let_def res_bind_Inr_iff)
  have "own r @ X = [s] @ (map nat (filter (\<lambda>x. x \<noteq> -1) buf) @ X)"
    using s buf(1) by (simp add: own_def pp_slots_def)
  then have "h_ok P ([s] @ (map nat (filter (\<lambda>x. x \<noteq> -1) buf) @ X))" using h by simp
  note G = h_ok_give[OF this]
  let ?P1 = "P\<lparr>h_alloc := al_free ops (h_alloc P) [s]\<rparr>"
  have "h_ok ?P1 (map nat (filter (\<lambda>x. x \<noteq> -1) buf) @ X)" using G by (simp add: h_ok_def)
  moreover have "mset (map nat (filter (\<lambda>x. x \<noteq> -1) buf) @ X) = mset (map nat ?f @ (map nat ks @ X))"
    using arg_cong[OF kept, of "image_mset nat"] by simp
  ultimately have h1: "h_ok ?P1 (map nat ?f @ (map nat ks @ X))" using h_ok_perm by blast
  have "h_ok P' (map nat ks @ X)" using h_ok_give[OF h1] by (simp add: h_ok_def e(1))
  moreover have "own r' = []" by (simp add: own_def pp_slots_def e(2))
  ultimately show ?thesis by blast
qed

end

lemma rp_alloc_frame:
  "rp_alloc P reqs = Inr (P', reqs', ro) \<Longrightarrow> \<exists>f g. P' = P\<lparr>rp_free_slots := f, rp_gen := g\<rparr>"
proof -
  assume run: "rp_alloc P reqs = Inr (P', reqs', ro)"
  have e: "P = P\<lparr>rp_free_slots := rp_free_slots P, rp_gen := rp_gen P\<rparr>" by simp
  obtain P1 so where t: "rp_take P (length reqs - length (filter is_reusing reqs)) = (P1, so)" by fastforce
  show ?thesis
  proof (cases so)
    case None
    then have "P' = P" using run t by (auto simp: rp_alloc_def Let_def split: if_splits)
    then show ?thesis using e by blast
  next
    case (Some sel)
    note T = rp_take_Some(3)[OF t[unfolded Some]]
    obtain g where "P' = P1\<lparr>rp_gen := g\<rparr>"
      using run t Some by (auto simp: rp_alloc_def Let_def split: if_splits prod.splits)
    then have "P' = P\<lparr>rp_free_slots := rp_free_slots P1, rp_gen := g\<rparr>" using T by (metis (no_types))
    then show ?thesis by blast
  qed
qed

lemma assign_slots_mset:
  "assign_slots sel gen rs = (g, rs') \<Longrightarrow> length sel = length (filter (\<lambda>r. \<not> is_reusing r) rs) \<Longrightarrow>
     mset (map (\<lambda>r. the (req_pool_idx r)) rs') =
     mset sel + mset (map (\<lambda>r. the (req_pool_idx r)) (filter is_reusing rs)) \<and>
     map own rs' = map own rs"
proof (induction rs arbitrary: sel gen rs')
  case Nil
  then show ?case by simp
next
  case (Cons r rs)
  show ?case
  proof (cases "is_reusing r")
    case True
    then obtain i rs1 where "req_pool_idx r = Some i" "assign_slots sel gen rs = (g, rs1)" "rs' = r # rs1"
      using Cons.prems(1) by (auto simp: is_reusing_def split: prod.splits)
    then show ?thesis using Cons.IH[of sel gen rs1] Cons.prems True by simp
  next
    case False
    then obtain s ss where sel: "sel = s # ss" using Cons.prems(2) by (cases sel) auto
    have ri: "req_pool_idx r = None" using False by (simp add: is_reusing_def)
    obtain rs1 where r1: "assign_slots ss (gen[s := gen ! s + 1]) rs = (g, rs1)"
        "rs' = r\<lparr>req_pool_idx := Some s\<rparr> # rs1"
      using Cons.prems(1) ri sel by (auto split: prod.splits)
    have "length ss = length (filter (\<lambda>r. \<not> is_reusing r) rs)" using Cons.prems(2) sel False by auto
    then show ?thesis using Cons.IH[OF r1(1)] r1(2) False sel by (simp add: own_def pp_slots_def)
  qed
qed

section \<open>Properties\<close>

definition batch_slots :: "req list \<Rightarrow> nat list" where
  "batch_slots reqs = map (\<lambda>r. the (req_pool_idx r)) (filter is_reusing reqs)"

text \<open>
  C19: an allocation of a batch leaks and shares no mamba slot. When the slots are split between the
  free ones, those of the requests of the batch and those of all others (other requests, the radix
  cache), they still are after a successful allocation, with the slots of the updated requests;
  every request of the batch has a mamba slot and, in the extra-buffer mode, a ping-pong buffer, and
  the device-side mappings at its request slot name exactly these.
\<close>

theorem hybrid_alloc_no_leak:
  assumes al: "slot_alloc ops ok avail slots" and split: "mamba_split ok avail slots P (concat (map own reqs) @ others)"
    and rp: "rp_ok P" "length (rp_gen P) = rp_alloc_size P" "rp_alloc_size P \<le> length (h_idx P)"
      "rp_alloc_size P \<le> length (h_pp P)" "1 \<le> h_pp_size P"
    and reuse: "distinct (batch_slots reqs)" "set (batch_slots reqs) \<subseteq> rp_slots P - rp_avail P"
    and run: "hybrid_alloc ops P reqs = Inr (P', reqs', Some idxs)"
  shows "mamba_split ok avail slots P' (concat (map own reqs') @ others) \<and>
     length reqs' = length reqs \<and> length idxs = length reqs \<and>
     (\<forall>i<length reqs. req_pool_idx (reqs' ! i) = Some (idxs ! i) \<and>
        mamba_pool_idx (reqs' ! i) = Some (h_idx P' ! (idxs ! i)) \<and>
        (h_extra P \<longrightarrow> mamba_ping_pong (reqs' ! i) = Some (h_pp P' ! (idxs ! i))))"
proof -
  obtain P1 reqs1 P2 where a: "rp_alloc P reqs = Inr (P1, reqs1, Some idxs)"
    and b: "hybrid_alloc_reqs ops P1 reqs1 = Inr (P2, reqs')"
    and P'0: "P' = sync_maps P2 idxs reqs'"
    using run by (auto simp: hybrid_alloc_def res_bind_Inr_iff split: option.splits if_splits)
  note P' = P'0[unfolded sync_maps_def]
  obtain f g where F: "P1 = P\<lparr>rp_free_slots := f, rp_gen := g\<rparr>" using rp_alloc_frame[OF a] by blast
  obtain sel where S: "rp_take P (length (filter (\<lambda>r. \<not> is_reusing r) reqs)) = (P1\<lparr>rp_gen := rp_gen P\<rparr>, Some sel)"
    "assign_slots sel (rp_gen P) reqs = (rp_gen P1, reqs1)"
    "idxs = map (\<lambda>r. the (req_pool_idx r)) reqs1"
    by (rule rp_alloc_success[OF a rp(1)])
  have "al_alloc rp_ops P (length (filter (\<lambda>r. \<not> is_reusing r) reqs)) = (P1\<lparr>rp_gen := rp_gen P\<rparr>, Some sel)"
    using S(1) by (simp add: rp_ops_def)
  note A = rp.alloc_some[OF rp(1) this]
  have sl: "length sel = length (filter (\<lambda>r. \<not> is_reusing r) reqs)" "distinct sel" "set sel \<subseteq> rp_avail P"
    using A by auto
  note M = assign_slots_mset[OF S(2) sl(1)]
  note N = assign_slots_spec[OF S(2) sl(1,2)]
  have mi: "mset idxs = mset (sel @ batch_slots reqs)" using M by (simp add: S(3) batch_slots_def)
  have "distinct (sel @ batch_slots reqs)" using sl reuse by auto
  then have di: "distinct idxs" using mi by (metis mset_eq_imp_distinct_iff)
  have "set idxs = set sel \<union> set (batch_slots reqs)" using mi by (metis mset_eq_setD set_append)
  then have "set idxs \<subseteq> rp_slots P" using sl(3) reuse(2) rp.avail_sub[OF rp(1)] by blast
  then have ib: "i < rp_alloc_size P" if "i \<in> set idxs" for i using that by (auto simp: rp_slots_def)
  have "mamba_split ok avail slots P1 (concat (map own reqs1) @ others)"
    using split M by (simp add: mamba_split_def F)
  moreover have "1 \<le> h_pp_size P1" using rp(5) by (simp add: F)
  ultimately have H: "mamba_split ok avail slots P2 (concat (map own reqs') @ others)"
    "length reqs' = length reqs1" "h_extra P2 = h_extra P1" "h_idx P2 = h_idx P1" "h_pp P2 = h_pp P1"
    "\<And>i. i < length reqs1 \<Longrightarrow> mamba_pool_idx (reqs' ! i) \<noteq> None \<and>
       req_pool_idx (reqs' ! i) = req_pool_idx (reqs1 ! i) \<and>
       (h_extra P1 \<longrightarrow> mamba_ping_pong (reqs' ! i) \<noteq> None)"
    using slot_alloc.hybrid_alloc_reqs_ok[OF al _ _ b, of others] by auto
  have len: "length reqs1 = length reqs" "length idxs = length reqs" using N S(3) by auto
  have split': "mamba_split ok avail slots P' (concat (map own reqs') @ others)"
    using H(1) by (simp add: mamba_split_def P')
  have cell: "req_pool_idx (reqs' ! i) = Some (idxs ! i) \<and>
        mamba_pool_idx (reqs' ! i) = Some (h_idx P' ! (idxs ! i)) \<and>
        (h_extra P \<longrightarrow> mamba_ping_pong (reqs' ! i) = Some (h_pp P' ! (idxs ! i)))"
    if i: "i < length reqs" for i
  proof -
    have i1: "i < length reqs1" "i < length idxs" "i < length reqs'" using i len H(2) by auto
    have bd: "idxs ! i < rp_alloc_size P" using ib i1(2) by simp
    have "is_reusing (reqs1 ! i)" using N i by blast
    then have q: "req_pool_idx (reqs' ! i) = Some (idxs ! i)"
      using H(6)[OF i1(1)] i1 by (auto simp: S(3) is_reusing_def)
    have "h_idx P' ! (idxs ! i) = the (mamba_pool_idx (reqs' ! i))"
      unfolding P' hybrid_pool.simps
      by (simp, rule nth_scatter_distinct)
        (use i1 di bd rp(3) H(2,4) len in \<open>auto simp: set_zip F\<close>)
    moreover have "h_pp P' ! (idxs ! i) = the (mamba_ping_pong (reqs' ! i))" if "h_extra P"
      unfolding P' hybrid_pool.simps
      by (simp add: H(3) F that, rule nth_scatter_distinct)
        (use i1 di bd rp(4) H(2,5) len in \<open>auto simp: set_zip F\<close>)
    moreover have "h_extra P1 = h_extra P" by (simp add: F)
    ultimately show ?thesis using q H(6)[OF i1(1)] by auto
  qed
  show ?thesis using split' cell len H(2) by auto
qed

text \<open>What a release with a slot to keep leaves to the caller.\<close>

definition kept_slots :: "int list \<Rightarrow> int option \<Rightarrow> int list" where
  "kept_slots buf keep = (case keep of None \<Rightarrow> [] | Some k \<Rightarrow> filter (\<lambda>x. x \<noteq> -1) [buf ! nat k])"

lemma pp_to_free_kept:
  assumes len: "length buf = h_pp_size P" "h_pp_size P = 1 \<or> h_pp_size P = 2"
    and keep: "keep = None \<or> keep = Some 0 \<or> keep = Some 1 \<and> h_pp_size P = 2"
  shows "\<exists>fs. pp_to_free P buf keep = Inr fs \<and>
     mset (filter (\<lambda>x. x \<noteq> -1) buf) = mset (filter (\<lambda>x. x \<noteq> -1) fs) + mset (kept_slots buf keep)"
proof -
  consider (one) a where "buf = [a]" "h_pp_size P = 1" | (two) a b where "buf = [a, b]" "h_pp_size P = 2"
    using len by (cases buf; cases "tl buf") auto
  then show ?thesis
    by cases (use keep in \<open>auto simp: pp_to_free_def kept_slots_def\<close>)
qed

text \<open>
  releasing a request gives back exactly its slots. For a request whose ping-pong buffer the
  mapping agrees with, the release succeeds; its mamba slot and its ping-pong slots become free,
  each once, except the one slot the caller asked to keep, and every other owner keeps its own. In
  the lazy mode an unallocated entry of the buffer is skipped.
\<close>

theorem free_gives_back:
  assumes al: "slot_alloc ops ok avail slots" and split: "mamba_split ok avail slots P (own r @ others)"
    and r: "req_pool_idx r = Some i" "mamba_pool_idx r = Some s" "mamba_ping_pong r = Some (h_pp P ! i)"
    and pp: "h_extra P" "length (h_pp P ! i) = h_pp_size P" "h_pp_size P = 1 \<or> h_pp_size P = 2"
      "\<not> h_lazy P \<longrightarrow> -1 \<notin> set (h_pp P ! i)"
    and keep: "keep = None \<or> keep = Some 0 \<or> keep = Some 1 \<and> h_pp_size P = 2"
  shows "\<exists>P' r'. free_mamba_cache ops P r keep = Inr (P', r') \<and> own r' = [] \<and>
     mamba_split ok avail slots P' (map nat (kept_slots (h_pp P ! i) keep) @ others)"
proof -
  obtain fs where fs: "pp_to_free P (h_pp P ! i) keep = Inr fs"
    "mset (filter (\<lambda>x. x \<noteq> -1) (h_pp P ! i)) = mset (filter (\<lambda>x. x \<noteq> -1) fs) + mset (kept_slots (h_pp P ! i) keep)"
    using pp_to_free_kept[OF pp(2,3) keep] by blast
  have "\<exists>P' r'. free_mamba_cache ops P r keep = Inr (P', r')"
    using r pp(1) fs(1) by (simp add: free_mamba_cache_def Let_def)
  then obtain P' r' where run: "free_mamba_cache ops P r keep = Inr (P', r')" by blast
  from slot_alloc.free_mamba_ok[OF al split r refl pp(2,1,4) fs(1) run fs(2)] run show ?thesis by blast
qed

text \<open>
  a donation swaps one slot for another. The request hands its last tracked slot to the caller
  and takes the new one in its place, so the slots stay split with the two owners exchanged, and the
  device-side mapping follows the request's buffer.
\<close>

theorem donate_swaps:
  assumes split: "mamba_split ok avail slots P (own r @ nat new # others)" and new: "0 \<le> new"
    and r: "req_pool_idx r = Some i" "mamba_ping_pong r = Some buf" "mamba_last_track r = Some d"
    and d: "0 \<le> d" "d < int (length buf)" "0 \<le> buf ! nat d" and i: "i < length (h_pp P)"
  shows "\<exists>P' r'. donate_mamba_ping_pong_slot debug P r new = Inr (P', r', buf ! nat d) \<and>
     mamba_split ok avail slots P' (own r' @ nat (buf ! nat d) # others) \<and>
     mamba_ping_pong r' = Some (h_pp P' ! i)"
proof -
  let ?buf' = "buf[nat d := new]"
  let ?P' = "P\<lparr>h_pp := (h_pp P)[i := ?buf']\<rparr>" and ?r' = "r\<lparr>mamba_ping_pong := Some ?buf'\<rparr>"
  have nd: "nat d < length buf" using d by linarith
  have run: "donate_mamba_ping_pong_slot debug P r new = Inr (?P', ?r', buf ! nat d)"
    using r d nd by (simp add: donate_mamba_ping_pong_slot_def get_mamba_ping_pong_keep_idx_def
        set_mamba_ping_pong_slot_def py_index_def Let_def)
  define A where "A = take (nat d) buf"
  define B where "B = drop (Suc (nat d)) buf"
  have b: "buf = A @ buf ! nat d # B" using nd by (simp add: A_def B_def id_take_nth_drop)
  have b': "?buf' = A @ new # B" using nd by (simp add: A_def B_def upd_conv_take_nth_drop)
  let ?nz = "filter (\<lambda>x. x \<noteq> -1)"
  have "map nat (?nz buf) = map nat (?nz A) @ nat (buf ! nat d) # map nat (?nz B)"
    using d(3) by (subst b) auto
  moreover have "map nat (?nz ?buf') = map nat (?nz A) @ nat new # map nat (?nz B)"
    using new by (subst b') auto
  ultimately have "mset (own r @ nat new # others) = mset (own ?r' @ nat (buf ! nat d) # others)"
    using r(2) by (auto simp: own_def pp_slots_def split: option.splits)
  then have "split_slots X Y (own r @ nat new # others) =
      split_slots X Y (own ?r' @ nat (buf ! nat d) # others)" for X Y by (rule split_slots_mset)
  then have "mamba_split ok avail slots ?P' (own ?r' @ nat (buf ! nat d) # others)"
    using split by (simp add: mamba_split_def)
  moreover have "mamba_ping_pong ?r' = Some (h_pp ?P' ! i)" using i by simp
  ultimately show ?thesis using run by blast
qed

section \<open>A concrete pool\<close>

text \<open>Three request slots and five mamba slots, in the extra-buffer mode; the allocator is a free list.\<close>

definition ex_hybrid :: "req_pool hybrid_pool" where
  "ex_hybrid = req_pool.extend (init_req_pool 3 4)
     \<lparr>h_alloc = init_req_pool 5 0, h_extra = True, h_lazy = False, h_pp_size = 2,
      h_idx = replicate 4 0, h_pp = replicate 4 [0, 0], h_wp = None, h_cb = None, h_fl = None\<rparr>"

lemma ex_alloc_contract: "slot_alloc (rp_ops :: req_pool alloc_ops) rp_ok rp_avail rp_slots"
  by (rule rp.slot_alloc_axioms)

lemma ex_hybrid_split: "mamba_split rp_ok rp_avail rp_slots ex_hybrid []"
  by (simp add: mamba_split_def split_slots_def ex_hybrid_def req_pool.extend_def init_req_pool_def
      rp_ok_def rp_avail_def rp_slots_def)

theorem hybrid_alloc_no_leak_witness:
  "\<exists>P' reqs'. hybrid_alloc rp_ops ex_hybrid [ex_req 0 None] = Inr (P', reqs', Some [3]) \<and>
     mamba_split rp_ok rp_avail rp_slots P' (concat (map own reqs'))"
proof -
  define run where "run = hybrid_alloc rp_ops ex_hybrid [ex_req 0 None]"
  have "case run of Inr (P, rs, x) \<Rightarrow> x = Some [3] | Inl _ \<Rightarrow> False" unfolding run_def by code_simp
  then obtain P' reqs' where e: "run = Inr (P', reqs', Some [3])" by (cases run) auto
  have o: "own (ex_req 0 None) = []" by code_simp
  then have s: "mamba_split rp_ok rp_avail rp_slots ex_hybrid (concat (map own [ex_req 0 None]) @ [])"
    using ex_hybrid_split by simp
  have b: "batch_slots [ex_req 0 None] = []" by code_simp
  have rp: "rp_ok ex_hybrid" "length (rp_gen ex_hybrid) = rp_alloc_size ex_hybrid"
    "rp_alloc_size ex_hybrid \<le> length (h_idx ex_hybrid)" "rp_alloc_size ex_hybrid \<le> length (h_pp ex_hybrid)"
    "1 \<le> h_pp_size ex_hybrid"
    by (simp_all add: ex_hybrid_def req_pool.extend_def init_req_pool_def rp_ok_def)
  from hybrid_alloc_no_leak[OF ex_alloc_contract s rp _ _ e[unfolded run_def]] b
  show ?thesis using e by (auto simp: run_def)
qed

definition ex_live :: "req_pool hybrid_pool \<times> req" where
  "ex_live = (case hybrid_alloc rp_ops ex_hybrid [ex_req 0 None] of
      Inr (P, rs, _) \<Rightarrow> (P, rs ! 0) | Inl _ \<Rightarrow> (ex_hybrid, ex_req 0 None))"

lemma ex_live_facts:
  "own (snd ex_live) = [5, 3, 4]" "req_pool_idx (snd ex_live) = Some 3" "mamba_pool_idx (snd ex_live) = Some 5"
  "mamba_ping_pong (snd ex_live) = Some [3, 4]" "h_pp (fst ex_live) ! 3 = [3, 4]"
  "h_extra (fst ex_live)" "h_pp_size (fst ex_live) = 2" "mamba_last_track (snd ex_live) = Some 1"
  "length (h_pp (fst ex_live)) = 4" "rp_free_slots (h_alloc (fst ex_live)) = [1, 2]"
  "rp_alloc_size (h_alloc (fst ex_live)) = 6" "\<not> h_lazy (fst ex_live)"
  by code_simp+

lemma ex_live_split: "mamba_split rp_ok rp_avail rp_slots (fst ex_live) (own (snd ex_live) @ [])"
  by (auto simp: mamba_split_def split_slots_def rp_ok_def rp_avail_def rp_slots_def ex_live_facts)

theorem free_gives_back_witness:
  "\<exists>P' r'. free_mamba_cache rp_ops (fst ex_live) (snd ex_live) (Some 1) = Inr (P', r') \<and> own r' = [] \<and>
     mamba_split rp_ok rp_avail rp_slots P' [4]"
  using free_gives_back[OF ex_alloc_contract ex_live_split ex_live_facts(2,3), of "Some 1"]
  by (simp add: ex_live_facts kept_slots_def)

theorem donate_swaps_witness:
  "\<exists>P' r'. donate_mamba_ping_pong_slot True (ex_hybrid\<lparr>h_alloc := h_alloc (fst ex_live)\<rparr>)
       ((snd ex_live)\<lparr>mamba_pool_idx := None\<rparr>) 5 = Inr (P', r', 4) \<and>
     mamba_split rp_ok rp_avail rp_slots P' (own r' @ [4]) \<and> mamba_ping_pong r' = Some [3, 5]"
proof -
  let ?P = "ex_hybrid\<lparr>h_alloc := h_alloc (fst ex_live)\<rparr>"
  let ?r = "(snd ex_live)\<lparr>mamba_pool_idx := None\<rparr>"
  have o: "own ?r = [3, 4]" by code_simp
  have s: "mamba_split rp_ok rp_avail rp_slots ?P (own ?r @ nat 5 # [])"
    by (auto simp: mamba_split_def split_slots_def rp_ok_def rp_avail_def rp_slots_def ex_live_facts o)
  have l: "3 < length (h_pp ?P)" by (simp add: ex_hybrid_def req_pool.extend_def)
  have r: "req_pool_idx ?r = Some 3" "mamba_ping_pong ?r = Some [3, 4]" "mamba_last_track ?r = Some 1"
    by (simp_all add: ex_live_facts)
  from donate_swaps[OF s _ r _ _ _ l, of True] obtain P' r' where
    D: "donate_mamba_ping_pong_slot True ?P ?r 5 = Inr (P', r', 4)"
      "mamba_split rp_ok rp_avail rp_slots P' (own r' @ [4])" by auto
  have "case donate_mamba_ping_pong_slot True ?P ?r 5 of Inr (P, r, v) \<Rightarrow> mamba_ping_pong r = Some [3, 5] | Inl _ \<Rightarrow> False"
    by code_simp
  then show ?thesis using D by auto
qed

end
