(* ===== verification/Ple_Batch.thy ===== *)
theory Ple_Batch
  imports Ngram_Hash Hybrid_Pool
begin

text \<open>
  The token layout and the n-gram history of one forward (\<^verbatim>\<open>_prepare_ple_batch\<close>,
  \<^verbatim>\<open>compute_ngram_ids\<close>, \<^verbatim>\<open>_commit_ple_batch\<close> and \<^verbatim>\<open>_ple_track_targets\<close> of
  \<^verbatim>\<open>runtime-src/qwen4_exp.py\<close>). The rows of the history live in a pool that is not in the
  repository: its operations are the record \<open>ngram_ops\<close>, their laws the locale of \<open>Ple_Stream\<close>.
\<close>

section \<open>The forward batch\<close>

datatype forward_mode = Idle | Decode | Target_Verify | Extend

text \<open>
  \<open>fb_spec_info\<close> holds the topk (1 when absent) and the draft tokens per row; \<open>fb_aligned\<close> is the
  result of \<^verbatim>\<open>mamba_track_aligned_lens()\<close>.
\<close>

record fwd_batch =
  fb_two_batch :: bool
  fb_ngram_spec :: bool
  fb_spec_info :: "(int \<times> int) option"
  fb_original_mode :: "forward_mode option"
  fb_mode :: forward_mode
  fb_non_padded :: "int option"
  fb_extend_cpu :: "nat list option"
  fb_extend :: "nat list option"
  fb_req_idx :: "nat list"
  fb_out_loc :: "nat list option"
  fb_track_idx :: "nat list option"
  fb_track_mask :: "bool list option"
  fb_aligned :: "int list option"

definition get_ple_forward_mode :: "fwd_batch \<Rightarrow> forward_mode" where
  "get_ple_forward_mode fb = (case fb_original_mode fb of Some m \<Rightarrow> m | None \<Rightarrow> fb_mode fb)"

definition get_processed_token_count :: "fwd_batch \<Rightarrow> nat \<Rightarrow> nat result" where
  "get_processed_token_count fb physical =
     (case (case fb_non_padded fb of Some n \<Rightarrow> Some n
            | None \<Rightarrow> map_option (\<lambda>ls. int (sum_list ls)) (fb_extend_cpu fb)) of
        None \<Rightarrow> Inr physical
      | Some n \<Rightarrow> if 0 \<le> n \<and> n \<le> int physical then Inr (nat n) else Inl RuntimeError)"

section \<open>The layout of the tokens\<close>

record ple_batch =
  pb_uid :: nat
  pb_mode :: forward_mode
  pb_fast :: bool
  pb_physical :: nat
  pb_processed :: nat
  pb_lengths :: "nat list"
  pb_row_width :: nat
  pb_req :: "nat list"
  pb_off :: "nat list"
  pb_valid :: "bool list"
  pb_state :: "nat list"
  pb_context :: "i64 list list option"
  pb_eos :: "i64 option"

text \<open>
  Broadcasting of two one-dimensional tensors: equal lengths, or one of them has one element.
\<close>

definition bcast :: "'a list \<Rightarrow> 'b list \<Rightarrow> ('a \<times> 'b) list result" where
  "bcast xs ys =
     (if length xs = length ys then Inr (zip xs ys)
      else if length xs = 1 then Inr (map (Pair (hd xs)) ys)
      else if length ys = 1 then Inr (map (\<lambda>x. (x, hd ys)) xs)
      else Inl RuntimeError)"

definition where_or_0 :: "bool list \<Rightarrow> nat list \<Rightarrow> nat list result" where
  "where_or_0 bs xs = map_sum id (map (\<lambda>(b, x). if b then x else 0)) (bcast bs xs)"

text \<open>\<^verbatim>\<open>query_start_loc\<close> and \<^verbatim>\<open>searchsorted(..., right=True)\<close>.\<close>

definition query_start_loc :: "nat list \<Rightarrow> nat list" where
  "query_start_loc lengths = map (\<lambda>k. sum_list (take k lengths)) [0..<length lengths + 1]"

definition searchsorted_right :: "nat list \<Rightarrow> nat \<Rightarrow> nat" where
  "searchsorted_right xs v = length (takeWhile (\<lambda>x. x \<le> v) xs)"

definition verify_layout :: "fwd_batch \<Rightarrow> nat \<Rightarrow> (nat list \<times> nat \<times> nat list \<times> nat list) result" where
  "verify_layout fb processed =
     (case fb_spec_info fb of None \<Rightarrow> Inl AssertionError
      | Some (_, width) \<Rightarrow>
          if width \<le> 0 \<or> int processed mod width \<noteq> 0 then Inl RuntimeError
          else let w = nat width; n = processed div w;
                   lengths = (case fb_extend fb of
                       Some ls \<Rightarrow> if fb_mode fb = Target_Verify then take n ls else replicate n w
                     | None \<Rightarrow> replicate n w)
               in if length lengths \<noteq> n then Inl RuntimeError
                  else Inr (lengths, w, map (\<lambda>p. p div w) [0..<processed],
                            map (\<lambda>p. p - p div w * w) [0..<processed]))"

definition decode_layout :: "nat \<Rightarrow> nat list \<times> nat \<times> nat list \<times> nat list" where
  "decode_layout processed = (replicate processed 1, 1, [0..<processed], replicate processed 0)"

text \<open>
  Tokens past the last sequence are given to the last sequence by the clamp; without any sequence
  the clamped index is negative and the gather fails.
\<close>

definition extend_layout :: "fwd_batch \<Rightarrow> nat \<Rightarrow> (nat list \<times> nat \<times> nat list \<times> nat list) result" where
  "extend_layout fb processed =
     (case fb_extend fb of None \<Rightarrow> Inl RuntimeError
      | Some lengths \<Rightarrow>
          let width = (case fb_extend_cpu fb of Some ls \<Rightarrow> fold max ls 0 | None \<Rightarrow> processed);
              qsl = query_start_loc lengths;
              req = map (\<lambda>p. min (searchsorted_right qsl p - 1) (length lengths - 1)) [0..<processed]
          in if 0 < processed \<and> lengths = [] then Inl IndexError
             else Inr (lengths, width, req, map (\<lambda>p. p - qsl ! (req ! p)) [0..<processed]))"

definition ple_layout :: "fwd_batch \<Rightarrow> forward_mode \<Rightarrow> nat \<Rightarrow> (nat list \<times> nat \<times> nat list \<times> nat list) result" where
  "ple_layout fb mode processed =
     (case mode of Target_Verify \<Rightarrow> verify_layout fb processed
      | Decode \<Rightarrow> Inr (decode_layout processed)
      | _ \<Rightarrow> extend_layout fb processed)"

section \<open>State slots and context\<close>

record 'n ngram_ops =
  ng_width :: "'n \<Rightarrow> nat"
  ng_get :: "'n \<Rightarrow> nat list \<Rightarrow> i64 list list result"
  ng_put :: "'n \<Rightarrow> nat list \<Rightarrow> i64 list list \<Rightarrow> 'n result"
  ng_put_steps :: "'n \<Rightarrow> i64 list list list \<Rightarrow> 'n result"

record ('a, 'n) ple_pool = "'a hybrid_pool" +
  ple_window_cache :: window_cache
  ngram_pool :: 'n

text \<open>
  A row whose cache location is 0 is padding of a captured graph; its slot becomes the reserved 0.
\<close>

definition ple_state_indices ::
  "bool \<Rightarrow> fwd_batch \<Rightarrow> forward_mode \<Rightarrow> nat \<Rightarrow> nat list \<Rightarrow> nat \<Rightarrow> nat list \<Rightarrow> nat list result" where
  "ple_state_indices fast fb mode processed lengths width slots =
     (let n = length lengths; nz = map (\<lambda>x. x \<noteq> (0::nat))
      in if fast then
           (case fb_out_loc fb of None \<Rightarrow> Inr slots | Some loc \<Rightarrow> where_or_0 (nz (take n loc)) slots)
         else
           res_bind
             (case fb_out_loc fb of None \<Rightarrow> Inr (nz lengths)
              | Some loc \<Rightarrow>
                  (case mode of
                     Decode \<Rightarrow> map_sum id (map (\<lambda>(a, b). a \<and> b)) (bcast (nz lengths) (nz (take n loc)))
                   | Target_Verify \<Rightarrow>
                       if length (take processed loc) \<noteq> n * width then Inl RuntimeError
                       else map_sum id (map (\<lambda>(a, b). a \<and> b))
                              (bcast (nz lengths) (map (\<lambda>row. True \<in> set (nz row)) (chunks width n (take processed loc))))
                   | _ \<Rightarrow> Inr (nz lengths)))
             (\<lambda>valid. where_or_0 valid slots))"

text \<open>The stores \<^verbatim>\<open>padded[req_indices, token_offsets] = ...\<close>, one cell per token, over rows of \<open>z\<close>.\<close>

definition put_tokens :: "'b \<Rightarrow> nat \<Rightarrow> nat \<Rightarrow> nat list \<Rightarrow> nat list \<Rightarrow> 'b list \<Rightarrow> 'b list list result" where
  "put_tokens z n width req off vals =
     (if \<exists>(q, p)\<in>set (zip req off). n \<le> q \<or> width \<le> p then Inl IndexError
      else Inr (fold (\<lambda>((q, p), t) rows. rows[q := (rows ! q)[p := t]]) (zip (zip req off) vals)
                  (replicate n (replicate width z))))"

definition padded_rows :: "i64 \<Rightarrow> nat \<Rightarrow> nat \<Rightarrow> nat list \<Rightarrow> nat list \<Rightarrow> bool list \<Rightarrow> i64 list \<Rightarrow> i64 list list result" where
  "padded_rows eos n width req off valid tokens =
     put_tokens eos n width req off (map2 (\<lambda>v t. if v then t else eos) valid tokens)"

definition ple_context ::
  "'n ngram_ops \<Rightarrow> 'n \<Rightarrow> nat \<Rightarrow> i64 \<Rightarrow> bool \<Rightarrow> nat \<Rightarrow> nat \<Rightarrow> nat list \<Rightarrow> nat list \<Rightarrow> bool list \<Rightarrow> i64 list \<Rightarrow> nat list \<Rightarrow>
   i64 list list result" where
  "ple_context ops pool ngram eos fast n width req off valid tokens slots =
     res_bind (if fast then Inr (map (\<lambda>t. [t]) tokens) else padded_rows eos n width req off valid tokens) (\<lambda>padded.
     res_bind (ng_get ops pool slots) (\<lambda>history.
       if int (ng_width ops pool) \<noteq> int ngram - 1 then Inl RuntimeError
       else if length history \<noteq> length padded then Inl RuntimeError
       else Inr (map2 (@) history padded)))"

section \<open>Preparation\<close>

definition ple_guards :: "fwd_batch \<Rightarrow> unit result" where
  "ple_guards fb =
     (if fb_two_batch fb \<or> fb_ngram_spec fb \<or>
         (case fb_spec_info fb of Some (topk, _) \<Rightarrow> topk \<noteq> 1 | None \<Rightarrow> False)
      then Inl NotImplementedError else Inr ())"

definition prepare_ple_batch ::
  "'n ngram_ops \<Rightarrow> bool \<Rightarrow> nat \<Rightarrow> ('a, 'n) ple_pool \<Rightarrow> i64 list \<Rightarrow> fwd_batch \<Rightarrow> nat option \<Rightarrow> i64 option \<Rightarrow>
   (('a, 'n) ple_pool \<times> ple_batch option) result" where
  "prepare_ple_batch ops fusion uid P input fb ngram eos =
     res_bind (ple_guards fb) (\<lambda>_.
     let mode = get_ple_forward_mode fb;
         P1 = P\<lparr>ple_window_cache := None\<rparr>
     in if mode = Idle then Inr (P1, None)
     else let fast = (fusion \<and> mode = Decode); physical = length input
     in res_bind (get_processed_token_count fb physical) (\<lambda>processed.
     let tokens = take processed input
     in res_bind (ple_layout fb mode processed) (\<lambda>(lengths, width, req, off).
     let valid = (if fast then replicate processed True else map2 (\<lambda>p q. p < lengths ! q) off req)
     in res_bind (ple_state_indices fast fb mode processed lengths width
                    (get_mamba_indices P1 (take (length lengths) (fb_req_idx fb)))) (\<lambda>slots.
     res_bind (case ngram of None \<Rightarrow> Inr None
               | Some g \<Rightarrow>
                   (case eos of None \<Rightarrow> Inl AssertionError
                    | Some e \<Rightarrow> map_sum id Some
                        (ple_context ops (ngram_pool P1) g e fast (length lengths) width req off valid tokens slots)))
       (\<lambda>context. Inr (P1, Some \<lparr>pb_uid = uid, pb_mode = mode, pb_fast = fast, pb_physical = physical,
          pb_processed = processed, pb_lengths = lengths, pb_row_width = width, pb_req = req, pb_off = off,
          pb_valid = valid, pb_state = slots, pb_context = context, pb_eos = eos\<rparr>))))))"

section \<open>Ids of a batch\<close>

definition unfold_rows :: "nat \<Rightarrow> 'b list \<Rightarrow> 'b list list" where
  "unfold_rows k row = map (\<lambda>i. take k (drop i row)) [0..<length row + 1 - k]"

definition gather_windows :: "nat \<Rightarrow> ple_batch \<Rightarrow> i64 list list \<Rightarrow> i64 list list" where
  "gather_windows k b ctx =
     (if pb_fast b then ctx else map2 (\<lambda>q p. unfold_rows k (ctx ! q) ! p) (pb_req b) (pb_off b))"

definition compute_ngram_ids ::
  "(i64 list list \<Rightarrow> int list list) option \<Rightarrow> ngram_config \<Rightarrow> i64 list \<Rightarrow> int list \<Rightarrow> int list \<Rightarrow>
   ('a, 'n) ple_pool \<Rightarrow> ple_batch \<Rightarrow> (('a, 'n) ple_pool \<times> int list list) result" where
  "compute_ngram_ids fused c mults sizes offs P b =
     (case pb_context b of None \<Rightarrow> Inl AssertionError
      | Some ctx \<Rightarrow>
          let (cache, contexts) =
            (case ple_window_cache P of
               Some (u, w, sh) \<Rightarrow>
                 if u = pb_uid b then (Some (u, w, sh), w)
                 else (Some (pb_uid b, gather_windows (ngram_size c) b ctx, None), gather_windows (ngram_size c) b ctx)
             | None \<Rightarrow> (Some (pb_uid b, gather_windows (ngram_size c) b ctx, None), gather_windows (ngram_size c) b ctx))
          in res_bind (hash_contexts fused c mults sizes offs (pb_uid b) contexts
                         (pb_mode b = Decode \<or> pb_mode b = Target_Verify) cache)
               (\<lambda>(cache', ids). Inr (P\<lparr>ple_window_cache := cache'\<rparr>, ids)))"

section \<open>Commit\<close>

text \<open>\<^verbatim>\<open>context.gather(1, start.unsqueeze(1) + arange(width))\<close>.\<close>

definition gather_slice :: "nat \<Rightarrow> 'b list list \<Rightarrow> nat list \<Rightarrow> 'b list list result" where
  "gather_slice width rows starts =
     (if length rows < length starts \<or> (\<exists>(row, s)\<in>set (zip rows starts). length row < s + width) then Inl IndexError
      else Inr (map2 (\<lambda>row s. take width (drop s row)) rows starts))"

definition ple_track_targets :: "fwd_batch \<Rightarrow> ple_batch \<Rightarrow> (nat list \<times> nat list) option result" where
  "ple_track_targets fb b =
     (case (fb_track_idx fb, fb_track_mask fb) of
        (Some idx, Some bs) \<Rightarrow>
          let rows = length (pb_lengths b)
          in res_bind (where_or_0 (take rows bs) (take rows idx)) (\<lambda>dst.
               if pb_mode b = Decode then Inr (Some (dst, pb_lengths b))
               else (case fb_aligned fb of None \<Rightarrow> Inr None
                     | Some al \<Rightarrow>
                         res_bind (bcast (map (\<lambda>a. nat (max a 0)) (take rows al)) (pb_lengths b))
                           (\<lambda>ps. Inr (Some (dst, map (\<lambda>(a, l). min a l) ps)))))
      | _ \<Rightarrow> Inr None)"

definition step_contexts :: "nat \<Rightarrow> i64 \<Rightarrow> ple_batch \<Rightarrow> i64 list list \<Rightarrow> i64 list list list" where
  "step_contexts width eos b ctx =
     map2 (\<lambda>row vs. map2 (\<lambda>win v. if v then win else replicate width eos) (drop 1 (unfold_rows width row)) vs)
       ctx (chunks (pb_row_width b) (length (pb_lengths b)) (pb_valid b))"

definition commit_ple_batch ::
  "'n ngram_ops \<Rightarrow> ('a, 'n) ple_pool \<Rightarrow> ple_batch option \<Rightarrow> fwd_batch \<Rightarrow> ('a, 'n) ple_pool result" where
  "commit_ple_batch ops P batch fb =
     (case batch of None \<Rightarrow> Inr P
      | Some b \<Rightarrow>
          (case pb_context b of None \<Rightarrow> Inr P
           | Some ctx \<Rightarrow>
               if pb_processed b = 0 then Inr P
               else let width = length (hd ctx) - pb_row_width b;
                        put = (\<lambda>Q is rows. map_sum id (\<lambda>n. Q\<lparr>ngram_pool := n\<rparr>) (ng_put ops (ngram_pool Q) is rows))
               in if pb_mode b = Target_Verify then
                    map_sum id (\<lambda>n. P\<lparr>ngram_pool := n\<rparr>)
                      (ng_put_steps ops (ngram_pool P) (step_contexts width (the (pb_eos b)) b ctx))
                  else res_bind (if pb_fast b then Inr (map (drop (pb_row_width b)) ctx)
                                 else gather_slice width ctx (pb_lengths b)) (\<lambda>next.
                    res_bind (put P (pb_state b) next) (\<lambda>P1.
                    res_bind (ple_track_targets fb b) (\<lambda>track.
                      case track of None \<Rightarrow> Inr P1
                      | Some (dst, starts) \<Rightarrow>
                          res_bind (if pb_fast b then Inr next else gather_slice width ctx starts)
                            (\<lambda>rows. put P1 dst rows))))))"

end
