(* ===== verification/Ple_Layout.thy ===== *)
theory Ple_Layout
  imports Ple_Batch
begin

text \<open>
  The layout of a batch: the row and the offset of each token enumerate the sequences in order, the
  stores into the padded rows put every sequence at the start of its row, and a window of a row with
  its history is a window of the whole text.
\<close>

section \<open>The tokens enumerate the sequences\<close>

fun layout_from :: "nat \<Rightarrow> nat list \<Rightarrow> (nat \<times> nat) list" where
  "layout_from q [] = []"
| "layout_from q (l # ls) = map (Pair q) [0..<l] @ layout_from (Suc q) ls"

lemma length_layout [simp]: "length (layout_from q ls) = sum_list ls"
  by (induction ls arbitrary: q) auto

lemma layout_nth:
  "t < sum_list ls \<Longrightarrow> \<exists>k p. layout_from q ls ! t = (q + k, p) \<and> k < length ls \<and> p < ls ! k \<and> t = sum_list (take k ls) + p"
proof (induction ls arbitrary: q t)
  case Nil
  then show ?case by simp
next
  case (Cons l ls)
  show ?case
  proof (cases "t < l")
    case True
    then have "layout_from q (l # ls) ! t = (q, t)" by (simp add: nth_append)
    then show ?thesis using True by (intro exI[of _ 0] exI[of _ t]) simp
  next
    case False
    then have "t - l < sum_list ls" using Cons.prems by simp
    then obtain k p where k: "layout_from (Suc q) ls ! (t - l) = (Suc q + k, p)" "k < length ls" "p < ls ! k"
      "t - l = sum_list (take k ls) + p" using Cons.IH[of "t - l" "Suc q"] by blast
    moreover have "layout_from q (l # ls) ! t = layout_from (Suc q) ls ! (t - l)" using False by (simp add: nth_append)
    ultimately show ?thesis using False by (intro exI[of _ "Suc k"] exI[of _ p]) simp
  qed
qed

lemma layout_at:
  "k < length ls \<Longrightarrow> p < ls ! k \<Longrightarrow> layout_from q ls ! (sum_list (take k ls) + p) = (q + k, p)"
proof (induction ls arbitrary: q k)
  case Nil
  then show ?case by simp
next
  case (Cons l ls)
  show ?case
  proof (cases k)
    case 0
    then show ?thesis using Cons.prems by (simp add: nth_append)
  next
    case (Suc k')
    then show ?thesis using Cons.IH[of k' "Suc q"] Cons.prems by (simp add: nth_append)
  qed
qed

lemma verify_layout_from: "zip (map (\<lambda>t. t div w) [0..<n * w]) (map (\<lambda>t. t - t div w * w) [0..<n * w]) =
    layout_from 0 (replicate n w)"
proof (rule nth_equalityI)
  show "length (zip (map (\<lambda>t. t div w) [0..<n * w]) (map (\<lambda>t. t - t div w * w) [0..<n * w])) =
      length (layout_from 0 (replicate n w))" by (simp add: sum_list_replicate)
  fix t assume "t < length (zip (map (\<lambda>t. t div w) [0..<n * w]) (map (\<lambda>t. t - t div w * w) [0..<n * w]))"
  then have t: "t < n * w" by simp
  then obtain k p where k: "layout_from 0 (replicate n w) ! t = (k, p)" "k < n" "p < w" "t = k * w + p"
    using layout_nth[of t "replicate n w" 0] by (auto simp: sum_list_replicate min_def)
  then have "t div w = k" by simp
  then show "zip (map (\<lambda>t. t div w) [0..<n * w]) (map (\<lambda>t. t - t div w * w) [0..<n * w]) ! t = layout_from 0 (replicate n w) ! t"
    using t k by simp
qed

lemma decode_layout_from: "zip [q..<q + n] (replicate n 0) = layout_from q (replicate n 1)"
proof (induction n arbitrary: q)
  case 0
  then show ?case by simp
next
  case (Suc n)
  have "[q..<q + Suc n] = q # [Suc q..<Suc q + n]" by (subst upt_conv_Cons) simp_all
  moreover have "layout_from q (replicate (Suc n) 1) = (q, 0) # layout_from (Suc q) (replicate n 1)" by simp
  ultimately show ?case using Suc[of "Suc q"] by (simp only: replicate_Suc zip_Cons_Cons)
qed

lemma takeWhile_count:
  assumes "k < length xs" "\<forall>j\<le>k. xs ! j \<le> v" "Suc k < length xs \<Longrightarrow> v < xs ! Suc k"
  shows "searchsorted_right xs (v :: nat) = Suc k"
proof -
  have xs: "xs = take (Suc k) xs @ drop (Suc k) xs" by simp
  have "\<forall>x\<in>set (take (Suc k) xs). x \<le> v" using assms(1,2) by (auto simp: in_set_conv_nth)
  moreover have "takeWhile (\<lambda>x. x \<le> v) (drop (Suc k) xs) = []"
  proof (cases "Suc k < length xs")
    case True
    then show ?thesis using assms(3) by (cases "drop (Suc k) xs") (auto simp: hd_drop_conv_nth[symmetric])
  qed simp
  ultimately have "takeWhile (\<lambda>x. x \<le> v) xs = take (Suc k) xs" by (subst xs, subst takeWhile_append2) simp_all
  then show ?thesis using assms(1) by (simp add: searchsorted_right_def)
qed

lemma sum_take_le: "i \<le> k \<Longrightarrow> sum_list (take i ls) \<le> sum_list (take k (ls :: nat list))"
  using take_add[of i "k - i" ls] by simp

lemma nth_query_start_loc: "k \<le> length ls \<Longrightarrow> query_start_loc ls ! k = sum_list (take k ls)"
  by (simp add: query_start_loc_def del: upt_Suc)

lemma extend_positions:
  assumes t: "t < sum_list ls"
  defines "req \<equiv> \<lambda>p. min (searchsorted_right (query_start_loc ls) p - 1) (length ls - 1)"
  shows "(req t, t - query_start_loc ls ! req t) = layout_from 0 ls ! t"
proof -
  obtain k p where k: "layout_from 0 ls ! t = (k, p)" "k < length ls" "p < ls ! k" "t = sum_list (take k ls) + p"
    using layout_nth[OF t, of 0] by auto
  have "searchsorted_right (query_start_loc ls) t = Suc k"
  proof (rule takeWhile_count)
    show "k < length (query_start_loc ls)" using k(2) by (simp add: query_start_loc_def)
    show "\<forall>j\<le>k. query_start_loc ls ! j \<le> t"
      using k(2,4) sum_take_le[of _ k ls] by (auto simp: nth_query_start_loc intro: trans_le_add1)
    show "t < query_start_loc ls ! Suc k" using k by (simp add: nth_query_start_loc take_Suc_conv_app_nth)
  qed
  then have "req t = k" using k(2) unfolding req_def by simp
  then show ?thesis using k by (simp add: nth_query_start_loc)
qed

lemma le_fold_max: "x = b \<or> x \<in> set xs \<Longrightarrow> x \<le> fold max xs (b :: nat)"
proof (induction xs arbitrary: b x)
  case Nil
  then show ?case by simp
next
  case (Cons y ys)
  have "max y b \<le> fold max ys (max y b)" by (rule Cons.IH) simp
  moreover have "x \<in> set ys \<Longrightarrow> x \<le> fold max ys (max y b)" by (rule Cons.IH) simp
  ultimately show ?case using Cons.prems by auto
qed

lemma extend_layout_ok:
  assumes e: "fb_extend fb = Some ls" and cpu: "fb_extend_cpu fb = None \<or> fb_extend_cpu fb = Some ls"
    and n: "processed = sum_list ls"
  obtains width req off where "extend_layout fb processed = Inr (ls, width, req, off)"
    "zip req off = layout_from 0 ls" "length req = processed" "length off = processed" "\<forall>l\<in>set ls. l \<le> width"
proof -
  define req where "req = map (\<lambda>p. min (searchsorted_right (query_start_loc ls) p - 1) (length ls - 1)) [0..<processed]"
  define off where "off = map (\<lambda>p. p - query_start_loc ls ! (req ! p)) [0..<processed]"
  define width where "width = (case fb_extend_cpu fb of Some ls \<Rightarrow> fold max ls 0 | None \<Rightarrow> processed)"
  have "\<not> (0 < processed \<and> ls = [])" using n by auto
  then have run: "extend_layout fb processed = Inr (ls, width, req, off)"
    unfolding extend_layout_def e Let_def req_def off_def width_def by (simp only: option.case if_False)
  have z: "zip req off = layout_from 0 ls"
  proof (rule nth_equalityI)
    show "length (zip req off) = length (layout_from 0 ls)" by (simp add: req_def off_def n)
    fix t assume "t < length (zip req off)"
    then have t: "t < processed" by (simp add: req_def)
    have "zip req off ! t = (req ! t, t - query_start_loc ls ! (req ! t))" using t by (simp add: off_def req_def)
    also have "\<dots> = layout_from 0 ls ! t" using extend_positions[of t ls] t n by (simp add: req_def)
    finally show "zip req off ! t = layout_from 0 ls ! t" .
  qed
  have "l \<le> width" if l: "l \<in> set ls" for l
  proof (cases "fb_extend_cpu fb")
    case None
    then show ?thesis using l n by (simp add: width_def member_le_sum_list)
  next
    case (Some ls')
    then have "width = fold max ls 0" using cpu by (auto simp: width_def)
    moreover have "l \<le> fold max ls 0" using le_fold_max[of l 0 ls] l by simp
    ultimately show ?thesis using l by simp
  qed
  then show thesis using that[OF run z] by (simp add: req_def off_def)
qed

lemma valid_all:
  assumes "zip req off = layout_from 0 ls" "length req = length off"
  shows "map2 (\<lambda>p q. p < ls ! q) off req = replicate (length off) True"
proof (rule nth_equalityI)
  show "length (map2 (\<lambda>p q. p < ls ! q) off req) = length (replicate (length off) True)" using assms(2) by simp
  fix t assume "t < length (map2 (\<lambda>p q. p < ls ! q) off req)"
  then have t: "t < length off" "t < length req" by simp_all
  then have "t < sum_list ls" using arg_cong[OF assms(1), of length] by simp
  from layout_nth[OF this, of 0] obtain k p where "layout_from 0 ls ! t = (k, p)" "p < ls ! k" by auto
  moreover have "layout_from 0 ls ! t = (req ! t, off ! t)" using t unfolding assms(1)[symmetric] by simp
  ultimately show "map2 (\<lambda>p q. p < ls ! q) off req ! t = replicate (length off) True ! t" using t by simp
qed

lemma where_all_true: "map2 (\<lambda>v t. if v then t else e) (replicate (length ts) True) ts = ts"
  by (rule nth_equalityI) simp_all

section \<open>The padded rows\<close>

abbreviation put_cell :: "(nat \<times> nat) \<times> 'b \<Rightarrow> 'b list list \<Rightarrow> 'b list list" where
  "put_cell \<equiv> \<lambda>((q, p), t) rows. rows[q := (rows ! q)[p := t]]"

lemma fold_put_cell_row:
  assumes "q < length rows" "p0 + length ts \<le> length (rows ! q)"
  shows "fold put_cell (zip (map (Pair q) [p0..<p0 + length ts]) ts) rows =
    rows[q := take p0 (rows ! q) @ ts @ drop (p0 + length ts) (rows ! q)]"
  using assms
proof (induction ts arbitrary: p0 rows)
  case Nil
  then show ?case by simp
next
  case (Cons t ts)
  have "[p0..<p0 + length (t # ts)] = p0 # [Suc p0..<Suc p0 + length ts]" by (subst upt_conv_Cons) simp_all
  then have "fold put_cell (zip (map (Pair q) [p0..<p0 + length (t # ts)]) (t # ts)) rows =
      fold put_cell (zip (map (Pair q) [Suc p0..<Suc p0 + length ts]) ts) (rows[q := (rows ! q)[p0 := t]])" by simp
  also have "\<dots> = rows[q := take (Suc p0) ((rows ! q)[p0 := t]) @ ts @ drop (Suc p0 + length ts) ((rows ! q)[p0 := t])]"
    using Cons.IH[of "rows[q := (rows ! q)[p0 := t]]" "Suc p0"] Cons.prems by simp
  also have "take (Suc p0) ((rows ! q)[p0 := t]) = take p0 (rows ! q) @ [t]" using Cons.prems by (simp add: take_Suc_conv_app_nth)
  finally show ?case by simp
qed

lemma fold_put_cells:
  assumes "q + length cs \<le> length rows" "\<forall>k<length cs. length (cs ! k) \<le> length (rows ! (q + k))"
  shows "fold put_cell (zip (layout_from q (map length cs)) (concat cs)) rows =
    take q rows @ map2 (\<lambda>c row. c @ drop (length c) row) cs (drop q rows) @ drop (q + length cs) rows"
  using assms
proof (induction cs arbitrary: q rows)
  case Nil
  then show ?case by simp
next
  case (Cons c cs)
  have q: "q < length rows" using Cons.prems(1) by simp
  let ?r = "rows[q := c @ drop (length c) (rows ! q)]"
  have "fold put_cell (zip (map (Pair q) [0..<length c]) c) rows = ?r"
    using fold_put_cell_row[of q rows 0 c] Cons.prems(2)[rule_format, of 0] q by simp
  then have "fold put_cell (zip (layout_from q (map length (c # cs))) (concat (c # cs))) rows =
      fold put_cell (zip (layout_from (Suc q) (map length cs)) (concat cs)) ?r" by (simp add: zip_append)
  also have "\<dots> = take (Suc q) ?r @ map2 (\<lambda>c row. c @ drop (length c) row) cs (drop (Suc q) ?r) @ drop (Suc q + length cs) ?r"
  proof (rule Cons.IH)
    show "Suc q + length cs \<le> length ?r" using Cons.prems(1) by simp
    show "\<forall>k<length cs. length (cs ! k) \<le> length (?r ! (Suc q + k))"
    proof (intro allI impI)
      fix k assume "k < length cs"
      then show "length (cs ! k) \<le> length (?r ! (Suc q + k))" using Cons.prems(2)[rule_format, of "Suc k"] by simp
    qed
  qed
  also have "\<dots> = take q rows @ map2 (\<lambda>c row. c @ drop (length c) row) (c # cs) (drop q rows) @ drop (q + length (c # cs)) rows"
    using q by (simp add: take_Suc_conv_app_nth Cons_nth_drop_Suc[symmetric])
  finally show ?case .
qed

lemma put_tokens_ok:
  assumes z: "zip req off = layout_from 0 (map length cs)"
    and w: "\<forall>c\<in>set cs. length c \<le> width"
  shows "put_tokens eos (length cs) width req off (concat cs) =
    Inr (map (\<lambda>c. c @ replicate (width - length c) eos) cs)"
proof -
  have inside: "\<not> (\<exists>(q, p)\<in>set (zip req off). length cs \<le> q \<or> width \<le> p)"
  proof
    assume "\<exists>(q, p)\<in>set (zip req off). length cs \<le> q \<or> width \<le> p"
    then obtain q p where qp: "(q, p) \<in> set (layout_from 0 (map length cs))" "length cs \<le> q \<or> width \<le> p" unfolding z by blast
    obtain t where t: "t < sum_list (map length cs)" "layout_from 0 (map length cs) ! t = (q, p)"
      using qp(1) unfolding in_set_conv_nth by (auto simp del: length_concat)
    from layout_nth[OF t(1), of 0] have "q < length cs" "p < length (cs ! q)" using t(2) by auto
    then show False using qp(2) w nth_mem by fastforce
  qed
  have "fold put_cell (zip (layout_from 0 (map length cs)) (concat cs)) (replicate (length cs) (replicate width eos)) =
      map2 (\<lambda>c row. c @ drop (length c) row) cs (replicate (length cs) (replicate width eos))"
    by (subst fold_put_cells) (use w in simp_all)
  moreover have "map2 (\<lambda>c row. c @ drop (length c) row) cs (replicate (length cs) (replicate width eos)) =
      map (\<lambda>c. c @ replicate (width - length c) eos) cs"
    by (rule nth_equalityI) simp_all
  ultimately show ?thesis using inside unfolding put_tokens_def z by simp
qed

lemma padded_rows_ok:
  assumes "zip req off = layout_from 0 (map length cs)"
    and "map2 (\<lambda>v t. if v then t else eos) valid tokens = concat cs"
    and "\<forall>c\<in>set cs. length c \<le> width"
  shows "padded_rows eos (length cs) width req off valid tokens =
    Inr (map (\<lambda>c. c @ replicate (width - length c) eos) cs)"
  unfolding padded_rows_def assms(2) by (rule put_tokens_ok[OF assms(1,3)])

section \<open>History and windows\<close>

text \<open>The context of a text: its last \<open>k\<close> tokens, with end-of-sequence tokens in front of it.\<close>

definition hist_ctx :: "nat \<Rightarrow> 'b \<Rightarrow> 'b list \<Rightarrow> 'b list" where
  "hist_ctx k eos h = drop (length h) (replicate k eos @ h)"

lemma length_hist_ctx [simp]: "length (hist_ctx k eos h) = k"
  by (simp add: hist_ctx_def)

lemma hist_ctx_append: "hist_ctx k eos h @ xs = drop (length h) (replicate k eos @ h @ xs)"
  by (simp add: hist_ctx_def)

lemma hist_ctx_slice:
  assumes "j \<le> length c"
  shows "take k (drop j (hist_ctx k eos h @ c @ rest)) = hist_ctx k eos (h @ take j c)"
proof -
  obtain c1 c2 where c: "c = c1 @ c2" "length c1 = j" using assms by (metis append_take_drop_id length_take min.absorb2)
  have "drop j (hist_ctx k eos h @ c @ rest) = drop (length (h @ c1)) ((replicate k eos @ h @ c1) @ c2 @ rest)"
    unfolding hist_ctx_append drop_drop length_append c by (simp only: c(2) append_assoc add.commute)
  also have "\<dots> = hist_ctx k eos (h @ c1) @ c2 @ rest" by (simp add: hist_ctx_def)
  finally show ?thesis using c by simp
qed

lemma hist_ctx_window:
  assumes N: "1 \<le> ngram_size c" and p: "p < length ch"
  shows "let w = take (ngram_size c) (drop p (hist_ctx (ngram_size c - 1) (eos_token c) h @ ch @ rest)) in
    length w = ngram_size c \<and>
    spec_ids c mults sizes offs w (ngram_size c - 1) = spec_ids c mults sizes offs (h @ ch) (length h + p)"
proof -
  have d: "drop p (hist_ctx (ngram_size c - 1) (eos_token c) h @ ch @ rest) =
      drop (length h + p) (replicate (ngram_size c - 1) (eos_token c) @ (h @ ch) @ rest)"
    unfolding hist_ctx_append drop_drop by (simp only: append_assoc add.commute)
  show ?thesis unfolding Let_def d using window_ids[OF N, of "length h + p" "h @ ch" rest] p by simp
qed

end
