(* ===== verification/Ple_Stream.thy ===== *)
theory Ple_Stream
  imports Ple_Layout
begin

text \<open>
  The n-gram state over several forwards. \<open>ngram_store\<close> is the contract of the context pool, with
  the indexed tensor as its instance; the abstract state gives every slot the text it has seen, and
  one forward refines the extension of these texts by the chunks of the batch.
\<close>

section \<open>The context pool\<close>

definition ctx_at :: "'n ngram_ops \<Rightarrow> 'n \<Rightarrow> nat \<Rightarrow> i64 list" where
  "ctx_at ops n i = hd (ok_or [[]] (ng_get ops n [i]))"

definition assign :: "nat list \<Rightarrow> 'b list \<Rightarrow> (nat \<Rightarrow> 'b) \<Rightarrow> nat \<Rightarrow> 'b" where
  "assign is vs g = fold (\<lambda>(i, v) g. g(i := v)) (zip is vs) g"

definition live_distinct :: "nat list \<Rightarrow> bool" where
  "live_distinct is = distinct (filter (\<lambda>i. i \<noteq> 0) is)"

lemma assign_Cons [simp]: "assign (i # is) (v # vs) g = assign is vs (g(i := v))"
  by (simp add: assign_def)

lemma assign_notin: "i \<notin> set is \<Longrightarrow> assign is vs g i = g i"
proof (induction "is" arbitrary: vs g)
  case Nil
  then show ?case by (simp add: assign_def)
next
  case (Cons j js)
  then show ?case by (cases vs) (auto simp: assign_def)
qed

lemma live_distinct_nth:
  assumes "live_distinct is" "k < length is" "is ! k \<noteq> 0" "k' < length is" "is ! k' = is ! k"
  shows "k' = k"
  using assms
proof (induction "is" arbitrary: k k')
  case Nil
  then show ?case by simp
next
  case (Cons j js)
  have d: "live_distinct js" "j \<noteq> 0 \<Longrightarrow> j \<notin> set js"
    using Cons.prems(1) by (auto simp: live_distinct_def split: if_splits)
  show ?case
  proof (cases k; cases k')
    fix a b assume "k = Suc a" "k' = Suc b"
    then show ?thesis using Cons d(1) by simp
  qed (use Cons.prems d(2) in auto)
qed

lemma assign_nth:
  assumes "live_distinct is" "k < length is" "length vs = length is" "is ! k \<noteq> 0"
  shows "assign is vs g (is ! k) = vs ! k"
  using assms
proof (induction "is" arbitrary: k vs g)
  case Nil
  then show ?case by simp
next
  case (Cons j js)
  obtain v ws where vs: "vs = v # ws" using Cons.prems(3) by (cases vs) auto
  have d: "live_distinct js" "j \<noteq> 0 \<Longrightarrow> j \<notin> set js"
    using Cons.prems(1) by (auto simp: live_distinct_def split: if_splits)
  show ?case
  proof (cases k)
    case 0
    then show ?thesis using vs d(2) Cons.prems(4) by (simp add: assign_notin)
  next
    case (Suc k')
    then show ?thesis using Cons vs d(1) by simp
  qed
qed

locale ngram_store =
  fixes ops :: "'n ngram_ops" and slots :: "'n \<Rightarrow> nat"
  assumes get_in: "\<forall>i\<in>set is. i < slots n \<Longrightarrow> ng_get ops n is = Inr (map (ctx_at ops n) is)"
    and get_width: "ng_get ops n is = Inr rows \<Longrightarrow> length rows = length is \<and> (\<forall>r\<in>set rows. length r = ng_width ops n)"
    and put_in: "\<forall>i\<in>set is. i < slots n \<Longrightarrow> length rows = length is \<Longrightarrow> \<forall>r\<in>set rows. length r = ng_width ops n \<Longrightarrow>
      \<exists>n'. ng_put ops n is rows = Inr n' \<and> slots n' = slots n \<and> ng_width ops n' = ng_width ops n \<and>
        (\<forall>j < slots n. j \<notin> set is \<longrightarrow> ctx_at ops n' j = ctx_at ops n j) \<and>
        (\<forall>k<length is. (\<forall>k'<length is. is ! k' = is ! k \<longrightarrow> k' = k) \<longrightarrow> ctx_at ops n' (is ! k) = rows ! k)"
begin

text \<open>Storing contexts of texts: the abstract state is assigned the texts, slot 0 aside.\<close>

lemma put_refines:
  assumes R: "\<forall>j. 0 < j \<longrightarrow> j < slots n \<longrightarrow> ctx_at ops n j = hist_ctx (ng_width ops n) eos (g j)"
    and i: "\<forall>i\<in>set is. i < slots n" and l: "length rows = length is" "length vs = length is"
    and w: "\<forall>r\<in>set rows. length r = ng_width ops n" and d: "live_distinct is"
    and v: "\<forall>k<length is. is ! k \<noteq> 0 \<longrightarrow> rows ! k = hist_ctx (ng_width ops n) eos (vs ! k)"
  shows "\<exists>n'. ng_put ops n is rows = Inr n' \<and> slots n' = slots n \<and> ng_width ops n' = ng_width ops n \<and>
    (\<forall>j. 0 < j \<longrightarrow> j < slots n' \<longrightarrow> ctx_at ops n' j = hist_ctx (ng_width ops n') eos (assign is vs g j))"
proof -
  obtain n' where n': "ng_put ops n is rows = Inr n'" "slots n' = slots n" "ng_width ops n' = ng_width ops n"
      "\<forall>j < slots n. j \<notin> set is \<longrightarrow> ctx_at ops n' j = ctx_at ops n j"
      "\<forall>k<length is. (\<forall>k'<length is. is ! k' = is ! k \<longrightarrow> k' = k) \<longrightarrow> ctx_at ops n' (is ! k) = rows ! k"
    using put_in[OF i l(1) w] by blast
  have "ctx_at ops n' j = hist_ctx (ng_width ops n) eos (assign is vs g j)" if j: "0 < j" "j < slots n" for j
  proof (cases "j \<in> set is")
    case True
    then obtain k where k: "k < length is" "is ! k = j" by (auto simp: in_set_conv_nth)
    then have "\<forall>k'<length is. is ! k' = is ! k \<longrightarrow> k' = k" using live_distinct_nth[OF d k(1)] j(1) by blast
    then have "ctx_at ops n' j = rows ! k" using n'(5) k by blast
    also have "\<dots> = hist_ctx (ng_width ops n) eos (vs ! k)" using v k j(1) by blast
    also have "vs ! k = assign is vs g j" using assign_nth[OF d k(1) l(2)] k(2) j(1) by simp
    finally show ?thesis .
  next
    case False
    then show ?thesis using n'(4) R j by (simp add: assign_notin)
  qed
  then show ?thesis using n'(1-3) by auto
qed

end

text \<open>
  The instance: the context is a tensor with one row per slot (as \<^verbatim>\<open>mamba_checkpoint_pool.py\<close>
  describes it), read and written by index.
\<close>

definition table_get :: "nat \<times> i64 list list \<Rightarrow> nat list \<Rightarrow> i64 list list result" where
  "table_get T is = (if \<exists>i\<in>set is. length (snd T) \<le> i then Inl IndexError else Inr (map (\<lambda>i. snd T ! i) is))"

definition table_put :: "nat \<times> i64 list list \<Rightarrow> nat list \<Rightarrow> i64 list list \<Rightarrow> (nat \<times> i64 list list) result" where
  "table_put T is rows =
     (if (\<exists>i\<in>set is. length (snd T) \<le> i) \<or> length rows \<noteq> length is then Inl IndexError
      else Inr (fst T, scatter (snd T) (zip is rows)))"

definition table_ops :: "(nat \<times> i64 list list) ngram_ops" where
  "table_ops = \<lparr>ng_width = fst, ng_get = (\<lambda>T is. res_bind (table_get T is) (\<lambda>rows. Inr (map (\<lambda>r. take (fst T) (r @ replicate (fst T) 0)) rows))),
     ng_put = table_put, ng_put_steps = (\<lambda>T _. Inr T)\<rparr>"

lemma nth_scatter_unique:
  assumes "k < length is" "length rows = length is" "\<forall>k'<length is. is ! k' = is ! k \<longrightarrow> k' = k" "is ! k < length xs"
  shows "scatter xs (zip is rows) ! (is ! k) = rows ! k"
  using assms
proof (induction "is" arbitrary: k rows xs)
  case Nil
  then show ?case by simp
next
  case (Cons j js)
  obtain r rs where rows: "rows = r # rs" using Cons.prems(2) by (cases rows) auto
  show ?case
  proof (cases k)
    case 0
    have "j \<notin> set js" using Cons.prems(3) 0 by (auto simp: in_set_conv_nth)
    then have "j \<notin> fst ` set (zip js rs)" by (auto dest: set_zip_leftD)
    then show ?thesis using 0 rows Cons.prems(4) by (simp add: nth_scatter_notin)
  next
    case (Suc k')
    have "\<forall>q<length js. js ! q = js ! k' \<longrightarrow> q = k'" using Cons.prems(3) Suc by auto
    then show ?thesis using Cons Suc rows by simp
  qed
qed

interpretation table: ngram_store table_ops "\<lambda>T. length (snd T)"
proof
  fix "is" :: "nat list" and n :: "nat \<times> i64 list list" and rows
  let ?row = "\<lambda>r. take (fst n) (r @ replicate (fst n) 0)"
  show "ng_get table_ops n is = Inr (map (ctx_at table_ops n) is)" if "\<forall>i\<in>set is. i < length (snd n)"
    using that by (auto simp: table_ops_def table_get_def ctx_at_def not_le)
  show "length rows = length is \<and> (\<forall>r\<in>set rows. length r = ng_width table_ops n)" if "ng_get table_ops n is = Inr rows"
    using that by (auto simp: table_ops_def table_get_def split: if_splits)
  assume i: "\<forall>i\<in>set is. i < length (snd n)" and l: "length rows = length is" and w: "\<forall>r\<in>set rows. length r = ng_width table_ops n"
  let ?n = "(fst n, scatter (snd n) (zip is rows))"
  have put: "ng_put table_ops n is rows = Inr ?n" using i l by (auto simp: table_ops_def table_put_def not_le)
  have ctx: "ctx_at table_ops (fst n, T) j = ?row (T ! j)" if "j < length T" for T j
    using that by (simp add: table_ops_def table_get_def ctx_at_def)
  have "ctx_at table_ops ?n j = ctx_at table_ops n j" if "j < length (snd n)" "j \<notin> set is" for j
  proof -
    have "j \<notin> fst ` set (zip is rows)" using that(2) by (auto dest: set_zip_leftD)
    then show ?thesis using ctx[of j "scatter (snd n) (zip is rows)"] ctx[of j "snd n"] that(1) by (simp add: nth_scatter_notin)
  qed
  moreover have "ctx_at table_ops ?n (is ! k) = rows ! k" if "k < length is" "\<forall>k'<length is. is ! k' = is ! k \<longrightarrow> k' = k" for k
  proof -
    have "length (rows ! k) = fst n" using w l that(1) by (auto simp: table_ops_def)
    then show ?thesis using ctx[of "is ! k" "scatter (snd n) (zip is rows)"] i that nth_scatter_unique[OF that(1) l that(2)] by simp
  qed
  ultimately show "\<exists>n'. ng_put table_ops n is rows = Inr n' \<and> length (snd n') = length (snd n) \<and> ng_width table_ops n' = ng_width table_ops n \<and>
      (\<forall>j<length (snd n). j \<notin> set is \<longrightarrow> ctx_at table_ops n' j = ctx_at table_ops n j) \<and>
      (\<forall>k<length is. (\<forall>k'<length is. is ! k' = is ! k \<longrightarrow> k' = k) \<longrightarrow> ctx_at table_ops n' (is ! k) = rows ! k)"
    using put by (intro exI[of _ ?n]) (auto simp: table_ops_def)
qed

end
