(* ===== verification/Ple_Props.thy ===== *)
theory Ple_Props
  imports Ple_Stream
begin

text \<open>
  The properties of the n-gram state: the fused decode path is the general one, a forward refines the
  extension of the texts, and the contexts stored for verification are those of every accepted prefix.
\<close>

section \<open>Decode is one token per row\<close>

lemma get_processed_le: "get_processed_token_count fb n = Inr k \<Longrightarrow> k \<le> n"
  by (auto simp: get_processed_token_count_def split: option.splits if_splits)

lemma bcast_same: "length xs = length ys \<Longrightarrow> bcast xs ys = Inr (zip xs ys)"
  by (simp add: bcast_def)

lemma where_true: "where_or_0 (replicate (length xs) True) xs = Inr xs"
  by (simp add: where_or_0_def bcast_same zip_replicate1 comp_def)

lemma decode_state_indices:
  assumes "length slots = n"
  shows "ple_state_indices True fb Decode n (replicate n 1) 1 slots = ple_state_indices False fb Decode n (replicate n 1) 1 slots"
proof -
  have nz: "map (\<lambda>x. x \<noteq> (0::nat)) (replicate n 1) = replicate n True" by simp
  have w: "res_bind (map_sum id (map (\<lambda>(a, b). a \<and> b)) (bcast (replicate n True) bs)) (\<lambda>v. where_or_0 v slots) = where_or_0 bs slots"
    if "length bs \<le> n" for bs
  proof (cases "length bs = n")
    case True
    then show ?thesis by (simp add: bcast_same zip_replicate1 comp_def)
  next
    case ne: False
    show ?thesis
    proof (cases "n = 1")
      case True
      then have "bs = []" using ne that by (cases bs) simp_all
      then show ?thesis using True assms by (auto simp: bcast_def where_or_0_def length_Suc_conv)
    next
      case False
      then show ?thesis using ne assms by (cases bs) (auto simp: bcast_def where_or_0_def comp_def zip_replicate1)
    qed
  qed
  show ?thesis
    using w[of "map (\<lambda>x. x \<noteq> 0) (take n _)", symmetric] assms
    by (cases "fb_out_loc fb") (auto simp: ple_state_indices_def nz Let_def where_true simp del: neq0_conv)
qed

lemma decode_valid: "map2 (\<lambda>p q. p < replicate n (1 :: nat) ! q) (replicate n 0) [0..<n] = replicate n True"
  by (rule nth_equalityI) simp_all

lemma decode_padded: "padded_rows eos (length ts) 1 [0..<length ts] (replicate (length ts) 0) (replicate (length ts) True) ts =
    Inr (map (\<lambda>t. [t]) ts)"
proof -
  have c: "concat (map (\<lambda>t. [t]) ts) = ts" by (induction ts) auto
  have l: "map length (map (\<lambda>t. [t]) ts) = replicate (length ts) 1" by (rule nth_equalityI) simp_all
  show ?thesis
    using padded_rows_ok[of "[0..<length ts]" "replicate (length ts) 0" "map (\<lambda>t. [t]) ts" eos "replicate (length ts) True" ts 1]
      decode_layout_from[of 0 "length ts"] where_all_true[of eos ts] unfolding c l by simp
qed

lemma prepare_decode:
  assumes mode: "get_ple_forward_mode fb = Decode" "ple_guards fb = Inr u"
    and n: "get_processed_token_count fb (length input) = Inr n"
  shows "prepare_ple_batch ops fus uid P input fb ngram eos =
      res_bind (ple_state_indices fus fb Decode n (replicate n 1) 1
          (get_mamba_indices (P\<lparr>ple_window_cache := None\<rparr>) (take n (fb_req_idx fb)))) (\<lambda>es.
      res_bind (case ngram of None \<Rightarrow> Inr None
                | Some k \<Rightarrow> (case eos of None \<Rightarrow> Inl AssertionError
                    | Some e \<Rightarrow> map_sum id Some (ple_context ops (ngram_pool P) k e fus n 1 [0..<n] (replicate n 0)
                        (replicate n True) (take n input) es)))
        (\<lambda>context. Inr (P\<lparr>ple_window_cache := None\<rparr>, Some \<lparr>pb_uid = uid, pb_mode = Decode, pb_fast = fus,
           pb_physical = length input, pb_processed = n, pb_lengths = replicate n 1, pb_row_width = 1, pb_req = [0..<n],
           pb_off = replicate n 0, pb_valid = replicate n True, pb_state = es, pb_context = context, pb_eos = eos\<rparr>)))"
  using decode_valid[of n] mode n
  by (simp add: prepare_ple_batch_def Let_def ple_layout_def decode_layout_def cong: option.case_cong)

lemma prepare_fast:
  assumes mode: "get_ple_forward_mode fb = Decode"
    and req: "\<forall>n. get_processed_token_count fb (length input) = Inr n \<longrightarrow> n \<le> length (fb_req_idx fb)"
  shows "prepare_ple_batch ops True uid P input fb ngram eos =
    map_sum id (map_prod id (map_option (pb_fast_update (\<lambda>_. True)))) (prepare_ple_batch ops False uid P input fb ngram eos)"
proof (cases "get_processed_token_count fb (length input)")
  case (Inl e)
  then show ?thesis using mode by (cases "ple_guards fb") (simp_all add: prepare_ple_batch_def Let_def)
next
  case (Inr n)
  let ?slots = "get_mamba_indices (P\<lparr>ple_window_cache := None\<rparr>) (take n (fb_req_idx fb))"
  have n: "n \<le> length (fb_req_idx fb)" "n \<le> length input" using req Inr get_processed_le by blast+
  then have l: "length ?slots = n" by (simp add: get_mamba_indices_def)
  have st: "ple_state_indices True fb Decode n (replicate n 1) 1 ?slots = ple_state_indices False fb Decode n (replicate n 1) 1 ?slots"
    by (rule decode_state_indices[OF l])
  have ctx: "ple_context ops pool g e True n 1 [0..<n] (replicate n 0) (replicate n True) (take n input) slots =
      ple_context ops pool g e False n 1 [0..<n] (replicate n 0) (replicate n True) (take n input) slots" for pool g e slots
    using decode_padded[of e "take n input"] n(2) by (simp add: ple_context_def)
  show ?thesis
  proof (cases "ple_guards fb")
    case (Inl e)
    then show ?thesis by (simp add: prepare_ple_batch_def)
  next
    case g: (Inr u)
    note run = prepare_decode[OF mode g Inr]
    show ?thesis
    proof (cases "ple_state_indices False fb Decode n (replicate n 1) 1 ?slots")
      case (Inl e)
      then show ?thesis unfolding run st by simp
    next
      case s: (Inr es)
      show ?thesis unfolding run st s res_bind_simps ctx
        by (cases ngram; cases eos) (simp_all add: res_bind_def split: sum.split)
    qed
  qed
qed

section \<open>The batch of the chunks\<close>

text \<open>
  \<open>batch_of\<close>: a forward that carries the chunks \<open>cs\<close>, one per row, in extend or decode mode.
  \<open>live_slots\<close>: the slots the rows work on, padding rows sent to the reserved slot 0.
\<close>

definition batch_of :: "fwd_batch \<Rightarrow> forward_mode \<Rightarrow> i64 list \<Rightarrow> i64 list list \<Rightarrow> bool" where
  "batch_of fb m input cs \<longleftrightarrow> ple_guards fb = Inr () \<and> get_ple_forward_mode fb = m \<and>
     get_processed_token_count fb (length input) = Inr (length (concat cs)) \<and> take (length (concat cs)) input = concat cs \<and>
     (m = Decode \<and> (\<forall>c\<in>set cs. length c = 1) \<or>
      m = Extend \<and> fb_extend fb = Some (map length cs) \<and>
        (fb_extend_cpu fb = None \<or> fb_extend_cpu fb = Some (map length cs)))"

definition live_slots :: "('a, 'n) ple_pool \<Rightarrow> fwd_batch \<Rightarrow> forward_mode \<Rightarrow> i64 list list \<Rightarrow> nat list result" where
  "live_slots P fb m cs = ple_state_indices False fb m (length (concat cs)) (map length cs) 1
     (get_mamba_indices P (take (length cs) (fb_req_idx fb)))"

lemma length_concat_ones: "\<forall>c\<in>set cs. length c = 1 \<Longrightarrow> length (concat cs) = length cs"
  by (induction cs) auto

lemma batch_layout:
  assumes b: "batch_of fb m input cs"
  obtains width req off where "ple_layout fb m (length (concat cs)) = Inr (map length cs, width, req, off)"
    "zip req off = layout_from 0 (map length cs)" "length req = length (concat cs)" "length off = length (concat cs)"
    "\<forall>c\<in>set cs. length c \<le> width" "m = Decode \<Longrightarrow> width = 1"
proof (cases "m = Decode")
  case True
  then have "\<forall>c\<in>set cs. length c = 1" using b by (auto simp: batch_of_def)
  then have l: "map length cs = replicate (length cs) 1" by (simp add: map_replicate_const[symmetric] del: map_replicate_const)
  then have n: "length (concat cs) = length cs" by (simp add: length_concat sum_list_replicate)
  show thesis
  proof (rule that)
    show "ple_layout fb m (length (concat cs)) = Inr (map length cs, 1, [0..<length cs], replicate (length cs) 0)"
      unfolding n l by (simp add: ple_layout_def decode_layout_def True)
    show "zip [0..<length cs] (replicate (length cs) 0) = layout_from 0 (map length cs)"
      unfolding l using decode_layout_from[of 0 "length cs"] by simp
  qed (use n \<open>\<forall>c\<in>set cs. length c = 1\<close> in simp_all)
next
  case False
  then have m: "m = Extend" and e: "fb_extend fb = Some (map length cs)"
    "fb_extend_cpu fb = None \<or> fb_extend_cpu fb = Some (map length cs)" using b by (auto simp: batch_of_def)
  show thesis
    by (rule extend_layout_ok[OF e, of "length (concat cs)"])
      (use that m in \<open>auto simp: length_concat ple_layout_def\<close>)
qed

lemma state_indices_width:
  "m \<noteq> Target_Verify \<Longrightarrow> ple_state_indices False fb m n ls w slots = ple_state_indices False fb m n ls 1 slots"
  by (cases m) (simp_all add: ple_state_indices_def Let_def split: option.splits)


section \<open>One forward\<close>

text \<open>The chunks of the batch as rows with their history.\<close>

definition ctx_rows :: "nat \<Rightarrow> 'b \<Rightarrow> 'b list list \<Rightarrow> 'b list list \<Rightarrow> 'b list list" where
  "ctx_rows width eos history cs = map2 (\<lambda>h c. h @ c @ replicate (width - length c) eos) history cs"

lemma prepare_general:
  assumes b: "batch_of fb m input cs" and es: "live_slots P fb m cs = Inr es"
    and get: "ng_get ops (ngram_pool P) es = Inr history" "length history = length cs"
    and N: "ng_width ops (ngram_pool P) = N - 1" "1 \<le> N"
  obtains B width req off where "prepare_ple_batch ops False uid P input fb (Some N) (Some eos) =
      Inr (P\<lparr>ple_window_cache := None\<rparr>, Some B)"
    "pb_uid B = uid" "pb_mode B = m" "\<not> pb_fast B" "pb_processed B = length (concat cs)" "pb_lengths B = map length cs" "pb_row_width B = width"
    "pb_req B = req" "pb_off B = off" "pb_state B = es" "pb_context B = Some (ctx_rows width eos history cs)"
    "zip req off = layout_from 0 (map length cs)" "length req = length (concat cs)" "length off = length (concat cs)"
    "\<forall>c\<in>set cs. length c \<le> width" "m = Decode \<Longrightarrow> width = 1"
proof -
  obtain width req off where lay: "ple_layout fb m (length (concat cs)) = Inr (map length cs, width, req, off)"
    "zip req off = layout_from 0 (map length cs)" "length req = length (concat cs)" "length off = length (concat cs)"
    "\<forall>c\<in>set cs. length c \<le> width" "m = Decode \<Longrightarrow> width = 1" using batch_layout[OF b] by blast
  have m: "m = Decode \<or> m = Extend" "m \<noteq> Target_Verify" "m \<noteq> Idle" "get_ple_forward_mode fb = m"
    "ple_guards fb = Inr ()" "get_processed_token_count fb (length input) = Inr (length (concat cs))"
    "take (length (concat cs)) input = concat cs" using b by (auto simp: batch_of_def)
  have valid: "map2 (\<lambda>p q. p < map length cs ! q) off req = replicate (length (concat cs)) True"
    using valid_all[OF lay(2)] lay(3,4) by simp
  have st: "ple_state_indices False fb m (length (concat cs)) (map length cs) width
      (get_mamba_indices (P\<lparr>ple_window_cache := None\<rparr>) (take (length cs) (fb_req_idx fb))) = Inr es"
    using es m(2) unfolding live_slots_def by (subst state_indices_width) (simp_all add: get_mamba_indices_def)
  have pad: "padded_rows eos (length cs) width req off (replicate (length (concat cs)) True) (concat cs) =
      Inr (map (\<lambda>c. c @ replicate (width - length c) eos) cs)" by (rule padded_rows_ok[OF lay(2) where_all_true lay(5)])
  have cx: "ple_context ops (ngram_pool P) N eos False (length cs) width req off (replicate (length (concat cs)) True) (concat cs) es =
      Inr (ctx_rows width eos history cs)"
    using N get by (simp add: ple_context_def pad ctx_rows_def zip_map2 comp_def case_prod_unfold of_nat_diff del: length_concat)
  let ?B = "\<lparr>pb_uid = uid, pb_mode = m, pb_fast = False, pb_physical = length input,
     pb_processed = length (concat cs), pb_lengths = map length cs, pb_row_width = width, pb_req = req, pb_off = off,
     pb_valid = replicate (length (concat cs)) True, pb_state = es, pb_context = Some (ctx_rows width eos history cs), pb_eos = Some eos\<rparr>"
  have "prepare_ple_batch ops False uid P input fb (Some N) (Some eos) = Inr (P\<lparr>ple_window_cache := None\<rparr>, Some ?B)"
    using st m(3) cx by (simp add: prepare_ple_batch_def Let_def m(4-7) lay(1) valid del: length_concat)
  then show thesis using that[of ?B width req off] lay by (simp del: One_nat_def)
qed

lemma unfold_nth: "p + k \<le> length row \<Longrightarrow> unfold_rows k row ! p = take k (drop p row)"
  using nth_upt[of 0 p "length row + 1 - k"] by (simp add: unfold_rows_def less_diff_conv del: upt_Suc)

lemma ids_of_rows:
  assumes z: "zip req off = layout_from 0 (map length cs)" and l: "length req = length off"
    and N: "1 \<le> ngram_size c" and w: "\<forall>ch\<in>set cs. length ch \<le> width"
    and t: "t < length (concat cs)"
    and lw: "\<forall>h\<in>set history. length h = ngram_size c - 1" and lhi: "length history = length cs"
  defines "wins \<equiv> map2 (\<lambda>q p. unfold_rows (ngram_size c) (ctx_rows width (eos_token c) history cs ! q) ! p) req off"
  shows "length (wins ! t) = ngram_size c"
    and "history ! (req ! t) = hist_ctx (ngram_size c - 1) (eos_token c) h \<Longrightarrow>
      spec_ids c mults sizes offs (wins ! t) (ngram_size c - 1) =
      spec_ids c mults sizes offs (h @ cs ! (req ! t)) (length h + off ! t)"
    and "req ! t < length cs" "off ! t < length (cs ! (req ! t))" "t = length (concat (take (req ! t) cs)) + off ! t"
proof -
  let ?N = "ngram_size c" and ?e = "eos_token c"
  have ln: "length req = length (concat cs)" "length off = length (concat cs)"
    using arg_cong[OF z, of length] l by (simp_all add: length_concat)
  have "t < sum_list (map length cs)" using t by (simp add: length_concat)
  from layout_nth[OF this, of 0] obtain q p where qp: "layout_from 0 (map length cs) ! t = (q, p)" "q < length cs" "p < length (cs ! q)"
    "t = sum_list (take q (map length cs)) + p" by auto
  then have rq: "req ! t = q" "off ! t = p" using t ln unfolding z[symmetric] by simp_all
  show "req ! t < length cs" "off ! t < length (cs ! (req ! t))" "t = length (concat (take (req ! t) cs)) + off ! t"
    using qp unfolding rq by (simp_all add: length_concat take_map)
  let ?row = "history ! q @ cs ! q @ replicate (width - length (cs ! q)) ?e"
  have row: "ctx_rows width ?e history cs ! q = ?row" using qp(2) lhi by (simp add: ctx_rows_def)
  have hq: "length (history ! q) = ?N - 1" using lw lhi qp(2) by simp
  have "p + ?N \<le> length ?row" using hq N qp(3) by simp
  then have win: "wins ! t = take ?N (drop p ?row)" using t ln unfolding wins_def by (simp add: rq row unfold_nth)
  show "length (wins ! t) = ?N" using hq N qp(3) unfolding win by simp
  show "spec_ids c mults sizes offs (wins ! t) (?N - 1) = spec_ids c mults sizes offs (h @ cs ! (req ! t)) (length h + off ! t)"
    if "history ! (req ! t) = hist_ctx (?N - 1) ?e h"
    using hist_ctx_window[OF N qp(3), of h "replicate (width - length (cs ! q)) ?e" mults sizes offs] that
    unfolding win rq by (simp add: Let_def)
qed


section \<open>The ids of every layer\<close>

text \<open>The shared cache holds nothing, another batch, or the windows of this batch and their shifts.\<close>

definition cache_ok :: "ngram_config \<Rightarrow> ple_batch \<Rightarrow> window_cache \<Rightarrow> bool" where
  "cache_ok c b cache =
     (case cache of None \<Rightarrow> True
      | Some (u, w, sh) \<Rightarrow> u = pb_uid b \<longrightarrow>
          w = gather_windows (ngram_size c) b (the (pb_context b)) \<and>
          (sh = None \<or> sh = Some (map (shifts_of (eos_token c) (ngram_size c)) w)))"

lemma hash_contexts_ids:
  assumes N: "1 \<le> ngram_size c" and w: "\<forall>row\<in>set wins. length row = ngram_size c"
    and hit: "cache = Some (u, wins, sh)" "sh = None \<or> sh = Some (map (shifts_of (eos_token c) (ngram_size c)) wins)"
  shows "\<exists>sh'. hash_contexts None c mults sizes offs u wins d cache =
      Inr (Some (u, wins, sh'), map (\<lambda>row. spec_ids c mults sizes offs row (ngram_size c - 1)) wins) \<and>
      (sh' = None \<or> sh' = Some (map (shifts_of (eos_token c) (ngram_size c)) wins))"
proof -
  have ids: "map2 (\<lambda>sh row. hash_window c mults sizes offs sh (length row - 1)) (map (shifts_of (eos_token c) (ngram_size c)) wins) wins =
      map (\<lambda>row. spec_ids c mults sizes offs row (ngram_size c - 1)) wins"
  proof (rule nth_equalityI)
    fix k assume "k < length (map2 (\<lambda>sh row. hash_window c mults sizes offs sh (length row - 1)) (map (shifts_of (eos_token c) (ngram_size c)) wins) wins)"
    then have k: "k < length wins" by simp
    then have "length (wins ! k) = ngram_size c" using w by simp
    then show "map2 (\<lambda>sh row. hash_window c mults sizes offs sh (length row - 1)) (map (shifts_of (eos_token c) (ngram_size c)) wins) wins ! k =
        map (\<lambda>row. spec_ids c mults sizes offs row (ngram_size c - 1)) wins ! k"
      using hash_window_spec[of "ngram_size c - 1" "wins ! k" c mults sizes offs] k N by simp
  qed simp
  have len: "\<not> (\<exists>x\<in>set (map (shifts_of (eos_token c) (ngram_size c)) wins). length x \<noteq> ngram_size c)"
    by (simp add: shifts_of_def)
  from hit(2) show ?thesis
  proof
    assume "sh = None"
    then show ?thesis using hit(1) ids by (simp add: hash_contexts_def Let_def)
  next
    assume "sh = Some (map (shifts_of (eos_token c) (ngram_size c)) wins)"
    then show ?thesis using hit(1) ids len by (simp add: hash_contexts_def Let_def)
  qed
qed

lemma compute_ids:
  assumes N: "1 \<le> ngram_size c" and ctx: "pb_context b = Some ctx"
    and w: "\<forall>row\<in>set (gather_windows (ngram_size c) b ctx). length row = ngram_size c"
    and cache: "cache_ok c b (ple_window_cache P)"
  shows "\<exists>cache'. compute_ngram_ids None c mults sizes offs P b =
      Inr (P\<lparr>ple_window_cache := cache'\<rparr>,
           map (\<lambda>row. spec_ids c mults sizes offs row (ngram_size c - 1)) (gather_windows (ngram_size c) b ctx)) \<and>
      cache_ok c b cache'"
proof -
  let ?w = "gather_windows (ngram_size c) b ctx"
  obtain sh where sh: "sh = None \<or> sh = Some (map (shifts_of (eos_token c) (ngram_size c)) ?w)"
    "(case ple_window_cache P of
       Some (u, w, sh) \<Rightarrow> if u = pb_uid b then (Some (u, w, sh), w) else (Some (pb_uid b, ?w, None), ?w)
     | None \<Rightarrow> (Some (pb_uid b, ?w, None), ?w)) = (Some (pb_uid b, ?w, sh), ?w)"
  proof (cases "\<exists>w sh. ple_window_cache P = Some (pb_uid b, w, sh)")
    case True
    then obtain w' sh where "ple_window_cache P = Some (pb_uid b, w', sh)" by blast
    then show thesis using cache ctx that[of sh] by (auto simp: cache_ok_def)
  next
    case False
    then show thesis using that[of None] by (auto split: option.split)
  qed
  obtain sh' where "hash_contexts None c mults sizes offs (pb_uid b) ?w (pb_mode b = Decode \<or> pb_mode b = Target_Verify)
        (Some (pb_uid b, ?w, sh)) =
      Inr (Some (pb_uid b, ?w, sh'), map (\<lambda>row. spec_ids c mults sizes offs row (ngram_size c - 1)) ?w)"
    "sh' = None \<or> sh' = Some (map (shifts_of (eos_token c) (ngram_size c)) ?w)"
    using hash_contexts_ids[OF N w refl sh(1)] by blast
  then show ?thesis using ctx sh(2)
    by (intro exI[of _ "Some (pb_uid b, ?w, sh')"]) (simp add: compute_ngram_ids_def cache_ok_def)
qed

text \<open>Every row of a decode batch is one window.\<close>

lemma decode_windows:
  assumes "\<forall>row\<in>set ctx. length row = N" "zip req off = layout_from 0 (replicate (length ctx) 1)"
    "length req = length ctx" "length off = length ctx"
  shows "map2 (\<lambda>q p. unfold_rows N (ctx ! q) ! p) req off = ctx"
proof (rule nth_equalityI)
  show "length (map2 (\<lambda>q p. unfold_rows N (ctx ! q) ! p) req off) = length ctx" using assms(3,4) by simp
  fix t assume "t < length (map2 (\<lambda>q p. unfold_rows N (ctx ! q) ! p) req off)"
  then have t: "t < length ctx" using assms(3,4) by simp
  have "zip req off = zip [0..<length ctx] (replicate (length ctx) 0)"
    unfolding assms(2) using decode_layout_from[of 0 "length ctx"] by simp
  then have "(req ! t, off ! t) = (t, 0)" using t assms(3,4) by (metis add_0 length_replicate length_upt minus_nat.diff_0 nth_replicate nth_upt nth_zip)
  then show "map2 (\<lambda>q p. unfold_rows N (ctx ! q) ! p) req off ! t = ctx ! t"
    using t assms(1,3,4) by (simp add: unfold_nth)
qed

section \<open>The committed contexts\<close>

lemma gather_slice_rows:
  assumes N: "\<forall>h\<in>set history. length h = k" "length history = length cs" and w: "\<forall>c\<in>set cs. length c \<le> width"
    and s: "length starts = length cs" "\<forall>q<length cs. starts ! q \<le> length (cs ! q)"
  obtains rows where "gather_slice k (ctx_rows width eos history cs) starts = Inr rows" "length rows = length cs"
    "\<forall>r\<in>set rows. length r = k"
    "\<And>q h. q < length cs \<Longrightarrow> history ! q = hist_ctx k eos h \<Longrightarrow> rows ! q = hist_ctx k eos (h @ take (starts ! q) (cs ! q))"
proof -
  let ?ctx = "ctx_rows width eos history cs"
  define rows where "rows = map2 (\<lambda>row s. take k (drop s row)) ?ctx starts"
  have lc: "length ?ctx = length cs" using N(2) by (simp add: ctx_rows_def)
  have row: "?ctx ! q = history ! q @ cs ! q @ replicate (width - length (cs ! q)) eos" if "q < length cs" for q
    using that N(2) by (simp add: ctx_rows_def)
  have fits: "starts ! q + k \<le> length (?ctx ! q)" if "q < length cs" for q
  proof -
    have "length (history ! q) = k" using N that by simp
    moreover have "starts ! q \<le> length (cs ! q)" using s(2) that by blast
    ultimately show ?thesis using that by (simp add: row)
  qed
  then have "\<not> (\<exists>(row, s)\<in>set (zip ?ctx starts). length row < s + k)"
    using lc s(1) by (fastforce simp: set_zip)
  then have run: "gather_slice k ?ctx starts = Inr rows" using lc s(1) by (simp add: gather_slice_def rows_def)
  have nth: "rows ! q = take k (drop (starts ! q) (?ctx ! q))" if "q < length cs" for q
    using that lc s(1) by (simp add: rows_def)
  have lr: "length rows = length cs" using lc s(1) by (simp add: rows_def)
  have "\<forall>r\<in>set rows. length r = k"
  proof
    fix r assume "r \<in> set rows"
    then obtain q where "q < length cs" "r = rows ! q" using lr by (metis in_set_conv_nth)
    then show "length r = k" using fits[of q] nth[of q] by simp
  qed
  moreover have "rows ! q = hist_ctx k eos (h @ take (starts ! q) (cs ! q))" if "q < length cs" "history ! q = hist_ctx k eos h" for q h
  proof -
    have "starts ! q \<le> length (cs ! q)" using s(2) that(1) by blast
    then show ?thesis unfolding nth[OF that(1)] row[OF that(1)] that(2) by (rule hist_ctx_slice)
  qed
  ultimately show thesis using that[OF run lr] by blast
qed

lemma gather_slice_decode:
  assumes "\<forall>h\<in>set history. length h = k" "length history = length cs" "\<forall>c\<in>set cs. length c = 1"
  shows "gather_slice k (ctx_rows 1 eos history cs) (replicate (length cs) 1) = Inr (map (drop 1) (ctx_rows 1 eos history cs))"
proof -
  let ?ctx = "ctx_rows 1 eos history cs"
  have l: "length ?ctx = length cs" using assms by (simp add: ctx_rows_def)
  have r: "length row = Suc k" if row: "row \<in> set ?ctx" for row
  proof -
    obtain q where "q < length cs" "row = history ! q @ cs ! q @ replicate (1 - length (cs ! q)) eos"
      using row assms(2) by (auto simp: ctx_rows_def in_set_conv_nth)
    moreover from this have "length (history ! q) = k" "length (cs ! q) = 1" using assms by simp_all
    ultimately show ?thesis by simp
  qed
  have "\<not> (\<exists>(row, s)\<in>set (zip ?ctx (replicate (length cs) 1)). length row < s + k)"
  proof
    assume "\<exists>(row, s)\<in>set (zip ?ctx (replicate (length cs) 1)). length row < s + k"
    then obtain row s where rs: "(row, s) \<in> set (zip ?ctx (replicate (length cs) 1))" "length row < s + k" by blast
    have "row \<in> set ?ctx" "s = 1" using set_zip_leftD[OF rs(1)] set_zip_rightD[OF rs(1)] by (auto split: if_splits)
    then show False using r rs(2) by fastforce
  qed
  moreover have "map2 (\<lambda>row s. take k (drop s row)) ?ctx (replicate (length cs) 1) = map (drop 1) ?ctx"
    using r l by (intro nth_equalityI) simp_all
  ultimately show ?thesis using l by (simp add: gather_slice_def)
qed


section \<open>A forward refines the extension of the texts\<close>

text \<open>
  The abstract state gives each slot the text it has seen. \<open>advance\<close> extends the texts of the live
  slots by their chunks; \<open>snapshot\<close> gives a track slot the text up to the tracked boundary.
\<close>

definition advance :: "nat list \<Rightarrow> 'b list list \<Rightarrow> (nat \<Rightarrow> 'b list) \<Rightarrow> nat \<Rightarrow> 'b list" where
  "advance es cs h = assign es (map2 (\<lambda>s c. h s @ c) es cs) h"

definition snapshot ::
  "nat list \<Rightarrow> 'b list list \<Rightarrow> (nat list \<times> nat list) option \<Rightarrow> (nat \<Rightarrow> 'b list) \<Rightarrow> (nat \<Rightarrow> 'b list) \<Rightarrow> nat \<Rightarrow> 'b list" where
  "snapshot es cs track h g =
     (case track of None \<Rightarrow> g
      | Some (dst, starts) \<Rightarrow> assign dst (map2 (\<lambda>(s, c) k. h s @ take k c) (zip es cs) starts) g)"

definition texts_stored :: "'n ngram_ops \<Rightarrow> ('n \<Rightarrow> nat) \<Rightarrow> ngram_config \<Rightarrow> 'n \<Rightarrow> (nat \<Rightarrow> i64 list) \<Rightarrow> bool" where
  "texts_stored ops slots c n h \<longleftrightarrow> ng_width ops n = ngram_size c - 1 \<and>
     (\<forall>s. 0 < s \<longrightarrow> s < slots n \<longrightarrow> ctx_at ops n s = hist_ctx (ngram_size c - 1) (eos_token c) (h s))"

definition track_ok :: "nat \<Rightarrow> nat list \<Rightarrow> 'b list list \<Rightarrow> (nat list \<times> nat list) option \<Rightarrow> bool" where
  "track_ok n es cs track =
     (case track of None \<Rightarrow> True
      | Some (dst, starts) \<Rightarrow> length dst = length cs \<and> length starts = length cs \<and> live_distinct dst \<and>
          (\<forall>d\<in>set dst. d < n) \<and> (\<forall>k<length cs. starts ! k \<le> length (cs ! k) \<and> (dst ! k \<noteq> 0 \<longrightarrow> es ! k \<noteq> 0)))"

text \<open>One store of contexts, whichever rows are gathered.\<close>

lemma put_texts:
  assumes store: "ngram_store ops slots" and R: "texts_stored ops slots c n g"
    and idx: "\<forall>i\<in>set is. i < slots n" "live_distinct is" "length is = length cs"
    and hist: "\<forall>k<length cs. es ! k \<noteq> 0 \<longrightarrow> history ! k = hist_ctx (ngram_size c - 1) (eos_token c) (h (es ! k))"
    and live: "\<forall>k<length cs. is ! k \<noteq> 0 \<longrightarrow> es ! k \<noteq> 0" and es: "length es = length cs"
    and st: "length starts = length cs"
    and rows: "length rows = length cs" "\<forall>r\<in>set rows. length r = ngram_size c - 1"
      "\<And>q h. q < length cs \<Longrightarrow> history ! q = hist_ctx (ngram_size c - 1) (eos_token c) h \<Longrightarrow>
        rows ! q = hist_ctx (ngram_size c - 1) (eos_token c) (h @ take (starts ! q) (cs ! q))"
  shows "\<exists>n'. ng_put ops n is rows = Inr n' \<and> slots n' = slots n \<and>
    texts_stored ops slots c n' (assign is (map2 (\<lambda>(s, c) k. h s @ take k c) (zip es cs) starts) g)"
proof -
  let ?vs = "map2 (\<lambda>(s, c) k. h s @ take k c) (zip es cs) starts"
  have w: "ng_width ops n = ngram_size c - 1" using R by (simp add: texts_stored_def)
  have "\<exists>n'. ng_put ops n is rows = Inr n' \<and> slots n' = slots n \<and> ng_width ops n' = ng_width ops n \<and>
    (\<forall>j. 0 < j \<longrightarrow> j < slots n' \<longrightarrow> ctx_at ops n' j = hist_ctx (ng_width ops n') (eos_token c) (assign is ?vs g j))"
  proof (rule ngram_store.put_refines[OF store])
    show "\<forall>j. 0 < j \<longrightarrow> j < slots n \<longrightarrow> ctx_at ops n j = hist_ctx (ng_width ops n) (eos_token c) (g j)"
      using R w by (simp add: texts_stored_def)
    show "\<forall>k<length is. is ! k \<noteq> 0 \<longrightarrow> rows ! k = hist_ctx (ng_width ops n) (eos_token c) (?vs ! k)"
      using rows(3) hist live es st idx(3) unfolding w by simp
  qed (use idx rows es st w in simp_all)
  then show ?thesis using w by (fastforce simp: texts_stored_def)
qed

lemma commit_texts:
  assumes store: "ngram_store ops slots" and R: "texts_stored ops slots c (ngram_pool P) h"
    and B: "pb_context b = Some (ctx_rows width (eos_token c) history cs)" "pb_mode b = m" "m \<noteq> Target_Verify"
      "pb_processed b = length (concat cs)" "concat cs \<noteq> []" "pb_lengths b = map length cs" "pb_row_width b = width"
      "pb_state b = es" "\<forall>ch\<in>set cs. length ch \<le> width"
    and fast: "pb_fast b \<Longrightarrow> m = Decode \<and> width = 1 \<and> (\<forall>ch\<in>set cs. length ch = 1)"
    and es: "length es = length cs" "live_distinct es" "\<forall>s\<in>set es. s < slots (ngram_pool P)"
    and hist: "length history = length cs" "\<forall>x\<in>set history. length x = ngram_size c - 1"
      "\<forall>k<length cs. es ! k \<noteq> 0 \<longrightarrow> history ! k = hist_ctx (ngram_size c - 1) (eos_token c) (h (es ! k))"
    and track: "ple_track_targets fb b = Inr tr" "track_ok (slots (ngram_pool P)) es cs tr"
  shows "\<exists>P'. commit_ple_batch ops P (Some b) fb = Inr P' \<and>
    texts_stored ops slots c (ngram_pool P') (snapshot es cs tr h (advance es cs h))"
proof -
  let ?k = "ngram_size c - 1" and ?ctx = "ctx_rows width (eos_token c) history cs"
  have cs: "cs \<noteq> []" using B(5) by auto
  have k: "length (hd ?ctx) - width = ?k"
  proof -
    obtain h0 hs c0 cs' where hc: "history = h0 # hs" "cs = c0 # cs'" using cs hist(1) by (cases history; cases cs) auto
    then have "length h0 = ?k" "length c0 \<le> width" using hist(2) B(9) by simp_all
    then show ?thesis unfolding hc by (simp add: ctx_rows_def)
  qed
  obtain rows where rows: "gather_slice ?k ?ctx (map length cs) = Inr rows" "length rows = length cs" "\<forall>r\<in>set rows. length r = ?k"
    "\<And>q h. q < length cs \<Longrightarrow> history ! q = hist_ctx ?k (eos_token c) h \<Longrightarrow>
      rows ! q = hist_ctx ?k (eos_token c) (h @ take (map length cs ! q) (cs ! q))"
    by (rule gather_slice_rows[OF hist(2,1) B(9), of "map length cs" "eos_token c"]) simp_all
  have adv: "map2 (\<lambda>(s, c) k. h s @ take k c) (zip es cs) (map length cs) = map2 (\<lambda>s c. h s @ c) es cs"
    by (rule nth_equalityI) (simp_all add: es(1))
  obtain n1 where n1: "ng_put ops (ngram_pool P) es rows = Inr n1" "slots n1 = slots (ngram_pool P)"
    "texts_stored ops slots c n1 (advance es cs h)"
    using put_texts[OF store R es(3,2,1) hist(3) _ es(1) _ rows(2,3,4)] unfolding adv advance_def by auto
  have nx: "(if pb_fast b then Inr (map (drop (pb_row_width b)) ?ctx) else gather_slice ?k ?ctx (pb_lengths b)) = Inr rows"
  proof (cases "pb_fast b")
    case True
    then have d: "width = 1" "\<forall>ch\<in>set cs. length ch = 1" using fast by blast+
    then have "map length cs = replicate (length cs) 1" by (simp add: map_replicate_const[symmetric] del: map_replicate_const)
    then show ?thesis using True B(7) rows(1) gather_slice_decode[OF hist(2,1) d(2), of "eos_token c"] d(1) by simp
  next
    case False
    then show ?thesis using rows(1) B(6) by simp
  qed
  have kw: "length (hd ?ctx) - pb_row_width b = ?k" using k B(7) by simp
  have ne: "pb_processed b \<noteq> 0" "pb_mode b \<noteq> Target_Verify" using B(2-5) by simp_all
  have run: "commit_ple_batch ops P (Some b) fb =
      res_bind (map_sum id (\<lambda>n. P\<lparr>ngram_pool := n\<rparr>) (ng_put ops (ngram_pool P) es rows)) (\<lambda>P1.
      res_bind (ple_track_targets fb b) (\<lambda>track. case track of None \<Rightarrow> Inr P1
        | Some (dst, starts) \<Rightarrow> res_bind (if pb_fast b then Inr rows else gather_slice ?k ?ctx starts)
            (\<lambda>r. map_sum id (\<lambda>n. P1\<lparr>ngram_pool := n\<rparr>) (ng_put ops (ngram_pool P1) dst r))))"
    unfolding commit_ple_batch_def Let_def option.case B(1) kw if_not_P[OF ne(1)] if_not_P[OF ne(2)] nx res_bind_simps B(8) ..
  show ?thesis
  proof (cases tr)
    case None
    then show ?thesis using n1 track(1) unfolding run by (simp add: snapshot_def)
  next
    case (Some ds)
    then obtain dst starts where ds: "tr = Some (dst, starts)" by (cases ds) auto
    then have t: "length dst = length cs" "length starts = length cs" "live_distinct dst" "\<forall>d\<in>set dst. d < slots n1"
        "\<forall>q<length cs. starts ! q \<le> length (cs ! q)" "\<forall>q<length cs. dst ! q \<noteq> 0 \<longrightarrow> es ! q \<noteq> 0"
      using track(2) n1(2) by (auto simp: track_ok_def)
    obtain rows2 where rows2: "gather_slice ?k ?ctx starts = Inr rows2" "length rows2 = length cs" "\<forall>r\<in>set rows2. length r = ?k"
      "\<And>q h. q < length cs \<Longrightarrow> history ! q = hist_ctx ?k (eos_token c) h \<Longrightarrow>
        rows2 ! q = hist_ctx ?k (eos_token c) (h @ take (starts ! q) (cs ! q))"
      by (rule gather_slice_rows[OF hist(2,1) B(9) t(2,5), of "eos_token c"]) simp_all
    have again: "(if pb_fast b then Inr rows else gather_slice ?k ?ctx starts) = Inr rows2"
    proof (cases "pb_fast b")
      case True
      then have "starts = pb_lengths b" using fast B(2) track(1) ds
        by (auto simp: ple_track_targets_def Let_def res_bind_Inr_iff split: option.splits)
      then show ?thesis using True rows(1) rows2(1) B(6) by simp
    qed (use rows2(1) in simp)
    obtain n2 where n2: "ng_put ops n1 dst rows2 = Inr n2"
      "texts_stored ops slots c n2 (assign dst (map2 (\<lambda>(s, c) k. h s @ take k c) (zip es cs) starts) (advance es cs h))"
      using put_texts[OF store n1(3) t(4,3,1) hist(3) t(6) es(1) t(2) rows2(2,3,4)] by auto
    show ?thesis unfolding run track(1) ds n1(1) using n2 again by (simp add: snapshot_def)
  qed
qed


text \<open>The windows of the batch: those of its rows, or the rows themselves on the fast path.\<close>

lemma batch_windows:
  assumes B: "pb_req b = req" "pb_off b = off" "pb_fast b \<Longrightarrow> width = 1 \<and> (\<forall>ch\<in>set cs. length ch = 1)"
    and z: "zip req off = layout_from 0 (map length cs)" and l: "length req = length off"
    and N: "1 \<le> ngram_size c" and lh: "length history = length cs" "\<forall>x\<in>set history. length x = ngram_size c - 1"
  shows "gather_windows (ngram_size c) b (ctx_rows width e history cs) =
    map2 (\<lambda>q p. unfold_rows (ngram_size c) (ctx_rows width e history cs ! q) ! p) req off"
proof (cases "pb_fast b")
  case True
  then have d: "width = 1" "\<forall>ch\<in>set cs. length ch = 1" using B(3) by blast+
  let ?ctx = "ctx_rows width e history cs"
  have lc: "length ?ctx = length cs" using lh by (simp add: ctx_rows_def)
  have ml: "map length cs = replicate (length ?ctx) 1" using d(2) lc by (simp add: map_replicate_const[symmetric] del: map_replicate_const)
  have "length req = length ?ctx" "length off = length ?ctx"
    using arg_cong[OF z, of length] l unfolding ml by (simp_all add: sum_list_replicate)
  moreover have "\<forall>row\<in>set ?ctx. length row = ngram_size c"
  proof
    fix row assume "row \<in> set ?ctx"
    then obtain q where "q < length cs" "row = history ! q @ cs ! q @ replicate (1 - length (cs ! q)) e"
      using lh d(1) by (auto simp: ctx_rows_def in_set_conv_nth)
    then show "length row = ngram_size c" using lh d(2) N by simp
  qed
  ultimately have "map2 (\<lambda>q p. unfold_rows (ngram_size c) (?ctx ! q) ! p) req off = ?ctx"
    using decode_windows[of ?ctx "ngram_size c" req off] z unfolding ml by simp
  then show ?thesis using True by (simp add: gather_windows_def)
qed (simp add: gather_windows_def B)

lemma prepare_any:
  assumes b: "batch_of fb m input cs" and req: "length cs \<le> length (fb_req_idx fb)"
  shows "prepare_ple_batch ops fusion uid P input fb ngram eos =
    map_sum id (map_prod id (map_option (pb_fast_update (\<lambda>f. f \<or> fusion \<and> m = Decode)))) (prepare_ple_batch ops False uid P input fb ngram eos)"
proof (cases "fusion \<and> m = Decode")
  case True
  then have "length (concat cs) = length cs"
    using b by (auto simp: batch_of_def intro: length_concat_ones)
  then show ?thesis using True prepare_fast[of fb input ops uid P ngram eos] b req by (auto simp: batch_of_def)
next
  case False
  have "prepare_ple_batch ops fusion uid P input fb ngram eos = prepare_ple_batch ops False uid P input fb ngram eos"
  proof -
    have mode: "get_ple_forward_mode fb = m" and f: "(fusion \<and> m = Decode) = False" using b False by (auto simp: batch_of_def)
    show ?thesis unfolding prepare_ple_batch_def Let_def mode f by (simp only: simp_thms)
  qed
  moreover have "(pb_fast_update (\<lambda>f. f \<or> fusion \<and> m = Decode) :: ple_batch \<Rightarrow> ple_batch) = id" using False by (intro ext) auto
  ultimately show ?thesis by (simp add: option.map_id0 sum.map_id0 prod.map_id0)
qed

lemma forward_batch:
  assumes store: "ngram_store ops slots"
    and batch: "batch_of fb m input cs" "concat cs \<noteq> []" "length cs \<le> length (fb_req_idx fb)"
    and live: "live_slots P fb m cs = Inr es" "length es = length cs" "\<forall>s\<in>set es. s < slots (ngram_pool P)"
    and N: "2 \<le> ngram_size c" and R: "texts_stored ops slots c (ngram_pool P) h"
  obtains b width history where
    "prepare_ple_batch ops fusion uid P input fb (Some (ngram_size c)) (Some (eos_token c)) = Inr (P\<lparr>ple_window_cache := None\<rparr>, Some b)"
    "pb_context b = Some (ctx_rows width (eos_token c) history cs)" "pb_mode b = m" "pb_processed b = length (concat cs)"
    "pb_lengths b = map length cs" "pb_row_width b = width" "pb_state b = es" "\<forall>ch\<in>set cs. length ch \<le> width"
    "pb_fast b \<Longrightarrow> m = Decode \<and> width = 1 \<and> (\<forall>ch\<in>set cs. length ch = 1)"
    "length history = length cs" "\<forall>x\<in>set history. length x = ngram_size c - 1"
    "\<forall>k<length cs. es ! k \<noteq> 0 \<longrightarrow> history ! k = hist_ctx (ngram_size c - 1) (eos_token c) (h (es ! k))"
    "zip (pb_req b) (pb_off b) = layout_from 0 (map length cs)" "length (pb_req b) = length (pb_off b)"
proof -
  let ?history = "map (ctx_at ops (ngram_pool P)) es"
  have w: "ng_width ops (ngram_pool P) = ngram_size c - 1" using R by (simp add: texts_stored_def)
  have get: "ng_get ops (ngram_pool P) es = Inr ?history" by (rule ngram_store.get_in[OF store live(3)])
  have lh: "\<forall>x\<in>set ?history. length x = ngram_size c - 1"
    using ngram_store.get_width[OF store get] w by (auto simp only: w)
  have hist: "\<forall>k<length cs. es ! k \<noteq> 0 \<longrightarrow> ?history ! k = hist_ctx (ngram_size c - 1) (eos_token c) (h (es ! k))"
    using R live by (simp add: texts_stored_def)
  have len: "length ?history = length cs" using live(2) by simp
  have N1: "1 \<le> ngram_size c" using N by simp
  obtain B width req off where B: "prepare_ple_batch ops False uid P input fb (Some (ngram_size c)) (Some (eos_token c)) =
      Inr (P\<lparr>ple_window_cache := None\<rparr>, Some B)"
    "pb_uid B = uid" "pb_mode B = m" "\<not> pb_fast B" "pb_processed B = length (concat cs)" "pb_lengths B = map length cs" "pb_row_width B = width"
    "pb_req B = req" "pb_off B = off" "pb_state B = es" "pb_context B = Some (ctx_rows width (eos_token c) ?history cs)"
    "zip req off = layout_from 0 (map length cs)" "length req = length (concat cs)" "length off = length (concat cs)"
    "\<forall>c\<in>set cs. length c \<le> width" "m = Decode \<Longrightarrow> width = 1"
    by (rule prepare_general[OF batch(1) live(1) get len w N1, of uid "eos_token c"], rule that)
  let ?b = "pb_fast_update (\<lambda>f. f \<or> fusion \<and> m = Decode) B"
  have one: "m = Decode \<Longrightarrow> \<forall>ch\<in>set cs. length ch = 1" using batch(1) by (auto simp: batch_of_def)
  show thesis
  proof (rule that[of ?b width ?history])
    show "prepare_ple_batch ops fusion uid P input fb (Some (ngram_size c)) (Some (eos_token c)) = Inr (P\<lparr>ple_window_cache := None\<rparr>, Some ?b)"
      unfolding prepare_any[OF batch(1,3), of ops fusion] B(1) by simp
    show "pb_fast ?b \<Longrightarrow> m = Decode \<and> width = 1 \<and> (\<forall>ch\<in>set cs. length ch = 1)" using B(4,16) one by auto
  qed (use B lh hist len in simp_all)
qed


text \<open>
  C4: a forward refines the extension of the texts. Let every slot but the reserved one hold the
  context of the text it has seen, \<open>h\<close>. A forward with the chunks \<open>cs\<close> (extend or decode, fused or
  not, padded or not) then gives, for every layer and whatever layer ran before it, each live token
  the ids computed from the whole text of its slot, and its commit leaves every slot with the context
  of its text extended by its chunk, and every track slot with the context of the text up to the
  tracked boundary: splitting a text over forwards changes nothing.
\<close>

theorem forward_refines_texts:
  assumes store: "ngram_store ops slots"
    and batch: "batch_of fb m input cs" "concat cs \<noteq> []" "length cs \<le> length (fb_req_idx fb)"
    and live: "live_slots P fb m cs = Inr es" "length es = length cs" "\<forall>s\<in>set es. s < slots (ngram_pool P)" "live_distinct es"
    and N: "2 \<le> ngram_size c" and R: "texts_stored ops slots c (ngram_pool P) h"
    and track: "\<forall>b. pb_mode b = m \<longrightarrow> pb_lengths b = map length cs \<longrightarrow> ple_track_targets fb b = Inr tr"
      "track_ok (slots (ngram_pool P)) es cs tr"
  shows "\<exists>b P1. prepare_ple_batch ops fusion uid P input fb (Some (ngram_size c)) (Some (eos_token c)) = Inr (P1, Some b) \<and>
    ngram_pool P1 = ngram_pool P \<and> cache_ok c b (ple_window_cache P1) \<and>
    (\<forall>(P2 :: ('a, 'n) ple_pool) mults sizes offs. cache_ok c b (ple_window_cache P2) \<longrightarrow>
      (\<exists>cache ids. compute_ngram_ids None c mults sizes offs P2 b = Inr (P2\<lparr>ple_window_cache := cache\<rparr>, ids) \<and>
        cache_ok c b cache \<and> length ids = length (concat cs) \<and>
        (\<forall>q<length cs. es ! q \<noteq> 0 \<longrightarrow> (\<forall>p<length (cs ! q). ids ! (length (concat (take q cs)) + p) =
          spec_ids c mults sizes offs (h (es ! q) @ cs ! q) (length (h (es ! q)) + p))))) \<and>
    (\<forall>P2 :: ('a, 'n) ple_pool. ngram_pool P2 = ngram_pool P \<longrightarrow> (\<exists>P'. commit_ple_batch ops P2 (Some b) fb = Inr P' \<and>
      texts_stored ops slots c (ngram_pool P') (snapshot es cs tr h (advance es cs h))))"
proof -
  let ?k = "ngram_size c - 1" and ?e = "eos_token c"
  obtain b width history where b: "prepare_ple_batch ops fusion uid P input fb (Some (ngram_size c)) (Some ?e) = Inr (P\<lparr>ple_window_cache := None\<rparr>, Some b)"
    "pb_context b = Some (ctx_rows width ?e history cs)" "pb_mode b = m" "pb_processed b = length (concat cs)"
    "pb_lengths b = map length cs" "pb_row_width b = width" "pb_state b = es" "\<forall>ch\<in>set cs. length ch \<le> width"
    "pb_fast b \<Longrightarrow> m = Decode \<and> width = 1 \<and> (\<forall>ch\<in>set cs. length ch = 1)"
    "length history = length cs" "\<forall>x\<in>set history. length x = ?k"
    "\<forall>k<length cs. es ! k \<noteq> 0 \<longrightarrow> history ! k = hist_ctx ?k ?e (h (es ! k))"
    "zip (pb_req b) (pb_off b) = layout_from 0 (map length cs)" "length (pb_req b) = length (pb_off b)"
    using forward_batch[OF store batch live(1-3) N R, of fusion uid] by blast
  have N1: "1 \<le> ngram_size c" using N by simp
  have ln: "length (pb_req b) = length (concat cs)"
    using arg_cong[OF b(13), of length] b(14) by (simp add: length_concat)
  define wins where "wins = gather_windows (ngram_size c) b (ctx_rows width ?e history cs)"
  have wins: "wins = map2 (\<lambda>q p. unfold_rows (ngram_size c) (ctx_rows width ?e history cs ! q) ! p) (pb_req b) (pb_off b)"
    unfolding wins_def by (rule batch_windows[OF refl refl _ b(13,14) N1 b(10,11)]) (use b(9) in blast)
  have lw: "length wins = length (concat cs)" unfolding wins using ln b(14) by simp
  note tok = ids_of_rows[OF b(13,14) N1 b(8) _ b(11,10), folded wins]
  have full: "\<forall>row\<in>set wins. length row = ngram_size c"
  proof
    fix row assume "row \<in> set wins"
    then obtain t where "t < length (concat cs)" "row = wins ! t" using lw by (metis in_set_conv_nth)
    then show "length row = ngram_size c" using tok(1) by simp
  qed
  have ids: "map (\<lambda>row. spec_ids c mults sizes offs row ?k) wins ! (length (concat (take q cs)) + p) =
      spec_ids c mults sizes offs (h (es ! q) @ cs ! q) (length (h (es ! q)) + p)"
    if q: "q < length cs" "es ! q \<noteq> 0" "p < length (cs ! q)" for q p mults sizes offs
  proof -
    let ?t = "length (concat (take q cs)) + p"
    have st: "?t = sum_list (take q (map length cs)) + p" by (simp add: length_concat take_map)
    have at: "layout_from 0 (map length cs) ! ?t = (q, p)"
      unfolding st using layout_at[of q "map length cs" p 0] q by simp
    have "concat cs = concat (take q cs) @ cs ! q @ concat (drop (Suc q) cs)"
      using q(1) by (metis concat.simps(2) concat_append id_take_nth_drop)
    then have t: "?t < length (concat cs)" using q(3) by simp
    then have rq: "pb_req b ! ?t = q" "pb_off b ! ?t = p" using at ln b(14) unfolding b(13)[symmetric] by simp_all
    have "spec_ids c mults sizes offs (wins ! ?t) ?k = spec_ids c mults sizes offs (h (es ! q) @ cs ! q) (length (h (es ! q)) + p)"
      using tok(2)[OF t, of "h (es ! q)" mults sizes offs] b(12) q unfolding rq by blast
    then show ?thesis using t lw by simp
  qed
  show ?thesis
  proof (intro exI[of _ b] exI[of _ "P\<lparr>ple_window_cache := None\<rparr>"] conjI allI impI)
    show "prepare_ple_batch ops fusion uid P input fb (Some (ngram_size c)) (Some ?e) = Inr (P\<lparr>ple_window_cache := None\<rparr>, Some b)"
      by (rule b(1))
    show "cache_ok c b (ple_window_cache (P\<lparr>ple_window_cache := None\<rparr>))" by (simp add: cache_ok_def)
  next
    fix P2 :: "('a, 'n) ple_pool" and mults sizes offs
    assume "cache_ok c b (ple_window_cache P2)"
    then show "\<exists>cache ids. compute_ngram_ids None c mults sizes offs P2 b = Inr (P2\<lparr>ple_window_cache := cache\<rparr>, ids) \<and>
        cache_ok c b cache \<and> length ids = length (concat cs) \<and>
        (\<forall>q<length cs. es ! q \<noteq> 0 \<longrightarrow> (\<forall>p<length (cs ! q). ids ! (length (concat (take q cs)) + p) =
          spec_ids c mults sizes offs (h (es ! q) @ cs ! q) (length (h (es ! q)) + p)))"
      using compute_ids[OF N1 b(2) full[unfolded wins_def], of P2 mults sizes offs] ids lw unfolding wins_def by fastforce
  next
    fix P2 :: "('a, 'n) ple_pool"
    assume P2: "ngram_pool P2 = ngram_pool P"
    show "\<exists>P'. commit_ple_batch ops P2 (Some b) fb = Inr P' \<and>
        texts_stored ops slots c (ngram_pool P') (snapshot es cs tr h (advance es cs h))"
    proof (rule commit_texts[OF store _ b(2,3) _ b(4) batch(2) b(5-8) b(9) live(2,4) _ b(10-12)])
      show "ple_track_targets fb b = Inr tr" using track(1) b(3,5) by blast
      show "m \<noteq> Target_Verify" using batch(1) by (auto simp: batch_of_def)
    qed (use P2 R live track(2) in simp_all)
  qed simp
qed


text \<open>Two requests with chunks of one and two tokens, and a snapshot of the second one after its first token.\<close>

definition demo_pool :: "(nat, nat \<times> i64 list list) ple_pool" where
  "demo_pool = \<lparr>rp_size = 3, rp_alloc_size = 4, rp_tokens = [], rp_free_slots = [], rp_gen = [0, 0, 0, 0], h_alloc = 0, h_extra = True, h_lazy = False, h_pp_size = 2,
     h_idx = [0, 1, 3, 0], h_pp = [], h_wp = None, h_cb = None, h_fl = None, ple_window_cache = None,
     ngram_pool = (2, replicate 5 [7, 7])\<rparr>"

definition demo_batch :: fwd_batch where
  "demo_batch = \<lparr>fb_two_batch = False, fb_ngram_spec = False, fb_spec_info = None, fb_original_mode = None, fb_mode = Extend,
     fb_non_padded = None, fb_extend_cpu = Some [1, 2], fb_extend = Some [1, 2], fb_req_idx = [1, 2], fb_out_loc = None,
     fb_track_idx = Some [2, 4], fb_track_mask = Some [False, True], fb_aligned = Some [0, 1]\<rparr>"

lemma forward_refines_texts_witness:
  "\<exists>b P1. prepare_ple_batch table_ops True 0 demo_pool [5, 9, 4, 0] demo_batch (Some 3) (Some 7) = Inr (P1, Some b) \<and>
     (\<exists>P'. commit_ple_batch table_ops P1 (Some b) demo_batch = Inr P' \<and>
       texts_stored table_ops (\<lambda>T. length (snd T)) demo_ngram (ngram_pool P')
         (snapshot [1, 3] [[5], [9, 4]] (Some ([0, 4], [0, 1])) (\<lambda>_. []) (advance [1, 3] [[5], [9, 4]] (\<lambda>_. []))))"
proof -
  have g: "ngram_size demo_ngram = 3" "eos_token demo_ngram = 7" by (simp_all add: demo_ngram_def)
  have b: "batch_of demo_batch Extend [5, 9, 4, 0] [[5], [9, 4]]" by code_simp
  have l: "live_slots demo_pool demo_batch Extend [[5], [9, 4]] = Inr [1, 3]" by code_simp
  have t: "\<forall>b. pb_mode b = Extend \<longrightarrow> pb_lengths b = map length [[5], [9, 4 :: i64]] \<longrightarrow>
      ple_track_targets demo_batch b = Inr (Some ([0, 4], [0, 1]))"
    by (simp add: ple_track_targets_def demo_batch_def where_or_0_def bcast_def)
  have k: "track_ok 5 [1, 3] [[5], [9, 4 :: i64]] (Some ([0, 4], [0, 1]))" by code_simp
  have R: "texts_stored table_ops (\<lambda>T. length (snd T)) demo_ngram (ngram_pool demo_pool) (\<lambda>_. [])"
    by (auto simp: texts_stored_def g table_ops_def demo_pool_def ctx_at_def table_get_def hist_ctx_def numeral_3_eq_3 numeral_2_eq_2)
  have s: "length (snd (ngram_pool demo_pool)) = 5" by (simp add: demo_pool_def)
  show ?thesis
    using forward_refines_texts[OF table.ngram_store_axioms b _ _ l _ _ _ _ R t, of True 0] k
    unfolding g s by (auto simp: live_distinct_def demo_batch_def)
qed

section \<open>The fused decode path\<close>

lemma decode_fast_path:
  fixes P :: "('a, 'n) ple_pool" and uid :: nat and eos :: "i64 option"
  assumes store: "ngram_store ops slots" and mode: "get_ple_forward_mode fb = Decode"
    and req: "\<forall>n. get_processed_token_count fb (length input) = Inr n \<longrightarrow> n \<le> length (fb_req_idx fb)"
    and N: "1 \<le> ngram_size c"
  defines "general \<equiv> prepare_ple_batch ops False uid P input fb (Some (ngram_size c)) eos"
  shows "prepare_ple_batch ops True uid P input fb (Some (ngram_size c)) eos =
      map_sum id (map_prod id (map_option (pb_fast_update (\<lambda>_. True)))) general"
    and "general = Inr (P1, Some b) \<Longrightarrow>
      compute_ngram_ids fused c mults sizes offs P2 (b\<lparr>pb_fast := True\<rparr>) = compute_ngram_ids fused c mults sizes offs P2 b"
    and "general = Inr (P1, Some b) \<Longrightarrow>
      commit_ple_batch ops P2 (Some (b\<lparr>pb_fast := True\<rparr>)) fb = commit_ple_batch ops P2 (Some b) fb"
proof -
  show "prepare_ple_batch ops True uid P input fb (Some (ngram_size c)) eos =
      map_sum id (map_prod id (map_option (pb_fast_update (\<lambda>_. True)))) general"
    unfolding general_def by (rule prepare_fast[OF mode req])
  have parts: "\<exists>n history ts e. length ts = n \<and> length history = n \<and> (\<forall>x\<in>set history. length x = ngram_size c - 1) \<and>
      pb_context b = Some (ctx_rows 1 e history (map (\<lambda>t. [t]) ts)) \<and> pb_mode b = Decode \<and> pb_processed b = n \<and>
      pb_lengths b = replicate n 1 \<and> pb_row_width b = 1 \<and> pb_req b = [0..<n] \<and> pb_off b = replicate n 0 \<and> \<not> pb_fast b"
    if run: "general = Inr (P1, Some b)"
  proof -
    obtain u where u: "ple_guards fb = Inr u"
      using run unfolding general_def prepare_ple_batch_def by (cases "ple_guards fb") auto
    obtain n where n: "get_processed_token_count fb (length input) = Inr n"
      using run u mode unfolding general_def prepare_ple_batch_def
      by (cases "get_processed_token_count fb (length input)") (auto simp: Let_def)
    let ?slots = "get_mamba_indices (P\<lparr>ple_window_cache := None\<rparr>) (take n (fb_req_idx fb))"
    let ?ts = "take n input"
    obtain es e ctx where es: "ple_state_indices False fb Decode n (replicate n 1) 1 ?slots = Inr es" and
      ctx: "ple_context ops (ngram_pool P) (ngram_size c) e False n 1 [0..<n] (replicate n 0) (replicate n True) ?ts es = Inr ctx" and
      b: "b = \<lparr>pb_uid = uid, pb_mode = Decode, pb_fast = False,
           pb_physical = length input, pb_processed = n, pb_lengths = replicate n 1, pb_row_width = 1, pb_req = [0..<n],
           pb_off = replicate n 0, pb_valid = replicate n True, pb_state = es, pb_context = Some ctx, pb_eos = eos\<rparr>"
      using run unfolding general_def prepare_decode[OF mode u n]
      by (auto simp: res_bind_Inr_iff map_sum_Inr_iff split: option.splits simp del: One_nat_def)
    have lt: "length ?ts = n" using get_processed_le[OF n] by simp
    obtain history where h: "ng_get ops (ngram_pool P) es = Inr history" "ng_width ops (ngram_pool P) = ngram_size c - 1"
      "length history = n" "ctx = map2 (@) history (map (\<lambda>t. [t]) ?ts)"
    proof -
      have pad: "padded_rows e n 1 [0..<n] (replicate n 0) (replicate n True) ?ts = Inr (map (\<lambda>t. [t]) ?ts)"
        using decode_padded[of e ?ts] unfolding lt .
      obtain history where h: "ng_get ops (ngram_pool P) es = Inr history"
        "int (ng_width ops (ngram_pool P)) = int (ngram_size c) - 1" "length history = length (map (\<lambda>t. [t]) ?ts)"
        "ctx = map2 (@) history (map (\<lambda>t. [t]) ?ts)"
        using ctx unfolding ple_context_def if_False pad res_bind_simps
        by (auto simp: res_bind_Inr_iff split: if_split_asm)
      have "ng_width ops (ngram_pool P) = ngram_size c - 1" using h(2) by linarith
      moreover have "length history = n" using h(3) unfolding length_map lt .
      ultimately show thesis using that h(1,4) by blast
    qed
    have "\<forall>x\<in>set history. length x = ngram_size c - 1" using ngram_store.get_width[OF store h(1)] h(2) by simp
    moreover have "ctx = ctx_rows 1 e history (map (\<lambda>t. [t]) ?ts)"
      unfolding h(4) using h(3) lt by (intro nth_equalityI) (simp_all add: ctx_rows_def)
    ultimately show ?thesis using lt h(3) unfolding b by (intro exI[of _ n] exI[of _ history] exI[of _ ?ts] exI[of _ e]) simp
  qed
  have ones: "map length (map (\<lambda>t. [t]) ts) = replicate (length ts) 1" for ts :: "i64 list" by (rule nth_equalityI) simp_all
  have windows: "gather_windows (ngram_size c) (b\<lparr>pb_fast := True\<rparr>) ctx = gather_windows (ngram_size c) b ctx"
    if run: "general = Inr (P1, Some b)" and ctx: "pb_context b = Some ctx" for ctx
  proof -
    obtain n history ts e where b: "length ts = n" "length history = n" "\<forall>x\<in>set history. length x = ngram_size c - 1"
      "pb_context b = Some (ctx_rows 1 e history (map (\<lambda>t. [t]) ts))" "pb_req b = [0..<n]" "pb_off b = replicate n 0" "\<not> pb_fast b"
      using parts[OF run] by blast
    have z: "zip [0..<n] (replicate n 0) = layout_from 0 (map length (map (\<lambda>t. [t]) ts))"
      unfolding ones b(1) using decode_layout_from[of 0 n] by simp
    have one: "\<forall>ch\<in>set (map (\<lambda>t. [t]) ts). length ch = 1" by simp
    have lh: "length history = length (map (\<lambda>t. [t]) ts)" using b by simp
    have ctx': "ctx = ctx_rows 1 e history (map (\<lambda>t. [t]) ts)" using ctx b(4) by simp
    show ?thesis
      using batch_windows[of "b\<lparr>pb_fast := True\<rparr>" _ _ 1, OF _ _ _ z _ N lh b(3)]
        batch_windows[of b _ _ 1, OF _ _ _ z _ N lh b(3)] b(5-7) one unfolding ctx' by simp
  qed
  show "general = Inr (P1, Some b) \<Longrightarrow>
      compute_ngram_ids fused c mults sizes offs P2 (b\<lparr>pb_fast := True\<rparr>) = compute_ngram_ids fused c mults sizes offs P2 b"
    using windows by (cases "pb_context b"; cases "ple_window_cache P2") (auto simp: compute_ngram_ids_def)
  show "general = Inr (P1, Some b) \<Longrightarrow>
      commit_ple_batch ops P2 (Some (b\<lparr>pb_fast := True\<rparr>)) fb = commit_ple_batch ops P2 (Some b) fb"
  proof -
    assume run: "general = Inr (P1, Some b)"
    obtain n history ts e where b: "length ts = n" "length history = n" "\<forall>x\<in>set history. length x = ngram_size c - 1"
      "pb_context b = Some (ctx_rows 1 e history (map (\<lambda>t. [t]) ts))" "pb_mode b = Decode" "pb_processed b = n"
      "pb_lengths b = replicate n 1" "pb_row_width b = 1" "\<not> pb_fast b"
      using parts[OF run] by blast
    let ?ctx = "ctx_rows 1 e history (map (\<lambda>t. [t]) ts)" and ?k = "ngram_size c - 1"
    have sel: "pb_context (b\<lparr>pb_fast := True\<rparr>) = pb_context b" "pb_mode (b\<lparr>pb_fast := True\<rparr>) = pb_mode b"
      "pb_processed (b\<lparr>pb_fast := True\<rparr>) = pb_processed b" "pb_lengths (b\<lparr>pb_fast := True\<rparr>) = pb_lengths b"
      "pb_row_width (b\<lparr>pb_fast := True\<rparr>) = pb_row_width b" "pb_state (b\<lparr>pb_fast := True\<rparr>) = pb_state b"
      "pb_fast (b\<lparr>pb_fast := True\<rparr>) = True" "pb_eos (b\<lparr>pb_fast := True\<rparr>) = pb_eos b" by simp_all
    have targets: "ple_track_targets fb (b\<lparr>pb_fast := True\<rparr>) = ple_track_targets fb b"
      unfolding ple_track_targets_def sel ..
    have track: "ple_track_targets fb b = Inr (Some (dst, starts)) \<Longrightarrow> starts = replicate n 1" for dst starts
      using b(5,7) by (auto simp: ple_track_targets_def Let_def res_bind_Inr_iff split: option.splits)
    have slice: "gather_slice ?k ?ctx (replicate n 1) = Inr (map (drop 1) ?ctx)"
      using gather_slice_decode[of history ?k "map (\<lambda>t. [t]) ts" e] b(1-3) by simp
    have k: "length (hd ?ctx) - 1 = ?k" if nz: "n \<noteq> 0"
    proof -
      obtain h0 hs t0 ts' where "history = h0 # hs" "ts = t0 # ts'" using b(1,2) nz by (cases history; cases ts) auto
      then show ?thesis using b(3) by (simp add: ctx_rows_def)
    qed
    show ?thesis
    proof (cases "n = 0")
      case False
      show ?thesis
        unfolding commit_ple_batch_def Let_def option.case sel b(4-8) k[OF False] slice targets
        using False b(9) slice track by (auto simp: res_bind_def split: sum.split option.split)
    qed (simp add: commit_ple_batch_def b)
  qed
qed

text \<open>
  the fused decode path is the general one. In decode mode, with a request index for every
  token, preparing with the fast path gives the batch (or the error) of the general path with only
  the flag set, and that batch then has the same ids on every layer and the same commit, track
  snapshot included.
\<close>

theorem decode_fast_path_is_general:
  fixes P :: "('a, 'n) ple_pool" and uid :: nat and eos :: "i64 option"
  assumes store: "ngram_store ops slots" and mode: "get_ple_forward_mode fb = Decode"
    and req: "\<forall>n. get_processed_token_count fb (length input) = Inr n \<longrightarrow> n \<le> length (fb_req_idx fb)"
    and N: "1 \<le> ngram_size c"
  shows "let general = prepare_ple_batch ops False uid P input fb (Some (ngram_size c)) eos
    in prepare_ple_batch ops True uid P input fb (Some (ngram_size c)) eos =
        map_sum id (map_prod id (map_option (pb_fast_update (\<lambda>_. True)))) general \<and>
      (\<forall>P1 b (P2 :: ('a, 'n) ple_pool) fused mults sizes offs. general = Inr (P1, Some b) \<longrightarrow>
        compute_ngram_ids fused c mults sizes offs P2 (b\<lparr>pb_fast := True\<rparr>) = compute_ngram_ids fused c mults sizes offs P2 b \<and>
        commit_ple_batch ops P2 (Some (b\<lparr>pb_fast := True\<rparr>)) fb = commit_ple_batch ops P2 (Some b) fb)"
  unfolding Let_def using decode_fast_path[OF assms] by blast

lemma decode_fast_path_is_general_witness:
  "prepare_ple_batch table_ops True 0 demo_pool [5, 9] (demo_batch\<lparr>fb_mode := Decode\<rparr>) (Some 3) (Some 7) =
   map_sum id (map_prod id (map_option (pb_fast_update (\<lambda>_. True))))
     (prepare_ple_batch table_ops False 0 demo_pool [5, 9] (demo_batch\<lparr>fb_mode := Decode\<rparr>) (Some 3) (Some 7))"
  using decode_fast_path_is_general[OF table.ngram_store_axioms, of "demo_batch\<lparr>fb_mode := Decode\<rparr>" "[5, 9]" demo_ngram 0 demo_pool "Some 7"]
  by (simp add: Let_def demo_batch_def demo_ngram_def get_ple_forward_mode_def get_processed_token_count_def)

end
