(* ===== verification/Ple_Verify.thy ===== *)
theory Ple_Verify
  imports Ple_Props
begin

text \<open>
  Speculative decoding: the contexts stored after a verification forward, one per draft position, so
  that accepting any prefix of the drafts finds the context of the text it accepts.
\<close>

section \<open>The layout of a verification batch\<close>

text \<open>The valid prefix of a row of drafts, then end-of-sequence tokens.\<close>

definition masked_drafts :: "i64 \<Rightarrow> nat \<Rightarrow> i64 list list \<Rightarrow> nat list \<Rightarrow> i64 list list" where
  "masked_drafts eos w ds ls = map2 (\<lambda>d l. take l d @ replicate (w - l) eos) ds ls"

lemma mask_row:
  "length d = w \<Longrightarrow> l \<le> w \<Longrightarrow>
    map2 (\<lambda>v t. if v then t else eos) (map (\<lambda>p. p < l) [0..<w]) d = take l d @ replicate (w - l) eos"
  by (rule nth_equalityI) (auto simp: nth_append)

lemma mask_rows:
  assumes "length ls = length ds" "\<forall>d\<in>set ds. length d = w" "\<forall>l\<in>set ls. l \<le> w"
  shows "map2 (\<lambda>v t. if v then t else eos) (concat (map (\<lambda>l. map (\<lambda>p. p < l) [0..<w]) ls)) (concat ds) =
    concat (masked_drafts eos w ds ls)"
  using assms
proof (induction ds arbitrary: ls)
  case Nil
  then show ?case by (simp add: masked_drafts_def)
next
  case (Cons d ds)
  obtain l ls' where ls: "ls = l # ls'" using Cons.prems(1) by (cases ls) auto
  have d: "length d = w" "l \<le> w" using Cons.prems ls by simp_all
  have "map2 (\<lambda>v t. if v then t else eos) (map (\<lambda>p. p < l) [0..<w] @ concat (map (\<lambda>l. map (\<lambda>p. p < l) [0..<w]) ls')) (d @ concat ds) =
      map2 (\<lambda>v t. if v then t else eos) (map (\<lambda>p. p < l) [0..<w]) d @
      map2 (\<lambda>v t. if v then t else eos) (concat (map (\<lambda>l. map (\<lambda>p. p < l) [0..<w]) ls')) (concat ds)"
    using d(1) by (simp add: zip_append)
  also have "\<dots> = (take l d @ replicate (w - l) eos) @ concat (masked_drafts eos w ds ls')"
    using Cons.IH[of ls'] Cons.prems ls mask_row[OF d, of eos] by simp
  finally show ?case using ls by (simp add: masked_drafts_def)
qed

lemma valid_layout:
  "\<forall>k<length ls. LS ! (q + k) = ls ! k \<Longrightarrow>
    map (\<lambda>(k, p). p < LS ! k) (layout_from q (replicate (length ls) w)) = concat (map (\<lambda>l. map (\<lambda>p. p < l) [0..<w]) ls)"
proof (induction ls arbitrary: q)
  case Nil
  then show ?case by simp
next
  case (Cons l ls)
  have "LS ! q = l" using Cons.prems[rule_format, of 0] by simp
  moreover have "\<forall>k<length ls. LS ! (Suc q + k) = ls ! k"
  proof (intro allI impI)
    fix k assume "k < length ls"
    then show "LS ! (Suc q + k) = ls ! k" using Cons.prems[rule_format, of "Suc k"] by simp
  qed
  ultimately show ?case using Cons.IH[of "Suc q"] by (simp add: comp_def)
qed

lemma verify_valid:
  "map2 (\<lambda>p q. p < ls ! q) (map (\<lambda>t. t - t div w * w) [0..<length ls * w]) (map (\<lambda>t. t div w) [0..<length ls * w]) =
    concat (map (\<lambda>l. map (\<lambda>p. p < l) [0..<w]) ls)"
proof -
  let ?req = "map (\<lambda>t. t div w) [0..<length ls * w]" and ?off = "map (\<lambda>t. t - t div w * w) [0..<length ls * w]"
  have "map2 (\<lambda>p q. p < ls ! q) ?off ?req = map (\<lambda>(k, p). p < ls ! k) (zip ?req ?off)" by (rule nth_equalityI) simp_all
  also have "\<dots> = concat (map (\<lambda>l. map (\<lambda>p. p < l) [0..<w]) ls)" unfolding verify_layout_from by (rule valid_layout) simp
  finally show ?thesis .
qed

text \<open>
  \<open>verify_of\<close>: a verification forward over the rows \<open>ds\<close> of \<open>w\<close> drafts, of which the first
  \<open>ls ! q\<close> of row \<open>q\<close> are real.
\<close>

definition verify_of :: "fwd_batch \<Rightarrow> i64 list \<Rightarrow> nat \<Rightarrow> i64 list list \<Rightarrow> nat list \<Rightarrow> bool" where
  "verify_of fb input w ds ls \<longleftrightarrow> ple_guards fb = Inr () \<and> get_ple_forward_mode fb = Target_Verify \<and>
     get_processed_token_count fb (length input) = Inr (length ds * w) \<and> take (length ds * w) input = concat ds \<and>
     (\<exists>topk. fb_spec_info fb = Some (topk, int w)) \<and> 0 < w \<and> (\<forall>d\<in>set ds. length d = w) \<and>
     length ls = length ds \<and> (\<forall>l\<in>set ls. l \<le> w) \<and>
     (if fb_mode fb = Target_Verify \<and> fb_extend fb \<noteq> None then take (length ds) (the (fb_extend fb)) = ls
      else ls = replicate (length ds) w)"

lemma verify_layout_ok:
  assumes "verify_of fb input w ds ls"
  shows "ple_layout fb Target_Verify (length ds * w) =
    Inr (ls, w, map (\<lambda>t. t div w) [0..<length ds * w], map (\<lambda>t. t - t div w * w) [0..<length ds * w])"
proof -
  obtain topk where "fb_spec_info fb = Some (topk, int w)" "0 < w" using assms by (auto simp: verify_of_def)
  moreover have "(case fb_extend fb of Some xs \<Rightarrow> if fb_mode fb = Target_Verify then take (length ds) xs else replicate (length ds) w
      | None \<Rightarrow> replicate (length ds) w) = ls" "length ls = length ds"
    using assms by (auto simp: verify_of_def split: if_splits option.splits)
  moreover have "length ds * w div w = length ds" using \<open>0 < w\<close> by simp
  ultimately show ?thesis by (cases "fb_extend fb") (auto simp: ple_layout_def verify_layout_def Let_def)
qed

lemma prepare_verify:
  assumes v: "verify_of fb input w ds ls"
    and es: "ple_state_indices False fb Target_Verify (length ds * w) ls w
      (get_mamba_indices P (take (length ds) (fb_req_idx fb))) = Inr es"
    and get: "ng_get ops (ngram_pool P) es = Inr history" "length history = length ds"
    and N: "ng_width ops (ngram_pool P) = N - 1" "1 \<le> N"
  obtains b where "prepare_ple_batch ops fusion uid P input fb (Some N) (Some eos) = Inr (P\<lparr>ple_window_cache := None\<rparr>, Some b)"
    "pb_mode b = Target_Verify" "pb_processed b = length ds * w" "pb_lengths b = ls" "pb_row_width b = w" "pb_eos b = Some eos"
    "pb_valid b = concat (map (\<lambda>l. map (\<lambda>p. p < l) [0..<w]) ls)"
    "pb_context b = Some (map2 (@) history (masked_drafts eos w ds ls))"
proof -
  let ?n = "length ds * w"
  let ?req = "map (\<lambda>t. t div w) [0..<?n]" and ?off = "map (\<lambda>t. t - t div w * w) [0..<?n]"
  let ?valid = "concat (map (\<lambda>l. map (\<lambda>p. p < l) [0..<w]) ls)"
  have a: "ple_guards fb = Inr ()" "get_ple_forward_mode fb = Target_Verify" "get_processed_token_count fb (length input) = Inr ?n"
    "take ?n input = concat ds" "\<forall>d\<in>set ds. length d = w" "length ls = length ds" "\<forall>l\<in>set ls. l \<le> w"
    using v by (auto simp: verify_of_def)
  have z: "zip ?req ?off = layout_from 0 (replicate (length ls) w)" unfolding a(6) by (rule verify_layout_from)
  have valid: "map2 (\<lambda>p q. p < ls ! q) ?off ?req = ?valid" unfolding a(6)[symmetric] by (rule verify_valid)
  let ?cs = "masked_drafts eos w ds ls"
  have cs: "length ?cs = length ds" "\<forall>c\<in>set ?cs. length c = w"
  proof -
    show "length ?cs = length ds" using a(6) by (simp add: masked_drafts_def)
    show "\<forall>c\<in>set ?cs. length c = w"
    proof
      fix c assume "c \<in> set ?cs"
      then obtain d l where "d \<in> set ds" "l \<in> set ls" "c = take l d @ replicate (w - l) eos"
        by (auto simp: masked_drafts_def dest: set_zip_leftD set_zip_rightD)
      then show "length c = w" using a(5,7) by simp
    qed
  qed
  then have lcs: "map length ?cs = replicate (length ls) w" by (intro nth_equalityI) (simp_all add: a(6))
  have pad: "padded_rows eos (length ds) w ?req ?off ?valid (concat ds) = Inr ?cs"
  proof -
    have "map (\<lambda>c. c @ replicate (w - length c) eos) ?cs = ?cs" by (rule map_idI) (use cs(2) in simp)
    then show ?thesis
    using padded_rows_ok[of ?req ?off ?cs eos ?valid "concat ds" w] z mask_rows[OF a(6,5,7)] cs unfolding lcs by simp
  qed
  have ctx: "ple_context ops (ngram_pool P) N eos False (length ds) w ?req ?off ?valid (concat ds) es = Inr (map2 (@) history ?cs)"
    using N get cs(1) by (simp add: ple_context_def pad of_nat_diff)
  have st: "ple_state_indices False fb Target_Verify ?n ls w
      (get_mamba_indices (P\<lparr>ple_window_cache := None\<rparr>) (take (length ls) (fb_req_idx fb))) = Inr es"
    using es a(6) by (simp add: get_mamba_indices_def)
  let ?b = "\<lparr>pb_uid = uid, pb_mode = Target_Verify, pb_fast = False, pb_physical = length input, pb_processed = ?n,
     pb_lengths = ls, pb_row_width = w, pb_req = ?req, pb_off = ?off, pb_valid = ?valid, pb_state = es,
     pb_context = Some (map2 (@) history ?cs), pb_eos = Some eos\<rparr>"
  have fast: "(fusion \<and> Target_Verify = Decode) = False" by simp
  have idle: "(Target_Verify = Idle) = False" by simp
  have "prepare_ple_batch ops fusion uid P input fb (Some N) (Some eos) = Inr (P\<lparr>ple_window_cache := None\<rparr>, Some ?b)"
    unfolding prepare_ple_batch_def Let_def a(1-4) res_bind_simps fast idle if_False verify_layout_ok[OF v] prod.case valid st
    using ctx a(6) by simp
  then show thesis by (rule that) simp_all
qed

section \<open>The stored contexts\<close>

text \<open>
  C27: after verification the pool receives, for every draft position of every row, the context of
  the text that accepts the drafts up to and including it (end-of-sequence tokens after the real
  drafts), so any accepted prefix finds its context.
\<close>

theorem verify_stores_every_prefix:
  assumes store: "ngram_store ops slots" and v: "verify_of fb input w ds ls" "ds \<noteq> []"
    and es: "ple_state_indices False fb Target_Verify (length ds * w) ls w
      (get_mamba_indices P (take (length ds) (fb_req_idx fb))) = Inr es" "length es = length ds" "\<forall>s\<in>set es. s < slots (ngram_pool P)"
    and N: "2 \<le> ngram_size c" and R: "texts_stored ops slots c (ngram_pool P) h"
  shows "\<exists>b P1 steps. prepare_ple_batch ops fusion uid P input fb (Some (ngram_size c)) (Some (eos_token c)) = Inr (P1, Some b) \<and>
    commit_ple_batch ops P1 (Some b) fb = map_sum id (\<lambda>n. P1\<lparr>ngram_pool := n\<rparr>) (ng_put_steps ops (ngram_pool P) steps) \<and>
    length steps = length ds \<and>
    (\<forall>q<length ds. length (steps ! q) = w \<and> (es ! q \<noteq> 0 \<longrightarrow> (\<forall>j<w. steps ! q ! j =
      (if j < ls ! q then hist_ctx (ngram_size c - 1) (eos_token c) (h (es ! q) @ take (Suc j) (ds ! q))
       else replicate (ngram_size c - 1) (eos_token c)))))"
proof -
  let ?k = "ngram_size c - 1" and ?e = "eos_token c"
  let ?history = "map (ctx_at ops (ngram_pool P)) es"
  have wd: "ng_width ops (ngram_pool P) = ?k" using R by (simp add: texts_stored_def)
  have get: "ng_get ops (ngram_pool P) es = Inr ?history" by (rule ngram_store.get_in[OF store es(3)])
  have lh: "\<forall>x\<in>set ?history. length x = ?k" using ngram_store.get_width[OF store get] by (auto simp only: wd)
  have len: "length ?history = length ds" using es(2) by simp
  have N1: "1 \<le> ngram_size c" using N by simp
  obtain b where b: "prepare_ple_batch ops fusion uid P input fb (Some (ngram_size c)) (Some ?e) = Inr (P\<lparr>ple_window_cache := None\<rparr>, Some b)"
    "pb_mode b = Target_Verify" "pb_processed b = length ds * w" "pb_lengths b = ls" "pb_row_width b = w" "pb_eos b = Some ?e"
    "pb_valid b = concat (map (\<lambda>l. map (\<lambda>p. p < l) [0..<w]) ls)"
    "pb_context b = Some (map2 (@) ?history (masked_drafts ?e w ds ls))"
    by (rule prepare_verify[OF v(1) es(1) get len wd N1, of fusion uid ?e], rule that)
  have a: "0 < w" "\<forall>d\<in>set ds. length d = w" "length ls = length ds" "\<forall>l\<in>set ls. l \<le> w" using v(1) by (auto simp: verify_of_def)
  let ?ctx = "map2 (@) ?history (masked_drafts ?e w ds ls)"
  let ?steps = "step_contexts ?k ?e b ?ctx"
  have row: "?ctx ! q = ?history ! q @ take (ls ! q) (ds ! q) @ replicate (w - ls ! q) ?e" if "q < length ds" for q
    using that es(2) a(3) by (simp add: masked_drafts_def)
  have lrow: "length (?ctx ! q) = ?k + w" if q: "q < length ds" for q
  proof -
    have "length (?history ! q) = ?k" using lh q es(2) by simp
    moreover have "length (ds ! q) = w" "ls ! q \<le> w" using a q by simp_all
    ultimately show ?thesis by (simp add: row[OF q])
  qed
  have lctx: "length ?ctx = length ds" using es(2) a(3) by (simp add: masked_drafts_def)
  have chunk: "chunks w (length ls) (pb_valid b) ! q = map (\<lambda>p. p < ls ! q) [0..<w]" if q: "q < length ls" for q
  proof -
    have "chunks w (length xs) (concat (map (\<lambda>l. map (\<lambda>p. p < l) [0..<w]) xs)) = map (\<lambda>l. map (\<lambda>p. p < l) [0..<w]) xs" for xs
      by (induction xs) simp_all
    then show ?thesis using q b(7) by simp
  qed
  have ls: "length ?steps = length ds" using lctx a(3) by (simp add: step_contexts_def b(4))
  have st: "?steps ! q = map2 (\<lambda>win vd. if vd then win else replicate ?k ?e) (drop 1 (unfold_rows ?k (?ctx ! q))) (map (\<lambda>p. p < ls ! q) [0..<w])"
    if q: "q < length ds" for q
    using q lctx a(3) chunk[of q] by (simp add: step_contexts_def b(4,5) del: upt_Suc One_nat_def)
  have lu: "length (unfold_rows ?k (?ctx ! q)) = Suc w" if "q < length ds" for q
    using lrow[OF that] by (simp add: unfold_rows_def)
  have key: "?steps ! q ! j = (if j < ls ! q then hist_ctx ?k ?e (h (es ! q) @ take (Suc j) (ds ! q)) else replicate ?k ?e)"
    if q: "q < length ds" "es ! q \<noteq> 0" "j < w" for q j
  proof -
    have "drop 1 (unfold_rows ?k (?ctx ! q)) ! j = take ?k (drop (Suc j) (?ctx ! q))"
      using lu[OF q(1)] q(3) lrow[OF q(1)] by (simp add: unfold_nth)
    then have s: "?steps ! q ! j = (if j < ls ! q then take ?k (drop (Suc j) (?ctx ! q)) else replicate ?k ?e)"
      using st[OF q(1)] lu[OF q(1)] q(3) by simp
    have hq: "?history ! q = hist_ctx ?k ?e (h (es ! q))" using R es q by (simp add: texts_stored_def)
    have "take ?k (drop (Suc j) (?ctx ! q)) = hist_ctx ?k ?e (h (es ! q) @ take (Suc j) (take (ls ! q) (ds ! q)))" if "j < ls ! q"
    proof -
      have "Suc j \<le> length (take (ls ! q) (ds ! q))" using that q a by simp
      then show ?thesis unfolding row[OF q(1)] hq by (rule hist_ctx_slice)
    qed
    then show ?thesis using s by (simp add: min_absorb1)
  qed
  have kw: "length (hd ?ctx) - pb_row_width b = ?k"
  proof -
    have n0: "0 < length ds" using v(2) by simp
    then have "hd ?ctx = ?ctx ! 0" using lctx by (intro hd_conv_nth) fastforce
    then show ?thesis unfolding b(5) using lrow[OF n0] by simp
  qed
  have ne: "pb_processed b \<noteq> 0" using b(3) v(2) a(1) by simp
  have "commit_ple_batch ops (P\<lparr>ple_window_cache := None\<rparr>) (Some b) fb =
      map_sum id (\<lambda>n. (P\<lparr>ple_window_cache := None\<rparr>)\<lparr>ngram_pool := n\<rparr>) (ng_put_steps ops (ngram_pool P) ?steps)"
    unfolding commit_ple_batch_def Let_def option.case b(8) kw if_not_P[OF ne] b(2,6) by simp
  moreover have "length (?steps ! q) = w" if "q < length ds" for q using st[OF that] lu[OF that] by simp
  ultimately show ?thesis using b(1) ls key by (intro exI[of _ b] exI[of _ "P\<lparr>ple_window_cache := None\<rparr>"] exI[of _ ?steps]) blast
qed

lemma verify_stores_every_prefix_witness:
  "\<exists>b P1 (steps :: i64 list list list). prepare_ple_batch table_ops True 0 demo_pool [5, 9, 4, 8, 7, 6]
      (demo_batch\<lparr>fb_mode := Target_Verify, fb_spec_info := Some (1, 3), fb_non_padded := Some 6, fb_extend := Some [3, 2]\<rparr>) (Some 3) (Some 7) = Inr (P1, Some b) \<and>
    steps ! 1 ! 1 = hist_ctx 2 7 [8, 7] \<and> steps ! 1 ! 2 = [7, 7]"
proof -
  let ?fb = "demo_batch\<lparr>fb_mode := Target_Verify, fb_spec_info := Some (1, 3), fb_non_padded := Some 6, fb_extend := Some [3, 2]\<rparr>"
  have g: "ngram_size demo_ngram = 3" "eos_token demo_ngram = 7" by (simp_all add: demo_ngram_def)
  have v: "verify_of ?fb [5, 9, 4, 8, 7, 6] 3 [[5, 9, 4], [8, 7, 6]] [3, 2]"
    by (auto simp: verify_of_def demo_batch_def ple_guards_def get_ple_forward_mode_def get_processed_token_count_def)
  have es: "ple_state_indices False ?fb Target_Verify (length [[5, 9, 4], [8, 7, 6 :: i64]] * 3) [3, 2] 3
      (get_mamba_indices demo_pool (take (length [[5, 9, 4], [8, 7, 6 :: i64]]) (fb_req_idx ?fb))) = Inr [1, 3]" by code_simp
  have R: "texts_stored table_ops (\<lambda>T. length (snd T)) demo_ngram (ngram_pool demo_pool) (\<lambda>_. [])"
    by (auto simp: texts_stored_def g table_ops_def demo_pool_def ctx_at_def table_get_def hist_ctx_def numeral_3_eq_3 numeral_2_eq_2)
  have s: "length (snd (ngram_pool demo_pool)) = 5" by (simp add: demo_pool_def)
  have prem: "[[5, 9, 4], [8, 7, 6 :: i64]] \<noteq> []" "length [1, 3 :: nat] = length [[5, 9, 4], [8, 7, 6 :: i64]]"
    "\<forall>s\<in>set [1, 3]. s < length (snd (ngram_pool demo_pool))" "2 \<le> ngram_size demo_ngram" by (simp_all add: s g)
  have l: "length [[5, 9, 4], [8, 7, 6 :: i64]] = 2" "(3 :: nat) - 1 = 2" by simp_all
  obtain b P1 and steps :: "i64 list list list" where st: "prepare_ple_batch table_ops True 0 demo_pool [5, 9, 4, 8, 7, 6] ?fb (Some 3) (Some 7) = Inr (P1, Some b)"
    "\<forall>q<2. length (steps ! q) = 3 \<and> ([1, 3] ! q \<noteq> (0 :: nat) \<longrightarrow> (\<forall>j<3. steps ! q ! j =
      (if j < [3, 2] ! q then hist_ctx 2 7 ([] @ take (Suc j) ([[5, 9, 4], [8, 7, 6]] ! q)) else replicate 2 7)))"
    using verify_stores_every_prefix[OF table.ngram_store_axioms v prem(1) es prem(2-4) R, of True 0]
    unfolding g l by blast
  have "steps ! 1 ! 1 = hist_ctx 2 7 [8, 7]" "steps ! 1 ! 2 = [7, 7]"
    using st(2)[rule_format, of 1] by (simp_all add: numeral_2_eq_2)
  then show ?thesis using st(1) by blast
qed

end
