(* ===== verification/Ple_Conv.thy ===== *)
theory Ple_Conv
  imports Ple_Verify
begin

text \<open>
  The short convolution of a PLE layer (\<^verbatim>\<open>Qwen4ExpPLELayer._short_conv\<close> of
  \<^verbatim>\<open>runtime-src/qwen4_exp.py\<close>): a causal dilated depthwise convolution whose last columns are kept
  per slot between forwards. A tensor of shape (rows, channels, columns) is a list of rows, each the
  list of its columns, so that the transposition to the layout of \<^verbatim>\<open>F.conv1d\<close> disappears. The state
  of a layer is the tensor \<^verbatim>\<open>pool.short_conv_layer_cache\<close>, whose pool is not in the repository.
\<close>

section \<open>The layer\<close>

type_synonym column = "rat list"

record conv_layer =
  cv_kernel :: nat
  cv_dilation :: nat
  cv_channels :: nat
  cv_weight :: "rat list list"

definition short_conv_state_len :: "conv_layer \<Rightarrow> nat" where
  "short_conv_state_len L = (cv_kernel L - 1) * cv_dilation L"

text \<open>
  The conversions between the types of the state, of the tokens, of the weight and of the
  intermediate cache, the activation, and the fused kernel that shifts the state of a decode batch
  (\<^verbatim>\<open>None\<close> where \<^verbatim>\<open>can_fuse_qwen4_short_conv_state\<close> refuses), which is not in the repository.
\<close>

record conv_lib =
  cl_in :: "rat \<Rightarrow> rat"
  cl_out :: "rat \<Rightarrow> rat"
  cl_weight :: "rat \<Rightarrow> rat"
  cl_step :: "rat \<Rightarrow> rat"
  cl_silu :: "rat \<Rightarrow> rat"
  cl_fused :: "column list list \<Rightarrow> nat list \<Rightarrow> column list \<Rightarrow> (column list list \<times> column list list) option"

section \<open>Tensor operations\<close>

definition select_rows :: "'b list \<Rightarrow> nat list \<Rightarrow> 'b list result" where
  "select_rows st is = (if \<exists>i\<in>set is. length st \<le> i then Inl IndexError else Inr (index_select st is))"

definition cat_rows :: "'b list list \<Rightarrow> 'b list list \<Rightarrow> 'b list list result" where
  "cat_rows a b = (if length a = length b then Inr (map2 (@) a b) else Inl RuntimeError)"

text \<open>The values of an indexed store: as many rows as indices, or one row for all of them.\<close>

definition expand_rows :: "nat \<Rightarrow> 'b list \<Rightarrow> 'b list result" where
  "expand_rows n vals =
     (if length vals = n then Inr vals else if length vals = 1 then Inr (replicate n (hd vals)) else Inl RuntimeError)"

definition store_rows :: "'b list list \<Rightarrow> nat list \<Rightarrow> 'b list list \<Rightarrow> 'b list list result" where
  "store_rows st is rows =
     res_bind (expand_rows (length is) rows) (\<lambda>vals.
       if \<exists>i\<in>set is. length st \<le> i then Inl IndexError
       else if \<exists>(i, v)\<in>set (zip is vals). length (st ! i) \<noteq> length v then Inl RuntimeError
       else Inr (scatter st (zip is vals)))"

text \<open>
  \<^verbatim>\<open>F.conv1d\<close> with one group per channel and no padding: column \<open>p\<close> of the result reads the columns
  \<open>p + k * dilation\<close>; a row shorter than the span of the kernel is an error.
\<close>

definition conv1d :: "conv_lib \<Rightarrow> conv_layer \<Rightarrow> column list list \<Rightarrow> column list list result" where
  "conv1d lib L rows =
     (let span = short_conv_state_len L
      in if \<exists>row\<in>set rows. length row < span + 1 then Inl RuntimeError
         else Inr (map (\<lambda>row. map (\<lambda>p. map (\<lambda>c.
                  \<Sum>k\<leftarrow>[0..<cv_kernel L]. cl_weight lib (cv_weight L ! c ! k) * (row ! (p + k * cv_dilation L)) ! c)
                [0..<cv_channels L]) [0..<length row - span]) rows))"

section \<open>The convolution of a batch\<close>

definition short_conv_fast ::
  "conv_lib \<Rightarrow> conv_layer \<Rightarrow> fwd_batch \<Rightarrow> ple_batch \<Rightarrow> column list list \<Rightarrow> column list \<Rightarrow> (column list list \<times> column list) result" where
  "short_conv_fast lib L fb b st x =
     res_bind (case cl_fused lib st (pb_state b) x of
         Some (st', input) \<Rightarrow> Inr (True, st', input)
       | None \<Rightarrow> res_bind (select_rows st (pb_state b)) (\<lambda>s.
                  res_bind (cat_rows (map (map (map (cl_in lib))) s) (map (\<lambda>col. [col]) x)) (\<lambda>input. Inr (False, st, input))))
       (\<lambda>(fused, st1, input).
     res_bind (conv1d lib L input) (\<lambda>out.
     if \<exists>row\<in>set out. length row \<noteq> 1 then Inl RuntimeError
     else let nxt = map (\<lambda>row. map (map (cl_out lib)) (drop (pb_row_width b) row)) input
     in res_bind (if fused then Inr st1 else store_rows st1 (pb_state b) nxt) (\<lambda>st2.
     res_bind (ple_track_targets fb b) (\<lambda>track.
     res_bind (case track of None \<Rightarrow> Inr st2 | Some (dst, _) \<Rightarrow> store_rows st2 dst nxt) (\<lambda>st3.
       Inr (st3, map (\<lambda>row. map (cl_silu lib) (hd row)) out))))))"

text \<open>The states after every step of a verification batch, zero for the steps that are padding.\<close>

definition conv_steps :: "conv_layer \<Rightarrow> ple_batch \<Rightarrow> column list list \<Rightarrow> column list list list result" where
  "conv_steps L b input =
     (let span = short_conv_state_len L; w = pb_row_width b; n = length (pb_lengths b);
          wins = (\<lambda>row. if span = 0 then replicate w [] else take w (drop 1 (unfold_rows span row)))
      in if length (pb_valid b) \<noteq> n * w then Inl RuntimeError
         else Inr (map2 (\<lambda>row vs. map2 (\<lambda>win v. if v then win else replicate span (replicate (cv_channels L) 0)) (wins row) vs)
                    input (chunks w n (pb_valid b))))"

text \<open>
  \<^verbatim>\<open>intermediate_cache[:n, :w].copy_(steps)\<close>: a slice that is cut short by the cache accepts the
  steps only where they have one row, or one step, to broadcast.
\<close>

definition copy_steps :: "nat \<Rightarrow> 'b list list \<Rightarrow> 'b list list \<Rightarrow> 'b list list result" where
  "copy_steps w cache steps =
     (if length cache < length steps \<and> length steps \<noteq> 1 \<or> w \<noteq> 1 \<and> (\<exists>row\<in>set cache. length row < w) then Inl RuntimeError
      else Inr (map2 (\<lambda>row s. take (length row) s @ drop w row) (take (length steps) cache) steps @ drop (length steps) cache))"

definition short_conv_general ::
  "conv_lib \<Rightarrow> conv_layer \<Rightarrow> fwd_batch \<Rightarrow> ple_batch \<Rightarrow> column list list \<Rightarrow> column list list list option \<Rightarrow> column list \<Rightarrow>
   (column list list \<times> column list list list option \<times> column list) result" where
  "short_conv_general lib L fb b st stp x =
     (let span = short_conv_state_len L; n = length (pb_lengths b); w = pb_row_width b
      in res_bind (select_rows st (pb_state b)) (\<lambda>s.
         res_bind (expand_rows (length (pb_req b)) x) (\<lambda>vals.
         res_bind (put_tokens (replicate (cv_channels L) 0) n w (pb_req b) (pb_off b) vals) (\<lambda>padded.
         res_bind (cat_rows (map (map (map (cl_in lib))) s) padded) (\<lambda>input.
         res_bind (conv1d lib L input) (\<lambda>out.
         res_bind
           (if pb_mode b = Target_Verify then
              (case stp of None \<Rightarrow> Inr (st, None)
               | Some cache \<Rightarrow>
                   res_bind (conv_steps L b input) (\<lambda>steps.
                     map_sum id (\<lambda>c. (st, Some c)) (copy_steps w cache (map (map (map (map (cl_step lib)))) steps))))
            else
              res_bind (gather_slice span input (pb_lengths b)) (\<lambda>nxt.
              res_bind (store_rows st (pb_state b) (map (map (map (cl_out lib))) nxt)) (\<lambda>st1.
              res_bind (ple_track_targets fb b) (\<lambda>track.
                map_sum id (\<lambda>st2. (st2, stp))
                  (case track of None \<Rightarrow> Inr st1
                   | Some (dst, starts) \<Rightarrow>
                       res_bind (gather_slice span input starts)
                         (\<lambda>rows. store_rows st1 dst (map (map (map (cl_out lib))) rows)))))))
           (\<lambda>(st', stp'). Inr (st', stp', map2 (\<lambda>q p. map (cl_silu lib) (out ! q ! p)) (pb_req b) (pb_off b)))))))))"

definition short_conv ::
  "conv_lib \<Rightarrow> conv_layer \<Rightarrow> fwd_batch \<Rightarrow> ple_batch \<Rightarrow> column list list \<Rightarrow> column list list list option \<Rightarrow> column list \<Rightarrow>
   (column list list \<times> column list list list option \<times> column list) result" where
  "short_conv lib L fb b st stp x =
     (if x = [] then Inr (st, stp, [])
      else if pb_fast b then map_sum id (\<lambda>(st', ys). (st', stp, ys)) (short_conv_fast lib L fb b st x)
      else short_conv_general lib L fb b st stp x)"

section \<open>The convolution of a stream\<close>

text \<open>
  The specification: the stream of a slot is the list of all the columns it has seen, with zero
  columns in front of it.
\<close>

definition col_at :: "column \<Rightarrow> column list \<Rightarrow> int \<Rightarrow> column" where
  "col_at z xs i = (if i < 0 then z else xs ! nat i)"

definition conv_spec :: "conv_lib \<Rightarrow> conv_layer \<Rightarrow> column list \<Rightarrow> nat \<Rightarrow> column" where
  "conv_spec lib L xs t = map (\<lambda>c. \<Sum>k\<leftarrow>[0..<cv_kernel L]. cl_weight lib (cv_weight L ! c ! k) *
       (col_at (replicate (cv_channels L) 0) xs (int t - int ((cv_kernel L - 1 - k) * cv_dilation L))) ! c) [0..<cv_channels L]"

lemma hist_ctx_map: "map f (hist_ctx k z h) = hist_ctx k (f z) (map f h)"
  by (simp add: hist_ctx_def drop_map)

lemma conv_window:
  assumes k: "k < K" and p: "p < length ch"
  shows "(hist_ctx ((K - 1) * d) z h @ ch @ rest) ! (p + k * d) =
    col_at z (h @ ch) (int (length h + p) - int ((K - 1 - k) * d))"
proof -
  let ?S = "(K - 1) * d" and ?r = "(K - 1 - k) * d"
  have S: "?S = k * d + ?r" using k by (simp add: add_mult_distrib[symmetric])
  have lt: "length h + (p + k * d) < length (replicate ?S z @ h @ ch @ rest)" using p S by simp
  then have "(hist_ctx ?S z h @ ch @ rest) ! (p + k * d) = (replicate ?S z @ h @ ch @ rest) ! (length h + (p + k * d))"
    unfolding hist_ctx_append by (subst nth_drop) simp_all
  also have "\<dots> = col_at z (h @ ch) (int (length h + p) - int ?r)"
  proof (cases "length h + (p + k * d) < ?S")
    case True
    then have neg: "int (length h + p) - int ?r < 0" using S by linarith
    show ?thesis unfolding col_at_def if_P[OF neg] using True by (simp add: nth_append)
  next
    case False
    then obtain j where j: "length h + (p + k * d) = ?S + j" by (metis le_Suc_ex not_le)
    then have i: "int (length h + p) - int ?r = int j" using S by linarith
    have "j < length (h @ ch)" using p S j by simp
    then have "((h @ ch) @ rest) ! j = (h @ ch) ! j" by (rule nth_append_left)
    moreover have "(replicate ?S z @ h @ ch @ rest) ! (?S + j) = ((h @ ch) @ rest) ! j"
      using nth_append_length_plus[of "replicate ?S z" "(h @ ch) @ rest" j] by simp
    ultimately show ?thesis unfolding i j by (simp add: col_at_def)
  qed
  finally show ?thesis .
qed

lemma conv1d_rows:
  assumes K: "1 \<le> cv_kernel L" and lh: "length history = length cs"
    and h: "\<forall>x\<in>set history. length x = short_conv_state_len L" and w: "\<forall>c\<in>set cs. length c \<le> w" "0 < w"
  obtains out where "conv1d lib L (ctx_rows w z history cs) = Inr out" "length out = length cs"
    "\<forall>q<length cs. length (out ! q) = w"
    "\<And>q p h. q < length cs \<Longrightarrow> p < length (cs ! q) \<Longrightarrow> z = replicate (cv_channels L) 0 \<Longrightarrow>
      history ! q = hist_ctx (short_conv_state_len L) z h \<Longrightarrow> out ! q ! p = conv_spec lib L (h @ cs ! q) (length h + p)"
proof -
  let ?S = "short_conv_state_len L" and ?rows = "ctx_rows w z history cs"
  let ?conv = "\<lambda>row. map (\<lambda>p. map (\<lambda>c. \<Sum>k\<leftarrow>[0..<cv_kernel L]. cl_weight lib (cv_weight L ! c ! k) *
      (row ! (p + k * cv_dilation L)) ! c) [0..<cv_channels L]) [0..<length row - ?S]"
  have len: "length ?rows = length cs" using lh by (simp add: ctx_rows_def)
  have row: "?rows ! q = history ! q @ cs ! q @ replicate (w - length (cs ! q)) z" if "q < length cs" for q
    using that lh by (simp add: ctx_rows_def)
  have lr: "length (?rows ! q) = ?S + w" if "q < length cs" for q
    using that h w lh by (simp add: row)
  have "\<not> (\<exists>row\<in>set ?rows. length row < ?S + 1)" using lr w(2) len by (auto simp: in_set_conv_nth)
  then have run: "conv1d lib L ?rows = Inr (map ?conv ?rows)" by (simp add: conv1d_def)
  show thesis
  proof (rule that[OF run])
    show "length (map ?conv ?rows) = length cs" using len by simp
    show "\<forall>q<length cs. length (map ?conv ?rows ! q) = w" using lr len by simp
    fix q p h assume q: "q < length cs" and p: "p < length (cs ! q)" and z: "z = replicate (cv_channels L) 0"
      and hq: "history ! q = hist_ctx ?S z h"
    have pw: "p < w" using p q w(1) by (meson le_trans less_le_trans nth_mem)
    have "(?rows ! q) ! (p + k * cv_dilation L) =
        col_at z (h @ cs ! q) (int (length h + p) - int ((cv_kernel L - 1 - k) * cv_dilation L))" if "k < cv_kernel L" for k
      unfolding row[OF q] hq short_conv_state_len_def by (rule conv_window[OF that p])
    then have taps: "(\<Sum>k\<leftarrow>[0..<cv_kernel L]. cl_weight lib (cv_weight L ! c ! k) * (?rows ! q ! (p + k * cv_dilation L)) ! c) =
        (\<Sum>k\<leftarrow>[0..<cv_kernel L]. cl_weight lib (cv_weight L ! c ! k) * (col_at z (h @ cs ! q) (int (length h + p) -
          int ((cv_kernel L - 1 - k) * cv_dilation L))) ! c)" for c
      by (intro arg_cong[of _ _ sum_list] map_cong refl) (simp only: set_upt atLeastLessThan_iff)
    have "map ?conv ?rows ! q ! p = map (\<lambda>c. \<Sum>k\<leftarrow>[0..<cv_kernel L]. cl_weight lib (cv_weight L ! c ! k) *
        (?rows ! q ! (p + k * cv_dilation L)) ! c) [0..<cv_channels L]" using q len lr[OF q] pw by simp
    then show "map ?conv ?rows ! q ! p = conv_spec lib L (h @ cs ! q) (length h + p)"
      unfolding taps conv_spec_def z[symmetric] .
  qed
qed

section \<open>The state of a stream\<close>

abbreviation zero_col :: "conv_layer \<Rightarrow> column" where
  "zero_col L \<equiv> replicate (cv_channels L) 0"

text \<open>
  What the code relies on: zero is converted to zero, and converting a value that was read from the
  state back to the type of the state loses nothing; where the fused kernel accepts a batch, it
  returns the input of the convolution and the shifted state that the tensor operations return.
\<close>

definition conv_casts :: "conv_lib \<Rightarrow> bool" where
  "conv_casts lib \<longleftrightarrow> cl_in lib 0 = 0 \<and> cl_out lib 0 = 0 \<and> (\<forall>v. cl_out lib (cl_in lib (cl_out lib v)) = cl_out lib v)"

definition fused_ok :: "conv_lib \<Rightarrow> bool" where
  "fused_ok lib \<longleftrightarrow> (\<forall>st is x st' rows. cl_fused lib st is x = Some (st', rows) \<longrightarrow>
     res_bind (select_rows st is) (\<lambda>s. cat_rows (map (map (map (cl_in lib))) s) (map (\<lambda>col. [col]) x)) = Inr rows \<and>
     store_rows st is (map (\<lambda>row. map (map (cl_out lib)) (drop 1 row)) rows) = Inr st')"

text \<open>A stream as a later forward sees it: rounded to the type of the state.\<close>

definition seen :: "conv_lib \<Rightarrow> column list \<Rightarrow> column list" where
  "seen lib h = map (map (\<lambda>v. cl_in lib (cl_out lib v))) h"

definition streams_stored :: "conv_lib \<Rightarrow> conv_layer \<Rightarrow> column list list \<Rightarrow> (nat \<Rightarrow> column list) \<Rightarrow> bool" where
  "streams_stored lib L st h \<longleftrightarrow> (\<forall>row\<in>set st. length row = short_conv_state_len L) \<and>
     (\<forall>s. 0 < s \<longrightarrow> s < length st \<longrightarrow> st ! s = map (map (cl_out lib)) (hist_ctx (short_conv_state_len L) (zero_col L) (h s)))"

lemma length_seen [simp]: "length (seen lib h) = length h"
  by (simp add: seen_def)

lemma out_seen:
  assumes "conv_casts lib"
  shows "map (map (cl_out lib)) (hist_ctx k (zero_col L) (seen lib h @ c)) = map (map (cl_out lib)) (hist_ctx k (zero_col L) (h @ c))"
proof -
  have "map (map (cl_out lib)) (seen lib h) = map (map (cl_out lib)) h"
    using assms by (simp add: seen_def conv_casts_def comp_def)
  then show ?thesis by (simp add: hist_ctx_map)
qed

lemma read_streams:
  assumes R: "streams_stored lib L st h" and casts: "conv_casts lib" and es: "\<forall>s\<in>set es. s < length st"
  defines "history \<equiv> map (map (map (cl_in lib))) (index_select st es)"
  shows "select_rows st es = Inr (index_select st es)" and "length history = length es"
    and "\<forall>x\<in>set history. length x = short_conv_state_len L"
    and "\<forall>k<length es. es ! k \<noteq> 0 \<longrightarrow> history ! k = hist_ctx (short_conv_state_len L) (zero_col L) (seen lib (h (es ! k)))"
proof -
  show "select_rows st es = Inr (index_select st es)" using es by (auto simp: select_rows_def not_le)
  show "length history = length es" by (simp add: history_def)
  have nth: "history ! k = map (map (cl_in lib)) (st ! (es ! k))" if "k < length es" for k using that by (simp add: history_def)
  show "\<forall>x\<in>set history. length x = short_conv_state_len L"
    using R es by (auto simp: history_def index_select_def streams_stored_def)
  show "\<forall>k<length es. es ! k \<noteq> 0 \<longrightarrow> history ! k = hist_ctx (short_conv_state_len L) (zero_col L) (seen lib (h (es ! k)))"
  proof (intro allI impI)
    fix k assume k: "k < length es" "es ! k \<noteq> 0"
    then have "st ! (es ! k) = map (map (cl_out lib)) (hist_ctx (short_conv_state_len L) (zero_col L) (h (es ! k)))"
      using R es unfolding streams_stored_def by simp
    then show "history ! k = hist_ctx (short_conv_state_len L) (zero_col L) (seen lib (h (es ! k)))"
      unfolding nth[OF k(1)] using casts by (simp add: hist_ctx_map seen_def comp_def conv_casts_def)
  qed
qed

lemma scatter_rows: "r \<in> set (scatter xs ivs) \<Longrightarrow> r \<in> set xs \<or> r \<in> snd ` set ivs"
proof (induction ivs arbitrary: xs)
  case (Cons iv ivs)
  obtain i v where iv: "iv = (i, v)" by (cases iv)
  have "r \<in> set (xs[i := v]) \<or> r \<in> snd ` set ivs" using Cons.IH[of "xs[i := v]"] Cons.prems iv by simp
  then show ?case using set_update_subset_insert[of xs i v] iv by auto
qed simp

lemma store_streams:
  assumes casts: "conv_casts lib" and R: "streams_stored lib L st g"
    and idx: "\<forall>i\<in>set is. i < length st" "live_distinct is" "length is = length cs"
    and hist: "\<forall>k<length cs. es ! k \<noteq> 0 \<longrightarrow> history ! k = hist_ctx (short_conv_state_len L) (zero_col L) (seen lib (h (es ! k)))"
    and live: "\<forall>k<length cs. is ! k \<noteq> 0 \<longrightarrow> es ! k \<noteq> 0" and es: "length es = length cs" and st: "length starts = length cs"
    and rows: "length rows = length cs" "\<forall>r\<in>set rows. length r = short_conv_state_len L"
      "\<And>q h. q < length cs \<Longrightarrow> history ! q = hist_ctx (short_conv_state_len L) (zero_col L) h \<Longrightarrow>
        rows ! q = hist_ctx (short_conv_state_len L) (zero_col L) (h @ take (starts ! q) (cs ! q))"
  shows "\<exists>st'. store_rows st is (map (map (map (cl_out lib))) rows) = Inr st' \<and> length st' = length st \<and>
    streams_stored lib L st' (assign is (map2 (\<lambda>(s, c) k. h s @ take k c) (zip es cs) starts) g)"
proof -
  let ?S = "short_conv_state_len L" and ?vals = "map (map (map (cl_out lib))) rows"
  let ?vs = "map2 (\<lambda>(s, c) k. h s @ take k c) (zip es cs) starts" and ?st = "scatter st (zip is (map (map (map (cl_out lib))) rows))"
  have l: "length ?vals = length is" "length ?vs = length is" using rows(1) idx(3) es st by simp_all
  have wid: "\<forall>r\<in>set ?vals. length r = ?S" using rows(2) by simp
  have fit: "\<not> (\<exists>(i, v)\<in>set (zip is ?vals). length (st ! i) \<noteq> length v)"
  proof
    assume "\<exists>(i, v)\<in>set (zip is ?vals). length (st ! i) \<noteq> length v"
    then obtain i v where iv: "(i, v) \<in> set (zip is ?vals)" "length (st ! i) \<noteq> length v" by blast
    have "i < length st" using idx(1) set_zip_leftD[OF iv(1)] by blast
    then have "length (st ! i) = ?S" using R nth_mem by (simp add: streams_stored_def)
    then show False using iv(2) wid[rule_format, OF set_zip_rightD[OF iv(1)]] by simp
  qed
  have run: "store_rows st is ?vals = Inr ?st"
    unfolding store_rows_def expand_rows_def l(1) if_P[OF refl] res_bind_simps if_not_P[OF fit] using idx(1) by (auto simp: not_le)
  have cell: "?st ! j = map (map (cl_out lib)) (hist_ctx ?S (zero_col L) (assign is ?vs g j))" if j: "0 < j" "j < length st" for j
  proof (cases "j \<in> set is")
    case True
    then obtain k where k: "k < length is" "is ! k = j" by (auto simp: in_set_conv_nth)
    then have "\<forall>k'<length is. is ! k' = is ! k \<longrightarrow> k' = k" using live_distinct_nth[OF idx(2) k(1)] j(1) by blast
    then have "?st ! j = ?vals ! k" using nth_scatter_unique[OF k(1) l(1)] k(2) j(2) by blast
    also have "\<dots> = map (map (cl_out lib)) (hist_ctx ?S (zero_col L) (seen lib (h (es ! k)) @ take (starts ! k) (cs ! k)))"
      using rows(1,3) hist live k j(1) idx(3) by simp
    also have "\<dots> = map (map (cl_out lib)) (hist_ctx ?S (zero_col L) (?vs ! k))"
      unfolding out_seen[OF casts] using k idx(3) es st by simp
    also have "?vs ! k = assign is ?vs g j" using assign_nth[OF idx(2) k(1) l(2)] k(2) j(1) by simp
    finally show ?thesis .
  next
    case False
    then have "j \<notin> fst ` set (zip is ?vals)" by (auto dest: set_zip_leftD)
    then show ?thesis using R j False by (simp add: nth_scatter_notin assign_notin streams_stored_def)
  qed
  have "length row = ?S" if row: "row \<in> set ?st" for row
  proof -
    have "row \<in> set st \<or> row \<in> set ?vals" using scatter_rows[OF row] by (auto dest: set_zip_rightD)
    then show ?thesis using R wid unfolding streams_stored_def by blast
  qed
  then show ?thesis using run cell by (auto simp: streams_stored_def)
qed

section \<open>A forward of the layer\<close>

lemma same_lengths: "map length xs = map length cs \<Longrightarrow> length xs = length cs \<and> length (concat xs) = length (concat cs) \<and>
    (concat xs = [] \<longleftrightarrow> concat cs = []) \<and> ((\<forall>x\<in>set xs. P (length x)) \<longleftrightarrow> (\<forall>c\<in>set cs. P (length c)))"
proof -
  assume e: "map length xs = map length cs"
  have l: "length (concat xs) = length (concat cs)" unfolding length_concat e ..
  have "length ` set xs = length ` set cs" using arg_cong[OF e, of set] by simp
  then have "(\<forall>x\<in>set xs. P (length x)) \<longleftrightarrow> (\<forall>c\<in>set cs. P (length c))" by (metis (no_types, lifting) imageE imageI)
  moreover have "concat xs = [] \<longleftrightarrow> concat cs = []" using l by (metis length_0_conv)
  ultimately show ?thesis using l map_eq_imp_length_eq[OF e] by blast
qed

text \<open>What a prepared batch of chunks holds, whether or not the model hashes n-grams.\<close>

lemma prepared_batch:
  assumes b: "batch_of fb m input cs" "length cs \<le> length (fb_req_idx fb)" and es: "live_slots P fb m cs = Inr es"
    and prep: "prepare_ple_batch ops fusion uid P input fb ngram eos = Inr (P1, Some b)"
  obtains width where "pb_mode b = m" "pb_lengths b = map length cs" "pb_row_width b = width" "pb_state b = es"
    "zip (pb_req b) (pb_off b) = layout_from 0 (map length cs)" "length (pb_req b) = length (concat cs)"
    "length (pb_off b) = length (concat cs)" "\<forall>c\<in>set cs. length c \<le> width"
    "pb_fast b \<Longrightarrow> m = Decode \<and> width = 1 \<and> (\<forall>c\<in>set cs. length c = 1)"
    "pb_physical b = length input" "pb_processed b = length (concat cs)" "pb_valid b = replicate (length (concat cs)) True"
proof -
  obtain width req off where lay: "ple_layout fb m (length (concat cs)) = Inr (map length cs, width, req, off)"
    "zip req off = layout_from 0 (map length cs)" "length req = length (concat cs)" "length off = length (concat cs)"
    "\<forall>c\<in>set cs. length c \<le> width" "m = Decode \<Longrightarrow> width = 1" using batch_layout[OF b(1)] by blast
  have m: "m \<noteq> Target_Verify" "m \<noteq> Idle" "get_ple_forward_mode fb = m" "ple_guards fb = Inr ()"
    "get_processed_token_count fb (length input) = Inr (length (concat cs))" using b(1) by (auto simp: batch_of_def)
  have one: "m = Decode \<Longrightarrow> \<forall>c\<in>set cs. length c = 1" using b(1) by (auto simp: batch_of_def)
  obtain B where B: "prepare_ple_batch ops False uid P input fb ngram eos = Inr (P1, Some B)"
    "b = pb_fast_update (\<lambda>f. f \<or> fusion \<and> m = Decode) B"
    using prep unfolding prepare_any[OF b, of ops fusion] by (auto simp: map_sum_Inr_iff map_option_case split: option.splits)
  have st: "ple_state_indices False fb m (length (concat cs)) (map length cs) width
      (get_mamba_indices (P\<lparr>ple_window_cache := None\<rparr>) (take (length cs) (fb_req_idx fb))) = Inr es"
    using es m(1) unfolding live_slots_def by (subst state_indices_width) (simp_all add: get_mamba_indices_def)
  define valid where "valid = map2 (\<lambda>p q. p < map length cs ! q) off req"
  have all: "valid = replicate (length (concat cs)) True" unfolding valid_def using valid_all[OF lay(2)] lay(3,4) by simp
  define ctx where "ctx = (case ngram of None \<Rightarrow> Inr None
      | Some g \<Rightarrow> (case eos of None \<Rightarrow> Inl AssertionError
         | Some e \<Rightarrow> map_sum id Some (ple_context ops (ngram_pool P) g e False (length cs) width req off valid
             (take (length (concat cs)) input) es)))"
  have "prepare_ple_batch ops False uid P input fb ngram eos = res_bind ctx (\<lambda>context.
      Inr (P\<lparr>ple_window_cache := None\<rparr>, Some \<lparr>pb_uid = uid, pb_mode = m, pb_fast = False, pb_physical = length input,
        pb_processed = length (concat cs), pb_lengths = map length cs, pb_row_width = width, pb_req = req, pb_off = off,
        pb_valid = valid, pb_state = es, pb_context = context, pb_eos = eos\<rparr>))"
    using st m(2) by (simp add: prepare_ple_batch_def Let_def m(3-5) lay(1) valid_def[symmetric] ctx_def cong: option.case_cong del: length_concat nth_map)
  then have f: "pb_mode B = m" "pb_lengths B = map length cs" "pb_row_width B = width" "pb_state B = es" "pb_req B = req"
      "pb_off B = off" "\<not> pb_fast B" "pb_physical B = length input" "pb_processed B = length (concat cs)" "pb_valid B = valid"
    using B(1) by (cases ctx; force)+
  show thesis
  proof (rule that[of width])
    show "pb_fast b \<Longrightarrow> m = Decode \<and> width = 1 \<and> (\<forall>c\<in>set cs. length c = 1)"
      unfolding B(2) using f(7) lay(6) one by simp
  qed (use f lay(2-5) all in \<open>simp_all add: B(2) del: length_concat\<close>)
qed

text \<open>The values of the batch as rows: the shared tail of both paths.\<close>

definition conv_tail ::
  "conv_lib \<Rightarrow> conv_layer \<Rightarrow> fwd_batch \<Rightarrow> ple_batch \<Rightarrow> column list list \<Rightarrow> column list list \<Rightarrow> column list list result" where
  "conv_tail lib L fb b st rows =
     (let span = short_conv_state_len L; out = map (map (map (cl_out lib)))
      in res_bind (gather_slice span rows (pb_lengths b)) (\<lambda>nxt.
         res_bind (store_rows st (pb_state b) (out nxt)) (\<lambda>st1.
         res_bind (ple_track_targets fb b) (\<lambda>track.
           case track of None \<Rightarrow> Inr st1
           | Some (dst, starts) \<Rightarrow> res_bind (gather_slice span rows starts) (\<lambda>r. store_rows st1 dst (out r))))))"

lemma conv_tail_streams:
  assumes casts: "conv_casts lib" and R: "streams_stored lib L st h"
    and b: "pb_lengths b = map length xs" "pb_state b = es"
    and es: "length es = length xs" "live_distinct es" "\<forall>s\<in>set es. s < length st"
    and hist: "length history = length xs" "\<forall>x\<in>set history. length x = short_conv_state_len L"
      "\<forall>k<length xs. es ! k \<noteq> 0 \<longrightarrow> history ! k = hist_ctx (short_conv_state_len L) (zero_col L) (seen lib (h (es ! k)))"
    and w: "\<forall>c\<in>set xs. length c \<le> w"
    and track: "ple_track_targets fb b = Inr tr" "track_ok (length st) es xs tr"
  shows "\<exists>st'. conv_tail lib L fb b st (ctx_rows w (zero_col L) history xs) = Inr st' \<and>
    streams_stored lib L st' (snapshot es xs tr h (advance es xs h))"
proof -
  let ?S = "short_conv_state_len L" and ?z = "zero_col L"
  obtain rows where rows: "gather_slice ?S (ctx_rows w ?z history xs) (map length xs) = Inr rows" "length rows = length xs"
    "\<forall>r\<in>set rows. length r = ?S"
    "\<And>q h. q < length xs \<Longrightarrow> history ! q = hist_ctx ?S ?z h \<Longrightarrow> rows ! q = hist_ctx ?S ?z (h @ take (map length xs ! q) (xs ! q))"
    by (rule gather_slice_rows[OF hist(2,1) w, of "map length xs" ?z]) simp_all
  have adv: "map2 (\<lambda>(s, c) k. h s @ take k c) (zip es xs) (map length xs) = map2 (\<lambda>s c. h s @ c) es xs"
    by (rule nth_equalityI) (simp_all add: es(1))
  have "\<exists>st1. store_rows st es (map (map (map (cl_out lib))) rows) = Inr st1 \<and> length st1 = length st \<and>
      streams_stored lib L st1 (assign es (map2 (\<lambda>(s, c) k. h s @ take k c) (zip es xs) (map length xs)) h)"
    by (rule store_streams[OF casts R es(3,2,1) hist(3) _ es(1) _ rows(2,3,4)]) simp_all
  then obtain st1 where st1: "store_rows st es (map (map (map (cl_out lib))) rows) = Inr st1" "length st1 = length st"
    "streams_stored lib L st1 (advance es xs h)" unfolding adv advance_def by blast
  show ?thesis
  proof (cases tr)
    case None
    then show ?thesis using st1 track(1) b rows(1) by (simp add: conv_tail_def snapshot_def)
  next
    case (Some ds)
    then obtain dst starts where ds: "tr = Some (dst, starts)" by (cases ds) auto
    then have t: "length dst = length xs" "length starts = length xs" "live_distinct dst" "\<forall>d\<in>set dst. d < length st1"
        "\<forall>q<length xs. starts ! q \<le> length (xs ! q)" "\<forall>q<length xs. dst ! q \<noteq> 0 \<longrightarrow> es ! q \<noteq> 0"
      using track(2) st1(2) by (auto simp: track_ok_def)
    obtain rows2 where rows2: "gather_slice ?S (ctx_rows w ?z history xs) starts = Inr rows2" "length rows2 = length xs"
      "\<forall>r\<in>set rows2. length r = ?S"
      "\<And>q h. q < length xs \<Longrightarrow> history ! q = hist_ctx ?S ?z h \<Longrightarrow> rows2 ! q = hist_ctx ?S ?z (h @ take (starts ! q) (xs ! q))"
      by (rule gather_slice_rows[OF hist(2,1) w t(2,5), of ?z]) simp_all
    obtain st2 where "store_rows st1 dst (map (map (map (cl_out lib))) rows2) = Inr st2"
      "streams_stored lib L st2 (assign dst (map2 (\<lambda>(s, c) k. h s @ take k c) (zip es xs) starts) (advance es xs h))"
      using store_streams[OF casts st1(3) t(4,3,1) hist(3) t(6) es(1) t(2) rows2(2,3,4)] by blast
    then show ?thesis using st1(1) track(1) ds b rows(1) rows2(1) by (simp add: conv_tail_def snapshot_def)
  qed
qed

text \<open>Both paths run the convolution over the rows and store the tail.\<close>

lemma general_path:
  assumes b: "pb_mode b \<noteq> Target_Verify" "pb_lengths b = map length xs" "pb_row_width b = w"
    and z: "zip (pb_req b) (pb_off b) = layout_from 0 (map length xs)" "length (pb_req b) = length (concat xs)"
    and w: "\<forall>c\<in>set xs. length c \<le> w"
    and s: "select_rows st (pb_state b) = Inr s" "length s = length xs"
    and rows: "rows = ctx_rows w (zero_col L) (map (map (map (cl_in lib))) s) xs" "conv1d lib L rows = Inr out"
    and tail: "conv_tail lib L fb b st rows = Inr st'"
  shows "short_conv_general lib L fb b st cache (concat xs) =
    Inr (st', cache, map2 (\<lambda>q p. map (cl_silu lib) (out ! q ! p)) (pb_req b) (pb_off b))"
proof -
  have vals: "expand_rows (length (pb_req b)) (concat xs) = Inr (concat xs)" unfolding expand_rows_def z(2) by simp
  have put: "put_tokens (zero_col L) (length (pb_lengths b)) w (pb_req b) (pb_off b) (concat xs) =
      Inr (map (\<lambda>c. c @ replicate (w - length c) (zero_col L)) xs)"
    using put_tokens_ok[OF z(1) w, of "zero_col L"] b(2) by simp
  have cat: "cat_rows (map (map (map (cl_in lib))) s) (map (\<lambda>c. c @ replicate (w - length c) (zero_col L)) xs) = Inr rows"
    using s(2) by (simp add: cat_rows_def rows(1) ctx_rows_def zip_map2 comp_def case_prod_unfold)
  obtain nxt st1 track where t: "gather_slice (short_conv_state_len L) rows (pb_lengths b) = Inr nxt"
    "store_rows st (pb_state b) (map (map (map (cl_out lib))) nxt) = Inr st1" "ple_track_targets fb b = Inr track"
    "(case track of None \<Rightarrow> Inr st1 | Some (dst, starts) \<Rightarrow> res_bind (gather_slice (short_conv_state_len L) rows starts)
       (\<lambda>r. store_rows st1 dst (map (map (map (cl_out lib))) r))) = Inr st'"
    using tail unfolding conv_tail_def Let_def by (auto simp: res_bind_Inr_iff)
  show ?thesis
    unfolding short_conv_general_def Let_def b(3) s(1) res_bind_simps vals put cat rows(2) if_not_P[OF b(1)] t by simp
qed

lemma fast_path:
  assumes b: "pb_mode b = Decode" "pb_row_width b = 1" "pb_lengths b = map length xs" and one: "\<forall>c\<in>set xs. length c = 1"
    and z: "zip (pb_req b) (pb_off b) = layout_from 0 (map length xs)" "length (pb_req b) = length (concat xs)"
    and fused: "fused_ok lib"
    and s: "select_rows st (pb_state b) = Inr s" "length s = length xs" "\<forall>row\<in>set s. length row = short_conv_state_len L"
    and rows: "rows = ctx_rows 1 (zero_col L) (map (map (map (cl_in lib))) s) xs" "conv1d lib L rows = Inr out"
      "length out = length xs" "\<forall>q<length xs. length (out ! q) = 1"
    and tail: "conv_tail lib L fb b st rows = Inr st'"
  shows "short_conv_fast lib L fb b st (concat xs) =
    Inr (st', map2 (\<lambda>q p. map (cl_silu lib) (out ! q ! p)) (pb_req b) (pb_off b))"
proof -
  let ?S = "short_conv_state_len L" and ?h = "map (map (map (cl_in lib))) s" and ?o = "map (map (map (cl_out lib)))"
  have xs: "map (\<lambda>col. [col]) (concat xs) = xs" using one
  proof (induction xs)
    case (Cons c cs)
    then show ?case by (cases c) auto
  qed simp
  have "map2 (@) ?h xs = rows" using one s(2) unfolding rows(1) ctx_rows_def by (intro nth_equalityI) simp_all
  then have cat: "cat_rows ?h xs = Inr rows" using s(2) by (simp add: cat_rows_def)
  have ml: "map length xs = replicate (length xs) 1" using one by (simp add: map_replicate_const[symmetric] del: map_replicate_const)
  have gs: "gather_slice ?S rows (pb_lengths b) = Inr (map (drop 1) rows)"
    unfolding b(3) rows(1) ml by (rule gather_slice_decode) (use one s in auto)
  obtain st1 track where t: "store_rows st (pb_state b) (?o (map (drop 1) rows)) = Inr st1" "ple_track_targets fb b = Inr track"
    "(case track of None \<Rightarrow> Inr st1 | Some (dst, starts) \<Rightarrow> res_bind (gather_slice ?S rows starts) (\<lambda>r. store_rows st1 dst (?o r))) = Inr st'"
    using tail gs unfolding conv_tail_def Let_def by (auto simp: res_bind_Inr_iff)
  have tr: "(case track of None \<Rightarrow> Inr st1 | Some (dst, starts) \<Rightarrow> store_rows st1 dst (?o (map (drop 1) rows))) = Inr st'"
  proof (cases track)
    case (Some ds)
    then obtain dst starts where ds: "track = Some (dst, starts)" by (cases ds) auto
    have "starts = pb_lengths b" using t(2) b(1) unfolding ds
      by (auto simp: ple_track_targets_def Let_def res_bind_Inr_iff split: option.splits)
    then show ?thesis using t(3) gs by (simp add: ds)
  qed (use t(3) in simp)
  have o1: "map (\<lambda>row. map (map (cl_out lib)) (drop 1 row)) rows = ?o (map (drop 1) rows)" by simp
  have start: "(case cl_fused lib st (pb_state b) (concat xs) of Some (st', input) \<Rightarrow> Inr (True, st', input)
       | None \<Rightarrow> res_bind (select_rows st (pb_state b)) (\<lambda>s. res_bind (cat_rows (map (map (map (cl_in lib))) s)
           (map (\<lambda>col. [col]) (concat xs))) (\<lambda>input. Inr (False, st, input)))) =
      (case cl_fused lib st (pb_state b) (concat xs) of Some _ \<Rightarrow> Inr (True, st1, rows) | None \<Rightarrow> Inr (False, st, rows))"
  proof (cases "cl_fused lib st (pb_state b) (concat xs)")
    case (Some r)
    obtain st2 input where r: "r = (st2, input)" by (cases r)
    have "Inr rows = (Inr input :: column list list result)" "store_rows st (pb_state b) (?o (map (drop 1) input)) = Inr st2"
      using fused[unfolded fused_ok_def, rule_format, OF Some[unfolded r]] s(1) cat unfolding xs by (simp_all add: comp_def)
    then show ?thesis using Some r t(1) by simp
  qed (use s(1) cat xs in simp)
  have out1: "\<not> (\<exists>row\<in>set out. length row \<noteq> 1)" using rows(3,4) by (auto simp: in_set_conv_nth)
  have n: "length (concat xs) = length xs" using one by (rule length_concat_ones)
  have ys: "map (\<lambda>row. map (cl_silu lib) (hd row)) out = map2 (\<lambda>q p. map (cl_silu lib) (out ! q ! p)) (pb_req b) (pb_off b)"
  proof (rule nth_equalityI)
    have "length (zip (pb_req b) (pb_off b)) = length xs" unfolding z(1) ml by (simp add: sum_list_replicate)
    then show "length (map (\<lambda>row. map (cl_silu lib) (hd row)) out) =
        length (map2 (\<lambda>q p. map (cl_silu lib) (out ! q ! p)) (pb_req b) (pb_off b))" using rows(3) by simp
    fix t assume "t < length (map (\<lambda>row. map (cl_silu lib) (hd row)) out)"
    then have t: "t < length xs" using rows(3) by simp
    have "zip (pb_req b) (pb_off b) = zip [0..<length xs] (replicate (length xs) 0)"
      unfolding z(1) ml using decode_layout_from[of 0 "length xs"] by simp
    then have zp: "map2 (\<lambda>q p. map (cl_silu lib) (out ! q ! p)) (pb_req b) (pb_off b) ! t = map (cl_silu lib) (out ! t ! 0)"
      using t by simp
    have "out ! t \<noteq> []" using rows(4) t by fastforce
    then show "map (\<lambda>row. map (cl_silu lib) (hd row)) out ! t =
        map2 (\<lambda>q p. map (cl_silu lib) (out ! q ! p)) (pb_req b) (pb_off b) ! t" unfolding zp using t rows(3) by (simp add: hd_conv_nth)
  qed
  show ?thesis
    unfolding short_conv_fast_def start b(2) using t(1)[folded o1] t(2) tr[folded o1] out1
    by (cases "cl_fused lib st (pb_state b) (concat xs)") (simp_all add: rows(2) ys del: One_nat_def)
qed

text \<open>The columns of a batch in the order of its tokens.\<close>

lemma token_values:
  assumes z: "zip req off = layout_from 0 (map length xs)" "length req = length (concat xs)" "length off = length (concat xs)"
    and q: "q < length xs" "p < length (xs ! q)"
  shows "length (concat (take q xs)) + p < length (concat xs)"
    and "map2 f req off ! (length (concat (take q xs)) + p) = f q p"
proof -
  let ?t = "length (concat (take q xs)) + p"
  have "concat xs = concat (take q xs) @ xs ! q @ concat (drop (Suc q) xs)"
    using q(1) by (metis concat.simps(2) concat_append id_take_nth_drop)
  then show t: "?t < length (concat xs)" using q(2) by simp
  have st: "?t = sum_list (take q (map length xs)) + p" by (simp add: length_concat take_map)
  have "zip req off ! ?t = (q, p)" unfolding z(1) st using layout_at[of q "map length xs" p 0] q by simp
  then show "map2 f req off ! ?t = f q p" using t z(2,3) by (simp del: length_concat)
qed

text \<open>
  The short convolution refines the convolution of the streams. Let every slot but the reserved one
  hold the last columns of the stream it has seen, \<open>h\<close>. A forward over the chunks \<open>xs\<close> (extend or
  decode, with or without the fused kernel, padded or not) gives every live token the causal dilated
  convolution of the whole stream of its slot at its position, and leaves every slot with the last
  columns of its stream extended by its chunk, and every track slot with those of the stream up to the
  tracked boundary.
\<close>

lemma short_conv_streams:
  assumes batch: "batch_of fb m input cs" "concat cs \<noteq> []" "length cs \<le> length (fb_req_idx fb)"
    and live: "live_slots P fb m cs = Inr es" "length es = length cs" "\<forall>s\<in>set es. s < length st" "live_distinct es"
    and prep: "prepare_ple_batch ops fusion uid P input fb ngram eos = Inr (P1, Some b)"
    and layer: "1 \<le> cv_kernel L" "conv_casts lib" "fused_ok lib"
    and R: "streams_stored lib L st h" and xs: "map length xs = map length cs"
    and track: "ple_track_targets fb b = Inr tr" "track_ok (length st) es xs tr"
  shows "\<exists>st' ys. short_conv lib L fb b st cache (concat xs) = Inr (st', cache, ys) \<and> length ys = length (concat xs) \<and>
    streams_stored lib L st' (snapshot es xs tr h (advance es xs h)) \<and>
    (\<forall>q<length xs. es ! q \<noteq> 0 \<longrightarrow> (\<forall>p<length (xs ! q). ys ! (length (concat (take q xs)) + p) =
      map (cl_silu lib) (conv_spec lib L (seen lib (h (es ! q)) @ xs ! q) (length (h (es ! q)) + p))))"
proof -
  obtain w where "pb_mode b = m" "pb_lengths b = map length cs" "pb_row_width b = w" "pb_state b = es"
    "zip (pb_req b) (pb_off b) = layout_from 0 (map length cs)" "length (pb_req b) = length (concat cs)"
    "length (pb_off b) = length (concat cs)" "\<forall>c\<in>set cs. length c \<le> w"
    "pb_fast b \<Longrightarrow> m = Decode \<and> w = 1 \<and> (\<forall>c\<in>set cs. length c = 1)"
    by (rule prepared_batch[OF batch(1,3) live(1) prep]) (rule that)
  then have b: "pb_mode b = m" "pb_lengths b = map length xs" "pb_row_width b = w" "pb_state b = es"
    "zip (pb_req b) (pb_off b) = layout_from 0 (map length xs)" "length (pb_req b) = length (concat xs)"
    "length (pb_off b) = length (concat xs)" "\<forall>c\<in>set xs. length c \<le> w"
    "pb_fast b \<Longrightarrow> m = Decode \<and> w = 1 \<and> (\<forall>c\<in>set xs. length c = 1)"
    using same_lengths[OF xs, of "\<lambda>n. n \<le> w"] same_lengths[OF xs, of "\<lambda>n. n = 1"] unfolding xs by presburger+
  have lx: "length xs = length cs" "concat xs \<noteq> []" using same_lengths[OF xs] batch(2) by simp_all
  let ?s = "index_select st es" and ?h = "map (map (map (cl_in lib))) (index_select st es)"
  note r = read_streams[OF R layer(2) live(3)]
  have lh: "length ?h = length xs" using r(2) live(2) lx(1) by simp
  have hist: "\<forall>k<length xs. es ! k \<noteq> 0 \<longrightarrow> ?h ! k = hist_ctx (short_conv_state_len L) (zero_col L) (seen lib (h (es ! k)))"
    using r(4) live(2) lx(1) by simp
  have w0: "0 < w" using lx(2) b(8) by (cases w) auto
  obtain out where out: "conv1d lib L (ctx_rows w (zero_col L) ?h xs) = Inr out" "length out = length xs"
    "\<forall>q<length xs. length (out ! q) = w"
    "\<And>q p h. q < length xs \<Longrightarrow> p < length (xs ! q) \<Longrightarrow> zero_col L = zero_col L \<Longrightarrow>
      ?h ! q = hist_ctx (short_conv_state_len L) (zero_col L) h \<Longrightarrow> out ! q ! p = conv_spec lib L (h @ xs ! q) (length h + p)"
    by (rule conv1d_rows[where lib = lib and z = "zero_col L", OF layer(1) lh r(3) b(8) w0], rule that)
  have es: "length es = length xs" using live(2) lx(1) by simp
  obtain st' where st': "conv_tail lib L fb b st (ctx_rows w (zero_col L) ?h xs) = Inr st'"
    "streams_stored lib L st' (snapshot es xs tr h (advance es xs h))"
    using conv_tail_streams[OF layer(2) R b(2,4) es live(4,3) lh r(3) hist b(8) track] by blast
  let ?ys = "map2 (\<lambda>q p. map (cl_silu lib) (out ! q ! p)) (pb_req b) (pb_off b)"
  have sel: "select_rows st (pb_state b) = Inr ?s" "length ?s = length xs" using r(1) b(4) es by simp_all
  have run: "short_conv lib L fb b st cache (concat xs) = Inr (st', cache, ?ys)"
  proof (cases "pb_fast b")
    case True
    then have d: "pb_mode b = Decode" "w = 1" "\<forall>c\<in>set xs. length c = 1" using b(1,9) by blast+
    have S: "\<forall>row\<in>set ?s. length row = short_conv_state_len L" using r(3) by simp
    have "short_conv_fast lib L fb b st (concat xs) = Inr (st', ?ys)"
      by (rule fast_path[OF d(1) _ b(2) d(3) b(5,6) layer(3) sel S refl _ out(2)]) (use b(3) out(1,3) st'(1) d(2) in simp_all)
    then show ?thesis unfolding short_conv_def if_not_P[OF lx(2)] if_P[OF True] by simp
  next
    case False
    have m: "pb_mode b \<noteq> Target_Verify" using b(1) batch(1) by (auto simp: batch_of_def)
    show ?thesis unfolding short_conv_def if_not_P[OF lx(2)] if_not_P[OF False]
      by (rule general_path[OF m b(2,3,5,6,8) sel refl out(1) st'(1)])
  qed
  have "?ys ! (length (concat (take q xs)) + p) =
      map (cl_silu lib) (conv_spec lib L (seen lib (h (es ! q)) @ xs ! q) (length (h (es ! q)) + p))"
    if q: "q < length xs" "es ! q \<noteq> 0" "p < length (xs ! q)" for q p
    unfolding token_values(2)[OF b(5-7) q(1,3)] using out(4)[OF q(1,3) refl hist[rule_format, OF q(1,2)]] by simp
  then show ?thesis using run st'(2) b(6,7) by (intro exI[of _ st'] exI[of _ ?ys]) (simp del: length_concat)
qed

text \<open>A kernel that reads the column two back; two requests, with a snapshot of the second after its first token.\<close>

definition demo_layer :: conv_layer where
  "demo_layer = \<lparr>cv_kernel = 2, cv_dilation = 2, cv_channels = 1, cv_weight = [[2, 1]]\<rparr>"

definition demo_conv :: conv_lib where
  "demo_conv = \<lparr>cl_in = id, cl_out = id, cl_weight = id, cl_step = id, cl_silu = (\<lambda>v. v * v), cl_fused = (\<lambda>_ _ _. None)\<rparr>"

lemma demo_conv_ok: "conv_casts demo_conv" "fused_ok demo_conv" "1 \<le> cv_kernel demo_layer" "short_conv_state_len demo_layer = 2"
  "cv_channels demo_layer = 1"
  by (simp_all add: conv_casts_def fused_ok_def demo_conv_def demo_layer_def short_conv_state_len_def)

lemma demo_streams: "streams_stored demo_conv demo_layer (replicate 5 [[0], [0]]) (\<lambda>_. [])"
  by (simp add: streams_stored_def demo_conv_ok hist_ctx_def numeral_2_eq_2 demo_conv_def)

lemma demo_prepared:
  obtains P1 B where "prepare_ple_batch table_ops True 0 demo_pool [5, 9, 4, 0] demo_batch None None = Inr (P1, Some B)"
    "pb_mode B = Extend" "ple_track_targets demo_batch B = Inr (Some ([0, 4], [0, 1]))"
proof -
  let ?p = "prepare_ple_batch table_ops True 0 demo_pool [5, 9, 4, 0] demo_batch None None"
  have "is_ok ?p" "snd (ok_or (demo_pool, None) ?p) \<noteq> None" by code_simp+
  then obtain P1 B where p: "?p = Inr (P1, Some B)" by (cases ?p) auto
  have b: "batch_of demo_batch Extend [5, 9, 4, 0] [[5], [9, 4]]" by code_simp
  have l: "live_slots demo_pool demo_batch Extend [[5], [9, 4]] = Inr [1, 3]" by code_simp
  have f: "pb_mode B = Extend" "pb_lengths B = [1, 2]"
    by (rule prepared_batch[OF b _ l p]; simp add: demo_batch_def)+
  have "ple_track_targets demo_batch B = Inr (Some ([0, 4], [0, 1]))"
    by (simp add: ple_track_targets_def demo_batch_def where_or_0_def bcast_def f)
  then show thesis by (rule that[OF p f(1)])
qed

section \<open>Verification\<close>

lemma prepared_verify:
  assumes v: "verify_of fb input w ds ls"
    and es: "ple_state_indices False fb Target_Verify (length ds * w) ls w
      (get_mamba_indices P (take (length ds) (fb_req_idx fb))) = Inr es"
    and prep: "prepare_ple_batch ops fusion uid P input fb ngram eos = Inr (P1, Some b)"
  shows "pb_mode b = Target_Verify" "\<not> pb_fast b" "pb_lengths b = ls" "pb_row_width b = w" "pb_state b = es"
    "pb_req b = map (\<lambda>t. t div w) [0..<length ds * w]" "pb_off b = map (\<lambda>t. t - t div w * w) [0..<length ds * w]"
    "pb_valid b = concat (map (\<lambda>l. map (\<lambda>p. p < l) [0..<w]) ls)"
proof -
  let ?n = "length ds * w"
  let ?req = "map (\<lambda>t. t div w) [0..<?n]" and ?off = "map (\<lambda>t. t - t div w * w) [0..<?n]"
  have a: "ple_guards fb = Inr ()" "get_ple_forward_mode fb = Target_Verify" "get_processed_token_count fb (length input) = Inr ?n"
    "length ls = length ds" using v by (auto simp: verify_of_def)
  have fast: "(fusion \<and> Target_Verify = Decode) = False" "(Target_Verify = Idle) = False" by simp_all
  have valid: "map2 (\<lambda>p q. p < ls ! q) ?off ?req = concat (map (\<lambda>l. map (\<lambda>p. p < l) [0..<w]) ls)"
    unfolding a(4)[symmetric] by (rule verify_valid)
  have st: "ple_state_indices False fb Target_Verify ?n ls w
      (get_mamba_indices (P\<lparr>ple_window_cache := None\<rparr>) (take (length ls) (fb_req_idx fb))) = Inr es"
    using es a(4) by (simp add: get_mamba_indices_def)
  define ctx where "ctx = (case ngram of None \<Rightarrow> Inr None
      | Some g \<Rightarrow> (case eos of None \<Rightarrow> Inl AssertionError
         | Some e \<Rightarrow> map_sum id Some (ple_context ops (ngram_pool (P\<lparr>ple_window_cache := None\<rparr>)) g e False (length ls) w ?req ?off
             (concat (map (\<lambda>l. map (\<lambda>p. p < l) [0..<w]) ls)) (take ?n input) es)))"
  have "prepare_ple_batch ops fusion uid P input fb ngram eos = res_bind ctx (\<lambda>context.
      Inr (P\<lparr>ple_window_cache := None\<rparr>, Some \<lparr>pb_uid = uid, pb_mode = Target_Verify, pb_fast = False, pb_physical = length input,
        pb_processed = ?n, pb_lengths = ls, pb_row_width = w, pb_req = ?req, pb_off = ?off,
        pb_valid = concat (map (\<lambda>l. map (\<lambda>p. p < l) [0..<w]) ls), pb_state = es, pb_context = context, pb_eos = eos\<rparr>))"
    unfolding prepare_ple_batch_def Let_def a(1-3) res_bind_simps fast if_False verify_layout_ok[OF v] prod.case valid st ctx_def ..
  then show "pb_mode b = Target_Verify" "\<not> pb_fast b" "pb_lengths b = ls" "pb_row_width b = w" "pb_state b = es"
    "pb_req b = ?req" "pb_off b = ?off" "pb_valid b = concat (map (\<lambda>l. map (\<lambda>p. p < l) [0..<w]) ls)"
    using prep by (cases ctx; force)+
qed

lemma chunks_valid: "chunks w (length ls) (concat (map (\<lambda>l. map (\<lambda>p. p < l) [0..<w]) ls)) = map (\<lambda>l. map (\<lambda>p. p < l) [0..<w]) ls"
  by (induction ls) simp_all

text \<open>The states after every step of a verification batch.\<close>

lemma conv_steps_rows:
  assumes b: "pb_lengths b = ls" "pb_row_width b = w" "pb_valid b = concat (map (\<lambda>l. map (\<lambda>p. p < l) [0..<w]) ls)"
    and len: "length ls = length xs" "length history = length xs"
    and h: "\<forall>x\<in>set history. length x = short_conv_state_len L" and w: "\<forall>x\<in>set xs. length x = w"
  obtains steps where "conv_steps L b (map2 (@) history xs) = Inr steps" "length steps = length xs"
    "\<forall>q<length xs. length (steps ! q) = w"
    "\<And>q j g. q < length xs \<Longrightarrow> j < w \<Longrightarrow> history ! q = hist_ctx (short_conv_state_len L) (zero_col L) g \<Longrightarrow>
      steps ! q ! j = (if j < ls ! q then hist_ctx (short_conv_state_len L) (zero_col L) (g @ take (Suc j) (xs ! q))
                       else replicate (short_conv_state_len L) (zero_col L))"
proof -
  let ?S = "short_conv_state_len L" and ?z = "replicate (short_conv_state_len L) (zero_col L)"
  define wins where "wins row = (if ?S = 0 then replicate w [] else take w (drop 1 (unfold_rows ?S row)))" for row :: "column list"
  define steps where "steps = map2 (\<lambda>row vs. map2 (\<lambda>win v. if v then win else ?z) (wins row) vs) (map2 (@) history xs)
      (map (\<lambda>l. map (\<lambda>p. p < l) [0..<w]) ls)"
  have "length (concat (map (\<lambda>l. map (\<lambda>p. p < l) [0..<w]) ls)) = length ls * w"
    by (simp add: length_concat comp_def sum_list_triv)
  then have run: "conv_steps L b (map2 (@) history xs) = Inr steps"
    by (simp only: conv_steps_def Let_def b chunks_valid steps_def wins_def not_True_eq_False if_False refl simp_thms)
  have row: "map2 (@) history xs ! q = history ! q @ xs ! q" "length (history ! q) = ?S" "length (xs ! q) = w" if "q < length xs" for q
    using that len h w by simp_all
  have nth: "steps ! q = map2 (\<lambda>win v. if v then win else ?z) (wins (history ! q @ xs ! q)) (map (\<lambda>p. p < ls ! q) [0..<w])"
    if "q < length xs" for q using that len by (simp add: steps_def)
  have lw: "length (wins (history ! q @ xs ! q)) = w" if "q < length xs" for q
    using row[OF that] by (simp add: wins_def unfold_rows_def) arith
  have win: "wins (history ! q @ xs ! q) ! j = hist_ctx ?S (zero_col L) (g @ take (Suc j) (xs ! q))"
    if q: "q < length xs" "j < w" "history ! q = hist_ctx ?S (zero_col L) g" for q j g
  proof (cases "?S = 0")
    case True
    then show ?thesis using q(2) by (simp add: wins_def hist_ctx_def)
  next
    case False
    have lu: "length (unfold_rows ?S (history ! q @ xs ! q)) = Suc w" using row[OF q(1)] by (simp add: unfold_rows_def)
    have "wins (history ! q @ xs ! q) ! j = take ?S (drop (Suc j) (history ! q @ xs ! q @ []))"
      using False q(2) row[OF q(1)] lu by (simp add: wins_def unfold_nth)
    also have "\<dots> = hist_ctx ?S (zero_col L) (g @ take (Suc j) (xs ! q))"
      unfolding q(3) by (rule hist_ctx_slice) (use q(2) row(3)[OF q(1)] in simp)
    finally show ?thesis .
  qed
  show thesis
  proof (rule that[OF run])
    show "length steps = length xs" using len by (simp add: steps_def)
    show "\<forall>q<length xs. length (steps ! q) = w" using nth lw by simp
    show "steps ! q ! j = (if j < ls ! q then hist_ctx ?S (zero_col L) (g @ take (Suc j) (xs ! q)) else ?z)"
      if q: "q < length xs" "j < w" "history ! q = hist_ctx ?S (zero_col L) g" for q j g
      using nth[OF q(1)] lw[OF q(1)] win[OF q] q(2) by simp
  qed
qed

text \<open>
  C28: a verification forward leaves the state as it is and stores, for every draft position of every
  live row, the last columns of the stream that accepts the drafts up to and including it (zero
  columns for the positions that are padding), so that any accepted prefix finds its state; every
  draft is given the convolution of its stream at its position.
\<close>

theorem short_conv_stores_every_prefix:
  assumes v: "verify_of fb input w ds ls" "ds \<noteq> []"
    and es: "ple_state_indices False fb Target_Verify (length ds * w) ls w
      (get_mamba_indices P (take (length ds) (fb_req_idx fb))) = Inr es" "length es = length ds" "\<forall>s\<in>set es. s < length st"
    and prep: "prepare_ple_batch ops fusion uid P input fb ngram eos = Inr (P1, Some b)"
    and layer: "1 \<le> cv_kernel L" "conv_casts lib"
    and R: "streams_stored lib L st h" and xs: "length xs = length ds" "\<forall>x\<in>set xs. length x = w"
    and cache: "length xs \<le> length cache" "\<forall>row\<in>set cache. w \<le> length row"
  shows "\<exists>cache' ys. short_conv lib L fb b st (Some cache) (concat xs) = Inr (st, Some cache', ys) \<and>
    (\<forall>q<length xs. es ! q \<noteq> 0 \<longrightarrow> (\<forall>j<w. cache' ! q ! j = map (map (cl_step lib))
       (if j < ls ! q then hist_ctx (short_conv_state_len L) (zero_col L) (seen lib (h (es ! q)) @ take (Suc j) (xs ! q))
        else replicate (short_conv_state_len L) (zero_col L)) \<and>
      ys ! (q * w + j) = map (cl_silu lib) (conv_spec lib L (seen lib (h (es ! q)) @ xs ! q) (length (h (es ! q)) + j))))"
proof -
  let ?S = "short_conv_state_len L" and ?s = "index_select st es"
  let ?h = "map (map (map (cl_in lib))) (index_select st es)"
  note b = prepared_verify[OF v(1) es(1) prep]
  have a: "0 < w" "length ls = length xs" "length ds = length xs" using v(1) xs(1) by (auto simp: verify_of_def)
  have ne: "concat xs \<noteq> []" using v(2) xs a(1) by (cases xs) auto
  note r = read_streams[OF R layer(2) es(3)]
  have lh: "length ?h = length xs" "length ?s = length xs" using r(2) es(2) a(3) by simp_all
  have hist: "?h ! q = hist_ctx ?S (zero_col L) (seen lib (h (es ! q)))" if "q < length xs" "es ! q \<noteq> 0" for q
    using r(4) es(2) a(3) that by simp
  have ml: "map length xs = replicate (length xs) w" using xs(2) by (intro nth_equalityI) simp_all
  have z: "zip (pb_req b) (pb_off b) = layout_from 0 (map length xs)" "length (pb_req b) = length (concat xs)"
    "length (pb_off b) = length (concat xs)"
    unfolding b(6,7) ml a(3) length_concat by (simp_all add: verify_layout_from sum_list_replicate)
  have cl: "\<forall>c\<in>set xs. length c \<le> w" using xs(2) by simp
  have rows: "map2 (@) ?h xs = ctx_rows w (zero_col L) ?h xs" using xs(2) lh by (intro nth_equalityI) (simp_all add: ctx_rows_def)
  obtain out where out: "conv1d lib L (ctx_rows w (zero_col L) ?h xs) = Inr out"
    "\<And>q p h. q < length xs \<Longrightarrow> p < length (xs ! q) \<Longrightarrow> zero_col L = zero_col L \<Longrightarrow>
      ?h ! q = hist_ctx ?S (zero_col L) h \<Longrightarrow> out ! q ! p = conv_spec lib L (h @ xs ! q) (length h + p)"
    by (rule conv1d_rows[where lib = lib and z = "zero_col L", OF layer(1) lh(1) r(3) cl a(1)], rule that)
  obtain steps where steps: "conv_steps L b (map2 (@) ?h xs) = Inr steps" "length steps = length xs" "\<forall>q<length xs. length (steps ! q) = w"
    "\<And>q j g. q < length xs \<Longrightarrow> j < w \<Longrightarrow> ?h ! q = hist_ctx ?S (zero_col L) g \<Longrightarrow>
      steps ! q ! j = (if j < ls ! q then hist_ctx ?S (zero_col L) (g @ take (Suc j) (xs ! q)) else replicate ?S (zero_col L))"
    by (rule conv_steps_rows[OF b(3,4,8) a(2) lh(1) r(3) xs(2)], rule that)
  define cache' where "cache' = ok_or [] (copy_steps w cache (map (map (map (map (cl_step lib)))) steps))"
  have copied: "copy_steps w cache (map (map (map (map (cl_step lib)))) steps) = Inr cache'"
    using cache steps(2) unfolding cache'_def by (auto simp: copy_steps_def not_less)
  have cell: "cache' ! q ! j = map (map (cl_step lib)) (steps ! q ! j)" if q: "q < length xs" "j < w" for q j
  proof -
    have "w \<le> length (cache ! q)" using cache q(1) by simp
    moreover have "cache' ! q = take (length (cache ! q)) (map (map (map (cl_step lib))) (steps ! q)) @ drop w (cache ! q)"
      using copied cache(1) q(1) steps(2) by (auto simp: copy_steps_def nth_append split: if_splits)
    ultimately show ?thesis using q steps(3) by (simp add: nth_append)
  qed
  let ?ys = "map2 (\<lambda>q p. map (cl_silu lib) (out ! q ! p)) (pb_req b) (pb_off b)"
  have vals: "expand_rows (length (pb_req b)) (concat xs) = Inr (concat xs)" unfolding expand_rows_def z(2) by simp
  have put: "put_tokens (zero_col L) (length (pb_lengths b)) w (pb_req b) (pb_off b) (concat xs) = Inr xs"
  proof -
    have "map (\<lambda>c. c @ replicate (w - length c) (zero_col L)) xs = xs" by (rule map_idI) (use xs(2) in simp)
    then show ?thesis using put_tokens_ok[OF z(1) cl, of "zero_col L"] b(3) a(2) by simp
  qed
  have cat: "cat_rows ?h xs = Inr (map2 (@) ?h xs)" using lh(1) by (simp add: cat_rows_def)
  have sel: "select_rows st (pb_state b) = Inr ?s" using r(1) b(5) by simp
  have run: "short_conv lib L fb b st (Some cache) (concat xs) = Inr (st, Some cache', ?ys)"
    unfolding short_conv_def if_not_P[OF ne] if_not_P[OF b(2)] short_conv_general_def Let_def b(4) sel res_bind_simps vals put cat
      out(1)[folded rows] if_P[OF b(1)] option.case steps(1) copied by simp
  have out_at: "?ys ! (q * w + j) = map (cl_silu lib) (conv_spec lib L (seen lib (h (es ! q)) @ xs ! q) (length (h (es ! q)) + j))"
    if q: "q < length xs" "es ! q \<noteq> 0" "j < w" for q j
  proof -
    have p: "j < length (xs ! q)" using q xs(2) by simp
    have len: "length (concat (take q xs)) = q * w" unfolding length_concat take_map[symmetric] ml using q(1) by (simp add: sum_list_replicate)
    show ?thesis unfolding token_values(2)[OF z q(1) p, unfolded len] using out(2)[OF q(1) p refl hist[OF q(1,2)]] by simp
  qed
  show ?thesis using run cell steps(4)[OF _ _ hist] out_at by (intro exI[of _ cache'] exI[of _ ?ys]) simp
qed

text \<open>Two requests with three drafts, the last of the second one padding; the state before them is zero.\<close>

lemma short_conv_stores_every_prefix_witness:
  "\<exists>P1 b ys cache. prepare_ple_batch table_ops True 0 demo_pool [5, 9, 4, 8, 7, 6]
      (demo_batch\<lparr>fb_mode := Target_Verify, fb_spec_info := Some (1, 3), fb_non_padded := Some 6, fb_extend := Some [3, 2]\<rparr>) None None = Inr (P1, Some b) \<and>
    short_conv demo_conv demo_layer (demo_batch\<lparr>fb_mode := Target_Verify, fb_spec_info := Some (1, 3), fb_non_padded := Some 6, fb_extend := Some [3, 2]\<rparr>)
      b (replicate 5 [[0], [0]]) (Some (replicate 2 (replicate 3 []))) [[1], [2], [3], [4], [5], [6]] =
      Inr (replicate 5 [[0], [0]], Some cache, ys) \<and>
    cache ! 1 ! 1 = [[4], [5]] \<and> cache ! 1 ! 2 = [[0], [0]]"
proof -
  let ?fb = "demo_batch\<lparr>fb_mode := Target_Verify, fb_spec_info := Some (1, 3), fb_non_padded := Some 6, fb_extend := Some [3, 2]\<rparr>"
  let ?ds = "[[5, 9, 4], [8, 7, 6 :: i64]]" and ?xs = "[[[1], [2], [3]], [[4], [5], [6]]] :: column list list"
  let ?st = "replicate 5 [[0], [0]] :: column list list" and ?cache = "replicate 2 (replicate 3 []) :: column list list list"
  let ?p = "prepare_ple_batch table_ops True 0 demo_pool [5, 9, 4, 8, 7, 6] ?fb None None"
  have v: "verify_of ?fb [5, 9, 4, 8, 7, 6] 3 ?ds [3, 2]"
    by (auto simp: verify_of_def demo_batch_def ple_guards_def get_ple_forward_mode_def get_processed_token_count_def)
  have es: "ple_state_indices False ?fb Target_Verify (length ?ds * 3) [3, 2] 3 (get_mamba_indices demo_pool (take (length ?ds) (fb_req_idx ?fb))) = Inr [1, 3]"
    by code_simp
  have "is_ok ?p" "snd (ok_or (demo_pool, None) ?p) \<noteq> None" by code_simp+
  then obtain P1 B where p: "?p = Inr (P1, Some B)" by (cases ?p) auto
  have pre: "?ds \<noteq> []" "length [1, 3 :: nat] = length ?ds" "\<forall>s\<in>set [1, 3]. s < length ?st" "length ?xs = length ?ds"
    "\<forall>x\<in>set ?xs. length x = 3" "length ?xs \<le> length ?cache" "\<forall>row\<in>set ?cache. 3 \<le> length row" by simp_all
  obtain cache ys where r: "short_conv demo_conv demo_layer ?fb B ?st (Some ?cache) (concat ?xs) = Inr (?st, Some cache, ys)"
    "\<forall>q<length ?xs. [1, 3 :: nat] ! q \<noteq> 0 \<longrightarrow> (\<forall>j<3. cache ! q ! j = map (map (cl_step demo_conv))
       (if j < [3, 2] ! q then hist_ctx (short_conv_state_len demo_layer) (zero_col demo_layer) (seen demo_conv [] @ take (Suc j) (?xs ! q))
        else replicate (short_conv_state_len demo_layer) (zero_col demo_layer)) \<and>
      ys ! (q * 3 + j) = map (cl_silu demo_conv) (conv_spec demo_conv demo_layer (seen demo_conv [] @ ?xs ! q) (length ([] :: column list) + j)))"
    using short_conv_stores_every_prefix[OF v pre(1) es pre(2,3) p demo_conv_ok(3,1) demo_streams pre(4-7)]
    by (elim exE conjE) (rule that)
  have "cache ! 1 ! 1 = [[4], [5]]" "cache ! 1 ! 2 = [[0], [0]]"
    using r(2)[rule_format, of 1 1] r(2)[rule_format, of 1 2]
    by (simp_all add: demo_conv_ok seen_def demo_conv_def hist_ctx_def numeral_2_eq_2)
  then show ?thesis using p r(1) by auto
qed

end
