(* ===== verification/Ple_Layer.thy ===== *)
theory Ple_Layer
  imports Ple_Lookup Ple_Conv
begin

text \<open>
  The forward of a PLE layer (\<^verbatim>\<open>Qwen4ExpPLELayer\<close> and \<^verbatim>\<open>Qwen4ExpPLEGroupedNorm\<close> of
  \<^verbatim>\<open>runtime-src/qwen4_exp.py\<close>): the prefetch of its embeddings while the layer before it runs, and
  the gating, normalisation, convolution and masking of its output. The projections, the square
  roots, the sigmoid and the fused kernels are arguments.
\<close>

section \<open>The layer and its prefetch state\<close>

record ple_layer =
  ll_lookup :: ple_lookup
  ll_ngram :: ngram_config
  ll_mults :: "i64 list"
  ll_sizes :: "int list"
  ll_offs :: "int list"
  ll_hash :: "(i64 list list \<Rightarrow> int list list) option"

text \<open>
  The buffer a prefetch writes: the one kept for a captured graph of its size, or the first rows of
  the eager buffer. The memory of a buffer is row-major.
\<close>

datatype prefetch_buffer = Graph_Buffer nat | Eager_Buffer nat

fun buffer_rows :: "prefetch_buffer \<Rightarrow> nat" where
  "buffer_rows (Graph_Buffer n) = n"
| "buffer_rows (Eager_Buffer n) = n"

record prefetch_state =
  pf_stream :: bool
  pf_graph :: "(nat \<times> rat list) list"
  pf_eager :: "(nat \<times> rat list) option"
  pf_pending :: "(prefetch_buffer \<times> nat \<times> nat) option"

definition get_prefetch_buffer :: "ple_layer \<Rightarrow> bool \<Rightarrow> nat \<Rightarrow> prefetch_state \<Rightarrow> prefetch_buffer \<times> prefetch_state" where
  "get_prefetch_buffer L capture n s =
     (let fresh = allocate_output (ll_lookup L) [n, embed_dim (ll_ngram L)]
      in if capture then
           (Graph_Buffer n, case dget (pf_graph s) n of None \<Rightarrow> s\<lparr>pf_graph := dset (pf_graph s) n fresh\<rparr> | Some _ \<Rightarrow> s)
         else (Eager_Buffer n,
           case pf_eager s of
             None \<Rightarrow> s\<lparr>pf_eager := Some (n, fresh)\<rparr>
           | Some (rows, _) \<Rightarrow> if rows < n then s\<lparr>pf_eager := Some (n, fresh)\<rparr> else s))"

fun prefetched_rows :: "nat \<Rightarrow> prefetch_buffer \<Rightarrow> prefetch_state \<Rightarrow> rat list" where
  "prefetched_rows w (Graph_Buffer n) s = (case dget (pf_graph s) n of None \<Rightarrow> [] | Some mem \<Rightarrow> mem)"
| "prefetched_rows w (Eager_Buffer n) s = (case pf_eager s of None \<Rightarrow> [] | Some (_, mem) \<Rightarrow> take (n * w) mem)"

fun write_prefetched :: "nat \<Rightarrow> prefetch_buffer \<Rightarrow> rat list \<Rightarrow> prefetch_state \<Rightarrow> prefetch_state" where
  "write_prefetched w (Graph_Buffer n) mem s = s\<lparr>pf_graph := dset (pf_graph s) n mem\<rparr>"
| "write_prefetched w (Eager_Buffer n) mem s =
     s\<lparr>pf_eager := map_option (\<lambda>(rows, old). (rows, mem @ drop (n * w) old)) (pf_eager s)\<rparr>"

definition layer_ids :: "ple_layer \<Rightarrow> ('a, 'n) ple_pool \<Rightarrow> ple_batch \<Rightarrow> (('a, 'n) ple_pool \<times> int list list) result" where
  "layer_ids L P b = compute_ngram_ids (ll_hash L) (ll_ngram L) (ll_mults L) (ll_sizes L) (ll_offs L) P b"

text \<open>
  \<open>numel\<close> is the number of input ids and \<open>global_tokens\<close> the length of the data-parallel buffer. The
  view \<^verbatim>\<open>prefetched.view(n, heads, -1)\<close> needs a width that the heads divide.
\<close>

definition start_prefetch ::
  "ple_layer \<Rightarrow> bool \<Rightarrow> prefetch_state \<Rightarrow> ('a, 'n) ple_pool \<Rightarrow> ple_batch option \<Rightarrow> nat \<Rightarrow> nat option \<Rightarrow>
   (prefetch_state \<times> ('a, 'n) ple_pool) result" where
  "start_prefetch L capture s P batch numel global_tokens =
     (let lk = ll_lookup L; heads = lk_heads lk; w = embed_dim (ll_ngram L)
      in if \<not> pf_stream s then Inr (s, P)
         else if pf_pending s \<noteq> None then Inl RuntimeError
         else if batch = None \<and> \<not> lk_gather_dp lk then Inr (s, P)
         else res_bind (case batch of None \<Rightarrow> Inr (P, replicate numel (replicate heads 0), numel)
                        | Some b \<Rightarrow> map_sum id (\<lambda>(P', ids). (P', ids, pb_physical b)) (layer_ids L P b)) (\<lambda>(P', ids, physical).
              res_bind (prepare_embedding_lookup lk ids global_tokens physical) (\<lambda>(lookup_ids, semantic).
              let n = length lookup_ids
              in if n = 0 then Inr (s, P')
                 else let (buf, s1) = get_prefetch_buffer L capture n s
                      in if w mod heads \<noteq> 0 then Inl RuntimeError
                         else res_bind (ple_gather lk lookup_ids (Some ([n, heads, w div heads], True, prefetched_rows w buf s1))) (\<lambda>mem.
                           Inr ((write_prefetched w buf mem s1)\<lparr>pf_pending := Some (buf, semantic, physical)\<rparr>, P')))))"

definition consume_prefetched :: "ple_layer \<Rightarrow> prefetch_state \<Rightarrow> (prefetch_state \<times> rat list list) result" where
  "consume_prefetched L s =
     (let lk = ll_lookup L; w = embed_dim (ll_ngram L)
      in case pf_pending s of None \<Rightarrow> Inl RuntimeError
         | Some (buf, semantic, physical) \<Rightarrow>
             Inr (s\<lparr>pf_pending := None\<rparr>,
               finish_embedding_lookup lk
                 (map (map (\<lambda>v. v * lk_scale lk)) (chunks w (buffer_rows buf) (ple_reduce lk (prefetched_rows w buf s)))) semantic physical))"

text \<open>\<^verbatim>\<open>Qwen4ExpNGramEmbedding.forward\<close> and the choice at the start of the forward of the layer.\<close>

definition ple_embedding ::
  "ple_layer \<Rightarrow> ('a, 'n) ple_pool \<Rightarrow> ple_batch \<Rightarrow> nat option \<Rightarrow> (('a, 'n) ple_pool \<times> rat list list) result" where
  "ple_embedding L P b global_tokens =
     res_bind (layer_ids L P b) (\<lambda>(P', ids).
       map_sum id (Pair P') (embed_ngram_ids (ll_lookup L) ids global_tokens (pb_physical b)))"

definition layer_embeddings ::
  "ple_layer \<Rightarrow> prefetch_state \<Rightarrow> ('a, 'n) ple_pool \<Rightarrow> ple_batch \<Rightarrow> nat option \<Rightarrow>
   (prefetch_state \<times> ('a, 'n) ple_pool \<times> rat list list) result" where
  "layer_embeddings L s P b global_tokens =
     (if pf_pending s \<noteq> None then map_sum id (\<lambda>(s', e). (s', P, e)) (consume_prefetched L s)
      else map_sum id (\<lambda>(P', e). (s, P', e)) (ple_embedding L P b global_tokens))"

text \<open>An idle rank still takes part in the collectives of the lookup.\<close>

definition forward_idle :: "ple_layer \<Rightarrow> prefetch_state \<Rightarrow> nat \<Rightarrow> nat option \<Rightarrow> prefetch_state result" where
  "forward_idle L s numel global_tokens =
     (if pf_pending s \<noteq> None then map_sum id fst (consume_prefetched L s)
      else if \<not> lk_gather_dp (ll_lookup L) then Inr s
      else map_sum id (\<lambda>_. s) (embed_ngram_ids (ll_lookup L) (replicate numel (replicate (lk_heads (ll_lookup L)) 0)) global_tokens numel))"

section \<open>A prefetched lookup is the direct lookup\<close>

text \<open>The buffers have the width of the embedding, which the heads share evenly.\<close>

definition buffers_ok :: "ple_layer \<Rightarrow> prefetch_state \<Rightarrow> bool" where
  "buffers_ok L s \<longleftrightarrow> (\<forall>n mem. dget (pf_graph s) n = Some mem \<longrightarrow> length mem = n * embed_dim (ll_ngram L)) \<and>
     (\<forall>n mem. pf_eager s = Some (n, mem) \<longrightarrow> length mem = n * embed_dim (ll_ngram L))"

definition ple_layer_ok :: "ple_layer \<Rightarrow> bool" where
  "ple_layer_ok L \<longleftrightarrow> table_ready (ll_lookup L) \<and> 0 < lk_heads (ll_lookup L) \<and>
     embed_dim (ll_ngram L) = lk_heads (ll_lookup L) * lk_dim (ll_lookup L) \<and>
     lk_heads (ll_lookup L) = ngram_heads (ll_ngram L) \<and>
     (\<forall>f ctx. ll_hash L = Some f \<longrightarrow> uniform (lk_heads (ll_lookup L)) (f ctx)) \<and>
     (\<forall>n ids. uniform (lk_heads (ll_lookup L)) ids \<longrightarrow> uniform (lk_heads (ll_lookup L)) (lk_dp_gather (ll_lookup L) n ids))"

lemma length_hash_window: "length (hash_window c mults sizes offs shifted i) = ngram_heads c"
proof -
  have l: "length (block_ids (heads_per_ngram c) mults sizes offs shifted i n) = heads_per_ngram c" if "2 \<le> n" for n
  proof -
    have "(n - 1) * heads_per_ngram c = (n - 2) * heads_per_ngram c + heads_per_ngram c"
      using that by (cases n) (auto simp: algebra_simps gr0_conv_Suc numeral_2_eq_2 Suc_le_eq)
    then show ?thesis by (simp add: block_ids_def)
  qed
  have "length (concat (map (block_ids (heads_per_ngram c) mults sizes offs shifted i) [2..<m + 2])) = m * heads_per_ngram c" for m
    by (induction m) (simp_all add: l)
  from this[of "ngram_size c - 1"] show ?thesis
    by (cases "ngram_size c") (simp_all add: hash_window_def ngram_heads_def)
qed

lemma ids_shape:
  assumes "ple_layer_ok L" "layer_ids L P b = Inr (P', ids)"
  shows "uniform (lk_heads (ll_lookup L)) ids"
proof -
  obtain u ctx d cache cache' where h: "hash_contexts (ll_hash L) (ll_ngram L) (ll_mults L) (ll_sizes L) (ll_offs L) u ctx d cache = Inr (cache', ids)"
    using assms(2) unfolding layer_ids_def compute_ngram_ids_def Let_def
    by (auto simp: res_bind_Inr_iff split: option.splits prod.splits)
  show ?thesis
  proof (cases "if d then ll_hash L else None")
    case None
    obtain shs where "ids = map2 (\<lambda>sh row. hash_window (ll_ngram L) (ll_mults L) (ll_sizes L) (ll_offs L) sh (length row - 1)) shs ctx"
      using h unfolding hash_contexts_def None option.case Let_def by (auto split: if_splits)
    then show ?thesis using assms(1) by (auto simp: uniform_def length_hash_window ple_layer_ok_def)
  next
    case (Some f)
    then have "ids = f ctx" "ll_hash L = Some f" using h by (auto simp: hash_contexts_def split: if_splits)
    then show ?thesis using assms(1) unfolding ple_layer_ok_def by blast
  qed
qed

lemma lookup_shape:
  assumes "ple_layer_ok L" "uniform (lk_heads (ll_lookup L)) ids" "prepare_embedding_lookup (ll_lookup L) ids g physical = Inr (look, sem)"
  shows "uniform (lk_heads (ll_lookup L)) look"
proof (cases "lk_gather_dp (ll_lookup L)")
  case True
  obtain p n where "pad_token_rows (replicate (lk_heads (ll_lookup L)) 0) ids physical = Inr p" "look = lk_dp_gather (ll_lookup L) n p"
    using assms(3) True by (auto simp: prepare_embedding_lookup_def res_bind_Inr_iff split: option.splits)
  moreover have "uniform (lk_heads (ll_lookup L)) p"
    using calculation(1) assms(2) by (auto simp: pad_token_rows_def uniform_def split: if_splits)
  ultimately show ?thesis using assms(1) unfolding ple_layer_ok_def by blast
next
  case False
  then show ?thesis using assms(2,3) by (simp add: prepare_embedding_lookup_def)
qed

text \<open>Writing a buffer of the right size and reading it back.\<close>

lemma buffer_fresh:
  assumes ok: "buffers_ok L s" and g: "get_prefetch_buffer L capture n s = (buf, s1)"
  shows "buffers_ok L s1" "buffer_rows buf = n" "pf_pending s1 = pf_pending s" "pf_stream s1 = pf_stream s"
    "length (prefetched_rows (embed_dim (ll_ngram L)) buf s1) = n * embed_dim (ll_ngram L)"
    "length mem = n * embed_dim (ll_ngram L) \<Longrightarrow> prefetched_rows (embed_dim (ll_ngram L)) buf (write_prefetched (embed_dim (ll_ngram L)) buf mem s1) = mem"
    "length mem = n * embed_dim (ll_ngram L) \<Longrightarrow> buffers_ok L (write_prefetched (embed_dim (ll_ngram L)) buf mem s1)"
proof -
  let ?w = "embed_dim (ll_ngram L)"
  have fresh: "length (allocate_output (ll_lookup L) [n, ?w]) = n * ?w" by (simp add: allocate_output_def)
  have all: "buffers_ok L s1 \<and> buffer_rows buf = n \<and> pf_pending s1 = pf_pending s \<and> pf_stream s1 = pf_stream s \<and>
      length (prefetched_rows ?w buf s1) = n * ?w \<and>
      (length mem = n * ?w \<longrightarrow> prefetched_rows ?w buf (write_prefetched ?w buf mem s1) = mem \<and> buffers_ok L (write_prefetched ?w buf mem s1))" for mem
  proof (cases capture)
    case True
    then have b: "buf = Graph_Buffer n" "s1 = (case dget (pf_graph s) n of
        None \<Rightarrow> s\<lparr>pf_graph := dset (pf_graph s) n (allocate_output (ll_lookup L) [n, ?w])\<rparr> | Some _ \<Rightarrow> s)"
      using g unfolding get_prefetch_buffer_def Let_def if_P[OF True] prod.inject by blast+
    then show ?thesis using ok fresh by (auto simp: buffers_ok_def dict_simps split: option.splits if_splits)
  next
    case False
    then have b: "buf = Eager_Buffer n" "s1 = (case pf_eager s of None \<Rightarrow> s\<lparr>pf_eager := Some (n, allocate_output (ll_lookup L) [n, ?w])\<rparr>
        | Some (rows, _) \<Rightarrow> if rows < n then s\<lparr>pf_eager := Some (n, allocate_output (ll_lookup L) [n, ?w])\<rparr> else s)"
      using g False unfolding get_prefetch_buffer_def Let_def if_not_P[OF False] prod.inject by blast+
    have "\<exists>rows old. pf_eager s1 = Some (rows, old) \<and> n \<le> rows \<and> length old = rows * ?w \<and> pf_graph s1 = pf_graph s \<and>
        pf_pending s1 = pf_pending s \<and> pf_stream s1 = pf_stream s"
      using b(2) ok fresh by (auto simp: buffers_ok_def not_less split: option.splits if_splits)
    then obtain rows old where r: "pf_eager s1 = Some (rows, old)" "n \<le> rows" "length old = rows * ?w" "pf_graph s1 = pf_graph s"
      "pf_pending s1 = pf_pending s" "pf_stream s1 = pf_stream s" by blast
    have le: "n * ?w \<le> rows * ?w" using r(2) by simp
    then have "length (mem @ drop (n * ?w) old) = rows * ?w" if "length mem = n * ?w" using that r(3) by simp
    then show ?thesis using r le ok b(1) by (auto simp: buffers_ok_def)
  qed
  then show "buffers_ok L s1" "buffer_rows buf = n" "pf_pending s1 = pf_pending s" "pf_stream s1 = pf_stream s"
    "length (prefetched_rows ?w buf s1) = n * ?w"
    "length mem = n * ?w \<Longrightarrow> prefetched_rows ?w buf (write_prefetched ?w buf mem s1) = mem"
    "length mem = n * ?w \<Longrightarrow> buffers_ok L (write_prefetched ?w buf mem s1)" by blast+
qed

lemma read_buffer_pending [simp]: "prefetched_rows w buf (s\<lparr>pf_pending := x\<rparr>) = prefetched_rows w buf s"
  by (cases buf) simp_all

lemma buffers_ok_pending [simp]: "buffers_ok L (s\<lparr>pf_pending := x\<rparr>) = buffers_ok L s"
  by (simp add: buffers_ok_def)

text \<open>The state after a prefetch that did gather, and what its consumption gives.\<close>

lemma prefetch_then_consume:
  assumes ok: "ple_layer_ok L" "buffers_ok L s" and s: "pf_stream s" "pf_pending s = None"
    and ids: "layer_ids L P b = Inr (P', ids)" and look: "prepare_embedding_lookup (ll_lookup L) ids g (pb_physical b) = Inr (look, sem)"
    and n: "look \<noteq> []"
  obtains s1 where "start_prefetch L capture s P (Some b) numel g = Inr (s1, P')" "buffers_ok L s1" "pf_pending s1 \<noteq> None" "pf_stream s1"
    "layer_embeddings L s1 Q b g = Inr (s1\<lparr>pf_pending := None\<rparr>, Q, finish_embedding_lookup (ll_lookup L)
       (scaled_rows (ll_lookup L) (length look) (ple_reduce (ll_lookup L) (concat (map (row_value (ll_lookup L)) (concat look))))) sem (pb_physical b))"
proof -
  let ?lk = "ll_lookup L" and ?w = "embed_dim (ll_ngram L)" and ?M = "concat (map (row_value (ll_lookup L)) (concat look))"
  obtain buf s0 where g0: "get_prefetch_buffer L capture (length look) s = (buf, s0)" by fastforce
  have sh: "uniform (lk_heads ?lk) look" by (rule lookup_shape[OF ok(1) ids_shape[OF ok(1) ids] look])
  have w: "?w = lk_heads ?lk * lk_dim ?lk" "0 < lk_heads ?lk" "table_ready ?lk" using ok(1) unfolding ple_layer_ok_def by blast+
  have lM: "length ?M = length look * ?w"
    using length_concat_uniform[OF uniform_row_values[OF w(3)], of "concat look"] length_concat_uniform[OF sh] w(1) by simp
  have lr: "length (prefetched_rows ?w buf s0) = length look * lk_heads ?lk * lk_dim ?lk" using buffer_fresh(5)[OF ok(2) g0] w(1) by simp
  have gather: "ple_gather ?lk look (Some ([length look, lk_heads ?lk, ?w div lk_heads ?lk], True, prefetched_rows ?w buf s0)) = Inr ?M"
    using gather_memory[OF w(3) sh, of "Some ([length look, lk_heads ?lk, lk_dim ?lk], True, prefetched_rows ?w buf s0)"] lr w(1,2) by simp
  have md: "?w mod lk_heads ?lk = 0" unfolding w(1) by simp
  let ?s1 = "(write_prefetched ?w buf ?M s0)\<lparr>pf_pending := Some (buf, sem, pb_physical b)\<rparr>"
  have start: "start_prefetch L capture s P (Some b) numel g = Inr (?s1, P')"
    using n unfolding start_prefetch_def Let_def ids option.case map_sum.simps prod.case res_bind_simps look g0 gather
    by (simp add: s md)
  have rd: "prefetched_rows ?w buf ?s1 = ?M" using buffer_fresh(6)[OF ok(2) g0 lM] by simp
  have "pf_stream (write_prefetched ?w buf ?M s0)" using buffer_fresh(4)[OF ok(2) g0] s(1) by (cases buf) simp_all
  moreover have "layer_embeddings L ?s1 Q b g = Inr (?s1\<lparr>pf_pending := None\<rparr>, Q, finish_embedding_lookup ?lk
       (scaled_rows ?lk (length look) (ple_reduce ?lk ?M)) sem (pb_physical b))"
    using rd buffer_fresh(2)[OF ok(2) g0] w(1) by (simp add: layer_embeddings_def consume_prefetched_def Let_def scaled_rows_def)
  ultimately show thesis using that[OF start] buffer_fresh(7)[OF ok(2) g0 lM] by simp
qed

text \<open>A prefetch of a layer whose lookup succeeds leaves nothing, or its embeddings, pending.\<close>

lemma prefetched_layer:
  assumes ok: "ple_layer_ok L" "buffers_ok L s" "pf_stream s" "pf_pending s = None" and ids: "layer_ids L P b = Inr (P', ids)"
    and e: "embed_ngram_ids (ll_lookup L) ids g (pb_physical b) = Inr e"
  shows "\<exists>s1. start_prefetch L capture s P (Some b) numel g = Inr (s1, P') \<and> pf_stream s1 \<and> buffers_ok L s1 \<and>
    (pf_pending s1 = None \<or> (\<forall>Q :: ('a, 'n) ple_pool. layer_embeddings L s1 Q b g = Inr (s1\<lparr>pf_pending := None\<rparr>, Q, e)))"
proof -
  let ?lk = "ll_lookup L"
  obtain look sem where look: "prepare_embedding_lookup ?lk ids g (pb_physical b) = Inr (look, sem)"
    using e by (auto simp: embed_ngram_ids_def res_bind_Inr_iff)
  have ready: "table_ready ?lk" using ok(1) unfolding ple_layer_ok_def by blast
  have ev: "e = finish_embedding_lookup ?lk (scaled_rows ?lk (length look) (ple_reduce ?lk (concat (map (row_value ?lk) (concat look))))) sem (pb_physical b)"
    using e look gather_memory[OF ready lookup_shape[OF ok(1) ids_shape[OF ok(1) ids] look], of None] by (simp add: embed_ngram_ids_def)
  show ?thesis
  proof (cases "look = []")
    case True
    then have "start_prefetch L capture s P (Some b) numel g = Inr (s, P')"
      using ok(3,4) ids look by (simp add: start_prefetch_def Let_def)
    then show ?thesis using ok(2-4) by blast
  next
    case False
    have "\<exists>s1. start_prefetch L capture s P (Some b) numel g = Inr (s1, P') \<and> buffers_ok L s1 \<and> pf_stream s1 \<and>
        layer_embeddings L s1 Q b g = Inr (s1\<lparr>pf_pending := None\<rparr>, Q, e)" for Q :: "('a, 'n) ple_pool"
      using prefetch_then_consume[OF ok(1-4) ids look False, of capture numel Q] unfolding ev by metis
    then show ?thesis by (metis (no_types, lifting) Inr_inject prod.inject)
  qed
qed

text \<open>
  The prefetch of an idle rank fails only where its direct part in the lookup fails, and its next idle
  forward consumes what the prefetch left pending.
\<close>

lemma prefetched_idle:
  assumes ok: "ple_layer_ok L" "buffers_ok L s" "pf_stream s" "pf_pending s = None"
    and direct: "\<exists>s'. forward_idle L s numel g = Inr s'"
  shows "\<exists>s1 s2. start_prefetch L capture s P None numel g = Inr (s1, P) \<and> pf_stream s1 \<and> buffers_ok L s1 \<and>
    forward_idle L s1 numel g = Inr s2 \<and> pf_stream s2 \<and> buffers_ok L s2 \<and> pf_pending s2 = None"
proof -
  let ?lk = "ll_lookup L" and ?w = "embed_dim (ll_ngram L)"
  let ?ids = "replicate numel (replicate (lk_heads (ll_lookup L)) (0::int))"
  have self: "forward_idle L s numel g = Inr s"
    using direct ok(4) by (auto simp: forward_idle_def map_sum_Inr_iff split: if_splits)
  show ?thesis
  proof (cases "lk_gather_dp ?lk")
    case False
    then have "start_prefetch L capture s P None numel g = Inr (s, P)" using ok(3,4) by (simp add: start_prefetch_def Let_def)
    then show ?thesis using self ok(2-4) by blast
  next
    case True
    obtain look sem where look: "prepare_embedding_lookup ?lk ?ids g numel = Inr (look, sem)"
      using direct ok(4) True by (auto simp: forward_idle_def embed_ngram_ids_def map_sum_Inr_iff res_bind_Inr_iff)
    show ?thesis
    proof (cases "look = []")
      case e: True
      then have "start_prefetch L capture s P None numel g = Inr (s, P)"
        using ok(3,4) True look by (simp add: start_prefetch_def Let_def)
      then show ?thesis using self ok(2-4) by blast
    next
      case False
      obtain buf s0 where g0: "get_prefetch_buffer L capture (length look) s = (buf, s0)" by fastforce
      have sh: "uniform (lk_heads ?lk) look" by (rule lookup_shape[OF ok(1) _ look]) (simp add: uniform_def)
      have w: "?w = lk_heads ?lk * lk_dim ?lk" "0 < lk_heads ?lk" "table_ready ?lk" using ok(1) unfolding ple_layer_ok_def by blast+
      let ?M = "concat (map (row_value ?lk) (concat look))"
      have lM: "length ?M = length look * ?w"
        using length_concat_uniform[OF uniform_row_values[OF w(3)], of "concat look"] length_concat_uniform[OF sh] w(1) by simp
      have lr: "length (prefetched_rows ?w buf s0) = length look * lk_heads ?lk * lk_dim ?lk" using buffer_fresh(5)[OF ok(2) g0] w(1) by simp
      have gather: "ple_gather ?lk look (Some ([length look, lk_heads ?lk, ?w div lk_heads ?lk], True, prefetched_rows ?w buf s0)) = Inr ?M"
        using gather_memory[OF w(3) sh, of "Some ([length look, lk_heads ?lk, lk_dim ?lk], True, prefetched_rows ?w buf s0)"] lr w(1,2) by simp
      have md: "?w mod lk_heads ?lk = 0" unfolding w(1) by simp
      let ?s0 = "write_prefetched ?w buf ?M s0"
      let ?s1 = "?s0\<lparr>pf_pending := Some (buf, sem, numel)\<rparr>"
      have start: "start_prefetch L capture s P None numel g = Inr (?s1, P)"
        using False unfolding start_prefetch_def Let_def option.case prod.case res_bind_simps look g0 gather
        by (simp add: ok(3,4) True md)
      moreover have "pf_stream ?s0" using buffer_fresh(4)[OF ok(2) g0] ok(3) by (cases buf) simp_all
      moreover have "forward_idle L ?s1 numel g = Inr (?s1\<lparr>pf_pending := None\<rparr>)"
        by (simp add: forward_idle_def consume_prefetched_def Let_def)
      ultimately show ?thesis using buffer_fresh(7)[OF ok(2) g0 lM] by (intro exI conjI) (assumption | simp)+
    qed
  qed
qed

text \<open>
  prefetching changes nothing. A prefetch of a batch fails exactly where, and as, the direct lookup
  fails; a prefetch that is pending gives the layer, whatever happened to the pool in between, exactly
  the embeddings of the direct lookup from the pool of the prefetch, whichever buffer it went through
  and whatever that held before, and leaves nothing pending.
\<close>

theorem prefetch_is_direct:
  assumes "ple_layer_ok L" "buffers_ok L s" "pf_stream s" "pf_pending s = None"
  shows "case start_prefetch L capture s P (Some b) numel g of
      Inl err \<Rightarrow> ple_embedding L P b g = Inl err
    | Inr (s1, P1) \<Rightarrow> \<exists>e. ple_embedding L P b g = Inr (P1, e) \<and> buffers_ok L s1 \<and>
        (if pf_pending s1 = None then s1 = s else layer_embeddings L s1 Q b g = Inr (s1\<lparr>pf_pending := None\<rparr>, Q, e))"
proof (cases "layer_ids L P b")
  case (Inl err)
  then show ?thesis using assms(3,4) by (simp add: start_prefetch_def ple_embedding_def Let_def)
next
  case (Inr r)
  then obtain P' ids where ids: "layer_ids L P b = Inr (P', ids)" by (cases r) auto
  let ?lk = "ll_lookup L"
  show ?thesis
  proof (cases "prepare_embedding_lookup ?lk ids g (pb_physical b)")
    case (Inl err)
    then show ?thesis using assms(3,4) ids by (simp add: start_prefetch_def ple_embedding_def embed_ngram_ids_def Let_def)
  next
    case (Inr r)
    then obtain look sem where look: "prepare_embedding_lookup ?lk ids g (pb_physical b) = Inr (look, sem)" by (cases r) auto
    have sh: "uniform (lk_heads ?lk) look" by (rule lookup_shape[OF assms(1) ids_shape[OF assms(1) ids] look])
    have ready: "table_ready ?lk" using assms(1) unfolding ple_layer_ok_def by blast
    have direct: "ple_embedding L P b g = Inr (P', finish_embedding_lookup ?lk
        (scaled_rows ?lk (length look) (ple_reduce ?lk (concat (map (row_value ?lk) (concat look))))) sem (pb_physical b))"
      using gather_memory[OF ready sh, of None] ids look by (simp add: ple_embedding_def embed_ngram_ids_def)
    show ?thesis
    proof (cases "look = []")
      case True
      then have "start_prefetch L capture s P (Some b) numel g = Inr (s, P')"
        using assms(3,4) ids look by (simp add: start_prefetch_def Let_def)
      then show ?thesis using direct assms(2,4) by simp
    next
      case False
      obtain s1 where "start_prefetch L capture s P (Some b) numel g = Inr (s1, P')" "buffers_ok L s1" "pf_pending s1 \<noteq> None" "pf_stream s1"
        "layer_embeddings L s1 Q b g = Inr (s1\<lparr>pf_pending := None\<rparr>, Q, finish_embedding_lookup ?lk
           (scaled_rows ?lk (length look) (ple_reduce ?lk (concat (map (row_value ?lk) (concat look))))) sem (pb_physical b))"
        by (rule prefetch_then_consume[OF assms ids look False, of capture numel Q], rule that)
      then show ?thesis using direct by (simp del: not_None_eq)
    qed
  qed
qed

text \<open>A decode batch of two rows after a larger eager prefetch; two heads of width one.\<close>

definition demo_ple :: ple_layer where
  "demo_ple = \<lparr>ll_lookup = (rank_lookup 0 4 [[10], [11], [12], [13]])\<lparr>lk_gather_dp := False, lk_tp_size := 1\<rparr>,
     ll_ngram = demo_ngram\<lparr>heads_per_ngram := 1, embed_dim := 2\<rparr>, ll_mults = [1, 1, 1], ll_sizes = [2, 2], ll_offs = [0, 2], ll_hash = None\<rparr>"

definition demo_rows :: ple_batch where
  "demo_rows = \<lparr>pb_uid = 1, pb_mode = Decode, pb_fast = True, pb_physical = 2, pb_processed = 2, pb_lengths = [1, 1], pb_row_width = 1,
     pb_req = [0, 1], pb_off = [0, 0], pb_valid = [True, True], pb_state = [1, 3], pb_context = Some [[7, 7, 5], [7, 4, 4]], pb_eos = Some 7\<rparr>"

definition demo_prefetch :: prefetch_state where
  "demo_prefetch = \<lparr>pf_stream = True, pf_graph = [], pf_eager = Some (3, [1, 2, 3, 4, 5, 6]), pf_pending = None\<rparr>"

lemma demo_ple_ok: "ple_layer_ok demo_ple" "buffers_ok demo_ple demo_prefetch"
proof -
  have "table_ready (ll_lookup demo_ple)" by (auto simp: demo_ple_def rank_lookup_def table_ready_def)
  then show "ple_layer_ok demo_ple" unfolding ple_layer_ok_def
    by (auto simp: demo_ple_def rank_lookup_def ngram_heads_def demo_ngram_def)
  show "buffers_ok demo_ple demo_prefetch" by (simp add: buffers_ok_def demo_ple_def demo_prefetch_def)
qed

lemma prefetch_is_direct_witness:
  "\<exists>s1 P1 e. start_prefetch demo_ple False demo_prefetch demo_pool (Some demo_rows) 2 None = Inr (s1, P1) \<and>
     ple_embedding demo_ple demo_pool demo_rows None = Inr (P1, e) \<and>
     layer_embeddings demo_ple s1 demo_pool demo_rows None = Inr (s1\<lparr>pf_pending := None\<rparr>, demo_pool, e)"
proof -
  let ?s = "start_prefetch demo_ple False demo_prefetch demo_pool (Some demo_rows) 2 None"
  have "is_ok ?s" "pf_pending (fst (ok_or (demo_prefetch, demo_pool) ?s)) \<noteq> None" by code_simp+
  then obtain s1 P1 where s: "?s = Inr (s1, P1)" "pf_pending s1 \<noteq> None" by (cases ?s) auto
  show ?thesis
    using prefetch_is_direct[OF demo_ple_ok, where capture = False and P = demo_pool and b = demo_rows and numel = 2 and g = None and Q = demo_pool] s
    by (auto simp: demo_prefetch_def)
qed

end
