(* ===== verification/Ple_Forward.thy ===== *)
theory Ple_Forward
  imports Ple_Layer
begin

text \<open>
  The forward of a PLE layer after its lookup (\<^verbatim>\<open>Qwen4ExpPLELayer.forward\<close>, \<^verbatim>\<open>_apply_ple_norm\<close> and
  \<^verbatim>\<open>Qwen4ExpPLEGroupedNorm.forward\<close>): every token is gated by its own hidden state and embedding, the
  normed values go through the short convolution, and padding is zero. A row holds the \<open>gl_hc\<close> branches
  of \<open>gl_hidden\<close> values one after the other, so that \<^verbatim>\<open>reshape\<close>, \<^verbatim>\<open>flatten\<close> and \<^verbatim>\<open>unflatten\<close> change
  nothing; the conversions to and from 32-bit floats are not modelled.
\<close>

section \<open>Gating a token\<close>

text \<open>The projections, the weights of the three norms, the numerical functions, and the fused kernels.\<close>

record gate_lib =
  gl_key :: "rat list \<Rightarrow> rat list"
  gl_value :: "rat list \<Rightarrow> rat list"
  gl_wkey :: "rat list"
  gl_wquery :: "rat list"
  gl_wconv :: "rat list"
  gl_eps :: rat
  gl_hidden :: nat
  gl_hc :: nat
  gl_rsqrt :: "rat \<Rightarrow> rat"
  gl_sqrt :: "rat \<Rightarrow> rat"
  gl_sigmoid :: "rat \<Rightarrow> rat"
  gl_norm_kernel :: "(rat list \<Rightarrow> rat list \<Rightarrow> rat list) option"
  gl_gate_kernel :: "(rat list \<Rightarrow> rat list \<Rightarrow> rat list) option"

definition grouped_norm :: "gate_lib \<Rightarrow> rat list \<Rightarrow> rat list \<Rightarrow> rat list" where
  "grouped_norm G weight x =
     (case gl_norm_kernel G of
        Some krn \<Rightarrow> krn x weight
      | None \<Rightarrow>
          let gs = gl_hidden G; variance = map (\<lambda>grp. (\<Sum>v\<leftarrow>grp. v * v) / of_nat gs) (chunks gs (length x div gs) x)
          in map (\<lambda>i. (x ! i * gl_rsqrt G (variance ! (i div gs) + gl_eps G)) * (weight ! i + 1)) [0..<length x])"

definition token_gates :: "gate_lib \<Rightarrow> rat list \<Rightarrow> rat list \<Rightarrow> rat list" where
  "token_gates G hidden key =
     (let hs = gl_hidden G; kn = grouped_norm G (gl_wkey G) key; qn = grouped_norm G (gl_wquery G) hidden
      in map (\<lambda>j. (\<Sum>i\<leftarrow>[0..<hs]. kn ! (j * hs + i) * qn ! (j * hs + i)) / gl_sqrt G (of_nat hs)) [0..<gl_hc G])"

definition squash :: "gate_lib \<Rightarrow> rat \<Rightarrow> rat" where
  "squash G g = gl_sigmoid G (gl_sqrt G (max \<bar>g\<bar> (1 / 10 ^ 6)) * sgn g)"

definition gated_value :: "gate_lib \<Rightarrow> bool \<Rightarrow> rat list \<Rightarrow> rat list \<Rightarrow> rat list" where
  "gated_value G fast gates val =
     (case (if fast then gl_gate_kernel G else None) of
        Some krn \<Rightarrow> krn gates val
      | None \<Rightarrow> concat (map (\<lambda>g. map (\<lambda>v. squash G g * v) val) gates))"

definition gate_token :: "gate_lib \<Rightarrow> bool \<Rightarrow> rat list \<Rightarrow> rat list \<Rightarrow> rat list" where
  "gate_token G fast hidden e = gated_value G fast (token_gates G hidden (gl_key G e)) (gl_value G e)"

section \<open>The forward\<close>

text \<open>The output of the layer from its embeddings \<open>e\<close>, and the forward with its lookup.\<close>

definition layer_output ::
  "gate_lib \<Rightarrow> conv_layer \<Rightarrow> conv_lib \<Rightarrow> fwd_batch \<Rightarrow> ple_batch \<Rightarrow> column list list \<Rightarrow> column list list list option \<Rightarrow> rat list list \<Rightarrow>
   rat list list \<Rightarrow> (column list list \<times> column list list list option \<times> rat list list) result" where
  "layer_output G C lib fb b st stp hidden_states e =
     (let hidden = take (pb_processed b) hidden_states; width = gl_hc G * gl_hidden G
      in if \<exists>row\<in>set hidden. length row \<noteq> width then Inl RuntimeError
         else if length e \<noteq> length hidden then Inl RuntimeError
         else let gated = map2 (gate_token G (pb_fast b)) hidden e; normed = map (grouped_norm G (gl_wconv G)) gated
         in res_bind (short_conv lib C fb b st stp normed) (\<lambda>(st', stp', conv).
            let sum_rows = map2 (map2 (+)) gated conv
            in res_bind (if pb_fast b then Inr sum_rows
                         else map_sum id (map (\<lambda>(v, row). if v then row else replicate width 0)) (bcast (pb_valid b) sum_rows)) (\<lambda>output.
               map_sum id (\<lambda>rows. (st', stp', rows)) (pad_token_rows (replicate width 0) output (pb_physical b)))))"

definition layer_forward ::
  "ple_layer \<Rightarrow> gate_lib \<Rightarrow> conv_layer \<Rightarrow> conv_lib \<Rightarrow> fwd_batch \<Rightarrow> ple_batch \<Rightarrow> nat option \<Rightarrow> prefetch_state \<Rightarrow> ('a, 'n) ple_pool \<Rightarrow>
   column list list \<Rightarrow> column list list list option \<Rightarrow> rat list list \<Rightarrow>
   (prefetch_state \<times> ('a, 'n) ple_pool \<times> column list list \<times> column list list list option \<times> rat list list) result" where
  "layer_forward L G C lib fb b global_tokens s P st stp hidden_states =
     res_bind (layer_embeddings L s P b global_tokens) (\<lambda>(s', P', e).
       map_sum id (\<lambda>(st', stp', rows). (s', P', st', stp', rows)) (layer_output G C lib fb b st stp hidden_states e))"

section \<open>The layer refines its streams\<close>

text \<open>The fused krn gates as the tensor operations do.\<close>

definition gate_kernel_ok :: "gate_lib \<Rightarrow> bool" where
  "gate_kernel_ok G \<longleftrightarrow> (\<forall>krn gates val. gl_gate_kernel G = Some krn \<longrightarrow>
     krn gates val = concat (map (\<lambda>g. map (\<lambda>v. squash G g * v) val) gates))"

lemma gate_token_fast: "gate_kernel_ok G \<Longrightarrow> gate_token G fast = gate_token G False"
  by (intro ext) (auto simp: gate_token_def gated_value_def gate_kernel_ok_def split: option.splits)

lemma map2_concat: "map length xss = map length yss \<Longrightarrow> map2 f (concat xss) (concat yss) = concat (map2 (map2 f) xss yss)"
proof (induction xss arbitrary: yss)
  case (Cons xs xss)
  then obtain ys yss' where "yss = ys # yss'" "length xs = length ys" by (cases yss) auto
  then show ?case using Cons by simp
qed simp

text \<open>The gated rows of a batch, and the columns its convolution sees.\<close>

definition gated_chunks :: "gate_lib \<Rightarrow> rat list list list \<Rightarrow> rat list list list \<Rightarrow> rat list list list" where
  "gated_chunks G hids es = map2 (map2 (gate_token G False)) hids es"

definition conv_chunks :: "gate_lib \<Rightarrow> rat list list list \<Rightarrow> rat list list list \<Rightarrow> column list list" where
  "conv_chunks G hids es = map (map (grouped_norm G (gl_wconv G))) (gated_chunks G hids es)"

lemma chunk_lengths:
  assumes "map length hids = map length cs" "map length es = map length cs"
  shows "map length (gated_chunks G hids es) = map length cs" "map length (conv_chunks G hids es) = map length cs"
proof -
  have l: "length hids = length cs" "length es = length cs" using assms by (auto dest: map_eq_imp_length_eq)
  have "length (hids ! q) = length (cs ! q) \<and> length (es ! q) = length (cs ! q)" if "q < length cs" for q
    using assms that by (metis l nth_map)
  then show "map length (gated_chunks G hids es) = map length cs" "map length (conv_chunks G hids es) = map length cs"
    using l by (auto simp: gated_chunks_def conv_chunks_def intro!: nth_equalityI)
qed

text \<open>
  C5: a PLE layer refines its streams. Let every slot but the reserved one hold the last columns of
  the stream of normed values it has seen, \<open>h\<close>. A forward over chunks whose tokens have the hidden
  states \<open>hids\<close> and got the embeddings \<open>es\<close> (extend or decode, with or without the fused kernels,
  prefetched or not) gives every live token its gated value plus the activated convolution of the whole
  stream of its slot at its position, and every physical row past the batch zero; it leaves every slot
  with the last columns of its stream extended by its chunk, and every track slot with those up to the
  tracked boundary.
\<close>

theorem ple_layer_refines_streams:
  assumes batch: "batch_of fb m input cs" "concat cs \<noteq> []" "length cs \<le> length (fb_req_idx fb)"
    and live: "live_slots P fb m cs = Inr slots" "length slots = length cs" "\<forall>s\<in>set slots. s < length st" "live_distinct slots"
    and prep: "prepare_ple_batch ops fusion uid P input fb ngram eos = Inr (P1, Some b)"
    and layer: "1 \<le> cv_kernel C" "conv_casts lib" "fused_ok lib" "gate_kernel_ok G"
    and emb: "layer_embeddings L s P1 b g = Inr (s', P', concat es)" "map length es = map length cs"
    and hid: "take (length (concat cs)) hidden = concat hids" "map length hids = map length cs"
      "\<forall>row\<in>set (concat hids). length row = gl_hc G * gl_hidden G"
    and R: "streams_stored lib C st h"
    and track: "ple_track_targets fb b = Inr tr" "track_ok (length st) slots (conv_chunks G hids es) tr"
  shows "\<exists>st' out. layer_forward L G C lib fb b g s P1 st stp hidden = Inr (s', P', st', stp, out) \<and> length out = length input \<and>
    streams_stored lib C st' (snapshot slots (conv_chunks G hids es) tr h (advance slots (conv_chunks G hids es) h)) \<and>
    (\<forall>q<length cs. slots ! q \<noteq> 0 \<longrightarrow> (\<forall>p<length (cs ! q). out ! (length (concat (take q cs)) + p) =
      map2 (+) (gated_chunks G hids es ! q ! p) (map (cl_silu lib)
        (conv_spec lib C (seen lib (h (slots ! q)) @ conv_chunks G hids es ! q) (length (h (slots ! q)) + p))))) \<and>
    (\<forall>t<length input. length (concat cs) \<le> t \<longrightarrow> out ! t = replicate (gl_hc G * gl_hidden G) 0)"
proof -
  let ?gs = "gated_chunks G hids es" and ?xs = "conv_chunks G hids es" and ?n = "length (concat cs)" and ?w = "gl_hc G * gl_hidden G"
  note cl = chunk_lengths[OF hid(2) emb(2)]
  have b: "pb_physical b = length input" "pb_processed b = ?n" "pb_valid b = replicate ?n True"
    by (rule prepared_batch[OF batch(1,3) live(1) prep], assumption)+
  have n: "?n \<le> length input" using batch(1) get_processed_le unfolding batch_of_def by blast
  obtain st' ys where conv: "short_conv lib C fb b st stp (concat ?xs) = Inr (st', stp, ys)" "length ys = length (concat ?xs)"
    "streams_stored lib C st' (snapshot slots ?xs tr h (advance slots ?xs h))"
    "\<forall>q<length ?xs. slots ! q \<noteq> 0 \<longrightarrow> (\<forall>p<length (?xs ! q). ys ! (length (concat (take q ?xs)) + p) =
      map (cl_silu lib) (conv_spec lib C (seen lib (h (slots ! q)) @ ?xs ! q) (length (h (slots ! q)) + p)))"
    using short_conv_streams[OF batch live prep layer(1-3) R cl(2) track, of stp] by blast
  have len: "length (concat hids) = ?n" "length (concat es) = ?n" "length (concat ?gs) = ?n" "length (concat ?xs) = ?n"
    unfolding length_concat hid(2) emb(2) cl by simp_all
  have gated: "map2 (gate_token G (pb_fast b)) (concat hids) (concat es) = concat ?gs"
    unfolding gate_token_fast[OF layer(4), of "pb_fast b"] gated_chunks_def by (rule map2_concat) (simp add: hid(2) emb(2))
  have normed: "map (grouped_norm G (gl_wconv G)) (concat ?gs) = concat ?xs" by (simp add: conv_chunks_def map_concat)
  let ?out = "map2 (map2 (+)) (concat ?gs) ys"
  have lo: "length ?out = ?n" using conv(2) len by simp
  have kept: "(if pb_fast b then Inr ?out else map_sum id (map (\<lambda>(v, row). if v then row else replicate ?w 0)) (bcast (pb_valid b) ?out)) = Inr ?out"
  proof -
    have "bcast (pb_valid b) ?out = Inr (map (Pair True) ?out)"
      unfolding b(3) using lo by (subst bcast_same) (simp_all add: zip_replicate1)
    then show ?thesis by (simp add: comp_def)
  qed
  let ?rows = "?out @ replicate (length input - ?n) (replicate ?w 0)"
  have pad: "pad_token_rows (replicate ?w 0) ?out (pb_physical b) = Inr ?rows" unfolding pad_token_rows_def b(1) lo using n by simp
  have shape: "\<not> (\<exists>row\<in>set (concat hids). length row \<noteq> ?w)" using hid(3) by blast
  have run: "layer_forward L G C lib fb b g s P1 st stp hidden = Inr (s', P', st', stp, ?rows)"
    unfolding layer_forward_def layer_output_def Let_def b(2) hid(1) emb(1) res_bind_simps prod.case if_not_P[OF shape] len(1,2) gated normed conv(1) kept pad
    by simp
  have at: "?rows ! (length (concat (take q cs)) + p) = map2 (+) (?gs ! q ! p) (map (cl_silu lib)
      (conv_spec lib C (seen lib (h (slots ! q)) @ ?xs ! q) (length (h (slots ! q)) + p)))"
    if q: "q < length cs" "slots ! q \<noteq> 0" "p < length (cs ! q)" for q p
  proof -
    have tk: "length (concat (take q xss)) = length (concat (take q cs))" if "map length xss = map length cs" for xss :: "rat list list list"
      unfolding length_concat take_map[symmetric] that ..
    have lc: "length ?gs = length cs" "length ?xs = length cs" "length (?gs ! q) = length (cs ! q)" "length (?xs ! q) = length (cs ! q)"
      using cl q(1) by (metis length_map, metis length_map, metis length_map nth_map, metis length_map nth_map)
    have split: "concat ?gs = concat (take q ?gs) @ ?gs ! q @ concat (drop (Suc q) ?gs)"
      using q(1) lc(1) by (metis concat.simps(2) concat_append id_take_nth_drop)
    have cell: "concat ?gs ! (length (concat (take q ?gs)) + p) = ?gs ! q ! p"
      unfolding split nth_append_length_plus using q(3) lc(3) by (simp add: nth_append)
    have "length (concat (take q ?gs)) + p < length (concat ?gs)" unfolding split using q(3) lc(3) by simp
    then have t: "length (concat (take q cs)) + p < ?n" unfolding tk[OF cl(1)] len(3) .
    have "ys ! (length (concat (take q ?xs)) + p) =
        map (cl_silu lib) (conv_spec lib C (seen lib (h (slots ! q)) @ ?xs ! q) (length (h (slots ! q)) + p))"
      using conv(4) q lc by simp
    then have "?out ! (length (concat (take q cs)) + p) = map2 (+) (?gs ! q ! p)
        (map (cl_silu lib) (conv_spec lib C (seen lib (h (slots ! q)) @ ?xs ! q) (length (h (slots ! q)) + p)))"
      using t len conv(2) cell unfolding tk[OF cl(1)] tk[OF cl(2)] by (simp del: length_concat)
    then show ?thesis using t lo by (simp add: nth_append del: length_concat)
  qed
  have "?rows ! t = replicate ?w 0" if "t < length input" "?n \<le> t" for t
    using that lo by (simp add: nth_append del: length_concat)
  then show ?thesis using run conv(3) at n lo by (intro exI[of _ st'] exI[of _ ?rows]) (simp del: length_concat)
qed

text \<open>Three tokens with prefetched embeddings and a padding row; one branch of one value.\<close>

definition demo_gate :: gate_lib where
  "demo_gate = \<lparr>gl_key = take 1, gl_value = drop 1, gl_wkey = [0], gl_wquery = [1], gl_wconv = [2], gl_eps = 1, gl_hidden = 1, gl_hc = 1,
     gl_rsqrt = id, gl_sqrt = (\<lambda>_. 1), gl_sigmoid = (\<lambda>v. v / 2), gl_norm_kernel = None, gl_gate_kernel = None\<rparr>"

definition demo_pending :: prefetch_state where
  "demo_pending = demo_prefetch\<lparr>pf_pending := Some (Eager_Buffer 3, 3, 4)\<rparr>"

lemma ple_layer_refines_streams_witness:
  "\<exists>P1 b st' out. prepare_ple_batch table_ops True 0 demo_pool [5, 9, 4, 0] demo_batch None None = Inr (P1, Some b) \<and>
     layer_forward demo_ple demo_gate demo_layer demo_conv demo_batch b None demo_pending P1 (replicate 5 [[0], [0]]) None [[1], [2], [3], [0]] =
       Inr (demo_prefetch, P1, st', None, out) \<and> length out = 4 \<and> out ! 3 = [0]"
proof -
  let ?es = "[[[2, 4]], [[6, 8], [10, 12]]] :: rat list list list" and ?hids = "[[[1]], [[2], [3]]] :: rat list list list"
  let ?cs = "[[5], [9, 4]] :: i64 list list" and ?hidden = "[[1], [2], [3], [0]] :: rat list list" and ?st = "replicate 5 [[0], [0]] :: column list list"
  obtain P1 B where p: "prepare_ple_batch table_ops True 0 demo_pool [5, 9, 4, 0] demo_batch None None = Inr (P1, Some B)"
    "ple_track_targets demo_batch B = Inr (Some ([0, 4], [0, 1]))" using demo_prepared by blast
  have b: "batch_of demo_batch Extend [5, 9, 4, 0] ?cs" by code_simp
  have l: "live_slots demo_pool demo_batch Extend ?cs = Inr [1, 3]" by code_simp
  have pre: "concat ?cs \<noteq> []" "length ?cs \<le> length (fb_req_idx demo_batch)" "length [1, 3 :: nat] = length ?cs"
    "\<forall>s\<in>set [1, 3]. s < length ?st" "live_distinct [1, 3]" by (simp_all add: live_distinct_def demo_batch_def)
  have gk: "gate_kernel_ok demo_gate" by (simp add: gate_kernel_ok_def demo_gate_def)
  have "consume_prefetched demo_ple demo_pending = Inr (demo_prefetch, concat ?es)"
    by (simp add: consume_prefetched_def Let_def demo_pending_def demo_prefetch_def demo_ple_def rank_lookup_def ple_reduce_def
        finish_embedding_lookup_def numeral_3_eq_3 numeral_2_eq_2)
  then have e: "layer_embeddings demo_ple demo_pending P1 B None = Inr (demo_prefetch, P1, concat ?es)" "map length ?es = map length ?cs"
    by (simp_all add: layer_embeddings_def demo_pending_def)
  have h: "take (length (concat ?cs)) ?hidden = concat ?hids" "map length ?hids = map length ?cs"
    "\<forall>row\<in>set (concat ?hids). length row = gl_hc demo_gate * gl_hidden demo_gate" by (simp_all add: demo_gate_def)
  have t: "track_ok (length ?st) [1, 3] (conv_chunks demo_gate ?hids ?es) (Some ([0, 4], [0, 1]))"
    by (simp add: track_ok_def conv_chunks_def gated_chunks_def live_distinct_def All_less_Suc numeral_2_eq_2)
  obtain st' out where r: "layer_forward demo_ple demo_gate demo_layer demo_conv demo_batch B None demo_pending P1 ?st None ?hidden =
      Inr (demo_prefetch, P1, st', None, out)" "length out = length [5, 9, 4, 0 :: i64]"
    "\<forall>t<length [5, 9, 4, 0 :: i64]. length (concat ?cs) \<le> t \<longrightarrow> out ! t = replicate (gl_hc demo_gate * gl_hidden demo_gate) 0"
    using ple_layer_refines_streams[OF b pre(1,2) l pre(3-5) p(1) demo_conv_ok(3,1,2) gk e h demo_streams p(2) t, of None]
    by (elim exE conjE) (rule that)
  have "out ! 3 = [0]" using r(3)[rule_format, of 3] by (simp add: demo_gate_def)
  then show ?thesis using p(1) r(1,2) by auto
qed

end
