(* ===== verification/Ple_Model.thy ===== *)
theory Ple_Model
  imports Ple_Forward
begin

text \<open>
  The loop of the model over its decoder layers (\<^verbatim>\<open>Qwen4ExpModel.forward\<close> and
  \<^verbatim>\<open>_prepare_qwen4_exp_attn\<close> of \<^verbatim>\<open>runtime-src/qwen4_exp.py\<close>), as far as the PLE layers take part: the
  batch is prepared, every layer starts the prefetch of the next one and adds its own PLE output to
  the hidden states, and the n-gram history is committed at the end. What a layer does after that
  (attention, experts and their residual connections) is an argument.
\<close>

section \<open>The layers\<close>

record ple_part =
  pp_layer :: ple_layer
  pp_gate :: gate_lib
  pp_conv :: conv_layer
  pp_lib :: conv_lib

record decoder =
  dc_ple :: "ple_part option"
  dc_run :: "rat list list \<Rightarrow> (rat list list \<times> rat list list option) result"

record layer_state =
  ls_prefetch :: prefetch_state
  ls_conv :: "column list list"
  ls_steps :: "column list list list option"

record ('a, 'n) model_state =
  ms_pool :: "('a, 'n) ple_pool"
  ms_hidden :: "rat list list"
  ms_residual :: "rat list list option"
  ms_layers :: "layer_state list"

definition add_rows :: "rat list list \<Rightarrow> rat list list \<Rightarrow> rat list list result" where
  "add_rows xs ys = res_bind (bcast xs ys) (\<lambda>ps.
     if \<exists>(x, y)\<in>set ps. length x \<noteq> length y then Inl RuntimeError else Inr (map (\<lambda>(x, y). map2 (+) x y) ps))"

text \<open>Hidden states that are not yet spread over the branches are repeated for each.\<close>

definition expand_hidden :: "nat \<Rightarrow> nat \<Rightarrow> rat list list \<Rightarrow> rat list list result" where
  "expand_hidden hc hs hidden =
     (if \<exists>row\<in>set hidden. length row \<noteq> hc * hs
      then if \<exists>row\<in>set hidden. length row \<noteq> hs then Inl AssertionError else Inr (map (\<lambda>row. concat (replicate hc row)) hidden)
      else Inr hidden)"

text \<open>One forward: the batch, whether a graph is captured, the number of input ids, the data-parallel buffer.\<close>

record forward_call =
  fc_batch :: fwd_batch
  fc_ple :: "ple_batch option"
  fc_capture :: bool
  fc_numel :: nat
  fc_global :: "nat option"

definition run_ple :: "ple_part \<Rightarrow> forward_call \<Rightarrow> nat \<Rightarrow> ('a, 'n) model_state \<Rightarrow> ('a, 'n) model_state result" where
  "run_ple p fc i S =
     (let ls = ms_layers S ! i; put = (\<lambda>ls'. (ms_layers S)[i := ls'])
      in case fc_ple fc of
           None \<Rightarrow>
             if get_ple_forward_mode (fc_batch fc) \<noteq> Idle then Inl RuntimeError
             else map_sum id (\<lambda>s. S\<lparr>ms_layers := put (ls\<lparr>ls_prefetch := s\<rparr>)\<rparr>)
                    (forward_idle (pp_layer p) (ls_prefetch ls) (fc_numel fc) (fc_global fc))
         | Some b \<Rightarrow>
             res_bind (case ms_residual S of None \<Rightarrow> Inr (ms_hidden S) | Some r \<Rightarrow> add_rows (ms_hidden S) r) (\<lambda>query.
             res_bind (layer_forward (pp_layer p) (pp_gate p) (pp_conv p) (pp_lib p) (fc_batch fc) b (fc_global fc)
                    (ls_prefetch ls) (ms_pool S) (ls_conv ls) (ls_steps ls) query) (\<lambda>(s, P, st, stp, out).
             map_sum id (\<lambda>hidden. S\<lparr>ms_pool := P, ms_hidden := hidden,
                  ms_layers := put \<lparr>ls_prefetch = s, ls_conv = st, ls_steps = stp\<rparr>\<rparr>) (add_rows (ms_hidden S) out))))"

definition run_decoder :: "nat \<Rightarrow> nat \<Rightarrow> decoder list \<Rightarrow> forward_call \<Rightarrow> nat \<Rightarrow> ('a, 'n) model_state \<Rightarrow> ('a, 'n) model_state result" where
  "run_decoder hc hs ds fc i S =
     res_bind (expand_hidden hc hs (ms_hidden S)) (\<lambda>hidden.
     res_bind (case dc_ple (ds ! i) of None \<Rightarrow> Inr (S\<lparr>ms_hidden := hidden\<rparr>) | Some p \<Rightarrow> run_ple p fc i (S\<lparr>ms_hidden := hidden\<rparr>)) (\<lambda>S1.
       map_sum id (\<lambda>(h, r). S1\<lparr>ms_hidden := h, ms_residual := r\<rparr>) (dc_run (ds ! i) (ms_hidden S1))))"

definition prefetch_next :: "decoder list \<Rightarrow> forward_call \<Rightarrow> nat \<Rightarrow> ('a, 'n) model_state \<Rightarrow> ('a, 'n) model_state result" where
  "prefetch_next ds fc i S =
     (if i + 1 < length ds
      then case dc_ple (ds ! (i + 1)) of None \<Rightarrow> Inr S
           | Some p \<Rightarrow>
               let ls = ms_layers S ! (i + 1)
               in map_sum id (\<lambda>(s, P). S\<lparr>ms_pool := P, ms_layers := (ms_layers S)[i + 1 := ls\<lparr>ls_prefetch := s\<rparr>]\<rparr>)
                    (start_prefetch (pp_layer p) (fc_capture fc) (ls_prefetch ls) (ms_pool S) (fc_ple fc) (fc_numel fc) (fc_global fc))
      else Inr S)"

definition layer_step :: "nat \<Rightarrow> nat \<Rightarrow> decoder list \<Rightarrow> forward_call \<Rightarrow> ('a, 'n) model_state \<Rightarrow> nat \<Rightarrow> ('a, 'n) model_state result" where
  "layer_step hc hs ds fc S i = res_bind (prefetch_next ds fc i S) (run_decoder hc hs ds fc i)"

definition run_layers :: "nat \<Rightarrow> nat \<Rightarrow> decoder list \<Rightarrow> forward_call \<Rightarrow> ('a, 'n) model_state \<Rightarrow> ('a, 'n) model_state result" where
  "run_layers hc hs ds fc S = res_fold (layer_step hc hs ds fc) S [0..<length ds]"

definition model_forward ::
  "'n ngram_ops \<Rightarrow> bool \<Rightarrow> nat \<Rightarrow> (nat \<times> i64) option \<Rightarrow> nat \<Rightarrow> nat \<Rightarrow> decoder list \<Rightarrow> i64 list \<Rightarrow> forward_call \<Rightarrow>
   ('a, 'n) model_state \<Rightarrow> ('a, 'n) model_state result" where
  "model_forward ops fusion uid ngram hc hs ds input fc S =
     res_bind (case ngram of None \<Rightarrow> Inr (ms_pool S, None)
               | Some (n, eos) \<Rightarrow> prepare_ple_batch ops fusion uid (ms_pool S) input (fc_batch fc) (Some n) (Some eos)) (\<lambda>(P, batch).
     res_bind (run_layers hc hs ds (fc\<lparr>fc_ple := batch\<rparr>) (S\<lparr>ms_pool := P, ms_residual := None\<rparr>)) (\<lambda>S1.
       map_sum id (\<lambda>P'. S1\<lparr>ms_pool := P'\<rparr>) (commit_ple_batch ops (ms_pool S1) batch (fc_batch fc))))"

section \<open>The ids do not depend on the shared cache\<close>

definition ids_of :: "ple_layer \<Rightarrow> ple_batch \<Rightarrow> int list list" where
  "ids_of L b =
     (let c = ll_ngram L; w = gather_windows (ngram_size c) b (the (pb_context b))
      in case (if pb_mode b = Decode \<or> pb_mode b = Target_Verify then ll_hash L else None) of
           Some f \<Rightarrow> f w
         | None \<Rightarrow> map (\<lambda>row. hash_window c (ll_mults L) (ll_sizes L) (ll_offs L) (shifts_of (eos_token c) (ngram_size c) row) (length row - 1)) w)"

lemma length_shifts_of [simp]: "length (shifts_of e n row) = n"
  by (simp add: shifts_of_def)

lemma map2_map_self: "map2 f (map g xs) xs = map (\<lambda>x. f (g x) x) xs"
  by (rule nth_equalityI) simp_all

lemma hash_contexts_any:
  assumes "case cache of None \<Rightarrow> True | Some (u', w', sh) \<Rightarrow> u' = u \<longrightarrow> w' = w \<and> (sh = None \<or> sh = Some (map (shifts_of (eos_token c) (ngram_size c)) w))"
  shows "\<exists>cache'. hash_contexts hash c mults sizes offs u w d cache = Inr (cache',
      case (if d then hash else None) of Some f \<Rightarrow> f w
      | None \<Rightarrow> map (\<lambda>row. hash_window c mults sizes offs (shifts_of (eos_token c) (ngram_size c) row) (length row - 1)) w) \<and>
    (case cache' of None \<Rightarrow> True | Some (u', w', sh) \<Rightarrow> u' = u \<longrightarrow> w' = w \<and> (sh = None \<or> sh = Some (map (shifts_of (eos_token c) (ngram_size c)) w)))"
  using assms by (auto simp: hash_contexts_def Let_def map2_map_self split: option.splits prod.splits if_splits)

lemma layer_ids_any:
  assumes ctx: "pb_context b \<noteq> None" and cache: "cache_ok (ll_ngram L) b (ple_window_cache P)"
  shows "\<exists>cache'. layer_ids L P b = Inr (P\<lparr>ple_window_cache := cache'\<rparr>, ids_of L b) \<and> cache_ok (ll_ngram L) b cache'"
proof -
  let ?c = "ll_ngram L" and ?w = "gather_windows (ngram_size (ll_ngram L)) b (the (pb_context b))"
  let ?d = "pb_mode b = Decode \<or> pb_mode b = Target_Verify"
  obtain sh where sh: "sh = None \<or> sh = Some (map (shifts_of (eos_token ?c) (ngram_size ?c)) ?w)"
    "(case ple_window_cache P of Some (u, w, sh) \<Rightarrow> if u = pb_uid b then (Some (u, w, sh), w) else (Some (pb_uid b, ?w, None), ?w)
      | None \<Rightarrow> (Some (pb_uid b, ?w, None), ?w)) = (Some (pb_uid b, ?w, sh), ?w)"
  proof (cases "\<exists>w sh. ple_window_cache P = Some (pb_uid b, w, sh)")
    case True
    then obtain w' sh where "ple_window_cache P = Some (pb_uid b, w', sh)" by blast
    then show thesis using cache that[of sh] by (auto simp: cache_ok_def)
  next
    case False
    then show thesis using that[of None] by (auto split: option.split)
  qed
  obtain cache' where h: "hash_contexts (ll_hash L) ?c (ll_mults L) (ll_sizes L) (ll_offs L) (pb_uid b) ?w ?d (Some (pb_uid b, ?w, sh)) =
      Inr (cache', ids_of L b)"
    "case cache' of None \<Rightarrow> True | Some (u', w', sh) \<Rightarrow> u' = pb_uid b \<longrightarrow> w' = ?w \<and> (sh = None \<or> sh = Some (map (shifts_of (eos_token ?c) (ngram_size ?c)) ?w))"
    using hash_contexts_any[where cache = "Some (pb_uid b, ?w, sh)" and u = "pb_uid b" and w = ?w and c = ?c and hash = "ll_hash L"
      and mults = "ll_mults L" and sizes = "ll_sizes L" and offs = "ll_offs L" and d = ?d] sh(1)
    unfolding ids_of_def Let_def by auto
  have "cache_ok ?c b cache'" unfolding cache_ok_def using h(2) by (cases cache') auto
  moreover obtain ctx' where c: "pb_context b = Some ctx'" using ctx by blast
  have "layer_ids L P b = Inr (P\<lparr>ple_window_cache := cache'\<rparr>, ids_of L b)"
    unfolding layer_ids_def compute_ngram_ids_def Let_def c option.case using h(1) sh(2) unfolding c option.sel by simp
  ultimately show ?thesis by blast
qed

definition emb_of :: "ple_layer \<Rightarrow> ple_batch \<Rightarrow> nat option \<Rightarrow> rat list list result" where
  "emb_of L b g = embed_ngram_ids (ll_lookup L) (ids_of L b) g (pb_physical b)"

lemma ple_embedding_any:
  assumes "pb_context b \<noteq> None" "cache_ok (ll_ngram L) b (ple_window_cache P)"
  shows "\<exists>cache'. ple_embedding L P b g = map_sum id (Pair (P\<lparr>ple_window_cache := cache'\<rparr>)) (emb_of L b g) \<and> cache_ok (ll_ngram L) b cache'"
  using layer_ids_any[OF assms] by (auto simp: ple_embedding_def emb_of_def)

section \<open>Prefetching is transparent\<close>

text \<open>
  The two runs: \<open>S\<close> without prefetch streams, \<open>T\<close> with them. They agree on everything but the prefetch
  states and the shared cache of windows; the layers in \<open>J\<close> may have a prefetch pending, which for a
  batch holds their embeddings. An idle rank has no batch.
\<close>

definition same_hash :: "ngram_config \<Rightarrow> decoder list \<Rightarrow> bool" where
  "same_hash c ds \<longleftrightarrow> (\<forall>d\<in>set ds. \<forall>p. dc_ple d = Some p \<longrightarrow> ple_layer_ok (pp_layer p) \<and>
     ngram_size (ll_ngram (pp_layer p)) = ngram_size c \<and> eos_token (ll_ngram (pp_layer p)) = eos_token c)"

definition streams_off :: "ngram_config \<Rightarrow> decoder list \<Rightarrow> ple_batch option \<Rightarrow> ('a, 'n) model_state \<Rightarrow> bool" where
  "streams_off c ds ob S \<longleftrightarrow> length (ms_layers S) = length ds \<and> (\<forall>b. ob = Some b \<longrightarrow> cache_ok c b (ple_window_cache (ms_pool S))) \<and>
     (\<forall>j<length ds. \<forall>p. dc_ple (ds ! j) = Some p \<longrightarrow>
       \<not> pf_stream (ls_prefetch (ms_layers S ! j)) \<and> pf_pending (ls_prefetch (ms_layers S ! j)) = None)"

definition holds_embeddings :: "ple_layer \<Rightarrow> ple_batch \<Rightarrow> nat option \<Rightarrow> prefetch_state \<Rightarrow> ('a, 'n) ple_pool itself \<Rightarrow> bool" where
  "holds_embeddings L b g s T \<longleftrightarrow> (\<exists>e. emb_of L b g = Inr e \<and>
     (\<forall>Q :: ('a, 'n) ple_pool. layer_embeddings L s Q b g = Inr (s\<lparr>pf_pending := None\<rparr>, Q, e)))"

definition consumable ::
  "ple_layer \<Rightarrow> ple_batch option \<Rightarrow> nat \<Rightarrow> nat option \<Rightarrow> prefetch_state \<Rightarrow> ('a, 'n) ple_pool itself \<Rightarrow> bool" where
  "consumable L ob numel g s T = (case ob of Some b \<Rightarrow> holds_embeddings L b g s T
     | None \<Rightarrow> \<exists>s'. forward_idle L s numel g = Inr s' \<and> pf_stream s' \<and> buffers_ok L s' \<and> pf_pending s' = None)"

definition streams_on ::
  "ngram_config \<Rightarrow> decoder list \<Rightarrow> ple_batch option \<Rightarrow> nat \<Rightarrow> nat option \<Rightarrow> nat set \<Rightarrow> ('a, 'n) model_state \<Rightarrow> bool" where
  "streams_on c ds ob numel g J T \<longleftrightarrow> length (ms_layers T) = length ds \<and> (\<forall>b. ob = Some b \<longrightarrow> cache_ok c b (ple_window_cache (ms_pool T))) \<and>
     (\<forall>j<length ds. \<forall>p. dc_ple (ds ! j) = Some p \<longrightarrow> (let s = ls_prefetch (ms_layers T ! j) in
       pf_stream s \<and> buffers_ok (pp_layer p) s \<and>
       (pf_pending s = None \<or> j \<in> J \<and> consumable (pp_layer p) ob numel g s (TYPE(('a, 'n) ple_pool)))))"

text \<open>What the direct lookup of a layer needs: the embeddings of the batch, or its part as an idle rank.\<close>

definition lookup_runs :: "ple_layer \<Rightarrow> forward_call \<Rightarrow> bool" where
  "lookup_runs L fc = (case fc_ple fc of Some b \<Rightarrow> \<exists>e. emb_of L b (fc_global fc) = Inr e
     | None \<Rightarrow> \<forall>s. pf_pending s = None \<longrightarrow> forward_idle L s (fc_numel fc) (fc_global fc) = Inr s)"

lemma idle_direct:
  assumes "pf_pending s = None" "forward_idle L s numel g = Inr s'"
  shows "\<forall>t. pf_pending t = None \<longrightarrow> forward_idle L t numel g = Inr t" "s' = s"
  using assms by (auto simp: forward_idle_def map_sum_Inr_iff split: if_splits)

definition agree :: "('a, 'n) model_state \<Rightarrow> ('a, 'n) model_state \<Rightarrow> bool" where
  "agree S T \<longleftrightarrow> ms_hidden T = ms_hidden S \<and> ms_residual T = ms_residual S \<and>
     (ms_pool T)\<lparr>ple_window_cache := None\<rparr> = (ms_pool S)\<lparr>ple_window_cache := None\<rparr> \<and>
     map ls_conv (ms_layers T) = map ls_conv (ms_layers S) \<and> map ls_steps (ms_layers T) = map ls_steps (ms_layers S)"

lemma cache_ok_cong:
  assumes "ngram_size c' = ngram_size c" "eos_token c' = eos_token c"
  shows "cache_ok c' b cache = cache_ok c b cache"
  unfolding cache_ok_def assms ..

lemma same_hash_at:
  assumes "same_hash c ds" "i < length ds" "dc_ple (ds ! i) = Some p"
  shows "ple_layer_ok (pp_layer p)" "cache_ok (ll_ngram (pp_layer p)) b cache = cache_ok c b cache"
proof -
  have a: "ple_layer_ok (pp_layer p)" "ngram_size (ll_ngram (pp_layer p)) = ngram_size c" "eos_token (ll_ngram (pp_layer p)) = eos_token c"
    using assms(1,3) nth_mem[OF assms(2)] unfolding same_hash_def by blast+
  show "ple_layer_ok (pp_layer p)" by (rule a(1))
  show "cache_ok (ll_ngram (pp_layer p)) b cache = cache_ok c b cache" by (rule cache_ok_cong[OF a(2,3)])
qed

lemma map_update_same: "f v = f (xs ! i) \<Longrightarrow> map f (xs[i := v]) = map f xs"
proof (rule nth_equalityI)
  fix j assume "f v = f (xs ! i)" "j < length (map f (xs[i := v]))"
  then show "map f (xs[i := v]) ! j = map f xs ! j" by (cases "i = j") simp_all
qed simp

lemma streams_off_decoder_batch:
  assumes off: "streams_off c ds (Some b) S" and same: "same_hash c ds" and ctx: "pb_context b \<noteq> None" and b: "fc_ple fc = Some b"
    and i: "i < length ds" and run: "run_decoder hc hs ds fc i S = Inr S'"
  shows "streams_off c ds (Some b) S'"
    and "dc_ple (ds ! i) = Some p \<Longrightarrow> \<exists>e. emb_of (pp_layer p) b (fc_global fc) = Inr e"
proof -
  obtain hidden where hidden: "expand_hidden hc hs (ms_hidden S) = Inr hidden"
    using run by (auto simp: run_decoder_def res_bind_Inr_iff)
  have "streams_off c ds (Some b) S' \<and> (\<forall>p. dc_ple (ds ! i) = Some p \<longrightarrow> (\<exists>e. emb_of (pp_layer p) b (fc_global fc) = Inr e))"
  proof (cases "dc_ple (ds ! i)")
    case None
    then show ?thesis using run off hidden by (auto simp: run_decoder_def streams_off_def map_sum_Inr_iff)
  next
    case (Some p)
    let ?L = "pp_layer p" and ?ls = "ms_layers S ! i"
    have pend: "pf_pending (ls_prefetch ?ls) = None" "\<not> pf_stream (ls_prefetch ?ls)" using off i Some by (auto simp: streams_off_def)
    have "cache_ok (ll_ngram ?L) b (ple_window_cache (ms_pool S))"
      using off unfolding same_hash_at(2)[OF same i Some] by (simp add: streams_off_def)
    then obtain cache' where pe: "ple_embedding ?L (ms_pool S) b (fc_global fc) =
        map_sum id (Pair ((ms_pool S)\<lparr>ple_window_cache := cache'\<rparr>)) (emb_of ?L b (fc_global fc))" "cache_ok (ll_ngram ?L) b cache'"
      using ple_embedding_any[OF ctx] by blast
    obtain S1 where S1: "run_ple p fc i (S\<lparr>ms_hidden := hidden\<rparr>) = Inr S1" "\<exists>h r. S' = S1\<lparr>ms_hidden := h, ms_residual := r\<rparr>"
      using run hidden Some by (auto simp: run_decoder_def res_bind_Inr_iff map_sum_Inr_iff)
    obtain e st stp out sm where e: "emb_of ?L b (fc_global fc) = Inr e" "ms_pool S1 = (ms_pool S)\<lparr>ple_window_cache := cache'\<rparr>"
      "ms_layers S1 = (ms_layers S)[i := \<lparr>ls_prefetch = ls_prefetch ?ls, ls_conv = st, ls_steps = stp\<rparr>]" "out = ms_hidden S1"
      using S1(1) pend by (auto simp: run_ple_def Let_def b layer_forward_def layer_embeddings_def pe(1) res_bind_Inr_iff map_sum_Inr_iff)
    have "streams_off c ds (Some b) S1"
    proof -
      have "ls_prefetch (ms_layers S1 ! j) = ls_prefetch (ms_layers S ! j)" for j
        using i off by (cases "j = i") (simp_all add: e(3) streams_off_def)
      then show ?thesis using off pe(2) unfolding same_hash_at(2)[OF same i Some] streams_off_def by (simp add: e(2,3))
    qed
    then show ?thesis using S1(2) e(1) Some by (auto simp: streams_off_def)
  qed
  then show "streams_off c ds (Some b) S'" "dc_ple (ds ! i) = Some p \<Longrightarrow> \<exists>e. emb_of (pp_layer p) b (fc_global fc) = Inr e" by blast+
qed

text \<open>The same for an idle rank, and for both.\<close>

lemma run_ple_idle:
  assumes "fc_ple fc = None" "pf_pending (ls_prefetch (ms_layers S ! i)) = None" "run_ple p fc i S = Inr S1"
  shows "S1 = S\<lparr>ms_layers := (ms_layers S)[i := ms_layers S ! i]\<rparr>" "lookup_runs (pp_layer p) fc"
    "get_ple_forward_mode (fc_batch fc) = Idle"
proof -
  obtain s' where s': "forward_idle (pp_layer p) (ls_prefetch (ms_layers S ! i)) (fc_numel fc) (fc_global fc) = Inr s'"
    "S1 = S\<lparr>ms_layers := (ms_layers S)[i := (ms_layers S ! i)\<lparr>ls_prefetch := s'\<rparr>]\<rparr>"
    and m: "get_ple_forward_mode (fc_batch fc) = Idle"
    using assms(1,3) unfolding run_ple_def Let_def assms(1) option.case by (auto simp: map_sum_Inr_iff split: if_splits)
  have "(ms_layers S ! i)\<lparr>ls_prefetch := ls_prefetch (ms_layers S ! i)\<rparr> = ms_layers S ! i" by simp
  then show "S1 = S\<lparr>ms_layers := (ms_layers S)[i := ms_layers S ! i]\<rparr>" "lookup_runs (pp_layer p) fc"
    "get_ple_forward_mode (fc_batch fc) = Idle"
    using s'(2) idle_direct[OF assms(2) s'(1)] m by (simp_all add: lookup_runs_def assms(1))
qed

lemma streams_off_decoder:
  assumes off: "streams_off c ds (fc_ple fc) S" and same: "same_hash c ds" and ctx: "\<forall>b. fc_ple fc = Some b \<longrightarrow> pb_context b \<noteq> None"
    and i: "i < length ds" and run: "run_decoder hc hs ds fc i S = Inr S'"
  shows "streams_off c ds (fc_ple fc) S'" and "dc_ple (ds ! i) = Some p \<Longrightarrow> lookup_runs (pp_layer p) fc"
proof -
  have "streams_off c ds (fc_ple fc) S' \<and> (\<forall>p. dc_ple (ds ! i) = Some p \<longrightarrow> lookup_runs (pp_layer p) fc)"
  proof (cases "fc_ple fc")
    case (Some b)
    have "pb_context b \<noteq> None" using ctx Some by blast
    note d = streams_off_decoder_batch[OF off[unfolded Some] same this Some i run]
    show ?thesis using d by (simp add: Some lookup_runs_def)
  next
    case None
    obtain hidden where hidden: "expand_hidden hc hs (ms_hidden S) = Inr hidden"
      using run by (auto simp: run_decoder_def res_bind_Inr_iff)
    show ?thesis
    proof (cases "dc_ple (ds ! i)")
      case n: None
      then show ?thesis using run off hidden by (auto simp: run_decoder_def streams_off_def map_sum_Inr_iff)
    next
      case p: (Some p)
      have pend: "pf_pending (ls_prefetch (ms_layers (S\<lparr>ms_hidden := hidden\<rparr>) ! i)) = None" using off i p by (auto simp: streams_off_def)
      obtain S1 where S1: "run_ple p fc i (S\<lparr>ms_hidden := hidden\<rparr>) = Inr S1" "\<exists>h r. S' = S1\<lparr>ms_hidden := h, ms_residual := r\<rparr>"
        using run hidden p by (auto simp: run_decoder_def res_bind_Inr_iff map_sum_Inr_iff)
      note idle = run_ple_idle[OF None pend S1(1)]
      have "streams_off c ds (fc_ple fc) S'" using S1(2) idle(1) off by (auto simp: streams_off_def None)
      then show ?thesis using idle(2) p by simp
    qed
  qed
  then show "streams_off c ds (fc_ple fc) S'" "dc_ple (ds ! i) = Some p \<Longrightarrow> lookup_runs (pp_layer p) fc" by blast+
qed

text \<open>Starting the prefetch of the next layer.\<close>

lemma prefetch_next_off:
  assumes "streams_off c ds ob S" shows "prefetch_next ds fc i S = Inr S"
proof (cases "i + 1 < length ds")
  case True
  show ?thesis
  proof (cases "dc_ple (ds ! (i + 1))")
    case (Some p)
    then have "\<not> pf_stream (ls_prefetch (ms_layers S ! (i + 1)))" using assms True by (auto simp: streams_off_def)
    then show ?thesis using Some by (simp add: prefetch_next_def Let_def start_prefetch_def)
  qed (simp add: prefetch_next_def)
qed (simp add: prefetch_next_def)

lemma prefetch_next_batch:
  assumes on: "streams_on c ds (Some b) (fc_numel fc) (fc_global fc) J T" and same: "same_hash c ds" and ctx: "pb_context b \<noteq> None" and b: "fc_ple fc = Some b"
    and J: "i + 1 \<notin> J" and emb: "\<And>p. i + 1 < length ds \<Longrightarrow> dc_ple (ds ! (i + 1)) = Some p \<Longrightarrow> \<exists>e. emb_of (pp_layer p) b (fc_global fc) = Inr e"
    and agree: "agree S T"
  shows "\<exists>T'. prefetch_next ds fc i T = Inr T' \<and> streams_on c ds (Some b) (fc_numel fc) (fc_global fc) (insert (i + 1) J) T' \<and> agree S T'"
proof (cases "i + 1 < length ds \<and> dc_ple (ds ! (i + 1)) \<noteq> None")
  case False
  then have "prefetch_next ds fc i T = Inr T" by (auto simp: prefetch_next_def)
  moreover have "streams_on c ds (Some b) (fc_numel fc) (fc_global fc) (insert (i + 1) J) T" using on unfolding streams_on_def Let_def by blast
  ultimately show ?thesis using agree by blast
next
  case True
  then obtain p where p: "i + 1 < length ds" "dc_ple (ds ! (i + 1)) = Some p" by blast
  let ?L = "pp_layer p" and ?s = "ls_prefetch (ms_layers T ! (i + 1))"
  have s: "pf_stream ?s" "buffers_ok ?L ?s" "pf_pending ?s = None" using on p J by (auto simp: streams_on_def Let_def)
  have ok: "ple_layer_ok ?L" by (rule same_hash_at(1)[OF same p])
  have "cache_ok (ll_ngram ?L) b (ple_window_cache (ms_pool T))"
    using on unfolding same_hash_at(2)[OF same p] by (simp add: streams_on_def)
  then obtain cache' where ids: "layer_ids ?L (ms_pool T) b = Inr ((ms_pool T)\<lparr>ple_window_cache := cache'\<rparr>, ids_of ?L b)"
    "cache_ok (ll_ngram ?L) b cache'" using layer_ids_any[OF ctx] by blast
  obtain e where e: "emb_of ?L b (fc_global fc) = Inr e" using emb[OF p] by blast
  have lt: "i + 1 < length (ms_layers T)" using on p(1) by (simp add: streams_on_def)
  obtain s1 where s1: "start_prefetch ?L (fc_capture fc) ?s (ms_pool T) (Some b) (fc_numel fc) (fc_global fc) = Inr (s1, (ms_pool T)\<lparr>ple_window_cache := cache'\<rparr>)"
    "pf_stream s1" "buffers_ok ?L s1" "pf_pending s1 = None \<or> holds_embeddings ?L b (fc_global fc) s1 (TYPE(('a, 'b) ple_pool))"
    using prefetched_layer[OF ok s(2,1,3) ids(1) e[unfolded emb_of_def]] unfolding holds_embeddings_def e by blast
  let ?T' = "T\<lparr>ms_pool := (ms_pool T)\<lparr>ple_window_cache := cache'\<rparr>, ms_layers := (ms_layers T)[i + 1 := (ms_layers T ! (i + 1))\<lparr>ls_prefetch := s1\<rparr>]\<rparr>"
  have "prefetch_next ds fc i T = Inr ?T'" using p s1(1) b by (simp add: prefetch_next_def Let_def)
  moreover have "streams_on c ds (Some b) (fc_numel fc) (fc_global fc) (insert (i + 1) J) ?T'"
    using on s1(2-4) ids(2) p lt unfolding same_hash_at(2)[OF same p] streams_on_def Let_def consumable_def option.case by (simp add: nth_list_update)
  moreover have "agree S ?T'" using agree by (simp add: agree_def map_update_same del: map_update)
  ultimately show ?thesis by blast
qed

lemma prefetch_next_idle:
  assumes on: "streams_on c ds None (fc_numel fc) (fc_global fc) J T" and same: "same_hash c ds" and b: "fc_ple fc = None"
    and J: "i + 1 \<notin> J" and runs: "\<And>p. i + 1 < length ds \<Longrightarrow> dc_ple (ds ! (i + 1)) = Some p \<Longrightarrow> lookup_runs (pp_layer p) fc"
    and agree: "agree S T"
  shows "\<exists>T'. prefetch_next ds fc i T = Inr T' \<and> streams_on c ds None (fc_numel fc) (fc_global fc) (insert (i + 1) J) T' \<and> agree S T'"
proof (cases "i + 1 < length ds \<and> dc_ple (ds ! (i + 1)) \<noteq> None")
  case False
  then have "prefetch_next ds fc i T = Inr T" by (auto simp: prefetch_next_def)
  moreover have "streams_on c ds None (fc_numel fc) (fc_global fc) (insert (i + 1) J) T" using on unfolding streams_on_def Let_def by blast
  ultimately show ?thesis using agree by blast
next
  case True
  then obtain p where p: "i + 1 < length ds" "dc_ple (ds ! (i + 1)) = Some p" by blast
  let ?L = "pp_layer p" and ?s = "ls_prefetch (ms_layers T ! (i + 1))"
  have s: "pf_stream ?s" "buffers_ok ?L ?s" "pf_pending ?s = None" using on p J by (auto simp: streams_on_def Let_def)
  have lt: "i + 1 < length (ms_layers T)" using on p(1) by (simp add: streams_on_def)
  have "\<exists>s'. forward_idle ?L ?s (fc_numel fc) (fc_global fc) = Inr s'" using runs[OF p] s(3) by (auto simp: lookup_runs_def b)
  from prefetched_idle[OF same_hash_at(1)[OF same p] s(2,1,3) this, of "fc_capture fc" "ms_pool T"]
  obtain s1 s2 where s1: "start_prefetch ?L (fc_capture fc) ?s (ms_pool T) None (fc_numel fc) (fc_global fc) = Inr (s1, ms_pool T)"
    "pf_stream s1" "buffers_ok ?L s1" "forward_idle ?L s1 (fc_numel fc) (fc_global fc) = Inr s2" "pf_stream s2" "buffers_ok ?L s2" "pf_pending s2 = None"
    by blast
  let ?T' = "T\<lparr>ms_pool := ms_pool T, ms_layers := (ms_layers T)[i + 1 := (ms_layers T ! (i + 1))\<lparr>ls_prefetch := s1\<rparr>]\<rparr>"
  have "prefetch_next ds fc i T = Inr ?T'" using p s1(1) b by (simp add: prefetch_next_def Let_def)
  moreover have "streams_on c ds None (fc_numel fc) (fc_global fc) (insert (i + 1) J) ?T'"
    using on s1(2-7) p lt unfolding streams_on_def Let_def consumable_def option.case by (simp add: nth_list_update)
  moreover have "agree S ?T'" using agree by (simp add: agree_def map_update_same del: map_update)
  ultimately show ?thesis by blast
qed

lemma prefetch_next_on:
  assumes on: "streams_on c ds (fc_ple fc) (fc_numel fc) (fc_global fc) J T" and same: "same_hash c ds"
    and ctx: "\<forall>b. fc_ple fc = Some b \<longrightarrow> pb_context b \<noteq> None"
    and J: "i + 1 \<notin> J" and runs: "\<And>p. i + 1 < length ds \<Longrightarrow> dc_ple (ds ! (i + 1)) = Some p \<Longrightarrow> lookup_runs (pp_layer p) fc"
    and agree: "agree S T"
  shows "\<exists>T'. prefetch_next ds fc i T = Inr T' \<and> streams_on c ds (fc_ple fc) (fc_numel fc) (fc_global fc) (insert (i + 1) J) T' \<and> agree S T'"
proof (cases "fc_ple fc")
  case None
  show ?thesis unfolding None by (rule prefetch_next_idle[OF on[unfolded None] same None J runs agree])
next
  case (Some b)
  have c: "pb_context b \<noteq> None" using ctx Some by blast
  have "\<exists>e. emb_of (pp_layer p) b (fc_global fc) = Inr e" if "i + 1 < length ds" "dc_ple (ds ! (i + 1)) = Some p" for p
    using runs[OF that] by (simp add: lookup_runs_def Some)
  then show ?thesis unfolding Some by (rule prefetch_next_batch[OF on[unfolded Some] same c Some J _ agree])
qed

text \<open>A layer of both runs.\<close>

lemma run_ple_batch:
  assumes on: "streams_on c ds (Some b) (fc_numel fc) (fc_global fc) J T" and off: "streams_off c ds (Some b) S" and agree: "agree S T"
    and same: "same_hash c ds" and ctx: "pb_context b \<noteq> None" and b: "fc_ple fc = Some b"
    and i: "i < length ds" "dc_ple (ds ! i) = Some p" and run: "run_ple p fc i S = Inr S1"
  shows "\<exists>T1. run_ple p fc i T = Inr T1 \<and> streams_on c ds (Some b) (fc_numel fc) (fc_global fc) (J - {i}) T1 \<and> agree S1 T1"
proof -
  let ?L = "pp_layer p" and ?s = "ls_prefetch (ms_layers S ! i)" and ?t = "ls_prefetch (ms_layers T ! i)" and ?g = "fc_global fc"
  have pend: "pf_pending ?s = None" using off i by (auto simp: streams_off_def)
  have c: "cache_ok (ll_ngram ?L) b (ple_window_cache (ms_pool S))" "cache_ok (ll_ngram ?L) b (ple_window_cache (ms_pool T))"
    using off on unfolding same_hash_at(2)[OF same i] by (simp_all add: streams_off_def streams_on_def)
  obtain cs where cs: "ple_embedding ?L (ms_pool S) b ?g = map_sum id (Pair ((ms_pool S)\<lparr>ple_window_cache := cs\<rparr>)) (emb_of ?L b ?g)"
    using ple_embedding_any[OF ctx c(1)] by blast
  obtain ct where ct: "ple_embedding ?L (ms_pool T) b ?g = map_sum id (Pair ((ms_pool T)\<lparr>ple_window_cache := ct\<rparr>)) (emb_of ?L b ?g)"
    "cache_ok (ll_ngram ?L) b ct" using ple_embedding_any[OF ctx c(2)] by blast
  have len: "length (ms_layers T) = length ds" "length (ms_layers S) = length ds" using on off by (simp_all add: streams_on_def streams_off_def)
  have ls: "ls_conv (ms_layers T ! i) = ls_conv (ms_layers S ! i)" "ls_steps (ms_layers T ! i) = ls_steps (ms_layers S ! i)"
    using agree i(1) len unfolding agree_def by (metis nth_map)+
  have hid: "ms_hidden T = ms_hidden S" "ms_residual T = ms_residual S" using agree by (simp_all add: agree_def)
  obtain query where query: "(case ms_residual S of None \<Rightarrow> Inr (ms_hidden S) | Some r \<Rightarrow> add_rows (ms_hidden S) r) = Inr query"
    using run unfolding run_ple_def Let_def b option.case by (auto simp: res_bind_Inr_iff)
  let ?out = "layer_output (pp_gate p) (pp_conv p) (pp_lib p) (fc_batch fc) b (ls_conv (ms_layers S ! i)) (ls_steps (ms_layers S ! i)) query"
  obtain e st stp out sm where e: "emb_of ?L b ?g = Inr e" "?out e = Inr (st, stp, out)"
    "add_rows (ms_hidden S) out = Inr sm" "S1 = S\<lparr>ms_pool := (ms_pool S)\<lparr>ple_window_cache := cs\<rparr>, ms_hidden := sm,
       ms_layers := (ms_layers S)[i := \<lparr>ls_prefetch = ?s, ls_conv = st, ls_steps = stp\<rparr>]\<rparr>"
    using run pend unfolding run_ple_def Let_def b option.case query res_bind_simps layer_forward_def layer_embeddings_def cs
    by (auto simp: res_bind_Inr_iff map_sum_Inr_iff)
  obtain t Q where t: "layer_embeddings ?L ?t (ms_pool T) b ?g = Inr (t, Q, e)" "pf_stream t" "buffers_ok ?L t" "pf_pending t = None"
    "Q\<lparr>ple_window_cache := None\<rparr> = (ms_pool T)\<lparr>ple_window_cache := None\<rparr>" "cache_ok (ll_ngram ?L) b (ple_window_cache Q)"
  proof (cases "pf_pending ?t")
    case None
    have "layer_embeddings ?L ?t (ms_pool T) b ?g = Inr (?t, (ms_pool T)\<lparr>ple_window_cache := ct\<rparr>, e)"
      using None ct(1) e(1) by (simp add: layer_embeddings_def)
    then show thesis by (rule that) (use None ct(2) on i in \<open>auto simp: streams_on_def Let_def\<close>)
  next
    case (Some x)
    then have "holds_embeddings ?L b ?g ?t (TYPE(('a, 'b) ple_pool))" using on i by (auto simp: streams_on_def Let_def consumable_def)
    then have "layer_embeddings ?L ?t (ms_pool T) b ?g = Inr (?t\<lparr>pf_pending := None\<rparr>, ms_pool T, e)"
      using e(1) by (auto simp: holds_embeddings_def)
    then show thesis by (rule that) (use c(2) on i in \<open>auto simp: streams_on_def Let_def\<close>)
  qed
  let ?T1 = "T\<lparr>ms_pool := Q, ms_hidden := sm, ms_layers := (ms_layers T)[i := \<lparr>ls_prefetch = t, ls_conv = st, ls_steps = stp\<rparr>]\<rparr>"
  have "run_ple p fc i T = Inr ?T1"
    unfolding run_ple_def Let_def b option.case hid ls query layer_forward_def t(1) res_bind_simps prod.case e(2) by (simp add: e(3))
  moreover have "streams_on c ds (Some b) (fc_numel fc) ?g (J - {i}) ?T1"
  proof -
    have "let s = ls_prefetch ((ms_layers T)[i := \<lparr>ls_prefetch = t, ls_conv = st, ls_steps = stp\<rparr>] ! j) in
        pf_stream s \<and> buffers_ok (pp_layer p') s \<and> (pf_pending s = None \<or> j \<in> J - {i} \<and> consumable (pp_layer p') (Some b) (fc_numel fc) ?g s (TYPE(('a, 'b) ple_pool)))"
      if j: "j < length ds" "dc_ple (ds ! j) = Some p'" for j p'
    proof (cases "j = i")
      case True
      then show ?thesis using t(2-4) i j len by simp
    next
      case False
      then show ?thesis using on j by (simp add: streams_on_def Let_def)
    qed
    then show ?thesis using len t(6) unfolding same_hash_at(2)[OF same i] by (simp add: streams_on_def)
  qed
  moreover have "agree S1 ?T1" using agree t(5) by (simp add: agree_def e(4) map_update)
  ultimately show ?thesis by blast
qed

lemma run_ple_both:
  assumes on: "streams_on c ds (fc_ple fc) (fc_numel fc) (fc_global fc) J T" and off: "streams_off c ds (fc_ple fc) S" and agree: "agree S T"
    and same: "same_hash c ds" and ctx: "\<forall>b. fc_ple fc = Some b \<longrightarrow> pb_context b \<noteq> None"
    and i: "i < length ds" "dc_ple (ds ! i) = Some p" and run: "run_ple p fc i S = Inr S1"
  shows "\<exists>T1. run_ple p fc i T = Inr T1 \<and> streams_on c ds (fc_ple fc) (fc_numel fc) (fc_global fc) (J - {i}) T1 \<and> agree S1 T1"
proof (cases "fc_ple fc")
  case (Some b)
  have c: "pb_context b \<noteq> None" using ctx Some by blast
  show ?thesis using run_ple_batch[OF on[unfolded Some] off[unfolded Some] agree same c Some i run] by (simp add: Some)
next
  case None
  let ?L = "pp_layer p" and ?t = "ls_prefetch (ms_layers T ! i)" and ?n = "fc_numel fc" and ?g = "fc_global fc"
  have pend: "pf_pending (ls_prefetch (ms_layers S ! i)) = None" using off i by (auto simp: streams_off_def)
  note idle = run_ple_idle[OF None pend run]
  have len: "length (ms_layers T) = length ds" using on by (simp add: streams_on_def)
  have t: "pf_stream ?t" "buffers_ok ?L ?t" "pf_pending ?t = None \<or> consumable ?L None ?n ?g ?t (TYPE(('a, 'b) ple_pool))"
    using on i by (auto simp: streams_on_def Let_def None)
  obtain t' where t': "forward_idle ?L ?t ?n ?g = Inr t'" "pf_stream t'" "buffers_ok ?L t'" "pf_pending t' = None"
    using t idle(2) by (auto simp: consumable_def lookup_runs_def None)
  let ?T1 = "T\<lparr>ms_layers := (ms_layers T)[i := (ms_layers T ! i)\<lparr>ls_prefetch := t'\<rparr>]\<rparr>"
  have "run_ple p fc i T = Inr ?T1" using t'(1) idle(3) by (simp add: run_ple_def Let_def None)
  moreover have "streams_on c ds None ?n ?g (J - {i}) ?T1"
    using on[unfolded None] t'(2-4) i len unfolding streams_on_def Let_def by (auto simp: nth_list_update)
  moreover have "agree S1 ?T1" using agree by (simp add: agree_def idle(1) map_update_same del: map_update)
  ultimately show ?thesis by (auto simp: None)
qed

lemma run_decoder_both:
  assumes on: "streams_on c ds (fc_ple fc) (fc_numel fc) (fc_global fc) J T" and off: "streams_off c ds (fc_ple fc) S" and agree: "agree S T"
    and same: "same_hash c ds" and ctx: "\<forall>b. fc_ple fc = Some b \<longrightarrow> pb_context b \<noteq> None"
    and i: "i < length ds" and run: "run_decoder hc hs ds fc i S = Inr S'"
  shows "\<exists>T'. run_decoder hc hs ds fc i T = Inr T' \<and> streams_on c ds (fc_ple fc) (fc_numel fc) (fc_global fc) (J - {i}) T' \<and> agree S' T'"
proof -
  have hid: "ms_hidden T = ms_hidden S" using agree by (simp add: agree_def)
  obtain hidden where hidden: "expand_hidden hc hs (ms_hidden S) = Inr hidden"
    using run by (auto simp: run_decoder_def res_bind_Inr_iff)
  let ?S0 = "S\<lparr>ms_hidden := hidden\<rparr>" and ?T0 = "T\<lparr>ms_hidden := hidden\<rparr>"
  have o: "streams_on c ds (fc_ple fc) (fc_numel fc) (fc_global fc) J ?T0" "streams_off c ds (fc_ple fc) ?S0" "agree ?S0 ?T0"
    using on off agree by (simp_all add: streams_on_def streams_off_def agree_def)
  obtain S1 T1 where ST: "(case dc_ple (ds ! i) of None \<Rightarrow> Inr ?S0 | Some p \<Rightarrow> run_ple p fc i ?S0) = Inr S1"
    "(case dc_ple (ds ! i) of None \<Rightarrow> Inr ?T0 | Some p \<Rightarrow> run_ple p fc i ?T0) = Inr T1"
    "streams_on c ds (fc_ple fc) (fc_numel fc) (fc_global fc) (J - {i}) T1" "agree S1 T1"
  proof (cases "dc_ple (ds ! i)")
    case None
    have "streams_on c ds (fc_ple fc) (fc_numel fc) (fc_global fc) (J - {i}) ?T0"
      using o(1) None unfolding streams_on_def Let_def by (metis DiffI option.distinct(1) singletonD)
    then show thesis using that None o(3) by simp
  next
    case (Some p)
    obtain S1 where S1: "run_ple p fc i ?S0 = Inr S1" using run hidden Some by (auto simp: run_decoder_def res_bind_Inr_iff)
    show thesis using run_ple_both[OF o same ctx i Some S1] that Some S1 by auto
  qed
  obtain h r where hr: "dc_run (ds ! i) (ms_hidden S1) = Inr (h, r)" "S' = S1\<lparr>ms_hidden := h, ms_residual := r\<rparr>"
    using run hidden ST(1) by (auto simp: run_decoder_def res_bind_Inr_iff map_sum_Inr_iff)
  have "ms_hidden T1 = ms_hidden S1" using ST(4) by (simp add: agree_def)
  then have "run_decoder hc hs ds fc i T = Inr (T1\<lparr>ms_hidden := h, ms_residual := r\<rparr>)"
    using hidden ST(2) hr(1) hid by (simp add: run_decoder_def)
  moreover have "streams_on c ds (fc_ple fc) (fc_numel fc) (fc_global fc) (J - {i}) (T1\<lparr>ms_hidden := h, ms_residual := r\<rparr>)" "agree S' (T1\<lparr>ms_hidden := h, ms_residual := r\<rparr>)"
    using ST(3,4) by (simp_all add: streams_on_def agree_def hr(2))
  ultimately show ?thesis by blast
qed

text \<open>The whole loop, from any layer on.\<close>

lemma run_layers_both:
  assumes same: "same_hash c ds" and ctx: "\<forall>b. fc_ple fc = Some b \<longrightarrow> pb_context b \<noteq> None"
  shows "i \<le> length ds \<Longrightarrow> streams_off c ds (fc_ple fc) S \<Longrightarrow> streams_on c ds (fc_ple fc) (fc_numel fc) (fc_global fc) {i} T \<Longrightarrow> agree S T \<Longrightarrow>
    res_fold (layer_step hc hs ds fc) S [i..<length ds] = Inr S' \<Longrightarrow>
    \<exists>T'. res_fold (layer_step hc hs ds fc) T [i..<length ds] = Inr T' \<and> streams_on c ds (fc_ple fc) (fc_numel fc) (fc_global fc) {length ds} T' \<and> agree S' T'"
proof (induction "length ds - i" arbitrary: i S T)
  case 0
  then show ?case by auto
next
  case (Suc k)
  then have i: "i < length ds" by simp
  then have upt: "[i..<length ds] = i # [i + 1..<length ds]" by (simp add: upt_conv_Cons)
  note off = Suc.prems(2) and on = Suc.prems(3) and ag = Suc.prems(4)
  obtain S1 where S1: "run_decoder hc hs ds fc i S = Inr S1" "res_fold (layer_step hc hs ds fc) S1 [i + 1..<length ds] = Inr S'"
    using Suc.prems(5) unfolding upt by (auto simp: res_bind_Inr_iff layer_step_def prefetch_next_off[OF off])
  note off1 = streams_off_decoder(1)[OF off same ctx i S1(1)]
  have emb: "lookup_runs (pp_layer p) fc" if p: "i + 1 < length ds" "dc_ple (ds ! (i + 1)) = Some p" for p
  proof -
    have "[i + 1..<length ds] = (i + 1) # [i + 2..<length ds]" using p(1) by (simp add: upt_conv_Cons)
    then obtain S2 where "run_decoder hc hs ds fc (i + 1) S1 = Inr S2"
      using S1(2) by (auto simp: res_bind_Inr_iff layer_step_def prefetch_next_off[OF off1])
    then show ?thesis using streams_off_decoder(2)[OF off1 same ctx p(1) _ p(2)] by blast
  qed
  have "\<exists>T0. prefetch_next ds fc i T = Inr T0 \<and> streams_on c ds (fc_ple fc) (fc_numel fc) (fc_global fc) (insert (i + 1) {i}) T0 \<and> agree S T0"
    by (rule prefetch_next_on[OF on same ctx _ emb ag]) simp_all
  then obtain T0 where T0: "prefetch_next ds fc i T = Inr T0" "streams_on c ds (fc_ple fc) (fc_numel fc) (fc_global fc) (insert (i + 1) {i}) T0" "agree S T0" by blast
  obtain T1 where T1: "run_decoder hc hs ds fc i T0 = Inr T1" "streams_on c ds (fc_ple fc) (fc_numel fc) (fc_global fc) (insert (i + 1) {i} - {i}) T1" "agree S1 T1"
    using run_decoder_both[OF T0(2) off T0(3) same ctx i S1(1)] by blast
  have "insert (i + 1) {i} - {i} = {i + 1}" by auto
  then have "\<exists>T'. res_fold (layer_step hc hs ds fc) T1 [i + 1..<length ds] = Inr T' \<and> streams_on c ds (fc_ple fc) (fc_numel fc) (fc_global fc) {length ds} T' \<and> agree S' T'"
    using Suc.hyps(1)[of "i + 1" S1 T1] Suc.hyps(2) i off1 T1(2,3) S1(2) by simp
  then show ?case unfolding upt by (auto simp: layer_step_def T0(1) T1(1))
qed

lemma prepare_context:
  assumes "prepare_ple_batch ops fusion uid P input fb (Some n) (Some eos) = Inr (P1, batch)"
  shows "P1 = P\<lparr>ple_window_cache := None\<rparr>" "batch = Some b \<Longrightarrow> pb_context b \<noteq> None"
  using assms unfolding prepare_ple_batch_def Let_def by (auto simp: res_bind_Inr_iff map_sum_Inr_iff split: if_splits)

lemma prepare_cache:
  "prepare_ple_batch ops fusion uid (P\<lparr>ple_window_cache := x\<rparr>) input fb ngram eos = prepare_ple_batch ops fusion uid P input fb ngram eos"
proof -
  have "P\<lparr>ple_window_cache := x, ple_window_cache := None\<rparr> = P\<lparr>ple_window_cache := None\<rparr>" by simp
  then show ?thesis unfolding prepare_ple_batch_def Let_def by (simp only:)
qed

lemma commit_cache:
  "commit_ple_batch ops (P\<lparr>ple_window_cache := x\<rparr>) batch fb = map_sum id (\<lambda>Q. Q\<lparr>ple_window_cache := x\<rparr>) (commit_ple_batch ops P batch fb)"
proof -
  have m: "map_sum id f (map_sum id g r) = map_sum id (\<lambda>y. f (g y)) r" for f :: "'y \<Rightarrow> 'z" and g :: "'x \<Rightarrow> 'y" and r :: "'x result"
    by (cases r) simp_all
  have r: "map_sum id f (res_bind r k) = res_bind r (\<lambda>y. map_sum id f (k y))" "res_bind (map_sum id h r) k' = res_bind r (\<lambda>y. k' (h y))"
    for f :: "'y \<Rightarrow> 'z" and h :: "'x \<Rightarrow> 'w" and r :: "'x result" and k k'
    by (cases r; simp)+
  have o: "map_sum id f (case tr of None \<Rightarrow> q | Some (d, s) \<Rightarrow> k d s) = (case tr of None \<Rightarrow> map_sum id f q | Some (d, s) \<Rightarrow> map_sum id f (k d s))"
    for f :: "'y \<Rightarrow> 'z" and q k and tr :: "(nat list \<times> nat list) option" by (cases tr) auto
  have sw: "Q\<lparr>ple_window_cache := x, ngram_pool := y\<rparr> = Q\<lparr>ngram_pool := y, ple_window_cache := x\<rparr>" for Q :: "('c, 'd) ple_pool" and y
    by (cases Q) simp
  show ?thesis
  proof (cases batch)
    case (Some b)
    show ?thesis
    proof (cases "pb_context b")
      case c: (Some ctx)
      show ?thesis
      proof (cases "pb_processed b = 0 \<or> pb_mode b = Target_Verify")
        case True
        then show ?thesis unfolding Some commit_ple_batch_def Let_def option.case c by (auto simp: m sw)
      next
        case False
        then have n: "pb_processed b \<noteq> 0" "pb_mode b \<noteq> Target_Verify" by simp_all
        show ?thesis
          unfolding Some commit_ple_batch_def Let_def option.case c if_not_P[OF n(1)] if_not_P[OF n(2)] r m o by (simp add: sw cong: option.case_cong)
      qed
    qed (simp add: Some commit_ple_batch_def)
  qed (simp add: commit_ple_batch_def)
qed

text \<open>All the prefetch streams of the layers are on, or all are off; nothing is pending.\<close>

definition prefetch_idle :: "bool \<Rightarrow> decoder list \<Rightarrow> ('a, 'n) model_state \<Rightarrow> bool" where
  "prefetch_idle on ds S \<longleftrightarrow> length (ms_layers S) = length ds \<and> (\<forall>j<length ds. \<forall>p. dc_ple (ds ! j) = Some p \<longrightarrow>
     (let s = ls_prefetch (ms_layers S ! j) in pf_stream s = on \<and> pf_pending s = None \<and> (on \<longrightarrow> buffers_ok (pp_layer p) s)))"

text \<open>The batch of both runs, prepared or absent.\<close>

lemma prepare_both:
  assumes prep: "(case ngram of None \<Rightarrow> Inr (ms_pool S, None)
      | Some (n, eos) \<Rightarrow> prepare_ple_batch ops fusion uid (ms_pool S) input fb (Some n) (Some eos)) = Inr (P, batch)"
    and agree: "agree S T"
  obtains Q where "(case ngram of None \<Rightarrow> Inr (ms_pool T, None)
      | Some (n, eos) \<Rightarrow> prepare_ple_batch ops fusion uid (ms_pool T) input fb (Some n) (Some eos)) = Inr (Q, batch)"
    "Q\<lparr>ple_window_cache := None\<rparr> = P\<lparr>ple_window_cache := None\<rparr>"
    "\<forall>b. batch = Some b \<longrightarrow> pb_context b \<noteq> None \<and> ple_window_cache P = None \<and> ple_window_cache Q = None"
proof (cases ngram)
  case None
  then show thesis using that[of "ms_pool T"] prep agree by (simp add: agree_def)
next
  case (Some ne)
  obtain n eos where ne: "ne = (n, eos)" by fastforce
  have prepS: "prepare_ple_batch ops fusion uid (ms_pool S) input fb (Some n) (Some eos) = Inr (P, batch)" using prep Some ne by simp
  have pools: "(ms_pool T)\<lparr>ple_window_cache := None\<rparr> = (ms_pool S)\<lparr>ple_window_cache := None\<rparr>" using agree by (simp add: agree_def)
  have "prepare_ple_batch ops fusion uid (ms_pool T) input fb (Some n) (Some eos) = Inr (P, batch)"
    using prepare_cache[where ops = ops and P = "ms_pool T" and x = None] prepare_cache[where ops = ops and P = "ms_pool S" and x = None] prepS
    unfolding pools by simp
  then show thesis using that[of P] prepare_context[OF prepS] Some ne by simp
qed

text \<open>
  C15: Prefetching is transparent to the whole model, for live and for idle ranks (an idle rank, which
  has no batch, prefetches and consumes its part of the data-parallel lookups). Every forward that
  succeeds without prefetch streams succeeds with them, with the same hidden states and residual, the
  same states of all short convolutions, and the same pool (but for the shared cache of windows, which
  the next batch resets); and every prefetch that was started, also that of an idle rank, has been
  consumed, so that the next forward can start. The PLE layers are well formed and share the n-gram
  length and the end token; no prefetch is pending before.
\<close>

theorem prefetching_is_transparent:
  assumes same: "same_hash c ds"
    and S: "prefetch_idle False ds S" and T: "prefetch_idle True ds T" and agree: "agree S T"
    and run: "model_forward ops fusion uid ngram hc hs ds input fc S = Inr S'"
  shows "\<exists>T'. model_forward ops fusion uid ngram hc hs ds input fc T = Inr T' \<and> agree S' T' \<and> prefetch_idle True ds T'"
proof -
  let ?fb = "fc_batch fc"
  obtain P batch S1 P' where r: "(case ngram of None \<Rightarrow> Inr (ms_pool S, None)
      | Some (n, eos) \<Rightarrow> prepare_ple_batch ops fusion uid (ms_pool S) input ?fb (Some n) (Some eos)) = Inr (P, batch)"
    "run_layers hc hs ds (fc\<lparr>fc_ple := batch\<rparr>) (S\<lparr>ms_pool := P, ms_residual := None\<rparr>) = Inr S1"
    "commit_ple_batch ops (ms_pool S1) batch ?fb = Inr P'" "S' = S1\<lparr>ms_pool := P'\<rparr>"
    using run unfolding model_forward_def by (auto simp: res_bind_Inr_iff map_sum_Inr_iff)
  obtain Q where q: "(case ngram of None \<Rightarrow> Inr (ms_pool T, None)
      | Some (n, eos) \<Rightarrow> prepare_ple_batch ops fusion uid (ms_pool T) input ?fb (Some n) (Some eos)) = Inr (Q, batch)"
    "Q\<lparr>ple_window_cache := None\<rparr> = P\<lparr>ple_window_cache := None\<rparr>"
    "\<forall>b. batch = Some b \<longrightarrow> pb_context b \<noteq> None \<and> ple_window_cache P = None \<and> ple_window_cache Q = None"
    by (rule prepare_both[OF r(1) agree])
  let ?fc = "fc\<lparr>fc_ple := batch\<rparr>" and ?S = "S\<lparr>ms_pool := P, ms_residual := None\<rparr>" and ?T = "T\<lparr>ms_pool := Q, ms_residual := None\<rparr>"
  have ctx: "\<forall>b. fc_ple ?fc = Some b \<longrightarrow> pb_context b \<noteq> None" using q(3) by simp
  have start: "streams_off c ds (fc_ple ?fc) ?S" "streams_on c ds (fc_ple ?fc) (fc_numel ?fc) (fc_global ?fc) {0} ?T" "agree ?S ?T"
    using S T agree q(2,3) by (auto simp: prefetch_idle_def streams_off_def streams_on_def agree_def cache_ok_def Let_def)
  obtain T1 where T1: "run_layers hc hs ds ?fc ?T = Inr T1" "streams_on c ds (fc_ple ?fc) (fc_numel ?fc) (fc_global ?fc) {length ds} T1" "agree S1 T1"
    using run_layers_both[OF same ctx _ start, of hc hs S1] r(2) unfolding run_layers_def by auto
  have p1: "(ms_pool T1)\<lparr>ple_window_cache := None\<rparr> = (ms_pool S1)\<lparr>ple_window_cache := None\<rparr>" using T1(3) by (simp add: agree_def)
  have "map_sum id (\<lambda>Q. Q\<lparr>ple_window_cache := None\<rparr>) (commit_ple_batch ops (ms_pool T1) batch ?fb) = Inr (P'\<lparr>ple_window_cache := None\<rparr>)"
    unfolding commit_cache[symmetric] p1 unfolding commit_cache r(3) by simp
  then obtain R where R: "commit_ple_batch ops (ms_pool T1) batch ?fb = Inr R" "R\<lparr>ple_window_cache := None\<rparr> = P'\<lparr>ple_window_cache := None\<rparr>"
    by (auto simp: map_sum_Inr_iff)
  have "model_forward ops fusion uid ngram hc hs ds input fc T = Inr (T1\<lparr>ms_pool := R\<rparr>)"
    unfolding model_forward_def q(1) res_bind_simps prod.case T1(1) R(1) by simp
  moreover have "agree S' (T1\<lparr>ms_pool := R\<rparr>)" using T1(3) R(2) by (simp add: agree_def r(4))
  moreover have "prefetch_idle True ds (T1\<lparr>ms_pool := R\<rparr>)"
    using T1(2) by (auto simp: prefetch_idle_def streams_on_def Let_def)
  ultimately show ?thesis by blast
qed

text \<open>
  A layer without PLE and one with it, which takes part in the lookups of a data-parallel group, over
  the batch of two requests and a padding row, and over an idle batch.
\<close>

definition dp_ple :: ple_layer where
  "dp_ple = demo_ple\<lparr>ll_lookup := (ll_lookup demo_ple)\<lparr>lk_gather_dp := True\<rparr>\<rparr>"

definition demo_decoders :: "decoder list" where
  "demo_decoders = [\<lparr>dc_ple = None, dc_run = (\<lambda>h. Inr (h, None))\<rparr>,
     \<lparr>dc_ple = Some \<lparr>pp_layer = dp_ple, pp_gate = demo_gate, pp_conv = demo_layer, pp_lib = demo_conv\<rparr>, dc_run = (\<lambda>h. Inr (h, None))\<rparr>]"

definition demo_model :: "bool \<Rightarrow> (nat, nat \<times> i64 list list) model_state" where
  "demo_model on = \<lparr>ms_pool = demo_pool, ms_hidden = [[1], [2], [3], [0]], ms_residual = None,
     ms_layers = replicate 2 \<lparr>ls_prefetch = demo_prefetch\<lparr>pf_stream := on\<rparr>, ls_conv = replicate 5 [[0], [0]], ls_steps = None\<rparr>\<rparr>"

definition demo_call :: "fwd_batch \<Rightarrow> forward_call" where
  "demo_call fb = \<lparr>fc_batch = fb, fc_ple = None, fc_capture = False, fc_numel = 4, fc_global = Some 4\<rparr>"

abbreviation demo_run :: "fwd_batch \<Rightarrow> bool \<Rightarrow> (nat, nat \<times> i64 list list) model_state result" where
  "demo_run fb on \<equiv> model_forward table_ops True 0 (Some (3, 7)) 1 1 demo_decoders [5, 9, 4, 0] (demo_call fb) (demo_model on)"

lemma prefetching_is_transparent_witness:
  "(\<exists>S' T'. demo_run demo_batch False = Inr S' \<and> demo_run demo_batch True = Inr T' \<and>
     ms_hidden T' = ms_hidden S' \<and> prefetch_idle True demo_decoders T') \<and>
   (\<exists>S' T'. demo_run (demo_batch\<lparr>fb_mode := Idle\<rparr>) False = Inr S' \<and> demo_run (demo_batch\<lparr>fb_mode := Idle\<rparr>) True = Inr T' \<and>
     ms_hidden T' = ms_hidden S' \<and> prefetch_idle True demo_decoders T')"
proof -
  have same: "same_hash demo_ngram demo_decoders"
    using demo_ple_ok(1) by (simp add: same_hash_def demo_decoders_def dp_ple_def demo_ple_def ple_layer_ok_def table_ready_def rank_lookup_def)
  have idle: "prefetch_idle False demo_decoders (demo_model False)" "prefetch_idle True demo_decoders (demo_model True)"
  proof -
    have l: "pp_layer p = dp_ple" if "j < 2" "dc_ple (demo_decoders ! j) = Some p" for j p
      using that by (auto simp: less_2_cases_iff demo_decoders_def)
    have s: "ls_prefetch (ms_layers (demo_model on) ! j) = demo_prefetch\<lparr>pf_stream := on\<rparr>" if "j < 2" for j on
      using that by (simp add: demo_model_def)
    have "buffers_ok dp_ple (demo_prefetch\<lparr>pf_stream := on\<rparr>)" for on using demo_ple_ok(2) by (simp add: buffers_ok_def dp_ple_def)
    moreover have "length demo_decoders = 2" "length (ms_layers (demo_model on)) = 2" for on by (simp_all add: demo_decoders_def demo_model_def)
    ultimately show "prefetch_idle False demo_decoders (demo_model False)" "prefetch_idle True demo_decoders (demo_model True)"
      using l by (auto simp: prefetch_idle_def s demo_prefetch_def)
  qed
  have agree: "agree (demo_model False) (demo_model True)" by (simp add: agree_def demo_model_def)
  have run: "\<exists>S' T'. demo_run fb False = Inr S' \<and> demo_run fb True = Inr T' \<and> ms_hidden T' = ms_hidden S' \<and> prefetch_idle True demo_decoders T'"
    if ok: "is_ok (demo_run fb False)" for fb
  proof -
    obtain S' where S': "demo_run fb False = Inr S'" using ok by (cases "demo_run fb False") auto
    show ?thesis using prefetching_is_transparent[OF same idle agree S'] S' by (auto simp: agree_def)
  qed
  have "is_ok (demo_run demo_batch False)" "is_ok (demo_run (demo_batch\<lparr>fb_mode := Idle\<rparr>) False)" by code_simp+
  then show ?thesis using run by blast
qed

end
