(* ===== verification/Py_Strings.thy ===== *)
theory Py_Strings
  imports Ple_Table "HOL-Library.Sublist"
begin

text \<open>
  The string operations of Python that the loading of weights uses: containment, replacement of all
  occurrences from the left, the last component of a dotted name, the part before a substring, and
  the decimal number at the end of a string. Containment is \<open>sublist\<close> and the test for an ending
  \<open>suffix\<close> of the library. Names with a number in the middle are read piece by piece: a pattern
  without digits cannot touch the number.
\<close>

fun replace_all :: "string \<Rightarrow> string \<Rightarrow> string \<Rightarrow> string" where
  "replace_all p r [] = []"
| "replace_all p r (c # cs) =
     (if p \<noteq> [] \<and> prefix p (c # cs) then r @ replace_all p r (drop (length p - 1) cs) else c # replace_all p r cs)"

fun before :: "string \<Rightarrow> string \<Rightarrow> string" where
  "before p [] = []"
| "before p (c # cs) = (if prefix p (c # cs) then [] else c # before p cs)"

definition last_component :: "string \<Rightarrow> string" where
  "last_component s = rev (takeWhile (\<lambda>c. c \<noteq> CHR ''.'') (rev s))"

definition is_digit :: "char \<Rightarrow> bool" where
  "is_digit c \<longleftrightarrow> 48 \<le> (of_char c :: nat) \<and> (of_char c :: nat) \<le> 57"

definition digits_value :: "string \<Rightarrow> nat" where
  "digits_value ds = foldl (\<lambda>n c. n * 10 + (of_char c - 48)) 0 ds"

definition strip_suffix :: "string \<Rightarrow> string \<Rightarrow> string option" where
  "strip_suffix p s = (if suffix p s then Some (take (length s - length p) s) else None)"

section \<open>Names with a number in the middle\<close>

abbreviation digit_free :: "string \<Rightarrow> bool" where
  "digit_free p \<equiv> list_all (\<lambda>c. \<not> is_digit c) p"

definition number :: "string \<Rightarrow> bool" where
  "number ds \<longleftrightarrow> ds \<noteq> [] \<and> list_all is_digit ds"

lemma is_digit_char: "n < 10 \<Longrightarrow> is_digit (char_of (48 + n :: nat))"
  by (simp add: is_digit_def of_char_of)

lemma number_digits_of: "number (digits_of n)"
proof (induction n rule: digits_of.induct)
  case (1 n)
  then show ?case using is_digit_char by (subst digits_of.simps) (auto simp: number_def)
qed

lemma prefix_number:
  assumes "digit_free p" "number ds"
  shows "prefix p (a @ ds @ b) \<longleftrightarrow> prefix p a"
proof
  assume "prefix p (a @ ds @ b)"
  then consider "prefix p a" | q where "p = a @ q" "prefix q (ds @ b)" "q \<noteq> []"
    by (metis append_Nil2 prefix_append prefix_order.dual_order.refl)
  then show "prefix p a"
  proof cases
    case 2
    then have "hd q = hd ds" using assms(2) by (cases q; cases ds) (auto simp: number_def)
    moreover have "is_digit (hd ds)" using assms(2) by (cases ds) (auto simp: number_def)
    ultimately show ?thesis using 2 assms(1) by (cases q) (auto)
  qed
qed (auto simp: prefix_def)

lemma prefix_number0: "digit_free p \<Longrightarrow> p \<noteq> [] \<Longrightarrow> number ds \<Longrightarrow> \<not> prefix p (ds @ b)"
  using prefix_number[of p ds "[]" b] by simp

text \<open>A pattern without digits occurs before the number or behind it.\<close>

lemma sublist_skip_digits:
  "digit_free p \<Longrightarrow> p \<noteq> [] \<Longrightarrow> list_all is_digit ds \<Longrightarrow> sublist p (ds @ b) \<longleftrightarrow> sublist p b"
proof (induction ds)
  case (Cons d ds)
  have "\<not> prefix p (d # ds @ b)" using Cons.prems by (cases p) auto
  then show ?case using Cons by (simp add: sublist_Cons_right)
qed simp

lemma sublist_number [simp]:
  assumes "digit_free p" "p \<noteq> []" "number ds"
  shows "sublist p (a @ ds @ b) \<longleftrightarrow> sublist p a \<or> sublist p b"
proof (induction a)
  case Nil
  then show ?case using sublist_skip_digits[of p ds b] assms by (simp add: number_def)
next
  case (Cons c a)
  then show ?case using prefix_number[OF assms(1,3), of "c # a" b] by (simp add: sublist_Cons_right)
qed

lemma replace_skip_digits:
  "digit_free p \<Longrightarrow> list_all is_digit ds \<Longrightarrow> replace_all p r (ds @ b) = ds @ replace_all p r b"
proof (induction ds)
  case (Cons d ds)
  have "\<not> (p \<noteq> [] \<and> prefix p (d # ds @ b))" using Cons.prems by (cases p) auto
  then have "replace_all p r (d # ds @ b) = d # replace_all p r (ds @ b)" unfolding replace_all.simps by (rule if_not_P)
  then show ?case using Cons by simp
qed simp

lemma replace_number [simp]:
  assumes "digit_free p" "number ds"
  shows "replace_all p r (a @ ds @ b) = replace_all p r a @ ds @ replace_all p r b"
  using assms(1)
proof (induction p r a rule: replace_all.induct)
  case (1 p r)
  then show ?case using replace_skip_digits assms(2) by (simp add: number_def)
next
  case (2 p r c cs)
  show ?case
  proof (cases "p \<noteq> [] \<and> prefix p (c # cs)")
    case True
    then have "prefix p (c # cs @ ds @ b)" "length p - 1 \<le> length cs"
      using prefix_number[OF 2(3) assms(2), of "c # cs" b] prefix_length_le[of p "c # cs"] by auto
    then show ?thesis using True 2(1)[OF True 2(3)] by simp
  next
    case False
    then have "\<not> (p \<noteq> [] \<and> prefix p (c # cs @ ds @ b))" using prefix_number[OF 2(3) assms(2), of "c # cs" b] by simp
    then have "replace_all p r (c # cs @ ds @ b) = c # replace_all p r (cs @ ds @ b)" unfolding replace_all.simps by (rule if_not_P)
    moreover have "replace_all p r (c # cs) = c # replace_all p r cs" unfolding replace_all.simps by (rule if_not_P[OF False])
    ultimately show ?thesis using 2(2)[OF False 2(3)] by simp
  qed
qed

lemma suffix_number [simp]:
  assumes "digit_free p" "number ds"
  shows "suffix p (a @ ds @ b) \<longleftrightarrow> suffix p b"
proof
  assume "suffix p (a @ ds @ b)"
  then consider "suffix p b" | q where "p = q @ b" "suffix q (a @ ds)" "q \<noteq> []"
    by (metis append.assoc append_self_conv2 suffix_append suffix_order.dual_order.refl)
  then show "suffix p b"
  proof cases
    case 2
    then have "last q = last ds" using assms(2) by (auto simp: number_def suffix_def) (metis last_appendR)
    moreover have "is_digit (last ds)" using assms(2) by (auto simp: number_def list_all_iff)
    ultimately show ?thesis using 2 assms(1) last_in_set[of q] by (auto simp: list_all_iff)
  qed
qed (auto simp: suffix_def)

text \<open>A name with a number.\<close>

definition numbered :: "string \<Rightarrow> nat \<Rightarrow> string \<Rightarrow> string" where
  "numbered a n b = a @ digits_of n @ b"

lemma numbered_simps:
  assumes "digit_free p" "p \<noteq> []"
  shows "sublist p (numbered a n b) \<longleftrightarrow> sublist p a \<or> sublist p b" "suffix p (numbered a n b) \<longleftrightarrow> suffix p b"
    "replace_all p r (numbered a n b) = numbered (replace_all p r a) n (replace_all p r b)"
  using assms number_digits_of by (simp_all add: numbered_def)

lemma replace_all_absent: "\<not> sublist p s \<Longrightarrow> replace_all p r s = s"
  by (induction p r s rule: replace_all.induct) (auto simp: sublist_Cons_right)

lemma digits_value_snoc: "digits_value (ds @ [c]) = digits_value ds * 10 + (of_char c - 48)"
  by (simp add: digits_value_def)

lemma digits_value_of: "digits_value (digits_of n) = n"
proof (induction n rule: digits_of.induct)
  case (1 n)
  show ?case
  proof (cases "n < 10")
    case True
    then show ?thesis by (subst digits_of.simps) (simp add: digits_value_def of_char_of)
  next
    case False
    then have "digits_of n = digits_of (n div 10) @ [char_of (48 + n mod 10)]" by (subst digits_of.simps) simp
    moreover have "(of_char (char_of (48 + n mod 10 :: nat)) :: nat) = 48 + n mod 10" by (simp add: of_char_of)
    ultimately show ?thesis using 1[OF False] by (simp add: digits_value_snoc)
  qed
qed

text \<open>Names with the same front, whose rests begin without a digit, agree in number and rest.\<close>

lemma numbered_inject:
  assumes "b \<noteq> []" "b' \<noteq> []" "\<not> is_digit (hd b)" "\<not> is_digit (hd b')"
  shows "numbered a n b = numbered a n' b' \<longleftrightarrow> n = n' \<and> b = b'"
proof
  assume "numbered a n b = numbered a n' b'"
  then have e: "digits_of n @ b = digits_of n' @ b'" by (simp add: numbered_def)
  have d: "takeWhile is_digit (digits_of k @ c) = digits_of k" if "c \<noteq> []" "\<not> is_digit (hd c)" for k c
    using number_digits_of[of k] that by (cases c) (auto simp: number_def list_all_iff takeWhile_append2)
  have "digits_of n = digits_of n'" using d[of b n] d[of b' n'] assms e by metis
  then show "n = n' \<and> b = b'" using e digits_value_of by (metis append_same_eq same_append_eq)
qed simp

end
