(* ===== verification/Weight_Loading.thy ===== *)
theory Weight_Loading
  imports Py_Strings
begin

text \<open>
  The loading of the checkpoint into the model
  (\<^verbatim>\<open>Qwen4ExpForConditionalGeneration.load_weights\<close> of \<^verbatim>\<open>runtime-src/qwen4_exp.py\<close>): the name of a
  checkpoint tensor is rewritten and routed to a buffer of the PLE embedding, a shard of the PLE
  table, a slice of a fused parameter, an expert, or a plain parameter. The weight loaders of the
  parameters are not in the repository: the model records their calls in order. Tensors are
  arguments with the few operations the loop applies to them.
\<close>

section \<open>Tensors, parameters and the state of a load\<close>

record ('w, 'r) weight_ops =
  tw_shape :: "'w \<Rightarrow> nat list"
  tw_item :: "'w \<Rightarrow> rat result"
  tw_chunk :: "'w \<Rightarrow> 'w list"
  tw_expert :: "'w \<Rightarrow> nat \<Rightarrow> 'w result"
  tw_cast :: "'w \<Rightarrow> 'w \<Rightarrow> 'w"
  tw_shard :: "'w \<Rightarrow> bool \<times> 'r list"

datatype shard_id = Tag string | Slice nat | Slices "nat list"

datatype 'w load_call =
    Load string 'w
  | Load_Slice string 'w shard_id
  | Load_Expert string 'w string string nat

text \<open>A PLE embedding in host memory, or on the device as the library builds it.\<close>

datatype 'r ple_module = Pinned "'r host_embedding" | On_Device "'r host_embedding"

record weight_cfg =
  wc_language_only :: bool
  wc_tie :: bool
  wc_last_rank :: bool
  wc_encoder_only :: bool
  wc_experts :: "nat option"
  wc_expert_mapping :: "(string \<times> string \<times> nat \<times> string) list"
  wc_layer_id :: "string \<Rightarrow> nat option"
  wc_start :: nat
  wc_end :: nat
  wc_parts :: nat

record ('w, 'r) load_state =
  ld_params :: "string list"
  ld_buffers :: "(string, 'w) dict"
  ld_modules :: "(string, 'r ple_module) dict"
  ld_calls :: "'w load_call list"
  ld_loaded :: "string set"
  ld_loaded_buffers :: "string set"
  ld_loaded_shards :: "string set"

section \<open>Names\<close>

definition stacked_params_mapping :: "(string \<times> string \<times> shard_id) list" where
  "stacked_params_mapping =
     [(''qkv_proj'', ''q_proj'', Tag ''q''), (''qkv_proj'', ''k_proj'', Tag ''k''), (''qkv_proj'', ''v_proj'', Tag ''v''),
      (''gate_up_proj'', ''gate_proj'', Slice 0), (''gate_up_proj'', ''up_proj'', Slice 1),
      (''in_proj_qkvz.'', ''in_proj_qkv.'', Slices [0, 1, 2]), (''in_proj_qkvz.'', ''in_proj_z.'', Slice 3),
      (''in_proj_ba.'', ''in_proj_b.'', Slice 0), (''in_proj_ba.'', ''in_proj_a.'', Slice 1)]"

definition fused_expert_params_mapping :: "(string \<times> string \<times> nat \<times> string) list" where
  "fused_expert_params_mapping =
     [(''experts.w13_weight'', ''experts.gate_up_proj'', 0, ''w1''), (''experts.w2_weight'', ''experts.down_proj'', 0, ''w2'')]"

definition ignore_suffixes :: "string list" where
  "ignore_suffixes =
     [''.bias'', ''_bias'', ''.k_scale'', ''_k_scale'', ''.v_scale'', ''_v_scale'', ''.weight_scale_inv'', ''_weight_scale_inv'',
      ''.input_scale_inv'', ''_input_scale_inv'', ''_weight_scale'', ''_input_scale'']"

definition ignored :: "string list \<Rightarrow> string \<Rightarrow> bool" where
  "ignored params name \<longleftrightarrow> (\<exists>s\<in>set ignore_suffixes. suffix s name) \<and> name \<notin> set params"

text \<open>The rewriting at the start of the loop; \<open>None\<close> when the tensor is skipped.\<close>

definition rename_weight :: "bool \<Rightarrow> string \<Rightarrow> string option" where
  "rename_weight language_only name =
     (if sublist ''rotary_emb.inv_freq'' name then None
      else if sublist ''mtp'' name then None
      else if sublist ''visual'' name \<and> language_only then None
      else let n1 = (if sublist ''language_model'' name then replace_all ''model.language_model.'' ''model.'' name else name);
               n2 = (if sublist ''.self_attn.'' n1 then replace_all ''.self_attn'' '''' n1 else n1)
           in Some (if suffix ''.k_proj.k_scale'' n2 then replace_all ''.k_proj.k_scale'' ''.attn.k_scale'' n2
                    else if suffix ''.v_proj.v_scale'' n2 then replace_all ''.v_proj.v_scale'' ''.attn.v_scale'' n2
                    else n2))"

section \<open>Buffers and shards of the PLE embedding\<close>

definition load_ple_buffer ::
  "('w, 'r) weight_ops \<Rightarrow> string \<Rightarrow> 'w \<Rightarrow> ('w, 'r) load_state \<Rightarrow> (('w, 'r) load_state \<times> bool) result" where
  "load_ple_buffer ops name w st =
     (if \<not> sublist ''.ple.ple_embedding.'' name then Inr (st, False)
      else let buffer_name = last_component name
           in if prefix ''hashstats_'' buffer_name then Inr (st, True)
              else if buffer_name = ''token_lookup'' then Inr (st, True)
              else if buffer_name \<notin> {''layer_multipliers'', ''ngram_heads_offsets'', ''ngram_heads_vocab_sizes'', ''weight_scale''}
                   then Inr (st, False)
              else case dget (ld_buffers st) name of
                     None \<Rightarrow> Inr (st, False)
                   | Some buffer \<Rightarrow>
                       if tw_shape ops buffer \<noteq> tw_shape ops w then Inl ValueError
                       else Inr (st\<lparr>ld_buffers := dset (ld_buffers st) name (tw_cast ops buffer w),
                                    ld_loaded_buffers := insert name (ld_loaded_buffers st)\<rparr>, True))"

text \<open>The number of a shard: \<^verbatim>\<open>\.ngram_embedding\.shard_(\d+)\.weight$\<close>.\<close>

definition shard_number :: "string \<Rightarrow> nat option" where
  "shard_number name =
     (case strip_suffix ''.weight'' name of
        None \<Rightarrow> None
      | Some rest \<Rightarrow>
          let ds = rev (takeWhile is_digit (rev rest))
          in if ds \<noteq> [] \<and> suffix (''.ngram_embedding.shard_'' @ ds) rest then Some (digits_value ds) else None)"

text \<open>
  A shard goes into a pinned table as \<open>load_ple_shard\<close> describes; a table on the device is switched to
  fp8 storage, with rows that are not initialised, by the first fp8 shard. The flag tells whether the
  stale parameter is dropped from the names.
\<close>

fun load_into_module ::
  "('r \<Rightarrow> 'r) \<Rightarrow> 'r list \<Rightarrow> nat \<Rightarrow> 'r ple_module \<Rightarrow> 'r ple_shard \<Rightarrow> ('r ple_module \<times> bool) result" where
  "load_into_module conv junk parts (Pinned emb) sh = map_sum id (\<lambda>e. (Pinned e, False)) (load_ple_shard conv parts emb sh)"
| "load_into_module conv junk parts (On_Device emb) sh =
     (let swap = sh_fp8 sh \<and> \<not> he_fp8 emb; emb1 = (if swap then emb\<lparr>he_fp8 := True, he_rows := junk\<rparr> else emb)
      in if parts = 0 then Inl ZeroDivisionError
         else let start = sh_idx sh * shard_size parts emb1
              in Inr (On_Device (copy_ple_rows_to_tp_embedding conv emb1 (sh_rows sh) start (start + length (sh_rows sh))), swap))"

definition load_named_shard ::
  "('w, 'r) weight_ops \<Rightarrow> ('r \<Rightarrow> 'r) \<Rightarrow> 'r list \<Rightarrow> nat \<Rightarrow> string \<Rightarrow> 'w \<Rightarrow> ('w, 'r) load_state \<Rightarrow>
   (('w, 'r) load_state \<times> bool) result" where
  "load_named_shard ops conv junk parts name w st =
     (if \<not> sublist ''.ngram_embedding.shard_'' name then Inr (st, False)
      else case shard_number name of
             None \<Rightarrow> Inr (st, False)
           | Some idx \<Rightarrow>
               let mod_prefix = before ''.ngram_embedding.shard_'' name; table = mod_prefix @ ''.ngram_embedding.weight''
               in case dget (ld_modules st) mod_prefix of
                    None \<Rightarrow> Inr (st, False)
                  | Some m \<Rightarrow>
                      map_sum id (\<lambda>(m', drop_param).
                        (st\<lparr>ld_modules := dset (ld_modules st) mod_prefix m',
                            ld_params := (if drop_param then removeAll table (ld_params st) else ld_params st),
                            ld_loaded_shards := insert table (ld_loaded_shards st)\<rparr>, True))
                        (load_into_module conv junk parts m
                          \<lparr>sh_idx = idx, sh_fp8 = fst (tw_shard ops w), sh_rows = snd (tw_shard ops w)\<rparr>))"

section \<open>Parameters\<close>

definition call :: "'w load_call list \<Rightarrow> ('w, 'r) load_state \<Rightarrow> ('w, 'r) load_state" where
  "call cs st = st\<lparr>ld_calls := ld_calls st @ cs\<rparr>"

definition mark :: "string \<Rightarrow> ('w, 'r) load_state \<Rightarrow> ('w, 'r) load_state" where
  "mark name st = st\<lparr>ld_loaded := insert name (ld_loaded st)\<rparr>"

text \<open>The first entry of the fused parameters that applies: the name and the slice.\<close>

fun find_stacked :: "string list \<Rightarrow> string \<Rightarrow> (string \<times> string \<times> shard_id) list \<Rightarrow> (string \<times> shard_id) option" where
  "find_stacked params name [] = None"
| "find_stacked params name ((param_name, weight_name, shard) # rest) =
     (if \<not> sublist weight_name name then find_stacked params name rest
      else if sublist ''visual'' name \<or> sublist ''mlp.experts'' name then find_stacked params name rest
      else let mapped = replace_all weight_name param_name name
           in if ignored params mapped then find_stacked params name rest
              else if mapped \<notin> set params then find_stacked params name rest
              else Some (mapped, shard))"

text \<open>One call per expert, each with its slice of the fused tensor.\<close>

definition load_fused_expert_weights ::
  "('w, 'r) weight_ops \<Rightarrow> nat option \<Rightarrow> string \<Rightarrow> 'w \<Rightarrow> string \<Rightarrow> ('w, 'r) load_state \<Rightarrow> ('w, 'r) load_state result" where
  "load_fused_expert_weights ops num_experts name w shard st =
     (if name \<notin> set (ld_params st) then Inl KeyError
      else case num_experts of
             None \<Rightarrow> Inl TypeError
           | Some n \<Rightarrow> res_fold (\<lambda>s e. map_sum id (\<lambda>we. call [Load_Expert name we name shard e] s) (tw_expert ops w e)) st [0..<n])"

text \<open>The mapping of the experts: the loaded name, or whether some entry matched at all.\<close>

fun load_experts ::
  "('w, 'r) weight_ops \<Rightarrow> weight_cfg \<Rightarrow> bool \<Rightarrow> string \<Rightarrow> 'w \<Rightarrow> (string \<times> string \<times> nat \<times> string) list \<Rightarrow> bool \<Rightarrow>
   ('w, 'r) load_state \<Rightarrow> (('w, 'r) load_state \<times> string option \<times> bool) result" where
  "load_experts ops cfg fused name w [] matched st = Inr (st, None, matched)"
| "load_experts ops cfg fused name w ((param_name, weight_name, expert_id, shard) # rest) matched st =
     (if \<not> sublist weight_name name then load_experts ops cfg fused name w rest matched st
      else if sublist ''visual'' name \<or> wc_encoder_only cfg then load_experts ops cfg fused name w rest matched st
      else let mapped = replace_all weight_name param_name name
           in if fused then
                res_bind
                  (if sublist ''experts.gate_up_proj'' name then
                     (case tw_chunk ops w of
                        [gate, up] \<Rightarrow>
                          res_bind (load_fused_expert_weights ops (wc_experts cfg) mapped gate ''w1'' st) (\<lambda>st1.
                            load_fused_expert_weights ops (wc_experts cfg) mapped up ''w3'' st1)
                      | _ \<Rightarrow> Inl ValueError)
                   else load_fused_expert_weights ops (wc_experts cfg) mapped w shard st)
                  (\<lambda>st'. Inr (st', Some mapped, True))
              else if ignored (ld_params st) mapped then load_experts ops cfg fused name w rest True st
              else if mapped \<notin> set (ld_params st) then Inl KeyError
              else Inr (call [Load_Expert mapped w mapped shard expert_id] st, Some mapped, True))"

text \<open>The remaining parameters; the name under which the tensor counts as loaded, if it does.\<close>

definition load_plain ::
  "('w, 'r) weight_ops \<Rightarrow> string \<Rightarrow> 'w \<Rightarrow> ('w, 'r) load_state \<Rightarrow> ('w, 'r) load_state result" where
  "load_plain ops name w st =
     (let n = (if sublist ''visual'' name
               then replace_all ''model.visual.'' ''visual.'' (replace_all ''attn.qkv.'' ''attn.qkv_proj.'' name) else name)
      in if ignored (ld_params st) n then Inr st
         else if suffix ''_scale'' n \<and> n \<notin> set (ld_params st) then
           res_bind (tw_item ops w) (\<lambda>v. if \<bar>v - 1\<bar> < 1 / 10 ^ 6 then Inr st else Inl AssertionError)
         else if n \<in> set (ld_params st) then Inr (mark n (call [Load n w] st))
         else Inr st)"

definition load_param ::
  "('w, 'r) weight_ops \<Rightarrow> weight_cfg \<Rightarrow> string \<Rightarrow> 'w \<Rightarrow> ('w, 'r) load_state \<Rightarrow> ('w, 'r) load_state result" where
  "load_param ops cfg name w st =
     (case find_stacked (ld_params st) name stacked_params_mapping of
        Some (mapped, shard) \<Rightarrow> Inr (mark mapped (call [Load_Slice mapped w shard] st))
      | None \<Rightarrow>
          let fused = sublist ''experts.gate_up_proj'' name \<or> sublist ''experts.down_proj'' name;
              mapping = (if fused then fused_expert_params_mapping else if wc_experts cfg = None then [] else wc_expert_mapping cfg)
          in res_bind (load_experts ops cfg fused name w mapping False st) (\<lambda>(st', loaded, matched).
               case loaded of
                 Some n \<Rightarrow> Inr (mark n st')
               | None \<Rightarrow> if matched then Inr st' else load_plain ops name w st'))"

section \<open>The loop\<close>

definition load_one ::
  "('w, 'r) weight_ops \<Rightarrow> ('r \<Rightarrow> 'r) \<Rightarrow> 'r list \<Rightarrow> weight_cfg \<Rightarrow> ('w, 'r) load_state \<Rightarrow> string \<times> 'w \<Rightarrow>
   ('w, 'r) load_state result" where
  "load_one ops conv junk cfg st nw =
     (case rename_weight (wc_language_only cfg) (fst nw) of
        None \<Rightarrow> Inr st
      | Some name \<Rightarrow>
          let w = snd nw
          in res_bind (load_ple_buffer ops name w st) (\<lambda>(st1, is_buffer).
             if is_buffer then Inr st1
             else res_bind (load_named_shard ops conv junk (wc_parts cfg) name w st1) (\<lambda>(st2, is_shard).
             if is_shard then Inr st2
             else if sublist ''.ple.ple_embedding.ngram_embedding.'' name \<and> suffix ''.weight'' name then Inl ValueError
             else let tied = wc_tie cfg \<and> wc_last_rank cfg \<and> sublist ''model.embed_tokens.weight'' name \<and>
                        ''lm_head.weight'' \<in> set (ld_params st2);
                      st3 = (if tied then call [Load ''lm_head.weight'' w] st2 else st2)
                  in case wc_layer_id cfg name of
                       Some l \<Rightarrow> if l < wc_start cfg \<or> wc_end cfg \<le> l then Inr st3 else load_param ops cfg name w st3
                     | None \<Rightarrow> load_param ops cfg name w st3)))"

text \<open>
  The names that count as loaded at the end, and the sidecars that are written for the pinned tables
  (\<open>msync_ok\<close> and \<open>now\<close> are the flush and the time).
\<close>

definition seal_modules :: "bool \<Rightarrow> string \<Rightarrow> (string, 'r ple_module) dict \<Rightarrow> (string \<times> json option) list" where
  "seal_modules msync_ok now ms = map (\<lambda>(n, m). (n, case m of Pinned emb \<Rightarrow> seal emb msync_ok now | On_Device _ \<Rightarrow> None)) ms"

definition load_weights ::
  "('w, 'r) weight_ops \<Rightarrow> ('r \<Rightarrow> 'r) \<Rightarrow> 'r list \<Rightarrow> weight_cfg \<Rightarrow> bool \<Rightarrow> string \<Rightarrow> ('w, 'r) load_state \<Rightarrow> (string \<times> 'w) list \<Rightarrow>
   (('w, 'r) load_state \<times> string set \<times> (string \<times> json option) list) result" where
  "load_weights ops conv junk cfg msync_ok now st weights =
     map_sum id (\<lambda>st'. (st', ld_loaded st' \<union> ld_loaded_buffers st' \<union> ld_loaded_shards st', seal_modules msync_ok now (ld_modules st')))
       (res_fold (load_one ops conv junk cfg) st weights)"

section \<open>What counts as loaded was written\<close>

fun call_target :: "'w load_call \<Rightarrow> string" where
  "call_target (Load n w) = n"
| "call_target (Load_Slice n w s) = n"
| "call_target (Load_Expert n w m s e) = n"

definition load_targets :: "('w, 'r) load_state \<Rightarrow> string set" where
  "load_targets st = call_target ` set (ld_calls st)"

text \<open>The calls of one tensor: all for one parameter, and at least one.\<close>

definition writes :: "string \<Rightarrow> 'w load_call list \<Rightarrow> bool" where
  "writes n cs \<longleftrightarrow> cs \<noteq> [] \<and> (\<forall>c\<in>set cs. call_target c = n)"

lemma call_simps [simp]:
  "ld_params (call cs st) = ld_params st" "ld_calls (call cs st) = ld_calls st @ cs" "ld_loaded (call cs st) = ld_loaded st"
  "ld_buffers (call cs st) = ld_buffers st" "ld_modules (call cs st) = ld_modules st"
  "ld_loaded_buffers (call cs st) = ld_loaded_buffers st" "ld_loaded_shards (call cs st) = ld_loaded_shards st"
  "call cs (call ds st) = call (ds @ cs) st" "call [] st = st"
  by (simp_all add: call_def)

lemma mark_simps [simp]:
  "ld_params (mark n st) = ld_params st" "ld_calls (mark n st) = ld_calls st" "ld_loaded (mark n st) = insert n (ld_loaded st)"
  "ld_buffers (mark n st) = ld_buffers st" "ld_modules (mark n st) = ld_modules st"
  "ld_loaded_buffers (mark n st) = ld_loaded_buffers st" "ld_loaded_shards (mark n st) = ld_loaded_shards st"
  by (simp_all add: mark_def)

lemma fused_expert_calls:
  assumes "res_fold (\<lambda>s e. map_sum id (\<lambda>we. call [Load_Expert name we name shard e] s) (tw_expert ops w e)) st es = Inr st'"
  shows "\<exists>ws. length ws = length es \<and> st' = call (map2 (\<lambda>e we. Load_Expert name we name shard e) es ws) st"
  using assms
proof (induction es arbitrary: st)
  case (Cons e es)
  obtain we where we: "tw_expert ops w e = Inr we"
    "res_fold (\<lambda>s e. map_sum id (\<lambda>we. call [Load_Expert name we name shard e] s) (tw_expert ops w e)) (call [Load_Expert name we name shard e] st) es = Inr st'"
    using Cons.prems unfolding res_fold.simps res_bind_Inr_iff map_sum_Inr_iff by blast
  obtain ws where "length ws = length es"
    "st' = call (map2 (\<lambda>e we. Load_Expert name we name shard e) es ws) (call [Load_Expert name we name shard e] st)"
    using Cons.IH[OF we(2)] by blast
  then show ?case by (intro exI[of _ "we # ws"]) simp
qed simp

lemma load_fused_writes:
  assumes "load_fused_expert_weights ops num_experts name w shard st = Inr st'" "num_experts \<noteq> Some 0"
  shows "name \<in> set (ld_params st) \<and> (\<exists>cs. st' = call cs st \<and> writes name cs)"
proof -
  obtain n where n: "num_experts = Some n" "name \<in> set (ld_params st)"
    "res_fold (\<lambda>s e. map_sum id (\<lambda>we. call [Load_Expert name we name shard e] s) (tw_expert ops w e)) st [0..<n] = Inr st'"
    using assms(1) by (auto simp: load_fused_expert_weights_def split: if_splits option.splits)
  obtain ws where "length ws = n" "st' = call (map2 (\<lambda>e we. Load_Expert name we name shard e) [0..<n] ws) st"
    using fused_expert_calls[OF n(3)] by auto
  moreover have "writes name (map2 (\<lambda>e we. Load_Expert name we name shard e) [0..<n] ws)"
    using n(1) assms(2) calculation(1) by (auto simp: writes_def zip_eq_Nil_iff)
  ultimately show ?thesis using n(2) by blast
qed

lemma load_experts_writes:
  assumes "load_experts ops cfg fused name w mapping matched st = Inr (st', loaded, matched')" "wc_experts cfg \<noteq> Some 0"
  shows "case loaded of None \<Rightarrow> st' = st | Some n \<Rightarrow> n \<in> set (ld_params st) \<and> (\<exists>cs. st' = call cs st \<and> writes n cs)"
  using assms
proof (induction ops cfg fused name w mapping matched st rule: load_experts.induct)
  case (2 ops cfg fused name w param_name weight_name expert_id shard rest matched st)
  let ?n = "replace_all weight_name param_name name" and ?E = "wc_experts cfg"
  consider "\<not> sublist weight_name name" | "sublist weight_name name" "sublist ''visual'' name \<or> wc_encoder_only cfg"
    | "sublist weight_name name" "\<not> (sublist ''visual'' name \<or> wc_encoder_only cfg)" "fused" "sublist ''experts.gate_up_proj'' name"
    | "sublist weight_name name" "\<not> (sublist ''visual'' name \<or> wc_encoder_only cfg)" "fused" "\<not> sublist ''experts.gate_up_proj'' name"
    | "sublist weight_name name" "\<not> (sublist ''visual'' name \<or> wc_encoder_only cfg)" "\<not> fused" by blast
  then show ?case
  proof cases
    case 1
    then show ?thesis using 2 by simp
  next
    case 2
    then show ?thesis using "2.IH"(2) "2.prems" by simp
  next
    case 3
    then obtain gate up where "tw_chunk ops w = [gate, up]" using "2.prems" by (auto simp: Let_def res_bind_Inr_iff split: list.split_asm)
    then obtain st1 where st1: "load_fused_expert_weights ops ?E ?n gate ''w1'' st = Inr st1"
      "load_fused_expert_weights ops ?E ?n up ''w3'' st1 = Inr st'" "loaded = Some ?n"
      using 3 "2.prems" by (auto simp: Let_def res_bind_Inr_iff)
    obtain cs ds where "st1 = call cs st" "writes ?n cs" "st' = call ds st1" "writes ?n ds" "?n \<in> set (ld_params st)"
      using load_fused_writes[OF st1(1) "2.prems"(2)] load_fused_writes[OF st1(2) "2.prems"(2)] by blast
    then show ?thesis using st1(3) by (auto simp: writes_def intro!: exI[of _ "cs @ ds"])
  next
    case 4
    then have "load_fused_expert_weights ops ?E ?n w shard st = Inr st'" "loaded = Some ?n"
      using "2.prems" by (auto simp: Let_def res_bind_Inr_iff)
    then show ?thesis using load_fused_writes "2.prems"(2) by simp
  next
    case 5
    show ?thesis
    proof (cases "ignored (ld_params st) ?n \<or> ?n \<notin> set (ld_params st)")
      case True
      then show ?thesis using 5 "2.IH"(3) "2.prems" by (auto simp: Let_def split: if_splits)
    next
      case False
      then have "st' = call [Load_Expert ?n w ?n shard expert_id] st" "loaded = Some ?n" using 5 "2.prems" by (auto simp: Let_def)
      then show ?thesis using False by (auto simp: writes_def intro!: exI[of _ "[Load_Expert ?n w ?n shard expert_id]"])
    qed
  qed
qed simp

lemma find_stacked_param: "find_stacked params name m = Some (mapped, shard) \<Longrightarrow> mapped \<in> set params"
  by (induction params name m rule: find_stacked.induct) (auto simp: Let_def split: if_splits)

text \<open>A tensor that reaches the parameters either does nothing or writes one parameter and marks it.\<close>

definition param_step :: "('w, 'r) load_state \<Rightarrow> ('w, 'r) load_state \<Rightarrow> bool" where
  "param_step st st' \<longleftrightarrow> st' = st \<or> (\<exists>n cs. n \<in> set (ld_params st) \<and> writes n cs \<and> st' = mark n (call cs st))"

lemma load_plain_step:
  assumes run: "load_plain ops name w st = Inr st'"
  shows "param_step st st'"
proof -
  define n where "n = (if sublist ''visual'' name
    then replace_all ''model.visual.'' ''visual.'' (replace_all ''attn.qkv.'' ''attn.qkv_proj.'' name) else name)"
  note r = run[unfolded load_plain_def Let_def, folded n_def]
  show ?thesis
  proof (cases "n \<in> set (ld_params st)")
    case True
    then have "st' = mark n (call [Load n w] st)" using r by (simp add: ignored_def)
    moreover have "writes n [Load n w]" by (simp add: writes_def)
    ultimately show ?thesis using True unfolding param_step_def by blast
  next
    case False
    show ?thesis
    proof (cases "ignored (ld_params st) n \<or> \<not> suffix ''_scale'' n")
      case True
      then show ?thesis using r False by (cases "ignored (ld_params st) n") (simp_all add: param_step_def)
    next
      case neither: False
      then have "res_bind (tw_item ops w) (\<lambda>v. if \<bar>v - 1\<bar> < 1 / 10 ^ 6 then Inr st else Inl AssertionError) = Inr st'"
        using r False by simp
      then obtain v :: rat where "(if \<bar>v - 1\<bar> < 1 / 10 ^ 6 then Inr st else Inl AssertionError) = Inr st'"
        unfolding res_bind_Inr_iff by blast
      then show ?thesis by (cases "\<bar>v - 1\<bar> < 1 / 10 ^ 6") (simp_all add: param_step_def)
    qed
  qed
qed

lemma load_param_step:
  assumes run: "load_param ops cfg name w st = Inr st'" and n: "wc_experts cfg \<noteq> Some 0"
  shows "param_step st st'"
proof (cases "find_stacked (ld_params st) name stacked_params_mapping")
  case (Some r)
  then obtain mapped shard where r: "r = (mapped, shard)" by (cases r)
  then have "mapped \<in> set (ld_params st)" using find_stacked_param Some by metis
  moreover have "st' = mark mapped (call [Load_Slice mapped w shard] st)" using run Some r by (simp add: load_param_def)
  moreover have "writes mapped [Load_Slice mapped w shard]" by (simp add: writes_def)
  ultimately show ?thesis unfolding param_step_def by blast
next
  case None
  define fused where "fused = (sublist ''experts.gate_up_proj'' name \<or> sublist ''experts.down_proj'' name)"
  define mapping where "mapping = (if fused then fused_expert_params_mapping else if wc_experts cfg = None then [] else wc_expert_mapping cfg)"
  obtain st1 loaded matched where e: "load_experts ops cfg fused name w mapping False st = Inr (st1, loaded, matched)"
    "(case loaded of Some n \<Rightarrow> Inr (mark n st1) | None \<Rightarrow> if matched then Inr st1 else load_plain ops name w st1) = Inr st'"
    using run None unfolding load_param_def option.case Let_def fused_def[symmetric] mapping_def[symmetric] by (auto simp: res_bind_Inr_iff)
  note W = load_experts_writes[OF e(1) n]
  show ?thesis
  proof (cases loaded)
    case (Some k)
    then show ?thesis using W e(2) by (auto simp: param_step_def)
  next
    case None
    then have "st1 = st" using W by simp
    then show ?thesis using e(2) None load_plain_step[of ops name w st st'] by (cases matched) (auto simp: param_step_def)
  qed
qed

text \<open>The invariant of the loop; \<open>P\<close>, \<open>B\<close> and \<open>M\<close> are the names of the parameters, buffers and modules.\<close>

definition load_inv :: "string set \<Rightarrow> string set \<Rightarrow> string set \<Rightarrow> ('w, 'r) load_state \<Rightarrow> bool" where
  "load_inv P B M st \<longleftrightarrow> set (ld_params st) \<subseteq> P \<and> dkeys (ld_buffers st) = B \<and> dkeys (ld_modules st) = M \<and>
     load_targets st \<subseteq> P \<and> ld_loaded st \<subseteq> load_targets st \<and> load_targets st \<subseteq> ld_loaded st \<union> {''lm_head.weight''} \<and>
     ld_loaded_buffers st \<subseteq> B \<and> ld_loaded_shards st \<subseteq> (\<lambda>m. m @ ''.ngram_embedding.weight'') ` M"

lemma param_step_inv: "load_inv P B M st \<Longrightarrow> param_step st st' \<Longrightarrow> load_inv P B M st'"
proof -
  assume inv: "load_inv P B M st" and step: "param_step st st'"
  consider "st' = st" | n cs where "n \<in> set (ld_params st)" "writes n cs" "st' = mark n (call cs st)" using step param_step_def by blast
  then show ?thesis
  proof cases
    case (2 n cs)
    then have "load_targets st' = insert n (load_targets st)" by (auto simp: load_targets_def writes_def neq_Nil_conv)
    then show ?thesis using inv 2 by (auto simp: load_inv_def)
  qed (use inv in simp)
qed

lemma tied_inv: "load_inv P B M st \<Longrightarrow> ''lm_head.weight'' \<in> set (ld_params st) \<Longrightarrow> load_inv P B M (call [Load ''lm_head.weight'' w] st)"
  by (auto simp: load_inv_def load_targets_def)

lemma buffer_chain:
  assumes "r = (if c1 then Inr (st, False) else if c2 then Inr (st, True) else if c3 then Inr (st, True) else if c4 then Inr (st, False)
     else case d of None \<Rightarrow> Inr (st, False) | Some b \<Rightarrow> if c5 b then Inl e else Inr (g b, True))" and "r = Inr (st', f)"
  shows "st' = st \<or> (\<exists>b. d = Some b \<and> st' = g b)"
  using assms by (auto split: if_split_asm option.split_asm)

lemma load_ple_buffer_inv:
  assumes inv: "load_inv P B M st" and run: "load_ple_buffer ops name w st = Inr (st', f)"
  shows "load_inv P B M st'"
proof -
  consider "st' = st" | b where "dget (ld_buffers st) name = Some b"
    "st' = st\<lparr>ld_buffers := dset (ld_buffers st) name (tw_cast ops b w), ld_loaded_buffers := insert name (ld_loaded_buffers st)\<rparr>"
    using buffer_chain[OF load_ple_buffer_def[unfolded Let_def] run] by blast
  then show ?thesis
  proof cases
    case (2 b)
    then have "name \<in> dkeys (ld_buffers st)" using dget_Some_key by metis
    then show ?thesis using inv unfolding 2(2) by (simp add: load_inv_def load_targets_def dkeys_dset insert_absorb)
  qed (use inv in simp)
qed

lemma shard_chain:
  assumes "r = (if c1 then Inr (st, False)
     else case d of None \<Rightarrow> Inr (st, False) | Some i \<Rightarrow> (case e of None \<Rightarrow> Inr (st, False) | Some m \<Rightarrow> map_sum id (\<lambda>x. (g x, True)) (h i m)))"
    and "r = Inr (st', f)"
  shows "st' = st \<or> (\<exists>i m x. e = Some m \<and> h i m = Inr x \<and> st' = g x)"
  using assms(2) unfolding assms(1) by (cases c1; cases d; cases e) (auto simp: map_sum_Inr_iff)

lemma load_named_shard_inv:
  assumes inv: "load_inv P B M st" and run: "load_named_shard ops conv junk parts name w st = Inr (st', f)"
  shows "load_inv P B M st'"
proof -
  let ?p = "before ''.ngram_embedding.shard_'' name"
  have eta: "(\<lambda>(m', drop_param). (F m' drop_param, True)) = (\<lambda>x. (F (fst x) (snd x), True))" for F :: "'c \<Rightarrow> bool \<Rightarrow> 'd" by auto
  consider "st' = st" | m x where "dget (ld_modules st) ?p = Some m"
    "st' = st\<lparr>ld_modules := dset (ld_modules st) ?p (fst x),
       ld_params := (if snd x then removeAll (?p @ ''.ngram_embedding.weight'') (ld_params st) else ld_params st),
       ld_loaded_shards := insert (?p @ ''.ngram_embedding.weight'') (ld_loaded_shards st)\<rparr>"
    using shard_chain[OF load_named_shard_def[unfolded Let_def eta] run] by blast
  then show ?thesis
  proof cases
    case (2 m x)
    then have p: "?p \<in> dkeys (ld_modules st)" using dget_Some_key by metis
    then have "?p @ ''.ngram_embedding.weight'' \<in> (\<lambda>m. m @ ''.ngram_embedding.weight'') ` dkeys (ld_modules st)" by (rule imageI)
    moreover have "set (if snd x then removeAll (?p @ ''.ngram_embedding.weight'') (ld_params st) else ld_params st) \<subseteq> set (ld_params st)" by auto
    ultimately show ?thesis using inv p unfolding 2(2)
      by (auto simp: load_inv_def load_targets_def dkeys_dset insert_absorb simp del: set_removeAll append_is_Nil_conv intro: subset_trans)
  qed (use inv in simp)
qed

lemma load_one_inv:
  assumes inv: "load_inv P B M st" and run: "load_one ops conv junk cfg st nw = Inr st'" and n: "wc_experts cfg \<noteq> Some 0"
  shows "load_inv P B M st'"
proof (cases "rename_weight (wc_language_only cfg) (fst nw)")
  case None
  then show ?thesis using run inv by (simp add: load_one_def)
next
  case (Some name)
  let ?w = "snd nw"
  note r = run[unfolded load_one_def Some option.case Let_def]
  obtain st1 f1 where 1: "load_ple_buffer ops name ?w st = Inr (st1, f1)" using r by (auto simp: res_bind_Inr_iff)
  note i1 = load_ple_buffer_inv[OF inv 1]
  show ?thesis
  proof (cases f1)
    case True
    then show ?thesis using r 1 i1 by simp
  next
    case nb: False
    note r1 = r[unfolded 1 res_bind_simps prod.case if_not_P[OF nb]]
    obtain st2 f2 where 2: "load_named_shard ops conv junk (wc_parts cfg) name ?w st1 = Inr (st2, f2)"
      using r1 by (auto simp: res_bind_Inr_iff)
    note i2 = load_named_shard_inv[OF i1 2]
    show ?thesis
    proof (cases f2)
      case True
      then show ?thesis using r1 2 i2 by simp
    next
      case ns: False
      note r2 = r1[unfolded 2 res_bind_simps prod.case if_not_P[OF ns]]
      define st3 where "st3 = (if wc_tie cfg \<and> wc_last_rank cfg \<and> sublist ''model.embed_tokens.weight'' name \<and>
          ''lm_head.weight'' \<in> set (ld_params st2) then call [Load ''lm_head.weight'' ?w] st2 else st2)"
      have i3: "load_inv P B M st3" unfolding st3_def using i2 tied_inv by (auto split: if_splits)
      have "st' = st3 \<or> load_param ops cfg name ?w st3 = Inr st'"
        using r2[folded st3_def] by (auto split: if_split_asm option.split_asm)
      then show ?thesis using i3 param_step_inv[OF i3 load_param_step[OF _ n]] by blast
    qed
  qed
qed

text \<open>
  C26: what counts as loaded was written. After a load that starts with empty records, every call of a
  weight loader went to a parameter of the model, every parameter that was written counts as loaded
  (but for the tied \<^verbatim>\<open>lm_head.weight\<close>), and every name that counts as loaded is a parameter that was
  written, a buffer of the model, or the table of one of its PLE modules.
\<close>

theorem loaded_names_were_written:
  assumes "wc_experts cfg \<noteq> Some 0"
    and "ld_calls st = []" "ld_loaded st = {}" "ld_loaded_buffers st = {}" "ld_loaded_shards st = {}"
    and "load_weights ops conv junk cfg msync_ok now st weights = Inr (st', names, sidecars)"
  shows "load_targets st' \<subseteq> set (ld_params st) \<and> load_targets st' \<subseteq> names \<union> {''lm_head.weight''} \<and>
     names \<subseteq> load_targets st' \<union> dkeys (ld_buffers st) \<union> (\<lambda>m. m @ ''.ngram_embedding.weight'') ` dkeys (ld_modules st)"
proof -
  let ?I = "load_inv (set (ld_params st)) (dkeys (ld_buffers st)) (dkeys (ld_modules st))"
  have fold: "res_fold (load_one ops conv junk cfg) st weights = Inr st'" "names = ld_loaded st' \<union> ld_loaded_buffers st' \<union> ld_loaded_shards st'"
    using assms(6) by (auto simp: load_weights_def map_sum_Inr_iff)
  have start: "?I st" using assms(2-5) by (simp add: load_inv_def load_targets_def)
  have step: "?I t" if "?I s" "load_one ops conv junk cfg s x = Inr t" for s x t by (rule load_one_inv[OF that assms(1)])
  have "?I st'" by (rule res_fold_invariant[where P = ?I, OF step fold(1) start])
  then have i: "load_targets st' \<subseteq> set (ld_params st)" "ld_loaded st' \<subseteq> load_targets st'" "load_targets st' \<subseteq> ld_loaded st' \<union> {''lm_head.weight''}"
    "ld_loaded_buffers st' \<subseteq> dkeys (ld_buffers st)" "ld_loaded_shards st' \<subseteq> (\<lambda>m. m @ ''.ngram_embedding.weight'') ` dkeys (ld_modules st)"
    unfolding load_inv_def by simp_all
  show ?thesis
  proof (intro conjI)
    show "load_targets st' \<subseteq> set (ld_params st)" by (rule i(1))
    have "ld_loaded st' \<subseteq> names" unfolding fold(2) by (rule order_trans[OF Un_upper1 Un_upper1])
    then show "load_targets st' \<subseteq> names \<union> {''lm_head.weight''}" by (rule order_trans[OF i(3) Un_mono[OF _ order_refl]])
    show "names \<subseteq> load_targets st' \<union> dkeys (ld_buffers st) \<union> (\<lambda>m. m @ ''.ngram_embedding.weight'') ` dkeys (ld_modules st)"
      unfolding fold(2) by (intro Un_mono i)
  qed
qed

text \<open>A tied embedding and a scale that is not a parameter.\<close>

definition tied_weights :: "(nat, rat) weight_ops" where
  "tied_weights = \<lparr>tw_shape = (\<lambda>_. []), tw_item = (\<lambda>_. Inr 1), tw_chunk = (\<lambda>w. [w, w]), tw_expert = (\<lambda>w e. Inr w),
     tw_cast = (\<lambda>_ w. w), tw_shard = (\<lambda>_. (False, []))\<rparr>"

definition tied_cfg :: weight_cfg where
  "tied_cfg = \<lparr>wc_language_only = False, wc_tie = True, wc_last_rank = True, wc_encoder_only = False, wc_experts = None,
     wc_expert_mapping = [], wc_layer_id = (\<lambda>name. None), wc_start = 0, wc_end = 1, wc_parts = 4\<rparr>"

definition tied_load :: "(nat, rat) load_state" where
  "tied_load = \<lparr>ld_params = [''lm_head.weight'', ''model.embed_tokens.weight''], ld_buffers = [], ld_modules = [], ld_calls = [],
     ld_loaded = {}, ld_loaded_buffers = {}, ld_loaded_shards = {}\<rparr>"

theorem loaded_names_were_written_witness:
  "\<exists>st' names sidecars. load_weights tied_weights id [] tied_cfg True [] tied_load [(''model.embed_tokens.weight'', 5), (''x.scale_scale'', 1)] =
       Inr (st', names, sidecars) \<and> ld_calls st' = [Load ''lm_head.weight'' 5, Load ''model.embed_tokens.weight'' 5] \<and>
     load_targets st' \<subseteq> names \<union> {''lm_head.weight''}"
proof -
  let ?ws = "[(''model.embed_tokens.weight'', 5), (''x.scale_scale'', 1)]"
  have run: "map_sum id ld_calls (res_fold (load_one tied_weights id [] tied_cfg) tied_load ?ws) =
    Inr [Load ''lm_head.weight'' 5, Load ''model.embed_tokens.weight'' 5]" by code_simp
  then obtain st' where st': "res_fold (load_one tied_weights id [] tied_cfg) tied_load ?ws = Inr st'"
    "ld_calls st' = [Load ''lm_head.weight'' 5, Load ''model.embed_tokens.weight'' 5]"
    unfolding map_sum_Inr_iff by metis
  then obtain names sidecars where l: "load_weights tied_weights id [] tied_cfg True [] tied_load ?ws = Inr (st', names, sidecars)"
    by (simp add: load_weights_def)
  have start: "wc_experts tied_cfg \<noteq> Some 0" "ld_calls tied_load = []" "ld_loaded tied_load = {}" "ld_loaded_buffers tied_load = {}" "ld_loaded_shards tied_load = {}"
    by (simp_all add: tied_cfg_def tied_load_def)
  show ?thesis using loaded_names_were_written[OF start l] l st'(2) by blast
qed

end
