(* ===== verification/Weight_Routing.thy ===== *)
theory Weight_Routing
  imports Weight_Loading
begin

text \<open>
  Where the tensors of a checkpoint go: the names of the tensors of a decoder layer, as Qwen3.5
  checkpoints spell them, with the calls each of them must lead to.
\<close>

section \<open>The tensors of a layer\<close>

text \<open>
  The tensors that the loop renames, slices or splits by their names, and \<open>Plain s\<close> for any other tensor
  of a layer, whose name ends in \<open>s\<close>: the gates, norms and biases, \<^verbatim>\<open>A_log\<close>, \<^verbatim>\<open>dt_bias\<close>, \<^verbatim>\<open>conv1d\<close>, the output
  projection of the linear attention, the projections of the PLE layer.
\<close>

datatype layer_tensor = Attn_Q | Attn_K | Attn_V | Attn_O | Linear_QKV | Linear_Z | Linear_B | Linear_A
  | Attn_Q_Norm | Attn_K_Norm | Shared_Gate | Shared_Up | Shared_Down | Experts_Gate_Up | Experts_Down | Plain string

fun ckpt_tail :: "layer_tensor \<Rightarrow> string" where
  "ckpt_tail Attn_Q = ''.self_attn.q_proj.weight''"
| "ckpt_tail Attn_K = ''.self_attn.k_proj.weight''"
| "ckpt_tail Attn_V = ''.self_attn.v_proj.weight''"
| "ckpt_tail Attn_O = ''.self_attn.o_proj.weight''"
| "ckpt_tail Linear_QKV = ''.linear_attn.in_proj_qkv.weight''"
| "ckpt_tail Linear_Z = ''.linear_attn.in_proj_z.weight''"
| "ckpt_tail Linear_B = ''.linear_attn.in_proj_b.weight''"
| "ckpt_tail Linear_A = ''.linear_attn.in_proj_a.weight''"
| "ckpt_tail Shared_Gate = ''.mlp.shared_expert.gate_proj.weight''"
| "ckpt_tail Shared_Up = ''.mlp.shared_expert.up_proj.weight''"
| "ckpt_tail Shared_Down = ''.mlp.shared_expert.down_proj.weight''"
| "ckpt_tail Experts_Gate_Up = ''.mlp.experts.gate_up_proj''"
| "ckpt_tail Experts_Down = ''.mlp.experts.down_proj''"
| "ckpt_tail Attn_Q_Norm = ''.self_attn.q_norm.weight''"
| "ckpt_tail Attn_K_Norm = ''.self_attn.k_norm.weight''"
| "ckpt_tail (Plain s) = s"

text \<open>The name after the rewriting at the start of the loop, and that of the parameter.\<close>

fun short_tail :: "layer_tensor \<Rightarrow> string" where
  "short_tail Attn_Q = ''.q_proj.weight''"
| "short_tail Attn_K = ''.k_proj.weight''"
| "short_tail Attn_V = ''.v_proj.weight''"
| "short_tail Attn_O = ''.o_proj.weight''"
| "short_tail Attn_Q_Norm = ''.q_norm.weight''"
| "short_tail Attn_K_Norm = ''.k_norm.weight''"
| "short_tail t = ckpt_tail t"

fun param_tail :: "layer_tensor \<Rightarrow> string" where
  "param_tail Attn_Q = ''.qkv_proj.weight''"
| "param_tail Attn_K = ''.qkv_proj.weight''"
| "param_tail Attn_V = ''.qkv_proj.weight''"
| "param_tail Attn_O = ''.o_proj.weight''"
| "param_tail Linear_QKV = ''.linear_attn.in_proj_qkvz.weight''"
| "param_tail Linear_Z = ''.linear_attn.in_proj_qkvz.weight''"
| "param_tail Linear_B = ''.linear_attn.in_proj_ba.weight''"
| "param_tail Linear_A = ''.linear_attn.in_proj_ba.weight''"
| "param_tail Shared_Gate = ''.mlp.shared_expert.gate_up_proj.weight''"
| "param_tail Shared_Up = ''.mlp.shared_expert.gate_up_proj.weight''"
| "param_tail Shared_Down = ''.mlp.shared_expert.down_proj.weight''"
| "param_tail Experts_Gate_Up = ''.mlp.experts.w13_weight''"
| "param_tail Experts_Down = ''.mlp.experts.w2_weight''"
| "param_tail Attn_Q_Norm = ''.q_norm.weight''"
| "param_tail Attn_K_Norm = ''.k_norm.weight''"
| "param_tail (Plain s) = s"

fun slice_of :: "layer_tensor \<Rightarrow> shard_id option" where
  "slice_of Attn_Q = Some (Tag ''q'')"
| "slice_of Attn_K = Some (Tag ''k'')"
| "slice_of Attn_V = Some (Tag ''v'')"
| "slice_of Linear_QKV = Some (Slices [0, 1, 2])"
| "slice_of Linear_Z = Some (Slice 3)"
| "slice_of Linear_B = Some (Slice 0)"
| "slice_of Linear_A = Some (Slice 1)"
| "slice_of Shared_Gate = Some (Slice 0)"
| "slice_of Shared_Up = Some (Slice 1)"
| "slice_of t = None"

definition ckpt_name :: "nat \<Rightarrow> layer_tensor \<Rightarrow> string" where
  "ckpt_name l t = numbered ''model.language_model.layers.'' l (ckpt_tail t)"

definition short_name :: "nat \<Rightarrow> layer_tensor \<Rightarrow> string" where
  "short_name l t = numbered ''model.layers.'' l (short_tail t)"

definition param_name :: "nat \<Rightarrow> layer_tensor \<Rightarrow> string" where
  "param_name l t = numbered ''model.layers.'' l (param_tail t)"

text \<open>
  Facts about all the tails at once, by evaluation. A name is a front, a number and a tail, so that
  the loop's tests and rewritings act on front and tail alone.
\<close>

definition layer_tensors :: "layer_tensor list" where
  "layer_tensors = [Attn_Q, Attn_K, Attn_V, Attn_O, Linear_QKV, Linear_Z, Linear_B, Linear_A,
     Attn_Q_Norm, Attn_K_Norm, Shared_Gate, Shared_Up, Shared_Down, Experts_Gate_Up, Experts_Down]"

definition absent :: "string list \<Rightarrow> string \<Rightarrow> bool" where
  "absent ps s \<longleftrightarrow> (\<forall>p\<in>set ps. \<not> sublist p s)"

text \<open>
  A plain tensor has none of the patterns of the loop in its name, and is not named like a parameter
  that other tensors are written to. It may end in one of the ignored suffixes.
\<close>

definition loop_patterns :: "string list" where
  "loop_patterns = [''rotary_emb.inv_freq'', ''mtp'', ''visual'', ''model.language_model.'', ''.self_attn.'', ''.self_attn'',
     ''.k_proj.k_scale'', ''.v_proj.v_scale'', ''.ple.ple_embedding.'', ''.ngram_embedding.shard_'', ''.ple.ple_embedding.ngram_embedding.'',
     ''model.embed_tokens.weight'', ''experts.'', ''experts.gate_up_proj'', ''experts.down_proj'', ''mlp.experts''] @
     map (fst \<circ> snd) stacked_params_mapping"

definition plain_tail :: "string \<Rightarrow> bool" where
  "plain_tail s \<longleftrightarrow> s \<noteq> [] \<and> hd s = CHR ''.'' \<and> absent loop_patterns s \<and> s \<notin> set (map param_tail layer_tensors)"

definition known :: "layer_tensor \<Rightarrow> bool" where
  "known t \<longleftrightarrow> (\<forall>s. t = Plain s \<longrightarrow> plain_tail s)"

lemma known_cases:
  assumes "known t"
  obtains "t \<in> set layer_tensors" | s where "t = Plain s" "plain_tail s"
  using assms by (cases t) (auto simp: layer_tensors_def known_def)

lemma plain_lacks: "plain_tail s \<Longrightarrow> p \<in> set loop_patterns \<Longrightarrow> \<not> sublist p s"
  by (simp add: plain_tail_def absent_def)

definition patterns_ok :: "string list \<Rightarrow> bool" where
  "patterns_ok ps \<longleftrightarrow> (\<forall>p\<in>set ps. digit_free p \<and> p \<noteq> [])"

lemma absent_numbered: "patterns_ok ps \<Longrightarrow> absent ps a \<Longrightarrow> absent ps b \<Longrightarrow> p \<in> set ps \<Longrightarrow> \<not> sublist p (numbered a n b)"
  by (simp add: absent_def patterns_ok_def numbered_simps)

lemma replace_numbered:
  assumes "digit_free p" "p \<noteq> []" "replace_all p r a = a'" "replace_all p r b = b'"
  shows "replace_all p r (numbered a n b) = numbered a' n b'"
  using assms by (simp add: numbered_simps)

definition tail_facts :: "layer_tensor \<Rightarrow> bool" where
  "tail_facts t \<longleftrightarrow> absent [''rotary_emb.inv_freq'', ''mtp'', ''visual''] (ckpt_tail t) \<and>
   replace_all ''model.language_model.'' ''model.'' (ckpt_tail t) = ckpt_tail t \<and>
   (\<not> sublist ''.self_attn.'' (ckpt_tail t) \<longrightarrow> short_tail t = ckpt_tail t) \<and>
   replace_all ''.self_attn'' [] (ckpt_tail t) = short_tail t \<and>
   \<not> suffix ''.k_proj.k_scale'' (short_tail t) \<and> \<not> suffix ''.v_proj.v_scale'' (short_tail t)"

lemma ckpt_tail_facts: "known t \<Longrightarrow> tail_facts t"
proof (elim known_cases)
  have "\<forall>t\<in>set layer_tensors. tail_facts t" by code_simp
  then show "t \<in> set layer_tensors \<Longrightarrow> tail_facts t" by blast
next
  fix s assume "t = Plain s" "plain_tail s"
  note L = plain_lacks[OF this(2)]
  have "absent [''rotary_emb.inv_freq'', ''mtp'', ''visual''] s" "\<not> sublist ''model.language_model.'' s" "\<not> sublist ''.self_attn'' s"
    "\<not> sublist ''.k_proj.k_scale'' s" "\<not> sublist ''.v_proj.v_scale'' s"
    unfolding absent_def using L by (simp_all add: loop_patterns_def)
  moreover have "\<not> suffix ''.k_proj.k_scale'' s" "\<not> suffix ''.v_proj.v_scale'' s" using calculation suffix_imp_sublist by blast+
  ultimately show "tail_facts t" using \<open>t = Plain s\<close> by (simp add: tail_facts_def replace_all_absent del: sublist_code)
qed

lemma ckpt_front_facts:
  "absent [''rotary_emb.inv_freq'', ''mtp'', ''visual''] ''model.language_model.layers.''"
  "sublist ''language_model'' ''model.language_model.layers.''" "\<not> sublist ''.self_attn.'' ''model.layers.''"
  "replace_all ''model.language_model.'' ''model.'' ''model.language_model.layers.'' = ''model.layers.''"
  "replace_all ''.self_attn'' [] ''model.layers.'' = ''model.layers.''"
  by code_simp+

lemma skipped_patterns: "patterns_ok [''rotary_emb.inv_freq'', ''mtp'', ''visual'']"
  by code_simp

lemma free_patterns:
  "digit_free ''language_model''" "digit_free ''model.language_model.''" "digit_free ''.self_attn.''" "digit_free ''.self_attn''"
  "digit_free ''.k_proj.k_scale''" "digit_free ''.v_proj.v_scale''"
  by code_simp+

lemma rename_ckpt:
  assumes "known t"
  shows "rename_weight language_only (ckpt_name l t) = Some (short_name l t)"
proof -
  note F = ckpt_tail_facts[OF assms, unfolded tail_facts_def]
  let ?n = "numbered ''model.language_model.layers.'' l (ckpt_tail t)"
  have skip: "\<not> sublist ''rotary_emb.inv_freq'' ?n" "\<not> sublist ''mtp'' ?n" "\<not> sublist ''visual'' ?n"
    using absent_numbered[OF skipped_patterns ckpt_front_facts(1) conjunct1[OF F]] by simp_all
  have lm: "sublist ''language_model'' ?n" by (subst numbered_simps(1)[OF free_patterns(1)]) (simp_all add: ckpt_front_facts(2))
  have n1: "replace_all ''model.language_model.'' ''model.'' ?n = numbered ''model.layers.'' l (ckpt_tail t)"
    by (rule replace_numbered[OF free_patterns(2) _ ckpt_front_facts(4)]) (use F in simp_all)
  have n2: "(if sublist ''.self_attn.'' (numbered ''model.layers.'' l (ckpt_tail t))
      then replace_all ''.self_attn'' [] (numbered ''model.layers.'' l (ckpt_tail t)) else numbered ''model.layers.'' l (ckpt_tail t)) =
    numbered ''model.layers.'' l (short_tail t)"
    using replace_numbered[OF free_patterns(4) _ ckpt_front_facts(5), of "ckpt_tail t" "short_tail t" l] F
      numbered_simps(1)[OF free_patterns(3), of "''model.layers.''" l "ckpt_tail t"] ckpt_front_facts(3) by (auto simp del: sublist_code)
  have "\<not> suffix ''.k_proj.k_scale'' (numbered ''model.layers.'' l (short_tail t))" "\<not> suffix ''.v_proj.v_scale'' (numbered ''model.layers.'' l (short_tail t))"
    using F numbered_simps(2)[OF free_patterns(5)] numbered_simps(2)[OF free_patterns(6)] by simp_all
  then show ?thesis unfolding rename_weight_def ckpt_name_def short_name_def Let_def if_P[OF lm] n1 n2 using skip by simp
qed

definition short_patterns :: "string list" where
  "short_patterns = [''.ple.ple_embedding.'', ''.ngram_embedding.shard_'', ''.ple.ple_embedding.ngram_embedding.'',
     ''model.embed_tokens.weight'', ''visual'']"

lemma short_name_lacks:
  assumes "known t"
  shows "\<not> sublist ''.ple.ple_embedding.'' (short_name l t)" "\<not> sublist ''.ngram_embedding.shard_'' (short_name l t)"
    "\<not> sublist ''.ple.ple_embedding.ngram_embedding.'' (short_name l t)" "\<not> sublist ''model.embed_tokens.weight'' (short_name l t)"
    "\<not> sublist ''visual'' (short_name l t)"
proof -
  have "\<forall>t\<in>set layer_tensors. absent short_patterns (short_tail t)" and front: "absent short_patterns ''model.layers.''" "patterns_ok short_patterns"
    by code_simp+
  moreover have "absent short_patterns (short_tail (Plain s))" if "plain_tail s" for s
    using plain_lacks[OF that] unfolding absent_def by (auto simp: short_patterns_def loop_patterns_def simp del: sublist_code)
  ultimately have "absent short_patterns (short_tail t)" using assms by (auto elim: known_cases)
  then show "\<not> sublist ''.ple.ple_embedding.'' (short_name l t)" "\<not> sublist ''.ngram_embedding.shard_'' (short_name l t)"
    "\<not> sublist ''.ple.ple_embedding.ngram_embedding.'' (short_name l t)" "\<not> sublist ''model.embed_tokens.weight'' (short_name l t)"
    "\<not> sublist ''visual'' (short_name l t)"
    using absent_numbered[OF front(2,1)] unfolding short_name_def by (auto simp: short_patterns_def simp del: sublist_code)
qed

definition expert_facts :: "layer_tensor \<Rightarrow> bool" where
  "expert_facts t \<longleftrightarrow> (sublist ''experts.gate_up_proj'' (short_tail t) \<longleftrightarrow> t = Experts_Gate_Up) \<and>
     (sublist ''experts.down_proj'' (short_tail t) \<longleftrightarrow> t = Experts_Down) \<and>
     (sublist ''experts.'' (short_tail t) \<longleftrightarrow> t = Experts_Gate_Up \<or> t = Experts_Down) \<and>
     (sublist ''mlp.experts'' (short_tail t) \<longleftrightarrow> t = Experts_Gate_Up \<or> t = Experts_Down)"

lemma tail_experts: "known t \<Longrightarrow> expert_facts t"
proof (elim known_cases)
  have "\<forall>t\<in>set layer_tensors. expert_facts t" by code_simp
  then show "t \<in> set layer_tensors \<Longrightarrow> expert_facts t" by blast
next
  fix s assume s: "t = Plain s" "plain_tail s"
  have "\<not> sublist ''experts.gate_up_proj'' s" "\<not> sublist ''experts.down_proj'' s" "\<not> sublist ''experts.'' s" "\<not> sublist ''mlp.experts'' s"
    using plain_lacks[OF s(2)] by (simp_all add: loop_patterns_def)
  then show "expert_facts t" unfolding expert_facts_def s(1) by (simp del: sublist_code)
qed

lemma short_name_experts:
  assumes "known t"
  shows "sublist ''experts.gate_up_proj'' (short_name l t) \<longleftrightarrow> t = Experts_Gate_Up" "sublist ''experts.down_proj'' (short_name l t) \<longleftrightarrow> t = Experts_Down"
    "sublist ''experts.'' (short_name l t) \<longleftrightarrow> t = Experts_Gate_Up \<or> t = Experts_Down"
    "sublist ''mlp.experts'' (short_name l t) \<longleftrightarrow> t = Experts_Gate_Up \<or> t = Experts_Down"
proof -
  have free: "digit_free ''experts.gate_up_proj''" "digit_free ''experts.down_proj''" "digit_free ''experts.''" "digit_free ''mlp.experts''" by code_simp+
  have front: "\<not> sublist ''experts.gate_up_proj'' ''model.layers.''" "\<not> sublist ''experts.down_proj'' ''model.layers.''"
    "\<not> sublist ''experts.'' ''model.layers.''" "\<not> sublist ''mlp.experts'' ''model.layers.''" by code_simp+
  note T = tail_experts[OF assms, unfolded expert_facts_def]
  show "sublist ''experts.gate_up_proj'' (short_name l t) \<longleftrightarrow> t = Experts_Gate_Up" "sublist ''experts.down_proj'' (short_name l t) \<longleftrightarrow> t = Experts_Down"
    "sublist ''experts.'' (short_name l t) \<longleftrightarrow> t = Experts_Gate_Up \<or> t = Experts_Down"
    "sublist ''mlp.experts'' (short_name l t) \<longleftrightarrow> t = Experts_Gate_Up \<or> t = Experts_Down"
    unfolding short_name_def numbered_simps(1)[OF free(1) list.distinct(2)] numbered_simps(1)[OF free(2) list.distinct(2)]
      numbered_simps(1)[OF free(3) list.distinct(2)] numbered_simps(1)[OF free(4) list.distinct(2)] using T front by blast+
qed

text \<open>The first entry of the fused parameters that occurs in a tail, with the tail it makes of it.\<close>

fun first_entry :: "string \<Rightarrow> (string \<times> string \<times> shard_id) list \<Rightarrow> (string \<times> shard_id) option" where
  "first_entry tail [] = None"
| "first_entry tail ((p, w, s) # m) = (if sublist w tail then Some (replace_all w p tail, s) else first_entry tail m)"

definition front_ok :: "string \<Rightarrow> (string \<times> string \<times> shard_id) list \<Rightarrow> bool" where
  "front_ok a m \<longleftrightarrow> (\<forall>(p, w, s)\<in>set m. digit_free w \<and> w \<noteq> [] \<and> \<not> sublist w a \<and> replace_all w p a = a)"

lemma find_stacked_first:
  assumes "front_ok a m" "first_entry b m = Some (b', s)" "numbered a n b' \<in> set params"
    and "\<not> sublist ''visual'' (numbered a n b)" "\<not> sublist ''mlp.experts'' (numbered a n b)"
  shows "find_stacked params (numbered a n b) m = Some (numbered a n b', s)"
  using assms by (induction m) (auto simp: front_ok_def numbered_simps ignored_def Let_def split: if_splits)

lemma find_stacked_skips:
  assumes "front_ok a m" "first_entry b m = None \<or> sublist ''mlp.experts'' (numbered a n b)"
  shows "find_stacked params (numbered a n b) m = None"
  using assms by (induction m) (auto simp: front_ok_def numbered_simps split: if_splits)

lemma front_stacked: "front_ok ''model.layers.'' stacked_params_mapping"
  by code_simp

lemma first_entry_none: "\<forall>w\<in>set (map (fst \<circ> snd) m). \<not> sublist w tail \<Longrightarrow> first_entry tail m = None"
  by (induction tail m rule: first_entry.induct) auto

definition entry_facts :: "layer_tensor \<Rightarrow> bool" where
  "entry_facts t \<longleftrightarrow> (case slice_of t of Some s \<Rightarrow> first_entry (short_tail t) stacked_params_mapping = Some (param_tail t, s)
    | None \<Rightarrow> t = Experts_Gate_Up \<or> t = Experts_Down \<or> first_entry (short_tail t) stacked_params_mapping = None)"

lemma first_stacked: "known t \<Longrightarrow> entry_facts t"
proof (elim known_cases)
  have "\<forall>t\<in>set layer_tensors. entry_facts t" by code_simp
  then show "t \<in> set layer_tensors \<Longrightarrow> entry_facts t" by blast
next
  fix s assume s: "t = Plain s" "plain_tail s"
  have "first_entry s stacked_params_mapping = None"
    by (rule first_entry_none) (use plain_lacks[OF s(2)] in \<open>simp add: loop_patterns_def\<close>)
  then show "entry_facts t" by (simp add: entry_facts_def s(1))
qed

lemma stacked_slice:
  assumes "known t" "slice_of t = Some s" "param_name l t \<in> set params"
  shows "find_stacked params (short_name l t) stacked_params_mapping = Some (param_name l t, s)"
proof -
  have "t \<noteq> Experts_Gate_Up \<and> t \<noteq> Experts_Down" using assms(2) by auto
  then show ?thesis using find_stacked_first[OF front_stacked, of "short_tail t" "param_tail t" s l params] first_stacked[OF assms(1)] assms(2,3)
      short_name_lacks(5)[OF assms(1), of l] short_name_experts(4)[OF assms(1), of l] unfolding short_name_def param_name_def by (simp add: entry_facts_def)
qed

lemma stacked_none: "known t \<Longrightarrow> slice_of t = None \<Longrightarrow> find_stacked params (short_name l t) stacked_params_mapping = None"
  using find_stacked_skips[OF front_stacked, of "short_tail t" l params] first_stacked[of t] short_name_experts(4)[of t l]
  unfolding short_name_def by (auto simp: entry_facts_def)

section \<open>The calls of a tensor\<close>

definition expert_calls :: "('w, 'r) weight_ops \<Rightarrow> nat \<Rightarrow> string \<Rightarrow> 'w \<Rightarrow> string \<Rightarrow> 'w load_call list" where
  "expert_calls ops E name w shard = map (\<lambda>e. Load_Expert name (ok_or w (tw_expert ops w e)) name shard e) [0..<E]"

definition tensor_calls :: "('w, 'r) weight_ops \<Rightarrow> nat \<Rightarrow> nat \<Rightarrow> layer_tensor \<Rightarrow> 'w \<Rightarrow> 'w load_call list" where
  "tensor_calls ops E l t w =
     (case slice_of t of
        Some s \<Rightarrow> [Load_Slice (param_name l t) w s]
      | None \<Rightarrow>
          if t = Experts_Gate_Up then expert_calls ops E (param_name l t) (tw_chunk ops w ! 0) ''w1'' @
            expert_calls ops E (param_name l t) (tw_chunk ops w ! 1) ''w3''
          else if t = Experts_Down then expert_calls ops E (param_name l t) w ''w2''
          else [Load (param_name l t) w])"

text \<open>The stacked experts of a checkpoint: one slice per expert, gate and up halves in one tensor.\<close>

definition has_experts :: "('w, 'r) weight_ops \<Rightarrow> nat \<Rightarrow> 'w \<Rightarrow> bool" where
  "has_experts ops E w \<longleftrightarrow> (\<forall>e<E. is_ok (tw_expert ops w e))"

definition layer_tensor_ok :: "('w, 'r) weight_ops \<Rightarrow> nat \<Rightarrow> layer_tensor \<Rightarrow> 'w \<Rightarrow> bool" where
  "layer_tensor_ok ops E t w \<longleftrightarrow> known t \<and>
     (t = Experts_Gate_Up \<longrightarrow> length (tw_chunk ops w) = 2 \<and> has_experts ops E (tw_chunk ops w ! 0) \<and> has_experts ops E (tw_chunk ops w ! 1)) \<and>
     (t = Experts_Down \<longrightarrow> has_experts ops E w)"

text \<open>
  What the loop relies on: the experts of the configuration, the names of the library's mapping of
  single experts, and the layer number that the library reads off a name.
\<close>

definition cfg_ok :: "nat \<Rightarrow> weight_cfg \<Rightarrow> bool" where
  "cfg_ok E cfg \<longleftrightarrow> wc_experts cfg = Some E \<and> \<not> wc_encoder_only cfg \<and>
     (\<forall>(p, weight_name, e, s)\<in>set (wc_expert_mapping cfg). sublist ''experts.'' weight_name) \<and>
     (\<forall>l t. known t \<longrightarrow> wc_layer_id cfg (short_name l t) = Some l)"

lemma load_fused_expert_calls:
  assumes "has_experts ops E w" "name \<in> set (ld_params st)"
  shows "load_fused_expert_weights ops (Some E) name w shard st = Inr (call (expert_calls ops E name w shard) st)"
proof -
  have "res_fold (\<lambda>s e. map_sum id (\<lambda>we. call [Load_Expert name we name shard e] s) (tw_expert ops w e)) st es =
      Inr (call (map (\<lambda>e. Load_Expert name (ok_or w (tw_expert ops w e)) name shard e) es) st)" if "\<forall>e\<in>set es. is_ok (tw_expert ops w e)" for es st
    using that
  proof (induction es arbitrary: st)
    case (Cons e es)
    then obtain we where "tw_expert ops w e = Inr we" by (cases "tw_expert ops w e") auto
    then show ?case using Cons by simp
  qed simp
  note run = this[of "[0..<E]" st]
  have "\<forall>e\<in>set [0..<E]. is_ok (tw_expert ops w e)" using assms(1) by (simp add: has_experts_def)
  then show ?thesis using run assms(2) by (simp only: load_fused_expert_weights_def expert_calls_def option.case not_True_eq_False if_False)
qed

lemma load_experts_none:
  assumes "\<forall>(p, weight_name, e, s)\<in>set m. \<not> sublist weight_name name"
  shows "load_experts ops cfg fused name w m matched st = Inr (st, None, matched)"
  using assms by (induction ops cfg fused name w m matched st rule: load_experts.induct) auto

text \<open>The two entries of the fused experts, on the names that contain one of them.\<close>

lemma load_gate_up:
  assumes "sublist ''experts.gate_up_proj'' name" "\<not> sublist ''visual'' name" "\<not> wc_encoder_only cfg" "wc_experts cfg = Some E"
    and n: "n = replace_all ''experts.gate_up_proj'' ''experts.w13_weight'' name" "n \<in> set (ld_params st)"
    and w: "tw_chunk ops w = [gate, up]" "has_experts ops E gate" "has_experts ops E up"
  shows "load_experts ops cfg True name w fused_expert_params_mapping False st =
    Inr (call (expert_calls ops E n gate ''w1'' @ expert_calls ops E n up ''w3'') st, Some n, True)"
  using assms load_fused_expert_calls[OF w(2) n(2)] load_fused_expert_calls[OF w(3), of n "call _ st"]
  unfolding fused_expert_params_mapping_def load_experts.simps Let_def by (simp del: replace_all.simps)

lemma load_down:
  assumes "\<not> sublist ''experts.gate_up_proj'' name" "sublist ''experts.down_proj'' name" "\<not> sublist ''visual'' name"
    "\<not> wc_encoder_only cfg" "wc_experts cfg = Some E"
    and n: "n = replace_all ''experts.down_proj'' ''experts.w2_weight'' name" "n \<in> set (ld_params st)" and w: "has_experts ops E w"
  shows "load_experts ops cfg True name w fused_expert_params_mapping False st = Inr (call (expert_calls ops E n w ''w2'') st, Some n, True)"
  using assms load_fused_expert_calls[OF w n(2)]
  unfolding fused_expert_params_mapping_def load_experts.simps Let_def by (simp del: replace_all.simps)

lemma param_of_short:
  "param_name l Experts_Gate_Up = replace_all ''experts.gate_up_proj'' ''experts.w13_weight'' (short_name l Experts_Gate_Up)"
  "param_name l Experts_Down = replace_all ''experts.down_proj'' ''experts.w2_weight'' (short_name l Experts_Down)"
  "slice_of t = None \<Longrightarrow> t \<noteq> Experts_Gate_Up \<Longrightarrow> t \<noteq> Experts_Down \<Longrightarrow> param_name l t = short_name l t"
  unfolding param_name_def short_name_def by (simp_all add: is_digit_def numbered_simps, cases t, simp_all)

lemma load_param_routes:
  assumes cfg: "cfg_ok E cfg" and p: "param_name l t \<in> set (ld_params st)" and w: "layer_tensor_ok ops E t w"
  shows "load_param ops cfg (short_name l t) w st = Inr (mark (param_name l t) (call (tensor_calls ops E l t w) st))"
proof (cases "slice_of t")
  case (Some s)
  then show ?thesis using stacked_slice[OF _ Some p] w[unfolded layer_tensor_ok_def] by (simp add: load_param_def tensor_calls_def)
next
  case None
  note c = cfg[unfolded cfg_ok_def]
  have kn: "known t" using w by (simp add: layer_tensor_ok_def)
  note lacks = short_name_lacks[OF kn] and experts = short_name_experts[OF kn] and none = stacked_none[OF kn None, of "ld_params st" l]
  consider "t = Experts_Gate_Up" | "t = Experts_Down" | "t \<noteq> Experts_Gate_Up" "t \<noteq> Experts_Down" by blast
  then show ?thesis
  proof cases
    case 1
    obtain gate up where g: "tw_chunk ops w = [gate, up]" "has_experts ops E gate" "has_experts ops E up"
      using w 1 unfolding layer_tensor_ok_def by (cases "tw_chunk ops w" rule: list.exhaust[case_product]) (auto simp: length_Suc_conv numeral_2_eq_2)
    have "load_experts ops cfg True (short_name l t) w fused_expert_params_mapping False st =
        Inr (call (expert_calls ops E (param_name l t) gate ''w1'' @ expert_calls ops E (param_name l t) up ''w3'') st, Some (param_name l t), True)"
      by (rule load_gate_up) (use 1 c g p param_of_short(1) lacks(5) experts in simp_all)
    then show ?thesis using 1 none experts(1)[of l] g
      by (simp add: load_param_def tensor_calls_def)
  next
    case 2
    have "load_experts ops cfg True (short_name l t) w fused_expert_params_mapping False st =
        Inr (call (expert_calls ops E (param_name l t) w ''w2'') st, Some (param_name l t), True)"
      by (rule load_down) (use 2 c w p param_of_short(2) lacks(5) experts in \<open>simp_all add: layer_tensor_ok_def\<close>)
    then show ?thesis using 2 none experts(2)[of l]
      by (simp add: load_param_def tensor_calls_def)
  next
    case 3
    have name: "param_name l t = short_name l t" by (rule param_of_short(3)[OF None 3])
    have "\<not> sublist ''experts.'' (short_name l t)" using 3 experts(3) by blast
    then have "\<forall>(p, weight_name, e, s)\<in>set (wc_expert_mapping cfg). \<not> sublist weight_name (short_name l t)"
      using c sublist_order.order_trans by fastforce
    note no_experts = load_experts_none[OF this, of ops cfg False w False st]
    have "load_plain ops (short_name l t) w st = Inr (mark (short_name l t) (call [Load (short_name l t) w] st))"
      using p name lacks(5)[of l] by (simp add: load_plain_def ignored_def Let_def)
    then show ?thesis using 3 None name no_experts none experts(1,2)[of l] c
      by (simp add: load_param_def tensor_calls_def)
  qed
qed

lemma load_one_routes:
  assumes cfg: "cfg_ok E cfg" and w: "layer_tensor_ok ops E t w"
    and p: "wc_start cfg \<le> l \<Longrightarrow> l < wc_end cfg \<Longrightarrow> param_name l t \<in> set (ld_params st)"
  shows "load_one ops conv junk cfg st (ckpt_name l t, w) =
    Inr (if wc_start cfg \<le> l \<and> l < wc_end cfg then mark (param_name l t) (call (tensor_calls ops E l t w) st) else st)"
proof -
  have kn: "known t" using w by (simp add: layer_tensor_ok_def)
  note lacks = short_name_lacks[OF kn, of l]
  have l: "wc_layer_id cfg (short_name l t) = Some l" using cfg kn by (simp add: cfg_ok_def)
  have buf: "load_ple_buffer ops (short_name l t) w st = Inr (st, False)"
    unfolding load_ple_buffer_def using lacks(1) by (simp)
  have shard: "load_named_shard ops conv junk (wc_parts cfg) (short_name l t) w st = Inr (st, False)"
    unfolding load_named_shard_def using lacks(2) by (simp)
  show ?thesis
    unfolding load_one_def fst_conv snd_conv rename_ckpt[OF kn] option.case Let_def buf shard res_bind_simps prod.case l
    using lacks(3,4) load_param_routes[OF cfg p w] by auto
qed

section \<open>The whole checkpoint\<close>

fun call_slot :: "'w load_call \<Rightarrow> string \<times> shard_id option \<times> (string \<times> nat) option" where
  "call_slot (Load n w) = (n, None, None)"
| "call_slot (Load_Slice n w s) = (n, Some s, None)"
| "call_slot (Load_Expert n w m shard e) = (n, None, Some (shard, e))"

lemma tensor_call_slot:
  "c \<in> set (tensor_calls ops E l t w) \<Longrightarrow> fst (call_slot c) = param_name l t \<and> fst (snd (call_slot c)) = slice_of t"
  by (auto simp: tensor_calls_def expert_calls_def split: option.splits if_splits)

lemma distinct_tensor_slots: "distinct (map call_slot (tensor_calls ops E l t w))"
proof -
  have "distinct (map call_slot (expert_calls ops E n x s))" for n x s
    by (simp add: expert_calls_def distinct_map inj_on_def)
  moreover have "set (map call_slot (expert_calls ops E n x ''w1'')) \<inter> set (map call_slot (expert_calls ops E n y ''w3'')) = {}" for n x y
    by (auto simp: expert_calls_def)
  ultimately show ?thesis by (simp add: tensor_calls_def split: option.split)
qed

lemma param_tail_inject:
  assumes "known t" "known t'" "slice_of t = slice_of t'" "param_tail t = param_tail t'"
  shows "t = t'"
proof -
  have "\<forall>t\<in>set layer_tensors. \<forall>t'\<in>set layer_tensors. slice_of t = slice_of t' \<longrightarrow> param_tail t = param_tail t' \<longrightarrow> t = t'"
    by code_simp
  moreover have "param_tail t \<noteq> s" if "t \<in> set layer_tensors" "plain_tail s" for t s
    using that by (auto simp: plain_tail_def)
  ultimately show ?thesis using assms by (elim known_cases) (blast, metis param_tail.simps(16), metis param_tail.simps(16), simp)
qed

lemma param_name_inject:
  assumes "known t" "known t'" "param_name l t = param_name l' t'" "slice_of t = slice_of t'"
  shows "l = l' \<and> t = t'"
proof -
  have tail: "param_tail k \<noteq> []" "\<not> is_digit (hd (param_tail k))" if "known k" for k
    using that by (cases k; simp add: is_digit_def known_def plain_tail_def)+
  have "l = l' \<and> param_tail t = param_tail t'"
    using assms(3) numbered_inject[OF tail(1)[OF assms(1)] tail(1)[OF assms(2)] tail(2)[OF assms(1)] tail(2)[OF assms(2)]]
    unfolding param_name_def by blast
  then show ?thesis using param_tail_inject[OF assms(1,2,4)] by blast
qed

definition in_stage :: "weight_cfg \<Rightarrow> (nat \<times> layer_tensor) \<times> 'w \<Rightarrow> bool" where
  "in_stage cfg x \<longleftrightarrow> wc_start cfg \<le> fst (fst x) \<and> fst (fst x) < wc_end cfg"

definition ckpt_entry :: "(nat \<times> layer_tensor) \<times> 'w \<Rightarrow> string \<times> 'w" where
  "ckpt_entry x = (ckpt_name (fst (fst x)) (snd (fst x)), snd x)"

definition entry_calls :: "('w, 'r) weight_ops \<Rightarrow> nat \<Rightarrow> (nat \<times> layer_tensor) \<times> 'w \<Rightarrow> 'w load_call list" where
  "entry_calls ops E x = tensor_calls ops E (fst (fst x)) (snd (fst x)) (snd x)"

definition entry_param :: "(nat \<times> layer_tensor) \<times> 'w \<Rightarrow> string" where
  "entry_param x = param_name (fst (fst x)) (snd (fst x))"

lemma distinct_entry_slots:
  assumes "distinct (map fst ws)" "\<forall>x\<in>set ws. known (snd (fst x))"
  shows "distinct (map call_slot (concat (map (entry_calls ops E) ws)))"
  using assms
proof (induction ws)
  case (Cons x ws)
  have "call_slot c \<noteq> call_slot d" if "c \<in> set (entry_calls ops E x)" "y \<in> set ws" "d \<in> set (entry_calls ops E y)" for c d y
  proof
    assume "call_slot c = call_slot d"
    moreover have "known (snd (fst x))" "known (snd (fst y))" using Cons.prems(2) that(2) by simp_all
    ultimately have "fst x = fst y" using tensor_call_slot that(1,3) param_name_inject unfolding entry_calls_def by (metis prod.collapse)
    then show False using Cons.prems(1) that(2) by (metis distinct.simps(2) image_eqI list.set_map list.simps(9))
  qed
  note clash = this
  have "call_slot ` set (entry_calls ops E x) \<inter> call_slot ` set (concat (map (entry_calls ops E) ws)) = {}"
  proof (rule equals0I, elim IntE imageE)
    fix k c d assume k: "k = call_slot c" "c \<in> set (entry_calls ops E x)" "k = call_slot d" "d \<in> set (concat (map (entry_calls ops E) ws))"
    then obtain y where "y \<in> set ws" "d \<in> set (entry_calls ops E y)" by auto
    then have "call_slot c \<noteq> call_slot d" by (rule clash[OF k(2)])
    then show False using k(1,3) by metis
  qed
  moreover have "distinct (map call_slot (entry_calls ops E x))" unfolding entry_calls_def by (rule distinct_tensor_slots)
  moreover have "distinct (map call_slot (concat (map (entry_calls ops E) ws)))" using Cons by simp
  ultimately show ?case by (simp only: list.map concat.simps map_append distinct_append list.set_map simp_thms)
qed simp

text \<open>
  C17: The tensors of the layers of a checkpoint are routed completely and without clashes. The tensors
  are, for every layer: the query, key, value and output projections and the query and key norms of
  the attention, the four input projections of the linear attention, the gate, up and down projections
  of the shared expert, the stacked gate-up and down tensors of the experts, and any other tensor
  whose name has none of the patterns of the loop (\<open>loop_patterns\<close>), also one that ends in an ignored
  suffix, such as \<^verbatim>\<open>dt_bias\<close>. Scales of the attention projections, the buffers and shards of the PLE
  embedding and experts stored one by one are outside. Every tensor of this pipeline stage has its
  parameter in the model. Whatever the order of the tensors, a load makes exactly the calls that the
  tensors of this stage call for: the parts of a fused projection as their own slices, the stacked
  experts expert by expert with the gate and up halves apart, everything else whole; no slice, no
  expert half and no parameter is written twice, tensors of other stages write nothing, and exactly
  the parameters of the stage count as loaded.
\<close>

theorem checkpoint_is_routed:
  assumes cfg: "cfg_ok E cfg" and ws: "distinct (map fst ws)" "\<forall>x\<in>set ws. layer_tensor_ok ops E (snd (fst x)) (snd x)"
    and params: "\<forall>x\<in>set ws. in_stage cfg x \<longrightarrow> entry_param x \<in> set (ld_params st)"
    and start: "ld_calls st = []" "ld_loaded st = {}" "ld_loaded_buffers st = {}" "ld_loaded_shards st = {}"
  shows "\<exists>st' sidecars. load_weights ops conv junk cfg msync_ok now st (map ckpt_entry ws) =
       Inr (st', entry_param ` set (filter (in_stage cfg) ws), sidecars) \<and>
     ld_calls st' = concat (map (entry_calls ops E) (filter (in_stage cfg) ws)) \<and> distinct (map call_slot (ld_calls st'))"
proof -
  have run: "\<exists>st'. res_fold (load_one ops conv junk cfg) s (map ckpt_entry xs) = Inr st' \<and>
      ld_calls st' = ld_calls s @ concat (map (entry_calls ops E) (filter (in_stage cfg) xs)) \<and>
      ld_loaded st' = ld_loaded s \<union> entry_param ` set (filter (in_stage cfg) xs) \<and>
      ld_loaded_buffers st' = ld_loaded_buffers s \<and> ld_loaded_shards st' = ld_loaded_shards s"
    if "set xs \<subseteq> set ws" "ld_params s = ld_params st" for xs s
    using that
  proof (induction xs arbitrary: s)
    case (Cons x xs)
    have x: "x \<in> set ws" using Cons.prems(1) by simp
    let ?s = "if in_stage cfg x then mark (entry_param x) (call (entry_calls ops E x) s) else s"
    have "layer_tensor_ok ops E (snd (fst x)) (snd x)" using ws(2) x by blast
    then have one: "load_one ops conv junk cfg s (ckpt_entry x) = Inr ?s"
      using load_one_routes[OF cfg, of ops "snd (fst x)" "snd x" "fst (fst x)" s conv junk] params x Cons.prems(2)
      by (simp add: ckpt_entry_def in_stage_def entry_calls_def entry_param_def)
    have "ld_params ?s = ld_params st" using Cons.prems(2) by simp
    then show ?case using Cons.IH[of ?s] Cons.prems(1) by (cases "in_stage cfg x") (auto simp: one)
  qed simp
  obtain st' where st': "res_fold (load_one ops conv junk cfg) st (map ckpt_entry ws) = Inr st'"
    "ld_calls st' = concat (map (entry_calls ops E) (filter (in_stage cfg) ws))" "ld_loaded st' = entry_param ` set (filter (in_stage cfg) ws)"
    "ld_loaded_buffers st' = {}" "ld_loaded_shards st' = {}"
    using run[OF order_refl refl] start by auto
  moreover have "distinct (map fst (filter (in_stage cfg) ws))" using ws(1) by (simp add: distinct_map_filter)
  then have "distinct (map call_slot (ld_calls st'))"
    unfolding st'(2) by (rule distinct_entry_slots) (use ws(2) in \<open>simp add: layer_tensor_ok_def\<close>)
  ultimately show ?thesis by (simp add: load_weights_def)
qed

text \<open>Two experts, the first of two stages with one layer each.\<close>

definition demo_weights :: "(nat, rat) weight_ops" where
  "demo_weights = \<lparr>tw_shape = (\<lambda>_. []), tw_item = (\<lambda>_. Inr 1), tw_chunk = (\<lambda>w. [w, w + 100]), tw_expert = (\<lambda>w e. Inr (10 * w + e)),
     tw_cast = (\<lambda>_ w. w), tw_shard = (\<lambda>_. (False, []))\<rparr>"

definition demo_cfg :: weight_cfg where
  "demo_cfg = \<lparr>wc_language_only = False, wc_tie = True, wc_last_rank = True, wc_encoder_only = False, wc_experts = Some 2,
     wc_expert_mapping = [(''experts.w2_'', ''experts.0.down_proj.'', 0, ''w2'')],
     wc_layer_id = (\<lambda>name. Some (digits_value (takeWhile is_digit (drop 13 name)))), wc_start = 0, wc_end = 1, wc_parts = 4\<rparr>"

definition demo_load :: "string list \<Rightarrow> (nat, rat) load_state" where
  "demo_load params = \<lparr>ld_params = params, ld_buffers = [], ld_modules = [], ld_calls = [], ld_loaded = {}, ld_loaded_buffers = {},
     ld_loaded_shards = {}\<rparr>"

lemma demo_cfg_ok: "cfg_ok 2 demo_cfg"
proof -
  have tail: "short_tail t \<noteq> []" "\<not> is_digit (hd (short_tail t))" if "known t" for t
    using that by (cases t; simp add: is_digit_def known_def plain_tail_def)+
  have "takeWhile is_digit (digits_of l @ b) = digits_of l" if "b \<noteq> []" "\<not> is_digit (hd b)" for l b
    using number_digits_of[of l] that by (cases b) (auto simp: number_def list_all_iff takeWhile_append2)
  then have "wc_layer_id demo_cfg (short_name l t) = Some l" if "known t" for l t
    using tail[OF that] by (simp add: demo_cfg_def short_name_def numbered_def digits_value_of)
  then show ?thesis by (simp add: cfg_ok_def demo_cfg_def)
qed

theorem checkpoint_is_routed_witness:
  "\<exists>st' names sidecars. load_weights demo_weights id [] demo_cfg True [] 
         (demo_load [param_name 0 Attn_Q, param_name 0 Experts_Gate_Up, param_name 0 (Plain ''.linear_attn.dt_bias'')])
       [(ckpt_name 0 Attn_Q, 1), (ckpt_name 1 Attn_K, 2), (ckpt_name 0 (Plain ''.linear_attn.dt_bias''), 4), (ckpt_name 0 Experts_Gate_Up, 3)] = Inr (st', names, sidecars) \<and>
     map call_slot (ld_calls st') = [(param_name 0 Attn_Q, Some (Tag ''q''), None), (param_name 0 (Plain ''.linear_attn.dt_bias''), None, None),
       (param_name 0 Experts_Gate_Up, None, Some (''w1'', 0)), (param_name 0 Experts_Gate_Up, None, Some (''w1'', 1)),
       (param_name 0 Experts_Gate_Up, None, Some (''w3'', 0)), (param_name 0 Experts_Gate_Up, None, Some (''w3'', 1))]"
proof -
  let ?ws = "[((0, Attn_Q), 1), ((1, Attn_K), 2), ((0, Plain ''.linear_attn.dt_bias''), 4), ((0, Experts_Gate_Up), 3)] :: ((nat \<times> layer_tensor) \<times> nat) list"
  let ?slots = "[(param_name 0 Attn_Q, Some (Tag ''q''), None), (param_name 0 (Plain ''.linear_attn.dt_bias''), None, None),
       (param_name 0 Experts_Gate_Up, None, Some (''w1'', 0)), (param_name 0 Experts_Gate_Up, None, Some (''w1'', 1)),
       (param_name 0 Experts_Gate_Up, None, Some (''w3'', 0)), (param_name 0 Experts_Gate_Up, None, Some (''w3'', 1))]"
  have "plain_tail ''.linear_attn.dt_bias''" by code_simp
  then have dt: "known (Plain ''.linear_attn.dt_bias'')" by (simp add: known_def)
  have ws: "distinct (map fst ?ws)" "\<forall>x\<in>set ?ws. layer_tensor_ok demo_weights 2 (snd (fst x)) (snd x)"
    using dt by (simp_all add: layer_tensor_ok_def has_experts_def demo_weights_def known_def[of Attn_Q] known_def[of Attn_K] known_def[of Experts_Gate_Up])
  have stage: "in_stage demo_cfg ((l, t), w) \<longleftrightarrow> l = 0" for l t and w :: nat by (auto simp: in_stage_def demo_cfg_def)
  have params: "\<forall>x\<in>set ?ws. in_stage demo_cfg x \<longrightarrow> entry_param x \<in> set (ld_params (demo_load [param_name 0 Attn_Q, param_name 0 Experts_Gate_Up, param_name 0 (Plain ''.linear_attn.dt_bias'')]))"
    by (simp add: stage entry_param_def demo_load_def)
  have start: "ld_calls (demo_load ps) = []" "ld_loaded (demo_load ps) = {}" "ld_loaded_buffers (demo_load ps) = {}" "ld_loaded_shards (demo_load ps) = {}" for ps
    by (simp_all add: demo_load_def)
  have two: "[0..<2] = [0, 1::nat]" by (simp add: upt_rec)
  have "map call_slot (concat (map (entry_calls demo_weights 2) (filter (in_stage demo_cfg) ?ws))) = ?slots"
    by (simp add: stage entry_calls_def tensor_calls_def expert_calls_def two)
  moreover have entries: "map ckpt_entry ?ws = [(ckpt_name 0 Attn_Q, 1), (ckpt_name 1 Attn_K, 2), (ckpt_name 0 (Plain ''.linear_attn.dt_bias''), 4), (ckpt_name 0 Experts_Gate_Up, 3)]"
    by (simp add: ckpt_entry_def)
  ultimately show ?thesis
    using checkpoint_is_routed[OF demo_cfg_ok ws params start, of id "[]" True "[]", unfolded entries] by metis
qed

end
