(* ===== verification/Ple_Crash.thy ===== *)
theory Ple_Crash
  imports Ple_Seal
begin

text \<open>
  Restarts and crashes of a server with a file-backed PLE table, as a step relation: the mapping and
  the file on disk, the sidecar as the process sees it and as the disk has it, and the phases of a
  start (check, load, sync, rename). The kernel may write back any row at any time.
\<close>

section \<open>States and steps\<close>

type_synonym table_key = "int \<times> int list \<times> string \<times> string \<times> (string \<times> int list) set"

definition key_of :: "table_id \<Rightarrow> table_key" where
  "key_of t = (ti_bytes t, ti_shape t, ti_dtype t, ti_model t, set (ti_sources t))"

datatype 'r phase =
  Off
| Loading table_id "'r host_embedding" "'r ple_shard list"
| Synced table_id json
| Serving table_id

text \<open>
  \<open>gone\<close> are the sources that a later start has replaced, \<open>booted\<close> those of the last start.
\<close>

record 'r server =
  sv_phase :: "'r phase"
  sv_rows :: "'r list"
  sv_durable :: "'r list"
  sv_sidecar :: "json option"
  sv_sidecar_durable :: "json option"
  sv_booted :: "table_key option"
  sv_gone :: "table_key set"

text \<open>
  The fixed part: the conversion, the number of parts, the embedding as constructed, the contents of
  the checkpoints (determined by the recorded fingerprint), whether the directory is private to
  one checkpoint, whose sources only ever move forward, and whether the checkpoint of every start is
  complete: its shards cover the window of the vocabulary that the rank holds.
\<close>

record 'r ple_setup =
  su_conv :: "'r \<Rightarrow> 'r"
  su_parts :: nat
  su_base :: "'r host_embedding"
  su_ck :: "table_key \<Rightarrow> nat \<Rightarrow> 'r"
  su_private :: bool
  su_complete :: bool

definition win :: "'r ple_setup \<Rightarrow> nat" where
  "win u = he_end (su_base u) - he_start (su_base u)"

definition boot_embedding :: "'r ple_setup \<Rightarrow> 'r server \<Rightarrow> table_id \<Rightarrow> 'r host_embedding" where
  "boot_embedding u s t = check_sidecar ((su_base u)\<lparr>he_rows := sv_rows s\<rparr>) True (sv_sidecar s) (Some (ti_bytes t)) t"

inductive ple_step :: "'r ple_setup \<Rightarrow> 'r server \<Rightarrow> 'r server \<Rightarrow> bool" for u where
  boot: "sv_phase s = Off \<Longrightarrow> distinct (map fst (ti_sources t)) \<Longrightarrow> ti_sources t \<noteq> [] \<Longrightarrow>
    (su_private u \<longrightarrow> key_of t \<notin> sv_gone s) \<Longrightarrow>
    shards_of (su_parts u) (su_base u) (su_ck u (key_of t)) shs \<Longrightarrow>
    (su_complete u \<longrightarrow> (\<forall>r<win u. \<exists>sh\<in>set shs. he_start (su_base u) + r \<in> shard_span (su_parts u) (su_base u) sh)) \<Longrightarrow>
    ple_step u s (s\<lparr>sv_phase := if he_skip (boot_embedding u s t) then Serving t else Loading t (boot_embedding u s t) shs,
      sv_booted := Some (key_of t),
      sv_gone := sv_gone s \<union> (set_option (sv_booted s) - {key_of t})\<rparr>)"
| load: "sv_phase s = Loading t emb (sh # shs) \<Longrightarrow> load_ple_shard (su_conv u) (su_parts u) emb sh = Inr emb' \<Longrightarrow>
    ple_step u s (s\<lparr>sv_phase := Loading t emb' shs, sv_rows := he_rows emb'\<rparr>)"
| sync: "sv_phase s = Loading t emb [] \<Longrightarrow> seal emb True now = Some j \<Longrightarrow>
    ple_step u s (s\<lparr>sv_phase := Synced t j, sv_durable := sv_rows s\<rparr>)"
| rename: "sv_phase s = Synced t j \<Longrightarrow> ple_step u s (s\<lparr>sv_phase := Serving t, sv_sidecar := Some j\<rparr>)"
| unsealed: "sv_phase s = Loading t emb [] \<Longrightarrow> ple_step u s (s\<lparr>sv_phase := Serving t\<rparr>)"
| writeback: "i < length (sv_rows s) \<Longrightarrow> ple_step u s (s\<lparr>sv_durable := (sv_durable s)[i := sv_rows s ! i]\<rparr>)"
| persist: "ple_step u s (s\<lparr>sv_sidecar_durable := sv_sidecar s\<rparr>)"
| exit: "ple_step u s (s\<lparr>sv_phase := Off\<rparr>)"
| crash: "ple_step u s (s\<lparr>sv_phase := Off, sv_rows := sv_durable s, sv_sidecar := sv_sidecar_durable s\<rparr>)"

definition first_server :: "'r list \<Rightarrow> 'r server" where
  "first_server rows = \<lparr>sv_phase = Off, sv_rows = rows, sv_durable = rows, sv_sidecar = None, sv_sidecar_durable = None,
     sv_booted = None, sv_gone = {}\<rparr>"

inductive reach :: "'r ple_setup \<Rightarrow> 'r list \<Rightarrow> 'r server \<Rightarrow> bool" for u rows where
  start: "reach u rows (first_server rows)"
| step: "reach u rows s \<Longrightarrow> ple_step u s s' \<Longrightarrow> reach u rows s'"

section \<open>The invariant\<close>

definition holds_ck :: "'r ple_setup \<Rightarrow> table_key \<Rightarrow> 'r list \<Rightarrow> bool" where
  "holds_ck u k rows \<longleftrightarrow> (\<forall>r<win u. rows ! r = su_conv u (su_ck u k (he_start (su_base u) + r)))"

definition sidecar_sound :: "'r ple_setup \<Rightarrow> 'r server \<Rightarrow> json option \<Rightarrow> bool" where
  "sidecar_sound u s j \<longleftrightarrow> (\<forall>x. j = Some x \<longrightarrow> (\<exists>t now. x = ple_sidecar_write t now \<and> distinct (map fst (ti_sources t)) \<and>
     (key_of t \<in> sv_gone s \<or> sv_booted s = Some (key_of t) \<and> holds_ck u (key_of t) (sv_rows s) \<and> holds_ck u (key_of t) (sv_durable s))))"

definition phase_sound :: "'r ple_setup \<Rightarrow> 'r server \<Rightarrow> bool" where
  "phase_sound u s \<longleftrightarrow>
     (case sv_phase s of Off \<Rightarrow> True
      | Loading t emb shs \<Rightarrow> sv_booted s = Some (key_of t) \<and> distinct (map fst (ti_sources t)) \<and> he_rows emb = sv_rows s \<and>
          same_layout ((su_base u)\<lparr>he_rows := sv_rows s, he_sidecar := he_sidecar emb\<rparr>) emb \<and>
          (he_sidecar emb = None \<or> he_sidecar emb = Some t) \<and> shards_of (su_parts u) (su_base u) (su_ck u (key_of t)) shs \<and>
          (\<forall>r<win u. (\<exists>sh\<in>set shs. he_start (su_base u) + r \<in> shard_span (su_parts u) (su_base u) sh) \<or>
             sv_rows s ! r = su_conv u (su_ck u (key_of t) (he_start (su_base u) + r)))
      | Synced t j \<Rightarrow> sv_booted s = Some (key_of t) \<and> distinct (map fst (ti_sources t)) \<and> (\<exists>now. j = ple_sidecar_write t now) \<and>
          holds_ck u (key_of t) (sv_rows s) \<and> holds_ck u (key_of t) (sv_durable s)
      | Serving t \<Rightarrow> sv_booted s = Some (key_of t) \<and> holds_ck u (key_of t) (sv_rows s))"

definition server_inv :: "'r ple_setup \<Rightarrow> 'r server \<Rightarrow> bool" where
  "server_inv u s \<longleftrightarrow> length (sv_rows s) = length (he_rows (su_base u)) \<and> length (sv_durable s) = length (he_rows (su_base u)) \<and>
     sidecar_sound u s (sv_sidecar s) \<and> sidecar_sound u s (sv_sidecar_durable s) \<and> phase_sound u s"

text \<open>
  The embedding as constructed: the window of the rank (a part of the vocabulary or all of it) fits
  the rows, and nothing is loaded or decided yet.
\<close>

definition setup_ok :: "'r ple_setup \<Rightarrow> bool" where
  "setup_ok u \<longleftrightarrow> win u \<le> length (he_rows (su_base u)) \<and> \<not> he_skip (su_base u) \<and> he_sidecar (su_base u) = None"

text \<open>A boot that skips the load has found the sidecar of its own sources.\<close>

lemma boot_skip:
  assumes s: "\<forall>x. sv_sidecar s = Some x \<longrightarrow> (\<exists>t now. x = ple_sidecar_write t now \<and> distinct (map fst (ti_sources t)))"
    and d: "distinct (map fst (ti_sources t))" and ns: "\<not> he_skip (su_base u)" and skip: "he_skip (boot_embedding u s t)"
  obtains t' now where "sv_sidecar s = Some (ple_sidecar_write t' now)" "key_of t' = key_of t" "distinct (map fst (ti_sources t'))"
proof -
  have v: "ple_sidecar_is_valid (sv_sidecar s) (Some (ti_bytes t)) t = Inr True"
    using skip ns by (auto simp: boot_embedding_def check_sidecar_def split: if_splits sum.splits)
  then obtain x where x: "sv_sidecar s = Some x" by (cases "sv_sidecar s") (auto simp: ple_sidecar_is_valid_def)
  then obtain t' now where t': "x = ple_sidecar_write t' now" "distinct (map fst (ti_sources t'))" using s by blast
  then have "key_of t' = key_of t"
    using v valid_of_written[OF t'(2) d, of now "Some (ti_bytes t)"] x by (simp add: key_of_def)
  then show thesis using that x t' by blast
qed

lemma boot_fields:
  "he_rows (boot_embedding u s t) = sv_rows s" "he_start (boot_embedding u s t) = he_start (su_base u)"
  "he_end (boot_embedding u s t) = he_end (su_base u)" "he_vocab (boot_embedding u s t) = he_vocab (su_base u)"
  "he_per_partition (boot_embedding u s t) = he_per_partition (su_base u)" "he_fp8 (boot_embedding u s t) = he_fp8 (su_base u)"
  "he_sidecar (su_base u) = None \<Longrightarrow> he_sidecar (boot_embedding u s t) = None \<or> he_sidecar (boot_embedding u s t) = Some t"
  by (auto simp: boot_embedding_def check_sidecar_def split: sum.split)

lemma sidecar_soundD: "sidecar_sound u s j \<Longrightarrow> \<forall>x. j = Some x \<longrightarrow> (\<exists>t now. x = ple_sidecar_write t now \<and> distinct (map fst (ti_sources t)))"
  unfolding sidecar_sound_def by blast

text \<open>
  Steps that keep the booted sources keep a sound sidecar when the rows and the file keep the
  checkpoint they hold.
\<close>

lemma sidecar_sound_keep:
  assumes "sidecar_sound u s j" "sv_gone s' = sv_gone s" "sv_booted s' = sv_booted s"
    "\<And>k. sv_booted s = Some k \<Longrightarrow> holds_ck u k (sv_rows s) \<Longrightarrow> holds_ck u k (sv_durable s) \<Longrightarrow>
      holds_ck u k (sv_rows s') \<and> holds_ck u k (sv_durable s')"
  shows "sidecar_sound u s' j"
  using assms unfolding sidecar_sound_def by metis

lemma sidecar_sound_boot:
  assumes "sidecar_sound u s j" "sv_gone s' = sv_gone s \<union> (set_option (sv_booted s) - {k})" "sv_booted s' = Some k"
    "sv_rows s' = sv_rows s" "sv_durable s' = sv_durable s"
  shows "sidecar_sound u s' j"
proof -
  have "key_of t \<in> sv_gone s' \<or> sv_booted s' = Some (key_of t) \<and> holds_ck u (key_of t) (sv_rows s') \<and> holds_ck u (key_of t) (sv_durable s')"
    if "key_of t \<in> sv_gone s \<or> sv_booted s = Some (key_of t) \<and> holds_ck u (key_of t) (sv_rows s) \<and> holds_ck u (key_of t) (sv_durable s)" for t
    using that assms(2-5) by (cases "key_of t = k") auto
  then show ?thesis using assms(1) unfolding sidecar_sound_def by blast
qed

lemma load_step_rows:
  assumes u: "setup_ok u" and inv: "server_inv u s" and ph: "sv_phase s = Loading t emb (sh # shs)"
    and run: "load_ple_shard (su_conv u) (su_parts u) emb sh = Inr emb'"
  shows "same_layout emb emb'" and "r < length (sv_rows s) \<Longrightarrow> he_rows emb' ! r =
      (if he_start (su_base u) + r \<in> shard_span (su_parts u) (su_base u) sh \<and> r < win u
       then su_conv u (su_ck u (key_of t) (he_start (su_base u) + r)) else sv_rows s ! r)"
proof -
  have p: "he_rows emb = sv_rows s" "same_layout ((su_base u)\<lparr>he_rows := sv_rows s, he_sidecar := he_sidecar emb\<rparr>) emb"
    "shards_of (su_parts u) (su_base u) (su_ck u (key_of t)) (sh # shs)" "length (sv_rows s) = length (he_rows (su_base u))"
    using inv ph by (simp_all add: server_inv_def phase_sound_def)
  note L = p(2)[unfolded same_layout_def]
  have w: "he_end emb - he_start emb \<le> length (he_rows emb)" "\<not> he_skip emb" using L p(1,4) u by (simp_all add: setup_ok_def win_def)
  have sp: "shard_span (su_parts u) emb = shard_span (su_parts u) (su_base u)" and sz: "shard_size (su_parts u) emb = shard_size (su_parts u) (su_base u)"
    using L by (auto simp: shard_span_def shard_size_def fun_eq_iff)
  have one: "shards_of (su_parts u) emb (su_ck u (key_of t)) [sh]" using p(3) L sz by (simp add: shards_of_def)
  obtain e where e: "load_ple_shard (su_conv u) (su_parts u) emb sh = Inr e" "same_layout emb e"
    "\<And>r. r < length (he_rows emb) \<Longrightarrow> he_rows e ! r =
      (if he_start emb + r \<in> shard_span (su_parts u) emb sh \<and> he_start emb + r < he_end emb then su_conv u (su_ck u (key_of t) (he_start emb + r)) else he_rows emb ! r)"
    using load_one[OF w one, of "su_conv u"] by blast
  have "emb' = e" using run e(1) by simp
  then show "same_layout emb emb'" and "r < length (sv_rows s) \<Longrightarrow> he_rows emb' ! r =
      (if he_start (su_base u) + r \<in> shard_span (su_parts u) (su_base u) sh \<and> r < win u
       then su_conv u (su_ck u (key_of t) (he_start (su_base u) + r)) else sv_rows s ! r)"
    using e(2,3) sp L p(1) by (simp_all add: win_def less_diff_conv add.commute[of r])
qed

lemma server_inv_step:
  assumes u: "setup_ok u" "su_private u" "su_complete u" and inv: "server_inv u s" and st: "ple_step u s s'"
  shows "server_inv u s'"
  using st inv
proof cases
  case (boot t shs)
  let ?s = "s\<lparr>sv_phase := if he_skip (boot_embedding u s t) then Serving t else Loading t (boot_embedding u s t) shs,
      sv_booted := Some (key_of t), sv_gone := sv_gone s \<union> (set_option (sv_booted s) - {key_of t})\<rparr>"
  have ss: "sidecar_sound u s (sv_sidecar s)" "sidecar_sound u s (sv_sidecar_durable s)" using inv by (simp_all add: server_inv_def)
  have "sidecar_sound u ?s (sv_sidecar ?s)" "sidecar_sound u ?s (sv_sidecar_durable ?s)"
    using ss by (auto intro: sidecar_sound_boot[where k = "key_of t"])
  moreover have "phase_sound u ?s"
  proof (cases "he_skip (boot_embedding u s t)")
    case True
    obtain t' now where t': "sv_sidecar s = Some (ple_sidecar_write t' now)" "key_of t' = key_of t" "distinct (map fst (ti_sources t'))"
      using boot_skip[OF sidecar_soundD[OF ss(1)] boot(3) _ True] u(1) by (auto simp: setup_ok_def)
    obtain t2 now2 where t2: "ple_sidecar_write t' now = ple_sidecar_write t2 now2" "distinct (map fst (ti_sources t2))"
      "key_of t2 \<in> sv_gone s \<or> sv_booted s = Some (key_of t2) \<and> holds_ck u (key_of t2) (sv_rows s)"
      using ss(1) t'(1) unfolding sidecar_sound_def by blast
    have "key_of t2 = key_of t'"
      using valid_of_written[OF t'(3) t2(2), of now "Some (ti_bytes t2)"] valid_of_written[OF t2(2) t2(2), of now2 "Some (ti_bytes t2)"]
      unfolding t2(1) by (auto simp: key_of_def)
    then have "holds_ck u (key_of t) (sv_rows s)" using t2(3) t'(2) boot(5) u(2) by auto
    then show ?thesis using True by (simp add: phase_sound_def)
  next
    case False
    then show ?thesis using boot(3,6,7) boot_fields[of u s t] u inv
      by (simp add: phase_sound_def same_layout_def setup_ok_def server_inv_def)
  qed
  ultimately show ?thesis using inv unfolding boot(1) by (simp add: server_inv_def)
next
  case (load t emb sh shs emb')
  note R = load_step_rows[OF u(1) inv load(2,3)]
  let ?s = "s\<lparr>sv_phase := Loading t emb' shs, sv_rows := he_rows emb'\<rparr>"
  have p: "he_rows emb = sv_rows s" "same_layout ((su_base u)\<lparr>he_rows := sv_rows s, he_sidecar := he_sidecar emb\<rparr>) emb"
    "sv_booted s = Some (key_of t)" "length (sv_rows s) = length (he_rows (su_base u))"
    using inv load(2) by (simp_all add: server_inv_def phase_sound_def)
  have len: "length (he_rows emb') = length (he_rows (su_base u))" using R(1) p(1,4) by (simp add: same_layout_def)
  have V: "win u \<le> length (sv_rows s)" using u p(4) by (simp add: setup_ok_def)
  have keep: "holds_ck u k (he_rows emb')" if "sv_booted s = Some k" "holds_ck u k (sv_rows s)" for k
    using that R(2) p(3) V by (auto simp: holds_ck_def)
  have "sidecar_sound u ?s (sv_sidecar ?s)" "sidecar_sound u ?s (sv_sidecar_durable ?s)"
    using inv keep by (auto simp: server_inv_def intro: sidecar_sound_keep[where s = s])
  moreover have "phase_sound u ?s"
    using inv load(2) R V by (auto simp: server_inv_def phase_sound_def same_layout_def shards_of_def)
  ultimately show ?thesis using inv len unfolding load(1) by (simp add: server_inv_def)
next
  case (sync t emb now j)
  let ?s = "s\<lparr>sv_phase := Synced t j, sv_durable := sv_rows s\<rparr>"
  have p: "sv_booted s = Some (key_of t)" "distinct (map fst (ti_sources t))" "he_sidecar emb = None \<or> he_sidecar emb = Some t"
    "holds_ck u (key_of t) (sv_rows s)"
    using inv sync(2) by (auto simp: server_inv_def phase_sound_def holds_ck_def)
  have "j = ple_sidecar_write t now" using sync(3) p(3) by (auto simp: seal_def split: if_splits)
  then have "phase_sound u ?s" using p by (auto simp: phase_sound_def)
  moreover have "sidecar_sound u ?s (sv_sidecar ?s)" "sidecar_sound u ?s (sv_sidecar_durable ?s)"
    using inv by (auto simp: server_inv_def intro: sidecar_sound_keep[where s = s])
  ultimately show ?thesis using inv unfolding sync(1) by (simp add: server_inv_def)
next
  case (rename t j)
  let ?s = "s\<lparr>sv_phase := Serving t, sv_sidecar := Some j\<rparr>"
  have p: "sv_booted s = Some (key_of t)" "distinct (map fst (ti_sources t))" "\<exists>now. j = ple_sidecar_write t now"
    "holds_ck u (key_of t) (sv_rows s)" "holds_ck u (key_of t) (sv_durable s)"
    using inv rename(2) by (auto simp: server_inv_def phase_sound_def)
  have "sidecar_sound u ?s (Some j)" using p unfolding sidecar_sound_def by auto
  moreover have "sidecar_sound u ?s (sv_sidecar_durable ?s)"
    using inv by (auto simp: server_inv_def intro: sidecar_sound_keep[where s = s])
  moreover have "phase_sound u ?s" using p by (simp add: phase_sound_def)
  ultimately show ?thesis using inv unfolding rename(1) by (simp add: server_inv_def)
next
  case (unsealed t emb)
  have "phase_sound u (s\<lparr>sv_phase := Serving t\<rparr>)" using inv unsealed(2) by (simp add: server_inv_def phase_sound_def holds_ck_def)
  then show ?thesis using inv unfolding unsealed(1) by (auto simp: server_inv_def intro: sidecar_sound_keep[where s = s])
next
  case (writeback i)
  let ?s = "s\<lparr>sv_durable := (sv_durable s)[i := sv_rows s ! i]\<rparr>"
  have keep: "holds_ck u k ((sv_durable s)[i := sv_rows s ! i])" if "holds_ck u k (sv_rows s)" "holds_ck u k (sv_durable s)" for k
    unfolding holds_ck_def
  proof (intro allI impI)
    fix g assume g: "g < win u"
    have "g < length (sv_durable s)" using g inv u(1) by (simp add: server_inv_def setup_ok_def)
    then show "(sv_durable s)[i := sv_rows s ! i] ! g = su_conv u (su_ck u k (he_start (su_base u) + g))"
      using that g by (cases "g = i") (simp_all add: holds_ck_def)
  qed
  have "phase_sound u ?s" using inv keep by (auto simp: server_inv_def phase_sound_def split: phase.splits)
  then show ?thesis using inv keep unfolding writeback(1) by (auto simp: server_inv_def intro: sidecar_sound_keep[where s = s])
next
  case persist
  then show ?thesis using inv by (auto simp: server_inv_def phase_sound_def intro: sidecar_sound_keep[where s = s] split: phase.splits)
next
  case exit
  then show ?thesis using inv by (auto simp: server_inv_def phase_sound_def intro: sidecar_sound_keep[where s = s])
next
  case crash
  then show ?thesis using inv by (auto simp: server_inv_def phase_sound_def intro: sidecar_sound_keep[where s = s])
qed


section \<open>Crash safety\<close>

lemma reach_inv:
  assumes u: "setup_ok u" "su_private u" "su_complete u" and len: "length rows = length (he_rows (su_base u))" and r: "reach u rows s"
  shows "server_inv u s"
  using r
proof induction
  case start
  then show ?case using len by (simp add: server_inv_def first_server_def sidecar_sound_def phase_sound_def)
next
  case (step s s')
  then show ?case using server_inv_step[OF u] by blast
qed

text \<open>
  C2: Crash safety of the table of one rank, which holds a part of the vocabulary or all of it. Two
  conditions: the directory is private to one checkpoint, whose sources never return to an earlier
  state, and the checkpoint of every start is complete, its shards covering the window of the rank
  (without the second a rank can seal a table that misses its rows, as \<open>seal_without_a_row\<close> shows). Then,
  whatever the restarts, exits, crashes and partial write-backs, and whether the load was skipped or
  done, a server that serves reads for every id of its window the converted row of the checkpoint it
  was started with, and zeros for every other id.
\<close>

theorem served_table_is_checkpoint:
  assumes "setup_ok u" "su_private u" "su_complete u"
    and "length rows = length (he_rows (su_base u))" "reach u rows s" "sv_phase s = Serving t"
  shows "gather_row zeros ((su_base u)\<lparr>he_rows := sv_rows s\<rparr>) g =
    (if he_start (su_base u) \<le> g \<and> g < he_end (su_base u) then su_conv u (su_ck u (key_of t) g) else zeros)"
proof (cases "he_start (su_base u) \<le> g \<and> g < he_end (su_base u)")
  case True
  then have "g - he_start (su_base u) < win u" by (simp add: win_def less_diff_conv)
  moreover have "holds_ck u (key_of t) (sv_rows s)"
    using reach_inv[OF assms(1-5)] assms(6) by (simp add: server_inv_def phase_sound_def)
  ultimately have "sv_rows s ! (g - he_start (su_base u)) = su_conv u (su_ck u (key_of t) g)"
    using True by (simp add: holds_ck_def)
  then show ?thesis using True by (simp add: gather_row_def)
qed (auto simp: gather_row_def)

text \<open>
  A run of two checkpoints: the first is loaded, sealed and stopped; the second starts, loads one of
  its two shards and is killed; the first starts again.
\<close>

definition two_ids :: "nat \<Rightarrow> table_id" where
  "two_ids n = \<lparr>ti_bytes = 2, ti_shape = [2, 1], ti_dtype = ''fp8'', ti_sources = [(''a'', [int n])], ti_model = ''/m''\<rparr>"

definition two_shards :: "nat \<Rightarrow> int ple_shard list" where
  "two_shards n = [\<lparr>sh_idx = 0, sh_fp8 = True, sh_rows = [10 * int n]\<rparr>, \<lparr>sh_idx = 1, sh_fp8 = True, sh_rows = [10 * int n + 1]\<rparr>]"

definition two_setup :: "bool \<Rightarrow> int ple_setup" where
  "two_setup private = \<lparr>su_conv = id, su_parts = 2,
     su_base = \<lparr>he_rows = [0, 0], he_fp8 = True, he_start = 0, he_end = 2, he_vocab = 2, he_per_partition = 2, he_skip = False,
       he_written = 0, he_sidecar = None\<rparr>,
     su_ck = (\<lambda>k g. if k = key_of (two_ids 1) then 10 + int g else 20 + int g), su_private = private, su_complete = True\<rparr>"

lemma key_two: "key_of (two_ids m) = key_of (two_ids n) \<longleftrightarrow> m = n"
  by (auto simp: key_of_def two_ids_def)

definition srv :: "'r phase \<Rightarrow> 'r list \<Rightarrow> 'r list \<Rightarrow> json option \<Rightarrow> table_key option \<Rightarrow> table_key set \<Rightarrow> 'r server" where
  "srv ph rows dur j k G = \<lparr>sv_phase = ph, sv_rows = rows, sv_durable = dur, sv_sidecar = j, sv_sidecar_durable = None,
     sv_booted = k, sv_gone = G\<rparr>"

definition two_emb :: "int list \<Rightarrow> nat \<Rightarrow> nat \<Rightarrow> int host_embedding" where
  "two_emb rows w n = \<lparr>he_rows = rows, he_fp8 = True, he_start = 0, he_end = 2, he_vocab = 2, he_per_partition = 2, he_skip = False,
     he_written = w, he_sidecar = Some (two_ids n)\<rparr>"

definition two_sealed :: "nat \<Rightarrow> json" where
  "two_sealed n = ple_sidecar_write (two_ids n) ''now''"

lemma two_valid: "ple_sidecar_is_valid (Some (two_sealed m)) (Some 2) (two_ids n) = Inr (m = n)"
proof -
  have d: "distinct (map fst (ti_sources (two_ids n)))" for n by (simp add: two_ids_def)
  show ?thesis unfolding two_sealed_def valid_of_written[OF d d] by (auto simp: two_ids_def)
qed

lemma two_boot:
  assumes "n = 1 \<or> n = 2" "p \<longrightarrow> key_of (two_ids n) \<notin> G" "j = None \<or> j = Some (two_sealed m)"
  shows "ple_step (two_setup p) (srv Off rows dur j k G)
    (srv (if j = Some (two_sealed n) then Serving (two_ids n) else Loading (two_ids n) (two_emb rows 0 n) (two_shards n)) rows dur j
       (Some (key_of (two_ids n))) (G \<union> (set_option k - {key_of (two_ids n)})))"
proof -
  let ?s = "srv Off rows dur j k G"
  have ck: "su_ck (two_setup p) (key_of (two_ids n)) = (\<lambda>g. 10 * int n + int g)"
    using assms(1) by (auto simp: two_setup_def key_two)
  have "shards_of (su_parts (two_setup p)) (su_base (two_setup p)) (su_ck (two_setup p) (key_of (two_ids n))) (two_shards n)"
    unfolding ck by (simp add: shards_of_def two_shards_def two_setup_def shard_size_def)
  moreover have "\<forall>r<win (two_setup p). \<exists>sh\<in>set (two_shards n).
      he_start (su_base (two_setup p)) + r \<in> shard_span (su_parts (two_setup p)) (su_base (two_setup p)) sh"
    by (auto simp: two_setup_def two_shards_def shard_span_def shard_size_def win_def)
  moreover have "distinct (map fst (ti_sources (two_ids n)))" "ti_sources (two_ids n) \<noteq> []" by (simp_all add: two_ids_def)
  ultimately have step: "ple_step (two_setup p) ?s (?s\<lparr>sv_phase := if he_skip (boot_embedding (two_setup p) ?s (two_ids n)) then Serving (two_ids n)
        else Loading (two_ids n) (boot_embedding (two_setup p) ?s (two_ids n)) (two_shards n),
      sv_booted := Some (key_of (two_ids n)), sv_gone := sv_gone ?s \<union> (set_option (sv_booted ?s) - {key_of (two_ids n)})\<rparr>)"
    using assms(2) by (intro ple_step.boot) (simp_all add: srv_def two_setup_def)
  have sealed: "two_sealed m = two_sealed n \<longleftrightarrow> m = n" by (simp add: two_sealed_def ple_sidecar_write_def two_ids_def)
  have b: "ti_bytes (two_ids n) = 2" "ti_sources (two_ids n) \<noteq> []" by (simp_all add: two_ids_def)
  have "he_skip (boot_embedding (two_setup p) ?s (two_ids n)) \<longleftrightarrow> j = Some (two_sealed n)"
    using assms(3) sealed b two_valid[of m n]
    by (auto simp: boot_embedding_def check_sidecar_def srv_def two_setup_def ple_sidecar_is_valid_def[of None])
  moreover have "boot_embedding (two_setup p) ?s (two_ids n) = two_emb rows 0 n" if "j \<noteq> Some (two_sealed n)"
    using assms(3) that sealed b two_valid[of m n]
    by (auto simp: boot_embedding_def check_sidecar_def srv_def two_setup_def two_emb_def ple_sidecar_is_valid_def[of None])
  ultimately show ?thesis using step by (auto simp: srv_def)
qed

lemma two_load:
  assumes "load_ple_shard id 2 emb sh = Inr emb'" "he_rows emb' = rows'"
  shows "ple_step (two_setup p) (srv (Loading t emb (sh # shs)) rows dur j k G) (srv (Loading t emb' shs) rows' dur j k G)"
  using ple_step.load[of "srv (Loading t emb (sh # shs)) rows dur j k G" t emb sh shs "two_setup p" emb'] assms
  by (simp add: srv_def two_setup_def)

lemma two_emb_load:
  "load_ple_shard id 2 (two_emb [a, b] 0 n) \<lparr>sh_idx = 0, sh_fp8 = True, sh_rows = [x]\<rparr> = Inr (two_emb [x, b] 1 n)"
  "load_ple_shard id 2 (two_emb [a, b] 1 n) \<lparr>sh_idx = 1, sh_fp8 = True, sh_rows = [x]\<rparr> = Inr (two_emb [a, x] 2 n)"
  by (simp_all add: load_ple_shard_def two_emb_def copy_ple_rows_to_tp_embedding_def shard_size_def Let_def)

lemma two_exit: "ple_step u (srv ph rows dur j k G) (srv Off rows dur j k G)"
  using ple_step.exit[of u "srv ph rows dur j k G"] by (simp add: srv_def)

text \<open>The first checkpoint loaded, sealed and served.\<close>

abbreviation key1 :: table_key where "key1 \<equiv> key_of (two_ids 1)"

lemma reach_first_sealed:
  "reach (two_setup p) [0, 0] (srv (Serving (two_ids 1)) [10, 11] [10, 11] (Some (two_sealed 1)) (Some key1) {})"
proof -
  let ?u = "two_setup p" and ?t = "two_ids 1"
  have sh: "two_shards 1 = [\<lparr>sh_idx = 0, sh_fp8 = True, sh_rows = [10]\<rparr>, \<lparr>sh_idx = 1, sh_fp8 = True, sh_rows = [11]\<rparr>]"
    by (simp add: two_shards_def)
  have "reach ?u [0, 0] (srv Off [0, 0] [0, 0] None None {})"
    using reach.start[of ?u "[0, 0]"] by (simp add: first_server_def srv_def)
  moreover have "ple_step ?u (srv Off [0, 0] [0, 0] None None {})
      (srv (Loading ?t (two_emb [0, 0] 0 1) (two_shards 1)) [0, 0] [0, 0] None (Some key1) {})"
    using two_boot[of 1 p "{}" None 0 "[0, 0]" "[0, 0]" None] by simp
  ultimately have "reach ?u [0, 0] (srv (Loading ?t (two_emb [0, 0] 0 1) (two_shards 1)) [0, 0] [0, 0] None (Some key1) {})"
    by (rule reach.step)
  from reach.step[OF this[unfolded sh] two_load[OF two_emb_load(1) refl]]
  have "reach ?u [0, 0] (srv (Loading ?t (two_emb [10, 0] 1 1) [\<lparr>sh_idx = 1, sh_fp8 = True, sh_rows = [11]\<rparr>]) [10, 0] [0, 0] None (Some key1) {})"
    by (simp add: two_emb_def)
  from reach.step[OF this two_load[OF two_emb_load(2) refl]]
  have "reach ?u [0, 0] (srv (Loading ?t (two_emb [10, 11] 2 1) []) [10, 11] [0, 0] None (Some key1) {})"
    by (simp add: two_emb_def)
  moreover have "seal (two_emb [10, 11] 2 1) True ''now'' = Some (two_sealed 1)" by (simp add: seal_def two_emb_def two_sealed_def)
  then have "ple_step ?u (srv (Loading ?t (two_emb [10, 11] 2 1) []) [10, 11] [0, 0] None (Some key1) {})
      (srv (Synced ?t (two_sealed 1)) [10, 11] [10, 11] None (Some key1) {})"
    using ple_step.sync[of "srv (Loading ?t (two_emb [10, 11] 2 1) []) [10, 11] [0, 0] None (Some key1) {}" ?t] by (simp add: srv_def)
  ultimately have "reach ?u [0, 0] (srv (Synced ?t (two_sealed 1)) [10, 11] [10, 11] None (Some key1) {})" by (rule reach.step)
  moreover have "ple_step ?u (srv (Synced ?t (two_sealed 1)) [10, 11] [10, 11] None (Some key1) {})
      (srv (Serving ?t) [10, 11] [10, 11] (Some (two_sealed 1)) (Some key1) {})"
    using ple_step.rename[of "srv (Synced ?t (two_sealed 1)) [10, 11] [10, 11] None (Some key1) {}" ?t "two_sealed 1"] by (simp add: srv_def)
  ultimately show ?thesis by (rule reach.step)
qed

lemma served_table_is_checkpoint_witness:
  "gather_row 0 ((su_base (two_setup True))\<lparr>he_rows := [10, 11]\<rparr>) 1 = 11"
proof -
  have "setup_ok (two_setup True)" by (simp add: setup_ok_def two_setup_def win_def)
  then show ?thesis
    using served_table_is_checkpoint[OF _ _ _ _ reach_first_sealed, of True "two_ids 1" 0 1]
    by (simp add: srv_def two_setup_def)
qed

section \<open>A shared directory\<close>

text \<open>
  When two checkpoints share the directory, the sidecar of the first survives the unfinished load of
  the second, and the first then serves a row of the second.
\<close>

lemma shared_directory_serves_stale:
  "\<exists>s. reach (two_setup False) [0, 0] s \<and> sv_phase s = Serving (two_ids 1) \<and>
     gather_row 0 ((su_base (two_setup False))\<lparr>he_rows := sv_rows s\<rparr>) 0 = 20 \<and> su_ck (two_setup False) key1 0 = 10"
proof -
  let ?u = "two_setup False" and ?j = "Some (two_sealed 1)" and ?k2 = "key_of (two_ids 2)"
  have sh: "two_shards 2 = [\<lparr>sh_idx = 0, sh_fp8 = True, sh_rows = [20]\<rparr>, \<lparr>sh_idx = 1, sh_fp8 = True, sh_rows = [21]\<rparr>]"
    by (simp add: two_shards_def)
  have j: "two_sealed 1 \<noteq> two_sealed 2" by (simp add: two_sealed_def ple_sidecar_write_def two_ids_def)
  have off: "reach ?u [0, 0] (srv Off [10, 11] [10, 11] ?j (Some key1) {})"
    by (rule reach.step[OF reach_first_sealed two_exit])
  have "reach ?u [0, 0] (srv (Loading (two_ids 2) (two_emb [10, 11] 0 2) (two_shards 2)) [10, 11] [10, 11] ?j (Some ?k2) ({key1} - {?k2}))"
    using reach.step[OF off two_boot[of 2 False "{}" ?j 1]] j by simp
  from reach.step[OF this[unfolded sh] two_load[OF two_emb_load(1) refl]]
  have "reach ?u [0, 0] (srv (Loading (two_ids 2) (two_emb [20, 11] 1 2) [\<lparr>sh_idx = 1, sh_fp8 = True, sh_rows = [21]\<rparr>]) [20, 11] [10, 11] ?j (Some ?k2) ({key1} - {?k2}))"
    by (simp add: two_emb_def)
  from reach.step[OF reach.step[OF this two_exit] two_boot[of 1 False _ ?j 1]]
  obtain G where "reach ?u [0, 0] (srv (Serving (two_ids 1)) [20, 11] [10, 11] ?j (Some key1) G)" by auto
  then show ?thesis
    by (intro exI[of _ "srv (Serving (two_ids 1)) [20, 11] [10, 11] ?j (Some key1) G"]) (simp add: srv_def two_setup_def gather_row_def)
qed

end
