(* ===== verification/Ple_Live.thy ===== *)
theory Ple_Live
  imports Ple_Crash
begin

text \<open>
  The trimming of the mapping of the PLE table: it ends after a bounded number of slices.
\<close>

section \<open>Trimming ends\<close>

declare trim_chunks.simps [simp del]

lemma trim_from:
  assumes c: "0 < chunk" and m: "m \<le> n" and n: "\<And>i. nbytes \<le> i * chunk \<longleftrightarrow> n \<le> i"
  shows "\<exists>k ok. m \<le> k \<and> k \<le> n \<and> trim_chunks stops advise chunk nbytes (m * chunk) =
      (map (\<lambda>i. (i * chunk, min chunk (nbytes - i * chunk))) [m..<k], ok) \<and>
    (ok \<and> (\<forall>i. \<not> stops i) \<longrightarrow> k = n) \<and> (\<not> ok \<longrightarrow> m < k \<and> \<not> advise ((k - 1) * chunk) (min chunk (nbytes - (k - 1) * chunk)))"
  using m
proof (induction m rule: inc_induct)
  case base
  then show ?case using n[of n] by (intro exI[of _ n] exI[of _ True]) (simp add: trim_chunks.simps[of _ _ _ _ "n * chunk"])
next
  case (step m)
  let ?f = "\<lambda>i. (i * chunk, min chunk (nbytes - i * chunk))"
  have lt: "\<not> nbytes \<le> m * chunk" using n[of m] step.hyps by simp
  consider "stops (m * chunk)" | "\<not> stops (m * chunk)" "\<not> advise (m * chunk) (min chunk (nbytes - m * chunk))"
    | "\<not> stops (m * chunk)" "advise (m * chunk) (min chunk (nbytes - m * chunk))" by blast
  then show ?case
  proof cases
    case 1
    then show ?thesis using step.hyps by (intro exI[of _ m] exI[of _ True]) (auto simp: trim_chunks.simps[of _ _ _ _ "m * chunk"])
  next
    case 2
    then show ?thesis using step.hyps lt c by (intro exI[of _ "Suc m"] exI[of _ False]) (simp add: Let_def trim_chunks.simps[of _ _ _ _ "m * chunk"])
  next
    case 3
    obtain k ok where k: "Suc m \<le> k" "k \<le> n" "trim_chunks stops advise chunk nbytes (Suc m * chunk) = (map ?f [Suc m..<k], ok)"
      "ok \<and> (\<forall>i. \<not> stops i) \<longrightarrow> k = n" "\<not> ok \<longrightarrow> Suc m < k \<and> \<not> advise ((k - 1) * chunk) (min chunk (nbytes - (k - 1) * chunk))"
      using step.IH by blast
    have "trim_chunks stops advise chunk nbytes (m * chunk) = (?f m # map ?f [Suc m..<k], ok)"
      using 3 lt c k(3) by (simp add: Let_def add.commute trim_chunks.simps[of _ _ _ _ "m * chunk"])
    also have "?f m # map ?f [Suc m..<k] = map ?f [m..<k]" using k(1) by (simp add: upt_conv_Cons)
    finally show ?thesis using k by (intro exI[of _ k] exI[of _ ok]) auto
  qed
qed

text \<open>
  C31: A trim hands out consecutive slices from the start of the mapping, at most one per chunk,
  whatever the stop event and the answers of \<^verbatim>\<open>madvise\<close>; it gives up only at a refused slice, and
  when neither interrupts it the slices cover the mapping exactly.
\<close>

theorem trim_ends_after_chunks:
  assumes "0 < chunk"
  shows "\<exists>k ok. k \<le> (nbytes + chunk - 1) div chunk \<and>
      trim_chunks stops advise chunk nbytes 0 = (map (\<lambda>i. (i * chunk, min chunk (nbytes - i * chunk))) [0..<k], ok) \<and>
      (ok \<and> (\<forall>i. \<not> stops i) \<longrightarrow> k = (nbytes + chunk - 1) div chunk) \<and>
      (\<not> ok \<longrightarrow> 0 < k \<and> \<not> advise ((k - 1) * chunk) (min chunk (nbytes - (k - 1) * chunk)))"
proof -
  have "nbytes \<le> i * chunk \<longleftrightarrow> (nbytes + chunk - 1) div chunk \<le> i" for i
  proof
    assume "nbytes \<le> i * chunk"
    then have "nbytes + chunk - 1 < (i + 1) * chunk" using assms by simp
    then have "(nbytes + chunk - 1) div chunk < i + 1" by (rule less_mult_imp_div_less)
    then show "(nbytes + chunk - 1) div chunk \<le> i" by simp
  next
    assume le: "(nbytes + chunk - 1) div chunk \<le> i"
    have "nbytes + chunk - 1 < ((nbytes + chunk - 1) div chunk + 1) * chunk" using assms by (simp add: dividend_less_div_times)
    also have "\<dots> \<le> (i + 1) * chunk" using le by (intro mult_right_mono) simp_all
    finally show "nbytes \<le> i * chunk" by simp
  qed
  from trim_from[OF assms le0 this, of stops advise] show ?thesis by simp
qed

theorem trim_ends_after_chunks_witness:
  "\<exists>k ok. k \<le> 3 \<and> trim_chunks (\<lambda>_. False) (\<lambda>off len. off < 8) 4 10 0 = (map (\<lambda>i. (i * 4, min 4 (10 - i * 4))) [0..<k], ok) \<and>
     (\<not> ok \<longrightarrow> 0 < k)"
  using trim_ends_after_chunks[of 4 10 "\<lambda>_. False" "\<lambda>off len. off < 8"] by auto

end
