(* ===== verification/Kv_Layout.thy ===== *)
theory Kv_Layout
  imports Torch_Ops
begin

text \<open>
  The geometry of a key/value pool (\<^verbatim>\<open>runtime-src/memory_pool.py\<close>): element types and the type
  a pool stores, the choice of the memory layout at construction, the shapes of the buffers of a
  layer, and the byte spans (\<open>KvBufferDesc\<close>) that back and register them.
\<close>

section \<open>Element types\<close>

datatype dtype = Float32 | Bfloat16 | Float16 | Float8_e5m2 | Float8_e4m3fn | Float8_e4m3fnuz | Uint8

fun itemsize :: "dtype \<Rightarrow> nat" where
  "itemsize Float32 = 4"
| "itemsize Bfloat16 = 2"
| "itemsize Float16 = 2"
| "itemsize _ = 1"

text \<open>Indexed stores of the 8-bit floats do not exist, so a pool keeps them as bytes.\<close>

definition store_dtype_of :: "dtype \<Rightarrow> dtype" where
  "store_dtype_of d = (if d \<in> {Float8_e5m2, Float8_e4m3fn, Float8_e4m3fnuz} then Uint8 else d)"

lemma itemsize_store_dtype [simp]: "itemsize (store_dtype_of d) = itemsize d"
  by (cases d) (simp_all add: store_dtype_of_def)

lemma itemsize_pos [simp]: "0 < itemsize d" "itemsize d \<noteq> 0"
  by (cases d; simp)+

section \<open>Construction\<close>

record kv_env =
  e_use_hnd :: bool
  e_native_move :: bool
  e_use_aiter :: bool
  e_aiter_layout :: string

record kv_args =
  a_size :: nat
  a_page_size :: nat
  a_dtype :: dtype
  a_head_num :: nat
  a_head_dim :: nat
  a_layer_num :: nat
  a_v_head_dim :: "nat option"
  a_swa_head_num :: "nat option"
  a_swa_head_dim :: "nat option"
  a_swa_v_head_dim :: "nat option"
  a_start_layer :: "nat option"
  a_end_layer :: "nat option"
  a_kv_cache_layout :: "string option"
  a_post_capture :: bool

record kv_geom =
  g_size :: nat
  g_page_size :: nat
  g_dtype :: dtype
  g_store_dtype :: dtype
  g_layer_num :: nat
  g_start_layer :: nat
  g_end_layer :: int
  g_head_num :: nat
  g_head_dim :: nat
  g_v_head_dim :: nat
  g_use_hnd :: bool
  g_layout :: string
  g_num_pages :: "nat option"
  g_vec_x :: "nat option"
  g_post_capture :: bool

definition row_dim :: "kv_geom \<Rightarrow> nat" where
  "row_dim g = g_head_num g * g_head_dim g"

definition v_row_dim :: "kv_geom \<Rightarrow> nat" where
  "v_row_dim g = g_head_num g * g_v_head_dim g"

text \<open>\<open>x or d\<close> on an optional number: zero counts as absent.\<close>

definition py_or :: "nat option \<Rightarrow> int \<Rightarrow> int" where
  "py_or x d = (case x of None \<Rightarrow> d | Some n \<Rightarrow> if n = 0 then d else int n)"

definition lower_char :: "char \<Rightarrow> char" where
  "lower_char c = (if 65 \<le> (of_char c :: nat) \<and> (of_char c :: nat) \<le> 90 then char_of ((of_char c :: nat) + 32) else c)"

text \<open>\<open>KVCache.__init__\<close> and the sizes of \<open>MHATokenToKVPool.__init__\<close>.\<close>

definition base_geom :: "kv_args \<Rightarrow> nat \<Rightarrow> kv_geom" where
  "base_geom a sz =
     \<lparr>g_size = sz, g_page_size = a_page_size a, g_dtype = a_dtype a,
      g_store_dtype = store_dtype_of (a_dtype a), g_layer_num = a_layer_num a,
      g_start_layer = nat (py_or (a_start_layer a) 0),
      g_end_layer = py_or (a_end_layer a) (int (a_layer_num a) - 1),
      g_head_num = (case a_swa_head_num a of Some n \<Rightarrow> n | None \<Rightarrow> a_head_num a),
      g_head_dim = (case a_swa_head_dim a of Some n \<Rightarrow> n | None \<Rightarrow> a_head_dim a),
      g_v_head_dim = (case a_swa_v_head_dim a of Some n \<Rightarrow> n | None \<Rightarrow>
                       (case a_v_head_dim a of Some n \<Rightarrow> n | None \<Rightarrow> a_head_dim a)),
      g_use_hnd = False, g_layout = ''nhd'', g_num_pages = None, g_vec_x = None,
      g_post_capture = a_post_capture a\<rparr>"

text \<open>The size of a post-capture pool is only an upper bound and is rounded up to whole pages.\<close>

definition reserved_size :: "kv_args \<Rightarrow> nat result" where
  "reserved_size a =
     (if a_post_capture a
      then if a_page_size a = 0 then Inl ZeroDivisionError
           else Inr ((a_size a + a_page_size a - 1) div a_page_size a * a_page_size a)
      else Inr (a_size a))"

text \<open>The layout for AITER: a vector is 16 bytes of the stored type.\<close>

definition choose_aiter :: "kv_geom \<Rightarrow> string \<Rightarrow> kv_geom result" where
  "choose_aiter g lay =
     (if lay \<noteq> ''nhd'' \<and> lay \<noteq> ''vectorized_5d'' then Inl ValueError
      else if lay = ''vectorized_5d''
      then (let x = 16 div itemsize (g_store_dtype g) in
            if g_page_size g = 0 then Inl ZeroDivisionError
            else if (g_size g + g_page_size g) mod g_page_size g \<noteq> 0 then Inl AssertionError
            else if g_page_size g mod x \<noteq> 0 then Inl AssertionError
            else if g_head_dim g mod x \<noteq> 0 then Inl AssertionError
            else if g_v_head_dim g mod x \<noteq> 0 then Inl AssertionError
            else Inr (g\<lparr>g_layout := lay, g_vec_x := Some x\<rparr>))
      else Inr (g\<lparr>g_layout := lay\<rparr>))"

definition choose_layout :: "kv_env \<Rightarrow> string option \<Rightarrow> kv_geom \<Rightarrow> kv_geom result" where
  "choose_layout e label g =
     (case label of
        Some l \<Rightarrow> Inr (g\<lparr>g_use_hnd := False, g_layout := l\<rparr>)
      | None \<Rightarrow>
          if e_use_hnd e
          then (if g_page_size g = 0 then Inl ZeroDivisionError
                else if (g_size g + g_page_size g) mod g_page_size g \<noteq> 0 then Inl AssertionError
                else Inr (g\<lparr>g_use_hnd := True, g_layout := ''hnd'',
                           g_num_pages := Some ((g_size g + g_page_size g) div g_page_size g)\<rparr>))
          else if e_use_aiter e then choose_aiter g (map lower_char (e_aiter_layout e))
          else Inr (g\<lparr>g_layout := ''nhd''\<rparr>))"

definition init_geom :: "kv_env \<Rightarrow> kv_args \<Rightarrow> kv_geom result" where
  "init_geom e a = res_bind (reserved_size a) (\<lambda>s. choose_layout e (a_kv_cache_layout a) (base_geom a s))"

section \<open>Shapes\<close>

definition kv_buffer_shapes :: "kv_geom \<Rightarrow> (nat list \<times> nat list) result" where
  "kv_buffer_shapes g =
     (if g_use_hnd g
      then (case g_num_pages g of
              None \<Rightarrow> Inl AttributeError
            | Some n \<Rightarrow> Inr ([n, g_head_num g, g_page_size g, g_head_dim g],
                            [n, g_head_num g, g_page_size g, g_v_head_dim g]))
      else (let rows = g_size g + g_page_size g in
            Inr ([rows, g_head_num g, g_head_dim g], [rows, g_head_num g, g_v_head_dim g])))"

text \<open>
  The shapes that \<open>_create_buffers_normal\<close> allocates for every layer. An explicit layout label is
  not resolved, so \<^verbatim>\<open>vectorized_5d\<close> given as a label finds no vector width.
\<close>

definition created_shapes :: "kv_geom \<Rightarrow> (nat list \<times> nat list) result" where
  "created_shapes g =
     (if g_layout g = ''vectorized_5d''
      then if g_page_size g = 0 then Inl ZeroDivisionError
           else (case g_vec_x g of
              None \<Rightarrow> Inl AttributeError
            | Some x \<Rightarrow>
                (let nb = (g_size g + g_page_size g) div g_page_size g in
                 Inr ([nb, g_head_num g, g_head_dim g div x, g_page_size g, x],
                      [nb, g_head_num g, g_page_size g div x, g_v_head_dim g, x])))
      else kv_buffer_shapes g)"

section \<open>Byte spans\<close>

record kv_desc =
  d_prefix :: string
  d_layer :: nat
  d_shape :: "nat list"
  d_row_bytes :: nat
  d_tokens_per_row :: nat

definition desc_rows :: "kv_desc \<Rightarrow> int \<Rightarrow> nat" where
  "desc_rows d n = (nat (max n 0) + d_tokens_per_row d - 1) div d_tokens_per_row d"

definition reserved_span_bytes :: "kv_desc \<Rightarrow> nat \<Rightarrow> nat" where
  "reserved_span_bytes d isz = prod_list (d_shape d) * isz"

definition prefix_span_bytes :: "kv_desc \<Rightarrow> int \<Rightarrow> nat" where
  "prefix_span_bytes d n = desc_rows d n * d_row_bytes d"

definition final_span_bytes :: "kv_desc \<Rightarrow> int \<Rightarrow> nat \<Rightarrow> nat" where
  "final_span_bytes d n page_size = desc_rows d (max n 0 + int page_size) * d_row_bytes d"

definition item_len_bytes :: "kv_desc \<Rightarrow> nat \<Rightarrow> nat" where
  "item_len_bytes d page_size = page_size div d_tokens_per_row d * d_row_bytes d"

text \<open>
  A row of a buffer is a page when its leading dimension counts pages, one token slot otherwise.
\<close>

definition tokens_per_row_of :: "kv_geom \<Rightarrow> nat list \<Rightarrow> nat" where
  "tokens_per_row_of g k_shape =
     (if hd k_shape * g_page_size g = g_size g + g_page_size g then g_page_size g else 1)"

definition descs_of_shapes :: "kv_geom \<Rightarrow> nat list \<times> nat list \<Rightarrow> kv_desc list" where
  "descs_of_shapes g shapes =
     concat (map (\<lambda>(p, shape). map (\<lambda>l.
        \<lparr>d_prefix = p, d_layer = l, d_shape = shape,
         d_row_bytes = prod_list (tl shape) * itemsize (g_store_dtype g),
         d_tokens_per_row = tokens_per_row_of g (fst shapes)\<rparr>) [0..<g_layer_num g])
      [(''k'', fst shapes), (''v'', snd shapes)])"

definition build_kv_buffer_descs :: "kv_geom \<Rightarrow> kv_desc list result" where
  "build_kv_buffer_descs g =
     map_sum id (descs_of_shapes g)
       (if g_post_capture g \<or> g_layer_num g = 0 then kv_buffer_shapes g else created_shapes g)"

text \<open>The spans and page chunks registered for a transfer, at the current size of the pool.\<close>

definition contiguous_buf_lens :: "kv_geom \<Rightarrow> kv_desc list \<Rightarrow> (nat list \<times> nat list) result" where
  "contiguous_buf_lens g ds =
     (if g_use_hnd g then Inl AssertionError
      else Inr (map (\<lambda>d. final_span_bytes d (int (g_size g)) (g_page_size g)) ds,
                map (\<lambda>d. item_len_bytes d (g_page_size g)) ds))"

text \<open>Backing the final number of tokens sets the size that is served.\<close>

definition finalize_backing_tokens :: "kv_geom \<Rightarrow> nat \<Rightarrow> kv_geom" where
  "finalize_backing_tokens g n = g\<lparr>g_size := n\<rparr>"

text \<open>Bytes of the key and the value buffers of an unquantised pool.\<close>

definition tensor_size_bytes :: "nat list \<Rightarrow> dtype \<Rightarrow> nat" where
  "tensor_size_bytes shape d = prod_list shape * itemsize d"

definition kv_size_bytes :: "kv_geom \<Rightarrow> (nat \<times> nat) result" where
  "kv_size_bytes g = map_sum id (\<lambda>(k, v).
     (sum_list (replicate (g_layer_num g) (tensor_size_bytes k (g_store_dtype g))),
      sum_list (replicate (g_layer_num g) (tensor_size_bytes v (g_store_dtype g)))))
     (created_shapes g)"

section \<open>Copy kernel configuration\<close>

record copy_config =
  cc_bytes_per_tile :: nat
  cc_byte_tiles :: nat
  cc_num_warps :: nat
  cc_num_locs_upper :: nat

definition copy_tile_bytes :: "nat \<Rightarrow> nat" where
  "copy_tile_bytes stride = (if 8192 \<le> stride then 512 else if 4096 \<le> stride then 256 else 128)"

definition kv_copy_config :: "nat \<Rightarrow> copy_config" where
  "kv_copy_config stride =
     (let b = copy_tile_bytes stride in
      \<lparr>cc_bytes_per_tile = b, cc_byte_tiles = (stride + b - 1) div b,
       cc_num_warps = (if b \<le> 256 then 4 else 8),
       cc_num_locs_upper = (if 512 \<le> b then 128 else 256)\<rparr>)"

text \<open>The tiles of the prefix-commit kernel; no launch for rows without bytes.\<close>

definition prefix_tiles :: "nat \<Rightarrow> nat \<times> nat \<times> nat" where
  "prefix_tiles row_bytes =
     (let (b, w) = (if 8192 \<le> row_bytes then (512, 8) else if 4096 \<le> row_bytes then (256, 4) else (128, 4))
      in (b, w, (row_bytes + b - 1) div b))"

section \<open>What the spans cover\<close>

lemma ceil_div_le: "0 < (t::nat) \<Longrightarrow> n \<le> (n + t - 1) div t * t"
proof -
  assume t: "0 < t"
  have "n + t - 1 = (n + t - 1) div t * t + (n + t - 1) mod t" by simp
  moreover have "(n + t - 1) mod t < t" using t by simp
  ultimately show ?thesis by linarith
qed

lemma ceil_div_mono: "(m::nat) \<le> n \<Longrightarrow> (m + t - 1) div t \<le> (n + t - 1) div t"
  by (rule div_le_mono) simp

lemma ceil_div_exact: "0 < (t::nat) \<Longrightarrow> t dvd n \<Longrightarrow> (n + t - 1) div t = n div t"
proof (elim dvdE)
  fix k assume t: "0 < t" and n: "n = t * k"
  have "n + t - 1 = (t - 1) + k * t" using t n by (simp add: mult.commute)
  moreover have "((t - 1) + k * t) div t = k + (t - 1) div t" using t by (intro div_mult_self1) simp
  ultimately have "(n + t - 1) div t = k + (t - 1) div t" by (rule ssubst)
  then show ?thesis using t n by simp
qed

lemma slot_in_rows:
  assumes "0 < d_tokens_per_row d" and "int loc < n"
  shows "loc div d_tokens_per_row d < desc_rows d n"
proof -
  let ?t = "d_tokens_per_row d"
  have "nat (max n 0) \<le> desc_rows d n * ?t" unfolding desc_rows_def by (rule ceil_div_le[OF assms(1)])
  then have "loc < desc_rows d n * ?t" using assms(2) by linarith
  then show ?thesis using assms(1) by (simp add: less_mult_imp_div_less)
qed

lemma desc_rows_mono: "m \<le> n \<Longrightarrow> desc_rows d m \<le> desc_rows d n"
  unfolding desc_rows_def by (rule ceil_div_mono) simp

lemma prefix_le_final: "prefix_span_bytes d n \<le> final_span_bytes d n page_size"
  unfolding prefix_span_bytes_def final_span_bytes_def
  by (intro mult_right_mono desc_rows_mono) simp_all

lemma final_span_mono: "m \<le> n \<Longrightarrow> final_span_bytes d m page_size \<le> final_span_bytes d n page_size"
  unfolding final_span_bytes_def by (intro mult_right_mono desc_rows_mono) auto

text \<open>Geometries whose buffers the byte spans describe exactly.\<close>

definition geom_ok :: "kv_geom \<Rightarrow> nat list \<times> nat list \<Rightarrow> bool" where
  "geom_ok g shapes \<longleftrightarrow> 0 < g_page_size g \<and>
     (\<forall>s\<in>{fst shapes, snd shapes}. s \<noteq> [] \<and> hd s = hd (fst shapes) \<and>
        (hd s = g_size g + g_page_size g \<or>
         hd s * g_page_size g = g_size g + g_page_size g))"

lemma reserved_size_aligned:
  assumes "reserved_size a = Inr s" and "a_post_capture a"
  shows "0 < a_page_size a \<and> a_page_size a dvd s \<and> a_size a \<le> s"
  using assms ceil_div_le[of "a_page_size a" "a_size a"] by (auto simp: reserved_size_def split: if_splits)

lemma init_geomE:
  assumes "init_geom e a = Inr g"
  obtains s where "reserved_size a = Inr s" "choose_layout e (a_kv_cache_layout a) (base_geom a s) = Inr g"
  using assms unfolding init_geom_def by (auto simp: res_bind_Inr_iff)

lemma choose_layout_fields:
  assumes "choose_layout e l g = Inr g'"
  shows "g_size g' = g_size g \<and> g_page_size g' = g_page_size g \<and> g_layer_num g' = g_layer_num g \<and>
    g_head_num g' = g_head_num g \<and> g_head_dim g' = g_head_dim g \<and> g_v_head_dim g' = g_v_head_dim g \<and>
    g_store_dtype g' = g_store_dtype g \<and> g_dtype g' = g_dtype g \<and> g_start_layer g' = g_start_layer g \<and>
    g_post_capture g' = g_post_capture g"
  using assms by (auto simp: choose_layout_def choose_aiter_def Let_def split: option.splits if_splits)

lemma choose_layout_hnd:
  assumes "choose_layout e l g = Inr g'" and "\<not> g_use_hnd g" and "g_use_hnd g'"
  shows "g_num_pages g' = Some ((g_size g + g_page_size g) div g_page_size g)"
    and "0 < g_page_size g" and "g_page_size g dvd g_size g + g_page_size g" and "g_layout g' = ''hnd''"
  using assms by (auto simp: choose_layout_def choose_aiter_def Let_def split: option.splits if_splits)

lemma init_geom_shapes_ok:
  assumes g: "init_geom e a = Inr g" and p: "0 < a_page_size a"
    and v: "a_kv_cache_layout a \<noteq> Some ''vectorized_5d''"
    and s: "(if g_post_capture g \<or> g_layer_num g = 0 then kv_buffer_shapes g else created_shapes g) = Inr shapes"
  shows "geom_ok g shapes"
proof -
  obtain sz where c: "choose_layout e (a_kv_cache_layout a) (base_geom a sz) = Inr g"
    using g by (rule init_geomE)
  have pg: "g_page_size g = a_page_size a" and b: "\<not> g_use_hnd (base_geom a sz)"
    using choose_layout_fields[OF c] by (simp_all add: base_geom_def)
  have kb: "geom_ok g sh" if "kv_buffer_shapes g = Inr sh" for sh
  proof (cases "g_use_hnd g")
    case True
    note h = choose_layout_hnd[OF c b True]
    show ?thesis using that True h choose_layout_fields[OF c] p pg
      by (auto simp: kv_buffer_shapes_def geom_ok_def)
  next
    case False
    then show ?thesis using that p pg by (auto simp: kv_buffer_shapes_def geom_ok_def Let_def)
  qed
  have dvd: "g_page_size g dvd g_size g + g_page_size g" if "g_vec_x g \<noteq> None"
    using c that by (auto simp: choose_layout_def choose_aiter_def base_geom_def Let_def split: option.splits if_splits)
  have cr: "geom_ok g sh" if cs: "created_shapes g = Inr sh" for sh
  proof (cases "g_layout g = ''vectorized_5d''")
    case True
    then obtain x where x: "g_vec_x g = Some x" and sh: "sh =
       ([(g_size g + g_page_size g) div g_page_size g, g_head_num g, g_head_dim g div x, g_page_size g, x],
        [(g_size g + g_page_size g) div g_page_size g, g_head_num g, g_page_size g div x, g_v_head_dim g, x])"
      using cs True by (auto simp: created_shapes_def Let_def split: if_splits option.splits)
    show ?thesis using dvd x sh p pg by (simp add: geom_ok_def)
  next
    case False
    then show ?thesis using cs kb by (simp add: created_shapes_def)
  qed
  show ?thesis using s kb cr by (auto split: if_splits)
qed

lemma descs_of_shapes_in:
  assumes "d \<in> set (descs_of_shapes g shapes)"
  shows "d_shape d \<in> {fst shapes, snd shapes} \<and> d_row_bytes d = prod_list (tl (d_shape d)) * itemsize (g_store_dtype g)
     \<and> d_tokens_per_row d = tokens_per_row_of g (fst shapes) \<and> d_layer d < g_layer_num g"
  using assms by (auto simp: descs_of_shapes_def)

lemma geom_rows:
  assumes ok: "geom_ok g shapes" and d: "d \<in> set (descs_of_shapes g shapes)"
  shows "0 < d_tokens_per_row d" and "desc_rows d (int (g_size g) + int (g_page_size g)) = hd (d_shape d)"
proof -
  note dd = descs_of_shapes_in[OF d]
  let ?p = "g_page_size g" and ?n = "g_size g + g_page_size g" and ?h = "hd (fst shapes)"
  have p: "0 < ?p" and h: "?h = ?n \<or> ?h * ?p = ?n" and hd: "hd (d_shape d) = ?h"
    using ok dd by (auto simp: geom_ok_def)
  have t: "d_tokens_per_row d = (if ?h * ?p = ?n then ?p else 1)"
    using dd by (simp add: tokens_per_row_of_def)
  show "0 < d_tokens_per_row d" using t p by simp
  have n: "nat (max (int (g_size g) + int ?p) 0) = ?n" by simp
  show "desc_rows d (int (g_size g) + int ?p) = hd (d_shape d)"
  proof (cases "?h * ?p = ?n")
    case True
    then have "?p dvd ?n" by (metis dvd_triv_right)
    then have "(?n + ?p - 1) div ?p = ?n div ?p" by (rule ceil_div_exact[OF p])
    also have "\<dots> = ?h" using True p by (metis nonzero_mult_div_cancel_right less_numeral_extra(3))
    finally show ?thesis using True t hd unfolding desc_rows_def n by simp
  next
    case False
    then show ?thesis using t hd h unfolding desc_rows_def n by simp
  qed
qed

lemma prod_hd_tl: "s \<noteq> [] \<Longrightarrow> prod_list s = hd s * prod_list (tl s)" for s :: "nat list"
  by (cases s) simp_all

lemma final_span_whole:
  assumes ok: "geom_ok g shapes" and d: "d \<in> set (descs_of_shapes g shapes)"
  shows "final_span_bytes d (int (g_size g)) (g_page_size g) = reserved_span_bytes d (itemsize (g_store_dtype g))"
proof -
  have ne: "d_shape d \<noteq> []" using ok descs_of_shapes_in[OF d] by (auto simp: geom_ok_def)
  show ?thesis using geom_rows[OF ok d] descs_of_shapes_in[OF d] prod_hd_tl[OF ne]
    by (simp add: final_span_bytes_def reserved_span_bytes_def mult.assoc)
qed

text \<open>
  For every pool that its constructor accepts, in every layout it resolves itself, the
  descriptors agree with the buffers: the final span at the constructed size is the whole buffer;
  for any smaller served size the span stays inside it, contains the prefix span, and contains the
  whole row of every slot that can be addressed, the padding page included.
\<close>

theorem final_span_backs_every_slot:
  assumes g: "init_geom e a = Inr g" and p: "0 < a_page_size a"
    and v: "a_kv_cache_layout a \<noteq> Some ''vectorized_5d''"
    and ds: "build_kv_buffer_descs g = Inr ds" and d: "d \<in> set ds" and n: "n \<le> g_size g"
  shows "final_span_bytes d (int (g_size g)) (g_page_size g) = reserved_span_bytes d (itemsize (g_store_dtype g)) \<and>
    final_span_bytes d (int n) (g_page_size g) \<le> reserved_span_bytes d (itemsize (g_store_dtype g)) \<and>
    prefix_span_bytes d (int n) \<le> final_span_bytes d (int n) (g_page_size g) \<and>
    (\<forall>loc<n + g_page_size g. (loc div d_tokens_per_row d + 1) * d_row_bytes d
       \<le> final_span_bytes d (int n) (g_page_size g))"
proof -
  obtain shapes where s: "(if g_post_capture g \<or> g_layer_num g = 0 then kv_buffer_shapes g else created_shapes g) = Inr shapes"
    and ds': "ds = descs_of_shapes g shapes"
    using ds unfolding build_kv_buffer_descs_def
    by (cases "if g_post_capture g \<or> g_layer_num g = 0 then kv_buffer_shapes g else created_shapes g") auto
  have ok: "geom_ok g shapes" by (rule init_geom_shapes_ok[OF g p v s])
  note whole = final_span_whole[OF ok d[unfolded ds']]
  have "(loc div d_tokens_per_row d + 1) * d_row_bytes d \<le> final_span_bytes d (int n) (g_page_size g)"
    if "loc < n + g_page_size g" for loc
  proof -
    have "loc div d_tokens_per_row d < desc_rows d (max (int n) 0 + int (g_page_size g))"
      by (rule slot_in_rows[OF geom_rows(1)[OF ok d[unfolded ds']]]) (use that in simp)
    then have "loc div d_tokens_per_row d + 1 \<le> desc_rows d (max (int n) 0 + int (g_page_size g))" by simp
    then show ?thesis unfolding final_span_bytes_def by (rule mult_right_mono) simp
  qed
  then show ?thesis
    using whole final_span_mono[of "int n" "int (g_size g)" d "g_page_size g"] n prefix_le_final by simp
qed

definition ex_kv_args :: kv_args where
  "ex_kv_args = \<lparr>a_size = 17, a_page_size = 4, a_dtype = Float8_e4m3fn, a_head_num = 2, a_head_dim = 3,
     a_layer_num = 2, a_v_head_dim = Some 5, a_swa_head_num = None, a_swa_head_dim = None,
     a_swa_v_head_dim = None, a_start_layer = Some 3, a_end_layer = None, a_kv_cache_layout = None,
     a_post_capture = True\<rparr>"

definition ex_kv_env :: kv_env where
  "ex_kv_env = \<lparr>e_use_hnd = True, e_native_move = False, e_use_aiter = False, e_aiter_layout = ''NHD''\<rparr>"

definition ex_hnd_geom :: kv_geom where
  "ex_hnd_geom = ok_or (base_geom ex_kv_args 0) (init_geom ex_kv_env ex_kv_args)"

definition ex_hnd_desc :: kv_desc where
  "ex_hnd_desc = ok_or [] (build_kv_buffer_descs ex_hnd_geom) ! 3"

theorem final_span_backs_every_slot_witness:
  "final_span_bytes ex_hnd_desc 20 4 = 240 \<and> final_span_bytes ex_hnd_desc 9 4 = 160 \<and>
   prefix_span_bytes ex_hnd_desc 9 \<le> final_span_bytes ex_hnd_desc 9 4 \<and>
   list_all (\<lambda>loc. (loc div d_tokens_per_row ex_hnd_desc + 1) * d_row_bytes ex_hnd_desc \<le> final_span_bytes ex_hnd_desc 9 4) [0..<13]"
proof -
  have 1: "init_geom ex_kv_env ex_kv_args = Inr ex_hnd_geom" by code_simp
  have 2: "build_kv_buffer_descs ex_hnd_geom = Inr (ok_or [] (build_kv_buffer_descs ex_hnd_geom))"
    by code_simp
  have 3: "ex_hnd_desc \<in> set (ok_or [] (build_kv_buffer_descs ex_hnd_geom))" by code_simp
  have 4: "0 < a_page_size ex_kv_args" "a_kv_cache_layout ex_kv_args \<noteq> Some ''vectorized_5d''"
    "9 \<le> g_size ex_hnd_geom" "g_page_size ex_hnd_geom = 4" "g_size ex_hnd_geom = 20" by code_simp+
  have 5: "final_span_bytes ex_hnd_desc 20 4 = 240" "final_span_bytes ex_hnd_desc 9 4 = 160" by code_simp+
  show ?thesis using final_span_backs_every_slot[OF 1 4(1,2) 2 3 4(3)] 5 4(4,5) by (simp add: list_all_iff)
qed

end
