(* ===== verification/Kv_Buffer.thy ===== *)
theory Kv_Buffer
  imports Kv_Layout
begin

text \<open>
  The tensor that holds the keys (or the values) of one layer, in its two plain layouts: token slots
  (\<^verbatim>\<open>[slot, head, dim]\<close>) and pages with the heads outside the token offset (\<^verbatim>\<open>[page, head, offset, dim]\<close>).
  A row is what one token stores: a vector per head. The section ends with the refinement of both
  layouts to one abstract table of rows, and the indexed read, store and move over it.
\<close>

type_synonym 'e row = "'e list list"

datatype 'e kbuf = Slots "'e row list" | Pages "'e list list list list"

section \<open>Indexing\<close>

text \<open>Position of an integer index of a Python sequence; negative ones count from the end.\<close>

definition py_pos :: "nat \<Rightarrow> int \<Rightarrow> nat result" where
  "py_pos n i =
     (if 0 \<le> i \<and> i < int n then Inr (nat i)
      else if i < 0 \<and> - int n \<le> i then Inr (nat (int n + i))
      else Inl IndexError)"

lemma py_pos_less: "py_pos n i = Inr j \<Longrightarrow> j < n"
  by (auto simp: py_pos_def split: if_splits)

lemma py_pos_nat [simp]: "l < n \<Longrightarrow> py_pos n (int l) = Inr l"
  by (simp add: py_pos_def)

section \<open>Rows of a buffer\<close>

text \<open>\<open>loc // page_size\<close> and \<open>loc % page_size\<close>\<close>

fun kb_row :: "nat \<Rightarrow> 'e kbuf \<Rightarrow> nat \<Rightarrow> 'e row" where
  "kb_row P (Slots xs) loc = xs ! loc"
| "kb_row P (Pages ps) loc = map (\<lambda>hd. hd ! (loc mod P)) (ps ! (loc div P))"

fun kb_len :: "nat \<Rightarrow> 'e kbuf \<Rightarrow> nat" where
  "kb_len P (Slots xs) = length xs"
| "kb_len P (Pages ps) = length ps * P"

definition page_put :: "nat \<Rightarrow> nat \<Rightarrow> 'e row \<Rightarrow> 'e list list list list \<Rightarrow> 'e list list list list" where
  "page_put P loc r ps =
     ps[loc div P := map2 (\<lambda>hd x. hd[loc mod P := x]) (ps ! (loc div P)) r]"

text \<open>The store \<open>buf[locs] = rows\<close>, and \<open>buf[pages, :, offs, :] = rows\<close> for pages.\<close>

fun kb_write :: "nat \<Rightarrow> 'e kbuf \<Rightarrow> (nat \<times> 'e row) list \<Rightarrow> 'e kbuf" where
  "kb_write P (Slots xs) lrs = Slots (scatter xs lrs)"
| "kb_write P (Pages ps) lrs = Pages (fold (\<lambda>(l, r). page_put P l r) lrs ps)"

text \<open>
  A value with one row is broadcast, any other number of rows must match; an index outside the
  buffer is an error (a device-side assertion on a GPU).
\<close>

definition spread :: "nat \<Rightarrow> 'a list \<Rightarrow> 'a list result" where
  "spread n rows = (if length rows = n then Inr rows
                    else if length rows = 1 then Inr (replicate n (hd rows)) else Inl RuntimeError)"

definition kb_put :: "nat \<Rightarrow> 'e kbuf \<Rightarrow> nat list \<Rightarrow> 'e row list \<Rightarrow> 'e kbuf result" where
  "kb_put P b locs rows =
     (if \<exists>l\<in>set locs. kb_len P b \<le> l then Inl IndexError
      else map_sum id (\<lambda>rs. kb_write P b (zip locs rs)) (spread (length locs) rows))"

definition kb_take :: "nat \<Rightarrow> 'e kbuf \<Rightarrow> nat list \<Rightarrow> 'e row list result" where
  "kb_take P b locs =
     (if \<exists>l\<in>set locs. kb_len P b \<le> l then Inl IndexError else Inr (map (kb_row P b) locs))"

definition kb_move :: "nat \<Rightarrow> 'e kbuf \<Rightarrow> nat list \<Rightarrow> nat list \<Rightarrow> 'e kbuf result" where
  "kb_move P b tgt src = res_bind (kb_take P b src) (kb_put P b tgt)"

section \<open>The table of rows\<close>

definition kb_rows :: "nat \<Rightarrow> 'e kbuf \<Rightarrow> 'e row list" where
  "kb_rows P b = map (kb_row P b) [0..<kb_len P b]"

fun kb_ok :: "nat \<Rightarrow> nat \<Rightarrow> 'e kbuf \<Rightarrow> bool" where
  "kb_ok P H (Slots xs) \<longleftrightarrow> (\<forall>r\<in>set xs. length r = H)"
| "kb_ok P H (Pages ps) \<longleftrightarrow> 0 < P \<and> (\<forall>pg\<in>set ps. length pg = H \<and> (\<forall>hd\<in>set pg. length hd = P))"

lemma length_kb_rows [simp]: "length (kb_rows P b) = kb_len P b"
  by (simp add: kb_rows_def)

lemma nth_kb_rows [simp]: "l < kb_len P b \<Longrightarrow> kb_rows P b ! l = kb_row P b l"
  by (simp add: kb_rows_def)

lemma kb_rows_Slots [simp]: "kb_rows P (Slots xs) = xs"
  by (rule nth_equalityI) simp_all

lemma page_index:
  assumes "l < n * P" shows "l div P < n" "l mod P < (P::nat)"
proof -
  have "0 < P" using assms by (cases P) auto
  then show "l div P < n" "l mod P < P" using assms by (simp_all add: less_mult_imp_div_less)
qed

lemma page_put_length [simp]: "length (page_put P l r ps) = length ps"
  by (simp add: page_put_def)

lemma page_put_ok:
  assumes "kb_ok P H (Pages ps)" and "length r = H"
  shows "kb_ok P H (Pages (page_put P l r ps))"
proof (cases "l div P < length ps")
  case True
  then have "length (ps ! (l div P)) = H" "\<forall>hd\<in>set (ps ! (l div P)). length hd = P"
    using assms(1) nth_mem by auto
  then have "length (map2 (\<lambda>hd x. hd[l mod P := x]) (ps ! (l div P)) r) = H \<and>
    (\<forall>hd\<in>set (map2 (\<lambda>hd x. hd[l mod P := x]) (ps ! (l div P)) r). length hd = P)"
    using assms(2) by (auto dest: set_zip_leftD)
  then show ?thesis using assms(1) set_update_subset_insert[of ps "l div P"]
    unfolding page_put_def by fastforce
next
  case False
  then show ?thesis using assms(1) by (simp add: page_put_def list_update_beyond)
qed

text \<open>The heart of the page layout: a store changes one row and no other.\<close>

lemma kb_row_page_put:
  assumes ok: "kb_ok P H (Pages ps)" and r: "length r = H"
    and l: "l < length ps * P" and m: "m < length ps * P"
  shows "kb_row P (Pages (page_put P l r ps)) m = (if m = l then r else kb_row P (Pages ps) m)"
proof -
  note li = page_index[OF l] and mi = page_index[OF m]
  have pg: "length (ps ! (l div P)) = H" "\<And>hd. hd \<in> set (ps ! (l div P)) \<Longrightarrow> length hd = P"
    using ok li(1) nth_mem by auto
  show ?thesis
  proof (cases "m div P = l div P")
    case False
    then have "m \<noteq> l" by auto
    then show ?thesis using False by (simp add: page_put_def)
  next
    case True
    have eq: "kb_row P (Pages (page_put P l r ps)) m =
      map (\<lambda>hd. hd ! (m mod P)) (map2 (\<lambda>hd x. hd[l mod P := x]) (ps ! (l div P)) r)"
      using True li(1) by (simp add: page_put_def)
    have ml: "m = l \<longleftrightarrow> m mod P = l mod P" using True by (metis div_mod_decomp)
    show ?thesis
    proof (cases "m = l")
      case True
      have "map (\<lambda>hd. hd ! (l mod P)) (map2 (\<lambda>hd x. hd[l mod P := x]) (ps ! (l div P)) r) = r"
        by (rule nth_equalityI) (use pg r li(2) in auto)
      then show ?thesis using eq True by simp
    next
      case ne: False
      have "map (\<lambda>hd. hd ! (m mod P)) (map2 (\<lambda>hd x. hd[l mod P := x]) (ps ! (l div P)) r)
          = map (\<lambda>hd. hd ! (m mod P)) (ps ! (l div P))"
        by (rule nth_equalityI) (use pg r ne ml in auto)
      then show ?thesis using eq ne True by simp
    qed
  qed
qed

lemma kb_rows_page_put:
  assumes ok: "kb_ok P H (Pages ps)" and r: "length r = H" and l: "l < length ps * P"
  shows "kb_rows P (Pages (page_put P l r ps)) = (kb_rows P (Pages ps))[l := r]"
  using kb_row_page_put[OF ok r l] by (intro nth_equalityI) (simp_all add: nth_list_update del: kb_row.simps)

lemma kb_write_ok:
  assumes "kb_ok P H b" and "\<forall>(l, r)\<in>set lrs. length r = H"
  shows "kb_ok P H (kb_write P b lrs)" and "kb_len P (kb_write P b lrs) = kb_len P b"
proof -
  have pg: "kb_ok P H (Pages (fold (\<lambda>(l, r). page_put P l r) lrs ps)) \<and>
      length (fold (\<lambda>(l, r). page_put P l r) lrs ps) = length ps"
    if "kb_ok P H (Pages ps)" for ps
    using that assms(2)
  proof (induction lrs arbitrary: ps)
    case Nil
    then show ?case by simp
  next
    case (Cons p lrs)
    obtain l r where p: "p = (l, r)" by (cases p)
    show ?case using Cons.IH[OF page_put_ok[OF Cons.prems(1), of r l]] Cons.prems(2) p by simp
  qed
  have sl: "\<forall>r\<in>set (scatter xs lrs). length r = H" if "\<forall>r\<in>set xs. length r = H" for xs
    using that assms(2)
  proof (induction lrs arbitrary: xs)
    case Nil
    then show ?case by simp
  next
    case (Cons p lrs)
    obtain l r where p: "p = (l, r)" by (cases p)
    have "\<forall>q\<in>set (xs[l := r]). length q = H"
      using Cons.prems p set_update_subset_insert[of xs l r] by auto
    then show ?case using Cons.IH Cons.prems(2) p by simp
  qed
  have "kb_ok P H (kb_write P b lrs) \<and> kb_len P (kb_write P b lrs) = kb_len P b"
  proof (cases b)
    case (Slots xs)
    then show ?thesis using assms(1) sl[of xs] by simp
  next
    case (Pages ps)
    then show ?thesis using assms(1) pg[of ps] by (simp del: kb_ok.simps) 
  qed
  then show "kb_ok P H (kb_write P b lrs)" "kb_len P (kb_write P b lrs) = kb_len P b" by blast+
qed

text \<open>Both layouts refine the table: the indexed store is the store to the table's rows.\<close>

lemma kb_rows_write:
  assumes "kb_ok P H b" and "\<forall>(l, r)\<in>set lrs. l < kb_len P b \<and> length r = H"
  shows "kb_rows P (kb_write P b lrs) = scatter (kb_rows P b) lrs"
proof (cases b)
  case (Slots xs)
  then show ?thesis by simp
next
  case (Pages ps)
  have "kb_rows P (Pages (fold (\<lambda>(l, r). page_put P l r) lrs qs)) = scatter (kb_rows P (Pages qs)) lrs"
    if "kb_ok P H (Pages qs)" "\<forall>(l, r)\<in>set lrs. l < length qs * P \<and> length r = H" for qs
    using that
  proof (induction lrs arbitrary: qs)
    case Nil
    then show ?case by simp
  next
    case (Cons p lrs)
    obtain l r where p: "p = (l, r)" by (cases p)
    have lr: "length r = H" "l < length qs * P" using Cons.prems(2) p by auto
    have "kb_rows P (Pages (fold (\<lambda>(l, r). page_put P l r) lrs (page_put P l r qs)))
       = scatter (kb_rows P (Pages (page_put P l r qs))) lrs"
      by (rule Cons.IH[OF page_put_ok[OF Cons.prems(1) lr(1)]]) (use Cons.prems(2) p in auto)
    then show ?case using kb_rows_page_put[OF Cons.prems(1) lr] p by simp
  qed
  then show ?thesis using assms Pages by simp
qed

lemma kb_take_rows:
  "kb_take P b locs = (if \<exists>l\<in>set locs. kb_len P b \<le> l then Inl IndexError
                       else Inr (index_select (kb_rows P b) locs))"
  by (auto simp: kb_take_def index_select_def intro!: map_cong)

lemma spread_length: "spread n rows = Inr rs \<Longrightarrow> length rs = n \<and> set rs \<subseteq> set rows"
  by (cases rows) (auto simp: spread_def split: if_splits)

lemma kb_put_rows:
  assumes ok: "kb_ok P H b" and r: "\<forall>r\<in>set rows. length r = H" and put: "kb_put P b locs rows = Inr b'"
  shows "\<exists>rs. spread (length locs) rows = Inr rs \<and> kb_rows P b' = scatter (kb_rows P b) (zip locs rs)
     \<and> kb_ok P H b' \<and> kb_len P b' = kb_len P b"
proof -
  obtain rs where rs: "spread (length locs) rows = Inr rs" and b': "b' = kb_write P b (zip locs rs)"
    and l: "\<forall>l\<in>set locs. l < kb_len P b"
    using put by (cases "spread (length locs) rows") (auto simp: kb_put_def not_le split: if_splits)
  have z: "\<forall>(l, r)\<in>set (zip locs rs). l < kb_len P b \<and> length r = H"
    using l r spread_length[OF rs] by (auto dest: set_zip_leftD set_zip_rightD)
  then have z': "\<forall>(l, r)\<in>set (zip locs rs). length r = H" by auto
  show ?thesis using rs b' kb_rows_write[OF ok z] kb_write_ok[OF ok z'] by auto
qed

text \<open>The same operation on the table itself: what a component sees of either layout.\<close>

definition tab_put :: "'e row list \<Rightarrow> nat list \<Rightarrow> 'e row list \<Rightarrow> 'e row list result" where
  "tab_put t locs rows =
     (if \<exists>l\<in>set locs. length t \<le> l then Inl IndexError
      else map_sum id (\<lambda>rs. scatter t (zip locs rs)) (spread (length locs) rows))"

definition tab_move :: "'e row list \<Rightarrow> nat list \<Rightarrow> nat list \<Rightarrow> 'e row list result" where
  "tab_move t tgt src =
     (if \<exists>l\<in>set src. length t \<le> l then Inl IndexError else tab_put t tgt (index_select t src))"

lemma kb_put_refines:
  assumes ok: "kb_ok P H b" and r: "\<forall>r\<in>set rows. length r = H"
  shows "map_sum id (kb_rows P) (kb_put P b locs rows) = tab_put (kb_rows P b) locs rows"
proof (cases "kb_put P b locs rows")
  case (Inl e)
  then show ?thesis
    by (cases "spread (length locs) rows") (auto simp: kb_put_def tab_put_def split: if_splits)
next
  case (Inr b')
  then have "\<not> (\<exists>l\<in>set locs. kb_len P b \<le> l)" by (auto simp: kb_put_def split: if_splits)
  then show ?thesis using kb_put_rows[OF ok r Inr] Inr by (auto simp: tab_put_def)
qed

lemma kb_row_length:
  assumes "kb_ok P H b" and "l < kb_len P b" shows "length (kb_row P b l) = H"
proof (cases b)
  case (Slots xs)
  then show ?thesis using assms nth_mem by auto
next
  case (Pages ps)
  then show ?thesis using assms page_index(1)[of l "length ps" P] nth_mem by auto
qed

lemma kb_take_lengths:
  assumes "kb_ok P H b" and "kb_take P b locs = Inr rows"
  shows "length rows = length locs" and "\<forall>r\<in>set rows. length r = H"
  using assms kb_row_length[OF assms(1)] by (auto simp: kb_take_def not_le split: if_splits)

lemma kb_move_refines:
  assumes ok: "kb_ok P H b"
  shows "map_sum id (kb_rows P) (kb_move P b tgt src) = tab_move (kb_rows P b) tgt src"
proof (cases "kb_take P b src")
  case (Inl e)
  then show ?thesis by (auto simp: kb_move_def kb_take_def tab_move_def split: if_splits)
next
  case (Inr rows)
  then have "rows = index_select (kb_rows P b) src" "\<not> (\<exists>l\<in>set src. kb_len P b \<le> l)"
    by (auto simp: kb_take_rows split: if_splits)
  then show ?thesis using kb_put_refines[OF ok kb_take_lengths(2)[OF ok Inr]] Inr
    by (simp add: kb_move_def tab_move_def)
qed

section \<open>A contract for row stores\<close>

text \<open>
  What a store of rows promises, whichever of several writes to one row wins: a written row holds
  one of the values written to it, any other row is unchanged.
\<close>

definition row_stored :: "'a list \<Rightarrow> nat list \<Rightarrow> 'a list \<Rightarrow> 'a list \<Rightarrow> bool" where
  "row_stored t locs rows t' \<longleftrightarrow> length t' = length t \<and>
     (\<forall>j<length t. if j \<in> set locs then \<exists>p<length locs. locs ! p = j \<and> t' ! j = rows ! p else t' ! j = t ! j)"

lemma row_storedD:
  assumes "row_stored t locs rows t'"
  shows "length t' = length t"
    and "j < length t \<Longrightarrow> j \<in> set locs \<Longrightarrow> \<exists>p<length locs. locs ! p = j \<and> t' ! j = rows ! p"
    and "j < length t \<Longrightarrow> j \<notin> set locs \<Longrightarrow> t' ! j = t ! j"
  using assms unfolding row_stored_def by metis+

lemma row_storedI:
  assumes "length t' = length t"
    and "\<And>j. j < length t \<Longrightarrow> j \<in> set locs \<Longrightarrow> \<exists>p<length locs. locs ! p = j \<and> t' ! j = rows ! p"
    and "\<And>j. j < length t \<Longrightarrow> j \<notin> set locs \<Longrightarrow> t' ! j = t ! j"
  shows "row_stored t locs rows t'"
  using assms unfolding row_stored_def by simp

locale row_store =
  fixes store :: "'a list \<Rightarrow> nat list \<Rightarrow> 'a list \<Rightarrow> 'a list"
  assumes stored: "length rows = length locs \<Longrightarrow> \<forall>l\<in>set locs. l < length t \<Longrightarrow> row_stored t locs rows (store t locs rows)"
begin

lemma store_length: "length rows = length locs \<Longrightarrow> \<forall>l\<in>set locs. l < length t \<Longrightarrow> length (store t locs rows) = length t"
  using stored[of rows locs t] by (simp add: row_stored_def)

text \<open>Without a duplicate among the locations the outcome is determined.\<close>

lemma store_distinct:
  assumes "length rows = length locs" "\<forall>l\<in>set locs. l < length t" and d: "distinct locs"
  shows "store t locs rows = scatter t (zip locs rows)"
proof (rule nth_equalityI)
  note s = stored[OF assms(1,2)]
  show "length (store t locs rows) = length (scatter t (zip locs rows))" using s by (simp add: row_stored_def)
  fix j assume "j < length (store t locs rows)"
  then have j: "j < length t" using s by (simp add: row_stored_def)
  show "store t locs rows ! j = scatter t (zip locs rows) ! j"
  proof (cases "j \<in> set locs")
    case True
    then obtain p where p: "p < length locs" "locs ! p = j" "store t locs rows ! j = rows ! p"
      using row_storedD(2)[OF s j True] by blast
    have "(j, rows ! p) \<in> set (zip locs rows)" using p assms(1) by (auto simp: in_set_zip)
    then have "scatter t (zip locs rows) ! j = rows ! p"
      using nth_scatter_distinct d j assms(1) by (metis map_fst_zip)
    then show ?thesis using p by simp
  next
    case False
    then have "j \<notin> fst ` set (zip locs rows)" by (auto dest: set_zip_leftD)
    then show ?thesis using s j False by (simp add: row_stored_def nth_scatter_notin)
  qed
qed

end

lemma scatter_stored:
  assumes "length rows = length locs" "\<forall>l\<in>set locs. l < length t"
  shows "row_stored t locs rows (scatter t (zip locs rows))"
  using assms
proof (induction locs arbitrary: t rows)
  case Nil
  then show ?case by (simp add: row_stored_def)
next
  case (Cons l locs)
  then obtain r rs where rs: "rows = r # rs" by (cases rows) auto
  have IH: "row_stored (t[l := r]) locs rs (scatter (t[l := r]) (zip locs rs))"
    using Cons rs by simp
  show ?case
  proof (rule row_storedI)
    show "length (scatter t (zip (l # locs) rows)) = length t" by simp
  next
    fix j assume j: "j < length t" "j \<in> set (l # locs)"
    show "\<exists>p<length (l # locs). (l # locs) ! p = j \<and> scatter t (zip (l # locs) rows) ! j = rows ! p"
    proof (cases "j \<in> set locs")
      case True
      then obtain p where "p < length locs" "locs ! p = j" "scatter (t[l := r]) (zip locs rs) ! j = rs ! p"
        using row_storedD(2)[OF IH, of j] j by auto
      then show ?thesis using rs by (intro exI[of _ "Suc p"]) simp
    next
      case False
      then have "scatter (t[l := r]) (zip locs rs) ! j = t[l := r] ! j" using row_storedD(3)[OF IH, of j] j by simp
      then show ?thesis using False rs j by (intro exI[of _ 0]) auto
    qed
  next
    fix j assume "j < length t" "j \<notin> set (l # locs)"
    then show "scatter t (zip (l # locs) rows) ! j = t ! j" using row_storedD(3)[OF IH, of j] rs by simp
  qed
qed

interpretation plain_store: row_store "\<lambda>t locs rows. scatter t (zip locs rows)"
  by unfold_locales (rule scatter_stored)

end
