(* ===== verification/Kv_Pool.thy ===== *)
theory Kv_Pool
  imports Kv_Buffer
begin

text \<open>
  The key/value pool of the attention layers, \<^verbatim>\<open>MHATokenToKVPool\<close> of
  \<^verbatim>\<open>runtime-src/memory_pool.py\<close>: one key and one value buffer per layer, optionally block scales
  of a quantisation recipe; the store of a batch of tokens on each of its branches, the commit of
  accepted prefixes, the move of slots, and the copy to and from the host.

  Kernels that are not in the repository (the row store, the copy over all layers, the tiled prefix
  commit, the quantisation recipe) are the fields of \<open>kv_kernels\<close> and \<open>kv_quant\<close>. The masked store
  kernel is in the repository and is modelled on flat memory. Streams are not modelled.
\<close>

section \<open>Write locations\<close>

record write_loc =
  w_loc :: "nat list"
  w_swa :: "nat list option"
  w_full :: "nat list option"

datatype loc_info = Bare "nat list" | WriteLoc write_loc

definition fit_loc :: "nat list \<Rightarrow> nat list option \<Rightarrow> nat list option" where
  "fit_loc l x = map_option (\<lambda>s. if length s \<noteq> length l then take (length l) s else s) x"

text \<open>\<open>KVWriteLoc.__post_init__\<close> narrows the resolved locations to the length of \<open>loc\<close>.\<close>

definition make_write_loc :: "nat list \<Rightarrow> nat list option \<Rightarrow> nat list option \<Rightarrow> write_loc" where
  "make_write_loc l swa full = \<lparr>w_loc = l, w_swa = fit_loc l swa, w_full = fit_loc l full\<rparr>"

fun unwrap_write_loc :: "loc_info \<Rightarrow> nat list \<times> nat list option \<times> nat list option" where
  "unwrap_write_loc (WriteLoc w) = (w_loc w, w_swa w, w_full w)"
| "unwrap_write_loc (Bare l) = (l, None, None)"

section \<open>The state and what it calls\<close>

text \<open>
  A scale is a host number or a tensor on the device. The keys and values of a call are a batch with
  one element type.
\<close>

datatype kv_scale = HostScale rat | DeviceScale "rat list"

definition scale_val :: "kv_scale \<Rightarrow> rat" where
  "scale_val s = (case s of HostScale x \<Rightarrow> x | DeviceScale xs \<Rightarrow> hd xs)"

record 'e kv_batch =
  b_dtype :: dtype
  b_k :: "'e row list"
  b_v :: "'e row list"

type_synonym 'e layer_bufs = "'e kbuf \<times> 'e kbuf \<times> 'e kbuf option \<times> 'e kbuf option"

record 'e kv_quant =
  q_name :: string
  q_gpu_scales :: "(rat list \<times> rat list) option"
  q_store :: "'e layer_bufs \<Rightarrow> nat list \<Rightarrow> 'e kv_batch \<Rightarrow> kv_scale option \<Rightarrow> kv_scale option \<Rightarrow> 'e layer_bufs"

record 'e elem_ops =
  o_div :: "rat \<Rightarrow> 'e \<Rightarrow> 'e"
  o_cast :: "dtype \<Rightarrow> dtype \<Rightarrow> 'e \<Rightarrow> 'e"
  o_view :: "dtype \<Rightarrow> dtype \<Rightarrow> 'e \<Rightarrow> 'e"

text \<open>
  What a launch of the prefix-commit kernel gets besides its tensors: strides, row and tile in bytes,
  the draft tokens of a request, and the tiles of a row in its grid.
\<close>

record prefix_launch =
  pl_src_stride :: nat
  pl_dst_stride :: nat
  pl_tokens :: nat
  pl_row_bytes :: nat
  pl_tile_bytes :: nat
  pl_tiles :: nat

record 'e kv_kernels =
  n_can_store :: "nat \<Rightarrow> nat \<Rightarrow> bool"
  n_store :: "nat \<Rightarrow> 'e row list \<Rightarrow> nat list \<Rightarrow> 'e row list \<Rightarrow> 'e row list"
  n_store_cpu :: "'e row list \<Rightarrow> nat list \<Rightarrow> 'e row list \<Rightarrow> 'e row list"
  n_prefix :: "prefix_launch \<Rightarrow> dtype \<Rightarrow> 'e kbuf \<Rightarrow> nat list \<Rightarrow> int list \<Rightarrow> 'e row list \<Rightarrow> 'e kbuf"
  n_copy :: "nat list \<Rightarrow> nat list \<Rightarrow> 'e kbuf \<Rightarrow> 'e kbuf"

record kv_platform =
  f_gpu :: bool
  f_cpu_amx :: bool

record 'e kv_pool =
  p_geom :: kv_geom
  p_k :: "'e kbuf list"
  p_v :: "'e kbuf list"
  p_ks :: "'e kbuf list option"
  p_vs :: "'e kbuf list option"
  p_quant :: "'e kv_quant option"
  p_native_move :: bool
  p_copy_cfg :: "copy_config option"
  p_chunk :: nat

abbreviation p_page :: "'e kv_pool \<Rightarrow> nat" where
  "p_page p \<equiv> g_page_size (p_geom p)"

definition local_layer :: "'e kv_pool \<Rightarrow> int \<Rightarrow> nat result" where
  "local_layer p layer_id = py_pos (length (p_k p)) (layer_id - int (g_start_layer (p_geom p)))"

text \<open>\<open>layer_id_override if layer_id_override is not None else layer.layer_id\<close>\<close>

definition resolve_layer :: "int option \<Rightarrow> int option \<Rightarrow> int result" where
  "resolve_layer override layer =
     (case override of Some l \<Rightarrow> Inr l | None \<Rightarrow> (case layer of Some l \<Rightarrow> Inr l | None \<Rightarrow> Inl AttributeError))"

section \<open>Conversion to the stored type\<close>

definition map_rows :: "('e \<Rightarrow> 'e) \<Rightarrow> 'e row list \<Rightarrow> 'e row list" where
  "map_rows f = map (map (map f))"

text \<open>In-place division is defined for the wide floating-point types only.\<close>

definition div_rows :: "'e elem_ops \<Rightarrow> dtype \<Rightarrow> kv_scale option \<Rightarrow> 'e row list \<Rightarrow> 'e row list result" where
  "div_rows ops d s rows =
     (case s of None \<Rightarrow> Inr rows
      | Some x \<Rightarrow> if d \<in> {Float32, Bfloat16, Float16} then Inr (map_rows (o_div ops (scale_val x)) rows)
                 else Inl RuntimeError)"

text \<open>
  The first component is the batch as the caller sees it afterwards: the division happens in place.
\<close>

definition cast_batch ::
  "'e elem_ops \<Rightarrow> dtype \<Rightarrow> 'e kv_batch \<Rightarrow> kv_scale option \<Rightarrow> kv_scale option \<Rightarrow> ('e kv_batch \<times> 'e kv_batch) result"
where
  "cast_batch ops dt b ks vs =
     (if b_dtype b \<noteq> dt
      then res_bind (div_rows ops (b_dtype b) ks (b_k b)) (\<lambda>k.
           res_bind (div_rows ops (b_dtype b) vs (b_v b)) (\<lambda>v.
             Inr (b\<lparr>b_k := k, b_v := v\<rparr>,
                  \<lparr>b_dtype = dt, b_k = map_rows (o_cast ops (b_dtype b) dt) k,
                   b_v = map_rows (o_cast ops (b_dtype b) dt) v\<rparr>)))
      else Inr (b, b))"

definition view_batch :: "'e elem_ops \<Rightarrow> dtype \<Rightarrow> dtype \<Rightarrow> 'e kv_batch \<Rightarrow> 'e kv_batch" where
  "view_batch ops store dt b =
     (if store \<noteq> dt
      then \<lparr>b_dtype = store, b_k = map_rows (o_view ops (b_dtype b) store) (b_k b),
            b_v = map_rows (o_view ops (b_dtype b) store) (b_v b)\<rparr>
      else b)"

section \<open>Stores\<close>

text \<open>One program of the masked store kernel, on flat memory: the value address uses the key's width.\<close>

definition masked_program :: "nat \<Rightarrow> nat \<Rightarrow> nat \<Rightarrow> nat \<Rightarrow> 'e list \<Rightarrow> nat \<Rightarrow> nat \<Rightarrow> 'e list \<Rightarrow> 'e list" where
  "masked_program H D sB sH src pid loc buf =
     fold (\<lambda>idx m. m[loc * H * D + idx := src ! (pid * sB + idx div D * sH + idx mod D)]) [0..<H * D] buf"

definition masked_kernel ::
  "nat \<Rightarrow> nat \<Rightarrow> nat \<Rightarrow> nat \<Rightarrow> 'e list \<Rightarrow> nat list \<Rightarrow> bool list \<Rightarrow> nat \<Rightarrow> 'e list \<Rightarrow> 'e list" where
  "masked_kernel H D sB sH src locs msk n buf =
     fold (\<lambda>pid m. if msk ! pid then masked_program H D sB sH src pid (locs ! pid) m else m) [0..<n] buf"

fun kb_flat :: "'e kbuf \<Rightarrow> 'e list" where
  "kb_flat (Slots xs) = concat (concat xs)"
| "kb_flat (Pages ps) = concat (concat (concat ps))"

text \<open>A buffer with the shape of \<open>b\<close> (\<open>H\<close> heads of width \<open>D\<close>) over flat memory.\<close>

fun kb_unflat :: "nat \<Rightarrow> nat \<Rightarrow> nat \<Rightarrow> 'e kbuf \<Rightarrow> 'e list \<Rightarrow> 'e kbuf" where
  "kb_unflat P H D (Slots xs) m = Slots (map (chunks D H) (chunks (H * D) (length xs) m))"
| "kb_unflat P H D (Pages ps) m =
     Pages (map (\<lambda>pg. map (chunks D P) (chunks (P * D) H pg)) (chunks (H * P * D) (length ps) m))"

definition masked_store ::
  "nat \<Rightarrow> nat \<Rightarrow> nat \<Rightarrow> nat \<Rightarrow> 'e row list \<Rightarrow> nat list \<Rightarrow> bool list \<Rightarrow> nat \<Rightarrow> 'e kbuf \<Rightarrow> 'e kbuf" where
  "masked_store P H D W rows locs msk n b =
     kb_unflat P H W b (masked_kernel H D (H * W) W (concat (concat rows)) locs msk n (kb_flat b))"

text \<open>\<open>_set_kv_buffer_impl\<close>, for the key or the value rows of a layer.\<close>

definition store_impl ::
  "kv_platform \<Rightarrow> 'e kv_kernels \<Rightarrow> kv_geom \<Rightarrow> nat list \<Rightarrow> 'e row list \<Rightarrow> 'e kbuf \<Rightarrow> 'e kbuf result" where
  "store_impl f n g locs rows b =
     (case b of
        Slots xs \<Rightarrow>
          if f_gpu f \<and> n_can_store n (row_dim g * itemsize (g_store_dtype g)) (v_row_dim g * itemsize (g_store_dtype g))
          then Inr (Slots (n_store n (g_size g + g_page_size g) xs locs rows))
          else if f_cpu_amx f \<and> v_row_dim g = row_dim g then Inr (Slots (n_store_cpu n xs locs rows))
          else kb_put (g_page_size g) b locs rows
      | Pages ps \<Rightarrow> kb_put (g_page_size g) b locs rows)"

definition set_layer :: "'e kv_pool \<Rightarrow> nat \<Rightarrow> 'e kbuf \<Rightarrow> 'e kbuf \<Rightarrow> 'e kv_pool" where
  "set_layer p i k v = p\<lparr>p_k := (p_k p)[i := k], p_v := (p_v p)[i := v]\<rparr>"

definition store_batch ::
  "kv_platform \<Rightarrow> 'e kv_kernels \<Rightarrow> 'e kv_pool \<Rightarrow> nat \<Rightarrow> nat list \<Rightarrow> 'e kv_batch \<Rightarrow> bool list option \<Rightarrow> 'e kv_pool result"
where
  "store_batch f n p i locs b msk =
     (let g = p_geom p in
      case msk of
        Some m \<Rightarrow>
          (let N = length (b_k b); D = length (hd (hd (b_k b)));
               H = length (hd (b_k b)); W = length (hd (hd (b_v b))) in
           Inr (set_layer p i (masked_store (g_page_size g) H D D (b_k b) locs m N (p_k p ! i))
                              (masked_store (g_page_size g) H D W (b_v b) locs m N (p_v p ! i))))
      | None \<Rightarrow>
          if g_use_hnd g
          then res_bind (kb_put (g_page_size g) (p_k p ! i) locs (b_k b)) (\<lambda>k.
               res_bind (kb_put (g_page_size g) (p_v p ! i) locs (b_v b)) (\<lambda>v. Inr (set_layer p i k v)))
          else res_bind (store_impl f n g locs (b_k b) (p_k p ! i)) (\<lambda>k.
               res_bind (store_impl f n g locs (b_v b) (p_v p ! i)) (\<lambda>v. Inr (set_layer p i k v))))"

section \<open>Quantised stores\<close>

definition slice1 :: "'a list \<Rightarrow> nat \<Rightarrow> 'a list" where
  "slice1 xs i = take 1 (drop i xs)"

text \<open>
  Scales of a quantised store: a host scalar counts as unset for the \<^verbatim>\<open>nvfp4\<close> recipe, and both
  scales are taken from the device when the key's is unset.
\<close>

definition quantized_scales ::
  "'e kv_quant \<Rightarrow> nat \<Rightarrow> kv_scale option \<Rightarrow> kv_scale option \<Rightarrow> kv_scale option \<times> kv_scale option" where
  "quantized_scales q global ks vs =
     (let host = q_name q = ''nvfp4'' \<and> \<not> (case ks of Some (DeviceScale _) \<Rightarrow> True | _ \<Rightarrow> False) in
      case q_gpu_scales q of
        Some (gk, gv) \<Rightarrow>
          if ks = None \<or> host then (Some (DeviceScale (slice1 gk global)), Some (DeviceScale (slice1 gv global)))
          else (ks, vs)
      | None \<Rightarrow> (ks, vs))"

definition set_quantized_kv_buffer ::
  "'e kv_pool \<Rightarrow> 'e kv_quant \<Rightarrow> int \<Rightarrow> nat \<Rightarrow> nat list \<Rightarrow> 'e kv_batch \<Rightarrow> kv_scale option \<Rightarrow> kv_scale option \<Rightarrow> 'e kv_pool result"
where
  "set_quantized_kv_buffer p q layer_id global locs b ks vs =
     res_bind (local_layer p layer_id) (\<lambda>i.
       let (ks', vs') = quantized_scales q global ks vs;
           (k, v, sk, sv) = q_store q (p_k p ! i, p_v p ! i, map_option (\<lambda>xs. xs ! i) (p_ks p), map_option (\<lambda>xs. xs ! i) (p_vs p))
                              locs b ks' vs'
       in Inr (p\<lparr>p_k := (p_k p)[i := k], p_v := (p_v p)[i := v],
                 p_ks := (case (p_ks p, sk) of (Some xs, Some s) \<Rightarrow> Some (xs[i := s]) | _ \<Rightarrow> p_ks p),
                 p_vs := (case (p_vs p, sv) of (Some xs, Some s) \<Rightarrow> Some (xs[i := s]) | _ \<Rightarrow> p_vs p)\<rparr>))"

section \<open>The store of a batch\<close>

text \<open>Returns the pool and the batch as the caller sees it afterwards.\<close>

definition set_kv_buffer ::
  "kv_platform \<Rightarrow> 'e kv_kernels \<Rightarrow> 'e elem_ops \<Rightarrow> 'e kv_pool \<Rightarrow> int option \<Rightarrow> loc_info \<Rightarrow> 'e kv_batch \<Rightarrow>
   kv_scale option \<Rightarrow> kv_scale option \<Rightarrow> int option \<Rightarrow> bool list option \<Rightarrow> ('e kv_pool \<times> 'e kv_batch) result"
where
  "set_kv_buffer f n ops p layer li b ks vs override msk =
     (let locs = fst (unwrap_write_loc li); g = p_geom p in
      res_bind (resolve_layer override layer) (\<lambda>layer_id.
        case p_quant p of
          Some q \<Rightarrow>
            if msk \<noteq> None then Inl RuntimeError
            else map_sum id (\<lambda>p'. (p', b))
                   (set_quantized_kv_buffer p q layer_id (nat (case layer of Some l \<Rightarrow> l | None \<Rightarrow> layer_id)) locs b ks vs)
        | None \<Rightarrow>
            res_bind (cast_batch ops (g_dtype g) b ks vs) (\<lambda>(seen, b').
            res_bind (local_layer p layer_id) (\<lambda>i.
              map_sum id (\<lambda>p'. (p', seen))
                (store_batch f n p i locs (view_batch ops (g_store_dtype g) (g_dtype g) b') msk)))))"

section \<open>Committing accepted prefixes\<close>

text \<open>A tensor with its shape; \<open>nd_flat\<close> is row-major.\<close>

datatype 'a nd = ND (nd_shape: "nat list") (nd_flat: "'a list")

text \<open>The flat positions \<open>(b, j)\<close> with \<open>j < commit_lens[b]\<close>.\<close>

definition valid_idx :: "nat \<Rightarrow> int list \<Rightarrow> nat list" where
  "valid_idx T lens = filter (\<lambda>x. int (x mod T) < lens ! (x div T)) [0..<length lens * T]"

text \<open>
  \<open>w\<close> is the number of elements of a row of the cache, \<open>dt\<close> the element type of the rows; both tensors
  are contiguous.
\<close>

definition prefix_impl ::
  "'e kv_kernels \<Rightarrow> kv_geom \<Rightarrow> nat \<Rightarrow> dtype \<Rightarrow> nat list \<Rightarrow> nat \<Rightarrow> int list \<Rightarrow> 'e row list \<Rightarrow> 'e kbuf \<Rightarrow> 'e kbuf" where
  "prefix_impl n g w dt locs T lens rows b =
     (let row_bytes = row_dim g * itemsize (g_store_dtype g) in
      if rows = [] \<or> locs = [] \<or> lens = [] \<or> row_bytes = 0 then b
      else let (tile_bytes, warps, tiles) = prefix_tiles row_bytes in
        n_prefix n \<lparr>pl_src_stride = length (concat (hd rows)) * itemsize dt, pl_dst_stride = w * itemsize (g_store_dtype g),
          pl_tokens = T, pl_row_bytes = row_bytes, pl_tile_bytes = tile_bytes, pl_tiles = tiles\<rparr> dt b locs lens rows)"

definition set_kv_buffer_prefix_valid ::
  "kv_platform \<Rightarrow> 'e kv_kernels \<Rightarrow> 'e elem_ops \<Rightarrow> 'e kv_pool \<Rightarrow> int option \<Rightarrow> nat nd \<Rightarrow> int nd \<Rightarrow> 'e kv_batch \<Rightarrow>
   kv_scale option \<Rightarrow> kv_scale option \<Rightarrow> int option \<Rightarrow> ('e kv_pool \<times> 'e kv_batch) result"
where
  "set_kv_buffer_prefix_valid f n ops p layer loc2 lens b ks vs override =
     (let g = p_geom p in
      res_bind (resolve_layer override layer) (\<lambda>layer_id.
        if length (nd_shape loc2) \<noteq> 2 then Inl ValueError
        else if length (nd_shape lens) \<noteq> 1 \<or> hd (nd_shape lens) \<noteq> hd (nd_shape loc2) then Inl ValueError
        else if length (b_k b) \<noteq> length (nd_flat loc2) \<or> length (b_v b) \<noteq> length (nd_flat loc2) then Inl ValueError
        else
          res_bind (cast_batch ops (g_dtype g) b ks vs) (\<lambda>(seen, b0).
            let b' = view_batch ops (g_store_dtype g) (g_dtype g) b0; T = nd_shape loc2 ! 1 in
            if \<not> f_gpu f
            then (let vi = valid_idx T (nd_flat lens) in
                  if vi = [] then Inr (p, seen)
                  else map_sum id (\<lambda>(p', _). (p', seen))
                    (set_kv_buffer f n ops p layer (Bare (index_select (nd_flat loc2) vi))
                       (b'\<lparr>b_k := index_select (b_k b') vi, b_v := index_select (b_v b') vi\<rparr>) ks vs (Some layer_id) None))
            else if v_row_dim g \<noteq> row_dim g then Inl NotImplementedError
            else res_bind (local_layer p layer_id) (\<lambda>i.
                   Inr (set_layer p i (prefix_impl n g (row_dim g) (b_dtype b') (nd_flat loc2) T (nd_flat lens) (b_k b') (p_k p ! i))
                                      (prefix_impl n g (v_row_dim g) (b_dtype b') (nd_flat loc2) T (nd_flat lens) (b_v b') (p_v p ! i)), seen)))))"

section \<open>Moving slots\<close>

text \<open>\<open>for start in range(0, N, cap): end = min(start + cap, N)\<close>\<close>

definition ranges :: "nat \<Rightarrow> nat \<Rightarrow> (nat \<times> nat) list" where
  "ranges n cap = map (\<lambda>i. (i * cap, min (i * cap + cap) n)) [0..<(n + cap - 1) div cap]"

definition slice :: "'a list \<Rightarrow> nat \<times> nat \<Rightarrow> 'a list" where
  "slice xs ab = take (snd ab - fst ab) (drop (fst ab) xs)"

definition move_native :: "nat \<Rightarrow> nat list \<Rightarrow> nat list \<Rightarrow> 'e kbuf list \<Rightarrow> 'e kbuf list result" where
  "move_native P tgt src bufs = (if tgt = [] then Inr bufs else res_map (\<lambda>b. kb_move P b tgt src) bufs)"

definition copy_all ::
  "'e kv_kernels \<Rightarrow> nat list \<Rightarrow> nat list \<Rightarrow> 'e kv_pool \<Rightarrow> 'e kv_pool" where
  "copy_all n tgt src p = p\<lparr>p_k := map (n_copy n tgt src) (p_k p), p_v := map (n_copy n tgt src) (p_v p),
      p_ks := map_option (map (n_copy n tgt src)) (p_ks p), p_vs := map_option (map (n_copy n tgt src)) (p_vs p)\<rparr>"

definition opt_res_map :: "('a \<Rightarrow> 'b result) \<Rightarrow> 'a option \<Rightarrow> 'b option result" where
  "opt_res_map h x = (case x of None \<Rightarrow> Inr None | Some y \<Rightarrow> map_sum id Some (h y))"

definition move_impl :: "'e kv_kernels \<Rightarrow> 'e kv_pool \<Rightarrow> nat list \<Rightarrow> nat list \<Rightarrow> 'e kv_pool result" where
  "move_impl n p tgt src =
     (let P = p_page p in
      if p_native_move p
      then res_bind (move_native P tgt src (p_k p)) (\<lambda>k.
           res_bind (move_native P tgt src (p_v p)) (\<lambda>v.
           res_bind (opt_res_map (move_native P tgt src) (p_ks p)) (\<lambda>ks.
           res_bind (if p_ks p = None then Inr (p_vs p) else opt_res_map (move_native P tgt src) (p_vs p)) (\<lambda>vs.
             Inr (p\<lparr>p_k := k, p_v := v, p_ks := ks, p_vs := vs\<rparr>)))))
      else if tgt = [] then Inr p
      else (case p_copy_cfg p of
              None \<Rightarrow> Inl AssertionError
            | Some c \<Rightarrow>
                (let cap = cc_num_locs_upper c; N = length tgt in
                 if N \<le> cap then Inr (copy_all n tgt src p)
                 else Inr (fold (\<lambda>r. copy_all n (slice tgt r) (slice src r)) (ranges N cap) p))))"

definition move_kv_cache :: "'e kv_kernels \<Rightarrow> 'e kv_pool \<Rightarrow> nat list \<Rightarrow> nat list \<Rightarrow> 'e kv_pool result" where
  "move_kv_cache n p tgt src =
     (if g_layer_num (p_geom p) = 0 then Inr p
      else if g_use_hnd (p_geom p)
      then res_bind (res_map (\<lambda>b. kb_move (p_page p) b tgt src) (p_k p)) (\<lambda>k.
           res_bind (res_map (\<lambda>b. kb_move (p_page p) b tgt src) (p_v p)) (\<lambda>v.
             Inr (p\<lparr>p_k := k, p_v := v\<rparr>)))
      else move_impl n p tgt src)"

section \<open>Host copies\<close>

type_synonym 'e host_copy = "('e row list \<times> 'e row list) list list"

definition get_cpu_copy :: "'e kv_pool \<Rightarrow> nat list \<Rightarrow> 'e host_copy result" where
  "get_cpu_copy p idx =
     (if g_use_hnd (p_geom p) then Inl AssertionError
      else res_map (\<lambda>(k, v). res_map (\<lambda>r.
             res_bind (kb_take (p_page p) k (slice idx r)) (\<lambda>kc.
             res_bind (kb_take (p_page p) v (slice idx r)) (\<lambda>vc. Inr (kc, vc))))
             (ranges (length idx) (p_chunk p)))
           (zip (p_k p) (p_v p)))"

definition load_chunk ::
  "nat \<Rightarrow> nat list \<Rightarrow> ('e row list \<times> 'e row list) list \<Rightarrow> 'e kbuf \<times> 'e kbuf \<Rightarrow> nat \<times> nat \<times> nat \<Rightarrow> ('e kbuf \<times> 'e kbuf) result"
where
  "load_chunk P idx saved kv c =
     (case c of (j, a, z) \<Rightarrow>
        let ci = slice idx (a, z) in
        if length saved \<le> j then Inl IndexError
        else (case saved ! j of (kc, vc) \<Rightarrow>
          if \<not> (length kc = length vc \<and> length vc = length ci) then Inl AssertionError
          else res_bind (kb_put P (fst kv) ci kc) (\<lambda>k. res_bind (kb_put P (snd kv) ci vc) (\<lambda>v. Inr (k, v)))))"

definition load_layer ::
  "nat \<Rightarrow> nat \<Rightarrow> nat list \<Rightarrow> ('e row list \<times> 'e row list) list \<Rightarrow> 'e kbuf \<times> 'e kbuf \<Rightarrow> ('e kbuf \<times> 'e kbuf) result"
where
  "load_layer P chunk idx saved kv =
     res_fold (load_chunk P idx saved) kv (enumerate 0 (ranges (length idx) chunk))"

definition load_cpu_copy :: "'e kv_pool \<Rightarrow> 'e host_copy \<Rightarrow> nat list \<Rightarrow> 'e kv_pool result" where
  "load_cpu_copy p hc idx =
     (if g_use_hnd (p_geom p) then Inl AssertionError
      else if idx \<noteq> [] \<and> length hc < length (p_k p) then Inl IndexError
      else map_sum id (\<lambda>kvs. p\<lparr>p_k := map fst kvs, p_v := map snd kvs\<rparr>)
        (res_map (\<lambda>(saved, kv). load_layer (p_page p) (p_chunk p) idx saved kv)
           (if idx = [] then zip (replicate (length (p_k p)) []) (zip (p_k p) (p_v p)) else zip hc (zip (p_k p) (p_v p)))))"

end
