(* ===== verification/Kv_Store.thy ===== *)
theory Kv_Store
  imports Kv_Pool
begin

text \<open>
  The stores of the key/value pool: the contract of the kernels, the effect of a batch on every
  layout, the masked kernel against a plain store, and the commit of accepted prefixes.
\<close>

section \<open>Contracts\<close>

text \<open>The first \<open>lens ! q\<close> entries of each of the rows of \<open>T\<close> entries.\<close>

definition accepted :: "nat \<Rightarrow> int list \<Rightarrow> 'a list \<Rightarrow> 'a list" where
  "accepted T lens xs = concat (map2 (\<lambda>n row. take (nat n) row) lens (chunks T (length lens) xs))"

lemma accepted_simps [simp]:
  "accepted T [] xs = []" "accepted T (n # lens) xs = take (nat n) (take T xs) @ accepted T lens (drop T xs)"
  by (simp_all add: accepted_def)

lemma length_accepted: "length xs = length ys \<Longrightarrow> length (accepted T lens xs) = length (accepted T lens ys)"
  by (induction lens arbitrary: xs ys) simp_all

lemma set_accepted: "set (accepted T lens xs) \<subseteq> set xs"
  by (induction lens arbitrary: xs) (auto dest: in_set_takeD in_set_dropD)

definition kernels_ok :: "'e kv_kernels \<Rightarrow> bool" where
  "kernels_ok n \<longleftrightarrow> (\<forall>mx. row_store (n_store n mx)) \<and> row_store (n_store_cpu n) \<and>
     (\<forall>xs tgt src. length tgt = length src \<and> (\<forall>l\<in>set tgt \<union> set src. l < length xs) \<longrightarrow>
        (\<exists>ys. n_copy n tgt src (Slots xs) = Slots ys \<and> row_stored xs tgt (index_select xs src) ys))"

text \<open>
  The prefix-commit kernel copies bytes, so it stores rows only when the launch describes them: the
  row and the strides are as many bytes as a row of the draft has, and the tiles of the grid cover it.
\<close>

definition prefix_kernel_ok :: "'e kv_kernels \<Rightarrow> bool" where
  "prefix_kernel_ok n \<longleftrightarrow> (\<forall>c dt xs locs lens rows. length locs = length lens * pl_tokens c \<and> length rows = length locs \<and>
     (\<forall>l\<in>set (accepted (pl_tokens c) lens locs). l < length xs) \<and>
     (\<forall>r\<in>set rows. length (concat r) * itemsize dt = pl_row_bytes c) \<and>
     pl_src_stride c = pl_row_bytes c \<and> pl_dst_stride c = pl_row_bytes c \<and> pl_row_bytes c \<le> pl_tiles c * pl_tile_bytes c \<longrightarrow>
     (\<exists>ys. n_prefix n c dt (Slots xs) locs lens rows = Slots ys \<and>
       row_stored xs (accepted (pl_tokens c) lens locs) (accepted (pl_tokens c) lens rows) ys))"

lemma prefix_kernel_okD:
  assumes "prefix_kernel_ok n" "length locs = length lens * pl_tokens c" "length rows = length locs"
    "\<forall>l\<in>set (accepted (pl_tokens c) lens locs). l < length xs" "\<forall>r\<in>set rows. length (concat r) * itemsize dt = pl_row_bytes c"
    "pl_src_stride c = pl_row_bytes c" "pl_dst_stride c = pl_row_bytes c" "pl_row_bytes c \<le> pl_tiles c * pl_tile_bytes c"
  shows "\<exists>ys. n_prefix n c dt (Slots xs) locs lens rows = Slots ys \<and>
    row_stored xs (accepted (pl_tokens c) lens locs) (accepted (pl_tokens c) lens rows) ys"
  using assms unfolding prefix_kernel_ok_def by blast

lemma kernels_okD:
  assumes "kernels_ok n"
  shows "row_store (n_store n mx)" and "row_store (n_store_cpu n)"
    and "length tgt = length src \<Longrightarrow> \<forall>l\<in>set tgt \<union> set src. l < length xs \<Longrightarrow>
      \<exists>ys. n_copy n tgt src (Slots xs) = Slots ys \<and> row_stored xs tgt (index_select xs src) ys"
  using assms unfolding kernels_ok_def by blast+

text \<open>Reference kernels that satisfy the contract.\<close>

definition ref_kernels :: "'e kv_kernels" where
  "ref_kernels = \<lparr>n_can_store = (\<lambda>a b. True), n_store = (\<lambda>mx t l r. scatter t (zip l r)),
     n_store_cpu = (\<lambda>t l r. scatter t (zip l r)),
     n_prefix = (\<lambda>c dt b locs lens rows. kb_write 1 b
        (zip (accepted (pl_tokens c) lens locs) (accepted (pl_tokens c) lens rows))),
     n_copy = (\<lambda>tgt src b. case b of Slots xs \<Rightarrow> Slots (scatter xs (zip tgt (index_select xs src))) | Pages ps \<Rightarrow> b)\<rparr>"

lemma ref_kernels_ok: "kernels_ok ref_kernels"
  unfolding kernels_ok_def ref_kernels_def
  by (auto simp: plain_store.row_store_axioms intro!: scatter_stored)

lemma ref_prefix_ok: "prefix_kernel_ok ref_kernels"
  unfolding prefix_kernel_ok_def ref_kernels_def by (auto intro!: scatter_stored length_accepted)

definition buf_ok :: "kv_geom \<Rightarrow> nat \<Rightarrow> 'e kbuf \<Rightarrow> bool" where
  "buf_ok g H b \<longleftrightarrow> kb_ok (g_page_size g) H b \<and> kb_len (g_page_size g) b = g_size g + g_page_size g \<and>
     (g_use_hnd g \<longleftrightarrow> (case b of Slots _ \<Rightarrow> False | Pages _ \<Rightarrow> True))"

definition pool_ok :: "nat \<Rightarrow> 'e kv_pool \<Rightarrow> bool" where
  "pool_ok H p \<longleftrightarrow> length (p_v p) = length (p_k p) \<and> (\<forall>b\<in>set (p_k p) \<union> set (p_v p). buf_ok (p_geom p) H b)"

lemma pool_okD:
  assumes "pool_ok H p" and "i < length (p_k p)"
  shows "buf_ok (p_geom p) H (p_k p ! i)" and "buf_ok (p_geom p) H (p_v p ! i)" and "i < length (p_v p)"
  using assms by (auto simp: pool_ok_def)

lemma pool_ok_set_layer:
  assumes "pool_ok H p" and "buf_ok (p_geom p) H k" "buf_ok (p_geom p) H v"
  shows "pool_ok H (set_layer p i k v)"
  using assms set_update_subset_insert[of "p_k p" i k] set_update_subset_insert[of "p_v p" i v]
  unfolding pool_ok_def set_layer_def by auto

section \<open>The effect of a store\<close>

lemma row_stored_heads:
  assumes "row_stored t locs rows t'" and "\<forall>r\<in>set t. length r = H" and "\<forall>r\<in>set rows. length r = H"
    and "length rows = length locs"
  shows "\<forall>r\<in>set t'. length r = H"
proof
  fix r assume "r \<in> set t'"
  then obtain j where j: "j < length t" "r = t' ! j" using row_storedD(1)[OF assms(1)] by (auto simp: in_set_conv_nth)
  show "length r = H"
  proof (cases "j \<in> set locs")
    case True
    then show ?thesis using row_storedD(2)[OF assms(1) j(1)] j assms(3,4) by auto
  next
    case False
    then show ?thesis using row_storedD(3)[OF assms(1) j(1)] j assms(2) by auto
  qed
qed

lemma kb_put_stored:
  assumes ok: "buf_ok g H b" and len: "length rows = length locs" and r: "\<forall>r\<in>set rows. length r = H"
    and l: "\<forall>l\<in>set locs. l < g_size g + g_page_size g"
  obtains b' where "kb_put (g_page_size g) b locs rows = Inr b'" "buf_ok g H b'"
    "row_stored (kb_rows (g_page_size g) b) locs rows (kb_rows (g_page_size g) b')"
proof
  let ?P = "g_page_size g" and ?b' = "kb_write (g_page_size g) b (zip locs rows)"
  have kb: "kb_ok ?P H b" "kb_len ?P b = g_size g + ?P" using ok by (simp_all add: buf_ok_def)
  show put: "kb_put ?P b locs rows = Inr ?b'"
    using l kb(2) len by (auto simp: kb_put_def spread_def)
  have rows: "kb_rows ?P ?b' = scatter (kb_rows ?P b) (zip locs rows) \<and> kb_ok ?P H ?b' \<and> kb_len ?P ?b' = kb_len ?P b"
    using kb_put_rows[OF kb(1) r put] len by (simp add: spread_def)
  show "buf_ok g H ?b'" using rows ok by (cases b) (auto simp: buf_ok_def)
  show "row_stored (kb_rows ?P b) locs rows (kb_rows ?P ?b')"
    using rows scatter_stored[OF len, of "kb_rows ?P b"] l kb(2) by simp
qed

lemma slots_stored:
  assumes ok: "buf_ok g H (Slots xs)" and st: "row_stored xs locs rows ys"
    and len: "length rows = length locs" and r: "\<forall>r\<in>set rows. length r = H"
  shows "buf_ok g H (Slots ys)"
  using ok row_stored_heads[OF st _ r len] row_storedD(1)[OF st] by (auto simp: buf_ok_def)

lemma layer_stored:
  assumes n: "kernels_ok n" and ok: "buf_ok g H b" and len: "length rows = length locs"
    and r: "\<forall>r\<in>set rows. length r = H" and l: "\<forall>l\<in>set locs. l < g_size g + g_page_size g"
  obtains b' where
    "(if g_use_hnd g then kb_put (g_page_size g) b locs rows else store_impl f n g locs rows b) = Inr b'"
    "buf_ok g H b'" "row_stored (kb_rows (g_page_size g) b) locs rows (kb_rows (g_page_size g) b')"
proof (cases b)
  case (Pages ps)
  then have h: "g_use_hnd g" using ok by (simp add: buf_ok_def)
  obtain b' where "kb_put (g_page_size g) b locs rows = Inr b'" "buf_ok g H b'"
    "row_stored (kb_rows (g_page_size g) b) locs rows (kb_rows (g_page_size g) b')"
    by (rule kb_put_stored[OF ok len r l])
  then show ?thesis using h that by simp
next
  case (Slots xs)
  then have h: "\<not> g_use_hnd g" and xs: "length xs = g_size g + g_page_size g" using ok by (simp_all add: buf_ok_def)
  have lx: "\<forall>l\<in>set locs. l < length xs" using l xs by simp
  note ok' = ok[unfolded Slots]
  have gpu: "row_stored xs locs rows (n_store n mx xs locs rows)" for mx
    by (rule row_store.stored[OF kernels_okD(1)[OF n] len lx])
  have cpu: "row_stored xs locs rows (n_store_cpu n xs locs rows)"
    by (rule row_store.stored[OF kernels_okD(2)[OF n] len lx])
  obtain b' where b': "kb_put (g_page_size g) b locs rows = Inr b'" "buf_ok g H b'"
    "row_stored (kb_rows (g_page_size g) b) locs rows (kb_rows (g_page_size g) b')"
    by (rule kb_put_stored[OF ok len r l])
  let ?can = "f_gpu f \<and> n_can_store n (row_dim g * itemsize (g_store_dtype g)) (v_row_dim g * itemsize (g_store_dtype g))"
  have impl: "store_impl f n g locs rows b = (if ?can then Inr (Slots (n_store n (g_size g + g_page_size g) xs locs rows))
      else if f_cpu_amx f \<and> v_row_dim g = row_dim g then Inr (Slots (n_store_cpu n xs locs rows))
      else kb_put (g_page_size g) b locs rows)"
    by (simp only: Slots store_impl_def kbuf.case)
  show ?thesis
  proof (cases "f_gpu f \<and> n_can_store n (row_dim g * itemsize (g_store_dtype g)) (v_row_dim g * itemsize (g_store_dtype g))")
    case True
    then show ?thesis using h Slots that[of "Slots (n_store n (g_size g + g_page_size g) xs locs rows)"]
        gpu slots_stored[OF ok' gpu len r] impl by simp
  next
    case nog: False
    show ?thesis
    proof (cases "f_cpu_amx f \<and> v_row_dim g = row_dim g")
      case True
      then have "store_impl f n g locs rows b = Inr (Slots (n_store_cpu n xs locs rows))" using nog impl by (simp only: if_False if_True simp_thms)
      then show ?thesis using h Slots that[of "Slots (n_store_cpu n xs locs rows)"]
          cpu slots_stored[OF ok' cpu len r] by simp
    next
      case False
      then have "store_impl f n g locs rows b = Inr b'" using nog impl b'(1) by (simp only: if_False)
      then show ?thesis using h that[OF _ b'(2,3)] by simp
    qed
  qed
qed

lemma map_rows_shape [simp]:
  "length (map_rows h rows) = length rows"
  "(\<forall>r\<in>set (map_rows h rows). length r = H) = (\<forall>r\<in>set rows. length r = H)"
  by (simp_all add: map_rows_def)

lemma div_rows_shape:
  assumes "div_rows ops d s rows = Inr rows'"
  shows "length rows' = length rows \<and> (\<forall>r\<in>set rows'. length r = H) = (\<forall>r\<in>set rows. length r = H)"
proof -
  have "rows' = rows \<or> (\<exists>h. rows' = map_rows h rows)"
    using assms unfolding div_rows_def by (auto split: option.splits if_splits)
  then show ?thesis by (elim disjE exE) simp_all
qed

text \<open>The converted batch that reaches the buffers, and the batch the caller is left with.\<close>

definition converted ::
  "'e elem_ops \<Rightarrow> kv_geom \<Rightarrow> 'e kv_batch \<Rightarrow> kv_scale option \<Rightarrow> kv_scale option \<Rightarrow> ('e kv_batch \<times> 'e kv_batch) result"
where
  "converted ops g b ks vs =
     map_sum id (\<lambda>(seen, c). (seen, view_batch ops (g_store_dtype g) (g_dtype g) c)) (cast_batch ops (g_dtype g) b ks vs)"

lemma convertedE:
  assumes "converted ops g b ks vs = Inr (seen, b')"
  obtains c where "cast_batch ops (g_dtype g) b ks vs = Inr (seen, c)"
    "b' = view_batch ops (g_store_dtype g) (g_dtype g) c"
  using assms by (cases "cast_batch ops (g_dtype g) b ks vs") (auto simp: converted_def)

lemma converted_shape:
  assumes "converted ops g b ks vs = Inr (seen, b')"
  shows "length (b_k b') = length (b_k b)" "length (b_v b') = length (b_v b)"
    and "(\<forall>r\<in>set (b_k b'). length r = H) = (\<forall>r\<in>set (b_k b). length r = H)"
    and "(\<forall>r\<in>set (b_v b'). length r = H) = (\<forall>r\<in>set (b_v b). length r = H)"
proof -
  obtain c where c: "cast_batch ops (g_dtype g) b ks vs = Inr (seen, c)"
    and b': "b' = view_batch ops (g_store_dtype g) (g_dtype g) c" using assms by (rule convertedE)
  have "length (b_k c) = length (b_k b) \<and> length (b_v c) = length (b_v b) \<and>
    (\<forall>r\<in>set (b_k c). length r = H) = (\<forall>r\<in>set (b_k b). length r = H) \<and>
    (\<forall>r\<in>set (b_v c). length r = H) = (\<forall>r\<in>set (b_v b). length r = H)"
  proof (cases "b_dtype b = g_dtype g")
    case True
    then have "c = b" using c by (auto simp: cast_batch_def)
    then show ?thesis by simp
  next
    case False
    then obtain k v where kv: "div_rows ops (b_dtype b) ks (b_k b) = Inr k" "div_rows ops (b_dtype b) vs (b_v b) = Inr v"
      and "c = \<lparr>b_dtype = g_dtype g, b_k = map_rows (o_cast ops (b_dtype b) (g_dtype g)) k,
                b_v = map_rows (o_cast ops (b_dtype b) (g_dtype g)) v\<rparr>"
      using c unfolding cast_batch_def by (auto simp: res_bind_Inr_iff simp del: map_rows_shape)
    then show ?thesis using div_rows_shape[OF kv(1), of H] div_rows_shape[OF kv(2), of H] by simp
  qed
  then show "length (b_k b') = length (b_k b)" "length (b_v b') = length (b_v b)"
    "(\<forall>r\<in>set (b_k b'). length r = H) = (\<forall>r\<in>set (b_k b). length r = H)"
    "(\<forall>r\<in>set (b_v b'). length r = H) = (\<forall>r\<in>set (b_v b). length r = H)"
    unfolding b' view_batch_def by simp_all
qed

definition batch_fits :: "nat \<Rightarrow> nat \<Rightarrow> 'e kv_batch \<Rightarrow> bool" where
  "batch_fits H N b \<longleftrightarrow> length (b_k b) = N \<and> length (b_v b) = N \<and> (\<forall>r\<in>set (b_k b) \<union> set (b_v b). length r = H)"

lemma converted_fits: "converted ops g b ks vs = Inr (seen, b') \<Longrightarrow> batch_fits H N b' = batch_fits H N b"
  using converted_shape(1,2)[of ops g b ks vs seen b'] converted_shape(3,4)[of ops g b ks vs seen b' H]
  by (auto simp: batch_fits_def)

lemma converted_dtype:
  assumes "converted ops g b ks vs = Inr (seen, b')"
  shows "b_dtype b' = g_store_dtype g"
proof -
  obtain c where c: "cast_batch ops (g_dtype g) b ks vs = Inr (seen, c)" "b' = view_batch ops (g_store_dtype g) (g_dtype g) c"
    using assms by (rule convertedE)
  have "b_dtype c = g_dtype g" using c(1) by (auto simp: cast_batch_def res_bind_Inr_iff split: if_splits)
  then show ?thesis by (simp add: c(2) view_batch_def)
qed

lemma converted_same: "b_dtype b = g_dtype g \<Longrightarrow> g_store_dtype g = g_dtype g \<Longrightarrow> converted ops g b ks vs = Inr (b, b)"
  by (simp add: converted_def cast_batch_def view_batch_def)

lemma set_kv_plain:
  assumes "p_quant p = None" and "resolve_layer ov layer = Inr l" and "local_layer p l = Inr i"
    and "converted ops (p_geom p) b ks vs = Inr (seen, b')"
  shows "set_kv_buffer f n ops p layer li b ks vs ov msk =
    map_sum id (\<lambda>p'. (p', seen)) (store_batch f n p i (fst (unwrap_write_loc li)) b' msk)"
proof -
  obtain c where "cast_batch ops (g_dtype (p_geom p)) b ks vs = Inr (seen, c)"
    "b' = view_batch ops (g_store_dtype (p_geom p)) (g_dtype (p_geom p)) c" using assms(4) by (rule convertedE)
  then show ?thesis using assms(1-3) by (simp add: set_kv_buffer_def Let_def)
qed

text \<open>The layer \<open>i\<close> holds the rows at the locations, everything else is as before.\<close>

definition layer_written :: "nat \<Rightarrow> nat list \<Rightarrow> 'e kv_batch \<Rightarrow> 'e kv_pool \<Rightarrow> 'e kv_pool \<Rightarrow> bool" where
  "layer_written i locs b p p' \<longleftrightarrow>
     row_stored (kb_rows (p_page p) (p_k p ! i)) locs (b_k b) (kb_rows (p_page p) (p_k p' ! i)) \<and>
     row_stored (kb_rows (p_page p) (p_v p ! i)) locs (b_v b) (kb_rows (p_page p) (p_v p' ! i)) \<and>
     (\<forall>j. j \<noteq> i \<longrightarrow> p_k p' ! j = p_k p ! j \<and> p_v p' ! j = p_v p ! j) \<and>
     p_geom p' = p_geom p \<and> p_ks p' = p_ks p \<and> p_vs p' = p_vs p"

lemma store_batch_written:
  assumes n: "kernels_ok n" and ok: "pool_ok H p" and i: "i < length (p_k p)"
    and b: "batch_fits H (length locs) b" and l: "\<forall>l\<in>set locs. l < g_size (p_geom p) + p_page p"
  obtains p' where "store_batch f n p i locs b None = Inr p'" "layer_written i locs b p p'" "pool_ok H p'"
proof -
  note po = pool_okD[OF ok i]
  have bb: "length (b_k b) = length locs" "length (b_v b) = length locs"
    "\<forall>r\<in>set (b_k b). length r = H" "\<forall>r\<in>set (b_v b). length r = H" using b by (auto simp: batch_fits_def)
  let ?st = "\<lambda>rows c. if g_use_hnd (p_geom p) then kb_put (p_page p) c locs rows else store_impl f n (p_geom p) locs rows c"
  obtain k where k: "?st (b_k b) (p_k p ! i) = Inr k" "buf_ok (p_geom p) H k"
    "row_stored (kb_rows (p_page p) (p_k p ! i)) locs (b_k b) (kb_rows (p_page p) k)"
    by (rule layer_stored[OF n po(1) bb(1,3) l])
  obtain v where v: "?st (b_v b) (p_v p ! i) = Inr v" "buf_ok (p_geom p) H v"
    "row_stored (kb_rows (p_page p) (p_v p ! i)) locs (b_v b) (kb_rows (p_page p) v)"
    by (rule layer_stored[OF n po(2) bb(2,4) l])
  have "store_batch f n p i locs b None = Inr (set_layer p i k v)"
    using k(1) v(1) by (simp add: store_batch_def Let_def split: if_splits)
  moreover have "layer_written i locs b p (set_layer p i k v)"
    using k(3) v(3) i po(3) by (simp add: layer_written_def set_layer_def)
  ultimately show ?thesis using that pool_ok_set_layer[OF ok k(2) v(2)] by blast
qed

text \<open>
  A store of a batch succeeds on every layout and platform branch, converts each value once
  (divided by the scale, cast, viewed as the stored type), and leaves exactly the addressed rows of
  the addressed layer changed; which of several writes to one row wins is left open.
\<close>

theorem set_kv_writes_rows:
  assumes n: "kernels_ok n" and ok: "pool_ok H p" and q: "p_quant p = None"
    and l: "resolve_layer ov layer = Inr l" "local_layer p l = Inr i"
    and c: "converted ops (p_geom p) b ks vs = Inr (seen, b')"
    and b: "batch_fits H (length (fst (unwrap_write_loc li))) b"
    and r: "\<forall>x\<in>set (fst (unwrap_write_loc li)). x < g_size (p_geom p) + p_page p"
  shows "\<exists>p'. set_kv_buffer f n ops p layer li b ks vs ov None = Inr (p', seen) \<and>
     layer_written i (fst (unwrap_write_loc li)) b' p p' \<and> pool_ok H p'"
proof -
  have "i < length (p_k p)" using l(2) py_pos_less unfolding local_layer_def by blast
  moreover have "batch_fits H (length (fst (unwrap_write_loc li))) b'" using b converted_fits[OF c] by blast
  ultimately obtain p' where "store_batch f n p i (fst (unwrap_write_loc li)) b' None = Inr p'"
    "layer_written i (fst (unwrap_write_loc li)) b' p p'" "pool_ok H p'"
    using store_batch_written[OF n ok _ _ r] by metis
  then show ?thesis using set_kv_plain[OF q l c] by simp
qed

text \<open>A pool with two pages of two tokens, in the page layout, storing bytes of 8-bit floats.\<close>

definition small_geom :: "bool \<Rightarrow> kv_geom" where
  "small_geom hnd = \<lparr>g_size = 2, g_page_size = 2, g_dtype = Float8_e4m3fn, g_store_dtype = Uint8, g_layer_num = 1,
     g_start_layer = 3, g_end_layer = 0, g_head_num = 2, g_head_dim = 1, g_v_head_dim = 1, g_use_hnd = hnd,
     g_layout = (if hnd then ''hnd'' else ''nhd''), g_num_pages = (if hnd then Some 2 else None), g_vec_x = None, g_post_capture = False\<rparr>"

definition small_pool :: "bool \<Rightarrow> int kv_pool" where
  "small_pool hnd = (let b = (if hnd then Pages (replicate 2 (replicate 2 (replicate 2 [0]))) else Slots (replicate 4 (replicate 2 [0]))) in
     \<lparr>p_geom = small_geom hnd, p_k = [b], p_v = [b], p_ks = None, p_vs = None, p_quant = None, p_native_move = False,
      p_copy_cfg = None, p_chunk = 2\<rparr>)"

definition int_ops :: "int elem_ops" where
  "int_ops = \<lparr>o_div = (\<lambda>s x. x div \<lfloor>s\<rfloor>), o_cast = (\<lambda>a b x. x), o_view = (\<lambda>a b x. x + 100)\<rparr>"

definition small_batch :: "int kv_batch" where
  "small_batch = \<lparr>b_dtype = Bfloat16, b_k = [[[8], [6]], [[4], [2]]], b_v = [[[1], [3]], [[5], [7]]]\<rparr>"

lemma small_pool_ok: "pool_ok 2 (small_pool hnd)"
  by (cases hnd) (simp_all add: pool_ok_def small_pool_def small_geom_def buf_ok_def Let_def)

lemma small_converted:
  "converted int_ops (small_geom hnd) small_batch (Some (HostScale 2)) None = Inr (small_batch\<lparr>b_k := [[[4], [3]], [[2], [1]]]\<rparr>,
     \<lparr>b_dtype = Uint8, b_k = [[[104], [103]], [[102], [101]]], b_v = [[[101], [103]], [[105], [107]]]\<rparr>)"
  by (cases hnd) code_simp+

theorem set_kv_writes_rows_witness:
  "\<exists>p'. set_kv_buffer \<lparr>f_gpu = True, f_cpu_amx = False\<rparr> ref_kernels int_ops (small_pool True) (Some 3) (Bare [3, 0])
     small_batch (Some (HostScale 2)) None None None = Inr (p', small_batch\<lparr>b_k := [[[4], [3]], [[2], [1]]]\<rparr>) \<and>
     layer_written 0 [3, 0] \<lparr>b_dtype = Uint8, b_k = [[[104], [103]], [[102], [101]]], b_v = [[[101], [103]], [[105], [107]]]\<rparr>
       (small_pool True) p' \<and> pool_ok 2 p'"
proof -
  have g: "p_geom (small_pool True) = small_geom True" by (simp add: small_pool_def Let_def)
  show ?thesis
    using set_kv_writes_rows[OF ref_kernels_ok small_pool_ok[of True], of None "Some 3" 3 0 int_ops small_batch
      "Some (HostScale 2)" None _ _ "Bare [3, 0]" "\<lparr>f_gpu = True, f_cpu_amx = False\<rparr>", unfolded g, OF _ _ _ small_converted]
    by (simp add: resolve_layer_def local_layer_def py_pos_def small_pool_def small_geom_def batch_fits_def small_batch_def Let_def)
qed

end
