(* ===== verification/Kv_Commit.thy ===== *)
theory Kv_Commit
  imports Kv_Store Flat_Memory
begin

text \<open>
  Partial stores into the key/value pool: the masked store, whose kernel addresses flat memory with
  the key's row width for both buffers, and the commit of the accepted prefixes of a draft batch.
\<close>

section \<open>Flat memory\<close>

text \<open>Rows with \<open>H\<close> heads of width \<open>D\<close>, and their contiguous memory.\<close>

definition rows_of :: "nat \<Rightarrow> nat \<Rightarrow> 'e row list \<Rightarrow> bool" where
  "rows_of H D xs \<longleftrightarrow> uniform H xs \<and> (\<forall>r\<in>set xs. uniform D r)"

lemma rows_ofD: "rows_of H D xs \<Longrightarrow> r \<in> set xs \<Longrightarrow> length r = H \<and> uniform D r"
  by (auto simp: rows_of_def uniform_def)

lemma rows_of_blocks: "rows_of H D xs \<Longrightarrow> uniform (H * D) (map concat xs)"
  by (auto simp: rows_of_def uniform_def length_concat_uniform)

lemma rows_of_update: "rows_of H D xs \<Longrightarrow> length r = H \<Longrightarrow> uniform D r \<Longrightarrow> rows_of H D (xs[i := r])"
  using set_update_subset_insert[of xs i r] uniform_update[of H xs r i] by (auto simp: rows_of_def)

lemma length_flat: "rows_of H D xs \<Longrightarrow> length (concat (concat xs)) = length xs * (H * D)"
  using length_concat_uniform[OF rows_of_blocks] by (simp add: concat_concat_map)

lemma nth_flat:
  "rows_of H D xs \<Longrightarrow> l < length xs \<Longrightarrow> j < H * D \<Longrightarrow> concat (concat xs) ! (l * (H * D) + j) = concat (xs ! l) ! j"
  using nth_concat_uniform[OF rows_of_blocks, of H D xs l j] by (simp add: concat_concat_map)

lemma kb_unflat_flat:
  assumes "rows_of H D ys" and "length ys = length xs"
  shows "kb_unflat P H D (Slots xs) (concat (concat ys)) = Slots ys"
proof -
  have "chunks (H * D) (length xs) (concat (concat ys)) = map concat ys"
    using chunks_concat[OF rows_of_blocks[OF assms(1)]] assms(2) by (simp add: concat_concat_map)
  moreover have "chunks D H (concat r) = r" if "r \<in> set ys" for r
    using rows_ofD[OF assms(1) that] chunks_concat[of D r] by auto
  then have "map (chunks D H) (map concat ys) = ys" by (auto intro!: map_idI)
  ultimately show ?thesis by simp
qed

section \<open>The masked kernel\<close>

lemma length_masked_program [simp]: "length (masked_program H D sB sH src pid loc m) = length m"
proof -
  have "length (fold (\<lambda>idx m. m[b + idx := h idx]) is m) = length m" for b h "is"
    by (induction "is" arbitrary: m) simp_all
  then show ?thesis unfolding masked_program_def by simp
qed

lemma nth_masked_program:
  "x < length m \<Longrightarrow> masked_program H D sB sH src pid loc m ! x =
     (if loc * H * D \<le> x \<and> x < loc * H * D + H * D
      then src ! (pid * sB + (x - loc * H * D) div D * sH + (x - loc * H * D) mod D) else m ! x)"
  unfolding masked_program_def by (rule nth_fold_block)

lemma masked_program_rows:
  assumes xs: "rows_of H D xs" and rows: "rows_of H D rows" and pid: "pid < length rows" and loc: "loc < length xs"
  shows "masked_program H D (H * D) D (concat (concat rows)) pid loc (concat (concat xs))
       = concat (concat (xs[loc := rows ! pid]))"
proof (rule nth_equalityI)
  let ?B = "H * D" and ?r = "rows ! pid"
  have r: "length ?r = H" "uniform D ?r" using rows_ofD[OF rows] pid by simp_all
  have ys: "rows_of H D (xs[loc := ?r])" by (rule rows_of_update[OF xs r])
  show "length (masked_program H D ?B D (concat (concat rows)) pid loc (concat (concat xs)))
      = length (concat (concat (xs[loc := ?r])))"
    using length_flat[OF xs] length_flat[OF ys] by simp
  fix x assume "x < length (masked_program H D ?B D (concat (concat rows)) pid loc (concat (concat xs)))"
  then have x: "x < length xs * ?B" "x < length (concat (concat xs))" using length_flat[OF xs] by simp_all
  define l j where lj: "l = x div ?B" "j = x mod ?B"
  have B: "0 < ?B" using x(1) by (cases "?B") auto
  have l: "l < length xs" "j < ?B" using x(1) B by (simp_all add: lj less_mult_imp_div_less)
  have lx: "x = l * ?B + j" unfolding lj by (rule div_mult_mod_eq[symmetric])
  have lhs: "masked_program H D ?B D (concat (concat rows)) pid loc (concat (concat xs)) ! x =
     (if loc * ?B \<le> x \<and> x < loc * ?B + ?B then concat (concat rows) ! (pid * ?B + (x - loc * ?B)) else concat (concat xs) ! x)"
  proof -
    have e: "pid * ?B + y div D * D + y mod D = pid * ?B + y" for y by (simp add: add.assoc)
    show ?thesis using nth_masked_program[OF x(2), of H D ?B D "concat (concat rows)" pid loc]
      unfolding e by (simp only: mult.assoc)
  qed
  have inb: "loc * ?B \<le> x \<and> x < loc * ?B + ?B \<longleftrightarrow> l = loc"
  proof
    assume "loc * ?B \<le> x \<and> x < loc * ?B + ?B"
    then have "x div ?B = loc" using B
      by (metis add.commute div_nat_eqI mult_Suc mult.commute)
    then show "l = loc" by (simp add: lj)
  next
    assume "l = loc"
    then show "loc * ?B \<le> x \<and> x < loc * ?B + ?B" using l lx by simp
  qed
  show "masked_program H D ?B D (concat (concat rows)) pid loc (concat (concat xs)) ! x = concat (concat (xs[loc := ?r])) ! x"
  proof (cases "l = loc")
    case True
    have "concat (concat rows) ! (pid * ?B + j) = concat ?r ! j" by (rule nth_flat[OF rows pid l(2)])
    moreover have "concat (concat (xs[loc := ?r])) ! x = concat ?r ! j"
      using nth_flat[OF ys, of l j] l lx True by simp
    moreover have "x - loc * ?B = j" using lx True by simp
    ultimately show ?thesis using lhs inb True by simp
  next
    case False
    have "concat (concat (xs[loc := ?r])) ! x = concat (concat xs) ! x"
      using nth_flat[OF ys, of l j] nth_flat[OF xs, of l j] l lx False by simp
    then show ?thesis using lhs inb False by simp
  qed
qed

text \<open>The tokens a mask selects.\<close>

definition picked :: "bool list \<Rightarrow> nat \<Rightarrow> nat list" where
  "picked msk n = filter (\<lambda>p. msk ! p) [0..<n]"

definition pick :: "bool list \<Rightarrow> 'a list \<Rightarrow> 'a list" where
  "pick msk xs = index_select xs (picked msk (length xs))"

lemma masked_kernel_rows:
  assumes rows: "rows_of H D rows"
  shows "n \<le> length rows \<Longrightarrow> \<forall>p<n. msk ! p \<longrightarrow> locs ! p < length xs \<Longrightarrow> rows_of H D xs \<Longrightarrow>
    masked_kernel H D (H * D) D (concat (concat rows)) locs msk n (concat (concat xs))
      = concat (concat (scatter xs (map (\<lambda>p. (locs ! p, rows ! p)) (picked msk n)))) \<and>
    rows_of H D (scatter xs (map (\<lambda>p. (locs ! p, rows ! p)) (picked msk n)))"
proof (induction n)
  case 0
  then show ?case by (simp add: masked_kernel_def picked_def)
next
  case (Suc n)
  let ?ys = "scatter xs (map (\<lambda>p. (locs ! p, rows ! p)) (picked msk n))"
  have IH: "masked_kernel H D (H * D) D (concat (concat rows)) locs msk n (concat (concat xs)) = concat (concat ?ys)"
    "rows_of H D ?ys" using Suc by simp_all
  have st: "masked_kernel H D (H * D) D (concat (concat rows)) locs msk (Suc n) (concat (concat xs)) =
    (if msk ! n then masked_program H D (H * D) D (concat (concat rows)) n (locs ! n) (concat (concat ?ys)) else concat (concat ?ys))"
    using IH(1) by (simp add: masked_kernel_def)
  have app: "scatter xs (map (\<lambda>p. (locs ! p, rows ! p)) (picked msk (Suc n))) = (if msk ! n then ?ys[locs ! n := rows ! n] else ?ys)"
    by (simp add: picked_def scatter_def)
  show ?case
  proof (cases "msk ! n")
    case True
    have n: "n < length rows" "locs ! n < length ?ys" using Suc.prems True by auto
    have "length (rows ! n) = H" "uniform D (rows ! n)" using rows_ofD[OF rows] n(1) by simp_all
    then show ?thesis using st app True masked_program_rows[OF IH(2) rows n] rows_of_update[OF IH(2)] by simp
  next
    case False
    then show ?thesis using st app IH(2) by simp
  qed
qed

lemma masked_store_rows:
  assumes "rows_of H D rows" and "rows_of H D xs" and "\<forall>p<length rows. msk ! p \<longrightarrow> locs ! p < length xs"
  shows "masked_store P H D D rows locs msk (length rows) (Slots xs)
       = Slots (scatter xs (map (\<lambda>p. (locs ! p, rows ! p)) (picked msk (length rows))))"
proof -
  note m = masked_kernel_rows[OF assms(1) order_refl assms(3,2)]
  show ?thesis unfolding masked_store_def kb_flat.simps using m
    by (simp only: kb_unflat_flat[OF conjunct2[OF m] length_scatter])
qed

text \<open>A pool in token slots whose buffers have heads of the given widths.\<close>

definition slots_of :: "nat \<Rightarrow> nat \<Rightarrow> nat \<Rightarrow> 'e kbuf \<Rightarrow> bool" where
  "slots_of n H D b \<longleftrightarrow> (case b of Slots xs \<Rightarrow> length xs = n \<and> rows_of H D xs | Pages _ \<Rightarrow> False)"

lemma slots_ofE:
  assumes "slots_of n H D b"
  obtains xs where "b = Slots xs" "length xs = n" "rows_of H D xs"
  using assms by (cases b) (auto simp: slots_of_def)

lemma masked_store_written:
  assumes b: "slots_of n H D b" and rows: "rows_of H D rows" and len: "length locs = length rows"
    and l: "\<forall>x\<in>set (pick msk locs). x < n"
  shows "row_stored (kb_rows P b) (pick msk locs) (pick msk rows) (kb_rows P (masked_store P H D D rows locs msk (length rows) b))"
proof -
  obtain xs where xs: "b = Slots xs" "length xs = n" "rows_of H D xs" using b by (rule slots_ofE)
  have in_range: "\<forall>p<length rows. msk ! p \<longrightarrow> locs ! p < length xs"
    using l len xs(2) by (auto simp: pick_def picked_def index_select_def)
  have z: "zip (pick msk locs) (pick msk rows) = map (\<lambda>p. (locs ! p, rows ! p)) (picked msk (length rows))"
    using len by (simp add: pick_def index_select_def zip_map_map zip_same_conv_map)
  have "length (pick msk rows) = length (pick msk locs)" using len by (simp add: pick_def)
  then have "row_stored xs (pick msk locs) (pick msk rows) (scatter xs (zip (pick msk locs) (pick msk rows)))"
    by (rule scatter_stored) (use l xs(2) in simp)
  then show ?thesis using masked_store_rows[OF rows xs(3) in_range] z xs(1) by simp
qed

text \<open>
  Under a token mask the store writes exactly the tokens of the mask, provided keys and values
  have heads of one width and the pool is laid out in token slots.
\<close>

theorem masked_store_writes_picked:
  assumes q: "p_quant p = None" and hnd: "\<not> g_use_hnd (p_geom p)"
    and l: "resolve_layer ov layer = Inr l" "local_layer p l = Inr i"
    and c: "converted ops (p_geom p) b ks vs = Inr (seen, b')"
    and kv: "slots_of n H D (p_k p ! i)" "slots_of n H D (p_v p ! i)" "i < length (p_v p)"
    and rows: "rows_of H D (b_k b')" "rows_of H D (b_v b')" "0 < H"
    and len: "length locs = length (b_k b')" "length (b_v b') = length (b_k b')" "locs \<noteq> []"
    and r: "\<forall>x\<in>set (pick msk locs). x < n"
  shows "\<exists>p'. set_kv_buffer f ker ops p layer (Bare locs) b ks vs ov (Some msk) = Inr (p', seen) \<and>
     layer_written i (pick msk locs) (b'\<lparr>b_k := pick msk (b_k b'), b_v := pick msk (b_v b')\<rparr>) p p'"
proof -
  have i: "i < length (p_k p)" using l(2) py_pos_less unfolding local_layer_def by blast
  have hd: "length (hd rs) = H \<and> length (hd (hd rs)) = D" if "rows_of H D rs" "rs \<noteq> []" for rs :: "'a row list"
  proof -
    have "length (hd rs) = H \<and> uniform D (hd rs)" using rows_ofD[OF that(1)] that(2) by simp
    then show ?thesis using rows(3) by (cases "hd rs") auto
  qed
  have ne: "b_k b' \<noteq> []" "b_v b' \<noteq> []" using len by auto
  let ?k = "masked_store (p_page p) H D D (b_k b') locs msk (length (b_k b')) (p_k p ! i)"
  let ?v = "masked_store (p_page p) H D D (b_v b') locs msk (length (b_v b')) (p_v p ! i)"
  have "store_batch f ker p i locs b' (Some msk) = Inr (set_layer p i ?k ?v)"
    using hd[OF rows(1) ne(1)] hd[OF rows(2) ne(2)] len by (simp add: store_batch_def Let_def)
  moreover have "layer_written i (pick msk locs) (b'\<lparr>b_k := pick msk (b_k b'), b_v := pick msk (b_v b')\<rparr>) p (set_layer p i ?k ?v)"
    using masked_store_written[OF kv(1) rows(1) len(1) r] masked_store_written[OF kv(2) rows(2) _ r] len i kv(3)
    by (simp add: layer_written_def set_layer_def)
  ultimately show ?thesis using set_kv_plain[OF q l c] by simp
qed

theorem masked_store_writes_picked_witness:
  "\<exists>p'. set_kv_buffer \<lparr>f_gpu = True, f_cpu_amx = False\<rparr> ref_kernels int_ops (small_pool False) (Some 3) (Bare [3, 0])
     small_batch (Some (HostScale 2)) None None (Some [False, True]) = Inr (p', small_batch\<lparr>b_k := [[[4], [3]], [[2], [1]]]\<rparr>) \<and>
     layer_written 0 [0] \<lparr>b_dtype = Uint8, b_k = [[[102], [101]]], b_v = [[[105], [107]]]\<rparr> (small_pool False) p'"
proof -
  have g: "p_geom (small_pool False) = small_geom False" by (simp add: small_pool_def Let_def)
  have pk: "pick [False, True] [3::nat, 0] = [0]" "pick [False, True] [[[104], [103]], [[102::int], [101]]] = [[[102], [101]]]"
    "pick [False, True] [[[101::int], [103]], [[105], [107]]] = [[[105], [107]]]" by code_simp+
  have f: "p_quant (small_pool False) = None" "\<not> g_use_hnd (p_geom (small_pool False))" "resolve_layer None (Some 3) = Inr 3"
    "local_layer (small_pool False) 3 = Inr 0" "slots_of 4 2 1 (p_k (small_pool False) ! 0)"
    "slots_of 4 2 1 (p_v (small_pool False) ! 0)" "0 < length (p_v (small_pool False))"
    by (simp_all add: resolve_layer_def local_layer_def py_pos_def small_pool_def small_geom_def slots_of_def rows_of_def Let_def)
  show ?thesis
    using masked_store_writes_picked[OF f(1-4) small_converted[of False, folded g] f(5-7), of "[3, 0]" "[False, True]"
        "\<lparr>f_gpu = True, f_cpu_amx = False\<rparr>" ref_kernels]
    by (simp add: rows_of_def pk)
qed

text \<open>
  C40: With narrower value heads the masked store loses values. In an unquantised pool whose slot rows
  are \<open>D\<close> wide for keys and \<open>W\<close> for values, a selected token is stored at slot \<open>loc\<close> with
  \<open>(loc + 1) * W \<le> loc * D\<close>: the store succeeds and the key is at its slot, but the value's slot keeps
  what it held, because the value is addressed with the width of a key row.
\<close>

theorem masked_store_loses_narrow_value:
  assumes q: "p_quant p = None" and l: "resolve_layer ov layer = Inr l" "local_layer p l = Inr i"
    and c: "converted ops (p_geom p) b ks vs = Inr (seen, b')"
    and kv: "slots_of n H D (p_k p ! i)" "slots_of n H W (p_v p ! i)" "i < length (p_v p)"
    and one: "b_k b' = [kr]" "b_v b' = [vr]" "rows_of H D [kr]" "rows_of H W [vr]" "0 < H"
    and narrow: "(loc + 1) * W \<le> loc * D" "loc < n"
  shows "\<exists>p'. set_kv_buffer f ker ops p layer (Bare [loc]) b ks vs ov (Some [True]) = Inr (p', seen) \<and>
     kb_row (p_page p) (p_k p' ! i) loc = kr \<and> kb_row (p_page p) (p_v p' ! i) loc = kb_row (p_page p) (p_v p ! i) loc"
proof -
  have i: "i < length (p_k p)" using l(2) py_pos_less unfolding local_layer_def by blast
  obtain xs where xs: "p_k p ! i = Slots xs" "length xs = n" "rows_of H D xs" using kv(1) by (rule slots_ofE)
  obtain ys where ys: "p_v p ! i = Slots ys" "length ys = n" "rows_of H W ys" using kv(2) by (rule slots_ofE)
  have hd: "length kr = H" "length (hd kr) = D" "length (hd vr) = W"
    using one by (cases kr; cases vr; auto simp: rows_of_def)+
  let ?m = "masked_kernel H D (H * W) W (concat vr) [loc] [True] 1 (concat (concat ys))"
  let ?k = "Slots (xs[loc := kr])" and ?v = "kb_unflat (p_page p) H W (Slots ys) ?m"
  have k: "masked_store (p_page p) H D D [kr] [loc] [True] 1 (Slots xs) = ?k"
    using masked_store_rows[OF one(3) xs(3), of "[True]" "[loc]" "p_page p"] narrow(2) xs(2) by (simp add: picked_def)
  have "store_batch f ker p i [loc] b' (Some [True]) = Inr (set_layer p i ?k ?v)"
    using hd k one(1,2) xs(1) ys(1) by (simp add: store_batch_def masked_store_def Let_def)
  moreover have "kb_row (p_page p) ?v loc = ys ! loc"
  proof -
    let ?B = "H * W"
    have len: "length ?m = n * ?B" using length_flat[OF ys(3)] ys(2) by (simp add: masked_kernel_def)
    have below: "loc * ?B + ?B \<le> loc * H * D"
      using mult_le_mono2[OF narrow(1), of H] by (simp add: algebra_simps)
    have same: "?m ! x = concat (concat ys) ! x" if "x < loc * ?B + ?B" for x
    proof -
      have "loc * ?B + ?B \<le> n * ?B" using narrow(2) mult_le_mono1[of "loc + 1" n ?B] by simp
      then have "x < length (concat (concat ys))" using that length_flat[OF ys(3)] ys(2) by simp
      then show ?thesis using nth_masked_program[of x "concat (concat ys)" H D ?B W "concat vr" 0 loc] that below
        by (simp add: masked_kernel_def)
    qed
    have "take ?B (drop (loc * ?B) ?m) = concat (ys ! loc)"
    proof (rule nth_equalityI)
      have lc: "length (concat (ys ! loc)) = ?B"
        using rows_ofD[OF ys(3), of "ys ! loc"] narrow(2) ys(2) length_concat_uniform by fastforce
      have "loc * ?B + ?B \<le> n * ?B" using narrow(2) mult_le_mono1[of "loc + 1" n ?B] by simp
      then show tl: "length (take ?B (drop (loc * ?B) ?m)) = length (concat (ys ! loc))" using len lc by simp
      fix x assume "x < length (take ?B (drop (loc * ?B) ?m))"
      then have x: "x < ?B" using tl lc by simp
      then show "take ?B (drop (loc * ?B) ?m) ! x = concat (ys ! loc) ! x"
        using same[of "loc * ?B + x"] nth_flat[OF ys(3), of loc x] narrow(2) ys(2) len \<open>loc * ?B + ?B \<le> n * ?B\<close> by simp
    qed
    moreover have "chunks W H (concat (ys ! loc)) = ys ! loc"
      using rows_ofD[OF ys(3), of "ys ! loc"] narrow(2) ys(2) chunks_concat by fastforce
    ultimately show ?thesis using narrow(2) ys(2) by (simp add: nth_chunks)
  qed
  ultimately show ?thesis using set_kv_plain[OF q l c] ys(1) i kv(3) narrow(2) xs(2) by (simp add: set_layer_def)
qed

definition narrow_pool :: "int kv_pool" where
  "narrow_pool = (small_pool False)\<lparr>p_k := [Slots (replicate 4 [[0, 0]])], p_v := [Slots (replicate 4 [[0]])]\<rparr>"

theorem masked_store_loses_narrow_value_witness:
  "\<exists>p'. set_kv_buffer \<lparr>f_gpu = True, f_cpu_amx = False\<rparr> ref_kernels int_ops narrow_pool (Some 3) (Bare [1])
     \<lparr>b_dtype = Bfloat16, b_k = [[[1, 2]]], b_v = [[[9]]]\<rparr> None None None (Some [True]) = Inr (p', \<lparr>b_dtype = Bfloat16, b_k = [[[1, 2]]], b_v = [[[9]]]\<rparr>) \<and>
     kb_row 2 (p_k p' ! 0) 1 = [[101, 102]] \<and> kb_row 2 (p_v p' ! 0) 1 = [[0]]"
proof -
  have g: "p_geom narrow_pool = small_geom False" by (simp add: narrow_pool_def small_pool_def Let_def)
  have c: "converted int_ops (small_geom False) \<lparr>b_dtype = Bfloat16, b_k = [[[1, 2]]], b_v = [[[9]]]\<rparr> None None =
    Inr (\<lparr>b_dtype = Bfloat16, b_k = [[[1, 2]]], b_v = [[[9]]]\<rparr>, \<lparr>b_dtype = Uint8, b_k = [[[101, 102]]], b_v = [[[109]]]\<rparr>)" by code_simp
  have f: "p_quant narrow_pool = None" "resolve_layer None (Some 3) = Inr 3"
    "local_layer narrow_pool 3 = Inr 0" "slots_of 4 1 2 (p_k narrow_pool ! 0)"
    "slots_of 4 1 1 (p_v narrow_pool ! 0)" "0 < length (p_v narrow_pool)" "p_page narrow_pool = 2"
    "kb_row 2 (p_v narrow_pool ! 0) 1 = [[0]]"
    by (simp_all add: resolve_layer_def local_layer_def py_pos_def narrow_pool_def small_pool_def small_geom_def slots_of_def rows_of_def Let_def)
  show ?thesis
    using masked_store_loses_narrow_value[OF f(1-3) c[folded g] f(4-6), of "[[101, 102]]" "[[109]]" 1
        "\<lparr>f_gpu = True, f_cpu_amx = False\<rparr>" ref_kernels]
    by (simp add: rows_of_def f(7,8) del: One_nat_def)
qed

section \<open>Accepted prefixes\<close>

text \<open>The rows of a draft batch that are committed, as a batch with locations.\<close>

definition committed :: "nat \<Rightarrow> int list \<Rightarrow> 'e kv_batch \<Rightarrow> 'e kv_batch" where
  "committed T lens b = b\<lparr>b_k := accepted T lens (b_k b), b_v := accepted T lens (b_v b)\<rparr>"

definition committed_locs :: "nat \<Rightarrow> int list \<Rightarrow> nat list \<Rightarrow> nat list" where
  "committed_locs T lens locs = accepted T lens locs"

lemma filter_shift: "filter P [k..<k + n] = map (\<lambda>x. x + k) (filter (\<lambda>x. P (x + k)) [0..<n])"
proof -
  have "[k..<k + n] = map (\<lambda>x. x + k) [0..<n]" by (simp add: map_add_upt add.commute)
  then show ?thesis by (simp add: filter_map comp_def)
qed

lemma valid_idx_Cons:
  "valid_idx T (n # lens) = filter (\<lambda>x. int x < n) [0..<T] @ map (\<lambda>x. x + T) (valid_idx T lens)"
proof -
  have "filter (\<lambda>x. int (x mod T) < (n # lens) ! (x div T)) [T..<T + length lens * T] = map (\<lambda>x. x + T) (valid_idx T lens)"
  proof (cases "T = 0")
    case False
    then show ?thesis unfolding filter_shift valid_idx_def by simp
  qed (simp add: valid_idx_def)
  moreover have "[0..<length (n # lens) * T] = [0..<T] @ [T..<T + length lens * T]"
    using upt_add_eq_append[of 0 T "length lens * T"] by simp
  moreover have "filter (\<lambda>x. int (x mod T) < (n # lens) ! (x div T)) [0..<T] = filter (\<lambda>x. int x < n) [0..<T]"
    by (intro filter_cong refl) simp
  ultimately show ?thesis unfolding valid_idx_def by (simp only: filter_append)
qed

lemma filter_int_less_upt: "filter (\<lambda>x. int x < n) [0..<T] = [0..<min (nat n) T]"
proof -
  have "filter (\<lambda>x. int x < n) [0..<T] = filter (\<lambda>x. x < min (nat n) T) [0..<T]" by (rule filter_cong) auto
  also have "\<dots> = [0..<min (nat n) T]" by (rule filter_less_upt) simp
  finally show ?thesis .
qed

text \<open>The flat indices below the lengths select the accepted prefixes, row by row.\<close>

lemma select_accepted: "length xs = length lens * T \<Longrightarrow> index_select xs (valid_idx T lens) = accepted T lens xs"
proof (induction lens arbitrary: xs)
  case Nil
  then show ?case by (simp add: valid_idx_def index_select_def)
next
  case (Cons n lens)
  have l: "T \<le> length xs" "length (drop T xs) = length lens * T" using Cons.prems by simp_all
  have "map (\<lambda>x. xs ! x) [0..<min (nat n) T] = take (nat n) (take T xs)"
    using l(1) by (intro nth_equalityI) (simp_all add: min_def)
  moreover have "map (\<lambda>x. xs ! (x + T)) (valid_idx T lens) = accepted T lens (drop T xs)"
    unfolding Cons.IH[OF l(2), symmetric] using l(1) by (simp add: index_select_def add.commute)
  ultimately show ?case unfolding accepted_simps index_select_def valid_idx_Cons filter_int_less_upt map_append map_map comp_def by simp
qed


lemma committed_fits:
  assumes "batch_fits H (length lens * T) b" and l: "length locs = length lens * T"
  shows "batch_fits H (length (committed_locs T lens locs)) (committed T lens b)"
  using assms l by (auto simp: batch_fits_def committed_def committed_locs_def length_accepted dest: subsetD[OF set_accepted])

text \<open>What the callers supply: one location and one row per draft token.\<close>

definition draft_ok :: "nat \<Rightarrow> 'e kv_pool \<Rightarrow> nat nd \<Rightarrow> int nd \<Rightarrow> 'e kv_batch \<Rightarrow> bool" where
  "draft_ok H p loc2 lens b \<longleftrightarrow>
     nd_shape loc2 = [length (nd_flat lens), nd_shape loc2 ! 1] \<and> nd_shape lens = [length (nd_flat lens)] \<and>
     length (nd_flat loc2) = length (nd_flat lens) * (nd_shape loc2 ! 1) \<and>
     batch_fits H (length (nd_flat loc2)) b \<and>
     (\<forall>x\<in>set (committed_locs (nd_shape loc2 ! 1) (nd_flat lens) (nd_flat loc2)). x < g_size (p_geom p) + p_page p)"

lemma prefix_checks:
  assumes d: "draft_ok H p loc2 lens b" and l: "resolve_layer ov layer = Inr l"
    and c: "converted ops (p_geom p) b ks vs = Inr (seen, b')"
  defines "T \<equiv> nd_shape loc2 ! 1"
  shows "set_kv_buffer_prefix_valid f n ops p layer loc2 lens b ks vs ov =
     (if \<not> f_gpu f
      then if valid_idx T (nd_flat lens) = [] then Inr (p, seen)
           else map_sum id (\<lambda>(p', _). (p', seen))
             (set_kv_buffer f n ops p layer (Bare (committed_locs T (nd_flat lens) (nd_flat loc2)))
                (committed T (nd_flat lens) b') ks vs (Some l) None)
      else if v_row_dim (p_geom p) \<noteq> row_dim (p_geom p) then Inl NotImplementedError
      else res_bind (local_layer p l) (\<lambda>i.
             Inr (set_layer p i (prefix_impl n (p_geom p) (row_dim (p_geom p)) (b_dtype b') (nd_flat loc2) T (nd_flat lens) (b_k b') (p_k p ! i))
                                (prefix_impl n (p_geom p) (v_row_dim (p_geom p)) (b_dtype b') (nd_flat loc2) T (nd_flat lens) (b_v b') (p_v p ! i)), seen)))"
proof -
  obtain x where x: "cast_batch ops (g_dtype (p_geom p)) b ks vs = Inr (seen, x)"
    "b' = view_batch ops (g_store_dtype (p_geom p)) (g_dtype (p_geom p)) x" using c by (rule convertedE)
  have sh: "length (nd_shape loc2) = 2" "length (nd_shape lens) = 1" "hd (nd_shape lens) = hd (nd_shape loc2)"
    using d unfolding draft_ok_def by (metis length_Cons list.size(3) One_nat_def Suc_1 list.sel(1))+
  have len: "length (b_k b) = length (nd_flat loc2)" "length (b_v b) = length (nd_flat loc2)"
    using d by (auto simp: draft_ok_def batch_fits_def)
  have flat: "length (nd_flat loc2) = length (nd_flat lens) * T" using d by (simp add: draft_ok_def T_def)
  have len': "length (b_k b') = length (nd_flat loc2)" "length (b_v b') = length (nd_flat loc2)"
    using len converted_fits[OF c] d by (auto simp: draft_ok_def batch_fits_def)
  note sel = select_accepted[OF flat] select_accepted[OF len'(1)[unfolded flat]] select_accepted[OF len'(2)[unfolded flat]]
  show ?thesis using l x sh len sel
    by (simp add: set_kv_buffer_prefix_valid_def Let_def T_def committed_locs_def committed_def)
qed

lemma prefix_tiles_cover:
  assumes "prefix_tiles rb = (tile, warps, tiles)"
  shows "rb \<le> tiles * tile"
proof -
  have "0 < tile" "tiles = (rb + tile - 1) div tile"
    using assms by (auto simp: prefix_tiles_def Let_def split: if_splits)
  then show ?thesis using ceil_div_le by simp
qed

lemma prefix_impl_stored:
  assumes n: "prefix_kernel_ok n" and ok: "buf_ok g H b" and hnd: "\<not> g_use_hnd g"
    and len: "length locs = length lens * T" "length rows = length locs" and r: "\<forall>r\<in>set rows. length r = H"
    and l: "\<forall>x\<in>set (committed_locs T lens locs). x < g_size g + g_page_size g" and d: "0 < row_dim g"
    and wide: "\<forall>r\<in>set rows. length (concat r) = row_dim g"
  shows "buf_ok g H (prefix_impl n g (row_dim g) (g_store_dtype g) locs T lens rows b) \<and>
    row_stored (kb_rows (g_page_size g) b) (committed_locs T lens locs) (accepted T lens rows)
      (kb_rows (g_page_size g) (prefix_impl n g (row_dim g) (g_store_dtype g) locs T lens rows b))"
proof -
  obtain xs where xs: "b = Slots xs" "length xs = g_size g + g_page_size g"
    using ok hnd by (cases b) (auto simp: buf_ok_def)
  let ?rb = "row_dim g * itemsize (g_store_dtype g)"
  show ?thesis
  proof (cases "locs = []")
    case True
    then have "accepted T lens locs = []" "accepted T lens rows = []" using len(2) set_accepted[of T lens] by (metis set_empty subset_empty length_0_conv)+
    then show ?thesis using True ok by (simp add: prefix_impl_def committed_locs_def row_stored_def)
  next
    case False
    then have ne: "rows \<noteq> []" "lens \<noteq> []" using len by auto
    obtain tile warps tiles where t: "prefix_tiles ?rb = (tile, warps, tiles)" by (cases "prefix_tiles ?rb") auto
    let ?c = "\<lparr>pl_src_stride = length (concat (hd rows)) * itemsize (g_store_dtype g), pl_dst_stride = row_dim g * itemsize (g_store_dtype g),
      pl_tokens = T, pl_row_bytes = ?rb, pl_tile_bytes = tile, pl_tiles = tiles\<rparr>"
    have "hd rows \<in> set rows" using ne(1) by simp
    then have stride: "length (concat (hd rows)) = row_dim g" using wide by blast
    obtain ys where ys: "n_prefix n ?c (g_store_dtype g) (Slots xs) locs lens rows = Slots ys"
      and st: "row_stored xs (committed_locs T lens locs) (accepted T lens rows) ys"
      using prefix_kernel_okD[OF n, where c = ?c and xs = xs and dt = "g_store_dtype g", simplified prefix_launch.simps, OF len(1,2)]
        l xs(2) wide stride prefix_tiles_cover[OF t] by (auto simp: committed_locs_def)
    have h: "\<forall>r\<in>set (accepted T lens rows). length r = H"
      using r by (auto dest: subsetD[OF set_accepted])
    have sl: "length (accepted T lens rows) = length (committed_locs T lens locs)"
      using length_accepted[OF len(2)] by (simp add: committed_locs_def)
    have "prefix_impl n g (row_dim g) (g_store_dtype g) locs T lens rows b = Slots ys"
      using False ne d ys xs(1) t by (simp add: prefix_impl_def Let_def)
    then show ?thesis using st xs(1) slots_stored[OF ok[unfolded xs(1)] st sl h] by simp
  qed
qed

text \<open>
  C12: Committing a draft batch to an unquantised pool in token slots writes exactly the accepted
  prefix of each request, converted, at its locations and nothing else. On a GPU keys and values have
  rows of the same positive width (otherwise the code refuses), the rows of the draft have that
  width, and the kernel stores rows only when its launch describes them (\<open>prefix_kernel_ok\<close>), so the strides,
  the bytes of a row and the tiles that the code computes are part of what is shown. On other
  platforms the pool stores its own element type; the widths of keys and values may differ.
\<close>

theorem prefix_commit_exact:
  assumes n: "kernels_ok n" "prefix_kernel_ok n" and ok: "pool_ok H p" and q: "p_quant p = None" and hnd: "\<not> g_use_hnd (p_geom p)"
    and l: "resolve_layer ov layer = Inr l" "local_layer p l = Inr i"
    and c: "converted ops (p_geom p) b ks vs = Inr (seen, b')" and d: "draft_ok H p loc2 lens b"
    and plat: "if f_gpu f then v_row_dim (p_geom p) = row_dim (p_geom p) \<and> 0 < row_dim (p_geom p) \<and>
        (\<forall>r\<in>set (b_k b') \<union> set (b_v b'). length (concat r) = row_dim (p_geom p))
      else g_store_dtype (p_geom p) = g_dtype (p_geom p)"
  shows "\<exists>p'. set_kv_buffer_prefix_valid f n ops p layer loc2 lens b ks vs ov = Inr (p', seen) \<and>
     layer_written i (committed_locs (nd_shape loc2 ! 1) (nd_flat lens) (nd_flat loc2))
       (committed (nd_shape loc2 ! 1) (nd_flat lens) b') p p'"
proof -
  let ?T = "nd_shape loc2 ! 1" and ?g = "p_geom p"
  let ?cl = "committed_locs ?T (nd_flat lens) (nd_flat loc2)" and ?cb = "committed ?T (nd_flat lens) b'"
  have len: "length (nd_flat loc2) = length (nd_flat lens) * ?T" and r: "\<forall>x\<in>set ?cl. x < g_size ?g + p_page p"
    and fit: "batch_fits H (length (nd_flat loc2)) b'"
    using d converted_fits[OF c] by (auto simp: draft_ok_def)
  note chk = prefix_checks[OF d l(1) c, of f n]
  have i: "i < length (p_k p)" using l(2) py_pos_less unfolding local_layer_def by blast
  note po = pool_okD[OF ok i]
  have fit': "length (b_k b') = length (nd_flat loc2)" "length (b_v b') = length (nd_flat loc2)"
    "\<forall>r\<in>set (b_k b'). length r = H" "\<forall>r\<in>set (b_v b'). length r = H"
    using fit by (auto simp: batch_fits_def)
  show ?thesis
  proof (cases "f_gpu f")
    case True
    then have w: "v_row_dim ?g = row_dim ?g" "0 < row_dim ?g" "\<forall>r\<in>set (b_k b'). length (concat r) = row_dim ?g"
      "\<forall>r\<in>set (b_v b'). length (concat r) = row_dim ?g" using plat by auto
    let ?k = "prefix_impl n ?g (row_dim ?g) (g_store_dtype ?g) (nd_flat loc2) ?T (nd_flat lens) (b_k b') (p_k p ! i)"
    let ?v = "prefix_impl n ?g (row_dim ?g) (g_store_dtype ?g) (nd_flat loc2) ?T (nd_flat lens) (b_v b') (p_v p ! i)"
    have "layer_written i ?cl ?cb p (set_layer p i ?k ?v)"
      using prefix_impl_stored[OF n(2) po(1) hnd len fit'(1,3) r w(2,3)] prefix_impl_stored[OF n(2) po(2) hnd len fit'(2,4) r w(2,4)]
        i po(3) by (simp add: layer_written_def set_layer_def committed_def)
    then show ?thesis using chk True w(1) l(2) converted_dtype[OF c] by simp
  next
    case False
    then have same: "g_store_dtype ?g = g_dtype ?g" "b_dtype b' = g_dtype ?g" using plat converted_dtype[OF c] by auto
    have "b_dtype ?cb = g_dtype ?g" using same(2) by (simp add: committed_def)
    then have c2: "converted ops ?g ?cb ks vs = Inr (?cb, ?cb)" by (rule converted_same) (rule same(1))
    have f2: "batch_fits H (length (fst (unwrap_write_loc (Bare ?cl)))) ?cb"
      using committed_fits[of H "nd_flat lens" ?T b' "nd_flat loc2"] fit len by simp
    obtain p' where p': "set_kv_buffer f n ops p layer (Bare ?cl) ?cb ks vs (Some l) None = Inr (p', ?cb)"
      "layer_written i ?cl ?cb p p'"
      using set_kv_writes_rows[OF n(1) ok q _ l(2) c2 f2, of "Some l" layer f] r by (auto simp: resolve_layer_def)
    show ?thesis
    proof (cases "valid_idx ?T (nd_flat lens) = []")
      case True
      then have "?cl = []" "b_k ?cb = []" "b_v ?cb = []"
        using select_accepted[OF len] fit'(1,2) select_accepted[of "b_k b'" "nd_flat lens" ?T] select_accepted[of "b_v b'" "nd_flat lens" ?T] len True
        by (simp_all add: committed_locs_def committed_def index_select_def)
      then have "layer_written i ?cl ?cb p p" by (simp add: layer_written_def row_stored_def)
      then show ?thesis using chk False True by simp
    next
      case ne: False
      then show ?thesis using chk False p' by simp
    qed
  qed
qed

definition plain_pool :: "int kv_pool" where
  "plain_pool = (small_pool False)\<lparr>p_geom := (small_geom False)\<lparr>g_dtype := Bfloat16, g_store_dtype := Bfloat16\<rparr>\<rparr>"

definition draft_batch :: "int kv_batch" where
  "draft_batch = \<lparr>b_dtype = Bfloat16, b_k = [[[1], [2]], [[3], [4]], [[5], [6]], [[7], [8]]],
     b_v = [[[11], [12]], [[13], [14]], [[15], [16]], [[17], [18]]]\<rparr>"

lemma plain_pool_facts:
  "p_quant plain_pool = None" "\<not> g_use_hnd (p_geom plain_pool)" "resolve_layer None (Some 3) = Inr 3"
  "local_layer plain_pool 3 = Inr 0" "pool_ok 2 plain_pool" "v_row_dim (p_geom plain_pool) = row_dim (p_geom plain_pool)"
  "0 < row_dim (p_geom plain_pool)" "g_store_dtype (p_geom plain_pool) = g_dtype (p_geom plain_pool)"
  "b_dtype draft_batch = g_dtype (p_geom plain_pool)"
  using small_pool_ok[of False]
  by (simp_all add: plain_pool_def small_pool_def small_geom_def draft_batch_def resolve_layer_def local_layer_def py_pos_def
    row_dim_def v_row_dim_def pool_ok_def buf_ok_def Let_def)

theorem prefix_commit_exact_witness:
  "\<forall>gpu. \<exists>p'. set_kv_buffer_prefix_valid \<lparr>f_gpu = gpu, f_cpu_amx = False\<rparr> ref_kernels int_ops plain_pool (Some 3)
     (ND [2, 2] [2, 1, 3, 0]) (ND [2] [1, 2]) draft_batch None None None = Inr (p', draft_batch) \<and>
   layer_written 0 [2, 3, 0] (draft_batch\<lparr>b_k := [[[1], [2]], [[5], [6]], [[7], [8]]],
     b_v := [[[11], [12]], [[15], [16]], [[17], [18]]]\<rparr>) plain_pool p'"
proof
  fix gpu
  have cl: "committed_locs (nd_shape (ND [2, 2] [2, 1, 3, 0::nat]) ! 1) (nd_flat (ND [2] [1, 2])) (nd_flat (ND [2, 2] [2, 1, 3, 0])) = [2, 3, 0]"
    by code_simp
  have cb: "committed (nd_shape (ND [2, 2] [2, 1, 3, 0::nat]) ! 1) (nd_flat (ND [2] [1, 2])) draft_batch = draft_batch\<lparr>b_k := [[[1], [2]], [[5], [6]], [[7], [8]]],
     b_v := [[[11], [12]], [[15], [16]], [[17], [18]]]\<rparr>" unfolding draft_batch_def by code_simp
  have d: "draft_ok 2 plain_pool (ND [2, 2] [2, 1, 3, 0]) (ND [2] [1, 2]) draft_batch"
    unfolding draft_ok_def cl
    by (simp add: draft_batch_def batch_fits_def plain_pool_def small_pool_def small_geom_def Let_def)
  note f = plain_pool_facts
  note c = converted_same[OF f(9,8), of int_ops None None]
  have w: "\<forall>r\<in>set (b_k draft_batch) \<union> set (b_v draft_batch). length (concat r) = row_dim (p_geom plain_pool)"
    by (simp add: draft_batch_def plain_pool_def small_pool_def small_geom_def row_dim_def Let_def)
  show "\<exists>p'. set_kv_buffer_prefix_valid \<lparr>f_gpu = gpu, f_cpu_amx = False\<rparr> ref_kernels int_ops plain_pool (Some 3)
     (ND [2, 2] [2, 1, 3, 0]) (ND [2] [1, 2]) draft_batch None None None = Inr (p', draft_batch) \<and>
   layer_written 0 [2, 3, 0] (draft_batch\<lparr>b_k := [[[1], [2]], [[5], [6]], [[7], [8]]],
     b_v := [[[11], [12]], [[15], [16]], [[17], [18]]]\<rparr>) plain_pool p'"
    using prefix_commit_exact[OF ref_kernels_ok ref_prefix_ok f(5,1,2,3,4) c d, of "\<lparr>f_gpu = gpu, f_cpu_amx = False\<rparr>"] f(6,7,8) w
    unfolding cl cb by simp
qed

text \<open>
  Off the GPU, a pool of 8-bit floats cannot commit a scaled draft batch: the batch is converted
  to bytes and handed to the store, which takes it for unconverted and divides it again. As soon as
  one token is accepted the commit raises, while the plain store of the same rows succeeds.
\<close>

theorem prefix_commit_converts_twice:
  assumes q: "p_quant p = None" and l: "resolve_layer ov layer = Inr l" and fp8: "g_store_dtype (p_geom p) = Uint8" "g_dtype (p_geom p) \<noteq> Uint8"
    and c: "converted ops (p_geom p) b (Some s) vs = Inr (seen, b')" and d: "draft_ok H p loc2 lens b"
    and some: "valid_idx (nd_shape loc2 ! 1) (nd_flat lens) \<noteq> []" and plat: "\<not> f_gpu f"
  shows "set_kv_buffer_prefix_valid f n ops p layer loc2 lens b (Some s) vs ov = Inl RuntimeError"
proof -
  have "b_dtype b' = Uint8" using c fp8
    by (elim convertedE) (simp add: view_batch_def)
  then have "cast_batch ops (g_dtype (p_geom p)) (committed T ls b') (Some s) vs = Inl RuntimeError" for T ls
    using fp8 by (simp add: cast_batch_def div_rows_def committed_def)
  then have "set_kv_buffer f n ops p layer li (committed T ls b') (Some s) vs (Some l) None = Inl RuntimeError" for li T ls
    using q by (simp add: set_kv_buffer_def resolve_layer_def Let_def)
  then show ?thesis using prefix_checks[OF d l c, of f n] some plat by simp
qed

theorem prefix_commit_converts_twice_witness:
  "set_kv_buffer_prefix_valid \<lparr>f_gpu = False, f_cpu_amx = False\<rparr> ref_kernels int_ops (small_pool False) (Some 3)
     (ND [1, 2] [3, 0]) (ND [1] [1]) small_batch (Some (HostScale 2)) None None = Inl RuntimeError"
proof -
  have g: "p_geom (small_pool False) = small_geom False" by (simp add: small_pool_def Let_def)
  have cl: "committed_locs (nd_shape (ND [1, 2] [3, 0::nat]) ! 1) (nd_flat (ND [1] [1])) (nd_flat (ND [1, 2] [3, 0])) = [3]"
    by code_simp
  have d: "draft_ok 2 (small_pool False) (ND [1, 2] [3, 0]) (ND [1] [1]) small_batch"
    unfolding draft_ok_def cl
    by (simp add: small_batch_def batch_fits_def small_pool_def small_geom_def Let_def)
  have some: "valid_idx (nd_shape (ND [1, 2] [3, 0::nat]) ! 1) (nd_flat (ND [1] [1])) \<noteq> []" by code_simp
  show ?thesis
    by (rule prefix_commit_converts_twice[OF _ _ _ _ small_converted[of False, folded g] d some])
      (simp_all add: small_pool_def small_geom_def resolve_layer_def Let_def)
qed

end
