(* ===== verification/Kv_Workspace.thy ===== *)
theory Kv_Workspace
  imports Kv_Store
begin

text \<open>
  Reading a quantised key/value pool (\<^verbatim>\<open>MHATokenToKVPool\<close> of \<^verbatim>\<open>runtime-src/memory_pool.py\<close>): the check
  of the workspaces at construction, the raw buffers, and the shared workspace into which cached
  tokens are dequantised before attention, for an extend batch (page-aligned regions per request,
  cached prefix first, current chunk behind it) and for a decode batch (in place of the slots).

  The dequantisation of rows is an argument; the properties need that it works row by row.
\<close>

section \<open>Construction\<close>

record 'w workspaces =
  s_dtype :: "dtype option"
  s_dq_k :: "(dtype \<times> 'w list) option"
  s_dq_v :: "(dtype \<times> 'w list) option"

definition check_workspaces :: "'w workspaces \<Rightarrow> unit result" where
  "check_workspaces s =
     (let hk = s_dq_k s \<noteq> None; hv = s_dq_v s \<noteq> None in
      if hk \<noteq> hv then Inl RuntimeError
      else case s_dtype s of
        None \<Rightarrow> if hk then Inl RuntimeError else Inr ()
      | Some d \<Rightarrow>
          if \<not> hk then Inl RuntimeError
          else if fst (the (s_dq_k s)) \<noteq> d \<or> fst (the (s_dq_v s)) \<noteq> d then Inl RuntimeError
          else Inr ())"

definition get_dequant_workspace :: "'w workspaces \<Rightarrow> ('w list \<times> 'w list) result" where
  "get_dequant_workspace s =
     (case (s_dq_k s, s_dq_v s) of (Some (_, k), Some (_, v)) \<Rightarrow> Inr (k, v) | _ \<Rightarrow> Inl RuntimeError)"

text \<open>The packed rows of a layer and the views of its block scales.\<close>

definition get_raw_kv_buffer ::
  "(dtype option) \<Rightarrow> ('e \<Rightarrow> 'e) \<Rightarrow> 'e kv_pool \<Rightarrow> int \<Rightarrow> ('e kbuf \<times> 'e kbuf \<times> 'e kbuf \<times> 'e kbuf) result" where
  "get_raw_kv_buffer view_dt view p layer_id =
     (case (p_ks p, p_vs p) of
        (Some ks, Some vs) \<Rightarrow>
          (let viewed = (\<lambda>b. case view_dt of None \<Rightarrow> b | Some _ \<Rightarrow>
                 (case b of Slots xs \<Rightarrow> Slots (map_rows view xs) | Pages ps \<Rightarrow> Pages (map (map (map (map view))) ps))) in
           res_bind (local_layer p layer_id) (\<lambda>i. Inr (p_k p ! i, p_v p ! i, viewed (ks ! i), viewed (vs ! i))))
      | _ \<Rightarrow> Inl RuntimeError)"

section \<open>Assigning a slice\<close>

text \<open>\<open>dst[a:b] = src\<close>: the slice is clamped, one row is broadcast, other lengths must match.\<close>

definition slice_put :: "'w list \<Rightarrow> nat \<Rightarrow> nat \<Rightarrow> 'w list \<Rightarrow> 'w list result" where
  "slice_put dst a b src =
     (let lo = min a (length dst); hi = max lo (min b (length dst)) in
      map_sum id (\<lambda>rs. take lo dst @ rs @ drop hi dst) (spread (hi - lo) src))"

lemma slice_put_fits:
  "a + length src \<le> length dst \<Longrightarrow>
   slice_put dst a (a + length src) src = Inr (take a dst @ src @ drop (a + length src) dst)"
  by (simp add: slice_put_def spread_def Let_def)

section \<open>The extend workspace\<close>

record ext_req =
  r_idx :: nat
  r_prev :: nat
  r_ext :: nat

type_synonym ('e, 'w) dequant = "'e row list \<Rightarrow> 'e row list \<Rightarrow> 'e row list \<Rightarrow> 'e row list \<Rightarrow> nat \<Rightarrow> 'w list \<times> 'w list"

text \<open>The rows of the cached prefix, \<open>buf[req_to_token[req_idx, :prev_len]]\<close>.\<close>

definition prefix_slots :: "nat list list \<Rightarrow> nat \<Rightarrow> nat \<Rightarrow> nat list result" where
  "prefix_slots rtt req n = (if req < length rtt then Inr (take n (rtt ! req)) else Inl IndexError)"

definition dequant_slots ::
  "('e, 'w) dequant \<Rightarrow> nat \<Rightarrow> nat \<Rightarrow> 'e kbuf \<times> 'e kbuf \<times> 'e kbuf \<times> 'e kbuf \<Rightarrow> nat list \<Rightarrow> ('w list \<times> 'w list) result"
where
  "dequant_slots deq P layer raw idx =
     (case raw of (k, v, ks, vs) \<Rightarrow>
        res_bind (kb_take P k idx) (\<lambda>kr. res_bind (kb_take P ks idx) (\<lambda>ksr.
        res_bind (kb_take P v idx) (\<lambda>vr. res_bind (kb_take P vs idx) (\<lambda>vsr.
          Inr (deq kr ksr vr vsr layer))))))"

definition align_up :: "nat \<Rightarrow> nat \<Rightarrow> nat" where
  "align_up page n = (n + page - 1) div page * page"

definition put_prefix ::
  "('e, 'w) dequant \<Rightarrow> nat \<Rightarrow> nat \<Rightarrow> 'e kbuf \<times> 'e kbuf \<times> 'e kbuf \<times> 'e kbuf \<Rightarrow> nat list list \<Rightarrow> ext_req \<Rightarrow> nat \<Rightarrow>
   'w list \<times> 'w list \<Rightarrow> ('w list \<times> 'w list) result"
where
  "put_prefix deq P layer raw rtt r s w =
     (if 0 < r_prev r
      then res_bind (prefix_slots rtt (r_idx r) (r_prev r)) (\<lambda>idx.
           res_bind (dequant_slots deq P layer raw idx) (\<lambda>(pk, pv).
           res_bind (slice_put (fst w) s (s + r_prev r) pk) (\<lambda>k.
           res_bind (slice_put (snd w) s (s + r_prev r) pv) (\<lambda>v. Inr (k, v)))))
      else Inr w)"

definition put_current ::
  "'w list option \<times> 'w list option \<Rightarrow> ext_req \<Rightarrow> nat \<Rightarrow> nat \<Rightarrow> 'w list \<times> 'w list \<Rightarrow> ('w list \<times> 'w list) result" where
  "put_current cur r s c w =
     (case fst cur of
        None \<Rightarrow> Inr w
      | Some ck \<Rightarrow>
          res_bind (slice_put (fst w) (s + r_prev r) (s + r_prev r + r_ext r) (slice ck (c, c + r_ext r))) (\<lambda>k.
          case snd cur of
            None \<Rightarrow> Inl TypeError
          | Some cv \<Rightarrow> res_bind (slice_put (snd w) (s + r_prev r) (s + r_prev r + r_ext r) (slice cv (c, c + r_ext r)))
                        (\<lambda>v. Inr (k, v))))"

definition used_len :: "'w list option \<times> 'w list option \<Rightarrow> ext_req \<Rightarrow> nat" where
  "used_len cur r = r_prev r + (if fst cur = None then 0 else r_ext r)"

text \<open>The loop over the requests; \<open>s\<close> is \<open>cur_token_idx_dq\<close> and \<open>c\<close> is \<open>cur_batch_start_loc_cpu\<close>.\<close>

fun extend_loop ::
  "('e, 'w) dequant \<Rightarrow> nat \<Rightarrow> nat \<Rightarrow> 'e kbuf \<times> 'e kbuf \<times> 'e kbuf \<times> 'e kbuf \<Rightarrow> nat list list \<Rightarrow>
   'w list option \<times> 'w list option \<Rightarrow> nat \<Rightarrow> ext_req list \<Rightarrow> nat \<Rightarrow> nat \<Rightarrow> 'w list \<times> 'w list \<Rightarrow> ('w list \<times> 'w list) result"
where
  "extend_loop deq P layer raw rtt cur page [] s c w = Inr w"
| "extend_loop deq P layer raw rtt cur page (r # rs) s c w =
     res_bind (put_prefix deq P layer raw rtt r s w) (\<lambda>w1.
     res_bind (put_current cur r s c w1) (\<lambda>w2.
       extend_loop deq P layer raw rtt cur page rs (align_up page (s + used_len cur r))
         (if fst cur = None then c else c + r_ext r) w2))"

definition prepare_dequant_extend_workspace ::
  "(dtype option) \<Rightarrow> ('e \<Rightarrow> 'e) \<Rightarrow> ('e, 'w) dequant \<Rightarrow> 'e kv_pool \<Rightarrow> 'w workspaces \<Rightarrow> int \<Rightarrow> nat \<Rightarrow> nat list list \<Rightarrow>
   ext_req list \<Rightarrow> nat \<Rightarrow> 'w list option \<times> 'w list option \<Rightarrow> ('w list \<times> 'w list) result"
where
  "prepare_dequant_extend_workspace view_dt view deq p s layer_id global rtt reqs page cur =
     res_bind (get_raw_kv_buffer view_dt view p layer_id) (\<lambda>raw.
     res_bind (get_dequant_workspace s) (\<lambda>w.
       extend_loop deq (p_page p) global raw rtt cur page reqs page 0 w))"

text \<open>
  The view for attention: nothing is prepared when the caller asks for none, and the current chunk
  travels through the workspace only without ragged attention.
\<close>

definition get_flashinfer_dequant_workspace ::
  "(dtype option) \<Rightarrow> ('e \<Rightarrow> 'e) \<Rightarrow> ('e, 'w) dequant \<Rightarrow> ('c \<Rightarrow> 'w) \<Rightarrow> 'e kv_pool \<Rightarrow> 'w workspaces \<Rightarrow> int \<Rightarrow> int option \<Rightarrow>
   nat list list \<Rightarrow> ext_req list \<Rightarrow> nat \<Rightarrow> bool \<Rightarrow> bool \<Rightarrow> 'c list option \<Rightarrow> 'c list option \<Rightarrow> ('w list \<times> 'w list) result"
where
  "get_flashinfer_dequant_workspace view_dt view deq to_fp8 p s layer override rtt reqs page prepare ragged k_cur v_cur =
     (if p_quant p = None then Inl RuntimeError
      else if prepare
      then prepare_dequant_extend_workspace view_dt view deq p s (case override of Some l \<Rightarrow> l | None \<Rightarrow> layer) (nat layer) rtt reqs page
             (if ragged then (None, None) else (map_option (map to_fp8) k_cur, map_option (map to_fp8) v_cur))
      else get_dequant_workspace s)"

section \<open>The decode workspace\<close>

definition decode_step ::
  "('e, 'w) dequant \<Rightarrow> nat \<Rightarrow> nat \<Rightarrow> 'e kbuf \<times> 'e kbuf \<times> 'e kbuf \<times> 'e kbuf \<Rightarrow> nat list list \<Rightarrow>
   'w list \<times> 'w list \<Rightarrow> nat \<times> int \<Rightarrow> ('w list \<times> 'w list) result"
where
  "decode_step deq P layer raw rtt w rl =
     (if snd rl \<le> 0 then Inr w
      else res_bind (prefix_slots rtt (fst rl) (nat (snd rl))) (\<lambda>idx.
           res_bind (dequant_slots deq P layer raw idx) (\<lambda>(pk, pv).
             if (\<exists>l\<in>set idx. length (fst w) \<le> l) \<or> (\<exists>l\<in>set idx. length (snd w) \<le> l) then Inl IndexError
             else Inr (scatter (fst w) (zip idx pk), scatter (snd w) (zip idx pv)))))"

definition prepare_dequant_decode_workspace ::
  "(dtype option) \<Rightarrow> ('e \<Rightarrow> 'e) \<Rightarrow> ('e, 'w) dequant \<Rightarrow> 'e kv_pool \<Rightarrow> 'w workspaces \<Rightarrow> int \<Rightarrow> nat \<Rightarrow> nat list list \<Rightarrow>
   nat list \<Rightarrow> int list \<Rightarrow> ('w list \<times> 'w list) result"
where
  "prepare_dequant_decode_workspace view_dt view deq p s layer_id global rtt reqs lens =
     res_bind (get_raw_kv_buffer view_dt view p layer_id) (\<lambda>raw.
     res_bind (get_dequant_workspace s) (\<lambda>w.
       res_fold (decode_step deq (p_page p) global raw rtt) w (zip reqs lens)))"

section \<open>What the workspace holds\<close>

lemma check_workspaces_get:
  "check_workspaces s = Inr () \<Longrightarrow> is_ok (get_dequant_workspace s) \<longleftrightarrow> s_dtype s \<noteq> None"
  unfolding check_workspaces_def get_dequant_workspace_def Let_def
  by (auto split: option.splits if_splits prod.splits)

text \<open>Dequantisation works row by row, with one function for keys and one for values.\<close>

definition rowwise :: "('e, 'w) dequant \<Rightarrow> (nat \<Rightarrow> 'e row \<Rightarrow> 'e row \<Rightarrow> 'w) \<Rightarrow> (nat \<Rightarrow> 'e row \<Rightarrow> 'e row \<Rightarrow> 'w) \<Rightarrow> bool" where
  "rowwise deq dk dv \<longleftrightarrow> (\<forall>kr ksr vr vsr layer. deq kr ksr vr vsr layer = (map2 (dk layer) kr ksr, map2 (dv layer) vr vsr))"

definition slot_k :: "(nat \<Rightarrow> 'e row \<Rightarrow> 'e row \<Rightarrow> 'w) \<Rightarrow> nat \<Rightarrow> nat \<Rightarrow> 'e kbuf \<times> 'e kbuf \<times> 'e kbuf \<times> 'e kbuf \<Rightarrow> nat \<Rightarrow> 'w" where
  "slot_k dk P layer raw l = (case raw of (k, v, ks, vs) \<Rightarrow> dk layer (kb_row P k l) (kb_row P ks l))"

definition slot_v :: "(nat \<Rightarrow> 'e row \<Rightarrow> 'e row \<Rightarrow> 'w) \<Rightarrow> nat \<Rightarrow> nat \<Rightarrow> 'e kbuf \<times> 'e kbuf \<times> 'e kbuf \<times> 'e kbuf \<Rightarrow> nat \<Rightarrow> 'w" where
  "slot_v dv P layer raw l = (case raw of (k, v, ks, vs) \<Rightarrow> dv layer (kb_row P v l) (kb_row P vs l))"

definition raw_len :: "nat \<Rightarrow> nat \<Rightarrow> 'e kbuf \<times> 'e kbuf \<times> 'e kbuf \<times> 'e kbuf \<Rightarrow> bool" where
  "raw_len P n raw \<longleftrightarrow> (case raw of (k, v, ks, vs) \<Rightarrow> kb_len P k = n \<and> kb_len P v = n \<and> kb_len P ks = n \<and> kb_len P vs = n)"

lemma dequant_slots_rows:
  assumes "rowwise deq dk dv" and "raw_len P n raw" and "\<forall>l\<in>set idx. l < n"
  shows "dequant_slots deq P layer raw idx = Inr (map (slot_k dk P layer raw) idx, map (slot_v dv P layer raw) idx)"
proof -
  obtain k v ks vs where raw: "raw = (k, v, ks, vs)" by (cases raw)
  have tk: "kb_take P b idx = Inr (map (kb_row P b) idx)" if "kb_len P b = n" for b :: "'a kbuf"
    using assms(3) that by (force simp: kb_take_def)
  have z: "map2 f (map g idx) (map h idx) = map (\<lambda>l. f (g l) (h l)) idx" for f :: "'a row \<Rightarrow> 'a row \<Rightarrow> 'b" and g h
    by (simp add: zip_map_map zip_same_conv_map)
  show ?thesis using assms(1,2) raw tk
    by (simp add: dequant_slots_def raw_len_def rowwise_def z slot_k_def slot_v_def comp_def)
qed

text \<open>
  The regions of the requests from position \<open>s\<close> on: page-aligned, the cached prefix dequantised,
  then the current tokens.
\<close>

fun placed :: "nat \<Rightarrow> (ext_req \<Rightarrow> 'w list) \<Rightarrow> 'w list option \<Rightarrow> ext_req list \<Rightarrow> nat \<Rightarrow> nat \<Rightarrow> 'w list \<Rightarrow> bool" where
  "placed page pre cur [] s c w \<longleftrightarrow> True"
| "placed page pre cur (r # rs) s c w \<longleftrightarrow> page dvd s \<and> take (r_prev r) (drop s w) = pre r \<and>
     (case cur of
        None \<Rightarrow> placed page pre cur rs (align_up page (s + r_prev r)) c w
      | Some x \<Rightarrow> take (r_ext r) (drop (s + r_prev r) w) = take (r_ext r) (drop c x) \<and>
          placed page pre cur rs (align_up page (s + r_prev r + r_ext r)) (c + r_ext r) w)"

text \<open>The workspace has room: the position behind the last region.\<close>

fun ws_end :: "nat \<Rightarrow> bool \<Rightarrow> ext_req list \<Rightarrow> nat \<Rightarrow> nat" where
  "ws_end page has_cur [] s = s"
| "ws_end page has_cur (r # rs) s = ws_end page has_cur rs (align_up page (s + r_prev r + (if has_cur then r_ext r else 0)))"

lemma align_up_ge: "0 < page \<Longrightarrow> n \<le> align_up page n"
  unfolding align_up_def by (rule ceil_div_le)

lemma align_up_dvd [simp]: "page dvd align_up page n"
  by (simp add: align_up_def)

lemma ws_end_ge: "0 < page \<Longrightarrow> s \<le> ws_end page b rs s"
proof (induction rs arbitrary: s)
  case Nil
  then show ?case by simp
next
  case (Cons r rs)
  have "s + r_prev r + (if b then r_ext r else 0) \<le> align_up page (s + r_prev r + (if b then r_ext r else 0))"
    by (rule align_up_ge[OF Cons.prems])
  then show ?case using Cons.IH[OF Cons.prems, of "align_up page (s + r_prev r + (if b then r_ext r else 0))"]
    by (simp only: ws_end.simps)
qed

text \<open>Regions that lie below a position survive what is written from there on.\<close>

lemma take_drop_agree:
  assumes "take n w' = take n w" and "a + k \<le> n"
  shows "take k (drop a w') = take k (drop a w)"
proof -
  have "take k (drop a w') = take k (drop a (take n w'))" using assms(2) by (simp add: drop_take min_def)
  also have "\<dots> = take k (drop a (take n w))" using assms(1) by simp
  also have "\<dots> = take k (drop a w)" using assms(2) by (simp add: drop_take min_def)
  finally show ?thesis .
qed

text \<open>One region written into the two workspaces.\<close>

definition region :: "nat \<Rightarrow> 'w list \<Rightarrow> 'w list \<Rightarrow> 'w list \<Rightarrow> bool" where
  "region s rows w w' \<longleftrightarrow> length w' = length w \<and> take s w' = take s w \<and> take (length rows) (drop s w') = rows"

lemma slice_put_region:
  assumes "s + length rows \<le> length w"
  obtains w' where "slice_put w s (s + length rows) rows = Inr w'" "region s rows w w'"
  using slice_put_fits[OF assms] assms that[of "take s w @ rows @ drop (s + length rows) w"] by (simp add: region_def)

lemma region_append:
  assumes "region s xs w w1" and "region (s + length xs) ys w1 w2"
  shows "region s (xs @ ys) w w2"
proof -
  have a: "take s w2 = take s w1"
    using assms(2) take_drop_agree[of "s + length xs" w2 w1 0 s] by (simp add: region_def)
  have b: "take (length xs) (drop s w2) = xs"
    using assms take_drop_agree[of "s + length xs" w2 w1 s "length xs"] by (simp add: region_def)
  have "take (length (xs @ ys)) (drop s w2) = xs @ ys"
    using b assms(2) by (simp add: region_def take_add add.commute)
  then show ?thesis using a assms by (simp add: region_def)
qed

text \<open>Requests whose cached slots exist.\<close>

definition req_ok :: "nat \<Rightarrow> nat list list \<Rightarrow> ext_req \<Rightarrow> bool" where
  "req_ok n rtt r \<longleftrightarrow> (0 < r_prev r \<longrightarrow> r_idx r < length rtt \<and> r_prev r \<le> length (rtt ! r_idx r) \<and>
     (\<forall>l\<in>set (take (r_prev r) (rtt ! r_idx r)). l < n))"

definition cached :: "(nat \<Rightarrow> 'w) \<Rightarrow> nat list list \<Rightarrow> ext_req \<Rightarrow> 'w list" where
  "cached h rtt r = map h (take (r_prev r) (rtt ! r_idx r))"

lemma length_cached: "req_ok n rtt r \<Longrightarrow> length (cached h rtt r) = r_prev r"
  by (cases "r_prev r = 0") (auto simp: req_ok_def cached_def)

lemma put_prefix_region:
  assumes rw: "rowwise deq dk dv" and raw: "raw_len P n raw" and r: "req_ok n rtt r"
    and room: "s + r_prev r \<le> length (fst w)" "s + r_prev r \<le> length (snd w)"
  obtains w' where "put_prefix deq P layer raw rtt r s w = Inr w'"
    "region s (cached (slot_k dk P layer raw) rtt r) (fst w) (fst w')"
    "region s (cached (slot_v dv P layer raw) rtt r) (snd w) (snd w')"
proof (cases "0 < r_prev r")
  case False
  then show ?thesis using that[of w] by (simp add: put_prefix_def region_def cached_def)
next
  case True
  let ?idx = "take (r_prev r) (rtt ! r_idx r)"
  let ?k = "cached (slot_k dk P layer raw) rtt r" and ?v = "cached (slot_v dv P layer raw) rtt r"
  have idx: "prefix_slots rtt (r_idx r) (r_prev r) = Inr ?idx" "\<forall>l\<in>set ?idx. l < n"
    using r True by (simp_all add: req_ok_def prefix_slots_def)
  have dq: "dequant_slots deq P layer raw ?idx = Inr (?k, ?v)"
    using dequant_slots_rows[OF rw raw idx(2)] by (simp add: cached_def)
  have len: "length ?k = r_prev r" "length ?v = r_prev r" using length_cached[OF r] by blast+
  obtain k where k: "slice_put (fst w) s (s + length ?k) ?k = Inr k" "region s ?k (fst w) k"
    by (rule slice_put_region[of s ?k "fst w"]) (use room(1) len in simp)
  obtain v where v: "slice_put (snd w) s (s + length ?v) ?v = Inr v" "region s ?v (snd w) v"
    by (rule slice_put_region[of s ?v "snd w"]) (use room(2) len in simp)
  have "put_prefix deq P layer raw rtt r s w = Inr (k, v)"
    using True idx(1) dq k(1) v(1) by (simp add: put_prefix_def len)
  then show ?thesis using that[of "(k, v)"] k(2) v(2) by simp
qed

text \<open>The current chunk: both tensors or none.\<close>

definition cur_ok :: "'w list option \<times> 'w list option \<Rightarrow> nat \<Rightarrow> bool" where
  "cur_ok cur m \<longleftrightarrow> (case cur of (None, None) \<Rightarrow> True | (Some k, Some v) \<Rightarrow> m \<le> length k \<and> m \<le> length v | _ \<Rightarrow> False)"

definition cur_rows :: "'w list option \<Rightarrow> ext_req \<Rightarrow> nat \<Rightarrow> 'w list" where
  "cur_rows x r c = (case x of None \<Rightarrow> [] | Some ys \<Rightarrow> take (r_ext r) (drop c ys))"

lemma put_current_region:
  assumes cur: "cur_ok cur (c + r_ext r)"
    and room: "s + used_len cur r \<le> length (fst w)" "s + used_len cur r \<le> length (snd w)"
  obtains w' where "put_current cur r s c w = Inr w'"
    "region (s + r_prev r) (cur_rows (fst cur) r c) (fst w) (fst w')"
    "region (s + r_prev r) (cur_rows (snd cur) r c) (snd w) (snd w')"
proof (cases "fst cur")
  case None
  then have "snd cur = None" using cur by (cases cur) (auto simp: cur_ok_def split: option.splits)
  then show ?thesis using None that[of w] by (simp add: put_current_def region_def cur_rows_def)
next
  case (Some ck)
  then obtain cv where cv: "snd cur = Some cv" and len: "c + r_ext r \<le> length ck" "c + r_ext r \<le> length cv"
    using cur by (cases cur) (auto simp: cur_ok_def split: option.splits)
  let ?k = "take (r_ext r) (drop c ck)" and ?v = "take (r_ext r) (drop c cv)" and ?s = "s + r_prev r"
  have l: "length ?k = r_ext r" "length ?v = r_ext r" using len by simp_all
  have room': "?s + r_ext r \<le> length (fst w)" "?s + r_ext r \<le> length (snd w)" using room Some by (simp_all add: used_len_def)
  obtain k where k: "slice_put (fst w) ?s (?s + length ?k) ?k = Inr k" "region ?s ?k (fst w) k"
    by (rule slice_put_region[of ?s ?k "fst w"]) (use room'(1) l in simp)
  obtain v where v: "slice_put (snd w) ?s (?s + length ?v) ?v = Inr v" "region ?s ?v (snd w) v"
    by (rule slice_put_region[of ?s ?v "snd w"]) (use room'(2) l in simp)
  have "put_current cur r s c w = Inr (k, v)"
    using Some cv k(1) v(1) unfolding l by (simp add: put_current_def slice_def)
  then show ?thesis using that[of "(k, v)"] k(2) v(2) Some cv by (simp add: cur_rows_def)
qed

lemma placed_step:
  assumes reg: "region s (pre r @ cur_rows x r c) w0 w2" and lens: "length (pre r) = r_prev r"
      "length (cur_rows x r c) = (if x = None then 0 else r_ext r)"
    and al: "page dvd s" "0 < page" and keep: "take s' w3 = take s' w2"
    and s': "s' = align_up page (s + r_prev r + (if x = None then 0 else r_ext r))"
    and rest: "placed page pre x rs s' (if x = None then c else c + r_ext r) w3"
  shows "placed page pre x (r # rs) s c w3"
proof -
  have le: "s + r_prev r + (if x = None then 0 else r_ext r) \<le> s'" unfolding s' by (rule align_up_ge[OF al(2)])
  have row: "take (length (pre r @ cur_rows x r c)) (drop s w3) = pre r @ cur_rows x r c"
    using reg take_drop_agree[OF keep, of s "length (pre r @ cur_rows x r c)"] le lens by (simp add: region_def)
  have p: "take (r_prev r) (drop s w3) = pre r"
    using arg_cong[OF row, of "take (r_prev r)"] lens by simp
  have e: "take (length (cur_rows x r c)) (drop (s + r_prev r) w3) = cur_rows x r c"
    using arg_cong[OF row, of "drop (r_prev r)"] lens by (simp add: drop_take add.commute)
  show ?thesis
  proof (cases x)
    case None
    then show ?thesis using al(1) p rest s' by simp
  next
    case (Some ys)
    then show ?thesis using al(1) p e lens(2) rest s' by (simp add: cur_rows_def add.assoc)
  qed
qed

lemma extend_loop_placed:
  assumes rw: "rowwise deq dk dv" and raw: "raw_len P n raw" and page: "0 < page"
  shows "\<forall>r\<in>set rs. req_ok n rtt r \<Longrightarrow> page dvd s \<Longrightarrow> cur_ok cur (c + sum_list (map r_ext rs)) \<Longrightarrow>
    ws_end page (fst cur \<noteq> None) rs s \<le> length (fst w) \<Longrightarrow> ws_end page (fst cur \<noteq> None) rs s \<le> length (snd w) \<Longrightarrow>
    \<exists>w'. extend_loop deq P layer raw rtt cur page rs s c w = Inr w' \<and>
      placed page (cached (slot_k dk P layer raw) rtt) (fst cur) rs s c (fst w') \<and> take s (fst w') = take s (fst w) \<and>
      placed page (cached (slot_v dv P layer raw) rtt) (snd cur) rs s c (snd w') \<and> take s (snd w') = take s (snd w)"
proof (induction rs arbitrary: s c w)
  case Nil
  then show ?case by simp
next
  case (Cons r rs)
  let ?b = "fst cur \<noteq> None"
  let ?s' = "align_up page (s + used_len cur r)" and ?c' = "if fst cur = None then c else c + r_ext r"
  let ?pk = "cached (slot_k dk P layer raw) rtt" and ?pv = "cached (slot_v dv P layer raw) rtt"
  have r: "req_ok n rtt r" and used: "used_len cur r = r_prev r + (if ?b then r_ext r else 0)"
    using Cons.prems(1) by (simp_all add: used_len_def)
  have both: "fst cur = None \<longleftrightarrow> snd cur = None" using Cons.prems(3) by (auto simp: cur_ok_def split: prod.splits option.splits)
  have we: "ws_end page ?b (r # rs) s = ws_end page ?b rs ?s'" unfolding used by (simp add: add.assoc)
  have "s + used_len cur r \<le> ws_end page ?b rs ?s'"
    using align_up_ge[OF page, of "s + used_len cur r"] ws_end_ge[OF page, of ?s' ?b rs] by linarith
  then have room: "s + used_len cur r \<le> length (fst w)" "s + used_len cur r \<le> length (snd w)"
    using Cons.prems(4,5) unfolding we by linarith+
  have room1: "s + r_prev r \<le> length (fst w)" "s + r_prev r \<le> length (snd w)" using room used by linarith+
  have cur: "cur_ok cur (c + r_ext r)" using Cons.prems(3) by (auto simp: cur_ok_def split: prod.splits option.splits)
  obtain w1 where w1: "put_prefix deq P layer raw rtt r s w = Inr w1" "region s (?pk r) (fst w) (fst w1)" "region s (?pv r) (snd w) (snd w1)"
    by (rule put_prefix_region[OF rw raw r room1])
  have room2: "s + used_len cur r \<le> length (fst w1)" "s + used_len cur r \<le> length (snd w1)"
    using room w1(2,3) by (simp_all add: region_def)
  obtain w2 where w2: "put_current cur r s c w1 = Inr w2" "region (s + r_prev r) (cur_rows (fst cur) r c) (fst w1) (fst w2)"
    "region (s + r_prev r) (cur_rows (snd cur) r c) (snd w1) (snd w2)"
    by (rule put_current_region[OF cur room2])
  have lp: "length (?pk r) = r_prev r" "length (?pv r) = r_prev r" using length_cached[OF r] by blast+
  have regk: "region s (?pk r @ cur_rows (fst cur) r c) (fst w) (fst w2)"
    by (rule region_append[OF w1(2)]) (use w2(2) lp in simp)
  have regv: "region s (?pv r @ cur_rows (snd cur) r c) (snd w) (snd w2)"
    by (rule region_append[OF w1(3)]) (use w2(3) lp in simp)
  have len2: "length (fst w2) = length (fst w)" "length (snd w2) = length (snd w)" using regk regv by (simp_all add: region_def)
  have cr: "length (cur_rows (fst cur) r c) = (if fst cur = None then 0 else r_ext r)"
    "length (cur_rows (snd cur) r c) = (if snd cur = None then 0 else r_ext r)"
    using cur by (auto simp: cur_ok_def cur_rows_def split: prod.splits option.splits)
  have IH: "\<exists>w'. extend_loop deq P layer raw rtt cur page rs ?s' ?c' w2 = Inr w' \<and>
      placed page ?pk (fst cur) rs ?s' ?c' (fst w') \<and> take ?s' (fst w') = take ?s' (fst w2) \<and>
      placed page ?pv (snd cur) rs ?s' ?c' (snd w') \<and> take ?s' (snd w') = take ?s' (snd w2)"
  proof (rule Cons.IH)
    show "\<forall>r\<in>set rs. req_ok n rtt r" "page dvd ?s'" using Cons.prems(1) by simp_all
    show "cur_ok cur (?c' + sum_list (map r_ext rs))"
      using Cons.prems(3) by (auto simp: cur_ok_def add.assoc split: prod.splits option.splits)
    show "ws_end page ?b rs ?s' \<le> length (fst w2)" "ws_end page ?b rs ?s' \<le> length (snd w2)"
      using Cons.prems(4,5) len2 unfolding we by simp_all
  qed
  then obtain w' where w': "extend_loop deq P layer raw rtt cur page rs ?s' ?c' w2 = Inr w'"
    and pk: "placed page ?pk (fst cur) rs ?s' ?c' (fst w')" "take ?s' (fst w') = take ?s' (fst w2)"
    and pv: "placed page ?pv (snd cur) rs ?s' ?c' (snd w')" "take ?s' (snd w') = take ?s' (snd w2)" by blast
  have s'eq: "?s' = align_up page (s + r_prev r + (if fst cur = None then 0 else r_ext r))"
    "?s' = align_up page (s + r_prev r + (if snd cur = None then 0 else r_ext r))"
    using both by (simp_all add: used_len_def add.assoc)
  have "placed page ?pk (fst cur) (r # rs) s c (fst w')"
    by (rule placed_step[OF regk lp(1) cr(1) Cons.prems(2) page pk(2) s'eq(1) pk(1)])
  moreover have "placed page ?pv (snd cur) (r # rs) s c (snd w')"
    by (rule placed_step[where pre = ?pv and x = "snd cur", OF regv lp(2) cr(2) Cons.prems(2) page pv(2) s'eq(2)]) (use pv(1) both in simp)
  moreover have "s \<le> ?s'" using align_up_ge[OF page, of "s + used_len cur r"] by linarith
  then have "take s (fst w') = take s (fst w)" "take s (snd w') = take s (snd w)"
    using take_drop_agree[OF pk(2), of 0 s] take_drop_agree[OF pv(2), of 0 s] regk regv by (simp_all add: region_def)
  ultimately show ?case using w1(1) w2(1) w' by auto
qed

text \<open>
  C13: For every extend batch that fits, the shared workspace holds, per request and from
  page-aligned positions on, the dequantised cached prefix followed by the current tokens; regions
  do not overlap and the first page is left alone.
\<close>

theorem extend_workspace_layout:
  assumes rw: "rowwise deq dk dv" and raw: "get_raw_kv_buffer vd view p l = Inr raw" "raw_len (p_page p) n raw"
    and ws: "get_dequant_workspace s = Inr w" and page: "0 < page"
    and reqs: "\<forall>r\<in>set rs. req_ok n rtt r" and cur: "cur_ok cur (sum_list (map r_ext rs))"
    and room: "ws_end page (fst cur \<noteq> None) rs page \<le> length (fst w)" "ws_end page (fst cur \<noteq> None) rs page \<le> length (snd w)"
  shows "\<exists>k v. prepare_dequant_extend_workspace vd view deq p s l g rtt rs page cur = Inr (k, v) \<and>
     placed page (cached (slot_k dk (p_page p) g raw) rtt) (fst cur) rs page 0 k \<and> take page k = take page (fst w) \<and>
     placed page (cached (slot_v dv (p_page p) g raw) rtt) (snd cur) rs page 0 v \<and> take page v = take page (snd w)"
proof -
  have "\<exists>w'. extend_loop deq (p_page p) g raw rtt cur page rs page 0 w = Inr w' \<and>
      placed page (cached (slot_k dk (p_page p) g raw) rtt) (fst cur) rs page 0 (fst w') \<and> take page (fst w') = take page (fst w) \<and>
      placed page (cached (slot_v dv (p_page p) g raw) rtt) (snd cur) rs page 0 (snd w') \<and> take page (snd w') = take page (snd w)"
    by (rule extend_loop_placed[OF rw raw(2) page reqs]) (use cur room in simp_all)
  then show ?thesis using raw(1) ws by (auto simp: prepare_dequant_extend_workspace_def)
qed

definition ex_quant_pool :: "int kv_pool" where
  "ex_quant_pool = (small_pool False)\<lparr>p_k := [Slots [[[0]], [[1]], [[2]], [[3]]]], p_v := [Slots [[[4]], [[5]], [[6]], [[7]]]],
     p_ks := Some [Slots [[[10]], [[11]], [[12]], [[13]]]], p_vs := Some [Slots [[[20]], [[21]], [[22]], [[23]]]]\<rparr>"

definition ex_deq1 :: "nat \<Rightarrow> int row \<Rightarrow> int row \<Rightarrow> int" where
  "ex_deq1 layer x sc = hd (hd x) * hd (hd sc)"

definition ex_deq :: "(int, int) dequant" where
  "ex_deq kr ksr vr vsr layer = (map2 (ex_deq1 layer) kr ksr, map2 (ex_deq1 layer) vr vsr)"

definition ex_ws :: "int workspaces" where
  "ex_ws = \<lparr>s_dtype = Some Float8_e4m3fn, s_dq_k = Some (Float8_e4m3fn, replicate 8 (- 1)), s_dq_v = Some (Float8_e4m3fn, replicate 8 (- 1))\<rparr>"

definition ex_raw :: "int kbuf \<times> int kbuf \<times> int kbuf \<times> int kbuf" where
  "ex_raw = (Slots [[[0]], [[1]], [[2]], [[3]]], Slots [[[4]], [[5]], [[6]], [[7]]],
     Slots [[[10]], [[11]], [[12]], [[13]]], Slots [[[20]], [[21]], [[22]], [[23]]])"

lemma ex_workspace_facts:
  "rowwise ex_deq ex_deq1 ex_deq1" "get_raw_kv_buffer None id ex_quant_pool 3 = Inr ex_raw" "raw_len (p_page ex_quant_pool) 4 ex_raw"
  "get_dequant_workspace ex_ws = Inr (replicate 8 (- 1), replicate 8 (- 1))" "p_page ex_quant_pool = 2"
  by (simp_all add: rowwise_def ex_deq_def get_raw_kv_buffer_def ex_quant_pool_def small_pool_def small_geom_def local_layer_def
    ex_raw_def raw_len_def get_dequant_workspace_def ex_ws_def py_pos_def Let_def)

theorem extend_workspace_layout_witness:
  "\<exists>k v. prepare_dequant_extend_workspace None id ex_deq ex_quant_pool ex_ws 3 0 [[3, 1, 2], [2]]
       [\<lparr>r_idx = 0, r_prev = 2, r_ext = 1\<rparr>, \<lparr>r_idx = 1, r_prev = 0, r_ext = 2\<rparr>] 2 (Some [7, 8, 9], Some [4, 5, 6]) = Inr (k, v) \<and>
     k = [-1, -1, 39, 11, 7, -1, 8, 9] \<and> take 2 v = [-1, -1]"
proof -
  let ?rs = "[\<lparr>r_idx = 0, r_prev = 2, r_ext = 1\<rparr>, \<lparr>r_idx = 1, r_prev = 0, r_ext = 2\<rparr>]"
  note f = ex_workspace_facts
  have r: "\<forall>r\<in>set ?rs. req_ok 4 [[3, 1, 2], [2]] r" by (simp add: req_ok_def numeral_2_eq_2)
  have c: "cur_ok (Some [7, 8, 9 :: int], Some [4, 5, 6]) (sum_list (map r_ext ?rs))" by (simp add: cur_ok_def)
  have e: "ws_end 2 True ?rs 2 = 8" by code_simp
  obtain k v where kv: "prepare_dequant_extend_workspace None id ex_deq ex_quant_pool ex_ws 3 0 [[3, 1, 2], [2]] ?rs 2
      (Some [7, 8, 9], Some [4, 5, 6]) = Inr (k, v)" "take 2 v = [-1, -1]"
    using extend_workspace_layout[OF f(1-4) _ r c, of 2 0] e by (auto simp: numeral_2_eq_2)
  have "prepare_dequant_extend_workspace None id ex_deq ex_quant_pool ex_ws 3 0 [[3, 1, 2], [2]] ?rs 2
      (Some [7, 8, 9], Some [4, 5, 6]) = Inr ([-1, -1, 39, 11, 7, -1, 8, 9], [-1, -1, 161, 105, 4, -1, 5, 6])" by code_simp
  then show ?thesis using kv by auto
qed

text \<open>The slots that a decode batch reads.\<close>

definition decode_slots :: "nat list list \<Rightarrow> (nat \<times> int) list \<Rightarrow> nat set" where
  "decode_slots rtt rls = (\<Union>(r, n)\<in>set rls. set (take (nat n) (rtt ! r)))"

definition overlaid :: "nat set \<Rightarrow> (nat \<Rightarrow> 'w) \<Rightarrow> 'w list \<Rightarrow> 'w list \<Rightarrow> bool" where
  "overlaid A h w w' \<longleftrightarrow> length w' = length w \<and> (\<forall>j<length w. w' ! j = (if j \<in> A then h j else w ! j))"

lemma nth_scatter_map: "j < length w \<Longrightarrow> scatter w (zip idx (map h idx)) ! j = (if j \<in> set idx then h j else w ! j)"
proof (induction idx arbitrary: w)
  case Nil
  then show ?case by simp
next
  case (Cons i idx)
  then show ?case by (simp add: nth_list_update)
qed

lemma overlaid_scatter: "overlaid (set idx) h w (scatter w (zip idx (map h idx)))"
  by (simp add: overlaid_def nth_scatter_map)

lemma overlaid_trans: "overlaid A h w w1 \<Longrightarrow> overlaid B h w1 w2 \<Longrightarrow> overlaid (A \<union> B) h w w2"
  by (auto simp: overlaid_def)

lemma overlaid_refl: "overlaid {} h w w"
  by (simp add: overlaid_def)

text \<open>
  The decode workspace holds, at every slot that some request of the batch has cached, the
  dequantised content of that very slot, and what it held before elsewhere.
\<close>

theorem decode_workspace_in_place:
  assumes rw: "rowwise deq dk dv" and raw: "get_raw_kv_buffer vd view p l = Inr raw" "raw_len (p_page p) n raw"
    and ws: "get_dequant_workspace s = Inr w" "n \<le> length (fst w)" "n \<le> length (snd w)"
    and reqs: "\<forall>(r, m)\<in>set (zip rs lens). 0 < m \<longrightarrow> r < length rtt" "\<forall>x\<in>decode_slots rtt (zip rs lens). x < n"
  shows "\<exists>k v. prepare_dequant_decode_workspace vd view deq p s l g rtt rs lens = Inr (k, v) \<and>
     overlaid (decode_slots rtt (zip rs lens)) (slot_k dk (p_page p) g raw) (fst w) k \<and>
     overlaid (decode_slots rtt (zip rs lens)) (slot_v dv (p_page p) g raw) (snd w) v"
proof -
  let ?K = "slot_k dk (p_page p) g raw" and ?V = "slot_v dv (p_page p) g raw"
  have "\<exists>w'. res_fold (decode_step deq (p_page p) g raw rtt) w0 rls = Inr w' \<and>
      overlaid (decode_slots rtt rls) ?K (fst w0) (fst w') \<and> overlaid (decode_slots rtt rls) ?V (snd w0) (snd w')"
    if "\<forall>(r, m)\<in>set rls. 0 < m \<longrightarrow> r < length rtt" "\<forall>x\<in>decode_slots rtt rls. x < n" "n \<le> length (fst w0)" "n \<le> length (snd w0)" for rls w0
    using that
  proof (induction rls arbitrary: w0)
    case Nil
    then show ?case by (simp add: decode_slots_def overlaid_refl)
  next
    case (Cons rl rls)
    obtain r m where rl: "rl = (r, m)" by (cases rl)
    let ?idx = "take (nat m) (rtt ! r)"
    have ds: "decode_slots rtt (rl # rls) = set ?idx \<union> decode_slots rtt rls" using rl by (simp add: decode_slots_def)
    have rest: "\<forall>(r, m)\<in>set rls. 0 < m \<longrightarrow> r < length rtt" "\<forall>x\<in>decode_slots rtt rls. x < n" "\<forall>x\<in>set ?idx. x < n"
      using Cons.prems(1,2) ds by auto
    have "\<exists>w1. decode_step deq (p_page p) g raw rtt w0 rl = Inr w1 \<and> overlaid (set ?idx) ?K (fst w0) (fst w1) \<and> overlaid (set ?idx) ?V (snd w0) (snd w1)"
    proof (cases "m \<le> 0")
      case True
      then show ?thesis using rl by (simp add: decode_step_def overlaid_refl)
    next
      case False
      then have "prefix_slots rtt r (nat m) = Inr ?idx" using Cons.prems(1) rl by (simp add: prefix_slots_def)
      moreover have "dequant_slots deq (p_page p) g raw ?idx = Inr (map ?K ?idx, map ?V ?idx)"
        by (rule dequant_slots_rows[OF rw raw(2) rest(3)])
      moreover have "\<not> ((\<exists>l\<in>set ?idx. length (fst w0) \<le> l) \<or> (\<exists>l\<in>set ?idx. length (snd w0) \<le> l))"
        using rest(3) Cons.prems(3,4) by force
      ultimately show ?thesis using False rl by (simp add: decode_step_def overlaid_scatter del: take_map)
    qed
    then obtain w1 where w1: "decode_step deq (p_page p) g raw rtt w0 rl = Inr w1"
      "overlaid (set ?idx) ?K (fst w0) (fst w1)" "overlaid (set ?idx) ?V (snd w0) (snd w1)" by blast
    have "n \<le> length (fst w1)" "n \<le> length (snd w1)" using w1(2,3) Cons.prems(3,4) by (simp_all add: overlaid_def)
    from Cons.IH[OF rest(1,2) this] obtain w' where "res_fold (decode_step deq (p_page p) g raw rtt) w1 rls = Inr w'"
      "overlaid (decode_slots rtt rls) ?K (fst w1) (fst w')" "overlaid (decode_slots rtt rls) ?V (snd w1) (snd w')" by blast
    then show ?case using w1 overlaid_trans unfolding ds by fastforce
  qed
  from this[OF reqs ws(2,3)] show ?thesis
    using raw(1) ws(1) by (auto simp: prepare_dequant_decode_workspace_def)
qed

theorem decode_workspace_in_place_witness:
  "\<exists>k v. prepare_dequant_decode_workspace None id ex_deq ex_quant_pool ex_ws 3 0 [[3, 1, 2], [2]] [0, 1] [2, 0] = Inr (k, v) \<and>
     overlaid {3, 1} (slot_k ex_deq1 2 0 ex_raw) (replicate 8 (- 1)) k \<and> overlaid {3, 1} (slot_v ex_deq1 2 0 ex_raw) (replicate 8 (- 1)) v"
proof -
  note f = ex_workspace_facts
  have d: "decode_slots [[3, 1, 2], [2]] (zip [0, 1] [2, 0]) = {3, 1}" by (auto simp: decode_slots_def numeral_2_eq_2)
  show ?thesis
    using decode_workspace_in_place[OF f(1-4), of "[0, 1]" "[2, 0]" "[[3, 1, 2], [2]]" 0] d f(5) by simp
qed

end
