(* ===== verification/Kv_Move.thy ===== *)
theory Kv_Move
  imports Kv_Store
begin

text \<open>
  Moving rows inside the key/value pool and copying them to the host and back: the kernel that
  works in chunks against the simultaneous move, and the round trip through the host.
\<close>

section \<open>Chunks of a list\<close>

lemma slice_range: "slice xs (i * cap, min (i * cap + cap) (length xs)) = take cap (drop (i * cap) xs)"
  by (cases "i * cap + cap \<le> length xs") (auto simp: slice_def min_def)

lemma take_next: "take (Suc m * cap) xs = take (m * cap) xs @ take cap (drop (m * cap) xs)"
  by (simp add: take_add[symmetric] add.commute)

lemma ranges_cover: "0 < cap \<Longrightarrow> (n::nat) \<le> (n + cap - 1) div cap * cap"
  by (rule ceil_div_le)

lemma fold_upt_induct:
  assumes "Q 0 s" and "\<And>m s. m < k \<Longrightarrow> Q m s \<Longrightarrow> Q (Suc m) (h m s)"
  shows "Q k (fold h [0..<k] s)"
proof -
  have "m \<le> k \<Longrightarrow> Q m (fold h [0..<m] s)" for m
    by (induction m) (use assms in auto)
  then show ?thesis by simp
qed

lemma res_fold_append: "res_fold f s (xs @ ys) = res_bind (res_fold f s xs) (\<lambda>s'. res_fold f s' ys)"
proof (induction xs arbitrary: s)
  case Nil
  then show ?case by simp
next
  case (Cons x xs)
  then show ?case by (cases "f s x") simp_all
qed

lemma res_fold_upt_induct:
  assumes "Q 0 s" and "\<And>m s. m < k \<Longrightarrow> Q m s \<Longrightarrow> \<exists>s'. h s m = Inr s' \<and> Q (Suc m) s'"
  shows "\<exists>t. res_fold h s [0..<k] = Inr t \<and> Q k t"
proof -
  have "m \<le> k \<Longrightarrow> \<exists>t. res_fold h s [0..<m] = Inr t \<and> Q m t" for m
  proof (induction m)
    case 0
    then show ?case using assms(1) by simp
  next
    case (Suc m)
    then obtain t where "res_fold h s [0..<m] = Inr t" "Q m t" by auto
    then show ?case using assms(2)[of m t] Suc.prems by (auto simp: res_fold_append)
  qed
  then show ?thesis by simp
qed

lemma scatter_append: "scatter (scatter xs a) b = scatter xs (a @ b)"
  by (simp add: scatter_def)

text \<open>A simultaneous move of rows: all sources are read before a target is written.\<close>

definition moved_rows :: "nat list \<Rightarrow> nat list \<Rightarrow> 'a list \<Rightarrow> 'a list" where
  "moved_rows tgt src xs = scatter xs (zip tgt (index_select xs src))"

definition moved_prefix :: "nat \<Rightarrow> nat list \<Rightarrow> nat list \<Rightarrow> 'a list \<Rightarrow> 'a list" where
  "moved_prefix k tgt src xs = scatter xs (zip (take k tgt) (index_select xs (take k src)))"

lemma moved_prefix_0 [simp]: "moved_prefix 0 tgt src xs = xs"
  by (simp add: moved_prefix_def)

lemma moved_prefix_all: "length tgt \<le> k \<Longrightarrow> length src \<le> k \<Longrightarrow> moved_prefix k tgt src xs = moved_rows tgt src xs"
  by (simp add: moved_prefix_def moved_rows_def)

lemma length_moved_prefix [simp]: "length (moved_prefix k tgt src xs) = length xs"
  by (simp add: moved_prefix_def)

text \<open>No chunk reads what an earlier chunk wrote.\<close>

definition no_hazard :: "nat \<Rightarrow> nat list \<Rightarrow> nat list \<Rightarrow> bool" where
  "no_hazard cap tgt src \<longleftrightarrow> (\<forall>i<length tgt. \<forall>j<length src. i div cap < j div cap \<longrightarrow> tgt ! i \<noteq> src ! j)"

lemma moved_prefix_step:
  assumes cap: "0 < cap" and len: "length tgt = length src" and h: "no_hazard cap tgt src"
    and l: "\<forall>l\<in>set src. l < length xs"
  shows "moved_rows (take cap (drop (m * cap) tgt)) (take cap (drop (m * cap) src)) (moved_prefix (m * cap) tgt src xs)
       = moved_prefix (Suc m * cap) tgt src xs"
proof -
  let ?t = "take cap (drop (m * cap) tgt)" and ?s = "take cap (drop (m * cap) src)" and ?ys = "moved_prefix (m * cap) tgt src xs"
  have same: "?ys ! (?s ! q) = xs ! (?s ! q)" if q: "q < length ?s" for q
  proof -
    let ?j = "m * cap + q"
    have q': "q < length src - m * cap" "q < cap" using q by simp_all
    then have j: "?j < length src" "q < cap" by linarith+
    then have sq: "?s ! q = src ! ?j" by (simp add: nth_drop)
    have jd: "?j div cap = m" using j(2) by (simp add: div_nat_eqI)
    have "tgt ! i \<noteq> src ! ?j" if "i < length (take (m * cap) tgt)" for i
    proof -
      have i: "i < m * cap" "i < length tgt" using that by simp_all
      then have "i div cap < m" using cap by (simp add: less_mult_imp_div_less)
      then show ?thesis using h i(2) j(1) jd unfolding no_hazard_def by auto
    qed
    then have "src ! ?j \<notin> set (take (m * cap) tgt)" by (auto simp: in_set_conv_nth)
    then have "src ! ?j \<notin> fst ` set (zip (take (m * cap) tgt) (index_select xs (take (m * cap) src)))"
      by (auto dest: set_zip_leftD)
    then show ?thesis using sq by (simp add: moved_prefix_def nth_scatter_notin)
  qed
  have sel: "index_select ?ys ?s = index_select xs ?s" by (rule nth_equalityI) (use same in auto)
  have z: "zip (take (m * cap) tgt) (index_select xs (take (m * cap) src)) @ zip ?t (index_select xs ?s)
      = zip (take (Suc m * cap) tgt) (index_select xs (take (Suc m * cap) src))"
    using len by (simp only: take_next) (simp add: index_select_def)
  show ?thesis unfolding moved_rows_def sel unfolding moved_prefix_def scatter_append z by (rule refl)
qed

section \<open>The chunked kernel\<close>

definition slots_len :: "nat \<Rightarrow> 'e kbuf \<Rightarrow> bool" where
  "slots_len n b \<longleftrightarrow> (case b of Slots xs \<Rightarrow> length xs = n | Pages _ \<Rightarrow> False)"

text \<open>A token-slot buffer after the move.\<close>

definition buf_moved :: "nat list \<Rightarrow> nat list \<Rightarrow> 'e kbuf \<Rightarrow> 'e kbuf" where
  "buf_moved tgt src b = (case b of Slots xs \<Rightarrow> Slots (moved_rows tgt src xs) | Pages ps \<Rightarrow> Pages ps)"

definition pool_moved :: "nat list \<Rightarrow> nat list \<Rightarrow> 'e kv_pool \<Rightarrow> 'e kv_pool" where
  "pool_moved tgt src p = p\<lparr>p_k := map (buf_moved tgt src) (p_k p), p_v := map (buf_moved tgt src) (p_v p),
      p_ks := map_option (map (buf_moved tgt src)) (p_ks p), p_vs := map_option (map (buf_moved tgt src)) (p_vs p)\<rparr>"

definition all_bufs :: "'e kv_pool \<Rightarrow> 'e kbuf list" where
  "all_bufs p = p_k p @ p_v p @ (case p_ks p of None \<Rightarrow> [] | Some xs \<Rightarrow> xs) @ (case p_vs p of None \<Rightarrow> [] | Some xs \<Rightarrow> xs)"

lemma all_bufs_subset: "set (p_k p) \<subseteq> set (all_bufs p)" "set (p_v p) \<subseteq> set (all_bufs p)"
  by (auto simp: all_bufs_def)

lemma kernel_copy:
  assumes n: "kernels_ok n" and d: "distinct tgt" and len: "length tgt = length src"
    and l: "\<forall>l\<in>set tgt \<union> set src. l < length xs"
  shows "n_copy n tgt src (Slots xs) = Slots (moved_rows tgt src xs)"
proof -
  obtain ys where ys: "n_copy n tgt src (Slots xs) = Slots ys" "row_stored xs tgt (index_select xs src) ys"
    using kernels_okD(3)[OF n len l] by blast
  have "ys = scatter xs (zip tgt (index_select xs src))"
  proof (rule nth_equalityI)
    show "length ys = length (scatter xs (zip tgt (index_select xs src)))" using row_storedD(1)[OF ys(2)] by simp
    fix j assume "j < length ys"
    then have j: "j < length xs" using row_storedD(1)[OF ys(2)] by simp
    show "ys ! j = scatter xs (zip tgt (index_select xs src)) ! j"
    proof (cases "j \<in> set tgt")
      case True
      then obtain p where p: "p < length tgt" "tgt ! p = j" "ys ! j = index_select xs src ! p"
        using row_storedD(2)[OF ys(2) j] by blast
      have "(j, index_select xs src ! p) \<in> set (zip tgt (index_select xs src))" using p len by (auto simp: in_set_zip)
      then show ?thesis using nth_scatter_distinct[of "zip tgt (index_select xs src)" j _ xs] d j p len by simp
    next
      case False
      then have "j \<notin> fst ` set (zip tgt (index_select xs src))" by (auto dest: set_zip_leftD)
      then show ?thesis using row_storedD(3)[OF ys(2) j False] by (simp add: nth_scatter_notin)
    qed
  qed
  then show ?thesis using ys(1) by (simp add: moved_rows_def)
qed

lemma copy_all_bufs:
  "p_k (copy_all n tgt src p) = map (n_copy n tgt src) (p_k p)"
  "p_v (copy_all n tgt src p) = map (n_copy n tgt src) (p_v p)"
  by (simp_all add: copy_all_def)

lemma fold_copy_all:
  "fold (\<lambda>r. copy_all n (slice tgt r) (slice src r)) rs p =
     (let c = fold (\<lambda>r. n_copy n (slice tgt r) (slice src r)) rs in
      p\<lparr>p_k := map c (p_k p), p_v := map c (p_v p), p_ks := map_option (map c) (p_ks p), p_vs := map_option (map c) (p_vs p)\<rparr>)"
proof (induction rs arbitrary: p)
  case Nil
  then show ?case by (simp add: Let_def option.map_ident)
next
  case (Cons r rs)
  then show ?case by (simp add: copy_all_def Let_def option.map_comp comp_def)
qed

lemma chunked_copy:
  assumes n: "kernels_ok n" and cap: "0 < cap" and d: "distinct tgt" and len: "length tgt = length src"
    and h: "no_hazard cap tgt src" and l: "\<forall>l\<in>set tgt \<union> set src. l < length xs"
  shows "fold (\<lambda>r. n_copy n (slice tgt r) (slice src r)) (ranges (length tgt) cap) (Slots xs) = Slots (moved_rows tgt src xs)"
proof -
  let ?K = "(length tgt + cap - 1) div cap"
  let ?r = "\<lambda>m. (m * cap, min (m * cap + cap) (length tgt))"
  let ?f = "\<lambda>m. n_copy n (slice tgt (?r m)) (slice src (?r m))"
  have "fold ?f [0..<?K] (Slots xs) = Slots (moved_prefix (?K * cap) tgt src xs)"
  proof (rule fold_upt_induct[where Q = "\<lambda>m b. b = Slots (moved_prefix (m * cap) tgt src xs)"])
    show "Slots xs = Slots (moved_prefix (0 * cap) tgt src xs)" by simp
    fix m b assume b: "b = Slots (moved_prefix (m * cap) tgt src xs)"
    let ?t = "take cap (drop (m * cap) tgt)" and ?s = "take cap (drop (m * cap) src)"
    have "slice tgt (?r m) = ?t" "slice src (?r m) = ?s" using slice_range[of tgt m cap] slice_range[of src m cap] len by simp_all
    moreover have "n_copy n ?t ?s b = Slots (moved_rows ?t ?s (moved_prefix (m * cap) tgt src xs))"
      unfolding b
    proof (rule kernel_copy[OF n])
      show "distinct ?t" using d by simp
      show "length ?t = length ?s" using len by simp
      show "\<forall>l\<in>set ?t \<union> set ?s. l < length (moved_prefix (m * cap) tgt src xs)"
        using l by (auto dest!: in_set_takeD in_set_dropD)
    qed
    ultimately show "?f m b = Slots (moved_prefix (Suc m * cap) tgt src xs)"
      using moved_prefix_step[OF cap len h, where xs = xs and m = m] l by simp
  qed
  moreover have "moved_prefix (?K * cap) tgt src xs = moved_rows tgt src xs"
    using ranges_cover[OF cap, of "length tgt"] len by (intro moved_prefix_all) simp_all
  ultimately show ?thesis unfolding ranges_def fold_map comp_def by simp
qed

text \<open>
  C18: The tiled copy of slots, data and block scales alike, gives the simultaneous move, also when
  the locations are split into chunks, provided the targets are distinct and no chunk reads a slot that
  an earlier chunk wrote.
\<close>

theorem chunked_move_is_simultaneous:
  assumes n: "kernels_ok n" and nat: "\<not> p_native_move p" "\<not> g_use_hnd (p_geom p)" "g_layer_num (p_geom p) \<noteq> 0"
    and cfg: "p_copy_cfg p = Some cfg" "0 < cc_num_locs_upper cfg"
    and d: "distinct tgt" and len: "length tgt = length src" and h: "no_hazard (cc_num_locs_upper cfg) tgt src"
    and l: "\<forall>l\<in>set tgt \<union> set src. l < N" and bufs: "\<forall>b\<in>set (all_bufs p). slots_len N b"
  shows "move_kv_cache n p tgt src = Inr (pool_moved tgt src p)"
proof -
  let ?cap = "cc_num_locs_upper cfg"
  have eq: "map c xs = map (buf_moved tgt src) xs"
    if "\<And>ys. length ys = N \<Longrightarrow> c (Slots ys) = Slots (moved_rows tgt src ys)" and "set xs \<subseteq> set (all_bufs p)"
    for c and xs :: "'a kbuf list"
  proof (rule map_cong[OF refl])
    fix b assume "b \<in> set xs"
    then have "slots_len N b" using bufs that(2) by auto
    then show "c b = buf_moved tgt src b" using that(1) by (cases b) (simp_all add: slots_len_def buf_moved_def)
  qed
  have all: "p\<lparr>p_k := map c (p_k p), p_v := map c (p_v p), p_ks := map_option (map c) (p_ks p), p_vs := map_option (map c) (p_vs p)\<rparr>
      = pool_moved tgt src p"
    if c: "\<And>ys. length ys = N \<Longrightarrow> c (Slots ys) = Slots (moved_rows tgt src ys)" for c
  proof -
    have "map c (p_k p) = map (buf_moved tgt src) (p_k p)" "map c (p_v p) = map (buf_moved tgt src) (p_v p)"
      using eq[OF c all_bufs_subset(1)] eq[OF c all_bufs_subset(2)] by blast+
    moreover have "map_option (map c) (p_ks p) = map_option (map (buf_moved tgt src)) (p_ks p)"
      using eq[OF c] by (cases "p_ks p") (auto simp: all_bufs_def simp del: map_eq_conv)
    moreover have "map_option (map c) (p_vs p) = map_option (map (buf_moved tgt src)) (p_vs p)"
      using eq[OF c] by (cases "p_vs p") (auto simp: all_bufs_def simp del: map_eq_conv)
    ultimately show ?thesis by (simp add: pool_moved_def)
  qed
  have mv: "move_kv_cache n p tgt src = (if tgt = [] then Inr p
      else if length tgt \<le> ?cap then Inr (copy_all n tgt src p)
      else Inr (fold (\<lambda>r. copy_all n (slice tgt r) (slice src r)) (ranges (length tgt) ?cap) p))"
    using nat cfg by (simp add: move_kv_cache_def move_impl_def Let_def)
  show ?thesis
  proof (cases "tgt = []")
    case True
    then have "id b = buf_moved tgt src b" for b :: "'a kbuf"
      using len by (cases b) (simp_all add: buf_moved_def moved_rows_def)
    then have "buf_moved tgt src = (id :: 'a kbuf \<Rightarrow> 'a kbuf)" by (auto simp: fun_eq_iff)
    then show ?thesis using mv True by (simp add: pool_moved_def option.map_id)
  next
    case ne: False
    show ?thesis
    proof (cases "length tgt \<le> ?cap")
      case True
      have "copy_all n tgt src p = pool_moved tgt src p"
        unfolding copy_all_def by (rule all) (use kernel_copy[OF n d len] l in auto)
      then show ?thesis using mv ne True by simp
    next
      case False
      have "fold (\<lambda>r. copy_all n (slice tgt r) (slice src r)) (ranges (length tgt) ?cap) p = pool_moved tgt src p"
        unfolding fold_copy_all Let_def by (rule all) (use chunked_copy[OF n cfg(2) d len h] l in auto)
      then show ?thesis using mv ne False by simp
    qed
  qed
qed

text \<open>A draft is compacted by moving later slots to earlier ones, which is free of hazards.\<close>

lemma compaction_no_hazard:
  assumes "distinct slots" and "\<And>j. j < k \<Longrightarrow> j \<le> a j \<and> a j < length slots" and "k \<le> length slots"
  shows "no_hazard cap (take k slots) (map (\<lambda>j. slots ! a j) [0..<k])"
  unfolding no_hazard_def
proof (intro allI impI)
  fix i j assume i: "i < length (take k slots)" and j: "j < length (map (\<lambda>j. slots ! a j) [0..<k])" and d: "i div cap < j div cap"
  have "i < j" using d by (meson div_le_mono leD not_le)
  then have "i \<noteq> a j" "a j < length slots" "i < length slots" using assms(2)[of j] i j by auto
  then show "take k slots ! i \<noteq> map (\<lambda>j. slots ! a j) [0..<k] ! j" using assms(1) i j by (simp add: nth_eq_iff_index_eq)
qed

definition move_pool :: "int kv_pool" where
  "move_pool = (small_pool False)\<lparr>p_k := [Slots [[[0]], [[1]], [[2]], [[3]]]], p_v := [Slots [[[4]], [[5]], [[6]], [[7]]]],
     p_ks := Some [Slots [[[10]], [[11]], [[12]], [[13]]]], p_copy_cfg := Some ((kv_copy_config 2)\<lparr>cc_num_locs_upper := 1\<rparr>)\<rparr>"

theorem chunked_move_is_simultaneous_witness:
  "move_kv_cache ref_kernels move_pool [0, 1] [1, 3] = Inr (move_pool\<lparr>p_k := [Slots [[[1]], [[3]], [[2]], [[3]]]],
     p_v := [Slots [[[5]], [[7]], [[6]], [[7]]]], p_ks := Some [Slots [[[11]], [[13]], [[12]], [[13]]]]\<rparr>)"
proof -
  have f: "\<not> p_native_move move_pool" "\<not> g_use_hnd (p_geom move_pool)" "g_layer_num (p_geom move_pool) \<noteq> 0"
    "p_copy_cfg move_pool = Some ((kv_copy_config 2)\<lparr>cc_num_locs_upper := 1\<rparr>)"
    "\<forall>b\<in>set (all_bufs move_pool). slots_len 4 b"
    by (simp_all add: move_pool_def small_pool_def small_geom_def all_bufs_def slots_len_def Let_def)
  have h: "no_hazard 1 [0, 1] [1, 3]" by (auto simp: no_hazard_def less_Suc_eq)
  have m: "pool_moved [0, 1] [1, 3] move_pool = move_pool\<lparr>p_k := [Slots [[[1]], [[3]], [[2]], [[3]]]],
     p_v := [Slots [[[5]], [[7]], [[6]], [[7]]]], p_ks := Some [Slots [[[11]], [[13]], [[12]], [[13]]]]\<rparr>"
    by (simp add: pool_moved_def move_pool_def small_pool_def buf_moved_def moved_rows_def index_select_def Let_def)
  show ?thesis
    unfolding m[symmetric] by (rule chunked_move_is_simultaneous[OF ref_kernels_ok f(1-4) _ _ _ _ _ f(5)]) (use h in simp_all)
qed

section \<open>The indexed move\<close>

lemma kb_move_rows:
  assumes ok: "buf_ok g H b" and len: "length tgt = length src"
    and l: "\<forall>l\<in>set tgt \<union> set src. l < g_size g + g_page_size g"
  obtains b' where "kb_move (g_page_size g) b tgt src = Inr b'" "buf_ok g H b'"
    "kb_rows (g_page_size g) b' = moved_rows tgt src (kb_rows (g_page_size g) b)"
proof -
  let ?P = "g_page_size g"
  have kb: "kb_ok ?P H b" "kb_len ?P b = g_size g + ?P" using ok by (simp_all add: buf_ok_def)
  have l': "\<forall>l\<in>set tgt. l < kb_len ?P b" "\<forall>l\<in>set src. l < kb_len ?P b" using l kb(2) by simp_all
  have take: "kb_take ?P b src = Inr (map (kb_row ?P b) src)" using l'(2) by (force simp: kb_take_def)
  then have sel: "map (kb_row ?P b) src = index_select (kb_rows ?P b) src"
    unfolding kb_take_rows by (simp split: if_splits)
  let ?b' = "kb_write ?P b (zip tgt (map (kb_row ?P b) src))"
  have put: "kb_put ?P b tgt (map (kb_row ?P b) src) = Inr ?b'"
    using l'(1) len by (force simp: kb_put_def spread_def)
  have r: "kb_rows ?P ?b' = scatter (kb_rows ?P b) (zip tgt (map (kb_row ?P b) src)) \<and> kb_ok ?P H ?b' \<and> kb_len ?P ?b' = kb_len ?P b"
    using kb_put_rows[OF kb(1) kb_take_lengths(2)[OF kb(1) take] put] len by (simp add: spread_def)
  have "buf_ok g H ?b'" using r ok by (cases b) (auto simp: buf_ok_def)
  moreover have "kb_move ?P b tgt src = Inr ?b'" using take put by (simp add: kb_move_def)
  ultimately show ?thesis using that r unfolding moved_rows_def sel by blast
qed

lemma res_map_list_all2:
  assumes "\<And>b. b \<in> set bs \<Longrightarrow> \<exists>b'. h b = Inr b' \<and> Q b b'"
  shows "\<exists>bs'. res_map h bs = Inr bs' \<and> list_all2 Q bs bs'"
  using assms
proof (induction bs)
  case Nil
  then show ?case by simp
next
  case (Cons b bs)
  obtain b' where b': "h b = Inr b'" "Q b b'" using Cons.prems by auto
  obtain bs' where "res_map h bs = Inr bs'" "list_all2 Q bs bs'" using Cons by auto
  then show ?case using b' by simp
qed

text \<open>The table of rows of one buffer moves, and the buffer stays well-formed.\<close>

definition table_moved :: "kv_geom \<Rightarrow> nat \<Rightarrow> nat list \<Rightarrow> nat list \<Rightarrow> 'e kbuf \<Rightarrow> 'e kbuf \<Rightarrow> bool" where
  "table_moved g H tgt src b b' \<longleftrightarrow> buf_ok g H b' \<and>
     kb_rows (g_page_size g) b' = moved_rows tgt src (kb_rows (g_page_size g) b)"

text \<open>
  The native move gives the same table of token rows in the slot layout and in the page layout:
  every key and value row moves at once, whatever the order and overlap of the locations.
\<close>

theorem native_move_refines_table:
  assumes ok: "pool_ok H p" and lay: "g_use_hnd (p_geom p) \<or> p_native_move p" and nz: "g_layer_num (p_geom p) \<noteq> 0"
    and sc: "p_ks p = None" and len: "length tgt = length src"
    and l: "\<forall>l\<in>set tgt \<union> set src. l < g_size (p_geom p) + p_page p"
  shows "\<exists>p'. move_kv_cache n p tgt src = Inr p' \<and> p_geom p' = p_geom p \<and>
     list_all2 (table_moved (p_geom p) H tgt src) (p_k p) (p_k p') \<and>
     list_all2 (table_moved (p_geom p) H tgt src) (p_v p) (p_v p')"
proof -
  let ?Q = "table_moved (p_geom p) H tgt src" and ?mv = "\<lambda>b. kb_move (p_page p) b tgt src"
  have one: "\<exists>b'. ?mv b = Inr b' \<and> ?Q b b'" if "buf_ok (p_geom p) H b" for b :: "'a kbuf"
    using kb_move_rows[OF that len l] unfolding table_moved_def by metis
  obtain ks where ks: "res_map ?mv (p_k p) = Inr ks" "list_all2 ?Q (p_k p) ks"
    using res_map_list_all2[of "p_k p" ?mv ?Q] one ok by (auto simp: pool_ok_def)
  obtain vs where vs: "res_map ?mv (p_v p) = Inr vs" "list_all2 ?Q (p_v p) vs"
    using res_map_list_all2[of "p_v p" ?mv ?Q] one ok by (auto simp: pool_ok_def)
  show ?thesis
  proof (cases "tgt = [] \<and> \<not> g_use_hnd (p_geom p)")
    case True
    then have "src = []" using len by simp
    then have "?Q b b" if "buf_ok (p_geom p) H b" for b :: "'a kbuf"
      using that True by (simp add: table_moved_def moved_rows_def index_select_def)
    then have "list_all2 ?Q bs bs" if "\<forall>b\<in>set bs. buf_ok (p_geom p) H b" for bs :: "'a kbuf list"
      using that by (simp add: list.rel_refl_strong)
    then show ?thesis using ok True lay nz sc
      by (auto simp: move_kv_cache_def move_impl_def move_native_def opt_res_map_def Let_def pool_ok_def)
  next
    case False
    then show ?thesis using ks vs lay nz sc
      by (auto simp: move_kv_cache_def move_impl_def move_native_def opt_res_map_def Let_def)
  qed
qed

theorem native_move_refines_table_witness:
  "\<exists>p'. move_kv_cache ref_kernels (small_pool True) [0, 1, 2] [1, 2, 3] = Inr p' \<and> p_geom p' = p_geom (small_pool True) \<and>
     list_all2 (table_moved (small_geom True) 2 [0, 1, 2] [1, 2, 3]) (p_k (small_pool True)) (p_k p') \<and>
     list_all2 (table_moved (small_geom True) 2 [0, 1, 2] [1, 2, 3]) (p_v (small_pool True)) (p_v p')"
proof -
  have g: "p_geom (small_pool True) = small_geom True" "p_ks (small_pool True) = None" by (simp_all add: small_pool_def Let_def)
  have s: "g_use_hnd (small_geom True)" "g_layer_num (small_geom True) \<noteq> 0" "g_size (small_geom True) = 2" "g_page_size (small_geom True) = 2"
    by (simp_all add: small_geom_def)
  show ?thesis
    using native_move_refines_table[OF small_pool_ok[of True], of "[0, 1, 2]" "[1, 2, 3]" ref_kernels] g s by simp
qed

section \<open>The round trip through the host\<close>

lemma res_map_mem: "res_map h xs = Inr ys \<Longrightarrow> length ys = length xs \<and> (\<forall>i<length xs. h (xs ! i) = Inr (ys ! i))"
  by (rule res_map_Inr)

lemma kb_take_slice:
  assumes "kb_take P b idx = Inr rows" and "set ci \<subseteq> set idx"
  shows "kb_take P b ci = Inr (map (kb_row P b) ci)"
  using assms by (auto simp: kb_take_def split: if_splits)

text \<open>The saved chunks of one layer.\<close>

definition saved_layer :: "nat \<Rightarrow> nat \<Rightarrow> nat list \<Rightarrow> 'e kbuf \<times> 'e kbuf \<Rightarrow> ('e row list \<times> 'e row list) list" where
  "saved_layer P cap idx kv = map (\<lambda>m. let ci = take cap (drop (m * cap) idx) in
      (map (kb_row P (fst kv)) ci, map (kb_row P (snd kv)) ci)) [0..<(length idx + cap - 1) div cap]"

lemma set_chunk: "set (take cap (drop k idx)) \<subseteq> set idx"
  by (auto dest: in_set_takeD in_set_dropD)

lemma get_layer:
  assumes "\<forall>l\<in>set idx. l < kb_len P k" "\<forall>l\<in>set idx. l < kb_len P v"
  shows "res_map (\<lambda>r. res_bind (kb_take P k (slice idx r)) (\<lambda>kc. res_bind (kb_take P v (slice idx r)) (\<lambda>vc. Inr (kc, vc))))
     (ranges (length idx) cap) = Inr (saved_layer P cap idx (k, v))"
proof -
  have tk: "kb_take P b ci = Inr (map (kb_row P b) ci)" if "\<forall>l\<in>set idx. l < kb_len P b" "set ci \<subseteq> set idx" for b :: "'a kbuf" and ci
    using that by (force simp: kb_take_def)
  let ?h = "\<lambda>r. (map (kb_row P k) (slice idx r), map (kb_row P v) (slice idx r))"
  have "res_map (\<lambda>r. res_bind (kb_take P k (slice idx r)) (\<lambda>kc. res_bind (kb_take P v (slice idx r)) (\<lambda>vc. Inr (kc, vc))))
     (ranges (length idx) cap) = Inr (map ?h (ranges (length idx) cap))"
  proof (rule res_map_total)
    fix r assume "r \<in> set (ranges (length idx) cap)"
    have "set (slice idx r) \<subseteq> set idx" by (auto simp: slice_def dest: in_set_takeD in_set_dropD)
    then show "res_bind (kb_take P k (slice idx r)) (\<lambda>kc. res_bind (kb_take P v (slice idx r)) (\<lambda>vc. Inr (kc, vc))) = Inr (?h r)"
      using tk assms by simp
  qed
  also have "map ?h (ranges (length idx) cap) = saved_layer P cap idx (k, v)"
    by (simp add: ranges_def saved_layer_def slice_range Let_def)
  finally show ?thesis .
qed

text \<open>Loading a saved layer chunk by chunk stores all of its rows in order.\<close>

lemma load_layer_rows:
  assumes cap: "0 < cap" and len: "length idx2 = length idx"
    and ok: "buf_ok g H k2" "buf_ok g H v2" and ok1: "buf_ok g' H k1" "buf_ok g' H v1" and P: "g_page_size g' = g_page_size g"
    and l1: "\<forall>l\<in>set idx. l < g_size g' + g_page_size g'" and l2: "\<forall>l\<in>set idx2. l < g_size g + g_page_size g"
  obtains k v where "load_layer (g_page_size g) cap idx2 (saved_layer (g_page_size g) cap idx (k1, v1)) (k2, v2) = Inr (k, v)"
    "buf_ok g H k" "buf_ok g H v"
    "kb_rows (g_page_size g) k = scatter (kb_rows (g_page_size g) k2) (zip idx2 (map (kb_row (g_page_size g) k1) idx))"
    "kb_rows (g_page_size g) v = scatter (kb_rows (g_page_size g) v2) (zip idx2 (map (kb_row (g_page_size g) v1) idx))"
proof -
  let ?P = "g_page_size g" and ?K = "(length idx + cap - 1) div cap"
  let ?r = "\<lambda>m. (m * cap, min (m * cap + cap) (length idx))"
  let ?sv = "saved_layer ?P cap idx (k1, v1)"
  let ?st = "\<lambda>m b1 b2. scatter (kb_rows ?P b2) (zip (take (m * cap) idx2) (map (kb_row ?P b1) (take (m * cap) idx)))"
  define Q where "Q = (\<lambda>m (kv :: 'a kbuf \<times> 'a kbuf). buf_ok g H (fst kv) \<and> buf_ok g H (snd kv) \<and>
     kb_rows ?P (fst kv) = ?st m k1 k2 \<and> kb_rows ?P (snd kv) = ?st m v1 v2)"
  have put: "\<exists>b'. kb_put ?P b (take cap (drop (m * cap) idx2)) (map (kb_row ?P b1) (take cap (drop (m * cap) idx))) = Inr b' \<and>
      buf_ok g H b' \<and> kb_rows ?P b' = ?st (Suc m) b1 b2"
    if b: "buf_ok g H b" "kb_rows ?P b = ?st m b1 b2" and b1: "buf_ok g' H b1" for m and b b1 b2 :: "'a kbuf"
  proof -
    let ?t = "take cap (drop (m * cap) idx2)" and ?s = "map (kb_row ?P b1) (take cap (drop (m * cap) idx))"
    have kb: "kb_ok ?P H b" "kb_len ?P b = g_size g + ?P" "kb_ok ?P H b1" "kb_len ?P b1 = g_size g' + ?P"
      using b(1) b1 P by (simp_all add: buf_ok_def)
    have "\<forall>l\<in>set ?t. l < kb_len ?P b" using l2 kb(2) set_chunk[of cap "m * cap" idx2] by auto
    then have p: "kb_put ?P b ?t ?s = Inr (kb_write ?P b (zip ?t ?s))"
      using len by (force simp: kb_put_def spread_def)
    have "\<forall>r\<in>set ?s. length r = H"
      using kb_row_length[OF kb(3)] l1 kb(4) P set_chunk[of cap "m * cap" idx] by auto
    then have w: "kb_rows ?P (kb_write ?P b (zip ?t ?s)) = scatter (kb_rows ?P b) (zip ?t ?s) \<and> kb_ok ?P H (kb_write ?P b (zip ?t ?s))
       \<and> kb_len ?P (kb_write ?P b (zip ?t ?s)) = kb_len ?P b"
      using kb_put_rows[OF kb(1) _ p] len by (simp add: spread_def)
    have z: "zip (take (m * cap) idx2) (map (kb_row ?P b1) (take (m * cap) idx)) @ zip ?t ?s
       = zip (take (Suc m * cap) idx2) (map (kb_row ?P b1) (take (Suc m * cap) idx))"
      using len by (simp only: take_next) simp
    have "buf_ok g H (kb_write ?P b (zip ?t ?s))" using w b(1) by (cases b) (auto simp: buf_ok_def)
    then show ?thesis using p w unfolding b(2) scatter_append z by blast
  qed
  have "\<exists>t. res_fold (\<lambda>kv m. load_chunk ?P idx2 ?sv kv (m, ?r m)) (k2, v2) [0..<?K] = Inr t \<and> Q ?K t"
  proof (rule res_fold_upt_induct)
    show "Q 0 (k2, v2)" using ok by (simp add: Q_def)
    fix m kv assume m: "m < ?K" and q: "Q m kv"
    let ?ks = "map (kb_row ?P k1) (take cap (drop (m * cap) idx))" and ?vs = "map (kb_row ?P v1) (take cap (drop (m * cap) idx))"
    have sl: "slice idx2 (?r m) = take cap (drop (m * cap) idx2)" using slice_range[of idx2 m cap] len by simp
    have sv: "m < length ?sv" "?sv ! m = (?ks, ?vs)" using m by (simp_all add: saved_layer_def Let_def)
    obtain k where k: "kb_put ?P (fst kv) (take cap (drop (m * cap) idx2)) ?ks = Inr k" "buf_ok g H k" "kb_rows ?P k = ?st (Suc m) k1 k2"
      using put[of "fst kv" k2 m k1] q ok1 unfolding Q_def by blast
    obtain v where v: "kb_put ?P (snd kv) (take cap (drop (m * cap) idx2)) ?vs = Inr v" "buf_ok g H v" "kb_rows ?P v = ?st (Suc m) v1 v2"
      using put[of "snd kv" v2 m v1] q ok1 unfolding Q_def by blast
    have "load_chunk ?P idx2 ?sv kv (m, ?r m) = Inr (k, v)"
      using sv sl k(1) v(1) len by (simp add: load_chunk_def Let_def)
    then show "\<exists>kv'. load_chunk ?P idx2 ?sv kv (m, ?r m) = Inr kv' \<and> Q (Suc m) kv'" using k v by (simp add: Q_def)
  qed
  then obtain kv where kv: "res_fold (\<lambda>kv m. load_chunk ?P idx2 ?sv kv (m, ?r m)) (k2, v2) [0..<?K] = Inr kv" "Q ?K kv" by blast
  have fm: "res_fold h s (map c ys) = res_fold (\<lambda>s y. h s (c y)) s ys" for h :: "'a kbuf \<times> 'a kbuf \<Rightarrow> nat \<times> nat \<times> nat \<Rightarrow> ('a kbuf \<times> 'a kbuf) result" and s c and ys :: "nat list"
    by (induction ys arbitrary: s) simp_all
  have en: "enumerate 0 (ranges (length idx2) cap) = map (\<lambda>m. (m, ?r m)) [0..<?K]"
    using len by (simp add: enumerate_eq_zip ranges_def zip_map2 zip_same_conv_map)
  have ll: "load_layer ?P cap idx2 ?sv (k2, v2) = Inr kv" unfolding load_layer_def en fm by (rule kv(1))
  have "length idx \<le> ?K * cap" by (rule ranges_cover[OF cap])
  then have "take (?K * cap) idx = idx" "take (?K * cap) idx2 = idx2" using len by simp_all
  then show ?thesis using that[of "fst kv" "snd kv"] ll kv(2) by (simp add: Q_def)
qed

text \<open>What a pool holds after the saved rows were loaded at new locations.\<close>

definition layer_restored :: "'e kv_pool \<Rightarrow> nat list \<Rightarrow> 'e kv_pool \<Rightarrow> nat list \<Rightarrow> 'e kv_pool \<Rightarrow> nat \<Rightarrow> bool" where
  "layer_restored p idx q idx2 q' i \<longleftrightarrow>
     kb_rows (p_page q) (p_k q' ! i) = scatter (kb_rows (p_page q) (p_k q ! i)) (zip idx2 (index_select (kb_rows (p_page p) (p_k p ! i)) idx)) \<and>
     kb_rows (p_page q) (p_v q' ! i) = scatter (kb_rows (p_page q) (p_v q ! i)) (zip idx2 (index_select (kb_rows (p_page p) (p_v p ! i)) idx))"

lemma get_all_layers:
  assumes ok: "pool_ok H p" and hnd: "\<not> g_use_hnd (p_geom p)" and l: "\<forall>l\<in>set idx. l < g_size (p_geom p) + p_page p"
  shows "get_cpu_copy p idx = Inr (map (saved_layer (p_page p) (p_chunk p) idx) (zip (p_k p) (p_v p)))"
proof -
  have "res_map (\<lambda>(k, v). res_map (\<lambda>r. res_bind (kb_take (p_page p) k (slice idx r)) (\<lambda>kc.
        res_bind (kb_take (p_page p) v (slice idx r)) (\<lambda>vc. Inr (kc, vc)))) (ranges (length idx) (p_chunk p))) (zip (p_k p) (p_v p))
      = Inr (map (saved_layer (p_page p) (p_chunk p) idx) (zip (p_k p) (p_v p)))"
  proof (rule res_map_total)
    fix kv assume "kv \<in> set (zip (p_k p) (p_v p))"
    then have "fst kv \<in> set (p_k p)" "snd kv \<in> set (p_v p)"
      by (metis prod.collapse set_zip_leftD, metis prod.collapse set_zip_rightD)
    then have "buf_ok (p_geom p) H (fst kv)" "buf_ok (p_geom p) H (snd kv)"
      using ok unfolding pool_ok_def by blast+
    then have "\<forall>l\<in>set idx. l < kb_len (p_page p) (fst kv)" "\<forall>l\<in>set idx. l < kb_len (p_page p) (snd kv)"
      using l by (simp_all add: buf_ok_def)
    then show "(\<lambda>(k, v). res_map (\<lambda>r. res_bind (kb_take (p_page p) k (slice idx r)) (\<lambda>kc.
        res_bind (kb_take (p_page p) v (slice idx r)) (\<lambda>vc. Inr (kc, vc)))) (ranges (length idx) (p_chunk p))) kv
      = Inr (saved_layer (p_page p) (p_chunk p) idx kv)"
      using get_layer[of idx "p_page p" "fst kv" "snd kv" "p_chunk p"] by (cases kv) simp
  qed
  then show ?thesis using hnd by (simp add: get_cpu_copy_def)
qed

text \<open>
  Copying rows to the host and loading them later at other slots, into a pool that has been
  written to in between, restores the key and value rows of every layer at the new slots and touches
  no other row; the block scales of a quantised pool are neither saved nor restored.
\<close>

theorem host_copy_roundtrip:
  assumes p: "pool_ok H p" "\<not> g_use_hnd (p_geom p)" and q: "pool_ok H q" "\<not> g_use_hnd (p_geom q)"
    and same: "p_page q = p_page p" "p_chunk q = p_chunk p" "length (p_k q) = length (p_k p)" "0 < p_chunk p"
    and len: "length idx2 = length idx"
    and l: "\<forall>l\<in>set idx. l < g_size (p_geom p) + p_page p" and l2: "\<forall>l\<in>set idx2. l < g_size (p_geom q) + p_page q"
  shows "\<exists>hc q'. get_cpu_copy p idx = Inr hc \<and> load_cpu_copy q hc idx2 = Inr q' \<and>
     (\<forall>i<length (p_k p). layer_restored p idx q idx2 q' i) \<and> p_ks q' = p_ks q \<and> p_vs q' = p_vs q"
proof -
  let ?P = "p_page q" and ?L = "length (p_k p)"
  let ?hc = "map (saved_layer ?P (p_chunk q) idx) (zip (p_k p) (p_v p))"
  have L: "length (p_v p) = ?L" "length (p_v q) = ?L" using p(1) q(1) same(3) by (simp_all add: pool_ok_def)
  have get: "get_cpu_copy p idx = Inr ?hc" using get_all_layers[OF p l] same by simp
  let ?Q = "\<lambda>i kv. kb_rows ?P (fst kv) = scatter (kb_rows ?P (p_k q ! i)) (zip idx2 (index_select (kb_rows ?P (p_k p ! i)) idx)) \<and>
     kb_rows ?P (snd kv) = scatter (kb_rows ?P (p_v q ! i)) (zip idx2 (index_select (kb_rows ?P (p_v p ! i)) idx))"
  define srcs where "srcs = map (\<lambda>i. (saved_layer ?P (p_chunk q) idx (p_k p ! i, p_v p ! i), (p_k q ! i, p_v q ! i))) [0..<?L]"
  have one: "\<exists>kv. load_layer ?P (p_chunk q) idx2 (fst (srcs ! i)) (snd (srcs ! i)) = Inr kv \<and> ?Q i kv" if i: "i < ?L" for i
  proof -
    note po = pool_okD[OF p(1) i] and qo = pool_okD[OF q(1) i[folded same(3)]]
    have sel: "map (kb_row ?P b) idx = index_select (kb_rows ?P b) idx" if "buf_ok (p_geom p) H b" for b :: "'a kbuf"
      using that l same(1) by (auto simp: buf_ok_def index_select_def intro!: map_cong)
    have cap: "0 < p_chunk q" using same(2,4) by simp
    obtain k v where "load_layer ?P (p_chunk q) idx2 (saved_layer ?P (p_chunk q) idx (p_k p ! i, p_v p ! i)) (p_k q ! i, p_v q ! i) = Inr (k, v)"
      "kb_rows ?P k = scatter (kb_rows ?P (p_k q ! i)) (zip idx2 (map (kb_row ?P (p_k p ! i)) idx))"
      "kb_rows ?P v = scatter (kb_rows ?P (p_v q ! i)) (zip idx2 (map (kb_row ?P (p_v p ! i)) idx))"
      by (rule load_layer_rows[OF cap len qo(1,2) po(1,2) same(1)[symmetric] l l2])
    then show ?thesis using i sel[OF po(1)] sel[OF po(2)] by (simp add: srcs_def)
  qed
  obtain kvs where kvs: "res_map (\<lambda>(saved, kv). load_layer ?P (p_chunk q) idx2 saved kv) srcs = Inr kvs"
  proof -
    have "is_ok (load_layer ?P (p_chunk q) idx2 (fst x) (snd x))" if xs: "x \<in> set srcs" for x
    proof -
      have "length srcs = ?L" by (simp add: srcs_def)
      then obtain i where i: "i < ?L" "x = srcs ! i" using xs by (auto simp: in_set_conv_nth)
      then show ?thesis using one[OF i(1)] by (elim exE conjE) (simp only: i(2) is_ok_simps)
    qed
    then have "res_map (\<lambda>(saved, kv). load_layer ?P (p_chunk q) idx2 saved kv) srcs =
      Inr (map (\<lambda>x. ok_or (snd x) (load_layer ?P (p_chunk q) idx2 (fst x) (snd x))) srcs)"
      by (intro res_map_total) (simp add: split_beta ok_or_eq)
    then show ?thesis by (rule that)
  qed
  have nth: "length kvs = ?L" "\<And>i. i < ?L \<Longrightarrow> ?Q i (kvs ! i)"
  proof -
    have m: "length kvs = length srcs" "\<forall>i<length srcs. (\<lambda>(saved, kv). load_layer ?P (p_chunk q) idx2 saved kv) (srcs ! i) = Inr (kvs ! i)"
      using res_map_Inr[OF kvs] by simp_all
    have sl: "length srcs = ?L" by (simp add: srcs_def)
    show "length kvs = ?L" using m(1) sl by simp
    fix i assume i: "i < ?L"
    obtain kv where kv: "load_layer ?P (p_chunk q) idx2 (fst (srcs ! i)) (snd (srcs ! i)) = Inr kv" "?Q i kv"
      using one[OF i] by blast
    have "load_layer ?P (p_chunk q) idx2 (fst (srcs ! i)) (snd (srcs ! i)) = Inr (kvs ! i)"
      using m(2) i sl by (simp add: split_beta)
    then have "kv = kvs ! i" using kv(1) by simp
    then show "?Q i (kvs ! i)" using kv(2) by simp
  qed
  have zs: "zip ?hc (zip (p_k q) (p_v q)) = srcs"
    by (rule nth_equalityI) (use L same(3) in \<open>simp_all add: srcs_def\<close>)
  have z0: "zip (replicate (length (p_k q)) []) (zip (p_k q) (p_v q)) = srcs" if "idx2 = []"
    by (rule nth_equalityI) (use L same that len in \<open>simp_all add: srcs_def saved_layer_def\<close>)
  have "load_cpu_copy q ?hc idx2 = Inr (q\<lparr>p_k := map fst kvs, p_v := map snd kvs\<rparr>)"
  proof (cases "idx2 = []")
    case True
    then show ?thesis using q(2) kvs z0 by (simp add: load_cpu_copy_def)
  next
    case False
    then show ?thesis using q(2) kvs zs L same(3) by (simp add: load_cpu_copy_def)
  qed
  moreover have "layer_restored p idx q idx2 (q\<lparr>p_k := map fst kvs, p_v := map snd kvs\<rparr>) i" if "i < ?L" for i
    using nth that same(1) by (simp add: layer_restored_def)
  ultimately show ?thesis using get by (intro exI[of _ ?hc] exI[of _ "q\<lparr>p_k := map fst kvs, p_v := map snd kvs\<rparr>"]) simp
qed

theorem host_copy_roundtrip_witness:
  "\<exists>hc q'. get_cpu_copy (small_pool False) [3, 1, 0] = Inr hc \<and>
     load_cpu_copy ((small_pool False)\<lparr>p_ks := Some [Slots (replicate 4 [[7]])]\<rparr>) hc [0, 1, 2] = Inr q' \<and>
     (\<forall>i<1. layer_restored (small_pool False) [3, 1, 0] ((small_pool False)\<lparr>p_ks := Some [Slots (replicate 4 [[7]])]\<rparr>) [0, 1, 2] q' i) \<and>
     p_ks q' = Some [Slots (replicate 4 [[7]])] \<and> p_vs q' = None"
proof -
  let ?p = "small_pool False" and ?q = "(small_pool False)\<lparr>p_ks := Some [Slots (replicate 4 [[7]])]\<rparr>"
  have q: "pool_ok 2 ?q" using small_pool_ok[of False] by (simp add: pool_ok_def)
  have f: "\<not> g_use_hnd (p_geom ?p)" "\<not> g_use_hnd (p_geom ?q)" "p_page ?q = p_page ?p" "p_chunk ?q = p_chunk ?p"
    "length (p_k ?q) = length (p_k ?p)" "0 < p_chunk ?p" "length (p_k ?p) = 1" "p_vs ?q = None"
    "\<forall>l\<in>set [3, 1, 0]. l < g_size (p_geom ?p) + p_page ?p" "\<forall>l\<in>set [0, 1, 2]. l < g_size (p_geom ?q) + p_page ?q"
    by (simp_all add: small_pool_def small_geom_def Let_def)
  show ?thesis
    using host_copy_roundtrip[OF small_pool_ok f(1) q f(2-6) _ f(9,10)] unfolding f(7,8) by simp
qed

end
