(* ===== verification/Hybrid_Linear.thy ===== *)
theory Hybrid_Linear
  imports Kv_Move Mamba_Pool
begin

text \<open>
  The cache of a hybrid model, \<^verbatim>\<open>HybridLinearKVPool\<close> of \<^verbatim>\<open>runtime-src/memory_pool.py\<close>: a key/value
  pool that is dense over the full-attention layers, addressed by global layer ids, next to the state
  pool of the linear-attention layers. The pool of the latent-attention option (\<open>use_mla\<close>) and the wait for a layer-wise transfer are not modelled.
\<close>

record ('e, 'c, 't, 'p) hybrid_kv =
  hk_full :: "'e kv_pool"
  hk_mamba :: "('c, 't, 'p) mamba_pool"
  hk_mapping :: "(int, nat) dict"

text \<open>\<open>{id: i for i, id in enumerate(full_attention_layer_ids)}\<close>\<close>

definition layer_mapping :: "int list \<Rightarrow> (int, nat) dict" where
  "layer_mapping ids = fold (\<lambda>(i, l) d. dset d l i) (enumerate 0 ids) []"

definition transfer_full_attention_id :: "('e, 'c, 't, 'p) hybrid_kv \<Rightarrow> int \<Rightarrow> nat result" where
  "transfer_full_attention_id h l = (case dget (hk_mapping h) l of None \<Rightarrow> Inl ValueError | Some i \<Rightarrow> Inr i)"

definition get_kv_layer_ids :: "bool \<Rightarrow> ('e, 'c, 't, 'p) hybrid_kv \<Rightarrow> int list" where
  "get_kv_layer_ids use_mla h = (let ids = map fst (hk_mapping h) in if use_mla then ids else ids @ ids)"

text \<open>The physical location of the unified pool is preferred; the scales default to the number one.\<close>

definition hybrid_write_loc :: "loc_info \<Rightarrow> nat list" where
  "hybrid_write_loc li = (case unwrap_write_loc li of (l, _, full) \<Rightarrow> (case full of Some x \<Rightarrow> x | None \<Rightarrow> l))"

definition default_scale :: "kv_scale option option \<Rightarrow> kv_scale option" where
  "default_scale s = (case s of None \<Rightarrow> Some (HostScale 1) | Some x \<Rightarrow> x)"

definition hybrid_set_kv_buffer ::
  "kv_platform \<Rightarrow> 'e kv_kernels \<Rightarrow> 'e elem_ops \<Rightarrow> ('e, 'c, 't, 'p) hybrid_kv \<Rightarrow> int \<Rightarrow> loc_info \<Rightarrow> 'e kv_batch \<Rightarrow>
   kv_scale option option \<Rightarrow> kv_scale option option \<Rightarrow> bool list option \<Rightarrow> (('e, 'c, 't, 'p) hybrid_kv \<times> 'e kv_batch) result"
where
  "hybrid_set_kv_buffer f n ops h layer li b ks vs msk =
     res_bind (transfer_full_attention_id h layer) (\<lambda>i.
       map_sum id (\<lambda>(p, seen). (h\<lparr>hk_full := p\<rparr>, seen))
         (set_kv_buffer f n ops (hk_full h) (Some layer) (Bare (hybrid_write_loc li)) b (default_scale ks) (default_scale vs)
            (Some (int i)) msk))"

text \<open>Reading a layer's keys or values: the buffer itself, viewed as the element type.\<close>

definition kb_map :: "('e \<Rightarrow> 'e) \<Rightarrow> 'e kbuf \<Rightarrow> 'e kbuf" where
  "kb_map h b = (case b of Slots xs \<Rightarrow> Slots (map_rows h xs) | Pages ps \<Rightarrow> Pages (map (map (map (map h))) ps))"

definition read_buffer ::
  "('e kbuf \<Rightarrow> 'e kbuf \<Rightarrow> int \<Rightarrow> 'e kbuf) option \<Rightarrow> 'e elem_ops \<Rightarrow> 'e kv_pool \<Rightarrow> int \<Rightarrow> 'e kbuf list \<Rightarrow> 'e kbuf list option \<Rightarrow> 'e kbuf result"
where
  "read_buffer plain ops p layer_id bufs scales =
     res_bind (local_layer p layer_id) (\<lambda>i.
       case (p_quant p, plain) of
         (Some _, Some d) \<Rightarrow> (case scales of None \<Rightarrow> Inl TypeError | Some sc \<Rightarrow> Inr (d (bufs ! i) (sc ! i) layer_id))
       | _ \<Rightarrow> Inr (if g_store_dtype (p_geom p) \<noteq> g_dtype (p_geom p)
                   then kb_map (o_view ops (g_store_dtype (p_geom p)) (g_dtype (p_geom p))) (bufs ! i) else bufs ! i))"

definition get_kv_buffer ::
  "('e kbuf \<Rightarrow> 'e kbuf \<Rightarrow> int \<Rightarrow> 'e kbuf) option \<Rightarrow> 'e elem_ops \<Rightarrow> 'e kv_pool \<Rightarrow> int \<Rightarrow> ('e kbuf \<times> 'e kbuf) result" where
  "get_kv_buffer plain ops p layer_id =
     res_bind (read_buffer plain ops p layer_id (p_k p) (p_ks p)) (\<lambda>k.
     res_bind (read_buffer plain ops p layer_id (p_v p) (p_vs p)) (\<lambda>v. Inr (k, v)))"

definition hybrid_get_kv_buffer ::
  "('e kbuf \<Rightarrow> 'e kbuf \<Rightarrow> int \<Rightarrow> 'e kbuf) option \<Rightarrow> 'e elem_ops \<Rightarrow> ('e, 'c, 't, 'p) hybrid_kv \<Rightarrow> int \<Rightarrow> ('e kbuf \<times> 'e kbuf) result" where
  "hybrid_get_kv_buffer plain ops h layer =
     res_bind (transfer_full_attention_id h layer) (\<lambda>i. get_kv_buffer plain ops (hk_full h) (int i))"

definition hybrid_move_kv_cache ::
  "'e kv_kernels \<Rightarrow> ('e, 'c, 't, 'p) hybrid_kv \<Rightarrow> nat list \<Rightarrow> nat list \<Rightarrow> ('e, 'c, 't, 'p) hybrid_kv result" where
  "hybrid_move_kv_cache n h tgt src = map_sum id (\<lambda>p. h\<lparr>hk_full := p\<rparr>) (move_kv_cache n (hk_full h) tgt src)"

text \<open>Both halves to the host and back; \<open>tr\<close> translates the ids of a unified pool.\<close>

definition hybrid_get_cpu_copy ::
  "('p, 'h) sibling_ops \<Rightarrow> (nat list \<Rightarrow> nat list) \<Rightarrow> ('e, 'c, 't, 'p) hybrid_kv \<Rightarrow> nat list \<Rightarrow> nat list option \<Rightarrow>
   ('e host_copy \<times> ('c, 't, 'h) mamba_host option) result"
where
  "hybrid_get_cpu_copy sb tr h idx midx =
     res_bind (get_cpu_copy (hk_full h) idx) (\<lambda>kv.
       case midx of None \<Rightarrow> Inr (kv, None)
       | Some m \<Rightarrow> map_sum id (\<lambda>x. (kv, Some x)) (mamba_get_cpu_copy sb (hk_mamba h) (tr m)))"

definition hybrid_load_cpu_copy ::
  "('p, 'h) sibling_ops \<Rightarrow> (nat list \<Rightarrow> nat list) \<Rightarrow> ('e, 'c, 't, 'p) hybrid_kv \<Rightarrow> 'e host_copy \<times> ('c, 't, 'h) mamba_host option \<Rightarrow>
   nat list \<Rightarrow> nat list option \<Rightarrow> ('e, 'c, 't, 'p) hybrid_kv result"
where
  "hybrid_load_cpu_copy sb tr h saved idx midx =
     res_bind (load_cpu_copy (hk_full h) (fst saved) idx) (\<lambda>p.
       case (snd saved, midx) of
         (Some x, Some m) \<Rightarrow> map_sum id (\<lambda>mp. h\<lparr>hk_full := p, hk_mamba := mp\<rparr>) (mamba_load_cpu_copy sb (hk_mamba h) x (tr m))
       | _ \<Rightarrow> Inr (h\<lparr>hk_full := p\<rparr>))"

section \<open>Layer ids\<close>

lemma dget_fold_enumerate:
  "dget (fold (\<lambda>(i, l) d. dset d l i) (enumerate k xs) d) l = dget d l" if "l \<notin> set xs"
  using that by (induction xs arbitrary: k d) (auto simp: dict_simps)

lemma dget_fold_enumerate_nth:
  "dget (fold (\<lambda>(i, l) d. dset d l i) (enumerate k xs) d) (xs ! i) = Some (k + i)" if "distinct xs" "i < length xs"
  using that
proof (induction xs arbitrary: i k d)
  case (Cons x xs)
  then show ?case by (cases i) (simp_all add: dget_fold_enumerate dict_simps)
qed simp

lemma dget_layer_mapping: "distinct ids \<Longrightarrow> i < length ids \<Longrightarrow> dget (layer_mapping ids) (ids ! i) = Some i"
  unfolding layer_mapping_def by (simp add: dget_fold_enumerate_nth)

lemma dget_layer_mapping_None: "l \<notin> set ids \<Longrightarrow> dget (layer_mapping ids) l = None"
  unfolding layer_mapping_def by (simp add: dget_fold_enumerate)

lemma keys_layer_mapping: "distinct ids \<Longrightarrow> map fst (layer_mapping ids) = ids"
proof -
  have "map fst (fold (\<lambda>(i, l) d. dset d l i) (enumerate k xs) d) = map fst d @ xs"
    if "distinct xs" "set xs \<inter> set (map fst d) = {}" for k xs and d :: "(int, nat) dict"
    using that
  proof (induction xs arbitrary: k d)
    case (Cons x xs)
    have "map fst (dset d x k) = map fst d @ [x]" using Cons.prems(2) by (simp add: update_keys)
    moreover have "set xs \<inter> set (map fst (dset d x k)) = {}" using Cons.prems by (auto simp: update_keys)
    ultimately show ?case using Cons.IH[of "dset d x k" "Suc k"] Cons.prems(1) by simp
  qed simp
  from this[of ids "[]" 0] show "distinct ids \<Longrightarrow> map fst (layer_mapping ids) = ids" by (simp add: layer_mapping_def)
qed

text \<open>A hybrid cache over the given full-attention layers, whose pool is dense from layer zero.\<close>

definition hybrid_ok :: "nat \<Rightarrow> int list \<Rightarrow> ('e, 'c, 't, 'p) hybrid_kv \<Rightarrow> bool" where
  "hybrid_ok H ids h \<longleftrightarrow> distinct ids \<and> hk_mapping h = layer_mapping ids \<and> pool_ok H (hk_full h) \<and>
     length (p_k (hk_full h)) = length ids \<and> g_start_layer (p_geom (hk_full h)) = 0"

lemma hybrid_layer:
  assumes "hybrid_ok H ids h" and "i < length ids"
  shows "transfer_full_attention_id h (ids ! i) = Inr i" and "local_layer (hk_full h) (int i) = Inr i" and "i < length (p_k (hk_full h))"
  using assms by (simp_all add: hybrid_ok_def transfer_full_attention_id_def dget_layer_mapping local_layer_def py_pos_def)

lemma hybrid_no_layer: "hybrid_ok H ids h \<Longrightarrow> l \<notin> set ids \<Longrightarrow> transfer_full_attention_id h l = Inl ValueError"
  by (simp add: hybrid_ok_def transfer_full_attention_id_def dget_layer_mapping_None)

section \<open>Reading what was stored\<close>

lemma row_stored_map:
  assumes "row_stored t locs rows t'" and "length rows = length locs"
  shows "row_stored (map h t) locs (map h rows) (map h t')"
  unfolding row_stored_def
proof (intro conjI allI impI)
  show "length (map h t') = length (map h t)" using row_storedD(1)[OF assms(1)] by simp
  fix j assume j: "j < length (map h t)"
  have t': "length t' = length t" by (rule row_storedD(1)[OF assms(1)])
  show "if j \<in> set locs then \<exists>p<length locs. locs ! p = j \<and> map h t' ! j = map h rows ! p else map h t' ! j = map h t ! j"
  proof (cases "j \<in> set locs")
    case True
    then obtain p where "p < length locs" "locs ! p = j" "t' ! j = rows ! p" using row_storedD(2)[OF assms(1), of j] j by auto
    then show ?thesis using True j t' assms(2) by auto
  next
    case False
    then show ?thesis using row_storedD(3)[OF assms(1), of j] j t' by simp
  qed
qed

lemma kb_row_map:
  assumes "kb_ok P H b" and "l < kb_len P b"
  shows "kb_row P (kb_map h b) l = map (map h) (kb_row P b l)"
proof (cases b)
  case (Pages ps)
  then have l: "l div P < length ps" and P: "l mod P < P" using page_index[of l "length ps" P] assms by auto
  have "\<forall>hd\<in>set (ps ! (l div P)). length hd = P" using assms(1) l nth_mem Pages by auto
  then show ?thesis using l P Pages by (simp add: kb_map_def)
next
  case (Slots xs)
  then show ?thesis using assms by (simp add: kb_map_def map_rows_def)
qed

lemma kb_rows_map:
  assumes "kb_ok P H b"
  shows "kb_rows P (kb_map h b) = map (map (map h)) (kb_rows P b)"
proof (rule nth_equalityI)
  have len: "kb_len P (kb_map h b) = kb_len P b" by (cases b) (simp_all add: kb_map_def)
  then show "length (kb_rows P (kb_map h b)) = length (map (map (map h)) (kb_rows P b))" by simp
  fix l assume "l < length (kb_rows P (kb_map h b))"
  then show "kb_rows P (kb_map h b) ! l = map (map (map h)) (kb_rows P b) ! l"
    using kb_row_map[OF assms, of l h] len by simp
qed

text \<open>The element view of a stored byte undoes the byte view of an element.\<close>

definition views_invert :: "'e elem_ops \<Rightarrow> kv_geom \<Rightarrow> bool" where
  "views_invert ops g \<longleftrightarrow>
     (\<forall>x. o_view ops (g_store_dtype g) (g_dtype g) (o_view ops (g_dtype g) (g_store_dtype g) x) = x)"

definition read_view :: "'e elem_ops \<Rightarrow> kv_geom \<Rightarrow> 'e kbuf \<Rightarrow> 'e kbuf" where
  "read_view ops g b = (if g_store_dtype g \<noteq> g_dtype g then kb_map (o_view ops (g_store_dtype g) (g_dtype g)) b else b)"

lemma read_view_stored:
  assumes inv: "views_invert ops g" and ok: "kb_ok P H b" "kb_ok P H b'" and len: "length rows = length locs"
    and st: "row_stored (kb_rows P b) locs (if g_store_dtype g \<noteq> g_dtype g then map_rows (o_view ops (g_dtype g) (g_store_dtype g)) rows else rows) (kb_rows P b')"
  shows "row_stored (kb_rows P (read_view ops g b)) locs rows (kb_rows P (read_view ops g b'))"
proof (cases "g_store_dtype g = g_dtype g")
  case True
  then show ?thesis using st by (simp add: read_view_def)
next
  case False
  let ?v = "o_view ops (g_store_dtype g) (g_dtype g)" and ?w = "o_view ops (g_dtype g) (g_store_dtype g)"
  have "map (map (map ?v)) (map_rows ?w rows) = rows"
    using inv by (simp add: views_invert_def map_rows_def comp_def)
  moreover have "row_stored (map (map (map ?v)) (kb_rows P b)) locs (map (map (map ?v)) (map_rows ?w rows)) (map (map (map ?v)) (kb_rows P b'))"
    by (rule row_stored_map) (use st False len in simp_all)
  ultimately show ?thesis using kb_rows_map[OF ok(1)] kb_rows_map[OF ok(2)] False by (simp add: read_view_def)
qed

lemma get_kv_buffer_plain:
  assumes "p_quant p = None" and "local_layer p l = Inr i"
  shows "get_kv_buffer plain ops p l = Inr (read_view ops (p_geom p) (p_k p ! i), read_view ops (p_geom p) (p_v p ! i))"
  using assms by (simp add: get_kv_buffer_def read_buffer_def read_view_def)

lemma hybrid_get_plain:
  assumes ok: "hybrid_ok H ids h" and i: "i < length ids" and q: "p_quant (hk_full h) = None"
  shows "hybrid_get_kv_buffer plain ops h (ids ! i) =
    Inr (read_view ops (p_geom (hk_full h)) (p_k (hk_full h) ! i), read_view ops (p_geom (hk_full h)) (p_v (hk_full h) ! i))"
  using get_kv_buffer_plain[OF q hybrid_layer(2)[OF ok i]] hybrid_layer(1)[OF ok i] by (simp add: hybrid_get_kv_buffer_def)

lemma converted_cast:
  assumes c: "cast_batch ops (g_dtype g) b ks vs = Inr (seen, c)"
  obtains b' where "converted ops g b ks vs = Inr (seen, b')"
    "b_k b' = (if g_store_dtype g \<noteq> g_dtype g then map_rows (o_view ops (g_dtype g) (g_store_dtype g)) (b_k c) else b_k c)"
    "b_v b' = (if g_store_dtype g \<noteq> g_dtype g then map_rows (o_view ops (g_dtype g) (g_store_dtype g)) (b_v c) else b_v c)"
proof
  have "b_dtype c = g_dtype g" using c unfolding cast_batch_def by (auto split: if_splits simp: res_bind_Inr_iff)
  then show "b_k (view_batch ops (g_store_dtype g) (g_dtype g) c) =
      (if g_store_dtype g \<noteq> g_dtype g then map_rows (o_view ops (g_dtype g) (g_store_dtype g)) (b_k c) else b_k c)"
    "b_v (view_batch ops (g_store_dtype g) (g_dtype g) c) =
      (if g_store_dtype g \<noteq> g_dtype g then map_rows (o_view ops (g_dtype g) (g_store_dtype g)) (b_v c) else b_v c)"
    by (simp_all add: view_batch_def)
  show "converted ops g b ks vs = Inr (seen, view_batch ops (g_store_dtype g) (g_dtype g) c)"
    by (simp add: converted_def c)
qed

lemma hybrid_set_on_layer:
  assumes ok: "hybrid_ok H ids h" and i: "i < length ids"
    and s: "set_kv_buffer f n ops (hk_full h) (Some (ids ! i)) (Bare (hybrid_write_loc li)) b (default_scale ks) (default_scale vs)
       (Some (int i)) msk = Inr (p', seen)"
  shows "hybrid_set_kv_buffer f n ops h (ids ! i) li b ks vs msk = Inr (h\<lparr>hk_full := p'\<rparr>, seen)"
  using s by (simp add: hybrid_set_kv_buffer_def hybrid_layer(1)[OF ok i])

lemma hybrid_get_frame:
  assumes ok: "hybrid_ok H ids h" and ok': "hybrid_ok H ids h'" and q: "p_quant (hk_full h) = None" "p_quant (hk_full h') = None"
    and i: "i < length ids" and w: "layer_written i locs b (hk_full h) (hk_full h')" and l: "l \<noteq> ids ! i"
  shows "hybrid_get_kv_buffer plain ops h' l = hybrid_get_kv_buffer plain ops h l"
proof (cases "l \<in> set ids")
  case True
  then obtain j where j: "j < length ids" "l = ids ! j" by (auto simp: in_set_conv_nth)
  then have "j \<noteq> i" using l by blast
  then show ?thesis using hybrid_get_plain[OF ok j(1) q(1)] hybrid_get_plain[OF ok' j(1) q(2)] j(2) w
    by (simp add: layer_written_def)
next
  case False
  then show ?thesis using hybrid_no_layer[OF ok False] hybrid_no_layer[OF ok' False] by (simp add: hybrid_get_kv_buffer_def)
qed

lemma set_plain_quant:
  assumes "p_quant p = None" and "set_kv_buffer f n ops p layer li b ks vs ov None = Inr (p', seen)"
  shows "p_quant p' = None \<and> length (p_k p') = length (p_k p)"
proof -
  have ms: "map_sum id (\<lambda>q. (q, s)) x = Inr (p', seen) \<Longrightarrow> x = Inr p'" for x :: "'a kv_pool result" and s
    by (cases x) simp_all
  obtain i b' where "store_batch f n p i (fst (unwrap_write_loc li)) b' None = Inr p'"
    using assms by (auto simp: set_kv_buffer_def Let_def res_bind_Inr_iff dest: ms)
  then obtain k v where "p' = set_layer p i k v"
    by (auto simp: store_batch_def Let_def res_bind_Inr_iff split: if_splits)
  then show ?thesis using assms(1) by (simp add: set_layer_def)
qed

text \<open>
  C3: A store through the hybrid cache of an unquantised pool, under a global layer id, is read back
  under the same id as the converted batch (cast to the type of the pool) at the written locations and
  the old rows elsewhere; every other id reads what it read before, or raises as before when it is not
  a full-attention layer.
\<close>

theorem hybrid_reads_back:
  assumes n: "kernels_ok n" and ok: "hybrid_ok H ids h" and q: "p_quant (hk_full h) = None"
    and inv: "views_invert ops (p_geom (hk_full h))" and i: "i < length ids"
    and c: "cast_batch ops (g_dtype (p_geom (hk_full h))) b (default_scale ks) (default_scale vs) = Inr (seen, c)"
    and b: "batch_fits H (length (hybrid_write_loc li)) b"
    and r: "\<forall>x\<in>set (hybrid_write_loc li). x < g_size (p_geom (hk_full h)) + p_page (hk_full h)"
  shows "\<exists>h' k v k' v'. hybrid_set_kv_buffer f n ops h (ids ! i) li b ks vs None = Inr (h', seen) \<and>
     hybrid_get_kv_buffer plain ops h (ids ! i) = Inr (k, v) \<and> hybrid_get_kv_buffer plain ops h' (ids ! i) = Inr (k', v') \<and>
     row_stored (kb_rows (p_page (hk_full h)) k) (hybrid_write_loc li) (b_k c) (kb_rows (p_page (hk_full h)) k') \<and>
     row_stored (kb_rows (p_page (hk_full h)) v) (hybrid_write_loc li) (b_v c) (kb_rows (p_page (hk_full h)) v') \<and>
     (\<forall>l. l \<noteq> ids ! i \<longrightarrow> hybrid_get_kv_buffer plain ops h' l = hybrid_get_kv_buffer plain ops h l)"
proof -
  let ?p = "hk_full h" and ?g = "p_geom (hk_full h)" and ?locs = "hybrid_write_loc li"
  have pk: "pool_ok H ?p" using ok by (simp add: hybrid_ok_def)
  obtain b' where cv: "converted ops ?g b (default_scale ks) (default_scale vs) = Inr (seen, b')"
    and kb: "b_k b' = (if g_store_dtype ?g \<noteq> g_dtype ?g then map_rows (o_view ops (g_dtype ?g) (g_store_dtype ?g)) (b_k c) else b_k c)"
    and vb: "b_v b' = (if g_store_dtype ?g \<noteq> g_dtype ?g then map_rows (o_view ops (g_dtype ?g) (g_store_dtype ?g)) (b_v c) else b_v c)"
    by (rule converted_cast[OF c])
  note w0 = set_kv_writes_rows[OF n pk q _ hybrid_layer(2)[OF ok i] cv, where li = "Bare ?locs" and ov = "Some (int i)"
      and layer = "Some (ids ! i)" and f = f]
  obtain p' where st: "set_kv_buffer f n ops ?p (Some (ids ! i)) (Bare ?locs) b (default_scale ks) (default_scale vs) (Some (int i)) None = Inr (p', seen)"
    and w: "layer_written i ?locs b' ?p p'" and pk': "pool_ok H p'"
    using w0 b r by (auto simp: resolve_layer_def)
  note q' = set_plain_quant[OF q st]
  let ?h = "h\<lparr>hk_full := p'\<rparr>"
  have g': "p_geom p' = ?g" using w by (simp add: layer_written_def)
  have ok': "hybrid_ok H ids ?h" using ok pk' q' g' by (simp add: hybrid_ok_def)
  have bl: "length (b_k c) = length ?locs" "length (b_v c) = length ?locs"
    using converted_fits[OF cv, of H "length ?locs"] b kb vb by (auto simp: batch_fits_def split: if_splits)
  note po = pool_okD[OF pk hybrid_layer(3)[OF ok i]]
  have "i < length (p_k p')" using hybrid_layer(3)[OF ok' i] by simp
  note po' = pool_okD[OF pk' this]
  have oks: "kb_ok (p_page ?p) H (p_k ?p ! i)" "kb_ok (p_page ?p) H (p_v ?p ! i)" using po by (simp_all add: buf_ok_def)
  have oks': "kb_ok (p_page ?p) H (p_k p' ! i)" "kb_ok (p_page ?p) H (p_v p' ! i)" using po' g' by (simp_all add: buf_ok_def)
  have "row_stored (kb_rows (p_page ?p) (read_view ops ?g (p_k ?p ! i))) ?locs (b_k c) (kb_rows (p_page ?p) (read_view ops ?g (p_k p' ! i)))"
    by (rule read_view_stored[OF inv oks(1) oks'(1) bl(1)]) (use w in \<open>simp add: layer_written_def kb\<close>)
  moreover have "row_stored (kb_rows (p_page ?p) (read_view ops ?g (p_v ?p ! i))) ?locs (b_v c) (kb_rows (p_page ?p) (read_view ops ?g (p_v p' ! i)))"
    by (rule read_view_stored[OF inv oks(2) oks'(2) bl(2)]) (use w in \<open>simp add: layer_written_def vb\<close>)
  moreover have "hybrid_get_kv_buffer plain ops ?h l = hybrid_get_kv_buffer plain ops h l" if "l \<noteq> ids ! i" for l
    by (rule hybrid_get_frame[OF ok ok' q _ i _ that]) (use q' w in simp_all)
  ultimately show ?thesis
    using hybrid_set_on_layer[OF ok i st] hybrid_get_plain[OF ok i q] hybrid_get_plain[OF ok' i] q' g' by auto
qed

text \<open>A cache over the full-attention layers 3 and 7, storing the bytes of 8-bit floats in pages.\<close>

definition ex_hybrid :: "(int, int, int, int list) hybrid_kv" where
  "ex_hybrid = (let b = Pages (replicate 2 (replicate 2 (replicate 2 [0]))) in
     \<lparr>hk_full = (small_pool True)\<lparr>p_geom := (small_geom True)\<lparr>g_start_layer := 0, g_layer_num := 2\<rparr>, p_k := [b, b], p_v := [b, b]\<rparr>,
      hk_mamba = ex_mpool, hk_mapping = layer_mapping [3, 7]\<rparr>)"

definition shift_ops :: "int elem_ops" where
  "shift_ops = int_ops\<lparr>o_view := (\<lambda>a b x. if b = Uint8 then x + 100 else x - 100)\<rparr>"

lemma ex_hybrid_ok: "hybrid_ok 2 [3, 7] ex_hybrid"
  by (simp add: hybrid_ok_def ex_hybrid_def Let_def pool_ok_def small_pool_def small_geom_def buf_ok_def)

theorem hybrid_reads_back_witness:
  "\<exists>h' k v k' v'. hybrid_set_kv_buffer \<lparr>f_gpu = True, f_cpu_amx = False\<rparr> ref_kernels shift_ops ex_hybrid 7 (Bare [3, 0]) small_batch
       (Some (Some (HostScale 2))) None None = Inr (h', small_batch\<lparr>b_k := [[[4], [3]], [[2], [1]]]\<rparr>) \<and>
     hybrid_get_kv_buffer None shift_ops ex_hybrid 7 = Inr (k, v) \<and> hybrid_get_kv_buffer None shift_ops h' 7 = Inr (k', v') \<and>
     row_stored (kb_rows 2 k) [3, 0] [[[4], [3]], [[2], [1]]] (kb_rows 2 k') \<and>
     hybrid_get_kv_buffer None shift_ops h' 3 = hybrid_get_kv_buffer None shift_ops ex_hybrid 3 \<and>
     hybrid_get_kv_buffer None shift_ops h' 4 = Inl ValueError"
proof -
  have f: "p_quant (hk_full ex_hybrid) = None" "views_invert shift_ops (p_geom (hk_full ex_hybrid))"
    "p_page (hk_full ex_hybrid) = 2" "g_size (p_geom (hk_full ex_hybrid)) = 2" "g_dtype (p_geom (hk_full ex_hybrid)) = Float8_e4m3fn"
    by (simp_all add: ex_hybrid_def small_pool_def small_geom_def Let_def views_invert_def shift_ops_def)
  have c: "cast_batch shift_ops (g_dtype (p_geom (hk_full ex_hybrid))) small_batch (default_scale (Some (Some (HostScale 2)))) (default_scale None) =
    Inr (small_batch\<lparr>b_k := [[[4], [3]], [[2], [1]]]\<rparr>, \<lparr>b_dtype = Float8_e4m3fn, b_k = [[[4], [3]], [[2], [1]]], b_v = [[[1], [3]], [[5], [7]]]\<rparr>)"
    unfolding f(5) by code_simp
  have l: "hybrid_write_loc (Bare [3, 0]) = [3, 0]" by (simp add: hybrid_write_loc_def)
  have b: "batch_fits 2 (length (hybrid_write_loc (Bare [3, 0]))) small_batch" by (simp add: batch_fits_def small_batch_def l)
  have r: "\<forall>x\<in>set (hybrid_write_loc (Bare [3, 0])). x < g_size (p_geom (hk_full ex_hybrid)) + p_page (hk_full ex_hybrid)"
    by (simp add: l f)
  have none: "hybrid_get_kv_buffer None shift_ops ex_hybrid 4 = Inl ValueError"
    using hybrid_no_layer[OF ex_hybrid_ok, of 4] by (simp add: hybrid_get_kv_buffer_def)
  have i: "1 < length [3, 7::int]" by simp
  obtain h' k v k' v' where "hybrid_set_kv_buffer \<lparr>f_gpu = True, f_cpu_amx = False\<rparr> ref_kernels shift_ops ex_hybrid 7 (Bare [3, 0]) small_batch
       (Some (Some (HostScale 2))) None None = Inr (h', small_batch\<lparr>b_k := [[[4], [3]], [[2], [1]]]\<rparr>)"
    "hybrid_get_kv_buffer None shift_ops ex_hybrid 7 = Inr (k, v)" "hybrid_get_kv_buffer None shift_ops h' 7 = Inr (k', v')"
    "row_stored (kb_rows 2 k) [3, 0] [[[4], [3]], [[2], [1]]] (kb_rows 2 k')"
    and "\<forall>l. l \<noteq> 7 \<longrightarrow> hybrid_get_kv_buffer None shift_ops h' l = hybrid_get_kv_buffer None shift_ops ex_hybrid l"
    using hybrid_reads_back[OF ref_kernels_ok ex_hybrid_ok f(1,2) i c b r, of "\<lparr>f_gpu = True, f_cpu_amx = False\<rparr>" None]
    unfolding l f(3) by (elim exE conjE) simp
  then show ?thesis using none by (intro exI[of _ h'] exI[of _ k] exI[of _ v] exI[of _ k'] exI[of _ v']) simp
qed

section \<open>The scales of a quantised store\<close>

text \<open>
  Under the \<^verbatim>\<open>nvfp4\<close> recipe with scales on the device, a store through the hybrid cache that
  is given no scale, the default one or any host number hands the recipe the two device scales of the
  \<^emph>\<open>global\<close> layer id together with the buffers of the \<^emph>\<open>local\<close> layer, and replaces those buffers only.
\<close>

theorem hybrid_nvfp4_scales:
  assumes ok: "hybrid_ok H ids h" and i: "i < length ids" and p: "p_quant (hk_full h) = Some q" "q_name q = ''nvfp4''"
    and sc: "q_gpu_scales q = Some (gk, gv)" "0 \<le> ids ! i" "ids ! i < int (length gk)" "ids ! i < int (length gv)"
    and ks: "\<forall>xs. ks \<noteq> Some (Some (DeviceScale xs))"
    and buf: "p_ks (hk_full h) = Some sks" "p_vs (hk_full h) = Some svs"
  shows "\<exists>k v sk sv. hybrid_set_kv_buffer f n ops h (ids ! i) li b ks vs None = Inr (h\<lparr>hk_full := (hk_full h)
       \<lparr>p_k := (p_k (hk_full h))[i := k], p_v := (p_v (hk_full h))[i := v],
        p_ks := Some (case sk of Some s \<Rightarrow> sks[i := s] | None \<Rightarrow> sks), p_vs := Some (case sv of Some s \<Rightarrow> svs[i := s] | None \<Rightarrow> svs)\<rparr>\<rparr>, b) \<and>
     q_store q (p_k (hk_full h) ! i, p_v (hk_full h) ! i, Some (sks ! i), Some (svs ! i)) (hybrid_write_loc li) b
       (Some (DeviceScale [gk ! nat (ids ! i)])) (Some (DeviceScale [gv ! nat (ids ! i)])) = (k, v, sk, sv)"
proof -
  have s1: "slice1 xs a = [xs ! a]" if "a < length xs" for xs :: "rat list" and a
    using that by (simp add: slice1_def take_Suc_conv_app_nth Cons_nth_drop_Suc[symmetric])
  have qs: "quantized_scales q (nat (ids ! i)) (default_scale ks) (default_scale vs) =
    (Some (DeviceScale [gk ! nat (ids ! i)]), Some (DeviceScale [gv ! nat (ids ! i)]))"
    using p(2) sc ks by (auto simp: quantized_scales_def s1 default_scale_def nat_less_iff split: option.splits kv_scale.splits)
  obtain k v sk sv where st: "q_store q (p_k (hk_full h) ! i, p_v (hk_full h) ! i, Some (sks ! i), Some (svs ! i)) (hybrid_write_loc li) b
       (Some (DeviceScale [gk ! nat (ids ! i)])) (Some (DeviceScale [gv ! nat (ids ! i)])) = (k, v, sk, sv)"
    using prod_cases4 by blast
  have "hybrid_set_kv_buffer f n ops h (ids ! i) li b ks vs None = Inr (h\<lparr>hk_full := (hk_full h)
       \<lparr>p_k := (p_k (hk_full h))[i := k], p_v := (p_v (hk_full h))[i := v],
        p_ks := Some (case sk of Some s \<Rightarrow> sks[i := s] | None \<Rightarrow> sks), p_vs := Some (case sv of Some s \<Rightarrow> svs[i := s] | None \<Rightarrow> svs)\<rparr>\<rparr>, b)"
    using st qs buf p by (intro hybrid_set_on_layer[OF ok i])
      (simp add: set_kv_buffer_def set_quantized_kv_buffer_def resolve_layer_def hybrid_layer(2)[OF ok i] split: option.split)
  then show ?thesis using st by blast
qed

text \<open>A recipe that stores the rows and records the scales it was given.\<close>

definition ex_recipe :: "int kv_quant" where
  "ex_recipe = \<lparr>q_name = ''nvfp4'', q_gpu_scales = Some (map of_nat [0..<8], map of_nat [10..<18]),
     q_store = (\<lambda>(k, v, sk, sv) locs b ks vs. (kb_write 2 k (zip locs (b_k b)), kb_write 2 v (zip locs (b_v b)),
       map_option (\<lambda>_. Slots [[[\<lfloor>scale_val (the ks)\<rfloor>]]]) sk, map_option (\<lambda>_. Slots [[[\<lfloor>scale_val (the vs)\<rfloor>]]]) sv))\<rparr>"

definition ex_quant_hybrid :: "(int, int, int, int list) hybrid_kv" where
  "ex_quant_hybrid = ex_hybrid\<lparr>hk_full := (hk_full ex_hybrid)\<lparr>p_quant := Some ex_recipe, p_ks := Some [Slots [], Slots []], p_vs := Some [Slots [], Slots []]\<rparr>\<rparr>"

theorem hybrid_nvfp4_scales_witness:
  "\<exists>h'. hybrid_set_kv_buffer \<lparr>f_gpu = True, f_cpu_amx = False\<rparr> ref_kernels shift_ops ex_quant_hybrid 7 (Bare [3, 0]) small_batch
       None (Some (Some (HostScale 1))) None = Inr (h', small_batch) \<and>
     p_ks (hk_full h') = Some [Slots [], Slots [[[7]]]] \<and> p_vs (hk_full h') = Some [Slots [], Slots [[[17]]]]"
proof -
  have ok: "hybrid_ok 2 [3, 7] ex_quant_hybrid"
    using ex_hybrid_ok by (simp add: ex_quant_hybrid_def hybrid_ok_def pool_ok_def)
  have f: "p_quant (hk_full ex_quant_hybrid) = Some ex_recipe" "q_name ex_recipe = ''nvfp4''"
    "q_gpu_scales ex_recipe = Some (map of_nat [0..<8], map of_nat [10..<18])"
    "p_ks (hk_full ex_quant_hybrid) = Some [Slots [], Slots []]" "p_vs (hk_full ex_quant_hybrid) = Some [Slots [], Slots []]"
    by (simp_all add: ex_quant_hybrid_def ex_recipe_def del: upt_rec_numeral)
  have i: "1 < length [3, 7::int]" "0 \<le> [3, 7::int] ! 1" "[3, 7::int] ! 1 < int (length (map of_nat [0..<8] :: rat list))"
    "[3, 7::int] ! 1 < int (length (map of_nat [10..<18] :: rat list))" "\<forall>xs. None \<noteq> Some (Some (DeviceScale xs))" by simp_all
  note t = hybrid_nvfp4_scales[OF ok i(1) f(1-3) i(2-5) f(4,5), of "\<lparr>f_gpu = True, f_cpu_amx = False\<rparr>" ref_kernels shift_ops "Bare [3, 0]"
    small_batch "Some (Some (HostScale 1))"]
  then obtain k v sk sv where st: "q_store ex_recipe (p_k (hk_full ex_quant_hybrid) ! 1, p_v (hk_full ex_quant_hybrid) ! 1, Some (Slots []), Some (Slots []))
       (hybrid_write_loc (Bare [3, 0])) small_batch (Some (DeviceScale [7])) (Some (DeviceScale [17])) = (k, v, sk, sv)"
    and h': "hybrid_set_kv_buffer \<lparr>f_gpu = True, f_cpu_amx = False\<rparr> ref_kernels shift_ops ex_quant_hybrid 7 (Bare [3, 0]) small_batch
       None (Some (Some (HostScale 1))) None = Inr (ex_quant_hybrid\<lparr>hk_full := (hk_full ex_quant_hybrid)
       \<lparr>p_k := (p_k (hk_full ex_quant_hybrid))[1 := k], p_v := (p_v (hk_full ex_quant_hybrid))[1 := v],
        p_ks := Some (case sk of Some s \<Rightarrow> [Slots [], Slots []][1 := s] | None \<Rightarrow> [Slots [], Slots []]),
        p_vs := Some (case sv of Some s \<Rightarrow> [Slots [], Slots []][1 := s] | None \<Rightarrow> [Slots [], Slots []])\<rparr>\<rparr>, small_batch)"
    by (elim exE conjE) (simp add: nth_append)
  have "sk = Some (Slots [[[7]]])" "sv = Some (Slots [[[17]]])" using st by (simp_all add: ex_recipe_def scale_val_def)
  then show ?thesis using h' by simp
qed

section \<open>The two halves to the host and back\<close>

text \<open>Two caches between which slots can be carried over.\<close>

definition kv_compatible :: "nat \<Rightarrow> 'e kv_pool \<Rightarrow> 'e kv_pool \<Rightarrow> bool" where
  "kv_compatible H p q \<longleftrightarrow> pool_ok H p \<and> \<not> g_use_hnd (p_geom p) \<and> pool_ok H q \<and> \<not> g_use_hnd (p_geom q) \<and>
     p_page q = p_page p \<and> p_chunk q = p_chunk p \<and> length (p_k q) = length (p_k p) \<and> 0 < p_chunk p"

definition mamba_compatible :: "nat \<Rightarrow> nat \<Rightarrow> nat \<Rightarrow> ('p \<Rightarrow> nat) \<Rightarrow> ('c, 't, 'p) mamba_pool \<Rightarrow> ('c, 't, 'p) mamba_pool \<Rightarrow> bool" where
  "mamba_compatible L n m cap p q \<longleftrightarrow> mpool_ok L n p \<and> mpool_ok L m q \<and> length (mp_conv q) = length (mp_conv p) \<and>
     length (mp_siblings q) = length (mp_siblings p) \<and> mp_cache_base p = None \<and>
     (\<forall>x\<in>set (mp_siblings p). cap x = n) \<and> (\<forall>x\<in>set (mp_siblings q). cap x = m)"

text \<open>
  C14: Offloading a request from a hybrid cache and loading it later into another (for example the
  same one after it served other requests) restores the key and value rows of every full-attention
  layer, the windows and recurrent state of every linear layer and the rows of every registered
  sibling at the new slots, and touches no other slot; the block scales of a quantised cache are
  those of the target, not the saved ones.
\<close>

theorem hybrid_host_roundtrip:
  assumes sib: "slot_state sb row cap blank" and kv: "kv_compatible H (hk_full h) (hk_full g)"
    and mb: "mamba_compatible L n m cap (hk_mamba h) (hk_mamba g)"
    and len: "length idx2 = length idx" and l: "\<forall>l\<in>set idx. l < g_size (p_geom (hk_full h)) + p_page (hk_full h)"
    and l2: "\<forall>l\<in>set idx2. l < g_size (p_geom (hk_full g)) + p_page (hk_full g)"
    and s: "slots_in m (tg dst)" "\<forall>x\<in>set (th src). x < n" "length (th src) = length (tg dst)"
    and got: "hybrid_get_cpu_copy sb th h idx (Some src) = Inr saved"
  shows "\<exists>g'. hybrid_load_cpu_copy sb tg g saved idx2 (Some dst) = Inr g' \<and>
     (\<forall>i<length (p_k (hk_full h)). layer_restored (hk_full h) idx (hk_full g) idx2 (hk_full g') i) \<and>
     (\<forall>i<length (tg dst). slot_state_of (hk_mamba g') L (tg dst ! i) = slot_state_of (hk_mamba h) L (th src ! i)) \<and>
     (\<forall>x<m. x \<notin> set (tg dst) \<longrightarrow> slot_state_of (hk_mamba g') L x = slot_state_of (hk_mamba g) L x) \<and>
     (\<forall>k<length (mp_siblings (hk_mamba h)). \<forall>i<length (tg dst).
        row (mp_siblings (hk_mamba g') ! k) (tg dst ! i) = row (mp_siblings (hk_mamba h) ! k) (th src ! i)) \<and>
     p_ks (hk_full g') = p_ks (hk_full g) \<and> p_vs (hk_full g') = p_vs (hk_full g)"
proof -
  have kc: "pool_ok H (hk_full h)" "\<not> g_use_hnd (p_geom (hk_full h))" "pool_ok H (hk_full g)" "\<not> g_use_hnd (p_geom (hk_full g))"
    "p_page (hk_full g) = p_page (hk_full h)" "p_chunk (hk_full g) = p_chunk (hk_full h)"
    "length (p_k (hk_full g)) = length (p_k (hk_full h))" "0 < p_chunk (hk_full h)"
    using kv by (simp_all add: kv_compatible_def)
  obtain hc p' where hc: "get_cpu_copy (hk_full h) idx = Inr hc" "load_cpu_copy (hk_full g) hc idx2 = Inr p'"
    and kvr: "\<forall>i<length (p_k (hk_full h)). layer_restored (hk_full h) idx (hk_full g) idx2 p' i" "p_ks p' = p_ks (hk_full g)" "p_vs p' = p_vs (hk_full g)"
    using host_copy_roundtrip[OF kc len l l2] by (elim exE conjE) rule
  obtain mh where mh: "mamba_get_cpu_copy sb (hk_mamba h) (th src) = Inr mh" and sv: "saved = (hc, Some mh)"
    using got hc(1) by (cases "mamba_get_cpu_copy sb (hk_mamba h) (th src)") (auto simp: hybrid_get_cpu_copy_def)
  have mc: "mpool_ok L n (hk_mamba h)" "mpool_ok L m (hk_mamba g)" "length (mp_conv (hk_mamba g)) = length (mp_conv (hk_mamba h))"
    "length (mp_siblings (hk_mamba g)) = length (mp_siblings (hk_mamba h))" "mp_cache_base (hk_mamba h) = None"
    "\<forall>x\<in>set (mp_siblings (hk_mamba h)). cap x = n" "\<forall>x\<in>set (mp_siblings (hk_mamba g)). cap x = m"
    using mb by (simp_all add: mamba_compatible_def)
  obtain mp' where "mamba_load_cpu_copy sb (hk_mamba g) mh (tg dst) = Inr mp'"
    and mr: "\<forall>i<length (tg dst). slot_state_of mp' L (tg dst ! i) = slot_state_of (hk_mamba h) L (th src ! i)"
      "\<forall>x<m. x \<notin> set (tg dst) \<longrightarrow> slot_state_of mp' L x = slot_state_of (hk_mamba g) L x"
      "\<forall>k<length (mp_siblings (hk_mamba h)). \<forall>i<length (tg dst). row (mp_siblings mp' ! k) (tg dst ! i) = row (mp_siblings (hk_mamba h) ! k) (th src ! i)"
    using mamba_host_roundtrip[OF sib mc(1-5) mh s mc(6,7)] by (elim exE conjE) (rule that; assumption?; blast)
  then have "hybrid_load_cpu_copy sb tg g saved idx2 (Some dst) = Inr (g\<lparr>hk_full := p', hk_mamba := mp'\<rparr>)"
    using hc(2) sv by (simp add: hybrid_load_cpu_copy_def)
  then show ?thesis using kvr mr by (intro exI[of _ "g\<lparr>hk_full := p', hk_mamba := mp'\<rparr>"]) simp
qed

definition ex_slots_hybrid :: "(int, int, int, int list) hybrid_kv" where
  "ex_slots_hybrid = \<lparr>hk_full = small_pool False, hk_mamba = ex_mpool, hk_mapping = layer_mapping [3]\<rparr>"

theorem hybrid_host_roundtrip_witness:
  "\<exists>saved g'. hybrid_get_cpu_copy (row_sibling 0) id ex_slots_hybrid [3, 1, 0] (Some [1, 2]) = Inr saved \<and>
     hybrid_load_cpu_copy (row_sibling 0) id ex_slots_hybrid saved [0, 1, 2] (Some [2, 0]) = Inr g' \<and>
     layer_restored (small_pool False) [3, 1, 0] (small_pool False) [0, 1, 2] (hk_full g') 0 \<and>
     slot_state_of (hk_mamba g') 2 2 = slot_state_of ex_mpool 2 1 \<and> mp_siblings (hk_mamba g') ! 0 ! 0 = 22"
proof -
  let ?h = ex_slots_hybrid and ?sb = "row_sibling (0::int)"
  have f: "hk_full ?h = small_pool False" "hk_mamba ?h = ex_mpool" by (simp_all add: ex_slots_hybrid_def)
  have kv: "kv_compatible 2 (hk_full ?h) (hk_full ?h)"
    unfolding f using small_pool_ok[of False] by (simp add: kv_compatible_def small_pool_def small_geom_def Let_def)
  have mb: "mamba_compatible 2 3 3 length (hk_mamba ?h) (hk_mamba ?h)"
    unfolding f by (simp add: mamba_compatible_def mpool_ok_def tensor_ok_def ex_mpool_def)
  have l: "length [0, 1, 2::nat] = length [3, 1, 0::nat]" "\<forall>l\<in>set [3, 1, 0]. l < g_size (p_geom (hk_full ?h)) + p_page (hk_full ?h)"
    "\<forall>l\<in>set [0, 1, 2]. l < g_size (p_geom (hk_full ?h)) + p_page (hk_full ?h)"
    unfolding f by (simp_all add: small_pool_def small_geom_def Let_def)
  have s: "slots_in 3 (id [2, 0])" "\<forall>x\<in>set (id [1, 2]). x < (3::nat)" "length (id [1, 2::nat]) = length (id [2, 0::nat])"
    by (simp_all add: slots_in_def)
  obtain saved where got: "hybrid_get_cpu_copy ?sb id ?h [3, 1, 0] (Some [1, 2]) = Inr saved"
    using get_all_layers[OF small_pool_ok[of False], of "[3, 1, 0]"] l(2)
    by (simp add: hybrid_get_cpu_copy_def f mamba_get_cpu_copy_def ex_mpool_def small_pool_def small_geom_def Let_def)
  have d: "length (p_k (hk_full ?h)) = 1" "mp_siblings ex_mpool = [[20, 21, 22]]"
    by (simp_all add: f small_pool_def ex_mpool_def Let_def)
  note t = hybrid_host_roundtrip[where tg = id and th = id and dst = "[2, 0]" and src = "[1, 2]", OF row_state.slot_state_axioms kv mb l s got]
  from t obtain g' where g': "hybrid_load_cpu_copy ?sb id ?h saved [0, 1, 2] (Some [2, 0]) = Inr g'"
    "\<forall>i<1. layer_restored (hk_full ?h) [3, 1, 0] (hk_full ?h) [0, 1, 2] (hk_full g') i"
    "\<forall>i<length (id [2, 0::nat]). slot_state_of (hk_mamba g') 2 (id [2, 0] ! i) = slot_state_of (hk_mamba ?h) 2 (id [1, 2] ! i)"
    "\<forall>k<length (mp_siblings (hk_mamba ?h)). \<forall>i<length (id [2, 0::nat]). mp_siblings (hk_mamba g') ! k ! (id [2, 0] ! i) = mp_siblings (hk_mamba ?h) ! k ! (id [1, 2] ! i)"
    unfolding d(1) by (elim exE conjE)
  have "slot_state_of (hk_mamba g') 2 2 = slot_state_of ex_mpool 2 1" using g'(3)[rule_format, of 0] by (simp add: f)
  moreover have "mp_siblings (hk_mamba g') ! 0 ! 0 = 22"
    using g'(4)[rule_format, of 0 1] by (simp add: f d(2))
  moreover have "layer_restored (small_pool False) [3, 1, 0] (small_pool False) [0, 1, 2] (hk_full g') 0"
    using g'(2)[rule_format, of 0] by (simp add: f)
  ultimately show ?thesis using got g'(1) by blast
qed

end
