(* ===== verification/Mamba_Window.thy ===== *)
theory Mamba_Window
  imports Kv_Layout
begin

text \<open>
  The allocation of the linear-attention state pool, \<^verbatim>\<open>MambaPool.__init__\<close> of
  \<^verbatim>\<open>runtime-src/memory_pool.py\<close>: the shapes of the state tensors and of the replay rings, which
  cursors exist, the accounting, and the deduplicated windows of the convolution, where the windows
  of consecutive draft tokens overlap in memory through a strided view.
\<close>

section \<open>Strides\<close>

text \<open>Strides of a contiguous tensor, the address of an index, and the indices of a shape.\<close>

fun strides :: "nat list \<Rightarrow> nat list" where
  "strides [] = []"
| "strides (d # ds) = prod_list ds # strides ds"

definition addr :: "nat list \<Rightarrow> nat list \<Rightarrow> nat" where
  "addr idx strs = sum_list (map2 (*) idx strs)"

definition in_shape :: "nat list \<Rightarrow> nat list \<Rightarrow> bool" where
  "in_shape idx shape \<longleftrightarrow> list_all2 (<) idx shape"

lemma length_strides [simp]: "length (strides ds) = length ds"
  by (induction ds) simp_all

lemma addr_simps [simp]: "addr [] xs = 0" "addr xs [] = 0" "addr (i # is) (s # ss) = i * s + addr is ss"
  by (simp_all add: addr_def)

lemma addr_append: "length a = length s \<Longrightarrow> addr (a @ b) (s @ t) = addr a s + addr b t"
  by (simp add: addr_def)

lemma in_shape_simps [simp]:
  "in_shape [] [] = True" "in_shape (i # is) (d # ds) = (i < d \<and> in_shape is ds)" "in_shape [] (d # ds) = False" "in_shape (i # is) [] = False"
  by (simp_all add: in_shape_def)

lemma in_shape_length: "in_shape idx shape \<Longrightarrow> length idx = length shape"
  by (simp add: in_shape_def list_all2_lengthD)

lemma addr_less: "in_shape idx shape \<Longrightarrow> addr idx (strides shape) < prod_list shape"
proof (induction shape arbitrary: idx)
  case Nil
  then show ?case by (cases idx) simp_all
next
  case (Cons d ds)
  then obtain i "is" where idx: "idx = i # is" "i < d" "in_shape is ds" by (cases idx) auto
  have "addr is (strides ds) < prod_list ds" by (rule Cons.IH[OF idx(3)])
  moreover have "(i + 1) * prod_list ds \<le> d * prod_list ds" using idx(2) by (intro mult_right_mono) simp_all
  ultimately show ?case using idx(1) by simp
qed

lemma addr_inj: "in_shape a shape \<Longrightarrow> in_shape b shape \<Longrightarrow> addr a (strides shape) = addr b (strides shape) \<Longrightarrow> a = b"
proof (induction shape arbitrary: a b)
  case Nil
  then show ?case by (cases a; cases b) simp_all
next
  case (Cons d ds)
  obtain i "is" where a: "a = i # is" "in_shape is ds" using Cons.prems(1) by (cases a) auto
  obtain j js where b: "b = j # js" "in_shape js ds" using Cons.prems(2) by (cases b) auto
  let ?P = "prod_list ds"
  have l: "addr is (strides ds) < ?P" "addr js (strides ds) < ?P" using addr_less a b by blast+
  have eq: "i * ?P + addr is (strides ds) = j * ?P + addr js (strides ds)" using Cons.prems(3) a b by simp
  have "(i * ?P + addr is (strides ds)) div ?P = i" "(j * ?P + addr js (strides ds)) div ?P = j"
    using l by (simp_all add: div_nat_eqI)
  then have "i = j" using eq by simp
  then show ?case using Cons.IH[OF a(2) b(2)] eq a(1) b(1) by simp
qed

lemma addr_shift:
  assumes "ax < length idx" and "length strs = length idx"
  shows "addr (idx[ax := idx ! ax + t]) strs = addr idx strs + t * strs ! ax"
  using assms
proof (induction idx arbitrary: ax strs)
  case Nil
  then show ?case by simp
next
  case (Cons i "is")
  then obtain s ss where strs: "strs = s # ss" by (cases strs) auto
  show ?case using Cons strs by (cases ax) (simp_all add: algebra_simps)
qed

section \<open>The deduplicated convolution windows\<close>

text \<open>The axis that holds the window: the trailing one is preferred, one axis for all tensors.\<close>

fun detect_axis :: "nat \<Rightarrow> nat option \<Rightarrow> nat list list \<Rightarrow> nat option result" where
  "detect_axis w axis [] = Inr axis"
| "detect_axis w axis (s # ss) =
     (if s = [] then Inl IndexError
      else let sa = (if last s = w then Some (length s - 1) else if hd s = w then Some 0 else None) in
      case sa of
        None \<Rightarrow> Inl ValueError
      | Some a \<Rightarrow> (case axis of
            None \<Rightarrow> detect_axis w (Some a) ss
          | Some b \<Rightarrow> if b \<noteq> a then Inl ValueError else detect_axis w (Some b) ss))"

definition detect_conv_window_axis :: "nat list list \<Rightarrow> nat \<Rightarrow> nat option result" where
  "detect_conv_window_axis shapes win_len = detect_axis win_len None shapes"

text \<open>
  \<open>_allocate_deduplicated_conv_window\<close>: the shape of the shared buffer, and the shape and strides of
  the view in which every draft token sees its own window.
\<close>

record dedup =
  u_phys :: "nat list"
  u_view_shape :: "nat list"
  u_view_strides :: "nat list"

definition allocate_dedup :: "nat list \<Rightarrow> int \<Rightarrow> nat \<Rightarrow> nat \<Rightarrow> nat \<Rightarrow> dedup" where
  "allocate_dedup conv_shape conv_axis layers spec_slots drafts =
     (let ax = nat (conv_axis mod int (length conv_shape));
          win = conv_shape ! ax;
          pconv = conv_shape[ax := drafts + win - 1];
          phys = [layers, spec_slots + 1] @ pconv;
          pstr = drop 2 (strides phys)
      in \<lparr>u_phys = phys, u_view_shape = [layers, spec_slots + 1, drafts] @ conv_shape,
          u_view_strides = [strides phys ! 0, strides phys ! 1, pstr ! ax] @ pstr\<rparr>)"

lemma dedup_address:
  fixes conv_shape :: "nat list" and ax layers spec drafts :: nat
  defines "u \<equiv> allocate_dedup conv_shape (int ax) layers spec drafts"
  assumes ax: "ax < length conv_shape" and v: "in_shape (l # s # t # c) (u_view_shape u)"
  shows "addr (l # s # t # c) (u_view_strides u) = addr (l # s # c[ax := c ! ax + t]) (strides (u_phys u)) \<and>
     in_shape (l # s # c[ax := c ! ax + t]) (u_phys u)"
proof -
  let ?win = "conv_shape ! ax"
  let ?pconv = "conv_shape[ax := drafts + ?win - 1]"
  have mod: "nat (int ax mod int (length conv_shape)) = ax" using ax by simp
  have u: "u_phys u = layers # (spec + 1) # ?pconv" "u_view_shape u = layers # (spec + 1) # drafts # conv_shape"
    "u_view_strides u = [prod_list ((spec + 1) # ?pconv), prod_list ?pconv, strides ?pconv ! ax] @ strides ?pconv"
    unfolding u_def allocate_dedup_def by (simp_all add: mod Let_def)
  have c: "in_shape c conv_shape" "t < drafts" "l < layers" "s < spec + 1" using v u(2) by simp_all
  have lc: "length c = length conv_shape" by (rule in_shape_length[OF c(1)])
  have cax: "c ! ax < ?win" using c(1) ax by (auto simp: in_shape_def list_all2_conv_all_nth)
  have "in_shape (c[ax := c ! ax + t]) ?pconv"
    unfolding in_shape_def list_all2_conv_all_nth
  proof (intro conjI allI impI)
    show "length (c[ax := c ! ax + t]) = length ?pconv" using lc by simp
    fix i assume i: "i < length (c[ax := c ! ax + t])"
    show "c[ax := c ! ax + t] ! i < ?pconv ! i"
    proof (cases "i = ax")
      case True
      then show ?thesis using ax lc cax c(2) by simp
    next
      case False
      then show ?thesis using c(1) i lc by (auto simp: in_shape_def list_all2_conv_all_nth)
    qed
  qed
  moreover have "addr (c[ax := c ! ax + t]) (strides ?pconv) = addr c (strides ?pconv) + t * strides ?pconv ! ax"
    by (rule addr_shift) (use ax lc in simp_all)
  ultimately show ?thesis using u c by simp
qed

text \<open>
  C35: Through the strided view, draft token \<open>t\<close> sees the shared buffer shifted by \<open>t\<close> along the window
  axis: every view index stays inside the buffer, and two view indices share a memory cell exactly
  when layer, slot and the other coordinate agree and window position plus token do.
\<close>

theorem dedup_windows_slide:
  fixes conv_shape :: "nat list" and ax layers spec drafts :: nat
  defines "u \<equiv> allocate_dedup conv_shape (int ax) layers spec drafts"
  assumes ax: "ax < length conv_shape"
    and v: "in_shape (l # s # t # c) (u_view_shape u)" and v': "in_shape (l' # s' # t' # c') (u_view_shape u)"
  shows "addr (l # s # t # c) (u_view_strides u) < prod_list (u_phys u) \<and>
     (addr (l # s # t # c) (u_view_strides u) = addr (l' # s' # t' # c') (u_view_strides u) \<longleftrightarrow>
        l = l' \<and> s = s' \<and> c[ax := c ! ax + t] = c'[ax := c' ! ax + t'])"
proof -
  note a = dedup_address[OF ax v[unfolded u_def]] and b = dedup_address[OF ax v'[unfolded u_def]]
  show ?thesis unfolding u_def
    using a b addr_less[OF conjunct2[OF a]] addr_inj[OF conjunct2[OF a] conjunct2[OF b]] by auto
qed

theorem dedup_windows_slide_witness:
  "let u = allocate_dedup [5, 3] 1 2 4 6 in
   u_phys u = [2, 5, 5, 8] \<and> addr [1, 4, 2, 3, 1] (u_view_strides u) < prod_list (u_phys u) \<and>
   addr [1, 4, 2, 3, 1] (u_view_strides u) = addr [1, 4, 1, 3, 2] (u_view_strides u)"
proof -
  have u: "u_phys (allocate_dedup [5, 3] 1 2 4 6) = [2, 5, 5, 8]"
    "in_shape [1, 4, 2, 3, 1] (u_view_shape (allocate_dedup [5, 3] (int 1) 2 4 6))"
    "in_shape [1, 4, 1, 3, 2] (u_view_shape (allocate_dedup [5, 3] (int 1) 2 4 6))"
    by (simp_all add: allocate_dedup_def Let_def)
  show ?thesis
    using dedup_windows_slide[OF _ u(2,3)] u(1) by simp
qed

text \<open>The shared buffer is no larger than one window per draft token.\<close>

lemma dedup_not_larger:
  assumes "0 < drafts" and "0 < (win::nat)"
  shows "drafts + win - 1 \<le> drafts * win"
proof -
  have "(drafts - 1) * 1 \<le> (drafts - 1) * win" using assms by (intro mult_left_mono) simp_all
  then have "drafts - 1 + win \<le> (drafts - 1) * win + win" by simp
  also have "\<dots> = drafts * win" using assms(1) by (cases drafts) simp_all
  finally show ?thesis using assms by simp
qed

definition conv_window_dedup_enabled :: "bool \<Rightarrow> bool \<Rightarrow> nat option \<Rightarrow> bool \<Rightarrow> bool" where
  "conv_window_dedup_enabled npu cpu topk kda \<longleftrightarrow>
     \<not> npu \<and> \<not> cpu \<and> \<not> kda \<and> (case topk of None \<Rightarrow> True | Some k \<Rightarrow> k \<le> 1)"

section \<open>The tensors of the pool\<close>

record mamba_cfg =
  y_size :: nat
  y_spec_size :: nat
  y_layers :: nat
  y_conv_shapes :: "nat list list"
  y_temporal :: "nat \<times> nat \<times> nat"
  y_conv_dtype :: dtype
  y_ssm_dtype :: dtype
  y_num_k_heads :: "nat option"
  y_is_kda :: bool
  y_conv_kernel :: nat
  y_no_dedup :: bool
  y_drafts :: "nat option"
  y_topk :: "nat option"
  y_replay :: bool
  y_replay_spec :: bool
  y_ring_len :: nat
  y_cache_none :: bool

type_synonym tens = "nat list \<times> dtype"

record mamba_tensors =
  z_conv :: "tens list"
  z_temporal :: tens
  z_d :: "tens option"
  z_k :: "tens option"
  z_g :: "tens option"
  z_rawv :: "tens option"
  z_rawk :: "tens option"
  z_beta :: "tens option"
  z_inter_ssm :: "tens option"
  z_windows :: "(tens list) option"
  z_windows_phys :: "tens list"
  z_write_pos :: "nat option"
  z_cache_base :: "nat option"
  z_is_flush :: "nat option"

text \<open>\<open>x & (x - 1) != 0\<close> with Python's reading of \<open>0 & -1\<close>.\<close>

definition not_pow2 :: "nat \<Rightarrow> bool" where
  "not_pow2 x \<longleftrightarrow> and (int x) (int x - 1) \<noteq> 0"

text \<open>The replay rings, \<open>(d, k, g, rawv, rawk, beta)\<close>.\<close>

definition replay_rings ::
  "mamba_cfg \<Rightarrow> (tens option \<times> tens option \<times> tens option \<times> tens option \<times> tens option \<times> tens option) result" where
  "replay_rings y =
     (case y_temporal y of (hv, vd, kd) \<Rightarrow>
      let fold = y_replay_spec y; L = y_ring_len y; n = y_size y + 1; ml = y_layers y;
          hk = (case y_num_k_heads y of Some h \<Rightarrow> h | None \<Rightarrow> hv);
          ring = (if y_replay_spec y then y_conv_dtype y else y_ssm_dtype y);
          rl = (if fold \<and> \<not> y_is_kda y then (case y_drafts y of Some d \<Rightarrow> d | None \<Rightarrow> L) else L);
          dk = \<not> fold \<or> y_is_kda y;
          g = (if y_is_kda y then [ml, n, hv, rl, kd] else [ml, n, hv, rl])
      in if \<not> (y_replay y \<or> y_replay_spec y) then Inr (None, None, None, None, None, None)
         else if y_replay_spec y \<and> y_is_kda y \<and> not_pow2 L then Inl ValueError
         else if y_replay_spec y \<and> y_is_kda y \<and> (case y_drafts y of Some d \<Rightarrow> L < 2 * d | None \<Rightarrow> False) then Inl ValueError
         else Inr (if dk then Some ([ml, n, hv, L, vd], ring) else None,
                   if dk then Some ([ml, n, hk, L, kd], ring) else None,
                   Some (g, Float32),
                   if y_replay_spec y then Some ([ml, n, hv, rl, vd], y_conv_dtype y) else None,
                   if y_replay_spec y then Some ([ml, n, hk, rl, kd], y_conv_dtype y) else None,
                   if y_replay_spec y then Some ([ml, n, hv, rl], Float32) else None))"

text \<open>The intermediate windows on a GPU: the logical tensors and the physical ones.\<close>

definition conv_windows :: "mamba_cfg \<Rightarrow> nat \<Rightarrow> (tens list \<times> tens list) result" where
  "conv_windows y drafts =
     (if \<not> y_no_dedup y \<and> conv_window_dedup_enabled False False (y_topk y) (y_is_kda y)
      then res_bind (detect_conv_window_axis (y_conv_shapes y) (y_conv_kernel y - 1)) (\<lambda>axis.
           case axis of
             None \<Rightarrow> Inr ([], [])
           | Some a \<Rightarrow>
               (let us = map (\<lambda>s. allocate_dedup s (int a) (y_layers y) (y_spec_size y) drafts) (y_conv_shapes y) in
                Inr (map (\<lambda>u. (u_view_shape u, y_conv_dtype y)) us, map (\<lambda>u. (u_phys u, y_conv_dtype y)) us)))
      else (let ws = map (\<lambda>s. ([y_layers y, y_spec_size y + 1, drafts, s ! 0, s ! 1], y_conv_dtype y)) (y_conv_shapes y) in
            Inr (ws, ws)))"

definition init_mamba :: "mamba_cfg \<Rightarrow> mamba_tensors result" where
  "init_mamba y =
     (case y_temporal y of (hv, vd, kd) \<Rightarrow>
      let n = y_size y + 1; on = y_replay y \<or> y_replay_spec y; fold = y_replay_spec y;
          conv = map (\<lambda>s. ([y_layers y, n] @ s, y_conv_dtype y)) (y_conv_shapes y);
          temporal = ([y_layers y, n, hv, vd, kd], y_ssm_dtype y);
          wp = (if on \<and> \<not> fold then Some n else None);
          cb = (if y_replay_spec y \<and> \<not> fold then Some n else None)
      in res_bind (replay_rings y) (\<lambda>(d, k, g, rv, rk, be).
         case y_drafts y of
           None \<Rightarrow> Inr \<lparr>z_conv = conv, z_temporal = temporal, z_d = d, z_k = k, z_g = g, z_rawv = rv, z_rawk = rk, z_beta = be,
                       z_inter_ssm = None, z_windows = None, z_windows_phys = [], z_write_pos = wp, z_cache_base = cb, z_is_flush = cb\<rparr>
         | Some dr \<Rightarrow> res_bind (conv_windows y dr) (\<lambda>(ws, ph).
             Inr \<lparr>z_conv = conv, z_temporal = temporal, z_d = d, z_k = k, z_g = g, z_rawv = rv, z_rawk = rk, z_beta = be,
                  z_inter_ssm = (if y_replay_spec y \<or> y_cache_none y then None
                                 else Some ([y_layers y, y_spec_size y + 1, dr, hv, vd, kd], y_ssm_dtype y)),
                  z_windows = Some ws, z_windows_phys = ph, z_write_pos = wp, z_cache_base = cb, z_is_flush = cb\<rparr>)))"

section \<open>Accounting\<close>

definition tens_bytes :: "tens \<Rightarrow> nat" where
  "tens_bytes t = tensor_size_bytes (fst t) (snd t)"

definition opt_bytes :: "tens option \<Rightarrow> nat" where
  "opt_bytes t = (case t of None \<Rightarrow> 0 | Some x \<Rightarrow> tens_bytes x)"

text \<open>\<open>State.mem_usage_bytes\<close> charges every tensor by its logical shape.\<close>

definition state_bytes :: "mamba_tensors \<Rightarrow> nat" where
  "state_bytes z = sum_list (map tens_bytes (z_conv z)) + tens_bytes (z_temporal z) + opt_bytes (z_d z) + opt_bytes (z_k z) +
     opt_bytes (z_g z) + opt_bytes (z_rawv z) + opt_bytes (z_rawk z) + opt_bytes (z_beta z) + opt_bytes (z_inter_ssm z) +
     (case z_windows z of None \<Rightarrow> 0 | Some ws \<Rightarrow> sum_list (map tens_bytes ws))"

definition pool_usage_bytes :: "mamba_tensors \<Rightarrow> int" where
  "pool_usage_bytes z = int (state_bytes z) -
     (case z_windows z of None \<Rightarrow> 0 | Some ws \<Rightarrow> int (sum_list (map tens_bytes ws)) - int (sum_list (map tens_bytes (z_windows_phys z))))"

text \<open>What is really allocated.\<close>

definition allocated_bytes :: "mamba_tensors \<Rightarrow> nat" where
  "allocated_bytes z = sum_list (map tens_bytes (z_conv z)) + tens_bytes (z_temporal z) + opt_bytes (z_d z) + opt_bytes (z_k z) +
     opt_bytes (z_g z) + opt_bytes (z_rawv z) + opt_bytes (z_rawk z) + opt_bytes (z_beta z) + opt_bytes (z_inter_ssm z) +
     sum_list (map tens_bytes (z_windows_phys z))"

lemma init_mamba_windows:
  assumes "init_mamba y = Inr z" and "z_windows z = None"
  shows "z_windows_phys z = []"
  using assms by (auto simp: init_mamba_def Let_def res_bind_Inr_iff split: prod.splits option.splits)

lemma pool_usage_is_allocated:
  assumes "init_mamba y = Inr z"
  shows "pool_usage_bytes z = int (allocated_bytes z)"
  using init_mamba_windows[OF assms] by (cases "z_windows z") (simp_all add: pool_usage_bytes_def state_bytes_def allocated_bytes_def)

text \<open>
  The cursors of the verification ring never exist: they are allocated when the ring is on and its
  folding is off, but folding is on exactly when the ring is.
\<close>

lemma no_spec_cursors:
  assumes "init_mamba y = Inr z"
  shows "z_cache_base z = None \<and> z_is_flush z = None \<and> (z_write_pos z \<noteq> None \<longleftrightarrow> y_replay y \<and> \<not> y_replay_spec y)"
  using assms by (auto simp: init_mamba_def Let_def res_bind_Inr_iff split: prod.splits option.splits if_splits)

section \<open>Transfer descriptions\<close>

text \<open>
  The tensors that move between servers: all of the state that is not a ring or an intermediate, with
  the axis a tensor-parallel rank slices. The lists run over the tensors, then over the layers.
\<close>

definition transfer_tensors :: "nat \<Rightarrow> mamba_tensors \<Rightarrow> (bool \<times> tens \<times> nat) list" where
  "transfer_tensors conv_axis z = map (\<lambda>t. (True, t, conv_axis)) (z_conv z) @ [(False, z_temporal z, 0)]"

definition per_layer :: "nat \<Rightarrow> ('a \<Rightarrow> 'b) \<Rightarrow> 'a list \<Rightarrow> 'b list" where
  "per_layer n h xs = concat (map (\<lambda>x. replicate n (h x)) xs)"

definition mamba_buf_lens :: "nat \<Rightarrow> nat \<Rightarrow> mamba_tensors \<Rightarrow> nat list \<times> nat list" where
  "mamba_buf_lens layers conv_axis z =
     (per_layer layers (\<lambda>(_, (s, d), _). prod_list (drop 1 s) * itemsize d) (transfer_tensors conv_axis z),
      per_layer layers (\<lambda>(_, (s, d), _). prod_list (drop 2 s) * itemsize d) (transfer_tensors conv_axis z))"

definition state_dim_per_tensor :: "nat \<Rightarrow> nat \<Rightarrow> mamba_tensors \<Rightarrow> nat list" where
  "state_dim_per_tensor layers conv_axis z = per_layer layers (\<lambda>(_, (s, _), ax). s ! (2 + ax)) (transfer_tensors conv_axis z)"

definition state_layer_ids :: "nat list \<Rightarrow> nat \<Rightarrow> mamba_tensors \<Rightarrow> nat list" where
  "state_layer_ids ids conv_axis z = concat (replicate (length (transfer_tensors conv_axis z)) ids)"

definition state_slice_outer_counts :: "nat \<Rightarrow> nat \<Rightarrow> mamba_tensors \<Rightarrow> nat list" where
  "state_slice_outer_counts layers conv_axis z =
     per_layer layers (\<lambda>(_, (s, _), ax). prod_list (take ax (drop 2 s))) (transfer_tensors conv_axis z)"

definition state_conv_shard_groups :: "nat \<Rightarrow> nat \<Rightarrow> nat list option \<Rightarrow> mamba_tensors \<Rightarrow> nat list option list" where
  "state_conv_shard_groups layers conv_axis groups z =
     per_layer layers (\<lambda>(conv, _, _). if conv then groups else None) (transfer_tensors conv_axis z)"

lemma length_per_layer [simp]: "length (per_layer n h xs) = length xs * n"
  by (simp add: per_layer_def length_concat sum_list_triv comp_def)

lemma nth_per_layer:
  "i < length xs \<Longrightarrow> j < n \<Longrightarrow> per_layer n h xs ! (i * n + j) = h (xs ! i)"
proof (induction xs arbitrary: i)
  case Nil
  then show ?case by simp
next
  case (Cons x xs)
  then show ?case by (cases i) (auto simp: per_layer_def nth_append add.assoc)
qed

text \<open>All lists are aligned: entry \<open>i * layers + j\<close> of each belongs to tensor \<open>i\<close> and layer \<open>j\<close>.\<close>

lemma transfer_lists_aligned:
  assumes i: "i < length (transfer_tensors ca z)" and j: "j < length ids"
  shows "state_layer_ids ids ca z ! (i * length ids + j) = ids ! j \<and>
    fst (mamba_buf_lens (length ids) ca z) ! (i * length ids + j) =
      prod_list (drop 1 (fst (fst (snd (transfer_tensors ca z ! i))))) * itemsize (snd (fst (snd (transfer_tensors ca z ! i))))"
proof -
  have "concat (replicate k ids) ! (i * length ids + j) = ids ! j" if "i < k" for k
    using that j
  proof (induction k arbitrary: i)
    case (Suc k)
    then show ?case by (cases i) (auto simp: nth_append add.assoc)
  qed simp
  then show ?thesis using i j by (simp add: state_layer_ids_def mamba_buf_lens_def nth_per_layer split: prod.splits)
qed

end
