(* ===== verification/Qsa_Blocks.thy ===== *)
theory Qsa_Blocks
  imports Torch_Ops Flat_Memory "HOL-Library.Option_ord" "HOL-Library.Signed_Division"
begin

text \<open>
  Block selection of the sparse attention (\<^verbatim>\<open>runtime-src/kernel.py\<close>, \<^verbatim>\<open>runtime-src/fast_topk.py\<close>):
  pooling of keys into compressed blocks, top-k over the logits of a row, and the expansion of the
  chosen blocks into token indices, by the reference and by the Triton kernel.

  A logit is an optional number, \<open>None\<close> being minus infinity. Index tensors hold integers; their
  width is not modelled. \<open>topk\<close> is \<^verbatim>\<open>torch.topk\<close> and \<open>ragged\<close> the transform of flashinfer.
\<close>

type_synonym logit = "rat option"

section \<open>Pooling\<close>

definition average_pool_qsa_keys :: "(rat \<Rightarrow> rat) \<Rightarrow> rat list list list list \<Rightarrow> rat list list list" where
  "average_pool_qsa_keys cast groups =
     map (\<lambda>g. map (\<lambda>h. map (\<lambda>d. cast ((\<Sum>t\<leftarrow>g. t ! h ! d) / of_nat (length g))) [0..<length (hd g ! h)]) [0..<length (hd g)]) groups"

section \<open>Top-k\<close>

text \<open>\<open>xs[a:b]\<close>\<close>

definition py_slice :: "'a list \<Rightarrow> int \<Rightarrow> int \<Rightarrow> 'a list" where
  "py_slice xs a b =
     (let n = int (length xs); pos = (\<lambda>i. nat (if i < 0 then max 0 (i + n) else min i n))
      in take (pos b - pos a) (drop (pos a) xs))"

definition check_topk :: "nat \<Rightarrow> unit result" where
  "check_topk k = (if k \<in> {512, 2048} then Inr () else Inl RuntimeError)"

definition fast_topk ::
  "(logit list list \<Rightarrow> int list \<Rightarrow> nat \<Rightarrow> int list option \<Rightarrow> int list list) \<Rightarrow> logit list list \<Rightarrow> int list \<Rightarrow> nat \<Rightarrow>
   int list option \<Rightarrow> int list list result"
where
  "fast_topk ragged score lengths k starts = res_bind (check_topk k) (\<lambda>_. Inr (ragged score lengths k starts))"

text \<open>One row of the reference path: a fixed width, indices relative to the start of the row.\<close>

definition topk_row :: "(logit list \<Rightarrow> nat \<Rightarrow> (logit \<times> nat) list) \<Rightarrow> logit list \<Rightarrow> int \<Rightarrow> int \<Rightarrow> nat \<Rightarrow> int list result" where
  "topk_row topk row start len k =
     (let width = min len (int k); seg = py_slice row start (start + len) in
      if width = 0 then Inr (replicate k (- 1))
      else if width < 0 \<or> int (length seg) < width then Inl RuntimeError
      else Inr (map (int \<circ> snd) (topk seg (nat width)) @ replicate (k - nat width) (- 1)))"

definition qsa_fast_topk ::
  "bool \<Rightarrow> (logit list list \<Rightarrow> int list \<Rightarrow> nat \<Rightarrow> int list option \<Rightarrow> int list list) \<Rightarrow> (logit list \<Rightarrow> nat \<Rightarrow> (logit \<times> nat) list) \<Rightarrow>
   logit list list \<Rightarrow> int list \<Rightarrow> int list \<Rightarrow> nat \<Rightarrow> int list list result"
where
  "qsa_fast_topk cuda ragged topk logits row_starts row_ends k =
     (let lengths = map2 (\<lambda>e s. e - s) row_ends row_starts in
      if cuda then fast_topk ragged logits lengths k (Some row_starts)
      else res_map (\<lambda>i. topk_row topk (logits ! i) (row_starts ! i) (lengths ! i) k) [0..<length logits])"

definition rerank_row ::
  "(logit list \<Rightarrow> nat \<Rightarrow> (logit \<times> nat) list) \<Rightarrow> logit list \<Rightarrow> int list \<Rightarrow> int \<Rightarrow> nat \<Rightarrow> int list result" where
  "rerank_row topk row candidates start k =
     (let safe = map (\<lambda>c. max 0 (min (c + start) (max (int (length row) - 1) 0))) candidates;
          scores = map2 (\<lambda>c a. if 0 \<le> c then row ! nat a else None) candidates safe
      in if row = [] \<and> candidates \<noteq> [] \<or> length candidates < k then Inl RuntimeError
         else Inr (map (\<lambda>(_, j). candidates ! j) (topk scores k)))"

definition rerank_qsa_topk_candidates ::
  "(logit list \<Rightarrow> nat \<Rightarrow> (logit \<times> nat) list) \<Rightarrow> logit list list \<Rightarrow> int list list \<Rightarrow> int list \<Rightarrow> nat \<Rightarrow> int list list result" where
  "rerank_qsa_topk_candidates topk logits candidates starts k =
     res_map (\<lambda>i. rerank_row topk (logits ! i) (candidates ! i) (starts ! i) k) [0..<length candidates]"

section \<open>Expansion, the reference\<close>

definition expand_row :: "nat \<Rightarrow> nat \<Rightarrow> int list \<Rightarrow> int \<Rightarrow> int list" where
  "expand_row r K blocks seq =
     map (\<lambda>x. if 0 \<le> x \<and> x < seq then x else - 1)
       (take K (concat (map (\<lambda>b. map (\<lambda>off. if 0 \<le> b then b * int r + int off else - 1) [0..<r]) blocks)))"

definition tail_row :: "nat \<Rightarrow> int \<Rightarrow> int \<Rightarrow> int list" where
  "tail_row r qpos seq =
     (let visible = qpos + 1; start = visible div int r * int r; count = visible - start
      in map (\<lambda>off. if int off < count \<and> start + int off < seq then start + int off else - 1) [0..<r - 1])"

text \<open>The stable sort moves the valid entries to the front.\<close>

definition torch_expand_row :: "nat \<Rightarrow> nat \<Rightarrow> int list \<Rightarrow> int \<Rightarrow> int \<Rightarrow> int list" where
  "torch_expand_row r K blocks qpos seq =
     (let final = K + r - 1; res = expand_row r K blocks seq @ tail_row r qpos seq
      in map (\<lambda>i. res ! i) (sort_key (\<lambda>i. if 0 \<le> res ! i then i else i + final) [0..<final]))"

text \<open>A tensor of block indices is its width and its rows.\<close>

definition expand_checked ::
  "(int list \<Rightarrow> int \<Rightarrow> int \<Rightarrow> int list) \<Rightarrow> nat \<times> int list list \<Rightarrow> int list \<Rightarrow> int list \<Rightarrow> nat \<Rightarrow> nat \<Rightarrow> int list list result" where
  "expand_checked row_of blocks qpos seqs r K =
     (if r = 0 then Inl ZeroDivisionError
      else if fst blocks \<noteq> (K + r - 1) div r then Inl ValueError
      else if length qpos \<noteq> length (snd blocks) \<or> length seqs \<noteq> length (snd blocks) then Inl ValueError
      else Inr (map (\<lambda>i. row_of (snd blocks ! i) (qpos ! i) (seqs ! i)) [0..<length (snd blocks)]))"

definition torch_expand_qsa_block_indices ::
  "nat \<times> int list list \<Rightarrow> int list \<Rightarrow> int list \<Rightarrow> nat \<Rightarrow> nat \<Rightarrow> int list list result" where
  "torch_expand_qsa_block_indices blocks qpos seqs r K = expand_checked (torch_expand_row r K) blocks qpos seqs r K"

section \<open>Expansion, the Triton kernel\<close>

text \<open>One program of the kernel: all columns of a row at once; \<open>//\<close> truncates there.\<close>

definition triton_expand_row :: "nat \<Rightarrow> nat \<Rightarrow> nat \<Rightarrow> int list \<Rightarrow> int \<Rightarrow> int \<Rightarrow> int list" where
  "triton_expand_row r K block_topk blocks qpos seq =
     (let final = K + r - 1; cols = [0..<next_power_of_2 final];
          valid_block_count = length (filter (\<lambda>c. c < block_topk \<and> 0 \<le> blocks ! c) cols);
          valid_token_count = min (valid_block_count * r) K;
          visible = qpos + 1;
          tail_start = visible sdiv int r * int r;
          tail_count = visible - tail_start
      in map (\<lambda>c.
           let b = (if c < K \<and> c div r < block_topk then blocks ! (c div r) else - 1);
               expanded = b * int r + int (c mod r);
               expanded_valid = (c < K \<and> 0 \<le> b \<and> 0 \<le> expanded \<and> expanded < seq);
               tail_offset = int c - int valid_token_count;
               tail = tail_start + tail_offset;
               tail_valid = (0 \<le> tail_offset \<and> tail_offset < int r - 1 \<and> tail_offset < tail_count \<and> tail < seq)
           in if expanded_valid \<and> c < valid_token_count then expanded else if tail_valid then tail else - 1)
         (filter (\<lambda>c. c < final) cols))"

definition triton_expand_qsa_block_indices ::
  "nat \<times> int list list \<Rightarrow> int list \<Rightarrow> int list \<Rightarrow> nat \<Rightarrow> nat \<Rightarrow> int list list" where
  "triton_expand_qsa_block_indices blocks qpos seqs r K =
     map (\<lambda>i. triton_expand_row r K (fst blocks) (snd blocks ! i) (qpos ! i) (seqs ! i)) [0..<length (snd blocks)]"

definition expand_qsa_block_indices ::
  "bool \<Rightarrow> nat \<times> int list list \<Rightarrow> int list \<Rightarrow> int list \<Rightarrow> nat \<Rightarrow> nat \<Rightarrow> int list list result" where
  "expand_qsa_block_indices cuda blocks qpos seqs r K =
     (if r = 0 then Inl ZeroDivisionError
      else if fst blocks \<noteq> (K + r - 1) div r then Inl ValueError
      else if length qpos \<noteq> length (snd blocks) \<or> length seqs \<noteq> length (snd blocks) then Inl ValueError
      else if cuda then Inr (triton_expand_qsa_block_indices blocks qpos seqs r K)
      else torch_expand_qsa_block_indices blocks qpos seqs r K)"

end
