(* ===== verification/Qsa_Select.thy ===== *)
theory Qsa_Select
  imports Qsa_Blocks
begin

text \<open>
  Laws of the block selection: the closed form of an expanded row, the kernel against the reference,
  and the causality of what the top-k path selects.
\<close>

section \<open>Rows and columns\<close>

lemma nth_concat_blocks:
  assumes "c < length bs * r"
  shows "concat (map (\<lambda>b. map (g b) [0..<r]) bs) ! c = g (bs ! (c div r)) (c mod r)"
  using assms
proof (induction bs arbitrary: c)
  case (Cons b bs)
  show ?case
  proof (cases "c < r")
    case True
    then show ?thesis by (simp add: nth_append)
  next
    case False
    then have "c - r < length bs * r" and r: "0 < r" using Cons.prems by (auto intro: Nat.gr0I)
    moreover have "c div r = Suc ((c - r) div r)" "c mod r = (c - r) mod r"
      using False r by (simp_all add: le_div_geq le_mod_geq)
    ultimately show ?thesis using False Cons.IH[of "c - r"] by (simp add: nth_append)
  qed
qed simp

lemma length_concat_blocks [simp]: "length (concat (map (\<lambda>b. map (g b) [0..<r]) bs)) = length bs * r"
  by (induction bs) simp_all

text \<open>The stable compaction is a filter.\<close>

lemma map_nth_filter: "map (\<lambda>i. xs ! i) (filter (\<lambda>i. P (xs ! i)) [0..<length xs]) = filter P xs"
proof -
  have "filter P xs = filter P (map (\<lambda>i. xs ! i) [0..<length xs])" by (simp add: map_nth)
  then show ?thesis by (simp only: filter_map comp_def)
qed

lemma compact_filter:
  assumes n: "length res = n"
  shows "map (\<lambda>i. res ! i) (sort_key (\<lambda>i. if P (res ! i) then i else i + n) [0..<n]) = filter P res @ filter (\<lambda>x. \<not> P x) res"
proof -
  let ?key = "\<lambda>i. if P (res ! i) then i else i + n"
  let ?ys = "filter (\<lambda>i. P (res ! i)) [0..<n] @ filter (\<lambda>i. \<not> P (res ! i)) [0..<n]"
  have inj: "inj_on ?key (set [0..<n])" by (auto simp: inj_on_def split: if_splits)
  have m: "mset [0..<n] = mset ?ys" unfolding mset_append mset_filter by (rule multiset_partition)
  have "sorted (map ?key ?ys)"
    unfolding map_append sorted_append
  proof (intro conjI)
    have "map ?key (filter (\<lambda>i. P (res ! i)) [0..<n]) = filter (\<lambda>i. P (res ! i)) [0..<n]" by (rule map_idI) simp
    then show "sorted (map ?key (filter (\<lambda>i. P (res ! i)) [0..<n]))" by (simp add: sorted_wrt_filter)
    have e: "map ?key (filter (\<lambda>i. \<not> P (res ! i)) [0..<n]) = map (\<lambda>i. i + n) (filter (\<lambda>i. \<not> P (res ! i)) [0..<n])" by simp
    have "sorted (filter (\<lambda>i. \<not> P (res ! i)) [0..<n])" by (simp add: sorted_wrt_filter)
    then show "sorted (map ?key (filter (\<lambda>i. \<not> P (res ! i)) [0..<n]))" unfolding e sorted_map by simp
    show "\<forall>x\<in>set (map ?key (filter (\<lambda>i. P (res ! i)) [0..<n])). \<forall>y\<in>set (map ?key (filter (\<lambda>i. \<not> P (res ! i)) [0..<n])). x \<le> y" by auto
  qed
  then have "sort_key ?key [0..<n] = ?ys" by (rule sort_key_inj_key_eq[OF m inj])
  then show ?thesis unfolding n[symmetric] by (simp only: map_append map_nth_filter[of res P] map_nth_filter[of res "\<lambda>x. \<not> P x"])
qed

section \<open>The closed form\<close>

text \<open>
  With \<open>m\<close> blocks in front: their tokens, cut at \<open>K\<close>, the visible tokens behind the last full block,
  and padding.
\<close>

definition tail_len :: "nat \<Rightarrow> int \<Rightarrow> int \<Rightarrow> nat" where
  "tail_len r qpos seq = nat (min ((qpos + 1) mod int r) (seq - (qpos + 1) div int r * int r))"

definition packed_row :: "nat \<Rightarrow> nat \<Rightarrow> int list \<Rightarrow> nat \<Rightarrow> int \<Rightarrow> int \<Rightarrow> int list" where
  "packed_row r K blocks m qpos seq =
     (let vt = min (m * r) K; tc = tail_len r qpos seq in
      map (\<lambda>c. blocks ! (c div r) * int r + int (c mod r)) [0..<vt] @
      map (\<lambda>off. (qpos + 1) div int r * int r + int off) [0..<tc] @ replicate (K + r - 1 - vt - tc) (- 1))"

text \<open>The first \<open>m\<close> blocks are valid and complete, the others are padding.\<close>

definition packed_blocks :: "nat \<Rightarrow> int list \<Rightarrow> nat \<Rightarrow> int \<Rightarrow> bool" where
  "packed_blocks r blocks m seq \<longleftrightarrow> m \<le> length blocks \<and> (\<forall>i<length blocks. 0 \<le> blocks ! i \<longleftrightarrow> i < m) \<and>
     (\<forall>i<m. (blocks ! i + 1) * int r \<le> seq)"

lemma tail_len_le: "0 < r \<Longrightarrow> tail_len r qpos seq \<le> r - 1"
proof -
  assume r: "0 < r"
  then have "(qpos + 1) mod int r < int r" by simp
  then show ?thesis unfolding tail_len_def by linarith
qed

lemma packed_token:
  assumes p: "packed_blocks r blocks m seq" and r: "0 < r" and c: "c < m * r"
  shows "0 \<le> blocks ! (c div r) * int r + int (c mod r)" and "blocks ! (c div r) * int r + int (c mod r) < seq"
proof -
  have i: "c div r < m" using c by (simp add: less_mult_imp_div_less)
  have b: "0 \<le> blocks ! (c div r)" using p i by (auto simp: packed_blocks_def)
  then show "0 \<le> blocks ! (c div r) * int r + int (c mod r)" by simp
  have "(blocks ! (c div r) + 1) * int r \<le> seq" using p i by (auto simp: packed_blocks_def)
  moreover have "int (c mod r) < int r" using r by simp
  ultimately show "blocks ! (c div r) * int r + int (c mod r) < seq" by (simp add: algebra_simps)
qed

lemma expand_row_packed:
  assumes p: "packed_blocks r blocks m seq" and r: "0 < r" and K: "K \<le> length blocks * r"
  shows "expand_row r K blocks seq = map (\<lambda>c. blocks ! (c div r) * int r + int (c mod r)) [0..<min (m * r) K] @ replicate (K - m * r) (- 1)"
    (is "?l = ?e")
proof (rule nth_equalityI)
  show len: "length ?l = length ?e" using K by (simp add: expand_row_def min_def)
  fix c assume "c < length ?l"
  then have c: "c < K" "c < length blocks * r" using K by (simp_all add: expand_row_def)
  have "c div r < length blocks" using c(2) by (simp add: less_mult_imp_div_less)
  then have v: "0 \<le> blocks ! (c div r) \<longleftrightarrow> c < m * r" using p r by (auto simp: packed_blocks_def div_less_iff_less_mult)
  have n: "concat (map (\<lambda>b. map (\<lambda>off. if 0 \<le> b then b * int r + int off else - 1) [0..<r]) blocks) ! c =
    (if 0 \<le> blocks ! (c div r) then blocks ! (c div r) * int r + int (c mod r) else - 1)"
    by (rule nth_concat_blocks[OF c(2)])
  show "?l ! c = ?e ! c"
  proof (cases "c < m * r")
    case True
    then show ?thesis using c v n packed_token[OF p r True] by (simp add: expand_row_def nth_append)
  next
    case False
    then show ?thesis using c v n by (simp add: expand_row_def nth_append)
  qed
qed

lemma tail_row_packed:
  assumes r: "0 < r"
  shows "tail_row r qpos seq = map (\<lambda>off. (qpos + 1) div int r * int r + int off) [0..<tail_len r qpos seq] @
    replicate (r - 1 - tail_len r qpos seq) (- 1)" (is "_ = ?e")
proof (rule nth_equalityI)
  note le = tail_len_le[OF r, of qpos seq]
  show "length (tail_row r qpos seq) = length ?e" using le by (simp add: tail_row_def Let_def)
  fix c assume "c < length (tail_row r qpos seq)"
  then have c: "c < r - 1" by (simp add: tail_row_def Let_def)
  have m: "qpos + 1 - (qpos + 1) div int r * int r = (qpos + 1) mod int r" by (simp add: minus_div_mult_eq_mod)
  have "int c < (qpos + 1) mod int r \<and> (qpos + 1) div int r * int r + int c < seq \<longleftrightarrow> c < tail_len r qpos seq"
    unfolding tail_len_def by linarith
  then show "tail_row r qpos seq ! c = ?e ! c" using c by (simp add: tail_row_def Let_def m nth_append)
qed

lemma torch_expand_packed:
  assumes p: "packed_blocks r blocks m seq" and r: "0 < r" and K: "K \<le> length blocks * r" and q: "- 1 \<le> qpos"
  shows "torch_expand_row r K blocks qpos seq = packed_row r K blocks m qpos seq"
proof -
  let ?E = "map (\<lambda>c. blocks ! (c div r) * int r + int (c mod r)) [0..<min (m * r) K]"
  let ?T = "map (\<lambda>off. (qpos + 1) div int r * int r + int off) [0..<tail_len r qpos seq]"
  let ?res = "expand_row r K blocks seq @ tail_row r qpos seq" and ?final = "K + r - 1"
  have E: "\<forall>x\<in>set ?E. 0 \<le> x" using packed_token(1)[OF p r] by auto
  have "0 \<le> (qpos + 1) div int r" using q r by (simp add: pos_imp_zdiv_nonneg_iff)
  then have T: "\<forall>x\<in>set ?T. 0 \<le> x" by auto
  have res: "?res = (?E @ replicate (K - m * r) (- 1)) @ (?T @ replicate (r - 1 - tail_len r qpos seq) (- 1))"
    using expand_row_packed[OF p r K] tail_row_packed[OF r] by simp
  have len: "length ?res = ?final" unfolding res using r tail_len_le[OF r, of qpos seq] by simp
  have "torch_expand_row r K blocks qpos seq = filter (\<lambda>x. 0 \<le> x) ?res @ filter (\<lambda>x. \<not> 0 \<le> x) ?res"
    unfolding torch_expand_row_def Let_def using compact_filter[OF len, of "\<lambda>x. 0 \<le> x"] by simp
  moreover have "filter (\<lambda>x. 0 \<le> x) ?res = ?E @ ?T"
  proof -
    have "filter (\<lambda>x. 0 \<le> x) ?E = ?E" "filter (\<lambda>x. 0 \<le> x) ?T = ?T" using E T by (simp_all only: filter_id_conv)
    moreover have "filter (\<lambda>x. 0 \<le> x) (replicate k (- 1 :: int)) = []" for k by simp
    ultimately show ?thesis by (simp only: res filter_append append_Nil2)
  qed
  moreover have "filter (\<lambda>x. \<not> 0 \<le> x) ?res = replicate (?final - min (m * r) K - tail_len r qpos seq) (- 1)"
  proof -
    have "filter (\<lambda>x. \<not> 0 \<le> x) ?E = []" "filter (\<lambda>x. \<not> 0 \<le> x) ?T = []"
      using E T by (simp_all only: filter_empty_conv not_not)
    moreover have "filter (\<lambda>x. \<not> 0 \<le> x) (replicate k (- 1 :: int)) = replicate k (- 1)" for k by simp
    ultimately have "filter (\<lambda>x. \<not> 0 \<le> x) ?res = replicate (K - m * r) (- 1) @ replicate (r - 1 - tail_len r qpos seq) (- 1)"
      by (simp only: res filter_append append_Nil)
    moreover have "K - m * r + (r - 1 - tail_len r qpos seq) = ?final - min (m * r) K - tail_len r qpos seq"
      using r tail_len_le[OF r, of qpos seq] by linarith
    ultimately show ?thesis by (simp only: replicate_add[symmetric])
  qed
  ultimately show ?thesis by (simp only: packed_row_def Let_def append_assoc)
qed

lemma triton_expand_packed:
  assumes p: "packed_blocks r blocks m seq" and r: "0 < r" and K: "K \<le> length blocks * r" "length blocks \<le> K + r - 1" and q: "- 1 \<le> qpos"
  shows "triton_expand_row r K (length blocks) blocks qpos seq = packed_row r K blocks m qpos seq" (is "_ = ?e")
proof (rule nth_equalityI)
  let ?final = "K + r - 1" and ?vt = "min (m * r) K" and ?tc = "tail_len r qpos seq"
  have fin: "?final \<le> next_power_of_2 ?final" by (rule le_next_power_of_2)
  have cols: "filter (\<lambda>c. c < ?final) [0..<next_power_of_2 ?final] = [0..<?final]" by (rule filter_less_upt[OF fin])
  have cnt: "length (filter (\<lambda>c. c < length blocks \<and> 0 \<le> blocks ! c) [0..<next_power_of_2 ?final]) = m"
  proof -
    have "(\<lambda>c. c < length blocks \<and> 0 \<le> blocks ! c) = (\<lambda>c. c < m)" using p by (auto simp: packed_blocks_def)
    moreover have "m \<le> next_power_of_2 ?final" using p K(2) fin by (simp add: packed_blocks_def)
    ultimately show ?thesis by (simp add: filter_less_upt)
  qed
  have sd: "(qpos + 1) sdiv int r = (qpos + 1) div int r" using q r by (simp add: signed_divide_int_def sgn_if)
  have md: "qpos + 1 - (qpos + 1) div int r * int r = (qpos + 1) mod int r" by (simp add: minus_div_mult_eq_mod)
  note le = tail_len_le[OF r, of qpos seq]
  have L: "length (triton_expand_row r K (length blocks) blocks qpos seq) = ?final" by (simp add: triton_expand_row_def Let_def cols del: One_nat_def)
  then show "length (triton_expand_row r K (length blocks) blocks qpos seq) = length ?e"
    using le r by (simp add: packed_row_def Let_def)
  fix c assume "c < length (triton_expand_row r K (length blocks) blocks qpos seq)"
  then have c: "c < ?final" using L by simp
  define b where "b = (if c < K \<and> c div r < length blocks then blocks ! (c div r) else - 1)"
  define e where "e = b * int r + int (c mod r)"
  define t where "t = int c - int ?vt"
  have row: "triton_expand_row r K (length blocks) blocks qpos seq ! c =
    (if (c < K \<and> 0 \<le> b \<and> 0 \<le> e \<and> e < seq) \<and> c < ?vt then e
     else if 0 \<le> t \<and> t < int r - 1 \<and> t < (qpos + 1) mod int r \<and> (qpos + 1) div int r * int r + t < seq
       then (qpos + 1) div int r * int r + t else - 1)"
    using c by (simp add: triton_expand_row_def Let_def cols cnt sd md b_def e_def t_def del: of_nat_min One_nat_def)
  show "triton_expand_row r K (length blocks) blocks qpos seq ! c = ?e ! c"
  proof (cases "c < ?vt")
    case True
    have i: "c div r < m" using True by (simp add: less_mult_imp_div_less)
    then have "b = blocks ! (c div r)" using True p by (simp add: b_def packed_blocks_def)
    moreover have "0 \<le> blocks ! (c div r)" using p i by (auto simp: packed_blocks_def)
    ultimately show ?thesis using True packed_token[OF p r, of c] unfolding row e_def
      by (simp add: packed_row_def Let_def nth_append)
  next
    case False
    have "?vt \<le> c" using False by (rule leI)
    then have t': "t = int (c - ?vt)" unfolding t_def by (rule of_nat_diff[symmetric])
    have arith: "v \<le> c \<Longrightarrow> \<not> c - v < k \<Longrightarrow> c < f \<Longrightarrow> c - v - k < f - v - k" for v k f :: nat by linarith
    have t: "0 \<le> t \<and> t < int r - 1 \<and> t < (qpos + 1) mod int r \<and> (qpos + 1) div int r * int r + t < seq \<longleftrightarrow> c - ?vt < ?tc"
    proof -
      have "int (c - ?vt) < int r - 1" if "c - ?vt < ?tc" using that le r by linarith
      then show ?thesis unfolding t' tail_len_def by linarith
    qed
    have rhs: "?e ! c = (if c - ?vt < ?tc then (qpos + 1) div int r * int r + int (c - ?vt) else - 1)"
    proof -
      let ?A = "map (\<lambda>c. blocks ! (c div r) * int r + int (c mod r)) [0..<?vt]"
      let ?R = "map (\<lambda>off. (qpos + 1) div int r * int r + int off) [0..<?tc] @ replicate (?final - ?vt - ?tc) (- 1)"
      have "?e ! c = ?R ! (c - length ?A)"
        unfolding packed_row_def Let_def by (rule nth_append_right) (use \<open>?vt \<le> c\<close> in simp)
      also have "length ?A = ?vt" by simp
      also have "?R ! (c - ?vt) = (if c - ?vt < ?tc then (qpos + 1) div int r * int r + int (c - ?vt) else - 1)"
      proof (cases "c - ?vt < ?tc")
        case no: False
        then have "?R ! (c - ?vt) = replicate (?final - ?vt - ?tc) (- 1) ! (c - ?vt - ?tc)" by (subst nth_append_right) simp_all
        also have "\<dots> = - 1" by (rule nth_replicate[OF arith[OF \<open>?vt \<le> c\<close> no c]])
        finally show ?thesis using no by simp
      qed (simp add: nth_append)
      finally show ?thesis .
    qed
    show ?thesis unfolding row t rhs using False by (simp only: simp_thms if_False t')
  qed
qed

section \<open>The kernel and the reference\<close>

lemma ceil_width: "0 < (r::nat) \<Longrightarrow> K \<le> (K + r - 1) div r * r \<and> (K + r - 1) div r \<le> K + r - 1"
proof -
  assume r: "0 < r"
  have "K + r - 1 < ((K + r - 1) div r + 1) * r" using r by (simp add: dividend_less_div_times)
  then show ?thesis using r by (simp add: algebra_simps)
qed

text \<open>Rows that the kernel accepts: valid, complete blocks in front of the padding.\<close>

definition rows_packed :: "nat \<times> int list list \<Rightarrow> int list \<Rightarrow> int list \<Rightarrow> nat \<Rightarrow> bool" where
  "rows_packed blocks qpos seqs r \<longleftrightarrow> (\<forall>i<length (snd blocks). length (snd blocks ! i) = fst blocks \<and> - 1 \<le> qpos ! i \<and>
     packed_blocks r (snd blocks ! i) (length (filter (\<lambda>b. 0 \<le> b) (snd blocks ! i))) (seqs ! i))"

text \<open>
  C20: On block tensors whose rows hold complete valid blocks before the padding, the Triton kernel
  computes exactly what the reference computes, for every compression ratio and token budget, also
  when the budget cuts the last block, and shape errors are the same.
\<close>

theorem triton_expand_is_reference:
  assumes "rows_packed blocks qpos seqs r"
  shows "expand_qsa_block_indices True blocks qpos seqs r K = expand_qsa_block_indices False blocks qpos seqs r K"
proof (cases "0 < r \<and> fst blocks = (K + r - 1) div r")
  case True
  then have r: "0 < r" by simp
  have "triton_expand_row r K (fst blocks) (snd blocks ! i) (qpos ! i) (seqs ! i) = torch_expand_row r K (snd blocks ! i) (qpos ! i) (seqs ! i)"
    if "i < length (snd blocks)" for i
  proof -
    have w: "length (snd blocks ! i) = fst blocks" "- 1 \<le> qpos ! i"
      "packed_blocks r (snd blocks ! i) (length (filter (\<lambda>b. 0 \<le> b) (snd blocks ! i))) (seqs ! i)"
      using assms that by (simp_all add: rows_packed_def)
    then have "K \<le> length (snd blocks ! i) * r" "length (snd blocks ! i) \<le> K + r - 1" using ceil_width[OF r, of K] True by simp_all
    then show ?thesis using triton_expand_packed[OF w(3) r _ _ w(2)] torch_expand_packed[OF w(3) r _ w(2)] w(1) by simp
  qed
  then show ?thesis using True
    by (simp add: expand_qsa_block_indices_def torch_expand_qsa_block_indices_def expand_checked_def triton_expand_qsa_block_indices_def)
qed (auto simp: expand_qsa_block_indices_def torch_expand_qsa_block_indices_def expand_checked_def)

theorem triton_expand_is_reference_witness:
  "expand_qsa_block_indices True (2, [[1, - 1], [2, 0]]) [9, 13] [10, 14] 4 7 =
     Inr [[4, 5, 6, 7, 8, 9, - 1, - 1, - 1, - 1], [8, 9, 10, 11, 0, 1, 2, 12, 13, - 1]]"
proof -
  have "rows_packed (2, [[1, - 1], [2, 0]]) [9, 13] [10, 14] 4"
    by (simp add: rows_packed_def packed_blocks_def All_less_Suc numeral_2_eq_2)
  moreover have "expand_qsa_block_indices False (2, [[1, - 1], [2, 0]]) [9, 13] [10, 14] 4 7 =
     Inr [[4, 5, 6, 7, 8, 9, - 1, - 1, - 1, - 1], [8, 9, 10, 11, 0, 1, 2, 12, 13, - 1]]" by code_simp
  ultimately show ?thesis using triton_expand_is_reference[of "(2, [[1, - 1], [2, 0]])" "[9, 13]" "[10, 14]" 4 7] by simp
qed

section \<open>What is selected\<close>

lemma packed_set:
  "set (packed_row r K blocks m qpos seq) - {- 1} \<subseteq> (\<lambda>c. blocks ! (c div r) * int r + int (c mod r)) ` {..<min (m * r) K} \<union>
     (\<lambda>off. (qpos + 1) div int r * int r + int off) ` {..<tail_len r qpos seq}"
  by (auto simp: packed_row_def Let_def)

lemma tail_visible:
  assumes "0 < r" and "qpos < seq"
  shows "tail_len r qpos seq = nat ((qpos + 1) mod int r)"
  using assms div_mult_mod_eq[of "qpos + 1" "int r"] unfolding tail_len_def by linarith

lemma packed_causal:
  assumes p: "packed_blocks r blocks m seq" and r: "0 < r" and q: "0 \<le> qpos" "qpos < seq"
    and d: "distinct (take m blocks)" and below: "\<forall>i<m. blocks ! i < (qpos + 1) div int r"
  shows "distinct (filter (\<lambda>t. 0 \<le> t) (packed_row r K blocks m qpos seq))"
    and "t \<in> set (packed_row r K blocks m qpos seq) \<Longrightarrow> t \<le> qpos"
    and "{(qpos + 1) div int r * int r..qpos} \<subseteq> set (packed_row r K blocks m qpos seq)"
proof -
  let ?s = "(qpos + 1) div int r" and ?f = "\<lambda>c. blocks ! (c div r) * int r + int (c mod r)"
  let ?E = "map ?f [0..<min (m * r) K]" and ?T = "map (\<lambda>off. ?s * int r + int off) [0..<tail_len r qpos seq]"
  have vis: "?s * int r + (qpos + 1) mod int r = qpos + 1" by simp
  note tl = tail_visible[OF r q(2)]
  have E: "0 \<le> ?f c \<and> ?f c < ?s * int r" if "c < m * r" for c
  proof -
    have "c div r < m" using that by (simp add: less_mult_imp_div_less)
    then have "blocks ! (c div r) + 1 \<le> ?s" using below by auto
    then have "(blocks ! (c div r) + 1) * int r \<le> ?s * int r" by (intro mult_right_mono) simp_all
    moreover have "int (c mod r) < int r" using r by simp
    ultimately show ?thesis using packed_token(1)[OF p r that] by (simp add: algebra_simps)
  qed
  have T: "?s * int r \<le> x \<and> x \<le> qpos" if xT: "x \<in> set ?T" for x
  proof -
    obtain k where k: "k < tail_len r qpos seq" "x = ?s * int r + int k" using xT by auto
    then have "int k < (qpos + 1) mod int r" using tl by linarith
    then show ?thesis using k(2) vis by linarith
  qed
  have inj: "inj_on ?f {..<m * r}"
  proof (rule inj_onI)
    fix a b assume ab: "a \<in> {..<m * r}" "b \<in> {..<m * r}" and e: "?f a = ?f b"
    have i: "a div r < m" "b div r < m" using ab by (simp_all add: less_mult_imp_div_less)
    have qm: "(x * int r + int (c mod r)) div int r = x \<and> (x * int r + int (c mod r)) mod int r = int (c mod r)" for x c
      using r by (simp add: zmod_int)
    have "blocks ! (a div r) = blocks ! (b div r)" "a mod r = b mod r"
      using arg_cong[OF e, of "\<lambda>x. x div int r"] arg_cong[OF e, of "\<lambda>x. x mod int r"] qm by auto
    moreover have "m \<le> length blocks" using p by (simp add: packed_blocks_def)
    then have "a div r = b div r" if "blocks ! (a div r) = blocks ! (b div r)"
      using nth_eq_iff_index_eq[OF d, of "a div r" "b div r"] i that by simp
    ultimately show "a = b" by (metis div_mult_mod_eq)
  qed
  have "distinct ?E" using inj by (auto simp: distinct_map inj_on_def)
  moreover have "distinct ?T" by (simp add: distinct_map inj_on_def)
  moreover have "set ?E \<inter> set ?T = {}"
  proof (unfold disjoint_iff, intro allI impI notI)
    fix x assume x: "x \<in> set ?E" "x \<in> set ?T"
    then obtain c where "c < m * r" "x = ?f c" by auto
    then show False using E[of c] T[OF x(2)] by linarith
  qed
  ultimately have "distinct (?E @ ?T)" by (simp only: distinct_append)
  moreover have "filter (\<lambda>t. 0 \<le> t) (packed_row r K blocks m qpos seq) = filter (\<lambda>t. 0 \<le> t) (?E @ ?T)"
    by (simp add: packed_row_def Let_def)
  ultimately show "distinct (filter (\<lambda>t. 0 \<le> t) (packed_row r K blocks m qpos seq))" by (simp only: distinct_filter)
  have sq: "?s * int r \<le> qpos + 1" using vis r pos_mod_sign[of "int r" "qpos + 1"] by linarith
  show "t \<le> qpos" if "t \<in> set (packed_row r K blocks m qpos seq)"
  proof -
    have "t \<in> set (?E @ ?T) \<union> {- 1}" using that by (auto simp: packed_row_def Let_def)
    then consider "t = - 1" | "t \<in> set ?E" | "t \<in> set ?T" by auto
    then show ?thesis
    proof cases
      case 2
      then obtain c where "c < m * r" "t = ?f c" by auto
      then show ?thesis using E[of c] sq by linarith
    next
      case 3
      show ?thesis using T[OF 3] by (rule conjunct2)
    qed (use q(1) in simp)
  qed
  show "{?s * int r..qpos} \<subseteq> set (packed_row r K blocks m qpos seq)"
  proof
    fix x assume x: "x \<in> {?s * int r..qpos}"
    then have x': "0 \<le> x - ?s * int r" "x - ?s * int r < (qpos + 1) mod int r"
      using x vis by (simp_all only: atLeastAtMost_iff) linarith+
    then have "nat (x - ?s * int r) < tail_len r qpos seq" unfolding tl by (simp only: nat_less_eq_zless)
    moreover have "x = ?s * int r + int (nat (x - ?s * int r))" using x'(1) by simp
    ultimately have "x \<in> set ?T" unfolding set_map by (intro image_eqI[where x = "nat (x - ?s * int r)"]) simp_all
    then show "x \<in> set (packed_row r K blocks m qpos seq)" by (simp add: packed_row_def Let_def)
  qed
qed

text \<open>What one row of the top-k path returns.\<close>

lemma topk_row_packed:
  assumes t: "topk_any topk" and w: "0 \<le> start" "start + int n \<le> int (length row)"
  obtains blocks where "topk_row topk row start (int n) k = Inr blocks" "length blocks = k"
    "\<forall>i<min n k. 0 \<le> blocks ! i \<and> blocks ! i < int n" "\<forall>i<k. min n k \<le> i \<longrightarrow> blocks ! i = - 1"
    "distinct (take (min n k) blocks)"
proof -
  define w where "w = min n k"
  note that' = that[folded w_def]
  let ?seg = "py_slice row start (start + int n)"
  have "?seg = take n (drop (nat start) row)" using w by (simp add: py_slice_def Let_def nat_add_distrib nat_diff_distrib)
  then have seg: "length ?seg = n" using w by simp
  have w': "min (int n) (int k) = int w" by (simp add: w_def)
  have wk: "w \<le> k" by (simp add: w_def)
  show thesis
  proof (cases "w = 0")
    case True
    then show ?thesis using that'[of "replicate k (- 1)"] by (simp add: topk_row_def Let_def w')
  next
    case False
    have k: "w \<le> length ?seg" using seg by (simp add: w_def)
    define bs where "bs = map (int \<circ> snd) (topk ?seg w)"
    have len: "length bs = w" using topk_any.topk_length[OF t k] by (simp add: bs_def)
    have "topk_row topk row start (int n) k = Inr (bs @ replicate (k - w) (- 1))"
    proof -
      have "int w \<noteq> 0" "\<not> (int w < 0 \<or> int (length ?seg) < int w)" using False k by linarith+
      then show ?thesis unfolding topk_row_def Let_def w' bs_def by (simp only: if_False nat_int)
    qed
    moreover have "distinct bs" using topk_any.topk_distinct[OF t k] by (simp add: bs_def distinct_map inj_on_def comp_def)
    moreover have "0 \<le> bs ! i \<and> bs ! i < int n" if "i < w" for i
      using topk_any.topk_index_less[OF t k that] topk_any.topk_length[OF t k] seg that by (simp add: bs_def)
    ultimately show ?thesis using len wk by (intro that'[of "bs @ replicate (k - w) (- 1)"]) (simp_all add: nth_append)
  qed
qed

lemma packed_dense:
  assumes r: "0 < r" and K: "m * r \<le> K" and d: "distinct (take m blocks)" "m \<le> length blocks"
    and b: "\<forall>i<m. 0 \<le> blocks ! i \<and> blocks ! i < int m" and x: "x < m * r"
  shows "int x \<in> set (packed_row r K blocks m qpos seq)"
proof -
  have "set (take m blocks) = {0..<int m}"
  proof (rule card_subset_eq)
    show "set (take m blocks) \<subseteq> {0..<int m}" using b d(2) by (auto simp: in_set_conv_nth)
    show "card (set (take m blocks)) = card {0..<int m}" using distinct_card[OF d(1)] d(2) by simp
  qed simp
  moreover have "x div r < m" using x by (simp add: less_mult_imp_div_less)
  ultimately have "int (x div r) \<in> set (take m blocks)" by simp
  then obtain i where i: "i < m" "blocks ! i = int (x div r)" using d(2) by (auto simp: in_set_conv_nth)
  define c where "c = i * r + x mod r"
  have c: "c div r = i" "c mod r = x mod r" using r by (simp_all add: c_def)
  have "i * r + x mod r < (i + 1) * r" using r by simp
  also have "(i + 1) * r \<le> m * r" using i(1) by (intro mult_right_mono) simp_all
  finally have "c < m * r" by (simp add: c_def)
  moreover have "blocks ! (c div r) * int r + int (c mod r) = int x"
    unfolding c i(2) by (metis of_nat_add of_nat_mult div_mult_mod_eq)
  ultimately have "int x \<in> set (map (\<lambda>c. blocks ! (c div r) * int r + int (c mod r)) [0..<min (m * r) K])"
    using K by (auto intro!: image_eqI[where x = c])
  then show ?thesis by (simp add: packed_row_def Let_def)
qed

text \<open>The blocks that the top-k path hands to the expansion for a query at \<open>qpos\<close>.\<close>

lemma selected_blocks:
  assumes t: "topk_any topk" and r: "0 < r" and q: "0 \<le> qpos" "qpos < seq" and n: "n = nat ((qpos + 1) div int r)"
    and w: "0 \<le> start" "start + int n \<le> int (length row)"
  obtains blocks where "topk_row topk row start (int n) ((K + r - 1) div r) = Inr blocks" "length blocks = (K + r - 1) div r"
    "packed_blocks r blocks (min n ((K + r - 1) div r)) seq" "distinct (take (min n ((K + r - 1) div r)) blocks)"
    "\<forall>i<min n ((K + r - 1) div r). 0 \<le> blocks ! i \<and> blocks ! i < int n" "int n = (qpos + 1) div int r"
proof -
  let ?k = "(K + r - 1) div r" let ?w = "min n ?k"
  obtain blocks where b: "topk_row topk row start (int n) ?k = Inr blocks" "length blocks = ?k"
    "\<forall>i<?w. 0 \<le> blocks ! i \<and> blocks ! i < int n" "\<forall>i<?k. ?w \<le> i \<longrightarrow> blocks ! i = - 1" "distinct (take ?w blocks)"
    by (rule topk_row_packed[OF t w])
  have n': "int n = (qpos + 1) div int r" using n q r by (simp add: pos_imp_zdiv_nonneg_iff)
  have nr: "int n * int r \<le> qpos + 1"
    unfolding n' using r div_mult_mod_eq[of "qpos + 1" "int r"] pos_mod_sign[of "int r" "qpos + 1"] by linarith
  have "(blocks ! i + 1) * int r \<le> seq" if "i < ?w" for i
  proof -
    have "blocks ! i + 1 \<le> int n" using b(3) that by auto
    then have "(blocks ! i + 1) * int r \<le> int n * int r" by (intro mult_right_mono) simp_all
    then show ?thesis using nr q by linarith
  qed
  moreover have "0 \<le> blocks ! i \<longleftrightarrow> i < ?w" if "i < ?k" for i
    using b(3,4) that by (cases "i < ?w") (simp_all only: simp_thms not_less, simp_all)
  ultimately have "packed_blocks r blocks ?w seq" unfolding packed_blocks_def b(2) by (intro conjI allI impI) simp_all
  then show ?thesis using b n' by (intro that[of blocks])
qed

lemma selected_dense:
  assumes p: "packed_blocks r blocks m seq" and r: "0 < r" and q: "0 \<le> qpos" "qpos < seq" and d: "distinct (take m blocks)"
    and b: "\<forall>i<m. 0 \<le> blocks ! i \<and> blocks ! i < int m" and m: "int m = (qpos + 1) div int r" and K: "m * r \<le> K"
  shows "{0..qpos} \<subseteq> set (packed_row r K blocks m qpos seq)"
proof
  have below: "\<forall>i<m. blocks ! i < (qpos + 1) div int r" using b m by simp
  fix x assume x: "x \<in> {0..qpos}"
  show "x \<in> set (packed_row r K blocks m qpos seq)"
  proof (cases "x < int m * int r")
    case True
    then have "nat x < m * r" using x by (simp add: nat_less_iff)
    moreover have "m \<le> length blocks" using p by (simp add: packed_blocks_def)
    ultimately show ?thesis using packed_dense[OF r K d _ b, of "nat x" qpos seq] x by simp
  next
    case False
    then have "x \<in> {(qpos + 1) div int r * int r..qpos}" using x m by simp
    then show ?thesis by (rule subsetD[OF packed_causal(3)[OF p r q d below]])
  qed
qed

text \<open>
  C9: For a query at \<open>qpos\<close>, the top-k over the logits of its complete blocks followed by the
  expansion (by either path, with the same result) selects distinct tokens, none in the future, always
  the tokens behind the last complete block, and every visible token while the blocks fit in the budget.
\<close>

theorem selection_is_causal:
  assumes t: "topk_any topk" and r: "0 < r" and q: "0 \<le> qpos" "qpos < seq" and n: "n = nat ((qpos + 1) div int r)"
    and w: "0 \<le> start" "start + int n \<le> int (length row)"
  shows "\<exists>blocks out. topk_row topk row start (int n) ((K + r - 1) div r) = Inr blocks \<and>
     torch_expand_row r K blocks qpos seq = out \<and> triton_expand_row r K ((K + r - 1) div r) blocks qpos seq = out \<and>
     distinct (filter (\<lambda>t. 0 \<le> t) out) \<and> (\<forall>t\<in>set out. t \<le> qpos) \<and> {(qpos + 1) div int r * int r..qpos} \<subseteq> set out \<and>
     (n * r \<le> K \<longrightarrow> {0..qpos} \<subseteq> set out)"
proof -
  let ?k = "(K + r - 1) div r" let ?w = "min n ?k"
  obtain blocks where b: "topk_row topk row start (int n) ?k = Inr blocks" "length blocks = ?k"
    "packed_blocks r blocks ?w seq" "distinct (take ?w blocks)" "\<forall>i<?w. 0 \<le> blocks ! i \<and> blocks ! i < int n" "int n = (qpos + 1) div int r"
    by (rule selected_blocks[OF t r q n w])
  have K: "K \<le> length blocks * r" "length blocks \<le> K + r - 1" using ceil_width[OF r, of K] b(2) by simp_all
  let ?out = "packed_row r K blocks ?w qpos seq"
  have q1: "- 1 \<le> qpos" using q by simp
  have below: "\<forall>i<?w. blocks ! i < (qpos + 1) div int r" using b(5,6) by simp
  note c = packed_causal[OF b(3) r q b(4) below]
  have dense: "{0..qpos} \<subseteq> set ?out" if le: "n * r \<le> K"
  proof -
    have "n * r \<le> ?k * r" using le ceil_width[OF r, of K] by linarith
    then have wn: "?w = n" using r by simp
    show ?thesis using selected_dense[OF b(3) r q b(4)] b(5,6) le unfolding wn by blast
  qed
  show ?thesis
    using b(1) torch_expand_packed[OF b(3) r K(1) q1] triton_expand_packed[OF b(3) r K q1] c dense unfolding b(2)
    by (intro exI[of _ blocks] exI[of _ ?out]) blast
qed

theorem selection_is_causal_witness:
  "\<exists>blocks out. topk_row topk_ref [None, Some 5, Some 9, Some 1, Some 7] 1 3 2 = Inr blocks \<and>
     torch_expand_row 4 8 blocks 13 14 = out \<and> triton_expand_row 4 8 2 blocks 13 14 = out \<and>
     distinct (filter (\<lambda>t. 0 \<le> t) out) \<and> (\<forall>t\<in>set out. t \<le> 13) \<and> {12..13} \<subseteq> set out"
  using selection_is_causal[OF ref_topk.topk_any_axioms, of 4 13 14 3 1 "[None, Some 5, Some 9, Some 1, Some 7]" 8] by simp

end
