(* ===== verification/Qsa_Attention.thy ===== *)
theory Qsa_Attention
  imports Qsa_Select
begin

text \<open>
  The sparse attention over physical token slots (\<^verbatim>\<open>qsa_sparse_attention\<close> and its reference in
  \<^verbatim>\<open>runtime-src/kernel.py\<close>). The exponential is an argument, \<open>inv_root\<close> is the default scale
  \<^verbatim>\<open>dim ** -0.5\<close>. A tensor is its shape and its rows, which are meaningful for the rank the code asks for.
\<close>

record 'a tensor =
  t_shape :: "nat list"
  t_rows :: "'a list"

definition vdot :: "rat list \<Rightarrow> rat list \<Rightarrow> rat" where
  "vdot a b = (\<Sum>x\<leftarrow>map2 (*) a b. x)"

definition softmax :: "(rat \<Rightarrow> rat) \<Rightarrow> rat list \<Rightarrow> rat list" where
  "softmax ex xs = map (\<lambda>x. ex x / (\<Sum>y\<leftarrow>xs. ex y)) xs"

text \<open>One query head: \<open>ks\<close> and \<open>vs\<close> are the selected rows of its key/value head.\<close>

definition attend_head :: "(rat \<Rightarrow> rat) \<Rightarrow> rat \<Rightarrow> nat \<Rightarrow> rat list \<Rightarrow> rat list list \<Rightarrow> rat list list \<Rightarrow> rat list" where
  "attend_head ex scale hd_dim qh ks vs =
     (let probs = softmax ex (map (\<lambda>k. vdot qh k * scale) ks)
      in map (\<lambda>d. \<Sum>(p, v)\<leftarrow>zip probs vs. p * v ! d) [0..<hd_dim])"

definition attend_row ::
  "(rat \<Rightarrow> rat) \<Rightarrow> rat \<Rightarrow> nat \<Rightarrow> nat \<Rightarrow> rat list list \<Rightarrow> rat list list list \<Rightarrow> rat list list list \<Rightarrow> int list \<Rightarrow> rat list list result" where
  "attend_row ex scale hd_dim repeats qrow kc vc slots =
     (let sel = map nat (filter (\<lambda>s. 0 \<le> s) slots) in
      if sel = [] then Inr (map (\<lambda>_. replicate hd_dim 0) qrow)
      else if \<exists>s\<in>set sel. length kc \<le> s \<or> length vc \<le> s then Inl IndexError
      else Inr (map (\<lambda>h. attend_head ex scale hd_dim (qrow ! h) (map (\<lambda>s. kc ! s ! (h div repeats)) sel)
              (map (\<lambda>s. vc ! s ! (h div repeats)) sel)) [0..<length qrow]))"

definition scale_or :: "rat \<Rightarrow> rat option \<Rightarrow> rat" where
  "scale_or dflt s = (case s of None \<Rightarrow> dflt | Some x \<Rightarrow> if x = 0 then dflt else x)"

text \<open>\<^verbatim>\<open>torch.stack\<close> refuses an empty list.\<close>

definition qsa_sparse_attention_reference ::
  "(rat \<Rightarrow> rat) \<Rightarrow> (nat \<Rightarrow> rat) \<Rightarrow> rat list list tensor \<Rightarrow> rat list list tensor \<Rightarrow> rat list list tensor \<Rightarrow> int list tensor \<Rightarrow>
   rat option \<Rightarrow> rat list list list result"
where
  "qsa_sparse_attention_reference ex inv_root q kc vc slots softmax_scale =
     (let hd_dim = last (t_shape q); scale = scale_or (inv_root hd_dim) softmax_scale in
      if t_shape kc ! 1 = 0 then Inl ZeroDivisionError
      else let repeats = t_shape q ! 1 div t_shape kc ! 1 in
        if t_rows q = [] then Inl RuntimeError
        else res_map (\<lambda>i. attend_row ex scale hd_dim repeats (t_rows q ! i) (t_rows kc) (t_rows vc) (t_rows slots ! i)) [0..<length (t_rows q)])"

definition qsa_sparse_attention ::
  "(rat \<Rightarrow> rat) \<Rightarrow> (nat \<Rightarrow> rat) \<Rightarrow> rat list list tensor \<Rightarrow> rat list list tensor \<Rightarrow> rat list list tensor \<Rightarrow> int list tensor \<Rightarrow>
   rat option \<Rightarrow> rat list list list result"
where
  "qsa_sparse_attention ex inv_root q kc vc slots softmax_scale =
     (if length (t_shape q) \<noteq> 3 \<or> length (t_shape kc) \<noteq> 3 \<or> length (t_shape vc) \<noteq> 3 then Inl ValueError
      else if length (t_shape slots) \<noteq> 2 \<or> t_shape slots ! 0 \<noteq> t_shape q ! 0 then Inl ValueError
      else if last (t_shape q) \<noteq> last (t_shape kc) \<or> last (t_shape q) \<noteq> last (t_shape vc) then Inl ValueError
      else if t_shape kc ! 1 = 0 then Inl ZeroDivisionError
      else if t_shape q ! 1 mod t_shape kc ! 1 \<noteq> 0 then Inl ValueError
      else qsa_sparse_attention_reference ex inv_root q kc vc slots softmax_scale)"

section \<open>Order and padding do not matter\<close>

lemma attend_head_sum:
  "attend_head ex scale hd_dim qh (map f sel) (map g sel) =
    map (\<lambda>d. (\<Sum>s\<leftarrow>sel. ex (vdot qh (f s) * scale) / (\<Sum>y\<leftarrow>sel. ex (vdot qh (f y) * scale)) * g s ! d)) [0..<hd_dim]"
proof -
  have "zip (softmax ex (map (\<lambda>k. vdot qh k * scale) (map f sel))) (map g sel) =
    map (\<lambda>s. (ex (vdot qh (f s) * scale) / (\<Sum>y\<leftarrow>sel. ex (vdot qh (f y) * scale)), g s)) sel"
    by (simp add: softmax_def comp_def zip_map_map zip_same_conv_map)
  then show ?thesis by (simp add: attend_head_def Let_def comp_def)
qed

lemma sum_list_mset_eq: "mset xs = mset ys \<Longrightarrow> (\<Sum>x\<leftarrow>xs. f x) = (\<Sum>y\<leftarrow>ys. f y :: rat)"
  by (metis mset_map sum_mset_sum_list)

lemma attend_row_mset:
  assumes "mset (filter (\<lambda>s. 0 \<le> s) a) = mset (filter (\<lambda>s. 0 \<le> s) b)"
  shows "attend_row ex scale hd_dim repeats qrow kc vc a = attend_row ex scale hd_dim repeats qrow kc vc b"
proof -
  let ?sel = "\<lambda>xs. map nat (filter (\<lambda>s. 0 \<le> s) xs)"
  have m: "mset (?sel a) = mset (?sel b)" using assms by simp
  then have e: "set (?sel a) = set (?sel b)" "?sel a = [] \<longleftrightarrow> ?sel b = []"
    by (metis mset_eq_setD, metis mset_zero_iff)
  have H: "attend_head ex scale hd_dim qh (map f (?sel a)) (map g (?sel a)) = attend_head ex scale hd_dim qh (map f (?sel b)) (map g (?sel b))" for qh f g
    unfolding attend_head_sum sum_list_mset_eq[OF m] by (rule refl)
  show ?thesis unfolding attend_row_def Let_def by (simp only: e H)
qed

section \<open>Short contexts\<close>

text \<open>The slots of the selected tokens, with the padding kept.\<close>

abbreviation slots_of :: "(int \<Rightarrow> int) \<Rightarrow> int list \<Rightarrow> int list" where
  "slots_of table out \<equiv> map (\<lambda>t. if t < 0 then - 1 else table t) out"

lemma filter_slots_of:
  assumes "\<forall>t\<ge>0. 0 \<le> table t"
  shows "filter (\<lambda>s. 0 \<le> s) (slots_of table out) = map table (filter (\<lambda>t. 0 \<le> t) out)"
  using assms by (induction out) auto

text \<open>
  C8: While the complete blocks of a context fit in the token budget, the attention over the slots
  of the selected tokens (top-k, then the kernel's expansion, then the request's table) is the dense
  causal attention over all tokens up to the query, whatever the logits, the order of the selection
  and the padding.
\<close>

theorem short_context_is_dense:
  assumes t: "topk_any topk" and r: "0 < r" and q: "0 \<le> qpos" "qpos < seq" and n: "n = nat ((qpos + 1) div int r)"
    and w: "0 \<le> start" "start + int n \<le> int (length row)" and le: "n * r \<le> K" and tab: "\<forall>t\<ge>0. 0 \<le> table t"
  shows "\<exists>blocks. topk_row topk row start (int n) ((K + r - 1) div r) = Inr blocks \<and>
     attend_row ex scale hd_dim repeats qrow kc vc (slots_of table (triton_expand_row r K ((K + r - 1) div r) blocks qpos seq)) =
     attend_row ex scale hd_dim repeats qrow kc vc (map table [0..qpos])"
proof -
  let ?k = "(K + r - 1) div r"
  obtain blocks where b: "topk_row topk row start (int n) ?k = Inr blocks" "length blocks = ?k"
    "packed_blocks r blocks (min n ?k) seq" "distinct (take (min n ?k) blocks)"
    "\<forall>i<min n ?k. 0 \<le> blocks ! i \<and> blocks ! i < int n" "int n = (qpos + 1) div int r"
    by (rule selected_blocks[OF t r q n w])
  have "n * r \<le> ?k * r" using le ceil_width[OF r, of K] by linarith
  then have wn: "min n ?k = n" using r by simp
  note b' = b[unfolded wn]
  let ?out = "packed_row r K blocks n qpos seq"
  have K: "K \<le> length blocks * r" "length blocks \<le> K + r - 1" using ceil_width[OF r, of K] b(2) by simp_all
  have q1: "- 1 \<le> qpos" using q by simp
  have below: "\<forall>i<n. blocks ! i < (qpos + 1) div int r" using b'(5,6) by simp
  have tri: "triton_expand_row r K ?k blocks qpos seq = ?out" using triton_expand_packed[OF b'(3) r K q1] b(2) by simp
  have set_out: "set (filter (\<lambda>t. 0 \<le> t) ?out) = set [0..qpos]"
    using selected_dense[OF b'(3) r q b'(4,5,6) le] packed_causal(2)[OF b'(3) r q b'(4) below] by auto
  have "mset (filter (\<lambda>t. 0 \<le> t) ?out) = mset [0..qpos]"
    by (rule set_eq_iff_mset_eq_distinct[THEN iffD1, OF packed_causal(1)[OF b'(3) r q b'(4) below] _ set_out]) simp
  then have "mset (map table (filter (\<lambda>t. 0 \<le> t) ?out)) = mset (map table [0..qpos])" by (simp only: mset_map)
  moreover have "filter (\<lambda>s. 0 \<le> s) (map table [0..qpos]) = map table [0..qpos]" using tab by (simp add: filter_id_conv)
  ultimately have "mset (filter (\<lambda>s. 0 \<le> s) (slots_of table ?out)) = mset (filter (\<lambda>s. 0 \<le> s) (map table [0..qpos]))"
    unfolding filter_slots_of[OF tab] by simp
  from attend_row_mset[OF this] show ?thesis using b(1) tri by (intro exI[of _ blocks]) simp
qed

theorem short_context_is_dense_witness:
  "\<exists>blocks. topk_row topk_ref [Some 3, Some 8] 0 2 2 = Inr blocks \<and>
     attend_row (\<lambda>x. 1 + x * x) 1 1 2 [[1], [2]] [[[5]], [[6]], [[7]], [[8]], [[9]]] [[[1]], [[2]], [[3]], [[4]], [[5]]]
       (slots_of (\<lambda>t. (t + 1) mod 5) (triton_expand_row 2 4 2 blocks 4 5)) =
     attend_row (\<lambda>x. 1 + x * x) 1 1 2 [[1], [2]] [[[5]], [[6]], [[7]], [[8]], [[9]]] [[[1]], [[2]], [[3]], [[4]], [[5]]] [1, 2, 3, 4, 0]"
  using short_context_is_dense[OF ref_topk.topk_any_axioms, of 2 4 5 2 0 "[Some 3, Some 8]" 4 "\<lambda>t. (t + 1) mod 5"
    "\<lambda>x. 1 + x * x" 1 1 2 "[[1], [2]]" "[[[5]], [[6]], [[7]], [[8]], [[9]]]" "[[[1]], [[2]], [[3]], [[4]], [[5]]]"]
  by (simp add: upto_rec1)

section \<open>Outputs are averages\<close>

lemma attend_head_bounds:
  assumes ex: "\<forall>x. 0 < ex x" and ne: "sel \<noteq> []" and d: "d < hd_dim" and b: "\<forall>s\<in>set sel. lo \<le> g s ! d \<and> g s ! d \<le> hi"
  shows "lo \<le> attend_head ex scale hd_dim qh (map f sel) (map g sel) ! d \<and> attend_head ex scale hd_dim qh (map f sel) (map g sel) ! d \<le> hi"
proof -
  let ?e = "\<lambda>s. ex (vdot qh (f s) * scale)"
  let ?S = "\<Sum>y\<leftarrow>sel. ?e y"
  have pos: "0 < ?S" using ne ex by (cases sel) (auto intro!: add_pos_nonneg sum_list_nonneg simp: less_imp_le)
  have one: "(\<Sum>s\<leftarrow>sel. ?e s / ?S) = 1"
  proof -
    have "(\<Sum>s\<leftarrow>xs. ?e s / c) = (\<Sum>s\<leftarrow>xs. ?e s) / c" for xs c by (induction xs) (simp_all add: add_divide_distrib)
    then show ?thesis using pos by simp
  qed
  have w: "0 \<le> ?e s / ?S" for s using ex pos by (simp add: less_imp_le)
  have lo: "(\<Sum>s\<leftarrow>sel. ?e s / ?S * lo) \<le> (\<Sum>s\<leftarrow>sel. ?e s / ?S * g s ! d)"
    by (rule sum_list_mono) (use b w in \<open>simp add: mult_left_mono del: times_divide_eq_left\<close>)
  have hi: "(\<Sum>s\<leftarrow>sel. ?e s / ?S * g s ! d) \<le> (\<Sum>s\<leftarrow>sel. ?e s / ?S * hi)"
    by (rule sum_list_mono) (use b w in \<open>simp add: mult_left_mono del: times_divide_eq_left\<close>)
  show ?thesis using lo hi d unfolding attend_head_sum sum_list_mult_const one by simp
qed

end
