(* ===== verification/Qsa_Mqa.thy ===== *)
theory Qsa_Mqa
  imports Qsa_Attention
begin

text \<open>
  The weight-free MQA scores of the block indexer (\<^verbatim>\<open>runtime-src/mqa.py\<close>): the torch references for
  packed prefill and paged decode, the two TileLang kernels with their mask kernel, and their launches.

  The stores of a thread block are a list of (row, column, value); stores outside a tensor are dropped,
  as the compiler's bound checks do, and what a load outside a tensor or of a shared-memory row that was
  not filled yields is an argument (\<open>oob\<close>, \<open>stale\<close>). The order in which the blocks of a grid run is an
  argument too (\<open>sched\<close>). \<open>sq_root\<close> is \<^verbatim>\<open>math.sqrt\<close> and \<open>bf\<close> the rounding to \<^verbatim>\<open>bfloat16\<close>; sums and products
  are exact. The score of a query row against a key is the argument \<open>red\<close> of the kernels.
\<close>

section \<open>References\<close>

definition relu_sum :: "rat list list \<Rightarrow> rat list \<Rightarrow> rat" where
  "relu_sum heads key = (\<Sum>h\<leftarrow>heads. max (vdot h key) 0)"

definition validate_q :: "'a tensor \<Rightarrow> unit result" where
  "validate_q q = (if length (t_shape q) \<noteq> 3 \<or> t_shape q ! 1 = 0 \<or> t_shape q ! 2 = 0 then Inl ValueError else Inr ())"

definition validate_k :: "'a tensor \<Rightarrow> unit result" where
  "validate_k k = (if length (t_shape k) \<noteq> 3 \<or> t_shape k ! 1 \<noteq> 1 \<or> t_shape k ! 2 = 0 then Inl ValueError else Inr ())"

definition torch_qsa_mqa_prefill ::
  "(nat \<Rightarrow> rat) \<Rightarrow> rat list list tensor \<Rightarrow> rat list list tensor \<Rightarrow> int list \<Rightarrow> int list \<Rightarrow> rat option \<Rightarrow> logit list list result" where
  "torch_qsa_mqa_prefill sq_root q k row_starts row_ends score_scale =
     res_bind (validate_q q) (\<lambda>_. res_bind (validate_k k) (\<lambda>_.
       if last (t_shape q) \<noteq> last (t_shape k) then Inl ValueError
       else Inr (map (\<lambda>m. map (\<lambda>n. if row_starts ! m \<le> int n \<and> int n < row_ends ! m
                then Some (relu_sum (t_rows q ! m) (hd (t_rows k ! n)) / scale_or (sq_root (last (t_shape q))) score_scale) else None)
              [0..<length (t_rows k)]) [0..<length (t_rows q)])))"

text \<open>A key page is a list of key vectors (its one key/value head).\<close>

definition validate_decode_inputs ::
  "'a tensor \<Rightarrow> 'b tensor \<Rightarrow> int list tensor \<Rightarrow> int list \<Rightarrow> unit result" where
  "validate_decode_inputs q k_cache page_table context_lens =
     res_bind (validate_q q) (\<lambda>_.
       if length (t_shape k_cache) \<noteq> 4 \<or> t_shape k_cache ! 2 \<noteq> 1 then Inl ValueError
       else if last (t_shape k_cache) \<noteq> last (t_shape q) then Inl ValueError
       else if length (t_shape page_table) \<noteq> 2 \<or> t_shape page_table ! 0 \<noteq> t_shape q ! 0 then Inl ValueError
       else if length context_lens \<noteq> t_shape q ! 0 then Inl ValueError
       else Inr ())"

definition torch_qsa_mqa_decode ::
  "(nat \<Rightarrow> rat) \<Rightarrow> rat list list tensor \<Rightarrow> rat list list tensor \<Rightarrow> int list tensor \<Rightarrow> int list \<Rightarrow> nat \<Rightarrow> rat option \<Rightarrow>
   logit list list result"
where
  "torch_qsa_mqa_decode sq_root q k_cache page_table context_lens max_model_len score_scale =
     res_bind (validate_decode_inputs q k_cache page_table context_lens) (\<lambda>_.
       let P = t_shape k_cache ! 1; total = t_shape page_table ! 1 * P;
           s = scale_or (sq_root (last (t_shape q))) score_scale in
       if \<exists>row\<in>set (t_rows page_table). \<exists>p\<in>set row. int (length (t_rows k_cache)) \<le> max 0 p then Inl IndexError
       else Inr (map (\<lambda>b.
              let gathered = concat (map (\<lambda>p. t_rows k_cache ! nat (max 0 p)) (t_rows page_table ! b));
                  scores = map (\<lambda>n. if context_lens ! b \<le> int n then None
                                    else Some (relu_sum (t_rows q ! b) (gathered ! n) / s)) [0..<total]
              in take (min total max_model_len) scores @ replicate (max_model_len - min total max_model_len) None)
            [0..<length (t_rows q)]))"

section \<open>The prefill kernel\<close>

definition store_all :: "'v list list \<Rightarrow> (nat \<times> int \<times> 'v) list \<Rightarrow> 'v list list" where
  "store_all L ws = fold (\<lambda>(r, c, v) L. if r < length L \<and> 0 \<le> c \<and> nat c < length (L ! r) then L[r := (L ! r)[nat c := v]] else L) ws L"

definition ceil_div :: "int \<Rightarrow> int \<Rightarrow> int" where
  "ceil_div a b = (a + b - 1) div b"

definition block_window :: "nat \<Rightarrow> nat \<Rightarrow> int list \<Rightarrow> int list \<Rightarrow> nat \<Rightarrow> int \<times> int" where
  "block_window keys block_q Starts Ends row_base =
     fold (\<lambda>qi (a, b). (min a (min (Starts ! (row_base + qi)) (int keys)), max b (min (Ends ! (row_base + qi)) (int keys))))
       [0..<block_q] (2147483647, - 2147483648)"

text \<open>The tiles of block \<open>by\<close> of \<open>split\<close>.\<close>

definition tile_range :: "int \<Rightarrow> nat \<Rightarrow> nat \<Rightarrow> int list" where
  "tile_range tiles split by' = [tiles * int by' div int split .. tiles * int (by' + 1) div int split - 1]"

definition tile_stores ::
  "('h list \<Rightarrow> 'k \<Rightarrow> 'v) \<Rightarrow> (int \<Rightarrow> 'k) \<Rightarrow> nat \<Rightarrow> nat \<Rightarrow> nat \<Rightarrow> 'h list \<Rightarrow> 'k list \<Rightarrow> nat \<Rightarrow> int \<Rightarrow> (nat \<times> int \<times> 'v option) list" where
  "tile_stores red oob heads block_n block_q Q K row_base col0 =
     (let k_shared = map (\<lambda>n. let c = col0 + int n in if 0 \<le> c \<and> nat c < length K then K ! nat c else oob c) [0..<block_n];
          q_shared = take (block_q * heads) (drop (row_base * heads) Q);
          reduced = map (\<lambda>kv. map (\<lambda>qi. red (take heads (drop (qi * heads) q_shared)) kv) [0..<block_q]) k_shared
      in map (\<lambda>(qi, n). (row_base + qi, col0 + int n, Some (reduced ! n ! qi))) (List.product [0..<block_q] [0..<block_n]))"

definition prefill_cta ::
  "('h list \<Rightarrow> 'k \<Rightarrow> 'v) \<Rightarrow> (int \<Rightarrow> 'k) \<Rightarrow> nat \<Rightarrow> nat \<Rightarrow> nat \<Rightarrow> nat \<Rightarrow> 'h list \<Rightarrow> 'k list \<Rightarrow> int list \<Rightarrow> int list \<Rightarrow> nat \<times> nat \<Rightarrow>
   (nat \<times> int \<times> 'v option) list"
where
  "prefill_cta red oob heads block_n block_q split Q K Starts Ends cta =
     (case cta of (bx, by') \<Rightarrow>
        let row_base = bx * block_q;
            (start_min, end_max) = block_window (length K) block_q Starts Ends row_base;
            tiles = ceil_div (end_max - start_min) (int block_n)
        in concat (map (\<lambda>t. tile_stores red oob heads block_n block_q Q K row_base (start_min + t * int block_n))
             (tile_range tiles split by')))"

definition prefill_grid :: "nat \<Rightarrow> nat \<Rightarrow> nat \<Rightarrow> (nat \<times> nat) list" where
  "prefill_grid rows block_q split = List.product [0..<(rows + block_q - 1) div block_q] [0..<split]"

definition prefill_kernel ::
  "('h list \<Rightarrow> 'k \<Rightarrow> 'v) \<Rightarrow> (int \<Rightarrow> 'k) \<Rightarrow> ((nat \<times> nat) list \<Rightarrow> (nat \<times> nat) list) \<Rightarrow> nat \<Rightarrow> nat \<Rightarrow> nat \<Rightarrow> nat \<Rightarrow> nat \<Rightarrow>
   'h list \<Rightarrow> 'k list \<Rightarrow> int list \<Rightarrow> int list \<Rightarrow> 'v option list list \<Rightarrow> 'v option list list"
where
  "prefill_kernel red oob sched heads block_n block_q split rows Q K Starts Ends logits =
     store_all logits (concat (map (prefill_cta red oob heads block_n block_q split Q K Starts Ends)
       (sched (prefill_grid rows block_q split))))"

text \<open>The mask kernel: one block of threads per row.\<close>

definition mask_kernel :: "nat \<Rightarrow> nat \<Rightarrow> nat \<Rightarrow> int list \<Rightarrow> int list \<Rightarrow> 'v option list list \<Rightarrow> 'v option list list" where
  "mask_kernel threads block_k keys Starts Ends logits =
     store_all logits (concat (map (\<lambda>bx. concat (map (\<lambda>block. concat (map (\<lambda>item. concat (map (\<lambda>tx.
         let column = int (block * block_k + item * threads + tx)
         in if column < Starts ! bx \<or> Ends ! bx \<le> column then [(bx, column, None)] else [])
       [0..<threads])) [0..<block_k div threads])) [0..<(keys + block_k - 1) div block_k])) [0..<length logits]))"

text \<open>The launch behind the validation, for any arithmetic: \<open>dv\<close> is the division by the scale.\<close>

definition prefill_launch ::
  "('h list \<Rightarrow> 'k \<Rightarrow> 'v) \<Rightarrow> ('v \<Rightarrow> 'v) \<Rightarrow> 'v \<Rightarrow> (int \<Rightarrow> 'k) \<Rightarrow> ((nat \<times> nat) list \<Rightarrow> (nat \<times> nat) list) \<Rightarrow> nat \<Rightarrow> nat \<Rightarrow> 'h list \<Rightarrow>
   'h list list \<Rightarrow> 'k list \<Rightarrow> int list \<Rightarrow> int list \<Rightarrow> 'v option list list"
where
  "prefill_launch red dv zero oob sched split heads zero_heads q K row_starts row_ends =
     (let rows = length q; keys = length K;
          block_q = max 1 (128 div heads);
          padding = nat (- int rows mod int block_q);
          logits = replicate (rows + padding) (replicate keys (Some zero));
          q_padded = q @ replicate padding zero_heads;
          starts = row_starts @ replicate padding (last row_starts);
          ends = row_ends @ replicate padding (last row_ends);
          out = prefill_kernel red oob sched heads 64 block_q split (rows + padding) (concat q_padded) K starts ends logits
      in mask_kernel 512 4096 keys (take rows starts) (take rows ends) (map (map (map_option dv)) (take rows out)))"

definition tilelang_qsa_mqa_prefill ::
  "bool \<Rightarrow> (rat \<Rightarrow> rat) \<Rightarrow> (int \<Rightarrow> rat list) \<Rightarrow> ((nat \<times> nat) list \<Rightarrow> (nat \<times> nat) list) \<Rightarrow> (nat \<Rightarrow> rat) \<Rightarrow>
   rat list list tensor \<Rightarrow> rat list list tensor \<Rightarrow> int list \<Rightarrow> int list \<Rightarrow> rat option \<Rightarrow> logit list list result"
where
  "tilelang_qsa_mqa_prefill has_tilelang bf oob sched sq_root q k row_starts row_ends score_scale =
     (if \<not> has_tilelang then Inl RuntimeError
      else res_bind (validate_q q) (\<lambda>_. res_bind (validate_k k) (\<lambda>_.
        let rows = length (t_rows q); keys = length (t_rows k); heads = t_shape q ! 1; head_dim = t_shape q ! 2 in
        if rows = 0 \<or> keys = 0 then Inr (replicate rows (replicate keys None))
        else Inr (prefill_launch relu_sum (\<lambda>x. x / scale_or (sq_root head_dim) score_scale) 0 oob sched 64 heads
               (replicate heads (replicate head_dim 0)) (map (map (map bf)) (t_rows q)) (map (\<lambda>r. map bf (hd r)) (t_rows k))
               row_starts row_ends))))"

definition qsa_mqa_prefill ::
  "bool \<Rightarrow> bool \<Rightarrow> (rat \<Rightarrow> rat) \<Rightarrow> (int \<Rightarrow> rat list) \<Rightarrow> ((nat \<times> nat) list \<Rightarrow> (nat \<times> nat) list) \<Rightarrow> (nat \<Rightarrow> rat) \<Rightarrow>
   rat list list tensor \<Rightarrow> rat list list tensor \<Rightarrow> int list \<Rightarrow> int list \<Rightarrow> rat option \<Rightarrow> logit list list result"
where
  "qsa_mqa_prefill cuda has_tilelang bf oob sched sq_root q k row_starts row_ends score_scale =
     (if cuda \<and> has_tilelang then tilelang_qsa_mqa_prefill has_tilelang bf oob sched sq_root q k row_starts row_ends score_scale
      else torch_qsa_mqa_prefill sq_root q k row_starts row_ends score_scale)"

section \<open>The decode kernel\<close>

text \<open>
  A block handles one group of 64 positions; pages narrower than a group are packed side by side.
\<close>

definition decode_cta ::
  "('h list \<Rightarrow> 'k \<Rightarrow> 'v) \<Rightarrow> ('v \<Rightarrow> 'v) \<Rightarrow> (int \<Rightarrow> nat \<Rightarrow> 'k) \<Rightarrow> nat \<Rightarrow> nat \<Rightarrow> 'h list list \<Rightarrow> 'k list list \<Rightarrow> int list list \<Rightarrow> int list \<Rightarrow>
   nat \<times> nat \<Rightarrow> (nat \<times> int \<times> 'v option) list"
where
  "decode_cta red dv stale P groups_per_cta Q K_cache Table Lens cta =
     (case cta of (bx, group_block) \<Rightarrow>
        let sub_pages = 64 div P; context_len = Lens ! bx in
        concat (map (\<lambda>gi.
          let group = group_block * groups_per_cta + gi in
          if int (group * 64) < context_len then
            let k_shared = map (\<lambda>token.
                  let pg = group * sub_pages + token div P in
                  if int (pg * P) < context_len \<and> pg < length (Table ! bx) \<and> 0 \<le> Table ! bx ! pg \<and> nat (Table ! bx ! pg) < length K_cache
                  then K_cache ! nat (Table ! bx ! pg) ! (token mod P) else stale (int group) token) [0..<64]
            in concat (map (\<lambda>token. let position = int (group * 64 + token) in
                 if position < context_len then [(bx, position, Some (dv (red (Q ! bx) (k_shared ! token))))] else []) [0..<64])
          else []) [0..<groups_per_cta]))"

definition decode_grid :: "nat \<Rightarrow> nat \<Rightarrow> nat \<Rightarrow> nat \<Rightarrow> (nat \<times> nat) list" where
  "decode_grid batch max_pages sub_pages groups_per_cta =
     List.product [0..<batch] [0..<((max_pages + sub_pages - 1) div sub_pages + groups_per_cta - 1) div groups_per_cta]"

definition tilelang_qsa_mqa_decode ::
  "bool \<Rightarrow> (rat \<Rightarrow> rat) \<Rightarrow> (int \<Rightarrow> nat \<Rightarrow> rat list) \<Rightarrow> ((nat \<times> nat) list \<Rightarrow> (nat \<times> nat) list) \<Rightarrow> (nat \<Rightarrow> rat) \<Rightarrow>
   rat list list tensor \<Rightarrow> rat list list tensor \<Rightarrow> int list tensor \<Rightarrow> int list \<Rightarrow> nat \<Rightarrow> rat option \<Rightarrow> logit list list result"
where
  "tilelang_qsa_mqa_decode has_tilelang bf stale sched sq_root q k_cache page_table context_lens max_model_len score_scale =
     (if \<not> has_tilelang then Inl RuntimeError
      else res_bind (validate_decode_inputs q k_cache page_table context_lens) (\<lambda>_.
        let P = t_shape k_cache ! 1 in
        if P < 8 \<or> 64 mod P \<noteq> 0 then Inl ValueError
        else let logits = replicate (length (t_rows q)) (replicate max_model_len None) in
          if t_rows q = [] \<or> max_model_len = 0 then Inr logits
          else let heads = t_shape q ! 1; head_dim = t_shape q ! 2;
                   kernel_heads = max 8 ((heads + 7) div 8 * 8);
                   q_kernel = map (\<lambda>row. map (map bf) row @ replicate (kernel_heads - heads) (replicate head_dim 0)) (t_rows q)
               in Inr (store_all logits (concat (map
                    (decode_cta relu_sum (\<lambda>x. x / scale_or (sq_root head_dim) score_scale) stale P 1 q_kernel
                       (map (map (map bf)) (t_rows k_cache)) (t_rows page_table) context_lens)
                    (sched (decode_grid (length (t_rows q)) (t_shape page_table ! 1) (64 div P) 1)))))))"

definition qsa_mqa_decode ::
  "bool \<Rightarrow> bool \<Rightarrow> (rat \<Rightarrow> rat) \<Rightarrow> (int \<Rightarrow> nat \<Rightarrow> rat list) \<Rightarrow> ((nat \<times> nat) list \<Rightarrow> (nat \<times> nat) list) \<Rightarrow> (nat \<Rightarrow> rat) \<Rightarrow>
   rat list list tensor \<Rightarrow> rat list list tensor \<Rightarrow> int list tensor \<Rightarrow> int list \<Rightarrow> nat \<Rightarrow> rat option \<Rightarrow> logit list list result"
where
  "qsa_mqa_decode cuda has_tilelang bf stale sched sq_root q k_cache page_table context_lens max_model_len score_scale =
     (if cuda \<and> has_tilelang then tilelang_qsa_mqa_decode has_tilelang bf stale sched sq_root q k_cache page_table context_lens max_model_len score_scale
      else torch_qsa_mqa_decode sq_root q k_cache page_table context_lens max_model_len score_scale)"

end
