(* ===== verification/Qsa_Tiles.thy ===== *)
theory Qsa_Tiles
  imports Qsa_Mqa
begin

text \<open>
  Laws of the MQA kernels: what a grid of blocks writes does not depend on the order of the blocks or
  on the split of the key tiles, no two blocks write one cell, and both kernels agree with the torch
  references.
\<close>

section \<open>Stores\<close>

lemma store_all_Cons: "store_all L ((r, c, v) # ws) =
    store_all (if r < length L \<and> 0 \<le> c \<and> nat c < length (L ! r) then L[r := (L ! r)[nat c := v]] else L) ws"
  by (simp add: store_all_def)

lemma store_all_Nil [simp]: "store_all L [] = L"
  by (simp add: store_all_def)

lemma store_all_shape: "length (store_all L ws) = length L \<and> (\<forall>r<length L. length (store_all L ws ! r) = length (L ! r))"
proof (induction ws arbitrary: L)
  case (Cons w ws)
  obtain r c v where w: "w = (r, c, v)" by (cases w)
  show ?case unfolding w store_all_Cons
    using Cons.IH[of "L[r := (L ! r)[nat c := v]]"] Cons.IH[of L] by (auto simp: nth_list_update)
qed simp

text \<open>When all stores to a cell agree, their order does not matter.\<close>

lemma store_all_cell:
  assumes "r < length L" "c < length (L ! r)" and "\<And>v. (r, int c, v) \<in> set ws \<Longrightarrow> v = x"
  shows "store_all L ws ! r ! c = (if \<exists>v. (r, int c, v) \<in> set ws then x else L ! r ! c)"
  using assms
proof (induction ws arbitrary: L)
  case (Cons w ws)
  obtain r' c' v' where w: "w = (r', c', v')" by (cases w)
  let ?L = "if r' < length L \<and> 0 \<le> c' \<and> nat c' < length (L ! r') then L[r' := (L ! r')[nat c' := v']] else L"
  have sh: "r < length ?L" "c < length (?L ! r)" using Cons.prems(1,2) by (auto simp: nth_list_update)
  have ih: "store_all ?L ws ! r ! c = (if \<exists>v. (r, int c, v) \<in> set ws then x else ?L ! r ! c)"
    by (rule Cons.IH[OF sh]) (use Cons.prems(3) in auto)
  have cell: "?L ! r ! c = (if r' = r \<and> c' = int c then x else L ! r ! c)"
  proof (cases "r' = r \<and> c' = int c")
    case True
    then have "v' = x" using Cons.prems(3) w by simp
    then show ?thesis using True Cons.prems(1,2) by simp
  next
    case False
    then show ?thesis using Cons.prems(1,2) by (auto simp: nth_list_update)
  qed
  have mem: "(\<exists>v. (r, int c, v) \<in> set (w # ws)) \<longleftrightarrow> r' = r \<and> c' = int c \<or> (\<exists>v. (r, int c, v) \<in> set ws)" by (auto simp: w)
  show ?case unfolding w store_all_Cons ih mem[unfolded w] cell by auto
qed simp

section \<open>The split of the tiles\<close>

lemma le_div_int: "0 < (S::int) \<Longrightarrow> y * S \<le> x \<Longrightarrow> y \<le> x div S"
  using zdiv_mono1[of "y * S" x S] by simp

lemma div_le_int: "0 < (S::int) \<Longrightarrow> x < (y + 1) * S \<Longrightarrow> x div S \<le> y"
  using zdiv_mono1[of "x" "(y + 1) * S - 1" S] le_div_int[of S "y + 1" "x"]
  by (smt (verit) div_mult_mod_eq mult_le_cancel_right pos_mod_sign)

lemma tile_owner:
  assumes t: "0 \<le> t" "t < tiles" and s: "0 < split"
  obtains by' where "by' < split" "t \<in> set (tile_range tiles split by')"
proof -
  let ?S = "int split" let ?a = "(t + 1) * ?S - 1"
  define b where "b = ?a div tiles"
  have S: "0 < ?S" and pos: "0 < tiles" using s t by simp_all
  have "1 * ?S \<le> (t + 1) * ?S" using t S by (intro mult_right_mono) simp_all
  then have a0: "0 \<le> ?a" using S by linarith
  have b0: "0 \<le> b" using a0 pos by (simp add: b_def pos_imp_zdiv_nonneg_iff)
  have e: "?a = b * tiles + ?a mod tiles" unfolding b_def by (rule div_mult_mod_eq[symmetric])
  have lo: "b * tiles \<le> ?a" and hi: "?a < (b + 1) * tiles"
    using e pos_mod_sign[OF pos, of ?a] pos_mod_bound[OF pos, of ?a] by (simp_all add: distrib_right)
  have "(t + 1) * ?S \<le> ?S * tiles" using mult_right_mono[of "t + 1" tiles ?S] t S by (simp add: mult.commute)
  then have "b * tiles < ?S * tiles" using lo by linarith
  then have bs: "b < ?S" using pos by (simp add: mult_less_cancel_right)
  have l: "tiles * b div ?S \<le> t" by (rule div_le_int[OF S]) (use lo in \<open>simp add: mult.commute\<close>)
  have h: "t + 1 \<le> tiles * (1 + b) div ?S" by (rule le_div_int[OF S]) (use hi in \<open>simp add: mult.commute add.commute\<close>)
  show ?thesis using b0 bs l h by (intro that[of "nat b"]) (simp_all add: tile_range_def)
qed

text \<open>Tile ranges of different blocks are disjoint.\<close>

lemma tile_owner_unique:
  assumes "t \<in> set (tile_range tiles split a)" "t \<in> set (tile_range tiles split b)"
  shows "a = b"
proof (rule ccontr)
  have mono: "x div int split \<le> y div int split" if "x \<le> y" for x y
    using that by (cases "split = 0") (simp_all add: zdiv_mono1)
  have tiles: "0 \<le> tiles"
  proof (rule ccontr)
    assume "\<not> 0 \<le> tiles"
    then have "tiles * int (a + 1) \<le> tiles * int a" by (intro mult_left_mono_neg) simp_all
    then show False using mono[of "tiles * int (a + 1)" "tiles * int a"] assms(1) by (simp add: tile_range_def)
  qed
  have no: False if ab: "a < b" "t \<in> set (tile_range tiles split a)" "t \<in> set (tile_range tiles split b)" for a b
  proof -
    have "tiles * int (a + 1) \<le> tiles * int b" using ab(1) tiles by (intro mult_left_mono) simp_all
    then show False using mono[of "tiles * int (a + 1)" "tiles * int b"] ab(2,3) by (simp add: tile_range_def)
  qed
  assume "a \<noteq> b"
  then show False using no assms(1,2) by (metis linorder_neqE_nat)
qed

section \<open>The window of a block of rows\<close>

lemma window_fold:
  assumes w: "fold (\<lambda>q (a, b). (min a (min (S q) k), max b (min (E q) k))) qs (a0, b0) = (a, b)"
  shows "a \<le> a0 \<and> b0 \<le> b \<and> (\<forall>q\<in>set qs. a \<le> min (S q) k \<and> min (E q) k \<le> (b::int))"
  using w
proof (induction qs arbitrary: a0 b0)
  case (Cons q qs)
  then show ?case using Cons.IH[of "min a0 (min (S q) k)" "max b0 (min (E q) k)"] by auto
qed simp

lemma block_window_bounds:
  assumes "block_window keys block_q Starts Ends base = (a, b)" and "q < block_q"
  shows "a \<le> Starts ! (base + q)" "a \<le> int keys" "min (Ends ! (base + q)) (int keys) \<le> b"
  using window_fold[OF assms(1)[unfolded block_window_def]] assms(2) by auto

section \<open>The prefill kernel\<close>

text \<open>The score of a cell: row \<open>r\<close> of the flattened query heads against key \<open>c\<close>.\<close>

definition cell_score :: "('h list \<Rightarrow> 'k \<Rightarrow> 'v) \<Rightarrow> (int \<Rightarrow> 'k) \<Rightarrow> nat \<Rightarrow> 'h list \<Rightarrow> 'k list \<Rightarrow> nat \<Rightarrow> int \<Rightarrow> 'v option" where
  "cell_score red oob heads Q K r c =
     Some (red (take heads (drop (r * heads) Q)) (if 0 \<le> c \<and> nat c < length K then K ! nat c else oob c))"

lemma q_shared_row:
  "qi < block_q \<Longrightarrow> take heads (drop (qi * heads) (take (block_q * heads) (drop (base * heads) Q))) =
    take heads (drop ((base + qi) * heads) Q)"
proof -
  assume "qi < block_q"
  then have "heads \<le> (block_q - qi) * heads" by (cases "block_q - qi") simp_all
  then have "heads \<le> block_q * heads - qi * heads" by (simp add: diff_mult_distrib)
  then show ?thesis by (simp add: drop_take min_absorb1 algebra_simps)
qed

lemma tile_stores_mem:
  "(r, c, v) \<in> set (tile_stores red oob heads block_n block_q Q K base col0) \<longleftrightarrow>
    (\<exists>qi<block_q. \<exists>n<block_n. r = base + qi \<and> c = col0 + int n \<and> v = cell_score red oob heads Q K r c)"
proof -
  define key where "key = (\<lambda>n. if 0 \<le> col0 + int n \<and> nat (col0 + int n) < length K then K ! nat (col0 + int n) else oob (col0 + int n))"
  define red' where "red' = map (\<lambda>kv. map (\<lambda>qi. red (take heads (drop (qi * heads) (take (block_q * heads) (drop (base * heads) Q)))) kv) [0..<block_q])
      (map key [0..<block_n])"
  have st: "tile_stores red oob heads block_n block_q Q K base col0 =
      map (\<lambda>(qi, n). (base + qi, col0 + int n, Some (red' ! n ! qi))) (List.product [0..<block_q] [0..<block_n])"
    by (simp only: tile_stores_def Let_def red'_def key_def)
  have e: "Some (red' ! n ! qi) = cell_score red oob heads Q K (base + qi) (col0 + int n)" if "qi < block_q" "n < block_n" for qi n
    using that by (simp add: red'_def key_def cell_score_def q_shared_row)
  have "(r, c, v) \<in> set (tile_stores red oob heads block_n block_q Q K base col0) \<longleftrightarrow>
      (\<exists>qi<block_q. \<exists>n<block_n. r = base + qi \<and> c = col0 + int n \<and> v = Some (red' ! n ! qi))" unfolding st by auto
  then show ?thesis using e by metis
qed

lemma prefill_cta_mem:
  assumes w: "block_window (length K) block_q Starts Ends (bx * block_q) = (a, b)"
  shows "(r, c, v) \<in> set (prefill_cta red oob heads block_n block_q split Q K Starts Ends (bx, by')) \<longleftrightarrow>
    (\<exists>qi<block_q. \<exists>t\<in>set (tile_range (ceil_div (b - a) (int block_n)) split by'). \<exists>n<block_n.
       r = bx * block_q + qi \<and> c = a + t * int block_n + int n \<and> v = cell_score red oob heads Q K r c)"
  unfolding prefill_cta_def Let_def prod.case w set_concat set_map by (auto simp: tile_stores_mem)

text \<open>A column of the window lies in one tile.\<close>

lemma window_tile:
  assumes "0 < block_n" "a \<le> c" "c < b"
  obtains t n where "0 \<le> t" "t < ceil_div (b - a) (int block_n)" "n < block_n" "c = a + t * int block_n + int n"
proof
  let ?n = "int block_n" let ?t = "(c - a) div ?n"
  have n: "0 < ?n" using assms(1) by simp
  show "0 \<le> ?t" using assms(2) n by (simp add: pos_imp_zdiv_nonneg_iff)
  have "?t * ?n \<le> c - a" using div_mult_mod_eq[of "c - a" ?n] pos_mod_sign[OF n, of "c - a"] by linarith
  then have "(?t + 1) * ?n \<le> b - a + ?n - 1" using assms(3) by (simp add: distrib_right)
  then have "?t + 1 \<le> ceil_div (b - a) ?n" unfolding ceil_div_def by (rule le_div_int[OF n])
  then show "?t < ceil_div (b - a) ?n" by simp
  have m: "0 \<le> (c - a) mod ?n" "(c - a) mod ?n < ?n" using n by simp_all
  then show "nat ((c - a) mod ?n) < block_n" by linarith
  show "c = a + ?t * ?n + int (nat ((c - a) mod ?n))" using m(1) div_mult_mod_eq[of "c - a" ?n] by simp
qed

definition fair_order :: "('a list \<Rightarrow> 'a list) \<Rightarrow> bool" where
  "fair_order sched \<longleftrightarrow> (\<forall>g. set (sched g) = set g)"

lemma row_block_in_grid:
  assumes "r < rows" and q: "0 < (block_q :: nat)"
  shows "r div block_q < (rows + block_q - 1) div block_q"
proof -
  have "r div block_q * block_q \<le> r" by simp
  then have "r div block_q * block_q + block_q \<le> rows + block_q - 1" using assms by linarith
  then have "(r div block_q + 1) * block_q \<le> rows + block_q - 1" by (simp add: add_mult_distrib)
  then show ?thesis using q by (metis Suc_eq_plus1 Suc_le_eq less_eq_div_iff_mult_less_eq)
qed

lemma prefill_kernel_cell:
  assumes s: "fair_order sched" "0 < split" "0 < block_n" "0 < block_q"
    and r: "r < rows" "r < length L" and c: "c < length K" "length (L ! r) = length K"
    and win: "Starts ! r \<le> int c" "int c < Ends ! r"
  shows "prefill_kernel red oob sched heads block_n block_q split rows Q K Starts Ends L ! r ! c = cell_score red oob heads Q K r (int c)"
proof -
  let ?ws = "concat (map (prefill_cta red oob heads block_n block_q split Q K Starts Ends) (sched (prefill_grid rows block_q split)))"
  have val: "v = cell_score red oob heads Q K r (int c)" if v: "(r, int c, v) \<in> set ?ws" for v
  proof -
    obtain bx by' where "(r, int c, v) \<in> set (prefill_cta red oob heads block_n block_q split Q K Starts Ends (bx, by'))" using v by auto
    moreover obtain a b where "block_window (length K) block_q Starts Ends (bx * block_q) = (a, b)" by fastforce
    ultimately show ?thesis using prefill_cta_mem by fast
  qed
  let ?bx = "r div block_q" and ?qi = "r mod block_q"
  have bq: "?qi < block_q" "?bx * block_q + ?qi = r" using s(4) by simp_all
  obtain a b where w: "block_window (length K) block_q Starts Ends (?bx * block_q) = (a, b)" by fastforce
  have "a \<le> int c" "int c < b" using block_window_bounds[OF w bq(1)] win c(1) unfolding bq(2) by linarith+
  then obtain t n where t: "0 \<le> t" "t < ceil_div (b - a) (int block_n)" "n < block_n" "int c = a + t * int block_n + int n"
    using window_tile[OF s(3)] by blast
  obtain by' where by': "by' < split" "t \<in> set (tile_range (ceil_div (b - a) (int block_n)) split by')"
    by (rule tile_owner[OF t(1,2) s(2)])
  have "(r, int c, cell_score red oob heads Q K r (int c)) \<in> set (prefill_cta red oob heads block_n block_q split Q K Starts Ends (?bx, by'))"
    unfolding prefill_cta_mem[OF w] using bq t(3,4) by'(2) by metis
  moreover have "?bx < (rows + block_q - 1) div block_q" by (rule row_block_in_grid[OF r(1) s(4)])
  then have "(?bx, by') \<in> set (sched (prefill_grid rows block_q split))"
    using s(1) by'(1) by (auto simp: fair_order_def prefill_grid_def)
  ultimately have "\<exists>v. (r, int c, v) \<in> set ?ws" by (auto intro!: exI bexI)
  then show ?thesis unfolding prefill_kernel_def
    by (subst store_all_cell[where x = "cell_score red oob heads Q K r (int c)"]) (use r c val in auto)
qed

section \<open>The mask kernel and the launch\<close>

lemma mask_kernel_cell:
  fixes L :: "'v option list list"
  assumes k: "0 < threads" "threads dvd block_k" "0 < block_k" and r: "r < length L" and c: "c < keys" "length (L ! r) = keys"
  shows "mask_kernel threads block_k keys Starts Ends L ! r ! c = (if Starts ! r \<le> int c \<and> int c < Ends ! r then L ! r ! c else None)"
proof -
  let ?col = "\<lambda>block item tx. int (block * block_k + item * threads + tx)"
  define ws :: "(nat \<times> int \<times> 'v option) list" where "ws = concat (map (\<lambda>bx. concat (map (\<lambda>block. concat (map (\<lambda>item. concat (map (\<lambda>tx.
         let column = ?col block item tx
         in if column < Starts ! bx \<or> Ends ! bx \<le> column then [(bx, column, None)] else [])
       [0..<threads])) [0..<block_k div threads])) [0..<(keys + block_k - 1) div block_k])) [0..<length L])"
  have val: "v = None" if "(r, int c, v) \<in> set ws" for v
    using that unfolding ws_def by (auto simp: Let_def split: if_splits)
  let ?b = "c div block_k" and ?i = "c mod block_k div threads" and ?t = "c mod threads"
  have col: "?b * block_k + ?i * threads + ?t = c"
    using k(2) by (metis add.assoc div_mult_mod_eq mod_mod_cancel)
  have ib: "?i < block_k div threads" using k by (metis dvd_div_mult_self less_mult_imp_div_less mod_less_divisor)
  have bb: "?b < (keys + block_k - 1) div block_k" by (rule row_block_in_grid[OF c(1) k(3)])
  have mem: "(\<exists>v. (r, int c, v) \<in> set ws) \<longleftrightarrow> int c < Starts ! r \<or> Ends ! r \<le> int c"
  proof
    assume "\<exists>v. (r, int c, v) \<in> set ws"
    then show "int c < Starts ! r \<or> Ends ! r \<le> int c" unfolding ws_def by (auto simp: Let_def split: if_splits)
  next
    assume out: "int c < Starts ! r \<or> Ends ! r \<le> int c"
    have "(r, int c, None) \<in> set (let column = ?col ?b ?i ?t in if column < Starts ! r \<or> Ends ! r \<le> column then [(r, column, None :: 'v option)] else [])"
      using out by (simp add: Let_def col del: of_nat_add of_nat_mult)
    then show "\<exists>v. (r, int c, v) \<in> set ws"
      unfolding ws_def set_concat set_map using r bb ib mod_less_divisor[OF k(1), of c] by (intro exI[of _ None]) fastforce
  qed
  have "mask_kernel threads block_k keys Starts Ends L ! r ! c = (if \<exists>v. (r, int c, v) \<in> set ws then None else L ! r ! c)"
    unfolding mask_kernel_def ws_def[symmetric] by (rule store_all_cell) (use r c val in auto)
  then show ?thesis unfolding mem by auto
qed

lemma mask_kernel_shape: "length (mask_kernel threads block_k keys Starts Ends L) = length L"
  "r < length L \<Longrightarrow> length (mask_kernel threads block_k keys Starts Ends L ! r) = length (L ! r)"
  using store_all_shape unfolding mask_kernel_def by blast+

lemma take_drop_concat: "\<forall>x\<in>set xs. length x = h \<Longrightarrow> r < length xs \<Longrightarrow> take h (drop (r * h) (concat xs)) = xs ! r"
proof (induction xs arbitrary: r)
  case (Cons x xs)
  then show ?case by (cases r) simp_all
qed simp

text \<open>Query rows of the declared number of heads, and a window for each.\<close>

definition mqa_shapes :: "nat \<Rightarrow> 'h list \<Rightarrow> 'h list list \<Rightarrow> int list \<Rightarrow> int list \<Rightarrow> bool" where
  "mqa_shapes heads zero_heads q starts ends \<longleftrightarrow> (\<forall>x\<in>set q. length x = heads) \<and> length zero_heads = heads \<and>
     length starts = length q \<and> length ends = length q"

lemma launch_cell:
  assumes sh: "mqa_shapes heads zero_heads q starts ends" and s: "fair_order sched" "0 < split"
    and r: "r < length q" and c: "c < length K"
  shows "prefill_launch red dv zero oob sched split heads zero_heads q K starts ends ! r ! c =
    (if starts ! r \<le> int c \<and> int c < ends ! r then Some (dv (red (q ! r) (K ! c))) else None)"
proof -
  define rows where "rows = length q"
  define bq where "bq = max 1 (128 div heads)"
  define pad where "pad = nat (- int rows mod int bq)"
  define L where "L = replicate (rows + pad) (replicate (length K) (Some zero))"
  define qp where "qp = q @ replicate pad zero_heads"
  define S where "S = starts @ replicate pad (last starts)"
  define E where "E = ends @ replicate pad (last ends)"
  define out where "out = prefill_kernel red oob sched heads 64 bq split (rows + pad) (concat qp) K S E L"
  have launch: "prefill_launch red dv zero oob sched split heads zero_heads q K starts ends =
      mask_kernel 512 4096 (length K) (take rows S) (take rows E) (map (map (map_option dv)) (take rows out))"
    by (simp only: prefill_launch_def Let_def out_def L_def qp_def S_def E_def pad_def bq_def rows_def)
  have lo: "length out = rows + pad" "\<And>r. r < rows + pad \<Longrightarrow> length (out ! r) = length K"
    using store_all_shape[of L] unfolding out_def prefill_kernel_def by (simp_all add: L_def)
  have r': "r < rows" using r by (simp add: rows_def)
  have win: "take rows S ! r = starts ! r" "take rows E ! r = ends ! r" "S ! r = starts ! r" "E ! r = ends ! r"
    using sh r' by (simp_all add: S_def E_def mqa_shapes_def rows_def nth_append)
  have cell: "out ! r ! c = Some (red (q ! r) (K ! c))" if "starts ! r \<le> int c" "int c < ends ! r"
  proof -
    have "out ! r ! c = cell_score red oob heads (concat qp) K r (int c)"
      unfolding out_def by (rule prefill_kernel_cell[OF s]) (use r' c that win in \<open>simp_all add: bq_def L_def\<close>)
    moreover have "take heads (drop (r * heads) (concat qp)) = qp ! r"
      by (rule take_drop_concat) (use sh r' in \<open>auto simp: qp_def mqa_shapes_def rows_def\<close>)
    moreover have "qp ! r = q ! r" using r by (simp add: qp_def nth_append)
    ultimately show ?thesis using c by (simp add: cell_score_def)
  qed
  have "prefill_launch red dv zero oob sched split heads zero_heads q K starts ends ! r ! c =
    (if starts ! r \<le> int c \<and> int c < ends ! r then map (map (map_option dv)) (take rows out) ! r ! c else None)"
    unfolding launch win(1,2)[symmetric] by (rule mask_kernel_cell) (use lo r' c in simp_all)
  then show ?thesis using cell lo r' c by simp
qed

lemma launch_shape:
  "length (prefill_launch red dv zero oob sched split heads zero_heads q K starts ends) = length q"
  "r < length q \<Longrightarrow> length (prefill_launch red dv zero oob sched split heads zero_heads q K starts ends ! r) = length K"
proof -
  define L where "L = replicate (length q + nat (- int (length q) mod int (max 1 (128 div heads)))) (replicate (length K) (Some zero))"
  have sh: "length (store_all L ws) = length L" "\<And>r. r < length L \<Longrightarrow> length (store_all L ws ! r) = length K" for ws
    using store_all_shape[of L ws] by (simp_all add: L_def)
  show "length (prefill_launch red dv zero oob sched split heads zero_heads q K starts ends) = length q"
    unfolding prefill_launch_def Let_def prefill_kernel_def mask_kernel_shape L_def[symmetric] using sh(1) by (simp add: L_def)
  show "r < length q \<Longrightarrow> length (prefill_launch red dv zero oob sched split heads zero_heads q K starts ends ! r) = length K"
    unfolding prefill_launch_def Let_def prefill_kernel_def L_def[symmetric]
    by (subst mask_kernel_shape(2)) (use sh in \<open>simp_all add: L_def\<close>)
qed

section \<open>Splitting is neutral\<close>

text \<open>
  C21: The masked logits of the prefill kernel are cell for cell the same for every split of the key
  tiles and every order in which the blocks run, in any arithmetic: the score of a row against a key
  is an arbitrary function. In particular 64 splits give bit for bit what one split gives, whatever
  loads outside the keys return.
\<close>

theorem split_is_neutral:
  assumes "mqa_shapes heads zero_heads q starts ends" and "fair_order sched" "fair_order sched'" and "0 < split" "0 < split'"
  shows "prefill_launch red dv zero oob sched split heads zero_heads q K starts ends =
    prefill_launch red dv zero oob' sched' split' heads zero_heads q K starts ends"
proof (rule nth_equalityI)
  fix r assume r: "r < length (prefill_launch red dv zero oob sched split heads zero_heads q K starts ends)"
  show "prefill_launch red dv zero oob sched split heads zero_heads q K starts ends ! r =
    prefill_launch red dv zero oob' sched' split' heads zero_heads q K starts ends ! r"
  proof (rule nth_equalityI)
    have r': "r < length q" using r by (simp only: launch_shape)
    show "length (prefill_launch red dv zero oob sched split heads zero_heads q K starts ends ! r) =
      length (prefill_launch red dv zero oob' sched' split' heads zero_heads q K starts ends ! r)"
      by (simp only: launch_shape(2)[OF r'])
    fix c assume "c < length (prefill_launch red dv zero oob sched split heads zero_heads q K starts ends ! r)"
    then have c: "c < length K" by (simp only: launch_shape(2)[OF r'])
    show "prefill_launch red dv zero oob sched split heads zero_heads q K starts ends ! r ! c =
      prefill_launch red dv zero oob' sched' split' heads zero_heads q K starts ends ! r ! c"
      by (simp only: launch_cell[OF assms(1,2,4) r' c] launch_cell[OF assms(1,3,5) r' c])
  qed
qed (simp only: launch_shape)

theorem split_is_neutral_witness:
  "prefill_launch (\<lambda>hs k. sum_list hs * k) (\<lambda>x. x - 1) (0 :: int) (\<lambda>_. 7) rev 64 2 [0, 0] [[1, 2], [3, 4]] [5, 6, 7] [0, 1] [2, 3] =
   prefill_launch (\<lambda>hs k. sum_list hs * k) (\<lambda>x. x - 1) (0 :: int) (\<lambda>_. 9) id 1 2 [0, 0] [[1, 2], [3, 4]] [5, 6, 7] [0, 1] [2, 3]"
  by (rule split_is_neutral) (simp_all add: mqa_shapes_def fair_order_def)

text \<open>
  C22: Every cell of a row's window is written by exactly one block of the grid, so that the blocks
  never race on a cell of the result.
\<close>

theorem one_writer_per_cell:
  assumes "0 < split" "0 < block_n" "0 < block_q" and r: "r < rows" and c: "c < length K" and win: "Starts ! r \<le> int c" "int c < Ends ! r"
  shows "\<exists>!cta. cta \<in> set (prefill_grid rows block_q split) \<and>
    (\<exists>v. (r, int c, v) \<in> set (prefill_cta red oob heads block_n block_q split Q K Starts Ends cta))"
proof -
  let ?bx = "r div block_q"
  have bq: "r mod block_q < block_q" "?bx * block_q + r mod block_q = r" using assms(3) by simp_all
  obtain a b where w: "block_window (length K) block_q Starts Ends (?bx * block_q) = (a, b)" by fastforce
  have "a \<le> int c" "int c < b" using block_window_bounds[OF w bq(1)] win c unfolding bq(2) by linarith+
  then obtain t n where t: "0 \<le> t" "t < ceil_div (b - a) (int block_n)" "n < block_n" "int c = a + t * int block_n + int n"
    using window_tile[OF assms(2)] by blast
  obtain y where y: "y < split" "t \<in> set (tile_range (ceil_div (b - a) (int block_n)) split y)"
    by (rule tile_owner[OF t(1,2) assms(1)])
  have "(?bx, y) \<in> set (prefill_grid rows block_q split)"
    using row_block_in_grid[OF r assms(3)] y(1) by (simp add: prefill_grid_def)
  moreover have "\<exists>v. (r, int c, v) \<in> set (prefill_cta red oob heads block_n block_q split Q K Starts Ends (?bx, y))"
    unfolding prefill_cta_mem[OF w] using bq t(3,4) y(2) by metis
  moreover have "cta = (?bx, y)" if v: "(r, int c, v) \<in> set (prefill_cta red oob heads block_n block_q split Q K Starts Ends cta)" for cta v
  proof -
    obtain bx y' where cta: "cta = (bx, y')" by (cases cta)
    obtain a' b' where w': "block_window (length K) block_q Starts Ends (bx * block_q) = (a', b')" by fastforce
    obtain qi t' n' where h: "qi < block_q" "t' \<in> set (tile_range (ceil_div (b' - a') (int block_n)) split y')" "n' < block_n"
      "r = bx * block_q + qi" "int c = a' + t' * int block_n + int n'"
      using v unfolding cta prefill_cta_mem[OF w'] by blast
    have bx: "bx = ?bx" using h(1,4) by simp
    then have ab: "a' = a" "b' = b" using w w' by simp_all
    have dv: "(x * int block_n + int m) div int block_n = x" if "m < block_n" for x m using that by simp
    have "t' * int block_n + int n' = t * int block_n + int n" using h(5) t(4) ab(1) by linarith
    then have "t' = t" using dv[OF h(3), of t'] dv[OF t(3), of t] by simp
    then have "y' = y" using tile_owner_unique[OF _ y(2)] h(2) ab by simp
    then show ?thesis using cta bx by simp
  qed
  ultimately show ?thesis by blast
qed

theorem one_writer_per_cell_witness:
  "\<exists>!cta. cta \<in> set (prefill_grid 4 2 3) \<and>
    (\<exists>v. (3, int 4, v) \<in> set (prefill_cta (\<lambda>hs k. sum_list hs * k) (\<lambda>_. 0 :: int) 1 2 2 3 [1, 2, 3, 4] [5, 6, 7, 8, 9, 10] [0, 0, 1, 2] [2, 3, 4, 5] cta))"
  using one_writer_per_cell[of 3 2 2 3 4 4 "[5, 6, 7, 8, 9, 10]" "[0, 0, 1, 2]" "[2, 3, 4, 5]"] by simp

end
