(* ===== verification/Qsa_Equiv.thy ===== *)
theory Qsa_Equiv
  imports Qsa_Tiles
begin

text \<open>
  The TileLang launches compute the torch references, when the inputs are exactly representable in the
  kernels' type: prefill over packed windows, decode over pages of any supported width.
\<close>

section \<open>Prefill\<close>

definition tensor3_ok :: "nat \<Rightarrow> nat \<Rightarrow> rat list list tensor \<Rightarrow> bool" where
  "tensor3_ok n d t \<longleftrightarrow> t_shape t = [length (t_rows t), n, d] \<and> (\<forall>row\<in>set (t_rows t). length row = n \<and> (\<forall>v\<in>set row. length v = d))"

definition exact_in :: "(rat \<Rightarrow> rat) \<Rightarrow> rat list list list \<Rightarrow> bool" where
  "exact_in bf rows \<longleftrightarrow> (\<forall>row\<in>set rows. \<forall>v\<in>set row. \<forall>x\<in>set v. bf x = x)"

lemma exact_map: "exact_in bf rows \<Longrightarrow> map (map (map bf)) rows = rows"
  unfolding exact_in_def by (intro map_idI) auto

lemma validate_ok:
  "tensor3_ok n d t \<Longrightarrow> validate_q t = (if n = 0 \<or> d = 0 then Inl ValueError else Inr ())"
  "tensor3_ok 1 d t \<Longrightarrow> validate_k t = (if d = 0 then Inl ValueError else Inr ())"
  by (simp_all add: tensor3_ok_def validate_q_def validate_k_def numeral_2_eq_2)

text \<open>
  C6: On operands that are exact in \<^verbatim>\<open>bfloat16\<close>, the TileLang prefill path (padding of the rows,
  blocks in any order, 64 splits, division, mask) returns exactly the logits of the torch reference,
  for every head count, every window and also when there are no rows or no keys.
\<close>

theorem tilelang_prefill_is_reference:
  assumes q: "tensor3_ok heads d q" and k: "tensor3_ok 1 d k" and ex: "exact_in bf (t_rows q)" "exact_in bf (t_rows k)"
    and len: "length starts = length (t_rows q)" "length ends = length (t_rows q)" and s: "fair_order sched"
  shows "tilelang_qsa_mqa_prefill True bf oob sched sq_root q k starts ends score_scale =
    torch_qsa_mqa_prefill sq_root q k starts ends score_scale"
proof (cases "heads = 0 \<or> d = 0")
  case True
  then show ?thesis using validate_ok(1)[OF q] validate_ok(2)[OF k] by (auto simp: tilelang_qsa_mqa_prefill_def torch_qsa_mqa_prefill_def)
next
  case False
  have v: "validate_q q = Inr ()" "validate_k k = Inr ()" using False validate_ok(1)[OF q] validate_ok(2)[OF k] by simp_all
  have shq: "t_shape q ! 1 = heads" "t_shape q ! 2 = d" "last (t_shape q) = d" "last (t_shape k) = d"
    using q k by (simp_all add: tensor3_ok_def numeral_2_eq_2)
  have keys: "map (\<lambda>r. map bf (hd r)) (t_rows k) = map hd (t_rows k)"
  proof (rule map_cong[OF refl])
    fix r assume r: "r \<in> set (t_rows k)"
    then have "length r = 1" using k by (simp add: tensor3_ok_def)
    then have "hd r \<in> set r" by (cases r) simp_all
    then have "\<forall>x\<in>set (hd r). bf x = x" using ex(2) r by (auto simp: exact_in_def)
    then show "map bf (hd r) = hd r" by (intro map_idI) blast
  qed
  let ?s = "scale_or (sq_root d) score_scale"
  let ?ref = "map (\<lambda>m. map (\<lambda>n. if starts ! m \<le> int n \<and> int n < ends ! m
                then Some (relu_sum (t_rows q ! m) (hd (t_rows k ! n)) / ?s) else None) [0..<length (t_rows k)]) [0..<length (t_rows q)]"
  have torch: "torch_qsa_mqa_prefill sq_root q k starts ends score_scale = Inr ?ref"
    by (simp add: torch_qsa_mqa_prefill_def v shq)
  show ?thesis
  proof (cases "length (t_rows q) = 0 \<or> length (t_rows k) = 0")
    case True
    then have "?ref = replicate (length (t_rows q)) (replicate (length (t_rows k)) None)"
      by (auto simp: map_replicate_const)
    then show ?thesis using True by (simp add: tilelang_qsa_mqa_prefill_def torch v Let_def)
  next
    case nonempty: False
    let ?out = "prefill_launch relu_sum (\<lambda>x. x / ?s) 0 oob sched 64 heads (replicate heads (replicate d 0)) (t_rows q) (map hd (t_rows k)) starts ends"
    have sh: "mqa_shapes heads (replicate heads (replicate d 0)) (t_rows q) starts ends"
      using q len by (simp add: mqa_shapes_def tensor3_ok_def)
    have "?out = ?ref"
    proof (rule nth_equalityI)
      fix r assume "r < length ?out"
      then have r: "r < length (t_rows q)" by (simp only: launch_shape)
      show "?out ! r = ?ref ! r"
      proof (rule nth_equalityI)
        show "length (?out ! r) = length (?ref ! r)" using r by (simp add: launch_shape(2)[OF r])
        fix c assume "c < length (?out ! r)"
        then have c: "c < length (map hd (t_rows k))" by (simp only: launch_shape(2)[OF r])
        have "0 < (64 :: nat)" by simp
        from launch_cell[OF sh s this r c, of relu_sum "\<lambda>x. x / ?s" 0 oob] show "?out ! r ! c = ?ref ! r ! c" using r c by simp
      qed
    qed (simp add: launch_shape)
    then show ?thesis using nonempty
      by (simp add: tilelang_qsa_mqa_prefill_def torch v Let_def keys exact_map[OF ex(1)] shq del: One_nat_def)
  qed
qed

definition ex_q :: "rat list list tensor" where
  "ex_q = \<lparr>t_shape = [2, 1, 2], t_rows = [[[1, 2]], [[3, - 1]]]\<rparr>"

definition ex_k :: "rat list list tensor" where
  "ex_k = \<lparr>t_shape = [3, 1, 2], t_rows = [[[1, 1]], [[0, 2]], [[1, 0]]]\<rparr>"

theorem tilelang_prefill_is_reference_witness:
  "tilelang_qsa_mqa_prefill True (\<lambda>x. x) (\<lambda>_. [9, 9]) rev (\<lambda>_. 2) ex_q ex_k [0, 1] [2, 3] None =
     Inr [[Some (3 / 2), Some 2, None], [None, Some 0, Some (3 / 2)]]"
proof -
  have ok: "tensor3_ok 1 2 ex_q" "tensor3_ok 1 2 ex_k" "exact_in (\<lambda>x. x) (t_rows ex_q)" "exact_in (\<lambda>x. x) (t_rows ex_k)"
    by (simp_all add: tensor3_ok_def exact_in_def ex_q_def ex_k_def)
  have l: "length [0, 1 :: int] = length (t_rows ex_q)" "length [2, 3 :: int] = length (t_rows ex_q)" by (simp_all add: ex_q_def)
  have f: "fair_order (rev :: (nat \<times> nat) list \<Rightarrow> _)" by (simp add: fair_order_def)
  have "torch_qsa_mqa_prefill (\<lambda>_. 2) ex_q ex_k [0, 1] [2, 3] None = Inr [[Some (3 / 2), Some 2, None], [None, Some 0, Some (3 / 2)]]"
    by (simp add: torch_qsa_mqa_prefill_def validate_q_def validate_k_def ex_q_def ex_k_def relu_sum_def vdot_def scale_or_def upt_conv_Cons)
  then show ?thesis using tilelang_prefill_is_reference[OF ok l f] by simp
qed

section \<open>Decode\<close>

lemma nth_concat_map_uniform:
  assumes "\<forall>x\<in>set xs. length (f x) = P" and "n < length xs * P"
  shows "concat (map f xs) ! n = f (xs ! (n div P)) ! (n mod P)"
proof -
  have e: "map f xs = map (\<lambda>x. map ((!) (f x)) [0..<P]) xs" using assms(1) by (intro map_cong[OF refl]) (metis map_nth)
  show ?thesis by (subst e) (rule nth_concat_blocks[OF assms(2)])
qed

lemma relu_sum_padded: "relu_sum (row @ replicate n (replicate d 0)) key = relu_sum row key"
proof -
  have "(\<Sum>x\<leftarrow>map2 (*) (replicate d 0) key. x) = 0" for key :: "rat list"
    by (induction d arbitrary: key) (simp, case_tac key, simp_all)
  then have "vdot (replicate d 0) key = 0" by (simp add: vdot_def)
  then show ?thesis by (simp add: relu_sum_def sum_list_replicate)
qed

text \<open>The pages a decode row may read: at least the pages below its length, and room for its length.\<close>

definition decode_ready :: "nat \<Rightarrow> nat \<Rightarrow> nat \<Rightarrow> rat list list tensor \<Rightarrow> rat list list tensor \<Rightarrow> int list tensor \<Rightarrow> int list \<Rightarrow> bool" where
  "decode_ready P maxp d q kc tab lens \<longleftrightarrow> t_shape kc = [length (t_rows kc), P, 1, d] \<and> (\<forall>pg\<in>set (t_rows kc). length pg = P) \<and>
     t_shape tab = [length (t_rows q), maxp] \<and> length (t_rows tab) = length (t_rows q) \<and> length lens = length (t_rows q) \<and>
     (\<forall>row\<in>set (t_rows tab). length row = maxp \<and> (\<forall>p\<in>set row. max 0 p < int (length (t_rows kc)))) \<and>
     (\<forall>b<length lens. lens ! b \<le> int (maxp * P) \<and> (\<forall>j<maxp. int (j * P) < lens ! b \<longrightarrow> 0 \<le> t_rows tab ! b ! j))"

lemma decode_cta_mem:
  assumes P: "64 mod P = 0" "0 < P"
    and row: "length (Table ! bx) = maxp" "\<forall>j<maxp. int (j * P) < Lens ! bx \<longrightarrow> 0 \<le> Table ! bx ! j \<and> nat (Table ! bx ! j) < length KC"
    and fit: "Lens ! bx \<le> int (maxp * P)"
  shows "(b, int c, v) \<in> set (decode_cta red dv stale P 1 Q KC Table Lens (bx, g)) \<longleftrightarrow>
    b = bx \<and> g = c div 64 \<and> int c < Lens ! bx \<and> v = Some (dv (red (Q ! bx) (KC ! nat (Table ! bx ! (c div P)) ! (c mod P))))"
proof -
  let ?sub = "64 div P"
  have sub: "?sub * P = 64" using P(1) by (simp add: mod_eq_0_iff_dvd)
  define ks where "ks = (\<lambda>token. let pg = g * ?sub + token div P in
      if int (pg * P) < Lens ! bx \<and> pg < length (Table ! bx) \<and> 0 \<le> Table ! bx ! pg \<and> nat (Table ! bx ! pg) < length KC
      then KC ! nat (Table ! bx ! pg) ! (token mod P) else stale (int g) token)"
  have key: "ks token = KC ! nat (Table ! bx ! ((g * 64 + token) div P)) ! ((g * 64 + token) mod P)"
    if t: "int (g * 64 + token) < Lens ! bx" for token
  proof -
    have e: "g * 64 + token = g * ?sub * P + token" using sub by (simp add: mult.assoc)
    have pg: "(g * 64 + token) div P = g * ?sub + token div P" "(g * 64 + token) mod P = token mod P"
      unfolding e using P(2) by simp_all
    have le: "(g * ?sub + token div P) * P \<le> g * 64 + token" unfolding pg(1)[symmetric] by simp
    then have lt: "int ((g * ?sub + token div P) * P) < Lens ! bx" using t by linarith
    then have "(g * ?sub + token div P) * P < maxp * P" using fit by linarith
    then have "g * ?sub + token div P < maxp" by simp
    then show ?thesis using lt row unfolding ks_def Let_def pg by (simp del: of_nat_mult of_nat_add)
  qed
  have mem: "(b, int c, v) \<in> set (decode_cta red dv stale P 1 Q KC Table Lens (bx, g)) \<longleftrightarrow>
      int (g * 64) < Lens ! bx \<and> (\<exists>token<64. int (g * 64 + token) < Lens ! bx \<and> b = bx \<and> int c = int (g * 64 + token) \<and>
        v = Some (dv (red (Q ! bx) (map ks [0..<64] ! token))))"
    unfolding decode_cta_def Let_def ks_def prod.case by (auto split: if_splits)
  show ?thesis unfolding mem
  proof
    assume "int (g * 64) < Lens ! bx \<and> (\<exists>token<64. int (g * 64 + token) < Lens ! bx \<and> b = bx \<and> int c = int (g * 64 + token) \<and>
        v = Some (dv (red (Q ! bx) (map ks [0..<64] ! token))))"
    then obtain token where t: "token < 64" "int (g * 64 + token) < Lens ! bx" "b = bx" "int c = int (g * 64 + token)"
      "v = Some (dv (red (Q ! bx) (map ks [0..<64] ! token)))" by blast
    have c: "c = g * 64 + token" using t(4) by (simp only: of_nat_eq_iff)
    show "b = bx \<and> g = c div 64 \<and> int c < Lens ! bx \<and> v = Some (dv (red (Q ! bx) (KC ! nat (Table ! bx ! (c div P)) ! (c mod P))))"
      using t key[OF t(2)] unfolding c by (simp del: of_nat_mult of_nat_add)
  next
    assume h: "b = bx \<and> g = c div 64 \<and> int c < Lens ! bx \<and> v = Some (dv (red (Q ! bx) (KC ! nat (Table ! bx ! (c div P)) ! (c mod P))))"
    have c: "g * 64 + c mod 64 = c" using h by simp
    have lt: "int (g * 64 + c mod 64) < Lens ! bx" unfolding c using h by blast
    have first: "int (g * 64) < Lens ! bx" using lt by linarith
    have "map ks [0..<64] ! (c mod 64) = KC ! nat (Table ! bx ! (c div P)) ! (c mod P)" using key[OF lt] unfolding c by simp
    then have v: "v = Some (dv (red (Q ! bx) (map ks [0..<64] ! (c mod 64))))" using h by simp
    have "int c = int (g * 64 + c mod 64)" "c mod 64 < 64" unfolding c by simp_all
    then show "int (g * 64) < Lens ! bx \<and> (\<exists>token<64. int (g * 64 + token) < Lens ! bx \<and> b = bx \<and> int c = int (g * 64 + token) \<and>
        v = Some (dv (red (Q ! bx) (map ks [0..<64] ! token))))"
      using first lt v h by blast
  qed
qed

lemma decode_readyD:
  assumes rd: "decode_ready P maxp d q kc tab lens" and b: "b < length (t_rows q)"
  shows "length (t_rows tab ! b) = maxp" "\<forall>p\<in>set (t_rows tab ! b). max 0 p < int (length (t_rows kc))"
    "lens ! b \<le> int (maxp * P)"
    "\<forall>j<maxp. int (j * P) < lens ! b \<longrightarrow> 0 \<le> t_rows tab ! b ! j \<and> nat (t_rows tab ! b ! j) < length (t_rows kc)"
    "int c < lens ! b \<Longrightarrow> c < maxp * P"
proof -
  have len: "length (t_rows tab) = length (t_rows q)" "length lens = length (t_rows q)"
    and rows: "\<forall>row\<in>set (t_rows tab). length row = maxp \<and> (\<forall>p\<in>set row. max 0 p < int (length (t_rows kc)))"
    and used: "\<forall>b<length lens. lens ! b \<le> int (maxp * P) \<and> (\<forall>j<maxp. int (j * P) < lens ! b \<longrightarrow> 0 \<le> t_rows tab ! b ! j)"
    using rd unfolding decode_ready_def by blast+
  have "t_rows tab ! b \<in> set (t_rows tab)" using b len(1) by simp
  then show row: "length (t_rows tab ! b) = maxp" "\<forall>p\<in>set (t_rows tab ! b). max 0 p < int (length (t_rows kc))" using rows by blast+
  show le: "lens ! b \<le> int (maxp * P)" using used b len(2) by simp
  show "\<forall>j<maxp. int (j * P) < lens ! b \<longrightarrow> 0 \<le> t_rows tab ! b ! j \<and> nat (t_rows tab ! b ! j) < length (t_rows kc)"
  proof (intro allI impI)
    fix j assume j: "j < maxp" "int (j * P) < lens ! b"
    then have "max 0 (t_rows tab ! b ! j) < int (length (t_rows kc))" using row by (metis nth_mem)
    moreover have "0 \<le> t_rows tab ! b ! j" using used b len(2) j by metis
    ultimately show "0 \<le> t_rows tab ! b ! j \<and> nat (t_rows tab ! b ! j) < length (t_rows kc)" by (simp add: nat_less_iff)
  qed
  assume "int c < lens ! b"
  then have "int c < int (maxp * P)" using le by linarith
  then show "c < maxp * P" by (simp only: of_nat_less_iff)
qed

text \<open>The key the reference gathers for a position, and all stores of the kernel into one row.\<close>

lemma gathered_key:
  assumes rd: "decode_ready P maxp d q kc tab lens" and b: "b < length (t_rows q)" and c: "c < maxp * P"
  shows "concat (map (\<lambda>p. t_rows kc ! nat (max 0 p)) (t_rows tab ! b)) ! c =
    t_rows kc ! nat (t_rows tab ! b ! (c div P)) ! (c mod P)"
proof -
  have "\<forall>pg\<in>set (t_rows kc). length pg = P" using rd unfolding decode_ready_def by blast
  then have "\<forall>p\<in>set (t_rows tab ! b). length (t_rows kc ! nat (max 0 p)) = P"
    using decode_readyD(2)[OF rd b] by (auto simp: nat_less_iff)
  from nth_concat_map_uniform[OF this, of c] c decode_readyD(1)[OF rd b] show ?thesis by (simp add: max_def)
qed

lemma decode_stores:
  assumes rd: "decode_ready P maxp d q kc tab lens" and P: "8 \<le> P" "64 mod P = 0" and s: "fair_order sched"
    and b: "b < length (t_rows q)"
  shows "(b, int c, v) \<in> set (concat (map (decode_cta red dv stale P 1 Q (t_rows kc) (t_rows tab) lens)
      (sched (decode_grid (length (t_rows q)) maxp (64 div P) 1)))) \<longleftrightarrow>
    int c < lens ! b \<and> v = Some (dv (red (Q ! b) (t_rows kc ! nat (t_rows tab ! b ! (c div P)) ! (c mod P))))"
    (is "?mem \<longleftrightarrow> ?store")
proof -
  let ?grid = "sched (decode_grid (length (t_rows q)) maxp (64 div P) 1)"
  have P0: "0 < P" using P(1) by simp
  have cta: "(b, int c, v) \<in> set (decode_cta red dv stale P 1 Q (t_rows kc) (t_rows tab) lens (bx, g)) \<longleftrightarrow>
      b = bx \<and> g = c div 64 \<and> ?store" if "bx < length (t_rows q)" for bx g
    using decode_cta_mem[OF P(2) P0 decode_readyD(1,4,3)[OF rd that], of b c v red dv stale Q g] by auto
  have grid: "bx < length (t_rows q)" if "(bx, g) \<in> set ?grid" for bx g
    using that s by (simp add: fair_order_def decode_grid_def)
  have own: "(b, c div 64) \<in> set ?grid" if "int c < lens ! b"
  proof -
    have "P \<le> 64" using P(2) by (simp add: mod_eq_0_iff_dvd dvd_imp_le)
    then have sub_pos: "0 < 64 div P" using P(1) by (simp add: div_greater_zero_iff)
    have "c div P < maxp" using decode_readyD(5)[OF rd b that] by (rule less_mult_imp_div_less)
    then have "c div P div (64 div P) < (maxp + 64 div P - 1) div (64 div P)" by (rule row_block_in_grid[OF _ sub_pos])
    moreover have "c div P div (64 div P) = c div 64" using P(2) by (simp add: div_mult2_eq[symmetric] mod_eq_0_iff_dvd)
    ultimately show ?thesis using s b by (simp add: fair_order_def decode_grid_def)
  qed
  show ?thesis
  proof
    assume ?mem
    then show ?store using cta grid by auto
  next
    assume st: ?store
    then have "(b, int c, v) \<in> set (decode_cta red dv stale P 1 Q (t_rows kc) (t_rows tab) lens (b, c div 64))"
      using cta[OF b] by simp
    then show ?mem using own st by auto
  qed
qed

text \<open>One row of the logits after all stores is the row of the reference.\<close>

lemma decode_row:
  assumes rd: "decode_ready P maxp d q kc tab lens" and P: "8 \<le> P" "64 mod P = 0" and s: "fair_order sched"
    and b: "b < length (t_rows q)"
  defines "gathered \<equiv> concat (map (\<lambda>p. t_rows kc ! nat (max 0 p)) (t_rows tab ! b))"
  shows "store_all (replicate (length (t_rows q)) (replicate max_len None))
      (concat (map (decode_cta red dv stale P 1 Q (t_rows kc) (t_rows tab) lens) (sched (decode_grid (length (t_rows q)) maxp (64 div P) 1)))) ! b =
    take (min (maxp * P) max_len) (map (\<lambda>n. if lens ! b \<le> int n then None else Some (dv (red (Q ! b) (gathered ! n)))) [0..<maxp * P]) @
      replicate (max_len - min (maxp * P) max_len) None" (is "store_all ?L ?ws ! b = ?row")
proof (rule nth_equalityI)
  have L: "b < length ?L" "length (?L ! b) = max_len" using b by simp_all
  show "length (store_all ?L ?ws ! b) = length ?row" using store_all_shape[of ?L ?ws] L by simp
  fix c assume "c < length (store_all ?L ?ws ! b)"
  then have c: "c < max_len" using store_all_shape[of ?L ?ws] L by simp
  let ?val = "Some (dv (red (Q ! b) (t_rows kc ! nat (t_rows tab ! b ! (c div P)) ! (c mod P))))"
  note st = decode_stores[OF rd P s b, of c _ red dv stale Q]
  have "store_all ?L ?ws ! b ! c = (if \<exists>v. (b, int c, v) \<in> set ?ws then ?val else ?L ! b ! c)"
    by (rule store_all_cell) (use L c st in simp_all)
  also have "\<dots> = (if int c < lens ! b then ?val else None)" unfolding st using b c by simp
  also have "\<dots> = ?row ! c"
    using decode_readyD(5)[OF rd b, of c] gathered_key[OF rd b, of c] c by (auto simp: gathered_def nth_append)
  finally show "store_all ?L ?ws ! b ! c = ?row ! c" .
qed

text \<open>
  C7: On operands that are exact in \<^verbatim>\<open>bfloat16\<close>, the TileLang decode path (heads padded to a
  multiple of eight, pages of 8, 16, 32 or 64 keys packed into groups of 64, blocks in any order)
  returns exactly the logits of the torch reference, when the pages below each length exist and the
  table has room for the length; what unread shared memory holds does not matter.
\<close>

theorem tilelang_decode_is_reference:
  assumes q: "tensor3_ok heads d q" and rd: "decode_ready P maxp d q kc tab lens" and P: "8 \<le> P" "64 mod P = 0"
    and ex: "exact_in bf (t_rows q)" "exact_in bf (t_rows kc)" and s: "fair_order sched"
  shows "tilelang_qsa_mqa_decode True bf stale sched sq_root q kc tab lens max_len score_scale =
    torch_qsa_mqa_decode sq_root q kc tab lens max_len score_scale"
proof (cases "heads = 0 \<or> d = 0")
  case True
  then show ?thesis using validate_ok(1)[OF q]
    by (simp add: tilelang_qsa_mqa_decode_def torch_qsa_mqa_decode_def validate_decode_inputs_def)
next
  case False
  have R: "t_shape kc = [length (t_rows kc), P, 1, d]" "t_shape tab = [length (t_rows q), maxp]" "length lens = length (t_rows q)"
    and noerr: "\<not> (\<exists>row\<in>set (t_rows tab). \<exists>p\<in>set row. int (length (t_rows kc)) \<le> max 0 p)"
    using rd unfolding decode_ready_def by (blast, blast, blast, meson not_le)
  let ?B = "length (t_rows q)" and ?s = "scale_or (sq_root d) score_scale" and ?kh = "max 8 ((heads + 7) div 8 * 8)"
  have qs: "t_shape q = [?B, heads, d]" using q by (simp add: tensor3_ok_def)
  then have sh: "t_shape q ! 0 = ?B" "t_shape q ! 1 = heads" "t_shape q ! 2 = d" "last (t_shape q) = d" "t_shape kc ! 1 = P" "t_shape tab ! 1 = maxp"
    using R(1,2) by (simp_all add: numeral_2_eq_2)
  have v: "validate_decode_inputs q kc tab lens = Inr ()"
    using False validate_ok(1)[OF q] R by (simp add: validate_decode_inputs_def qs numeral_2_eq_2)
  define qk where "qk = map (\<lambda>row. row @ replicate (?kh - heads) (replicate d 0)) (t_rows q)"
  have "map (map bf) row = row" if "row \<in> set (t_rows q)" for row
    using ex(1) that unfolding exact_in_def by (intro map_idI) auto
  then have qb: "map (\<lambda>row. map (map bf) row @ replicate (?kh - heads) (replicate d 0)) (t_rows q) = qk"
    unfolding qk_def by (intro map_cong) simp_all
  let ?ws = "concat (map (decode_cta relu_sum (\<lambda>x. x / ?s) stale P 1 qk (t_rows kc) (t_rows tab) lens) (sched (decode_grid ?B maxp (64 div P) 1)))"
  let ?L = "replicate ?B (replicate max_len (None :: logit))"
  have rows: "store_all ?L ?ws = ok_or [] (torch_qsa_mqa_decode sq_root q kc tab lens max_len score_scale)"
    and ok: "is_ok (torch_qsa_mqa_decode sq_root q kc tab lens max_len score_scale)"
  proof -
    have "relu_sum (qk ! b) key = relu_sum (t_rows q ! b) key" if "b < ?B" for b key using that by (simp add: qk_def relu_sum_padded)
    then have "ok_or [] (torch_qsa_mqa_decode sq_root q kc tab lens max_len score_scale) = map ((!) (store_all ?L ?ws)) [0..<?B]"
      using noerr by (auto simp: decode_row[OF rd P s] torch_qsa_mqa_decode_def v Let_def sh simp del: One_nat_def cong: map_cong if_cong)
    also have "\<dots> = store_all ?L ?ws" using store_all_shape[of ?L ?ws] map_nth[of "store_all ?L ?ws"] by simp
    finally show "store_all ?L ?ws = ok_or [] (torch_qsa_mqa_decode sq_root q kc tab lens max_len score_scale)" ..
  qed (use noerr in \<open>simp add: torch_qsa_mqa_decode_def v Let_def sh\<close>)
  show ?thesis
  proof (cases "t_rows q = [] \<or> max_len = 0")
    case True
    then show ?thesis unfolding torch_qsa_mqa_decode_def using P False noerr
      by (auto simp: tilelang_qsa_mqa_decode_def v Let_def sh map_replicate_const simp del: One_nat_def)
  next
    case nonempty: False
    have "tilelang_qsa_mqa_decode True bf stale sched sq_root q kc tab lens max_len score_scale = Inr (store_all ?L ?ws)"
      using nonempty P False by (simp add: tilelang_qsa_mqa_decode_def v Let_def sh qb exact_map[OF ex(2)] del: One_nat_def)
    then show ?thesis unfolding rows using ok by (cases "torch_qsa_mqa_decode sq_root q kc tab lens max_len score_scale") simp_all
  qed
qed

definition ex_cache :: "rat list list tensor" where
  "ex_cache = \<lparr>t_shape = [3, 8, 1, 1], t_rows = [map (\<lambda>i. [of_nat i]) [0..<8], map (\<lambda>i. [of_nat i + 10]) [0..<8], map (\<lambda>i. [of_nat i + 20]) [0..<8]]\<rparr>"

definition ex_table :: "int list tensor" where
  "ex_table = \<lparr>t_shape = [2, 2], t_rows = [[2, 0], [1, - 1]]\<rparr>"

definition ex_dq :: "rat list list tensor" where
  "ex_dq = \<lparr>t_shape = [2, 1, 1], t_rows = [[[1]], [[2]]]\<rparr>"

theorem tilelang_decode_is_reference_witness:
  "tilelang_qsa_mqa_decode True (\<lambda>x. x) (\<lambda>_ _. [99]) rev (\<lambda>_. 1) ex_dq ex_cache ex_table [10, 3] 12 None =
     Inr [[Some 20, Some 21, Some 22, Some 23, Some 24, Some 25, Some 26, Some 27, Some 0, Some 1, None, None],
          [Some 20, Some 22, Some 24, None, None, None, None, None, None, None, None, None]]"
proof -
  have ok: "tensor3_ok 1 1 ex_dq" "exact_in (\<lambda>x. x) (t_rows ex_dq)" "exact_in (\<lambda>x. x) (t_rows ex_cache)"
    by (simp_all add: tensor3_ok_def exact_in_def ex_dq_def)
  have rd: "decode_ready 8 2 1 ex_dq ex_cache ex_table [10, 3]"
    by (simp add: decode_ready_def ex_dq_def ex_cache_def ex_table_def All_less_Suc numeral_2_eq_2)
  have f: "fair_order (rev :: (nat \<times> nat) list \<Rightarrow> _)" by (simp add: fair_order_def)
  have "torch_qsa_mqa_decode (\<lambda>_. 1) ex_dq ex_cache ex_table [10, 3] 12 None =
     Inr [[Some 20, Some 21, Some 22, Some 23, Some 24, Some 25, Some 26, Some 27, Some 0, Some 1, None, None],
          [Some 20, Some 22, Some 24, None, None, None, None, None, None, None, None, None]]"
    by code_simp
  then show ?thesis
    using tilelang_decode_is_reference[OF ok(1) rd _ _ ok(2,3) f, of "\<lambda>_ _. [99]" "\<lambda>_. 1" 12 None] by simp
qed

end
