(* ===== verification/Spec2Isabelle.thy ===== *)
theory Spec2Isabelle
  imports Cold_Padding Expert_Tier Mamba_Deferred Topk_Props Ple_Model Weight_Routing Ple_Live Kv_Commit Kv_Workspace
    Hybrid_Linear Mamba_Window Qsa_Attention Qsa_Equiv
begin

text \<open>
  Verification library of an sglang overlay that serves Qwen3.8-Flash-Next on one consumer GPU. The
  overlay replaces files of the sglang runtime (\<^verbatim>\<open>src/runtime-src\<close>) and adds patches
  (\<^verbatim>\<open>src/patches\<close>). A request walks through these parts:

  \<^item> the request pools give it a row of the token table, a slot of the linear-attention states and two
    track slots (\<^verbatim>\<open>memory_pool.py\<close>), and the int8 checkpoint pool keeps the cached states
    (\<^verbatim>\<open>mamba_checkpoint_pool.py\<close>);
  \<^item> the attention layers store their keys and values in the KV pool and read them back, packed to four
    bits and dequantised into a workspace, or select the blocks of the context that matter
    (\<^verbatim>\<open>memory_pool.py\<close>, \<^verbatim>\<open>mqa.py\<close>, \<^verbatim>\<open>kernel.py\<close>, \<^verbatim>\<open>fast_topk.py\<close>); the linear-attention layers keep
    convolution windows and a recurrent state per slot in the mamba pool;
  \<^item> each forward lays its tokens out, looks the n-gram history of each request up, hashes the windows
    into ids of the PLE table and commits the history (\<^verbatim>\<open>qwen4_exp.py\<close>), and the rows come from a
    host table with its own file, sidecar and trimming (\<^verbatim>\<open>qwen4_exp_ple_table.py\<close>);
  \<^item> in each expert layer the router picks experts (\<^verbatim>\<open>topk.py\<close>); the cold pool
    (\<^verbatim>\<open>expert_cold_pool.py\<close>) or the ring tier (\<^verbatim>\<open>expert_tier.py\<close>) keep only a part of the experts on
    the device, mask the others and redirect the router's ids to device rows.

  Shared vocabulary. \<open>Prelude\<close>: the errors of Python as values (\<open>'a result\<close> is an error or a
  value), dictionaries in insertion order, tensors as lists with indexed stores. \<open>Torch_Ops\<close>: the
  contracts of \<^verbatim>\<open>torch.topk\<close> and \<^verbatim>\<open>torch.argsort\<close> as the locales \<open>topk_any\<close>, \<open>topk_op\<close> and
  \<open>argsort_op\<close>, interpreted on the stable sorts of the model. Floating-point numbers are exact
  rationals, with minus infinity as \<open>None\<close>; integers are \<open>int\<close>, \<open>nat\<close>, or 64-bit and 8-bit words
  where they wrap or clamp. Kernels and functions that are not in the repository are arguments.

  Cold pool (\<^verbatim>\<open>patches/expert_cold_pool.py\<close>). \<open>Cold_Tables\<close>: knobs, keep lists, remap, bias and pin
  tables. \<open>Cold_Pool\<close>: the expert module, the shrink to the kept rows with a pinned host copy, and the
  staging of rows (copy, evict, least recently used). \<open>Cold_Demand\<close>: the stash of the router, the
  demand and the forward hook. \<open>Cold_State\<close>: the steps of a serving loop as an inductive relation.
  \<open>Cold_Shrink\<close>, \<open>Cold_Inv\<close> and \<open>Cold_Safety\<close>: the layer invariant holds after a shrink and is kept by
  every step while demotion is off; \<open>Cold_Laws\<close>, \<open>Cold_Props\<close> and \<open>Cold_Gate\<close>: what is routable reads its own weights
  (C1), slots are conserved (C34), the laws of eviction, masking and demand, and what a second demotion
  destroys (C38); \<open>Cold_Padding\<close>: how padding in the stash shifts the scores the
  hook reads (C37).

  Ring tier (\<^verbatim>\<open>patches/expert_tier.py\<close>). \<open>Expert_Tier\<close>: construction, captured and eager remap, the hook
  of the fused layer; C36.

  Pools. \<open>Slot_Alloc\<close>: slot allocators as the locale \<open>slot_alloc\<close>. \<open>Req_Pool\<close>: the request slots, an
  instance of that contract. \<open>Hybrid_Pool\<close>: the mamba and track slots of the requests over any
  allocator of the contract, with an accounting invariant by multisets; C19. \<open>Mamba_Ckpt\<close>: int8
  quantisation per head and key channel, store, load and transfer, and the size of the pool; C23.

  KV pool (\<^verbatim>\<open>runtime-src/memory_pool.py\<close>, \<^verbatim>\<open>MHATokenToKVPool\<close>). \<open>Kv_Layout\<close>: sizes, layouts, shapes,
  byte spans and tile sizes. \<open>Kv_Buffer\<close>: a buffer as slot rows or as pages of heads, its indexed
  stores, and the locale \<open>row_store\<close> of what a store of rows promises, interpreted on the indexed
  store. \<open>Kv_Pool\<close>: conversion, plain, paged, masked, quantised and prefix stores, moves and host
  copies, over the library's kernels, whose contract is \<open>kernels_ok\<close> in \<open>Kv_Store\<close>. \<open>Kv_Commit\<close>: prefix
  commit (C12) and masked store (C40). \<open>Kv_Move\<close>: the chunked move is the simultaneous one (C18),
  the native move refines the move of a table, host copies return. \<open>Kv_Workspace\<close>: the workspaces of
  the dequantised prefix (C13). \<open>Hybrid_Linear\<close>: the pool of the whole model, which maps layer ids onto
  the KV pool and holds the mamba pool (C3, C14).

  Mamba pool. \<open>Mamba_Window\<close>: tensors, rings and the overlapping windows as addresses (C35), the
  bytes it reports and the descriptions for a transfer. \<open>Mamba_Pool\<close>: clear, clone and host round trip
  of slots, with side states through the locale \<open>slot_state\<close>. \<open>Mamba_Deferred\<close>
  (\<^verbatim>\<open>model_runner.py\<close>): what an extend forward does to the pool before its layers run, clearing the
  slots of new requests and cloning matched prefixes from active slots or int8 checkpoints
  (C24).

  Sparse attention. \<open>Qsa_Blocks\<close> (\<^verbatim>\<open>kernel.py\<close>, \<^verbatim>\<open>fast_topk.py\<close>): pooling, selection of blocks and
  their expansion to tokens. \<open>Qsa_Select\<close>: the Triton expansion is the reference (C20), the selection is
  causal (C9). \<open>Qsa_Attention\<close>: attention over the selected slots, dense for a short context (C8).
  \<open>Qsa_Mqa\<close> (\<^verbatim>\<open>mqa.py\<close>): the block scores, as the tensor reference and as programs of a grid that store
  into the logits. \<open>Qsa_Tiles\<close>: blocks never race (C22) and the split changes nothing (C21), in any
  arithmetic. \<open>Qsa_Equiv\<close>: the TileLang paths return the reference logits (C6, C7).

  Router (\<^verbatim>\<open>runtime-src/topk.py\<close>). \<open>Topk_Gates\<close>: the gates written with tensor operations, row by row;
  \<open>Topk_Laws\<close>: what they select (C32). \<open>Topk_Dispatch\<close>: which kernel runs for which platform
  and shape, with the arguments it gets (C11, C33). \<open>Topk_Select\<close>: \<^verbatim>\<open>select_experts\<close>, padding marks,
  shared experts and recording; \<open>Topk_Props\<close>: the remap and padding laws, and C10, which composes the
  router with the cold pool.

  PLE embedding (\<^verbatim>\<open>runtime-src/qwen4_exp.py\<close>). \<open>Ngram_Hash\<close>: multipliers, head vocabularies, shift and
  ids of a window on 64-bit words, with the ids of a text as specification (\<open>spec_ids\<close>); C25.
  \<open>Ple_Batch\<close>: layout, state slots, context, ids with the cache that layers share, commit and track
  snapshot. \<open>Ple_Layout\<close>: the layout enumerates the sequences; windows of a row with its history are
  windows of the text. \<open>Ple_Stream\<close>: the context pool as the locale \<open>ngram_store\<close>, with the indexed
  tensor as its instance. \<open>Ple_Props\<close>: a forward refines the extension of the texts (C4) and the
  fused decode path is the general one; \<open>Ple_Verify\<close>: speculative verification (C27).

  PLE layer (\<^verbatim>\<open>Qwen4ExpPLELayer\<close>, \<^verbatim>\<open>Qwen4ExpPinnedHostEmbedding\<close> and \<^verbatim>\<open>Qwen4ExpModel.forward\<close>).
  \<open>Flat_Memory\<close>: row-major memory and its chunks. \<open>Ple_Conv\<close>: the short convolution with its state per
  slot, against the convolution of the whole stream, and the states of a verification
  (C28). \<open>Ple_Lookup\<close>: the gather kernel and the collectives of a lookup; the
  contracts of the reduction and of the data-parallel exchange are the locales \<open>tensor_group\<close> and
  \<open>dp_layout\<close>, and a table sharded over ranks gives the rows of the whole table
  (C16). \<open>Ple_Layer\<close>: prefetch buffers, start and consumption of a prefetch, idle
  ranks. \<open>Ple_Forward\<close>: norms, gates and the output; the layer is a function of the texts and streams of
  its slots (C5). \<open>Ple_Model\<close>: the loop over the decoder layers, which
  starts the prefetch of the next layer before each one; prefetching changes no value
  (C15).

  PLE table (\<^verbatim>\<open>runtime-src/qwen4_exp_ple_table.py\<close> and the loading in \<^verbatim>\<open>qwen4_exp.py\<close>). \<open>Ple_Table\<close>: the
  sidecar over JSON values, names, pages, trimming, the copy of shards into the window of a rank, the
  check at construction and the seal. \<open>Ple_Seal\<close>: round trip of the sidecar, soundness of the seal, and
  where it fails (C29, C30, C39). \<open>Ple_Crash\<close>: starts, exits, crashes and write-backs as a step relation,
  with its invariant (C2) and the run in a shared directory that serves stale rows.
  \<open>Ple_Live\<close>: a trim ends (C31).

  Weights (\<^verbatim>\<open>load_weights\<close> in \<^verbatim>\<open>qwen4_exp.py\<close>). \<open>Py_Strings\<close>: the string operations of Python, and names
  with a number in the middle. \<open>Weight_Loading\<close>: the loop over the named tensors; what counts as
  loaded was written (C26). \<open>Weight_Routing\<close>: the tensors of the layers reach
  their slices, experts and parameters completely and without clashes (C17).

  Loops. Loops of the source run over finite lists and are structural recursions; the slices of a
  trim are a \<open>function\<close> with the measure of the bytes left. No fuel is used anywhere.

  Assumptions of the attention parts. Sums and products of the score and attention kernels are exact;
  the conversion to bfloat16 is an argument, and C6 and C7 ask that the operands are exact in it. A grid
  of blocks is a list of programs run in some order (any permutation), each a list of stores; stores
  outside a tensor are dropped, as the bounds checks of TileLang do, and loads outside it return arbitrary
  values. Operations on side streams are ordered as the code issues and joins them.

  Not modelled. Rounding of floating-point numbers; what a decoder layer does after its PLE part
  (attention, hyper-connections and experts are one function per layer); the stores and
  copies of the \<^verbatim>\<open>vectorized_5d\<close> layout beyond its shape; the other pools of \<^verbatim>\<open>memory_pool.py\<close> (no-op,
  FP4, page-major, MXFP8, latent attention, key-only, MiniMax); the NPU and CPU layouts of the mamba
  pool; the width of index types in the attention kernels; the rest of the model runner; the vendor forwards of the router (NPU, XPU, MUSA, AMX); the
  scripts that patch an installed package, and the probes, benchmarks and tests. Device synchronisation
  and threads appear only where a step relation orders them. A tensor read outside its range is an
  error of the model where the source can reach it and is excluded by a hypothesis elsewhere.
\<close>

end
